(* ===== verification/Prelude.thy ===== *)
theory Prelude
  imports "HOL-Library.Word" "HOL-Library.Signed_Division"
begin

text \<open>
  Shared ground of the development: the machine types of the Go sources, the result type
  for functions that return an error or panic, Go's integer operators where they differ
  from the library's, byte buffers read at a position, and the generic lemmas on words and
  lists that the component theories use.

  Go's fixed-width integers are words of that width.  A signed value (\<open>int64\<close>) is a
  \<open>64 word\<close> that is read with \<open>sint\<close>: comparisons of the source are comparisons of
  \<open>sint\<close>, its truncated division goes through \<open>sint\<close>, and its wrapping addition,
  subtraction and shifts are the word operations.  Go's \<open>int\<close> used as an index or a length
  is \<open>nat\<close> (or \<open>int\<close> where the source can make it negative).
\<close>

unbundle bit_operations_syntax

section \<open>Types\<close>

type_synonym u8 = "8 word"
type_synonym u16 = "16 word"
type_synonym u32 = "32 word"
type_synonym u64 = "64 word"
type_synonym i64 = "64 word"
type_synonym bytes = "u8 list"

text \<open>
  A Go function that may fail returns \<open>Inl (Error msg)\<close>, where the message is the fixed
  part of the source's format string, or \<open>Inl Panic\<close> where the source panics (an explicit
  \<^verbatim>\<open>panic\<close>, an index or a slice bound out of range).
\<close>

datatype go_fail = Error string | Panic

type_synonym 'a res = "go_fail + 'a"

fun sbind :: "'e + 'a \<Rightarrow> ('a \<Rightarrow> 'e + 'b) \<Rightarrow> 'e + 'b" where
  "sbind (Inl e) f = Inl e"
| "sbind (Inr a) f = f a"

definition fails :: "'a res \<Rightarrow> bool" where
  "fails r = (case r of Inl _ \<Rightarrow> True | Inr _ \<Rightarrow> False)"

lemma sbind_Inr_iff: "sbind r f = Inr b \<longleftrightarrow> (\<exists>a. r = Inr a \<and> f a = Inr b)"
  by (cases r) auto

lemma sbind_assoc: "sbind (sbind r f) g = sbind r (\<lambda>a. sbind (f a) g)"
  by (cases r) auto

lemma sbind_Inl_cases:
  "sbind x f = Inl e \<Longrightarrow> (x = Inl e \<Longrightarrow> P) \<Longrightarrow> (\<And>a. x = Inr a \<Longrightarrow> f a = Inl e \<Longrightarrow> P) \<Longrightarrow> P"
  by (cases x) auto

lemma sbind_cong [fundef_cong]:
  "r = r' \<Longrightarrow> (\<And>a. r' = Inr a \<Longrightarrow> f a = g a) \<Longrightarrow> sbind r f = sbind r' g"
  by (cases r') auto

lemma sbindE:
  assumes "sbind r f = Inr b"
  obtains a where "r = Inr a" and "f a = Inr b"
  using assms by (cases r) auto

lemma fails_simps [simp]: "fails (Inl e)" "\<not> fails (Inr a)"
  by (simp_all add: fails_def)

section \<open>Go's integer operators\<close>

text \<open>Signed division and remainder truncate towards zero.\<close>

definition gdiv :: "i64 \<Rightarrow> i64 \<Rightarrow> i64" where
  "gdiv a b = word_of_int (sint a sdiv sint b)"

definition gmod :: "i64 \<Rightarrow> i64 \<Rightarrow> i64" where
  "gmod a b = word_of_int (sint a smod sint b)"

text \<open>Population count (\<^verbatim>\<open>bits.OnesCount64\<close>).\<close>

definition ones_count :: "u64 \<Rightarrow> nat" where
  "ones_count w = length (filter (bit w) [0..<64])"

named_theorems go_defs \<open>definitions of the Go operators, to be unfolded on ground terms\<close>

lemmas go_ops [go_defs] = gdiv_def gmod_def ones_count_def

section \<open>Signed readings\<close>

lemma sint_range64: "- (2 ^ 63) \<le> sint (w :: i64)" "sint (w :: i64) < 2 ^ 63"
  using sint_range_size [of w] by (simp_all add: word_size)

lemma sint_word_of_int64:
  "- (2 ^ 63) \<le> i \<Longrightarrow> i < 2 ^ 63 \<Longrightarrow> sint (word_of_int i :: i64) = i"
  by (simp add: signed_of_int signed_take_bit_int_eq_self)

lemma uint_take_sint: "uint (w :: i64) = take_bit 64 (sint w)"
proof -
  have "uint (word_of_int (sint w) :: i64) = take_bit LENGTH(64) (sint w)"
    by (rule uint_word_of_int_eq)
  then show ?thesis by simp
qed

lemma sint_eq_uint64: "0 \<le> sint (w :: i64) \<Longrightarrow> uint w = sint w"
  using sint_range64 [of w] by (simp add: uint_take_sint take_bit_int_eq_self)

lemma sint_nonneg_nat: "0 \<le> sint (w :: i64) \<Longrightarrow> sint w = int (unat w)"
  by (metis sint_eq_uint64 uint_nat)

lemma sint_exp64: "w < 63 \<Longrightarrow> sint (2 ^ w :: i64) = 2 ^ w"
proof -
  assume "w < 63"
  then have "(2 :: int) ^ w < 2 ^ 63" by (rule power_strict_increasing) simp
  then have "sint (word_of_int (2 ^ w) :: i64) = 2 ^ w"
    by (intro sint_word_of_int64) (auto intro: order_trans [of _ 0])
  then show ?thesis by simp
qed

lemma sint_neg_exp64: "w < 63 \<Longrightarrow> sint (- (2 ^ w) :: i64) = - (2 ^ w)"
proof -
  assume "w < 63"
  then have "(2 :: int) ^ w < 2 ^ 63" by (rule power_strict_increasing) simp
  then have "sint (word_of_int (- (2 ^ w)) :: i64) = - (2 ^ w)"
    by (intro sint_word_of_int64) (use zero_less_power [of "2 :: int" w] in \<open>linarith+\<close>)
  then show ?thesis by simp
qed

lemma bit_int_sign:
  assumes "- (2 ^ m) \<le> k" "k < 2 ^ m" "m \<le> i"
  shows "bit (k :: int) i \<longleftrightarrow> k < 0"
proof -
  have le: "(2 :: int) ^ m \<le> 2 ^ i" using assms(3) by (simp add: power_increasing)
  show ?thesis
  proof (cases "k < 0")
    case True
    have "k div 2 ^ i = - 1"
      by (rule int_div_pos_eq [where r = "k + 2 ^ i"]) (use True assms le in \<open>linarith+\<close>)
    with True show ?thesis by (simp add: bit_iff_odd)
  next
    case False
    have "k div 2 ^ i = 0"
      by (rule div_pos_pos_trivial) (use False assms le in \<open>linarith+\<close>)
    with False show ?thesis by (simp add: bit_iff_odd)
  qed
qed

lemma bit_i64_sign:
  assumes "- (2 ^ m) \<le> sint y" "sint y < 2 ^ m" "m \<le> i" "i < 64"
  shows "bit (y :: i64) i \<longleftrightarrow> sint y < 0"
  using bit_int_sign [OF assms(1-3)] assms(4) by (simp add: bit_sint_iff)

section \<open>Division\<close>

lemma find_SomeD: "find P xs = Some x \<Longrightarrow> x \<in> set xs \<and> P x"
  by (induction xs) (auto split: if_splits)

lemma find_case_Inr:
  "(case find P xs of None \<Rightarrow> Inl e | Some x \<Rightarrow> Inr (f x)) = Inr b \<Longrightarrow> \<exists>x\<in>set xs. P x \<and> b = f x"
  by (auto split: option.splits dest: find_SomeD)

lemma sint_zero_iff: "sint (w :: i64) = 0 \<longleftrightarrow> w = 0"
proof
  assume "sint w = 0"
  moreover have "w = word_of_int (sint w)" by simp
  ultimately show "w = 0" by (simp only: of_int_0)
qed simp

lemma sint_gdiv:
  assumes "0 < sint s"
  shows "sint (gdiv v s) = sint v sdiv sint s"
  unfolding gdiv_def
proof (rule sint_word_of_int64)
  have r: "sint v sdiv sint s \<in> {- \<bar>sint v\<bar>..\<bar>sint v\<bar>}" by (rule sdiv_int_range)
  have neg: "sint v sdiv sint s \<le> 0" if "sint v < 0"
    using that assms by (simp add: signed_divide_int_def pos_imp_zdiv_nonneg_iff)
  show "- (2 ^ 63) \<le> sint v sdiv sint s" "sint v sdiv sint s < 2 ^ 63"
    using r neg sint_range64 [of v] by (auto simp: abs_if split: if_splits)
qed

lemma sint_gmod:
  assumes "0 < sint s"
  shows "sint (gmod v s) = sint v smod sint s"
  unfolding gmod_def
proof (rule sint_word_of_int64)
  have r: "sint v smod sint s \<in> {- \<bar>sint s\<bar> + 1..\<bar>sint s\<bar> - 1}"
    using assms by (intro smod_int_range) simp
  show "- (2 ^ 63) \<le> sint v smod sint s" "sint v smod sint s < 2 ^ 63"
    using r assms sint_range64 [of s] by auto
qed

lemma gmod_zero_iff:
  assumes "0 < sint s"
  shows "gmod v s = 0 \<longleftrightarrow> sint s dvd sint v"
proof -
  have "gmod v s = 0 \<longleftrightarrow> sint (gmod v s) = 0" by (simp only: sint_zero_iff)
  also have "\<dots> \<longleftrightarrow> sint v smod sint s = 0" unfolding sint_gmod [OF assms] ..
  also have "\<dots> \<longleftrightarrow> sint s dvd sint v"
    by (auto simp: smod_int_alt_def sgn_if dvd_eq_mod_eq_0 [symmetric] split: if_splits)
  finally show ?thesis .
qed

lemma gdiv_exact:
  assumes "0 < sint s" and "gmod v s = 0"
  shows "sint v = sint (gdiv v s) * sint s"
  using assms by (simp add: gmod_zero_iff sint_gdiv signed_divide_int_eq_divide_int)

lemma gdiv_mult:
  assumes "0 < sint s" and "gmod v s = 0"
  shows "gdiv v s * s = v"
proof -
  have "v = word_of_int (sint v)" by simp
  also have "\<dots> = word_of_int (sint (gdiv v s)) * word_of_int (sint s)"
    unfolding gdiv_exact [OF assms] by simp
  finally show ?thesis by simp
qed

lemma gdiv_nonneg: "0 < sint s \<Longrightarrow> 0 \<le> sint v \<Longrightarrow> 0 \<le> sint (gdiv v s)"
  by (auto simp: sint_gdiv signed_divide_int_def sgn_if pos_imp_zdiv_nonneg_iff)

section \<open>Bits of words\<close>

lemma bit_low_mask: "bit (push_bit n 1 - 1 :: 'a::len word) i \<longleftrightarrow> i < n \<and> i < LENGTH('a)"
  by (auto simp flip: push_bit_eq_mult mask_eq_exp_minus_1 simp add: bit_simps push_bit_of_1)

lemma bit_exp_mask: "bit (2 ^ n - 1 :: 'a::len word) i \<longleftrightarrow> i < n \<and> i < LENGTH('a)"
  by (auto simp flip: mask_eq_exp_minus_1 simp add: bit_simps)

lemma bit_less_exp: "w < 2 ^ k \<Longrightarrow> bit (w :: 'a::len word) i \<Longrightarrow> i < k"
  using less_mask_eq [of w k] by (metis bit_and_iff bit_mask_iff)

lemma bit_less_64: "w < 64 \<Longrightarrow> bit (w :: u32) i \<Longrightarrow> i < 6"
  using bit_less_exp [of w 6 i] by simp

lemma low_mask_full: "u AND 0xFFFFFFFFFFFFFFFF = (u :: u64)"
proof -
  have "(0xFFFFFFFFFFFFFFFF :: u64) = - 1" by simp
  then show ?thesis by (simp only: and.right_neutral)
qed

lemma bit31_field: "drop_bit 31 (w :: u32) AND 1 = (if bit w 31 then 1 else 0)"
  by (simp add: and_one_eq bit_iff_odd_drop_bit odd_iff_mod_2_eq_one)

lemma bit31_set: "drop_bit 31 (w :: u32) AND 1 = 1 \<longleftrightarrow> bit w 31"
  by (simp add: bit31_field)

section \<open>Formatting\<close>

text \<open>\<^verbatim>\<open>%d\<close> of a non-negative number.\<close>

fun dec :: "nat \<Rightarrow> string" where
  "dec n = (if n < 10 then [char_of (48 + n)] else dec (n div 10) @ [char_of (48 + n mod 10)])"

declare dec.simps [simp del]

text \<open>\<^verbatim>\<open>strings.Join\<close>.\<close>

fun join :: "string \<Rightarrow> string list \<Rightarrow> string" where
  "join sep [] = []"
| "join sep [a] = a"
| "join sep (a # b # as) = a @ sep @ join sep (b # as)"

end
