(* ===== verification/Enc_Slots.thy ===== *)
theory Enc_Slots
  imports Prelude
begin

text \<open>
  \<^verbatim>\<open>tools/aarch64enc\<close>: the form types (\<^verbatim>\<open>types.go\<close>), the per-slot operand encoders
  (\<^verbatim>\<open>slots_*.go\<close>) and the form encoder (\<^verbatim>\<open>encode.go\<close>).  A slot encoder returns the bits
  the operand contributes to the instruction word, or an error.
\<close>

section \<open>Types\<close>

text \<open>
  \<^verbatim>\<open>SlotKind\<close> is a Go byte with named constants; \<open>SlotOther\<close> stands for the bytes that are
  none of them (\<^verbatim>\<open>Name\<close> says "Unknown" and the encoder rejects them).  The tags that are
  parsed from a file (operand kinds, extends, conditions) stay bytes.
\<close>

datatype SlotKind =
    Xreg | Wreg | XregOrSp | WregOrSp
  | Imm5 | Imm6 | CondCode | Imm16
  | Imm12Shifted | Imm16Shifted | ShiftAmount | ExtendOp
  | BranchImm26 | BranchImm19 | BranchImm14
  | AdrpImm | LogicalImm | BitfieldImm | AdrImm
  | SlotOther u8

fun slot_code :: "SlotKind \<Rightarrow> u8" where
  "slot_code Xreg = 0x01"
| "slot_code Wreg = 0x02"
| "slot_code XregOrSp = 0x03"
| "slot_code WregOrSp = 0x04"
| "slot_code Imm5 = 0x05"
| "slot_code Imm6 = 0x06"
| "slot_code CondCode = 0x07"
| "slot_code Imm16 = 0x08"
| "slot_code Imm12Shifted = 0x10"
| "slot_code Imm16Shifted = 0x11"
| "slot_code ShiftAmount = 0x12"
| "slot_code ExtendOp = 0x13"
| "slot_code BranchImm26 = 0x20"
| "slot_code BranchImm19 = 0x21"
| "slot_code BranchImm14 = 0x22"
| "slot_code AdrpImm = 0x23"
| "slot_code LogicalImm = 0x24"
| "slot_code BitfieldImm = 0x25"
| "slot_code AdrImm = 0x26"
| "slot_code (SlotOther b) = b"

type_synonym operand_kind = u8

text \<open>
  Bit positions and widths are table constants below 32; they are kept as \<open>nat\<close>
  (\<^verbatim>\<open>uint8\<close> in the source).
\<close>

record operand_slot =
  slot_kind :: SlotKind
  expected_kind :: operand_kind
  bit_position :: nat
  bit_width :: nat

record form =
  mnemonic_id :: u16
  pattern :: u32
  mask_bits :: u32
  slots :: "operand_slot list"

record operand_value =
  reg :: u8
  imm :: i64
  shift_kind :: u8
  extend_kind :: u8
  cond :: u8

section \<open>Simple fields\<close>

definition encode_reg :: "operand_slot \<Rightarrow> u8 \<Rightarrow> u32 res" where
  "encode_reg slot r =
     (if r > 31 then Inl (Error ''register index > 31'')
      else Inr (push_bit (bit_position slot) (ucast r)))"

definition encode_imm_n :: "operand_slot \<Rightarrow> i64 \<Rightarrow> u32 res" where
  "encode_imm_n slot v =
     (if sint v < 0 \<or> sint v \<ge> sint (push_bit (bit_width slot) 1 :: i64)
      then Inl (Error ''immediate does not fit'')
      else Inr (push_bit (bit_position slot) (ucast v)))"

definition encode_cond :: "operand_slot \<Rightarrow> u8 \<Rightarrow> u32 res" where
  "encode_cond slot cc =
     (if cc > 15 then Inl (Error ''cond code > 15'')
      else Inr (push_bit (bit_position slot) (ucast cc)))"

section \<open>Immediates with an internal shift\<close>

definition encode_imm12_shifted :: "operand_slot \<Rightarrow> i64 \<Rightarrow> u32 res" where
  "encode_imm12_shifted slot v =
     (if 0 \<le> sint v \<and> sint v < 2 ^ 12 then Inr (push_bit (bit_position slot) (ucast v))
      else if 2 ^ 12 \<le> sint v \<and> sint v < 2 ^ 24 \<and> v AND 0xFFF = 0
      then Inr (push_bit (bit_position slot) (ucast (signed_drop_bit 12 v))
                OR push_bit (bit_position slot + 12) 1)
      else Inl (Error ''Imm12Shifted: cannot be encoded as imm12 or imm12 lsl #12''))"

definition encode_imm16_shifted :: "operand_slot \<Rightarrow> i64 \<Rightarrow> u8 \<Rightarrow> u32 res" where
  "encode_imm16_shifted slot v hw =
     (if sint v < 0 \<or> sint v \<ge> 2 ^ 16 then Inl (Error ''Imm16Shifted: imm does not fit in 16 bits'')
      else if hw > 3 then Inl (Error ''Imm16Shifted: hw > 3'')
      else Inr (push_bit (bit_position slot) (ucast v)
                OR push_bit (bit_position slot + 16) (ucast hw)))"

definition encode_shift_amount :: "operand_slot \<Rightarrow> i64 \<Rightarrow> u32 res" where
  "encode_shift_amount slot amt = encode_imm_n slot amt"

definition encode_extend_op :: "operand_slot \<Rightarrow> u8 \<Rightarrow> u8 \<Rightarrow> u32 res" where
  "encode_extend_op slot ext shift =
     (if shift > 4 then Inl (Error ''ExtendOp: shift > 4'')
      else Inr (push_bit (bit_position slot + 3) (ucast ext)
                OR push_bit (bit_position slot) (ucast shift)))"

section \<open>PC-relative fields\<close>

definition encode_branch_imm :: "operand_slot \<Rightarrow> i64 \<Rightarrow> u32 res" where
  "encode_branch_imm slot byte_offset =
     (if gmod byte_offset 4 \<noteq> 0 then Inl (Error ''BranchImm: offset not 4-byte aligned'')
      else let instr_offset = gdiv byte_offset 4;
               half = push_bit (bit_width slot - 1) 1 :: i64
           in if sint instr_offset \<ge> sint half \<or> sint instr_offset < sint (- half)
              then Inl (Error ''BranchImm: instruction offset out of range'')
              else Inr (push_bit (bit_position slot)
                     (ucast instr_offset AND (push_bit (bit_width slot) 1 - 1))))"

definition pack_imm21 :: "i64 \<Rightarrow> u32" where
  "pack_imm21 v =
     (let imm21 = ucast v AND (push_bit 21 1 - 1) :: u32;
          immlo = imm21 AND 0x3;
          immhi = drop_bit 2 imm21 AND (push_bit 19 1 - 1)
      in push_bit 29 immlo OR push_bit 5 immhi)"

definition encode_adrp_imm :: "operand_slot \<Rightarrow> i64 \<Rightarrow> u32 res" where
  "encode_adrp_imm slot byte_offset =
     (if gmod byte_offset 4096 \<noteq> 0 then Inl (Error ''AdrpImm: offset not page-aligned'')
      else let page_offset = gdiv byte_offset 4096
           in if sint page_offset \<ge> 2 ^ 20 \<or> sint page_offset < - (2 ^ 20)
              then Inl (Error ''AdrpImm: page offset out of range'')
              else Inr (pack_imm21 page_offset))"

definition encode_adr_imm :: "operand_slot \<Rightarrow> i64 \<Rightarrow> u32 res" where
  "encode_adr_imm slot byte_offset =
     (if sint byte_offset \<ge> 2 ^ 20 \<or> sint byte_offset < - (2 ^ 20)
      then Inl (Error ''AdrImm: byte offset out of range'')
      else Inr (pack_imm21 byte_offset))"

section \<open>Bitfield aliases\<close>

definition encode_bitfield_bfi ::
  "operand_slot \<Rightarrow> operand_slot \<Rightarrow> int \<Rightarrow> i64 \<Rightarrow> i64 \<Rightarrow> u32 res" where
  "encode_bitfield_bfi immr_slot imms_slot regsize lsb width =
     (if regsize \<noteq> 32 \<and> regsize \<noteq> 64 then Inl (Error ''BitfieldBFI: regsize must be 32 or 64'')
      else if sint lsb < 0 \<or> sint lsb \<ge> regsize then Inl (Error ''BitfieldBFI: lsb out of range'')
      else if sint width < 1 \<or> sint width > regsize - sint lsb
      then Inl (Error ''BitfieldBFI: width out of range'')
      else let immr = ucast ((- lsb) AND word_of_int (regsize - 1)) AND 0x3F :: u32;
               imms = ucast (width - 1) AND 0x3F
           in Inr (push_bit (bit_position immr_slot) immr OR push_bit (bit_position imms_slot) imms))"

definition encode_bitfield_ubfx ::
  "operand_slot \<Rightarrow> operand_slot \<Rightarrow> i64 \<Rightarrow> i64 \<Rightarrow> u32 res" where
  "encode_bitfield_ubfx immr_slot imms_slot lsb width =
     (if sint lsb < 0 \<or> sint lsb \<ge> 64 then Inl (Error ''BitfieldUBFX: lsb out of range'')
      else if sint width < 1 \<or> sint (lsb + width) > 64
      then Inl (Error ''BitfieldUBFX: width out of range'')
      else let immr = ucast lsb AND 0x3F :: u32;
               imms = ucast (lsb + width - 1) AND 0x3F
           in Inr (push_bit (bit_position immr_slot) immr OR push_bit (bit_position imms_slot) imms))"

end
