(* ===== verification/Fmt_Tables.thy ===== *)
theory Fmt_Tables
  imports Prelude
begin

text \<open>
  The name tables of \<^verbatim>\<open>tools/sam-aarch64-format\<close>: operand kinds, shifts, extends and
  conditions (\<^verbatim>\<open>operands.go\<close>), record kinds (\<^verbatim>\<open>kinds.go\<close>), mnemonics (\<^verbatim>\<open>mnemonics.go\<close>) and
  directives (\<^verbatim>\<open>directives.go\<close>).  The tags are bytes on disk and stay bytes here.
\<close>

section \<open>Operand kinds\<close>

abbreviation OpRegX :: u8 where "OpRegX \<equiv> 1"
abbreviation OpRegW :: u8 where "OpRegW \<equiv> 2"
abbreviation OpRegXSP :: u8 where "OpRegXSP \<equiv> 3"
abbreviation OpRegWSP :: u8 where "OpRegWSP \<equiv> 4"
abbreviation OpImmExpr :: u8 where "OpImmExpr \<equiv> 5"
abbreviation OpShiftedReg :: u8 where "OpShiftedReg \<equiv> 6"
abbreviation OpExtendedReg :: u8 where "OpExtendedReg \<equiv> 7"
abbreviation OpMem :: u8 where "OpMem \<equiv> 8"
abbreviation OpString :: u8 where "OpString \<equiv> 9"
abbreviation OpCond :: u8 where "OpCond \<equiv> 10"
abbreviation OpSysName :: u8 where "OpSysName \<equiv> 11"
abbreviation OpLitPool :: u8 where "OpLitPool \<equiv> 12"

definition operand_kind_name :: "u8 \<Rightarrow> string" where
  "operand_kind_name k =
     (if k = OpRegX then ''REG_X''
      else if k = OpRegW then ''REG_W''
      else if k = OpRegXSP then ''REG_X_SP''
      else if k = OpRegWSP then ''REG_W_SP''
      else if k = OpImmExpr then ''IMM_EXPR''
      else if k = OpShiftedReg then ''SHIFTED_REG''
      else if k = OpExtendedReg then ''EXTENDED_REG''
      else if k = OpMem then ''MEM''
      else if k = OpString then ''STRING''
      else if k = OpCond then ''COND''
      else if k = OpSysName then ''SYS_NAME''
      else if k = OpLitPool then ''LIT_POOL''
      else ''UNKNOWN'')"

text \<open>
  The \<^verbatim>\<open>Name\<close> methods of the shift, extend and condition codes index a fixed array: an
  index out of range panics.
\<close>

definition index_name :: "string list \<Rightarrow> u8 \<Rightarrow> string res" where
  "index_name names b = (if unat b < length names then Inr (names ! unat b) else Inl Panic)"

definition shift_names :: "string list" where
  "shift_names = [''lsl'', ''lsr'', ''asr'', ''ror'']"

definition extend_names :: "string list" where
  "extend_names = [''uxtb'', ''uxth'', ''uxtw'', ''uxtx'', ''sxtb'', ''sxth'', ''sxtw'', ''sxtx'']"

definition cond_names :: "string list" where
  "cond_names = [''eq'', ''ne'', ''cs'', ''cc'', ''mi'', ''pl'', ''vs'', ''vc'',
     ''hi'', ''ls'', ''ge'', ''lt'', ''gt'', ''le'', ''al'', ''nv'']"

definition shift_kind_name :: "u8 \<Rightarrow> string res" where
  "shift_kind_name = index_name shift_names"

definition extend_kind_name :: "u8 \<Rightarrow> string res" where
  "extend_kind_name = index_name extend_names"

definition cond_code_name :: "u8 \<Rightarrow> string res" where
  "cond_code_name = index_name cond_names"

section \<open>Record kinds\<close>

abbreviation KindInst :: u8 where "KindInst \<equiv> 1"
abbreviation KindLabelDef :: u8 where "KindLabelDef \<equiv> 2"
abbreviation KindLocalDef :: u8 where "KindLocalDef \<equiv> 3"
abbreviation KindDirective :: u8 where "KindDirective \<equiv> 4"
abbreviation KindComment :: u8 where "KindComment \<equiv> 5"
abbreviation KindBlankRun :: u8 where "KindBlankRun \<equiv> 6"
abbreviation KindLitInsts :: u8 where "KindLitInsts \<equiv> 7"
abbreviation KindLitData :: u8 where "KindLitData \<equiv> 8"
abbreviation KindInsnRun :: u8 where "KindInsnRun \<equiv> 9"

definition record_kind_name :: "u8 \<Rightarrow> string" where
  "record_kind_name k =
     (if k = KindInst then ''INST''
      else if k = KindLabelDef then ''LABEL_DEF''
      else if k = KindLocalDef then ''LOCAL_DEF''
      else if k = KindDirective then ''DIRECTIVE''
      else if k = KindComment then ''COMMENT''
      else if k = KindBlankRun then ''BLANK_RUN''
      else if k = KindLitInsts then ''LIT_INSTS''
      else if k = KindLitData then ''LIT_DATA''
      else if k = KindInsnRun then ''INSN_RUN''
      else ''UNKNOWN'')"

definition record_kind_known :: "u8 \<Rightarrow> bool" where
  "record_kind_known k \<longleftrightarrow> record_kind_name k \<noteq> ''UNKNOWN''"

section \<open>Mnemonics and directives\<close>

definition MnemonicTable :: "string list" where
  "MnemonicTable = [
    ''nop'', ''add'', ''sub'', ''mov'', ''mvn'', ''ldr'', ''str'', ''ldp'', ''stp'', ''b'',
    ''bl'', ''br'', ''ret'', ''adrp'', ''and'', ''orr'', ''eor'', ''lsl'', ''lsr'', ''cmp'',
    ''cbz'', ''cbnz'', ''tbz'', ''tbnz'', ''csel'', ''csinc'', ''b.eq'', ''b.ne'', ''b.cs'',
    ''b.cc'', ''b.mi'', ''b.pl'', ''b.vs'', ''b.vc'', ''b.hi'', ''b.ls'', ''b.ge'', ''b.lt'',
    ''b.gt'', ''b.le'', ''b.al'', ''b.nv'', ''b.hs'', ''b.lo'', ''blr'', ''subs'', ''tst'',
    ''bic'', ''adr'', ''bfi'', ''bfxil'', ''ubfx'', ''csetm'', ''movk'', ''ldrb'', ''strb'',
    ''ldrh'', ''strh'', ''madd'', ''msub'', ''umull'', ''umulh'', ''umaddl'', ''umsubl'',
    ''movl'', ''eret'', ''isb'', ''dsb'', ''dmb'', ''wfi'', ''ror'', ''mul'', ''udiv'',
    ''sxtw'', ''stur'', ''ldur'', ''mrs'', ''msr'', ''dc'', ''tlbi'', ''ands'', ''movz'',
    ''movn'', ''bfc'', ''sbfx'', ''ldrsb'', ''ldrsh'', ''ldrsw'', ''ccmp'', ''udf'', ''sxth'',
    ''sxtb'', ''uxtb'', ''uxth'', ''sturh'', ''sturb'', ''ldurh'', ''ldurb'', ''adds'',
    ''sdiv'', ''ccmn'', ''csinv'', ''csneg'']"

definition DirectiveTable :: "string list" where
  "DirectiveTable = [
    ''.text'', ''.data'', ''.byte'', ''.short'', ''.word'', ''.quad'', ''.ascii'', ''.asciz'',
    ''.equ'', ''.set'', ''.global'', ''.balign'', ''.org'', ''.skip'', ''.space'', ''.inst'',
    ''.align'', ''.ltorg'', ''.section'', ''.arch'', ''.cpu'', ''.hword'']"

text \<open>
  The index of a table: the source fills a map in table order, so a repeated name would keep
  its last position.
\<close>

definition table_index :: "string list \<Rightarrow> string \<Rightarrow> nat option" where
  "table_index names = map_of (rev (zip names [0..<length names]))"

definition mnemonic_id_of :: "string \<Rightarrow> u16 option" where
  "mnemonic_id_of name = map_option of_nat (table_index MnemonicTable name)"

definition mnemonic_name :: "u16 \<Rightarrow> string" where
  "mnemonic_name n = (if unat n \<ge> length MnemonicTable then [] else MnemonicTable ! unat n)"

definition directive_id_of :: "string \<Rightarrow> u8 option" where
  "directive_id_of name = map_option of_nat (table_index DirectiveTable name)"

definition directive_name :: "u8 \<Rightarrow> string" where
  "directive_name n = (if unat n \<ge> length DirectiveTable then [] else DirectiveTable ! unat n)"

end
