(* ===== verification/Enc_Forms.thy ===== *)
theory Enc_Forms
  imports Enc_Slots Fmt_Tables
begin

text \<open>
  The form tables of \<^verbatim>\<open>tools/aarch64enc\<close>: the hand-curated table
  (\<^verbatim>\<open>manual_forms.go\<close>) and the generated one (\<^verbatim>\<open>data.go\<close>), entry for entry, and the
  lookup by mnemonic and operand kinds (\<^verbatim>\<open>validate.go\<close>).
\<close>

section \<open>Tables\<close>

definition mk_slot :: "SlotKind \<Rightarrow> operand_kind \<Rightarrow> nat \<Rightarrow> nat \<Rightarrow> operand_slot" where
  "mk_slot k e p w = \<lparr>slot_kind = k, expected_kind = e, bit_position = p, bit_width = w\<rparr>"

definition mk_form :: "u16 \<Rightarrow> u32 \<Rightarrow> u32 \<Rightarrow> operand_slot list \<Rightarrow> form" where
  "mk_form m p k ss = \<lparr>mnemonic_id = m, pattern = p, mask_bits = k, slots = ss\<rparr>"

lemma mk_slot_sel [simp]:
  "slot_kind (mk_slot k e p w) = k" "expected_kind (mk_slot k e p w) = e"
  "bit_position (mk_slot k e p w) = p" "bit_width (mk_slot k e p w) = w"
  by (simp_all add: mk_slot_def)

lemma mk_form_sel [simp]:
  "mnemonic_id (mk_form m p k ss) = m" "pattern (mk_form m p k ss) = p"
  "mask_bits (mk_form m p k ss) = k" "slots (mk_form m p k ss) = ss"
  by (simp_all add: mk_form_def)

definition manual_forms_1 :: "form list" where
"manual_forms_1 = [
  mk_form 3 0x2a0003e0 0xffe0ffe0 [
      mk_slot Wreg 2 0 5,
      mk_slot Wreg 2 16 5],
  mk_form 3 0xaa0003e0 0xffe0ffe0 [
      mk_slot Xreg 1 0 5,
      mk_slot Xreg 1 16 5],
  mk_form 3 0x91000000 0xfffffc00 [
      mk_slot XregOrSp 3 0 5,
      mk_slot Xreg 1 5 5],
  mk_form 3 0x91000000 0xfffffc00 [
      mk_slot Xreg 1 0 5,
      mk_slot XregOrSp 3 5 5],
  mk_form 3 0x91000000 0xfffffc00 [
      mk_slot XregOrSp 3 0 5,
      mk_slot XregOrSp 3 5 5],
  mk_form 1 0x91000000 0xff800000 [
      mk_slot XregOrSp 3 0 5,
      mk_slot XregOrSp 3 5 5,
      mk_slot Imm12Shifted 5 10 12],
  mk_form 1 0x91000000 0xff800000 [
      mk_slot Xreg 1 0 5,
      mk_slot XregOrSp 3 5 5,
      mk_slot Imm12Shifted 5 10 12],
  mk_form 1 0x91000000 0xff800000 [
      mk_slot XregOrSp 3 0 5,
      mk_slot Xreg 1 5 5,
      mk_slot Imm12Shifted 5 10 12],
  mk_form 2 0xd1000000 0xff800000 [
      mk_slot XregOrSp 3 0 5,
      mk_slot XregOrSp 3 5 5,
      mk_slot Imm12Shifted 5 10 12],
  mk_form 2 0xd1000000 0xff800000 [
      mk_slot Xreg 1 0 5,
      mk_slot XregOrSp 3 5 5,
      mk_slot Imm12Shifted 5 10 12],
  mk_form 2 0xd1000000 0xff800000 [
      mk_slot XregOrSp 3 0 5,
      mk_slot Xreg 1 5 5,
      mk_slot Imm12Shifted 5 10 12],
  mk_form 4 0x2a2003e0 0xffe0ffe0 [
      mk_slot Wreg 2 0 5,
      mk_slot Wreg 2 16 5],
  mk_form 4 0xaa2003e0 0xffe0ffe0 [
      mk_slot Xreg 1 0 5,
      mk_slot Xreg 1 16 5],
  mk_form 11 0xd61f0000 0xfffffc1f [
      mk_slot Xreg 1 5 5],
  mk_form 44 0xd63f0000 0xfffffc1f [
      mk_slot Xreg 1 5 5],
  mk_form 12 0xd65f03c0 0xffffffff [],
  mk_form 14 0x92000000 0xff800000 [
      mk_slot XregOrSp 3 0 5,
      mk_slot Xreg 1 5 5,
      mk_slot LogicalImm 5 10 13],
  mk_form 14 0x12000000 0xff800000 [
      mk_slot Wreg 2 0 5,
      mk_slot Wreg 2 5 5,
      mk_slot LogicalImm 5 10 13],
  mk_form 14 0x92000000 0xff800000 [
      mk_slot Xreg 1 0 5,
      mk_slot Xreg 1 5 5,
      mk_slot LogicalImm 5 10 13],
  mk_form 14 0x0a000000 0xffe0fc00 [
      mk_slot Wreg 2 0 5,
      mk_slot Wreg 2 5 5,
      mk_slot Wreg 2 16 5],
  mk_form 14 0x8a000000 0xffe0fc00 [
      mk_slot Xreg 1 0 5,
      mk_slot Xreg 1 5 5,
      mk_slot Xreg 1 16 5],
  mk_form 15 0x32000000 0xff800000 [
      mk_slot Wreg 2 0 5,
      mk_slot Wreg 2 5 5,
      mk_slot LogicalImm 5 10 13]]"

definition manual_forms_2 :: "form list" where
"manual_forms_2 = [
  mk_form 15 0xb2000000 0xff800000 [
      mk_slot Xreg 1 0 5,
      mk_slot Xreg 1 5 5,
      mk_slot LogicalImm 5 10 13],
  mk_form 15 0x2a000000 0xffe0fc00 [
      mk_slot Wreg 2 0 5,
      mk_slot Wreg 2 5 5,
      mk_slot Wreg 2 16 5],
  mk_form 15 0xaa000000 0xffe0fc00 [
      mk_slot Xreg 1 0 5,
      mk_slot Xreg 1 5 5,
      mk_slot Xreg 1 16 5],
  mk_form 16 0x52000000 0xff800000 [
      mk_slot Wreg 2 0 5,
      mk_slot Wreg 2 5 5,
      mk_slot LogicalImm 5 10 13],
  mk_form 16 0xd2000000 0xff800000 [
      mk_slot Xreg 1 0 5,
      mk_slot Xreg 1 5 5,
      mk_slot LogicalImm 5 10 13],
  mk_form 16 0x4a000000 0xffe0fc00 [
      mk_slot Wreg 2 0 5,
      mk_slot Wreg 2 5 5,
      mk_slot Wreg 2 16 5],
  mk_form 16 0xca000000 0xffe0fc00 [
      mk_slot Xreg 1 0 5,
      mk_slot Xreg 1 5 5,
      mk_slot Xreg 1 16 5],
  mk_form 17 0x53000000 0xffc00000 [
      mk_slot Wreg 2 0 5,
      mk_slot Wreg 2 5 5,
      mk_slot BitfieldImm 5 16 6],
  mk_form 17 0xd3400000 0xff800000 [
      mk_slot Xreg 1 0 5,
      mk_slot Xreg 1 5 5,
      mk_slot BitfieldImm 5 16 6],
  mk_form 18 0x53000000 0xffc00000 [
      mk_slot Wreg 2 0 5,
      mk_slot Wreg 2 5 5,
      mk_slot BitfieldImm 5 16 6],
  mk_form 18 0xd3400000 0xff800000 [
      mk_slot Xreg 1 0 5,
      mk_slot Xreg 1 5 5,
      mk_slot BitfieldImm 5 16 6],
  mk_form 19 0xeb00001f 0xffe0fc1f [
      mk_slot Xreg 1 5 5,
      mk_slot Xreg 1 16 5],
  mk_form 19 0x6b00001f 0xffe0fc1f [
      mk_slot Wreg 2 5 5,
      mk_slot Wreg 2 16 5],
  mk_form 24 0x9a800000 0xffe00c00 [
      mk_slot Xreg 1 0 5,
      mk_slot Xreg 1 5 5,
      mk_slot Xreg 1 16 5,
      mk_slot CondCode 10 12 4],
  mk_form 24 0x1a800000 0xffe00c00 [
      mk_slot Wreg 2 0 5,
      mk_slot Wreg 2 5 5,
      mk_slot Wreg 2 16 5,
      mk_slot CondCode 10 12 4],
  mk_form 25 0x1a800400 0xffe00c00 [
      mk_slot Wreg 2 0 5,
      mk_slot Wreg 2 5 5,
      mk_slot Wreg 2 16 5,
      mk_slot CondCode 10 12 4],
  mk_form 25 0x9a800400 0xffe00c00 [
      mk_slot Xreg 1 0 5,
      mk_slot Xreg 1 5 5,
      mk_slot Xreg 1 16 5,
      mk_slot CondCode 10 12 4],
  mk_form 45 0x71000000 0xff800000 [
      mk_slot Wreg 2 0 5,
      mk_slot Wreg 2 5 5,
      mk_slot Imm12Shifted 5 10 12],
  mk_form 45 0xf1000000 0xff800000 [
      mk_slot Xreg 1 0 5,
      mk_slot Xreg 1 5 5,
      mk_slot Imm12Shifted 5 10 12],
  mk_form 46 0x7200001f 0xff80001f [
      mk_slot Wreg 2 5 5,
      mk_slot LogicalImm 5 10 13],
  mk_form 46 0xf200001f 0xff80001f [
      mk_slot Xreg 1 5 5,
      mk_slot LogicalImm 5 10 13],
  mk_form 46 0x6a00001f 0xffe0fc1f [
      mk_slot Wreg 2 5 5,
      mk_slot Wreg 2 16 5],
  mk_form 46 0xea00001f 0xffe0fc1f [
      mk_slot Xreg 1 5 5,
      mk_slot Xreg 1 16 5]]"

definition manual_forms_3 :: "form list" where
"manual_forms_3 = [
  mk_form 47 0x12000000 0xff800000 [
      mk_slot Wreg 2 0 5,
      mk_slot Wreg 2 5 5,
      mk_slot LogicalImm 5 10 13],
  mk_form 47 0x92000000 0xff800000 [
      mk_slot Xreg 1 0 5,
      mk_slot Xreg 1 5 5,
      mk_slot LogicalImm 5 10 13],
  mk_form 47 0x0a200000 0xffe0fc00 [
      mk_slot Wreg 2 0 5,
      mk_slot Wreg 2 5 5,
      mk_slot Wreg 2 16 5],
  mk_form 47 0x8a200000 0xffe0fc00 [
      mk_slot Xreg 1 0 5,
      mk_slot Xreg 1 5 5,
      mk_slot Xreg 1 16 5],
  mk_form 48 0x10000000 0x9f000000 [
      mk_slot Xreg 1 0 5,
      mk_slot AdrImm 5 5 19],
  mk_form 49 0xb3400000 0xffc00000 [
      mk_slot Xreg 1 0 5,
      mk_slot Xreg 1 5 5,
      mk_slot BitfieldImm 5 16 6,
      mk_slot BitfieldImm 5 10 6],
  mk_form 49 0x33000000 0xffc00000 [
      mk_slot Wreg 2 0 5,
      mk_slot Wreg 2 5 5,
      mk_slot BitfieldImm 5 16 6,
      mk_slot BitfieldImm 5 10 6],
  mk_form 50 0xb3400000 0xffc00000 [
      mk_slot Xreg 1 0 5,
      mk_slot Xreg 1 5 5,
      mk_slot BitfieldImm 5 16 6,
      mk_slot BitfieldImm 5 10 6],
  mk_form 50 0x33000000 0xffc00000 [
      mk_slot Wreg 2 0 5,
      mk_slot Wreg 2 5 5,
      mk_slot BitfieldImm 5 16 6,
      mk_slot BitfieldImm 5 10 6],
  mk_form 51 0xd3400000 0xff800000 [
      mk_slot Xreg 1 0 5,
      mk_slot Xreg 1 5 5,
      mk_slot BitfieldImm 5 16 6,
      mk_slot BitfieldImm 5 10 6],
  mk_form 51 0x53000000 0xff800000 [
      mk_slot Wreg 2 0 5,
      mk_slot Wreg 2 5 5,
      mk_slot BitfieldImm 5 16 6,
      mk_slot BitfieldImm 5 10 6],
  mk_form 52 0x5a9f03e0 0xffff0fe0 [
      mk_slot Wreg 2 0 5,
      mk_slot CondCode 10 12 4],
  mk_form 52 0xda9f03e0 0xffff0fe0 [
      mk_slot Xreg 1 0 5,
      mk_slot CondCode 10 12 4],
  mk_form 53 0x72800000 0xffe00000 [
      mk_slot Wreg 2 0 5,
      mk_slot Imm16Shifted 5 5 16],
  mk_form 53 0xf2800000 0xffe00000 [
      mk_slot Xreg 1 0 5,
      mk_slot Imm16Shifted 5 5 16],
  mk_form 58 0x1b000000 0xff008000 [
      mk_slot Wreg 2 0 5,
      mk_slot Wreg 2 5 5,
      mk_slot Wreg 2 16 5,
      mk_slot Wreg 2 10 5],
  mk_form 58 0x9b000000 0xff008000 [
      mk_slot Xreg 1 0 5,
      mk_slot Xreg 1 5 5,
      mk_slot Xreg 1 16 5,
      mk_slot Xreg 1 10 5],
  mk_form 59 0x1b008000 0xff008000 [
      mk_slot Wreg 2 0 5,
      mk_slot Wreg 2 5 5,
      mk_slot Wreg 2 16 5,
      mk_slot Wreg 2 10 5],
  mk_form 59 0x9b008000 0xff008000 [
      mk_slot Xreg 1 0 5,
      mk_slot Xreg 1 5 5,
      mk_slot Xreg 1 16 5,
      mk_slot Xreg 1 10 5],
  mk_form 60 0x9ba07c00 0xffe0fc00 [
      mk_slot Xreg 1 0 5,
      mk_slot Wreg 2 5 5,
      mk_slot Wreg 2 16 5],
  mk_form 61 0x9bc07c00 0xffe0fc00 [
      mk_slot Xreg 1 0 5,
      mk_slot Xreg 1 5 5,
      mk_slot Xreg 1 16 5]]"

definition manual_forms_4 :: "form list" where
"manual_forms_4 = [
  mk_form 62 0x9ba00000 0xff008000 [
      mk_slot Xreg 1 0 5,
      mk_slot Wreg 2 5 5,
      mk_slot Wreg 2 16 5,
      mk_slot Xreg 1 10 5],
  mk_form 63 0x9ba08000 0xff008000 [
      mk_slot Xreg 1 0 5,
      mk_slot Wreg 2 5 5,
      mk_slot Wreg 2 16 5,
      mk_slot Xreg 1 10 5],
  mk_form 65 0xd69f03e0 0xffffffff [],
  mk_form 69 0xd503207f 0xffffffff [],
  mk_form 70 0x1ac02c00 0xffe0fc00 [
      mk_slot Wreg 2 0 5,
      mk_slot Wreg 2 5 5,
      mk_slot Wreg 2 16 5],
  mk_form 70 0x9ac02c00 0xffe0fc00 [
      mk_slot Xreg 1 0 5,
      mk_slot Xreg 1 5 5,
      mk_slot Xreg 1 16 5],
  mk_form 71 0x1b007c00 0xffe0fc00 [
      mk_slot Wreg 2 0 5,
      mk_slot Wreg 2 5 5,
      mk_slot Wreg 2 16 5],
  mk_form 71 0x9b007c00 0xffe0fc00 [
      mk_slot Xreg 1 0 5,
      mk_slot Xreg 1 5 5,
      mk_slot Xreg 1 16 5],
  mk_form 72 0x1ac00800 0xffe0fc00 [
      mk_slot Wreg 2 0 5,
      mk_slot Wreg 2 5 5,
      mk_slot Wreg 2 16 5],
  mk_form 72 0x9ac00800 0xffe0fc00 [
      mk_slot Xreg 1 0 5,
      mk_slot Xreg 1 5 5,
      mk_slot Xreg 1 16 5],
  mk_form 99 0x1ac00c00 0xffe0fc00 [
      mk_slot Wreg 2 0 5,
      mk_slot Wreg 2 5 5,
      mk_slot Wreg 2 16 5],
  mk_form 99 0x9ac00c00 0xffe0fc00 [
      mk_slot Xreg 1 0 5,
      mk_slot Xreg 1 5 5,
      mk_slot Xreg 1 16 5],
  mk_form 73 0x93407c00 0xfffffc00 [
      mk_slot Xreg 1 0 5,
      mk_slot Wreg 2 5 5],
  mk_form 80 0x72000000 0xff800000 [
      mk_slot Wreg 2 0 5,
      mk_slot Wreg 2 5 5,
      mk_slot LogicalImm 5 10 13],
  mk_form 80 0xf2000000 0xff800000 [
      mk_slot Xreg 1 0 5,
      mk_slot Xreg 1 5 5,
      mk_slot LogicalImm 5 10 13],
  mk_form 80 0x6a000000 0xffe0fc00 [
      mk_slot Wreg 2 0 5,
      mk_slot Wreg 2 5 5,
      mk_slot Wreg 2 16 5],
  mk_form 80 0xea000000 0xffe0fc00 [
      mk_slot Xreg 1 0 5,
      mk_slot Xreg 1 5 5,
      mk_slot Xreg 1 16 5],
  mk_form 82 0x12800000 0xffe00000 [
      mk_slot Wreg 2 0 5,
      mk_slot Imm16Shifted 5 5 16],
  mk_form 82 0x92800000 0xffe00000 [
      mk_slot Xreg 1 0 5,
      mk_slot Imm16Shifted 5 5 16],
  mk_form 83 0xb34003e0 0xffc003e0 [
      mk_slot Xreg 1 0 5,
      mk_slot BitfieldImm 5 16 6,
      mk_slot BitfieldImm 5 10 6],
  mk_form 83 0x330003e0 0xffc003e0 [
      mk_slot Wreg 2 0 5,
      mk_slot BitfieldImm 5 16 6,
      mk_slot BitfieldImm 5 10 6],
  mk_form 84 0x93400000 0xffc00000 [
      mk_slot Xreg 1 0 5,
      mk_slot Xreg 1 5 5,
      mk_slot BitfieldImm 5 16 6,
      mk_slot BitfieldImm 5 10 6]]"

definition manual_forms_5 :: "form list" where
"manual_forms_5 = [
  mk_form 84 0x13000000 0xffc00000 [
      mk_slot Wreg 2 0 5,
      mk_slot Wreg 2 5 5,
      mk_slot BitfieldImm 5 16 6,
      mk_slot BitfieldImm 5 10 6],
  mk_form 88 0x7a400800 0xffe00c10 [
      mk_slot Wreg 2 5 5,
      mk_slot Imm5 5 16 5,
      mk_slot Imm5 5 0 4,
      mk_slot CondCode 10 12 4],
  mk_form 88 0xfa400800 0xffe00c10 [
      mk_slot Xreg 1 5 5,
      mk_slot Imm5 5 16 5,
      mk_slot Imm5 5 0 4,
      mk_slot CondCode 10 12 4],
  mk_form 88 0x7a400000 0xffe00c10 [
      mk_slot Wreg 2 5 5,
      mk_slot Wreg 2 16 5,
      mk_slot Imm5 5 0 4,
      mk_slot CondCode 10 12 4],
  mk_form 88 0xfa400000 0xffe00c10 [
      mk_slot Xreg 1 5 5,
      mk_slot Xreg 1 16 5,
      mk_slot Imm5 5 0 4,
      mk_slot CondCode 10 12 4],
  mk_form 100 0x3a400800 0xffe00c10 [
      mk_slot Wreg 2 5 5,
      mk_slot Imm5 5 16 5,
      mk_slot Imm5 5 0 4,
      mk_slot CondCode 10 12 4],
  mk_form 100 0xba400800 0xffe00c10 [
      mk_slot Xreg 1 5 5,
      mk_slot Imm5 5 16 5,
      mk_slot Imm5 5 0 4,
      mk_slot CondCode 10 12 4],
  mk_form 100 0x3a400000 0xffe00c10 [
      mk_slot Wreg 2 5 5,
      mk_slot Wreg 2 16 5,
      mk_slot Imm5 5 0 4,
      mk_slot CondCode 10 12 4],
  mk_form 100 0xba400000 0xffe00c10 [
      mk_slot Xreg 1 5 5,
      mk_slot Xreg 1 16 5,
      mk_slot Imm5 5 0 4,
      mk_slot CondCode 10 12 4],
  mk_form 101 0x5a800000 0xffe00c00 [
      mk_slot Wreg 2 0 5,
      mk_slot Wreg 2 5 5,
      mk_slot Wreg 2 16 5,
      mk_slot CondCode 10 12 4],
  mk_form 101 0xda800000 0xffe00c00 [
      mk_slot Xreg 1 0 5,
      mk_slot Xreg 1 5 5,
      mk_slot Xreg 1 16 5,
      mk_slot CondCode 10 12 4],
  mk_form 102 0x5a800400 0xffe00c00 [
      mk_slot Wreg 2 0 5,
      mk_slot Wreg 2 5 5,
      mk_slot Wreg 2 16 5,
      mk_slot CondCode 10 12 4],
  mk_form 102 0xda800400 0xffe00c00 [
      mk_slot Xreg 1 0 5,
      mk_slot Xreg 1 5 5,
      mk_slot Xreg 1 16 5,
      mk_slot CondCode 10 12 4],
  mk_form 89 0x00000000 0xffff0000 [
      mk_slot Imm16 5 0 16]]"

definition manual_forms_6 :: "form list" where
"manual_forms_6 = [
  mk_form 90 0x13003c00 0xfffffc00 [
      mk_slot Wreg 2 0 5,
      mk_slot Wreg 2 5 5],
  mk_form 90 0x93403c00 0xfffffc00 [
      mk_slot Xreg 1 0 5,
      mk_slot Wreg 2 5 5],
  mk_form 91 0x13001c00 0xfffffc00 [
      mk_slot Wreg 2 0 5,
      mk_slot Wreg 2 5 5],
  mk_form 91 0x93401c00 0xfffffc00 [
      mk_slot Xreg 1 0 5,
      mk_slot Wreg 2 5 5],
  mk_form 92 0x53001c00 0xfffffc00 [
      mk_slot Wreg 2 0 5,
      mk_slot Wreg 2 5 5],
  mk_form 93 0x53003c00 0xfffffc00 [
      mk_slot Wreg 2 0 5,
      mk_slot Wreg 2 5 5],
  mk_form 98 0x31000000 0xff800000 [
      mk_slot Wreg 2 0 5,
      mk_slot Wreg 2 5 5,
      mk_slot Imm12Shifted 5 10 12],
  mk_form 98 0xb1000000 0xff800000 [
      mk_slot Xreg 1 0 5,
      mk_slot Xreg 1 5 5,
      mk_slot Imm12Shifted 5 10 12]]"

definition manual_forms :: "form list" where
  "manual_forms = manual_forms_1 @ manual_forms_2 @ manual_forms_3 @ manual_forms_4 @ manual_forms_5 @ manual_forms_6"

definition generated_forms_1 :: "form list" where
"generated_forms_1 = [
  mk_form 0 0xd503201f 0xffffffff [],
  mk_form 1 0x11000000 0xff800000 [
      mk_slot Wreg 2 0 5,
      mk_slot Wreg 2 5 5,
      mk_slot Imm12Shifted 5 10 12],
  mk_form 1 0x91000000 0xff800000 [
      mk_slot Xreg 1 0 5,
      mk_slot Xreg 1 5 5,
      mk_slot Imm12Shifted 5 10 12],
  mk_form 1 0x11000000 0xfffffc00 [
      mk_slot Wreg 2 0 5,
      mk_slot Wreg 2 5 5],
  mk_form 1 0x91000000 0xfffffc00 [
      mk_slot Xreg 1 0 5,
      mk_slot Xreg 1 5 5],
  mk_form 2 0x51000000 0xff800000 [
      mk_slot Wreg 2 0 5,
      mk_slot Wreg 2 5 5,
      mk_slot Imm12Shifted 5 10 12],
  mk_form 2 0xd1000000 0xff800000 [
      mk_slot Xreg 1 0 5,
      mk_slot Xreg 1 5 5,
      mk_slot Imm12Shifted 5 10 12],
  mk_form 3 0x11000000 0xfffffc00 [
      mk_slot Wreg 2 0 5,
      mk_slot Wreg 2 5 5],
  mk_form 3 0x91000000 0xfffffc00 [
      mk_slot Xreg 1 0 5,
      mk_slot Xreg 1 5 5],
  mk_form 3 0x52800000 0xffc00000 [
      mk_slot Wreg 2 0 5,
      mk_slot Imm16Shifted 5 5 16],
  mk_form 3 0xd2800000 0xff800000 [
      mk_slot Xreg 1 0 5,
      mk_slot Imm16Shifted 5 5 16],
  mk_form 5 0xb9400000 0xffc00000 [
      mk_slot Xreg 1 0 5,
      mk_slot Xreg 1 5 5,
      mk_slot Imm12Shifted 5 10 12],
  mk_form 5 0xf9400000 0xffc00000 [
      mk_slot Xreg 1 0 5,
      mk_slot Xreg 1 5 5,
      mk_slot Imm12Shifted 5 10 12],
  mk_form 6 0xb9000000 0xffc00000 [
      mk_slot Xreg 1 0 5,
      mk_slot Xreg 1 5 5,
      mk_slot Imm12Shifted 5 10 12],
  mk_form 6 0xf9000000 0xffc00000 [
      mk_slot Xreg 1 0 5,
      mk_slot Xreg 1 5 5,
      mk_slot Imm12Shifted 5 10 12],
  mk_form 9 0x14000000 0xfc000000 [
      mk_slot BranchImm26 5 0 26],
  mk_form 10 0x94000000 0xfc000000 [
      mk_slot BranchImm26 5 0 26],
  mk_form 12 0xd65f0000 0xfffffc1f [
      mk_slot Xreg 1 5 5],
  mk_form 13 0x90000000 0x9f000000 [
      mk_slot Xreg 1 0 5,
      mk_slot AdrpImm 5 5 19],
  mk_form 19 0x7100001f 0xff80001f [
      mk_slot Wreg 2 5 5,
      mk_slot Imm12Shifted 5 10 12],
  mk_form 19 0xf100001f 0xff80001f [
      mk_slot Xreg 1 5 5,
      mk_slot Imm12Shifted 5 10 12],
  mk_form 20 0x34000000 0xff000000 [
      mk_slot Wreg 2 0 5,
      mk_slot BranchImm19 5 5 19],
  mk_form 20 0xb4000000 0xff000000 [
      mk_slot Xreg 1 0 5,
      mk_slot BranchImm19 5 5 19],
  mk_form 21 0x35000000 0xff000000 [
      mk_slot Wreg 2 0 5,
      mk_slot BranchImm19 5 5 19],
  mk_form 21 0xb5000000 0xff000000 [
      mk_slot Xreg 1 0 5,
      mk_slot BranchImm19 5 5 19],
  mk_form 26 0x54000000 0xff00001f [
      mk_slot BranchImm19 5 5 19],
  mk_form 27 0x54000001 0xff00001f [
      mk_slot BranchImm19 5 5 19],
  mk_form 28 0x54000002 0xff00001f [
      mk_slot BranchImm19 5 5 19],
  mk_form 29 0x54000003 0xff00001f [
      mk_slot BranchImm19 5 5 19],
  mk_form 30 0x54000004 0xff00001f [
      mk_slot BranchImm19 5 5 19],
  mk_form 31 0x54000005 0xff00001f [
      mk_slot BranchImm19 5 5 19],
  mk_form 32 0x54000006 0xff00001f [
      mk_slot BranchImm19 5 5 19],
  mk_form 33 0x54000007 0xff00001f [
      mk_slot BranchImm19 5 5 19],
  mk_form 34 0x54000008 0xff00001f [
      mk_slot BranchImm19 5 5 19],
  mk_form 35 0x54000009 0xff00001f [
      mk_slot BranchImm19 5 5 19],
  mk_form 36 0x5400000a 0xff00001f [
      mk_slot BranchImm19 5 5 19],
  mk_form 37 0x5400000b 0xff00001f [
      mk_slot BranchImm19 5 5 19],
  mk_form 38 0x5400000c 0xff00001f [
      mk_slot BranchImm19 5 5 19],
  mk_form 39 0x5400000d 0xff00001f [
      mk_slot BranchImm19 5 5 19],
  mk_form 40 0x5400000e 0xff00001f [
      mk_slot BranchImm19 5 5 19]]"

definition generated_forms_2 :: "form list" where
"generated_forms_2 = [
  mk_form 41 0x5400000f 0xff00001f [
      mk_slot BranchImm19 5 5 19],
  mk_form 42 0x54000002 0xff00001f [
      mk_slot BranchImm19 5 5 19],
  mk_form 43 0x54000003 0xff00001f [
      mk_slot BranchImm19 5 5 19],
  mk_form 44 0xd63f0000 0xfffffc1f [
      mk_slot Xreg 1 5 5],
  mk_form 45 0x7100001f 0xff80001f [
      mk_slot Wreg 2 5 5,
      mk_slot Imm12Shifted 5 10 12],
  mk_form 45 0xf100001f 0xff80001f [
      mk_slot Xreg 1 5 5,
      mk_slot Imm12Shifted 5 10 12],
  mk_form 81 0x52800000 0xffc00000 [
      mk_slot Wreg 2 0 5,
      mk_slot Imm16Shifted 5 5 16],
  mk_form 81 0xd2800000 0xff800000 [
      mk_slot Xreg 1 0 5,
      mk_slot Imm16Shifted 5 5 16]]"

definition generated_forms :: "form list" where
  "generated_forms = generated_forms_1 @ generated_forms_2"

lemmas form_tables = manual_forms_1_def manual_forms_2_def manual_forms_3_def manual_forms_4_def
  manual_forms_5_def manual_forms_6_def generated_forms_1_def generated_forms_2_def

section \<open>Lookup\<close>

definition all_forms :: "form list" where
  "all_forms = manual_forms @ generated_forms"

definition forms_for_mnemonic :: "u16 \<Rightarrow> form list" where
  "forms_for_mnemonic n =
     filter (\<lambda>f. mnemonic_id f = n) manual_forms @ filter (\<lambda>f. mnemonic_id f = n) generated_forms"

fun match_operand_kinds :: "form list \<Rightarrow> operand_kind list \<Rightarrow> form option" where
  "match_operand_kinds [] kinds = None"
| "match_operand_kinds (f # fs) kinds =
     (if length (slots f) \<noteq> length kinds then match_operand_kinds fs kinds
      else if list_all2 (\<lambda>s k. expected_kind s = k) (slots f) kinds then Some f
      else match_operand_kinds fs kinds)"

text \<open>
  \<^verbatim>\<open>formMismatchDiag\<close>: the kinds given, then one line per candidate.
\<close>

definition kinds_text :: "operand_kind list \<Rightarrow> string" where
  "kinds_text ks = ''('' @ join '', '' (map operand_kind_name ks) @ '')''"

definition form_mismatch_diag :: "form list \<Rightarrow> operand_kind list \<Rightarrow> string" where
  "form_mismatch_diag candidates got =
     ''invalid operand kinds '' @ kinds_text got @ ''; expected one of:''
     @ concat (map (\<lambda>f. CHR 0x0A # ''  '' @ kinds_text (map expected_kind (slots f))) candidates)"

definition validate_operand_kinds :: "u16 \<Rightarrow> operand_kind list \<Rightarrow> form res" where
  "validate_operand_kinds n kinds =
     (let candidates = forms_for_mnemonic n
      in if candidates = [] then Inl (Error (''no encoder forms for mnemonic id '' @ dec (unat n)))
         else case match_operand_kinds candidates kinds of
           Some f \<Rightarrow> Inr f
         | None \<Rightarrow> Inl (Error (form_mismatch_diag candidates kinds)))"

lemma match_operand_kinds_find:
  "match_operand_kinds fs ks = find (\<lambda>f. map expected_kind (slots f) = ks) fs"
  by (induction fs) (auto simp: list_all2_conv_all_nth list_eq_iff_nth_eq)

end
