(* ===== verification/Enc_Logical.thy ===== *)
theory Enc_Logical
  imports Enc_Slots
begin

text \<open>
  The bitmask-immediate encoder \<^verbatim>\<open>encodeLogicalImm\<close> of
  \<^verbatim>\<open>tools/aarch64enc/slots_logical.go\<close>: the search for the smallest replicating element,
  the check that it does replicate, the search for the rotation that makes its ones-run
  start at bit 0, and the packing of \<open>N:immr:imms\<close>.
\<close>

text \<open>\<^verbatim>\<open>for size > 2 { ... size = nextSize }\<close>: halve while the two low halves agree.\<close>

fun element_size :: "nat \<Rightarrow> u64 \<Rightarrow> nat" where
  "element_size sz u =
     (if sz > 2
      then let next_sz = sz div 2; mask = push_bit next_sz 1 - 1
           in if u AND mask \<noteq> drop_bit next_sz u AND mask then sz
              else element_size next_sz u
      else sz)"

declare element_size.simps [simp del]

text \<open>
  The replication loop \<^verbatim>\<open>for s := start; s < limit; s += size { acc |= element << s }\<close>.
  The encoder runs it from \<open>size\<close> to 64 on the element itself to check the pattern; the
  decoder runs it from 0 to the register width to expand the element.  Both have
  \<open>size > 0\<close>; the guard only makes the recursion total.
\<close>

function replicate_loop :: "nat \<Rightarrow> u64 \<Rightarrow> u64 \<Rightarrow> nat \<Rightarrow> nat \<Rightarrow> u64" where
  "replicate_loop limit acc element s sz =
     (if 0 < sz \<and> s < limit
      then replicate_loop limit (acc OR push_bit s element) element (s + sz) sz
      else acc)"
  by pat_completeness auto
termination
  by (relation "measure (\<lambda>(limit, acc, element, s, sz). limit - s)") auto

declare replicate_loop.simps [simp del]

text \<open>\<^verbatim>\<open>((element >> r) | (element << (size - r))) & mask\<close>\<close>

definition rotate_element :: "u64 \<Rightarrow> nat \<Rightarrow> nat \<Rightarrow> u64" where
  "rotate_element element sz r =
     (drop_bit r element OR push_bit (sz - r) element) AND (push_bit sz 1 - 1)"

text \<open>\<^verbatim>\<open>for s := size; s > 1; s >>= 1 { sizeLog2++ }\<close>\<close>

fun size_log2 :: "nat \<Rightarrow> nat" where
  "size_log2 s = (if s > 1 then Suc (size_log2 (s div 2)) else 0)"

declare size_log2.simps [simp del]

definition logical_fields :: "nat \<Rightarrow> nat \<Rightarrow> nat \<Rightarrow> u32 \<times> u32 \<times> u32" where
  "logical_fields sz ones rotation =
     (let immr = (if rotation \<noteq> 0 then of_nat (sz - rotation) else of_nat rotation)
      in if sz = 64 then (1, immr, of_nat (ones - 1))
         else let nimms_top = NOT (push_bit (size_log2 sz + 1) 1 - 1) AND 0x3F
              in (0, immr, nimms_top OR of_nat (ones - 1)))"

definition pack_logical :: "operand_slot \<Rightarrow> u32 \<times> u32 \<times> u32 \<Rightarrow> u32" where
  "pack_logical slot f =
     (case f of (n, immr, imms) \<Rightarrow>
        push_bit (bit_position slot) (push_bit 12 n OR push_bit 6 immr OR imms))"

text \<open>The value the encoder searches: the low half doubled for a 32-bit operand.\<close>

definition logical_pattern :: "i64 \<Rightarrow> bool \<Rightarrow> u64" where
  "logical_pattern v is64 =
     (if is64 then v else let u = v AND 0xFFFFFFFF in u OR push_bit 32 u)"

definition encode_logical_imm :: "operand_slot \<Rightarrow> i64 \<Rightarrow> bool \<Rightarrow> u32 res" where
  "encode_logical_imm slot v is64 =
     (let u = logical_pattern v is64
      in if u = 0 \<or> u = NOT 0 then Inl (Error ''LogicalImm: 0 and -1 cannot be encoded'')
      else let sz = element_size 64 u;
               mask = push_bit sz 1 - 1 :: u64;
               element = u AND mask
      in if sz < 64 \<and> replicate_loop 64 element element sz sz \<noteq> u
         then Inl (Error ''LogicalImm: non-replicating pattern'')
      else let ones = ones_count element
      in if ones = 0 \<or> ones = sz then Inl (Error ''LogicalImm: element not encodable'')
      else case find (\<lambda>r. rotate_element element sz r = push_bit ones 1 - 1) [0..<sz]
           of None \<Rightarrow> Inl (Error ''LogicalImm: not a single ones-run'')
            | Some rotation \<Rightarrow> Inr (pack_logical slot (logical_fields sz ones rotation)))"

end
