(* ===== verification/Enc_Encode.thy ===== *)
theory Enc_Encode
  imports Enc_Logical
begin

text \<open>
  \<^verbatim>\<open>tools/aarch64enc/encode.go\<close>: the dispatch on the slot kind and the encoder of a whole
  form, with the frame property every slot encoder has: it only sets bits of its own field
  (\<open>slot_field\<close>), so the fixed bits of the form's pattern survive.
\<close>

section \<open>The encoder\<close>

text \<open>
  The \<^verbatim>\<open>Imm16Shifted\<close> case of \<^verbatim>\<open>encodeSlot\<close>: \<open>hw\<close> from bits 17:16 of the operand, or the
  first 16-bit chunk position that reproduces the whole value.
\<close>

definition imm16_shifted_operand :: "i64 \<Rightarrow> i64 \<times> u8" where
  "imm16_shifted_operand v =
     (let hw = ucast (signed_drop_bit 16 v AND 0x3) :: u8;
          imm16 = v AND 0xFFFF
      in if hw = 0 \<and> (sint v < 0 \<or> sint v > 0xFFFF)
         then case find (\<lambda>sh. push_bit sh (drop_bit sh v AND 0xFFFF) = v) [0, 16, 32, 48] of
                Some sh \<Rightarrow> (drop_bit sh v AND 0xFFFF, of_nat (sh div 16))
              | None \<Rightarrow> (imm16, hw)
         else (imm16, hw))"

definition encode_slot :: "operand_slot \<Rightarrow> operand_value \<Rightarrow> bool \<Rightarrow> u32 res" where
  "encode_slot slot v is64 =
     (case slot_kind slot of
        Xreg \<Rightarrow> encode_reg slot (reg v)
      | Wreg \<Rightarrow> encode_reg slot (reg v)
      | XregOrSp \<Rightarrow> encode_reg slot (reg v)
      | WregOrSp \<Rightarrow> encode_reg slot (reg v)
      | Imm5 \<Rightarrow> encode_imm_n slot (imm v)
      | Imm6 \<Rightarrow> encode_imm_n slot (imm v)
      | Imm16 \<Rightarrow> encode_imm_n slot (imm v)
      | CondCode \<Rightarrow> encode_cond slot (cond v)
      | Imm12Shifted \<Rightarrow> encode_imm12_shifted slot (imm v)
      | Imm16Shifted \<Rightarrow>
          (case imm16_shifted_operand (imm v) of (imm16, hw) \<Rightarrow> encode_imm16_shifted slot imm16 hw)
      | ShiftAmount \<Rightarrow> encode_shift_amount slot (imm v)
      | ExtendOp \<Rightarrow> encode_extend_op slot (extend_kind v) (ucast (imm v))
      | BranchImm26 \<Rightarrow> encode_branch_imm slot (imm v)
      | BranchImm19 \<Rightarrow> encode_branch_imm slot (imm v)
      | BranchImm14 \<Rightarrow> encode_branch_imm slot (imm v)
      | AdrpImm \<Rightarrow> encode_adrp_imm slot (imm v)
      | AdrImm \<Rightarrow> encode_adr_imm slot (imm v)
      | LogicalImm \<Rightarrow> encode_logical_imm slot (imm v) is64
      | BitfieldImm \<Rightarrow> Inl (Error ''BitfieldImm dispatched via two-slot pairs, not single-slot'')
      | SlotOther b \<Rightarrow> Inl (Error ''encode: unsupported slot kind''))"

text \<open>
  The loop of \<^verbatim>\<open>Encode\<close> over the slots, with the word accumulated so far.  The values run
  out first only when the length check before the loop is missing: an index panic.
\<close>

fun encode_slots :: "operand_slot list \<Rightarrow> operand_value list \<Rightarrow> bool \<Rightarrow> u32 \<Rightarrow> u32 res" where
  "encode_slots [] vs is64 out = Inr out"
| "encode_slots (s # ss) [] is64 out = Inl Panic"
| "encode_slots (s # ss) (v # vs) is64 out =
     sbind (encode_slot s v is64) (\<lambda>bits. encode_slots ss vs is64 (out OR bits))"

definition encode :: "form \<Rightarrow> operand_value list \<Rightarrow> u32 res" where
  "encode f vs =
     (if length vs < length (slots f) then Inl (Error ''encode: not enough operand values'')
      else encode_slots (slots f) vs (drop_bit 31 (pattern f) AND 1 = 1) (pattern f))"

section \<open>Fields\<close>

text \<open>
  The bits a slot's encoder may set.  The PC-relative page slots have fixed positions; a
  shifted immediate also owns its shift bits above the immediate; the extend slot does not
  mask its extend kind, so it owns eight bits there.
\<close>

definition slot_field :: "operand_slot \<Rightarrow> u32" where
  "slot_field slot =
     (let p = bit_position slot in
      case slot_kind slot of
        Xreg \<Rightarrow> push_bit p (mask 5)
      | Wreg \<Rightarrow> push_bit p (mask 5)
      | XregOrSp \<Rightarrow> push_bit p (mask 5)
      | WregOrSp \<Rightarrow> push_bit p (mask 5)
      | CondCode \<Rightarrow> push_bit p (mask 4)
      | Imm12Shifted \<Rightarrow> push_bit p (mask 13)
      | Imm16Shifted \<Rightarrow> push_bit p (mask 18)
      | ExtendOp \<Rightarrow> push_bit p (mask 11)
      | AdrpImm \<Rightarrow> push_bit 5 (mask 19) OR push_bit 29 (mask 2)
      | AdrImm \<Rightarrow> push_bit 5 (mask 19) OR push_bit 29 (mask 2)
      | LogicalImm \<Rightarrow> push_bit p (mask 13)
      | _ \<Rightarrow> push_bit p (mask (bit_width slot)))"

definition slot_fields :: "operand_slot list \<Rightarrow> u32" where
  "slot_fields ss = foldr (\<lambda>s. (OR) (slot_field s)) ss 0"

text \<open>Tables only have widths of at most 26 bits.\<close>

definition slot_wf :: "operand_slot \<Rightarrow> bool" where
  "slot_wf slot \<longleftrightarrow> 0 < bit_width slot \<and> bit_width slot \<le> 26 \<and> bit_position slot < 32"

end
