(* ===== verification/Dec_Logical.thy ===== *)
theory Dec_Logical
  imports Enc_Logical
begin

text \<open>
  The bitmask-immediate expansion \<^verbatim>\<open>decodeBitMasks\<close> of
  \<^verbatim>\<open>tools/aarch64dec/slots_logical.go\<close> and its agreement with the encoder: whatever
  \<^verbatim>\<open>encodeLogicalImm\<close> accepts, the decoder expands to the same value.
\<close>

section \<open>The decoder\<close>

text \<open>\<^verbatim>\<open>word[bitPosition : bitPosition+bitWidth]\<close> (\<^verbatim>\<open>slots.go\<close>).\<close>

definition extract_bits :: "u32 \<Rightarrow> nat \<Rightarrow> nat \<Rightarrow> u32" where
  "extract_bits word pos width = drop_bit pos word AND (push_bit width 1 - 1)"

text \<open>The highest set bit of \<open>N:NOT(imms)\<close>, scanning from bit 6 down; \<open>None\<close> is \<open>-1\<close>.\<close>

definition highest_bit7 :: "u32 \<Rightarrow> nat option" where
  "highest_bit7 combined = find (\<lambda>i. drop_bit i combined AND 1 = 1) [6, 5, 4, 3, 2, 1, 0]"

definition decode_bit_masks :: "u32 \<Rightarrow> u32 \<Rightarrow> u32 \<Rightarrow> nat \<Rightarrow> u64 option" where
  "decode_bit_masks n immr imms regsize =
     (let not_imms = NOT imms AND 0x3F;
          combined = push_bit 6 n OR not_imms
      in case highest_bit7 combined of
           None \<Rightarrow> None
         | Some len \<Rightarrow>
             let esize = 2 ^ len :: nat;
                 levels = of_nat (esize - 1) :: u32
             in if esize > regsize then None
                else if immr AND levels \<noteq> immr then None
                else let s = imms AND levels; r = immr AND levels
                in if s = levels then None
                else let mask = push_bit esize 1 - 1 :: u64;
                         welem = (push_bit (unat (s + 1)) 1 - 1) AND mask;
                         rotated = (drop_bit (unat r) welem
                                    OR push_bit (unat (of_nat esize - r)) welem) AND mask;
                         result = replicate_loop regsize 0 rotated 0 esize
                in Some (if regsize = 32 then result AND 0xFFFFFFFF else result))"

text \<open>
  The value part of \<^verbatim>\<open>decodeLogicalImm\<close>: the fields of the 13-bit slot, and the width
  from the instruction's bit 31.
\<close>

definition decode_logical_value :: "u32 \<Rightarrow> operand_slot \<Rightarrow> u64 option" where
  "decode_logical_value word slot =
     (let field = extract_bits word (bit_position slot) 13;
          n = drop_bit 12 field AND 1;
          immr = drop_bit 6 field AND 0x3F;
          imms = field AND 0x3F;
          sf = drop_bit 31 word AND 1
      in decode_bit_masks n immr imms (if sf = 1 then 64 else 32))"

section \<open>Rotation and replication\<close>


lemma bit_rotate_element:
  assumes "S \<le> 64" and "r < S" and X: "\<And>i. S \<le> i \<Longrightarrow> \<not> bit X i"
  shows "bit (rotate_element X S r) i \<longleftrightarrow> i < S \<and> bit X ((i + r) mod S)"
proof (cases "i < S")
  case False
  then show ?thesis by (simp add: rotate_element_def bit_and_iff bit_exp_mask)
next
  case True
  show ?thesis
  proof (cases "i + r < S")
    case True
    with \<open>i < S\<close> assms(1) show ?thesis
      by (auto simp: rotate_element_def bit_and_iff bit_or_iff bit_exp_mask bit_drop_bit_eq bit_push_bit_iff add.commute)
  next
    case False
    then have "(i + r) mod S = i - (S - r)"
      using \<open>i < S\<close> assms(2) by (simp add: mod_if)
    with False \<open>i < S\<close> assms(1,2) show ?thesis
      by (auto simp: rotate_element_def bit_and_iff bit_or_iff bit_exp_mask bit_drop_bit_eq bit_push_bit_iff X add.commute)
  qed
qed

lemma rotate_element_inverse:
  assumes S: "S \<le> 64" and r: "r < S" and X: "\<And>i. S \<le> i \<Longrightarrow> \<not> bit X i"
  shows "rotate_element (rotate_element X S r) S ((S - r) mod S) = X"
proof (rule bit_word_eqI)
  fix i
  assume "i < LENGTH(64)"
  have Y: "\<And>i. S \<le> i \<Longrightarrow> \<not> bit (rotate_element X S r) i"
    using S r X by (simp add: bit_rotate_element)
  have q: "(S - r) mod S < S" using r by simp
  have "((i + (S - r) mod S) mod S + r) mod S = (i + (S - r) + r) mod S"
    by (metis mod_add_left_eq mod_add_right_eq)
  also have "\<dots> = i mod S" using r by simp
  finally have e: "((i + (S - r) mod S) mod S + r) mod S = i mod S" .
  have p: "0 < S" using r by simp
  show "bit (rotate_element (rotate_element X S r) S ((S - r) mod S)) i \<longleftrightarrow> bit X i"
    using X [of i] p by (cases "i < S") (auto simp: bit_rotate_element [OF S q Y] bit_rotate_element [OF S r X] e)
qed

lemma replicate_loop_stop: "limit \<le> s \<Longrightarrow> replicate_loop limit acc e s sz = acc"
  by (subst replicate_loop.simps) simp

lemma replicate_loop_step:
  "0 < sz \<Longrightarrow> s < limit \<Longrightarrow>
   replicate_loop limit acc e s sz = replicate_loop limit (acc OR push_bit s e) e (s + sz) sz"
  by (subst replicate_loop.simps) simp

lemma push_bit_high_low32: "32 \<le> s \<Longrightarrow> push_bit s (e :: u64) AND 0xFFFFFFFF = 0"
proof -
  assume "32 \<le> s"
  have "push_bit s e AND mask 32 = 0"
    by (rule bit_word_eqI) (use \<open>32 \<le> s\<close> in \<open>auto simp: bit_simps\<close>)
  then show ?thesis by (simp add: mask_numeral)
qed

lemma replicate_loop_low32:
  "acc AND 0xFFFFFFFF = acc' AND 0xFFFFFFFF \<Longrightarrow>
   replicate_loop 32 acc e s sz AND 0xFFFFFFFF = replicate_loop 64 acc' e s sz AND 0xFFFFFFFF"
proof (induction "64 - s" arbitrary: s acc acc' rule: less_induct)
  case less
  show ?case
  proof (cases "0 < sz \<and> s < 64")
    case False
    then show ?thesis using less.prems
      by (auto simp: replicate_loop.simps [of _ _ _ s sz])
  next
    case True
    then have d: "64 - (s + sz) < 64 - s" by arith
    show ?thesis
    proof (cases "s < 32")
      case True': True
      have "(acc OR push_bit s e) AND 0xFFFFFFFF = (acc' OR push_bit s e) AND 0xFFFFFFFF"
        using less.prems by (simp add: bit.conj_disj_distrib2)
      with True True' show ?thesis
        using less.hyps [of "s + sz"] by (simp add: replicate_loop_step)
    next
      case False
      have "acc AND 0xFFFFFFFF = (acc' OR push_bit s e) AND 0xFFFFFFFF"
        using less.prems push_bit_high_low32 [of s e] False by (simp add: bit.conj_disj_distrib2)
      with True False show ?thesis
        using less.hyps [of "s + sz" acc "acc' OR push_bit s e"]
        by (simp add: d replicate_loop_step replicate_loop_stop)
    qed
  qed
qed

lemma rotation_fields:
  assumes "S \<in> {2, 4, 8, 16, 32, 64}" and "\<rho> < S"
  shows "of_nat \<rho> AND (of_nat (S - 1) :: u32) = of_nat \<rho>"
    and "unat (of_nat \<rho> :: u32) = \<rho>" and "unat (of_nat S - of_nat \<rho> :: u32) = S - \<rho>"
proof -
  have "\<forall>\<rho>\<in>set [0..<S]. of_nat \<rho> AND (of_nat (S - 1) :: u32) = of_nat \<rho>"
    using assms(1) by (elim insertE emptyE) (simp_all add: upt_rec)
  with assms(2) show "of_nat \<rho> AND (of_nat (S - 1) :: u32) = of_nat \<rho>" by simp
  have "S \<le> 64" using assms(1) by auto
  with assms(2) show u: "unat (of_nat \<rho> :: u32) = \<rho>"
    by (simp add: unat_of_nat)
  have "unat (of_nat S :: u32) = S"
    using \<open>S \<le> 64\<close> by (simp add: unat_of_nat)
  with u assms(2) show "unat (of_nat S - of_nat \<rho> :: u32) = S - \<rho>"
    by (simp add: unat_sub word_le_nat_alt)
qed

definition size_imms :: "nat \<Rightarrow> nat \<Rightarrow> u32" where
  "size_imms S k = (if S = 64 then of_nat (k - 1)
     else (NOT (push_bit (size_log2 S + 1) 1 - 1) AND 0x3F) OR of_nat (k - 1))"

lemma logical_fields_eq:
  "logical_fields S k \<rho> = (if S = 64 then 1 else 0, if \<rho> \<noteq> 0 then of_nat (S - \<rho>) else of_nat \<rho>, size_imms S k)"
  by (simp add: logical_fields_def size_imms_def Let_def)

lemmas size_log2_eval = size_log2.simps [of "numeral m" for m] size_log2.simps [of "Suc 0"]



lemma size_imms_fields_all:
  assumes "S \<in> {2, 4, 8, 16, 32, 64}" 
  shows "\<forall>k\<in>set [1..<S].
     size_imms S k < 64
     \<and> (\<exists>len. highest_bit7 (push_bit 6 (if S = 64 then 1 else 0) OR NOT (size_imms S k) AND 0x3F) = Some len \<and> S = 2 ^ len)
     \<and> size_imms S k AND of_nat (S - 1) = of_nat (k - 1)
     \<and> size_imms S k AND of_nat (S - 1) \<noteq> of_nat (S - 1)
     \<and> unat ((size_imms S k AND of_nat (S - 1)) + 1) = k"
  using assms
  by (elim insertE emptyE) (simp_all add: upt_rec size_imms_def size_log2_eval highest_bit7_def mask_numeral)

lemma size_imms_fields:
  assumes "S \<in> {2, 4, 8, 16, 32, 64}" and "1 \<le> k" and "k < S"
  obtains len where
    "highest_bit7 (push_bit 6 (if S = 64 then 1 else 0) OR NOT (size_imms S k) AND 0x3F) = Some len"
    and "S = 2 ^ len" and "size_imms S k < 64"
    and "size_imms S k AND of_nat (S - 1) \<noteq> of_nat (S - 1)"
    and "unat ((size_imms S k AND of_nat (S - 1)) + 1) = k"
  using bspec [OF size_imms_fields_all [OF assms(1)], of k] assms(2,3) by auto

lemma decode_size_imms:
  assumes S: "S \<in> {2, 4, 8, 16, 32, 64}" and k: "1 \<le> k" "k < S" and r: "\<rho> < S"
    and reg: "S \<le> regsize"
  shows "decode_bit_masks (if S = 64 then 1 else 0) (of_nat \<rho>) (size_imms S k) regsize =
    (let res = replicate_loop regsize 0 (rotate_element (push_bit k 1 - 1) S \<rho>) 0 S
     in Some (if regsize = 32 then res AND 0xFFFFFFFF else res))"
proof -
  obtain len where len: "highest_bit7 (push_bit 6 (if S = 64 then 1 else 0) OR NOT (size_imms S k) AND 0x3F) = Some len"
    and Sl: "S = 2 ^ len"
    and ne: "size_imms S k AND of_nat (S - 1) \<noteq> of_nat (S - 1)"
    and kk: "unat ((size_imms S k AND of_nat (S - 1)) + 1) = k"
    using size_imms_fields [OF S k] by blast
  have w: "((push_bit k 1 - 1) AND (push_bit S 1 - 1) :: u64) = push_bit k 1 - 1"
    by (rule bit_word_eqI) (use k in \<open>auto simp: bit_and_iff bit_exp_mask\<close>)
  note rf = rotation_fields [OF S r]
  show ?thesis
    unfolding decode_bit_masks_def Let_def len option.case Sl [symmetric]
    using reg ne by (simp only: rf kk w rotate_element_def not_less [symmetric] if_False simp_thms)
qed

lemma element_size_cases: "element_size 64 u \<in> {2, 4, 8, 16, 32, 64}"
  by (simp add: element_size.simps [of "numeral k" for k] Let_def)

lemma element_size_doubled:
  "u AND 0xFFFFFFFF = drop_bit 32 u AND 0xFFFFFFFF \<Longrightarrow> element_size 64 u \<le> 32"
  by (simp add: element_size.simps [of "numeral k" for k] Let_def)

lemma ones_count_bound:
  assumes "\<And>i. S \<le> i \<Longrightarrow> \<not> bit e i" and "S \<le> 64"
  shows "ones_count e \<le> S"
proof -
  have "set (filter (bit e) [0..<64]) \<subseteq> {0..<S}"
    using assms(1) by (auto simp: not_le [symmetric])
  then have "card (set (filter (bit e) [0..<64])) \<le> card {0..<S}"
    by (intro card_mono) auto
  then show ?thesis
    by (simp add: ones_count_def distinct_card [symmetric] del: set_filter)
qed

lemma bit_extract_bits: "bit (extract_bits w pos width) i \<longleftrightarrow> i < width \<and> bit w (pos + i)"
  using bit_imp_le_length [of w "pos + i"]
  by (auto simp: extract_bits_def bit_and_iff bit_exp_mask bit_drop_bit_eq)

lemma pack_logical_fields:
  assumes "n \<le> (1 :: u32)" and "immr < 64" and "imms < 64" and "pos + 13 \<le> 31"
    and base: "extract_bits base pos 13 = 0"
    and f: "f = extract_bits (base OR push_bit pos (push_bit 12 n OR push_bit 6 immr OR imms)) pos 13"
  shows "drop_bit 12 f AND 1 = n" and "drop_bit 6 f AND 0x3F = immr" and "f AND 0x3F = imms"
proof -
  have n: "i = 0" if "bit n i" for i using bit_less_exp [of n 1 i] that assms(1)
    by (simp add: word_less_nat_alt word_le_nat_alt)
  note r = bit_less_64 [OF assms(2)] and s = bit_less_64 [OF assms(3)]
  have b: "\<not> bit base (pos + i)" if "i < 13" for i
    using base that by (metis bit_0_eq bit_extract_bits bot_apply bot_bool_def)
  have f': "f = push_bit 12 n OR push_bit 6 immr OR imms"
    unfolding f
    by (rule bit_word_eqI)
      (use assms(4) in \<open>auto simp: bit_extract_bits bit_or_iff bit_push_bit_iff dest: n r s b\<close>)
  have m: "(0x3F :: u32) = mask 6" "(1 :: u32) = mask 1" by (simp_all add: mask_numeral)
  show "drop_bit 12 f AND 1 = n" "drop_bit 6 f AND 0x3F = immr" "f AND 0x3F = imms"
    unfolding f' m
    by (rule bit_word_eqI;
        auto simp: bit_and_iff bit_or_iff bit_drop_bit_eq bit_push_bit_iff bit_mask_iff dest: n r s)+
qed

lemma low_mask_and_bits: "\<not> bit (u AND (push_bit S 1 - 1) :: u64) i" if "S \<le> i"
  using that by (simp add: bit_and_iff bit_exp_mask)

lemma rotation_inverse_run:
  assumes S: "S \<in> {2, 4, 8, 16, 32, 64}" and e: "\<And>i. S \<le> i \<Longrightarrow> \<not> bit e i"
    and r: "r < S" and run: "rotate_element e S r = push_bit k 1 - 1"
  shows "rotate_element (push_bit k 1 - 1) S ((S - r) mod S) = e"
  unfolding run [symmetric] by (rule rotate_element_inverse) (use S e r in auto)

lemma replicate_from_zero:
  assumes "0 < S" and "S \<le> 64"
    and "S < 64 \<Longrightarrow> replicate_loop 64 e e S S = u" and "S = 64 \<Longrightarrow> e = u"
  shows "replicate_loop 64 0 e 0 S = u"
proof -
  have "replicate_loop 64 0 e 0 S = replicate_loop 64 e e S S"
    using replicate_loop_step [of S 0 64 0 e] assms(1) by simp
  then show ?thesis using assms by (cases "S < 64") (simp_all add: replicate_loop_stop)
qed

lemma logical_pattern_32:
  "u = logical_pattern v False \<Longrightarrow> u AND 0xFFFFFFFF = v AND 0xFFFFFFFF"
  "u = logical_pattern v False \<Longrightarrow> u AND 0xFFFFFFFF = drop_bit 32 u AND 0xFFFFFFFF"
proof -
  assume u: "u = logical_pattern v False"
  have m: "(0xFFFFFFFF :: u64) = mask 32" by (simp add: mask_numeral)
  show "u AND 0xFFFFFFFF = v AND 0xFFFFFFFF"
    unfolding u m logical_pattern_def
    by (rule bit_word_eqI) (auto simp: bit_and_iff bit_or_iff bit_push_bit_iff bit_mask_iff Let_def)
  show "u AND 0xFFFFFFFF = drop_bit 32 u AND 0xFFFFFFFF"
    unfolding u m logical_pattern_def
    by (rule bit_word_eqI)
      (auto simp: bit_and_iff bit_or_iff bit_push_bit_iff bit_drop_bit_eq bit_mask_iff Let_def)
qed

text \<open>
  What an accepted immediate looks like: an element size \<open>S\<close>, a run of \<open>k\<close> ones rotated by
  \<open>\<rho>\<close>, and the three fields that spell them.
\<close>

lemma encode_logical_shape:
  assumes "encode_logical_imm slot v is64 = Inr bits"
  obtains S k \<rho> where "S \<in> {2, 4, 8, 16, 32, 64}" and "1 \<le> k" "k < S" and "\<rho> < S"
    and "S \<le> (if is64 then 64 else 32)"
    and "bits = push_bit (bit_position slot)
           (push_bit 12 (if S = 64 then 1 else 0) OR push_bit 6 (of_nat \<rho>) OR size_imms S k)"
    and "replicate_loop 64 0 (rotate_element (push_bit k 1 - 1) S \<rho>) 0 S = logical_pattern v is64"
proof -
  define u where "u = logical_pattern v is64"
  define S where "S = element_size 64 u"
  define e where "e = u AND (push_bit S 1 - 1)"
  define k where "k = ones_count e"
  have S: "S \<in> {2, 4, 8, 16, 32, 64}" unfolding S_def by (rule element_size_cases)
  then have S64: "S \<le> 64" and S0: "0 < S" by auto
  have ebits: "\<And>i. S \<le> i \<Longrightarrow> \<not> bit e i" unfolding e_def by (rule low_mask_and_bits)
  obtain r where rep: "S < 64 \<Longrightarrow> replicate_loop 64 e e S S = u" and "k \<noteq> 0" "k \<noteq> S"
    and r: "find (\<lambda>r. rotate_element e S r = push_bit k 1 - 1) [0..<S] = Some r"
    and bits: "bits = pack_logical slot (logical_fields S k r)"
    using assms unfolding encode_logical_imm_def Let_def u_def [symmetric] S_def [symmetric] e_def [symmetric] k_def [symmetric]
    by (auto split: if_splits option.splits)
  have k: "1 \<le> k" "k < S" using \<open>k \<noteq> 0\<close> \<open>k \<noteq> S\<close> ones_count_bound [OF ebits S64] by (auto simp: k_def)
  have rS: "r < S" and run: "rotate_element e S r = push_bit k 1 - 1"
    using r by (auto simp: find_Some_iff)
  have full: "replicate_loop 64 0 e 0 S = u"
    by (rule replicate_from_zero [OF S0 S64 rep]) (simp_all add: e_def low_mask_full)
  have unrot: "rotate_element (push_bit k 1 - 1) S ((S - r) mod S) = e"
    by (rule rotation_inverse_run [OF S ebits rS run])
  show thesis
  proof (rule that [OF S k])
    show "(S - r) mod S < S" using S0 by simp
    show "bits = push_bit (bit_position slot) (push_bit 12 (if S = 64 then 1 else 0)
        OR push_bit 6 (of_nat ((S - r) mod S)) OR size_imms S k)"
      using rS by (auto simp: bits pack_logical_def logical_fields_eq)
    show "replicate_loop 64 0 (rotate_element (push_bit k 1 - 1) S ((S - r) mod S)) 0 S = logical_pattern v is64"
      by (simp only: unrot full) (simp only: u_def)
    show "S \<le> (if is64 then 64 else 32)"
      using S64 element_size_doubled [OF logical_pattern_32(2), of u v] by (auto simp: S_def u_def)
  qed
qed

lemma logical_field_bounds:
  assumes "S \<in> {2, 4, 8, 16, 32, 64}" and "1 \<le> k" "k < S" and "\<rho> < S"
  shows "(if S = 64 then 1 else 0) \<le> (1 :: u32)" and "of_nat \<rho> < (64 :: u32)" and "size_imms S k < 64"
proof -
  show "(if S = 64 then 1 else 0) \<le> (1 :: u32)" by simp
  have "\<rho> < 64" using assms(1,4) by auto
  then show "of_nat \<rho> < (64 :: u32)" by (simp add: word_less_nat_alt unat_of_nat)
  show "size_imms S k < 64" by (rule size_imms_fields [OF assms(1-3)])
qed

lemma logical_bits_field:
  assumes "bits = push_bit p (push_bit 12 n OR push_bit 6 immr OR imms)"
    and "n \<le> (1 :: u32)" and "immr < 64" and "imms < 64" and "bit bits i"
  shows "p \<le> i \<and> i < p + 13"
proof -
  have n: "j = 0" if "bit n j" for j using bit_less_exp [of n 1 j] that assms(2)
    by (simp add: word_less_nat_alt word_le_nat_alt)
  show ?thesis
    using assms(1,5) bit_less_64 [OF assms(3), of "i - p - 6"] bit_less_64 [OF assms(4), of "i - p"]
      n [of "i - p - 12"]
    by (auto simp: bit_push_bit_iff bit_or_iff)
qed

lemma logical_round_trip:
  assumes enc: "encode_logical_imm slot v is64 = Inr bits"
    and pos: "bit_position slot + 13 \<le> 31"
    and base: "extract_bits base (bit_position slot) 13 = 0"
    and sf: "drop_bit 31 base AND 1 = (if is64 then 1 else 0)"
  shows "decode_logical_value (base OR bits) slot = Some (if is64 then v else v AND 0xFFFFFFFF)"
proof -
  from enc obtain S k \<rho> where S: "S \<in> {2, 4, 8, 16, 32, 64}" and k: "1 \<le> k" "k < S" and \<rho>: "\<rho> < S"
    and reg: "S \<le> (if is64 then 64 else 32)"
    and bits: "bits = push_bit (bit_position slot)
           (push_bit 12 (if S = 64 then 1 else 0) OR push_bit 6 (of_nat \<rho>) OR size_imms S k)"
    and full: "replicate_loop 64 0 (rotate_element (push_bit k 1 - 1) S \<rho>) 0 S = logical_pattern v is64"
    by (rule encode_logical_shape)
  define f where "f = extract_bits (base OR bits) (bit_position slot) 13"
  note lt = logical_field_bounds [OF S k \<rho>]
  note fs = pack_logical_fields [OF lt pos base f_def [unfolded bits]]
  have "\<not> bit bits 31" using logical_bits_field [OF bits lt, of 31] pos by auto
  then have sf': "drop_bit 31 (base OR bits) AND 1 = (if is64 then 1 else 0 :: u32)"
    using sf unfolding bit31_field bit_or_iff by (auto split: if_splits)
  have rs: "(if (if is64 then 1 else 0 :: u32) = 1 then 64 else 32) = (if is64 then 64 else 32 :: nat)"
    by simp
  have m: "decode_logical_value (base OR bits) slot =
      (let res = replicate_loop (if is64 then 64 else 32) 0 (rotate_element (push_bit k 1 - 1) S \<rho>) 0 S
       in Some (if is64 then res else res AND 0xFFFFFFFF))"
    unfolding decode_logical_value_def f_def [symmetric] Let_def fs sf' rs
      decode_size_imms [OF S k \<rho> reg] by simp
  show ?thesis
  proof (cases is64)
    case True
    show ?thesis
      unfolding m Let_def if_P [OF True] full by (simp add: logical_pattern_def True)
  next
    case False
    note low = replicate_loop_low32 [OF refl, of 0 "rotate_element (push_bit k 1 - 1) S \<rho>" 0 S]
    show ?thesis
      unfolding m Let_def if_not_P [OF False] low full
      using logical_pattern_32(1) [OF refl, of v] False by simp
  qed
qed

text \<open>
  C25.  Whatever bitmask immediate \<^verbatim>\<open>encodeLogicalImm\<close> accepts, the disassembler's
  \<^verbatim>\<open>decodeLogicalImm\<close> expands to the same value (for a 32-bit operation, to its low half).
  The base word has the slot's field clear and bit 31 set for a 64-bit operation, as the
  form patterns have.
\<close>

theorem encode_decode_logical:
  assumes enc: "encode_logical_imm slot v is64 = Inr bits"
    and pos: "bit_position slot + 13 \<le> 31"
    and base: "extract_bits base (bit_position slot) 13 = 0"
    and sf: "drop_bit 31 base AND 1 = (if is64 then 1 else 0)"
  shows "decode_logical_value (base OR bits) slot = Some (if is64 then v else v AND 0xFFFFFFFF)"
  by (rule logical_round_trip [OF assms])

lemma encode_decode_logical_witness:
  "decode_logical_value (0xb2000000 OR 0x89C00)
     \<lparr>slot_kind = LogicalImm, expected_kind = 5, bit_position = 10, bit_width = 13\<rparr>
   = Some 0xFF00FF00FF00FF00"
proof -
  let ?s = "\<lparr>slot_kind = LogicalImm, expected_kind = 5, bit_position = 10, bit_width = 13\<rparr>"
  have "encode_logical_imm ?s 0xFF00FF00FF00FF00 True = Inr 0x89C00" by code_simp
  then show ?thesis
    using encode_decode_logical [of ?s "0xFF00FF00FF00FF00" True "0x89C00" "0xb2000000"]
    by (simp add: extract_bits_def)
qed

end
