(* ===== verification/Enc_Frame.thy ===== *)
theory Enc_Frame
  imports Enc_Encode Dec_Logical
begin

text \<open>
  The frame of the encoder: every slot encoder stays inside \<open>slot_field\<close>, so \<open>encode\<close> keeps
  the pattern's fixed bits, and the fields of different slots do not disturb each other.
\<close>

section \<open>Each slot encoder stays in its field\<close>

lemma bit_nonneg_less:
  assumes "0 \<le> sint v" and "sint v < 2 ^ k" and "bit (v :: i64) i"
  shows "i < k"
proof (cases "k < 64")
  case True
  have "int (unat v) < int (2 ^ k)" using assms(1,2) by (simp add: sint_nonneg_nat)
  then have "unat v < 2 ^ k" by (simp only: of_nat_less_iff)
  moreover have "(2 :: nat) ^ k < 2 ^ 64" using True by (rule power_strict_increasing) simp
  ultimately have "v < of_nat (2 ^ k)"
    unfolding word_less_nat_alt unat_of_nat by (simp add: mod_less)
  then have "v < 2 ^ k" by simp
  then show ?thesis using assms(3) by (rule bit_less_exp)
next
  case False
  then show ?thesis using bit_imp_le_length [OF assms(3)] by simp
qed

lemma encode_reg_field: "encode_reg s r = Inr b \<Longrightarrow> bit b i \<Longrightarrow> bit (push_bit (bit_position s) (mask 5) :: u32) i"
  using bit_less_exp [of r 5 "i - bit_position s"]
  by (auto simp: encode_reg_def bit_simps word_le_nat_alt word_less_nat_alt not_less split: if_splits)

lemma encode_cond_field: "encode_cond s r = Inr b \<Longrightarrow> bit b i \<Longrightarrow> bit (push_bit (bit_position s) (mask 4) :: u32) i"
  using bit_less_exp [of r 4 "i - bit_position s"]
  by (auto simp: encode_cond_def bit_simps word_le_nat_alt word_less_nat_alt not_less split: if_splits)

lemma encode_imm_n_field:
  "encode_imm_n s v = Inr b \<Longrightarrow> bit_width s \<le> 26 \<Longrightarrow> bit b i \<Longrightarrow>
   bit (push_bit (bit_position s) (mask (bit_width s)) :: u32) i"
  using bit_nonneg_less [of v "bit_width s" "i - bit_position s"]
  by (auto simp: encode_imm_n_def sint_exp64 bit_simps not_less not_le split: if_splits)

lemma encode_branch_imm_field:
  "encode_branch_imm s v = Inr b \<Longrightarrow> bit b i \<Longrightarrow>
   bit (push_bit (bit_position s) (mask (bit_width s)) :: u32) i"
  by (auto simp: encode_branch_imm_def bit_simps bit_exp_mask Let_def split: if_splits)

lemma pack_imm21_field: "bit (pack_imm21 v) i \<Longrightarrow> bit (push_bit 5 (mask 19) OR push_bit 29 (mask 2) :: u32) i"
proof -
  have m: "(0x3 :: u32) = mask 2" "(push_bit 19 1 - 1 :: u32) = mask 19" by (simp_all add: mask_numeral)
  assume "bit (pack_imm21 v) i"
  then show ?thesis
    unfolding pack_imm21_def Let_def m by (auto simp: bit_simps)
qed

lemma encode_imm12_shifted_field:
  "encode_imm12_shifted s v = Inr b \<Longrightarrow> bit b i \<Longrightarrow>
   bit (push_bit (bit_position s) (mask 13) :: u32) i"
  using bit_nonneg_less [of v 12 "i - bit_position s"] bit_nonneg_less [of v 24 "12 + i - bit_position s"]
    bit_nonneg_less [of v 24 63]
  by (auto simp: encode_imm12_shifted_def bit_simps bit_signed_drop_bit_iff split: if_splits)

lemma encode_imm16_shifted_field:
  "encode_imm16_shifted s v hw = Inr b \<Longrightarrow> bit b i \<Longrightarrow>
   bit (push_bit (bit_position s) (mask 18) :: u32) i"
  using bit_nonneg_less [of v 16 "i - bit_position s"] bit_less_exp [of hw 2 "i - (bit_position s + 16)"]
  by (auto simp: encode_imm16_shifted_def bit_simps word_less_nat_alt word_le_nat_alt not_less not_le
      split: if_splits)

lemma encode_extend_op_field:
  "encode_extend_op s e sh = Inr b \<Longrightarrow> bit b i \<Longrightarrow>
   bit (push_bit (bit_position s) (mask 11) :: u32) i"
  using bit_less_exp [of sh 3 "i - bit_position s"] bit_imp_le_length [of e "i - (bit_position s + 3)"]
  by (auto simp: encode_extend_op_def bit_simps word_less_nat_alt word_le_nat_alt not_less not_le
      split: if_splits)

lemma encode_logical_field:
  "encode_logical_imm s v is64 = Inr b \<Longrightarrow> bit b i \<Longrightarrow>
   bit (push_bit (bit_position s) (mask 13) :: u32) i"
  using bit_imp_le_length [of b i]
  by (elim encode_logical_shape) (drule logical_bits_field [OF _ logical_field_bounds], auto simp: bit_simps)

lemma encode_slot_field:
  assumes "encode_slot s v is64 = Inr b" and "slot_wf s" and "bit b i"
  shows "bit (slot_field s) i"
  using assms
  by (cases "slot_kind s")
    (auto simp: encode_slot_def slot_field_def Let_def slot_wf_def encode_shift_amount_def
        encode_adrp_imm_def encode_adr_imm_def
      intro: encode_reg_field encode_cond_field encode_imm_n_field encode_branch_imm_field
        encode_imm12_shifted_field encode_imm16_shifted_field encode_extend_op_field encode_logical_field
      dest: pack_imm21_field split: prod.splits if_splits)

section \<open>Whole forms\<close>

lemma bit_slot_fields: "bit (slot_fields ss) i \<longleftrightarrow> (\<exists>s\<in>set ss. bit (slot_field s) i)"
  by (induction ss) (auto simp: slot_fields_def bit_or_iff)

lemma encode_slots_bits:
  assumes "encode_slots ss vs is64 out = Inr w" and "\<forall>s\<in>set ss. slot_wf s"
  shows "(bit out i \<longrightarrow> bit w i) \<and> (bit w i \<longrightarrow> bit out i \<or> bit (slot_fields ss) i)"
  using assms
proof (induction ss vs is64 out rule: encode_slots.induct)
  case (3 s ss v vs is64 out)
  from 3(2) obtain b where b: "encode_slot s v is64 = Inr b"
    and r: "encode_slots ss vs is64 (out OR b) = Inr w"
    by (auto elim: sbindE)
  show ?case using 3(1) [OF b r] 3(3) encode_slot_field [OF b, of i]
    by (auto simp: bit_or_iff bit_slot_fields)
qed (auto simp: slot_fields_def)

definition separate :: "operand_slot list \<Rightarrow> bool" where
  "separate ss \<longleftrightarrow> (\<forall>i<length ss. \<forall>j<i. slot_field (ss ! i) AND slot_field (ss ! j) = 0)"

text \<open>
  The fixed bits (the mask) and the operand fields of a sound form do not overlap, and the
  pattern has nothing outside its mask.
\<close>

definition form_sound :: "form \<Rightarrow> bool" where
  "form_sound f \<longleftrightarrow> list_all slot_wf (slots f) \<and> pattern f AND NOT (mask_bits f) = 0
     \<and> slot_fields (slots f) AND mask_bits f = 0"

lemma encode_slots_nth:
  assumes "encode_slots ss vs is64 out = Inr w" and "\<forall>s\<in>set ss. slot_wf s" and "k < length ss"
    and "\<And>i. bit out i \<Longrightarrow> \<not> bit (slot_field (ss ! k)) i"
    and "\<And>j i. j < length ss \<Longrightarrow> j \<noteq> k \<Longrightarrow> bit (slot_field (ss ! j)) i \<Longrightarrow> \<not> bit (slot_field (ss ! k)) i"
  shows "k < length vs \<and> (\<exists>b. encode_slot (ss ! k) (vs ! k) is64 = Inr b \<and> w AND slot_field (ss ! k) = b)"
  using assms
proof (induction ss vs is64 out arbitrary: k rule: encode_slots.induct)
  case (3 s ss v vs is64 out)
  from 3(2) obtain b where b: "encode_slot s v is64 = Inr b"
    and r: "encode_slots ss vs is64 (out OR b) = Inr w"
    by (auto elim: sbindE)
  have wf: "\<forall>s\<in>set ss. slot_wf s" "slot_wf s" using 3(3) by auto
  show ?case
  proof (cases k)
    case 0
    have "bit (slot_fields ss) i \<Longrightarrow> \<not> bit (slot_field s) i" for i
    proof -
      assume "bit (slot_fields ss) i"
      then obtain j where "j < length ss" "bit (slot_field (ss ! j)) i"
        by (auto simp: bit_slot_fields in_set_conv_nth)
      then show ?thesis using 3(6) [of "Suc j" i] 0 by simp
    qed
    with 0 3(5) encode_slots_bits [OF r wf(1)] encode_slot_field [OF b wf(2)] have "w AND slot_field s = b"
      by (intro bit_word_eqI) (auto simp: bit_and_iff bit_or_iff)
    with 0 b show ?thesis by simp
  next
    case (Suc k')
    have "\<not> bit (slot_field (ss ! k')) i" if "bit (out OR b) i" for i
      using that 3(5) [of i] 3(6) [of 0 i] encode_slot_field [OF b wf(2), of i] Suc
      by (auto simp: bit_or_iff)
    moreover have "\<not> bit (slot_field (ss ! k')) i"
      if "j < length ss" "j \<noteq> k'" "bit (slot_field (ss ! j)) i" for i j
      using that 3(6) [of "Suc j" i] Suc by simp
    ultimately show ?thesis
      using 3(1) [OF b r wf(1), of k'] 3(4) Suc by simp
  qed
qed simp_all

lemma and_zero_bits: "a AND b = (0 :: 'a::len word) \<longleftrightarrow> (\<forall>i. bit a i \<longrightarrow> \<not> bit b i)"
  by (auto simp: bit_eq_iff bit_and_iff dest: bit_imp_le_length)

lemma encode_fixed_bits:
  assumes "form_sound f" and "encode f vs = Inr w"
  shows "w AND mask_bits f = pattern f"
proof (rule bit_word_eqI)
  fix i
  have wf: "\<forall>s\<in>set (slots f). slot_wf s" using assms(1) by (simp add: form_sound_def list_all_iff)
  have "encode_slots (slots f) vs (drop_bit 31 (pattern f) AND 1 = 1) (pattern f) = Inr w"
    using assms(2) by (auto simp: encode_def split: if_splits)
  from encode_slots_bits [OF this wf, of i] assms(1) bit_imp_le_length [of "pattern f" i]
  show "bit (w AND mask_bits f) i = bit (pattern f) i"
    unfolding form_sound_def and_zero_bits by (auto simp: bit_simps)
qed

lemma encode_slot_kept:
  assumes "form_sound f" and "separate (slots f)" and "encode f vs = Inr w" and "k < length (slots f)"
    and "pattern f AND slot_field (slots f ! k) = 0"
  shows "encode_slot (slots f ! k) (vs ! k) (bit (pattern f) 31) = Inr (w AND slot_field (slots f ! k))"
proof -
  have wf: "\<forall>s\<in>set (slots f). slot_wf s" using assms(1) by (simp add: form_sound_def list_all_iff)
  have e: "encode_slots (slots f) vs (bit (pattern f) 31) (pattern f) = Inr w"
    using assms(3) by (auto simp: encode_def bit31_field split: if_splits)
  have "\<not> bit (slot_field (slots f ! k)) i"
    if "j < length (slots f)" "j \<noteq> k" "bit (slot_field (slots f ! j)) i" for j i
    using assms(2,4) that unfolding separate_def and_zero_bits by (cases "j < k") (auto dest: linorder_neqE_nat)
  then show ?thesis
    using encode_slots_nth [OF e wf assms(4)] assms(5) unfolding and_zero_bits by blast
qed

end
