(* ===== verification/Enc_Table.thy ===== *)
theory Enc_Table
  imports Enc_Forms Enc_Frame
begin

text \<open>
  What the form tables satisfy: which entries are sound (fixed bits and operand fields
  disjoint, pattern inside its mask), what follows for the words they encode to, and which
  entry the operand-kind lookup picks.
\<close>

lemmas slot_simps = slot_field_def slot_fields_def slot_wf_def mask_numeral

section \<open>Sound entries\<close>

text \<open>
  The other entries: the mask fixes bits an operand may set (the \<open>hw\<close> field of the move-wide
  forms, the \<open>sh\<close> bit of the load/store forms), or the pattern leaves its mask (the 64-bit
  shift aliases and the long multiply-adds).
\<close>

definition loose :: "form list \<Rightarrow> (u16 \<times> u32) list" where
  "loose fs = map (\<lambda>f. (mnemonic_id f, pattern f)) (filter (\<lambda>f. \<not> form_sound f) fs)"

definition loose_forms :: "(u16 \<times> u32) list" where
  "loose_forms =
    [(17, 0xd3400000), (18, 0xd3400000), (51, 0xd3400000), (53, 0x72800000), (53, 0xf2800000),
     (62, 0x9ba00000), (63, 0x9ba08000), (82, 0x12800000), (82, 0x92800000), (3, 0x52800000),
     (5, 0xb9400000), (5, 0xf9400000), (6, 0xb9000000), (6, 0xf9000000), (81, 0x52800000)]"

lemma loose_manual_forms_1:
  "loose manual_forms_1 = []"
  by (simp add: loose_def manual_forms_1_def form_sound_def slot_simps)

lemma loose_manual_forms_2:
  "loose manual_forms_2 = [(17, 0xd3400000), (18, 0xd3400000)]"
  by (simp add: loose_def manual_forms_2_def form_sound_def slot_simps)

lemma loose_manual_forms_3:
  "loose manual_forms_3 = [(51, 0xd3400000), (53, 0x72800000), (53, 0xf2800000)]"
  by (simp add: loose_def manual_forms_3_def form_sound_def slot_simps)

lemma loose_manual_forms_4:
  "loose manual_forms_4 = [(62, 0x9ba00000), (63, 0x9ba08000), (82, 0x12800000), (82, 0x92800000)]"
  by (simp add: loose_def manual_forms_4_def form_sound_def slot_simps)

lemma loose_manual_forms_5:
  "loose manual_forms_5 = []"
  by (simp add: loose_def manual_forms_5_def form_sound_def slot_simps)

lemma loose_manual_forms_6:
  "loose manual_forms_6 = []"
  by (simp add: loose_def manual_forms_6_def form_sound_def slot_simps)

lemma loose_generated_forms_1:
  "loose generated_forms_1 = [(3, 0x52800000), (5, 0xb9400000), (5, 0xf9400000), (6, 0xb9000000), (6, 0xf9000000)]"
  by (simp add: loose_def generated_forms_1_def form_sound_def slot_simps)

lemma loose_generated_forms_2:
  "loose generated_forms_2 = [(81, 0x52800000)]"
  by (simp add: loose_def generated_forms_2_def form_sound_def slot_simps)

lemmas all_forms_defs = all_forms_def manual_forms_def generated_forms_def

lemma loose_append: "loose (xs @ ys) = loose xs @ loose ys"
  by (simp add: loose_def)

lemmas loose_parts = loose_manual_forms_1 loose_manual_forms_2 loose_manual_forms_3
  loose_manual_forms_4 loose_manual_forms_5 loose_manual_forms_6
  loose_generated_forms_1 loose_generated_forms_2

lemma loose_all_forms: "loose all_forms = loose_forms"
  unfolding all_forms_defs loose_append loose_parts by (simp add: loose_forms_def)

lemma sound_if_not_loose:
  assumes "f \<in> set all_forms" and "(mnemonic_id f, pattern f) \<notin> set loose_forms"
  shows "form_sound f"
  using assms unfolding loose_all_forms [symmetric] by (auto simp: loose_def)

lemma separate_parts:
  "list_all (\<lambda>f. separate (slots f)) manual_forms_1"
  "list_all (\<lambda>f. separate (slots f)) manual_forms_2"
  "list_all (\<lambda>f. separate (slots f)) manual_forms_3"
  "list_all (\<lambda>f. separate (slots f)) manual_forms_4"
  "list_all (\<lambda>f. separate (slots f)) manual_forms_5"
  "list_all (\<lambda>f. separate (slots f)) manual_forms_6"
  "list_all (\<lambda>f. separate (slots f)) generated_forms_1"
  "list_all (\<lambda>f. separate (slots f)) generated_forms_2"
  by (simp_all add: form_tables separate_def slot_simps less_Suc_eq All_less_Suc)

lemma separate_all_forms: "f \<in> set all_forms \<Longrightarrow> separate (slots f)"
  using separate_parts unfolding all_forms_defs by (auto simp: list_all_iff)

text \<open>
  C26.  The tables are well typed: in every entry the operand fields are pairwise disjoint, and,
  but for the fifteen loose entries, every field has a width, lies in the word and misses the
  fixed bits, and the pattern is inside its mask.
\<close>

theorem form_tables_typed:
  "list_all (\<lambda>f. separate (slots f) \<and> ((mnemonic_id f, pattern f) \<in> set loose_forms \<or> form_sound f)) all_forms"
  unfolding list_all_iff using separate_all_forms sound_if_not_loose by blast

section \<open>Words of table entries\<close>

lemma encode_length: "encode f vs = Inr w \<Longrightarrow> length (slots f) \<le> length vs"
  by (auto simp: encode_def split: if_splits)

text \<open>
  A word encoded from a table entry (other than the loose ones) passes the match test
  \<^verbatim>\<open>word & Mask == Pattern\<close> of that entry, whatever the operands are.
\<close>

theorem encode_table_matches:
  assumes "f \<in> set all_forms" and "(mnemonic_id f, pattern f) \<notin> set loose_forms"
    and "encode f vs = Inr w"
  shows "w AND mask_bits f = pattern f"
  by (rule encode_fixed_bits [OF sound_if_not_loose [OF assms(1,2)] assms(3)])

definition csel_form :: form where
  "csel_form = mk_form 24 0x9a800000 0xffe00c00 [
      mk_slot Xreg 1 0 5, mk_slot Xreg 1 5 5, mk_slot Xreg 1 16 5, mk_slot CondCode 10 12 4]"

definition operand :: "u8 \<Rightarrow> i64 \<Rightarrow> u8 \<Rightarrow> operand_value" where
  "operand r i c = \<lparr>reg = r, imm = i, shift_kind = 0, extend_kind = 0, cond = c\<rparr>"

lemma csel_in_table: "csel_form \<in> set all_forms"
  by (simp add: all_forms_defs manual_forms_2_def csel_form_def)

lemma csel_not_loose: "(mnemonic_id csel_form, pattern csel_form) \<notin> set loose_forms"
  by (simp add: csel_form_def loose_forms_def)

lemma csel_encode:
  "encode csel_form [operand 3 0 0, operand 4 0 0, operand 5 0 0, operand 0 0 1] = Inr 0x9a851083"
  by (simp add: encode_def csel_form_def operand_def encode_slot_def encode_reg_def encode_cond_def)

lemma encode_table_matches_witness: "(0x9a851083 :: u32) AND 0xffe00c00 = 0x9a800000"
  using encode_table_matches [OF csel_in_table csel_not_loose csel_encode] by (simp add: csel_form_def)

lemma encode_table_kept:
  assumes "f \<in> set all_forms" and "(mnemonic_id f, pattern f) \<notin> set loose_forms"
    and "encode f vs = Inr w" and "k < length (slots f)"
  shows "encode_slot (slots f ! k) (vs ! k) (bit (pattern f) 31) = Inr (w AND slot_field (slots f ! k))"
proof -
  note sound = sound_if_not_loose [OF assms(1,2)]
  have "pattern f AND slot_field (slots f ! k) = 0"
    using sound nth_mem [OF assms(4)] bit_imp_le_length [of "pattern f"]
    unfolding form_sound_def and_zero_bits bit_slot_fields bit_not_iff by (metis possible_bit_word)
  then show ?thesis
    by (rule encode_slot_kept [OF sound separate_all_forms [OF assms(1)] assms(3,4)])
qed

text \<open>
  The operands do not disturb each other: the bits of the word in a slot's field are
  exactly what the slot's encoder returns for that slot's operand.
\<close>

theorem encode_table_operands:
  assumes "f \<in> set all_forms" and "(mnemonic_id f, pattern f) \<notin> set loose_forms"
    and "encode f vs = Inr w" and "k < length (slots f)"
  shows "encode_slot (slots f ! k) (vs ! k) (bit (pattern f) 31) = Inr (w AND slot_field (slots f ! k))"
  by (rule encode_table_kept [OF assms])

lemma encode_table_operands_witness:
  "encode_slot (mk_slot CondCode 10 12 4) (operand 0 0 1) True = Inr (0x9a851083 AND push_bit 12 (mask 4))"
  using encode_table_operands [OF csel_in_table csel_not_loose csel_encode, of 3]
  by (simp add: csel_form_def slot_field_def)

definition register_kinds :: "SlotKind set" where
  "register_kinds = {Xreg, Wreg, XregOrSp, WregOrSp}"

lemma register_positions_parts:
  "list_all (\<lambda>f. list_all (\<lambda>s. slot_kind s \<in> register_kinds \<longrightarrow> bit_position s + 5 \<le> 32) (slots f)) all_forms"
  by (simp add: all_forms_defs form_tables register_kinds_def)

lemma register_position:
  "f \<in> set all_forms \<Longrightarrow> s \<in> set (slots f) \<Longrightarrow> slot_kind s \<in> register_kinds \<Longrightarrow> bit_position s + 5 \<le> 32"
  using register_positions_parts by (auto simp: list_all_iff)

text \<open>
  Reading the five bits of a register slot back from the word gives the register number
  that was encoded there.
\<close>

theorem encode_table_registers:
  assumes "f \<in> set all_forms" and "(mnemonic_id f, pattern f) \<notin> set loose_forms"
    and "encode f vs = Inr w" and "k < length (slots f)"
    and "slot_kind (slots f ! k) \<in> register_kinds"
  shows "extract_bits w (bit_position (slots f ! k)) 5 = ucast (reg (vs ! k))"
proof (rule bit_word_eqI)
  fix i
  let ?s = "slots f ! k" and ?r = "reg (vs ! k)"
  have r: "\<not> ?r > 31" and w: "w AND push_bit (bit_position ?s) (mask 5) = push_bit (bit_position ?s) (ucast ?r)"
    using encode_table_kept [OF assms(1-4)] assms(5)
    by (auto simp: encode_slot_def encode_reg_def slot_field_def register_kinds_def split: if_splits)
  have "bit_position ?s + 5 \<le> 32" by (rule register_position [OF assms(1) nth_mem [OF assms(4)] assms(5)])
  then show "bit (extract_bits w (bit_position ?s) 5) i \<longleftrightarrow> bit (ucast ?r :: u32) i"
    using bit_less_exp [of ?r 5 i] r arg_cong [OF w, of "\<lambda>x. bit x (bit_position ?s + i)"]
    by (auto simp: bit_extract_bits bit_simps word_le_nat_alt word_less_nat_alt)
qed

lemma encode_table_registers_witness: "extract_bits 0x9a851083 16 5 = ucast (5 :: u8)"
  using encode_table_registers [OF csel_in_table csel_not_loose csel_encode, of 2]
  by (simp add: csel_form_def operand_def register_kinds_def)

section \<open>Lookup\<close>

definition selects :: "u16 \<Rightarrow> operand_kind list \<Rightarrow> form \<Rightarrow> bool" where
  "selects n kinds f \<longleftrightarrow> mnemonic_id f = n \<and> map expected_kind (slots f) = kinds"

lemma find_filter: "find P (filter Q xs) = find (\<lambda>x. Q x \<and> P x) xs"
  by (induction xs) auto

lemma validate_find:
  "validate_operand_kinds n kinds = Inr f \<longleftrightarrow> find (selects n kinds) all_forms = Some f"
proof -
  have c: "forms_for_mnemonic n = filter (\<lambda>f. mnemonic_id f = n) all_forms"
    by (simp add: forms_for_mnemonic_def all_forms_def)
  have "find (selects n kinds) all_forms = match_operand_kinds (forms_for_mnemonic n) kinds"
    by (simp add: match_operand_kinds_find c find_filter selects_def [abs_def])
  then show ?thesis
    by (cases "forms_for_mnemonic n = []") (auto simp: validate_operand_kinds_def Let_def split: option.splits)
qed

text \<open>
  \<^verbatim>\<open>ValidateOperandKinds\<close> selects the first entry, manual entries before generated ones,
  that has the mnemonic and exactly the operand kinds; it reports an error iff there is none.
\<close>

theorem validate_first_match:
  "validate_operand_kinds n kinds = Inr f \<longleftrightarrow>
     (\<exists>i<length (manual_forms @ generated_forms).
        (manual_forms @ generated_forms) ! i = f \<and> selects n kinds f
        \<and> (\<forall>j<i. \<not> selects n kinds ((manual_forms @ generated_forms) ! j)))"
  unfolding validate_find all_forms_def [symmetric] find_Some_iff by auto

lemma validate_first_match_witness:
  "validate_operand_kinds 3 [2, 2] =
     Inr (mk_form 3 0x2a0003e0 0xffe0ffe0 [mk_slot Wreg 2 0 5, mk_slot Wreg 2 16 5])"
  unfolding validate_first_match
  by (rule exI [of _ 0]) (simp add: selects_def manual_forms_def manual_forms_1_def)

section \<open>Entries no word can match\<close>

lemma matchable_iff: "(\<exists>w. w AND m = p) \<longleftrightarrow> p AND NOT m = (0 :: u32)"
proof
  assume "\<exists>w. w AND m = p"
  then show "p AND NOT m = 0" unfolding and_zero_bits by (auto simp: bit_simps)
next
  assume "p AND NOT m = 0"
  then have "p AND m = p"
    unfolding and_zero_bits by (intro bit_word_eqI) (auto simp: bit_simps)
  then show "\<exists>w. w AND m = p" by blast
qed

definition unmatchable :: "form list \<Rightarrow> (u16 \<times> u32) list" where
  "unmatchable fs = map (\<lambda>f. (mnemonic_id f, pattern f)) (filter (\<lambda>f. pattern f AND NOT (mask_bits f) \<noteq> 0) fs)"

lemma unmatchable_all_forms:
  "unmatchable all_forms = [(17, 0xd3400000), (18, 0xd3400000), (51, 0xd3400000), (62, 0x9ba00000), (63, 0x9ba08000)]"
  by (simp add: unmatchable_def all_forms_defs form_tables)

text \<open>
  Five table entries (the 64-bit lsl, lsr and ubfx aliases, umaddl and umsubl) have pattern
  bits outside their mask, so the disassembler's test \<^verbatim>\<open>word & Mask == Pattern\<close> fails for
  every word: only the alias decoder can name these instructions.  All other entries match
  some word.
\<close>

theorem unmatchable_entries:
  "map (\<lambda>f. (mnemonic_id f, pattern f)) (filter (\<lambda>f. \<not> (\<exists>w. w AND mask_bits f = pattern f)) all_forms)
   = [(17, 0xd3400000), (18, 0xd3400000), (51, 0xd3400000), (62, 0x9ba00000), (63, 0x9ba08000)]"
  unfolding matchable_iff unmatchable_all_forms [unfolded unmatchable_def] ..

end
