(* ===== verification/Dec_Branch.thy ===== *)
theory Dec_Branch
  imports Dec_Logical Enc_Forms
begin

text \<open>
  The PC-relative fields of \<^verbatim>\<open>tools/aarch64dec\<close>: sign extension, the target addresses that
  \<^verbatim>\<open>slots_branch.go\<close> and \<^verbatim>\<open>mem.go\<close> print, and \<^verbatim>\<open>BranchTarget\<close> (\<^verbatim>\<open>branchtarget.go\<close>), which the
  listing writer uses to place labels.
\<close>

section \<open>Sign extension\<close>

text \<open>\<^verbatim>\<open>int32(bits<<shift) >> shift\<close>, for \<open>1 \<le> n \<le> 32\<close>.\<close>

definition sign_extend32 :: "u32 \<Rightarrow> nat \<Rightarrow> 32 word" where
  "sign_extend32 bits n = signed_drop_bit (32 - n) (push_bit (32 - n) bits)"

definition sign_extend64 :: "u64 \<Rightarrow> nat \<Rightarrow> i64" where
  "sign_extend64 bits n = signed_drop_bit (64 - n) (push_bit (64 - n) bits)"

text \<open>\<^verbatim>\<open>signExtend\<close> of \<^verbatim>\<open>mem.go\<close>: widen, then shift up and back down.\<close>

definition sign_extend :: "u32 \<Rightarrow> nat \<Rightarrow> i64" where
  "sign_extend v n = signed_drop_bit (64 - n) (push_bit (64 - n) (ucast v))"

lemma bit_sign_extend32:
  "0 < n \<Longrightarrow> n \<le> 32 \<Longrightarrow>
   bit (sign_extend32 b n) i \<longleftrightarrow> i < 32 \<and> bit b (if i < n then i else n - 1)"
  by (auto simp: sign_extend32_def bit_signed_drop_bit_iff bit_push_bit_iff)

lemma bit_sign_extend64:
  "0 < n \<Longrightarrow> n \<le> 64 \<Longrightarrow>
   bit (sign_extend64 b n) i \<longleftrightarrow> i < 64 \<and> bit b (if i < n then i else n - 1)"
  by (auto simp: sign_extend64_def bit_signed_drop_bit_iff bit_push_bit_iff)

lemma bit_sign_extend:
  "0 < n \<Longrightarrow> n \<le> 32 \<Longrightarrow>
   bit (sign_extend b n) i \<longleftrightarrow> i < 64 \<and> bit b (if i < n then i else n - 1)"
  by (auto simp: sign_extend_def bit_signed_drop_bit_iff bit_push_bit_iff bit_simps)

section \<open>Targets\<close>

definition decode_branch_imm :: "u32 \<Rightarrow> u64 \<Rightarrow> operand_slot \<Rightarrow> u64" where
  "decode_branch_imm word pc slot =
     (let bits = extract_bits word (bit_position slot) (bit_width slot);
          instr_offset = sign_extend32 bits (bit_width slot);
          byte_offset = scast instr_offset * 4 :: i64
      in pc + byte_offset)"

definition decode_imm21 :: "u32 \<Rightarrow> u64" where
  "decode_imm21 word =
     (let immlo = extract_bits word 29 2; immhi = extract_bits word 5 19
      in sign_extend64 (ucast (push_bit 2 immhi OR immlo)) 21)"

definition decode_adrp_imm :: "u32 \<Rightarrow> u64 \<Rightarrow> u64" where
  "decode_adrp_imm word pc = (pc AND NOT 0xFFF) + push_bit 12 (decode_imm21 word)"

definition decode_adr_imm :: "u32 \<Rightarrow> u64 \<Rightarrow> u64" where
  "decode_adr_imm word pc = pc + decode_imm21 word"

section \<open>\<^verbatim>\<open>BranchTarget\<close>\<close>

definition is_branch_slot :: "operand_slot \<Rightarrow> bool" where
  "is_branch_slot s \<longleftrightarrow> slot_kind s = BranchImm26 \<or> slot_kind s = BranchImm19 \<or> slot_kind s = BranchImm14"

text \<open>
  The walk over the table: a form that matches but has no branch slot does not stop it.
\<close>

fun branch_target_forms :: "form list \<Rightarrow> u64 \<Rightarrow> u32 \<Rightarrow> u64 option" where
  "branch_target_forms [] pc word = None"
| "branch_target_forms (f # fs) pc word =
     (if word AND mask_bits f \<noteq> pattern f then branch_target_forms fs pc word
      else case find is_branch_slot (slots f) of
        Some slot \<Rightarrow> Some (decode_branch_imm word pc slot)
      | None \<Rightarrow> branch_target_forms fs pc word)"

definition branch_target :: "u64 \<Rightarrow> u32 \<Rightarrow> u64 option" where
  "branch_target pc word =
     (if drop_bit 25 word AND 0x3f = 0x1b
      then let imm14 = drop_bit 5 word AND 0x3fff;
               off = push_bit 2 (sign_extend imm14 14)
           in Some (pc + off)
      else branch_target_forms all_forms pc word)"

section \<open>Reading encoded fields back\<close>

text \<open>A value that fits a signed field of \<open>n\<close> bits.\<close>

definition in_field :: "i64 \<Rightarrow> nat \<Rightarrow> bool" where
  "in_field y n \<longleftrightarrow> - (2 ^ (n - 1)) \<le> sint y \<and> sint y < 2 ^ (n - 1)"

lemma in_field_bit: "in_field y n \<Longrightarrow> n - 1 \<le> i \<Longrightarrow> i < 64 \<Longrightarrow> bit y i = bit y (n - 1)"
  using bit_i64_sign [of "n - 1" y] by (auto simp: in_field_def)

lemma sign_extend_eq:
  assumes "0 < n" "n \<le> 32" "in_field y n" and "\<And>i. i < n \<Longrightarrow> bit x i = bit y i"
  shows "scast (sign_extend32 x n) = y" and "sign_extend x n = y"
proof -
  have b: "bit y i = bit x (if i < n then i else n - 1)" if "i < 64" for i
    using assms in_field_bit [OF assms(3), of i] that by auto
  show "sign_extend x n = y"
    by (rule bit_word_eqI) (use assms(1,2) b in \<open>simp add: bit_sign_extend\<close>)
  have m: "(if min i 31 < n then min i 31 else n - 1) = (if i < n then i else n - 1)" for i
    using assms(2) by (auto simp: min_def)
  have s: "bit (scast z :: i64) i = (i < 64 \<and> bit (z :: 32 word) (min i 31))" for z i
    by (auto simp: bit_signed_iff min_def)
  show "scast (sign_extend32 x n) = y"
    by (rule bit_word_eqI) (use assms(1,2) b m in \<open>simp add: s min_less_iff_disj bit_sign_extend32\<close>)
qed

lemma sign_extend64_eq:
  assumes "0 < n" "n \<le> 64" "in_field y n" and "\<And>i. i < n \<Longrightarrow> bit x i = bit y i"
  shows "sign_extend64 x n = y"
proof -
  have b: "bit y i = bit x (if i < n then i else n - 1)" if "i < 64" for i
    using assms in_field_bit [OF assms(3), of i] that by auto
  show ?thesis
    by (rule bit_word_eqI) (use assms(1,2) b in \<open>simp add: bit_sign_extend64\<close>)
qed

lemma decode_encoded_branch:
  assumes enc: "encode_branch_imm s off = Inr b" and w: "0 < bit_width s" "bit_width s \<le> 26"
    and p: "bit_position s + bit_width s \<le> 32"
    and base: "extract_bits base (bit_position s) (bit_width s) = 0"
  shows "decode_branch_imm (base OR b) pc s = pc + off"
proof -
  let ?p = "bit_position s" and ?w = "bit_width s" and ?y = "gdiv off 4"
  have e: "sint (2 ^ (?w - 1) :: i64) = 2 ^ (?w - 1)" using w by (intro sint_exp64) simp
  have e': "sint (- (2 ^ (?w - 1)) :: i64) = - (2 ^ (?w - 1))" by (rule sint_neg_exp64) (use w in simp)
  have h: "gmod off 4 = 0" and r: "sint ?y < 2 ^ (?w - 1)" "- (2 ^ (?w - 1)) \<le> sint ?y"
    and b: "b = push_bit ?p (ucast ?y AND (push_bit ?w 1 - 1))"
    using enc unfolding encode_branch_imm_def Let_def push_bit_of_1 e e' by (auto split: if_splits)
  let ?x = "extract_bits (base OR b) ?p ?w"
  have "\<not> bit base (?p + i)" if "i < ?w" for i
    using arg_cong [OF base, of "\<lambda>x. bit x i"] that by (simp add: bit_extract_bits)
  then have x: "bit ?x i = bit ?y i" if "i < ?w" for i
    using that w p by (auto simp: bit_extract_bits b bit_or_iff bit_push_bit_iff bit_and_iff bit_exp_mask bit_simps)
  have "scast (sign_extend32 ?x ?w) = ?y"
    using w r x by (intro sign_extend_eq) (auto simp: in_field_def)
  moreover have "?y * 4 = off" using gdiv_mult [of 4 off] h by simp
  ultimately show ?thesis by (simp add: decode_branch_imm_def Let_def)
qed

lemma extract_or_field:
  assumes "extract_bits base p w = 0" and "i < w" and "p + w \<le> 32"
  shows "bit (extract_bits (base OR b) p w) i \<longleftrightarrow> bit b (p + i)"
  using assms(2,3) arg_cong [OF assms(1), of "\<lambda>x. bit x i"] by (auto simp: bit_extract_bits bit_or_iff)

lemma bit_pack_imm21:
  "bit (pack_imm21 v) i \<longleftrightarrow> 29 \<le> i \<and> i < 31 \<and> bit v (i - 29) \<or> 5 \<le> i \<and> i < 24 \<and> bit v (i - 3)"
proof -
  have m: "(0x3 :: u32) = mask 2" "(push_bit 19 1 - 1 :: u32) = mask 19" "(push_bit 21 1 - 1 :: u32) = mask 21"
    by (simp_all add: mask_numeral)
  have s: "5 \<le> i \<Longrightarrow> Suc (Suc (i - 5)) = i - 3" by simp
  show ?thesis unfolding pack_imm21_def Let_def m by (auto simp: bit_simps s)
qed

lemma decode_packed_imm21:
  assumes "in_field y 21" and "extract_bits base 29 2 = 0" and "extract_bits base 5 19 = 0"
  shows "decode_imm21 (base OR pack_imm21 y) = y"
proof -
  let ?x = "push_bit 2 (extract_bits (base OR pack_imm21 y) 5 19) OR extract_bits (base OR pack_imm21 y) 29 2"
  have "bit ?x i = bit y i" if "i < 21" for i
  proof (cases "i < 2")
    case True
    then show ?thesis
      by (simp add: bit_or_iff bit_push_bit_iff extract_or_field [OF assms(2)] bit_pack_imm21)
  next
    case False
    have "i - 2 < 19" using that by simp
    with False that show ?thesis using extract_or_field [OF assms(3), of "i - 2" "pack_imm21 y"]
      by (simp add: bit_or_iff bit_push_bit_iff bit_extract_bits bit_pack_imm21)
  qed
  then have "sign_extend64 (ucast ?x) 21 = y"
    using assms(1) by (intro sign_extend64_eq) (simp_all add: bit_simps)
  then show ?thesis by (simp add: decode_imm21_def Let_def)
qed
end
