(* ===== verification/Enc_Branches.thy ===== *)
theory Enc_Branches
  imports Enc_Table Dec_Branch
begin

text \<open>
  Direct branches end to end: a branch encoded from the form table with a byte offset is
  recognised by \<^verbatim>\<open>BranchTarget\<close>, which returns the program counter plus that offset.  The
  branch entries of the table exclude each other, so the walk over the table cannot pick a
  wrong one.
\<close>

definition has_branch :: "form \<Rightarrow> bool" where
  "has_branch f \<longleftrightarrow> list_ex is_branch_slot (slots f)"

definition branch_forms :: "form list" where
  "branch_forms = filter has_branch all_forms"

definition the_branch_slot :: "form \<Rightarrow> operand_slot" where
  "the_branch_slot f = hd (filter is_branch_slot (slots f))"

text \<open>Two entries no word matches both of.\<close>

definition excludes :: "u32 \<Rightarrow> u32 \<Rightarrow> u32 \<Rightarrow> u32 \<Rightarrow> bool" where
  "excludes m p m' p' \<longleftrightarrow> p AND m' \<noteq> p' AND m"

lemma excludesD: "excludes m p m' p' \<Longrightarrow> w AND m = p \<Longrightarrow> w AND m' \<noteq> p'"
  unfolding excludes_def by (metis and.assoc and.commute)

definition cond_branches :: "form list" where
  "cond_branches = map (\<lambda>c. mk_form (26 + of_nat c) (0x54000000 + of_nat c) 0xff00001f [mk_slot BranchImm19 5 5 19]) [0..<16]"

lemma branch_forms_eq:
  "branch_forms =
    [mk_form 9 0x14000000 0xfc000000 [mk_slot BranchImm26 5 0 26],
     mk_form 10 0x94000000 0xfc000000 [mk_slot BranchImm26 5 0 26],
     mk_form 20 0x34000000 0xff000000 [mk_slot Wreg 2 0 5, mk_slot BranchImm19 5 5 19],
     mk_form 20 0xb4000000 0xff000000 [mk_slot Xreg 1 0 5, mk_slot BranchImm19 5 5 19],
     mk_form 21 0x35000000 0xff000000 [mk_slot Wreg 2 0 5, mk_slot BranchImm19 5 5 19],
     mk_form 21 0xb5000000 0xff000000 [mk_slot Xreg 1 0 5, mk_slot BranchImm19 5 5 19]]
    @ cond_branches @
    [mk_form 42 0x54000002 0xff00001f [mk_slot BranchImm19 5 5 19],
     mk_form 43 0x54000003 0xff00001f [mk_slot BranchImm19 5 5 19]]"
  by (simp add: branch_forms_def all_forms_defs form_tables has_branch_def is_branch_slot_def cond_branches_def
      upt_rec)

lemma find_hd: "list_ex P xs \<Longrightarrow> find P xs = Some (hd (filter P xs))"
  by (induction xs) auto

lemma branch_target_find:
  "branch_target_forms fs pc w =
     map_option (\<lambda>f. decode_branch_imm w pc (the_branch_slot f))
       (find (\<lambda>f. w AND mask_bits f = pattern f) (filter has_branch fs))"
proof (induction fs)
  case (Cons f fs)
  show ?case
  proof (cases "has_branch f")
    case True
    then have "find is_branch_slot (slots f) = Some (the_branch_slot f)"
      unfolding has_branch_def the_branch_slot_def by (rule find_hd)
    with Cons True show ?thesis by simp
  next
    case False
    then have "find is_branch_slot (slots f) = None"
      by (simp add: has_branch_def find_None_iff list_ex_iff)
    with Cons False show ?thesis by simp
  qed
qed simp

lemma branch_forms_exclude:
  assumes "f \<in> set branch_forms" and "g \<in> set branch_forms"
  shows "excludes (mask_bits f) (pattern f) (mask_bits g) (pattern g) \<or> the_branch_slot f = the_branch_slot g"
proof -
  have "list_all (\<lambda>f. list_all (\<lambda>g. excludes (mask_bits f) (pattern f) (mask_bits g) (pattern g)
      \<or> the_branch_slot f = the_branch_slot g) branch_forms) branch_forms"
    by (simp add: branch_forms_eq cond_branches_def upt_rec excludes_def the_branch_slot_def is_branch_slot_def)
  with assms show ?thesis by (auto simp: list_all_iff)
qed

lemma branch_forms_facts:
  assumes "f \<in> set branch_forms"
  shows "excludes (mask_bits f) (pattern f) 0x7e000000 0x36000000"
    and "(mnemonic_id f, pattern f) \<notin> set loose_forms"
    and "list_all (\<lambda>s. is_branch_slot s \<longrightarrow> s = the_branch_slot f) (slots f)"
    and "0 < bit_width (the_branch_slot f) \<and> bit_width (the_branch_slot f) \<le> 26
      \<and> bit_position (the_branch_slot f) + bit_width (the_branch_slot f) \<le> 32"
proof -
  have "list_all (\<lambda>f. excludes (mask_bits f) (pattern f) 0x7e000000 0x36000000) branch_forms"
    by (simp add: branch_forms_eq cond_branches_def upt_rec excludes_def)
  with assms show "excludes (mask_bits f) (pattern f) 0x7e000000 0x36000000" by (auto simp: list_all_iff)
  have "list_all (\<lambda>f. (mnemonic_id f, pattern f) \<notin> set loose_forms) branch_forms"
    by (simp add: branch_forms_eq cond_branches_def upt_rec loose_forms_def)
  with assms show "(mnemonic_id f, pattern f) \<notin> set loose_forms" by (auto simp: list_all_iff)
  have "list_all (\<lambda>f. list_all (\<lambda>s. is_branch_slot s \<longrightarrow> s = the_branch_slot f) (slots f)) branch_forms"
    by (simp add: branch_forms_eq cond_branches_def upt_rec the_branch_slot_def is_branch_slot_def)
  with assms show "list_all (\<lambda>s. is_branch_slot s \<longrightarrow> s = the_branch_slot f) (slots f)" by (auto simp: list_all_iff)
  have "list_all (\<lambda>f. 0 < bit_width (the_branch_slot f) \<and> bit_width (the_branch_slot f) \<le> 26
      \<and> bit_position (the_branch_slot f) + bit_width (the_branch_slot f) \<le> 32) branch_forms"
    by (simp add: branch_forms_eq cond_branches_def upt_rec the_branch_slot_def is_branch_slot_def)
  with assms show "0 < bit_width (the_branch_slot f) \<and> bit_width (the_branch_slot f) \<le> 26
      \<and> bit_position (the_branch_slot f) + bit_width (the_branch_slot f) \<le> 32" by (auto simp: list_all_iff)
qed

lemma branch_target_of_match:
  assumes f: "f \<in> set branch_forms" and w: "w AND mask_bits f = pattern f"
  shows "branch_target pc w = Some (decode_branch_imm w pc (the_branch_slot f))"
proof -
  have m: "(0x7e000000 :: u32) = push_bit 25 (mask 6)" "(0x3f :: u32) = mask 6" by (simp_all add: mask_numeral)
  have p: "w AND 0x7e000000 = push_bit 25 (drop_bit 25 w AND 0x3f)"
    unfolding m by (rule bit_word_eqI) (auto simp: bit_simps)
  have nt: "drop_bit 25 w AND 0x3f \<noteq> 0x1b"
  proof
    assume "drop_bit 25 w AND 0x3f = 0x1b"
    with p have "w AND 0x7e000000 = push_bit 25 0x1b" by (simp only:)
    then have "w AND 0x7e000000 = 0x36000000" by simp
    with excludesD [OF branch_forms_facts(1) [OF f] w] show False by (rule notE)
  qed
  have "find (\<lambda>f. w AND mask_bits f = pattern f) branch_forms \<noteq> None"
    using f w by (auto simp: find_None_iff)
  then obtain g where g: "find (\<lambda>f. w AND mask_bits f = pattern f) branch_forms = Some g" by auto
  then have "g \<in> set branch_forms \<and> w AND mask_bits g = pattern g" by (rule find_SomeD)
  then have "the_branch_slot g = the_branch_slot f"
    using branch_forms_exclude [OF f, of g] excludesD [of "mask_bits f" "pattern f" "mask_bits g" "pattern g" w] w
    by auto
  with g nt show ?thesis
    by (simp add: branch_target_def branch_target_find branch_forms_def)
qed

text \<open>
  C28.  For a table entry with a branch slot, the word encoded with byte offset \<open>imm\<close> makes
  \<^verbatim>\<open>BranchTarget\<close> return \<open>pc + imm\<close>: the listing writer labels exactly the address that was
  assembled.
\<close>

theorem encode_branch_target:
  assumes "f \<in> set all_forms" and "encode f vs = Inr w" and "k < length (slots f)"
    and "is_branch_slot (slots f ! k)"
  shows "branch_target pc w = Some (pc + imm (vs ! k))"
proof -
  let ?s = "slots f ! k"
  have f: "f \<in> set branch_forms"
    using assms(1,3,4) by (auto simp: branch_forms_def has_branch_def list_ex_iff)
  note facts = branch_forms_facts [OF f]
  have s: "the_branch_slot f = ?s"
    using facts(3) assms(3,4) by (auto simp: list_all_iff)
  have e: "encode_branch_imm ?s (imm (vs ! k)) = Inr (w AND slot_field ?s)"
    using encode_table_kept [OF assms(1) facts(2) assms(2,3)] assms(4)
    by (auto simp: encode_slot_def is_branch_slot_def)
  have z: "extract_bits (w AND NOT (slot_field ?s)) (bit_position ?s) (bit_width ?s) = 0"
    using assms(4) facts(4) s
    by (intro bit_word_eqI) (auto simp: bit_extract_bits slot_field_def is_branch_slot_def bit_simps)
  have "(w AND NOT (slot_field ?s)) OR (w AND slot_field ?s) = w"
    by (rule bit_word_eqI) (auto simp: bit_simps)
  then have "decode_branch_imm w pc ?s = pc + imm (vs ! k)"
    using decode_encoded_branch [OF e _ _ _ z, of pc] facts(4) s by simp
  then show ?thesis
    using branch_target_of_match [OF f encode_fixed_bits [OF sound_if_not_loose [OF assms(1) facts(2)] assms(2)]] s
    by simp
qed

definition bl_form :: form where
  "bl_form = mk_form 10 0x94000000 0xfc000000 [mk_slot BranchImm26 5 0 26]"

lemma encode_branch_target_witness: "branch_target 0x80000 0x94000040 = Some 0x80100"
proof -
  have "bl_form \<in> set all_forms" by (simp add: bl_form_def all_forms_defs generated_forms_1_def)
  moreover have "encode bl_form [operand 0 0x100 0] = Inr 0x94000040"
    by (simp add: bl_form_def encode_def encode_slot_def operand_def encode_branch_imm_def gmod_def gdiv_def)
  ultimately show ?thesis
    using encode_branch_target [of bl_form "[operand 0 0x100 0]" "0x94000040" 0 "0x80000"]
    by (simp add: bl_form_def is_branch_slot_def operand_def)
qed

end
