(* ===== verification/Enc_Overlay.thy ===== *)
theory Enc_Overlay
  imports Enc_Frame Dec_Branch
begin

text \<open>
  The instruction overlay of \<^verbatim>\<open>tools/aarch64enc/overlay.go\<close>: \<^verbatim>\<open>Fold\<close> turns the value of a
  patch expression into the bits of a relocated field, and \<^verbatim>\<open>ZeroSlot\<close> clears that field to
  recover the base word.  The slot numbers are bytes on disk.
\<close>

section \<open>Folds\<close>

abbreviation FoldBranch26 :: u8 where "FoldBranch26 \<equiv> 1"
abbreviation FoldBranch19 :: u8 where "FoldBranch19 \<equiv> 2"
abbreviation FoldBranch14 :: u8 where "FoldBranch14 \<equiv> 3"
abbreviation FoldAdr :: u8 where "FoldAdr \<equiv> 4"
abbreviation FoldAdrp :: u8 where "FoldAdrp \<equiv> 5"
abbreviation FoldAddSubImm12 :: u8 where "FoldAddSubImm12 \<equiv> 6"
abbreviation FoldMemImm12 :: u8 where "FoldMemImm12 \<equiv> 7"
abbreviation FoldMemImm9 :: u8 where "FoldMemImm9 \<equiv> 8"
abbreviation FoldMovkImm16 :: u8 where "FoldMovkImm16 \<equiv> 9"
abbreviation FoldLogical :: u8 where "FoldLogical \<equiv> 10"
abbreviation FoldPairImm7 :: u8 where "FoldPairImm7 \<equiv> 11"
abbreviation FoldLitpool19 :: u8 where "FoldLitpool19 \<equiv> 12"
abbreviation FoldMovzAuto :: u8 where "FoldMovzAuto \<equiv> 13"

text \<open>A slot literal with only a position and a width.\<close>

definition field_slot :: "nat \<Rightarrow> nat \<Rightarrow> operand_slot" where
  "field_slot p w = \<lparr>slot_kind = SlotOther 0, expected_kind = 0, bit_position = p, bit_width = w\<rparr>"

text \<open>The page of an address, \<^verbatim>\<open>a &^ 0xFFF\<close>.\<close>

definition page :: "u64 \<Rightarrow> u64" where
  "page a = a AND NOT 0xFFF"

text \<open>The page difference of \<^verbatim>\<open>FoldAdrp\<close>, masked to a signed 33-bit value.\<close>

definition adrp_diff :: "i64 \<Rightarrow> i64 \<Rightarrow> i64" where
  "adrp_diff v pc =
     (let diff = page v - page pc;
          mask33 = push_bit 33 1 - 1;
          diff = diff AND mask33
      in if diff AND push_bit 32 1 \<noteq> 0 then diff OR NOT mask33 else diff)"

text \<open>The value \<^verbatim>\<open>FoldMovzAuto\<close> has to materialise: the low half for a 32-bit register.\<close>

definition movz_value :: "i64 \<Rightarrow> u32 \<Rightarrow> u64" where
  "movz_value v base = (if drop_bit 31 base AND 1 = 1 then v else v AND 0xFFFFFFFF)"

definition fold_movz_auto :: "i64 \<Rightarrow> u32 \<Rightarrow> u32 res" where
  "fold_movz_auto v base =
     (let is64 = drop_bit 31 base AND 1 = 1;
          u = movz_value v base
      in case find (\<lambda>sh. push_bit sh (drop_bit sh u AND 0xFFFF) = u) (if is64 then [0, 16, 32, 48] else [0, 16]) of
           Some sh \<Rightarrow> Inr (push_bit 5 (ucast (drop_bit sh u AND 0xFFFF)) OR push_bit 21 (of_nat (sh div 16)))
         | None \<Rightarrow> Inl (Error ''FoldMovzAuto: value not movz-encodable''))"

definition mem_scale :: "u32 \<Rightarrow> i64" where
  "mem_scale base = push_bit (unat (drop_bit 30 base AND 3)) 1"

definition pair_scale :: "u32 \<Rightarrow> i64" where
  "pair_scale base = (if drop_bit 31 base AND 1 = 1 then 8 else 4)"

definition fold_slot :: "u8 \<Rightarrow> i64 \<Rightarrow> i64 \<Rightarrow> u32 \<Rightarrow> u32 res" where
  "fold_slot slot v pc base =
     (if slot = FoldBranch26 then encode_branch_imm (field_slot 0 26) (v - pc)
      else if slot = FoldBranch19 then encode_branch_imm (field_slot 5 19) (v - pc)
      else if slot = FoldBranch14 then encode_branch_imm (field_slot 5 14) (v - pc)
      else if slot = FoldAdr then encode_adr_imm (field_slot 0 0) (v - pc)
      else if slot = FoldAdrp then encode_adrp_imm (field_slot 0 0) (adrp_diff v pc)
      else if slot = FoldAddSubImm12
      then if sint v < 0 \<or> sint v \<ge> 2 ^ 12
           then Inl (Error ''FoldAddSubImm12: value does not fit unsigned imm12'')
           else Inr (push_bit 10 (ucast v))
      else if slot = FoldMemImm12
      then if sint v < 0 \<or> gmod v (mem_scale base) \<noteq> 0 \<or> sint (gdiv v (mem_scale base)) \<ge> 2 ^ 12
           then Inl (Error ''FoldMemImm12: byte offset not a scaled imm12'')
           else Inr (push_bit 10 (ucast (gdiv v (mem_scale base))))
      else if slot = FoldMemImm9
      then if sint v < - 256 \<or> sint v > 255 then Inl (Error ''FoldMemImm9: value out of [-256,255]'')
           else Inr (push_bit 12 (ucast v AND 0x1ff))
      else if slot = FoldMovkImm16 then Inr (push_bit 5 (ucast (v AND 0xFFFF)))
      else if slot = FoldMovzAuto then fold_movz_auto v base
      else if slot = FoldLogical
      then encode_logical_imm (field_slot 10 0) v (drop_bit 31 base AND 1 = 1)
      else if slot = FoldPairImm7
      then if gmod v (pair_scale base) \<noteq> 0
           then Inl (Error ''FoldPairImm7: byte offset not a multiple of the scale'')
           else let so = gdiv v (pair_scale base)
                in if sint so < - 64 \<or> sint so > 63
                   then Inl (Error ''FoldPairImm7: scaled offset out of [-64,63]'')
                   else Inr (push_bit 15 (ucast so AND 0x7F))
      else if slot = FoldLitpool19 then encode_branch_imm (field_slot 5 19) (v - pc)
      else Inl (Error ''Fold: unknown slot''))"

definition fold_slot_for_kind :: "SlotKind \<Rightarrow> u8 option" where
  "fold_slot_for_kind k =
     (case k of
        BranchImm26 \<Rightarrow> Some FoldBranch26
      | BranchImm19 \<Rightarrow> Some FoldBranch19
      | BranchImm14 \<Rightarrow> Some FoldBranch14
      | AdrImm \<Rightarrow> Some FoldAdr
      | AdrpImm \<Rightarrow> Some FoldAdrp
      | Imm12Shifted \<Rightarrow> Some FoldAddSubImm12
      | Imm16Shifted \<Rightarrow> Some FoldMovkImm16
      | LogicalImm \<Rightarrow> Some FoldLogical
      | _ \<Rightarrow> None)"

section \<open>Clearing a slot\<close>

text \<open>The bit range of each slot; \<^verbatim>\<open>ZeroSlot\<close> leaves the word alone for an unknown slot.\<close>

definition zero_mask :: "u8 \<Rightarrow> u32" where
  "zero_mask slot =
     (if slot = FoldBranch26 then 0x03FFFFFF
      else if slot = FoldBranch19 \<or> slot = FoldLitpool19 then push_bit 5 0x7FFFF
      else if slot = FoldBranch14 then push_bit 5 0x3FFF
      else if slot = FoldAdr \<or> slot = FoldAdrp then push_bit 29 0x3 OR push_bit 5 0x7FFFF
      else if slot = FoldAddSubImm12 then push_bit 10 0xFFF
      else if slot = FoldLogical then push_bit 10 0x1FFF
      else if slot = FoldMemImm12 then push_bit 10 0xFFF
      else if slot = FoldMemImm9 then push_bit 12 0x1FF
      else if slot = FoldMovkImm16 then push_bit 5 0xFFFF
      else if slot = FoldMovzAuto then push_bit 5 0xFFFF OR push_bit 21 0x3
      else if slot = FoldPairImm7 then push_bit 15 0x7F
      else 0)"

definition zero_slot :: "u32 \<Rightarrow> u8 \<Rightarrow> u32" where
  "zero_slot word slot = word AND NOT (zero_mask slot)"

lemma zero_mask_fields:
  "zero_mask 1 = mask 26" "zero_mask 2 = push_bit 5 (mask 19)" "zero_mask 3 = push_bit 5 (mask 14)"
  "zero_mask 4 = push_bit 5 (mask 19) OR push_bit 29 (mask 2)"
  "zero_mask 5 = push_bit 5 (mask 19) OR push_bit 29 (mask 2)"
  "zero_mask 6 = push_bit 10 (mask 12)" "zero_mask 7 = push_bit 10 (mask 12)"
  "zero_mask 8 = push_bit 12 (mask 9)" "zero_mask 9 = push_bit 5 (mask 16)"
  "zero_mask 10 = push_bit 10 (mask 13)" "zero_mask 11 = push_bit 15 (mask 7)"
  "zero_mask 12 = push_bit 5 (mask 19)"
  "zero_mask 13 = push_bit 5 (mask 16) OR push_bit 21 (mask 2)"
  by (simp_all add: zero_mask_def mask_numeral)

lemma field_slot_sel [simp]:
  "bit_position (field_slot p w) = p" "bit_width (field_slot p w) = w"
  by (simp_all add: field_slot_def)

lemma low_masks:
  "(0x1ff :: u32) = mask 9" "(0x7F :: u32) = mask 7" "(0xFFFF :: i64) = mask 16" "(0xFFF :: i64) = mask 12"
  by (simp_all add: mask_numeral)

lemma fold_movz_auto_shape:
  assumes "fold_movz_auto v base = Inr b"
  obtains sh where "b = push_bit 5 (ucast (drop_bit sh (movz_value v base) AND 0xFFFF)) OR push_bit 21 (of_nat (sh div 16))"
    and "sh \<in> {0, 16, 32, 48}" and "\<not> bit base 31 \<longrightarrow> sh \<in> {0, 16}"
    and "push_bit sh (drop_bit sh (movz_value v base) AND 0xFFFF) = movz_value v base"
proof -
  have "\<exists>sh\<in>set (if bit base 31 then [0, 16, 32, 48] else [0, 16]).
      push_bit sh (drop_bit sh (movz_value v base) AND 0xFFFF) = movz_value v base
      \<and> b = push_bit 5 (ucast (drop_bit sh (movz_value v base) AND 0xFFFF)) OR push_bit 21 (of_nat (sh div 16))"
    using assms unfolding fold_movz_auto_def Let_def bit31_set by (rule find_case_Inr)
  then show thesis using that by (auto simp only: set_simps split: if_splits)
qed

lemma hw_bits: "sh \<in> {0, 16, 32, 48 :: nat} \<Longrightarrow> bit (of_nat (sh div 16) :: u32) j \<Longrightarrow> j < 2"
  using bit_less_exp [of "of_nat (sh div 16) :: u32" 2 j] by auto

lemma fold_movz_auto_bits:
  assumes "fold_movz_auto v base = Inr b" and "bit b i"
  shows "bit (push_bit 5 (mask 16) OR push_bit 21 (mask 2) :: u32) i"
  using assms(1)
proof (rule fold_movz_auto_shape)
  fix sh
  assume b: "b = push_bit 5 (ucast (drop_bit sh (movz_value v base) AND 0xFFFF)) OR push_bit 21 (of_nat (sh div 16))"
    and sh: "sh \<in> {0, 16, 32, 48}"
  show ?thesis
    using assms(2) hw_bits [OF sh] unfolding b low_masks by (auto simp: bit_simps)
qed

lemma sint_mem_scale: "sint (mem_scale base) = 2 ^ unat (drop_bit 30 base AND 3)"
proof -
  have "drop_bit 30 base AND 3 \<le> 3" by (rule word_and_le1)
  then have "unat (drop_bit 30 base AND 3) < 63" by (simp add: word_le_nat_alt)
  then show ?thesis by (simp add: mem_scale_def sint_exp64)
qed

lemma sint_pair_scale: "sint (pair_scale base) = (if bit base 31 then 8 else 4)"
  by (simp add: pair_scale_def bit31_field)

lemma fold_bits:
  assumes "fold_slot slot v pc base = Inr b" and "bit b i"
  shows "bit (zero_mask slot) i"
proof -
  have scale: "0 < sint (mem_scale base)" "0 < sint (pair_scale base)"
    by (simp_all add: sint_mem_scale sint_pair_scale)
  have imm12: "i < 12" if "\<not> sint w < 0" "\<not> 4096 \<le> sint w" "bit (w :: i64) i" for w i
    using that bit_nonneg_less [of w 12 i] by simp
  have mem: "j < 12" if "\<not> sint v < 0" "\<not> 4096 \<le> sint (gdiv v (mem_scale base))" "bit (gdiv v (mem_scale base)) j" for j
    using imm12 [of "gdiv v (mem_scale base)" j] gdiv_nonneg [OF scale(1), of v] that by simp
  show ?thesis
    using assms bit_imp_le_length [OF assms(2)]
      encode_branch_imm_field [of "field_slot 0 26" "v - pc" b i]
      encode_branch_imm_field [of "field_slot 5 19" "v - pc" b i]
      encode_branch_imm_field [of "field_slot 5 14" "v - pc" b i]
      encode_logical_field [of "field_slot 10 0" v "drop_bit 31 base AND 1 = 1" b i]
      fold_movz_auto_bits [of v base b i]
    unfolding fold_slot_def low_masks
    by (auto simp: zero_mask_fields encode_adr_imm_def encode_adrp_imm_def Let_def bit_simps
        dest: imm12 mem dest!: pack_imm21_field split: if_splits)
qed

section \<open>Properties\<close>

text \<open>
  A word with its slot cleared has zero in every contiguous field of the slot's range.
\<close>

lemma cleared_field:
  assumes "zero_slot base slot = base" and "\<And>i. i < w \<Longrightarrow> bit (zero_mask slot) (p + i)"
  shows "extract_bits base p w = 0"
proof (rule bit_word_eqI)
  fix i
  show "bit (extract_bits base p w) i \<longleftrightarrow> bit (0 :: u32) i"
    using assms(2) [of i] arg_cong [OF assms(1), of "\<lambda>x. bit x (p + i)"]
    by (auto simp: bit_extract_bits zero_slot_def bit_and_iff bit_not_iff)
qed

lemma fold_zero_slot_parts:
  assumes "fold_slot slot v pc base = Inr b"
  shows "zero_slot (w OR b) slot = zero_slot w slot" and "(zero_slot w slot OR b) AND zero_mask slot = b"
  using fold_bits [OF assms]
  by (auto intro!: bit_word_eqI simp: zero_slot_def bit_simps dest: bit_imp_le_length)

text \<open>
  A fold only sets bits of the range its slot's \<^verbatim>\<open>ZeroSlot\<close> clears: clearing the slot of
  the patched word gives the cleared base word back, and in a cleared base word the slot's
  range then holds exactly the folded bits.
\<close>

theorem fold_zero_slot:
  assumes "fold_slot slot v pc base = Inr b"
  shows "zero_slot (w OR b) slot = zero_slot w slot \<and> (zero_slot w slot OR b) AND zero_mask slot = b"
  using fold_zero_slot_parts [OF assms] by blast

lemma fold_zero_slot_witness:
  "zero_slot (0x94000000 OR 0x40) FoldBranch26 = 0x94000000"
  using fold_zero_slot [of FoldBranch26 "0x80100" "0x80000" "0x94000000" "0x40" "0x94000000"]
  by (simp add: fold_slot_def encode_branch_imm_def gmod_def gdiv_def zero_slot_def zero_mask_def field_slot_def)

section \<open>PC-relative slots\<close>

definition branch_field :: "u8 \<Rightarrow> operand_slot" where
  "branch_field slot =
     (if slot = FoldBranch26 then field_slot 0 26
      else if slot = FoldBranch14 then field_slot 5 14
      else field_slot 5 19)"

text \<open>
  The disassembler prints, for a branch folded into a cleared base word, exactly the
  target the expression evaluated to, whatever the program counter.
\<close>

theorem fold_branch_target:
  assumes "fold_slot slot v pc base = Inr b"
    and "slot \<in> {FoldBranch26, FoldBranch19, FoldBranch14, FoldLitpool19}"
    and "zero_slot base slot = base"
  shows "decode_branch_imm (base OR b) pc (branch_field slot) = v"
proof -
  let ?s = "branch_field slot"
  have e: "encode_branch_imm ?s (v - pc) = Inr b"
    using assms(1,2) by (auto simp: fold_slot_def branch_field_def)
  have z: "extract_bits base (bit_position ?s) (bit_width ?s) = 0"
    by (rule cleared_field [OF assms(3)])
      (use assms(2) in \<open>auto simp: branch_field_def zero_mask_fields bit_simps\<close>)
  have "decode_branch_imm (base OR b) pc ?s = pc + (v - pc)"
    by (rule decode_encoded_branch [OF e _ _ _ z]) (simp_all add: branch_field_def)
  then show ?thesis by simp
qed

lemma fold_branch_target_witness:
  "decode_branch_imm (0x94000000 OR 0x40) 0x80000 (field_slot 0 26) = 0x80100"
  using fold_branch_target [of FoldBranch26 "0x80100" "0x80000" "0x94000000" "0x40"]
  by (simp add: fold_slot_def encode_branch_imm_def gmod_def gdiv_def zero_slot_def zero_mask_def
      field_slot_def branch_field_def)

lemma cleared_imm21:
  assumes "zero_slot base slot = base" and "slot = FoldAdr \<or> slot = FoldAdrp"
  shows "extract_bits base 29 2 = 0" and "extract_bits base 5 19 = 0"
  using assms(2) by (auto intro!: cleared_field [OF assms(1)] simp: zero_mask_fields bit_simps)

text \<open>An \<^verbatim>\<open>adr\<close> folded into a cleared base word decodes to the target.\<close>

theorem fold_adr_target:
  assumes "fold_slot FoldAdr v pc base = Inr b" and "zero_slot base FoldAdr = base"
  shows "decode_adr_imm (base OR b) pc = v"
proof -
  have "in_field (v - pc) 21" and b: "b = pack_imm21 (v - pc)"
    using assms(1) by (auto simp: fold_slot_def encode_adr_imm_def in_field_def split: if_splits)
  then have "decode_imm21 (base OR b) = v - pc"
    using decode_packed_imm21 cleared_imm21 [OF assms(2)] by simp
  then show ?thesis by (simp add: decode_adr_imm_def)
qed

lemma fold_adr_target_witness: "decode_adr_imm (0x10000000 OR 0x7fffe0) 0x80008 = 0x180004"
  using fold_adr_target [of "0x180004" "0x80008" "0x10000000" "0x7fffe0"]
  by (simp add: fold_slot_def encode_adr_imm_def pack_imm21_def zero_slot_def zero_mask_def)

lemma take_bit_33_iff: "take_bit 33 a = take_bit 33 b \<longleftrightarrow> push_bit 31 1 * a = push_bit 31 1 * (b :: u64)"
proof -
  have m: "push_bit 31 1 * c = push_bit 31 c" for c :: u64
    by (simp only: push_bit_eq_mult mult.commute mult_1)
  have "push_bit 31 c = push_bit 31 (take_bit 33 c)" "take_bit 33 c = drop_bit 31 (push_bit 31 c)" for c :: u64
    by (rule bit_word_eqI; auto simp: bit_simps)+
  then show ?thesis unfolding m by metis
qed

lemma bit_adrp_diff:
  "i < 64 \<Longrightarrow> bit (adrp_diff v pc) i \<longleftrightarrow> bit (page v - page pc) (if i < 33 then i else 32)"
proof -
  assume i: "i < 64"
  let ?d = "page v - page pc"
  have t: "(?d AND (push_bit 33 1 - 1)) AND push_bit 32 1 \<noteq> 0 \<longleftrightarrow> bit ?d 32"
    unfolding bit_iff_and_push_bit_not_eq_0 [symmetric] by (simp add: bit_and_iff bit_exp_mask)
  show ?thesis
    unfolding adrp_diff_def Let_def t
    using i by (cases "bit ?d 32"; cases "i < 33")
      (simp_all only: if_True if_False bit_or_iff bit_and_iff bit_not_iff bit_low_mask, simp_all)
qed

lemma fold_adrp_target_parts:
  assumes "fold_slot FoldAdrp v pc base = Inr b" and "zero_slot base FoldAdrp = base"
  shows "take_bit 33 (decode_adrp_imm (base OR b) pc) = take_bit 33 (page v)"
    and "- (2 ^ 32) \<le> sint (page v - page pc) \<Longrightarrow> sint (page v - page pc) < 2 ^ 32 \<Longrightarrow>
         decode_adrp_imm (base OR b) pc = page v"
proof -
  let ?d = "adrp_diff v pc"
  have h: "gmod ?d 4096 = 0" and f: "in_field (gdiv ?d 4096) 21" and b: "b = pack_imm21 (gdiv ?d 4096)"
    using assms(1) by (auto simp: fold_slot_def encode_adrp_imm_def in_field_def Let_def split: if_splits)
  have "decode_imm21 (base OR b) = gdiv ?d 4096"
    using decode_packed_imm21 [OF f] cleared_imm21 [OF assms(2)] b by simp
  moreover have "push_bit 12 (gdiv ?d 4096) = ?d"
    using gdiv_mult [of 4096 ?d] h by (simp add: push_bit_eq_mult)
  ultimately have m: "decode_adrp_imm (base OR b) pc = page pc + ?d"
    by (simp add: decode_adrp_imm_def page_def)
  have "take_bit 33 ?d = take_bit 33 (page v - page pc)"
    by (rule bit_word_eqI) (auto simp: bit_take_bit_iff bit_adrp_diff)
  then have "take_bit 33 (page pc + ?d) = take_bit 33 (page pc + (page v - page pc))"
    unfolding take_bit_33_iff by (simp only: distrib_left)
  then show "take_bit 33 (decode_adrp_imm (base OR b) pc) = take_bit 33 (page v)"
    unfolding m by simp
  assume "- (2 ^ 32) \<le> sint (page v - page pc)" "sint (page v - page pc) < 2 ^ 32"
  then have f33: "in_field (page v - page pc) 33" by (simp add: in_field_def)
  have "bit ?d i = bit (page v - page pc) i" if "i < 64" for i
    using in_field_bit [OF f33, of i] that by (cases "i < 33") (simp_all add: bit_adrp_diff)
  then have "?d = page v - page pc" by (intro bit_word_eqI) simp
  then show "decode_adrp_imm (base OR b) pc = page v" unfolding m by simp
qed

text \<open>
  An \<^verbatim>\<open>adrp\<close> folded into a cleared base word decodes to the page of the target modulo
  \<open>2^33\<close>, and to exactly the target's page when the two pages are less than 4 GiB apart.
\<close>

theorem fold_adrp_target:
  assumes "fold_slot FoldAdrp v pc base = Inr b" and "zero_slot base FoldAdrp = base"
  shows "take_bit 33 (decode_adrp_imm (base OR b) pc) = take_bit 33 (page v)
    \<and> (- (2 ^ 32) \<le> sint (page v - page pc) \<and> sint (page v - page pc) < 2 ^ 32 \<longrightarrow>
         decode_adrp_imm (base OR b) pc = page v)"
  using fold_adrp_target_parts [OF assms] by blast

lemma fold_adrp_target_witness: "decode_adrp_imm (0x90000000 OR 0x200) 0x80008 = 0xC0000"
  using fold_adrp_target [of "0xC0123" "0x80008" "0x90000000" "0x200"]
  by (simp add: fold_slot_def encode_adrp_imm_def pack_imm21_def zero_slot_def zero_mask_def
      adrp_diff_def page_def gmod_def gdiv_def)

section \<open>Load and store offsets\<close>

text \<open>
  The byte offsets as \<^verbatim>\<open>mem.go\<close> computes them from the word: the scaled 12-bit offset, the
  unscaled 9-bit offset, and the scaled 7-bit offset of a pair.
\<close>

definition decode_scaled_offset :: "u32 \<Rightarrow> i64" where
  "decode_scaled_offset word =
     (let size = drop_bit 30 word AND 0x3; imm12 = drop_bit 10 word AND 0xfff
      in ucast imm12 * push_bit (unat size) 1)"

definition decode_unscaled_offset :: "u32 \<Rightarrow> i64" where
  "decode_unscaled_offset word = sign_extend (drop_bit 12 word AND 0x1ff) 9"

text \<open>The scale is 4 for \<open>opc = 00\<close> and 8 for \<open>opc = 10\<close>; other words are not pairs.\<close>

definition decode_pair_offset :: "u32 \<Rightarrow> i64 option" where
  "decode_pair_offset word =
     (let opc = drop_bit 30 word AND 0x3; imm7 = drop_bit 15 word AND 0x7f
      in if opc = 0 then Some (sign_extend imm7 7 * 4)
         else if opc = 2 then Some (sign_extend imm7 7 * 8) else None)"

lemma field_masks:
  "drop_bit 10 w AND 0xfff = extract_bits w 10 12" "drop_bit 12 w AND 0x1ff = extract_bits w 12 9"
  "drop_bit 15 w AND 0x7f = extract_bits w 15 7" "drop_bit 30 w AND 0x3 = extract_bits w 30 2"
  by (simp_all add: extract_bits_def)

lemma extract_or_kept:
  assumes "\<And>i. i < w \<Longrightarrow> \<not> bit b (p + i)"
  shows "extract_bits (base OR b) p w = extract_bits base p w"
  by (rule bit_word_eqI) (use assms in \<open>auto simp: bit_extract_bits bit_or_iff\<close>)

lemma fold_keeps_opc:
  assumes "fold_slot slot v pc base = Inr b" and "slot = FoldMemImm12 \<or> slot = FoldPairImm7"
  shows "extract_bits (base OR b) 30 2 = extract_bits base 30 2"
proof (rule extract_or_kept)
  fix i
  have "\<not> bit (zero_mask slot) (30 + i)" using assms(2) by (auto simp: zero_mask_fields bit_simps)
  then show "\<not> bit b (30 + i)" using fold_bits [OF assms(1)] by blast
qed

lemma fold_scaled_offset:
  assumes "fold_slot FoldMemImm12 v pc base = Inr b" and "zero_slot base FoldMemImm12 = base"
  shows "decode_scaled_offset (base OR b) = v"
proof -
  let ?q = "gdiv v (mem_scale base)"
  have sc: "0 < sint (mem_scale base)" by (simp add: sint_mem_scale)
  have b: "b = push_bit 10 (ucast ?q)" and v: "0 \<le> sint v" and q: "sint ?q < 2 ^ 12"
    and g: "gmod v (mem_scale base) = 0"
    using assms(1) by (auto simp: fold_slot_def split: if_splits)
  have z: "extract_bits base 10 12 = 0"
    by (rule cleared_field [OF assms(2)]) (auto simp: zero_mask_fields bit_simps)
  note q12 = bit_nonneg_less [OF gdiv_nonneg [OF sc v] q]
  have "bit (ucast (extract_bits (base OR b) 10 12) :: i64) i = bit ?q i" for i
    using extract_or_field [OF z, of i b] q12 [of i]
    by (cases "i < 12") (auto simp: bit_simps bit_extract_bits b)
  then have "ucast (extract_bits (base OR b) 10 12) = ?q" by (intro bit_word_eqI)
  then show ?thesis
    using gdiv_mult [OF sc g] fold_keeps_opc [OF assms(1)]
    unfolding decode_scaled_offset_def Let_def field_masks by (simp add: mem_scale_def field_masks)
qed

lemma fold_unscaled_offset:
  assumes "fold_slot FoldMemImm9 v pc base = Inr b" and "zero_slot base FoldMemImm9 = base"
  shows "decode_unscaled_offset (base OR b) = v"
proof -
  have b: "b = push_bit 12 (ucast v AND 0x1ff)" and f: "in_field v 9"
    using assms(1) by (auto simp: fold_slot_def in_field_def split: if_splits)
  have z: "extract_bits base 12 9 = 0"
    by (rule cleared_field [OF assms(2)]) (auto simp: zero_mask_fields bit_simps)
  have "sign_extend (extract_bits (base OR b) 12 9) 9 = v"
    by (rule sign_extend_eq [OF _ _ f]) (use extract_or_field [OF z, of _ b] in \<open>auto simp: b low_masks bit_simps\<close>)
  then show ?thesis unfolding decode_unscaled_offset_def field_masks .
qed

lemma fold_pair_offset:
  assumes "fold_slot FoldPairImm7 v pc base = Inr b" and "zero_slot base FoldPairImm7 = base"
    and "\<not> bit base 30"
  shows "decode_pair_offset (base OR b) = Some v"
proof -
  let ?q = "gdiv v (pair_scale base)"
  have sc: "0 < sint (pair_scale base)" by (simp add: sint_pair_scale)
  have b: "b = push_bit 15 (ucast ?q AND 0x7F)" and f: "in_field ?q 7" and g: "gmod v (pair_scale base) = 0"
    using assms(1) by (auto simp: fold_slot_def in_field_def Let_def split: if_splits)
  have z: "extract_bits base 15 7 = 0"
    by (rule cleared_field [OF assms(2)]) (auto simp: zero_mask_fields bit_simps)
  have "sign_extend (extract_bits (base OR b) 15 7) 7 = ?q"
    by (rule sign_extend_eq [OF _ _ f]) (use extract_or_field [OF z, of _ b] in \<open>auto simp: b low_masks bit_simps\<close>)
  moreover have "extract_bits base 30 2 = (if bit base 31 then 2 else 0)"
    by (rule bit_word_eqI) (use assms(3) in \<open>auto simp: bit_extract_bits less_Suc_eq numeral_eq_Suc bit_simps\<close>)
  ultimately show ?thesis
    using gdiv_mult [OF sc g] fold_keeps_opc [OF assms(1)]
    unfolding decode_pair_offset_def Let_def field_masks by (auto simp: pair_scale_def bit31_field split: if_splits)
qed

lemma fold_mem_offset_parts:
  assumes "fold_slot slot v pc base = Inr b" and "zero_slot base slot = base"
  shows "slot = FoldMemImm12 \<Longrightarrow> decode_scaled_offset (base OR b) = v"
    and "slot = FoldMemImm9 \<Longrightarrow> decode_unscaled_offset (base OR b) = v"
    and "slot = FoldPairImm7 \<Longrightarrow> \<not> bit base 30 \<Longrightarrow> decode_pair_offset (base OR b) = Some v"
  using assms fold_scaled_offset fold_unscaled_offset fold_pair_offset by blast+

text \<open>
  A load or store offset folded into a cleared base word is read back as the value of the
  expression, for the scaled, the unscaled and the pair forms.
\<close>

theorem fold_mem_offset:
  assumes "fold_slot slot v pc base = Inr b" and "zero_slot base slot = base"
  shows "(slot = FoldMemImm12 \<longrightarrow> decode_scaled_offset (base OR b) = v)
    \<and> (slot = FoldMemImm9 \<longrightarrow> decode_unscaled_offset (base OR b) = v)
    \<and> (slot = FoldPairImm7 \<and> \<not> bit base 30 \<longrightarrow> decode_pair_offset (base OR b) = Some v)"
  using fold_mem_offset_parts [OF assms] by blast

lemma fold_mem_offset_witness:
  "decode_scaled_offset (0xf9400000 OR 0x800) = 16 \<and> decode_unscaled_offset (0xf8000000 OR 0x1f0000) = - 16
   \<and> decode_pair_offset (0xa9000000 OR 0x3f0000) = Some (- 16)"
  using fold_mem_offset [of FoldMemImm12 16 0 "0xf9400000" "0x800"]
    fold_mem_offset [of FoldMemImm9 "- 16" 0 "0xf8000000" "0x1f0000"]
    fold_mem_offset [of FoldPairImm7 "- 16" 0 "0xa9000000" "0x3f0000"]
  by (simp add: fold_slot_def zero_slot_def zero_mask_def mem_scale_def pair_scale_def gmod_def gdiv_def)

section \<open>Move-wide and bitmask immediates\<close>

text \<open>
  The value \<^verbatim>\<open>decodeMoveWideAlias\<close> prints for a movz: \<^verbatim>\<open>uint64(imm16) << (hw*16)\<close>, masked for a
  32-bit register; \<open>None\<close> for an undefined \<open>hw\<close>.
\<close>

definition decode_movz_value :: "u32 \<Rightarrow> u64 option" where
  "decode_movz_value word =
     (let sf = drop_bit 31 word AND 1; hw = drop_bit 21 word AND 3; imm16 = drop_bit 5 word AND 0xffff;
          val = push_bit (unat (hw * 16)) (ucast imm16)
      in if sf = 0 \<and> hw \<ge> 2 then None
         else Some (if sf = 0 then val AND 0xffffffff else val))"

text \<open>
  A movz collapsed by \<^verbatim>\<open>FoldMovzAuto\<close> materialises the value of the expression (its low
  half for a 32-bit register).
\<close>

theorem fold_movz_value:
  assumes "fold_slot FoldMovzAuto v pc base = Inr b" and "zero_slot base FoldMovzAuto = base"
  shows "decode_movz_value (base OR b) = Some (movz_value v base)"
proof -
  have "fold_movz_auto v base = Inr b" using assms(1) by (simp add: fold_slot_def)
  then obtain sh where b: "b = push_bit 5 (ucast (drop_bit sh (movz_value v base) AND 0xFFFF)) OR push_bit 21 (of_nat (sh div 16))"
    and sh: "sh \<in> {0, 16, 32, 48}" "\<not> bit base 31 \<longrightarrow> sh \<in> {0, 16}"
    and v: "push_bit sh (drop_bit sh (movz_value v base) AND 0xFFFF) = movz_value v base"
    by (rule fold_movz_auto_shape)
  have z: "extract_bits base 5 16 = 0" "extract_bits base 21 2 = 0" 
    by (auto intro!: cleared_field [OF assms(2)] simp: zero_mask_fields bit_simps)
  let ?w = "base OR b" and ?c = "drop_bit sh (movz_value v base) AND 0xFFFF"
  have i: "drop_bit 5 ?w AND 0xffff = extract_bits ?w 5 16" "drop_bit 21 ?w AND 3 = extract_bits ?w 21 2"
    by (simp_all add: extract_bits_def)
  have "bit (extract_bits ?w 21 2) i = bit (of_nat (sh div 16) :: u32) i" for i
    using extract_or_field [OF z(2), of i b] hw_bits [OF sh(1), of i]
    by (cases "i < 2") (auto simp: b low_masks bit_simps bit_extract_bits)
  then have hw: "extract_bits ?w 21 2 = of_nat (sh div 16)" by (intro bit_word_eqI)
  have imm: "ucast (extract_bits ?w 5 16) = ?c"
    by (rule bit_word_eqI) (use extract_or_field [OF z(1), of _ b] in \<open>auto simp: b low_masks bit_simps bit_extract_bits\<close>)
  have "\<not> bit b 31" using fold_bits [OF assms(1), of 31] by (auto simp: zero_mask_fields bit_simps)
  then have sf: "drop_bit 31 ?w AND 1 = (if bit base 31 then 1 else 0)"
    unfolding bit31_field bit_or_iff by simp
  have "unat (of_nat (sh div 16) * 16 :: u32) = sh" using sh(1) by auto
  then have val: "push_bit (unat (of_nat (sh div 16) * 16 :: u32)) ?c = movz_value v base" using v by simp
  have low: "\<not> bit base 31 \<Longrightarrow> movz_value v base AND 0xffffffff = movz_value v base"
    by (simp add: movz_value_def bit31_field and.assoc)
  have hw2: "\<not> bit base 31 \<Longrightarrow> \<not> of_nat (sh div 16) \<ge> (2 :: u32)"
    using sh(2) by (auto simp: word_le_nat_alt)
  show ?thesis
    unfolding decode_movz_value_def Let_def i hw imm sf val using low hw2 by simp
qed

lemma fold_movz_value_witness: "decode_movz_value (0xd2800001 OR 0x200020) = Some 0x10000"
  using fold_movz_value [of "0x10000" 0 "0xd2800001" "0x200020"]
  by (simp add: fold_slot_def fold_movz_auto_def movz_value_def zero_slot_def zero_mask_def)

text \<open>
  A bitmask immediate folded into a cleared base word expands back to the value of the
  expression (its low half for a 32-bit operation).
\<close>

theorem fold_logical_value:
  assumes "fold_slot FoldLogical v pc base = Inr b" and "zero_slot base FoldLogical = base"
  shows "decode_logical_value (base OR b) (field_slot 10 13) = Some (movz_value v base)"
proof -
  have width: "encode_logical_imm (field_slot 10 13) v x = encode_logical_imm (field_slot 10 0) v x" for x
    unfolding encode_logical_imm_def pack_logical_def field_slot_sel by (rule refl)
  have "encode_logical_imm (field_slot 10 13) v (bit base 31) = Inr b"
    using assms(1) unfolding width
    by (simp add: fold_slot_def bit31_set)
  moreover have "extract_bits base 10 13 = 0"
    by (rule cleared_field [OF assms(2)]) (auto simp: zero_mask_fields bit_simps)
  ultimately show ?thesis
    using logical_round_trip [of "field_slot 10 13" v "bit base 31" b base]
    by (simp add: bit31_field movz_value_def)
qed

lemma fold_logical_value_witness:
  "decode_logical_value (0xb2000000 OR 0x89C00) (field_slot 10 13) = Some 0xFF00FF00FF00FF00"
proof -
  have "fold_slot FoldLogical 0xFF00FF00FF00FF00 0 0xb2000000 = Inr 0x89C00" by code_simp
  then show ?thesis
    using fold_logical_value [of "0xFF00FF00FF00FF00" 0 "0xb2000000" "0x89C00"]
    by (simp add: zero_slot_def zero_mask_def movz_value_def)
qed

end
