(* ===== verification/Bytes.thy ===== *)
theory Bytes
  imports Prelude
begin

text \<open>
  Little-endian byte strings (\<^verbatim>\<open>encoding/binary\<close>): the bytes of a word and the word of some
  bytes, at any width.
\<close>

primrec le_put :: "nat \<Rightarrow> 'a::len word \<Rightarrow> bytes" where
  "le_put 0 w = []"
| "le_put (Suc n) w = ucast w # le_put n (drop_bit 8 w)"

primrec le_get :: "bytes \<Rightarrow> 'a::len word" where
  "le_get [] = 0"
| "le_get (b # bs) = ucast b OR push_bit 8 (le_get bs)"

lemma length_le_put [simp]: "length (le_put n w) = n"
  by (induction n arbitrary: w) simp_all

lemma le_put_empty [simp]: "le_put n w = [] \<longleftrightarrow> n = 0"
  by (cases n) simp_all

lemma bit_le_get_put:
  "bit (le_get (le_put n (w :: 'a::len word)) :: 'b::len word) i \<longleftrightarrow> i < 8 * n \<and> i < LENGTH('b) \<and> bit w i"
proof (induction n arbitrary: w i)
  case (Suc n)
  show ?case
  proof (cases "i < 8")
    case True
    then show ?thesis by (auto simp: bit_or_iff bit_push_bit_iff bit_ucast_iff bit_imp_le_length)
  next
    case False
    then have "8 + (i - 8) = i" by simp
    with False Suc [of "drop_bit 8 w" "i - 8"] show ?thesis
      using bit_imp_le_length [of "ucast w :: u8" i]
      by (auto simp: bit_or_iff bit_push_bit_iff bit_ucast_iff bit_drop_bit_eq add.commute)
  qed
qed simp

lemma le_get_put [simp]: "LENGTH('a) \<le> 8 * n \<Longrightarrow> le_get (le_put n (w :: 'a::len word)) = w"
  by (rule bit_word_eqI) (simp add: bit_le_get_put)

lemma le_get_put_take: "LENGTH('b) \<le> 8 * n \<Longrightarrow> (le_get (le_put n (w :: 'a::len word)) :: 'b::len word) = ucast w"
  by (rule bit_word_eqI) (auto simp: bit_le_get_put bit_simps)

lemma bit_le_get:
  "bit (le_get bs :: 'a::len word) i \<longleftrightarrow> i < LENGTH('a) \<and> i div 8 < length bs \<and> bit (bs ! (i div 8)) (i mod 8)"
proof (induction bs arbitrary: i)
  case (Cons b bs)
  show ?case
  proof (cases "i < 8")
    case True
    then show ?thesis by (auto simp: bit_or_iff bit_push_bit_iff bit_ucast_iff)
  next
    case False
    then have d: "i div 8 = Suc ((i - 8) div 8)" "i mod 8 = (i - 8) mod 8"
      by (simp_all add: le_div_geq le_mod_geq)
    with False Cons [of "i - 8"] bit_imp_le_length [of b i] show ?thesis
      by (auto simp: bit_or_iff bit_push_bit_iff bit_ucast_iff)
  qed
qed simp

abbreviation put_u16 :: "u16 \<Rightarrow> bytes" where "put_u16 \<equiv> le_put 2"
abbreviation put_u32 :: "u32 \<Rightarrow> bytes" where "put_u32 \<equiv> le_put 4"

section \<open>Writers\<close>

text \<open>
  An \<^verbatim>\<open>io.Writer\<close> is an argument of the functions that use it: it takes bytes and its state and
  may return an error; a sequence of writes stops at the first error.
\<close>

type_synonym 'w writer = "bytes \<Rightarrow> 'w \<Rightarrow> string option \<times> 'w"

fun write_chunks :: "'w writer \<Rightarrow> bytes list \<Rightarrow> 'w \<Rightarrow> string option \<times> 'w" where
  "write_chunks wr [] w = (None, w)"
| "write_chunks wr (c # cs) w =
     (case wr c w of (Some err, w') \<Rightarrow> (Some err, w') | (None, w') \<Rightarrow> write_chunks wr cs w')"

text \<open>\<^verbatim>\<open>bytes.Buffer\<close>, the writer of the tools.\<close>

definition buffer_write :: "bytes writer" where
  "buffer_write b buf = (None, buf @ b)"

lemma write_chunks_buffer: "write_chunks buffer_write cs w = (None, w @ concat cs)"
  by (induction cs arbitrary: w) (simp_all add: buffer_write_def)

end
