(* ===== verification/Codec.thy ===== *)
theory Codec
  imports Bytes
begin

text \<open>
  The interface between the writers and the readers of the file format: a reader takes the
  unread bytes and returns a value and the bytes after it, or fails.  A codec is a writer and
  a reader such that what was written, followed by anything, is read back.  The clients are
  the tables (a count and that many entries) and the streams (entries up to the end).
\<close>

section \<open>Codecs\<close>

type_synonym 'a reader = "bytes \<Rightarrow> ('a \<times> bytes) res"

text \<open>\<^verbatim>\<open>for i := 0; i < count; i++\<close>\<close>

fun read_n :: "'b reader \<Rightarrow> nat \<Rightarrow> 'b list reader" where
  "read_n get 0 buf = Inr ([], buf)"
| "read_n get (Suc n) buf =
     sbind (get buf) (\<lambda>(b, rest). sbind (read_n get n rest) (\<lambda>(bs, rest'). Inr (b # bs, rest')))"

locale codec =
  fixes put :: "'a \<Rightarrow> bytes"
    and get :: "'b reader"
    and view :: "'a \<Rightarrow> 'b"
    and ok :: "'a \<Rightarrow> bool"
  assumes get_put: "ok a \<Longrightarrow> get (put a @ rest) = Inr (view a, rest)"
begin

lemma read_n_put:
  "list_all ok as \<Longrightarrow> read_n get (length as) (concat (map put as) @ rest) = Inr (map view as, rest)"
  by (induction as) (simp_all add: get_put)

text \<open>No written value is a proper prefix of another one that reads differently.\<close>

lemma put_prefix_free: "ok a \<Longrightarrow> ok b \<Longrightarrow> put a @ r = put b @ r' \<Longrightarrow> view a = view b \<and> r = r'"
  using get_put [of a r] get_put [of b r'] by simp

end

text \<open>A stream is read by a loop until no byte is left.\<close>

locale stream_codec = codec put get view ok
  for put :: "'a \<Rightarrow> bytes" and get :: "'b reader" and view :: "'a \<Rightarrow> 'b" and ok :: "'a \<Rightarrow> bool" +
  fixes get_all :: "bytes \<Rightarrow> 'b list res"
  assumes put_nonempty: "ok a \<Longrightarrow> put a \<noteq> []"
    and get_all_end: "get_all [] = Inr []"
    and get_all_step: "buf \<noteq> [] \<Longrightarrow> get buf = Inr (b, rest) \<Longrightarrow>
      get_all buf = sbind (get_all rest) (\<lambda>bs. Inr (b # bs))"
begin

lemma get_all_put: "list_all ok as \<Longrightarrow> get_all (concat (map put as)) = Inr (map view as)"
proof (induction as)
  case (Cons a as)
  then have "get (put a @ concat (map put as)) = Inr (view a, concat (map put as))"
    by (simp add: get_put)
  then show ?case
    using Cons put_nonempty [of a] get_all_step [of "put a @ concat (map put as)"] by simp
qed (simp add: get_all_end)

end

section \<open>Readers that depend on what they consume only\<close>

definition prefix_reader :: "'a reader \<Rightarrow> bool" where
  "prefix_reader get \<longleftrightarrow>
     (\<forall>buf v rest. get buf = Inr (v, rest) \<longrightarrow> (\<exists>c. buf = c @ rest \<and> (\<forall>r. get (c @ r) = Inr (v, r))))"

lemma prefix_readerD:
  assumes "prefix_reader get" and "get buf = Inr (v, rest)"
  obtains c where "buf = c @ rest" and "\<And>r. get (c @ r) = Inr (v, r)"
  using assms unfolding prefix_reader_def by blast

lemma prefix_reader_ret: "prefix_reader (\<lambda>buf. Inr (v, buf))"
  by (auto simp: prefix_reader_def)

lemma prefix_reader_fail: "prefix_reader (\<lambda>buf. Inl e)"
  by (auto simp: prefix_reader_def)

lemma prefix_reader_bind:
  assumes "prefix_reader g" and "\<And>v. prefix_reader (h v)"
  shows "prefix_reader (\<lambda>buf. sbind (g buf) (\<lambda>(v, rest). h v rest))"
  unfolding prefix_reader_def
proof (intro allI impI)
  fix buf w rest
  assume "sbind (g buf) (\<lambda>(v, rest). h v rest) = Inr (w, rest)"
  then obtain v r1 where g: "g buf = Inr (v, r1)" and h: "h v r1 = Inr (w, rest)"
    by (auto elim!: sbindE)
  obtain c where c: "buf = c @ r1" "\<And>r. g (c @ r) = Inr (v, r)" by (rule prefix_readerD [OF assms(1) g]) blast
  obtain d where d: "r1 = d @ rest" "\<And>r. h v (d @ r) = Inr (w, r)" by (rule prefix_readerD [OF assms(2) h]) blast
  show "\<exists>c. buf = c @ rest \<and> (\<forall>r. sbind (g (c @ r)) (\<lambda>(v, rest). h v rest) = Inr (w, r))"
    by (rule exI [of _ "c @ d"]) (simp add: c d)
qed

section \<open>Fixed-width numbers\<close>

definition get_u8 :: "string \<Rightarrow> u8 reader" where
  "get_u8 msg buf = (case buf of [] \<Rightarrow> Inl (Error msg) | b # rest \<Rightarrow> Inr (b, rest))"

definition get_u16 :: "string \<Rightarrow> u16 reader" where
  "get_u16 msg buf = (if length buf < 2 then Inl (Error msg) else Inr (le_get (take 2 buf), drop 2 buf))"

lemma get_u16_put [simp]: "get_u16 msg (put_u16 w @ rest) = Inr (w, rest)"
  by (simp add: get_u16_def)

interpretation u16: codec put_u16 "get_u16 msg" id "\<lambda>_. True"
  by unfold_locales simp

section \<open>Variable-length numbers\<close>

text \<open>\<^verbatim>\<open>binary.PutUvarint\<close> and \<^verbatim>\<open>binary.Uvarint\<close>: seven bits to a byte, low bits first.\<close>

function put_uvarint :: "u64 \<Rightarrow> bytes" where
  "put_uvarint x =
     (if x \<ge> 0x80 then (ucast x OR 0x80) # put_uvarint (drop_bit 7 x) else [ucast x])"
  by pat_completeness auto
termination
proof (relation "measure unat")
  fix x :: u64
  assume "x \<ge> 0x80"
  then have "0 < unat x" by (simp add: word_le_nat_alt)
  then have "unat x div 128 < unat x" by simp
  then show "(drop_bit 7 x, x) \<in> measure unat"
    by (simp add: unat_drop_bit_eq drop_bit_eq_div [where 'a = nat] del: drop_bit_eq_div [where 'a = "64 word"])
qed simp

declare put_uvarint.simps [simp del]

text \<open>
  The loop over the bytes: index \<open>i\<close>, accumulator \<open>x\<close>, shift \<open>7 * i\<close>.  \<open>None\<close> is a result
  \<^verbatim>\<open>n <= 0\<close>: the bytes run out, or the number does not fit 64 bits.
\<close>

fun uvarint_loop :: "nat \<Rightarrow> u64 \<Rightarrow> bytes \<Rightarrow> (u64 \<times> bytes) option" where
  "uvarint_loop i x [] = None"
| "uvarint_loop i x (b # rest) =
     (if i = 10 then None
      else if b < 0x80
      then if i = 9 \<and> b > 1 then None
           else Some (x OR push_bit (7 * i) (ucast b), rest)
      else uvarint_loop (Suc i) (x OR push_bit (7 * i) (ucast (b AND 0x7f))) rest)"

definition get_uvarint :: "string \<Rightarrow> u64 reader" where
  "get_uvarint msg buf = (case uvarint_loop 0 0 buf of None \<Rightarrow> Inl (Error msg) | Some r \<Rightarrow> Inr r)"

lemma less_exp_bits: "k < LENGTH('a) \<Longrightarrow> (\<And>j. bit w j \<Longrightarrow> j < k) \<Longrightarrow> w < (2 ^ k :: 'a::len word)"
proof -
  assume k: "k < LENGTH('a)" and b: "\<And>j. bit w j \<Longrightarrow> j < k"
  have "w AND mask k = w"
    by (rule bit_word_eqI) (use b in \<open>auto simp: bit_simps\<close>)
  then show ?thesis using k by (metis and_mask_less')
qed

lemma uvarint_loop_put:
  assumes "7 * i < 64" and "\<And>j. bit x j \<Longrightarrow> j < 64 - 7 * i"
  shows "uvarint_loop i acc (put_uvarint x @ rest) = Some (acc OR push_bit (7 * i) x, rest)"
  using assms
proof (induction x arbitrary: i acc rule: put_uvarint.induct)
  case (1 x)
  have m: "(0x80 :: u8) = push_bit 7 1" "(0x7f :: u8) = mask 7" by (simp_all add: mask_numeral)
  show ?case
  proof (cases "x \<ge> 0x80")
    case True
    let ?b = "ucast x OR 0x80 :: u8"
    have "bit ?b 7" unfolding m by (simp add: bit_simps)
    then have b: "\<not> ?b < 0x80" using bit_less_exp [of ?b 7 7] by auto
    have "i \<noteq> 9"
    proof
      assume "i = 9"
      then have "x < 2 ^ 1" using 1(3) by (intro less_exp_bits) auto
      with True show False by (simp add: word_le_nat_alt word_less_nat_alt)
    qed
    then have i: "7 * Suc i < 64" "i \<noteq> 10" using 1(2) by auto
    have d: "j < 64 - 7 * Suc i" if "bit (drop_bit 7 x) j" for j
      using 1(3) [of "7 + j"] that by (simp add: bit_drop_bit_eq)
    have lw: "?b AND 0x7f = ucast x AND mask 7"
      by (simp add: bit.conj_disj_distrib2 mask_numeral)
    have "(acc OR push_bit (7 * i) (ucast (?b AND 0x7f))) OR push_bit (7 * Suc i) (drop_bit 7 x)
        = acc OR push_bit (7 * i) x"
    proof (rule bit_word_eqI)
      fix j
      have e: "7 + (j - (7 + 7 * i)) = j - 7 * i" if "7 + 7 * i \<le> j" using that by simp
      show "bit ((acc OR push_bit (7 * i) (ucast (?b AND 0x7f))) OR push_bit (7 * Suc i) (drop_bit 7 x)) j
          = bit (acc OR push_bit (7 * i) x) j"
        unfolding lw by (cases "7 + 7 * i \<le> j") (auto simp: bit_simps e)
    qed
    with True b i show ?thesis
      using 1(1) [OF True i(1) d, of "acc OR push_bit (7 * i) (ucast (?b AND 0x7f))"]
      by (simp add: put_uvarint.simps [of x])
  next
    case False
    then have x: "unat x < 128" by (simp add: word_le_nat_alt)
    then have b: "(ucast x :: u8) < 0x80" by (simp add: word_less_nat_alt unsigned_ucast_eq take_bit_nat_eq_self)
    have i9: "\<not> (ucast x :: u8) > 1" if "i = 9"
    proof -
      have "x < 2 ^ 1" using 1(3) that by (intro less_exp_bits) auto
      then show ?thesis using x by (simp add: word_less_nat_alt unsigned_ucast_eq take_bit_nat_eq_self)
    qed
    have c: "ucast (ucast x :: u8) = x"
    proof (rule bit_word_eqI)
      fix j
      have "x < 2 ^ 7" using x by (simp add: word_less_nat_alt)
      then show "bit (ucast (ucast x :: u8) :: u64) j = bit x j"
        using bit_less_exp [of x 7 j] by (auto simp: bit_simps)
    qed
    show ?thesis using False b i9 c 1(2) by (auto simp: put_uvarint.simps [of x])
  qed
qed

lemma get_uvarint_put [simp]: "get_uvarint msg (put_uvarint x @ rest) = Inr (x, rest)"
  using uvarint_loop_put [of 0 x 0 rest] bit_imp_le_length [of x] by (simp add: get_uvarint_def)

lemma put_uvarint_nonempty: "put_uvarint x \<noteq> []"
  by (subst put_uvarint.simps) simp

interpretation uvarint: codec put_uvarint "get_uvarint msg" id "\<lambda>_. True"
  by unfold_locales simp

lemma prefix_reader_u8: "prefix_reader (get_u8 msg)"
  by (auto simp: prefix_reader_def get_u8_def split: list.splits)

lemma prefix_reader_u16: "prefix_reader (get_u16 msg)"
  unfolding prefix_reader_def
proof (intro allI impI)
  fix buf v rest
  assume "get_u16 msg buf = Inr (v, rest)"
  then have "buf = take 2 buf @ rest \<and> (\<forall>r. get_u16 msg (take 2 buf @ r) = Inr (v, r))"
    by (auto simp: get_u16_def split: if_splits)
  then show "\<exists>c. buf = c @ rest \<and> (\<forall>r. get_u16 msg (c @ r) = Inr (v, r))" by blast
qed

lemma uvarint_loop_prefix:
  "uvarint_loop i x buf = Some (v, rest) \<Longrightarrow>
   \<exists>c. buf = c @ rest \<and> (\<forall>r. uvarint_loop i x (c @ r) = Some (v, r))"
proof (induction buf arbitrary: i x)
  case (Cons b buf)
  show ?case
  proof (cases "b < 0x80")
    case True
    with Cons.prems show ?thesis by (intro exI [of _ "[b]"]) (auto split: if_splits)
  next
    case False
    with Cons.prems have i: "i \<noteq> 10"
        and l: "uvarint_loop (Suc i) (x OR push_bit (7 * i) (ucast (b AND 0x7f))) buf = Some (v, rest)"
      by (auto split: if_splits)
    from Cons.IH [OF l] obtain c where "buf = c @ rest"
        "\<And>r. uvarint_loop (Suc i) (x OR push_bit (7 * i) (ucast (b AND 0x7f))) (c @ r) = Some (v, r)" by blast
    with False i show ?thesis by (intro exI [of _ "b # c"]) simp
  qed
qed simp

lemma prefix_reader_uvarint: "prefix_reader (get_uvarint msg)"
  unfolding prefix_reader_def get_uvarint_def
  by (auto dest!: uvarint_loop_prefix split: option.splits)

end
