(* ===== verification/Tbn_Tables.thy ===== *)
theory Tbn_Tables
  imports Codec "HOL-Library.Product_Lexorder" "HOL-Library.Multiset"
begin

text \<open>
  The tables of a \<^verbatim>\<open>.tbn\<close> file: the label and local-label tables of the header
  (\<^verbatim>\<open>header_tables.go\<close>), and the name table, the global flags and the sidecar of the editor
  region (\<^verbatim>\<open>editor_region.go\<close>).  Every table is a 16-bit count and that many rows; a row may
  depend on the previous one (a delta, a shared prefix), so the readers thread a state.
\<close>

section \<open>Rows with a running state\<close>

type_synonym ('s, 'b) row_reader = "'s \<Rightarrow> bytes \<Rightarrow> ('b \<times> 's \<times> bytes) res"

fun put_rows :: "('s \<Rightarrow> 'a \<Rightarrow> bytes) \<Rightarrow> ('s \<Rightarrow> 'a \<Rightarrow> 's) \<Rightarrow> 's \<Rightarrow> 'a list \<Rightarrow> bytes" where
  "put_rows put step s [] = []"
| "put_rows put step s (a # as) = put s a @ put_rows put step (step s a) as"

fun read_rows :: "('s, 'b) row_reader \<Rightarrow> nat \<Rightarrow> 's \<Rightarrow> 'b list reader" where
  "read_rows get 0 s buf = Inr ([], buf)"
| "read_rows get (Suc n) s buf =
     sbind (get s buf) (\<lambda>(b, s', rest).
       sbind (read_rows get n s' rest) (\<lambda>(bs, rest'). Inr (b # bs, rest')))"

fun rows_ok :: "('s \<Rightarrow> 'a \<Rightarrow> bool) \<Rightarrow> ('s \<Rightarrow> 'a \<Rightarrow> 's) \<Rightarrow> 's \<Rightarrow> 'a list \<Rightarrow> bool" where
  "rows_ok ok step s [] \<longleftrightarrow> True"
| "rows_ok ok step s (a # as) \<longleftrightarrow> ok s a \<and> rows_ok ok step (step s a) as"

definition put_table :: "('s \<Rightarrow> 'a \<Rightarrow> bytes) \<Rightarrow> ('s \<Rightarrow> 'a \<Rightarrow> 's) \<Rightarrow> 's \<Rightarrow> 'a list \<Rightarrow> bytes" where
  "put_table put step s as = put_u16 (of_nat (length as)) @ put_rows put step s as"

definition read_table :: "string \<Rightarrow> ('s, 'b) row_reader \<Rightarrow> 's \<Rightarrow> 'b list reader" where
  "read_table msg get s buf = sbind (get_u16 msg buf) (\<lambda>(n, rest). read_rows get (unat n) s rest)"

locale row_codec =
  fixes put :: "'s \<Rightarrow> 'a \<Rightarrow> bytes"
    and step :: "'s \<Rightarrow> 'a \<Rightarrow> 's"
    and get :: "('s, 'b) row_reader"
    and view :: "'a \<Rightarrow> 'b"
    and ok :: "'s \<Rightarrow> 'a \<Rightarrow> bool"
  assumes get_put: "ok s a \<Longrightarrow> get s (put s a @ rest) = Inr (view a, step s a, rest)"
begin

lemma read_rows_put:
  "rows_ok ok step s as \<Longrightarrow>
   read_rows get (length as) s (put_rows put step s as @ rest) = Inr (map view as, rest)"
  by (induction as arbitrary: s) (simp_all add: get_put)

lemma read_table_put:
  "rows_ok ok step s as \<Longrightarrow> length as < 65536 \<Longrightarrow>
   read_table msg get s (put_table put step s as @ rest) = Inr (map view as, rest)"
  by (simp add: read_table_def put_table_def read_rows_put unat_of_nat)

text \<open>The count is the length modulo \<open>2^16\<close>: a longer table is read back cut short.\<close>

lemma read_table_wraps:
  assumes "rows_ok ok step s as" and "65536 \<le> length as"
  shows "\<exists>rest'. read_table msg get s (put_table put step s as @ rest)
      = Inr (map view (take (length as mod 65536) as), rest')"
proof -
  let ?k = "length as mod 65536"
  have "rows_ok ok step s (take n as) \<and>
      (\<exists>r. put_rows put step s as = put_rows put step s (take n as) @ r)" for n
    using assms(1)
  proof (induction as arbitrary: s n)
    case (Cons a as)
    then show ?case by (cases n) auto
  qed simp
  then obtain r where "rows_ok ok step s (take ?k as)"
      and "put_rows put step s as = put_rows put step s (take ?k as) @ r" by blast
  moreover have "length (take ?k as) = ?k" by (simp add: min_absorb2)
  ultimately have "read_rows get ?k s (put_rows put step s as @ rest) = Inr (map view (take ?k as), r @ rest)"
    using read_rows_put [of s "take ?k as" "r @ rest"] by simp
  then show ?thesis by (auto simp: read_table_def put_table_def unat_of_nat)
qed

end

section \<open>The header tables\<close>

record label_row =
  label_name :: u16
  label_offset :: i64

record local_row =
  local_digit :: u8
  local_offset :: i64

text \<open>
  The rows are sorted by offset, as signed numbers, and then by name or digit.  Rows that
  compare equal are equal, so any sort of the library gives this list.
\<close>

definition label_key :: "label_row \<Rightarrow> int \<times> nat" where
  "label_key r = (sint (label_offset r), unat (label_name r))"

definition local_key :: "local_row \<Rightarrow> int \<times> nat" where
  "local_key r = (sint (local_offset r), unat (local_digit r))"

definition put_label_row :: "i64 \<Rightarrow> label_row \<Rightarrow> bytes" where
  "put_label_row prev r = put_u16 (label_name r) @ put_uvarint (label_offset r - prev)"

definition put_local_row :: "i64 \<Rightarrow> local_row \<Rightarrow> bytes" where
  "put_local_row prev r = local_digit r # put_uvarint (local_offset r - prev)"

definition write_label_table :: "bytes \<Rightarrow> label_row list \<Rightarrow> bytes" where
  "write_label_table buf labels = buf @ put_table put_label_row (\<lambda>_. label_offset) 0 (sort_key label_key labels)"

definition write_local_table :: "bytes \<Rightarrow> local_row list \<Rightarrow> bytes" where
  "write_local_table buf locals = buf @ put_table put_local_row (\<lambda>_. local_offset) 0 (sort_key local_key locals)"

definition get_label_row :: "(i64, label_row) row_reader" where
  "get_label_row prev buf =
     sbind (get_u16 ''file: truncated label name_id'' buf) (\<lambda>(name, buf).
       sbind (get_uvarint ''file: truncated label offset delta'' buf) (\<lambda>(delta, buf).
         Inr (\<lparr>label_name = name, label_offset = prev + delta\<rparr>, prev + delta, buf)))"

definition get_local_row :: "(i64, local_row) row_reader" where
  "get_local_row prev buf =
     sbind (get_u8 ''file: truncated local digit'' buf) (\<lambda>(digit, buf).
       sbind (get_uvarint ''file: truncated local offset delta'' buf) (\<lambda>(delta, buf).
         Inr (\<lparr>local_digit = digit, local_offset = prev + delta\<rparr>, prev + delta, buf)))"

definition read_label_table :: "label_row list reader" where
  "read_label_table = read_table ''file: truncated label table count'' get_label_row 0"

definition read_local_table :: "local_row list reader" where
  "read_local_table = read_table ''file: truncated local table count'' get_local_row 0"

interpretation label_rows: row_codec put_label_row "\<lambda>_. label_offset" get_label_row id "\<lambda>_ _. True"
  by unfold_locales (simp add: get_label_row_def put_label_row_def)

interpretation local_rows: row_codec put_local_row "\<lambda>_. local_offset" get_local_row id "\<lambda>_ _. True"
  by unfold_locales (simp add: get_local_row_def put_local_row_def get_u8_def)

lemma rows_ok_True [simp]: "rows_ok (\<lambda>_ _. True) step s as"
  by (induction as arbitrary: s) simp_all

lemma read_label_table_put:
  "length labels < 65536 \<Longrightarrow>
   read_label_table (write_label_table [] labels @ rest) = Inr (sort_key label_key labels, rest)"
  by (simp add: read_label_table_def write_label_table_def label_rows.read_table_put)

lemma read_local_table_put:
  "length locals < 65536 \<Longrightarrow>
   read_local_table (write_local_table [] locals @ rest) = Inr (sort_key local_key locals, rest)"
  by (simp add: read_local_table_def write_local_table_def local_rows.read_table_put)

section \<open>The name table\<close>

text \<open>
  A name is front-coded against the previous one.  The reader's state is the previous name
  and the position in the file: the position matters only because \<^verbatim>\<open>pos+int(slen)\<close> is 64-bit
  arithmetic, so a hostile length is an error or a slice out of range depending on it.
\<close>

fun common_prefix_len :: "bytes \<Rightarrow> bytes \<Rightarrow> nat" where
  "common_prefix_len (a # as) (b # bs) = (if a = b then Suc (common_prefix_len as bs) else 0)"
| "common_prefix_len _ _ = 0"

definition put_name :: "bytes \<Rightarrow> bytes \<Rightarrow> bytes" where
  "put_name prev n =
     (let shared = common_prefix_len prev n; suffix = drop shared n
      in put_uvarint (of_nat shared) @ put_uvarint (of_nat (length suffix)) @ suffix)"

definition append_name_table :: "bytes \<Rightarrow> bytes list \<Rightarrow> bytes" where
  "append_name_table buf names = buf @ put_table put_name (\<lambda>_ n. n) [] names"

definition get_name :: "(bytes \<times> nat, bytes) row_reader" where
  "get_name = (\<lambda>(prev, pos) buf.
     let total = pos + length buf in
     sbind (get_uvarint ''file: truncated name shared-prefix-len'' buf) (\<lambda>(shared, buf).
       sbind (get_uvarint ''file: truncated name suffix-len'' buf) (\<lambda>(slen, buf).
         let start = total - length buf; stop = of_nat start + slen in
         if sint shared > int (length prev) then Inl (Error ''file: name shared-prefix-len exceeds previous name length'')
         else if sint stop > int total then Inl (Error ''file: truncated name body'')
         else if unat shared > length prev \<or> sint stop < int start then Inl Panic
         else let name = take (unat shared) prev @ take (unat slen) buf
              in Inr (name, (name, start + unat slen), drop (unat slen) buf))))"

definition read_name_table :: "nat \<Rightarrow> bytes list reader" where
  "read_name_table pos = read_table ''file: truncated name table count'' get_name ([], pos + 2)"

lemma common_prefix_len_le: "common_prefix_len a b \<le> length a" "common_prefix_len a b \<le> length b"
  by (induction a b rule: common_prefix_len.induct) auto

lemma take_common_prefix: "take (common_prefix_len a b) a = take (common_prefix_len a b) b"
  by (induction a b rule: common_prefix_len.induct) auto

lemma of_nat_i64: "n < 2 ^ 63 \<Longrightarrow> sint (of_nat n :: i64) = int n" "n < 2 ^ 63 \<Longrightarrow> unat (of_nat n :: i64) = n"
proof -
  assume n: "n < 2 ^ 63"
  show u: "unat (of_nat n :: i64) = n" using n by (simp add: unat_of_nat)
  show "sint (of_nat n :: i64) = int n" using sint_word_of_int64 [of "int n"] n by simp
qed

definition name_step :: "bytes \<times> nat \<Rightarrow> bytes \<Rightarrow> bytes \<times> nat" where
  "name_step = (\<lambda>(prev, pos) n. (n, pos + length (put_name prev n)))"

definition name_ok :: "bytes \<times> nat \<Rightarrow> bytes \<Rightarrow> bool" where
  "name_ok = (\<lambda>(prev, pos) n. length prev \<le> pos \<and> pos + length (put_name prev n) < 2 ^ 63)"

lemma length_put_name:
  "length n + 2 \<le> length prev + length (put_name prev n)" "common_prefix_len prev n \<le> length prev"
proof -
  have "1 \<le> length (put_uvarint x)" for x using put_uvarint_nonempty [of x] by (cases "put_uvarint x") auto
  from this [of "of_nat (common_prefix_len prev n)"] this [of "of_nat (length n - common_prefix_len prev n)"]
  show "length n + 2 \<le> length prev + length (put_name prev n)" "common_prefix_len prev n \<le> length prev"
    using common_prefix_len_le [of prev n] by (auto simp: put_name_def Let_def)
qed

lemma get_name_put:
  assumes "name_ok s n"
  shows "get_name s (put_name (fst s) n @ rest) = Inr (n, name_step s n, rest)"
proof -
  obtain prev pos where s: "s = (prev, pos)" by (cases s)
  define k m where "k = common_prefix_len prev n" and "m = length n - k"
  define a b where "a = put_uvarint (of_nat k)" and "b = put_uvarint (of_nat m)"
  define start where "start = pos + length a + length b"
  have k: "k \<le> length prev" "k \<le> length n" "take k prev = take k n"
    unfolding k_def by (rule common_prefix_len_le take_common_prefix)+
  have put: "put_name prev n = a @ b @ drop k n" "length (drop k n) = m"
    by (simp_all add: put_name_def Let_def k_def m_def a_def b_def)
  have len: "length prev \<le> pos" "start + m < 2 ^ 63"
    using assms put by (simp_all add: s name_ok_def start_def)
  then have lt: "k < 2 ^ 63" "m < 2 ^ 63" "start < 2 ^ 63" using k(1) start_def by linarith+
  have stop: "of_nat start + of_nat m = (of_nat (start + m) :: i64)" by simp
  have st: "pos + length (a @ b @ drop k n @ rest) - length (drop k n @ rest) = start"
    by (simp add: start_def)
  have ab: "get_uvarint msg (a @ r) = Inr (of_nat k, r)" "get_uvarint msg (b @ r) = Inr (of_nat m, r)" for msg r
    by (simp_all add: a_def b_def)
  have tot: "int (start + m) \<le> int (pos + length (a @ b @ drop k n @ rest))"
    using put(2) by (simp add: start_def)
  have td: "take m (drop k n @ rest) = drop k n" "drop m (drop k n @ rest) = rest"
    using put(2) by (metis append_eq_conv_conj)+
  show ?thesis
    unfolding s fst_conv put append_assoc get_name_def split_conv Let_def ab sbind.simps st stop td
      of_nat_i64 [OF lt(1)] of_nat_i64 [OF lt(2)] of_nat_i64 [OF len(2)]
    using k tot put lt by (simp add: name_step_def start_def)
qed

interpretation name_rows: row_codec "\<lambda>s. put_name (fst s)" name_step get_name id name_ok
  by unfold_locales (simp add: get_name_put)

text \<open>The writer's state has no position.\<close>

lemma put_rows_names: "put_rows (\<lambda>s. put_name (fst s)) name_step s names = put_rows put_name (\<lambda>_ n. n) (fst s) names"
  by (induction names arbitrary: s) (simp_all add: name_step_def split: prod.splits)

lemma rows_ok_names:
  "length (fst s) \<le> snd s \<Longrightarrow> snd s + length (put_rows put_name (\<lambda>_ n. n) (fst s) names) < 2 ^ 63 \<Longrightarrow>
   rows_ok name_ok name_step s names"
proof (induction names arbitrary: s)
  case (Cons n names)
  obtain prev pos where s: "s = (prev, pos)" by (cases s)
  show ?case
    using Cons.prems Cons.IH [of "name_step s n"] length_put_name [of n prev]
    by (simp add: s name_ok_def name_step_def)
qed simp

lemma read_name_table_put:
  assumes "length names < 65536" and "pos + length (append_name_table [] names) < 2 ^ 63"
  shows "read_name_table pos (append_name_table [] names @ rest) = Inr (names, rest)"
proof -
  have "rows_ok name_ok name_step ([], pos + 2) names"
    using assms(2) by (intro rows_ok_names) (simp_all add: append_name_table_def put_table_def)
  from name_rows.read_table_put [OF this assms(1)] show ?thesis
    by (simp add: read_name_table_def append_name_table_def put_table_def put_rows_names)
qed

end
