(* ===== verification/Tbn_Editor.thy ===== *)
theory Tbn_Editor
  imports Tbn_Tables
begin

text \<open>
  The rest of the editor region (\<^verbatim>\<open>editor_region.go\<close>): the global flags, the sidecar of
  comments and blank-line runs, and the region as a whole.
\<close>

section \<open>Global flags\<close>

definition append_global_flags :: "bytes \<Rightarrow> u16 list \<Rightarrow> bytes" where
  "append_global_flags buf ids =
     (let rows = sort ids in buf @ put_u16 (of_nat (length rows)) @ concat (map put_u16 rows))"

definition read_global_flags :: "u16 list reader" where
  "read_global_flags buf =
     sbind (get_u16 ''file: truncated global-flags count'' buf) (\<lambda>(n, buf).
       read_n (get_u16 ''file: truncated global-flag id'') (unat n) buf)"

lemma read_global_flags_put:
  "length ids < 65536 \<Longrightarrow> read_global_flags (append_global_flags [] ids @ rest) = Inr (sort ids, rest)"
  using u16.read_n_put [of "sort ids" "''file: truncated global-flag id''" rest]
  by (simp add: read_global_flags_def append_global_flags_def Let_def list.pred_True unat_of_nat)

section \<open>The sidecar\<close>

record comment_row =
  c_anchor :: i64
  c_placement :: u8
  c_body :: bytes

record blank_run =
  b_anchor :: i64
  b_run_len :: u32

abbreviation SidecarComment :: u8 where "SidecarComment \<equiv> 0"
abbreviation SidecarBlank :: u8 where "SidecarBlank \<equiv> 1"

record sidecar_row =
  s_kind :: u8
  s_comment :: comment_row
  s_blank :: blank_run

definition comment0 :: comment_row where
  "comment0 = \<lparr>c_anchor = 0, c_placement = 0, c_body = []\<rparr>"

definition blank0 :: blank_run where
  "blank0 = \<lparr>b_anchor = 0, b_run_len = 0\<rparr>"

definition anchor :: "sidecar_row \<Rightarrow> i64" where
  "anchor r = (if s_kind r = SidecarBlank then b_anchor (s_blank r) else c_anchor (s_comment r))"

definition put_sidecar_row :: "i64 \<Rightarrow> sidecar_row \<Rightarrow> bytes" where
  "put_sidecar_row prev r =
     (let d = anchor r - prev; delta = if sint d < 0 then 0 else d in
      s_kind r # put_uvarint delta @
      (if s_kind r = SidecarBlank then put_uvarint (ucast (b_run_len (s_blank r)))
       else c_placement (s_comment r) # put_u16 (of_nat (length (c_body (s_comment r)))) @ c_body (s_comment r)))"

text \<open>\<^verbatim>\<open>sort.SliceStable\<close> by anchor.\<close>

definition append_sidecar :: "bytes \<Rightarrow> sidecar_row list \<Rightarrow> bytes" where
  "append_sidecar buf rows = buf @ put_table put_sidecar_row (\<lambda>_. anchor) 0 (sort_key (\<lambda>r. sint (anchor r)) rows)"

definition get_sidecar_tail :: "u8 \<Rightarrow> i64 \<Rightarrow> sidecar_row reader" where
  "get_sidecar_tail kind at buf =
     (if kind = SidecarBlank
      then sbind (get_uvarint ''file: truncated blank-run length'' buf) (\<lambda>(run_len, buf).
        Inr (\<lparr>s_kind = SidecarBlank, s_comment = comment0,
              s_blank = \<lparr>b_anchor = at, b_run_len = ucast run_len\<rparr>\<rparr>, buf))
      else if kind = SidecarComment
      then sbind (get_u8 ''file: truncated comment placement'' buf) (\<lambda>(placement, buf).
        sbind (get_u16 ''file: truncated comment len'' buf) (\<lambda>(blen, buf).
          if unat blen > length buf then Inl (Error ''file: truncated comment body'')
          else Inr (\<lparr>s_kind = SidecarComment,
                 s_comment = \<lparr>c_anchor = at, c_placement = placement, c_body = take (unat blen) buf\<rparr>,
                 s_blank = blank0\<rparr>, drop (unat blen) buf)))
      else Inl (Error ''file: unknown sidecar kind''))"

definition get_sidecar_row :: "bool \<Rightarrow> (i64, sidecar_row) row_reader" where
  "get_sidecar_row tagged prev buf =
     sbind (if tagged then get_u8 ''file: truncated sidecar kind'' buf else Inr (SidecarComment, buf)) (\<lambda>(kind, buf).
       sbind (get_uvarint ''file: truncated sidecar anchor delta'' buf) (\<lambda>(delta, buf).
         sbind (get_sidecar_tail kind (prev + delta) buf) (\<lambda>(row, buf). Inr (row, prev + delta, buf))))"

definition read_sidecar :: "bool \<Rightarrow> sidecar_row list reader" where
  "read_sidecar tagged = read_table ''file: truncated sidecar count'' (get_sidecar_row tagged) 0"

text \<open>What is kept of a row: the half its kind selects.\<close>

definition sidecar_view :: "sidecar_row \<Rightarrow> sidecar_row" where
  "sidecar_view r =
     (if s_kind r = SidecarBlank then r\<lparr>s_comment := comment0\<rparr> else r\<lparr>s_blank := blank0\<rparr>)"

definition sidecar_row_ok :: "sidecar_row \<Rightarrow> bool" where
  "sidecar_row_ok r \<longleftrightarrow> s_kind r \<in> {SidecarComment, SidecarBlank}
     \<and> 0 \<le> sint (anchor r) \<and> length (c_body (s_comment r)) < 65536"

lemma ucast_ucast_u32: "(ucast (ucast (w :: u32) :: u64) :: u32) = w"
  by (rule bit_word_eqI) (simp add: bit_simps)

lemma sidecar_delta:
  assumes "0 \<le> sint (p :: i64)" and "sint p \<le> sint a"
  shows "\<not> sint (a - p) < 0"
proof -
  have "sint (word_of_int (sint a - sint p) :: i64) = sint a - sint p"
    using assms sint_range64 [of a] by (intro sint_word_of_int64) linarith+
  then show ?thesis using assms by simp
qed

interpretation sidecar_rows: row_codec put_sidecar_row "\<lambda>_. anchor" "get_sidecar_row True" sidecar_view
  "\<lambda>p r. sidecar_row_ok r \<and> 0 \<le> sint p \<and> sint p \<le> sint (anchor r)"
proof unfold_locales
  fix p :: i64 and r :: sidecar_row and rest :: bytes
  assume r: "sidecar_row_ok r \<and> 0 \<le> sint p \<and> sint p \<le> sint (anchor r)"
  then have d: "\<not> sint (anchor r - p) < 0" using sidecar_delta by blast
  have k: "s_kind r = 0 \<or> s_kind r = 1" and l: "length (c_body (s_comment r)) < 65536"
    using r by (auto simp: sidecar_row_ok_def)
  show "get_sidecar_row True p (put_sidecar_row p r @ rest) = Inr (sidecar_view r, anchor r, rest)"
    using k
  proof
    assume "s_kind r = 0"
    with d l show ?thesis
      by (simp add: get_sidecar_row_def put_sidecar_row_def Let_def get_u8_def get_sidecar_tail_def
          sidecar_view_def anchor_def unat_of_nat)
  next
    assume "s_kind r = 1"
    with d show ?thesis
      by (simp add: get_sidecar_row_def put_sidecar_row_def Let_def get_u8_def get_sidecar_tail_def
          sidecar_view_def anchor_def ucast_ucast_u32)
  qed
qed

lemma rows_ok_sorted:
  assumes "list_all ok rows" and "sorted (map key rows)"
    and "\<And>r. f (a r) = key r" and "\<And>r. ok r \<Longrightarrow> s \<le> key r"
    and "s \<le> f p" and "\<And>r. r \<in> set rows \<Longrightarrow> f p \<le> key r"
  shows "rows_ok (\<lambda>p r. ok r \<and> s \<le> f p \<and> f p \<le> key r) (\<lambda>_ r. a r) p rows"
  using assms by (induction rows arbitrary: p) auto

lemma read_sidecar_put:
  assumes "list_all sidecar_row_ok rows" and "length rows < 65536"
  shows "read_sidecar True (append_sidecar [] rows @ rest)
    = Inr (map sidecar_view (sort_key (\<lambda>r. sint (anchor r)) rows), rest)"
proof -
  have "rows_ok (\<lambda>p r. sidecar_row_ok r \<and> 0 \<le> sint p \<and> sint p \<le> sint (anchor r)) (\<lambda>_. anchor) 0
      (sort_key (\<lambda>r. sint (anchor r)) rows)"
    using assms(1) by (intro rows_ok_sorted [where f = sint and a = anchor])
      (auto simp: list_all_iff sidecar_row_ok_def)
  then show ?thesis
    using assms(2) by (simp add: read_sidecar_def append_sidecar_def sidecar_rows.read_table_put)
qed

section \<open>The region\<close>

definition append_editor_region :: "bytes \<Rightarrow> bytes list \<Rightarrow> u16 list \<Rightarrow> sidecar_row list \<Rightarrow> bytes" where
  "append_editor_region buf names globals sidecar =
     append_sidecar (append_global_flags (append_name_table buf names) globals) sidecar"

definition read_editor_region :: "nat \<Rightarrow> bool \<Rightarrow> (bytes list \<times> u16 list \<times> sidecar_row list) reader" where
  "read_editor_region pos tagged buf =
     sbind (read_name_table pos buf) (\<lambda>(names, buf).
       sbind (read_global_flags buf) (\<lambda>(globals, buf).
         sbind (read_sidecar tagged buf) (\<lambda>(sidecar, buf). Inr ((names, globals, sidecar), buf))))"

lemma append_table_simps:
  "append_name_table buf names = buf @ append_name_table [] names"
  "append_global_flags buf ids = buf @ append_global_flags [] ids"
  "append_sidecar buf rows = buf @ append_sidecar [] rows"
  by (simp_all add: append_name_table_def append_global_flags_def append_sidecar_def Let_def)

lemma append_editor_region_eq:
  "append_editor_region buf names globals sidecar =
     buf @ append_name_table [] names @ append_global_flags [] globals @ append_sidecar [] sidecar"
  unfolding append_editor_region_def
  by (subst append_table_simps(3), subst append_table_simps(2), subst append_table_simps(1)) simp

lemma read_editor_region_put:
  assumes "length names < 65536" "length globals < 65536" "length sidecar < 65536"
    and "list_all sidecar_row_ok sidecar"
    and "pos + length (append_editor_region [] names globals sidecar) < 2 ^ 63"
  shows "read_editor_region pos True (append_editor_region [] names globals sidecar @ rest)
    = Inr ((names, sort globals, map sidecar_view (sort_key (\<lambda>r. sint (anchor r)) sidecar)), rest)"
proof -
  have "pos + length (append_name_table [] names) < 2 ^ 63"
    using assms(5) by (simp add: append_editor_region_eq)
  then show ?thesis
    using assms(1-4)
    by (simp add: read_editor_region_def append_editor_region_eq read_name_table_put read_global_flags_put
        read_sidecar_put)
qed

end
