(* ===== verification/Tbn_Operands.thy ===== *)
theory Tbn_Operands
  imports Codec Fmt_Tables
begin

text \<open>
  The operand stream of \<^verbatim>\<open>tools/sam-aarch64-format/operands.go\<close>: the writer's methods, which
  append to a buffer, and the reader, whose state is the unread bytes.  Operand kinds, memory
  shapes, shifts, extends and conditions are the bytes of the file.
\<close>

section \<open>Writer\<close>

abbreviation MemBase :: u8 where "MemBase \<equiv> 0"
abbreviation MemBaseOff :: u8 where "MemBaseOff \<equiv> 1"
abbreviation MemBaseOffPre :: u8 where "MemBaseOffPre \<equiv> 2"
abbreviation MemBaseOffPost :: u8 where "MemBaseOffPost \<equiv> 3"
abbreviation MemBaseIdx :: u8 where "MemBaseIdx \<equiv> 4"
abbreviation MemBaseIdxShifted :: u8 where "MemBaseIdxShifted \<equiv> 5"
abbreviation MemBaseIdxExtended :: u8 where "MemBaseIdxExtended \<equiv> 6"

text \<open>A length is written as \<^verbatim>\<open>uint16(len(b))\<close>, so it wraps above 65535.\<close>

definition counted :: "bytes \<Rightarrow> bytes" where
  "counted b = put_u16 (of_nat (length b)) @ b"

definition write_reg :: "bytes \<Rightarrow> u8 \<Rightarrow> u8 \<Rightarrow> bytes" where
  "write_reg buf kind r = buf @ [kind, r]"

definition write_imm_expr :: "bytes \<Rightarrow> bytes \<Rightarrow> bytes" where
  "write_imm_expr buf e = buf @ [OpImmExpr] @ counted e"

definition write_shifted_reg :: "bytes \<Rightarrow> u8 \<Rightarrow> u8 \<Rightarrow> u8 \<Rightarrow> bytes \<Rightarrow> bytes" where
  "write_shifted_reg buf width r kind amt = buf @ [OpShiftedReg, width, r, kind] @ counted amt"

definition write_extended_reg :: "bytes \<Rightarrow> u8 \<Rightarrow> u8 \<Rightarrow> u8 \<Rightarrow> bytes \<Rightarrow> bytes" where
  "write_extended_reg buf width r kind amt = buf @ [OpExtendedReg, width, r, kind] @ counted amt"

definition write_mem_base :: "bytes \<Rightarrow> u8 \<Rightarrow> bytes" where
  "write_mem_base buf base = buf @ [OpMem, MemBase, base]"

definition write_mem_base_off :: "bytes \<Rightarrow> u8 \<Rightarrow> u8 \<Rightarrow> bytes \<Rightarrow> bytes" where
  "write_mem_base_off buf shape base off = buf @ [OpMem, shape, base] @ counted off"

definition write_mem_base_idx :: "bytes \<Rightarrow> u8 \<Rightarrow> u8 \<Rightarrow> u8 \<Rightarrow> bytes" where
  "write_mem_base_idx buf base idx idx_width = buf @ [OpMem, MemBaseIdx, base, idx, idx_width]"

definition write_mem_base_idx_shifted :: "bytes \<Rightarrow> u8 \<Rightarrow> u8 \<Rightarrow> u8 \<Rightarrow> u8 \<Rightarrow> bytes" where
  "write_mem_base_idx_shifted buf base idx idx_width amt =
     buf @ [OpMem, MemBaseIdxShifted, base, idx, idx_width, amt]"

definition write_mem_base_idx_extended :: "bytes \<Rightarrow> u8 \<Rightarrow> u8 \<Rightarrow> u8 \<Rightarrow> u8 \<Rightarrow> u8 \<Rightarrow> bytes" where
  "write_mem_base_idx_extended buf base idx idx_width ext amt =
     buf @ [OpMem, MemBaseIdxExtended, base, idx, idx_width, ext, amt]"

definition write_string :: "bytes \<Rightarrow> bytes \<Rightarrow> bytes" where
  "write_string buf s = buf @ [OpString] @ counted s"

definition write_cond :: "bytes \<Rightarrow> u8 \<Rightarrow> bytes" where
  "write_cond buf c = buf @ [OpCond, c]"

definition write_lit_pool :: "bytes \<Rightarrow> u8 \<Rightarrow> bytes \<Rightarrow> bytes" where
  "write_lit_pool buf width e = buf @ [OpLitPool, width] @ counted e"

definition write_sys_name :: "bytes \<Rightarrow> bytes \<Rightarrow> bytes" where
  "write_sys_name buf name = buf @ [OpSysName] @ counted name"

section \<open>Reader\<close>

text \<open>Fields that do not belong to the operand's kind keep Go's zero value.\<close>

record operand =
  o_kind :: u8
  o_reg :: u8
  o_width :: u8
  o_base :: u8
  o_idx :: u8
  o_idx_width :: u8
  o_shift_kind :: u8
  o_extend :: u8
  o_shift_amt :: u8
  o_mem_shape :: u8
  o_expr :: bytes
  o_amt_expr :: bytes
  o_str :: bytes
  o_cond :: u8

definition operand0 :: "u8 \<Rightarrow> operand" where
  "operand0 k = \<lparr>o_kind = k, o_reg = 0, o_width = 0, o_base = 0, o_idx = 0, o_idx_width = 0,
     o_shift_kind = 0, o_extend = 0, o_shift_amt = 0, o_mem_shape = 0,
     o_expr = [], o_amt_expr = [], o_str = [], o_cond = 0\<rparr>"

text \<open>
  \<^verbatim>\<open>take(n)\<close> returns what is left when fewer than \<open>n\<close> bytes remain; \<^verbatim>\<open>take(1)[0]\<close> then indexes
  an empty slice and panics.  \<^verbatim>\<open>readLen\<close> returns 0, reading nothing, when fewer than two bytes
  remain.
\<close>

definition take_bytes :: "nat \<Rightarrow> bytes \<Rightarrow> bytes \<times> bytes" where
  "take_bytes n buf = (take n buf, drop n buf)"

definition take_byte :: "u8 reader" where
  "take_byte buf = (case take_bytes 1 buf of ([], rest) \<Rightarrow> Inl Panic | (b # _, rest) \<Rightarrow> Inr (b, rest))"

definition read_len :: "bytes \<Rightarrow> nat \<times> bytes" where
  "read_len buf = (if length buf < 2 then (0, buf) else (unat (le_get (take 2 buf) :: u16), drop 2 buf))"

definition take_counted :: "bytes \<Rightarrow> bytes \<times> bytes" where
  "take_counted buf = (case read_len buf of (n, rest) \<Rightarrow> take_bytes n rest)"

definition read_mem :: "operand \<Rightarrow> operand reader" where
  "read_mem o0 buf = sbind (take_byte buf) (\<lambda>(shape, buf).
     let o1 = o0\<lparr>o_mem_shape := shape\<rparr> in
     if shape = MemBase then sbind (take_byte buf) (\<lambda>(base, buf). Inr (o1\<lparr>o_base := base\<rparr>, buf))
     else if shape = MemBaseOff \<or> shape = MemBaseOffPre \<or> shape = MemBaseOffPost
     then sbind (take_byte buf) (\<lambda>(base, buf).
            case take_counted buf of (e, buf) \<Rightarrow> Inr (o1\<lparr>o_base := base, o_expr := e\<rparr>, buf))
     else if shape = MemBaseIdx
     then sbind (take_byte buf) (\<lambda>(base, buf). sbind (take_byte buf) (\<lambda>(idx, buf).
            sbind (take_byte buf) (\<lambda>(iw, buf).
              Inr (o1\<lparr>o_base := base, o_idx := idx, o_idx_width := iw\<rparr>, buf))))
     else if shape = MemBaseIdxShifted
     then sbind (take_byte buf) (\<lambda>(base, buf). sbind (take_byte buf) (\<lambda>(idx, buf).
            sbind (take_byte buf) (\<lambda>(iw, buf). sbind (take_byte buf) (\<lambda>(amt, buf).
              Inr (o1\<lparr>o_base := base, o_idx := idx, o_idx_width := iw, o_shift_amt := amt\<rparr>, buf)))))
     else if shape = MemBaseIdxExtended
     then sbind (take_byte buf) (\<lambda>(base, buf). sbind (take_byte buf) (\<lambda>(idx, buf).
            sbind (take_byte buf) (\<lambda>(iw, buf). sbind (take_byte buf) (\<lambda>(ext, buf).
              sbind (take_byte buf) (\<lambda>(amt, buf).
                Inr (o1\<lparr>o_base := base, o_idx := idx, o_idx_width := iw, o_extend := ext,
                  o_shift_amt := amt\<rparr>, buf))))))
     else Inl (Error ''operand: unknown MemShape''))"

definition operand_next :: "operand reader" where
  "operand_next buf =
     (case buf of
        [] \<Rightarrow> Inl (Error ''operand: read past end'')
      | kind # buf \<Rightarrow>
          let o0 = operand0 kind in
          if kind = OpRegX \<or> kind = OpRegW \<or> kind = OpRegXSP \<or> kind = OpRegWSP
          then sbind (take_byte buf) (\<lambda>(r, buf). Inr (o0\<lparr>o_reg := r\<rparr>, buf))
          else if kind = OpImmExpr
          then (case take_counted buf of (e, buf) \<Rightarrow> Inr (o0\<lparr>o_expr := e\<rparr>, buf))
          else if kind = OpShiftedReg
          then sbind (take_byte buf) (\<lambda>(w, buf). sbind (take_byte buf) (\<lambda>(r, buf).
                 sbind (take_byte buf) (\<lambda>(k, buf).
                   case take_counted buf of (e, buf) \<Rightarrow>
                     Inr (o0\<lparr>o_width := w, o_reg := r, o_shift_kind := k, o_amt_expr := e\<rparr>, buf))))
          else if kind = OpExtendedReg
          then sbind (take_byte buf) (\<lambda>(w, buf). sbind (take_byte buf) (\<lambda>(r, buf).
                 sbind (take_byte buf) (\<lambda>(k, buf).
                   case take_counted buf of (e, buf) \<Rightarrow>
                     Inr (o0\<lparr>o_width := w, o_reg := r, o_extend := k, o_amt_expr := e\<rparr>, buf))))
          else if kind = OpMem then read_mem o0 buf
          else if kind = OpString \<or> kind = OpSysName
          then (case take_counted buf of (s, buf) \<Rightarrow> Inr (o0\<lparr>o_str := s\<rparr>, buf))
          else if kind = OpCond then sbind (take_byte buf) (\<lambda>(c, buf). Inr (o0\<lparr>o_cond := c\<rparr>, buf))
          else if kind = OpLitPool
          then sbind (take_byte buf) (\<lambda>(w, buf).
                 case take_counted buf of (e, buf) \<Rightarrow> Inr (o0\<lparr>o_width := w, o_expr := e\<rparr>, buf))
          else Inl (Error ''operand: unknown kind''))"

text \<open>The loop \<^verbatim>\<open>for !or.AtEnd()\<close> that collects the operands.\<close>

lemma take_byte_simps [simp]: "take_byte [] = Inl Panic" "take_byte (b # buf) = Inr (b, buf)"
  by (simp_all add: take_byte_def take_bytes_def)

lemma take_byte_length: "take_byte buf = Inr (b, rest) \<Longrightarrow> length rest < length buf"
  by (cases buf) auto

lemma take_counted_length: "take_counted buf = (e, rest) \<Longrightarrow> length rest \<le> length buf"
  by (auto simp: take_counted_def read_len_def take_bytes_def split: if_splits)

lemma operand_next_shorter [termination_simp]:
  "operand_next buf = Inr (o', rest) \<Longrightarrow> length rest < length buf"
  by (auto simp: operand_next_def read_mem_def Let_def split: list.splits if_splits prod.splits elim!: sbindE
      dest!: take_byte_length take_counted_length)

function read_operands :: "bytes \<Rightarrow> operand list res" where
  "read_operands buf =
     (if buf = [] then Inr []
      else case operand_next buf of
        Inl e \<Rightarrow> Inl e
      | Inr (o', rest) \<Rightarrow> sbind (read_operands rest) (\<lambda>os. Inr (o' # os)))"
  by pat_completeness auto
termination
  by (relation "measure length") (auto dest: operand_next_shorter)

declare read_operands.simps [simp del]

section \<open>Round trip\<close>

text \<open>The calls a front end makes on the writer.\<close>

datatype written =
    WReg u8 u8
  | WImm bytes
  | WShifted u8 u8 u8 bytes
  | WExtended u8 u8 u8 bytes
  | WMemBase u8
  | WMemOff u8 u8 bytes
  | WMemIdx u8 u8 u8
  | WMemIdxShifted u8 u8 u8 u8
  | WMemIdxExtended u8 u8 u8 u8 u8
  | WString bytes
  | WCond u8
  | WLitPool u8 bytes
  | WSysName bytes

fun write_operand :: "bytes \<Rightarrow> written \<Rightarrow> bytes" where
  "write_operand buf (WReg k r) = write_reg buf k r"
| "write_operand buf (WImm e) = write_imm_expr buf e"
| "write_operand buf (WShifted w r k e) = write_shifted_reg buf w r k e"
| "write_operand buf (WExtended w r k e) = write_extended_reg buf w r k e"
| "write_operand buf (WMemBase b) = write_mem_base buf b"
| "write_operand buf (WMemOff shape b e) = write_mem_base_off buf shape b e"
| "write_operand buf (WMemIdx b i w) = write_mem_base_idx buf b i w"
| "write_operand buf (WMemIdxShifted b i w a) = write_mem_base_idx_shifted buf b i w a"
| "write_operand buf (WMemIdxExtended b i w x a) = write_mem_base_idx_extended buf b i w x a"
| "write_operand buf (WString s) = write_string buf s"
| "write_operand buf (WCond c) = write_cond buf c"
| "write_operand buf (WLitPool w e) = write_lit_pool buf w e"
| "write_operand buf (WSysName n) = write_sys_name buf n"

text \<open>
  The arguments the methods are meant for: the register kinds, the three offset shapes, and
  lengths that fit the 16-bit count.
\<close>

fun written_ok :: "written \<Rightarrow> bool" where
  "written_ok (WReg k r) \<longleftrightarrow> k \<in> set [OpRegX, OpRegW, OpRegXSP, OpRegWSP]"
| "written_ok (WImm e) \<longleftrightarrow> length e < 65536"
| "written_ok (WShifted w r k e) \<longleftrightarrow> length e < 65536"
| "written_ok (WExtended w r k e) \<longleftrightarrow> length e < 65536"
| "written_ok (WMemOff shape b e) \<longleftrightarrow> shape \<in> set [MemBaseOff, MemBaseOffPre, MemBaseOffPost] \<and> length e < 65536"
| "written_ok (WString s) \<longleftrightarrow> length s < 65536"
| "written_ok (WLitPool w e) \<longleftrightarrow> length e < 65536"
| "written_ok (WSysName n) \<longleftrightarrow> length n < 65536"
| "written_ok _ \<longleftrightarrow> True"

fun operand_of :: "written \<Rightarrow> operand" where
  "operand_of (WReg k r) = (operand0 k)\<lparr>o_reg := r\<rparr>"
| "operand_of (WImm e) = (operand0 OpImmExpr)\<lparr>o_expr := e\<rparr>"
| "operand_of (WShifted w r k e) =
     (operand0 OpShiftedReg)\<lparr>o_width := w, o_reg := r, o_shift_kind := k, o_amt_expr := e\<rparr>"
| "operand_of (WExtended w r k e) =
     (operand0 OpExtendedReg)\<lparr>o_width := w, o_reg := r, o_extend := k, o_amt_expr := e\<rparr>"
| "operand_of (WMemBase b) = (operand0 OpMem)\<lparr>o_mem_shape := MemBase, o_base := b\<rparr>"
| "operand_of (WMemOff shape b e) = (operand0 OpMem)\<lparr>o_mem_shape := shape, o_base := b, o_expr := e\<rparr>"
| "operand_of (WMemIdx b i w) =
     (operand0 OpMem)\<lparr>o_mem_shape := MemBaseIdx, o_base := b, o_idx := i, o_idx_width := w\<rparr>"
| "operand_of (WMemIdxShifted b i w a) =
     (operand0 OpMem)\<lparr>o_mem_shape := MemBaseIdxShifted, o_base := b, o_idx := i, o_idx_width := w,
       o_shift_amt := a\<rparr>"
| "operand_of (WMemIdxExtended b i w x a) =
     (operand0 OpMem)\<lparr>o_mem_shape := MemBaseIdxExtended, o_base := b, o_idx := i, o_idx_width := w,
       o_extend := x, o_shift_amt := a\<rparr>"
| "operand_of (WString s) = (operand0 OpString)\<lparr>o_str := s\<rparr>"
| "operand_of (WCond c) = (operand0 OpCond)\<lparr>o_cond := c\<rparr>"
| "operand_of (WLitPool w e) = (operand0 OpLitPool)\<lparr>o_width := w, o_expr := e\<rparr>"
| "operand_of (WSysName n) = (operand0 OpSysName)\<lparr>o_str := n\<rparr>"

text \<open>A counted byte string is read back up to the count, which is the length modulo \<open>2^16\<close>.\<close>

lemma take_counted_wraps:
  "take_counted (counted b @ rest) = (take (length b mod 65536) b, drop (length b mod 65536) b @ rest)"
proof -
  have "unat (of_nat (length b) :: u16) = length b mod 65536" by (simp add: unat_of_nat)
  moreover have "length b mod 65536 \<le> length b" by simp
  ultimately show ?thesis
    by (simp add: take_counted_def read_len_def take_bytes_def counted_def del: mod_less_eq_dividend)
qed

lemma take_counted_put [simp]: "length b < 65536 \<Longrightarrow> take_counted (counted b @ rest) = (b, rest)"
  by (simp add: take_counted_wraps)

lemmas write_defs = write_reg_def write_imm_expr_def write_shifted_reg_def write_extended_reg_def
  write_mem_base_def write_mem_base_off_def write_mem_base_idx_def write_mem_base_idx_shifted_def
  write_mem_base_idx_extended_def write_string_def write_cond_def write_lit_pool_def write_sys_name_def

lemma write_operand_append: "write_operand buf w = buf @ write_operand [] w"
  by (cases w) (simp_all add: write_defs)

lemma operand_next_put:
  "written_ok w \<Longrightarrow> operand_next (write_operand [] w @ rest) = Inr (operand_of w, rest)"
  by (cases w) (auto simp: write_defs operand_next_def read_mem_def operand0_def)

interpretation operands: stream_codec "write_operand []" operand_next operand_of written_ok read_operands
proof unfold_locales
  show "written_ok w \<Longrightarrow> write_operand [] w \<noteq> []" for w by (cases w) (simp_all add: write_defs)
qed (simp_all add: operand_next_put read_operands.simps)

lemma foldl_write_operand: "foldl write_operand buf ws = buf @ concat (map (write_operand []) ws)"
proof (induction ws arbitrary: buf)
  case (Cons w ws)
  then show ?case using write_operand_append [of buf w] by simp
qed simp

text \<open>
  A sequence of operands written one after the other is read back operand by operand, with
  every field of its kind and the other fields zero.
\<close>

theorem read_written_operands:
  assumes "list_all written_ok ws"
  shows "read_operands (foldl write_operand [] ws) = Inr (map operand_of ws)"
  unfolding foldl_write_operand append_Nil by (rule operands.get_all_put [OF assms])

lemma read_written_operands_witness:
  "read_operands (foldl write_operand [] [WReg OpRegX 3, WMemOff MemBaseOffPre 31 [1, 240], WCond 2])
   = Inr (map operand_of [WReg OpRegX 3, WMemOff MemBaseOffPre 31 [1, 240], WCond 2])"
  by (rule read_written_operands) simp

text \<open>
  The 16-bit count wraps: an expression of 65536 bytes or more is written in full but read
  back truncated to its length modulo 65536, and the reader continues inside it.
\<close>

theorem long_expression_truncated:
  "operand_next (write_imm_expr [] e @ rest) =
     Inr ((operand0 OpImmExpr)\<lparr>o_expr := take (length e mod 65536) e\<rparr>, drop (length e mod 65536) e @ rest)"
  by (simp add: write_imm_expr_def operand_next_def take_counted_wraps)

text \<open>
  A truncated operand does not produce an error: the reader panics on a missing one-byte
  field, although it returns errors for the other malformed inputs.
\<close>

theorem truncated_operand_panics:
  assumes "k \<in> set [OpRegX, OpRegW, OpRegXSP, OpRegWSP, OpShiftedReg, OpExtendedReg, OpMem, OpCond, OpLitPool]"
  shows "operand_next [k] = Inl Panic"
  using assms by (auto simp: operand_next_def read_mem_def)

lemma truncated_operand_panics_witness: "operand_next [OpRegX] = Inl Panic"
  by (rule truncated_operand_panics) simp

end
