(* ===== verification/Tbn_Expr.thy ===== *)
theory Tbn_Expr
  imports Bytes
begin

text \<open>
  Expression bytecode: the writer, the reader and the constant evaluator of
  \<^verbatim>\<open>tools/sam-aarch64-format/expr.go\<close>, the context-dependence test of \<^verbatim>\<open>litinsts.go\<close>, and the
  evaluator with symbols of \<^verbatim>\<open>tools/aarch64enc/expr.go\<close>.

  An \<^verbatim>\<open>ExprReader\<close> is represented by its unread bytes \<^verbatim>\<open>buf[pos:]\<close>.  The value stack is a list
  with the top at the head.
\<close>

section \<open>Opcodes\<close>

abbreviation OpPushImm8 :: u8 where "OpPushImm8 \<equiv> 0x01"
abbreviation OpPushImm16 :: u8 where "OpPushImm16 \<equiv> 0x02"
abbreviation OpPushImm32 :: u8 where "OpPushImm32 \<equiv> 0x03"
abbreviation OpPushImm64 :: u8 where "OpPushImm64 \<equiv> 0x04"
abbreviation OpPushSym :: u8 where "OpPushSym \<equiv> 0x05"
abbreviation OpPushLocal :: u8 where "OpPushLocal \<equiv> 0x06"
abbreviation OpPushPC :: u8 where "OpPushPC \<equiv> 0x07"
abbreviation OpAdd :: u8 where "OpAdd \<equiv> 0x10"
abbreviation OpSub :: u8 where "OpSub \<equiv> 0x11"
abbreviation OpMul :: u8 where "OpMul \<equiv> 0x12"
abbreviation OpDiv :: u8 where "OpDiv \<equiv> 0x13"
abbreviation OpAnd :: u8 where "OpAnd \<equiv> 0x14"
abbreviation OpOr :: u8 where "OpOr \<equiv> 0x15"
abbreviation OpXor :: u8 where "OpXor \<equiv> 0x16"
abbreviation OpShl :: u8 where "OpShl \<equiv> 0x17"
abbreviation OpShr :: u8 where "OpShr \<equiv> 0x18"
abbreviation OpNeg :: u8 where "OpNeg \<equiv> 0x20"
abbreviation OpNot :: u8 where "OpNot \<equiv> 0x21"
abbreviation OpRelLo12 :: u8 where "OpRelLo12 \<equiv> 0x30"
abbreviation OpRelHi12 :: u8 where "OpRelHi12 \<equiv> 0x31"
abbreviation OpRelAbsG0 :: u8 where "OpRelAbsG0 \<equiv> 0x32"
abbreviation OpRelAbsG0NC :: u8 where "OpRelAbsG0NC \<equiv> 0x33"
abbreviation OpRelAbsG1 :: u8 where "OpRelAbsG1 \<equiv> 0x34"
abbreviation OpRelAbsG1NC :: u8 where "OpRelAbsG1NC \<equiv> 0x35"
abbreviation OpRelAbsG2 :: u8 where "OpRelAbsG2 \<equiv> 0x36"
abbreviation OpRelAbsG2NC :: u8 where "OpRelAbsG2NC \<equiv> 0x37"
abbreviation OpRelAbsG3 :: u8 where "OpRelAbsG3 \<equiv> 0x38"

definition binary_ops :: "u8 list" where
  "binary_ops = [OpAdd, OpSub, OpMul, OpDiv, OpAnd, OpOr, OpXor, OpShl, OpShr]"

definition rel_ops :: "u8 list" where
  "rel_ops = [OpRelLo12, OpRelHi12, OpRelAbsG0, OpRelAbsG0NC, OpRelAbsG1, OpRelAbsG1NC,
     OpRelAbsG2, OpRelAbsG2NC, OpRelAbsG3]"

text \<open>\<^verbatim>\<open>operandWidth\<close>: \<open>None\<close> stands for \<open>-1\<close>, an unknown opcode.\<close>

definition operand_width :: "u8 \<Rightarrow> nat option" where
  "operand_width op =
     (if op = OpPushImm8 then Some 1
      else if op = OpPushImm16 then Some 2
      else if op = OpPushImm32 then Some 4
      else if op = OpPushImm64 then Some 8
      else if op = OpPushSym then Some 2
      else if op = OpPushLocal then Some 2
      else if op = OpPushPC \<or> op \<in> set binary_ops \<or> op = OpNeg \<or> op = OpNot \<or> op \<in> set rel_ops
      then Some 0
      else None)"

section \<open>Writer\<close>

text \<open>Each method appends to the writer's buffer.\<close>

definition append_raw :: "bytes \<Rightarrow> bytes \<Rightarrow> bytes" where
  "append_raw buf b = buf @ b"

definition write_op :: "bytes \<Rightarrow> u8 \<Rightarrow> bytes" where
  "write_op buf op = buf @ [op]"

definition write_sym :: "bytes \<Rightarrow> u16 \<Rightarrow> bytes" where
  "write_sym buf n = buf @ [OpPushSym, ucast n, ucast (drop_bit 8 n)]"

definition write_local :: "bytes \<Rightarrow> u8 \<Rightarrow> u8 \<Rightarrow> bytes" where
  "write_local buf digit dir = buf @ [OpPushLocal, digit, dir]"

definition write_pc :: "bytes \<Rightarrow> bytes" where
  "write_pc buf = buf @ [OpPushPC]"

text \<open>The bytes \<^verbatim>\<open>byte(v), byte(v>>8), ...\<close> of a literal are its low bytes in order.\<close>

definition write_imm :: "bytes \<Rightarrow> i64 \<Rightarrow> bytes" where
  "write_imm buf v =
     (if - 128 \<le> sint v \<and> sint v \<le> 127 then buf @ OpPushImm8 # le_put 1 v
      else if - 32768 \<le> sint v \<and> sint v \<le> 32767 then buf @ OpPushImm16 # le_put 2 v
      else if - (2 ^ 31) \<le> sint v \<and> sint v \<le> 2 ^ 31 - 1 then buf @ OpPushImm32 # le_put 4 v
      else buf @ OpPushImm64 # le_put 8 v)"

section \<open>Reader\<close>

definition expr_next :: "bytes \<Rightarrow> (u8 \<times> bytes \<times> bytes) res" where
  "expr_next buf =
     (case buf of
        [] \<Rightarrow> Inl (Error ''expr: read past end'')
      | op # rest \<Rightarrow>
          (case operand_width op of
             None \<Rightarrow> Inl (Error ''expr: unknown opcode'')
           | Some width \<Rightarrow>
               if width > length rest then Inl (Error ''expr: truncated operand'')
               else Inr (op, take width rest, drop width rest)))"

lemma expr_next_shorter [termination_simp]:
  "expr_next buf = Inr (op, operand, rest) \<Longrightarrow> length rest < length buf"
  by (auto simp: expr_next_def split: list.splits option.splits if_splits)

text \<open>The value of a literal push: a signed byte, halfword, word or doubleword.\<close>

definition push_value :: "u8 \<Rightarrow> bytes \<Rightarrow> i64 option" where
  "push_value op operand =
     (if op = OpPushImm8 then Some (scast (le_get operand :: u8))
      else if op = OpPushImm16 then Some (scast (le_get operand :: u16))
      else if op = OpPushImm32 then Some (scast (le_get operand :: u32))
      else if op = OpPushImm64 then Some (le_get operand)
      else None)"

text \<open>
  \<^verbatim>\<open>applyBinary\<close> and \<^verbatim>\<open>applyBinaryEval\<close> are the same function; division by zero gives 0, and a
  shift count is the operand read as unsigned.
\<close>

definition apply_binary :: "u8 \<Rightarrow> i64 \<Rightarrow> i64 \<Rightarrow> i64" where
  "apply_binary op a b =
     (if op = OpAdd then a + b
      else if op = OpSub then a - b
      else if op = OpMul then a * b
      else if op = OpDiv then (if b = 0 then 0 else gdiv a b)
      else if op = OpAnd then a AND b
      else if op = OpOr then a OR b
      else if op = OpXor then a XOR b
      else if op = OpShl then push_bit (unat b) a
      else if op = OpShr then signed_drop_bit (unat b) a
      else 0)"

section \<open>Constant evaluation\<close>

function eval_const_loop :: "bytes \<Rightarrow> i64 list \<Rightarrow> i64 option" where
  "eval_const_loop buf stack =
     (if buf = [] then (case stack of [v] \<Rightarrow> Some v | _ \<Rightarrow> None)
      else case expr_next buf of
        Inl e \<Rightarrow> None
      | Inr (op, operand, rest) \<Rightarrow>
          (case push_value op operand of
             Some v \<Rightarrow> eval_const_loop rest (v # stack)
           | None \<Rightarrow>
               if op \<in> set [OpPushSym, OpPushLocal, OpPushPC] \<or> op \<in> set rel_ops then None
               else if op \<in> set binary_ops
               then (case stack of
                       b # a # st \<Rightarrow> eval_const_loop rest (apply_binary op a b # st)
                     | _ \<Rightarrow> None)
               else if op = OpNeg
               then (case stack of a # st \<Rightarrow> eval_const_loop rest (- a # st) | [] \<Rightarrow> None)
               else if op = OpNot
               then (case stack of a # st \<Rightarrow> eval_const_loop rest (NOT a # st) | [] \<Rightarrow> None)
               else None))"
  by pat_completeness auto
termination
  by (relation "measure (\<lambda>(buf, stack). length buf)") (auto dest: expr_next_shorter)

declare eval_const_loop.simps [simp del]

definition eval_const :: "bytes \<Rightarrow> i64 option" where
  "eval_const buf = eval_const_loop buf []"

section \<open>Context dependence\<close>

function expr_has_context_dep :: "bytes \<Rightarrow> bool" where
  "expr_has_context_dep buf =
     (if buf = [] then False
      else case expr_next buf of
        Inl e \<Rightarrow> True
      | Inr (op, operand, rest) \<Rightarrow>
          if op \<in> set [OpPushSym, OpPushLocal, OpPushPC] \<or> op \<in> set rel_ops then True
          else expr_has_context_dep rest)"
  by pat_completeness auto
termination
  by (relation "measure length") (auto dest: expr_next_shorter)

declare expr_has_context_dep.simps [simp del]

section \<open>Evaluation with symbols\<close>

text \<open>
  A resolver that is a nil function in the source is \<open>None\<close>.  A symbol resolver may itself panic:
  the assembler's indexes the name table.
\<close>

record eval_context =
  ctx_pc :: i64
  ctx_symbol :: "(u16 \<Rightarrow> i64 option res) option"
  ctx_local :: "(u8 \<Rightarrow> u8 \<Rightarrow> i64 option) option"

definition apply_rel :: "u8 \<Rightarrow> i64 \<Rightarrow> i64" where
  "apply_rel op a =
     (if op = OpRelLo12 then a AND 0xFFF
      else if op = OpRelHi12 then signed_drop_bit 12 a AND 0xFFF
      else if op = OpRelAbsG0 \<or> op = OpRelAbsG0NC then a AND 0xFFFF
      else if op = OpRelAbsG1 \<or> op = OpRelAbsG1NC then signed_drop_bit 16 a AND 0xFFFF
      else if op = OpRelAbsG2 \<or> op = OpRelAbsG2NC then signed_drop_bit 32 a AND 0xFFFF
      else signed_drop_bit 48 a AND 0xFFFF)"

definition apply_unary :: "u8 \<Rightarrow> i64 \<Rightarrow> i64" where
  "apply_unary op a = (if op = OpNeg then - a else if op = OpNot then NOT a else apply_rel op a)"

definition resolve_symbol :: "eval_context \<Rightarrow> u16 \<Rightarrow> i64 res" where
  "resolve_symbol ctx n =
     (case ctx_symbol ctx of
        None \<Rightarrow> Inl (Error ''eval: PUSH_SYM with no symbol resolver'')
      | Some f \<Rightarrow> sbind (f n) (\<lambda>v. case v of
                    None \<Rightarrow> Inl (Error ''eval: undefined symbol id'')
                  | Some v \<Rightarrow> Inr v))"

definition resolve_local :: "eval_context \<Rightarrow> u8 \<Rightarrow> u8 \<Rightarrow> i64 res" where
  "resolve_local ctx digit dir =
     (case ctx_local ctx of
        None \<Rightarrow> Inl (Error ''eval: PUSH_LOCAL with no local resolver'')
      | Some f \<Rightarrow> (case f digit dir of
                    None \<Rightarrow> Inl (Error ''eval: no local label'')
                  | Some v \<Rightarrow> Inr v))"

text \<open>
  One opcode of \<^verbatim>\<open>Eval\<close> on the stack.  The unary and relocation opcodes index the stack without
  a length check, so they panic on an empty one.
\<close>

definition eval_step :: "eval_context \<Rightarrow> u8 \<Rightarrow> bytes \<Rightarrow> i64 list \<Rightarrow> i64 list res" where
  "eval_step ctx op operand stack =
     (case push_value op operand of
        Some v \<Rightarrow> Inr (v # stack)
      | None \<Rightarrow>
          if op = OpPushSym
          then sbind (resolve_symbol ctx (le_get operand)) (\<lambda>v. Inr (v # stack))
          else if op = OpPushLocal
          then sbind (resolve_local ctx (operand ! 0) (operand ! 1)) (\<lambda>v. Inr (v # stack))
          else if op = OpPushPC then Inr (ctx_pc ctx # stack)
          else if op \<in> set binary_ops
          then (case stack of
                  b # a # st \<Rightarrow> Inr (apply_binary op a b # st)
                | _ \<Rightarrow> Inl (Error ''eval: stack underflow''))
          else if op = OpNeg \<or> op = OpNot \<or> op \<in> set rel_ops
          then (case stack of a # st \<Rightarrow> Inr (apply_unary op a # st) | [] \<Rightarrow> Inl Panic)
          else Inl (Error ''eval: unknown opcode''))"

function eval_loop :: "eval_context \<Rightarrow> bytes \<Rightarrow> i64 list \<Rightarrow> i64 res" where
  "eval_loop ctx buf stack =
     (if buf = [] then (case stack of [v] \<Rightarrow> Inr v | _ \<Rightarrow> Inl (Error ''eval: stack ended with values''))
      else case expr_next buf of
        Inl e \<Rightarrow> Inl e
      | Inr (op, operand, rest) \<Rightarrow>
          sbind (eval_step ctx op operand stack) (\<lambda>st. eval_loop ctx rest st))"
  by pat_completeness auto
termination
  by (relation "measure (\<lambda>(ctx, buf, stack). length buf)") (auto dest: expr_next_shorter)

declare eval_loop.simps [simp del]

definition eval :: "bytes \<Rightarrow> eval_context \<Rightarrow> i64 res" where
  "eval buf ctx = eval_loop ctx buf []"

end
