(* ===== verification/Tbn_Records.thy ===== *)
theory Tbn_Records
  imports Tbn_Operands Tbn_Expr
begin

text \<open>
  The record stream of \<^verbatim>\<open>tools/sam-aarch64-format\<close>: \<^verbatim>\<open>RecordWriter\<close> (\<^verbatim>\<open>writer.go\<close>),
  \<^verbatim>\<open>RecordReader.Next\<close> (\<^verbatim>\<open>reader.go\<close>) and the classification of instruction and data records
  (\<^verbatim>\<open>litinsts.go\<close>).
\<close>

section \<open>Records\<close>

record insn_patch =
  patch_slot :: u8
  patch_expr :: bytes

record insn_element =
  base_word :: u32
  patches :: "insn_patch list"

record tbn_record =
  r_kind :: u8
  symbol_id :: u16
  digit :: u8
  placement :: u8
  body :: bytes
  run_len :: u32
  r_mnemonic :: u16
  directive_id :: u8
  operand_count :: u8
  operands :: bytes
  lit_count :: u8
  lit_words :: bytes
  lit_data_dir :: u8
  lit_data :: bytes
  mode :: u8
  elements :: "insn_element list"
  raw :: bytes

definition record0 :: "u8 \<Rightarrow> bytes \<Rightarrow> tbn_record" where
  "record0 k payload = \<lparr>r_kind = k, symbol_id = 0, digit = 0, placement = 0, body = [], run_len = 0,
     r_mnemonic = 0, directive_id = 0, operand_count = 0, operands = [], lit_count = 0, lit_words = [],
     lit_data_dir = 0, lit_data = [], mode = 0, elements = [], raw = payload\<rparr>"

section \<open>Writer\<close>

definition write_header :: "bytes \<Rightarrow> u8 \<Rightarrow> nat \<Rightarrow> bytes" where
  "write_header buf kind payload_len = buf @ kind # put_u16 (of_nat payload_len)"

definition write_comment :: "bytes \<Rightarrow> u8 \<Rightarrow> bytes \<Rightarrow> bytes" where
  "write_comment buf p b = write_header buf KindComment (1 + length b) @ p # b"

definition write_lit_data :: "bytes \<Rightarrow> u8 \<Rightarrow> bytes \<Rightarrow> bytes" where
  "write_lit_data buf d raw_bytes = write_header buf KindLitData (1 + length raw_bytes) @ d # raw_bytes"

definition write_directive :: "bytes \<Rightarrow> u8 \<Rightarrow> u8 \<Rightarrow> bytes \<Rightarrow> bytes" where
  "write_directive buf d n ops = write_header buf KindDirective (1 + 1 + length ops) @ [d, n] @ ops"

abbreviation expr_len_escape :: u8 where "expr_len_escape \<equiv> 0x0F"

text \<open>
  A patch: a header byte \<^verbatim>\<open>[slot:4|expr_len:4]\<close>, an explicit length byte when the nibble is the
  escape, and the expression.
\<close>

definition put_patch :: "insn_patch \<Rightarrow> bytes res" where
  "put_patch p =
     (if patch_slot p = 0 \<or> patch_slot p > 15 then Inl Panic
      else if length (patch_expr p) > 255 then Inl Panic
      else if length (patch_expr p) < unat expr_len_escape
      then Inr ((push_bit 4 (patch_slot p) OR of_nat (length (patch_expr p))) # patch_expr p)
      else Inr ([push_bit 4 (patch_slot p) OR expr_len_escape, of_nat (length (patch_expr p))] @ patch_expr p))"

fun put_patches :: "insn_patch list \<Rightarrow> bytes res" where
  "put_patches [] = Inr []"
| "put_patches (p # ps) = sbind (put_patch p) (\<lambda>b. sbind (put_patches ps) (\<lambda>bs. Inr (b @ bs)))"

fun put_elements :: "u8 \<Rightarrow> insn_element list \<Rightarrow> bytes res" where
  "put_elements m [] = Inr []"
| "put_elements m (el # els) =
     sbind
       (if m = 0 then (if patches el \<noteq> [] then Inl Panic else Inr (put_u32 (base_word el)))
        else if length (patches el) > 255 then Inl Panic
        else sbind (put_patches (patches el))
          (\<lambda>ps. Inr (put_u32 (base_word el) @ of_nat (length (patches el)) # ps)))
       (\<lambda>b. sbind (put_elements m els) (\<lambda>bs. Inr (b @ bs)))"

definition write_insn_run :: "bytes \<Rightarrow> u8 \<Rightarrow> insn_element list \<Rightarrow> bytes res" where
  "write_insn_run buf m els =
     (if m \<noteq> 0 \<and> m \<noteq> 1 then Inl Panic
      else sbind (put_elements m els) (\<lambda>bs.
        let payload = m # bs in Inr (write_header buf KindInsnRun (length payload) @ payload)))"

section \<open>Reader\<close>

fun read_words :: "bytes \<Rightarrow> insn_element list" where
  "read_words (a # b # c # d # rest) = \<lparr>base_word = le_get [a, b, c, d], patches = []\<rparr> # read_words rest"
| "read_words _ = []"

definition read_patch :: "insn_patch reader" where
  "read_patch buf =
     (case buf of
        [] \<Rightarrow> Inl (Error ''INSN_RUN mode 1: truncated patch header'')
      | hdr # buf \<Rightarrow>
          let slot = drop_bit 4 hdr; len = hdr AND 0x0F;
              finish = (\<lambda>n buf. if n > length buf then Inl (Error ''INSN_RUN mode 1: truncated patch expr'')
                 else Inr (\<lparr>patch_slot = slot, patch_expr = take n buf\<rparr>, drop n buf))
          in if len = expr_len_escape
             then (case buf of
                     [] \<Rightarrow> Inl (Error ''INSN_RUN mode 1: truncated patch length'')
                   | l # buf \<Rightarrow> finish (unat l) buf)
             else finish (unat len) buf)"

definition read_element :: "insn_element reader" where
  "read_element buf =
     (if length buf < 5 then Inl (Error ''INSN_RUN mode 1: truncated element'')
      else sbind (read_n read_patch (unat (buf ! 4)) (drop 5 buf))
        (\<lambda>(ps, rest). Inr (\<lparr>base_word = le_get (take 4 buf), patches = ps\<rparr>, rest)))"

lemma read_patch_length: "read_patch buf = Inr (p, rest) \<Longrightarrow> length rest < length buf"
  by (auto simp: read_patch_def Let_def split: list.splits if_splits)

lemma read_n_length:
  "(\<And>buf b rest. get buf = Inr (b, rest) \<Longrightarrow> length rest \<le> length buf) \<Longrightarrow>
   read_n get n buf = Inr (bs, rest) \<Longrightarrow> length rest \<le> length buf"
  by (induction n arbitrary: buf bs rest) (fastforce elim!: sbindE intro: order_trans)+

lemma read_element_length:
  "read_element buf = Inr (el, rest) \<Longrightarrow> length rest < length buf"
  using read_n_length [of read_patch "unat (buf ! 4)" "drop 5 buf" _ rest] read_patch_length
  by (auto simp: read_element_def split: if_splits elim!: sbindE) fastforce

function read_elements :: "bytes \<Rightarrow> insn_element list res" where
  "read_elements buf =
     (if buf = [] then Inr []
      else case read_element buf of
        Inl e \<Rightarrow> Inl e
      | Inr (el, rest) \<Rightarrow> sbind (read_elements rest) (\<lambda>els. Inr (el # els)))"
  by pat_completeness auto
termination
  by (relation "measure length") (auto dest: read_element_length)

declare read_elements.simps [simp del]

definition read_insn_run :: "tbn_record \<Rightarrow> bytes \<Rightarrow> tbn_record res" where
  "read_insn_run rec payload =
     (case payload of
        [] \<Rightarrow> Inl (Error ''INSN_RUN: payload too short'')
      | m # bs \<Rightarrow>
          if m = 0
          then (if length bs mod 4 \<noteq> 0 then Inl (Error ''INSN_RUN mode 0: payload not a multiple of 4'')
                else Inr (rec\<lparr>mode := m, elements := read_words bs\<rparr>))
          else if m = 1
          then sbind (read_elements bs) (\<lambda>els. Inr (rec\<lparr>mode := m, elements := els\<rparr>))
          else Inl (Error ''INSN_RUN: unknown mode''))"

definition read_payload :: "u8 \<Rightarrow> bytes \<Rightarrow> tbn_record res" where
  "read_payload kind payload =
     (let rec = record0 kind payload in
      if kind = KindComment
      then (case payload of
              [] \<Rightarrow> Inl (Error ''COMMENT: payload too short'')
            | p # b \<Rightarrow> Inr (rec\<lparr>placement := p, body := b\<rparr>))
      else if kind = KindDirective
      then (case payload of
              d # n # ops \<Rightarrow> Inr (rec\<lparr>directive_id := d, operand_count := n, operands := ops\<rparr>)
            | _ \<Rightarrow> Inl (Error ''DIRECTIVE: payload too short''))
      else if kind = KindLitData
      then (case payload of
              [] \<Rightarrow> Inl (Error ''LIT_DATA: payload too short'')
            | d # bs \<Rightarrow> Inr (rec\<lparr>lit_data_dir := d, lit_data := bs\<rparr>))
      else if kind = KindInsnRun then read_insn_run rec payload
      else Inr rec)"

definition record_next :: "tbn_record reader" where
  "record_next buf =
     (if buf = [] then Inl (Error ''record: read past end'')
      else if length buf < 3 then Inl (Error ''record: truncated header'')
      else let kind = buf ! 0; len = unat (le_get (take 2 (drop 1 buf)) :: u16); rest = drop 3 buf
           in if len > length rest then Inl (Error ''record: truncated payload'')
              else sbind (read_payload kind (take len rest)) (\<lambda>rec. Inr (rec, drop len rest)))"

lemma record_next_length: "record_next buf = Inr (rec, rest) \<Longrightarrow> length rest < length buf"
  by (auto simp: record_next_def Let_def split: if_splits elim!: sbindE)

function read_records :: "bytes \<Rightarrow> tbn_record list res" where
  "read_records buf =
     (if buf = [] then Inr []
      else case record_next buf of
        Inl e \<Rightarrow> Inl e
      | Inr (rec, rest) \<Rightarrow> sbind (read_records rest) (\<lambda>recs. Inr (rec # recs)))"
  by pat_completeness auto
termination
  by (relation "measure length") (auto dest: record_next_length)

declare read_records.simps [simp del]

section \<open>Classification\<close>

text \<open>\<^verbatim>\<open>IsFullyLiteral\<close> over the operand stream; an operand that panics makes it panic.\<close>

definition operand_literal :: "operand \<Rightarrow> bool" where
  "operand_literal o' =
     (if o_kind o' = OpLitPool then False
      else if o_kind o' = OpImmExpr \<or> o_kind o' = OpMem then \<not> expr_has_context_dep (o_expr o')
      else if o_kind o' = OpShiftedReg \<or> o_kind o' = OpExtendedReg then \<not> expr_has_context_dep (o_amt_expr o')
      else o_kind o' \<in> set [OpRegX, OpRegW, OpRegXSP, OpRegWSP, OpString, OpSysName, OpCond])"

function literal_loop :: "bytes \<Rightarrow> bool res" where
  "literal_loop buf =
     (if buf = [] then Inr True
      else case operand_next buf of
        Inl Panic \<Rightarrow> Inl Panic
      | Inl (Error msg) \<Rightarrow> Inr False
      | Inr (o', rest) \<Rightarrow> if operand_literal o' then literal_loop rest else Inr False)"
  by pat_completeness auto
termination
  by (relation "measure length") (auto dest: operand_next_shorter)

declare literal_loop.simps [simp del]

definition is_fully_literal :: "tbn_record \<Rightarrow> bool res" where
  "is_fully_literal rec = (if r_kind rec \<noteq> KindInst then Inr False else literal_loop (operands rec))"

definition data_width :: "u8 \<Rightarrow> nat option" where
  "data_width d =
     (let name = directive_name d in
      if name = ''.byte'' then Some 1
      else if name = ''.short'' \<or> name = ''.hword'' then Some 2
      else if name = ''.word'' then Some 4
      else if name = ''.quad'' then Some 8
      else None)"

text \<open>The operand loop of \<^verbatim>\<open>ConstDataWidth\<close>: the number of constant operands, or \<open>None\<close>.\<close>

function const_operands :: "bytes \<Rightarrow> nat \<Rightarrow> nat option res" where
  "const_operands buf n =
     (if buf = [] then Inr (Some n)
      else case operand_next buf of
        Inl Panic \<Rightarrow> Inl Panic
      | Inl (Error msg) \<Rightarrow> Inr None
      | Inr (o', rest) \<Rightarrow>
          if o_kind o' \<noteq> OpImmExpr then Inr None
          else if eval_const (o_expr o') = None then Inr None
          else const_operands rest (n + 1))"
  by pat_completeness auto
termination
  by (relation "measure (\<lambda>(buf, n). length buf)") (auto dest: operand_next_shorter)

declare const_operands.simps [simp del]

definition const_data_width :: "tbn_record \<Rightarrow> nat option res" where
  "const_data_width rec =
     (if r_kind rec \<noteq> KindDirective then Inr None
      else case data_width (directive_id rec) of
        None \<Rightarrow> Inr None
      | Some width \<Rightarrow>
          sbind (const_operands (operands rec) 0) (\<lambda>n.
            case n of None \<Rightarrow> Inr None | Some k \<Rightarrow> if k = 0 then Inr None else Inr (Some width)))"

end
