(* ===== verification/Expr_Props.thy ===== *)
theory Expr_Props
  imports Tbn_Expr
begin

text \<open>
  Properties of the expression bytecode: the two evaluators agree exactly on the streams
  without a context-dependent opcode, the stack machine computes the value of the expression
  tree that was written, and a literal is written in its shortest form and read back.
\<close>

section \<open>One opcode at a time\<close>

lemma expr_next_op:
  "operand_width op = Some (length operand) \<Longrightarrow> expr_next (op # operand @ rest) = Inr (op, operand, rest)"
  by (simp add: expr_next_def)

lemma eval_loop_step:
  "operand_width op = Some (length operand) \<Longrightarrow>
   eval_loop ctx (op # operand @ rest) st = sbind (eval_step ctx op operand st) (eval_loop ctx rest)"
  by (subst eval_loop.simps) (simp add: expr_next_op)

lemmas op_tables = binary_ops_def rel_ops_def

lemma push_value_not_dep:
  "push_value op operand = Some v \<Longrightarrow> op \<notin> set [OpPushSym, OpPushLocal, OpPushPC] \<and> op \<notin> set rel_ops"
  by (auto simp: push_value_def op_tables split: if_splits)

section \<open>The two evaluators\<close>

lemma eval_const_no_dep:
  "eval_const_loop buf st = Some v \<Longrightarrow> \<not> expr_has_context_dep buf"
proof (induction buf st rule: eval_const_loop.induct)
  case (1 buf st)
  show ?case
  proof (cases "buf = [] \<or> fails (expr_next buf)")
    case True
    then show ?thesis using 1(5)
      by (auto simp: eval_const_loop.simps [of buf st] expr_has_context_dep.simps [of buf]
          split: sum.splits if_splits)
  next
    case False
    then obtain op operand rest where n: "expr_next buf = Inr (op, operand, rest)" and b: "buf \<noteq> []"
      by (cases "expr_next buf") auto
    note IH = 1(1-4) [OF b n refl refl]
    show ?thesis
      using 1(5) b n IH push_value_not_dep [of op operand]
      unfolding eval_const_loop.simps [of buf st] expr_has_context_dep.simps [of buf]
      by (auto split: option.splits list.splits if_splits)
  qed
qed

lemma binary_not_unary: "op \<in> set binary_ops \<Longrightarrow> op \<noteq> OpNeg \<and> op \<noteq> OpNot"
  by (auto simp: binary_ops_def)

text \<open>Without a context-dependent opcode a step of \<open>eval\<close> is a step of \<open>eval_const\<close>.\<close>

definition const_step :: "u8 \<Rightarrow> bytes \<Rightarrow> i64 list \<Rightarrow> i64 list option" where
  "const_step op operand st =
     (case push_value op operand of
        Some v \<Rightarrow> Some (v # st)
      | None \<Rightarrow>
          if op \<in> set binary_ops then (case st of b # a # r \<Rightarrow> Some (apply_binary op a b # r) | _ \<Rightarrow> None)
          else if op = OpNeg then (case st of a # r \<Rightarrow> Some (- a # r) | [] \<Rightarrow> None)
          else if op = OpNot then (case st of a # r \<Rightarrow> Some (NOT a # r) | [] \<Rightarrow> None)
          else None)"

lemma eval_step_const:
  assumes "op \<notin> set [OpPushSym, OpPushLocal, OpPushPC]" and "op \<notin> set rel_ops"
  shows "eval_step ctx op operand st = Inr st' \<longleftrightarrow> const_step op operand st = Some st'"
proof (cases "push_value op operand")
  case None
  have "op \<noteq> OpPushSym" "op \<noteq> OpPushLocal" "op \<noteq> OpPushPC" using assms(1) by auto
  then show ?thesis
    using None assms(2) binary_not_unary [of op]
    by (simp add: eval_step_def const_step_def apply_unary_def split: list.splits)
qed (simp add: eval_step_def const_step_def)

lemma eval_const_loop_step:
  assumes "buf \<noteq> []" and "expr_next buf = Inr (op, operand, rest)"
    and "op \<notin> set [OpPushSym, OpPushLocal, OpPushPC]" and "op \<notin> set rel_ops"
  shows "eval_const_loop buf st =
    (case const_step op operand st of None \<Rightarrow> None | Some st' \<Rightarrow> eval_const_loop rest st')"
  unfolding eval_const_loop.simps [of buf st]
  using assms by (simp add: const_step_def split: option.splits list.splits)

lemma eval_loop_const:
  "\<not> expr_has_context_dep buf \<Longrightarrow> eval_loop ctx buf st = Inr v \<longleftrightarrow> eval_const_loop buf st = Some v"
proof (induction ctx buf st rule: eval_loop.induct)
  case (1 ctx buf st)
  show ?case
  proof (cases "buf = [] \<or> fails (expr_next buf)")
    case True
    then show ?thesis
      by (auto simp: eval_const_loop.simps [of buf st] eval_loop.simps [of ctx buf st]
          split: sum.splits list.splits if_splits)
  next
    case False
    then obtain op operand rest where n: "expr_next buf = Inr (op, operand, rest)" and b: "buf \<noteq> []"
      by (cases "expr_next buf") auto
    have d: "\<not> expr_has_context_dep rest" "op \<notin> set [OpPushSym, OpPushLocal, OpPushPC]" "op \<notin> set rel_ops"
      using 1(2) b n by (auto simp: expr_has_context_dep.simps [of buf] split: if_splits)
    have "eval_loop ctx buf st = Inr v \<longleftrightarrow> (\<exists>st'. eval_step ctx op operand st = Inr st' \<and> eval_loop ctx rest st' = Inr v)"
      using b n by (simp add: eval_loop.simps [of ctx buf st] sbind_Inr_iff)
    also have "\<dots> \<longleftrightarrow> (\<exists>st'. eval_step ctx op operand st = Inr st' \<and> eval_const_loop rest st' = Some v)"
      using 1(1) [OF b n refl refl _ d(1)] by blast
    finally show ?thesis
      unfolding eval_step_const [OF d(2,3)] eval_const_loop_step [OF b n d(2,3)]
      by (auto split: option.splits)
  qed
qed

lemma eval_loop_no_dep:
  "\<not> expr_has_context_dep buf \<Longrightarrow> eval_loop ctx buf st = eval_loop ctx' buf st"
proof (induction ctx buf st rule: eval_loop.induct)
  case (1 ctx buf st)
  show ?case
  proof (cases "buf = [] \<or> fails (expr_next buf)")
    case True
    then show ?thesis
      by (auto simp: eval_loop.simps [of _ buf st] split: sum.splits)
  next
    case False
    then obtain op operand rest where n: "expr_next buf = Inr (op, operand, rest)" and b: "buf \<noteq> []"
      by (cases "expr_next buf") auto
    have d: "\<not> expr_has_context_dep rest" "op \<notin> set [OpPushSym, OpPushLocal, OpPushPC]"
      using 1(2) b n by (auto simp: expr_has_context_dep.simps [of buf] split: if_splits)
    have s: "eval_step ctx op operand st = eval_step ctx' op operand st"
      using d(2) by (simp add: eval_step_def)
    show ?thesis
      using b n s 1(1) [OF b n refl refl _ d(1)]
      by (cases "eval_step ctx' op operand st") (simp_all add: eval_loop.simps [of _ buf st])
  qed
qed

text \<open>
  \<^verbatim>\<open>EvalConst\<close> succeeds with a value exactly when the stream has no context-dependent opcode
  and \<^verbatim>\<open>Eval\<close> returns that value, in whatever context.
\<close>

theorem eval_const_iff_eval:
  "eval_const buf = Some v \<longleftrightarrow> \<not> expr_has_context_dep buf \<and> eval buf ctx = Inr v"
  using eval_const_no_dep [of buf "[]" v] eval_loop_const [of buf ctx "[]" v]
  by (auto simp: eval_const_def eval_def)

text \<open>
  A stream that \<^verbatim>\<open>exprHasContextDep\<close> passes evaluates, errors and panics included, the same
  in every context: such an instruction can be stored assembled.
\<close>

theorem eval_context_free:
  assumes "\<not> expr_has_context_dep buf"
  shows "eval buf ctx = eval buf ctx'"
  unfolding eval_def by (rule eval_loop_no_dep [OF assms])

definition ctx0 :: eval_context where
  "ctx0 = \<lparr>ctx_pc = 0x1000, ctx_symbol = None, ctx_local = None\<rparr>"

lemma eval_context_free_witness: "eval [1, 5, 1, 3, 0x12] ctx0 = eval [1, 5, 1, 3, 0x12] (ctx0\<lparr>ctx_pc := 7\<rparr>)"
  by (rule eval_context_free)
    (simp add: expr_has_context_dep.simps expr_next_def operand_width_def op_tables)

section \<open>Expression trees\<close>

text \<open>
  The expressions the bytecode spells in postfix, their value, and their encoding with the
  writer's methods.
\<close>

datatype expr =
    Lit i64 | Sym u16 | LocalRef u8 u8 | Here
  | Binop u8 expr expr | Unop u8 expr

fun expr_ok :: "expr \<Rightarrow> bool" where
  "expr_ok (Binop op a b) \<longleftrightarrow> op \<in> set binary_ops \<and> expr_ok a \<and> expr_ok b"
| "expr_ok (Unop op a) \<longleftrightarrow> op \<in> set [OpNeg, OpNot] \<union> set rel_ops \<and> expr_ok a"
| "expr_ok e \<longleftrightarrow> True"

fun expr_value :: "eval_context \<Rightarrow> expr \<Rightarrow> i64 res" where
  "expr_value ctx (Lit v) = Inr v"
| "expr_value ctx (Sym n) = resolve_symbol ctx n"
| "expr_value ctx (LocalRef digit dir) = resolve_local ctx digit dir"
| "expr_value ctx Here = Inr (ctx_pc ctx)"
| "expr_value ctx (Binop op a b) =
     sbind (expr_value ctx a) (\<lambda>x. sbind (expr_value ctx b) (\<lambda>y. Inr (apply_binary op x y)))"
| "expr_value ctx (Unop op a) = sbind (expr_value ctx a) (\<lambda>x. Inr (apply_unary op x))"

fun write_expr :: "bytes \<Rightarrow> expr \<Rightarrow> bytes" where
  "write_expr buf (Lit v) = write_imm buf v"
| "write_expr buf (Sym n) = write_sym buf n"
| "write_expr buf (LocalRef digit dir) = write_local buf digit dir"
| "write_expr buf Here = write_pc buf"
| "write_expr buf (Binop op a b) = write_op (write_expr (write_expr buf a) b) op"
| "write_expr buf (Unop op a) = write_op (write_expr buf a) op"

lemma write_expr_append: "write_expr buf e = buf @ write_expr [] e"
proof (induction e arbitrary: buf)
  case (Binop op a b)
  then show ?case
    by (metis (no_types, opaque_lifting) append.assoc append_Nil write_expr.simps(5) write_op_def)
next
  case (Unop op a)
  then show ?case by (metis append.assoc append_Nil write_expr.simps(6) write_op_def)
qed (simp_all add: write_imm_def write_sym_def write_local_def write_pc_def)

lemma sign_extend_bytes:
  assumes "- (2 ^ (8 * n - 1)) \<le> sint (v :: i64)" "sint v < 2 ^ (8 * n - 1)" "LENGTH('a) = 8 * n" "0 < n"
  shows "scast (le_get (le_put n v) :: 'a::len word) = v"
proof (rule bit_word_eqI)
  fix i
  assume i: "i < LENGTH(64)"
  have "bit v i = bit v (8 * n - 1)" if "8 * n - 1 \<le> i" "8 * n - 1 < 64"
    using bit_i64_sign [OF assms(1,2), of i] bit_i64_sign [OF assms(1,2), of "8 * n - 1"] that i by simp
  then show "bit (scast (le_get (le_put n v) :: 'a word) :: i64) i = bit v i"
    using i assms(3,4) by (auto simp: bit_signed_iff bit_le_get_put min_def)
qed

text \<open>The four forms of a literal.\<close>

lemma write_imm_form:
  obtains op n where "write_imm buf v = buf @ op # le_put n v" and "operand_width op = Some n"
    and "push_value op (le_put n v) = Some v"
    and "(op, n) \<in> {(OpPushImm8, 1), (OpPushImm16, 2), (OpPushImm32, 4), (OpPushImm64, 8)}"
    and "n > 1 \<Longrightarrow> \<not> (- (2 ^ (8 * (n div 2) - 1)) \<le> sint v \<and> sint v < 2 ^ (8 * (n div 2) - 1))"
proof (cases "- 128 \<le> sint v \<and> sint v \<le> 127")
  case True
  then show ?thesis
    using that [of OpPushImm8 1] sign_extend_bytes [of 1 v, where 'a = 8]
    by (simp add: write_imm_def operand_width_def push_value_def)
next
  case n1: False
  show ?thesis
  proof (cases "- 32768 \<le> sint v \<and> sint v \<le> 32767")
    case True
    then show ?thesis
      using that [of OpPushImm16 2] n1 sign_extend_bytes [of 2 v, where 'a = 16]
      by (auto simp: write_imm_def operand_width_def push_value_def)
  next
    case n2: False
    show ?thesis
    proof (cases "- (2 ^ 31) \<le> sint v \<and> sint v \<le> 2 ^ 31 - 1")
      case True
      then show ?thesis
        using that [of OpPushImm32 4] n1 n2 sign_extend_bytes [of 4 v, where 'a = 32]
        by (auto simp: write_imm_def operand_width_def push_value_def)
    next
      case False
      then show ?thesis
        using that [of OpPushImm64 8] n1 n2
        by (auto simp: write_imm_def operand_width_def push_value_def)
    qed
  qed
qed

lemma eval_loop_imm: "eval_loop ctx (write_imm [] v @ rest) st = eval_loop ctx rest (v # st)"
proof (rule write_imm_form [of "[]" v])
  fix op n
  assume w: "write_imm [] v = [] @ op # le_put n v" and o: "operand_width op = Some n"
    and p: "push_value op (le_put n v) = Some v"
  have "operand_width op = Some (length (le_put n v))" using o by simp
  from eval_loop_step [OF this] show ?thesis unfolding w by (simp add: eval_step_def p)
qed

lemma eval_loop_op:
  assumes "op \<in> set binary_ops \<or> op \<in> set [OpNeg, OpNot] \<union> set rel_ops"
  shows "eval_loop ctx (op # rest) st = sbind (eval_step ctx op [] st) (eval_loop ctx rest)"
  using assms eval_loop_step [of op "[]" ctx rest st] by (auto simp: operand_width_def op_tables)

lemma not_push: "op \<in> set binary_ops \<or> op \<in> set [OpNeg, OpNot] \<union> set rel_ops \<Longrightarrow>
    push_value op x = None \<and> op \<noteq> OpPushSym \<and> op \<noteq> OpPushLocal \<and> op \<noteq> OpPushPC"
  by (auto simp: push_value_def op_tables)

lemma unary_not_binary: "op \<in> set [OpNeg, OpNot] \<union> set rel_ops \<Longrightarrow> op \<notin> set binary_ops"
  by (auto simp: op_tables)

lemma eval_loop_expr:
  "expr_ok e \<Longrightarrow> eval_loop ctx (write_expr [] e @ rest) st = sbind (expr_value ctx e) (\<lambda>v. eval_loop ctx rest (v # st))"
proof (induction e arbitrary: rest st)
  case (Sym n)
  have "[ucast n, ucast (drop_bit 8 n)] = le_put 2 n" by (simp add: numeral_2_eq_2)
  moreover have "operand_width OpPushSym = Some (length (le_put 2 n))" by (simp add: operand_width_def)
  ultimately show ?case
    using eval_loop_step [of OpPushSym "le_put 2 n" ctx rest st]
    by (cases "resolve_symbol ctx n") (simp_all add: write_sym_def eval_step_def push_value_def)
next
  case (LocalRef digit dir)
  then show ?case
    using eval_loop_step [of OpPushLocal "[digit, dir]" ctx rest st]
    by (cases "resolve_local ctx digit dir") (simp_all add: write_local_def operand_width_def eval_step_def push_value_def)
next
  case Here
  then show ?case
    using eval_loop_step [of OpPushPC "[]" ctx rest st]
    by (simp add: write_pc_def operand_width_def eval_step_def push_value_def)
next
  case (Binop op a b)
  then have op: "op \<in> set binary_ops" by simp
  have w: "write_expr [] (Binop op a b) @ rest = write_expr [] a @ (write_expr [] b @ op # rest)"
    using write_expr_append [of "write_expr [] a" b] by (simp add: write_op_def)
  show ?case
    unfolding w using Binop op not_push [of op "[]"]
    by (cases "expr_value ctx a"; cases "expr_value ctx b") (simp_all add: eval_loop_op eval_step_def)
next
  case (Unop op a)
  then have op: "op \<in> set [OpNeg, OpNot] \<union> set rel_ops" by simp
  show ?case
    using Unop not_push [of op "[]"] unary_not_binary [OF op] eval_loop_op [of op ctx rest] op
    by (cases "expr_value ctx a") (auto simp: write_op_def eval_step_def)
qed (simp add: eval_loop_imm)

text \<open>
  The stack machine is correct for expression trees: evaluating the bytecode of an
  expression gives its value, or the error of its first unresolvable leaf; it never underflows
  the stack, panics, or leaves values behind.
\<close>

theorem eval_write_expr:
  assumes "expr_ok e"
  shows "eval (write_expr [] e) ctx = expr_value ctx e"
  using eval_loop_expr [OF assms, of ctx "[]" "[]"]
  by (cases "expr_value ctx e") (simp_all add: eval_def eval_loop.simps [of _ "[]"])

lemma eval_write_expr_witness:
  "eval (write_expr [] (Unop OpRelLo12 (Binop OpAdd Here (Lit 0x234)))) ctx0 = Inr 0x234"
  by (subst eval_write_expr) (simp_all add: op_tables ctx0_def apply_binary_def apply_unary_def apply_rel_def)

text \<open>
  \<^verbatim>\<open>WriteImm\<close> writes one opcode and 1, 2, 4 or 8 operand bytes, the shortest of these that
  holds the value as a signed integer, and \<^verbatim>\<open>EvalConst\<close> reads the value back.
\<close>

theorem write_imm_shortest:
  "eval_const (write_imm [] v) = Some v
   \<and> (\<exists>op n. write_imm [] v = op # le_put n v \<and> n \<in> {1, 2, 4, 8} \<and>
        (n = 1 \<or> \<not> (- (2 ^ (8 * (n div 2) - 1)) \<le> sint v \<and> sint v < 2 ^ (8 * (n div 2) - 1))))"
proof
  have "eval (write_imm [] v) ctx0 = Inr v"
    using eval_loop_imm [of ctx0 v "[]" "[]"] by (simp add: eval_def eval_loop.simps [of _ "[]"])
  moreover have "\<not> expr_has_context_dep (write_imm [] v)"
  proof (rule write_imm_form [of "[]" v])
    fix op n
    assume w: "write_imm [] v = [] @ op # le_put n v" and o: "operand_width op = Some n"
      and "(op, n) \<in> {(OpPushImm8, 1), (OpPushImm16, 2), (OpPushImm32, 4), (OpPushImm64, 8)}"
    then show ?thesis
      using expr_next_op [of op "le_put n v" "[]"]
      by (auto simp: expr_has_context_dep.simps op_tables)
  qed
  ultimately show "eval_const (write_imm [] v) = Some v"
    using eval_loop_const [of "write_imm [] v" ctx0 "[]" v] by (simp add: eval_const_def eval_def)
  show "\<exists>op n. write_imm [] v = op # le_put n v \<and> n \<in> {1, 2, 4, 8} \<and>
        (n = 1 \<or> \<not> (- (2 ^ (8 * (n div 2) - 1)) \<le> sint v \<and> sint v < 2 ^ (8 * (n div 2) - 1)))"
    by (rule write_imm_form [of "[]" v]) (rule exI, rule exI, auto)
qed

lemma write_imm_shortest_witness: "eval_const (write_imm [] (- 129)) = Some (- 129)"
  using write_imm_shortest [of "- 129"] by (rule conjunct1)

lemma eval_unary_empty_stack_parts:
  assumes "op \<in> set [OpNeg, OpNot] \<union> set rel_ops"
  shows "eval (op # rest) ctx = Inl Panic" and "eval_const (op # rest) = None"
proof -
  show p: "eval (op # rest) ctx = Inl Panic" for ctx
    using eval_loop_op [of op ctx rest "[]"] assms not_push [OF disjI2 [OF assms], of "[]"]
      unary_not_binary [OF assms]
    by (auto simp: eval_def eval_step_def)
  show "eval_const (op # rest) = None"
    using eval_const_no_dep [of "op # rest" "[]"] eval_loop_const [of "op # rest" ctx "[]"] p [of ctx]
    by (cases "eval_const (op # rest)") (auto simp: eval_const_def eval_def)
qed

text \<open>
  The evaluators differ on an empty stack: a unary or relocation opcode makes \<^verbatim>\<open>Eval\<close>
  panic, where \<^verbatim>\<open>EvalConst\<close> reports that the stream is not constant.
\<close>

theorem eval_unary_empty_stack:
  assumes "op \<in> set [OpNeg, OpNot] \<union> set rel_ops"
  shows "eval (op # rest) ctx = Inl Panic \<and> eval_const (op # rest) = None"
  using eval_unary_empty_stack_parts [OF assms] by blast

lemma eval_unary_empty_stack_witness: "eval [OpNeg] ctx0 = Inl Panic \<and> eval_const [OpRelLo12] = None"
  using eval_unary_empty_stack [of OpNeg "[]" ctx0] eval_unary_empty_stack [of OpRelLo12 "[]" ctx0]
  by (simp add: op_tables)

end
