(* ===== verification/Record_Props.thy ===== *)
theory Record_Props
  imports Tbn_Records Expr_Props
begin

text \<open>
  Properties of the record stream: instruction runs, whole streams of records, and the
  classification of literal instructions and constant data.
\<close>

section \<open>Patches and elements\<close>

definition patch_ok :: "insn_patch \<Rightarrow> bool" where
  "patch_ok p \<longleftrightarrow> patch_slot p \<noteq> 0 \<and> patch_slot p \<le> 15 \<and> length (patch_expr p) \<le> 255"

definition element_ok :: "u8 \<Rightarrow> insn_element \<Rightarrow> bool" where
  "element_ok m el \<longleftrightarrow>
     (if m = 0 then patches el = [] else length (patches el) \<le> 255 \<and> list_all patch_ok (patches el))"

definition patch_bytes :: "insn_patch \<Rightarrow> bytes" where
  "patch_bytes p = (case put_patch p of Inl _ \<Rightarrow> [] | Inr b \<Rightarrow> b)"

text \<open>The two nibbles of a patch header.\<close>

lemma patch_header:
  assumes "s \<le> (15 :: u8)" and "n \<le> 15"
  shows "drop_bit 4 (push_bit 4 s OR n) = s" and "(push_bit 4 s OR n) AND 0x0F = n"
proof -
  have b: "j < 4" if "bit s j" for j
    using that assms(1) bit_less_exp [of s 4 j] by (simp add: word_le_nat_alt word_less_nat_alt)
  have c: "j < 4" if "bit n j" for j
    using that assms(2) bit_less_exp [of n 4 j] by (simp add: word_le_nat_alt word_less_nat_alt)
  have m: "(0x0F :: u8) = mask 4" by (simp add: mask_numeral)
  show "drop_bit 4 (push_bit 4 s OR n) = s"
    by (rule bit_word_eqI) (auto simp: bit_simps dest: b c)
  show "(push_bit 4 s OR n) AND 0x0F = n"
    unfolding m by (rule bit_word_eqI) (auto simp: bit_simps dest: b c)
qed

lemma small_length: "n \<le> 255 \<Longrightarrow> unat (of_nat n :: u8) = n"
  by (simp add: unat_of_nat)

lemma put_patch_ok: "put_patch p = Inr b \<longleftrightarrow> patch_ok p \<and> b = patch_bytes p"
  by (auto simp: put_patch_def patch_ok_def patch_bytes_def not_less)

lemma read_patch_put: "patch_ok p \<Longrightarrow> read_patch (patch_bytes p @ rest) = Inr (p, rest)"
proof -
  assume p: "patch_ok p"
  then have s: "patch_slot p \<le> 15" "patch_slot p \<noteq> 0" "\<not> patch_slot p > 15" and l: "length (patch_expr p) \<le> 255"
    by (auto simp: patch_ok_def)
  show ?thesis
  proof (cases "length (patch_expr p) < 15")
    case True
    let ?n = "of_nat (length (patch_expr p)) :: u8"
    have n: "unat ?n = length (patch_expr p)" using small_length [OF l] .
    have "?n \<le> 15" using True n by (simp add: word_le_nat_alt)
    note h = patch_header [OF s(1) this]
    have "?n \<noteq> 0x0F" using True n by auto
    with True s l n h show ?thesis by (simp add: patch_bytes_def put_patch_def read_patch_def Let_def)
  next
    case False
    note h = patch_header [OF s(1), of "0x0F"]
    show ?thesis
      using False s l h small_length [OF l] by (simp add: patch_bytes_def put_patch_def read_patch_def Let_def)
  qed
qed

interpretation patch: codec patch_bytes read_patch id patch_ok
  by unfold_locales (simp add: read_patch_put)

lemma put_patches_ok: "put_patches ps = Inr b \<longleftrightarrow> list_all patch_ok ps \<and> b = concat (map patch_bytes ps)"
  by (induction ps arbitrary: b) (auto simp: sbind_Inr_iff put_patch_ok)

definition element_bytes :: "u8 \<Rightarrow> insn_element \<Rightarrow> bytes" where
  "element_bytes m el = put_u32 (base_word el) @
     (if m = 0 then [] else of_nat (length (patches el)) # concat (map patch_bytes (patches el)))"

lemma put_elements_ok:
  "put_elements m els = Inr b \<longleftrightarrow> list_all (element_ok m) els \<and> b = concat (map (element_bytes m) els)"
proof (induction els arbitrary: b)
  case (Cons el els)
  then show ?case
    by (cases "m = 0")
      (auto simp: sbind_Inr_iff put_patches_ok element_ok_def element_bytes_def not_less split: if_splits)
qed auto

lemma read_element_put: "element_ok 1 el \<Longrightarrow> read_element (element_bytes 1 el @ rest) = Inr (el, rest)"
proof -
  assume el: "element_ok 1 el"
  then have l: "length (patches el) \<le> 255" and ps: "list_all patch_ok (patches el)"
    by (auto simp: element_ok_def)
  have n: "unat (of_nat (length (patches el)) :: u8) = length (patches el)" by (rule small_length [OF l])
  show ?thesis
    using patch.read_n_put [OF ps, of rest] n
    by (simp add: read_element_def element_bytes_def nth_append)
qed

interpretation element: stream_codec "element_bytes 1" read_element id "element_ok 1" read_elements
proof unfold_locales
  show "element_bytes 1 el \<noteq> []" for el by (simp add: element_bytes_def)
qed (simp_all add: read_element_put read_elements.simps)

lemma read_words_put:
  "list_all (element_ok 0) els \<Longrightarrow> read_words (concat (map (element_bytes 0) els)) = els
    \<and> length (concat (map (element_bytes 0) els)) mod 4 = 0"
proof (induction els)
  case (Cons el els)
  obtain a b c d where w: "put_u32 (base_word el) = [a, b, c, d]" by (simp add: numeral_eq_Suc)
  have "le_get [a, b, c, d] = base_word el" unfolding w [symmetric] by simp
  with Cons w show ?case by (simp add: element_bytes_def element_ok_def)
qed simp

section \<open>Instruction runs\<close>

lemma put_patch_panic: "put_patch p = Inl e \<Longrightarrow> e = Panic"
  by (auto simp: put_patch_def split: if_splits)

lemma put_patches_panic: "put_patches ps = Inl e \<Longrightarrow> e = Panic"
proof (induction ps)
  case (Cons p ps)
  then show ?case by (cases "put_patch p"; cases "put_patches ps") (auto dest: put_patch_panic)
qed simp

lemma put_elements_panic: "put_elements m els = Inl e \<Longrightarrow> e = Panic"
  by (induction els)
    (auto elim!: sbind_Inl_cases dest: put_patches_panic split: if_split_asm)

definition run_payload :: "u8 \<Rightarrow> insn_element list \<Rightarrow> bytes" where
  "run_payload m els = m # concat (map (element_bytes m) els)"

lemma write_insn_run_eq:
  "write_insn_run buf m els =
     (if (m = 0 \<or> m = 1) \<and> list_all (element_ok m) els
      then Inr (write_header buf KindInsnRun (length (run_payload m els)) @ run_payload m els)
      else Inl Panic)"
proof (cases "m = 0 \<or> m = 1")
  case True
  show ?thesis
  proof (cases "put_elements m els")
    case (Inl e)
    then have "\<not> list_all (element_ok m) els" using put_elements_ok [of m els] by auto
    with Inl True put_elements_panic [OF Inl] show ?thesis by (simp add: write_insn_run_def)
  next
    case (Inr b)
    then have "list_all (element_ok m) els" "b = concat (map (element_bytes m) els)"
      using put_elements_ok [of m els b] by auto
    with Inr True show ?thesis by (auto simp: write_insn_run_def run_payload_def Let_def)
  qed
qed (simp add: write_insn_run_def)

text \<open>
  \<^verbatim>\<open>WriteInsnRun\<close> panics exactly on the compaction bugs it documents: an unknown mode, a
  mode-0 element with patches, or a mode-1 element with more than 255 patches or with a patch
  whose slot is 0 or above 15 or whose expression is longer than 255 bytes.
\<close>

theorem write_insn_run_panics_iff:
  "write_insn_run buf m els = Inl e \<longleftrightarrow>
     e = Panic \<and> \<not> (m = 0 \<and> list_all (\<lambda>el. patches el = []) els)
     \<and> \<not> (m = 1 \<and> list_all (\<lambda>el. length (patches el) \<le> 255 \<and>
            list_all (\<lambda>p. patch_slot p \<noteq> 0 \<and> patch_slot p \<le> 15 \<and> length (patch_expr p) \<le> 255) (patches el)) els)"
  by (auto simp: write_insn_run_eq element_ok_def [abs_def] patch_ok_def [abs_def])

section \<open>Record streams\<close>

datatype written_record =
    WComment u8 bytes
  | WLitData u8 bytes
  | WDirective u8 u8 bytes
  | WInsnRun u8 "insn_element list"

fun write_record :: "bytes \<Rightarrow> written_record \<Rightarrow> bytes res" where
  "write_record buf (WComment p b) = Inr (write_comment buf p b)"
| "write_record buf (WLitData d b) = Inr (write_lit_data buf d b)"
| "write_record buf (WDirective d n ops) = Inr (write_directive buf d n ops)"
| "write_record buf (WInsnRun m els) = write_insn_run buf m els"

fun write_records :: "bytes \<Rightarrow> written_record list \<Rightarrow> bytes res" where
  "write_records buf [] = Inr buf"
| "write_records buf (w # ws) = sbind (write_record buf w) (\<lambda>buf'. write_records buf' ws)"

fun payload_of :: "written_record \<Rightarrow> bytes" where
  "payload_of (WComment p b) = p # b"
| "payload_of (WLitData d b) = d # b"
| "payload_of (WDirective d n ops) = d # n # ops"
| "payload_of (WInsnRun m els) = run_payload m els"

fun kind_of :: "written_record \<Rightarrow> u8" where
  "kind_of (WComment p b) = KindComment"
| "kind_of (WLitData d b) = KindLitData"
| "kind_of (WDirective d n ops) = KindDirective"
| "kind_of (WInsnRun m els) = KindInsnRun"

text \<open>What the reader returns for a written record; \<open>raw\<close> is the payload.\<close>

fun record_of :: "written_record \<Rightarrow> tbn_record" where
  "record_of (WComment p b) = (record0 KindComment (p # b))\<lparr>placement := p, body := b\<rparr>"
| "record_of (WLitData d b) = (record0 KindLitData (d # b))\<lparr>lit_data_dir := d, lit_data := b\<rparr>"
| "record_of (WDirective d n ops) =
     (record0 KindDirective (d # n # ops))\<lparr>directive_id := d, operand_count := n, operands := ops\<rparr>"
| "record_of (WInsnRun m els) = (record0 KindInsnRun (run_payload m els))\<lparr>mode := m, elements := els\<rparr>"

definition record_bytes :: "written_record \<Rightarrow> bytes" where
  "record_bytes w = write_header [] (kind_of w) (length (payload_of w)) @ payload_of w"

fun run_ok :: "written_record \<Rightarrow> bool" where
  "run_ok (WInsnRun m els) \<longleftrightarrow> (m = 0 \<or> m = 1) \<and> list_all (element_ok m) els"
| "run_ok _ \<longleftrightarrow> True"

definition record_ok :: "written_record \<Rightarrow> bool" where
  "record_ok w \<longleftrightarrow> run_ok w \<and> length (payload_of w) < 65536"

lemma write_record_run_ok: "write_record buf w = Inr b \<Longrightarrow> run_ok w"
  by (cases w) (auto simp: write_insn_run_eq split: if_splits)

lemma write_records_run_ok: "write_records buf ws = Inr b \<Longrightarrow> list_all run_ok ws"
  by (induction ws arbitrary: buf) (auto elim!: sbindE dest: write_record_run_ok)

lemma write_record_eq: "run_ok w \<Longrightarrow> write_record buf w = Inr (buf @ record_bytes w)"
  by (cases w) (simp_all add: write_comment_def write_lit_data_def write_directive_def write_insn_run_eq
      write_header_def record_bytes_def)

lemma write_records_eq:
  "list_all run_ok ws \<Longrightarrow> write_records buf ws = Inr (buf @ concat (map record_bytes ws))"
  by (induction ws arbitrary: buf) (simp_all add: write_record_eq)

lemma read_payload_of: "run_ok w \<Longrightarrow> read_payload (kind_of w) (payload_of w) = Inr (record_of w)"
proof (cases w)
  case (WInsnRun m els)
  assume "run_ok w"
  with WInsnRun show ?thesis
    using read_words_put [of els] element.get_all_put [of els]
    by (auto simp: read_payload_def read_insn_run_def run_payload_def record0_def)
qed (simp_all add: read_payload_def record0_def)

lemma record_next_put: "record_ok w \<Longrightarrow> record_next (record_bytes w @ rest) = Inr (record_of w, rest)"
proof -
  assume w: "record_ok w"
  then have "unat (of_nat (length (payload_of w)) :: u16) = length (payload_of w)"
    by (simp add: record_ok_def unat_of_nat)
  with w show ?thesis
    by (simp add: record_next_def record_bytes_def write_header_def read_payload_of record_ok_def)
qed

interpretation records: stream_codec record_bytes record_next record_of record_ok read_records
proof unfold_locales
  show "record_bytes w \<noteq> []" for w by (simp add: record_bytes_def write_header_def)
qed (simp_all add: record_next_put read_records.simps)

lemma written_records_bytes:
  assumes "write_records [] ws = Inr buf" and "list_all (\<lambda>w. length (payload_of w) < 65536) ws"
  shows "list_all record_ok ws" and "buf = concat (map record_bytes ws)"
  using write_records_run_ok [OF assms(1)] assms write_records_eq [of ws "[]"]
  by (auto simp: record_ok_def list_all_iff)

text \<open>
  Whatever sequence of comment, data, directive and instruction-run records a writer
  accepts, each with a payload below 64 KiB, the reader returns it record by record with all
  fields, patches included.
\<close>

theorem read_written_records:
  assumes "write_records [] ws = Inr buf" and "list_all (\<lambda>w. length (payload_of w) < 65536) ws"
  shows "read_records buf = Inr (map record_of ws)"
  using records.get_all_put [OF written_records_bytes(1) [OF assms]] written_records_bytes(2) [OF assms] by simp

lemma read_written_records_witness:
  "read_records (record_bytes (WComment 1 [0x68, 0x69]) @
     record_bytes (WInsnRun 1 [\<lparr>base_word = 0x14000000, patches = [\<lparr>patch_slot = 1, patch_expr = [5, 1, 0]\<rparr>]\<rparr>]))
   = Inr (map record_of [WComment 1 [0x68, 0x69],
       WInsnRun 1 [\<lparr>base_word = 0x14000000, patches = [\<lparr>patch_slot = 1, patch_expr = [5, 1, 0]\<rparr>]\<rparr>]])"
  by (rule read_written_records)
    (simp_all add: write_comment_def write_insn_run_eq element_ok_def patch_ok_def write_header_def
      record_bytes_def run_payload_def element_bytes_def patch_bytes_def put_patch_def)

section \<open>Literal instructions and constant data\<close>

lemma read_operands_step:
  "buf \<noteq> [] \<Longrightarrow> operand_next buf = Inr (o', rest) \<Longrightarrow>
   read_operands buf = sbind (read_operands rest) (\<lambda>os. Inr (o' # os))"
  by (simp add: read_operands.simps [of buf])

lemma literal_loop_iff:
  "literal_loop buf = Inr True \<longleftrightarrow> (\<exists>os. read_operands buf = Inr os \<and> list_all operand_literal os)"
proof (induction buf rule: literal_loop.induct)
  case (1 buf)
  show ?case
  proof (cases "buf = [] \<or> (\<exists>e. operand_next buf = Inl e)")
    case True
    then show ?thesis
      by (auto simp: literal_loop.simps [of buf] read_operands.simps [of buf] split: go_fail.splits)
  next
    case False
    then obtain o' rest where n: "buf \<noteq> []" "operand_next buf = Inr (o', rest)"
      by (cases "operand_next buf") auto
    show ?thesis
    proof (cases "operand_literal o'")
      case True
      then show ?thesis
        using 1 [OF n(1) n(2) refl True] n
        by (auto simp: literal_loop.simps [of buf] read_operands_step sbind_Inr_iff)
    qed (use n in \<open>auto simp: literal_loop.simps [of buf] read_operands_step sbind_Inr_iff\<close>)
  qed
qed

lemma const_operands_step:
  "buf \<noteq> [] \<Longrightarrow> operand_next buf = Inr (o', rest) \<Longrightarrow>
   const_operands buf n =
     (if o_kind o' = OpImmExpr \<and> eval_const (o_expr o') \<noteq> None then const_operands rest (n + 1) else Inr None)"
  by (subst const_operands.simps) simp

lemma const_operands_iff:
  "const_operands buf n = Inr (Some k) \<longleftrightarrow>
     (\<exists>os. read_operands buf = Inr os \<and> k = n + length os \<and>
        list_all (\<lambda>o'. o_kind o' = OpImmExpr \<and> eval_const (o_expr o') \<noteq> None) os)"
proof (induction buf n rule: const_operands.induct)
  case (1 buf n)
  show ?case
  proof (cases "buf = [] \<or> (\<exists>e. operand_next buf = Inl e)")
    case True
    then show ?thesis
      by (auto simp: const_operands.simps [of buf] read_operands.simps [of buf] split: go_fail.splits)
  next
    case False
    then obtain o' rest where n: "buf \<noteq> []" "operand_next buf = Inr (o', rest)"
      by (cases "operand_next buf") auto
    show ?thesis
    proof (cases "o_kind o' = OpImmExpr \<and> eval_const (o_expr o') \<noteq> None")
      case True
      then have "const_operands rest (n + 1) = Inr (Some k) \<longleftrightarrow>
          (\<exists>os. read_operands rest = Inr os \<and> k = n + 1 + length os \<and>
            list_all (\<lambda>o'. o_kind o' = OpImmExpr \<and> eval_const (o_expr o') \<noteq> None) os)"
        by (intro 1 [OF n(1) n(2) refl]) simp_all
      moreover have "const_operands buf n = const_operands rest (n + 1)"
        unfolding const_operands_step [OF n] using True by simp
      ultimately show ?thesis
        unfolding read_operands_step [OF n] using True by (cases "read_operands rest") auto
    next
      case False
      then have "const_operands buf n = Inr None" unfolding const_operands_step [OF n] by auto
      with False show ?thesis unfolding read_operands_step [OF n] by (cases "read_operands rest") auto
    qed
  qed
qed

text \<open>
  \<^verbatim>\<open>ConstDataWidth\<close> gives a width exactly for the five data directives, at the directive's
  element size, with at least one operand and with every operand a constant expression.
\<close>

theorem const_data_width_iff:
  "const_data_width rec = Inr (Some w) \<longleftrightarrow>
     r_kind rec = KindDirective
     \<and> (directive_name (directive_id rec), w) \<in>
         {(''.byte'', 1), (''.short'', 2), (''.hword'', 2), (''.word'', 4), (''.quad'', 8)}
     \<and> (\<exists>os. read_operands (operands rec) = Inr os \<and> os \<noteq> [] \<and>
          list_all (\<lambda>o'. o_kind o' = OpImmExpr \<and> eval_const (o_expr o') \<noteq> None) os)"
proof -
  have d: "data_width (directive_id rec) = Some w \<longleftrightarrow> (directive_name (directive_id rec), w) \<in>
      {(''.byte'', 1), (''.short'', 2), (''.hword'', 2), (''.word'', 4), (''.quad'', 8)}"
    by (auto simp: data_width_def Let_def)
  have c: "sbind r (\<lambda>n. case n of None \<Rightarrow> Inr None | Some k \<Rightarrow> if k = 0 then Inr None else Inr (Some v)) = Inr (Some w)
      \<longleftrightarrow> w = v \<and> (\<exists>k. r = Inr (Some k) \<and> k \<noteq> 0)" for r :: "nat option res" and v :: nat
    by (cases r) (auto split: option.splits)
  have "const_data_width rec = Inr (Some w) \<longleftrightarrow>
      r_kind rec = KindDirective \<and> data_width (directive_id rec) = Some w
      \<and> (\<exists>k. const_operands (operands rec) 0 = Inr (Some k) \<and> k \<noteq> 0)"
    by (auto simp: const_data_width_def c split: option.splits)
  then show ?thesis unfolding const_operands_iff d by auto
qed

text \<open>Only the operand kinds with an expression carry one.\<close>

lemma operand_next_kinds:
  "operand_next buf = Inr (o', rest) \<Longrightarrow>
     (o_expr o' = [] \<or> o_kind o' \<in> {OpImmExpr, OpMem, OpLitPool})
   \<and> (o_amt_expr o' = [] \<or> o_kind o' \<in> {OpShiftedReg, OpExtendedReg})"
  by (auto simp: operand_next_def read_mem_def Let_def operand0_def
      split: list.splits if_split_asm prod.splits elim!: sbindE)

lemma read_operands_kinds:
  "read_operands buf = Inr os \<Longrightarrow> o' \<in> set os \<Longrightarrow>
     (o_expr o' = [] \<or> o_kind o' \<in> {OpImmExpr, OpMem, OpLitPool})
   \<and> (o_amt_expr o' = [] \<or> o_kind o' \<in> {OpShiftedReg, OpExtendedReg})"
proof (induction buf arbitrary: os rule: read_operands.induct)
  case (1 buf)
  show ?case
  proof (cases "buf = [] \<or> (\<exists>e. operand_next buf = Inl e)")
    case True
    with 1(2,3) show ?thesis by (auto simp: read_operands.simps [of buf] split: if_split_asm)
  next
    case False
    then obtain o1 rest where n: "buf \<noteq> []" "operand_next buf = Inr (o1, rest)"
      by (cases "operand_next buf") auto
    then obtain os1 where "read_operands rest = Inr os1" "os = o1 # os1"
      using 1(2) by (auto simp: read_operands_step sbind_Inr_iff)
    with 1(1) [OF n(1) n(2) refl] 1(3) operand_next_kinds [OF n(2)] show ?thesis by auto
  qed
qed

lemma no_dep_nil [simp]: "\<not> expr_has_context_dep []"
  by (simp add: expr_has_context_dep.simps)

lemma operand_literal_exprs:
  assumes "operand_literal o'"
    and "o_expr o' = [] \<or> o_kind o' \<in> {OpImmExpr, OpMem, OpLitPool}"
    and "o_amt_expr o' = [] \<or> o_kind o' \<in> {OpShiftedReg, OpExtendedReg}"
  shows "o_kind o' \<noteq> OpLitPool" "\<not> expr_has_context_dep (o_expr o')" "\<not> expr_has_context_dep (o_amt_expr o')"
  using assms by (auto simp: operand_literal_def split: if_split_asm)

lemma fully_literal_context_free_parts:
  assumes "is_fully_literal rec = Inr True"
  shows "r_kind rec = KindInst" and "\<exists>os. read_operands (operands rec) = Inr os \<and>
    (\<forall>o' \<in> set os. o_kind o' \<noteq> OpLitPool \<and>
      (\<forall>ctx ctx'. eval (o_expr o') ctx = eval (o_expr o') ctx' \<and> eval (o_amt_expr o') ctx = eval (o_amt_expr o') ctx'))"
proof -
  show "r_kind rec = KindInst" using assms by (auto simp: is_fully_literal_def split: if_split_asm)
  then have "literal_loop (operands rec) = Inr True"
    using assms by (auto simp: is_fully_literal_def)
  then obtain os where os: "read_operands (operands rec) = Inr os" "list_all operand_literal os"
    unfolding literal_loop_iff by blast
  have "o_kind o' \<noteq> OpLitPool \<and>
      (\<forall>ctx ctx'. eval (o_expr o') ctx = eval (o_expr o') ctx' \<and> eval (o_amt_expr o') ctx = eval (o_amt_expr o') ctx')"
    if o': "o' \<in> set os" for o'
  proof -
    have "operand_literal o'" using os(2) o' by (simp add: list_all_iff)
    note l = operand_literal_exprs [OF this conjunct1 [OF read_operands_kinds [OF os(1) o']]
        conjunct2 [OF read_operands_kinds [OF os(1) o']]]
    from l(1) show ?thesis unfolding eval_def using eval_loop_no_dep [OF l(2)] eval_loop_no_dep [OF l(3)] by blast
  qed
  with os(1) show "\<exists>os. read_operands (operands rec) = Inr os \<and>
    (\<forall>o' \<in> set os. o_kind o' \<noteq> OpLitPool \<and>
      (\<forall>ctx ctx'. eval (o_expr o') ctx = eval (o_expr o') ctx' \<and> eval (o_amt_expr o') ctx = eval (o_amt_expr o') ctx'))"
    by blast
qed

text \<open>
  \<^verbatim>\<open>IsFullyLiteral\<close> accepts only instruction records whose operand stream is well formed and
  in which no operand is a literal-pool reference and every expression, displacement or shift
  amount evaluates the same, errors included, in every context.
\<close>

theorem fully_literal_context_free:
  assumes "is_fully_literal rec = Inr True"
  shows "r_kind rec = KindInst \<and> (\<exists>os. read_operands (operands rec) = Inr os \<and>
    (\<forall>o' \<in> set os. o_kind o' \<noteq> OpLitPool \<and>
      (\<forall>ctx ctx'. eval (o_expr o') ctx = eval (o_expr o') ctx' \<and> eval (o_amt_expr o') ctx = eval (o_amt_expr o') ctx')))"
  using fully_literal_context_free_parts [OF assms] by blast

lemma fully_literal_context_free_witness:
  "\<exists>os. read_operands [OpRegX, 3, OpImmExpr, 2, 0, OpPushImm8, 7] = Inr os \<and>
    (\<forall>o' \<in> set os. o_kind o' \<noteq> OpLitPool \<and>
      (\<forall>ctx ctx'. eval (o_expr o') ctx = eval (o_expr o') ctx' \<and> eval (o_amt_expr o') ctx = eval (o_amt_expr o') ctx'))"
  using fully_literal_context_free
      [of "(record0 KindInst [])\<lparr>operands := [OpRegX, 3, OpImmExpr, 2, 0, OpPushImm8, 7]\<rparr>"]
  by (simp add: is_fully_literal_def record0_def literal_loop.simps operand_next_def operand0_def
      take_counted_def read_len_def take_bytes_def operand_literal_def expr_has_context_dep.simps expr_next_def
      operand_width_def op_tables)

end
