(* ===== verification/Tbn_File.thy ===== *)
theory Tbn_File
  imports Tbn_Editor Record_Props
begin

text \<open>
  A whole \<^verbatim>\<open>.tbn\<close> file: the symbol table (\<^verbatim>\<open>symbols.go\<close>), \<^verbatim>\<open>WriteFile\<close> (\<^verbatim>\<open>writer.go\<close>) and
  \<^verbatim>\<open>ReadFile\<close> (\<^verbatim>\<open>reader.go\<close>).
\<close>

section \<open>The symbol table\<close>

record symbol_table =
  st_names :: "bytes list"
  st_index :: "bytes \<rightharpoonup> u16"

definition new_symbol_table :: symbol_table where
  "new_symbol_table = \<lparr>st_names = [], st_index = Map.empty\<rparr>"

definition intern :: "bytes \<Rightarrow> symbol_table \<Rightarrow> u16 \<times> symbol_table" where
  "intern name st =
     (case st_index st name of
        Some n \<Rightarrow> (n, st)
      | None \<Rightarrow>
          let n = of_nat (length (st_names st))
          in (n, st\<lparr>st_names := st_names st @ [name], st_index := (st_index st)(name \<mapsto> n)\<rparr>))"

fun intern_all :: "bytes list \<Rightarrow> symbol_table \<Rightarrow> u16 list \<times> symbol_table" where
  "intern_all [] st = ([], st)"
| "intern_all (n # ns) st =
     (let (i, st1) = intern n st; (is, st2) = intern_all ns st1 in (i # is, st2))"

section \<open>Writing\<close>

definition file_magic :: bytes where
  "file_magic = [0x53, 0x41, 0x36, 0x34]"

abbreviation file_version :: u16 where "file_version \<equiv> 3"
abbreviation FlagTaggedSidecar :: u16 where "FlagTaggedSidecar \<equiv> 1"
abbreviation header_len :: nat where "header_len \<equiv> 12"

text \<open>The four byte strings handed to \<^verbatim>\<open>io.Writer\<close>, in order.\<close>

definition file_chunks ::
  "symbol_table \<Rightarrow> label_row list \<Rightarrow> local_row list \<Rightarrow> bytes \<Rightarrow> u16 list \<Rightarrow> sidecar_row list \<Rightarrow> bytes list" where
  "file_chunks st labels locals records globals sidecar =
     (let tables = write_local_table (write_label_table [] labels) locals;
          editor_offset = header_len + length tables + length records;
          hdr = file_magic @ put_u16 file_version @ put_u16 FlagTaggedSidecar @ put_u32 (of_nat editor_offset)
      in [hdr, tables, records, append_editor_region [] (st_names st) globals sidecar])"

definition write_file ::
  "(bytes \<Rightarrow> 'w \<Rightarrow> string option \<times> 'w) \<Rightarrow> 'w \<Rightarrow> symbol_table \<Rightarrow> label_row list \<Rightarrow> local_row list
     \<Rightarrow> bytes \<Rightarrow> u16 list \<Rightarrow> sidecar_row list \<Rightarrow> string option \<times> 'w" where
  "write_file wr w st labels locals records globals sidecar =
     write_chunks wr (file_chunks st labels locals records globals sidecar) w"

section \<open>Reading\<close>

record tbn_file =
  f_version :: u16
  f_flags :: u16
  f_names :: "bytes list"
  f_labels :: "label_row list"
  f_locals :: "local_row list"
  f_globals :: "u16 list"
  f_sidecar :: "sidecar_row list"
  f_comments :: "comment_row list"
  f_records :: "tbn_record list"

definition sidecar_comments :: "sidecar_row list \<Rightarrow> comment_row list" where
  "sidecar_comments rows = map s_comment (filter (\<lambda>r. s_kind r = SidecarComment) rows)"

text \<open>The assembler-facing region: the tables, then the records up to the editor region.\<close>

definition read_assembler_region ::
  "nat \<Rightarrow> bytes \<Rightarrow> (label_row list \<times> local_row list \<times> tbn_record list) res" where
  "read_assembler_region editor_offset buf =
     sbind (read_label_table (drop header_len buf)) (\<lambda>(labels, rest).
       sbind (read_local_table rest) (\<lambda>(locals, rest).
         let pos = length buf - length rest in
         if pos > editor_offset then Inl (Error ''file: header tables overran editor region'')
         else sbind (read_records (take (editor_offset - pos) rest)) (\<lambda>records.
           Inr (labels, locals, records))))"

definition editor_offset_of :: "bytes \<Rightarrow> nat" where
  "editor_offset_of buf = unat (le_get (take 4 (drop 8 buf)) :: u32)"

definition read_header :: "bytes \<Rightarrow> (u16 \<times> u16 \<times> nat) res" where
  "read_header buf =
     (let version = le_get (take 2 (drop 4 buf)); flags = le_get (take 2 (drop 6 buf));
          editor_offset = editor_offset_of buf in
      if length buf < header_len then Inl (Error ''file: too short for header'')
      else if take 4 buf \<noteq> file_magic then Inl (Error ''file: bad magic'')
      else if version \<noteq> file_version then Inl (Error ''file: unsupported version'')
      else if editor_offset < header_len \<or> editor_offset > length buf
      then Inl (Error ''file: editor_region_offset out of range'')
      else Inr (version, flags, editor_offset))"

definition read_file :: "bytes \<Rightarrow> tbn_file res" where
  "read_file buf =
     sbind (read_header buf) (\<lambda>(version, flags, editor_offset).
       sbind (read_assembler_region editor_offset buf) (\<lambda>(labels, locals, records).
         sbind (read_editor_region editor_offset (flags AND FlagTaggedSidecar \<noteq> 0) (drop editor_offset buf))
           (\<lambda>((names, globals, sidecar), rest).
             Inr \<lparr>f_version = version, f_flags = flags, f_names = names, f_labels = labels, f_locals = locals,
                  f_globals = globals, f_sidecar = sidecar, f_comments = sidecar_comments sidecar,
                  f_records = records\<rparr>)))"

section \<open>Round trip\<close>

lemma write_file_buffer:
  "write_file buffer_write w st labels locals recs globals sidecar
   = (None, w @ concat (file_chunks st labels locals recs globals sidecar))"
  unfolding write_file_def by (rule write_chunks_buffer)

lemma write_tables_append:
  "write_local_table (write_label_table [] labels) locals = write_label_table [] labels @ write_local_table [] locals"
  by (simp add: write_local_table_def)

lemma read_header_put:
  assumes "off < 2 ^ 32" and "12 \<le> off" and "off \<le> length (hdr @ rest)"
    and "hdr = file_magic @ put_u16 file_version @ put_u16 FlagTaggedSidecar @ put_u32 (of_nat off)"
  shows "read_header (hdr @ rest) = Inr (file_version, FlagTaggedSidecar, off)"
proof -
  obtain v0 v1 where v: "put_u16 file_version = [v0, v1]" by (simp add: numeral_eq_Suc)
  obtain g0 g1 where g: "put_u16 FlagTaggedSidecar = [g0, g1]" by (simp add: numeral_eq_Suc)
  obtain a b c d where o': "put_u32 (of_nat off) = [a, b, c, d]" by (simp add: numeral_eq_Suc)
  have e: "le_get [v0, v1] = file_version" "le_get [g0, g1] = FlagTaggedSidecar"
      "le_get [a, b, c, d] = (of_nat off :: u32)"
    unfolding v [symmetric] g [symmetric] o' [symmetric] by simp_all
  have "hdr @ rest = [0x53, 0x41, 0x36, 0x34, v0, v1, g0, g1, a, b, c, d] @ rest"
    unfolding assms(4) v g o' by (simp add: file_magic_def)
  moreover have "unat (of_nat off :: u32) = off" using assms(1) by (simp add: unat_of_nat)
  ultimately show ?thesis
    using assms(2,3) e by (simp add: read_header_def editor_offset_of_def Let_def file_magic_def)
qed

lemma read_assembler_region_put:
  assumes "length labels < 65536" and "length locals < 65536"
    and "read_records recs = Inr rs" and "length hdr = 12"
    and "off = 12 + length (write_label_table [] labels @ write_local_table [] locals) + length recs"
  shows "read_assembler_region off (hdr @ write_label_table [] labels @ write_local_table [] locals @ recs @ ed)
    = Inr (sort_key label_key labels, sort_key local_key locals, rs)"
  using assms by (simp add: read_assembler_region_def read_label_table_put read_local_table_put)

text \<open>
  C13.  A file written from a symbol table, label and local rows, a record stream and an editor
  region is read back in full: the names, the records, the labels and locals in table order,
  the globals sorted, and the comments and blank runs in anchor order with ties kept in source
  order.  The sizes are those the format's fields can hold, and the file is below 4 GiB.
\<close>

theorem read_written_file:
  assumes "write_file buffer_write [] st labels locals recs globals sidecar = (None, buf)"
    and "write_records [] ws = Inr recs" and "list_all (\<lambda>w. length (payload_of w) < 65536) ws"
    and "length (st_names st) < 65536" and "length labels < 65536" and "length locals < 65536"
    and "length globals < 65536" and "length sidecar < 65536" and "list_all sidecar_row_ok sidecar"
    and "length buf < 2 ^ 32"
  shows "read_file buf = Inr
    \<lparr>f_version = 3, f_flags = 1, f_names = st_names st,
     f_labels = sort_key label_key labels, f_locals = sort_key local_key locals,
     f_globals = sort globals,
     f_sidecar = map sidecar_view (sort_key (\<lambda>r. sint (anchor r)) sidecar),
     f_comments = sidecar_comments (map sidecar_view (sort_key (\<lambda>r. sint (anchor r)) sidecar)),
     f_records = map record_of ws\<rparr>"
proof -
  define tables where "tables = write_label_table [] labels @ write_local_table [] locals"
  define off where "off = 12 + length tables + length recs"
  define hdr where "hdr = file_magic @ put_u16 file_version @ put_u16 FlagTaggedSidecar @ put_u32 (of_nat off)"
  define ed where "ed = append_editor_region [] (st_names st) globals sidecar"
  have buf: "buf = hdr @ tables @ recs @ ed"
    using assms(1) unfolding write_file_buffer
    by (simp add: file_chunks_def Let_def write_tables_append hdr_def tables_def off_def ed_def)
  have hl: "length hdr = 12" by (simp add: hdr_def file_magic_def)
  have lim: "off + length ed < 2 ^ 32" using assms(10) by (simp add: buf off_def hl)
  have h: "read_header buf = Inr (3, 1, off)"
    unfolding buf by (rule read_header_put [OF _ _ _ hdr_def]) (use lim hl in \<open>simp_all add: off_def\<close>)
  have "read_records recs = Inr (map record_of ws)"
    using records.get_all_put [OF written_records_bytes(1) [OF assms(2,3)]]
      written_records_bytes(2) [OF assms(2,3)] by simp
  then have a: "read_assembler_region off buf = Inr (sort_key label_key labels, sort_key local_key locals, map record_of ws)"
    unfolding buf tables_def append_assoc
    by (intro read_assembler_region_put) (use assms(5,6) hl in \<open>simp_all add: off_def tables_def\<close>)
  have d: "drop off buf = ed" by (simp add: buf off_def hl)
  have "read_editor_region off True (ed @ []) =
      Inr ((st_names st, sort globals, map sidecar_view (sort_key (\<lambda>r. sint (anchor r)) sidecar)), [])"
    unfolding ed_def using assms(4,7,8,9) lim by (intro read_editor_region_put) (simp_all add: ed_def)
  then have e: "read_editor_region off True ed =
      Inr ((st_names st, sort globals, map sidecar_view (sort_key (\<lambda>r. sint (anchor r)) sidecar)), [])"
    by simp
  show ?thesis by (simp add: read_file_def h a d e)
qed

end
