(* ===== verification/File_Props.thy ===== *)
theory File_Props
  imports Tbn_File
begin

text \<open>
  Properties of whole files: the witness of the round trip, the identifiers of the symbol
  table, the independence of the assembler-facing region from the editor region, and the
  inputs on which the reader panics.
\<close>

section \<open>Symbol identifiers\<close>

definition symtab_ok :: "symbol_table \<Rightarrow> bool" where
  "symtab_ok st \<longleftrightarrow> distinct (st_names st) \<and> dom (st_index st) = set (st_names st)
     \<and> (\<forall>i < length (st_names st). st_index st (st_names st ! i) = Some (of_nat i))"

lemma symtab_ok_new [simp]: "symtab_ok new_symbol_table"
  by (simp add: symtab_ok_def new_symbol_table_def)

lemma intern_step:
  assumes "symtab_ok st" and "intern name st = (i, st')"
  shows "symtab_ok st'" and "\<exists>more. st_names st' = st_names st @ more"
    and "set (st_names st') = insert name (set (st_names st))"
    and "\<exists>k < length (st_names st'). i = of_nat k \<and> st_names st' ! k = name"
proof -
  have "symtab_ok st' \<and> (\<exists>more. st_names st' = st_names st @ more)
      \<and> set (st_names st') = insert name (set (st_names st))
      \<and> (\<exists>k < length (st_names st'). i = of_nat k \<and> st_names st' ! k = name)"
  proof (cases "st_index st name")
    case None
    then have n: "name \<notin> set (st_names st)" using assms(1) by (auto simp: symtab_ok_def)
    have st': "i = of_nat (length (st_names st))" "st_names st' = st_names st @ [name]"
        "st_index st' = (st_index st)(name \<mapsto> of_nat (length (st_names st)))"
      using assms(2) None by (auto simp: intern_def Let_def)
    have "st_names st ! j \<noteq> name" if "j < length (st_names st)" for j
      using n that nth_mem by metis
    then have "symtab_ok st'"
      using assms(1) n unfolding symtab_ok_def st' by (auto simp: nth_append less_Suc_eq)
    with st' show ?thesis by auto
  next
    case (Some k)
    then have "name \<in> set (st_names st)" using assms(1) by (auto simp: symtab_ok_def)
    moreover from this obtain j where "j < length (st_names st)" "st_names st ! j = name"
      by (auto simp: in_set_conv_nth)
    ultimately show ?thesis using assms Some by (auto simp: intern_def symtab_ok_def)
  qed
  then show "symtab_ok st'" "\<exists>more. st_names st' = st_names st @ more"
    "set (st_names st') = insert name (set (st_names st))"
    "\<exists>k < length (st_names st'). i = of_nat k \<and> st_names st' ! k = name" by blast+
qed

lemma intern_all_ok:
  assumes "symtab_ok st" and "intern_all ns st = (is, st')"
  shows "symtab_ok st' \<and> (\<exists>more. st_names st' = st_names st @ more)
    \<and> set (st_names st') = set (st_names st) \<union> set ns
    \<and> (length (st_names st') \<le> 65536 \<longrightarrow> map (\<lambda>i. st_names st' ! unat i) is = ns)"
  using assms
proof (induction ns arbitrary: st "is")
  case (Cons n ns)
  obtain i st1 where 1: "intern n st = (i, st1)" by fastforce
  obtain js where 2: "intern_all ns st1 = (js, st')" "is = i # js"
    using Cons.prems(2) 1 by (auto split: prod.splits)
  note s = intern_step [OF Cons.prems(1) 1]
  note IH = Cons.IH [OF s(1) 2(1)]
  from s(2) IH obtain m1 m2 where m: "st_names st1 = st_names st @ m1" "st_names st' = st_names st1 @ m2" by blast
  from s(4) obtain k where k: "k < length (st_names st1)" "i = of_nat k" "st_names st1 ! k = n" by blast
  have "st_names st' ! unat i = n" if "length (st_names st') \<le> 65536"
  proof -
    have "k < 65536" using k(1) m(2) that by simp
    then have "unat i = k" by (simp add: k(2) unat_of_nat)
    with k m(2) show ?thesis by (simp add: nth_append)
  qed
  with IH s(3) 2(2) m show ?case by auto
qed simp

lemma interned_names_parts:
  assumes "intern_all ns new_symbol_table = (is, st)"
  shows "distinct (st_names st)" and "set (st_names st) = set ns"
    and "length (st_names st) \<le> 65536 \<Longrightarrow> map (\<lambda>i. st_names st ! unat i) is = ns"
  using intern_all_ok [OF symtab_ok_new assms] by (auto simp: symtab_ok_def new_symbol_table_def)

text \<open>
  Interning a list of names gives each name one table entry, in first-encounter order, and
  while the table has at most \<open>2^16\<close> entries every returned identifier is the index of its name.
\<close>

theorem interned_names:
  assumes "intern_all ns new_symbol_table = (is, st)"
  shows "distinct (st_names st) \<and> set (st_names st) = set ns
    \<and> (length (st_names st) \<le> 65536 \<longrightarrow> map (\<lambda>i. st_names st ! unat i) is = ns)"
  using interned_names_parts [OF assms] by blast

lemma interned_names_witness:
  "map (\<lambda>i. [[0x61], [0x62]] ! unat i) [0, 1, 0 :: u16] = [[0x61], [0x62], [0x61 :: u8]]"
  using interned_names [of "[[0x61], [0x62], [0x61]]" "[0, 1, 0]"
      "\<lparr>st_names = [[0x61], [0x62]], st_index = [[0x61] \<mapsto> 0, [0x62] \<mapsto> 1]\<rparr>"]
  by (simp add: intern_def new_symbol_table_def)

section \<open>The assembler never reads the editor region\<close>

lemma prefix_reader_rows:
  assumes "\<And>s. prefix_reader (\<lambda>buf. sbind (get s buf) (\<lambda>(b, s', rest). Inr ((b, s'), rest)))"
  shows "prefix_reader (read_rows get n s)"
proof (induction n arbitrary: s)
  case 0
  show ?case using prefix_reader_ret by simp
next
  case (Suc n)
  have e: "read_rows get (Suc n) s = (\<lambda>buf.
      sbind (sbind (get s buf) (\<lambda>(b, s', rest). Inr ((b, s'), rest)))
        (\<lambda>(bs', rest). sbind (read_rows get n (snd bs') rest) (\<lambda>(bs, rest'). Inr (fst bs' # bs, rest'))))"
  proof (rule ext)
    fix buf
    show "read_rows get (Suc n) s buf = sbind (sbind (get s buf) (\<lambda>(b, s', rest). Inr ((b, s'), rest)))
        (\<lambda>(bs', rest). sbind (read_rows get n (snd bs') rest) (\<lambda>(bs, rest'). Inr (fst bs' # bs, rest')))"
      by (cases "get s buf") (simp_all split: prod.splits)
  qed
  show ?case
    unfolding e by (intro prefix_reader_bind assms Suc prefix_reader_ret)
qed

lemma prefix_reader_table:
  assumes "\<And>s. prefix_reader (\<lambda>buf. sbind (get s buf) (\<lambda>(b, s', rest). Inr ((b, s'), rest)))"
  shows "prefix_reader (read_table msg get s)"
  unfolding read_table_def [abs_def]
  by (intro prefix_reader_bind prefix_reader_u16 prefix_reader_rows assms)

lemma prefix_reader_labels: "prefix_reader read_label_table"
  unfolding read_label_table_def
  by (rule prefix_reader_table)
    (simp add: get_label_row_def sbind_assoc split_beta [abs_def],
     intro prefix_reader_bind [unfolded split_beta] prefix_reader_u16 prefix_reader_uvarint prefix_reader_ret)

lemma prefix_reader_locals: "prefix_reader read_local_table"
  unfolding read_local_table_def
  by (rule prefix_reader_table)
    (simp add: get_local_row_def sbind_assoc split_beta [abs_def],
     intro prefix_reader_bind [unfolded split_beta] prefix_reader_u8 prefix_reader_uvarint prefix_reader_ret)

lemma read_assembler_region_prefix:
  assumes "read_assembler_region (length pre) (pre @ ed) = Inr r" and "header_len \<le> length pre"
  shows "read_assembler_region (length pre) (pre @ ed') = Inr r"
proof -
  define mid where "mid = drop header_len pre"
  have d: "drop header_len (pre @ x) = mid @ x" for x using assms(2) by (simp add: mid_def)
  obtain labels r1 locals r2 rs where l: "read_label_table (mid @ ed) = Inr (labels, r1)"
    and n: "read_local_table r1 = Inr (locals, r2)"
    and pos: "length (pre @ ed) - length r2 \<le> length pre"
    and rs: "read_records (take (length pre - (length (pre @ ed) - length r2)) r2) = Inr rs"
    and r: "r = (labels, locals, rs)"
    using assms(1) unfolding read_assembler_region_def d
    by (auto elim!: sbindE simp: Let_def split: if_splits)
  obtain c1 where c1: "mid @ ed = c1 @ r1" "\<And>x. read_label_table (c1 @ x) = Inr (labels, x)"
    by (rule prefix_readerD [OF prefix_reader_labels l]) blast
  obtain c2 where c2: "r1 = c2 @ r2" "\<And>x. read_local_table (c2 @ x) = Inr (locals, x)"
    by (rule prefix_readerD [OF prefix_reader_locals n]) blast
  have sum: "length mid + length ed = length c1 + (length c2 + length r2)"
    by (metis length_append c1(1) c2(1))
  have mid: "length mid \<le> length pre" by (simp add: mid_def)
  have "length ed \<le> length r2" using pos sum mid by simp
  then obtain body where body: "r2 = body @ ed" "mid = c1 @ c2 @ body"
  proof -
    assume le: "length ed \<le> length r2"
    have "mid @ ed = (c1 @ c2) @ r2" using c1(1) c2(1) by simp
    moreover have "length (c1 @ c2) \<le> length mid" using le sum by simp
    ultimately obtain us where "mid = (c1 @ c2) @ us" "us @ ed = r2"
      by (auto simp: append_eq_append_conv2)
    then show thesis using that [of us] by simp
  qed
  have "length pre - (length (pre @ x) - length (body @ x)) = length body" if "length body \<le> length pre" for x
    using that by simp
  moreover have "length body \<le> length pre" using body(2) mid by simp
  ultimately have k: "length pre - (length (pre @ x) - length (body @ x)) = length body"
      "length (pre @ x) - length (body @ x) \<le> length pre" for x by simp_all
  show ?thesis
    using rs c1(2) c2(2) k [of ed] k [of ed']
    unfolding read_assembler_region_def d r body by (simp add: Let_def)
qed

lemma read_header_prefix:
  assumes "read_header buf = Inr (v, fl, off)" and "take off buf' = take off buf" and "off \<le> length buf'"
  shows "read_header buf' = Inr (v, fl, off)"
proof -
  have h: "12 \<le> length buf" "12 \<le> off" "off \<le> length buf"
    using assms(1) by (auto simp: read_header_def Let_def split: if_splits)
  have "take 12 (take off buf') = take 12 (take off buf)" using assms(2) by simp
  then have t: "take 12 buf' = take 12 buf" using h by simp
  have d: "take k (drop j buf') = take k (drop j buf)" if "j + k \<le> 12" for j k
  proof -
    have "take k (drop j (take 12 b)) = take k (drop j b)" for b :: bytes
      using that by (simp add: drop_take)
    then show ?thesis using t by metis
  qed
  have e: "take 4 buf' = take 4 buf" using d [of 0 4] by simp
  show ?thesis
    using assms(1,3) h
    by (auto simp: read_header_def editor_offset_of_def Let_def e d split: if_splits)
qed

lemma editor_region_irrelevant_parts:
  assumes "read_file buf = Inr f" and "read_file buf' = Inr f'"
    and "take (editor_offset_of buf) buf' = take (editor_offset_of buf) buf"
  shows "f_labels f' = f_labels f" and "f_locals f' = f_locals f" and "f_records f' = f_records f"
proof -
  obtain v fl off labels locals rs where h: "read_header buf = Inr (v, fl, off)"
    and a: "read_assembler_region off buf = Inr (labels, locals, rs)"
    and f: "f_labels f = labels" "f_locals f = locals" "f_records f = rs"
    using assms(1) by (auto simp: read_file_def elim!: sbindE)
  obtain v' fl' off' labels' locals' rs' where h': "read_header buf' = Inr (v', fl', off')"
    and a': "read_assembler_region off' buf' = Inr (labels', locals', rs')"
    and f': "f_labels f' = labels'" "f_locals f' = locals'" "f_records f' = rs'"
    using assms(2) by (auto simp: read_file_def elim!: sbindE)
  have off: "off = editor_offset_of buf" "off \<le> length buf" "12 \<le> off"
    using h by (auto simp: read_header_def Let_def split: if_splits)
  have t: "take off buf' = take off buf" using assms(3) off(1) by simp
  then have l: "off \<le> length buf'" using off(2) by (metis length_take min.absorb_iff2 min.commute)
  have o': "off' = off" using read_header_prefix [OF h t l] h' by simp
  define pre where "pre = take off buf"
  have pre: "length pre = off" "buf = pre @ drop off buf" "buf' = pre @ drop off buf'"
    using off(2) t by (simp_all add: pre_def) (metis append_take_drop_id)
  have "read_assembler_region (length pre) (pre @ drop off buf) = Inr (labels, locals, rs)"
    using a pre by simp
  from read_assembler_region_prefix [OF this, of "drop off buf'"] have
    "read_assembler_region off buf' = Inr (labels, locals, rs)"
    using pre off(3) by simp
  then show "f_labels f' = f_labels f" "f_locals f' = f_locals f" "f_records f' = f_records f"
    using a' f f' o' by simp_all
qed

text \<open>
  C29.  The labels, the locals and the records of a file depend on the bytes before
  \<^verbatim>\<open>editor_region_offset\<close> only: two readable files that agree up to there give the same ones,
  whatever their editor regions.
\<close>

theorem editor_region_irrelevant:
  assumes "read_file buf = Inr f" and "read_file buf' = Inr f'"
    and "take (editor_offset_of buf) buf' = take (editor_offset_of buf) buf"
  shows "f_labels f' = f_labels f \<and> f_locals f' = f_locals f \<and> f_records f' = f_records f"
  using editor_region_irrelevant_parts [OF assms] by blast

text \<open>Two files with a byte directive and one label, the second with a name.\<close>

definition sample_head :: bytes where
  "sample_head = file_magic @ [3, 0, 1, 0, 24, 0, 0, 0] @ [1, 0, 0, 0, 4, 0, 0] @ [KindLitData, 2, 0, 1, 7]"

definition sample_file :: "bytes \<Rightarrow> bytes" where
  "sample_file ed = sample_head @ ed"

lemma sample_header: "read_header (sample_file ed) = Inr (3, 1, 24)"
  by (simp add: sample_file_def sample_head_def file_magic_def read_header_def editor_offset_of_def Let_def)

lemma sample_region:
  "read_assembler_region 24 (sample_file ed) = Inr
     ([\<lparr>label_name = 0, label_offset = 4\<rparr>], [], [(record0 KindLitData [1, 7])\<lparr>lit_data_dir := 1, lit_data := [7]\<rparr>])"
  by (simp add: sample_file_def sample_head_def file_magic_def read_assembler_region_def
      read_label_table_def read_local_table_def read_table_def get_u16_def get_uvarint_def get_label_row_def
      read_records.simps record_next_def read_payload_def record0_def Let_def)

lemma sample_editor:
  "read_editor_region 24 True [0, 0, 0, 0, 0, 0] = Inr (([], [], []), [])"
  "read_editor_region 24 True [1, 0, 0, 1, 0x61, 0, 0, 0, 0] = Inr (([[0x61]], [], []), [])"
  by (simp_all add: read_editor_region_def read_name_table_def read_global_flags_def read_sidecar_def
      read_table_def get_u16_def get_uvarint_def get_name_def Let_def)

lemma drop_sample: "drop 24 (sample_file ed) = ed" "take 24 (sample_file ed) = sample_head"
    "editor_offset_of (sample_file ed) = 24"
  by (simp_all add: sample_file_def sample_head_def file_magic_def editor_offset_of_def)

lemma editor_region_irrelevant_witness:
  "\<exists>f f'. read_file (sample_file [0, 0, 0, 0, 0, 0]) = Inr f
     \<and> read_file (sample_file [1, 0, 0, 1, 0x61, 0, 0, 0, 0]) = Inr f'
     \<and> f_names f \<noteq> f_names f' \<and> f_labels f' = f_labels f \<and> f_records f' = f_records f"
proof -
  obtain f where f: "read_file (sample_file [0, 0, 0, 0, 0, 0]) = Inr f" "f_names f = []"
    by (simp add: read_file_def sample_header sample_region drop_sample sample_editor)
  obtain f' where f': "read_file (sample_file [1, 0, 0, 1, 0x61, 0, 0, 0, 0]) = Inr f'" "f_names f' = [[0x61]]"
    by (simp add: read_file_def sample_header sample_region drop_sample sample_editor)
  from editor_region_irrelevant [OF f(1) f'(1)] f f' show ?thesis by (auto simp: drop_sample)
qed

lemma read_written_file_witness:
  "read_file (concat (file_chunks \<lparr>st_names = [[0x61], [0x61, 0x62]], st_index = Map.empty\<rparr>
       [\<lparr>label_name = 1, label_offset = 8\<rparr>, \<lparr>label_name = 0, label_offset = 4\<rparr>] []
       (record_bytes (WLitData 1 [7])) [1]
       [\<lparr>s_kind = 1, s_comment = comment0, s_blank = \<lparr>b_anchor = 4, b_run_len = 2\<rparr>\<rparr>]))
   = Inr \<lparr>f_version = 3, f_flags = 1, f_names = [[0x61], [0x61, 0x62]],
       f_labels = [\<lparr>label_name = 0, label_offset = 4\<rparr>, \<lparr>label_name = 1, label_offset = 8\<rparr>], f_locals = [],
       f_globals = [1],
       f_sidecar = [\<lparr>s_kind = 1, s_comment = comment0, s_blank = \<lparr>b_anchor = 4, b_run_len = 2\<rparr>\<rparr>],
       f_comments = [], f_records = [record_of (WLitData 1 [7])]\<rparr>"
proof -
  have "read_file (concat (file_chunks \<lparr>st_names = [[0x61], [0x61, 0x62]], st_index = Map.empty\<rparr>
       [\<lparr>label_name = 1, label_offset = 8\<rparr>, \<lparr>label_name = 0, label_offset = 4\<rparr>] []
       (record_bytes (WLitData 1 [7])) [1]
       [\<lparr>s_kind = 1, s_comment = comment0, s_blank = \<lparr>b_anchor = 4, b_run_len = 2\<rparr>\<rparr>])) = Inr
     \<lparr>f_version = 3, f_flags = 1, f_names = [[0x61], [0x61, 0x62]],
     f_labels = sort_key label_key [\<lparr>label_name = 1, label_offset = 8\<rparr>, \<lparr>label_name = 0, label_offset = 4\<rparr>],
     f_locals = sort_key local_key [], f_globals = sort [1],
     f_sidecar = map sidecar_view (sort_key (\<lambda>r. sint (anchor r))
       [\<lparr>s_kind = 1, s_comment = comment0, s_blank = \<lparr>b_anchor = 4, b_run_len = 2\<rparr>\<rparr>]),
     f_comments = sidecar_comments (map sidecar_view (sort_key (\<lambda>r. sint (anchor r))
       [\<lparr>s_kind = 1, s_comment = comment0, s_blank = \<lparr>b_anchor = 4, b_run_len = 2\<rparr>\<rparr>])),
     f_records = map record_of [WLitData 1 [7]]\<rparr>"
    by (rule read_written_file [of "\<lparr>st_names = [[0x61], [0x61, 0x62]], st_index = Map.empty\<rparr>", simplified])
      (simp_all add: write_file_buffer write_lit_data_def record_bytes_def write_header_def sidecar_row_ok_def
        anchor_def comment0_def file_chunks_def Let_def file_magic_def append_editor_region_eq
        append_name_table_def append_global_flags_def append_sidecar_def write_label_table_def
        write_local_table_def put_table_def put_label_row_def put_name_def put_sidecar_row_def
        put_uvarint.simps label_key_def)
  then show ?thesis by (simp add: label_key_def sidecar_view_def comment0_def sidecar_comments_def)
qed

section \<open>Malformed files\<close>

lemma get_no_panic [simp]:
  "get_u8 msg buf \<noteq> Inl Panic" "get_u16 msg buf \<noteq> Inl Panic" "get_uvarint msg buf \<noteq> Inl Panic"
  by (auto simp: get_u8_def get_u16_def get_uvarint_def split: list.splits option.splits)

lemma read_rows_panic: "read_rows get n s buf = Inl Panic \<Longrightarrow> \<exists>s buf. get s buf = Inl Panic"
  by (induction n arbitrary: s buf) (auto elim!: sbind_Inl_cases)

lemma read_n_panic: "read_n get n buf = Inl Panic \<Longrightarrow> \<exists>buf. get buf = Inl Panic"
  by (induction n arbitrary: buf) (auto elim!: sbind_Inl_cases)

lemma read_table_panic: "read_table msg get s buf = Inl Panic \<Longrightarrow> \<exists>s buf. get s buf = Inl Panic"
  by (auto simp: read_table_def elim!: sbind_Inl_cases dest: read_rows_panic)

lemma tables_no_panic [simp]:
  "read_label_table buf \<noteq> Inl Panic" "read_local_table buf \<noteq> Inl Panic"
  "read_global_flags buf \<noteq> Inl Panic" "read_sidecar tagged buf \<noteq> Inl Panic"
  by (auto simp: read_label_table_def read_local_table_def read_global_flags_def read_sidecar_def
      get_label_row_def get_local_row_def get_sidecar_row_def get_sidecar_tail_def
      dest!: read_table_panic read_n_panic elim!: sbind_Inl_cases split: if_split_asm)

lemma read_patch_no_panic [simp]: "read_patch buf \<noteq> Inl Panic"
  by (auto simp: read_patch_def Let_def split: list.splits)

lemma read_element_no_panic [simp]: "read_element buf \<noteq> Inl Panic"
  by (auto simp: read_element_def elim!: sbind_Inl_cases dest!: read_n_panic)

lemma read_elements_no_panic [simp]: "read_elements buf \<noteq> Inl Panic"
proof (induction buf rule: read_elements.induct)
  case (1 buf)
  show ?case
  proof (cases "buf = [] \<or> (\<exists>e. read_element buf = Inl e)")
    case True
    then show ?thesis using read_element_no_panic [of buf] by (auto simp: read_elements.simps [of buf])
  next
    case False
    then obtain el rest where n: "buf \<noteq> []" "read_element buf = Inr (el, rest)"
      by (cases "read_element buf") auto
    with 1 [OF n refl] show ?thesis
      by (simp add: read_elements.simps [of buf]) (cases "read_elements rest", auto)
  qed
qed

lemma record_next_no_panic [simp]: "record_next buf \<noteq> Inl Panic"
  by (auto simp: record_next_def Let_def read_payload_def read_insn_run_def
      split: list.splits if_split_asm elim!: sbind_Inl_cases)

lemma read_records_no_panic [simp]: "read_records buf \<noteq> Inl Panic"
proof (induction buf rule: read_records.induct)
  case (1 buf)
  show ?case
  proof (cases "buf = [] \<or> (\<exists>e. record_next buf = Inl e)")
    case True
    then show ?thesis using record_next_no_panic [of buf] by (auto simp: read_records.simps [of buf])
  next
    case False
    then obtain rec rest where n: "buf \<noteq> []" "record_next buf = Inr (rec, rest)"
      by (cases "record_next buf") auto
    with 1 [OF n refl] show ?thesis
      by (simp add: read_records.simps [of buf]) (cases "read_records rest", auto)
  qed
qed

lemma regions_panic:
  "read_header buf \<noteq> Inl Panic" "read_assembler_region off buf \<noteq> Inl Panic"
  "read_editor_region off tagged ed = Inl Panic \<Longrightarrow> read_name_table off ed = Inl Panic"
  by (auto simp: read_header_def read_assembler_region_def read_editor_region_def Let_def
      elim!: sbind_Inl_cases split: if_split_asm)

text \<open>
  \<^verbatim>\<open>ReadFile\<close> answers every byte string with a file or an error, except that it panics on
  some whose name table panics: a shared or suffix length of \<open>2^63\<close> or more (or a suffix
  length that overflows the position) passes the checks as a negative \<^verbatim>\<open>int\<close> and then bounds a
  slice.
\<close>

theorem read_file_panic:
  assumes "read_file buf = Inl Panic"
  shows "read_name_table (editor_offset_of buf) (drop (editor_offset_of buf) buf) = Inl Panic"
proof -
  have "off = editor_offset_of buf" if "read_header buf = Inr (v, fl, off)" for v fl off
    using that by (auto simp: read_header_def Let_def split: if_splits)
  with assms show ?thesis
    unfolding read_file_def by (auto elim!: sbind_Inl_cases dest: regions_panic(3) simp: regions_panic(1,2))
qed

definition hostile_file :: bytes where
  "hostile_file = file_magic @ [3, 0, 1, 0, 16, 0, 0, 0] @ [0, 0, 0, 0] @
     [1, 0, 0x80, 0x80, 0x80, 0x80, 0x80, 0x80, 0x80, 0x80, 0x80, 1, 0]"

lemma hostile_header: "read_header hostile_file = Inr (3, 1, 16)"
  by (simp add: hostile_file_def file_magic_def read_header_def editor_offset_of_def Let_def)

lemma hostile_regions:
  "read_assembler_region 16 hostile_file = Inr ([], [], [])"
  "read_editor_region 16 True (drop 16 hostile_file) = Inl Panic"
  by (simp_all add: hostile_file_def file_magic_def read_assembler_region_def read_editor_region_def
      read_label_table_def read_local_table_def read_name_table_def read_table_def get_u16_def get_uvarint_def
      get_name_def read_records.simps Let_def)

lemma hostile_file_panics: "read_file hostile_file = Inl Panic"
  by (simp add: read_file_def hostile_header hostile_regions)

lemma read_file_panic_witness:
  "read_name_table (editor_offset_of hostile_file) (drop (editor_offset_of hostile_file) hostile_file) = Inl Panic"
  by (rule read_file_panic [OF hostile_file_panics])

end
