(* ===== verification/Edit_Model.thy ===== *)
theory Edit_Model
  imports Prelude
begin

text \<open>
  The document of the editor, \<^verbatim>\<open>tools/sam-aarch64/editmodel/editmodel.go\<close>: lines in blocks that
  split and merge, the location map from record identifiers to blocks, and the undo and redo
  journals.

  A block is a pointer in the source: the location map holds pointers and compares them.  Here
  a block carries its address, and a document the next unused one.
\<close>

section \<open>State\<close>

abbreviation max_record_id :: u32 where "max_record_id \<equiv> 0xFFFFFF"
abbreviation block_capacity :: nat where "block_capacity \<equiv> 8192"
abbreviation merge_threshold :: nat where "merge_threshold \<equiv> block_capacity div 4"
abbreviation line_overhead :: nat where "line_overhead \<equiv> 5"
abbreviation max_undo_depth :: nat where "max_undo_depth \<equiv> 256"

record line =
  line_id :: u32
  line_text :: bytes

record block =
  blk_addr :: nat
  blk_lines :: "line list"

datatype op_kind = OpInsert | OpDelete

record edit_entry =
  e_op :: op_kind
  e_at :: nat
  e_id :: u32
  e_text :: bytes

record document =
  doc_blocks :: "block list"
  doc_next :: u32
  doc_loc :: "u32 \<rightharpoonup> nat"
  doc_undo :: "edit_entry list"
  doc_redo :: "edit_entry list"
  doc_fresh :: nat

definition new_document :: document where
  "new_document = \<lparr>doc_blocks = [], doc_next = 1, doc_loc = Map.empty, doc_undo = [], doc_redo = [], doc_fresh = 0\<rparr>"

definition line_bytes :: "line \<Rightarrow> nat" where
  "line_bytes l = length (line_text l) + line_overhead"

definition lines_bytes :: "line list \<Rightarrow> nat" where
  "lines_bytes ls = sum_list (map line_bytes ls)"

definition block_bytes :: "block \<Rightarrow> nat" where
  "block_bytes b = lines_bytes (blk_lines b)"

definition line_count :: "document \<Rightarrow> nat" where
  "line_count d = sum_list (map (\<lambda>b. length (blk_lines b)) (doc_blocks d))"

text \<open>The loop of \<^verbatim>\<open>blockAndLocalIndex\<close>: block index \<open>i\<close>, lines before it \<open>acc\<close>.\<close>

fun block_search :: "block list \<Rightarrow> nat \<Rightarrow> nat \<Rightarrow> nat \<Rightarrow> (nat \<times> nat) option" where
  "block_search [] at i acc = None"
| "block_search (b # bs) at i acc =
     (if at < acc + length (blk_lines b) then Some (i, at - acc)
      else block_search bs at (Suc i) (acc + length (blk_lines b)))"

definition block_and_local_index :: "document \<Rightarrow> nat \<Rightarrow> nat \<times> nat" where
  "block_and_local_index d at =
     (case block_search (doc_blocks d) at 0 0 of
        Some r \<Rightarrow> r
      | None \<Rightarrow> (if doc_blocks d = [] then (0, 0)
                 else (length (doc_blocks d) - 1, length (blk_lines (last (doc_blocks d))))))"

section \<open>Structural edits\<close>

text \<open>Re-pointing the lines that moved to the block at \<open>a\<close>.\<close>

definition repoint :: "line list \<Rightarrow> nat \<Rightarrow> (u32 \<rightharpoonup> nat) \<Rightarrow> u32 \<rightharpoonup> nat" where
  "repoint ls a loc = foldl (\<lambda>m l. m(line_id l \<mapsto> a)) loc ls"

definition insert_block :: "nat \<Rightarrow> block \<Rightarrow> block list \<Rightarrow> block list" where
  "insert_block i b bs = take i bs @ [b] @ drop i bs"

definition remove_block :: "nat \<Rightarrow> block list \<Rightarrow> block list" where
  "remove_block i bs = take i bs @ drop (Suc i) bs"

definition split_block :: "nat \<Rightarrow> document \<Rightarrow> document" where
  "split_block i d =
     (let b = doc_blocks d ! i; ls = blk_lines b; mid = length ls div 2 in
      if length ls < 2 then d
      else let right = \<lparr>blk_addr = doc_fresh d, blk_lines = drop mid ls\<rparr>;
               left = b\<lparr>blk_lines := take mid ls\<rparr>
           in d\<lparr>doc_blocks := insert_block (Suc i) right ((doc_blocks d)[i := left]),
                doc_loc := repoint (drop mid ls) (doc_fresh d) (doc_loc d),
                doc_fresh := Suc (doc_fresh d)\<rparr>)"

definition do_insert :: "nat \<Rightarrow> u32 \<Rightarrow> bytes \<Rightarrow> document \<Rightarrow> document" where
  "do_insert at k text d =
     (let l = \<lparr>line_id = k, line_text = text\<rparr> in
      if doc_blocks d = []
      then d\<lparr>doc_blocks := [\<lparr>blk_addr = doc_fresh d, blk_lines = [l]\<rparr>],
             doc_loc := (doc_loc d)(k \<mapsto> doc_fresh d), doc_fresh := Suc (doc_fresh d)\<rparr>
      else let (i, j) = block_and_local_index d at;
               b = doc_blocks d ! i;
               b' = b\<lparr>blk_lines := take j (blk_lines b) @ [l] @ drop j (blk_lines b)\<rparr>;
               d' = d\<lparr>doc_blocks := (doc_blocks d)[i := b'], doc_loc := (doc_loc d)(k \<mapsto> blk_addr b)\<rparr>
           in if block_bytes b' > block_capacity \<and> length (blk_lines b') \<ge> 2 then split_block i d' else d')"

text \<open>The second block is absorbed into the first one, at \<open>i\<close>.\<close>

definition absorb :: "nat \<Rightarrow> document \<Rightarrow> document" where
  "absorb i d =
     (let b = doc_blocks d ! i; next_b = doc_blocks d ! Suc i in
      d\<lparr>doc_blocks := remove_block (Suc i) ((doc_blocks d)[i := b\<lparr>blk_lines := blk_lines b @ blk_lines next_b\<rparr>]),
        doc_loc := repoint (blk_lines next_b) (blk_addr b) (doc_loc d)\<rparr>)"

definition try_merge :: "nat \<Rightarrow> document \<Rightarrow> document" where
  "try_merge i d =
     (if Suc i < length (doc_blocks d)
         \<and> block_bytes (doc_blocks d ! i) + block_bytes (doc_blocks d ! Suc i) \<le> block_capacity
      then absorb i d
      else if 0 < i \<and> block_bytes (doc_blocks d ! (i - 1)) + block_bytes (doc_blocks d ! i) \<le> block_capacity
      then absorb (i - 1) d
      else d)"

text \<open>The slices are indexed without a check, so an index past the end panics.\<close>

definition do_delete :: "nat \<Rightarrow> document \<Rightarrow> ((u32 \<times> bytes) \<times> document) res" where
  "do_delete at d =
     (let (i, j) = block_and_local_index d at in
      if i \<ge> length (doc_blocks d) then Inl Panic
      else if j \<ge> length (blk_lines (doc_blocks d ! i)) then Inl Panic
      else let b = doc_blocks d ! i;
               l = blk_lines b ! j;
               b' = b\<lparr>blk_lines := take j (blk_lines b) @ drop (Suc j) (blk_lines b)\<rparr>;
               d' = d\<lparr>doc_loc := (doc_loc d)(line_id l := None)\<rparr>
           in Inr ((line_id l, line_text l),
                if blk_lines b' = [] then d'\<lparr>doc_blocks := remove_block i (doc_blocks d)\<rparr>
                else let d'' = d'\<lparr>doc_blocks := (doc_blocks d)[i := b']\<rparr>
                     in if block_bytes b' < merge_threshold then try_merge i d'' else d''))"

section \<open>Lookup\<close>

fun local_index :: "line list \<Rightarrow> u32 \<Rightarrow> nat option" where
  "local_index [] k = None"
| "local_index (l # ls) k = (if line_id l = k then Some 0 else map_option Suc (local_index ls k))"

fun index_search :: "block list \<Rightarrow> nat \<Rightarrow> u32 \<Rightarrow> nat \<Rightarrow> nat option" where
  "index_search [] a k offset = None"
| "index_search (b # bs) a k offset =
     (if blk_addr b = a then map_option (\<lambda>j. offset + j) (local_index (blk_lines b) k)
      else index_search bs a k (offset + length (blk_lines b)))"

definition index_of :: "document \<Rightarrow> u32 \<Rightarrow> nat option" where
  "index_of d k = (case doc_loc d k of None \<Rightarrow> None | Some a \<Rightarrow> index_search (doc_blocks d) a k 0)"

definition line_at :: "document \<Rightarrow> int \<Rightarrow> (u32 \<times> bytes) res" where
  "line_at d n =
     (if n < 0 \<or> n \<ge> int (line_count d) then Inl Panic
      else let (i, j) = block_and_local_index d (nat n); l = blk_lines (doc_blocks d ! i) ! j
           in Inr (line_id l, line_text l))"

fun collect :: "document \<Rightarrow> int list \<Rightarrow> (u32 \<times> bytes) list res" where
  "collect d [] = Inr []"
| "collect d (n # ns) = sbind (line_at d n) (\<lambda>l. sbind (collect d ns) (\<lambda>ls. Inr (l # ls)))"

text \<open>
  \<^verbatim>\<open>from + count\<close> is 64-bit arithmetic; when it wraps, the capacity handed to \<^verbatim>\<open>make\<close> is
  negative and it panics.
\<close>

definition render :: "document \<Rightarrow> int \<Rightarrow> int \<Rightarrow> (u32 \<times> bytes) list res" where
  "render d start count =
     (if count \<le> 0 \<or> start \<ge> int (line_count d) \<or> start < 0 then Inr []
      else let stop = min (sint (word_of_int (start + count) :: i64)) (int (line_count d))
           in if stop < start then Inl Panic else collect d [start..stop - 1])"

section \<open>Journaled edits\<close>

definition push_undo :: "edit_entry \<Rightarrow> document \<Rightarrow> document" where
  "push_undo e d =
     (let u = doc_undo d @ [e]
      in d\<lparr>doc_undo := (if length u > max_undo_depth then tl u else u)\<rparr>)"

definition insert_line :: "int \<Rightarrow> bytes \<Rightarrow> document \<Rightarrow> (u32 \<times> document) res" where
  "insert_line at text d =
     (if at < 0 \<or> at > int (line_count d) then Inl Panic
      else if doc_next d > max_record_id then Inl Panic
      else let k = doc_next d;
               d1 = do_insert (nat at) k text (d\<lparr>doc_next := k + 1\<rparr>);
               d2 = push_undo \<lparr>e_op = OpInsert, e_at = nat at, e_id = k, e_text = text\<rparr> d1
           in Inr (k, d2\<lparr>doc_redo := []\<rparr>))"

definition delete_line :: "int \<Rightarrow> document \<Rightarrow> (u32 \<times> document) res" where
  "delete_line at d =
     (if at < 0 \<or> at \<ge> int (line_count d) then Inl Panic
      else sbind (do_delete (nat at) d) (\<lambda>((k, text), d1).
        let d2 = push_undo \<lparr>e_op = OpDelete, e_at = nat at, e_id = k, e_text = text\<rparr> d1
        in Inr (k, d2\<lparr>doc_redo := []\<rparr>)))"

definition delete_by_id :: "u32 \<Rightarrow> document \<Rightarrow> document res" where
  "delete_by_id k d =
     (case index_of d k of
        None \<Rightarrow> Inl Panic
      | Some n \<Rightarrow> sbind (do_delete n d) (\<lambda>(_, d'). Inr d'))"

definition undo :: "document \<Rightarrow> (bool \<times> document) res" where
  "undo d =
     (if doc_undo d = [] then Inr (False, d)
      else let e = last (doc_undo d); d0 = d\<lparr>doc_undo := butlast (doc_undo d)\<rparr> in
           sbind (case e_op e of
                    OpInsert \<Rightarrow> delete_by_id (e_id e) d0
                  | OpDelete \<Rightarrow> Inr (do_insert (e_at e) (e_id e) (e_text e) d0))
             (\<lambda>d1. Inr (True, d1\<lparr>doc_redo := doc_redo d1 @ [e]\<rparr>)))"

definition redo :: "document \<Rightarrow> (bool \<times> document) res" where
  "redo d =
     (if doc_redo d = [] then Inr (False, d)
      else let e = last (doc_redo d); d0 = d\<lparr>doc_redo := butlast (doc_redo d)\<rparr> in
           sbind (case e_op e of
                    OpInsert \<Rightarrow> Inr (do_insert (e_at e) (e_id e) (e_text e) d0)
                  | OpDelete \<Rightarrow> delete_by_id (e_id e) d0)
             (\<lambda>d1. Inr (True, push_undo e d1)))"

end
