(* ===== verification/Edit_Inv.thy ===== *)
theory Edit_Inv
  imports Edit_Model
begin

text \<open>
  The storage invariant of a document and the abstraction to the sequence of its lines: every
  structural edit preserves the invariant and is an edit of that sequence.  \<^verbatim>\<open>checkInvariants\<close>, the
  check of the repository's tests, is the storage invariant together with the capacity rule.
\<close>

section \<open>Invariant and abstraction\<close>

definition blocks_lines :: "block list \<Rightarrow> line list" where
  "blocks_lines bs = concat (map blk_lines bs)"

definition doc_lines :: "document \<Rightarrow> line list" where
  "doc_lines d = blocks_lines (doc_blocks d)"

definition ids :: "line list \<Rightarrow> u32 set" where
  "ids ls = line_id ` set ls"

definition loc_ok :: "block list \<Rightarrow> (u32 \<rightharpoonup> nat) \<Rightarrow> bool" where
  "loc_ok bs loc \<longleftrightarrow> (\<forall>k a. loc k = Some a \<longleftrightarrow> (\<exists>b \<in> set bs. blk_addr b = a \<and> k \<in> ids (blk_lines b)))"

definition storage_ok :: "document \<Rightarrow> bool" where
  "storage_ok d \<longleftrightarrow>
     distinct (map blk_addr (doc_blocks d)) \<and> (\<forall>b \<in> set (doc_blocks d). blk_addr b < doc_fresh d)
     \<and> (\<forall>b \<in> set (doc_blocks d). blk_lines b \<noteq> [])
     \<and> distinct (map line_id (doc_lines d)) \<and> loc_ok (doc_blocks d) (doc_loc d)"

text \<open>
  \<^verbatim>\<open>checkInvariants\<close>: no block is empty, every line's identifier is unique and located in its block, a
  block of two or more lines is within capacity, and the location map has no other entries.
\<close>

definition check_invariants :: "document \<Rightarrow> bool" where
  "check_invariants d \<longleftrightarrow>
     (\<forall>b \<in> set (doc_blocks d). blk_lines b \<noteq> []
        \<and> (\<forall>l \<in> set (blk_lines b). doc_loc d (line_id l) = Some (blk_addr b))
        \<and> \<not> (2 \<le> length (blk_lines b) \<and> block_capacity < block_bytes b))
     \<and> distinct (map line_id (doc_lines d))
     \<and> card (dom (doc_loc d)) = length (doc_lines d)
     \<and> (\<forall>k a. doc_loc d k = Some a \<longrightarrow> (\<exists>b \<in> set (doc_blocks d). blk_addr b = a \<and> k \<in> ids (blk_lines b)))
     \<and> length (doc_lines d) = line_count d"

lemma blocks_lines_simps [simp]:
  "blocks_lines [] = []" "blocks_lines (b # bs) = blk_lines b @ blocks_lines bs"
  "blocks_lines (bs @ cs) = blocks_lines bs @ blocks_lines cs"
  by (simp_all add: blocks_lines_def)

lemma ids_simps [simp]: "ids [] = {}" "ids (l # ls) = insert (line_id l) (ids ls)" "ids (ls @ ms) = ids ls \<union> ids ms"
  by (auto simp: ids_def)

lemma ids_blocks_lines: "ids (blocks_lines bs) = (\<Union>b \<in> set bs. ids (blk_lines b))"
  by (auto simp: blocks_lines_def ids_def)

lemma line_count_eq: "line_count d = length (doc_lines d)"
  by (simp add: line_count_def doc_lines_def blocks_lines_def length_concat comp_def)

lemma distinct_ids_append:
  "distinct (map line_id (ls @ ms)) \<longleftrightarrow> distinct (map line_id ls) \<and> distinct (map line_id ms) \<and> ids ls \<inter> ids ms = {}"
  by (simp add: ids_def)

text \<open>On a document with the storage invariant the check can only fail for a block over capacity.\<close>

lemma check_invariants_storage:
  assumes "storage_ok d"
  shows "check_invariants d \<longleftrightarrow> (\<forall>b \<in> set (doc_blocks d). 2 \<le> length (blk_lines b) \<longrightarrow> block_bytes b \<le> block_capacity)"
proof -
  have loc: "doc_loc d k = Some a \<longleftrightarrow> (\<exists>b \<in> set (doc_blocks d). blk_addr b = a \<and> k \<in> ids (blk_lines b))" for k a
    using assms by (simp add: storage_ok_def loc_ok_def)
  have "dom (doc_loc d) = ids (doc_lines d)"
    unfolding doc_lines_def ids_blocks_lines dom_def by (auto simp: loc)
  moreover have "card (ids (doc_lines d)) = length (doc_lines d)"
    using assms distinct_card [of "map line_id (doc_lines d)"] by (simp add: storage_ok_def ids_def)
  moreover have "\<forall>b \<in> set (doc_blocks d). \<forall>l \<in> set (blk_lines b). doc_loc d (line_id l) = Some (blk_addr b)"
    by (auto simp: loc ids_def)
  ultimately show ?thesis
    using assms by (auto simp: check_invariants_def storage_ok_def loc line_count_eq not_less)
qed

lemma storage_ok_new [simp]: "storage_ok new_document" "doc_lines new_document = []"
  by (simp_all add: storage_ok_def new_document_def doc_lines_def loc_ok_def)

section \<open>Positions\<close>

lemma block_search_Some:
  "block_search bs at i acc = Some (i', j) \<Longrightarrow> acc \<le> at \<Longrightarrow>
   \<exists>pre b post. bs = pre @ b # post \<and> i' = i + length pre \<and> at = acc + length (blocks_lines pre) + j
     \<and> j < length (blk_lines b)"
proof (induction bs arbitrary: i acc)
  case (Cons b bs)
  show ?case
  proof (cases "at < acc + length (blk_lines b)")
    case True
    with Cons.prems show ?thesis by (intro exI [of _ "[]"]) auto
  next
    case False
    with Cons.prems obtain pre c post where "bs = pre @ c # post" "i' = Suc i + length pre"
        "at = acc + length (blk_lines b) + length (blocks_lines pre) + j" "j < length (blk_lines c)"
      using Cons.IH [of "Suc i" "acc + length (blk_lines b)"] by auto
    then show ?thesis by (intro exI [of _ "b # pre"]) auto
  qed
qed simp

lemma block_search_None: "block_search bs at i acc = None \<Longrightarrow> acc + length (blocks_lines bs) \<le> at \<or> at < acc"
proof (induction bs arbitrary: i acc)
  case (Cons b bs)
  then have n: "\<not> at < acc + length (blk_lines b)"
      and "block_search bs at (Suc i) (acc + length (blk_lines b)) = None"
    by (auto split: if_split_asm)
  from Cons.IH [OF this(2)] n show ?case by auto
qed auto

lemma block_position:
  assumes "doc_blocks d \<noteq> []" and "at \<le> length (doc_lines d)"
  obtains pre b post j where "doc_blocks d = pre @ b # post"
    and "block_and_local_index d at = (length pre, j)" and "at = length (blocks_lines pre) + j"
    and "j \<le> length (blk_lines b)" and "at < length (doc_lines d) \<Longrightarrow> j < length (blk_lines b)"
proof (cases "block_search (doc_blocks d) at 0 0")
  case None
  from block_search_None [OF None] assms(2) have at: "at = length (doc_lines d)"
    by (simp add: doc_lines_def)
  have d: "doc_blocks d = butlast (doc_blocks d) @ last (doc_blocks d) # []"
    using assms(1) by simp
  then have l: "length (doc_lines d) = length (blocks_lines (butlast (doc_blocks d))) + length (blk_lines (last (doc_blocks d)))"
    unfolding doc_lines_def by (metis append_Nil2 blocks_lines_simps length_append)
  have "block_and_local_index d at = (length (butlast (doc_blocks d)), length (blk_lines (last (doc_blocks d))))"
    using None assms(1) by (simp add: block_and_local_index_def)
  from that [OF d this _ order_refl] at l show thesis by simp
next
  case (Some r)
  then obtain i j where r: "block_search (doc_blocks d) at 0 0 = Some (i, j)" by (cases r) auto
  from block_search_Some [OF r] obtain pre b post where p: "doc_blocks d = pre @ b # post" "i = length pre"
      "at = length (blocks_lines pre) + j" "j < length (blk_lines b)" by auto
  have "block_and_local_index d at = (length pre, j)" using r p(2) by (simp add: block_and_local_index_def)
  from that [OF p(1) this p(3)] p(4) show thesis by simp
qed

section \<open>Splitting and merging\<close>

lemma repoint_apply: "repoint ls a loc k = (if k \<in> ids ls then Some a else loc k)"
  by (induction ls arbitrary: loc) (auto simp: repoint_def)

lemma split_block_eq:
  assumes "doc_blocks d = pre @ b # post" and "2 \<le> length (blk_lines b)"
  defines "mid \<equiv> length (blk_lines b) div 2"
  shows "doc_blocks (split_block (length pre) d) =
      pre @ [b\<lparr>blk_lines := take mid (blk_lines b)\<rparr>, \<lparr>blk_addr = doc_fresh d, blk_lines = drop mid (blk_lines b)\<rparr>] @ post"
    and "doc_loc (split_block (length pre) d) = repoint (drop mid (blk_lines b)) (doc_fresh d) (doc_loc d)"
    and "doc_fresh (split_block (length pre) d) = Suc (doc_fresh d)"
  using assms by (simp_all add: split_block_def Let_def insert_block_def list_update_append nth_append)

lemma split_block_ok:
  assumes "storage_ok d" and "doc_blocks d = pre @ b # post" and "2 \<le> length (blk_lines b)"
  shows "storage_ok (split_block (length pre) d)" and "doc_lines (split_block (length pre) d) = doc_lines d"
proof -
  define mid where "mid = length (blk_lines b) div 2"
  note e = split_block_eq [OF assms(2,3), folded mid_def]
  have td: "blk_lines b = take mid (blk_lines b) @ drop mid (blk_lines b)" by simp
  have ne: "take mid (blk_lines b) \<noteq> []" "drop mid (blk_lines b) \<noteq> []" using assms(3) by (auto simp: mid_def)
  show l: "doc_lines (split_block (length pre) d) = doc_lines d"
    unfolding doc_lines_def e(1) assms(2) by (simp add: append_assoc [symmetric] del: append_assoc)
  have fr: "\<forall>c \<in> set (doc_blocks d). blk_addr c < doc_fresh d" and
    ds: "distinct (map blk_addr (doc_blocks d))" and lo: "loc_ok (doc_blocks d) (doc_loc d)"
    and di: "distinct (map line_id (doc_lines d))"
    using assms(1) by (auto simp: storage_ok_def)
  have "ids (take mid (blk_lines b)) \<inter> ids (drop mid (blk_lines b)) = {}"
    using di td unfolding doc_lines_def assms(2)
    by (metis blocks_lines_simps(2,3) distinct_ids_append)
  moreover have "ids (blk_lines b) \<inter> ids (blocks_lines pre) = {}" "ids (blk_lines b) \<inter> ids (blocks_lines post) = {}"
    using di unfolding doc_lines_def assms(2) by (auto simp: distinct_ids_append simp del: map_append distinct_append)
  moreover have "ids (blk_lines b) = ids (take mid (blk_lines b)) \<union> ids (drop mid (blk_lines b))"
    using td by (metis ids_simps(3))
  ultimately have "loc_ok (doc_blocks (split_block (length pre) d)) (doc_loc (split_block (length pre) d))"
    using lo fr unfolding loc_ok_def e assms(2) repoint_apply ids_blocks_lines
    by (auto 4 3)
  with assms(1) l show "storage_ok (split_block (length pre) d)"
    using ne unfolding storage_ok_def e(1,3) assms(2) by (auto simp: less_Suc_eq)
qed

lemma absorb_eq:
  assumes "doc_blocks d = pre @ b # c # post"
  shows "doc_blocks (absorb (length pre) d) = pre @ b\<lparr>blk_lines := blk_lines b @ blk_lines c\<rparr> # post"
    and "doc_loc (absorb (length pre) d) = repoint (blk_lines c) (blk_addr b) (doc_loc d)"
    and "doc_fresh (absorb (length pre) d) = doc_fresh d"
  using assms by (simp_all add: absorb_def Let_def remove_block_def nth_append list_update_append)

lemma absorb_ok:
  assumes "storage_ok d" and "doc_blocks d = pre @ b # c # post"
  shows "storage_ok (absorb (length pre) d)" and "doc_lines (absorb (length pre) d) = doc_lines d"
proof -
  note e = absorb_eq [OF assms(2)]
  show l: "doc_lines (absorb (length pre) d) = doc_lines d"
    unfolding doc_lines_def e(1) assms(2) by simp
  have lo: "loc_ok (doc_blocks d) (doc_loc d)" and di: "distinct (map line_id (doc_lines d))"
    using assms(1) by (auto simp: storage_ok_def)
  have "ids (blk_lines c) \<inter> ids (blk_lines b) = {}" "ids (blk_lines c) \<inter> ids (blocks_lines pre) = {}"
      "ids (blk_lines c) \<inter> ids (blocks_lines post) = {}"
    using di unfolding doc_lines_def assms(2)
    by (auto simp: distinct_ids_append simp del: map_append distinct_append)
  then have "loc_ok (doc_blocks (absorb (length pre) d)) (doc_loc (absorb (length pre) d))"
    using lo unfolding loc_ok_def e assms(2) repoint_apply ids_blocks_lines by (auto 4 3)
  with assms(1) l show "storage_ok (absorb (length pre) d)"
    unfolding storage_ok_def e(1,3) assms(2) by auto
qed

lemma two_blocks:
  assumes "Suc i < length bs"
  obtains pre b c post where "bs = pre @ b # c # post" and "length pre = i"
proof -
  have "bs = take i bs @ bs ! i # bs ! Suc i # drop (Suc (Suc i)) bs"
    using assms by (simp add: Cons_nth_drop_Suc)
  then show thesis using assms by (intro that [of "take i bs"]) simp_all
qed

lemma absorb_index_ok:
  assumes "storage_ok d" and "Suc i < length (doc_blocks d)"
  shows "storage_ok (absorb i d)" and "doc_lines (absorb i d) = doc_lines d"
proof -
  obtain pre b c post where "doc_blocks d = pre @ b # c # post" "length pre = i"
    by (rule two_blocks [OF assms(2)]) blast
  with absorb_ok [OF assms(1) this(1)] show "storage_ok (absorb i d)" "doc_lines (absorb i d) = doc_lines d"
    by simp_all
qed

lemma try_merge_ok:
  assumes "storage_ok d" and "i < length (doc_blocks d)"
  shows "storage_ok (try_merge i d)" and "doc_lines (try_merge i d) = doc_lines d"
  using absorb_index_ok [OF assms(1), of i] absorb_index_ok [OF assms(1), of "i - 1"] assms
  by (auto simp: try_merge_def)

text \<open>The structural edits leave the journals and the identifier counter alone.\<close>

definition same_journal :: "document \<Rightarrow> document \<Rightarrow> bool" where
  "same_journal d d' \<longleftrightarrow> doc_next d' = doc_next d \<and> doc_undo d' = doc_undo d \<and> doc_redo d' = doc_redo d"

lemma same_journal_structural:
  "same_journal d (split_block i d)" "same_journal d (absorb i d)" "same_journal d (try_merge i d)"
  by (simp_all add: same_journal_def split_block_def absorb_def try_merge_def Let_def)

lemma same_journal_do_insert: "same_journal d (do_insert at k text d)"
  by (auto simp: do_insert_def same_journal_def split_block_def Let_def split: prod.splits)

lemma same_journal_do_delete: "do_delete at d = Inr (r, d') \<Longrightarrow> same_journal d d'"
  by (auto simp: do_delete_def same_journal_def try_merge_def absorb_def Let_def
      split: prod.splits if_split_asm)

section \<open>Insertion and deletion\<close>

lemma distinct_ids_insert:
  "distinct (map line_id (ls @ ms)) \<Longrightarrow> line_id l \<notin> ids (ls @ ms) \<Longrightarrow> distinct (map line_id (ls @ l # ms))"
  by (auto simp: ids_def)

lemma distinct_ids_remove:
  "distinct (map line_id (ls @ l # ms)) \<Longrightarrow> distinct (map line_id (ls @ ms)) \<and> line_id l \<notin> ids (ls @ ms)"
  by (auto simp: ids_def)

lemma do_insert_ok:
  assumes "storage_ok d" and "k \<notin> ids (doc_lines d)" and "at \<le> length (doc_lines d)"
  shows "storage_ok (do_insert at k text d)"
    and "doc_lines (do_insert at k text d)
      = take at (doc_lines d) @ \<lparr>line_id = k, line_text = text\<rparr> # drop at (doc_lines d)"
proof -
  let ?l = "\<lparr>line_id = k, line_text = text\<rparr>"
  have "storage_ok (do_insert at k text d) \<and> doc_lines (do_insert at k text d)
      = take at (doc_lines d) @ ?l # drop at (doc_lines d)"
  proof (cases "doc_blocks d = []")
    case True
    with assms(1) show ?thesis
      by (auto simp: do_insert_def storage_ok_def doc_lines_def loc_ok_def)
  next
    case False
    obtain pre b post j where p: "doc_blocks d = pre @ b # post"
      and i: "block_and_local_index d at = (length pre, j)" and at: "at = length (blocks_lines pre) + j"
      and j: "j \<le> length (blk_lines b)"
      by (rule block_position [OF False assms(3)]) blast
    define b' where "b' = b\<lparr>blk_lines := take j (blk_lines b) @ ?l # drop j (blk_lines b)\<rparr>"
    define d' where "d' = d\<lparr>doc_blocks := pre @ b' # post, doc_loc := (doc_loc d)(k \<mapsto> blk_addr b)\<rparr>"
    have e: "do_insert at k text d =
        (if block_bytes b' > block_capacity \<and> length (blk_lines b') \<ge> 2 then split_block (length pre) d' else d')"
      using False by (simp add: do_insert_def Let_def i p b'_def d'_def)
    have td: "take j (blk_lines b) @ drop j (blk_lines b) = blk_lines b" by simp
    have ib: "ids (blk_lines b') = insert k (ids (blk_lines b))"
      using td unfolding b'_def by (metis Un_insert_right block.select_convs(2) block.surjective block.update_convs(2) ids_simps(2,3) line.select_convs(1))
    have k: "k \<notin> ids (blk_lines b)" "k \<notin> ids (blocks_lines pre)" "k \<notin> ids (blocks_lines post)"
      using assms(2) by (auto simp: doc_lines_def p)
    have ls: "doc_lines d' = take at (doc_lines d) @ ?l # drop at (doc_lines d)"
      using j by (simp add: doc_lines_def p d'_def b'_def at)
    have "distinct (map line_id (take at (doc_lines d) @ ?l # drop at (doc_lines d)))"
      by (rule distinct_ids_insert) (use assms(1,2) in \<open>simp_all add: storage_ok_def del: ids_simps\<close>)
    moreover have "loc_ok (doc_blocks d') (doc_loc d')"
      using assms(1) k ib unfolding storage_ok_def loc_ok_def d'_def p ids_blocks_lines
      by (auto 4 3 simp: b'_def)
    ultimately have s: "storage_ok d'"
      using assms(1) ls unfolding storage_ok_def by (auto simp: d'_def p b'_def)
    have "doc_blocks d' = pre @ b' # post" by (simp add: d'_def)
    from split_block_ok [OF s this] s ls show ?thesis unfolding e by simp
  qed
  then show "storage_ok (do_insert at k text d)"
    "doc_lines (do_insert at k text d) = take at (doc_lines d) @ ?l # drop at (doc_lines d)" by blast+
qed

lemma do_delete_ok:
  assumes "storage_ok d" and "at < length (doc_lines d)"
  obtains d' where "do_delete at d = Inr ((line_id (doc_lines d ! at), line_text (doc_lines d ! at)), d')"
    and "storage_ok d'" and "doc_lines d' = take at (doc_lines d) @ drop (Suc at) (doc_lines d)"
proof -
  have ne: "doc_blocks d \<noteq> []" using assms(2) by (auto simp: doc_lines_def)
  obtain pre b post j where p: "doc_blocks d = pre @ b # post"
    and i: "block_and_local_index d at = (length pre, j)" and at: "at = length (blocks_lines pre) + j"
    and j: "j < length (blk_lines b)"
    by (rule block_position [OF ne less_imp_le [OF assms(2)]]) (use assms(2) in blast)
  define l where "l = blk_lines b ! j"
  define ls' where "ls' = take j (blk_lines b) @ drop (Suc j) (blk_lines b)"
  define b' where "b' = b\<lparr>blk_lines := ls'\<rparr>"
  define d1 where "d1 = d\<lparr>doc_loc := (doc_loc d)(line_id l := None), doc_blocks := pre @ post\<rparr>"
  define d2 where "d2 = d\<lparr>doc_loc := (doc_loc d)(line_id l := None), doc_blocks := pre @ b' # post\<rparr>"
  have nth: "doc_lines d ! at = l" using j by (simp add: doc_lines_def p at l_def nth_append)
  have e: "do_delete at d = Inr ((line_id l, line_text l),
      if ls' = [] then d1 else if block_bytes b' < merge_threshold then try_merge (length pre) d2 else d2)"
    using j by (simp add: do_delete_def i p Let_def l_def ls'_def b'_def d1_def d2_def remove_block_def)
  have split: "blk_lines b = take j (blk_lines b) @ l # drop (Suc j) (blk_lines b)"
    using j by (simp add: l_def id_take_nth_drop [symmetric])
  have di: "distinct (map line_id (doc_lines d))" and lo: "loc_ok (doc_blocks d) (doc_loc d)"
    using assms(1) by (auto simp: storage_ok_def)
  have di': "distinct (map line_id ((blocks_lines pre @ take j (blk_lines b)) @ l # drop (Suc j) (blk_lines b) @ blocks_lines post))"
    using di split unfolding doc_lines_def p by (metis append.assoc append_Cons blocks_lines_simps(2,3))
  note rm = distinct_ids_remove [OF di']
  have ib: "ids (blk_lines b) = insert (line_id l) (ids ls')" using split by (metis Un_insert_right ids_simps(2,3) ls'_def)
  have nl: "line_id l \<notin> ids ls'" "line_id l \<notin> ids (blocks_lines pre)" "line_id l \<notin> ids (blocks_lines post)"
    using rm by (auto simp: ls'_def)
  have ls: "doc_lines d2 = take at (doc_lines d) @ drop (Suc at) (doc_lines d)"
    using j by (simp add: doc_lines_def p d2_def b'_def ls'_def at)
  have dist: "distinct (map line_id (doc_lines d2))"
    using rm by (simp add: doc_lines_def d2_def b'_def ls'_def)
  show thesis
  proof (cases "ls' = []")
    case True
    have "doc_lines d1 = doc_lines d2" by (simp add: doc_lines_def d1_def d2_def b'_def True)
    moreover have "loc_ok (doc_blocks d1) (doc_loc d1)"
      using lo ib nl True unfolding loc_ok_def d1_def p ids_blocks_lines by (auto 4 3)
    ultimately have "storage_ok d1" "doc_lines d1 = take at (doc_lines d) @ drop (Suc at) (doc_lines d)"
      using assms(1) ls dist unfolding storage_ok_def by (auto simp: d1_def p)
    with that [of d1] e True nth show thesis by simp
  next
    case False
    have "loc_ok (doc_blocks d2) (doc_loc d2)"
      using lo ib nl unfolding loc_ok_def d2_def p ids_blocks_lines by (auto 4 3 simp: b'_def)
    then have s: "storage_ok d2"
      using assms(1) False dist unfolding storage_ok_def by (auto simp: d2_def p b'_def)
    have "length pre < length (doc_blocks d2)" by (simp add: d2_def)
    from try_merge_ok [OF s this] s ls show thesis
      using that e False nth by simp
  qed
qed

section \<open>Lookup\<close>

lemma local_index_append:
  "local_index (ls @ ms) k =
     (case local_index ls k of Some j \<Rightarrow> Some j | None \<Rightarrow> map_option (\<lambda>j. length ls + j) (local_index ms k))"
  by (induction ls; cases "local_index ms k") (auto split: option.splits)

lemma local_index_None: "local_index ls k = None \<longleftrightarrow> k \<notin> ids ls"
  by (induction ls) auto

lemma local_index_Some: "local_index ls k = Some n \<Longrightarrow> n < length ls \<and> line_id (ls ! n) = k"
  by (induction ls arbitrary: n) (auto split: if_splits)

lemma local_index_nth: "distinct (map line_id ls) \<Longrightarrow> n < length ls \<Longrightarrow> local_index ls (line_id (ls ! n)) = Some n"
proof (induction ls arbitrary: n)
  case (Cons l ls)
  show ?case
  proof (cases n)
    case (Suc m)
    with Cons.prems have "line_id l \<noteq> line_id (ls ! m)" by (auto simp: nth_mem)
    with Cons Suc show ?thesis by simp
  qed simp
qed simp

lemma index_search_pre:
  "a \<notin> blk_addr ` set pre \<Longrightarrow> blk_addr b = a \<Longrightarrow>
   index_search (pre @ b # post) a k off = map_option (\<lambda>j. off + length (blocks_lines pre) + j) (local_index (blk_lines b) k)"
  by (induction pre arbitrary: off) (auto simp: add.assoc)

lemma index_of_eq:
  assumes "storage_ok d"
  shows "index_of d k = local_index (doc_lines d) k"
proof (cases "doc_loc d k")
  case None
  have "k \<notin> ids (doc_lines d)"
    using assms None unfolding storage_ok_def loc_ok_def doc_lines_def ids_blocks_lines by force
  then have "local_index (doc_lines d) k = None" by (simp add: local_index_None)
  with None show ?thesis by (simp add: index_of_def)
next
  case (Some a)
  then obtain b where b: "b \<in> set (doc_blocks d)" "blk_addr b = a" "k \<in> ids (blk_lines b)"
    using assms unfolding storage_ok_def loc_ok_def by blast
  then obtain pre post where p: "doc_blocks d = pre @ b # post" by (meson split_list)
  have "a \<notin> blk_addr ` set pre" using assms b(2) unfolding storage_ok_def p by auto
  moreover have "k \<notin> ids (blocks_lines pre)"
    using assms b(3) unfolding storage_ok_def doc_lines_def p
    by (auto simp: distinct_ids_append simp del: map_append distinct_append)
  then have n: "local_index (blocks_lines pre) k = None" by (simp add: local_index_None)
  moreover obtain j where "local_index (blk_lines b) k = Some j"
    using b(3) local_index_None [of "blk_lines b" k] by auto
  ultimately show ?thesis
    using Some b(2) by (simp add: index_of_def p index_search_pre doc_lines_def local_index_append)
qed

end
