(* ===== verification/Edit_History.thy ===== *)
theory Edit_History
  imports Edit_Inv
begin

text \<open>
  Undo and redo.  The journals rest on three operations of the store only, insertion and
  deletion at an index and lookup by identifier; that is the interface \<open>line_store\<close>, and the
  document's blocks provide it.
\<close>

section \<open>Journal entries\<close>

definition entry_line :: "edit_entry \<Rightarrow> line" where
  "entry_line e = \<lparr>line_id = e_id e, line_text = e_text e\<rparr>"

text \<open>What an entry does to the sequence of lines, and when it can be applied.\<close>

definition apply_entry :: "edit_entry \<Rightarrow> line list \<Rightarrow> line list" where
  "apply_entry e ls =
     (case e_op e of
        OpInsert \<Rightarrow> take (e_at e) ls @ entry_line e # drop (e_at e) ls
      | OpDelete \<Rightarrow> take (e_at e) ls @ drop (Suc (e_at e)) ls)"

definition entry_ok :: "edit_entry \<Rightarrow> line list \<Rightarrow> bool" where
  "entry_ok e ls \<longleftrightarrow>
     (case e_op e of
        OpInsert \<Rightarrow> e_at e \<le> length ls \<and> e_id e \<notin> ids ls
      | OpDelete \<Rightarrow> e_at e < length ls \<and> ls ! e_at e = entry_line e)"

definition invert :: "edit_entry \<Rightarrow> edit_entry" where
  "invert e = e\<lparr>e_op := (case e_op e of OpInsert \<Rightarrow> OpDelete | OpDelete \<Rightarrow> OpInsert)\<rparr>"

fun entries_ok :: "edit_entry list \<Rightarrow> line list \<Rightarrow> bool" where
  "entries_ok [] ls \<longleftrightarrow> True"
| "entries_ok (e # es) ls \<longleftrightarrow> entry_ok e ls \<and> entries_ok es (apply_entry e ls)"

lemma invert_simps [simp]:
  "e_at (invert e) = e_at e" "e_id (invert e) = e_id e" "e_text (invert e) = e_text e" "invert (invert e) = e"
  by (simp_all add: invert_def split: op_kind.split)

lemma entry_line_invert [simp]: "entry_line (invert e) = entry_line e"
  by (simp add: entry_line_def)

lemma line_id_entry [simp]: "line_id (entry_line e) = e_id e"
  by (simp add: entry_line_def)

lemma entries_ok_prefix: "entries_ok (es @ fs) ls \<Longrightarrow> entries_ok es ls"
  by (induction es arbitrary: ls) auto

lemma invert_entry:
  assumes "entry_ok e ls" and "distinct (map line_id ls)"
  shows "entry_ok (invert e) (apply_entry e ls)" and "apply_entry (invert e) (apply_entry e ls) = ls"
    and "distinct (map line_id (apply_entry e ls))"
proof -
  have "entry_ok (invert e) (apply_entry e ls) \<and> apply_entry (invert e) (apply_entry e ls) = ls
      \<and> distinct (map line_id (apply_entry e ls))"
  proof (cases "e_op e")
    case OpInsert
    then have a: "e_at e \<le> length ls" "e_id e \<notin> ids (take (e_at e) ls @ drop (e_at e) ls)"
      using assms(1) by (simp_all add: entry_ok_def)
    have i: "e_op (invert e) = OpDelete" using OpInsert by (simp add: invert_def)
    show ?thesis
      using OpInsert i a assms(2) distinct_ids_insert [of "take (e_at e) ls" "drop (e_at e) ls" "entry_line e"]
      by (simp add: apply_entry_def entry_ok_def nth_append)
  next
    case OpDelete
    then have a: "e_at e < length ls" "ls ! e_at e = entry_line e"
      using assms(1) by (simp_all add: entry_ok_def)
    have s: "ls = take (e_at e) ls @ entry_line e # drop (Suc (e_at e)) ls"
      using id_take_nth_drop [OF a(1)] a(2) by simp
    have i: "e_op (invert e) = OpInsert" using OpDelete by (simp add: invert_def)
    have d: "distinct (map line_id (take (e_at e) ls @ entry_line e # drop (Suc (e_at e)) ls))"
      using assms(2) s by simp
    from distinct_ids_remove [OF d] show ?thesis
      using OpDelete i a s by (simp add: apply_entry_def entry_ok_def)
  qed
  then show "entry_ok (invert e) (apply_entry e ls)" "apply_entry (invert e) (apply_entry e ls) = ls"
    "distinct (map line_id (apply_entry e ls))" by blast+
qed

section \<open>The store\<close>

text \<open>The two arms of the \<^verbatim>\<open>switch\<close> in \<^verbatim>\<open>Undo\<close> and \<^verbatim>\<open>Redo\<close>, on any store.\<close>

definition exec_entry ::
  "(nat \<Rightarrow> u32 \<Rightarrow> bytes \<Rightarrow> 's \<Rightarrow> 's) \<Rightarrow> (nat \<Rightarrow> 's \<Rightarrow> ((u32 \<times> bytes) \<times> 's) res) \<Rightarrow> ('s \<Rightarrow> u32 \<Rightarrow> nat option)
     \<Rightarrow> edit_entry \<Rightarrow> 's \<Rightarrow> 's res" where
  "exec_entry ins del idx e s =
     (case e_op e of
        OpInsert \<Rightarrow> Inr (ins (e_at e) (e_id e) (e_text e) s)
      | OpDelete \<Rightarrow>
          (case idx s (e_id e) of
             None \<Rightarrow> Inl Panic
           | Some n \<Rightarrow> sbind (del n s) (\<lambda>(_, s'). Inr s')))"

locale line_store =
  fixes lines :: "'s \<Rightarrow> line list"
    and ok :: "'s \<Rightarrow> bool"
    and ins :: "nat \<Rightarrow> u32 \<Rightarrow> bytes \<Rightarrow> 's \<Rightarrow> 's"
    and del :: "nat \<Rightarrow> 's \<Rightarrow> ((u32 \<times> bytes) \<times> 's) res"
    and idx :: "'s \<Rightarrow> u32 \<Rightarrow> nat option"
  assumes ok_distinct: "ok s \<Longrightarrow> distinct (map line_id (lines s))"
    and ins_ok: "ok s \<Longrightarrow> k \<notin> ids (lines s) \<Longrightarrow> at \<le> length (lines s) \<Longrightarrow> ok (ins at k text s)"
    and ins_lines: "ok s \<Longrightarrow> k \<notin> ids (lines s) \<Longrightarrow> at \<le> length (lines s) \<Longrightarrow>
      lines (ins at k text s) = take at (lines s) @ \<lparr>line_id = k, line_text = text\<rparr> # drop at (lines s)"
    and del_lines: "ok s \<Longrightarrow> at < length (lines s) \<Longrightarrow>
      \<exists>s'. del at s = Inr ((line_id (lines s ! at), line_text (lines s ! at)), s') \<and> ok s'
        \<and> lines s' = take at (lines s) @ drop (Suc at) (lines s)"
    and idx_lines: "ok s \<Longrightarrow> idx s k = local_index (lines s) k"
begin

text \<open>Executing an applicable entry never panics and applies it to the lines.\<close>

lemma exec_entry_ok:
  assumes "ok s" and "entry_ok e (lines s)"
  shows "\<exists>s'. exec_entry ins del idx e s = Inr s' \<and> ok s' \<and> lines s' = apply_entry e (lines s)"
proof (cases "e_op e")
  case OpInsert
  with assms ins_ok ins_lines show ?thesis
    by (simp add: exec_entry_def entry_ok_def apply_entry_def entry_line_def)
next
  case OpDelete
  with assms(2) have a: "e_at e < length (lines s)" "lines s ! e_at e = entry_line e"
    by (simp_all add: entry_ok_def)
  have "idx s (e_id e) = Some (e_at e)"
    using local_index_nth [OF ok_distinct [OF assms(1)] a(1)] idx_lines [OF assms(1)] a(2) by simp
  with OpDelete del_lines [OF assms(1) a(1)] show ?thesis
    by (auto simp: exec_entry_def apply_entry_def)
qed

text \<open>Executing an entry and then its inverse gives the lines back.\<close>

lemma exec_invert:
  assumes "ok s" and "entry_ok e (lines s)"
  shows "\<exists>s' s''. exec_entry ins del idx e s = Inr s' \<and> exec_entry ins del idx (invert e) s' = Inr s''
    \<and> ok s'' \<and> lines s'' = lines s"
proof -
  obtain s' where s': "exec_entry ins del idx e s = Inr s'" "ok s'" "lines s' = apply_entry e (lines s)"
    using exec_entry_ok [OF assms] by blast
  note i = invert_entry [OF assms(2) ok_distinct [OF assms(1)]]
  have "entry_ok (invert e) (lines s')" using i(1) s'(3) by simp
  from exec_entry_ok [OF s'(2) this] i(2) s' show ?thesis by auto
qed

end

interpretation doc: line_store doc_lines storage_ok do_insert do_delete index_of
proof unfold_locales
  fix s at
  assume "storage_ok s" "at < length (doc_lines s)"
  then show "\<exists>s'. do_delete at s = Inr ((line_id (doc_lines s ! at), line_text (doc_lines s ! at)), s')
      \<and> storage_ok s' \<and> doc_lines s' = take at (doc_lines s) @ drop (Suc at) (doc_lines s)"
    by (rule do_delete_ok) blast
qed (simp_all add: storage_ok_def [THEN iffD1] do_insert_ok index_of_eq)

end
