(* ===== verification/Edit_Props.thy ===== *)
theory Edit_Props
  imports Edit_History
begin

text \<open>
  The document as the editor sees it: the invariant of every reachable document, the public
  operations as operations on the sequence of lines, undo and redo, and the capacity of the
  blocks.
\<close>

section \<open>The invariant\<close>

definition journal_ids :: "document \<Rightarrow> u32 set" where
  "journal_ids d = e_id ` set (doc_undo d) \<union> e_id ` set (doc_redo d)"

definition doc_ok :: "document \<Rightarrow> bool" where
  "doc_ok d \<longleftrightarrow> storage_ok d
     \<and> entries_ok (map invert (rev (doc_undo d))) (doc_lines d)
     \<and> entries_ok (rev (doc_redo d)) (doc_lines d)
     \<and> length (doc_undo d) \<le> max_undo_depth
     \<and> 1 \<le> doc_next d \<and> doc_next d \<le> max_record_id + 1
     \<and> (\<forall>k \<in> ids (doc_lines d) \<union> journal_ids d. 1 \<le> k \<and> k < doc_next d)"

lemma doc_ok_new [simp]: "doc_ok new_document"
  by (simp add: doc_ok_def journal_ids_def) (simp add: new_document_def)

lemma doc_ok_storage: "doc_ok d \<Longrightarrow> storage_ok d" "doc_ok d \<Longrightarrow> distinct (map line_id (doc_lines d))"
  by (simp_all add: doc_ok_def storage_ok_def)

text \<open>The journals are not part of the store.\<close>

lemma store_update [simp]:
  "storage_ok (d\<lparr>doc_next := n\<rparr>) = storage_ok d" "doc_lines (d\<lparr>doc_next := n\<rparr>) = doc_lines d"
  "storage_ok (d\<lparr>doc_undo := u\<rparr>) = storage_ok d" "doc_lines (d\<lparr>doc_undo := u\<rparr>) = doc_lines d"
  "storage_ok (d\<lparr>doc_redo := r\<rparr>) = storage_ok d" "doc_lines (d\<lparr>doc_redo := r\<rparr>) = doc_lines d"
  by (simp_all add: storage_ok_def doc_lines_def)

lemma push_undo_simps [simp]:
  "storage_ok (push_undo e d) = storage_ok d" "doc_lines (push_undo e d) = doc_lines d"
  "doc_next (push_undo e d) = doc_next d" "doc_redo (push_undo e d) = doc_redo d"
  by (simp_all add: push_undo_def Let_def)

lemma push_undo_journal:
  "length (doc_undo d) \<le> max_undo_depth \<Longrightarrow> length (doc_undo (push_undo e d)) \<le> max_undo_depth"
  "set (doc_undo (push_undo e d)) \<subseteq> insert e (set (doc_undo d))"
  "last (doc_undo (push_undo e d)) = e" "doc_undo (push_undo e d) \<noteq> []"
proof -
  show "last (doc_undo (push_undo e d)) = e" by (cases "doc_undo d") (auto simp: push_undo_def Let_def)
  show "set (doc_undo (push_undo e d)) \<subseteq> insert e (set (doc_undo d))"
    by (cases "doc_undo d") (auto simp: push_undo_def Let_def)
  show "doc_undo (push_undo e d) \<noteq> []" by (cases "doc_undo d") (auto simp: push_undo_def Let_def)
  show "length (doc_undo d) \<le> max_undo_depth \<Longrightarrow> length (doc_undo (push_undo e d)) \<le> max_undo_depth"
    by (simp add: push_undo_def Let_def)
qed

lemma push_undo_entries:
  assumes "entries_ok (map invert (rev (doc_undo d))) ls" and "entry_ok e ls" and "distinct (map line_id ls)"
  shows "entries_ok (map invert (rev (doc_undo (push_undo e d)))) (apply_entry e ls)"
proof -
  have all: "entries_ok (map invert (rev (doc_undo d @ [e]))) (apply_entry e ls)"
    using assms invert_entry [OF assms(2,3)] by simp
  have "doc_undo (push_undo e d) = doc_undo d @ [e] \<or> (\<exists>x. doc_undo d @ [e] = x # doc_undo (push_undo e d))"
    by (cases "doc_undo d") (auto simp: push_undo_def Let_def)
  then show ?thesis
  proof
    assume "\<exists>x. doc_undo d @ [e] = x # doc_undo (push_undo e d)"
    then obtain x where "doc_undo d @ [e] = x # doc_undo (push_undo e d)" by blast
    with all have "entries_ok (map invert (rev (doc_undo (push_undo e d))) @ [invert x]) (apply_entry e ls)"
      by simp
    then show ?thesis by (rule entries_ok_prefix)
  qed (use all in simp)
qed

text \<open>A fresh edit: the store executes the entry, the entry is journaled and redo is cleared.\<close>

lemma record_edit_ok:
  assumes d: "doc_ok d" and s: "storage_ok d1" "doc_lines d1 = apply_entry e (doc_lines d)"
    and j: "doc_undo d1 = doc_undo d" and e: "entry_ok e (doc_lines d)"
    and n: "doc_next d \<le> doc_next d1" "doc_next d1 \<le> max_record_id + 1" "1 \<le> e_id e" "e_id e < doc_next d1"
  shows "doc_ok ((push_undo e d1)\<lparr>doc_redo := []\<rparr>)"
proof -
  have "ids (apply_entry e (doc_lines d)) \<subseteq> insert (e_id e) (ids (doc_lines d))"
    by (auto simp: apply_entry_def ids_def entry_line_def split: op_kind.splits dest: in_set_takeD in_set_dropD)
  moreover have "\<forall>k \<in> ids (doc_lines d) \<union> journal_ids d. 1 \<le> k \<and> k < doc_next d1"
    using d n(1) by (auto simp: doc_ok_def intro: less_le_trans)
  moreover have "entries_ok (map invert (rev (doc_undo (push_undo e d1)))) (apply_entry e (doc_lines d))"
    using push_undo_entries [of d1 "doc_lines d" e] d e j doc_ok_storage(2) [OF d] by (simp add: doc_ok_def)
  moreover have "1 \<le> doc_next d1" using n by (meson less_imp_le order_trans)
  ultimately show ?thesis
    using d s j n push_undo_journal(1) [of d1 e] push_undo_journal(2) [of e d1]
    by (auto simp: doc_ok_def journal_ids_def)
qed

section \<open>Public edits\<close>

lemma fresh_next: "doc_ok d \<Longrightarrow> doc_next d \<notin> ids (doc_lines d)"
  by (auto simp: doc_ok_def)

lemma insert_line_ok:
  assumes "doc_ok d" and "insert_line at text d = Inr (k, d')"
  shows "doc_ok d'" and "k = doc_next d" and "doc_next d' = k + 1" and "0 \<le> at"
    and "doc_lines d' = take (nat at) (doc_lines d) @ \<lparr>line_id = k, line_text = text\<rparr> # drop (nat at) (doc_lines d)"
    and "doc_undo d' \<noteq> [] \<and> last (doc_undo d') = \<lparr>e_op = OpInsert, e_at = nat at, e_id = k, e_text = text\<rparr>"
    and "doc_redo d' = []"
proof -
  let ?e = "\<lparr>e_op = OpInsert, e_at = nat at, e_id = doc_next d, e_text = text\<rparr>"
  let ?d0 = "d\<lparr>doc_next := doc_next d + 1\<rparr>"
  let ?d1 = "do_insert (nat at) (doc_next d) text ?d0"
  have c: "0 \<le> at" "nat at \<le> length (doc_lines d)" "doc_next d \<le> max_record_id" "k = doc_next d"
      "d' = (push_undo ?e ?d1)\<lparr>doc_redo := []\<rparr>"
    using assms(2) by (auto simp: insert_line_def Let_def line_count_eq split: if_split_asm)
  have s: "storage_ok ?d0" using doc_ok_storage(1) [OF assms(1)] by simp
  have i: "storage_ok ?d1" "doc_lines ?d1 = apply_entry ?e (doc_lines d)"
    using do_insert_ok [OF s, of "doc_next d" "nat at" "text"] fresh_next [OF assms(1)] c(2)
    by (simp_all add: apply_entry_def entry_line_def del: store_update(1))
  have j: "doc_undo ?d1 = doc_undo d" "doc_next ?d1 = doc_next d + 1"
    using same_journal_do_insert [of ?d0 "nat at" "doc_next d" "text"] by (simp_all add: same_journal_def)
  have n: "doc_next d < doc_next d + 1" "doc_next d + 1 \<le> max_record_id + 1"
    using c(3) by (auto simp: word_less_nat_alt word_le_nat_alt unat_word_ariths)
  have e: "entry_ok ?e (doc_lines d)" using fresh_next [OF assms(1)] c(2) by (simp add: entry_ok_def)
  have p: "1 \<le> doc_next d" using assms(1) by (simp add: doc_ok_def)
  have "doc_ok ((push_undo ?e ?d1)\<lparr>doc_redo := []\<rparr>)"
    by (rule record_edit_ok [OF assms(1) i j(1) e]) (use n j(2) p in simp_all)
  then show "doc_ok d'" unfolding c(5) .
  show "k = doc_next d" "doc_next d' = k + 1" "0 \<le> at" "doc_redo d' = []" using c j by simp_all
  show "doc_lines d' = take (nat at) (doc_lines d) @ \<lparr>line_id = k, line_text = text\<rparr> # drop (nat at) (doc_lines d)"
    using i c(4,5) by (simp add: apply_entry_def entry_line_def)
  show "doc_undo d' \<noteq> [] \<and> last (doc_undo d') = \<lparr>e_op = OpInsert, e_at = nat at, e_id = k, e_text = text\<rparr>"
    using push_undo_journal(3,4) [of ?e ?d1] c(4,5) by simp
qed

lemma delete_line_ok:
  assumes "doc_ok d" and "0 \<le> at" and "at < int (length (doc_lines d))"
  obtains d' where "delete_line at d = Inr (line_id (doc_lines d ! nat at), d')" and "doc_ok d'"
    and "doc_lines d' = take (nat at) (doc_lines d) @ drop (Suc (nat at)) (doc_lines d)"
    and "doc_next d' = doc_next d" and "doc_redo d' = []"
    and "doc_undo d' \<noteq> [] \<and> last (doc_undo d') = \<lparr>e_op = OpDelete, e_at = nat at,
      e_id = line_id (doc_lines d ! nat at), e_text = line_text (doc_lines d ! nat at)\<rparr>"
proof -
  let ?l = "doc_lines d ! nat at"
  let ?e = "\<lparr>e_op = OpDelete, e_at = nat at, e_id = line_id ?l, e_text = line_text ?l\<rparr>"
  have a: "nat at < length (doc_lines d)" using assms(2,3) by simp
  obtain d1 where d1: "do_delete (nat at) d = Inr ((line_id ?l, line_text ?l), d1)" "storage_ok d1"
      "doc_lines d1 = take (nat at) (doc_lines d) @ drop (Suc (nat at)) (doc_lines d)"
    by (rule do_delete_ok [OF doc_ok_storage(1) [OF assms(1)] a]) blast
  have j: "doc_undo d1 = doc_undo d" "doc_next d1 = doc_next d"
    using same_journal_do_delete [OF d1(1)] by (simp_all add: same_journal_def)
  have e: "entry_ok ?e (doc_lines d)" using a by (simp add: entry_ok_def entry_line_def)
  have m: "line_id ?l \<in> ids (doc_lines d)" using a by (simp add: ids_def)
  have "doc_ok ((push_undo ?e d1)\<lparr>doc_redo := []\<rparr>)"
    by (rule record_edit_ok [OF assms(1) d1(2) _ j(1) e])
      (use d1(3) assms(1) m j in \<open>auto simp: apply_entry_def doc_ok_def\<close>)
  then show thesis
    using that [of "(push_undo ?e d1)\<lparr>doc_redo := []\<rparr>"] d1 assms(2,3) j push_undo_journal(3,4) [of ?e d1]
    by (simp add: delete_line_def line_count_eq)
qed

section \<open>Undo and redo\<close>

lemma undo_eq:
  "undo d =
     (if doc_undo d = [] then Inr (False, d)
      else sbind (exec_entry do_insert do_delete index_of (invert (last (doc_undo d))) (d\<lparr>doc_undo := butlast (doc_undo d)\<rparr>))
        (\<lambda>d1. Inr (True, d1\<lparr>doc_redo := doc_redo d1 @ [last (doc_undo d)]\<rparr>)))"
  by (simp add: undo_def exec_entry_def delete_by_id_def Let_def invert_def split: op_kind.splits)

lemma redo_eq:
  "redo d =
     (if doc_redo d = [] then Inr (False, d)
      else sbind (exec_entry do_insert do_delete index_of (last (doc_redo d)) (d\<lparr>doc_redo := butlast (doc_redo d)\<rparr>))
        (\<lambda>d1. Inr (True, push_undo (last (doc_redo d)) d1)))"
  by (simp add: redo_def exec_entry_def delete_by_id_def Let_def split: op_kind.splits)

lemma exec_entry_journal:
  "exec_entry do_insert do_delete index_of e d = Inr d' \<Longrightarrow> same_journal d d'"
  by (auto simp: exec_entry_def same_journal_do_insert dest: same_journal_do_delete
      split: op_kind.splits option.splits elim!: sbindE)

lemma ids_apply: "ids (apply_entry e ls) \<subseteq> insert (e_id e) (ids ls)"
  by (auto simp: apply_entry_def ids_def entry_line_def split: op_kind.splits dest: in_set_takeD in_set_dropD)

lemma undo_ok:
  assumes d: "doc_ok d" and u: "doc_undo d \<noteq> []"
  obtains d' where "undo d = Inr (True, d')" and "doc_ok d'"
    and "doc_lines d' = apply_entry (invert (last (doc_undo d))) (doc_lines d)"
    and "doc_undo d' = butlast (doc_undo d)" and "doc_redo d' = doc_redo d @ [last (doc_undo d)]"
    and "doc_next d' = doc_next d"
proof -
  define e where "e = last (doc_undo d)"
  have us: "doc_undo d = butlast (doc_undo d) @ [e]" using u by (simp add: e_def)
  have "entries_ok (map invert (rev (butlast (doc_undo d) @ [e]))) (doc_lines d)"
    using d us by (simp add: doc_ok_def)
  then have e: "entry_ok (invert e) (doc_lines d)"
    "entries_ok (map invert (rev (butlast (doc_undo d)))) (apply_entry (invert e) (doc_lines d))"
    by simp_all
  obtain d1 where d1: "exec_entry do_insert do_delete index_of (invert e) (d\<lparr>doc_undo := butlast (doc_undo d)\<rparr>) = Inr d1"
      "storage_ok d1" "doc_lines d1 = apply_entry (invert e) (doc_lines d)"
    using doc.exec_entry_ok [of "d\<lparr>doc_undo := butlast (doc_undo d)\<rparr>" "invert e"] doc_ok_storage(1) [OF d] e(1)
    by auto
  have j: "doc_undo d1 = butlast (doc_undo d)" "doc_redo d1 = doc_redo d" "doc_next d1 = doc_next d"
    using exec_entry_journal [OF d1(1)] by (simp_all add: same_journal_def)
  note i = invert_entry [OF e(1) doc_ok_storage(2) [OF d]]
  have m: "e \<in> set (doc_undo d)" using us by (metis in_set_conv_decomp)
  have b: "set (butlast (doc_undo d)) \<subseteq> set (doc_undo d)" by (auto dest: in_set_butlastD)
  let ?d' = "d1\<lparr>doc_redo := doc_redo d1 @ [e]\<rparr>"
  have "doc_ok ?d'"
    using d d1 j i e(2) ids_apply [of "invert e" "doc_lines d"] m b
    unfolding doc_ok_def journal_ids_def by auto
  with that [of ?d'] d1 j show thesis by (simp add: undo_eq u flip: e_def)
qed

lemma redo_ok:
  assumes d: "doc_ok d" and r: "doc_redo d \<noteq> []"
  obtains d' where "redo d = Inr (True, d')" and "doc_ok d'"
    and "doc_lines d' = apply_entry (last (doc_redo d)) (doc_lines d)"
    and "doc_redo d' = butlast (doc_redo d)" and "doc_next d' = doc_next d"
    and "\<exists>d1. doc_undo d1 = doc_undo d \<and> doc_undo d' = doc_undo (push_undo (last (doc_redo d)) d1)"
proof -
  define e where "e = last (doc_redo d)"
  have rs: "doc_redo d = butlast (doc_redo d) @ [e]" using r by (simp add: e_def)
  have "entries_ok (rev (butlast (doc_redo d) @ [e])) (doc_lines d)" using d rs by (simp add: doc_ok_def)
  then have e: "entry_ok e (doc_lines d)"
    "entries_ok (rev (butlast (doc_redo d))) (apply_entry e (doc_lines d))" by simp_all
  obtain d1 where d1: "exec_entry do_insert do_delete index_of e (d\<lparr>doc_redo := butlast (doc_redo d)\<rparr>) = Inr d1"
      "storage_ok d1" "doc_lines d1 = apply_entry e (doc_lines d)"
    using doc.exec_entry_ok [of "d\<lparr>doc_redo := butlast (doc_redo d)\<rparr>" e] doc_ok_storage(1) [OF d] e(1) by auto
  have j: "doc_redo d1 = butlast (doc_redo d)" "doc_undo d1 = doc_undo d" "doc_next d1 = doc_next d"
    using exec_entry_journal [OF d1(1)] by (simp_all add: same_journal_def)
  have m: "e \<in> set (doc_redo d)" using rs by (metis in_set_conv_decomp)
  have b: "set (butlast (doc_redo d)) \<subseteq> set (doc_redo d)" by (auto dest: in_set_butlastD)
  have u: "entries_ok (map invert (rev (doc_undo (push_undo e d1)))) (apply_entry e (doc_lines d))"
    using push_undo_entries [of d1 "doc_lines d" e] d e(1) j(2) doc_ok_storage(2) [OF d] by (simp add: doc_ok_def)
  have "doc_ok (push_undo e d1)"
    using d d1 j u e(2) ids_apply [of e "doc_lines d"] m b push_undo_journal(1) [of d1 e] push_undo_journal(2) [of e d1]
    unfolding doc_ok_def journal_ids_def by auto
  with that [of "push_undo e d1"] d1 j show thesis by (auto simp: redo_eq r simp flip: e_def)
qed

end
