(* ===== verification/Edit_Spec.thy ===== *)
theory Edit_Spec
  imports Edit_Props
begin

text \<open>
  The contract of the editor's document over every history of public edits: a refinement of a
  plain sequence of lines with undo and redo, and the bound on the size of a block.
\<close>

section \<open>Histories\<close>

text \<open>The documents that edits, undos and redos reach, with lines of at most \<open>n\<close> bytes.\<close>

inductive edited :: "nat \<Rightarrow> document \<Rightarrow> bool" for n where
  edited_new: "edited n new_document"
| edited_insert: "edited n d \<Longrightarrow> length text \<le> n \<Longrightarrow> insert_line at text d = Inr (k, d') \<Longrightarrow> edited n d'"
| edited_delete: "edited n d \<Longrightarrow> delete_line at d = Inr (k, d') \<Longrightarrow> edited n d'"
| edited_undo: "edited n d \<Longrightarrow> undo d = Inr (r, d') \<Longrightarrow> edited n d'"
| edited_redo: "edited n d \<Longrightarrow> redo d = Inr (r, d') \<Longrightarrow> edited n d'"

lemma delete_line_range: "delete_line at d = Inr (k, d') \<Longrightarrow> 0 \<le> at \<and> at < int (length (doc_lines d))"
  by (auto simp: delete_line_def line_count_eq split: if_split_asm)

lemma delete_line_step:
  assumes "doc_ok d" and "delete_line at d = Inr (k, d')"
  shows "doc_ok d'" and "doc_lines d' = take (nat at) (doc_lines d) @ drop (Suc (nat at)) (doc_lines d)"
proof -
  have r: "0 \<le> at" "at < int (length (doc_lines d))" using delete_line_range [OF assms(2)] by simp_all
  obtain d'' where "delete_line at d = Inr (line_id (doc_lines d ! nat at), d'')" "doc_ok d''"
      "doc_lines d'' = take (nat at) (doc_lines d) @ drop (Suc (nat at)) (doc_lines d)"
    by (rule delete_line_ok [OF assms(1) r])
  with assms(2) show "doc_ok d'" "doc_lines d' = take (nat at) (doc_lines d) @ drop (Suc (nat at)) (doc_lines d)"
    by simp_all
qed

lemma undo_step:
  assumes "doc_ok d" and "undo d = Inr (r, d')"
  shows "doc_ok d'"
proof (cases "doc_undo d = []")
  case False
  obtain d1 where "undo d = Inr (True, d1)" "doc_ok d1" by (rule undo_ok [OF assms(1) False])
  with assms(2) show ?thesis by simp
qed (use assms in \<open>simp add: undo_def\<close>)

lemma redo_step:
  assumes "doc_ok d" and "redo d = Inr (r, d')"
  shows "doc_ok d'"
proof (cases "doc_redo d = []")
  case False
  obtain d1 where "redo d = Inr (True, d1)" "doc_ok d1" by (rule redo_ok [OF assms(1) False])
  with assms(2) show ?thesis by simp
qed (use assms in \<open>simp add: redo_def\<close>)

lemma edited_ok: "edited n d \<Longrightarrow> doc_ok d"
  by (induction rule: edited.induct) (auto dest: insert_line_ok(1) delete_line_step(1) undo_step redo_step)

text \<open>A small history for the witnesses: two lines, the second one deleted.\<close>

definition after_insert :: document where
  "after_insert = \<lparr>doc_blocks = [\<lparr>blk_addr = 0, blk_lines = [\<lparr>line_id = 1, line_text = [0x61]\<rparr>]\<rparr>], doc_next = 2,
     doc_loc = [1 \<mapsto> 0], doc_undo = [\<lparr>e_op = OpInsert, e_at = 0, e_id = 1, e_text = [0x61]\<rparr>], doc_redo = [],
     doc_fresh = 1\<rparr>"

lemma after_insert_eq: "insert_line 0 [0x61] new_document = Inr (1, after_insert)"
  by (simp add: insert_line_def new_document_def line_count_def do_insert_def push_undo_def after_insert_def Let_def)

lemma edited_after_insert: "edited 1 after_insert"
  by (rule edited_insert [OF edited_new _ after_insert_eq]) simp

lemma after_insert_lines: "doc_lines after_insert = [\<lparr>line_id = 1, line_text = [0x61]\<rparr>]"
  by (simp add: after_insert_def doc_lines_def)

section \<open>The contract\<close>

text \<open>
  C19.  \<^verbatim>\<open>InsertLine\<close> refines insertion into the sequence of lines: inside the bounds and while
  identifiers last it inserts the text with an identifier that neither a live line nor a
  journal entry has, and otherwise it panics.
\<close>

theorem insert_line_refines:
  assumes "edited n d"
  shows "(if 0 \<le> at \<and> at \<le> int (length (doc_lines d)) \<and> doc_next d \<le> max_record_id
     then \<exists>d'. insert_line at text d = Inr (doc_next d, d')
        \<and> doc_lines d' = take (nat at) (doc_lines d) @ \<lparr>line_id = doc_next d, line_text = text\<rparr> # drop (nat at) (doc_lines d)
        \<and> doc_next d \<notin> ids (doc_lines d) \<union> journal_ids d
     else insert_line at text d = Inl Panic)"
proof (cases "0 \<le> at \<and> at \<le> int (length (doc_lines d)) \<and> doc_next d \<le> max_record_id")
  case True
  then obtain k d' where i: "insert_line at text d = Inr (k, d')"
    by (simp add: insert_line_def line_count_eq Let_def not_less)
  have "doc_next d \<notin> ids (doc_lines d) \<union> journal_ids d"
    using edited_ok [OF assms] by (auto simp: doc_ok_def)
  with True i insert_line_ok(2,5) [OF edited_ok [OF assms] i] show ?thesis by auto
next
  case False
  then show ?thesis by (auto simp: insert_line_def line_count_eq not_le)
qed

lemma insert_line_refines_witness:
  "\<exists>d'. insert_line 1 [0x62] after_insert = Inr (2, d')
     \<and> doc_lines d' = [\<lparr>line_id = 1, line_text = [0x61]\<rparr>, \<lparr>line_id = 2, line_text = [0x62]\<rparr>]"
  using insert_line_refines [OF edited_after_insert, of 1 "[0x62]"] after_insert_lines
  by (auto simp: after_insert_def)

text \<open>
  C20.  \<^verbatim>\<open>DeleteLine\<close> refines deletion from the sequence of lines, returns the identifier of the
  deleted line, and panics exactly outside the bounds.
\<close>

theorem delete_line_refines:
  assumes "edited n d"
  shows "(if 0 \<le> at \<and> at < int (length (doc_lines d))
     then \<exists>d'. delete_line at d = Inr (line_id (doc_lines d ! nat at), d')
        \<and> doc_lines d' = take (nat at) (doc_lines d) @ drop (Suc (nat at)) (doc_lines d)
     else delete_line at d = Inl Panic)"
proof (cases "0 \<le> at \<and> at < int (length (doc_lines d))")
  case True
  obtain d' where "delete_line at d = Inr (line_id (doc_lines d ! nat at), d')"
      "doc_lines d' = take (nat at) (doc_lines d) @ drop (Suc (nat at)) (doc_lines d)"
    by (rule delete_line_ok [OF edited_ok [OF assms]]) (use True in auto)
  with True show ?thesis by auto
qed (auto simp: delete_line_def line_count_eq)

lemma delete_line_refines_witness: "\<exists>d'. delete_line 0 after_insert = Inr (1, d') \<and> doc_lines d' = []"
  using delete_line_refines [OF edited_after_insert, of 0] by (auto simp: after_insert_lines)

text \<open>
  C17.  Undoing the edit that was just made gives back the lines there were before it, with
  their identifiers, and redoing it then gives the edited lines again; the journals return to
  what they were.
\<close>

theorem undo_redo_edit:
  assumes "edited n d" and "insert_line at text d = Inr (k, d') \<or> delete_line at d = Inr (k, d')"
  shows "\<exists>d1 d2. undo d' = Inr (True, d1) \<and> doc_lines d1 = doc_lines d
    \<and> redo d1 = Inr (True, d2) \<and> doc_lines d2 = doc_lines d' \<and> doc_undo d2 = doc_undo d' \<and> doc_redo d2 = []"
proof -
  have d: "doc_ok d" "distinct (map line_id (doc_lines d))"
    using edited_ok [OF assms(1)] doc_ok_storage by blast+
  have "\<exists>e. entry_ok e (doc_lines d) \<and> doc_lines d' = apply_entry e (doc_lines d) \<and> doc_ok d'
      \<and> doc_undo d' \<noteq> [] \<and> last (doc_undo d') = e \<and> doc_redo d' = []"
    using assms(2)
  proof
    assume i: "insert_line at text d = Inr (k, d')"
    note r = insert_line_ok [OF d(1) i]
    have "nat at \<le> length (doc_lines d)"
      using i by (auto simp: insert_line_def line_count_eq split: if_split_asm)
    with r fresh_next [OF d(1)] show ?thesis
      by (intro exI [of _ "\<lparr>e_op = OpInsert, e_at = nat at, e_id = k, e_text = text\<rparr>"])
        (simp add: entry_ok_def apply_entry_def entry_line_def)
  next
    assume i: "delete_line at d = Inr (k, d')"
    have b: "0 \<le> at" "at < int (length (doc_lines d))" using delete_line_range [OF i] by simp_all
    let ?e = "\<lparr>e_op = OpDelete, e_at = nat at, e_id = line_id (doc_lines d ! nat at),
      e_text = line_text (doc_lines d ! nat at)\<rparr>"
    obtain d'' where r: "delete_line at d = Inr (line_id (doc_lines d ! nat at), d'')" "doc_ok d''"
        "doc_lines d'' = take (nat at) (doc_lines d) @ drop (Suc (nat at)) (doc_lines d)" "doc_redo d'' = []"
        "doc_undo d'' \<noteq> [] \<and> last (doc_undo d'') = ?e"
      by (rule delete_line_ok [OF d(1) b]) blast
    with i b show ?thesis
      by (intro exI [of _ ?e]) (auto simp: entry_ok_def apply_entry_def entry_line_def)
  qed
  then obtain e where e: "entry_ok e (doc_lines d)" "doc_lines d' = apply_entry e (doc_lines d)" "doc_ok d'"
    "doc_undo d' \<noteq> []" "last (doc_undo d') = e" "doc_redo d' = []" by blast
  note i = invert_entry [OF e(1) d(2)]
  obtain d1 where u: "undo d' = Inr (True, d1)" "doc_ok d1"
      "doc_lines d1 = apply_entry (invert e) (doc_lines d')" "doc_undo d1 = butlast (doc_undo d')" "doc_redo d1 = [e]"
    using undo_ok [OF e(3,4)] e(5,6) by (metis append_Nil)
  have l1: "doc_lines d1 = doc_lines d" using u(3) i(2) e(2) by simp
  obtain d2 where r: "redo d1 = Inr (True, d2)" "doc_lines d2 = apply_entry e (doc_lines d1)" "doc_redo d2 = []"
      "\<exists>x. doc_undo x = doc_undo d1 \<and> doc_undo d2 = doc_undo (push_undo e x)"
    using redo_ok [OF u(2)] u(5) by (metis butlast.simps(2) last_ConsL list.distinct(1))
  have "doc_undo d2 = doc_undo d'"
  proof -
    obtain x where x: "doc_undo x = butlast (doc_undo d')" "doc_undo d2 = doc_undo (push_undo e x)"
      using r(4) u(4) by auto
    have "doc_undo x @ [e] = doc_undo d'" using x(1) e(4,5) by (metis append_butlast_last_id)
    moreover have "length (doc_undo d') \<le> max_undo_depth" using e(3) by (simp add: doc_ok_def)
    ultimately show ?thesis using x(2) by (simp add: push_undo_def Let_def)
  qed
  with u(1) l1 r e(2) show ?thesis by auto
qed

lemma undo_redo_edit_witness:
  "\<exists>d1 d2. undo after_insert = Inr (True, d1) \<and> doc_lines d1 = [] \<and> redo d1 = Inr (True, d2)
     \<and> doc_lines d2 = doc_lines after_insert"
  using undo_redo_edit [OF edited_new disjI1 [OF after_insert_eq]] by auto

lemma line_at_eq:
  "line_at d (int i) = (if i < length (doc_lines d)
     then Inr (line_id (doc_lines d ! i), line_text (doc_lines d ! i)) else Inl Panic)"
proof (cases "i < length (doc_lines d)")
  case True
  have ne: "doc_blocks d \<noteq> []" using True by (auto simp: doc_lines_def)
  obtain pre b post j where p: "doc_blocks d = pre @ b # post" "block_and_local_index d i = (length pre, j)"
      "i = length (blocks_lines pre) + j" "i < length (doc_lines d) \<Longrightarrow> j < length (blk_lines b)"
    by (rule block_position [OF ne less_imp_le [OF True]]) blast
  have "doc_lines d ! i = blk_lines b ! j" using p(4) [OF True] by (simp add: doc_lines_def p(1,3) nth_append)
  moreover have "line_at d (int i) = Inr (line_id (blk_lines b ! j), line_text (blk_lines b ! j))"
    using True unfolding line_at_def line_count_eq nat_int p(2) by (simp add: p(1) nth_append Let_def)
  ultimately show ?thesis using True by simp
qed (simp add: line_at_def line_count_eq)

text \<open>
  \<^verbatim>\<open>IndexOf\<close> finds exactly the live identifiers, at the index where \<^verbatim>\<open>LineAt\<close> shows them.
\<close>

theorem index_of_line_at:
  assumes "edited n d"
  shows "index_of d k = Some i \<longleftrightarrow> (\<exists>text. line_at d (int i) = Inr (k, text))"
proof -
  note s = doc_ok_storage [OF edited_ok [OF assms]]
  show ?thesis
    unfolding line_at_eq index_of_eq [OF s(1)]
    using local_index_Some [of "doc_lines d" k i] local_index_nth [OF s(2), of i] by auto
qed

lemma index_of_line_at_witness: "index_of after_insert 1 = Some 0"
  by (subst index_of_line_at [OF edited_after_insert])
    (simp add: line_at_def line_count_def after_insert_def block_and_local_index_def)

lemma collect_window:
  "i + k \<le> length (doc_lines d) \<Longrightarrow>
   collect d [int i..int (i + k) - 1] = Inr (map (\<lambda>l. (line_id l, line_text l)) (take k (drop i (doc_lines d))))"
proof (induction k arbitrary: i)
  case (Suc k)
  have u: "[int i..int (i + Suc k) - 1] = int i # [int (Suc i)..int (Suc i + k) - 1]"
    by (subst upto_rec1) (simp_all add: algebra_simps)
  have t: "take (Suc k) (drop i (doc_lines d)) = doc_lines d ! i # take k (drop (Suc i) (doc_lines d))"
    using Suc.prems by (simp add: Cons_nth_drop_Suc [symmetric])
  show ?case
    unfolding u t using Suc.IH [of "Suc i"] Suc.prems by (simp add: line_at_eq)
qed simp

text \<open>
  \<^verbatim>\<open>Render\<close> shows the window of at most \<open>count\<close> lines from \<open>start\<close>, clamped to the document;
  only a window whose end overflows 64 bits makes it panic, where it means to clamp.
\<close>

theorem render_window:
  assumes "start < 2 ^ 63" and "count < 2 ^ 63" and "length (doc_lines d) < 2 ^ 62"
  shows "render d start count =
    (if count \<le> 0 \<or> start < 0 \<or> start \<ge> int (length (doc_lines d)) then Inr []
     else if start + count \<ge> 2 ^ 63 then Inl Panic
     else Inr (map (\<lambda>l. (line_id l, line_text l)) (take (nat count) (drop (nat start) (doc_lines d)))))"
proof (cases "count \<le> 0 \<or> start < 0 \<or> start \<ge> int (length (doc_lines d))")
  case True
  then show ?thesis by (auto simp: render_def line_count_eq)
next
  case False
  then have r: "render d start count =
      (let stop = min (sint (word_of_int (start + count) :: i64)) (int (length (doc_lines d)))
       in if stop < start then Inl Panic else collect d [start..stop - 1])"
    by (simp add: render_def line_count_eq)
  show ?thesis
  proof (cases "start + count \<ge> 2 ^ 63")
    case True
    have w: "(word_of_int (start + count) :: i64) = word_of_int (start + count - 2 ^ 64)"
      by (rule word_of_int_eq_iff [THEN iffD2]) (simp add: take_bit_eq_mod)
    have "sint (word_of_int (start + count) :: i64) = start + count - 2 ^ 64"
      unfolding w by (rule sint_word_of_int64) (use True assms(1,2) False in simp_all)
    then have "min (sint (word_of_int (start + count) :: i64)) (int (length (doc_lines d))) < start"
      using assms(1,2) False True by simp
    then show ?thesis using True False unfolding r Let_def by simp
  next
    case fits: False
    then have s: "sint (word_of_int (start + count) :: i64) = start + count"
      using False by (intro sint_word_of_int64) simp_all
    define i where "i = nat start"
    define k where "k = min (nat count) (length (doc_lines d) - i)"
    have st: "start = int i" "min (start + count) (int (length (doc_lines d))) = int (i + k)"
      using False by (auto simp: i_def k_def)
    have "i + k \<le> length (doc_lines d)" using False by (auto simp: i_def k_def)
    from collect_window [OF this] have
      "render d start count = Inr (map (\<lambda>l. (line_id l, line_text l)) (take k (drop i (doc_lines d))))"
      unfolding r s Let_def unfolding st(2) unfolding st(1) by simp
    moreover have "take k (drop i (doc_lines d)) = take (nat count) (drop i (doc_lines d))"
      by (auto simp: k_def min_def)
    ultimately show ?thesis using False fits by (simp add: i_def)
  qed
qed

lemma render_window_witness: "render after_insert 0 10 = Inr [(1, [0x61])]"
  by (subst render_window) (simp_all add: after_insert_lines)

section \<open>Capacity\<close>

definition texts_bounded :: "nat \<Rightarrow> document \<Rightarrow> bool" where
  "texts_bounded n d \<longleftrightarrow> (\<forall>l \<in> set (doc_lines d). length (line_text l) \<le> n)
     \<and> (\<forall>e \<in> set (doc_undo d) \<union> set (doc_redo d). length (e_text e) \<le> n)"

definition capacity_ok :: "document \<Rightarrow> bool" where
  "capacity_ok d \<longleftrightarrow> (\<forall>b \<in> set (doc_blocks d). block_bytes b \<le> block_capacity)"

lemma lines_bytes_simps [simp]:
  "lines_bytes [] = 0" "lines_bytes (l # ls) = line_bytes l + lines_bytes ls"
  "lines_bytes (ls @ ms) = lines_bytes ls + lines_bytes ms"
  by (simp_all add: lines_bytes_def)

lemma lines_bytes_bounds:
  "\<forall>l \<in> set ls. length (line_text l) \<le> n \<Longrightarrow>
   line_overhead * length ls \<le> lines_bytes ls \<and> lines_bytes ls \<le> (n + line_overhead) * length ls"
  by (induction ls) (auto simp: line_bytes_def)

text \<open>
  A block of lines up to 194 bytes that is over capacity by one line splits by line count into
  halves within capacity: a half over capacity would have 42 lines or more, and the other half
  then holds 205 bytes or more.
\<close>

lemma halves_fit:
  assumes "\<forall>l \<in> set ls. length (line_text l) \<le> 194" and "lines_bytes ls \<le> 8391"
  shows "lines_bytes (take (length ls div 2) ls) \<le> 8192" and "lines_bytes (drop (length ls div 2) ls) \<le> 8192"
proof -
  define m where "m = length ls div 2"
  have s: "lines_bytes ls = lines_bytes (take m ls) + lines_bytes (drop m ls)"
    by (metis append_take_drop_id lines_bytes_simps(3))
  have t: "5 * m \<le> lines_bytes (take m ls)" "lines_bytes (take m ls) \<le> 199 * m"
    using lines_bytes_bounds [of "take m ls" 194] assms(1) by (auto simp: m_def dest: in_set_takeD)
  have d: "5 * (length ls - m) \<le> lines_bytes (drop m ls)" "lines_bytes (drop m ls) \<le> 199 * (length ls - m)"
    using lines_bytes_bounds [of "drop m ls" 194] assms(1) by (auto dest: in_set_dropD)
  have "m \<le> length ls - m" "length ls - m \<le> Suc m" by (auto simp: m_def)
  then show "lines_bytes (take (length ls div 2) ls) \<le> 8192" "lines_bytes (drop (length ls div 2) ls) \<le> 8192"
    using s t d assms(2) unfolding m_def [symmetric] by linarith+
qed

lemma capacity_blocks:
  "capacity_ok (d\<lparr>doc_undo := u\<rparr>) = capacity_ok d" "capacity_ok (d\<lparr>doc_redo := r\<rparr>) = capacity_ok d"
  "capacity_ok (d\<lparr>doc_next := n\<rparr>) = capacity_ok d" "capacity_ok (push_undo e d) = capacity_ok d"
  by (simp_all add: capacity_ok_def push_undo_def Let_def)

lemma capacity_do_insert:
  assumes "capacity_ok d" and "length text \<le> 194" and "\<forall>l \<in> set (doc_lines d). length (line_text l) \<le> 194"
    and "at \<le> length (doc_lines d)"
  shows "capacity_ok (do_insert at k text d)"
proof (cases "doc_blocks d = []")
  case True
  with assms(2) show ?thesis by (simp add: do_insert_def capacity_ok_def block_bytes_def line_bytes_def)
next
  case False
  let ?l = "\<lparr>line_id = k, line_text = text\<rparr>"
  obtain pre b post j where p: "doc_blocks d = pre @ b # post"
    and i: "block_and_local_index d at = (length pre, j)"
    by (rule block_position [OF False assms(4)]) blast
  define b' where "b' = b\<lparr>blk_lines := take j (blk_lines b) @ ?l # drop j (blk_lines b)\<rparr>"
  define d' where "d' = d\<lparr>doc_blocks := pre @ b' # post, doc_loc := (doc_loc d)(k \<mapsto> blk_addr b)\<rparr>"
  have e: "do_insert at k text d =
      (if block_bytes b' > block_capacity \<and> length (blk_lines b') \<ge> 2 then split_block (length pre) d' else d')"
    using False by (simp add: do_insert_def Let_def i p b'_def d'_def)
  have td: "lines_bytes (take j (blk_lines b)) + lines_bytes (drop j (blk_lines b)) = block_bytes b"
    unfolding block_bytes_def by (metis append_take_drop_id lines_bytes_simps(3))
  have old: "block_bytes b \<le> block_capacity" and rest: "\<forall>c \<in> set pre \<union> set post. block_bytes c \<le> block_capacity"
    using assms(1) by (auto simp: capacity_ok_def p)
  have new: "lines_bytes (blk_lines b') \<le> 8391"
    using td old assms(2) by (simp add: b'_def line_bytes_def)
  have short: "\<forall>l \<in> set (blk_lines b'). length (line_text l) \<le> 194"
    using assms(2,3) by (auto simp: b'_def doc_lines_def p dest: in_set_takeD in_set_dropD)
  have blocks: "doc_blocks d' = pre @ b' # post" by (simp add: d'_def)
  show ?thesis
  proof (cases "block_bytes b' > block_capacity \<and> length (blk_lines b') \<ge> 2")
    case True
    then have "2 \<le> length (blk_lines b')" by simp
    from split_block_eq(1) [OF blocks this] halves_fit [OF short new] rest True show ?thesis
      unfolding e by (auto simp: capacity_ok_def block_bytes_def)
  next
    case False
    have "block_bytes b' \<le> block_capacity"
    proof (cases "length (blk_lines b') \<ge> 2")
      case False
      moreover have "length (blk_lines b') = Suc (length (blk_lines b))" by (simp add: b'_def)
      ultimately have "blk_lines b = []" by (cases "blk_lines b") simp_all
      then show ?thesis using assms(2) by (simp add: b'_def block_bytes_def line_bytes_def)
    qed (use False in simp)
    with False rest show ?thesis unfolding e by (auto simp: capacity_ok_def blocks)
  qed
qed

lemma capacity_absorb:
  assumes "capacity_ok d" and "Suc i < length (doc_blocks d)"
    and "block_bytes (doc_blocks d ! i) + block_bytes (doc_blocks d ! Suc i) \<le> block_capacity"
  shows "capacity_ok (absorb i d)"
proof -
  obtain pre b c post where p: "doc_blocks d = pre @ b # c # post" "length pre = i"
    by (rule two_blocks [OF assms(2)]) blast
  then have "block_bytes b + block_bytes c \<le> block_capacity" using assms(3) by (auto simp: nth_append)
  then show ?thesis
    using assms(1) absorb_eq(1) [OF p(1)] p by (auto simp: capacity_ok_def block_bytes_def)
qed

lemma capacity_do_delete:
  assumes "capacity_ok d" and "do_delete at d = Inr (r, d')"
  shows "capacity_ok d'"
proof -
  obtain i j where ij: "block_and_local_index d at = (i, j)" by fastforce
  define b where "b = doc_blocks d ! i"
  define ls where "ls = take j (blk_lines b) @ drop (Suc j) (blk_lines b)"
  define d2 where "d2 = d\<lparr>doc_loc := (doc_loc d)(line_id (blk_lines b ! j) := None), doc_blocks := (doc_blocks d)[i := b\<lparr>blk_lines := ls\<rparr>]\<rparr>"
  have i: "i < length (doc_blocks d)" "j < length (blk_lines b)"
    using assms(2) by (auto simp: do_delete_def ij b_def split: if_split_asm)
  have "blk_lines b = take j (blk_lines b) @ blk_lines b ! j # drop (Suc j) (blk_lines b)"
    by (rule id_take_nth_drop [OF i(2)])
  then have "lines_bytes ls \<le> block_bytes b"
    unfolding ls_def block_bytes_def by (metis add_le_mono le_add2 le_refl lines_bytes_simps(2,3))
  moreover have "block_bytes b \<le> block_capacity" using assms(1) i(1) by (simp add: capacity_ok_def b_def)
  ultimately have c2: "capacity_ok d2"
    using assms(1) set_update_subset_insert [of "doc_blocks d" i "b\<lparr>blk_lines := ls\<rparr>"]
    by (auto simp: capacity_ok_def d2_def block_bytes_def)
  have "d' = (if ls = [] then d\<lparr>doc_loc := (doc_loc d)(line_id (blk_lines b ! j) := None), doc_blocks := remove_block i (doc_blocks d)\<rparr>
      else if block_bytes (b\<lparr>blk_lines := ls\<rparr>) < merge_threshold then try_merge i d2 else d2)"
    using assms(2) i by (auto simp: do_delete_def ij Let_def b_def ls_def d2_def split: if_split_asm)
  moreover have "capacity_ok (d\<lparr>doc_loc := (doc_loc d)(line_id (blk_lines b ! j) := None), doc_blocks := remove_block i (doc_blocks d)\<rparr>)"
    using assms(1) by (auto simp: capacity_ok_def remove_block_def dest: in_set_takeD in_set_dropD)
  moreover have "capacity_ok (try_merge i d2)"
    using c2 capacity_absorb [OF c2, of i] capacity_absorb [OF c2, of "i - 1"] i(1)
    by (auto simp: try_merge_def d2_def)
  ultimately show ?thesis using c2 by simp
qed

lemma capacity_exec:
  assumes "capacity_ok d" and "exec_entry do_insert do_delete index_of e d = Inr d'" and "length (e_text e) \<le> 194"
    and "\<forall>l \<in> set (doc_lines d). length (line_text l) \<le> 194" and "entry_ok e (doc_lines d)"
  shows "capacity_ok d'"
  using assms
  by (auto simp: exec_entry_def entry_ok_def intro!: capacity_do_insert dest: capacity_do_delete
      split: op_kind.splits option.splits elim!: sbindE)

lemma texts_apply:
  assumes "\<forall>l \<in> set ls. length (line_text l) \<le> n" and "length (e_text e) \<le> n"
  shows "\<forall>l \<in> set (apply_entry e ls). length (line_text l) \<le> n"
  using assms by (auto simp: apply_entry_def entry_line_def split: op_kind.splits dest: in_set_takeD in_set_dropD)

lemma edited_bounded: "edited n d \<Longrightarrow> texts_bounded n d \<and> (n \<le> 194 \<longrightarrow> capacity_ok d)"
proof (induction rule: edited.induct)
  case edited_new
  show ?case by (simp add: texts_bounded_def capacity_ok_def) (simp add: new_document_def)
next
  case (edited_insert d "text" at k d')
  note ok = edited_ok [OF edited_insert.hyps(1)]
  let ?e = "\<lparr>e_op = OpInsert, e_at = nat at, e_id = doc_next d, e_text = text\<rparr>"
  let ?d1 = "do_insert (nat at) (doc_next d) text (d\<lparr>doc_next := doc_next d + 1\<rparr>)"
  have i: "nat at \<le> length (doc_lines d)" "d' = (push_undo ?e ?d1)\<lparr>doc_redo := []\<rparr>"
    using edited_insert.hyps(3) by (auto simp: insert_line_def Let_def line_count_eq split: if_split_asm)
  have "doc_undo ?d1 = doc_undo d"
    using same_journal_do_insert [of "d\<lparr>doc_next := doc_next d + 1\<rparr>"] by (simp add: same_journal_def)
  then have "set (doc_undo d') \<subseteq> insert ?e (set (doc_undo d))"
    using push_undo_journal(2) [of ?e ?d1] i(2) by simp
  moreover have "set (doc_lines d') \<subseteq> insert \<lparr>line_id = k, line_text = text\<rparr> (set (doc_lines d))"
    using insert_line_ok(5) [OF ok edited_insert.hyps(3)] by (auto dest: in_set_takeD in_set_dropD)
  moreover have "doc_redo d' = []" by (simp add: i(2))
  ultimately have "texts_bounded n d'"
    using edited_insert.IH edited_insert.hyps(2) unfolding texts_bounded_def by fastforce
  moreover have "capacity_ok d'" if "n \<le> 194"
  proof -
    have "capacity_ok ?d1"
      using edited_insert.IH edited_insert.hyps(2) that i(1)
      by (intro capacity_do_insert) (auto simp: capacity_blocks texts_bounded_def intro: le_trans)
    then show ?thesis by (simp add: i(2) capacity_blocks)
  qed
  ultimately show ?case by blast
next
  case (edited_delete d at k d')
  obtain l d1 where d1: "do_delete (nat at) d = Inr ((k, l), d1)"
      "d' = (push_undo \<lparr>e_op = OpDelete, e_at = nat at, e_id = k, e_text = l\<rparr> d1)\<lparr>doc_redo := []\<rparr>"
    using edited_delete.hyps(2) by (auto simp: delete_line_def Let_def split: if_split_asm elim!: sbindE)
  have b: "nat at < length (doc_lines d)" using delete_line_range [OF edited_delete.hyps(2)] by linarith
  obtain d1' where "do_delete (nat at) d = Inr ((line_id (doc_lines d ! nat at), line_text (doc_lines d ! nat at)), d1')"
    by (rule do_delete_ok [OF doc_ok_storage(1) [OF edited_ok [OF edited_delete.hyps(1)]] b])
  with d1(1) b have l: "l \<in> line_text ` set (doc_lines d)" by auto
  have "doc_undo d1 = doc_undo d" using same_journal_do_delete [OF d1(1)] by (simp add: same_journal_def)
  then have "set (doc_undo d') \<subseteq> insert \<lparr>e_op = OpDelete, e_at = nat at, e_id = k, e_text = l\<rparr> (set (doc_undo d))"
    using push_undo_journal(2) [of _ d1] d1(2) by simp
  moreover have "set (doc_lines d') \<subseteq> set (doc_lines d)"
    using delete_line_step(2) [OF edited_ok [OF edited_delete.hyps(1)] edited_delete.hyps(2)]
    by (auto dest: in_set_takeD in_set_dropD)
  moreover have "doc_redo d' = []" by (simp add: d1(2))
  ultimately have "texts_bounded n d'"
    using edited_delete.IH l unfolding texts_bounded_def by fastforce
  moreover have "capacity_ok d'" if "n \<le> 194"
    using capacity_do_delete [OF _ d1(1)] edited_delete.IH that by (simp add: d1(2) capacity_blocks)
  ultimately show ?case by blast
next
  case (edited_undo d r d')
  note ok = edited_ok [OF edited_undo.hyps(1)]
  show ?case
  proof (cases "doc_undo d = []")
    case False
    let ?e = "last (doc_undo d)"
    let ?d0 = "d\<lparr>doc_undo := butlast (doc_undo d)\<rparr>"
    obtain d1 where d1: "exec_entry do_insert do_delete index_of (invert ?e) ?d0 = Inr d1"
        "d' = d1\<lparr>doc_redo := doc_redo d1 @ [?e]\<rparr>"
      using edited_undo.hyps(2) False by (auto simp: undo_eq elim!: sbindE)
    obtain d'' where "undo d = Inr (True, d'')" "doc_lines d'' = apply_entry (invert ?e) (doc_lines d)"
        "doc_undo d'' = butlast (doc_undo d)" "doc_redo d'' = doc_redo d @ [?e]"
      by (rule undo_ok [OF ok False])
    then have d': "doc_lines d' = apply_entry (invert ?e) (doc_lines d)"
        "doc_undo d' = butlast (doc_undo d)" "doc_redo d' = doc_redo d @ [?e]"
      using edited_undo.hyps(2) by simp_all
    have e: "length (e_text ?e) \<le> n" using edited_undo.IH False by (simp add: texts_bounded_def)
    have "texts_bounded n d'"
      using edited_undo.IH e texts_apply [of "doc_lines d" n "invert ?e"] unfolding texts_bounded_def d'
      by (auto dest: in_set_butlastD)
    moreover have "capacity_ok d'" if n: "n \<le> 194"
    proof -
      have "entries_ok (map invert (rev (doc_undo d))) (doc_lines d)" using ok by (simp add: doc_ok_def)
      then have "entry_ok (invert ?e) (doc_lines d)" using False by (cases "doc_undo d" rule: rev_cases) auto
      then have "capacity_ok d1"
        using edited_undo.IH e n
        by (intro capacity_exec [OF _ d1(1)]) (auto simp: capacity_blocks texts_bounded_def intro: le_trans)
      then show ?thesis by (simp add: d1(2) capacity_blocks)
    qed
    ultimately show ?thesis by blast
  qed (use edited_undo in \<open>simp add: undo_def\<close>)
next
  case (edited_redo d r d')
  note ok = edited_ok [OF edited_redo.hyps(1)]
  show ?case
  proof (cases "doc_redo d = []")
    case False
    let ?e = "last (doc_redo d)"
    let ?d0 = "d\<lparr>doc_redo := butlast (doc_redo d)\<rparr>"
    obtain d1 where d1: "exec_entry do_insert do_delete index_of ?e ?d0 = Inr d1" "d' = push_undo ?e d1"
      using edited_redo.hyps(2) False by (auto simp: redo_eq elim!: sbindE)
    obtain d'' where "redo d = Inr (True, d'')" "doc_lines d'' = apply_entry ?e (doc_lines d)"
      by (rule redo_ok [OF ok False])
    then have l: "doc_lines d' = apply_entry ?e (doc_lines d)" using edited_redo.hyps(2) by simp
    have "doc_undo d1 = doc_undo d" "doc_redo d1 = butlast (doc_redo d)"
      using exec_entry_journal [OF d1(1)] by (simp_all add: same_journal_def)
    then have j: "set (doc_undo d') \<subseteq> insert ?e (set (doc_undo d))" "doc_redo d' = butlast (doc_redo d)"
      using push_undo_journal(2) [of ?e d1] by (simp_all add: d1(2))
    have e: "length (e_text ?e) \<le> n" using edited_redo.IH False by (simp add: texts_bounded_def)
    have "texts_bounded n d'"
      using edited_redo.IH e texts_apply [of "doc_lines d" n ?e] j unfolding texts_bounded_def l
      by (auto dest: in_set_butlastD)
    moreover have "capacity_ok d'" if n: "n \<le> 194"
    proof -
      have "entries_ok (rev (doc_redo d)) (doc_lines d)" using ok by (simp add: doc_ok_def)
      then have "entry_ok ?e (doc_lines d)" using False by (cases "doc_redo d" rule: rev_cases) auto
      then have "capacity_ok d1"
        using edited_redo.IH e n
        by (intro capacity_exec [OF _ d1(1)]) (auto simp: capacity_blocks texts_bounded_def intro: le_trans)
      then show ?thesis by (simp add: d1(2) capacity_blocks)
    qed
    ultimately show ?thesis by blast
  qed (use edited_redo in \<open>simp add: redo_def\<close>)
qed

text \<open>
  C18.  In every document that public edits, undos and redos reach, the storage invariant holds (no
  empty block, distinct identifiers, the location map exactly the partition into blocks), and the
  repository's own check \<^verbatim>\<open>checkInvariants\<close> succeeds exactly when every block of two or more lines is
  within its capacity; it does succeed when no line is longer than 194 bytes, and \<open>long_line_over_capacity\<close>
  below is a reachable document with a longer line where it fails.  The undo journal is within its
  depth, and \<^verbatim>\<open>Undo\<close> and \<^verbatim>\<open>Redo\<close> never panic.
\<close>

theorem edited_invariant:
  assumes "edited n d"
  shows "storage_ok d
    \<and> (check_invariants d \<longleftrightarrow> (\<forall>b \<in> set (doc_blocks d). 2 \<le> length (blk_lines b) \<longrightarrow> block_bytes b \<le> block_capacity))
    \<and> (n \<le> 194 \<longrightarrow> check_invariants d)
    \<and> length (doc_undo d) \<le> max_undo_depth \<and> \<not> fails (undo d) \<and> \<not> fails (redo d)"
proof -
  note d = edited_ok [OF assms]
  note c = check_invariants_storage [OF doc_ok_storage(1) [OF d]]
  have "\<not> fails (undo d)"
  proof (cases "doc_undo d = []")
    case False
    obtain d1 where "undo d = Inr (True, d1)" by (rule undo_ok [OF d False])
    then show ?thesis by simp
  qed (simp add: undo_def)
  moreover have "\<not> fails (redo d)"
  proof (cases "doc_redo d = []")
    case False
    obtain d1 where "redo d = Inr (True, d1)" by (rule redo_ok [OF d False])
    then show ?thesis by simp
  qed (simp add: redo_def)
  moreover have "n \<le> 194 \<longrightarrow> check_invariants d"
    using edited_bounded [OF assms] by (auto simp: c capacity_ok_def)
  ultimately show ?thesis using d c by (simp add: doc_ok_def)
qed

lemma edited_invariant_witness: "storage_ok after_insert \<and> check_invariants after_insert \<and> \<not> fails (undo after_insert)"
proof -
  have "(1 :: nat) \<le> 194" by simp
  then show ?thesis using edited_invariant [OF edited_after_insert] by blast
qed

text \<open>
  With lines of at most 194 bytes no history of edits makes a block exceed its capacity of
  8192 bytes.
\<close>

theorem edited_capacity:
  assumes "edited n d" and "n \<le> 194"
  shows "\<forall>b \<in> set (doc_blocks d). block_bytes b \<le> block_capacity"
  using edited_bounded [OF assms(1)] assms(2) by (simp add: capacity_ok_def)

lemma edited_capacity_witness:
  "block_bytes \<lparr>blk_addr = 0, blk_lines = [\<lparr>line_id = 1, line_text = [0x61]\<rparr>]\<rparr> \<le> block_capacity"
  using edited_capacity [OF edited_after_insert] by (simp add: after_insert_def)

text \<open>
  Longer lines break the capacity rule that \<^verbatim>\<open>checkInvariants\<close> states (a block over capacity
  holds one line only): a line longer than a block inserted between two short ones is split off
  by line count together with its successor, and the block of two lines stays over capacity.
\<close>

theorem long_line_over_capacity:
  assumes "block_capacity < length (t :: bytes)"
  shows "\<exists>d. edited (length t) d \<and> \<not> check_invariants d
    \<and> (\<exists>b \<in> set (doc_blocks d). 2 \<le> length (blk_lines b) \<and> block_capacity < block_bytes b)"
proof -
  have 1: "edited (length t) after_insert"
    by (rule edited_insert [OF edited_new _ after_insert_eq]) (use assms in simp)
  obtain d2 where 2: "insert_line 1 [0x62] after_insert = Inr (2, d2)"
      "doc_blocks d2 = [\<lparr>blk_addr = 0, blk_lines = [\<lparr>line_id = 1, line_text = [0x61]\<rparr>, \<lparr>line_id = 2, line_text = [0x62]\<rparr>]\<rparr>]"
      "doc_next d2 = 3"
    by (simp add: insert_line_def line_count_def after_insert_def do_insert_def block_and_local_index_def
        push_undo_def block_bytes_def line_bytes_def Let_def)
  have e2: "edited (length t) d2" by (rule edited_insert [OF 1 _ 2(1)]) (use assms in simp)
  obtain d3 where 3: "insert_line 1 t d2 = Inr (3, d3)"
      "\<lparr>blk_addr = doc_fresh d2, blk_lines = [\<lparr>line_id = 3, line_text = t\<rparr>, \<lparr>line_id = 2, line_text = [0x62]\<rparr>]\<rparr>
        \<in> set (doc_blocks d3)"
    using assms
    by (simp add: insert_line_def line_count_def 2 do_insert_def block_and_local_index_def split_block_def
        insert_block_def push_undo_def block_bytes_def line_bytes_def Let_def)
  have "edited (length t) d3" by (rule edited_insert [OF e2 order_refl 3(1)])
  with 3(2) assms show ?thesis
    by (intro exI [of _ d3] conjI bexI [OF _ 3(2)])
      (auto simp: check_invariants_def block_bytes_def line_bytes_def intro!: bexI [OF _ 3(2)])
qed

lemma long_line_over_capacity_witness:
  "\<exists>d. edited 9000 d \<and> \<not> check_invariants d
    \<and> (\<exists>b \<in> set (doc_blocks d). 2 \<le> length (blk_lines b) \<and> block_capacity < block_bytes b)"
  using long_line_over_capacity [of "replicate 9000 0"] by (simp only: length_replicate)

end
