(* ===== verification/Edit_File.thy ===== *)
theory Edit_File
  imports Edit_Spec Codec
begin

text \<open>
  The serialised form of a document, \<^verbatim>\<open>tools/sam-aarch64/editmodel/serialize.go\<close>: \<^verbatim>\<open>Serialize\<close>
  writes the lines without their blocks, \<^verbatim>\<open>Load\<close> reads them and fills new blocks.
\<close>

section \<open>Serialize\<close>

definition emdl_magic :: bytes where
  "emdl_magic = [0x45, 0x4D, 0x44, 0x4C]"

abbreviation emdl_version :: u8 where "emdl_version \<equiv> 1"

definition line_chunks :: "line \<Rightarrow> bytes list" where
  "line_chunks l = [le_put 3 (line_id l), put_u16 (of_nat (length (line_text l))), line_text l]"

fun serialize_lines :: "'w writer \<Rightarrow> line list \<Rightarrow> 'w \<Rightarrow> string option \<times> 'w" where
  "serialize_lines wr [] w = (None, w)"
| "serialize_lines wr (l # ls) w =
     (if length (line_text l) > 65535 then (Some ''editmodel: text length exceeds uint16 max'', w)
      else case write_chunks wr (line_chunks l) w of
             (Some err, w') \<Rightarrow> (Some err, w')
           | (None, w') \<Rightarrow> serialize_lines wr ls w')"

definition serialize :: "'w writer \<Rightarrow> document \<Rightarrow> 'w \<Rightarrow> string option \<times> 'w" where
  "serialize wr d w =
     (case write_chunks wr [emdl_magic, [emdl_version], put_u32 (of_nat (line_count d))] w of
        (Some err, w') \<Rightarrow> (Some err, w')
      | (None, w') \<Rightarrow> serialize_lines wr (doc_lines d) w')"

section \<open>Load\<close>

definition read_full :: "string \<Rightarrow> nat \<Rightarrow> bytes reader" where
  "read_full msg n buf = (if length buf < n then Inl (Error msg) else Inr (take n buf, drop n buf))"

definition read_line :: "line reader" where
  "read_line buf =
     sbind (read_full ''editmodel: reading id'' 3 buf) (\<lambda>(b, buf).
       let k = le_get b in
       if k = 0 then Inl (Error ''editmodel: reserved id 0'')
       else if k > max_record_id then Inl (Error ''editmodel: id exceeds maxRecordID'')
       else sbind (read_full ''editmodel: reading text length'' 2 buf) (\<lambda>(b, buf).
         let n = unat (le_get b :: u16) in
         if n = 0 then Inr (\<lparr>line_id = k, line_text = []\<rparr>, buf)
         else sbind (read_full ''editmodel: reading text'' n buf) (\<lambda>(b, buf).
           Inr (\<lparr>line_id = k, line_text = b\<rparr>, buf))))"

record load_state =
  ld_blocks :: "block list"
  ld_loc :: "u32 \<rightharpoonup> nat"
  ld_max :: u32

definition place_line :: "line \<Rightarrow> load_state \<Rightarrow> load_state" where
  "place_line l s =
     (let bs = ld_blocks s;
          need_new = (bs = [] \<or> (length (blk_lines (last bs)) \<ge> 1
            \<and> block_bytes (last bs) + line_bytes l > block_capacity));
          bs' = (if need_new then bs @ [\<lparr>blk_addr = length bs, blk_lines = []\<rparr>] else bs);
          cur = last bs'
      in \<lparr>ld_blocks = butlast bs' @ [cur\<lparr>blk_lines := blk_lines cur @ [l]\<rparr>],
          ld_loc = (ld_loc s)(line_id l \<mapsto> blk_addr cur),
          ld_max = (if line_id l > ld_max s then line_id l else ld_max s)\<rparr>)"

fun load_lines :: "nat \<Rightarrow> load_state \<Rightarrow> bytes \<Rightarrow> load_state res" where
  "load_lines 0 s buf = Inr s"
| "load_lines (Suc n) s buf = sbind (read_line buf) (\<lambda>(l, buf). load_lines n (place_line l s) buf)"

definition load :: "bytes \<Rightarrow> document res" where
  "load buf =
     sbind (read_full ''editmodel: reading magic'' 4 buf) (\<lambda>(m, buf).
       if m \<noteq> emdl_magic then Inl (Error ''editmodel: bad magic'')
       else sbind (read_full ''editmodel: reading version'' 1 buf) (\<lambda>(v, buf).
         if v ! 0 \<noteq> emdl_version then Inl (Error ''editmodel: unsupported version'')
         else sbind (read_full ''editmodel: reading line count'' 4 buf) (\<lambda>(h, buf).
           sbind (load_lines (unat (le_get h :: u32)) \<lparr>ld_blocks = [], ld_loc = Map.empty, ld_max = 0\<rparr> buf) (\<lambda>s.
             Inr \<lparr>doc_blocks = ld_blocks s, doc_next = (if ld_max s > 0 then ld_max s + 1 else 1),
                  doc_loc = ld_loc s, doc_undo = [], doc_redo = [], doc_fresh = length (ld_blocks s)\<rparr>))))"

section \<open>Round trip\<close>

definition put_line :: "line \<Rightarrow> bytes" where
  "put_line l = concat (line_chunks l)"

definition line_ok :: "line \<Rightarrow> bool" where
  "line_ok l \<longleftrightarrow> 1 \<le> line_id l \<and> line_id l \<le> max_record_id \<and> length (line_text l) \<le> 65535"

lemma serialize_lines_buffer:
  "serialize_lines buffer_write ls w = (None, w') \<longleftrightarrow>
   list_all (\<lambda>l. length (line_text l) \<le> 65535) ls \<and> w' = w @ concat (map put_line ls)"
  by (induction ls arbitrary: w) (auto simp: write_chunks_buffer put_line_def)

lemma serialize_buffer:
  "serialize buffer_write d [] = (None, w') \<longleftrightarrow>
   list_all (\<lambda>l. length (line_text l) \<le> 65535) (doc_lines d)
   \<and> w' = emdl_magic @ [emdl_version] @ put_u32 (of_nat (length (doc_lines d))) @ concat (map put_line (doc_lines d))"
  unfolding serialize_def write_chunks_buffer by (simp add: serialize_lines_buffer line_count_eq)

lemma le_get_put_24: "k \<le> max_record_id \<Longrightarrow> le_get (le_put 3 k) = (k :: u32)"
proof (rule bit_word_eqI)
  fix i
  assume k: "k \<le> max_record_id"
  then have "k < 2 ^ 24" by (simp add: word_le_nat_alt word_less_nat_alt)
  then show "bit (le_get (le_put 3 k) :: u32) i = bit k i"
    using bit_less_exp [of k 24 i] by (auto simp: bit_le_get_put bit_imp_le_length)
qed

interpretation line_codec: codec put_line read_line id line_ok
proof unfold_locales
  fix l :: line and rest
  assume l: "line_ok l"
  have n: "unat (of_nat (length (line_text l)) :: u16) = length (line_text l)"
    using l by (simp add: line_ok_def unat_of_nat)
  have k: "le_get (le_put 3 (line_id l)) = line_id l" "line_id l \<noteq> 0" "\<not> line_id l > max_record_id"
    using l by (auto simp: line_ok_def le_get_put_24)
  show "read_line (put_line l @ rest) = Inr (id l, rest)"
    unfolding put_line_def line_chunks_def
    using n k by (simp add: read_line_def read_full_def Let_def)
qed

definition place_lines :: "line list \<Rightarrow> load_state \<Rightarrow> load_state" where
  "place_lines ls s = foldl (\<lambda>s l. place_line l s) s ls"

lemma load_lines_put:
  "list_all line_ok ls \<Longrightarrow> load_lines (length ls) s (concat (map put_line ls) @ rest) = Inr (place_lines ls s)"
  by (induction ls arbitrary: s) (simp_all add: line_codec.get_put place_lines_def)

text \<open>What the blocks filled so far satisfy.\<close>

definition load_ok :: "load_state \<Rightarrow> bool" where
  "load_ok s \<longleftrightarrow> map blk_addr (ld_blocks s) = [0..<length (ld_blocks s)]
     \<and> (\<forall>b \<in> set (ld_blocks s). blk_lines b \<noteq> [])
     \<and> (\<forall>b \<in> set (ld_blocks s). 2 \<le> length (blk_lines b) \<longrightarrow> block_bytes b \<le> block_capacity)
     \<and> loc_ok (ld_blocks s) (ld_loc s)"

lemma place_line_lines: "blocks_lines (ld_blocks (place_line l s)) = blocks_lines (ld_blocks s) @ [l]"
proof (cases "ld_blocks s" rule: rev_cases)
  case (snoc bs b)
  then show ?thesis by (simp add: place_line_def Let_def butlast_append)
qed (simp add: place_line_def)

lemma place_line_ok:
  assumes "load_ok s" and "line_id l \<notin> ids (blocks_lines (ld_blocks s))"
  shows "load_ok (place_line l s)"
proof (cases "ld_blocks s = [] \<or> (length (blk_lines (last (ld_blocks s))) \<ge> 1
      \<and> block_bytes (last (ld_blocks s)) + line_bytes l > block_capacity)")
  case True
  then have e: "ld_blocks (place_line l s) = ld_blocks s @ [\<lparr>blk_addr = length (ld_blocks s), blk_lines = [l]\<rparr>]"
      "ld_loc (place_line l s) = (ld_loc s)(line_id l \<mapsto> length (ld_blocks s))"
    by (simp_all add: place_line_def Let_def)
  have "blk_addr b \<noteq> length (ld_blocks s)" if "b \<in> set (ld_blocks s)" for b
  proof -
    have "blk_addr b \<in> set (map blk_addr (ld_blocks s))" using that by simp
    moreover have "map blk_addr (ld_blocks s) = [0..<length (ld_blocks s)]" using assms(1) by (simp add: load_ok_def)
    ultimately have "blk_addr b \<in> set [0..<length (ld_blocks s)]" by (simp only:)
    then show ?thesis by simp
  qed
  then have "loc_ok (ld_blocks (place_line l s)) (ld_loc (place_line l s))"
    using assms unfolding load_ok_def loc_ok_def e ids_blocks_lines by (auto 4 3)
  with assms(1) show ?thesis unfolding load_ok_def e by auto
next
  case False
  then obtain bs b where b: "ld_blocks s = bs @ [b]" by (cases "ld_blocks s" rule: rev_cases) auto
  have e: "ld_blocks (place_line l s) = bs @ [b\<lparr>blk_lines := blk_lines b @ [l]\<rparr>]"
      "ld_loc (place_line l s) = (ld_loc s)(line_id l \<mapsto> blk_addr b)"
    using False by (auto simp: place_line_def Let_def b)
  have ne: "blk_lines b \<noteq> []" using assms(1) by (simp add: load_ok_def b)
  then have "block_bytes b + line_bytes l \<le> block_capacity" using False b by (cases "blk_lines b") auto
  then have c: "block_bytes (b\<lparr>blk_lines := blk_lines b @ [l]\<rparr>) \<le> block_capacity" by (simp add: block_bytes_def)
  have "loc_ok (ld_blocks (place_line l s)) (ld_loc (place_line l s))"
    using assms unfolding load_ok_def loc_ok_def e b ids_blocks_lines by (auto 4 3)
  with assms(1) c show ?thesis unfolding load_ok_def e b by auto
qed

lemma place_lines_ok:
  assumes "load_ok s" and "distinct (map line_id (blocks_lines (ld_blocks s) @ ls))"
  shows "load_ok (place_lines ls s)" and "blocks_lines (ld_blocks (place_lines ls s)) = blocks_lines (ld_blocks s) @ ls"
    and "ld_max (place_lines ls s) = foldl max (ld_max s) (map line_id ls)"
proof -
  have "load_ok (place_lines ls s) \<and> blocks_lines (ld_blocks (place_lines ls s)) = blocks_lines (ld_blocks s) @ ls
      \<and> ld_max (place_lines ls s) = foldl max (ld_max s) (map line_id ls)"
    using assms
  proof (induction ls arbitrary: s)
    case (Cons l ls)
    have "line_id l \<notin> ids (blocks_lines (ld_blocks s))" using Cons.prems(2) by (auto simp: ids_def)
    note p = place_line_ok [OF Cons.prems(1) this] place_line_lines [of l s]
    have "ld_max (place_line l s) = max (ld_max s) (line_id l)"
      by (auto simp: place_line_def Let_def max_def)
    with Cons.IH [OF p(1)] Cons.prems(2) p(2) show ?case by (simp add: place_lines_def)
  qed (simp add: place_lines_def)
  then show "load_ok (place_lines ls s)" "blocks_lines (ld_blocks (place_lines ls s)) = blocks_lines (ld_blocks s) @ ls"
    "ld_max (place_lines ls s) = foldl max (ld_max s) (map line_id ls)" by blast+
qed

lemma foldl_max_bounds:
  fixes m :: "'a::linorder"
  shows "m \<le> foldl max m ks" "k \<in> set ks \<Longrightarrow> k \<le> foldl max m ks" "foldl max m ks \<in> insert m (set ks)"
proof (induction ks arbitrary: m)
  case (Cons x ks)
  {
    case 1 show ?case using Cons.IH(1) [of "max m x"] by simp
  next
    case 2 then show ?case using Cons.IH(1) [of "max m x"] Cons.IH(2) [of "max m x"] by auto
  next
    case 3 show ?case using Cons.IH(3) [of "max m x"] by (auto simp: max_def split: if_split_asm)
  }
qed simp_all

lemma distinct_u24:
  assumes "distinct (map line_id ls)" and "\<forall>k \<in> ids ls. k \<le> max_record_id"
  shows "length ls < 2 ^ 32"
proof -
  have "ids ls \<subseteq> {..max_record_id}" using assms(2) by auto
  then have "card (ids ls) \<le> card {..max_record_id :: u32}" by (intro card_mono) auto
  moreover have "card (unat ` {..max_record_id :: u32}) \<le> card {..0xFFFFFF :: nat}"
    by (intro card_mono) (auto simp: word_le_nat_alt)
  moreover have "card (unat ` {..max_record_id :: u32}) = card {..max_record_id :: u32}"
    by (rule card_image) (simp add: inj_on_def word_unat_eq_iff)
  moreover have "card (ids ls) = length ls"
    using assms(1) distinct_card [of "map line_id ls"] by (simp add: ids_def)
  ultimately show ?thesis by simp
qed

text \<open>
  C14.  Whatever a document that edits reached is serialised to, it is loaded back with the same
  lines and identifiers, in blocks that satisfy the storage invariant and the capacity rule,
  with an identifier counter above every line, and it serialises to the same bytes again.
\<close>

theorem load_serialize:
  assumes "edited n d" and "serialize buffer_write d [] = (None, buf)"
  shows "\<exists>d'. load buf = Inr d' \<and> doc_lines d' = doc_lines d \<and> storage_ok d'
    \<and> (\<forall>b \<in> set (doc_blocks d'). 2 \<le> length (blk_lines b) \<longrightarrow> block_bytes b \<le> block_capacity)
    \<and> (\<forall>k \<in> ids (doc_lines d'). k < doc_next d')
    \<and> serialize buffer_write d' [] = (None, buf)"
proof -
  have ok: "doc_ok d" by (rule edited_ok [OF assms(1)])
  have dist: "distinct (map line_id (doc_lines d))" by (rule doc_ok_storage(2) [OF ok])
  have b: "list_all (\<lambda>l. length (line_text l) \<le> 65535) (doc_lines d)"
    and buf: "buf = emdl_magic @ [emdl_version] @ put_u32 (of_nat (length (doc_lines d))) @ concat (map put_line (doc_lines d))"
    using assms(2) by (simp_all add: serialize_buffer)
  have k: "1 \<le> k \<and> k \<le> max_record_id" if "k \<in> ids (doc_lines d)" for k
  proof -
    have "k < doc_next d" "doc_next d \<le> max_record_id + 1" "1 \<le> k" using ok that by (auto simp: doc_ok_def)
    then have "k < max_record_id + 1" by (meson less_le_trans)
    then show ?thesis using \<open>1 \<le> k\<close> by (simp add: word_less_nat_alt word_le_nat_alt)
  qed
  then have lo: "list_all line_ok (doc_lines d)" using b by (auto simp: list_all_iff line_ok_def ids_def)
  have len: "unat (of_nat (length (doc_lines d)) :: u32) = length (doc_lines d)"
    using distinct_u24 [OF dist] k by (simp add: unat_of_nat)
  let ?init = "\<lparr>ld_blocks = [], ld_loc = Map.empty, ld_max = 0\<rparr> :: load_state"
  let ?s = "place_lines (doc_lines d) ?init"
  have "load_ok ?init" by (simp add: load_ok_def loc_ok_def)
  from place_lines_ok [OF this, of "doc_lines d"] dist have p: "load_ok ?s"
      "blocks_lines (ld_blocks ?s) = doc_lines d" "ld_max ?s = foldl max 0 (map line_id (doc_lines d))"
    by simp_all
  define d' where "d' = \<lparr>doc_blocks = ld_blocks ?s, doc_next = (if ld_max ?s > 0 then ld_max ?s + 1 else 1),
      doc_loc = ld_loc ?s, doc_undo = [], doc_redo = [], doc_fresh = length (ld_blocks ?s)\<rparr>"
  have "load_lines (length (doc_lines d)) ?init (concat (map put_line (doc_lines d)) @ []) = Inr ?s"
    by (rule load_lines_put [OF lo])
  then have l: "load buf = Inr d'"
    unfolding buf load_def d'_def
    by (simp add: read_full_def emdl_magic_def len)
  have ls: "doc_lines d' = doc_lines d" by (simp add: doc_lines_def d'_def p(2) [unfolded doc_lines_def])
  have addr: "map blk_addr (ld_blocks ?s) = [0..<length (ld_blocks ?s)]" using p(1) unfolding load_ok_def by blast
  have "blk_addr c < length (ld_blocks ?s)" if "c \<in> set (ld_blocks ?s)" for c
  proof -
    have "blk_addr c \<in> set (map blk_addr (ld_blocks ?s))" using that by simp
    then have "blk_addr c \<in> set [0..<length (ld_blocks ?s)]" by (simp only: addr)
    then show ?thesis by simp
  qed
  then have s: "storage_ok d'"
    using p(1) dist addr ls unfolding storage_ok_def by (auto simp: d'_def load_ok_def)
  have cap: "\<forall>b \<in> set (doc_blocks d'). 2 \<le> length (blk_lines b) \<longrightarrow> block_bytes b \<le> block_capacity"
    using p(1) by (simp add: d'_def load_ok_def)
  have next_ok: "\<forall>k \<in> ids (doc_lines d'). k < doc_next d'"
  proof
    fix j
    assume j: "j \<in> ids (doc_lines d')"
    then have "j \<le> ld_max ?s" unfolding p(3) ls ids_def using foldl_max_bounds(2) [of j "map line_id (doc_lines d)" 0] by simp
    moreover have "1 \<le> j" using k [of j] j by (simp add: ls)
    then have "0 < j" by (simp add: word_le_nat_alt word_less_nat_alt)
    moreover have "ld_max ?s \<le> max_record_id"
      using foldl_max_bounds(3) [of "0 :: u32" "map line_id (doc_lines d)"] k unfolding p(3) ids_def by auto
    moreover have "x < x + 1" if "x \<le> max_record_id" for x :: u32
      using that by (simp add: word_le_nat_alt word_less_nat_alt unat_word_ariths)
    ultimately have "0 < ld_max ?s" "j < ld_max ?s + 1" by (meson le_less_trans less_le_trans)+
    then show "j < doc_next d'" by (simp add: d'_def)
  qed
  have "serialize buffer_write d' [] = (None, buf)" using b buf by (simp add: serialize_buffer ls)
  with l ls s cap next_ok show ?thesis by blast
qed

lemma le_put_numeral: "le_put (numeral n) w = ucast w # le_put (pred_numeral n) (drop_bit 8 w)"
  by (simp add: numeral_eq_Suc)

lemma load_serialize_witness:
  "\<exists>d'. load [0x45, 0x4D, 0x44, 0x4C, 1, 1, 0, 0, 0, 1, 0, 0, 1, 0, 0x61] = Inr d' \<and> doc_lines d' = doc_lines after_insert"
proof -
  have "serialize buffer_write after_insert [] = (None, [0x45, 0x4D, 0x44, 0x4C, 1, 1, 0, 0, 0, 1, 0, 0, 1, 0, 0x61])"
    unfolding serialize_buffer after_insert_lines by (simp add: emdl_magic_def put_line_def line_chunks_def le_put_numeral)
  from load_serialize [OF edited_after_insert this] show ?thesis by blast
qed

text \<open>
  \<^verbatim>\<open>Load\<close> does not check that identifiers are distinct: a file that repeats one is accepted
  and the document it gives violates the invariant \<^verbatim>\<open>checkInvariants\<close> tests.
\<close>

theorem load_duplicate_ids:
  "\<exists>d. load (emdl_magic @ [1, 2, 0, 0, 0] @ [5, 0, 0, 0, 0] @ [5, 0, 0, 0, 0]) = Inr d \<and> \<not> storage_ok d"
proof -
  have n: "load_lines 2 s buf = load_lines (Suc (Suc 0)) s buf" for s buf by (simp add: numeral_2_eq_2)
  have "\<exists>d. load (emdl_magic @ [1, 2, 0, 0, 0] @ [5, 0, 0, 0, 0] @ [5, 0, 0, 0, 0]) = Inr d
      \<and> doc_lines d = [\<lparr>line_id = 5, line_text = []\<rparr>, \<lparr>line_id = 5, line_text = []\<rparr>]"
    by (simp add: load_def read_full_def emdl_magic_def n read_line_def place_line_def block_bytes_def
        line_bytes_def Let_def doc_lines_def)
  then show ?thesis by (auto simp: storage_ok_def)
qed

end
