(* ===== verification/Page_Pool.thy ===== *)
theory Page_Pool
  imports Prelude
begin

text \<open>
  The page allocator of the IDE, \<^verbatim>\<open>tools/sam-aarch64/pagepool/pagepool.go\<close>: one ownership tag
  per physical page, first-fit handout of single pages and of runs, and tag-checked frees.
\<close>

section \<open>State\<close>

abbreviation Reserved :: u8 where "Reserved \<equiv> 0"
abbreviation Free :: u8 where "Free \<equiv> 1"
abbreviation OwnerDoc :: u8 where "OwnerDoc \<equiv> 2"
abbreviation first_owner_tag :: u8 where "first_owner_tag \<equiv> 2"
abbreviation MaxPages :: nat where "MaxPages \<equiv> 32"

record pool =
  pl_owner :: "u8 list"
  pl_pages :: nat

text \<open>Addition of two \<^verbatim>\<open>int\<close>s.\<close>

definition gadd :: "int \<Rightarrow> int \<Rightarrow> int" where
  "gadd a b = sint (word_of_int (a + b) :: i64)"

section \<open>Operations\<close>

definition pool_init :: "int \<Rightarrow> pool res" where
  "pool_init n =
     (if n < 0 \<or> n > int MaxPages then Inl Panic
      else Inr \<lparr>pl_owner = map (\<lambda>i. if i < nat n then Free else Reserved) [0..<MaxPages], pl_pages = nat n\<rparr>)"

definition pool_reserve :: "int \<Rightarrow> pool \<Rightarrow> pool res" where
  "pool_reserve page p =
     (if page < 0 \<or> page \<ge> int MaxPages then Inl (Error ''pagepool: reserve page out of range'')
      else Inr (p\<lparr>pl_owner := (pl_owner p)[nat page := Reserved]\<rparr>))"

text \<open>The scan for the first page that satisfies a test, from \<open>i\<close> on, \<open>n\<close> pages.\<close>

fun first_index :: "(nat \<Rightarrow> bool) \<Rightarrow> nat \<Rightarrow> nat \<Rightarrow> nat option" where
  "first_index P i 0 = None"
| "first_index P i (Suc n) = (if P i then Some i else first_index P (Suc i) n)"

definition pool_alloc :: "u8 \<Rightarrow> pool \<Rightarrow> (nat option \<times> pool) res" where
  "pool_alloc tag p =
     (if tag < first_owner_tag then Inl Panic
      else case first_index (\<lambda>i. pl_owner p ! i = Free) 0 (pl_pages p) of
             None \<Rightarrow> Inr (None, p)
           | Some i \<Rightarrow> Inr (Some i, p\<lparr>pl_owner := (pl_owner p)[i := tag]\<rparr>))"

definition pool_free :: "int \<Rightarrow> u8 \<Rightarrow> pool \<Rightarrow> pool res" where
  "pool_free page expected p =
     (if page < 0 \<or> page \<ge> int MaxPages then Inl (Error ''pagepool: free page out of range'')
      else if pl_owner p ! nat page \<noteq> expected then Inl (Error ''pagepool: free page: wrong owner'')
      else Inr (p\<lparr>pl_owner := (pl_owner p)[nat page := Free]\<rparr>))"

text \<open>The inner loop of a run: do all pages from \<open>i\<close> on, \<open>n\<close> of them, have the tag.\<close>

fun run_has :: "u8 list \<Rightarrow> u8 \<Rightarrow> nat \<Rightarrow> nat \<Rightarrow> bool" where
  "run_has os tag i 0 = True"
| "run_has os tag i (Suc n) = (if os ! i \<noteq> tag then False else run_has os tag (Suc i) n)"

fun tag_run :: "u8 \<Rightarrow> nat \<Rightarrow> nat \<Rightarrow> u8 list \<Rightarrow> u8 list" where
  "tag_run tag i 0 os = os"
| "tag_run tag i (Suc n) os = tag_run tag (Suc i) n (os[i := tag])"

definition pool_alloc_run :: "int \<Rightarrow> u8 \<Rightarrow> pool \<Rightarrow> (nat option \<times> pool) res" where
  "pool_alloc_run n tag p =
     (if n \<le> 0 then Inl Panic
      else if tag < first_owner_tag then Inl Panic
      else case first_index (\<lambda>start. run_has (pl_owner p) Free start (nat n)) 0 (Suc (pl_pages p) - nat n) of
             None \<Rightarrow> Inr (None, p)
           | Some start \<Rightarrow> Inr (Some start, p\<lparr>pl_owner := tag_run tag start (nat n) (pl_owner p)\<rparr>))"

text \<open>
  The bound \<^verbatim>\<open>page+n\<close> is 64-bit arithmetic; the loops run from \<open>page\<close> up to it, so not at all
  when it wraps.
\<close>

definition pool_free_run :: "int \<Rightarrow> int \<Rightarrow> u8 \<Rightarrow> pool \<Rightarrow> pool res" where
  "pool_free_run page n expected p =
     (let stop = gadd page n; k = nat (stop - page) in
      if n \<le> 0 then Inl (Error ''pagepool: FreeRun with n <= 0'')
      else if page < 0 \<or> stop > int MaxPages then Inl (Error ''pagepool: free run out of range'')
      else if \<not> run_has (pl_owner p) expected (nat page) k then Inl (Error ''pagepool: free run: wrong owner'')
      else Inr (p\<lparr>pl_owner := tag_run Free (nat page) k (pl_owner p)\<rparr>))"

definition owner_of :: "int \<Rightarrow> pool \<Rightarrow> u8" where
  "owner_of page p = (if page < 0 \<or> page \<ge> int MaxPages then Reserved else pl_owner p ! nat page)"

definition free_count :: "pool \<Rightarrow> nat" where
  "free_count p = length (filter (\<lambda>i. pl_owner p ! i = Free) [0..<pl_pages p])"

section \<open>Lemmas\<close>

definition pool_ok :: "pool \<Rightarrow> bool" where
  "pool_ok p \<longleftrightarrow> length (pl_owner p) = MaxPages \<and> pl_pages p \<le> MaxPages"

lemma first_index_Some:
  "first_index P i n = Some j \<longleftrightarrow> i \<le> j \<and> j < i + n \<and> P j \<and> (\<forall>k. i \<le> k \<and> k < j \<longrightarrow> \<not> P k)"
proof (induction n arbitrary: i)
  case (Suc n)
  show ?case
  proof (cases "P i")
    case True
    then show ?thesis by (auto simp: le_less)
  next
    case False
    have "(\<forall>k. i \<le> k \<and> k < j \<longrightarrow> \<not> P k) \<longleftrightarrow> (\<forall>k. Suc i \<le> k \<and> k < j \<longrightarrow> \<not> P k)"
      using False by (metis Suc_leD le_antisym not_less_eq_eq)
    then show ?thesis using Suc.IH [of "Suc i"] False by (auto simp: le_less Suc_le_eq)
  qed
qed auto

lemma first_index_None: "first_index P i n = None \<longleftrightarrow> (\<forall>k. i \<le> k \<and> k < i + n \<longrightarrow> \<not> P k)"
proof (induction n arbitrary: i)
  case (Suc n)
  have "(\<forall>k. i \<le> k \<and> k < i + Suc n \<longrightarrow> \<not> P k) \<longleftrightarrow> \<not> P i \<and> (\<forall>k. Suc i \<le> k \<and> k < Suc i + n \<longrightarrow> \<not> P k)"
    by (metis Suc_leD Suc_le_eq add_Suc add_Suc_right le_add1 le_antisym not_less_eq_eq)
  then show ?case using Suc.IH [of "Suc i"] by simp
qed auto

lemma run_has_iff: "run_has os tag i n \<longleftrightarrow> (\<forall>j. i \<le> j \<and> j < i + n \<longrightarrow> os ! j = tag)"
proof (induction n arbitrary: i)
  case (Suc n)
  have "(\<forall>k. i \<le> k \<and> k < i + Suc n \<longrightarrow> os ! k = tag) \<longleftrightarrow> os ! i = tag \<and> (\<forall>k. Suc i \<le> k \<and> k < Suc i + n \<longrightarrow> os ! k = tag)"
    by (metis Suc_leD Suc_le_eq add_Suc add_Suc_right le_add1 le_antisym not_less_eq_eq)
  then show ?case using Suc.IH [of "Suc i"] by simp
qed auto

lemma length_tag_run [simp]: "length (tag_run tag i n os) = length os"
  by (induction n arbitrary: i os) simp_all

lemma nth_tag_run:
  "i + n \<le> length os \<Longrightarrow> j < length os \<Longrightarrow>
   tag_run tag i n os ! j = (if i \<le> j \<and> j < i + n then tag else os ! j)"
  by (induction n arbitrary: i os) (auto simp: nth_list_update)

lemma gadd_small: "\<bar>a + b\<bar> < 2 ^ 63 \<Longrightarrow> gadd a b = a + b"
  unfolding gadd_def by (rule sint_word_of_int64) linarith+

section \<open>The contract\<close>

text \<open>
  \<^verbatim>\<open>Alloc\<close> hands out the lowest free page and tags it, leaving every other page alone, and
  reports exhaustion exactly when \<^verbatim>\<open>FreeCount\<close> is zero.
\<close>

theorem pool_alloc_lowest:
  assumes "pool_ok p" and "first_owner_tag \<le> tag"
  shows "case pool_alloc tag p of
      Inr (Some i, p') \<Rightarrow> owner_of (int i) p = Free \<and> (\<forall>j. j < i \<longrightarrow> owner_of (int j) p \<noteq> Free)
        \<and> i < pl_pages p \<and> pool_ok p' \<and> (\<forall>j. owner_of j p' = (if j = int i then tag else owner_of j p))
    | Inr (None, p') \<Rightarrow> p' = p \<and> free_count p = 0
    | Inl _ \<Rightarrow> False"
proof (cases "first_index (\<lambda>i. pl_owner p ! i = Free) 0 (pl_pages p)")
  case None
  then have "free_count p = 0"
    using first_index_None [of _ 0] by (auto simp: free_count_def filter_empty_conv)
  with None assms show ?thesis by (simp add: pool_alloc_def not_less)
next
  case (Some i)
  note f = Some [unfolded first_index_Some]
  have "i < MaxPages" "length (pl_owner p) = MaxPages" using f assms(1) by (auto simp: pool_ok_def)
  with Some f assms show ?thesis
    by (auto simp: pool_alloc_def owner_of_def pool_ok_def not_less nth_list_update nat_eq_iff)
qed

text \<open>
  \<^verbatim>\<open>AllocRun\<close> hands out the first run of \<open>n\<close> free pages, and \<^verbatim>\<open>FreeRun\<close> of that run under the
  same tag succeeds and gives back exactly the table there was before.
\<close>

theorem alloc_run_free_run:
  assumes "pool_ok p" and "pool_alloc_run n tag p = Inr (Some i, p')"
  shows "int i + n \<le> int (pl_pages p)
    \<and> (\<forall>j. int i \<le> j \<and> j < int i + n \<longrightarrow> owner_of j p = Free \<and> owner_of j p' = tag)
    \<and> (\<forall>k. k < i \<longrightarrow> (\<exists>j. int k \<le> j \<and> j < int k + n \<and> owner_of j p \<noteq> Free))
    \<and> pool_free_run (int i) n tag p' = Inr p"
proof -
  have n: "0 < n" and f: "first_index (\<lambda>start. run_has (pl_owner p) Free start (nat n)) 0 (Suc (pl_pages p) - nat n) = Some i"
    and p': "p' = p\<lparr>pl_owner := tag_run tag i (nat n) (pl_owner p)\<rparr>"
    using assms(2) by (auto simp: pool_alloc_run_def split: if_split_asm option.splits)
  note s = f [unfolded first_index_Some]
  have le: "i + nat n \<le> pl_pages p" using s n by auto
  then have len: "i + nat n \<le> length (pl_owner p)" "length (pl_owner p) = 32" "pl_pages p \<le> 32"
    using assms(1) by (auto simp: pool_ok_def)
  have stop: "gadd (int i) n = int i + n" using le len n by (intro gadd_small) simp
  have free: "pl_owner p ! j = Free" if "i \<le> j" "j < i + nat n" for j
    using s that by (simp add: run_has_iff)
  have tagged: "tag_run tag i (nat n) (pl_owner p) ! j = tag" if "i \<le> j" "j < i + nat n" for j
    using that len by (simp add: nth_tag_run)
  have restored: "tag_run Free i (nat n) (tag_run tag i (nat n) (pl_owner p)) = pl_owner p"
    by (rule nth_equalityI) (use len free in \<open>simp_all add: nth_tag_run\<close>)
  have "run_has (tag_run tag i (nat n) (pl_owner p)) tag i (nat n)"
    unfolding run_has_iff using tagged by blast
  then have "pool_free_run (int i) n tag p' = Inr p"
    using n le len restored by (simp add: pool_free_run_def Let_def stop p')
  moreover have "owner_of j p = Free \<and> owner_of j p' = tag" if "int i \<le> j" "j < int i + n" for j
  proof -
    have "nat j < i + nat n" "i \<le> nat j" "j < 32" "0 \<le> j" using that len by linarith+
    then show ?thesis using free [of "nat j"] tagged [of "nat j"] by (simp add: owner_of_def p')
  qed
  moreover have "\<exists>j. int k \<le> j \<and> j < int k + n \<and> owner_of j p \<noteq> Free" if "k < i" for k
  proof -
    have "\<not> run_has (pl_owner p) Free k (nat n)" using s that by simp
    then obtain j where j: "k \<le> j" "j < k + nat n" "pl_owner p ! j \<noteq> Free" by (auto simp: run_has_iff)
    then have "owner_of (int j) p \<noteq> Free" using that le len by (simp add: owner_of_def)
    with j n show ?thesis by (intro exI [of _ "int j"]) auto
  qed
  moreover have "int i + n \<le> int (pl_pages p)" using le n by linarith
  ultimately show ?thesis by blast
qed

lemma alloc_run_free_run_witness:
  "pool_free_run 1 2 OwnerDoc \<lparr>pl_owner = [0, 2, 2] @ replicate 29 0, pl_pages = 3\<rparr>
   = Inr \<lparr>pl_owner = [0, 1, 1] @ replicate 29 0, pl_pages = 3\<rparr>"
proof -
  have n: "nat 2 = Suc (Suc 0)" "Suc 3 - nat 2 = Suc (Suc 0)" by simp_all
  have "pool_alloc_run 2 OwnerDoc \<lparr>pl_owner = [0, 1, 1] @ replicate 29 0, pl_pages = 3\<rparr>
      = Inr (Some 1, \<lparr>pl_owner = [0, 2, 2] @ replicate 29 0, pl_pages = 3\<rparr>)"
    unfolding pool_alloc_run_def n pool.select_convs by (simp add: numeral_2_eq_2)
  from alloc_run_free_run [OF _ this] show ?thesis by (simp add: pool_ok_def)
qed

text \<open>
  A free is checked against the caller's tag only, so freeing a reserved page under the tag
  Reserved succeeds and the page is handed out afterwards: the comments promise that \<^verbatim>\<open>Free\<close>
  accepts handed-out pages only and that reserved pages are never handed out.
\<close>

theorem reserved_page_freed:
  assumes "pool_ok p" and "i < pl_pages p" and "\<forall>j < pl_pages p. pl_owner p ! j = Reserved"
    and "first_owner_tag \<le> tag"
  shows "\<exists>p' p''. pool_free (int i) Reserved p = Inr p' \<and> pool_alloc tag p' = Inr (Some i, p'')"
proof -
  have l: "length (pl_owner p) = 32" "i < 32" using assms(1,2) by (auto simp: pool_ok_def)
  let ?p' = "p\<lparr>pl_owner := (pl_owner p)[i := Free]\<rparr>"
  have "pool_free (int i) Reserved p = Inr ?p'"
    using l assms(2,3) by (simp add: pool_free_def)
  moreover have "first_index (\<lambda>j. pl_owner ?p' ! j = Free) 0 (pl_pages p) = Some i"
    unfolding first_index_Some using l assms(2,3) by (auto simp: nth_list_update)
  ultimately show ?thesis using assms(4) by (simp add: pool_alloc_def not_less)
qed

lemma reserved_page_freed_witness:
  "\<exists>p' p''. pool_free 0 Reserved \<lparr>pl_owner = replicate 32 Reserved, pl_pages = 1\<rparr> = Inr p'
     \<and> pool_alloc OwnerDoc p' = Inr (Some 0, p'')"
  using reserved_page_freed [of "\<lparr>pl_owner = replicate 32 Reserved, pl_pages = 1\<rparr>" 0 OwnerDoc]
  by (simp add: pool_ok_def)

lemma pool_alloc_lowest_witness:
  "\<not> fails (pool_alloc OwnerDoc \<lparr>pl_owner = replicate 32 Free, pl_pages = 32\<rparr>)"
  using pool_alloc_lowest [of "\<lparr>pl_owner = replicate 32 Free, pl_pages = 32\<rparr>" OwnerDoc]
  by (auto simp: pool_ok_def split: sum.splits)

end
