(* ===== verification/Page_Spill.thy ===== *)
theory Page_Spill
  imports Page_Pool
begin

text \<open>
  The spill manager, \<^verbatim>\<open>tools/sam-aarch64/pagepool/spill.go\<close>: document blocks own a page while
  resident and live in a backend while spilled; an allocation that finds no free page evicts
  the coldest resident block.

  The backend is an argument: its three operations on a state of any type.  The registry, a Go
  map, is an association list with distinct keys; Go iterates it in an arbitrary order.
\<close>

section \<open>State\<close>

record doc_block =
  db_page :: int
  db_data :: bytes
  db_last :: u64
  db_spilled :: bool

record 'b backend_ops =
  be_store :: "u32 \<Rightarrow> bytes \<Rightarrow> 'b \<Rightarrow> string option \<times> 'b"
  be_load :: "u32 \<Rightarrow> 'b \<Rightarrow> (string + bytes) \<times> 'b"
  be_discard :: "u32 \<Rightarrow> 'b \<Rightarrow> string option \<times> 'b"

record 'b manager =
  mg_pool :: pool
  mg_backend :: "'b option"
  mg_blocks :: "(u32 \<times> doc_block) list"
  mg_seq :: u64
  mg_next :: u32
  mg_spills :: nat
  mg_reloads :: nat

abbreviation ErrPoolExhausted :: go_fail where
  "ErrPoolExhausted \<equiv> Error ''pagepool: pool exhausted and no DOC block available to spill''"

definition new_manager :: "pool \<Rightarrow> 'b option \<Rightarrow> 'b manager" where
  "new_manager p b = \<lparr>mg_pool = p, mg_backend = b, mg_blocks = [], mg_seq = 0, mg_next = 0, mg_spills = 0,
     mg_reloads = 0\<rparr>"

text \<open>Writing an entry of the registry.\<close>

fun put_block :: "u32 \<Rightarrow> doc_block \<Rightarrow> (u32 \<times> doc_block) list \<Rightarrow> (u32 \<times> doc_block) list" where
  "put_block k v [] = [(k, v)]"
| "put_block k v ((k', v') # bs) = (if k = k' then (k, v) # bs else (k', v') # put_block k v bs)"

section \<open>Operations\<close>

text \<open>An operation returns its result and the manager, which keeps what was done before an error.\<close>

definition coldest_step ::
  "u32 option \<Rightarrow> (u32 \<times> doc_block) option \<Rightarrow> u32 \<times> doc_block \<Rightarrow> (u32 \<times> doc_block) option" where
  "coldest_step protect acc kb =
     (if db_spilled (snd kb) then acc
      else if protect = Some (fst kb) then acc
      else case acc of
             None \<Rightarrow> Some kb
           | Some c \<Rightarrow> if db_last (snd kb) < db_last (snd c) then Some kb else acc)"

definition coldest_resident :: "(u32 \<times> doc_block) list \<Rightarrow> u32 option \<Rightarrow> (u32 \<times> doc_block) option" where
  "coldest_resident bs protect = foldl (coldest_step protect) None bs"

definition ensure_free_page :: "'b backend_ops \<Rightarrow> u32 option \<Rightarrow> 'b manager \<Rightarrow> unit res \<times> 'b manager" where
  "ensure_free_page be protect m =
     (if free_count (mg_pool m) > 0 then (Inr (), m)
      else case mg_backend m of
        None \<Rightarrow> (Inl ErrPoolExhausted, m)
      | Some b \<Rightarrow>
          (case coldest_resident (mg_blocks m) protect of
             None \<Rightarrow> (Inl ErrPoolExhausted, m)
           | Some (k, v) \<Rightarrow>
               (case be_store be k (db_data v) b of
                  (Some err, b') \<Rightarrow> (Inl (Error err), m\<lparr>mg_backend := Some b'\<rparr>)
                | (None, b') \<Rightarrow>
                    (case pool_free (db_page v) OwnerDoc (mg_pool m) of
                       Inl err \<Rightarrow> (Inl err, m\<lparr>mg_backend := Some b'\<rparr>)
                     | Inr p' \<Rightarrow>
                         (Inr (), m\<lparr>mg_backend := Some b', mg_pool := p',
                            mg_blocks := put_block k (v\<lparr>db_spilled := True, db_page := - 1, db_data := []\<rparr>) (mg_blocks m),
                            mg_spills := mg_spills m + 1\<rparr>)))))"

definition alloc_page :: "'b backend_ops \<Rightarrow> u32 option \<Rightarrow> u8 \<Rightarrow> 'b manager \<Rightarrow> nat res \<times> 'b manager" where
  "alloc_page be protect tag m =
     (case ensure_free_page be protect m of
        (Inl err, m1) \<Rightarrow> (Inl err, m1)
      | (Inr _, m1) \<Rightarrow>
          (case pool_alloc tag (mg_pool m1) of
             Inl err \<Rightarrow> (Inl err, m1)
           | Inr (None, _) \<Rightarrow> (Inl ErrPoolExhausted, m1)
           | Inr (Some page, p') \<Rightarrow> (Inr page, m1\<lparr>mg_pool := p'\<rparr>)))"

definition new_block :: "'b backend_ops \<Rightarrow> bytes \<Rightarrow> 'b manager \<Rightarrow> u32 res \<times> 'b manager" where
  "new_block be data m =
     (case alloc_page be None OwnerDoc m of
        (Inl err, m1) \<Rightarrow> (Inl err, m1)
      | (Inr page, m1) \<Rightarrow>
          (Inr (mg_next m1), m1\<lparr>mg_next := mg_next m1 + 1, mg_seq := mg_seq m1 + 1,
             mg_blocks := put_block (mg_next m1)
               \<lparr>db_page = int page, db_data = data, db_last = mg_seq m1 + 1, db_spilled = False\<rparr> (mg_blocks m1)\<rparr>))"

text \<open>The undo of the page grab ignores the error of \<^verbatim>\<open>Free\<close>.\<close>

definition release_page :: "nat \<Rightarrow> 'b manager \<Rightarrow> 'b manager" where
  "release_page page m =
     (case pool_free (int page) OwnerDoc (mg_pool m) of Inl _ \<Rightarrow> m | Inr p' \<Rightarrow> m\<lparr>mg_pool := p'\<rparr>)"

text \<open>A nil backend is dereferenced by \<^verbatim>\<open>Load\<close>, which panics.\<close>

definition reload :: "'b backend_ops \<Rightarrow> u32 \<Rightarrow> doc_block \<Rightarrow> 'b manager \<Rightarrow> unit res \<times> 'b manager" where
  "reload be k v m =
     (case alloc_page be (Some k) OwnerDoc m of
        (Inl err, m1) \<Rightarrow> (Inl err, m1)
      | (Inr page, m1) \<Rightarrow>
          (case mg_backend m1 of
             None \<Rightarrow> (Inl Panic, m1)
           | Some b \<Rightarrow>
               (case be_load be k b of
                  (Inl err, b1) \<Rightarrow> (Inl (Error err), release_page page (m1\<lparr>mg_backend := Some b1\<rparr>))
                | (Inr data, b1) \<Rightarrow>
                    (case be_discard be k b1 of
                       (Some err, b2) \<Rightarrow> (Inl (Error err), release_page page (m1\<lparr>mg_backend := Some b2\<rparr>))
                     | (None, b2) \<Rightarrow>
                         (Inr (), m1\<lparr>mg_backend := Some b2,
                            mg_blocks := put_block k (v\<lparr>db_page := int page, db_data := data, db_spilled := False\<rparr>) (mg_blocks m1),
                            mg_reloads := mg_reloads m1 + 1\<rparr>)))))"

definition touch_block :: "u32 \<Rightarrow> 'b manager \<Rightarrow> bytes res \<times> 'b manager" where
  "touch_block k m =
     (case map_of (mg_blocks m) k of
        None \<Rightarrow> (Inl Panic, m)
      | Some v \<Rightarrow> (Inr (db_data v), m\<lparr>mg_seq := mg_seq m + 1,
           mg_blocks := put_block k (v\<lparr>db_last := mg_seq m + 1\<rparr>) (mg_blocks m)\<rparr>))"

definition block_data :: "'b backend_ops \<Rightarrow> u32 \<Rightarrow> 'b manager \<Rightarrow> bytes res \<times> 'b manager" where
  "block_data be k m =
     (case map_of (mg_blocks m) k of
        None \<Rightarrow> (Inl (Error ''pagepool: unknown block''), m)
      | Some v \<Rightarrow>
          if db_spilled v
          then (case reload be k v m of
                  (Inl err, m1) \<Rightarrow> (Inl err, m1)
                | (Inr _, m1) \<Rightarrow> touch_block k m1)
          else touch_block k m)"

definition drop_block :: "u32 \<Rightarrow> 'b manager \<Rightarrow> 'b manager" where
  "drop_block k m = m\<lparr>mg_blocks := filter (\<lambda>kb. fst kb \<noteq> k) (mg_blocks m)\<rparr>"

definition free_block :: "'b backend_ops \<Rightarrow> u32 \<Rightarrow> 'b manager \<Rightarrow> unit res \<times> 'b manager" where
  "free_block be k m =
     (case map_of (mg_blocks m) k of
        None \<Rightarrow> (Inl (Error ''pagepool: unknown block''), m)
      | Some v \<Rightarrow>
          if db_spilled v
          then (case mg_backend m of
                  None \<Rightarrow> (Inr (), drop_block k m)
                | Some b \<Rightarrow>
                    (case be_discard be k b of
                       (Some err, b') \<Rightarrow> (Inl (Error err), m\<lparr>mg_backend := Some b'\<rparr>)
                     | (None, b') \<Rightarrow> (Inr (), drop_block k (m\<lparr>mg_backend := Some b'\<rparr>))))
          else (case pool_free (db_page v) OwnerDoc (mg_pool m) of
                  Inl err \<Rightarrow> (Inl err, m)
                | Inr p' \<Rightarrow> (Inr (), drop_block k (m\<lparr>mg_pool := p'\<rparr>))))"

definition manager_alloc :: "'b backend_ops \<Rightarrow> u8 \<Rightarrow> 'b manager \<Rightarrow> nat res \<times> 'b manager" where
  "manager_alloc be tag m =
     (if tag = OwnerDoc then (Inl (Error ''pagepool: use NewBlock for OwnerDoc allocations''), m)
      else if tag < first_owner_tag then (Inl (Error ''pagepool: Alloc with non-owner tag''), m)
      else alloc_page be None tag m)"

definition manager_free :: "int \<Rightarrow> u8 \<Rightarrow> 'b manager \<Rightarrow> unit res \<times> 'b manager" where
  "manager_free page tag m =
     (if tag = OwnerDoc then (Inl (Error ''pagepool: use FreeBlock for OwnerDoc pages''), m)
      else case pool_free page tag (mg_pool m) of
             Inl err \<Rightarrow> (Inl err, m)
           | Inr p' \<Rightarrow> (Inr (), m\<lparr>mg_pool := p'\<rparr>))"

definition resident_doc_count :: "'b manager \<Rightarrow> nat" where
  "resident_doc_count m = length (filter (\<lambda>kb. \<not> db_spilled (snd kb)) (mg_blocks m))"

definition spilled_doc_count :: "'b manager \<Rightarrow> nat" where
  "spilled_doc_count m = length (filter (\<lambda>kb. db_spilled (snd kb)) (mg_blocks m))"

section \<open>The registry\<close>

lemma map_of_put_block [simp]: "map_of (put_block k v bs) = (map_of bs)(k \<mapsto> v)"
  by (induction k v bs rule: put_block.induct) (auto simp: fun_eq_iff)

lemma keys_put_block: "fst ` set (put_block k v bs) = insert k (fst ` set bs)"
  by (induction k v bs rule: put_block.induct) auto

lemma distinct_put_block: "distinct (map fst bs) \<Longrightarrow> distinct (map fst (put_block k v bs))"
proof (induction k v bs rule: put_block.induct)
  case (2 k v k' v' bs)
  then show ?case using keys_put_block [of k v bs] by (auto simp: image_iff)
qed simp

lemma map_of_drop: "map_of (filter (\<lambda>kb. fst kb \<noteq> k) bs) = (map_of bs)(k := None)"
  by (induction bs) (auto simp: fun_eq_iff)

section \<open>The victim\<close>

lemma coldest_fold:
  assumes "foldl (coldest_step protect) acc bs = Some c"
  shows "(acc = Some c \<or> c \<in> set bs \<and> \<not> db_spilled (snd c) \<and> protect \<noteq> Some (fst c))
    \<and> (\<forall>c0. acc = Some c0 \<longrightarrow> db_last (snd c) \<le> db_last (snd c0))
    \<and> (\<forall>kb \<in> set bs. \<not> db_spilled (snd kb) \<and> protect \<noteq> Some (fst kb) \<longrightarrow> db_last (snd c) \<le> db_last (snd kb))"
  using assms
proof (induction bs arbitrary: acc)
  case (Cons kb bs)
  obtain k v where kb: "kb = (k, v)" by (cases kb)
  from Cons.IH [of "coldest_step protect acc kb"] Cons.prems show ?case
    unfolding kb by (cases acc) (auto simp: coldest_step_def not_less split: if_split_asm intro: order_trans less_imp_le)
qed simp

lemma coldest_resident_Some:
  "coldest_resident bs protect = Some (k, v) \<Longrightarrow>
     (k, v) \<in> set bs \<and> \<not> db_spilled v \<and> protect \<noteq> Some k
   \<and> (\<forall>(k', v') \<in> set bs. \<not> db_spilled v' \<and> protect \<noteq> Some k' \<longrightarrow> db_last v \<le> db_last v')"
  using coldest_fold [of protect None bs "(k, v)"] by (auto simp: coldest_resident_def)

end
