(* ===== verification/Spill_Props.thy ===== *)
theory Spill_Props
  imports Page_Spill
begin

text \<open>
  Spilling is invisible to the owner of a block: whatever is evicted and reloaded in between,
  a block's payload is what it was created with.  What the manager relies on is the interface
  \<open>spill_backend\<close> of the store; a map is one.
\<close>

section \<open>The backend\<close>

text \<open>\<open>stored b k\<close> is the payload the backend holds for a block.  A failing call changes nothing.\<close>

locale spill_backend =
  fixes be :: "'b backend_ops"
    and stored :: "'b \<Rightarrow> u32 \<rightharpoonup> bytes"
  assumes store_ok: "be_store be k d b = (None, b') \<Longrightarrow> stored b' = (stored b)(k \<mapsto> d)"
    and store_err: "be_store be k d b = (Some err, b') \<Longrightarrow> stored b' = stored b"
    and load_ok: "be_load be k b = (Inr d, b') \<Longrightarrow> stored b k = Some d \<and> stored b' = stored b"
    and load_err: "be_load be k b = (Inl err, b') \<Longrightarrow> stored b' = stored b"
    and discard_ok: "be_discard be k b = (None, b') \<Longrightarrow> stored b' = (stored b)(k := None)"
    and discard_err: "be_discard be k b = (Some err, b') \<Longrightarrow> stored b' = stored b"

text \<open>The backend of the tests: a map.\<close>

definition mem_backend :: "(u32 \<rightharpoonup> bytes) backend_ops" where
  "mem_backend = \<lparr>
     be_store = (\<lambda>k d b. (None, b(k \<mapsto> d))),
     be_load = (\<lambda>k b. (case b k of None \<Rightarrow> Inl ''memBackend: no stored block'' | Some d \<Rightarrow> Inr d, b)),
     be_discard = (\<lambda>k b. (None, b(k := None)))\<rparr>"

section \<open>The invariant\<close>

text \<open>\<open>held\<close> are document pages that an operation in progress has taken but not yet recorded.\<close>

definition resident_ok :: "pool \<Rightarrow> doc_block \<Rightarrow> bool" where
  "resident_ok p v \<longleftrightarrow> 0 \<le> db_page v \<and> db_page v < int (pl_pages p) \<and> pl_owner p ! nat (db_page v) = OwnerDoc"

definition manager_ok :: "('b \<Rightarrow> u32 \<rightharpoonup> bytes) \<Rightarrow> nat set \<Rightarrow> 'b manager \<Rightarrow> bool" where
  "manager_ok stored held m \<longleftrightarrow>
     pool_ok (mg_pool m) \<and> distinct (map fst (mg_blocks m))
     \<and> (\<forall>k v. map_of (mg_blocks m) k = Some v \<and> db_spilled v \<longrightarrow>
          (\<exists>b d. mg_backend m = Some b \<and> stored b k = Some d))
     \<and> (\<forall>k v. map_of (mg_blocks m) k = Some v \<and> \<not> db_spilled v \<longrightarrow>
          resident_ok (mg_pool m) v \<and> nat (db_page v) \<notin> held)
     \<and> (\<forall>k k' v v'. map_of (mg_blocks m) k = Some v \<and> map_of (mg_blocks m) k' = Some v' \<and> k \<noteq> k'
          \<and> \<not> db_spilled v \<and> \<not> db_spilled v' \<longrightarrow> db_page v \<noteq> db_page v')
     \<and> (\<forall>i < MaxPages. pl_owner (mg_pool m) ! i = OwnerDoc \<and> i \<notin> held \<longrightarrow>
          (\<exists>k v. map_of (mg_blocks m) k = Some v \<and> \<not> db_spilled v \<and> db_page v = int i))"

definition payload :: "('b \<Rightarrow> u32 \<rightharpoonup> bytes) \<Rightarrow> 'b manager \<Rightarrow> u32 \<rightharpoonup> bytes" where
  "payload stored m k =
     (case map_of (mg_blocks m) k of
        None \<Rightarrow> None
      | Some v \<Rightarrow> if db_spilled v then (case mg_backend m of None \<Rightarrow> None | Some b \<Rightarrow> stored b k)
                  else Some (db_data v))"

lemma manager_okD:
  assumes "manager_ok stored held m"
  shows "pool_ok (mg_pool m)" and "distinct (map fst (mg_blocks m))"
    and "map_of (mg_blocks m) k = Some v \<Longrightarrow> db_spilled v \<Longrightarrow> \<exists>b d. mg_backend m = Some b \<and> stored b k = Some d"
    and "map_of (mg_blocks m) k = Some v \<Longrightarrow> \<not> db_spilled v \<Longrightarrow> resident_ok (mg_pool m) v \<and> nat (db_page v) \<notin> held"
    and "map_of (mg_blocks m) k = Some v \<Longrightarrow> map_of (mg_blocks m) k' = Some v' \<Longrightarrow> k \<noteq> k' \<Longrightarrow>
      \<not> db_spilled v \<Longrightarrow> \<not> db_spilled v' \<Longrightarrow> db_page v \<noteq> db_page v'"
    and "i < MaxPages \<Longrightarrow> pl_owner (mg_pool m) ! i = OwnerDoc \<Longrightarrow> i \<notin> held \<Longrightarrow>
      \<exists>k v. map_of (mg_blocks m) k = Some v \<and> \<not> db_spilled v \<and> db_page v = int i"
  using assms unfolding manager_ok_def by blast+

lemma payload_frame [simp]:
  "payload stored (m\<lparr>mg_pool := p\<rparr>) = payload stored m"
  "payload stored (m\<lparr>mg_seq := n\<rparr>) = payload stored m"
  "payload stored (m\<lparr>mg_next := x\<rparr>) = payload stored m"
  "payload stored (m\<lparr>mg_reloads := i\<rparr>) = payload stored m"
  by (auto simp: payload_def fun_eq_iff split: option.split)

section \<open>The pool's operations as updates\<close>

lemma pool_alloc_Some:
  "pool_alloc tag p = Inr (Some i, p') \<Longrightarrow>
   i < pl_pages p \<and> pl_owner p ! i = Free \<and> p' = p\<lparr>pl_owner := (pl_owner p)[i := tag]\<rparr> \<and> first_owner_tag \<le> tag"
  using first_index_Some [of "\<lambda>i. pl_owner p ! i = Free" 0 "pl_pages p" i]
  by (auto simp: pool_alloc_def split: if_split_asm option.splits)

lemma pool_alloc_free: "free_count p > 0 \<Longrightarrow> first_owner_tag \<le> tag \<Longrightarrow> \<exists>i p'. pool_alloc tag p = Inr (Some i, p')"
  using first_index_None [of "\<lambda>i. pl_owner p ! i = Free" 0 "pl_pages p"]
  by (auto simp: pool_alloc_def free_count_def not_less filter_empty_conv split: option.splits)

lemma pool_free_Inr:
  "pool_free page tag p = Inr p' \<longleftrightarrow> 0 \<le> page \<and> page < int MaxPages \<and> pl_owner p ! nat page = tag
     \<and> p' = p\<lparr>pl_owner := (pl_owner p)[nat page := Free]\<rparr>"
  by (auto simp: pool_free_def)

lemma pool_free_resident: "pool_ok p \<Longrightarrow> resident_ok p v \<Longrightarrow>
    pool_free (db_page v) OwnerDoc p = Inr (p\<lparr>pl_owner := (pl_owner p)[nat (db_page v) := Free]\<rparr>)"
  by (auto simp: pool_free_Inr resident_ok_def pool_ok_def)

lemma pool_ok_update [simp]: "pool_ok (p\<lparr>pl_owner := (pl_owner p)[i := t]\<rparr>) = pool_ok p"
  by (simp add: pool_ok_def)

lemma free_count_positive: "pool_ok p \<Longrightarrow> i < pl_pages p \<Longrightarrow> free_count (p\<lparr>pl_owner := (pl_owner p)[i := Free]\<rparr>) > 0"
  by (auto simp: free_count_def pool_ok_def filter_empty_conv intro!: bexI [of _ i])

section \<open>Spilling\<close>

context spill_backend
begin

lemma manager_ok_backend:
  assumes "manager_ok stored held m" and "mg_backend m = Some b" and "stored b' = stored b"
  shows "manager_ok stored held (m\<lparr>mg_backend := Some b'\<rparr>)" and "payload stored (m\<lparr>mg_backend := Some b'\<rparr>) = payload stored m"
  using assms by (auto simp: manager_ok_def payload_def fun_eq_iff split: option.splits)

lemma evict_ok:
  assumes m: "manager_ok stored {} m" and b: "mg_backend m = Some b"
    and k: "map_of (mg_blocks m) k = Some v" "\<not> db_spilled v"
    and s: "stored b' = (stored b)(k \<mapsto> db_data v)"
  defines "m' \<equiv> m\<lparr>mg_backend := Some b', mg_pool := (mg_pool m)\<lparr>pl_owner := (pl_owner (mg_pool m))[nat (db_page v) := Free]\<rparr>,
      mg_blocks := put_block k (v\<lparr>db_spilled := True, db_page := - 1, db_data := []\<rparr>) (mg_blocks m),
      mg_spills := mg_spills m + 1\<rparr>"
  shows "manager_ok stored {} m'" and "payload stored m' = payload stored m" and "free_count (mg_pool m') > 0"
proof -
  note d = manager_okD [OF m]
  have v: "resident_ok (mg_pool m) v" using d(4) [OF k] by blast
  then have pg: "0 \<le> db_page v" "nat (db_page v) < pl_pages (mg_pool m)" "nat (db_page v) < 32"
      "nat (db_page v) < length (pl_owner (mg_pool m))"
    using d(1) by (auto simp: resident_ok_def pool_ok_def)
  show "payload stored m' = payload stored m"
    using k b s by (auto simp: payload_def m'_def fun_eq_iff split: option.splits)
  show "free_count (mg_pool m') > 0"
    using free_count_positive [OF d(1) pg(2)] by (simp add: m'_def)
  have other: "nat (db_page w) \<noteq> nat (db_page v)" if "map_of (mg_blocks m) j = Some w" "\<not> db_spilled w" "j \<noteq> k" for j w
    using d(5) [OF that(1) k(1) that(3) that(2) k(2)] d(4) [OF that(1,2)] pg(1)
    by (auto simp: resident_ok_def)
  have res: "resident_ok (mg_pool m') w" if "map_of (mg_blocks m) j = Some w" "\<not> db_spilled w" "j \<noteq> k" for j w
    using d(4) [OF that(1,2)] other [OF that] by (auto simp: resident_ok_def m'_def nth_list_update)
  show "manager_ok stored {} m'"
    unfolding manager_ok_def
  proof (intro conjI allI impI)
    show "pool_ok (mg_pool m')" "distinct (map fst (mg_blocks m'))"
      using d(1,2) by (simp_all add: m'_def distinct_put_block)
    show "\<exists>b d. mg_backend m' = Some b \<and> stored b j = Some d" if "map_of (mg_blocks m') j = Some w \<and> db_spilled w" for j w
      using that d(3) [of j w] b s by (auto simp: m'_def split: if_split_asm)
    show "resident_ok (mg_pool m') w" if "map_of (mg_blocks m') j = Some w \<and> \<not> db_spilled w" for j w
      using that res [of j w] by (auto simp: m'_def split: if_split_asm)
    show "db_page w \<noteq> db_page w'" if "map_of (mg_blocks m') j = Some w \<and> map_of (mg_blocks m') j' = Some w' \<and> j \<noteq> j'
        \<and> \<not> db_spilled w \<and> \<not> db_spilled w'" for j j' w w'
      using that d(5) [of j w j' w'] by (auto simp: m'_def split: if_split_asm)
    show "\<exists>j w. map_of (mg_blocks m') j = Some w \<and> \<not> db_spilled w \<and> db_page w = int i"
      if i: "i < MaxPages" and o': "pl_owner (mg_pool m') ! i = OwnerDoc \<and> i \<notin> {}" for i
    proof -
      have ne: "i \<noteq> nat (db_page v)" and "pl_owner (mg_pool m) ! i = OwnerDoc"
        using o' pg(4) by (auto simp: m'_def nth_list_update split: if_split_asm)
      then obtain j w where "map_of (mg_blocks m) j = Some w" "\<not> db_spilled w" "db_page w = int i"
        using d(6) [OF i] by blast
      with ne k(1) show ?thesis by (intro exI [of _ j] exI [of _ w]) (auto simp: m'_def)
    qed
  qed simp
qed

lemma ensure_free_page_ok:
  assumes "manager_ok stored {} m" and "ensure_free_page be protect m = (r, m')"
  shows "manager_ok stored {} m'" and "payload stored m' = payload stored m"
    and "r = Inr () \<Longrightarrow> free_count (mg_pool m') > 0"
    and "mg_next m' = mg_next m \<and> (mg_backend m' = None \<longleftrightarrow> mg_backend m = None)"
    and "dom (map_of (mg_blocks m')) = dom (map_of (mg_blocks m))"
    and "protect = Some k \<Longrightarrow> map_of (mg_blocks m') k = map_of (mg_blocks m) k"
proof -
  have "manager_ok stored {} m' \<and> payload stored m' = payload stored m
      \<and> (r = Inr () \<longrightarrow> free_count (mg_pool m') > 0)
      \<and> mg_next m' = mg_next m \<and> (mg_backend m' = None \<longleftrightarrow> mg_backend m = None)
      \<and> dom (map_of (mg_blocks m')) = dom (map_of (mg_blocks m))
      \<and> (protect = Some k \<longrightarrow> map_of (mg_blocks m') k = map_of (mg_blocks m) k)"
  proof (cases "free_count (mg_pool m) > 0 \<or> mg_backend m = None \<or> coldest_resident (mg_blocks m) protect = None")
    case True
    with assms show ?thesis by (auto simp: ensure_free_page_def split: if_split_asm option.splits)
  next
    case False
    then obtain b j v where f: "free_count (mg_pool m) = 0" "mg_backend m = Some b"
      and c: "coldest_resident (mg_blocks m) protect = Some (j, v)" by auto
    note cv = coldest_resident_Some [OF c]
    have k: "map_of (mg_blocks m) j = Some v" "\<not> db_spilled v" "protect \<noteq> Some j"
      using cv map_of_is_SomeI [OF manager_okD(2) [OF assms(1)]] by auto
    obtain e b' where st: "be_store be j (db_data v) b = (e, b')" by fastforce
    show ?thesis
    proof (cases e)
      case (Some err)
      have "stored b' = stored b" using store_err st Some by blast
      from manager_ok_backend [OF assms(1) f(2) this] show ?thesis
        using assms(2) f c st Some by (auto simp: ensure_free_page_def)
    next
      case None
      have s: "stored b' = (stored b)(j \<mapsto> db_data v)" using store_ok st None by blast
      have pf: "pool_free (db_page v) OwnerDoc (mg_pool m)
          = Inr ((mg_pool m)\<lparr>pl_owner := (pl_owner (mg_pool m))[nat (db_page v) := Free]\<rparr>)"
        using pool_free_resident [OF manager_okD(1) [OF assms(1)]] manager_okD(4) [OF assms(1) k(1,2)] by blast
      have m': "r = Inr ()" "m' = m\<lparr>mg_backend := Some b',
          mg_pool := (mg_pool m)\<lparr>pl_owner := (pl_owner (mg_pool m))[nat (db_page v) := Free]\<rparr>,
          mg_blocks := put_block j (v\<lparr>db_spilled := True, db_page := - 1, db_data := []\<rparr>) (mg_blocks m),
          mg_spills := mg_spills m + 1\<rparr>"
        using assms(2) f c st None pf by (simp_all add: ensure_free_page_def)
      have "dom (map_of (mg_blocks m')) = dom (map_of (mg_blocks m))"
        using k(1) by (auto simp: m'(2) split: if_split_asm)
      then show ?thesis
        using evict_ok [OF assms(1) f(2) k(1,2) s] k f(2) m'(1) by (simp add: m'(2))
    qed
  qed
  then show "manager_ok stored {} m'" "payload stored m' = payload stored m"
    "r = Inr () \<Longrightarrow> free_count (mg_pool m') > 0"
    "mg_next m' = mg_next m \<and> (mg_backend m' = None \<longleftrightarrow> mg_backend m = None)"
    "dom (map_of (mg_blocks m')) = dom (map_of (mg_blocks m))"
    "protect = Some k \<Longrightarrow> map_of (mg_blocks m') k = map_of (mg_blocks m) k" by blast+
qed

lemma take_page_ok:
  assumes m: "manager_ok stored {} m" and i: "i < pl_pages (mg_pool m)" "pl_owner (mg_pool m) ! i = Free"
  shows "manager_ok stored (if tag = OwnerDoc then {i} else {})
    (m\<lparr>mg_pool := (mg_pool m)\<lparr>pl_owner := (pl_owner (mg_pool m))[i := tag]\<rparr>\<rparr>)"
    (is "manager_ok stored ?h ?m'")
proof -
  note d = manager_okD [OF m]
  have len: "i < length (pl_owner (mg_pool m))" using d(1) i(1) by (simp add: pool_ok_def)
  have ne: "nat (db_page w) \<noteq> i \<and> resident_ok (mg_pool ?m') w" if "map_of (mg_blocks m) j = Some w" "\<not> db_spilled w" for j w
    using d(4) [OF that] i len by (cases "nat (db_page w) = i") (auto simp: resident_ok_def)
  have own: "pl_owner (mg_pool m) ! n = OwnerDoc" if "pl_owner (mg_pool ?m') ! n = OwnerDoc" "n \<notin> ?h" for n
    using that len by (auto simp: nth_list_update split: if_split_asm)
  show ?thesis
    unfolding manager_ok_def
  proof (intro conjI allI impI)
    show "pool_ok (mg_pool ?m')" "distinct (map fst (mg_blocks ?m'))" using d(1,2) by simp_all
    show "\<exists>b d. mg_backend ?m' = Some b \<and> stored b j = Some d" if "map_of (mg_blocks ?m') j = Some w \<and> db_spilled w" for j w
      using that d(3) [of j w] by simp
    show "resident_ok (mg_pool ?m') w" "nat (db_page w) \<notin> ?h"
      if "map_of (mg_blocks ?m') j = Some w \<and> \<not> db_spilled w" for j w
      using that ne [of j w] by simp_all
    show "db_page w \<noteq> db_page w'" if "map_of (mg_blocks ?m') j = Some w \<and> map_of (mg_blocks ?m') j' = Some w' \<and> j \<noteq> j'
        \<and> \<not> db_spilled w \<and> \<not> db_spilled w'" for j j' w w'
      using that d(5) [of j w j' w'] by simp
    show "\<exists>j w. map_of (mg_blocks ?m') j = Some w \<and> \<not> db_spilled w \<and> db_page w = int n"
      if "n < MaxPages" "pl_owner (mg_pool ?m') ! n = OwnerDoc \<and> n \<notin> ?h" for n
      using d(6) [OF that(1)] own [of n] that(2) by simp
  qed
qed

lemma fill_page_ok:
  assumes m: "manager_ok stored {page} m" and page: "page < pl_pages (mg_pool m)" "pl_owner (mg_pool m) ! page = OwnerDoc"
    and k: "\<And>w. map_of (mg_blocks m) k = Some w \<Longrightarrow> db_spilled w" and v: "db_page v = int page" "\<not> db_spilled v"
    and b: "\<And>j w b0. map_of (mg_blocks m) j = Some w \<Longrightarrow> j \<noteq> k \<Longrightarrow> mg_backend m = Some b0 \<Longrightarrow> \<exists>b'. mg_backend m' = Some b' \<and> stored b' j = stored b0 j"
    and m': "mg_pool m' = mg_pool m" "mg_blocks m' = put_block k v (mg_blocks m)"
  shows "manager_ok stored {} m'"
proof -
  note d = manager_okD [OF m]
  have r: "resident_ok (mg_pool m) v" using page v by (simp add: resident_ok_def)
  have ne: "db_page w \<noteq> int page" if "map_of (mg_blocks m) j = Some w" "\<not> db_spilled w" for j w
    using d(4) [OF that] by (auto simp: resident_ok_def)
  show ?thesis
    unfolding manager_ok_def
  proof (intro conjI allI impI)
    show "pool_ok (mg_pool m')" "distinct (map fst (mg_blocks m'))" using d(1,2) m' by (simp_all add: distinct_put_block)
    show "\<exists>b d. mg_backend m' = Some b \<and> stored b j = Some d" if "map_of (mg_blocks m') j = Some w \<and> db_spilled w" for j w
    proof -
      have jw: "map_of (mg_blocks m) j = Some w" "j \<noteq> k" "db_spilled w" using that v m' by (auto split: if_split_asm)
      obtain b0 d where "mg_backend m = Some b0" "stored b0 j = Some d" using d(3) [OF jw(1,3)] by blast
      with b [OF jw(1,2)] show ?thesis by force
    qed
    show "resident_ok (mg_pool m') w" if "map_of (mg_blocks m') j = Some w \<and> \<not> db_spilled w" for j w
      using that d(4) [of j w] r m' by (auto split: if_split_asm)
    show "db_page w \<noteq> db_page w'" if "map_of (mg_blocks m') j = Some w \<and> map_of (mg_blocks m') j' = Some w' \<and> j \<noteq> j'
        \<and> \<not> db_spilled w \<and> \<not> db_spilled w'" for j j' w w'
      using that d(5) [of j w j' w'] ne [of j w] ne [of j' w'] v m' by (auto split: if_split_asm)
    show "\<exists>j w. map_of (mg_blocks m') j = Some w \<and> \<not> db_spilled w \<and> db_page w = int n"
      if n: "n < MaxPages" "pl_owner (mg_pool m') ! n = OwnerDoc \<and> n \<notin> {}" for n
    proof (cases "n = page")
      case True
      with v m' show ?thesis by (intro exI [of _ k] exI [of _ v]) simp
    next
      case False
      then obtain j w where "map_of (mg_blocks m) j = Some w" "\<not> db_spilled w" "db_page w = int n"
        using d(6) [OF n(1)] n(2) m' by auto
      moreover from this have "j \<noteq> k" using k by auto
      ultimately show ?thesis using m' by (intro exI [of _ j] exI [of _ w]) simp
    qed
  qed simp
qed

text \<open>Giving back a page that no block is recorded on.\<close>

lemma give_page_ok:
  assumes m: "manager_ok stored held m" and i: "i < MaxPages" "pl_owner (mg_pool m) ! i \<noteq> OwnerDoc \<or> held = {i}"
  shows "manager_ok stored (held - {i}) (m\<lparr>mg_pool := (mg_pool m)\<lparr>pl_owner := (pl_owner (mg_pool m))[i := Free]\<rparr>\<rparr>)"
    (is "manager_ok stored ?h ?m'")
proof -
  note d = manager_okD [OF m]
  have len: "i < length (pl_owner (mg_pool m))" using d(1) i(1) by (simp add: pool_ok_def)
  have ne: "resident_ok (mg_pool ?m') w \<and> nat (db_page w) \<notin> ?h" if "map_of (mg_blocks m) j = Some w" "\<not> db_spilled w" for j w
    using d(4) [OF that] i len by (cases "nat (db_page w) = i") (auto simp: resident_ok_def)
  have own: "pl_owner (mg_pool m) ! n = OwnerDoc \<and> n \<notin> held" if "pl_owner (mg_pool ?m') ! n = OwnerDoc" "n \<notin> ?h" for n
    using that len by (auto simp: nth_list_update split: if_split_asm)
  show ?thesis
    unfolding manager_ok_def
  proof (intro conjI allI impI)
    show "pool_ok (mg_pool ?m')" "distinct (map fst (mg_blocks ?m'))" using d(1,2) by simp_all
    show "\<exists>b d. mg_backend ?m' = Some b \<and> stored b j = Some d" if "map_of (mg_blocks ?m') j = Some w \<and> db_spilled w" for j w
      using that d(3) [of j w] by simp
    show "resident_ok (mg_pool ?m') w" "nat (db_page w) \<notin> ?h"
      if "map_of (mg_blocks ?m') j = Some w \<and> \<not> db_spilled w" for j w
      using that ne [of j w] by simp_all
    show "db_page w \<noteq> db_page w'" if "map_of (mg_blocks ?m') j = Some w \<and> map_of (mg_blocks ?m') j' = Some w' \<and> j \<noteq> j'
        \<and> \<not> db_spilled w \<and> \<not> db_spilled w'" for j j' w w'
      using that d(5) [of j w j' w'] by simp
    show "\<exists>j w. map_of (mg_blocks ?m') j = Some w \<and> \<not> db_spilled w \<and> db_page w = int n"
      if "n < MaxPages" "pl_owner (mg_pool ?m') ! n = OwnerDoc \<and> n \<notin> ?h" for n
      using d(6) [OF that(1)] own [of n] that(2) by simp
  qed
qed

lemma release_page_ok:
  assumes m: "manager_ok stored {page} m" and page: "page < pl_pages (mg_pool m)" "pl_owner (mg_pool m) ! page = OwnerDoc"
  shows "manager_ok stored {} (release_page page m)"
proof -
  have "page < MaxPages" using page manager_okD(1) [OF m] by (simp add: pool_ok_def)
  then show ?thesis using give_page_ok [OF m, of page] page(2)
    by (simp add: release_page_def pool_free_def)
qed

lemma release_page_frame [simp]:
  "mg_blocks (release_page page m) = mg_blocks m" "mg_backend (release_page page m) = mg_backend m"
  "mg_next (release_page page m) = mg_next m" "payload stored (release_page page m) = payload stored m"
  by (auto simp: release_page_def split: sum.splits)

lemma alloc_page_ok:
  assumes "manager_ok stored {} m" and "alloc_page be protect tag m = (r, m')" and "first_owner_tag \<le> tag"
  shows "payload stored m' = payload stored m \<and> mg_next m' = mg_next m
      \<and> (mg_backend m' = None \<longleftrightarrow> mg_backend m = None) \<and> dom (map_of (mg_blocks m')) = dom (map_of (mg_blocks m))
      \<and> (protect = Some k \<longrightarrow> map_of (mg_blocks m') k = map_of (mg_blocks m) k)"
    and "r = Inl err \<Longrightarrow> manager_ok stored {} m'"
    and "r = Inr page \<Longrightarrow> page < pl_pages (mg_pool m') \<and> pl_owner (mg_pool m') ! page = tag
      \<and> manager_ok stored (if tag = OwnerDoc then {page} else {}) m'"
proof -
  obtain r1 m1 where e: "ensure_free_page be protect m = (r1, m1)" by fastforce
  note o = ensure_free_page_ok [OF assms(1) e]
  have all: "payload stored m' = payload stored m \<and> mg_next m' = mg_next m
      \<and> (mg_backend m' = None \<longleftrightarrow> mg_backend m = None) \<and> dom (map_of (mg_blocks m')) = dom (map_of (mg_blocks m))
      \<and> (protect = Some k \<longrightarrow> map_of (mg_blocks m') k = map_of (mg_blocks m) k)
      \<and> (\<forall>err. r = Inl err \<longrightarrow> manager_ok stored {} m')
      \<and> (\<forall>page. r = Inr page \<longrightarrow> page < pl_pages (mg_pool m') \<and> pl_owner (mg_pool m') ! page = tag
      \<and> manager_ok stored (if tag = OwnerDoc then {page} else {}) m')"
  proof (cases r1)
    case (Inl err)
    with assms(2) e o show ?thesis by (auto simp: alloc_page_def)
  next
    case (Inr u)
    then obtain i p' where a: "pool_alloc tag (mg_pool m1) = Inr (Some i, p')"
      using pool_alloc_free [OF o(3) assms(3)] by auto
    note i = pool_alloc_Some [OF a]
    have len: "i < length (pl_owner (mg_pool m1))" using i manager_okD(1) [OF o(1)] by (simp add: pool_ok_def)
    have m': "r = Inr i" "m' = m1\<lparr>mg_pool := (mg_pool m1)\<lparr>pl_owner := (pl_owner (mg_pool m1))[i := tag]\<rparr>\<rparr>"
      using assms(2) e Inr a i by (auto simp: alloc_page_def)
    have "payload stored m' = payload stored m1" by (simp add: m')
    then show ?thesis using o(2,4,5,6) i take_page_ok [OF o(1), of i tag] len by (simp add: m')
  qed
  show "payload stored m' = payload stored m \<and> mg_next m' = mg_next m
      \<and> (mg_backend m' = None \<longleftrightarrow> mg_backend m = None) \<and> dom (map_of (mg_blocks m')) = dom (map_of (mg_blocks m))
      \<and> (protect = Some k \<longrightarrow> map_of (mg_blocks m') k = map_of (mg_blocks m) k)"
    "r = Inl err \<Longrightarrow> manager_ok stored {} m'"
    "r = Inr page \<Longrightarrow> page < pl_pages (mg_pool m') \<and> pl_owner (mg_pool m') ! page = tag
      \<and> manager_ok stored (if tag = OwnerDoc then {page} else {}) m'"
    using all by blast+
qed

lemma new_block_ok:
  assumes "manager_ok stored {} m" and "new_block be data m = (r, m')" and "map_of (mg_blocks m) (mg_next m) = None"
  shows "manager_ok stored {} m'
    \<and> (case r of Inl _ \<Rightarrow> payload stored m' = payload stored m \<and> mg_next m' = mg_next m
                     \<and> dom (map_of (mg_blocks m')) = dom (map_of (mg_blocks m))
         | Inr k \<Rightarrow> k = mg_next m \<and> payload stored m' = (payload stored m)(k \<mapsto> data) \<and> mg_next m' = k + 1
                     \<and> dom (map_of (mg_blocks m')) = insert k (dom (map_of (mg_blocks m))))"
proof -
  obtain r1 m1 where a: "alloc_page be None OwnerDoc m = (r1, m1)" by fastforce
  note o = alloc_page_ok [OF assms(1) a order_refl]
  show ?thesis
  proof (cases r1)
    case (Inl err)
    with assms(2) a o show ?thesis by (auto simp: new_block_def)
  next
    case (Inr page)
    note p = o(3) [OF Inr]
    let ?v = "\<lparr>db_page = int page, db_data = data, db_last = mg_seq m1 + 1, db_spilled = False\<rparr>"
    have none: "map_of (mg_blocks m1) (mg_next m1) = None" using o(1) assms(3) by (metis domIff)
    have m': "r = Inr (mg_next m1)" "m' = m1\<lparr>mg_next := mg_next m1 + 1, mg_seq := mg_seq m1 + 1, mg_blocks := put_block (mg_next m1) ?v (mg_blocks m1)\<rparr>"
      using assms(2) a Inr by (auto simp: new_block_def)
    have "payload stored m' = (payload stored m1)(mg_next m1 \<mapsto> data)"
      by (auto simp: m' payload_def fun_eq_iff split: option.split)
    moreover have "manager_ok stored {} m'"
      using fill_page_ok [of page m1 "mg_next m1" ?v m'] p none by (simp add: m')
    ultimately show ?thesis using o(1) by (simp add: m')
  qed
qed

lemma reload_ok:
  assumes "manager_ok stored {} m" and "reload be k v m = (r, m')" and v: "map_of (mg_blocks m) k = Some v" "db_spilled v"
  shows "manager_ok stored {} m' \<and> payload stored m' = payload stored m \<and> mg_next m' = mg_next m
      \<and> dom (map_of (mg_blocks m')) = dom (map_of (mg_blocks m))
      \<and> (r = Inr () \<longrightarrow> (\<exists>w. map_of (mg_blocks m') k = Some w \<and> \<not> db_spilled w))"
proof -
  obtain r1 m1 where a: "alloc_page be (Some k) OwnerDoc m = (r1, m1)" by fastforce
  note o = alloc_page_ok [OF assms(1) a order_refl]
  show ?thesis
  proof (cases r1)
    case (Inl err)
    with assms(2) a o show ?thesis by (auto simp: reload_def)
  next
    case (Inr page)
    have p: "page < pl_pages (mg_pool m1)" "pl_owner (mg_pool m1) ! page = OwnerDoc" "manager_ok stored {page} m1"
      using o(3) [OF Inr] by simp_all
    have fr: "payload stored m1 = payload stored m" "mg_next m1 = mg_next m"
        "dom (map_of (mg_blocks m1)) = dom (map_of (mg_blocks m))" using o(1) by blast+
    have k1: "map_of (mg_blocks m1) k = Some v" using o(1) [of k] v(1) by simp
    obtain b d0 where b: "mg_backend m1 = Some b" "stored b k = Some d0"
      using manager_okD(3) [OF p(3) k1 v(2)] by blast
    have undo: "manager_ok stored {} (release_page page (m1\<lparr>mg_backend := Some b'\<rparr>))
        \<and> payload stored (release_page page (m1\<lparr>mg_backend := Some b'\<rparr>)) = payload stored m"
      if "stored b' = stored b" for b'
      using release_page_ok [of page "m1\<lparr>mg_backend := Some b'\<rparr>"] manager_ok_backend [OF p(3) b(1) that] p(1,2) o(1)
      by simp
    obtain r2 b1 where l: "be_load be k b = (r2, b1)" by fastforce
    show ?thesis
    proof (cases r2)
      case (Inl err)
      with l load_err have "stored b1 = stored b" by blast
      note u = undo [OF this]
      have "r = Inl (Error err) \<and> m' = release_page page (m1\<lparr>mg_backend := Some b1\<rparr>)"
        using assms(2) a \<open>r1 = Inr page\<close> b l Inl by (auto simp: reload_def)
      with u fr show ?thesis by simp
    next
      case (Inr data)
      with l load_ok have s1: "stored b k = Some data" "stored b1 = stored b" by blast+
      obtain e b2 where dc: "be_discard be k b1 = (e, b2)" by fastforce
      show ?thesis
      proof (cases e)
        case (Some err)
        with dc discard_err s1 have "stored b2 = stored b" by metis
        note u = undo [OF this]
      have "r = Inl (Error err) \<and> m' = release_page page (m1\<lparr>mg_backend := Some b2\<rparr>)"
        using assms(2) a \<open>r1 = Inr page\<close> Inr b l dc Some by (auto simp: reload_def)
        with u fr show ?thesis by simp
      next
        case None
        with dc discard_ok s1 have s2: "stored b2 = (stored b)(k := None)" by metis
        let ?v = "v\<lparr>db_page := int page, db_data := data, db_spilled := False\<rparr>"
        have m': "r = Inr ()" "m' = m1\<lparr>mg_backend := Some b2, mg_blocks := put_block k ?v (mg_blocks m1), mg_reloads := mg_reloads m1 + 1\<rparr>"
          using assms(2) a \<open>r1 = Inr page\<close> Inr b l dc None by (auto simp: reload_def)
        have "manager_ok stored {} m'"
          by (rule fill_page_ok [OF p(3,1,2), of k ?v m']) (use k1 v b s2 in \<open>auto simp: m'\<close>)
        moreover have "payload stored m' = payload stored m1"
          using k1 v b s1 s2 by (auto simp: m' payload_def fun_eq_iff split: option.split)
        moreover have "dom (map_of (mg_blocks m')) = dom (map_of (mg_blocks m1))"
          using k1 by (auto simp: m'(2) split: if_split_asm)
        ultimately show ?thesis using fr k1 m' by simp
      qed
    qed
  qed
qed

text \<open>Updating an entry in place, without moving the block.\<close>

lemma touch_ok:
  assumes m: "manager_ok stored {} m" and v: "map_of (mg_blocks m) k = Some v" "\<not> db_spilled v"
    and "touch_block k m = (r, m')"
  shows "r = Inr (db_data v) \<and> manager_ok stored {} m' \<and> payload stored m' = payload stored m \<and> mg_next m' = mg_next m
      \<and> dom (map_of (mg_blocks m')) = dom (map_of (mg_blocks m))"
proof -
  let ?w = "v\<lparr>db_last := mg_seq m + 1\<rparr>"
  note d = manager_okD [OF m]
  have m': "r = Inr (db_data v)" "m' = m\<lparr>mg_seq := mg_seq m + 1, mg_blocks := put_block k ?w (mg_blocks m)\<rparr>"
    using assms(4) v by (auto simp: touch_block_def)
  have same: "\<exists>w'. map_of (mg_blocks m) j = Some w' \<and> db_spilled w' = db_spilled w \<and> db_page w' = db_page w"
    if "map_of (mg_blocks m') j = Some w" for j w
    using that v by (auto simp: m' split: if_split_asm)
  have kept: "\<exists>w'. map_of (mg_blocks m') j = Some w' \<and> db_spilled w' = db_spilled w \<and> db_page w' = db_page w"
    if "map_of (mg_blocks m) j = Some w" for j w
    using that v by (auto simp: m')
  have "manager_ok stored {} m'"
    unfolding manager_ok_def
  proof (intro conjI allI impI)
    show "pool_ok (mg_pool m')" "distinct (map fst (mg_blocks m'))" using d(1,2) by (simp_all add: m' distinct_put_block)
    show "\<exists>b d. mg_backend m' = Some b \<and> stored b j = Some d" if "map_of (mg_blocks m') j = Some w \<and> db_spilled w" for j w
      using that d(3) same by (fastforce simp: m'(2))
    show "resident_ok (mg_pool m') w" if "map_of (mg_blocks m') j = Some w \<and> \<not> db_spilled w" for j w
      using d(4) same [of j w] that by (fastforce simp: resident_ok_def m'(2))
    show "db_page w \<noteq> db_page w'" if "map_of (mg_blocks m') j = Some w \<and> map_of (mg_blocks m') j' = Some w' \<and> j \<noteq> j'
        \<and> \<not> db_spilled w \<and> \<not> db_spilled w'" for j j' w w'
      using d(5) same [of j w] same [of j' w'] that by metis
    show "\<exists>j w. map_of (mg_blocks m') j = Some w \<and> \<not> db_spilled w \<and> db_page w = int n"
      if n: "n < MaxPages" "pl_owner (mg_pool m') ! n = OwnerDoc \<and> n \<notin> {}" for n
    proof -
      obtain j w where "map_of (mg_blocks m) j = Some w" "\<not> db_spilled w" "db_page w = int n"
        using d(6) [OF n(1)] n(2) by (auto simp: m'(2))
      with kept [of j w] show ?thesis by auto
    qed
  qed simp
  moreover have "payload stored m' = payload stored m"
    using v by (auto simp: m' payload_def fun_eq_iff split: option.split)
  moreover have "dom (map_of (mg_blocks m')) = dom (map_of (mg_blocks m))"
    using v(1) by (auto simp: m'(2) split: if_split_asm)
  ultimately show ?thesis using m'(1) by (simp add: m'(2))
qed

lemma payload_resident: "map_of (mg_blocks m) k = Some v \<Longrightarrow> \<not> db_spilled v \<Longrightarrow> payload stored m k = Some (db_data v)"
  by (simp add: payload_def)

lemma payload_dom: "manager_ok stored {} m \<Longrightarrow> dom (payload stored m) = dom (map_of (mg_blocks m))"
  using manager_okD(3) [of stored "{}" m]
  by (fastforce simp: payload_def split: option.splits if_split_asm)

lemma block_data_ok:
  assumes m: "manager_ok stored {} m" and r: "block_data be k m = (r, m')"
  shows "manager_ok stored {} m' \<and> payload stored m' = payload stored m \<and> mg_next m' = mg_next m
      \<and> (\<forall>d. r = Inr d \<longrightarrow> payload stored m k = Some d)"
proof (cases "map_of (mg_blocks m) k")
  case None
  with m r show ?thesis by (auto simp: block_data_def)
next
  case (Some v)
  show ?thesis
  proof (cases "db_spilled v")
    case False
    then have "touch_block k m = (r, m')" using r Some by (simp add: block_data_def)
    from touch_ok [OF m Some False this] payload_resident [OF Some False] show ?thesis by simp
  next
    case True
    obtain r1 m1 where l: "reload be k v m = (r1, m1)" by fastforce
    note o = reload_ok [OF m l Some True]
    show ?thesis
    proof (cases r1)
      case (Inl err)
      with o l r Some True show ?thesis by (auto simp: block_data_def)
    next
      case (Inr u)
      with o obtain w where w: "map_of (mg_blocks m1) k = Some w" "\<not> db_spilled w" by auto
      have "touch_block k m1 = (r, m')" using r Some True l Inr by (simp add: block_data_def)
      from touch_ok [OF conjunct1 [OF o] w this] payload_resident [OF w] o show ?thesis by simp
    qed
  qed
qed

lemma drop_block_ok:
  assumes m: "manager_ok stored held m"
    and b: "\<And>j. j \<noteq> k \<Longrightarrow> mg_backend m' = mg_backend m \<or>
        (\<exists>b b'. mg_backend m = Some b \<and> mg_backend m' = Some b' \<and> stored b' j = stored b j)"
    and m': "mg_pool m' = mg_pool m" "mg_blocks m' = filter (\<lambda>kb. fst kb \<noteq> k) (mg_blocks m)"
    and h: "\<And>v. map_of (mg_blocks m) k = Some v \<Longrightarrow> \<not> db_spilled v \<Longrightarrow> held' = insert (nat (db_page v)) held"
      "\<And>v. map_of (mg_blocks m) k = Some v \<Longrightarrow> db_spilled v \<Longrightarrow> held' = held"
      "map_of (mg_blocks m) k \<noteq> None"
  shows "manager_ok stored held' m'" and "payload stored m' = (payload stored m)(k := None)"
proof -
  note d = manager_okD [OF m]
  have at: "map_of (mg_blocks m') = (map_of (mg_blocks m))(k := None)" by (simp add: m'(2) map_of_drop)
  obtain v where v: "map_of (mg_blocks m) k = Some v" using h(3) by blast
  show "payload stored m' = (payload stored m)(k := None)"
  proof
    fix j
    show "payload stored m' j = ((payload stored m)(k := None)) j"
      using b [of j] by (auto simp: payload_def at split: option.splits)
  qed
  show "manager_ok stored held' m'"
    unfolding manager_ok_def at
  proof (intro conjI allI impI)
    show "pool_ok (mg_pool m')" "distinct (map fst (mg_blocks m'))" using d(1,2) by (simp_all add: m' distinct_map_filter)
    show "\<exists>b d. mg_backend m' = Some b \<and> stored b j = Some d"
      if "((map_of (mg_blocks m))(k := None)) j = Some w \<and> db_spilled w" for j w
      using that d(3) [of j w] b [of j] by (auto split: if_split_asm)
    show "resident_ok (mg_pool m') w" if "((map_of (mg_blocks m))(k := None)) j = Some w \<and> \<not> db_spilled w" for j w
      using that d(4) [of j w] by (auto simp: m'(1) split: if_split_asm)
    show "nat (db_page w) \<notin> held'" if "((map_of (mg_blocks m))(k := None)) j = Some w \<and> \<not> db_spilled w" for j w
    proof -
      have w: "map_of (mg_blocks m) j = Some w" "j \<noteq> k" "\<not> db_spilled w" using that by (auto split: if_split_asm)
      show ?thesis
      proof (cases "db_spilled v")
        case True
        then show ?thesis using d(4) [OF w(1,3)] h(2) [OF v] by simp
      next
        case False
        then show ?thesis using d(4) [OF w(1,3)] d(4) [OF v] d(5) [OF w(1) v w(2) w(3)] h(1) [OF v]
          by (auto simp: resident_ok_def)
      qed
    qed
    show "db_page w \<noteq> db_page w'" if "((map_of (mg_blocks m))(k := None)) j = Some w
        \<and> ((map_of (mg_blocks m))(k := None)) j' = Some w' \<and> j \<noteq> j' \<and> \<not> db_spilled w \<and> \<not> db_spilled w'" for j j' w w'
      using that d(5) [of j w j' w'] by (auto split: if_split_asm)
    show "\<exists>j w. ((map_of (mg_blocks m))(k := None)) j = Some w \<and> \<not> db_spilled w \<and> db_page w = int n"
      if n: "n < MaxPages" "pl_owner (mg_pool m') ! n = OwnerDoc \<and> n \<notin> held'" for n
    proof -
      have "n \<notin> held" using n(2) h(1) [OF v] h(2) [OF v] by (cases "db_spilled v") auto
      then obtain j w where w: "map_of (mg_blocks m) j = Some w" "\<not> db_spilled w" "db_page w = int n"
        using d(6) [OF n(1)] n(2) by (auto simp: m'(1))
      have "j \<noteq> k"
      proof
        assume "j = k"
        then have "held' = insert n held" using w v h(1) [OF v] by simp
        then show False using n(2) by simp
      qed
      with w show ?thesis by auto
    qed
  qed
qed

lemma drop_block_sel [simp]:
  "mg_pool (drop_block k m) = mg_pool m" "mg_backend (drop_block k m) = mg_backend m"
  "mg_blocks (drop_block k m) = filter (\<lambda>kb. fst kb \<noteq> k) (mg_blocks m)" "mg_next (drop_block k m) = mg_next m"
  by (simp_all add: drop_block_def)

lemma free_block_ok:
  assumes m: "manager_ok stored {} m" and r: "free_block be k m = (r, m')"
  shows "manager_ok stored {} m' \<and> mg_next m' = mg_next m
      \<and> (case r of Inl _ \<Rightarrow> payload stored m' = payload stored m
         | Inr _ \<Rightarrow> payload stored m k \<noteq> None \<and> payload stored m' = (payload stored m)(k := None))"
proof (cases "map_of (mg_blocks m) k")
  case None
  with m r show ?thesis by (auto simp: free_block_def)
next
  case (Some v)
  note d = manager_okD [OF m]
  have known: "payload stored m k \<noteq> None" using payload_dom [OF m] Some by (metis domIff option.simps(3))
  show ?thesis
  proof (cases "db_spilled v")
    case True
    obtain b d0 where b: "mg_backend m = Some b" "stored b k = Some d0" using d(3) [OF Some True] by blast
    obtain e b' where dc: "be_discard be k b = (e, b')" by fastforce
    show ?thesis
    proof (cases e)
      case None
      then have s: "stored b' = (stored b)(k := None)" using dc discard_ok by blast
      have m': "r = Inr ()" "m' = drop_block k (m\<lparr>mg_backend := Some b'\<rparr>)"
        using r Some True b dc None by (auto simp: free_block_def)
      have "manager_ok stored {} m'" "payload stored m' = (payload stored m)(k := None)"
        by (rule drop_block_ok [OF m, of k m' "{}"]; use Some True b s in \<open>auto simp: m'\<close>)+
      with m' known show ?thesis by simp
    next
      case (Some err)
      then have s: "stored b' = stored b" using dc discard_err by blast
      have "r = Inl (Error err)" "m' = m\<lparr>mg_backend := Some b'\<rparr>"
        using r \<open>map_of (mg_blocks m) k = Some v\<close> True b dc Some by (auto simp: free_block_def)
      with manager_ok_backend [OF m b(1) s] show ?thesis by simp
    qed
  next
    case False
    have v: "resident_ok (mg_pool m) v" using d(4) [OF Some False] by blast
    have i: "nat (db_page v) < MaxPages" using v d(1) by (auto simp: resident_ok_def pool_ok_def)
    let ?m1 = "drop_block k m" let ?p = "(mg_pool m)\<lparr>pl_owner := (pl_owner (mg_pool m))[nat (db_page v) := Free]\<rparr>"
    have m1: "manager_ok stored {nat (db_page v)} ?m1" "payload stored ?m1 = (payload stored m)(k := None)"
      by (rule drop_block_ok [OF m, of k ?m1 "{nat (db_page v)}"]; use Some False in auto)+
    have m': "r = Inr ()" "m' = ?m1\<lparr>mg_pool := ?p\<rparr>"
      using r Some False pool_free_resident [OF d(1) v] by (cases m; auto simp: free_block_def drop_block_def)+
    show ?thesis using give_page_ok [OF m1(1) i] m1(2) known by (simp add: m')
  qed
qed

lemma manager_alloc_ok:
  assumes m: "manager_ok stored {} m" and r: "manager_alloc be tag m = (r, m')"
  shows "manager_ok stored {} m' \<and> payload stored m' = payload stored m \<and> mg_next m' = mg_next m"
proof (cases "tag = OwnerDoc \<or> tag < first_owner_tag")
  case True
  with m r show ?thesis by (auto simp: manager_alloc_def split: if_split_asm)
next
  case False
  then have a: "alloc_page be None tag m = (r, m')" "first_owner_tag \<le> tag" using r by (auto simp: manager_alloc_def)
  note o = alloc_page_ok [OF m a]
  show ?thesis using o False by (cases r) auto
qed

lemma manager_free_ok:
  assumes m: "manager_ok stored {} m" and r: "manager_free page tag m = (r, m')"
  shows "manager_ok stored {} m' \<and> payload stored m' = payload stored m \<and> mg_next m' = mg_next m"
proof (cases "tag = OwnerDoc")
  case True
  with m r show ?thesis by (auto simp: manager_free_def)
next
  case False
  show ?thesis
  proof (cases "pool_free page tag (mg_pool m)")
    case (Inl err)
    with m r False show ?thesis by (auto simp: manager_free_def)
  next
    case (Inr p')
    then have "nat page < MaxPages" "pl_owner (mg_pool m) ! nat page \<noteq> OwnerDoc"
      using False by (auto simp: pool_free_Inr)
    from give_page_ok [OF m this(1) disjI1 [OF this(2)]] r False Inr show ?thesis
      by (auto simp: manager_free_def pool_free_Inr)
  qed
qed

end

section \<open>A session\<close>

text \<open>The requests of the editor and the assembler, and what they answer.\<close>

datatype request = NewBlock bytes | BlockData u32 | FreeBlock u32 | AllocPage u8 | FreePage int u8

datatype answer = Id "u32 res" | Payload "bytes res" | Done "unit res" | Page "nat res"

fun serve :: "'b backend_ops \<Rightarrow> request \<Rightarrow> 'b manager \<Rightarrow> answer \<times> 'b manager" where
  "serve be (NewBlock d) m = (case new_block be d m of (r, m') \<Rightarrow> (Id r, m'))"
| "serve be (BlockData k) m = (case block_data be k m of (r, m') \<Rightarrow> (Payload r, m'))"
| "serve be (FreeBlock k) m = (case free_block be k m of (r, m') \<Rightarrow> (Done r, m'))"
| "serve be (AllocPage t) m = (case manager_alloc be t m of (r, m') \<Rightarrow> (Page r, m'))"
| "serve be (FreePage i t) m = (case manager_free i t m of (r, m') \<Rightarrow> (Done r, m'))"

fun serve_all :: "'b backend_ops \<Rightarrow> request list \<Rightarrow> 'b manager \<Rightarrow> answer list \<times> 'b manager" where
  "serve_all be [] m = ([], m)"
| "serve_all be (q # qs) m =
     (case serve be q m of (a, m1) \<Rightarrow> case serve_all be qs m1 of (as, m2) \<Rightarrow> (a # as, m2))"

text \<open>The promise: a map from handles to payloads, with neither pages nor eviction.\<close>

fun store_effect :: "request \<Rightarrow> answer \<Rightarrow> (u32 \<rightharpoonup> bytes) \<Rightarrow> (u32 \<rightharpoonup> bytes)" where
  "store_effect (NewBlock d) (Id (Inr k)) s = s(k \<mapsto> d)"
| "store_effect (FreeBlock k) (Done (Inr _)) s = s(k := None)"
| "store_effect _ _ s = s"

fun answer_ok :: "request \<Rightarrow> answer \<Rightarrow> (u32 \<rightharpoonup> bytes) \<Rightarrow> bool" where
  "answer_ok (NewBlock d) (Id (Inr k)) s = (s k = None)"
| "answer_ok (BlockData k) (Payload (Inr d)) s = (s k = Some d)"
| "answer_ok (FreeBlock k) (Done (Inr _)) s = (s k \<noteq> None)"
| "answer_ok _ _ s = True"

fun answers_ok :: "request list \<Rightarrow> answer list \<Rightarrow> (u32 \<rightharpoonup> bytes) \<Rightarrow> bool" where
  "answers_ok (q # qs) (a # as) s = (answer_ok q a s \<and> answers_ok qs as (store_effect q a s))"
| "answers_ok _ _ s = True"

fun store_effects :: "request list \<Rightarrow> answer list \<Rightarrow> (u32 \<rightharpoonup> bytes) \<Rightarrow> (u32 \<rightharpoonup> bytes)" where
  "store_effects (q # qs) (a # as) s = store_effects qs as (store_effect q a s)"
| "store_effects _ _ s = s"

text \<open>Handles are handed out in order; \<open>n\<close> more can be handed out before the counter wraps.\<close>

definition fresh_ids :: "nat \<Rightarrow> 'b manager \<Rightarrow> bool" where
  "fresh_ids n m \<longleftrightarrow> unat (mg_next m) + n < 2 ^ 32 \<and> (\<forall>k \<in> dom (map_of (mg_blocks m)). unat k < unat (mg_next m))"

context spill_backend
begin

lemma serve_ok:
  assumes m: "manager_ok stored {} m" and f: "fresh_ids (Suc n) m" and r: "serve be q m = (a, m')"
  shows "manager_ok stored {} m' \<and> answer_ok q a (payload stored m)
      \<and> payload stored m' = store_effect q a (payload stored m) \<and> fresh_ids n m'"
proof -
  note dm = payload_dom [OF m]
  have keep: "fresh_ids n m2" if "manager_ok stored {} m2" "payload stored m2 = payload stored m" "mg_next m2 = mg_next m" for m2
    using f payload_dom [OF that(1)] dm that(2,3) by (auto simp: fresh_ids_def)
  show ?thesis
  proof (cases q)
    case (NewBlock d)
    obtain r1 where nb: "new_block be d m = (r1, m')" "a = Id r1"
      using r NewBlock by (auto split: prod.splits)
    have "map_of (mg_blocks m) (mg_next m) = None" using f by (auto simp: fresh_ids_def)
    note o = new_block_ok [OF m nb(1) this]
    show ?thesis
    proof (cases r1)
      case (Inl e)
      with o keep [of m'] nb NewBlock show ?thesis by simp
    next
      case (Inr k)
      have k: "k = mg_next m" "mg_next m' = mg_next m + 1"
          "dom (map_of (mg_blocks m')) = insert (mg_next m) (dom (map_of (mg_blocks m)))"
        using o Inr by auto
      have "unat (mg_next m + 1) = unat (mg_next m) + 1"
        using f by (simp add: unat_word_ariths fresh_ids_def)
      then have "fresh_ids n m'" using f k by (auto simp: fresh_ids_def less_Suc_eq)
      moreover have "payload stored m k = None" using \<open>map_of (mg_blocks m) (mg_next m) = None\<close> k(1) by (simp add: payload_def)
      ultimately show ?thesis using o Inr nb NewBlock by simp
    qed
  next
    case (BlockData k)
    then obtain r1 where "block_data be k m = (r1, m')" "a = Payload r1" using r by (auto split: prod.splits)
    with block_data_ok [OF m this(1)] keep [of m'] BlockData show ?thesis by (cases r1) auto
  next
    case (FreeBlock k)
    then obtain r1 where fb: "free_block be k m = (r1, m')" "a = Done r1" using r by (auto split: prod.splits)
    note o = free_block_ok [OF m fb(1)]
    show ?thesis
    proof (cases r1)
      case (Inl e)
      with o keep [of m'] fb FreeBlock show ?thesis by simp
    next
      case (Inr u)
      have "dom (map_of (mg_blocks m')) \<subseteq> dom (map_of (mg_blocks m))"
        using o Inr payload_dom [of m'] dm by auto
      with f o have "fresh_ids n m'" by (auto simp: fresh_ids_def)
      with o Inr fb FreeBlock show ?thesis by simp
    qed
  next
    case (AllocPage t)
    then obtain r1 where "manager_alloc be t m = (r1, m')" "a = Page r1" using r by (auto split: prod.splits)
    with manager_alloc_ok [OF m this(1)] keep [of m'] AllocPage show ?thesis by simp
  next
    case (FreePage i t)
    then obtain r1 where "manager_free i t m = (r1, m')" "a = Done r1" using r by (auto split: prod.splits)
    with manager_free_ok [OF m this(1)] keep [of m'] FreePage show ?thesis by simp
  qed
qed

lemma serve_all_ok:
  assumes "manager_ok stored {} m" and "fresh_ids (length qs) m" and "serve_all be qs m = (as, m')"
  shows "manager_ok stored {} m' \<and> answers_ok qs as (payload stored m) \<and> payload stored m' = store_effects qs as (payload stored m)"
  using assms
proof (induction qs arbitrary: m as)
  case (Cons q qs)
  obtain a m1 where s: "serve be q m = (a, m1)" by fastforce
  obtain as1 where r: "serve_all be qs m1 = (as1, m')" "as = a # as1"
    using Cons.prems(3) s by (auto split: prod.splits)
  have f: "fresh_ids (Suc (length qs)) m" using Cons.prems(2) by simp
  note o = serve_ok [OF Cons.prems(1) f s]
  from Cons.IH [OF _ _ r(1)] o r(2) show ?case by simp
qed simp

end

interpretation mem: spill_backend mem_backend "\<lambda>b. b"
  by unfold_locales (auto simp: mem_backend_def split: option.splits)

section \<open>The contract\<close>

text \<open>
  C7.  Spilling is invisible: over any backend that keeps what it stored, any sequence of
  requests, with whatever evictions, reloads and failures it causes, answers as a plain map from
  handles to payloads would (a new handle is fresh, data read is the data last written), and the
  page table and the registry stay consistent.
\<close>

theorem spilling_invisible:
  assumes "spill_backend be stored" and "manager_ok stored {} m" and "fresh_ids (length qs) m"
    and "serve_all be qs m = (as, m')"
  shows "manager_ok stored {} m' \<and> answers_ok qs as (payload stored m)
    \<and> payload stored m' = store_effects qs as (payload stored m)"
  by (rule spill_backend.serve_all_ok [OF assms])

text \<open>
  Spilling is lazy and evicts exactly one block, the coldest: while a page is free no block
  moves and the backend is not called; with none free, no backend or nothing to evict refuses and
  changes nothing; otherwise the page handed out is that of the least recently used block.
\<close>

theorem alloc_page_lazy:
  assumes "manager_ok stored {} m" and "first_owner_tag \<le> tag"
  shows "(0 < free_count (mg_pool m) \<longrightarrow> (\<exists>i p'. pool_alloc tag (mg_pool m) = Inr (Some i, p')
      \<and> alloc_page be protect tag m = (Inr i, m\<lparr>mg_pool := p'\<rparr>)))
    \<and> (free_count (mg_pool m) = 0 \<and> (mg_backend m = None \<or> coldest_resident (mg_blocks m) protect = None)
        \<longrightarrow> alloc_page be protect tag m = (Inl ErrPoolExhausted, m))
    \<and> (\<forall>b b' k v. free_count (mg_pool m) = 0 \<and> mg_backend m = Some b
        \<and> coldest_resident (mg_blocks m) protect = Some (k, v) \<and> be_store be k (db_data v) b = (None, b')
        \<longrightarrow> (\<forall>(k', v') \<in> set (mg_blocks m). \<not> db_spilled v' \<and> protect \<noteq> Some k' \<longrightarrow> db_last v \<le> db_last v')
          \<and> alloc_page be protect tag m = (Inr (nat (db_page v)), m\<lparr>mg_backend := Some b',
              mg_pool := (mg_pool m)\<lparr>pl_owner := (pl_owner (mg_pool m))[nat (db_page v) := tag]\<rparr>,
              mg_blocks := put_block k (v\<lparr>db_spilled := True, db_page := - 1, db_data := []\<rparr>) (mg_blocks m),
              mg_spills := mg_spills m + 1\<rparr>))"
proof (intro conjI impI allI)
  note d = manager_okD [OF assms(1)]
  show "\<exists>i p'. pool_alloc tag (mg_pool m) = Inr (Some i, p') \<and> alloc_page be protect tag m = (Inr i, m\<lparr>mg_pool := p'\<rparr>)"
    if "0 < free_count (mg_pool m)"
    using pool_alloc_free [OF that assms(2)] that by (auto simp: alloc_page_def ensure_free_page_def)
  show "alloc_page be protect tag m = (Inl ErrPoolExhausted, m)"
    if "free_count (mg_pool m) = 0 \<and> (mg_backend m = None \<or> coldest_resident (mg_blocks m) protect = None)"
    using that by (auto simp: alloc_page_def ensure_free_page_def split: option.splits)
  fix b b' k v
  assume f: "free_count (mg_pool m) = 0 \<and> mg_backend m = Some b
      \<and> coldest_resident (mg_blocks m) protect = Some (k, v) \<and> be_store be k (db_data v) b = (None, b')"
  then have c: "coldest_resident (mg_blocks m) protect = Some (k, v)" by blast
  note cv = coldest_resident_Some [OF c]
  show "\<forall>(k', v') \<in> set (mg_blocks m). \<not> db_spilled v' \<and> protect \<noteq> Some k' \<longrightarrow> db_last v \<le> db_last v'"
    using cv by blast
  have v: "resident_ok (mg_pool m) v"
    using d(4) [OF map_of_is_SomeI [OF d(2)]] cv by blast
  let ?i = "nat (db_page v)" let ?os = "pl_owner (mg_pool m)"
  have i: "?i < length ?os" "?i < pl_pages (mg_pool m)" using v d(1) by (auto simp: resident_ok_def pool_ok_def)
  have "\<forall>j < pl_pages (mg_pool m). ?os ! j \<noteq> Free"
    using f by (auto simp: free_count_def filter_empty_conv)
  then have "first_index (\<lambda>j. ?os[?i := Free] ! j = Free) 0 (pl_pages (mg_pool m)) = Some ?i"
    unfolding first_index_Some using i by auto
  then have "pool_alloc tag ((mg_pool m)\<lparr>pl_owner := ?os[?i := Free]\<rparr>)
      = Inr (Some ?i, (mg_pool m)\<lparr>pl_owner := ?os[?i := tag]\<rparr>)"
    using assms(2) by (simp add: pool_alloc_def not_less)
  then show "alloc_page be protect tag m = (Inr ?i, m\<lparr>mg_backend := Some b',
              mg_pool := (mg_pool m)\<lparr>pl_owner := ?os[?i := tag]\<rparr>,
              mg_blocks := put_block k (v\<lparr>db_spilled := True, db_page := - 1, db_data := []\<rparr>) (mg_blocks m),
              mg_spills := mg_spills m + 1\<rparr>)"
    using f pool_free_resident [OF d(1) v] by (simp add: alloc_page_def ensure_free_page_def)
qed

section \<open>Witnesses\<close>

text \<open>A machine with one page.\<close>

definition one_page :: "(u32 \<rightharpoonup> bytes) manager" where
  "one_page = new_manager \<lparr>pl_owner = Free # replicate 31 Reserved, pl_pages = 1\<rparr> (Some Map.empty)"

lemma one_page_ok: "manager_ok (\<lambda>b. b) {} one_page" and one_page_fresh: "n < 2 ^ 32 \<Longrightarrow> fresh_ids n one_page"
proof -
  have "(Free # replicate 31 Reserved) ! i \<noteq> OwnerDoc" if "i < MaxPages" for i
    using that by (cases i) auto
  then show "manager_ok (\<lambda>b. b) {} one_page"
    by (auto simp: manager_ok_def one_page_def new_manager_def pool_ok_def)
  show "n < 2 ^ 32 \<Longrightarrow> fresh_ids n one_page" by (simp add: fresh_ids_def one_page_def new_manager_def)
qed

lemma spilling_invisible_witness:
  "manager_ok (\<lambda>b. b) {} (snd (serve_all mem_backend [NewBlock [1], NewBlock [2], BlockData 0, FreeBlock 1] one_page))"
proof -
  let ?qs = "[NewBlock [1], NewBlock [2], BlockData 0, FreeBlock 1]"
  obtain as m' where eq: "serve_all mem_backend ?qs one_page = (as, m')" by fastforce
  have "fresh_ids (length ?qs) one_page" by (rule one_page_fresh) simp
  from spilling_invisible [OF mem.spill_backend_axioms one_page_ok this eq] show ?thesis unfolding eq by simp
qed

lemma alloc_page_lazy_witness: "\<exists>i p'. alloc_page mem_backend None OwnerDoc one_page = (Inr i, one_page\<lparr>mg_pool := p'\<rparr>)"
proof -
  have "0 < free_count (mg_pool one_page)" by (simp add: one_page_def new_manager_def free_count_def)
  then show ?thesis using alloc_page_lazy [OF one_page_ok order_refl, of mem_backend None] by blast
qed

end
