(* ===== verification/Asm_State.thy ===== *)
theory Asm_State
  imports Tbn_File Enc_Overlay Enc_Table
begin

text \<open>
  What the two passes of the assembler (\<^verbatim>\<open>tools/sam-aarch64/assemble\<close>) share: the result of pass 1
  and the evaluation of an operand expression at a PC.
\<close>

section \<open>The result of pass 1\<close>

record pool_entry =
  pe_width :: u8
  pe_expr :: bytes
  pe_pc :: i64
  pe_eval_pc :: i64

text \<open>
  Maps whose order of iteration matters nowhere are functions; \<^verbatim>\<open>LocalDefs\<close> has \<^verbatim>\<open>nil\<close> for a digit
  that was never defined, and \<^verbatim>\<open>LabelDefs\<close> is the list of its keys.
\<close>

record pass1_result =
  p1_symbols :: "bytes \<rightharpoonup> i64"
  p1_local_defs :: "u8 \<Rightarrow> i64 list"
  p1_label_defs :: "bytes list"
  p1_total_size :: i64
  p1_origin :: i64
  p1_pool :: "pool_entry list"
  p1_ldr_idx :: "i64 \<rightharpoonup> nat"
  p1_flush_at :: "i64 \<rightharpoonup> i64"
  p1_flush_entries :: "i64 \<rightharpoonup> nat list"
  p1_inst_pc :: "i64 list"
  p1_record_pc :: "i64 list"

definition pass1_init :: pass1_result where
  "pass1_init = \<lparr>p1_symbols = Map.empty, p1_local_defs = (\<lambda>d. []), p1_label_defs = [], p1_total_size = 0,
     p1_origin = 0, p1_pool = [], p1_ldr_idx = Map.empty, p1_flush_at = Map.empty,
     p1_flush_entries = Map.empty, p1_inst_pc = [], p1_record_pc = []\<rparr>"

section \<open>Evaluation contexts\<close>

text \<open>The name table is indexed by the identifier in the expression: beyond its end, a panic.\<close>

definition lookup_symbol :: "(bytes \<rightharpoonup> i64) \<Rightarrow> bytes list \<Rightarrow> u16 \<Rightarrow> i64 option res" where
  "lookup_symbol syms ns n = (if unat n < length ns then Inr (syms (ns ! unat n)) else Inl Panic)"

text \<open>Forward: the first definition after the PC.  Backward: the last one in the list not after it.\<close>

definition local_label :: "i64 list \<Rightarrow> i64 \<Rightarrow> u8 \<Rightarrow> i64 option" where
  "local_label positions pc dir =
     (if dir = 0 then find (\<lambda>v. sint v > sint pc) positions
      else foldl (\<lambda>best v. if sint v \<le> sint pc then Some v else best) None positions)"

definition make_ctx :: "i64 \<Rightarrow> pass1_result \<Rightarrow> bytes list \<Rightarrow> eval_context" where
  "make_ctx pc p1 ns = \<lparr>ctx_pc = pc, ctx_symbol = Some (lookup_symbol (p1_symbols p1) ns),
     ctx_local = Some (\<lambda>digit dir. local_label (p1_local_defs p1 digit) pc dir)\<rparr>"

text \<open>Pass 1 has no local labels to offer.\<close>

definition pass1_ctx :: "i64 \<Rightarrow> pass1_result \<Rightarrow> bytes list \<Rightarrow> eval_context" where
  "pass1_ctx pc res ns = \<lparr>ctx_pc = pc, ctx_symbol = Some (lookup_symbol (p1_symbols res) ns), ctx_local = None\<rparr>"

text \<open>
  \<^verbatim>\<open>EvalUsage\<close> repeats the loop of \<^verbatim>\<open>Eval\<close> with counters for a report; without a tracker it computes
  the same.
\<close>

definition eval_usage :: "bytes \<Rightarrow> eval_context \<Rightarrow> i64 res" where
  "eval_usage buf ctx = eval buf ctx"

definition eval_at :: "bytes \<Rightarrow> i64 \<Rightarrow> pass1_result \<Rightarrow> bytes list \<Rightarrow> i64 res" where
  "eval_at e pc p1 ns = eval_usage e (make_ctx pc p1 ns)"

text \<open>\<^verbatim>\<open>format.MnemonicID\<close> with the second result dropped.\<close>

definition mnem :: "string \<Rightarrow> u16" where
  "mnem name = (case mnemonic_id_of name of None \<Rightarrow> 0 | Some n \<Rightarrow> n)"

lemma mnem_ids: "mnem ''mov'' = 3" "mnem ''ldr'' = 5"
  by (simp_all add: mnem_def mnemonic_id_of_def table_index_def MnemonicTable_def upt_rec)

end
