(* ===== verification/Asm_Pass1.thy ===== *)
theory Asm_Pass1
  imports Asm_State
begin

text \<open>
  Pass 1, \<^verbatim>\<open>tools/sam-aarch64/assemble/pass1.go\<close>: the walk over the records that gives every record
  its PC, defines the symbols and lays out the literal pool.
\<close>

section \<open>Operands of directives\<close>

text \<open>\<^verbatim>\<open>o, _ := or.Next()\<close>: on an error every field an operand is read for is empty.\<close>

definition first_operand :: "bytes \<Rightarrow> operand res" where
  "first_operand buf =
     (case operand_next buf of Inl Panic \<Rightarrow> Inl Panic | Inl (Error _) \<Rightarrow> Inr (operand0 0) | Inr (o', _) \<Rightarrow> Inr o')"

function lit_pool_operand :: "bytes \<Rightarrow> operand option res" where
  "lit_pool_operand buf =
     (if buf = [] then Inr None
      else case operand_next buf of
        Inl Panic \<Rightarrow> Inl Panic
      | Inl (Error _) \<Rightarrow> Inr None
      | Inr (o', rest) \<Rightarrow> if o_kind o' = OpLitPool then Inr (Some o') else lit_pool_operand rest)"
  by pat_completeness auto
termination
  by (relation "measure length") (auto dest: operand_next_shorter)

declare lit_pool_operand.simps [simp del]

definition extract_sym_id :: "bytes \<Rightarrow> u16 option" where
  "extract_sym_id e = (case e of [op, lo, hi] \<Rightarrow> if op \<noteq> OpPushSym then None else Some (ucast lo OR push_bit 8 (ucast hi))
     | _ \<Rightarrow> None)"

definition name_at :: "bytes list \<Rightarrow> u16 \<Rightarrow> bytes res" where
  "name_at ns n = (if unat n < length ns then Inr (ns ! unat n) else Inl Panic)"

text \<open>Alignment arithmetic is unsigned: addresses may have the top bit set.\<close>

definition align_pad :: "u64 \<Rightarrow> u64 \<Rightarrow> u64 res" where
  "align_pad ua pc = (if ua = 0 then Inl Panic else Inr ((ua - pc mod ua) mod ua))"

definition balign_pad :: "i64 \<Rightarrow> i64 \<Rightarrow> i64 res" where
  "balign_pad align pc = (if sint align \<le> 1 then Inr 0 else align_pad align pc)"

text \<open>\<^verbatim>\<open>.align n\<close> aligns to \<open>2^n\<close>; from \<open>n = 64\<close> on the shift gives 0 and the remainder panics.\<close>

definition align_pow_pad :: "i64 \<Rightarrow> i64 \<Rightarrow> i64 res" where
  "align_pow_pad n pc = (if sint n \<le> 0 then Inr 0 else align_pad (push_bit (unat n) 1) pc)"

definition silent_directives :: "string list" where
  "silent_directives = [''.text'', ''.data'', ''.global'', ''.equ'', ''.set'', ''.section'', ''.arch'', ''.cpu'']"

definition directive_size :: "tbn_record \<Rightarrow> i64 \<Rightarrow> pass1_result \<Rightarrow> bytes list \<Rightarrow> i64 res" where
  "directive_size rec pc res ns =
     (let name = directive_name (directive_id rec); n = ucast (operand_count rec) :: i64;
          arg = sbind (first_operand (operands rec)) (\<lambda>o'. eval_usage (o_expr o') (pass1_ctx pc res ns)) in
      if name = ''.byte'' then Inr n
      else if name = ''.short'' \<or> name = ''.hword'' then Inr (n * 2)
      else if name = ''.word'' then Inr (n * 4)
      else if name = ''.quad'' then Inr (n * 8)
      else if name = ''.ascii'' \<or> name = ''.asciz''
      then sbind (operand_next (operands rec)) (\<lambda>(o', _).
             Inr (of_nat (length (o_str o')) + (if name = ''.asciz'' then 1 else 0)))
      else if name = ''.skip'' \<or> name = ''.space'' then arg
      else if name = ''.inst'' then Inr 4
      else if name \<in> set silent_directives then Inr 0
      else if name = ''.ltorg'' then Inr 0
      else if name = ''.balign'' then sbind arg (\<lambda>a. balign_pad a pc)
      else if name = ''.align'' then sbind arg (\<lambda>a. align_pow_pad a pc)
      else if name = ''.org'' then Inr 0
      else Inl (Error ''unknown directive in pass1''))"

section \<open>The walk\<close>

record pass1_state =
  w_res :: pass1_result
  w_pc :: i64
  w_pending :: "u8 \<times> bytes \<rightharpoonup> nat"
  w_order :: "nat list"

definition walk_init :: pass1_state where
  "walk_init = \<lparr>w_res = pass1_init, w_pc = 0, w_pending = Map.empty, w_order = []\<rparr>"

subsection \<open>The literal pool\<close>

definition align_to :: "u64 \<Rightarrow> u64 \<Rightarrow> u64" where
  "align_to n pc = (if pc mod n \<noteq> 0 then pc + (n - pc mod n) else pc)"

fun place_entries :: "i64 \<Rightarrow> nat list \<Rightarrow> i64 \<Rightarrow> pool_entry list \<Rightarrow> i64 \<times> pool_entry list" where
  "place_entries w [] layout pool = (layout, pool)"
| "place_entries w (i # is) layout pool = place_entries w is (layout + w) (pool[i := (pool ! i)\<lparr>pe_pc := layout\<rparr>])"

definition fours :: "pool_entry list \<Rightarrow> nat list \<Rightarrow> nat list" where
  "fours pool is = filter (\<lambda>i. pe_width (pool ! i) = 4) is"

definition eights :: "pool_entry list \<Rightarrow> nat list \<Rightarrow> nat list" where
  "eights pool is = filter (\<lambda>i. pe_width (pool ! i) \<noteq> 4) is"

definition flush_pool :: "pass1_state \<Rightarrow> pass1_state" where
  "flush_pool w =
     (if w_order w = [] then w
      else let res = w_res w; fs = fours (p1_pool res) (w_order w); es = eights (p1_pool res) (w_order w);
               l0 = (if fs \<noteq> [] then align_to 4 (w_pc w) else w_pc w);
               (l1, pool1) = place_entries 4 fs l0 (p1_pool res);
               l2 = (if es \<noteq> [] then align_to 8 l1 else l1);
               (l3, pool2) = place_entries 8 es l2 pool1
           in \<lparr>w_res = res\<lparr>p1_pool := pool2, p1_flush_entries := (p1_flush_entries res)(w_pc w \<mapsto> w_order w),
                 p1_flush_at := (p1_flush_at res)(w_pc w \<mapsto> l3)\<rparr>,
               w_pc = l3, w_pending = Map.empty, w_order = []\<rparr>)"

text \<open>A literal load at the current PC; equal literals since the last flush share an entry.\<close>

definition register_literal :: "u8 \<Rightarrow> bytes \<Rightarrow> pass1_state \<Rightarrow> pass1_state" where
  "register_literal width e w =
     (let res = w_res w in
      case w_pending w (width, e) of
        Some idx \<Rightarrow> w\<lparr>w_res := res\<lparr>p1_ldr_idx := (p1_ldr_idx res)(w_pc w \<mapsto> idx)\<rparr>\<rparr>
      | None \<Rightarrow>
          let idx = length (p1_pool res) in
          w\<lparr>w_res := res\<lparr>p1_pool := p1_pool res @ [\<lparr>pe_width = width, pe_expr = e, pe_pc = 0, pe_eval_pc = w_pc w\<rparr>],
                p1_ldr_idx := (p1_ldr_idx res)(w_pc w \<mapsto> idx)\<rparr>,
              w_pending := (w_pending w)((width, e) \<mapsto> idx), w_order := w_order w @ [idx]\<rparr>)"

definition advance :: "i64 \<Rightarrow> pass1_state \<Rightarrow> pass1_state" where
  "advance n w = w\<lparr>w_pc := w_pc w + n\<rparr>"

fun register_patches :: "u32 \<Rightarrow> insn_patch list \<Rightarrow> pass1_state \<Rightarrow> pass1_state" where
  "register_patches base [] w = w"
| "register_patches base (p # ps) w =
     register_patches base ps
       (if patch_slot p \<noteq> FoldLitpool19 then w
        else register_literal (if drop_bit 30 base AND 1 = 1 then 8 else 4) (patch_expr p) w)"

fun walk_elements :: "insn_element list \<Rightarrow> pass1_state \<Rightarrow> pass1_state" where
  "walk_elements [] w = w"
| "walk_elements (el # els) w = walk_elements els (advance 4 (register_patches (base_word el) (patches el) w))"

subsection \<open>Records\<close>

definition define_label :: "bytes \<Rightarrow> i64 \<Rightarrow> pass1_result \<Rightarrow> pass1_result" where
  "define_label name v res = res\<lparr>p1_symbols := (p1_symbols res)(name \<mapsto> v),
     p1_label_defs := List.insert name (p1_label_defs res)\<rparr>"

definition define_local :: "u8 \<Rightarrow> i64 \<Rightarrow> pass1_result \<Rightarrow> pass1_result" where
  "define_local d v res = res\<lparr>p1_local_defs := (p1_local_defs res)(d := p1_local_defs res d @ [v])\<rparr>"

text \<open>The value of a \<^verbatim>\<open>.set\<close> is evaluated at PC 0.\<close>

definition resolve_equ :: "tbn_record \<Rightarrow> bytes list \<Rightarrow> pass1_result \<Rightarrow> pass1_result res" where
  "resolve_equ rec ns res =
     sbind (operand_next (operands rec)) (\<lambda>(sym_op, rest).
       case extract_sym_id (o_expr sym_op) of
         None \<Rightarrow> Inl (Error ''first operand of .equ must be a symbol reference'')
       | Some n \<Rightarrow>
           sbind (name_at ns n) (\<lambda>name.
             sbind (operand_next rest) (\<lambda>(val_op, _).
               sbind (eval_usage (o_expr val_op) (pass1_ctx 0 res ns)) (\<lambda>v.
                 if p1_symbols res name \<noteq> None then Inl (Error ''symbol redefined by .set/.equ'')
                 else Inr (res\<lparr>p1_symbols := (p1_symbols res)(name \<mapsto> v)\<rparr>)))))"

text \<open>The first \<^verbatim>\<open>.org\<close> before any output sets the origin.\<close>

definition walk_org :: "tbn_record \<Rightarrow> bytes list \<Rightarrow> pass1_state \<Rightarrow> pass1_state res" where
  "walk_org rec ns w =
     sbind (first_operand (operands rec)) (\<lambda>o'.
       sbind (eval_usage (o_expr o') (pass1_ctx (w_pc w) (w_res w) ns)) (\<lambda>target.
         if w_pc w = p1_origin (w_res w) \<and> p1_pool (w_res w) = [] \<and> w_pc w = 0 \<and> target \<noteq> 0
         then Inr (w\<lparr>w_res := (w_res w)\<lparr>p1_origin := target\<rparr>, w_pc := target\<rparr>)
         else if target < w_pc w then Inl (Error ''.org: backward .org not allowed'')
         else Inr (w\<lparr>w_pc := target\<rparr>)))"

definition walk_directive :: "tbn_record \<Rightarrow> bytes list \<Rightarrow> pass1_state \<Rightarrow> pass1_state res" where
  "walk_directive rec ns w =
     (let name = directive_name (directive_id rec) in
      if name = ''.equ'' \<or> name = ''.set''
      then sbind (resolve_equ rec ns (w_res w)) (\<lambda>res. Inr (w\<lparr>w_res := res\<rparr>))
      else if name = ''.ltorg'' then Inr (flush_pool w)
      else if name = ''.org'' then walk_org rec ns w
      else sbind (directive_size rec (w_pc w) (w_res w) ns) (\<lambda>n. Inr (advance n w)))"

definition walk_inst :: "tbn_record \<Rightarrow> pass1_state \<Rightarrow> pass1_state res" where
  "walk_inst rec w =
     (let w1 = w\<lparr>w_res := (w_res w)\<lparr>p1_inst_pc := p1_inst_pc (w_res w) @ [w_pc w]\<rparr>\<rparr> in
      sbind (if r_mnemonic rec = mnem ''ldr'' then lit_pool_operand (operands rec) else Inr None) (\<lambda>lit.
        Inr (advance 4 (case lit of None \<Rightarrow> w1 | Some o' \<Rightarrow> register_literal (o_width o') (o_expr o') w1))))"

definition walk_record :: "tbn_record \<Rightarrow> bytes list \<Rightarrow> pass1_state \<Rightarrow> pass1_state res" where
  "walk_record rec ns w0 =
     (let w = w0\<lparr>w_res := (w_res w0)\<lparr>p1_record_pc := p1_record_pc (w_res w0) @ [w_pc w0]\<rparr>\<rparr> in
      if r_kind rec = KindLabelDef
      then sbind (name_at ns (symbol_id rec)) (\<lambda>name. Inr (w\<lparr>w_res := define_label name (w_pc w) (w_res w)\<rparr>))
      else if r_kind rec = KindLocalDef then Inr (w\<lparr>w_res := define_local (digit rec) (w_pc w) (w_res w)\<rparr>)
      else if r_kind rec = KindInst then walk_inst rec w
      else if r_kind rec = KindLitInsts then Inr (advance (4 * ucast (lit_count rec)) w)
      else if r_kind rec = KindLitData then Inr (advance (of_nat (length (lit_data rec))) w)
      else if r_kind rec = KindInsnRun then Inr (walk_elements (elements rec) w)
      else if r_kind rec = KindDirective then walk_directive rec ns w
      else Inr w)"

fun walk_records :: "tbn_record list \<Rightarrow> bytes list \<Rightarrow> pass1_state \<Rightarrow> pass1_state res" where
  "walk_records [] ns w = Inr w"
| "walk_records (rec # recs) ns w = sbind (walk_record rec ns w) (walk_records recs ns)"

text \<open>The rows of the header tables, for a compact file.\<close>

fun seed_labels :: "label_row list \<Rightarrow> bytes list \<Rightarrow> pass1_result \<Rightarrow> pass1_result res" where
  "seed_labels [] ns res = Inr res"
| "seed_labels (lr # lrs) ns res =
     sbind (name_at ns (label_name lr)) (\<lambda>name. seed_labels lrs ns (define_label name (p1_origin res + label_offset lr) res))"

fun seed_locals :: "local_row list \<Rightarrow> pass1_result \<Rightarrow> pass1_result" where
  "seed_locals [] res = res"
| "seed_locals (lr # lrs) res = seed_locals lrs (define_local (local_digit lr) (p1_origin res + local_offset lr) res)"

definition pass1 :: "tbn_file \<Rightarrow> pass1_result res" where
  "pass1 f =
     sbind (walk_records (f_records f) (f_names f) walk_init) (\<lambda>w0.
       let w = flush_pool w0 in
       sbind (seed_labels (f_labels f) (f_names f) ((w_res w)\<lparr>p1_total_size := w_pc w\<rparr>)) (\<lambda>res.
         Inr (seed_locals (f_locals f) res)))"

end
