(* ===== verification/Asm_Layout.thy ===== *)
theory Asm_Layout
  imports Asm_Pass1 Record_Props
begin

text \<open>
  The layout that pass 1 computes: offsets from the origin only grow, a pool flush has a PC of its
  own, pool entries keep their width and expression, and a symbol once defined keeps its value.
\<close>

section \<open>Frames\<close>

lemma flush_pool_empty [simp]: "w_order w = [] \<Longrightarrow> flush_pool w = w"
  by (simp add: flush_pool_def)

lemma fst_place_entries: "fst (place_entries n is l pool) = l + of_nat (length is) * n"
  by (induction "is" arbitrary: l pool) (simp_all add: algebra_simps)

definition same_entry :: "pool_entry \<Rightarrow> pool_entry \<Rightarrow> bool" where
  "same_entry a b \<longleftrightarrow> pe_width b = pe_width a \<and> pe_expr b = pe_expr a \<and> pe_eval_pc b = pe_eval_pc a"

definition pool_ext :: "pool_entry list \<Rightarrow> pool_entry list \<Rightarrow> bool" where
  "pool_ext p q \<longleftrightarrow> length p \<le> length q \<and> (\<forall>i < length p. same_entry (p ! i) (q ! i))"

lemma pool_ext_refl [simp]: "pool_ext p p"
  by (simp add: pool_ext_def same_entry_def)

lemma pool_ext_trans: "pool_ext p q \<Longrightarrow> pool_ext q r \<Longrightarrow> pool_ext p r"
  unfolding pool_ext_def same_entry_def by (metis order.trans less_le_trans)

lemma pool_ext_append [simp]: "pool_ext p (p @ q)"
  by (simp add: pool_ext_def same_entry_def nth_append)

lemma place_entries_ext:
  "pool_ext pool (snd (place_entries n is l pool)) \<and> length (snd (place_entries n is l pool)) = length pool"
proof (induction "is" arbitrary: l pool)
  case (Cons i "is")
  let ?p = "pool[i := (pool ! i)\<lparr>pe_pc := l\<rparr>]"
  have "pool_ext pool ?p" by (cases "i < length pool") (auto simp: pool_ext_def same_entry_def nth_list_update)
  with Cons [of ?p "l + n"] show ?case using pool_ext_trans by auto
qed simp

lemma pool_ext_width: "pool_ext p q \<Longrightarrow> i < length p \<Longrightarrow> pe_width (q ! i) = pe_width (p ! i)"
  by (simp add: pool_ext_def same_entry_def)

lemma fours_ext: "pool_ext p q \<Longrightarrow> set is \<subseteq> {..<length p} \<Longrightarrow> fours q is = fours p is"
  by (auto simp: fours_def pool_ext_width intro!: filter_cong)

lemma eights_ext: "pool_ext p q \<Longrightarrow> set is \<subseteq> {..<length p} \<Longrightarrow> eights q is = eights p is"
  by (auto simp: eights_def pool_ext_width intro!: filter_cong)

lemma fours_eights_length: "length (fours pool is) + length (eights pool is) = length is"
  unfolding fours_def eights_def by (rule sum_length_filter_compl)

section \<open>The size of a flush\<close>

definition pad_len :: "u64 \<Rightarrow> u64 \<Rightarrow> nat" where
  "pad_len n pc = (if pc mod n \<noteq> 0 then unat (n - pc mod n) else 0)"

definition flush_len :: "u64 \<Rightarrow> nat \<Rightarrow> nat \<Rightarrow> nat" where
  "flush_len pc n m =
     (let a = (if n > 0 then pad_len 4 pc else 0);
          b = (if m > 0 then pad_len 8 (pc + of_nat (a + 4 * n)) else 0)
      in a + 4 * n + b + 8 * m)"

lemma align_to_pad: "align_to n pc = pc + of_nat (pad_len n pc)"
  by (simp add: align_to_def pad_len_def)

lemma pad_len_bound: "n = 4 \<or> n = 8 \<Longrightarrow> pad_len n pc < 8"
proof -
  assume n: "n = 4 \<or> n = 8"
  show ?thesis
  proof (cases "pc mod n = 0")
    case False
    have "unat (pc mod n) < unat n" using n by (auto simp: unat_mod)
    moreover have "0 < unat (pc mod n)" using False by (simp add: unat_gt_0)
    moreover have "unat n \<le> 8" using n by auto
    ultimately show ?thesis using False
      by (simp add: pad_len_def unat_sub_if_size word_le_nat_alt)
  qed (simp add: pad_len_def)
qed

lemma flush_len_bounds: "4 * (n + m) \<le> flush_len pc n m" "flush_len pc n m < 8 * (n + m) + 16"
  using pad_len_bound [of 4 pc] pad_len_bound [of 8 "pc + of_nat (pad_len 4 pc + 4 * n)"] pad_len_bound [of 8 "pc + of_nat (4 * n)"]
  by (auto simp: flush_len_def Let_def)

lemma flush_pool_shape:
  assumes "w_order w \<noteq> []"
  shows "\<exists>pool. pool_ext (p1_pool (w_res w)) pool \<and> length pool = length (p1_pool (w_res w))
    \<and> flush_pool w = \<lparr>w_res = (w_res w)\<lparr>p1_pool := pool,
          p1_flush_entries := (p1_flush_entries (w_res w))(w_pc w \<mapsto> w_order w),
          p1_flush_at := (p1_flush_at (w_res w))(w_pc w \<mapsto> w_pc w + of_nat (flush_len (w_pc w)
            (length (fours (p1_pool (w_res w)) (w_order w))) (length (eights (p1_pool (w_res w)) (w_order w)))))\<rparr>,
        w_pc = w_pc w + of_nat (flush_len (w_pc w)
            (length (fours (p1_pool (w_res w)) (w_order w))) (length (eights (p1_pool (w_res w)) (w_order w)))),
        w_pending = Map.empty, w_order = []\<rparr>"
proof -
  let ?pool = "p1_pool (w_res w)" let ?fs = "fours ?pool (w_order w)" let ?es = "eights ?pool (w_order w)"
  let ?l0 = "if ?fs \<noteq> [] then align_to 4 (w_pc w) else w_pc w"
  obtain l1 pool1 where 1: "place_entries 4 ?fs ?l0 ?pool = (l1, pool1)" by fastforce
  let ?l2 = "if ?es \<noteq> [] then align_to 8 l1 else l1"
  obtain l3 pool2 where 2: "place_entries 8 ?es ?l2 pool1 = (l3, pool2)" by fastforce
  have l1: "l1 = ?l0 + of_nat (length ?fs) * 4" using fst_place_entries [of 4 ?fs ?l0 ?pool] 1 by simp
  have l3: "l3 = ?l2 + of_nat (length ?es) * 8" using fst_place_entries [of 8 ?es ?l2 pool1] 2 by simp
  have "l3 = w_pc w + of_nat (flush_len (w_pc w) (length ?fs) (length ?es))"
    unfolding l3 l1 by (simp add: flush_len_def Let_def align_to_pad algebra_simps)
  moreover have "pool_ext ?pool pool2" "length pool2 = length ?pool"
    using place_entries_ext [of ?pool 4 ?fs ?l0] place_entries_ext [of pool1 8 ?es ?l2] 1 2 pool_ext_trans by auto
  ultimately show ?thesis using assms 1 2 by (auto simp: flush_pool_def Let_def)
qed

section \<open>Well-formed records\<close>

text \<open>
  What a record of a file or of the front end satisfies: byte strings of a feasible length, as many
  literal words as counted, and (the front end counts in a byte, so this fails from 256 operands on)
  as many data operands as counted.
\<close>

definition count_ok :: "tbn_record \<Rightarrow> bool" where
  "count_ok rec \<longleftrightarrow> (data_width (directive_id rec) \<noteq> None \<longrightarrow>
     (case read_operands (operands rec) of Inl _ \<Rightarrow> True | Inr os \<Rightarrow> length os = unat (operand_count rec)))"

definition wf_record :: "tbn_record \<Rightarrow> bool" where
  "wf_record rec \<longleftrightarrow> length (lit_data rec) < 2 ^ 32 \<and> length (elements rec) < 2 ^ 32 \<and> length (operands rec) < 2 ^ 32
     \<and> (\<forall>el\<in>set (elements rec). length (patches el) \<le> 255)
     \<and> length (lit_words rec) = 4 * unat (lit_count rec) \<and> count_ok rec"

text \<open>The names a record defines.\<close>

definition equ_name :: "tbn_record \<Rightarrow> bytes list \<Rightarrow> bytes list" where
  "equ_name rec ns =
     (case operand_next (operands rec) of
        Inl _ \<Rightarrow> []
      | Inr (o', _) \<Rightarrow> (case extract_sym_id (o_expr o') of
            None \<Rightarrow> []
          | Some n \<Rightarrow> if unat n < length ns then [ns ! unat n] else []))"

definition record_names :: "tbn_record \<Rightarrow> bytes list \<Rightarrow> bytes list" where
  "record_names rec ns =
     (if r_kind rec = KindLabelDef then (if unat (symbol_id rec) < length ns then [ns ! unat (symbol_id rec)] else [])
      else if r_kind rec = KindDirective \<and> (directive_name (directive_id rec) = ''.equ'' \<or> directive_name (directive_id rec) = ''.set'')
      then equ_name rec ns
      else [])"

definition header_names :: "label_row list \<Rightarrow> bytes list \<Rightarrow> bytes list" where
  "header_names lrs ns = concat (map (\<lambda>lr. if unat (label_name lr) < length ns then [ns ! unat (label_name lr)] else []) lrs)"

definition defined_names :: "tbn_record list \<Rightarrow> bytes list \<Rightarrow> bytes list" where
  "defined_names recs ns = concat (map (\<lambda>rec. record_names rec ns) recs)"

section \<open>One record\<close>

text \<open>What a step leaves alone, whatever the record.\<close>

definition same_maps :: "pass1_state \<Rightarrow> pass1_state \<Rightarrow> i64 \<Rightarrow> bool" where
  "same_maps w w' key \<longleftrightarrow> p1_flush_entries (w_res w') key = p1_flush_entries (w_res w) key
     \<and> p1_flush_at (w_res w') key = p1_flush_at (w_res w) key"

lemma same_maps_refl [simp]: "same_maps w w key"
  by (simp add: same_maps_def)

lemma same_maps_trans: "same_maps w w' key \<Longrightarrow> same_maps w' w'' key \<Longrightarrow> same_maps w w'' key"
  by (simp add: same_maps_def)

text \<open>The walk, at offset \<open>k\<close> from the origin \<open>orig\<close>.\<close>

definition settled :: "i64 \<Rightarrow> nat \<Rightarrow> pass1_state \<Rightarrow> bool" where
  "settled orig k w \<longleftrightarrow>
     p1_origin (w_res w) = orig \<and> w_pc w = orig + of_nat k
     \<and> 4 * length (p1_pool (w_res w)) \<le> 255 * k
     \<and> distinct (w_order w) \<and> set (w_order w) \<subseteq> {..<length (p1_pool (w_res w))}
     \<and> (\<forall>i. (\<exists>key. w_pending w key = Some i) \<longrightarrow> i < length (p1_pool (w_res w)))
     \<and> (\<forall>key. p1_flush_entries (w_res w) key \<noteq> None \<longrightarrow> (\<exists>j<k. key = orig + of_nat j))"

text \<open>A step that only registers literals and advances.\<close>

definition quiet_step :: "nat \<Rightarrow> pass1_state \<Rightarrow> pass1_state \<Rightarrow> bool" where
  "quiet_step n w w' \<longleftrightarrow>
     p1_origin (w_res w') = p1_origin (w_res w)
     \<and> pool_ext (p1_pool (w_res w)) (p1_pool (w_res w'))
     \<and> length (p1_pool (w_res w')) \<le> length (p1_pool (w_res w)) + n
     \<and> (distinct (w_order w) \<and> set (w_order w) \<subseteq> {..<length (p1_pool (w_res w))}
          \<longrightarrow> distinct (w_order w') \<and> set (w_order w') \<subseteq> {..<length (p1_pool (w_res w'))})
     \<and> ((\<forall>i. (\<exists>key. w_pending w key = Some i) \<longrightarrow> i < length (p1_pool (w_res w)))
          \<longrightarrow> (\<forall>i. (\<exists>key. w_pending w' key = Some i) \<longrightarrow> i < length (p1_pool (w_res w'))))
     \<and> (\<forall>key. same_maps w w' key)
     \<and> p1_symbols (w_res w') = p1_symbols (w_res w)
     \<and> p1_record_pc (w_res w') = p1_record_pc (w_res w)"

lemma quiet_step_trans: "quiet_step n w w' \<Longrightarrow> quiet_step m w' w'' \<Longrightarrow> quiet_step (n + m) w w''"
  unfolding quiet_step_def by (auto intro: pool_ext_trans same_maps_trans)

lemma quiet_register: "quiet_step 1 w (register_literal wd e w)"
proof (cases "w_pending w (wd, e)")
  case None
  then show ?thesis
    by (auto simp: quiet_step_def register_literal_def Let_def same_maps_def split: if_split_asm)
      (meson less_Suc_eq)+
next
  case (Some i)
  then show ?thesis by (auto simp: quiet_step_def register_literal_def Let_def same_maps_def)
qed

lemma register_pc [simp]: "w_pc (register_literal wd e w) = w_pc w"
  by (auto simp: register_literal_def Let_def split: option.splits)

lemma quiet_refl: "quiet_step n w w"
  by (auto simp: quiet_step_def)

lemma quiet_patches: "quiet_step (length ps) w (register_patches base ps w) \<and> w_pc (register_patches base ps w) = w_pc w"
proof (induction ps arbitrary: w)
  case (Cons p ps)
  let ?w = "if patch_slot p \<noteq> FoldLitpool19 then w
      else register_literal (if drop_bit 30 base AND 1 = 1 then 8 else 4) (patch_expr p) w"
  have "quiet_step 1 w ?w" "w_pc ?w = w_pc w" using quiet_refl quiet_register by auto
  with Cons [of ?w] quiet_step_trans [of 1 w ?w] show ?case by simp
qed (simp add: quiet_refl)

lemma quiet_advance: "quiet_step 0 w (advance n w)"
  by (auto simp: quiet_step_def advance_def same_maps_def)

lemma quiet_elements:
  assumes "\<forall>el\<in>set els. length (patches el) \<le> 255"
  shows "quiet_step (255 * length els) w (walk_elements els w) \<and> w_pc (walk_elements els w) = w_pc w + of_nat (4 * length els)"
  using assms
proof (induction els arbitrary: w)
  case (Cons el els)
  let ?w = "advance 4 (register_patches (base_word el) (patches el) w)"
  have "quiet_step (length (patches el)) w ?w" "w_pc ?w = w_pc w + 4"
    using quiet_patches [of "patches el" w "base_word el"]
      quiet_step_trans [OF conjunct1 [OF quiet_patches [of "patches el" w "base_word el"]] quiet_advance [of _ 4]]
    by (simp_all add: advance_def)
  then have q: "quiet_step 255 w ?w" using Cons.prems by (auto simp: quiet_step_def)
  have els: "\<forall>el\<in>set els. length (patches el) \<le> 255" using Cons.prems by simp
  show ?case using quiet_step_trans [OF q conjunct1 [OF Cons.IH [OF els]]] Cons.IH [OF els, of ?w] \<open>w_pc ?w = w_pc w + 4\<close>
    by (simp add: algebra_simps)
qed (simp add: quiet_refl)

lemma quiet_settled:
  assumes "settled orig k w" and "quiet_step n w w'" and "n \<le> 255 * d" and "w_pc w' = w_pc w + of_nat (4 * d)"
  shows "settled orig (k + 4 * d) w'"
proof -
  have keys: "p1_flush_entries (w_res w') key = p1_flush_entries (w_res w) key" for key
    using assms(2) by (simp add: quiet_step_def same_maps_def)
  have "4 * length (p1_pool (w_res w')) \<le> 255 * (k + 4 * d)"
  proof -
    have "4 * length (p1_pool (w_res w)) \<le> 255 * k" using assms(1) by (simp add: settled_def)
    moreover have "length (p1_pool (w_res w')) \<le> length (p1_pool (w_res w)) + n" using assms(2) by (simp add: quiet_step_def)
    ultimately show ?thesis using assms(3) by (auto simp: algebra_simps)
  qed
  moreover have "\<exists>j<k + 4 * d. key = orig + of_nat j" if "p1_flush_entries (w_res w') key \<noteq> None" for key
    using that assms(1) unfolding settled_def keys by (metis trans_less_add1)
  ultimately show ?thesis using assms(1,2,4) unfolding settled_def quiet_step_def
    by (simp add: algebra_simps)
qed

text \<open>A flush.\<close>

definition pending_len :: "pass1_state \<Rightarrow> nat" where
  "pending_len w = (if w_order w = [] then 0 else flush_len (w_pc w)
     (length (fours (p1_pool (w_res w)) (w_order w))) (length (eights (p1_pool (w_res w)) (w_order w))))"

lemma order_length: "settled orig k w \<Longrightarrow> 4 * length (w_order w) \<le> 255 * k"
  using card_mono [of "{..<length (p1_pool (w_res w))}" "set (w_order w)"]
  by (simp add: settled_def distinct_card)

lemma pending_len_bounds:
  assumes "settled orig k w"
  shows "w_order w \<noteq> [] \<Longrightarrow> 4 \<le> pending_len w" and "pending_len w \<le> 512 * k + 16"
proof -
  let ?n = "length (fours (p1_pool (w_res w)) (w_order w))" let ?m = "length (eights (p1_pool (w_res w)) (w_order w))"
  have s: "?n + ?m = length (w_order w)" by (rule fours_eights_length)
  note b = flush_len_bounds [where n = ?n and m = ?m and pc = "w_pc w", unfolded s]
  show "4 \<le> pending_len w" if "w_order w \<noteq> []"
    using b(1) that by (cases "w_order w") (auto simp: pending_len_def)
  show "pending_len w \<le> 512 * k + 16"
    using b(2) order_length [OF assms] by (simp add: pending_len_def)
qed

lemma flush_settled:
  assumes "settled orig k w"
  shows "settled orig (k + pending_len w) (flush_pool w)" and "pool_ext (p1_pool (w_res w)) (p1_pool (w_res (flush_pool w)))"
    and "w_order (flush_pool w) = []" and "w_pc (flush_pool w) = w_pc w + of_nat (pending_len w)"
    and "key \<noteq> w_pc w \<or> w_order w = [] \<Longrightarrow> same_maps w (flush_pool w) key"
    and "p1_symbols (w_res (flush_pool w)) = p1_symbols (w_res w)"
    and "p1_record_pc (w_res (flush_pool w)) = p1_record_pc (w_res w)"
proof -
  have "settled orig (k + pending_len w) (flush_pool w) \<and> pool_ext (p1_pool (w_res w)) (p1_pool (w_res (flush_pool w)))
    \<and> w_order (flush_pool w) = [] \<and> w_pc (flush_pool w) = w_pc w + of_nat (pending_len w)
    \<and> (key \<noteq> w_pc w \<or> w_order w = [] \<longrightarrow> same_maps w (flush_pool w) key)
    \<and> p1_symbols (w_res (flush_pool w)) = p1_symbols (w_res w) \<and> p1_record_pc (w_res (flush_pool w)) = p1_record_pc (w_res w)"
  proof (cases "w_order w = []")
    case True
    then show ?thesis using assms by (simp add: pending_len_def)
  next
    case False
    obtain pool where p: "pool_ext (p1_pool (w_res w)) pool" "length pool = length (p1_pool (w_res w))"
      and f: "flush_pool w = \<lparr>w_res = (w_res w)\<lparr>p1_pool := pool,
          p1_flush_entries := (p1_flush_entries (w_res w))(w_pc w \<mapsto> w_order w),
          p1_flush_at := (p1_flush_at (w_res w))(w_pc w \<mapsto> w_pc w + of_nat (pending_len w))\<rparr>,
        w_pc = w_pc w + of_nat (pending_len w), w_pending = Map.empty, w_order = []\<rparr>"
      using flush_pool_shape [OF False] False by (auto simp: pending_len_def)
    have keys: "\<exists>j<k + pending_len w. key' = orig + of_nat j"
      if "p1_flush_entries (w_res (flush_pool w)) key' \<noteq> None" for key'
    proof (cases "key' = w_pc w")
      case True
      then show ?thesis using assms pending_len_bounds(1) [OF assms False]
        by (intro exI [of _ k]) (simp add: settled_def)
    next
      case False
      then have "p1_flush_entries (w_res w) key' \<noteq> None" using that by (simp add: f)
      then obtain j where "j < k" "key' = orig + of_nat j" using assms unfolding settled_def by blast
      then show ?thesis by (intro exI [of _ j]) simp
    qed
    then have "settled orig (k + pending_len w) (flush_pool w)"
      using assms p(2) unfolding settled_def by (simp add: f algebra_simps)
    then show ?thesis using p False by (simp add: f same_maps_def)
  qed
  then show "settled orig (k + pending_len w) (flush_pool w)" "pool_ext (p1_pool (w_res w)) (p1_pool (w_res (flush_pool w)))"
    "w_order (flush_pool w) = []" "w_pc (flush_pool w) = w_pc w + of_nat (pending_len w)"
    "key \<noteq> w_pc w \<or> w_order w = [] \<Longrightarrow> same_maps w (flush_pool w) key"
    "p1_symbols (w_res (flush_pool w)) = p1_symbols (w_res w)"
    "p1_record_pc (w_res (flush_pool w)) = p1_record_pc (w_res w)" by blast+
qed

text \<open>Every record.\<close>

lemma settled_res:
  assumes "settled orig k w" and "p1_origin res = p1_origin (w_res w)" and "p1_pool res = p1_pool (w_res w)"
    and "p1_flush_entries res = p1_flush_entries (w_res w)"
  shows "settled orig k (w\<lparr>w_res := res\<rparr>)"
  using assms unfolding settled_def by simp

lemma settled_move:
  assumes "settled orig k w"
  shows "settled orig (k + unat (pc - w_pc w)) (w\<lparr>w_pc := pc\<rparr>)"
proof -
  have "\<exists>j<k + unat (pc - w_pc w). key = orig + of_nat j" if "p1_flush_entries (w_res w) key \<noteq> None" for key
    using that assms unfolding settled_def by (metis trans_less_add1)
  then show ?thesis using assms unfolding settled_def by simp
qed

definition advances :: "tbn_record \<Rightarrow> bytes list \<Rightarrow> pass1_state \<Rightarrow> pass1_state \<Rightarrow> bool" where
  "advances rec ns w w' \<longleftrightarrow>
     pool_ext (p1_pool (w_res w)) (p1_pool (w_res w'))
     \<and> (\<forall>key. key \<noteq> w_pc w \<or> w_order w = [] \<longrightarrow> same_maps w w' key)
     \<and> (w_order w' = [] \<or> w_order w' = w_order w \<or> w_pc w' \<noteq> w_pc w)
     \<and> (\<forall>n. n \<notin> set (record_names rec ns) \<longrightarrow> p1_symbols (w_res w') n = p1_symbols (w_res w) n)
     \<and> p1_record_pc (w_res w') = p1_record_pc (w_res w) @ [w_pc w]"

lemma quiet_advances:
  assumes "quiet_step n w1 w'" and "w1 = w\<lparr>w_res := (w_res w)\<lparr>p1_record_pc := p1_record_pc (w_res w) @ [w_pc w]\<rparr>\<rparr>"
    and "w_pc w' \<noteq> w_pc w \<or> w_order w' = w_order w"
  shows "advances rec ns w w'"
  using assms by (auto simp: advances_def quiet_step_def same_maps_def)

lemma walk_inst_step:
  assumes "walk_inst rec w = Inr w'" and "settled orig k w"
  shows "settled orig (k + 4) w' \<and> quiet_step 1 (w\<lparr>w_res := (w_res w)\<lparr>p1_inst_pc := p1_inst_pc (w_res w) @ [w_pc w]\<rparr>\<rparr>) w'
    \<and> w_pc w' = w_pc w + 4"
proof -
  let ?w1 = "w\<lparr>w_res := (w_res w)\<lparr>p1_inst_pc := p1_inst_pc (w_res w) @ [w_pc w]\<rparr>\<rparr>"
  have s: "settled orig k ?w1" by (rule settled_res [OF assms(2)]) simp_all
  obtain lit :: "operand option" where "Inr (advance 4 (case lit of None \<Rightarrow> ?w1 | Some op' \<Rightarrow> register_literal (o_width op') (o_expr op') ?w1)) = (Inr w' :: pass1_state res)"
    using assms(1) unfolding walk_inst_def Let_def by (rule sbindE)
  then obtain w2 where w': "w' = advance 4 w2" and w2: "w2 = ?w1 \<or> (\<exists>wd e. w2 = register_literal wd e ?w1)"
    by (cases lit) auto
  have q: "quiet_step 1 ?w1 w2" using w2 quiet_register quiet_refl by auto
  have pc: "w_pc w2 = w_pc w" using w2 by auto
  have q': "quiet_step 1 ?w1 w'" using quiet_step_trans [OF q quiet_advance] by (simp add: w')
  have pc': "w_pc w' = w_pc ?w1 + of_nat (4 * 1)" by (simp add: w' advance_def pc)
  show ?thesis using quiet_settled [OF s q' _ pc'] q' pc' by simp
qed

lemma quiet_same_pc:
  "quiet_step n (w\<lparr>w_res := (w_res w)\<lparr>p1_inst_pc := x\<rparr>\<rparr>) w' \<Longrightarrow> quiet_step n w w'"
  by (simp add: quiet_step_def same_maps_def)

lemma small_advance: "n < 2 ^ 48 \<Longrightarrow> unat (of_nat (4 * n) :: u64) = 4 * n"
  by (simp add: unat_of_nat del: of_nat_mult)

lemma walk_org_cases:
  assumes "walk_org rec ns w = Inr w'"
  shows "\<exists>target. w' = w\<lparr>w_res := (w_res w)\<lparr>p1_origin := target\<rparr>, w_pc := target\<rparr> \<and> target \<noteq> 0 \<and> p1_origin (w_res w) = 0
          \<or> w' = w\<lparr>w_pc := target\<rparr>"
  using assms unfolding walk_org_def
  by (elim sbindE) (metis (no_types, lifting) Inr_inject sum.distinct(1))

lemma walk_record_step:
  assumes st: "settled orig k w" and wr: "walk_record rec ns w = Inr w'" and wf: "wf_record rec"
    and orig: "p1_origin (w_res w') = orig" and k: "k < 2 ^ 48"
  shows "settled orig (k + unat (w_pc w' - w_pc w)) w' \<and> advances rec ns w w'"
proof -
  let ?w = "w\<lparr>w_res := (w_res w)\<lparr>p1_record_pc := p1_record_pc (w_res w) @ [w_pc w]\<rparr>\<rparr>"
  have s: "settled orig k ?w" by (rule settled_res [OF st]) simp_all
  have move: "settled orig (k + unat (w_pc w' - w_pc w)) w' \<and> advances rec ns w w'" if "w' = ?w\<lparr>w_pc := pc\<rparr>" for pc
    using settled_move [OF s, of pc] that by (auto simp: advances_def same_maps_def)
  consider (label) "r_kind rec = KindLabelDef" | (lcl) "r_kind rec = KindLocalDef" | (inst) "r_kind rec = KindInst"
    | (lits) "r_kind rec = KindLitInsts" | (data) "r_kind rec = KindLitData" | (run) "r_kind rec = KindInsnRun"
    | (dir) "r_kind rec = KindDirective"
    | (other) "r_kind rec \<notin> {KindLabelDef, KindLocalDef, KindInst, KindLitInsts, KindLitData, KindInsnRun, KindDirective}"
    by blast
  then show ?thesis
  proof cases
    case label
    then obtain name where n: "name_at ns (symbol_id rec) = Inr name"
        and w': "w' = ?w\<lparr>w_res := define_label name (w_pc w) (w_res ?w)\<rparr>"
      using wr by (auto simp: walk_record_def Let_def elim!: sbindE)
    have "settled orig k w'" unfolding w' by (rule settled_res [OF s]) (simp_all add: define_label_def)
    moreover have "name \<in> set (record_names rec ns)"
      using n label by (auto simp: record_names_def name_at_def split: if_split_asm)
    ultimately show ?thesis by (auto simp: w' advances_def same_maps_def define_label_def)
  next
    case lcl
    then have w': "w' = ?w\<lparr>w_res := define_local (digit rec) (w_pc w) (w_res ?w)\<rparr>"
      using wr by (simp add: walk_record_def Let_def)
    have "settled orig k w'" unfolding w' by (rule settled_res [OF s]) (simp_all add: define_local_def)
    then show ?thesis by (simp add: w' advances_def same_maps_def define_local_def)
  next
    case inst
    then have "walk_inst rec ?w = Inr w'" using wr by (simp add: walk_record_def Let_def)
    from walk_inst_step [OF this s] have i: "settled orig (k + 4) w'" "quiet_step 1 ?w w'" "w_pc w' = w_pc w + 4"
      using quiet_same_pc by auto
    then show ?thesis using quiet_advances [OF i(2) refl] by simp
  next
    case lits
    then have w': "w' = ?w\<lparr>w_pc := w_pc ?w + 4 * ucast (lit_count rec)\<rparr>"
      using wr by (simp add: walk_record_def Let_def advance_def)
    then show ?thesis by (rule move)
  next
    case data
    then have w': "w' = ?w\<lparr>w_pc := w_pc ?w + of_nat (length (lit_data rec))\<rparr>"
      using wr by (simp add: walk_record_def Let_def advance_def)
    then show ?thesis by (rule move)
  next
    case run
    then have w': "w' = walk_elements (elements rec) ?w" using wr by (simp add: walk_record_def Let_def)
    have q: "quiet_step (255 * length (elements rec)) ?w w'" "w_pc w' = w_pc ?w + of_nat (4 * length (elements rec))"
      using quiet_elements [of "elements rec" ?w] wf by (auto simp: w' wf_record_def)
    have n: "unat (w_pc w' - w_pc w) = 4 * length (elements rec)"
      using q(2) small_advance [of "length (elements rec)"] wf by (simp add: wf_record_def)
    have "settled orig (k + 4 * length (elements rec)) w'" by (rule quiet_settled [OF s q(1) _ q(2)]) simp
    moreover have "w_pc w' \<noteq> w_pc w \<or> w_order w' = w_order w"
    proof (cases "elements rec")
      case (Cons el els)
      then show ?thesis using n by auto
    qed (simp add: w')
    ultimately show ?thesis using quiet_advances [OF q(1) refl] n by simp
  next
    case dir
    then have wd: "walk_directive rec ns ?w = Inr w'" using wr by (simp add: walk_record_def Let_def)
    let ?name = "directive_name (directive_id rec)"
    consider (equ) "?name = ''.equ'' \<or> ?name = ''.set''" | (pool) "?name = ''.ltorg''" | (origin) "?name = ''.org''"
      | (size) "\<not> (?name = ''.equ'' \<or> ?name = ''.set'')" "?name \<noteq> ''.ltorg''" "?name \<noteq> ''.org''" by blast
    then show ?thesis
    proof cases
      case equ
      then obtain res where r: "resolve_equ rec ns (w_res ?w) = Inr res" and w': "w' = ?w\<lparr>w_res := res\<rparr>"
        using wd by (auto simp: walk_directive_def Let_def elim!: sbindE)
      obtain sym_op rest n name v where d: "operand_next (operands rec) = Inr (sym_op, rest)"
          "extract_sym_id (o_expr sym_op) = Some n" "name_at ns n = Inr name"
        and res: "res = (w_res ?w)\<lparr>p1_symbols := (p1_symbols (w_res ?w))(name \<mapsto> v)\<rparr>"
        using r by (auto simp: resolve_equ_def elim!: sbindE split: option.splits if_split_asm)
      have "name \<in> set (record_names rec ns)"
        using d dir equ by (auto simp: record_names_def equ_name_def name_at_def split: if_split_asm)
      moreover have "settled orig k w'" unfolding w' by (rule settled_res [OF s]) (simp_all add: res)
      ultimately show ?thesis by (auto simp: w' res advances_def same_maps_def)
    next
      case pool
      then have w': "w' = flush_pool ?w" using wd by (simp add: walk_directive_def Let_def)
      note f = flush_settled [OF s]
      have "unat (of_nat (pending_len ?w) :: u64) = pending_len ?w"
        using pending_len_bounds(2) [OF s] k by (simp add: unat_of_nat)
      then have "unat (w_pc w' - w_pc w) = pending_len ?w" using f(4) by (simp add: w')
      moreover have "same_maps w w' key" if "key \<noteq> w_pc w \<or> w_order w = []" for key
        using f(5) [of key] that by (simp add: w' same_maps_def)
      ultimately show ?thesis using f by (simp add: w' advances_def)
    next
      case origin
      then have "walk_org rec ns ?w = Inr w'" using wd by (simp add: walk_directive_def Let_def)
      then obtain target where "w' = ?w\<lparr>w_res := (w_res ?w)\<lparr>p1_origin := target\<rparr>, w_pc := target\<rparr> \<and> target \<noteq> 0 \<and> p1_origin (w_res ?w) = 0
          \<or> w' = ?w\<lparr>w_pc := target\<rparr>"
        using walk_org_cases by blast
      then have "w' = ?w\<lparr>w_pc := target\<rparr>" using orig st by (auto simp: settled_def)
      then show ?thesis by (rule move)
    next
      case size
      then obtain n where "w' = ?w\<lparr>w_pc := w_pc ?w + n\<rparr>"
        using wd by (auto simp: walk_directive_def Let_def advance_def elim!: sbindE)
      then show ?thesis by (rule move)
    qed
  next
    case other
    then have "w' = ?w\<lparr>w_pc := w_pc ?w\<rparr>" using wr by (simp add: walk_record_def Let_def)
    then show ?thesis by (rule move)
  qed
qed

end
