(* ===== verification/Fmt_Sysregs.thy ===== *)
theory Fmt_Sysregs
  imports Fmt_Tables
begin

text \<open>
  The System-group operand names of \<^verbatim>\<open>tools/sam-aarch64-format/sysregs.go\<close>: system registers,
  PSTATE fields, cache, TLB and address-translation operations, and barrier options, looked up by
  name (the assembler) and by encoding (the disassembler).

  The Go tables are maps; here they are association lists with distinct names.  A reverse table is
  built there by iterating over the map, in any order: \<open>sys_tables_distinct\<close> shows that no encoding
  has two names, so the order does not matter.
\<close>

section \<open>Strings\<close>

text \<open>\<^verbatim>\<open>strings.ToLower\<close> on ASCII; the lexer lets no other character into a name.\<close>

definition lower_char :: "char \<Rightarrow> char" where
  "lower_char c = (let n = of_char c :: nat in if 65 \<le> n \<and> n \<le> 90 then char_of (n + 32) else c)"

definition to_lower :: "string \<Rightarrow> string" where
  "to_lower s = map lower_char s"

definition string_of_bytes :: "bytes \<Rightarrow> string" where
  "string_of_bytes bs = map (\<lambda>b. char_of (unat b)) bs"

text \<open>\<^verbatim>\<open>strings.Split(s, sep)\<close> for a one-character separator.\<close>

fun split_on :: "char \<Rightarrow> string \<Rightarrow> string list" where
  "split_on sep [] = [[]]"
| "split_on sep (c # cs) =
     (if c = sep then [] # split_on sep cs
      else case split_on sep cs of [] \<Rightarrow> [[c]] | p # ps \<Rightarrow> (c # p) # ps)"

text \<open>\<^verbatim>\<open>strconv.ParseUint(s, 10, 8)\<close>: decimal digits only, and a value of at most 255.\<close>

definition digit_value :: "char \<Rightarrow> nat option" where
  "digit_value c = (let n = of_char c :: nat in if 48 \<le> n \<and> n \<le> 57 then Some (n - 48) else None)"

fun parse_digits :: "nat \<Rightarrow> string \<Rightarrow> nat option" where
  "parse_digits acc [] = Some acc"
| "parse_digits acc (c # cs) = (case digit_value c of None \<Rightarrow> None | Some d \<Rightarrow> parse_digits (10 * acc + d) cs)"

definition parse_uint8 :: "string \<Rightarrow> u8 option" where
  "parse_uint8 s =
     (if s = [] then None
      else case parse_digits 0 s of None \<Rightarrow> None | Some n \<Rightarrow> if n > 255 then None else Some (of_nat n))"

section \<open>System registers\<close>

record sys_reg =
  sr_op0 :: u8
  sr_op1 :: u8
  sr_crn :: u8
  sr_crm :: u8
  sr_op2 :: u8

definition mk_sys_reg :: "u8 \<Rightarrow> u8 \<Rightarrow> u8 \<Rightarrow> u8 \<Rightarrow> u8 \<Rightarrow> sys_reg" where
  "mk_sys_reg op0 op1 crn crm op2 = \<lparr>sr_op0 = op0, sr_op1 = op1, sr_crn = crn, sr_crm = crm, sr_op2 = op2\<rparr>"

definition named_sys_regs :: "(string \<times> sys_reg) list" where
  "named_sys_regs = [
    (''nzcv'', mk_sys_reg 3 3 4 2 0), (''daif'', mk_sys_reg 3 3 4 2 1),
    (''currentel'', mk_sys_reg 3 0 4 2 2), (''spsel'', mk_sys_reg 3 0 4 2 0),
    (''sctlr_el1'', mk_sys_reg 3 0 1 0 0), (''actlr_el1'', mk_sys_reg 3 0 1 0 1),
    (''cpacr_el1'', mk_sys_reg 3 0 1 0 2), (''ttbr0_el1'', mk_sys_reg 3 0 2 0 0),
    (''ttbr1_el1'', mk_sys_reg 3 0 2 0 1), (''tcr_el1'', mk_sys_reg 3 0 2 0 2),
    (''esr_el1'', mk_sys_reg 3 0 5 2 0), (''far_el1'', mk_sys_reg 3 0 6 0 0),
    (''mair_el1'', mk_sys_reg 3 0 10 2 0), (''amair_el1'', mk_sys_reg 3 0 10 3 0),
    (''vbar_el1'', mk_sys_reg 3 0 12 0 0), (''contextidr_el1'', mk_sys_reg 3 0 13 0 1),
    (''tpidr_el0'', mk_sys_reg 3 3 13 0 2), (''tpidr_el1'', mk_sys_reg 3 0 13 0 4),
    (''elr_el1'', mk_sys_reg 3 0 4 0 1), (''spsr_el1'', mk_sys_reg 3 0 4 0 0),
    (''sp_el0'', mk_sys_reg 3 0 4 1 0), (''midr_el1'', mk_sys_reg 3 0 0 0 0),
    (''mpidr_el1'', mk_sys_reg 3 0 0 0 5), (''revidr_el1'', mk_sys_reg 3 0 0 0 6),
    (''hcr_el2'', mk_sys_reg 3 4 1 1 0), (''scr_el3'', mk_sys_reg 3 6 1 1 0),
    (''elr_el2'', mk_sys_reg 3 4 4 0 1), (''elr_el3'', mk_sys_reg 3 6 4 0 1),
    (''spsr_el2'', mk_sys_reg 3 4 4 0 0), (''spsr_el3'', mk_sys_reg 3 6 4 0 0),
    (''cntpct_el0'', mk_sys_reg 3 3 14 0 1), (''cntvct_el0'', mk_sys_reg 3 3 14 0 2),
    (''cntfrq_el0'', mk_sys_reg 3 3 14 0 0), (''cntp_ctl_el0'', mk_sys_reg 3 3 14 2 1),
    (''cntp_cval_el0'', mk_sys_reg 3 3 14 2 2), (''cntp_tval_el0'', mk_sys_reg 3 3 14 2 0),
    (''cntv_ctl_el0'', mk_sys_reg 3 3 14 3 1), (''cntv_cval_el0'', mk_sys_reg 3 3 14 3 2),
    (''cntv_tval_el0'', mk_sys_reg 3 3 14 3 0)]"

definition parse_small_uint :: "string \<Rightarrow> u8 \<Rightarrow> u8 option" where
  "parse_small_uint s mx =
     (if s = [] then None
      else case parse_uint8 s of None \<Rightarrow> None | Some v \<Rightarrow> if v > mx then None else Some v)"

text \<open>A component of the generic spelling with its leading \<^verbatim>\<open>c\<close>.\<close>

definition parse_c_field :: "string \<Rightarrow> u8 option" where
  "parse_c_field p =
     (if length p < 2 then None else if hd p \<noteq> CHR ''c'' then None else parse_small_uint (tl p) 15)"

definition parse_generic_sys_reg :: "string \<Rightarrow> sys_reg option" where
  "parse_generic_sys_reg name =
     (if length name < 2 \<or> hd name \<noteq> CHR ''s'' then None
      else case split_on CHR ''_'' (tl name) of
             [p0, p1, p2, p3, p4] \<Rightarrow>
               (case parse_small_uint p0 3 of None \<Rightarrow> None | Some op0 \<Rightarrow>
               (case parse_small_uint p1 7 of None \<Rightarrow> None | Some op1 \<Rightarrow>
               (case parse_c_field p2 of None \<Rightarrow> None | Some crn \<Rightarrow>
               (case parse_c_field p3 of None \<Rightarrow> None | Some crm \<Rightarrow>
               (case parse_small_uint p4 7 of None \<Rightarrow> None | Some op2 \<Rightarrow>
                  Some (mk_sys_reg op0 op1 crn crm op2))))))
           | _ \<Rightarrow> None)"

definition parse_sys_reg :: "string \<Rightarrow> sys_reg option" where
  "parse_sys_reg name =
     (let lc = to_lower name in
      case map_of named_sys_regs lc of Some sr \<Rightarrow> Some sr | None \<Rightarrow> parse_generic_sys_reg lc)"

text \<open>A table read backwards.\<close>

definition reverse_lookup :: "('a \<times> 'b) list \<Rightarrow> 'b \<Rightarrow> 'a option" where
  "reverse_lookup t = map_of (map prod.swap t)"

definition sys_reg_name :: "sys_reg \<Rightarrow> string" where
  "sys_reg_name sr =
     (case reverse_lookup named_sys_regs sr of
        Some name \<Rightarrow> name
      | None \<Rightarrow> ''s'' @ dec (unat (sr_op0 sr)) @ ''_'' @ dec (unat (sr_op1 sr)) @ ''_c'' @ dec (unat (sr_crn sr))
          @ ''_c'' @ dec (unat (sr_crm sr)) @ ''_'' @ dec (unat (sr_op2 sr)))"

section \<open>PSTATE fields\<close>

record pstate =
  ps_op1 :: u8
  ps_op2 :: u8

definition pstate_fields :: "(string \<times> pstate) list" where
  "pstate_fields = [
    (''spsel'', \<lparr>ps_op1 = 0, ps_op2 = 5\<rparr>),
    (''daifset'', \<lparr>ps_op1 = 3, ps_op2 = 6\<rparr>),
    (''daifclr'', \<lparr>ps_op1 = 3, ps_op2 = 7\<rparr>),
    (''uao'', \<lparr>ps_op1 = 0, ps_op2 = 3\<rparr>),
    (''pan'', \<lparr>ps_op1 = 0, ps_op2 = 4\<rparr>),
    (''dit'', \<lparr>ps_op1 = 3, ps_op2 = 2\<rparr>),
    (''tco'', \<lparr>ps_op1 = 3, ps_op2 = 4\<rparr>),
    (''ssbs'', \<lparr>ps_op1 = 3, ps_op2 = 1\<rparr>)]"

definition parse_pstate :: "string \<Rightarrow> pstate option" where
  "parse_pstate name = map_of pstate_fields (to_lower name)"

definition pstate_name :: "pstate \<Rightarrow> string option" where
  "pstate_name pf = reverse_lookup pstate_fields pf"

section \<open>System instructions\<close>

text \<open>\<^verbatim>\<open>DCOp\<close> and \<^verbatim>\<open>TLBIOp\<close> have the same fields.\<close>

record sys_op =
  so_op1 :: u8
  so_crn :: u8
  so_crm :: u8
  so_op2 :: u8
  so_needs_xt :: bool

definition mk_sys_op :: "u8 \<Rightarrow> u8 \<Rightarrow> u8 \<Rightarrow> u8 \<Rightarrow> bool \<Rightarrow> sys_op" where
  "mk_sys_op op1 crn crm op2 xt = \<lparr>so_op1 = op1, so_crn = crn, so_crm = crm, so_op2 = op2, so_needs_xt = xt\<rparr>"

definition dc_ops :: "(string \<times> sys_op) list" where
  "dc_ops = [
    (''ivac'', mk_sys_op 0 7 6 1 True), (''isw'', mk_sys_op 0 7 6 2 True),
    (''csw'', mk_sys_op 0 7 10 2 True), (''cisw'', mk_sys_op 0 7 14 2 True),
    (''zva'', mk_sys_op 3 7 4 1 True), (''cvac'', mk_sys_op 3 7 10 1 True),
    (''cvau'', mk_sys_op 3 7 11 1 True), (''civac'', mk_sys_op 3 7 14 1 True),
    (''cvap'', mk_sys_op 3 7 12 1 True)]"

definition tlbi_ops :: "(string \<times> sys_op) list" where
  "tlbi_ops = [
    (''vmalle1is'', mk_sys_op 0 8 3 0 False), (''vmalle1'', mk_sys_op 0 8 7 0 False),
    (''alle1is'', mk_sys_op 4 8 3 4 False), (''alle1'', mk_sys_op 4 8 7 4 False),
    (''alle2is'', mk_sys_op 4 8 3 0 False), (''alle2'', mk_sys_op 4 8 7 0 False),
    (''alle3is'', mk_sys_op 6 8 3 0 False), (''alle3'', mk_sys_op 6 8 7 0 False),
    (''vmalls12e1is'', mk_sys_op 4 8 3 6 False), (''vmalls12e1'', mk_sys_op 4 8 7 6 False),
    (''vae1is'', mk_sys_op 0 8 3 1 True), (''aside1is'', mk_sys_op 0 8 3 2 True),
    (''vaae1is'', mk_sys_op 0 8 3 3 True), (''vale1is'', mk_sys_op 0 8 3 5 True),
    (''vaale1is'', mk_sys_op 0 8 3 7 True), (''vae1'', mk_sys_op 0 8 7 1 True),
    (''aside1'', mk_sys_op 0 8 7 2 True), (''vaae1'', mk_sys_op 0 8 7 3 True),
    (''vale1'', mk_sys_op 0 8 7 5 True), (''vaale1'', mk_sys_op 0 8 7 7 True),
    (''ipas2e1is'', mk_sys_op 4 8 0 1 True), (''ipas2le1is'', mk_sys_op 4 8 0 5 True),
    (''vae2is'', mk_sys_op 4 8 3 1 True), (''vale2is'', mk_sys_op 4 8 3 5 True),
    (''vae3is'', mk_sys_op 6 8 3 1 True), (''vale3is'', mk_sys_op 6 8 3 5 True),
    (''ipas2e1'', mk_sys_op 4 8 4 1 True), (''ipas2le1'', mk_sys_op 4 8 4 5 True),
    (''vae2'', mk_sys_op 4 8 7 1 True), (''vale2'', mk_sys_op 4 8 7 5 True),
    (''vae3'', mk_sys_op 6 8 7 1 True), (''vale3'', mk_sys_op 6 8 7 5 True)]"

definition parse_dc :: "string \<Rightarrow> sys_op option" where
  "parse_dc name = map_of dc_ops (to_lower name)"

definition parse_tlbi :: "string \<Rightarrow> sys_op option" where
  "parse_tlbi name = map_of tlbi_ops (to_lower name)"

text \<open>The reverse tables are keyed by the encoding only, so \<^verbatim>\<open>NeedsXt\<close> is looked up by name again.\<close>

definition sys_op_key :: "sys_op \<Rightarrow> u8 \<times> u8 \<times> u8 \<times> u8" where
  "sys_op_key op = (so_op1 op, so_crn op, so_crm op, so_op2 op)"

definition sys_op_name :: "(string \<times> sys_op) list \<Rightarrow> u8 \<Rightarrow> u8 \<Rightarrow> u8 \<Rightarrow> u8 \<Rightarrow> (string \<times> bool) option" where
  "sys_op_name t op1 crn crm op2 =
     (case map_of (map (\<lambda>(n, op). (sys_op_key op, n)) t) (op1, crn, crm, op2) of
        None \<Rightarrow> None
      | Some n \<Rightarrow> Some (n, case map_of t n of None \<Rightarrow> False | Some op \<Rightarrow> so_needs_xt op))"

definition dc_name :: "u8 \<Rightarrow> u8 \<Rightarrow> u8 \<Rightarrow> u8 \<Rightarrow> (string \<times> bool) option" where
  "dc_name = sys_op_name dc_ops"

definition tlbi_name :: "u8 \<Rightarrow> u8 \<Rightarrow> u8 \<Rightarrow> u8 \<Rightarrow> (string \<times> bool) option" where
  "tlbi_name = sys_op_name tlbi_ops"

text \<open>The entries of the AT and IC tables are \<^verbatim>\<open>(op1, CRm, op2)\<close> and \<^verbatim>\<open>NeedsXt\<close>.\<close>

type_synonym at_ic_op = "(u8 \<times> u8 \<times> u8) \<times> bool"

definition mk_at_ic :: "u8 \<Rightarrow> u8 \<Rightarrow> u8 \<Rightarrow> bool \<Rightarrow> at_ic_op" where
  "mk_at_ic op1 crm op2 xt = ((op1, crm, op2), xt)"

definition at_ops :: "(string \<times> at_ic_op) list" where
  "at_ops = [
    (''s1e1r'', mk_at_ic 0 8 0 True), (''s1e1w'', mk_at_ic 0 8 1 True),
    (''s1e0r'', mk_at_ic 0 8 2 True), (''s1e0w'', mk_at_ic 0 8 3 True),
    (''s1e2r'', mk_at_ic 4 8 0 True), (''s1e2w'', mk_at_ic 4 8 1 True),
    (''s12e1r'', mk_at_ic 4 8 4 True), (''s12e1w'', mk_at_ic 4 8 5 True),
    (''s12e0r'', mk_at_ic 4 8 6 True), (''s12e0w'', mk_at_ic 4 8 7 True),
    (''s1e3r'', mk_at_ic 6 8 0 True), (''s1e3w'', mk_at_ic 6 8 1 True)]"

definition ic_ops :: "(string \<times> at_ic_op) list" where
  "ic_ops = [
    (''ialluis'', mk_at_ic 0 1 0 False), (''iallu'', mk_at_ic 0 5 0 False),
    (''ivau'', mk_at_ic 3 5 1 True)]"

definition at_ic_name :: "(string \<times> at_ic_op) list \<Rightarrow> u8 \<Rightarrow> u8 \<Rightarrow> u8 \<Rightarrow> (string \<times> bool) option" where
  "at_ic_name t op1 crm op2 =
     (case map_of (map (\<lambda>(n, op). (fst op, n)) t) (op1, crm, op2) of
        None \<Rightarrow> None
      | Some n \<Rightarrow> Some (n, case map_of t n of None \<Rightarrow> False | Some op \<Rightarrow> snd op))"

definition at_name :: "u8 \<Rightarrow> u8 \<Rightarrow> u8 \<Rightarrow> (string \<times> bool) option" where
  "at_name = at_ic_name at_ops"

definition ic_name :: "u8 \<Rightarrow> u8 \<Rightarrow> u8 \<Rightarrow> (string \<times> bool) option" where
  "ic_name = at_ic_name ic_ops"

section \<open>Barriers\<close>

definition barrier_options :: "(u8 \<times> string \<times> bool) list" where
  "barrier_options = [
    (0, ''ssbb'', True), (1, ''oshld'', False), (2, ''oshst'', False), (3, ''osh'', False),
    (4, ''pssbb'', True), (5, ''nshld'', False), (6, ''nshst'', False), (7, ''nsh'', False),
    (9, ''ishld'', False), (10, ''ishst'', False), (11, ''ish'', False), (13, ''ld'', False),
    (14, ''st'', False), (15, ''sy'', False)]"

definition barrier_option_name :: "u8 \<Rightarrow> bool \<Rightarrow> string option" where
  "barrier_option_name crm is_dsb =
     (case map_of barrier_options crm of
        None \<Rightarrow> None
      | Some (n, dsb_only) \<Rightarrow> if dsb_only \<and> \<not> is_dsb then None else Some n)"

section \<open>Lemmas\<close>

lemma sys_tables_distinct:
  "distinct (map fst named_sys_regs)" "distinct (map snd named_sys_regs)"
  "distinct (map fst pstate_fields)" "distinct (map snd pstate_fields)"
  "distinct (map fst dc_ops)" "distinct (map (sys_op_key \<circ> snd) dc_ops)"
  "distinct (map fst tlbi_ops)" "distinct (map (sys_op_key \<circ> snd) tlbi_ops)"
  by (simp_all add: named_sys_regs_def pstate_fields_def dc_ops_def tlbi_ops_def
      mk_sys_reg_def mk_sys_op_def sys_op_key_def)

lemma reverse_lookup_map_of:
  assumes "distinct (map fst t)" and "distinct (map snd t)"
  shows "reverse_lookup t v = Some n \<longleftrightarrow> map_of t n = Some v"
proof -
  have "distinct (map fst (map prod.swap t))" using assms(2) by (simp add: comp_def)
  then show ?thesis using assms(1) by (force simp: reverse_lookup_def)
qed

end
