(* ===== verification/Asm_Insn.thy ===== *)
theory Asm_Insn
  imports Asm_State Fmt_Sysregs
begin

text \<open>
  Instruction encoding, \<^verbatim>\<open>encodeInst\<close> of \<^verbatim>\<open>tools/sam-aarch64/assemble/pass2.go\<close>: the dispatch on
  compound operands, the register-form coercions, the special forms, and the form table.  Every
  function takes the PC of the instruction, the result of pass 1 and the name table.
\<close>

section \<open>Move immediate and PC-relative loads\<close>

text \<open>The 16-bit chunks a move may place; a W register has two.\<close>

definition mov_shifts :: "bool \<Rightarrow> nat list" where
  "mov_shifts is64 = (if is64 then [0, 16, 32, 48] else [0, 16])"

definition mov_chunk :: "u64 \<Rightarrow> nat \<Rightarrow> u64" where
  "mov_chunk u sh = drop_bit sh u AND 0xffff"

definition find_chunk :: "bool \<Rightarrow> u64 \<Rightarrow> nat option" where
  "find_chunk is64 u = find (\<lambda>sh. push_bit sh (mov_chunk u sh) = u) (mov_shifts is64)"

definition mov_wide_word :: "u32 \<Rightarrow> nat \<Rightarrow> u64 \<Rightarrow> u8 \<Rightarrow> u32" where
  "mov_wide_word base sh u rd =
     base OR push_bit 21 (of_nat (sh div 16)) OR push_bit 5 (ucast (mov_chunk u sh)) OR ucast rd"

definition logical_slot :: operand_slot where
  "logical_slot = \<lparr>slot_kind = LogicalImm, expected_kind = 0, bit_position = 10, bit_width = 13\<rparr>"

definition mov_imm_value :: "bool \<Rightarrow> i64 \<Rightarrow> u64" where
  "mov_imm_value is64 v = (if is64 then v else v AND 0xffffffff)"

definition mov_imm_word :: "bool \<Rightarrow> u8 \<Rightarrow> i64 \<Rightarrow> u32 option" where
  "mov_imm_word is64 rd v =
     (let u = mov_imm_value is64 v; nu = mov_imm_value is64 (NOT u) in
      case find_chunk is64 u of
        Some sh \<Rightarrow> Some (mov_wide_word (if is64 then 0xd2800000 else 0x52800000) sh u rd)
      | None \<Rightarrow>
          (case find_chunk is64 nu of
             Some sh \<Rightarrow> Some (mov_wide_word (if is64 then 0x92800000 else 0x12800000) sh nu rd)
           | None \<Rightarrow>
               (case encode_logical_imm logical_slot v is64 of
                  Inr bits \<Rightarrow> Some ((if is64 then 0xb20003e0 else 0x320003e0) OR bits OR ucast rd)
                | Inl _ \<Rightarrow> None)))"

definition try_encode_mov_imm :: "operand list \<Rightarrow> i64 \<Rightarrow> pass1_result \<Rightarrow> bytes list \<Rightarrow> u32 option res" where
  "try_encode_mov_imm ops pc p1 ns =
     sbind (eval_at (o_expr (ops ! 1)) pc p1 ns) (\<lambda>v.
       Inr (mov_imm_word (o_kind (ops ! 0) = OpRegX) (o_reg (ops ! 0)) v))"

text \<open>The 19-bit literal offset shared by the two literal loads.\<close>

definition literal_offset :: "i64 \<Rightarrow> i64 \<Rightarrow> u32 res" where
  "literal_offset target pc =
     (let off = target - pc; imm19 = gdiv off 4 in
      if gmod off 4 \<noteq> 0 then Inl (Error ''ldr (literal): target not 4-byte aligned'')
      else if sint imm19 < - (2 ^ 18) \<or> sint imm19 \<ge> 2 ^ 18 then Inl (Error ''ldr (literal): offset out of range'')
      else Inr (push_bit 5 (ucast imm19 AND 0x7ffff)))"

definition encode_ldr_lit_direct :: "operand list \<Rightarrow> i64 \<Rightarrow> pass1_result \<Rightarrow> bytes list \<Rightarrow> u32 res" where
  "encode_ldr_lit_direct ops pc p1 ns =
     sbind (eval_at (o_expr (ops ! 1)) pc p1 ns) (\<lambda>v.
       sbind (literal_offset v pc) (\<lambda>imm.
         Inr ((if o_kind (ops ! 0) = OpRegX then 0x58000000 else 0x18000000) OR imm OR ucast (o_reg (ops ! 0)))))"

definition encode_ldr_lit_pool :: "operand list \<Rightarrow> i64 \<Rightarrow> pass1_result \<Rightarrow> u32 res" where
  "encode_ldr_lit_pool ops pc p1 =
     (if length ops < 2 then Inl (Error ''ldr litpool: need 2 operands'')
      else if o_kind (ops ! 1) \<noteq> OpLitPool then Inl (Error ''ldr litpool: operand 1 kind'')
      else case p1_ldr_idx p1 pc of
        None \<Rightarrow> Inl (Error ''ldr litpool: no pool index recorded'')
      | Some idx \<Rightarrow>
          if idx \<ge> length (p1_pool p1) then Inl Panic
          else sbind (literal_offset (pe_pc (p1_pool p1 ! idx)) pc) (\<lambda>imm.
            Inr ((if o_width (ops ! 1) = 8 then 0x58000000 else 0x18000000) OR imm OR ucast (o_reg (ops ! 0)))))"

definition encode_tbz :: "u16 \<Rightarrow> operand list \<Rightarrow> i64 \<Rightarrow> pass1_result \<Rightarrow> bytes list \<Rightarrow> u32 res" where
  "encode_tbz m ops pc p1 ns =
     (if length ops < 3 then Inl (Error ''tbz/tbnz: need 3 operands'')
      else let rt = ops ! 0; bit_op = ops ! 1; label_op = ops ! 2 in
      if o_kind rt \<noteq> OpRegX \<and> o_kind rt \<noteq> OpRegW then Inl (Error ''tbz/tbnz: operand 0 must be Rt'')
      else if o_kind bit_op \<noteq> OpImmExpr \<or> o_kind label_op \<noteq> OpImmExpr
      then Inl (Error ''tbz/tbnz: operand 1 must be immediate, operand 2 must be label'')
      else sbind (eval_at (o_expr bit_op) pc p1 ns) (\<lambda>b.
        if sint b < 0 \<or> sint b > 63 then Inl (Error ''tbz/tbnz: bit number out of range'')
        else if o_kind rt = OpRegW \<and> sint b > 31 then Inl (Error ''tbz/tbnz: bit > 31 with W register'')
        else sbind (eval_at (o_expr label_op) pc p1 ns) (\<lambda>target.
          let off = target - pc; imm14 = gdiv off 4 in
          if gmod off 4 \<noteq> 0 then Inl (Error ''tbz/tbnz: target not 4-byte aligned'')
          else if sint imm14 < - (2 ^ 13) \<or> sint imm14 \<ge> 2 ^ 13 then Inl (Error ''tbz/tbnz: offset out of range'')
          else Inr (push_bit 31 (ucast (signed_drop_bit 5 b) AND 1) OR push_bit 25 0b011011
            OR push_bit 24 (if m = 23 then 1 else 0) OR push_bit 19 (ucast (b AND 0x1f))
            OR push_bit 5 (ucast imm14 AND 0x3fff) OR ucast (o_reg rt)))))"

section \<open>Loads and stores\<close>

definition is_load_mnemonic :: "u16 \<Rightarrow> bool" where
  "is_load_mnemonic m = (m \<in> set [5, 7, 54, 56, 75, 85, 86, 87, 96, 97])"

definition is_signed_extend_load :: "u16 \<Rightarrow> bool" where
  "is_signed_extend_load m = (m = 85 \<or> m = 86 \<or> m = 87)"

definition is_unscaled_mem_mnemonic :: "u16 \<Rightarrow> bool" where
  "is_unscaled_mem_mnemonic m = (m \<in> set [74, 75, 94, 95, 96, 97])"

text \<open>The size field and the scale; the default case is for \<^verbatim>\<open>ldr\<close> and \<^verbatim>\<open>str\<close>.\<close>

definition mem_inst_size :: "u16 \<Rightarrow> u8 \<Rightarrow> u32 \<times> i64" where
  "mem_inst_size m rt_kind =
     (if m = 54 \<or> m = 55 \<or> m = 85 then (0, 1)
      else if m = 56 \<or> m = 57 \<or> m = 86 then (1, 2)
      else if m = 87 then (2, 4)
      else if rt_kind = OpRegW then (2, 4) else (3, 8))"

definition mem_inst_opc :: "u16 \<Rightarrow> u8 \<Rightarrow> u32 res" where
  "mem_inst_opc m rt_kind =
     (if is_signed_extend_load m
      then if rt_kind = OpRegX then Inr 2
           else if rt_kind = OpRegW
           then (if m = 87 then Inl (Error ''ldrsw: Rt must be Xn (no Wt form)'') else Inr 3)
           else Inl (Error ''ldrs*: Rt must be Wn or Xn'')
      else if is_load_mnemonic m then Inr 1 else Inr 0)"

definition encode_signed_imm9 :: "i64 \<Rightarrow> u32 res" where
  "encode_signed_imm9 v =
     (if sint v < - 256 \<or> sint v > 255 then Inl (Error ''signed imm9: value out of range'')
      else Inr (ucast v AND 0x1ff))"

text \<open>\<^verbatim>\<open>const vfpMid = 0b111 << 27\<close>, and the fields every load/store word ends with.\<close>

definition vfp_mid :: u32 where
  "vfp_mid = push_bit 27 0b111"

definition mem_word :: "u32 \<Rightarrow> u32 \<Rightarrow> u8 \<Rightarrow> u8 \<Rightarrow> u32" where
  "mem_word base fld rn rt = base OR fld OR push_bit 5 (ucast rn) OR ucast rt"

definition unscaled_size :: "u16 \<Rightarrow> u8 \<Rightarrow> u32 res" where
  "unscaled_size m rt_kind =
     (if m = 94 \<or> m = 96
      then (if rt_kind \<noteq> OpRegW then Inl (Error ''sturh/ldurh: Rt must be Wn'') else Inr 1)
      else if m = 95 \<or> m = 97
      then (if rt_kind \<noteq> OpRegW then Inl (Error ''sturb/ldurb: Rt must be Wn'') else Inr 0)
      else if rt_kind = OpRegW then Inr 2
      else if rt_kind = OpRegX then Inr 3
      else Inl (Error ''stur/ldur: Rt must be Wn or Xn''))"

definition encode_unscaled_mem ::
  "u16 \<Rightarrow> operand \<Rightarrow> u8 \<Rightarrow> operand \<Rightarrow> i64 \<Rightarrow> pass1_result \<Rightarrow> bytes list \<Rightarrow> u32 res" where
  "encode_unscaled_mem m rt_op rt mem pc p1 ns =
     sbind (unscaled_size m (o_kind rt_op)) (\<lambda>size_bits.
       sbind (if o_mem_shape mem = MemBase then Inr 0
              else if o_mem_shape mem = MemBaseOff then eval_at (o_expr mem) pc p1 ns
              else Inl (Error ''stur/ldur: unsupported MemShape'')) (\<lambda>off.
         sbind (encode_signed_imm9 off) (\<lambda>imm9.
           Inr (mem_word (push_bit 30 size_bits OR vfp_mid OR push_bit 22 (if is_load_mnemonic m then 1 else 0))
             (push_bit 12 imm9) (o_base mem) rt))))"

text \<open>The addressing mode and offset of a pair.\<close>

definition pair_mode :: "operand \<Rightarrow> i64 \<Rightarrow> pass1_result \<Rightarrow> bytes list \<Rightarrow> (u32 \<times> i64) res" where
  "pair_mode mem pc p1 ns =
     (let at = (\<lambda>md. sbind (eval_at (o_expr mem) pc p1 ns) (\<lambda>v. Inr (md, v))); sh = o_mem_shape mem in
      if sh = MemBase then Inr (0b10, 0)
      else if sh = MemBaseOff then at 0b10
      else if sh = MemBaseOffPre then at 0b11
      else if sh = MemBaseOffPost then at 0b01
      else Inl (Error ''encodePairInst: unsupported MemShape''))"

definition encode_pair :: "u16 \<Rightarrow> operand list \<Rightarrow> i64 \<Rightarrow> pass1_result \<Rightarrow> bytes list \<Rightarrow> u32 res" where
  "encode_pair m ops pc p1 ns =
     (if length ops < 3 then Inl (Error ''encodePairInst: need 3 operands'')
      else let rt1 = ops ! 0; rt2 = ops ! 1; mem = ops ! 2; is64 = o_kind rt1 = OpRegX;
               scale = (if is64 then 8 else 4); opc = (if is64 then 0b10 else 0b00) in
        sbind (pair_mode mem pc p1 ns) (\<lambda>(mode_bits, off).
          let so = gdiv off scale in
          if gmod off scale \<noteq> 0 then Inl (Error ''encodePairInst: byte offset not a multiple of the scale'')
          else if sint so < - 64 \<or> sint so > 63 then Inl (Error ''encodePairInst: scaled offset out of range'')
          else Inr (push_bit 30 opc OR push_bit 27 0b101 OR push_bit 23 mode_bits
            OR push_bit 22 (if m = 7 then 1 else 0) OR push_bit 15 (ucast so AND 0x7F)
            OR push_bit 10 (ucast (o_reg rt2)) OR push_bit 5 (ucast (o_base mem)) OR ucast (o_reg rt1))))"

text \<open>Register-offset forms: \<open>S\<close> is set for any non-zero amount.\<close>

definition index_word :: "u32 \<Rightarrow> u32 \<Rightarrow> u32 \<Rightarrow> u32 \<Rightarrow> operand \<Rightarrow> u8 \<Rightarrow> u32" where
  "index_word size_bits opc option s mem rt =
     mem_word (push_bit 30 size_bits OR vfp_mid OR push_bit 22 opc OR push_bit 21 1 OR push_bit 13 option
       OR push_bit 12 s OR push_bit 10 0b10) (push_bit 16 (ucast (o_idx mem))) (o_base mem) rt"

text \<open>The scaled form, and its rewrite to the unscaled one when the offset does not fit.\<close>

definition encode_mem_offset ::
  "u16 \<Rightarrow> operand \<Rightarrow> operand \<Rightarrow> u32 \<Rightarrow> i64 \<Rightarrow> u32 \<Rightarrow> i64 \<Rightarrow> i64 \<Rightarrow> pass1_result \<Rightarrow> bytes list \<Rightarrow> u32 res" where
  "encode_mem_offset m rt_op mem size_bits scale opc off pc p1 ns =
     (if sint off < 0 \<or> gmod off scale \<noteq> 0 \<or> sint (gdiv off scale) \<ge> 2 ^ 12
      then if sint off \<ge> - 256 \<and> sint off \<le> 255
           then encode_unscaled_mem m rt_op (o_reg rt_op) mem pc p1 ns
           else Inl (Error ''LDR/STR unsigned offset: not representable as scaled imm12'')
      else Inr (mem_word (push_bit 30 size_bits OR vfp_mid OR push_bit 24 1 OR push_bit 22 opc)
        (push_bit 10 (ucast (gdiv off scale))) (o_base mem) (o_reg rt_op)))"

definition encode_mem_indexed ::
  "u32 \<Rightarrow> operand \<Rightarrow> operand \<Rightarrow> u32 \<Rightarrow> u32 \<Rightarrow> i64 \<Rightarrow> pass1_result \<Rightarrow> bytes list \<Rightarrow> u32 res" where
  "encode_mem_indexed md rt_op mem size_bits opc pc p1 ns =
     sbind (eval_at (o_expr mem) pc p1 ns) (\<lambda>v. sbind (encode_signed_imm9 v) (\<lambda>imm9.
       Inr (mem_word (push_bit 30 size_bits OR vfp_mid OR push_bit 22 opc OR push_bit 10 md)
         (push_bit 12 imm9) (o_base mem) (o_reg rt_op))))"

definition encode_mem_inst :: "u16 \<Rightarrow> operand list \<Rightarrow> i64 \<Rightarrow> pass1_result \<Rightarrow> bytes list \<Rightarrow> u32 res" where
  "encode_mem_inst m ops pc p1 ns =
     (if length ops \<ge> 3 \<and> o_kind (ops ! 2) = OpMem then encode_pair m ops pc p1 ns
      else if length ops < 2 then Inl (Error ''encodeMemInst: need at least 2 operands'')
      else let rt_op = ops ! 0; mem = ops ! 1 in
        if o_kind mem \<noteq> OpMem then Inl (Error ''encodeMemInst: operand 1 is not OpMem'')
        else if is_unscaled_mem_mnemonic m then encode_unscaled_mem m rt_op (o_reg rt_op) mem pc p1 ns
        else case mem_inst_size m (o_kind rt_op) of (size_bits, scale) \<Rightarrow>
          sbind (mem_inst_opc m (o_kind rt_op)) (\<lambda>opc.
            let sh = o_mem_shape mem; s = (if o_shift_amt mem \<noteq> 0 then 1 else 0) in
            if sh = MemBase \<or> sh = MemBaseOff
            then sbind (if sh = MemBaseOff then eval_at (o_expr mem) pc p1 ns else Inr 0) (\<lambda>off.
                   encode_mem_offset m rt_op mem size_bits scale opc off pc p1 ns)
            else if sh = MemBaseOffPre then encode_mem_indexed 3 rt_op mem size_bits opc pc p1 ns
            else if sh = MemBaseOffPost then encode_mem_indexed 1 rt_op mem size_bits opc pc p1 ns
            else if sh = MemBaseIdx then Inr (index_word size_bits opc 0b011 0 mem (o_reg rt_op))
            else if sh = MemBaseIdxShifted then Inr (index_word size_bits opc 0b011 s mem (o_reg rt_op))
            else if sh = MemBaseIdxExtended
            then Inr (index_word size_bits opc (ucast (o_extend mem)) s mem (o_reg rt_op))
            else Inl (Error ''encodeMemInst: unsupported MemShape'')))"

end
