(* ===== verification/Asm_Special.thy ===== *)
theory Asm_Special
  imports Asm_Insn
begin

text \<open>
  The rest of \<^verbatim>\<open>encodeInst\<close>: shifted and extended registers, shifts and bitfields, barriers and the
  system instructions, and the dispatch that puts all encoders together.
\<close>

section \<open>Shifted and extended registers\<close>

definition is_shifted_reg_mnemonic :: "u16 \<Rightarrow> bool" where
  "is_shifted_reg_mnemonic m = (m \<in> set [1, 2, 14, 15, 16, 45, 46, 47, 80, 98])"

definition is_plain_gpr :: "u8 \<Rightarrow> bool" where
  "is_plain_gpr k = (k = OpRegX \<or> k = OpRegW \<or> k = OpRegXSP \<or> k = OpRegWSP)"

text \<open>\<open>opc\<close>, the \<open>N\<close> bit and whether the group is the logical one.\<close>

definition shifted_reg_fields :: "u16 \<Rightarrow> (u32 \<times> u32 \<times> bool) res" where
  "shifted_reg_fields m =
     (if m = 1 then Inr (0b00, 0, False)
      else if m = 2 then Inr (0b10, 0, False)
      else if m = 14 then Inr (0b00, 0, True)
      else if m = 15 then Inr (0b01, 0, True)
      else if m = 16 then Inr (0b10, 0, True)
      else if m = 45 then Inr (0b11, 0, False)
      else if m = 98 then Inr (0b01, 0, False)
      else if m = 46 then Inr (0b11, 0, True)
      else if m = 47 then Inr (0b00, 1, True)
      else if m = 80 then Inr (0b11, 0, True)
      else Inl (Error ''shiftedReg: unsupported mnemonic id''))"

definition shifted_reg_word :: "u32 \<Rightarrow> u32 \<Rightarrow> u32 \<Rightarrow> bool \<Rightarrow> u8 \<Rightarrow> u8 \<Rightarrow> u32 \<Rightarrow> u8 \<Rightarrow> u8 \<Rightarrow> u32" where
  "shifted_reg_word sf opc n_bit logical kind rm amt rn rd =
     push_bit 31 sf OR push_bit 29 opc OR push_bit 24 (if logical then 0b01010 else 0b01011)
     OR push_bit 22 (ucast kind) OR push_bit 21 n_bit OR push_bit 16 (ucast rm)
     OR push_bit 10 amt OR push_bit 5 (ucast rn) OR ucast rd"

text \<open>\<^verbatim>\<open>tst\<close> has no destination.\<close>

definition encode_shifted_reg :: "u16 \<Rightarrow> operand list \<Rightarrow> i64 \<Rightarrow> pass1_result \<Rightarrow> bytes list \<Rightarrow> u32 res" where
  "encode_shifted_reg m ops pc p1 ns =
     (if length ops < (if m = 46 then 2 else 3) then Inl (Error ''encodeShiftedRegInst: operands'')
      else case (if m = 46 then (31, o_reg (ops ! 0), ops ! 1) else (o_reg (ops ! 0), o_reg (ops ! 1), ops ! 2)) of
        (rd, rn, sr) \<Rightarrow>
          if o_kind sr \<noteq> OpShiftedReg then Inl (Error ''encodeShiftedRegInst: shifted-reg operand is not OpShiftedReg'')
          else sbind (eval_at (o_amt_expr sr) pc p1 ns) (\<lambda>amt.
            if sint amt < 0 \<or> sint amt > 63 then Inl (Error ''shift amount out of range'')
            else sbind (shifted_reg_fields m) (\<lambda>(opc, n_bit, logical).
              Inr (shifted_reg_word (if o_width sr = 1 then 1 else 0) opc n_bit logical (o_shift_kind sr)
                (o_reg sr) (ucast amt) rn rd))))"

definition extended_reg_fields :: "u16 \<Rightarrow> (u32 \<times> u32) res" where
  "extended_reg_fields m =
     (if m = 1 then Inr (1, 0b00) else if m = 2 then Inr (1, 0b10)
      else Inl (Error ''extendedReg: unsupported mnemonic id''))"

definition encode_extended_reg :: "u16 \<Rightarrow> operand list \<Rightarrow> i64 \<Rightarrow> pass1_result \<Rightarrow> bytes list \<Rightarrow> u32 res" where
  "encode_extended_reg m ops pc p1 ns =
     (if length ops < 3 then Inl (Error ''encodeExtendedRegInst: need 3 operands'')
      else let er = ops ! 2 in
        if o_kind er \<noteq> OpExtendedReg then Inl (Error ''encodeExtendedRegInst: operand 2 is not OpExtendedReg'')
        else sbind (if o_amt_expr er \<noteq> [] then eval_at (o_amt_expr er) pc p1 ns else Inr 0) (\<lambda>amt.
          if sint amt < 0 \<or> sint amt > 4 then Inl (Error ''extend shift amount out of range'')
          else sbind (extended_reg_fields m) (\<lambda>(sf, opc).
            Inr (push_bit 31 sf OR push_bit 29 opc OR push_bit 24 0b01011 OR push_bit 21 1
              OR push_bit 16 (ucast (o_reg er)) OR push_bit 13 (ucast (o_extend er))
              OR push_bit 10 (ucast amt) OR push_bit 5 (ucast (o_reg (ops ! 1))) OR ucast (o_reg (ops ! 0))))))"

section \<open>Shifts and bitfields\<close>

definition reg_size :: "bool \<Rightarrow> i64" where
  "reg_size is64 = (if is64 then 64 else 32)"

definition bitfield_word :: "u32 \<Rightarrow> u32 \<Rightarrow> u32 \<Rightarrow> u8 \<Rightarrow> u8 \<Rightarrow> u32" where
  "bitfield_word base immr imms rn rd =
     base OR push_bit 16 immr OR push_bit 10 imms OR push_bit 5 (ucast rn) OR ucast rd"

text \<open>\<^verbatim>\<open>uint32(x) & 0x3F\<close>.\<close>

definition low6 :: "i64 \<Rightarrow> u32" where
  "low6 v = ucast v AND 0x3F"

definition encode_lsl_lsr :: "u16 \<Rightarrow> operand list \<Rightarrow> i64 \<Rightarrow> pass1_result \<Rightarrow> bytes list \<Rightarrow> u32 res" where
  "encode_lsl_lsr m ops pc p1 ns =
     (if length ops < 3 then Inl (Error ''lsl/lsr: need 3 operands'')
      else let rd = ops ! 0; rn = ops ! 1; imm_op = ops ! 2; is64 = o_kind rd = OpRegX in
        if o_kind imm_op = OpRegX \<or> o_kind imm_op = OpRegW
        then Inr ((if m = 17 then (if is64 then 0x9ac02000 else 0x1ac02000)
                   else (if is64 then 0x9ac02400 else 0x1ac02400))
               OR push_bit 16 (ucast (o_reg imm_op)) OR push_bit 5 (ucast (o_reg rn)) OR ucast (o_reg rd))
        else if o_kind imm_op \<noteq> OpImmExpr then Inl (Error ''lsl/lsr: operand 2 must be an immediate or register'')
        else sbind (eval_at (o_expr imm_op) pc p1 ns) (\<lambda>shift.
          if sint shift < 0 \<or> sint shift \<ge> sint (reg_size is64) then Inl (Error ''lsl/lsr: shift out of range'')
          else Inr (bitfield_word (if is64 then 0xd3400000 else 0x53000000)
            (if m = 17 then low6 ((- shift) AND (reg_size is64 - 1)) else low6 shift)
            (if m = 17 then low6 (reg_size is64 - 1 - shift) else low6 (reg_size is64 - 1))
            (o_reg rn) (o_reg rd))))"

text \<open>\<open>immr\<close>, \<open>imms\<close> and the base word; any other mnemonic leaves all three zero.\<close>

definition bitfield_fields :: "u16 \<Rightarrow> bool \<Rightarrow> i64 \<Rightarrow> i64 \<Rightarrow> u32 \<times> u32 \<times> u32" where
  "bitfield_fields m is64 lsb width =
     (let ins = (low6 ((- lsb) AND (reg_size is64 - 1)), low6 (width - 1));
          ext = (low6 lsb, low6 (lsb + width - 1));
          bfm = (if is64 then 0xb3400000 else 0x33000000) in
      if m = 49 then (fst ins, snd ins, bfm)
      else if m = 50 then (fst ext, snd ext, bfm)
      else if m = 51 then (fst ext, snd ext, if is64 then 0xd3400000 else 0x53000000)
      else if m = 83 then (fst ins, snd ins, bfm)
      else if m = 84 then (fst ext, snd ext, if is64 then 0x93400000 else 0x13000000)
      else (0, 0, 0))"

definition encode_bitfield :: "u16 \<Rightarrow> operand list \<Rightarrow> i64 \<Rightarrow> pass1_result \<Rightarrow> bytes list \<Rightarrow> u32 res" where
  "encode_bitfield m ops pc p1 ns =
     (if length ops < (if m = 83 then 3 else 4) then Inl (Error ''bitfield: operands'')
      else case (if m = 83 then (31, ops ! 1, ops ! 2) else (o_reg (ops ! 1), ops ! 2, ops ! 3)) of
        (rn, lsb_op, width_op) \<Rightarrow>
          if o_kind lsb_op \<noteq> OpImmExpr \<or> o_kind width_op \<noteq> OpImmExpr
          then Inl (Error ''bitfield: lsb and width must be immediates'')
          else sbind (eval_at (o_expr lsb_op) pc p1 ns) (\<lambda>lsb.
            sbind (eval_at (o_expr width_op) pc p1 ns) (\<lambda>width.
              let is64 = o_kind (ops ! 0) = OpRegX in
              if sint lsb < 0 \<or> sint lsb \<ge> sint (reg_size is64) then Inl (Error ''bitfield: lsb out of range'')
              else if sint width < 1 \<or> sint width > sint (reg_size is64) - sint lsb
              then Inl (Error ''bitfield: width out of range'')
              else case bitfield_fields m is64 lsb width of (immr, imms, base) \<Rightarrow>
                Inr (bitfield_word base immr imms rn (o_reg (ops ! 0))))))"

definition encode_bic_imm :: "operand list \<Rightarrow> i64 \<Rightarrow> pass1_result \<Rightarrow> bytes list \<Rightarrow> u32 res" where
  "encode_bic_imm ops pc p1 ns =
     (if length ops < 3 then Inl (Error ''bic-imm: need 3 operands'')
      else sbind (eval_at (o_expr (ops ! 2)) pc p1 ns) (\<lambda>v.
        let is64 = o_kind (ops ! 0) = OpRegX in
        case encode_logical_imm logical_slot (NOT v) is64 of
          Inl _ \<Rightarrow> Inl (Error ''bic-imm: cannot encode as logical immediate'')
        | Inr bits \<Rightarrow> Inr ((if is64 then 0x92000000 else 0x12000000) OR bits
            OR push_bit 5 (ucast (o_reg (ops ! 1))) OR ucast (o_reg (ops ! 0)))))"

definition encode_csetm :: "operand list \<Rightarrow> u32 res" where
  "encode_csetm ops =
     (if length ops < 2 then Inl (Error ''csetm: need 2 operands'')
      else if o_kind (ops ! 1) \<noteq> OpCond then Inl (Error ''csetm: operand 1 must be a condition code'')
      else Inr ((if o_kind (ops ! 0) = OpRegX then 0xda9f03e0 else 0x5a9f03e0)
        OR push_bit 12 (ucast (o_cond (ops ! 1)) XOR 1) OR ucast (o_reg (ops ! 0))))"

definition encode_ror_imm :: "operand list \<Rightarrow> i64 \<Rightarrow> pass1_result \<Rightarrow> bytes list \<Rightarrow> u32 res" where
  "encode_ror_imm ops pc p1 ns =
     (if length ops < 3 then Inl (Error ''ror imm: need 3 operands'')
      else if o_kind (ops ! 2) \<noteq> OpImmExpr then Inl (Error ''ror imm: operand 2 must be an immediate'')
      else sbind (eval_at (o_expr (ops ! 2)) pc p1 ns) (\<lambda>shift.
        let is64 = o_kind (ops ! 0) = OpRegX; rn = ucast (o_reg (ops ! 1)) in
        if sint shift < 0 \<or> sint shift \<ge> sint (reg_size is64) then Inl (Error ''ror imm: shift out of range'')
        else Inr ((if is64 then 0x93c00000 else 0x13800000) OR push_bit 16 rn OR push_bit 10 (ucast shift)
          OR push_bit 5 rn OR ucast (o_reg (ops ! 0)))))"

section \<open>Barriers and system instructions\<close>

definition encode_barrier :: "u16 \<Rightarrow> operand list \<Rightarrow> i64 \<Rightarrow> pass1_result \<Rightarrow> bytes list \<Rightarrow> u32 res" where
  "encode_barrier m ops pc p1 ns =
     (if length ops < 1 then Inl (Error ''barrier: need 1 operand'')
      else if o_kind (ops ! 0) \<noteq> OpImmExpr then Inl (Error ''barrier: operand 0 must be an immediate'')
      else sbind (eval_at (o_expr (ops ! 0)) pc p1 ns) (\<lambda>crm.
        if sint crm < 0 \<or> sint crm > 0xf then Inl (Error ''barrier CRm out of range'')
        else if m = 66 then Inr (0xd50330df OR push_bit 8 (ucast crm))
        else if m = 67 then Inr (0xd503309f OR push_bit 8 (ucast crm))
        else if m = 68 then Inr (0xd50330bf OR push_bit 8 (ucast crm))
        else Inl (Error ''barrier: unsupported mnemonic id'')))"

definition sys_reg_encode :: "u32 \<Rightarrow> sys_reg \<Rightarrow> u8 \<Rightarrow> u32" where
  "sys_reg_encode base sr rt =
     base OR push_bit 19 (ucast (sr_op0 sr AND 1)) OR push_bit 16 (ucast (sr_op1 sr))
     OR push_bit 12 (ucast (sr_crn sr)) OR push_bit 8 (ucast (sr_crm sr))
     OR push_bit 5 (ucast (sr_op2 sr)) OR ucast rt"

definition encode_mrs :: "operand list \<Rightarrow> u32 res" where
  "encode_mrs ops =
     (if length ops < 2 then Inl (Error ''mrs: need 2 operands'')
      else if o_kind (ops ! 0) \<noteq> OpRegX then Inl (Error ''mrs: operand 0 must be Xt'')
      else if o_kind (ops ! 1) \<noteq> OpSysName then Inl (Error ''mrs: operand 1 must be a system register name'')
      else case parse_sys_reg (string_of_bytes (o_str (ops ! 1))) of
        None \<Rightarrow> Inl (Error ''mrs: unknown system register'')
      | Some sr \<Rightarrow> Inr (sys_reg_encode 0xd5300000 sr (o_reg (ops ! 0))))"

definition encode_msr :: "operand list \<Rightarrow> i64 \<Rightarrow> pass1_result \<Rightarrow> bytes list \<Rightarrow> u32 res" where
  "encode_msr ops pc p1 ns =
     (if length ops < 2 then Inl (Error ''msr: need 2 operands'')
      else if o_kind (ops ! 0) \<noteq> OpSysName
      then Inl (Error ''msr: operand 0 must be a system register or PSTATE field name'')
      else let name = string_of_bytes (o_str (ops ! 0)) in
        if o_kind (ops ! 1) = OpRegX
        then (case parse_sys_reg name of
                None \<Rightarrow> Inl (Error ''msr (register): unknown system register'')
              | Some sr \<Rightarrow> Inr (sys_reg_encode 0xd5100000 sr (o_reg (ops ! 1))))
        else if o_kind (ops ! 1) = OpImmExpr
        then (case parse_pstate name of
                None \<Rightarrow> Inl (Error ''msr (immediate): unknown PSTATE field'')
              | Some pf \<Rightarrow>
                  sbind (eval_at (o_expr (ops ! 1)) pc p1 ns) (\<lambda>v.
                    if sint v < 0 \<or> sint v > 0xf then Inl (Error ''msr (immediate): out of range'')
                    else Inr (0xd500401f OR push_bit 16 (ucast (ps_op1 pf)) OR push_bit 8 (ucast v)
                      OR push_bit 5 (ucast (ps_op2 pf)))))
        else Inl (Error ''msr: operand 1 must be a register or immediate''))"

definition sys_word :: "sys_op \<Rightarrow> u8 \<Rightarrow> u32" where
  "sys_word op rt =
     0xd5080000 OR push_bit 16 (ucast (so_op1 op)) OR push_bit 12 (ucast (so_crn op))
     OR push_bit 8 (ucast (so_crm op)) OR push_bit 5 (ucast (so_op2 op)) OR ucast rt"

definition encode_dc :: "operand list \<Rightarrow> u32 res" where
  "encode_dc ops =
     (if length ops < 2 then Inl (Error ''dc: need 2 operands'')
      else if o_kind (ops ! 0) \<noteq> OpSysName then Inl (Error ''dc: operand 0 must be op name'')
      else if o_kind (ops ! 1) \<noteq> OpRegX then Inl (Error ''dc: operand 1 must be Xt'')
      else case parse_dc (string_of_bytes (o_str (ops ! 0))) of
        None \<Rightarrow> Inl (Error ''dc: unknown op'')
      | Some op \<Rightarrow> Inr (sys_word op (o_reg (ops ! 1))))"

definition encode_tlbi :: "operand list \<Rightarrow> u32 res" where
  "encode_tlbi ops =
     (if length ops < 1 then Inl (Error ''tlbi: need at least 1 operand'')
      else if o_kind (ops ! 0) \<noteq> OpSysName then Inl (Error ''tlbi: operand 0 must be op name'')
      else case parse_tlbi (string_of_bytes (o_str (ops ! 0))) of
        None \<Rightarrow> Inl (Error ''tlbi: unknown op'')
      | Some op \<Rightarrow>
          if length ops \<ge> 2
          then if o_kind (ops ! 1) \<noteq> OpRegX then Inl (Error ''tlbi: operand 1 must be Xt'')
               else if \<not> so_needs_xt op then Inl (Error ''tlbi: op does not take a register operand'')
               else Inr (sys_word op (o_reg (ops ! 1)))
          else if so_needs_xt op then Inl (Error ''tlbi: op requires an Xt operand'')
          else Inr (sys_word op 31))"

section \<open>The form table\<close>

definition operand_value0 :: operand_value where
  "operand_value0 = \<lparr>reg = 0, imm = 0, shift_kind = 0, extend_kind = 0, cond = 0\<rparr>"

text \<open>The immediate of a PC-relative slot is the distance; the slot is missing for a surplus operand.\<close>

definition slot_value :: "operand_slot list \<Rightarrow> nat \<Rightarrow> i64 \<Rightarrow> i64 \<Rightarrow> i64" where
  "slot_value ss i v pc =
     (if i < length ss
      then case slot_kind (ss ! i) of
             BranchImm26 \<Rightarrow> v - pc | BranchImm19 \<Rightarrow> v - pc | BranchImm14 \<Rightarrow> v - pc
           | AdrpImm \<Rightarrow> adrp_diff v pc
           | AdrImm \<Rightarrow> v - pc
           | _ \<Rightarrow> v
      else v)"

fun operands_to_values ::
  "operand list \<Rightarrow> nat \<Rightarrow> i64 \<Rightarrow> pass1_result \<Rightarrow> bytes list \<Rightarrow> form \<Rightarrow> operand_value list res" where
  "operands_to_values [] i pc p1 ns f = Inr []"
| "operands_to_values (o' # os) i pc p1 ns f =
     sbind
       (if is_plain_gpr (o_kind o') then Inr (operand_value0\<lparr>reg := o_reg o'\<rparr>)
        else if o_kind o' = OpImmExpr
        then sbind (eval_at (o_expr o') pc p1 ns) (\<lambda>v. Inr (operand_value0\<lparr>imm := slot_value (slots f) i v pc\<rparr>))
        else if o_kind o' = OpCond then Inr (operand_value0\<lparr>cond := o_cond o'\<rparr>)
        else Inl (Error ''operandsToValues: unsupported kind''))
       (\<lambda>v. sbind (operands_to_values os (Suc i) pc p1 ns f) (\<lambda>vs. Inr (v # vs)))"

definition encode_form :: "u16 \<Rightarrow> operand list \<Rightarrow> i64 \<Rightarrow> pass1_result \<Rightarrow> bytes list \<Rightarrow> u32 res" where
  "encode_form m ops pc p1 ns =
     sbind (validate_operand_kinds m (map o_kind ops)) (\<lambda>f.
       sbind (operands_to_values ops 0 pc p1 ns f) (encode f))"

section \<open>Dispatch\<close>

text \<open>A plain register in the place of a shifted one: \<^verbatim>\<open>lsl #0\<close>, at the width of the first operand.\<close>

definition as_shifted :: "operand \<Rightarrow> operand \<Rightarrow> operand" where
  "as_shifted k0 o' = o'\<lparr>o_kind := OpShiftedReg, o_shift_kind := 0,
     o_width := (if o_kind k0 = OpRegX then 1 else 0), o_amt_expr := write_imm [] 0\<rparr>"

definition is_reg_imm :: "operand list \<Rightarrow> bool" where
  "is_reg_imm ops = (length ops = 2 \<and> (o_kind (ops ! 0) = OpRegX \<or> o_kind (ops ! 0) = OpRegW)
     \<and> o_kind (ops ! 1) = OpImmExpr)"

definition third_is_imm :: "operand list \<Rightarrow> bool" where
  "third_is_imm ops = (length ops \<ge> 3 \<and> o_kind (ops ! 2) = OpImmExpr)"

definition encode_special :: "u16 \<Rightarrow> operand list \<Rightarrow> i64 \<Rightarrow> pass1_result \<Rightarrow> bytes list \<Rightarrow> u32 res" where
  "encode_special m ops pc p1 ns =
     (if m = 17 \<or> m = 18 then encode_lsl_lsr m ops pc p1 ns
      else if m \<in> set [49, 50, 51, 83, 84] then encode_bitfield m ops pc p1 ns
      else if m = 47 \<and> third_is_imm ops then encode_bic_imm ops pc p1 ns
      else if m = 52 then encode_csetm ops
      else if m = 66 \<or> m = 67 \<or> m = 68 then encode_barrier m ops pc p1 ns
      else if m = 70 \<and> third_is_imm ops then encode_ror_imm ops pc p1 ns
      else if m = 76 then encode_mrs ops
      else if m = 77 then encode_msr ops pc p1 ns
      else if m = 78 then encode_dc ops
      else if m = 79 then encode_tlbi ops
      else encode_form m ops pc p1 ns)"

text \<open>The first compound operand decides.\<close>

definition compound_kind :: "operand list \<Rightarrow> u8 option" where
  "compound_kind ops = find (\<lambda>k. k \<in> set [OpMem, OpShiftedReg, OpExtendedReg, OpLitPool]) (map o_kind ops)"

definition encode_operands :: "u16 \<Rightarrow> operand list \<Rightarrow> i64 \<Rightarrow> pass1_result \<Rightarrow> bytes list \<Rightarrow> u32 res" where
  "encode_operands m ops pc p1 ns =
     (case compound_kind ops of
        Some k \<Rightarrow>
          if k = OpMem then encode_mem_inst m ops pc p1 ns
          else if k = OpShiftedReg then encode_shifted_reg m ops pc p1 ns
          else if k = OpExtendedReg then encode_extended_reg m ops pc p1 ns
          else encode_ldr_lit_pool ops pc p1
      | None \<Rightarrow>
          if length ops = 3 \<and> is_shifted_reg_mnemonic m \<and> is_plain_gpr (o_kind (ops ! 0))
             \<and> is_plain_gpr (o_kind (ops ! 1)) \<and> is_plain_gpr (o_kind (ops ! 2))
          then encode_shifted_reg m [ops ! 0, ops ! 1, as_shifted (ops ! 0) (ops ! 2)] pc p1 ns
          else if length ops = 2 \<and> m = 46 \<and> is_plain_gpr (o_kind (ops ! 0)) \<and> is_plain_gpr (o_kind (ops ! 1))
          then encode_shifted_reg m [ops ! 0, as_shifted (ops ! 0) (ops ! 1)] pc p1 ns
          else sbind (if m = mnem ''mov'' \<and> is_reg_imm ops then try_encode_mov_imm ops pc p1 ns else Inr None)
            (\<lambda>w. case w of
               Some word \<Rightarrow> Inr word
             | None \<Rightarrow>
                 if m = mnem ''ldr'' \<and> is_reg_imm ops then encode_ldr_lit_direct ops pc p1 ns
                 else if m = 22 \<or> m = 23 then encode_tbz m ops pc p1 ns
                 else encode_special m ops pc p1 ns))"

definition encode_inst :: "tbn_record \<Rightarrow> i64 \<Rightarrow> pass1_result \<Rightarrow> bytes list \<Rightarrow> u32 res" where
  "encode_inst rec pc p1 ns =
     sbind (read_operands (operands rec)) (\<lambda>ops. encode_operands (r_mnemonic rec) ops pc p1 ns)"

end
