(* ===== verification/Asm_Pass2.thy ===== *)
theory Asm_Pass2
  imports Asm_Pass1 Asm_Special
begin

text \<open>
  Pass 2, \<^verbatim>\<open>Pass2WithMap\<close> of \<^verbatim>\<open>tools/sam-aarch64/assemble/pass2.go\<close>: the records again, now with
  every symbol known, emitting the image and the list of its instruction words.

  \<^verbatim>\<open>make([]byte, n)\<close> panics for a negative \<open>n\<close>; memory is unbounded here.
\<close>

section \<open>State\<close>

record code_word =
  cw_off :: nat
  cw_pc :: i64
  cw_word :: u32
  cw_rec :: nat

record pass2_state =
  e_out :: bytes
  e_cmap :: "code_word list"
  e_pc :: i64
  e_origin :: i64

definition put_bytes :: "bytes \<Rightarrow> pass2_state \<Rightarrow> pass2_state" where
  "put_bytes bs s = s\<lparr>e_out := e_out s @ bs, e_pc := e_pc s + of_nat (length bs)\<rparr>"

definition make_zeros :: "i64 \<Rightarrow> bytes res" where
  "make_zeros n = (if sint n < 0 then Inl Panic else Inr (replicate (unat n) 0))"

section \<open>Directives\<close>

function imms_as_bytes :: "bytes \<Rightarrow> eval_context \<Rightarrow> nat \<Rightarrow> bytes res" where
  "imms_as_bytes buf ctx k =
     (if buf = [] then Inr []
      else case operand_next buf of
        Inl e \<Rightarrow> Inl e
      | Inr (o', rest) \<Rightarrow>
          sbind (eval_usage (o_expr o') ctx) (\<lambda>v.
            sbind (imms_as_bytes rest ctx k) (\<lambda>bs. Inr (le_put k v @ bs))))"
  by pat_completeness auto
termination
  by (relation "measure (\<lambda>(buf, ctx, k). length buf)") (auto dest: operand_next_shorter)

declare imms_as_bytes.simps [simp del]

text \<open>Zeros up to a word boundary, then \<^verbatim>\<open>nop\<close>s, then zeros.\<close>

abbreviation nop_word :: u32 where "nop_word \<equiv> 0xd503201f"

fun pad_nops :: "nat \<Rightarrow> bytes" where
  "pad_nops n = (if n \<ge> 4 then put_u32 nop_word @ pad_nops (n - 4) else replicate n 0)"

declare pad_nops.simps [simp del]

fun pad_bytes :: "u64 \<Rightarrow> nat \<Rightarrow> bytes" where
  "pad_bytes cur 0 = []"
| "pad_bytes cur (Suc n) = (if cur mod 4 \<noteq> 0 then 0 # pad_bytes (cur + 1) n else pad_nops (Suc n))"

definition align_pad_bytes :: "i64 \<Rightarrow> i64 \<Rightarrow> bytes" where
  "align_pad_bytes pc pad = (if sint pad \<le> 0 then [] else pad_bytes pc (unat pad))"

definition encode_directive :: "tbn_record \<Rightarrow> i64 \<Rightarrow> pass1_result \<Rightarrow> bytes list \<Rightarrow> bytes res" where
  "encode_directive rec pc p1 ns =
     (let name = directive_name (directive_id rec); ctx = make_ctx pc p1 ns;
          arg = sbind (first_operand (operands rec)) (\<lambda>o'. eval_usage (o_expr o') ctx) in
      if name = ''.byte'' then imms_as_bytes (operands rec) ctx 1
      else if name = ''.short'' \<or> name = ''.hword'' then imms_as_bytes (operands rec) ctx 2
      else if name = ''.word'' then imms_as_bytes (operands rec) ctx 4
      else if name = ''.quad'' then imms_as_bytes (operands rec) ctx 8
      else if name = ''.ascii'' then sbind (first_operand (operands rec)) (\<lambda>o'. Inr (o_str o'))
      else if name = ''.asciz'' then sbind (first_operand (operands rec)) (\<lambda>o'. Inr (o_str o' @ [0]))
      else if name = ''.inst'' then sbind arg (\<lambda>v. Inr (put_u32 (ucast v)))
      else if name \<in> set silent_directives then Inr []
      else if name = ''.balign'' then sbind arg (\<lambda>a. sbind (balign_pad a pc) (\<lambda>pad. Inr (align_pad_bytes pc pad)))
      else if name = ''.align'' then sbind arg (\<lambda>a. sbind (align_pow_pad a pc) (\<lambda>pad. Inr (align_pad_bytes pc pad)))
      else if name = ''.skip'' \<or> name = ''.space'' then sbind arg make_zeros
      else Inl (Error ''encodeDirective: not yet supported''))"

section \<open>The literal pool\<close>

fun emit_entries :: "nat \<Rightarrow> nat list \<Rightarrow> pass1_result \<Rightarrow> bytes list \<Rightarrow> pass2_state \<Rightarrow> pass2_state res" where
  "emit_entries w [] p1 ns s = Inr s"
| "emit_entries w (i # is) p1 ns s =
     (let e = p1_pool p1 ! i in
      sbind (eval_at (pe_expr e) (pe_eval_pc e) p1 ns) (\<lambda>v. emit_entries w is p1 ns (put_bytes (le_put w v) s)))"

definition pad_to :: "u64 \<Rightarrow> pass2_state \<Rightarrow> pass2_state" where
  "pad_to n s = (if e_pc s mod n \<noteq> 0 then put_bytes (replicate (unat (n - e_pc s mod n)) 0) s else s)"

definition emit_flush :: "pass1_result \<Rightarrow> bytes list \<Rightarrow> pass2_state \<Rightarrow> pass2_state res" where
  "emit_flush p1 ns s =
     (case p1_flush_entries p1 (e_pc s) of
        None \<Rightarrow> Inr s
      | Some is \<Rightarrow>
          if \<exists>i\<in>set is. i \<ge> length (p1_pool p1) then Inl Panic
          else let fs = fours (p1_pool p1) is; es = eights (p1_pool p1) is;
                   after = (case p1_flush_at p1 (e_pc s) of None \<Rightarrow> 0 | Some a \<Rightarrow> a) in
            sbind (emit_entries 4 fs p1 ns (if fs \<noteq> [] then pad_to 4 s else s)) (\<lambda>s1.
              sbind (emit_entries 8 es p1 ns (if es \<noteq> [] then pad_to 8 s1 else s1)) (\<lambda>s2.
                if e_pc s2 \<noteq> after then Inl (Error ''pool flush mismatch'') else Inr s2)))"

section \<open>Records\<close>

definition emit_word :: "nat \<Rightarrow> u32 \<Rightarrow> pass2_state \<Rightarrow> pass2_state" where
  "emit_word ri w s =
     (put_bytes (put_u32 w) s)\<lparr>e_cmap := e_cmap s @ [\<lparr>cw_off = length (e_out s), cw_pc = e_pc s, cw_word = w, cw_rec = ri\<rparr>]\<rparr>"

text \<open>The word of an overlay element: the base word with every patch folded in.\<close>

definition patch_value :: "insn_patch \<Rightarrow> i64 \<Rightarrow> pass1_result \<Rightarrow> bytes list \<Rightarrow> i64 res" where
  "patch_value p pc p1 ns =
     (if patch_slot p = FoldLitpool19
      then (case p1_ldr_idx p1 pc of
              None \<Rightarrow> Inl (Error ''INSN_RUN litpool patch with no pool index'')
            | Some idx \<Rightarrow> if idx \<ge> length (p1_pool p1) then Inl Panic else Inr (pe_pc (p1_pool p1 ! idx)))
      else eval_at (patch_expr p) pc p1 ns)"

fun fold_patches :: "insn_patch list \<Rightarrow> u32 \<Rightarrow> u32 \<Rightarrow> i64 \<Rightarrow> pass1_result \<Rightarrow> bytes list \<Rightarrow> u32 res" where
  "fold_patches [] base word pc p1 ns = Inr word"
| "fold_patches (p # ps) base word pc p1 ns =
     sbind (patch_value p pc p1 ns) (\<lambda>v.
       sbind (fold_slot (patch_slot p) v pc base) (\<lambda>bits. fold_patches ps base (word OR bits) pc p1 ns))"

definition element_word :: "insn_element \<Rightarrow> i64 \<Rightarrow> pass1_result \<Rightarrow> bytes list \<Rightarrow> u32 res" where
  "element_word el pc p1 ns = fold_patches (patches el) (base_word el) (base_word el) pc p1 ns"

fun emit_elements :: "nat \<Rightarrow> insn_element list \<Rightarrow> pass1_result \<Rightarrow> bytes list \<Rightarrow> pass2_state \<Rightarrow> pass2_state res" where
  "emit_elements ri [] p1 ns s = Inr s"
| "emit_elements ri (el # els) p1 ns s =
     sbind (element_word el (e_pc s) p1 ns) (\<lambda>w. emit_elements ri els p1 ns (emit_word ri w s))"

text \<open>The code words of a literal run; \<^verbatim>\<open>Uint32\<close> panics when the bytes run out.\<close>

fun lit_code_words :: "nat \<Rightarrow> bytes \<Rightarrow> nat \<Rightarrow> i64 \<Rightarrow> nat \<Rightarrow> code_word list res" where
  "lit_code_words 0 ws off pc ri = Inr []"
| "lit_code_words (Suc n) ws off pc ri =
     (if length ws < 4 then Inl Panic
      else sbind (lit_code_words n (drop 4 ws) (off + 4) (pc + 4) ri) (\<lambda>cws.
        Inr (\<lparr>cw_off = off, cw_pc = pc, cw_word = le_get (take 4 ws), cw_rec = ri\<rparr> # cws)))"

definition emit_lit_insts :: "nat \<Rightarrow> tbn_record \<Rightarrow> pass2_state \<Rightarrow> pass2_state res" where
  "emit_lit_insts ri rec s =
     sbind (lit_code_words (unat (lit_count rec)) (lit_words rec) (length (e_out s)) (e_pc s) ri) (\<lambda>cws.
       Inr (s\<lparr>e_cmap := e_cmap s @ cws, e_out := e_out s @ lit_words rec, e_pc := e_pc s + 4 * ucast (lit_count rec)\<rparr>))"

definition emit_org :: "tbn_record \<Rightarrow> pass1_result \<Rightarrow> bytes list \<Rightarrow> pass2_state \<Rightarrow> pass2_state res" where
  "emit_org rec p1 ns s =
     sbind (first_operand (operands rec)) (\<lambda>o'.
       sbind (eval_at (o_expr o') (e_pc s) p1 ns) (\<lambda>target.
         if e_out s = [] \<and> e_pc s = e_origin s \<and> e_origin s = 0 \<and> target \<noteq> 0
         then Inr (s\<lparr>e_pc := target, e_origin := target\<rparr>)
         else if target < e_pc s then Inl (Error ''.org: backward .org not allowed'')
         else let pad = target - e_pc s in
           if sint pad > 0 then Inr (s\<lparr>e_out := e_out s @ replicate (unat pad) 0, e_pc := target\<rparr>) else Inr s))"

definition emit_directive :: "tbn_record \<Rightarrow> pass1_result \<Rightarrow> bytes list \<Rightarrow> pass2_state \<Rightarrow> pass2_state res" where
  "emit_directive rec p1 ns s =
     (let name = directive_name (directive_id rec) in
      if name = ''.ltorg'' then emit_flush p1 ns s
      else if name = ''.org'' then emit_org rec p1 ns s
      else sbind (encode_directive rec (e_pc s) p1 ns) (\<lambda>bs. Inr (put_bytes bs s)))"

definition emit_record :: "nat \<Rightarrow> tbn_record \<Rightarrow> pass1_result \<Rightarrow> bytes list \<Rightarrow> pass2_state \<Rightarrow> pass2_state res" where
  "emit_record ri rec p1 ns s =
     (if r_kind rec = KindInst then sbind (encode_inst rec (e_pc s) p1 ns) (\<lambda>w. Inr (emit_word ri w s))
      else if r_kind rec = KindLitInsts then emit_lit_insts ri rec s
      else if r_kind rec = KindLitData then Inr (put_bytes (lit_data rec) s)
      else if r_kind rec = KindInsnRun then emit_elements ri (elements rec) p1 ns s
      else if r_kind rec = KindDirective then emit_directive rec p1 ns s
      else Inr s)"

fun emit_records :: "nat \<Rightarrow> tbn_record list \<Rightarrow> pass1_result \<Rightarrow> bytes list \<Rightarrow> pass2_state \<Rightarrow> pass2_state res" where
  "emit_records ri [] p1 ns s = Inr s"
| "emit_records ri (rec # recs) p1 ns s = sbind (emit_record ri rec p1 ns s) (emit_records (Suc ri) recs p1 ns)"

definition pass2_init :: "pass1_result \<Rightarrow> pass2_state" where
  "pass2_init p1 = \<lparr>e_out = [], e_cmap = [], e_pc = p1_origin p1, e_origin = p1_origin p1\<rparr>"

definition pass2_with_map :: "tbn_file \<Rightarrow> pass1_result \<Rightarrow> (bytes \<times> code_word list) res" where
  "pass2_with_map f p1 =
     sbind (emit_records 0 (f_records f) p1 (f_names f) (pass2_init p1)) (\<lambda>s.
       sbind (emit_flush p1 (f_names f) s) (\<lambda>s. Inr (e_out s, e_cmap s)))"

definition pass2 :: "tbn_file \<Rightarrow> pass1_result \<Rightarrow> bytes res" where
  "pass2 f p1 = sbind (pass2_with_map f p1) (\<lambda>(out, cmap). Inr out)"

end
