(* ===== verification/Asm_Emit.thy ===== *)
theory Asm_Emit
  imports Asm_Layout Asm_Pass2
begin

text \<open>
  The output of pass 2 by itself: how many bytes each operation appends, and that the list of
  instruction words describes the bytes of the image.
\<close>

section \<open>Evaluation in a larger context\<close>

definition ctx_le :: "eval_context \<Rightarrow> eval_context \<Rightarrow> bool" where
  "ctx_le c d \<longleftrightarrow> ctx_pc d = ctx_pc c
     \<and> (\<forall>n v. resolve_symbol c n = Inr v \<longrightarrow> resolve_symbol d n = Inr v)
     \<and> (\<forall>digit dir v. resolve_local c digit dir = Inr v \<longrightarrow> resolve_local d digit dir = Inr v)"

lemma eval_step_le: "ctx_le c d \<Longrightarrow> eval_step c op args st = Inr st' \<Longrightarrow> eval_step d op args st = Inr st'"
  unfolding eval_step_def ctx_le_def by (cases "push_value op args") (auto elim!: sbindE split: if_split_asm)

lemma eval_loop_le: "ctx_le c d \<Longrightarrow> eval_loop c buf st = Inr v \<Longrightarrow> eval_loop d buf st = Inr v"
proof (induction c buf st rule: eval_loop.induct)
  case (1 c buf st)
  show ?case
  proof (cases "buf = [] \<or> (\<exists>e. expr_next buf = Inl e)")
    case True
    then show ?thesis using 1(3) by (auto simp: eval_loop.simps [of _ buf] split: if_split_asm)
  next
    case False
    then obtain op args rest where n: "buf \<noteq> []" "expr_next buf = Inr (op, args, rest)"
      by (cases "expr_next buf") auto
    then obtain st' where s: "eval_step c op args st = Inr st'" "eval_loop c rest st' = Inr v"
      using 1(3) by (auto simp: eval_loop.simps [of _ buf] elim!: sbindE)
    from 1(1) [OF n refl refl s(1) 1(2) s(2)] eval_step_le [OF 1(2) s(1)] n show ?thesis
      by (simp add: eval_loop.simps [of _ buf])
  qed
qed

lemma eval_usage_le: "ctx_le c d \<Longrightarrow> eval_usage e c = Inr v \<Longrightarrow> eval_usage e d = Inr v"
  unfolding eval_usage_def eval_def by (rule eval_loop_le)

text \<open>What pass 1 could evaluate, pass 2 evaluates to the same value.\<close>

lemma pass1_ctx_le:
  assumes "\<And>n v. p1_symbols res n = Some v \<Longrightarrow> p1_symbols p1 n = Some v"
  shows "ctx_le (pass1_ctx pc res ns) (make_ctx pc p1 ns)"
  using assms
  by (auto simp: ctx_le_def pass1_ctx_def make_ctx_def resolve_symbol_def resolve_local_def lookup_symbol_def
      elim!: sbindE split: if_split_asm option.split_asm)

section \<open>Sizes\<close>

lemma length_imms: "imms_as_bytes buf ctx k = Inr bs \<Longrightarrow> \<exists>os. read_operands buf = Inr os \<and> length bs = k * length os"
proof (induction buf ctx k arbitrary: bs rule: imms_as_bytes.induct)
  case (1 buf ctx k)
  show ?case
  proof (cases "buf = [] \<or> (\<exists>e. operand_next buf = Inl e)")
    case True
    then show ?thesis using 1(2)
      by (auto simp: imms_as_bytes.simps [of buf] read_operands.simps [of buf] split: if_split_asm)
  next
    case False
    then obtain o1 rest where n: "buf \<noteq> []" "operand_next buf = Inr (o1, rest)"
      by (cases "operand_next buf") auto
    then obtain v bs1 where b: "eval_usage (o_expr o1) ctx = Inr v" "imms_as_bytes rest ctx k = Inr bs1" "bs = le_put k v @ bs1"
      using 1(2) by (auto simp: imms_as_bytes.simps [of buf] elim!: sbindE)
    from 1(1) [OF n refl b(1) b(2)] show ?thesis using n b by (auto simp: read_operands_step algebra_simps)
  qed
qed

lemma length_pad_nops: "length (pad_nops n) = n"
  by (induction n rule: pad_nops.induct) (subst pad_nops.simps, simp)

lemma length_pad_bytes: "length (pad_bytes cur n) = n"
  by (induction cur n rule: pad_bytes.induct) (simp_all add: length_pad_nops)

lemma align_pad_less: "align_pad ua pc = Inr p \<Longrightarrow> unat p < unat ua"
  by (auto simp: align_pad_def unat_mod unat_gt_0 split: if_split_asm)

lemma sint_small: "unat (p :: i64) < 2 ^ 63 \<Longrightarrow> sint p = int (unat p)"
proof -
  assume "unat p < 2 ^ 63"
  then have "int (unat p) < int (2 ^ 63)" by (simp only: of_nat_less_iff)
  then have "uint p < 2 ^ 63" by simp
  moreover have "0 \<le> uint p" by simp
  ultimately have "sint (word_of_int (uint p) :: i64) = uint p" by (intro sint_word_of_int64) linarith+
  then show "sint p = int (unat p)" by simp
qed

lemma length_align:
  assumes "align_pad ua pc = Inr p" and "unat ua \<le> 2 ^ 63"
  shows "length (align_pad_bytes pc p) = unat p"
proof -
  have "sint p = int (unat p)" using align_pad_less [OF assms(1)] assms(2) by (intro sint_small) linarith
  then show ?thesis
    by (cases "unat p = 0") (simp_all only: align_pad_bytes_def length_pad_bytes of_nat_le_0_iff if_True if_False list.size refl)
qed

lemma length_balign:
  assumes "balign_pad a pc = Inr p"
  shows "length (align_pad_bytes pc p) = unat p"
proof (cases "sint a \<le> 1")
  case True
  then show ?thesis using assms by (auto simp: balign_pad_def align_pad_bytes_def)
next
  case False
  then have "uint a < 2 ^ 63" using sint_nonneg_nat [of a] sint_range64(2) [of a] by simp
  then have "int (unat a) \<le> int (2 ^ 63)" by simp
  then have "unat a \<le> 2 ^ 63" by (simp only: of_nat_le_iff)
  then show ?thesis using False assms length_align by (simp add: balign_pad_def)
qed

lemma length_align_pow:
  assumes "align_pow_pad a pc = Inr p"
  shows "length (align_pad_bytes pc p) = unat p"
proof (cases "sint a \<le> 0")
  case True
  then show ?thesis using assms by (auto simp: align_pow_pad_def align_pad_bytes_def)
next
  case False
  have "unat (push_bit k (1 :: u64)) \<le> 2 ^ 63" for k
  proof (cases "k < 64")
    case True
    then have "(2 :: nat) ^ k \<le> 2 ^ 63" by (intro power_increasing) simp_all
    moreover have "(2 :: nat) ^ 63 < 2 ^ 64" by simp
    ultimately have "2 ^ k mod 2 ^ 64 = (2 :: nat) ^ k" by (intro mod_less) (rule le_less_trans)
    then have "unat (push_bit k (1 :: u64)) = 2 ^ k"
      using unat_of_nat [where 'a = 64 and x = "2 ^ k"] by (simp add: push_bit_eq_mult)
    with \<open>(2 :: nat) ^ k \<le> 2 ^ 63\<close> show ?thesis by simp
  next
    case False
    then have "push_bit k (1 :: u64) = 0" by (intro bit_word_eqI) (auto simp: bit_simps)
    then show ?thesis by (simp only: unat_0)
  qed
  then show ?thesis using False assms length_align by (simp add: align_pow_pad_def)
qed

lemma length_make_zeros: "make_zeros n = Inr bs \<Longrightarrow> length bs = unat n"
  by (auto simp: make_zeros_def split: if_split_asm)

lemma unat_of_nat_len: "m < 2 ^ 64 \<Longrightarrow> unat (of_nat m :: u64) = m"
  by (simp add: unat_of_nat)

lemma counted_bytes_length: "take_counted buf = (x, rest) \<Longrightarrow> length x \<le> Suc (length buf)"
  by (auto simp: take_counted_def read_len_def take_bytes_def split: list.splits if_split_asm)

lemma operand_str_length: "operand_next buf = Inr (o', rest) \<Longrightarrow> length (o_str o') \<le> length buf"
  by (auto simp: operand_next_def read_mem_def Let_def operand0_def
      split: list.splits if_split_asm prod.splits elim!: sbindE dest!: counted_bytes_length)

lemma length_directive:
  assumes "encode_directive rec pc p1 ns = Inr bs" and "directive_size rec pc res ns = Inr n" and wf: "wf_record rec"
    and le: "\<And>n v. p1_symbols res n = Some v \<Longrightarrow> p1_symbols p1 n = Some v"
  shows "length bs = unat n"
proof -
  let ?name = "directive_name (directive_id rec)"
  have same: "eval_usage (o_expr o') (make_ctx pc p1 ns) = Inr v" if "eval_usage (o_expr o') (pass1_ctx pc res ns) = Inr v" for o' v
    by (rule eval_usage_le [OF pass1_ctx_le [OF le] that])
  consider (num) k where "data_width (directive_id rec) = Some k"
    | (str) "?name = ''.ascii'' \<or> ?name = ''.asciz''" | (skip) "?name = ''.skip'' \<or> ?name = ''.space''"
    | (inst) "?name = ''.inst''" | (silent) "?name \<in> set silent_directives"
    | (balign) "?name = ''.balign''" | (align) "?name = ''.align''"
    using assms(1) by (auto simp: encode_directive_def Let_def data_width_def split: if_split_asm)
  then show ?thesis
  proof cases
    case num
    then have i: "imms_as_bytes (operands rec) (make_ctx pc p1 ns) k = Inr bs \<and> n = of_nat (k * unat (operand_count rec)) \<and> k \<le> 8"
      using assms(1,2) by (auto simp: encode_directive_def directive_size_def Let_def data_width_def split: if_split_asm)
    then have "length bs = k * unat (operand_count rec)"
      using length_imms [of "operands rec" "make_ctx pc p1 ns" k bs] wf num by (auto simp: wf_record_def count_ok_def)
    moreover have c: "unat (operand_count rec) < 2 ^ LENGTH(8)" by (rule unsigned_less)
    have "k * unat (operand_count rec) < 2 ^ 64"
      using mult_le_mono [of k 8 "unat (operand_count rec)" 256] i c by simp
    ultimately show ?thesis using i by (simp add: unat_of_nat del: of_nat_mult)
  next
    case str
    then obtain o' rest where o': "operand_next (operands rec) = Inr (o', rest)"
      using assms(2) by (auto simp: directive_size_def Let_def elim!: sbindE)
    have b: "length bs = length (o_str o') + (if ?name = ''.asciz'' then 1 else 0)"
        "n = of_nat (length (o_str o') + (if ?name = ''.asciz'' then 1 else 0))"
      using assms(1,2) str o' by (auto simp: encode_directive_def directive_size_def Let_def first_operand_def)
    have "length (o_str o') < 2 ^ 32" using operand_str_length [OF o'] wf by (simp add: wf_record_def)
    then show ?thesis unfolding b by (intro sym [OF unat_of_nat_len]) simp
  next
    case skip
    then obtain o' where o': "first_operand (operands rec) = Inr o'"
      using assms(1) by (cases "first_operand (operands rec)") (auto simp: encode_directive_def Let_def silent_directives_def)
    then have "eval_usage (o_expr o') (pass1_ctx pc res ns) = Inr n"
        "sbind (eval_usage (o_expr o') (make_ctx pc p1 ns)) make_zeros = Inr bs"
      using assms(1,2) skip by (auto simp: encode_directive_def directive_size_def Let_def silent_directives_def)
    then show ?thesis using same [of o' n] length_make_zeros [of n bs] by simp
  next
    case inst
    then show ?thesis using assms(1,2)
      by (auto simp: encode_directive_def directive_size_def Let_def elim!: sbindE)
  next
    case silent
    then show ?thesis using assms(1,2)
      by (auto simp: encode_directive_def directive_size_def Let_def silent_directives_def)
  next
    case balign
    then show ?thesis using assms(1,2)
      by (auto simp: encode_directive_def directive_size_def Let_def silent_directives_def length_balign elim!: sbindE dest: same)
  next
    case align
    then show ?thesis using assms(1,2)
      by (auto simp: encode_directive_def directive_size_def Let_def silent_directives_def length_align_pow elim!: sbindE dest: same)
  qed
qed

section \<open>Literal pools\<close>

lemma emit_entries_state:
  "emit_entries w is p1 ns s = Inr s' \<Longrightarrow>
     \<exists>bs. length bs = w * length is \<and> e_out s' = e_out s @ bs \<and> e_pc s' = e_pc s + of_nat (length bs)
       \<and> e_cmap s' = e_cmap s \<and> e_origin s' = e_origin s"
proof (induction "is" arbitrary: s)
  case (Cons i "is")
  then obtain v :: i64 where "emit_entries w is p1 ns (put_bytes (le_put w v) s) = Inr s'"
    by (auto simp: Let_def elim!: sbindE)
  from Cons.IH [OF this] show ?case by (auto simp: put_bytes_def algebra_simps)
qed auto

lemma pad_to_state: "\<exists>bs. length bs = pad_len n (e_pc s) \<and> pad_to n s = put_bytes bs s"
proof (cases "e_pc s mod n = 0")
  case True
  then show ?thesis by (intro exI [of _ "[]"]) (simp add: pad_to_def pad_len_def put_bytes_def)
next
  case False
  then show ?thesis by (intro exI [of _ "replicate (unat (n - e_pc s mod n)) 0"]) (simp add: pad_to_def pad_len_def)
qed

lemma emit_flush_state:
  assumes "emit_flush p1 ns s = Inr s'"
  shows "\<exists>bs. e_out s' = e_out s @ bs \<and> e_pc s' = e_pc s + of_nat (length bs) \<and> e_cmap s' = e_cmap s \<and> e_origin s' = e_origin s
    \<and> (p1_flush_entries p1 (e_pc s) = None \<longrightarrow> bs = [])
    \<and> (\<forall>is. p1_flush_entries p1 (e_pc s) = Some is \<longrightarrow>
          length bs = flush_len (e_pc s) (length (fours (p1_pool p1) is)) (length (eights (p1_pool p1) is)))"
proof (cases "p1_flush_entries p1 (e_pc s)")
  case None
  then show ?thesis using assms by (intro exI [of _ "[]"]) (simp add: emit_flush_def)
next
  case (Some "is")
  let ?fs = "fours (p1_pool p1) is" let ?es = "eights (p1_pool p1) is"
  let ?s0 = "if ?fs \<noteq> [] then pad_to 4 s else s"
  obtain s1 s2 where 1: "emit_entries 4 ?fs p1 ns ?s0 = Inr s1"
    and 2: "emit_entries 8 ?es p1 ns (if ?es \<noteq> [] then pad_to 8 s1 else s1) = Inr s2" and s': "s' = s2"
    using assms Some by (auto simp: emit_flush_def Let_def elim!: sbindE split: if_split_asm)
  have pad: "\<exists>bs. length bs = (if is' \<noteq> [] then pad_len n (e_pc t) else 0) \<and> (if is' \<noteq> [] then pad_to n t else t) = put_bytes bs t"
    for is' :: "nat list" and n t
    using pad_to_state [of n t] by (auto simp: put_bytes_def)
  obtain b0 where b0: "length b0 = (if ?fs \<noteq> [] then pad_len 4 (e_pc s) else 0)" "?s0 = put_bytes b0 s"
    using pad [of ?fs 4 s] by auto
  obtain b1 where b1: "length b1 = 4 * length ?fs" "e_out s1 = e_out ?s0 @ b1" "e_pc s1 = e_pc ?s0 + of_nat (length b1)"
      "e_cmap s1 = e_cmap ?s0" "e_origin s1 = e_origin ?s0"
    using emit_entries_state [OF 1] by auto
  obtain b2 where b2: "length b2 = (if ?es \<noteq> [] then pad_len 8 (e_pc s1) else 0)" "(if ?es \<noteq> [] then pad_to 8 s1 else s1) = put_bytes b2 s1"
    using pad [of ?es 8 s1] by auto
  obtain b3 where b3: "length b3 = 8 * length ?es" "e_out s2 = e_out (put_bytes b2 s1) @ b3" "e_pc s2 = e_pc (put_bytes b2 s1) + of_nat (length b3)"
      "e_cmap s2 = e_cmap (put_bytes b2 s1)" "e_origin s2 = e_origin (put_bytes b2 s1)"
    using emit_entries_state [OF 2] unfolding b2(2) by blast
  have pc1: "e_pc s1 = e_pc s + of_nat (length b0 + length b1)" using b1(3) by (simp add: b0(2) put_bytes_def)
  have "length (b0 @ b1 @ b2 @ b3) = flush_len (e_pc s) (length ?fs) (length ?es)"
    using b2(1) b0(1) b1(1) b3(1) unfolding pc1 by (simp add: flush_len_def Let_def)
  moreover have "e_out s' = e_out s @ (b0 @ b1 @ b2 @ b3)" "e_pc s' = e_pc s + of_nat (length (b0 @ b1 @ b2 @ b3))"
      "e_cmap s' = e_cmap s" "e_origin s' = e_origin s"
    using b1 b3 by (simp_all add: s' b0(2) put_bytes_def)
  ultimately show ?thesis using Some by (intro exI [of _ "b0 @ b1 @ b2 @ b3"]) simp
qed

section \<open>The list of instruction words\<close>

text \<open>An entry names a word of the output at its offset, with the PC of that offset.\<close>

definition code_ok :: "i64 \<Rightarrow> bytes \<Rightarrow> code_word \<Rightarrow> bool" where
  "code_ok orig out cw \<longleftrightarrow> cw_pc cw = orig + of_nat (cw_off cw) \<and> cw_off cw + 4 \<le> length out
     \<and> take 4 (drop (cw_off cw) out) = put_u32 (cw_word cw)"

definition code_map_ok :: "pass2_state \<Rightarrow> bool" where
  "code_map_ok s \<longleftrightarrow> e_pc s = e_origin s + of_nat (length (e_out s))
     \<and> (\<forall>cw\<in>set (e_cmap s). code_ok (e_origin s) (e_out s) cw)
     \<and> sorted_wrt (\<lambda>a b. cw_off a + 4 \<le> cw_off b) (e_cmap s)"

lemma code_ok_append: "code_ok orig out cw \<Longrightarrow> code_ok orig (out @ bs) cw"
  by (auto simp: code_ok_def)

lemma code_map_ok_put: "code_map_ok s \<Longrightarrow> code_map_ok (put_bytes bs s)"
  by (auto simp: code_map_ok_def put_bytes_def code_ok_append)

lemma code_map_ok_append:
  assumes "code_map_ok s" and "\<forall>cw\<in>set cws. code_ok (e_origin s) (e_out s @ bs) cw \<and> length (e_out s) \<le> cw_off cw"
    and "sorted_wrt (\<lambda>a b. cw_off a + 4 \<le> cw_off b) cws"
    and "e_out s' = e_out s @ bs" "e_cmap s' = e_cmap s @ cws" "e_pc s' = e_pc s + of_nat (length bs)" "e_origin s' = e_origin s"
  shows "code_map_ok s'"
proof -
  have "cw_off a + 4 \<le> cw_off b" if "a \<in> set (e_cmap s)" "b \<in> set cws" for a b
    using that assms(1,2) unfolding code_map_ok_def code_ok_def by (meson order_trans)
  then show ?thesis using assms by (auto simp: code_map_ok_def sorted_wrt_append code_ok_append)
qed

lemma code_map_ok_word: "code_map_ok s \<Longrightarrow> code_map_ok (emit_word ri w s)"
  by (rule code_map_ok_append [where cws = "[\<lparr>cw_off = length (e_out s), cw_pc = e_pc s, cw_word = w, cw_rec = ri\<rparr>]" and bs = "put_u32 w"])
    (auto simp: emit_word_def put_bytes_def code_ok_def code_map_ok_def)

lemma code_map_ok_elements: "emit_elements ri els p1 ns s = Inr s' \<Longrightarrow> code_map_ok s \<Longrightarrow> code_map_ok s'"
  by (induction els arbitrary: s) (auto elim!: sbindE intro: code_map_ok_word)

lemma le_put_get: "length bs = n \<Longrightarrow> 8 * n \<le> LENGTH('a) \<Longrightarrow> le_put n (le_get bs :: 'a::len word) = bs"
proof (induction bs arbitrary: n)
  case (Cons b bs)
  then obtain m where m: "n = Suc m" "length bs = m" by (cases n) auto
  have "drop_bit 8 (le_get (b # bs) :: 'a word) = le_get bs"
    using Cons.prems m by (intro bit_word_eqI) (auto simp: bit_simps bit_le_get dest: bit_imp_le_length)
  moreover have "ucast (le_get (b # bs) :: 'a word) = b"
    using Cons.prems m by (intro bit_word_eqI) (auto simp: bit_simps)
  ultimately show ?case using Cons.IH [OF m(2)] Cons.prems m by simp
qed simp

lemma lit_code_words_ok:
  assumes "lit_code_words n ws (length out) (orig + of_nat (length out)) ri = Inr cws" and "length ws = 4 * n"
  shows "(\<forall>cw\<in>set cws. code_ok orig (out @ ws) cw \<and> length out \<le> cw_off cw) \<and> sorted_wrt (\<lambda>a b. cw_off a + 4 \<le> cw_off b) cws"
  using assms
proof (induction n arbitrary: out ws cws)
  case (Suc n)
  have w: "take 4 ws @ drop 4 ws = ws" "length (take 4 ws) = 4" using Suc.prems(2) by simp_all
  let ?out = "out @ take 4 ws"
  obtain cws' where c: "lit_code_words n (drop 4 ws) (length ?out) (orig + of_nat (length ?out)) ri = Inr cws'"
    and cws: "cws = \<lparr>cw_off = length out, cw_pc = orig + of_nat (length out), cw_word = le_get (take 4 ws), cw_rec = ri\<rparr> # cws'"
    using Suc.prems w(2) by (auto simp: algebra_simps elim!: sbindE)
  have "put_u32 (le_get (take 4 ws)) = take 4 ws" using w(2) by (intro le_put_get) simp_all
  then show ?case using Suc.IH [OF c] Suc.prems(2) w by (auto simp: cws code_ok_def)
qed simp

lemma emit_lit_state:
  assumes "emit_lit_insts ri rec s = Inr s'" and "length (lit_words rec) = 4 * unat (lit_count rec)"
  shows "e_out s' = e_out s @ lit_words rec \<and> e_pc s' = e_pc s + of_nat (length (lit_words rec)) \<and> e_origin s' = e_origin s
    \<and> (code_map_ok s \<longrightarrow> code_map_ok s')"
proof -
  obtain cws where c: "lit_code_words (unat (lit_count rec)) (lit_words rec) (length (e_out s)) (e_pc s) ri = Inr cws"
    and s': "s' = s\<lparr>e_cmap := e_cmap s @ cws, e_out := e_out s @ lit_words rec, e_pc := e_pc s + 4 * ucast (lit_count rec)\<rparr>"
    using assms(1) by (auto simp: emit_lit_insts_def elim!: sbindE)
  have n: "of_nat (length (lit_words rec)) = (4 * ucast (lit_count rec) :: i64)"
    by (simp add: assms(2))
  have "code_map_ok s'" if "code_map_ok s"
  proof (rule code_map_ok_append [OF that])
    have "lit_code_words (unat (lit_count rec)) (lit_words rec) (length (e_out s)) (e_origin s + of_nat (length (e_out s))) ri = Inr cws"
      using c that by (simp add: code_map_ok_def)
    note l = lit_code_words_ok [OF this assms(2)]
    show "\<forall>cw\<in>set cws. code_ok (e_origin s) (e_out s @ lit_words rec) cw \<and> length (e_out s) \<le> cw_off cw"
      "sorted_wrt (\<lambda>a b. cw_off a + 4 \<le> cw_off b) cws" using l by simp_all
  qed (simp_all add: s' n)
  then show ?thesis by (simp add: s' n)
qed

lemma code_map_ok_flush: "emit_flush p1 ns s = Inr s' \<Longrightarrow> code_map_ok s \<Longrightarrow> code_map_ok s'"
  by (drule emit_flush_state) (auto intro: code_map_ok_append [where cws = "[]"])

lemma emit_org_cases:
  assumes "emit_org rec p1 ns s = Inr s'"
  obtains o' target where "first_operand (operands rec) = Inr o'" and "eval_at (o_expr o') (e_pc s) p1 ns = Inr target"
    and "e_out s = [] \<and> e_pc s = e_origin s \<and> e_origin s = 0 \<and> target \<noteq> 0 \<and> s' = s\<lparr>e_pc := target, e_origin := target\<rparr>
      \<or> \<not> (e_out s = [] \<and> e_pc s = e_origin s \<and> e_origin s = 0 \<and> target \<noteq> 0)
          \<and> \<not> target < e_pc s \<and> sint (target - e_pc s) > 0 \<and> s' = s\<lparr>e_out := e_out s @ replicate (unat (target - e_pc s)) 0, e_pc := target\<rparr>
      \<or> \<not> (e_out s = [] \<and> e_pc s = e_origin s \<and> e_origin s = 0 \<and> target \<noteq> 0)
          \<and> \<not> target < e_pc s \<and> \<not> sint (target - e_pc s) > 0 \<and> s' = s"
  using assms unfolding emit_org_def Let_def by (elim sbindE) (auto split: if_split_asm)

lemma code_map_ok_org:
  assumes "emit_org rec p1 ns s = Inr s'" and "code_map_ok s"
  shows "code_map_ok s'"
proof -
  have empty: "e_cmap s = []" if "e_out s = []"
  proof (rule ccontr)
    assume "e_cmap s \<noteq> []"
    then obtain cw where "cw \<in> set (e_cmap s)" by (cases "e_cmap s") auto
    then show False using assms(2) that by (auto simp: code_map_ok_def code_ok_def)
  qed
  from assms(1) show ?thesis
    by (rule emit_org_cases) (use assms(2) empty in \<open>auto simp: code_map_ok_def code_ok_append\<close>)
qed

lemma code_map_ok_directive:
  assumes "emit_directive rec p1 ns s = Inr s'" and "code_map_ok s"
  shows "code_map_ok s'"
proof -
  consider (flush) "directive_name (directive_id rec) = ''.ltorg''" | (origin) "directive_name (directive_id rec) = ''.org''"
    | (put) "directive_name (directive_id rec) \<noteq> ''.ltorg''" "directive_name (directive_id rec) \<noteq> ''.org''" by blast
  then show ?thesis
  proof cases
    case flush then show ?thesis using assms code_map_ok_flush by (simp add: emit_directive_def)
  next
    case origin then show ?thesis using assms code_map_ok_org by (simp add: emit_directive_def)
  next
    case put then show ?thesis using assms by (auto simp: emit_directive_def code_map_ok_put elim!: sbindE)
  qed
qed

lemma code_map_ok_record:
  assumes "emit_record ri rec p1 ns s = Inr s'" and "code_map_ok s" and "length (lit_words rec) = 4 * unat (lit_count rec)"
  shows "code_map_ok s'"
proof -
  consider (inst) "r_kind rec = KindInst" | (lits) "r_kind rec = KindLitInsts" | (data) "r_kind rec = KindLitData"
    | (run) "r_kind rec = KindInsnRun" | (dir) "r_kind rec = KindDirective"
    | (other) "r_kind rec \<notin> {KindInst, KindLitInsts, KindLitData, KindInsnRun, KindDirective}"
    by blast
  then show ?thesis
  proof cases
    case inst then show ?thesis using assms(1,2) by (auto simp: emit_record_def code_map_ok_word elim!: sbindE)
  next
    case lits then show ?thesis using assms emit_lit_state [of ri rec s s'] by (simp add: emit_record_def)
  next
    case data then show ?thesis using assms(1,2) by (auto simp: emit_record_def code_map_ok_put)
  next
    case run then show ?thesis using assms(1,2) code_map_ok_elements by (simp add: emit_record_def)
  next
    case dir then show ?thesis using assms(1,2) code_map_ok_directive by (simp add: emit_record_def)
  next
    case other then show ?thesis using assms(1,2) by (simp add: emit_record_def)
  qed
qed

lemma code_map_ok_records:
  "emit_records ri recs p1 ns s = Inr s' \<Longrightarrow> code_map_ok s \<Longrightarrow>
   \<forall>rec\<in>set recs. length (lit_words rec) = 4 * unat (lit_count rec) \<Longrightarrow> code_map_ok s'"
  by (induction recs arbitrary: ri s) (auto elim!: sbindE intro: code_map_ok_record)

lemma pass2_map_exact:
  assumes "pass2_with_map f p1 = Inr (out, cmap)"
    and "\<forall>rec\<in>set (f_records f). length (lit_words rec) = 4 * unat (lit_count rec)"
  shows "sorted_wrt (\<lambda>a b. cw_off a + 4 \<le> cw_off b) cmap \<and> (\<exists>orig. \<forall>cw\<in>set cmap. code_ok orig out cw)"
proof -
  obtain s0 s where 0: "emit_records 0 (f_records f) p1 (f_names f) (pass2_init p1) = Inr s0"
    and 1: "emit_flush p1 (f_names f) s0 = Inr s" and s: "out = e_out s" "cmap = e_cmap s"
    using assms(1) by (auto simp: pass2_with_map_def elim!: sbindE)
  have "code_map_ok (pass2_init p1)" by (simp add: code_map_ok_def pass2_init_def)
  from code_map_ok_flush [OF 1 code_map_ok_records [OF 0 this assms(2)]] show ?thesis
    unfolding s code_map_ok_def by blast
qed

text \<open>
  C30.  The list that pass 2 returns beside the image is exact: whatever pass 1 found, every entry
  is the word that stands in the image at the entry's offset, at the PC of that offset from one
  origin, entries are in order of offset, and no two overlap.  The literal words of a run must be as
  many as its count, as the reader of a file makes sure.
\<close>

theorem pass2_code_words:
  assumes "pass2_with_map f p1 = Inr (out, cmap)"
    and "\<forall>rec\<in>set (f_records f). length (lit_words rec) = 4 * unat (lit_count rec)"
  shows "sorted_wrt (\<lambda>a b. cw_off a + 4 \<le> cw_off b) cmap \<and> (\<exists>orig. \<forall>cw\<in>set cmap. code_ok orig out cw)"
  by (rule pass2_map_exact [OF assms])

end
