(* ===== verification/Asm_Agree.thy ===== *)
theory Asm_Agree
  imports Asm_Emit
begin

text \<open>
  The two passes agree: pass 2 reaches every record at the PC that pass 1 gave it, so the symbols
  of pass 1 are addresses of the image.
\<close>

section \<open>What pass 1 decides about a state stays decided\<close>

definition keeps :: "i64 \<Rightarrow> nat \<Rightarrow> pass1_state \<Rightarrow> pass1_result \<Rightarrow> bool" where
  "keeps orig k w p1 \<longleftrightarrow> p1_origin p1 = orig \<and> pool_ext (p1_pool (w_res w)) (p1_pool p1)
     \<and> (\<forall>key. (\<exists>j<k. key = orig + of_nat j) \<or> w_order w = [] \<and> key = w_pc w \<longrightarrow>
          p1_flush_entries p1 key = p1_flush_entries (w_res w) key \<and> p1_flush_at p1 key = p1_flush_at (w_res w) key)
     \<and> (\<forall>n v. p1_symbols (w_res w) n = Some v \<longrightarrow> p1_symbols p1 n = Some v)"

lemma of_nat_inj64: "j < 2 ^ 64 \<Longrightarrow> k < 2 ^ 64 \<Longrightarrow> (of_nat j :: i64) = of_nat k \<longleftrightarrow> j = k"
  by (metis unat_of_nat_len)

lemma keeps_back:
  assumes "keeps orig k' w' p1" and "settled orig k w" and "settled orig k' w'" and "k \<le> k'" and "k' < 2 ^ 48"
    and "pool_ext (p1_pool (w_res w)) (p1_pool (w_res w'))"
    and "\<And>key. key \<noteq> w_pc w \<or> w_order w = [] \<Longrightarrow> same_maps w w' key"
    and "w_order w' = [] \<or> w_order w' = w_order w \<or> w_pc w' \<noteq> w_pc w"
    and "\<And>n v. p1_symbols (w_res w) n = Some v \<Longrightarrow> p1_symbols (w_res w') n = Some v"
  shows "keeps orig k w p1"
proof -
  have pc: "w_pc w = orig + of_nat k" "w_pc w' = orig + of_nat k'" using assms(2,3) by (auto simp: settled_def)
  have maps: "p1_flush_entries p1 key = p1_flush_entries (w_res w) key \<and> p1_flush_at p1 key = p1_flush_at (w_res w) key"
    if key: "(\<exists>j<k. key = orig + of_nat j) \<or> w_order w = [] \<and> key = w_pc w" for key
  proof -
    have "key \<noteq> w_pc w \<or> w_order w = []"
      using key assms(4,5) by (auto simp: pc(1) of_nat_inj64)
    then have "same_maps w w' key" by (rule assms(7))
    moreover have "(\<exists>j<k'. key = orig + of_nat j) \<or> w_order w' = [] \<and> key = w_pc w'"
    proof (cases "\<exists>j<k'. key = orig + of_nat j")
      case False
      then have "w_order w = []" "key = w_pc w" "k' = k"
        using key assms(4) pc(1) by (metis le_neq_implies_less order_less_le_trans)+
      moreover then have "w_pc w' = w_pc w" by (simp add: pc)
      ultimately show ?thesis using assms(8) by auto
    qed simp
    ultimately show ?thesis using assms(1) by (auto simp: keeps_def same_maps_def)
  qed
  have "pool_ext (p1_pool (w_res w)) (p1_pool p1)"
    using assms(1,6) pool_ext_trans by (auto simp: keeps_def)
  then show ?thesis using maps assms(1,9) by (simp add: keeps_def)
qed

lemma keeps_step:
  assumes "keeps orig k' w' p1" and a: "advances rec ns w w'" and "settled orig k w" and "settled orig k' w'"
    and "k \<le> k'" and "k' < 2 ^ 48" and none: "\<forall>n\<in>set (record_names rec ns). p1_symbols (w_res w) n = None"
  shows "keeps orig k w p1"
proof (rule keeps_back [OF assms(1,3-6)])
  show "p1_symbols (w_res w') n = Some v" if "p1_symbols (w_res w) n = Some v" for n v
  proof -
    have "n \<notin> set (record_names rec ns)" using that none by auto
    then show ?thesis using that a by (simp add: advances_def)
  qed
qed (use a in \<open>auto simp: advances_def\<close>)

lemma keeps_flush:
  assumes "keeps orig (k + pending_len w) (flush_pool w) p1" and st: "settled orig k w" and "k + pending_len w < 2 ^ 48"
  shows "keeps orig k w p1"
  by (rule keeps_back [OF assms(1) st flush_settled(1) [OF st] _ assms(3)])
    (use flush_settled [OF st] in auto)

lemma flush_origin [simp]: "p1_origin (w_res (flush_pool w)) = p1_origin (w_res w)"
  using flush_pool_shape [of w] by (cases "w_order w = []") auto

lemma register_origin [simp]: "p1_origin (w_res (register_literal wd e w)) = p1_origin (w_res w)"
  by (auto simp: register_literal_def Let_def split: option.splits)

lemma patches_origin [simp]: "p1_origin (w_res (register_patches b ps w)) = p1_origin (w_res w)"
  by (induction ps arbitrary: w) auto

lemma advance_origin [simp]: "p1_origin (w_res (advance n w)) = p1_origin (w_res w)"
  by (simp add: advance_def)

lemma elements_origin [simp]: "p1_origin (w_res (walk_elements els w)) = p1_origin (w_res w)"
  by (induction els arbitrary: w) auto

text \<open>The origin is set once.\<close>

lemma walk_directive_origin:
  assumes "walk_directive rec ns w = Inr w'"
  shows "p1_origin (w_res w') = p1_origin (w_res w) \<or> p1_origin (w_res w) = 0 \<and> p1_origin (w_res w') \<noteq> 0"
proof (cases "directive_name (directive_id rec) = ''.org''")
  case True
  then have "walk_org rec ns w = Inr w'" using assms by (simp add: walk_directive_def Let_def)
  from walk_org_cases [OF this] show ?thesis by auto
next
  case False
  have equ: "p1_origin res = p1_origin (w_res w)" if "resolve_equ rec ns (w_res w) = Inr res" for res
    using that by (auto simp: resolve_equ_def elim!: sbindE split: option.splits if_split_asm)
  show ?thesis using assms False equ
    by (auto simp: walk_directive_def Let_def elim!: sbindE split: if_split_asm)
qed

lemma walk_inst_origin:
  assumes "walk_inst rec w = Inr w'"
  shows "p1_origin (w_res w') = p1_origin (w_res w)"
proof -
  let ?w1 = "w\<lparr>w_res := (w_res w)\<lparr>p1_inst_pc := p1_inst_pc (w_res w) @ [w_pc w]\<rparr>\<rparr>"
  obtain lit :: "operand option" where
    "Inr (advance 4 (case lit of None \<Rightarrow> ?w1 | Some op' \<Rightarrow> register_literal (o_width op') (o_expr op') ?w1)) = (Inr w' :: pass1_state res)"
    using assms unfolding walk_inst_def Let_def by (rule sbindE)
  then show ?thesis by (cases lit) auto
qed

lemma walk_record_origin:
  assumes "walk_record rec ns w = Inr w'"
  shows "p1_origin (w_res w') = p1_origin (w_res w) \<or> p1_origin (w_res w) = 0 \<and> p1_origin (w_res w') \<noteq> 0"
proof -
  let ?w = "w\<lparr>w_res := (w_res w)\<lparr>p1_record_pc := p1_record_pc (w_res w) @ [w_pc w]\<rparr>\<rparr>"
  consider (inst) "r_kind rec = KindInst" | (dir) "r_kind rec = KindDirective" | (other) "r_kind rec \<notin> {KindInst, KindDirective}" by blast
  then show ?thesis
  proof cases
    case inst
    then show ?thesis using assms walk_inst_origin [of rec ?w w'] by (simp add: walk_record_def Let_def)
  next
    case dir
    then have "walk_directive rec ns ?w = Inr w'" using assms by (simp add: walk_record_def Let_def)
    from walk_directive_origin [OF this] show ?thesis by simp
  next
    case other
    then show ?thesis using assms
      by (auto simp: walk_record_def Let_def define_label_def define_local_def elim!: sbindE split: if_split_asm)
  qed
qed

lemma walk_records_once:
  "walk_records recs ns w = Inr w' \<Longrightarrow>
   p1_origin (w_res w') = p1_origin (w_res w) \<or> p1_origin (w_res w) = 0 \<and> p1_origin (w_res w') \<noteq> 0"
proof (induction recs arbitrary: w)
  case (Cons r rs)
  then obtain v1 where "walk_record r ns w = Inr v1" "walk_records rs ns v1 = Inr w'" by (auto elim!: sbindE)
  with Cons.IH [of v1] walk_record_origin [of r ns w v1] show ?case by auto
qed simp

lemma walk_records_origin:
  assumes "walk_records recs ns w = Inr w'" and "p1_origin (w_res w') = p1_origin (w_res w0)" and "walk_record rec ns w0 = Inr w"
  shows "p1_origin (w_res w) = p1_origin (w_res w0)"
  using walk_records_once [OF assms(1)] walk_record_origin [OF assms(3)] assms(2) by auto

section \<open>The size of the image\<close>

text \<open>The sum of what the records advance the PC by; the move to the origin is not part of the image.\<close>

fun walk_span :: "tbn_record list \<Rightarrow> bytes list \<Rightarrow> pass1_state \<Rightarrow> nat" where
  "walk_span [] ns w = 0"
| "walk_span (rec # recs) ns w =
     (case walk_record rec ns w of
        Inl _ \<Rightarrow> 0
      | Inr w' \<Rightarrow> (if p1_origin (w_res w') = p1_origin (w_res w) then unat (w_pc w' - w_pc w) else 0) + walk_span recs ns w')"

definition image_span :: "tbn_file \<Rightarrow> nat" where
  "image_span f = walk_span (f_records f) (f_names f) walk_init
     + (case walk_records (f_records f) (f_names f) walk_init of Inl _ \<Rightarrow> 0 | Inr w \<Rightarrow> pending_len w)"

lemma defined_names_Cons [simp]: "defined_names (rec # recs) ns = record_names rec ns @ defined_names recs ns"
  by (simp add: defined_names_def)

lemma walk_future:
  assumes "settled orig k w" and "walk_records recs ns w = Inr wx" and "\<forall>rec\<in>set recs. wf_record rec"
    and "p1_origin (w_res wx) = orig" and "k + walk_span recs ns w < 2 ^ 48"
    and "\<forall>n\<in>set (defined_names recs ns). p1_symbols (w_res w) n = None" and "distinct (defined_names recs ns)"
  shows "settled orig (k + walk_span recs ns w) wx
    \<and> (\<forall>p1. keeps orig (k + walk_span recs ns w) wx p1 \<longrightarrow> keeps orig k w p1)
    \<and> (\<forall>n. n \<notin> set (defined_names recs ns) \<longrightarrow> p1_symbols (w_res wx) n = p1_symbols (w_res w) n)
    \<and> (\<exists>pcs. p1_record_pc (w_res wx) = p1_record_pc (w_res w) @ pcs \<and> length pcs = length recs \<and> (recs \<noteq> [] \<longrightarrow> hd pcs = w_pc w))"
  using assms
proof (induction recs arbitrary: k w)
  case (Cons rec recs)
  obtain w' where w': "walk_record rec ns w = Inr w'" "walk_records recs ns w' = Inr wx"
    using Cons.prems(2) by (auto elim!: sbindE)
  have o: "p1_origin (w_res w) = orig" using Cons.prems(1) by (simp add: settled_def)
  have o': "p1_origin (w_res w') = orig" using walk_records_origin [OF w'(2) _ w'(1)] Cons.prems(4) o by simp
  let ?k = "k + unat (w_pc w' - w_pc w)"
  have span: "k + walk_span (rec # recs) ns w = ?k + walk_span recs ns w'" by (simp add: w' o o')
  have b: "k < 2 ^ 48" "?k < 2 ^ 48" "?k + walk_span recs ns w' < 2 ^ 48" using Cons.prems(5) span by simp_all
  have wf: "wf_record rec" using Cons.prems(3) by simp
  from walk_record_step [OF Cons.prems(1) w'(1) wf o' b(1)]
  have s': "settled orig ?k w'" and a: "advances rec ns w w'" by simp_all
  have frame: "p1_symbols (w_res w') n = p1_symbols (w_res w) n" if "n \<notin> set (record_names rec ns)" for n
    using a that by (simp add: advances_def)
  have none: "\<forall>n\<in>set (defined_names recs ns). p1_symbols (w_res w') n = None"
  proof
    fix n assume "n \<in> set (defined_names recs ns)"
    then have "n \<notin> set (record_names rec ns)" "p1_symbols (w_res w) n = None" using Cons.prems(6,7) by auto
    then show "p1_symbols (w_res w') n = None" using frame by simp
  qed
  have ih: "settled orig (?k + walk_span recs ns w') wx
    \<and> (\<forall>p1. keeps orig (?k + walk_span recs ns w') wx p1 \<longrightarrow> keeps orig ?k w' p1)
    \<and> (\<forall>n. n \<notin> set (defined_names recs ns) \<longrightarrow> p1_symbols (w_res wx) n = p1_symbols (w_res w') n)
    \<and> (\<exists>pcs. p1_record_pc (w_res wx) = p1_record_pc (w_res w') @ pcs \<and> length pcs = length recs \<and> (recs \<noteq> [] \<longrightarrow> hd pcs = w_pc w'))"
    using Cons.prems(3,7) by (intro Cons.IH s' w'(2) Cons.prems(4) b(3) none) simp_all
  have "keeps orig k w p1" if "keeps orig ?k w' p1" for p1
    using Cons.prems(6) by (intro keeps_step [OF that a Cons.prems(1) s' _ b(2)]) auto
  moreover have "p1_record_pc (w_res w') = p1_record_pc (w_res w) @ [w_pc w]" using a by (simp add: advances_def)
  ultimately show ?case using ih frame unfolding span by auto
qed simp

section \<open>One record in both passes\<close>

definition in_step :: "i64 \<Rightarrow> pass1_state \<Rightarrow> pass2_state \<Rightarrow> bool" where
  "in_step orig w s \<longleftrightarrow> settled orig (length (e_out s)) w \<and> e_pc s = w_pc w \<and> e_origin s = orig"

definition appends :: "pass2_state \<Rightarrow> pass2_state \<Rightarrow> nat \<Rightarrow> bool" where
  "appends s s' n \<longleftrightarrow> (\<exists>bs. e_out s' = e_out s @ bs \<and> length bs = n) \<and> e_pc s' = e_pc s + of_nat n \<and> e_origin s' = e_origin s"

lemma appends_put: "appends s (put_bytes bs s) (length bs)"
  by (simp add: appends_def put_bytes_def)

lemma appends_elements: "emit_elements ri els p1 ns s = Inr s' \<Longrightarrow> appends s s' (4 * length els)"
proof (induction els arbitrary: s)
  case (Cons el els)
  then obtain w where w: "emit_elements ri els p1 ns (emit_word ri w s) = Inr s'" by (auto elim!: sbindE)
  from Cons.IH [OF w] show ?case by (auto simp: appends_def emit_word_def put_bytes_def)
qed (simp add: appends_def)

lemma flush_agrees:
  assumes "in_step orig w s" and "emit_flush p1 ns s = Inr s'" and "length (e_out s) + pending_len w < 2 ^ 48"
    and "keeps orig (length (e_out s) + pending_len w) (flush_pool w) p1"
  shows "appends s s' (pending_len w)"
proof -
  let ?k = "length (e_out s)"
  have st: "settled orig ?k w" and pc: "e_pc s = w_pc w" "w_pc w = orig + of_nat ?k"
    using assms(1) by (auto simp: in_step_def settled_def)
  obtain bs where bs: "e_out s' = e_out s @ bs" "e_pc s' = e_pc s + of_nat (length bs)" "e_origin s' = e_origin s"
    and none: "p1_flush_entries p1 (e_pc s) = None \<longrightarrow> bs = []"
    and some: "\<And>is. p1_flush_entries p1 (e_pc s) = Some is \<Longrightarrow>
          length bs = flush_len (e_pc s) (length (fours (p1_pool p1) is)) (length (eights (p1_pool p1) is))"
    using emit_flush_state [OF assms(2)] by auto
  have key: "p1_flush_entries p1 (w_pc w) = p1_flush_entries (w_res (flush_pool w)) (w_pc w)"
  proof (cases "w_order w = []")
    case True
    then show ?thesis using assms(4) by (simp add: keeps_def)
  next
    case False
    then have "0 < pending_len w" using pending_len_bounds(1) [OF st] by simp
    then have "\<exists>j<?k + pending_len w. w_pc w = orig + of_nat j" by (intro exI [of _ ?k]) (simp add: pc)
    then show ?thesis using assms(4) by (simp add: keeps_def)
  qed
  have "length bs = pending_len w"
  proof (cases "w_order w = []")
    case True
    have "p1_flush_entries (w_res w) (w_pc w) = None"
    proof (rule ccontr)
      assume "p1_flush_entries (w_res w) (w_pc w) \<noteq> None"
      then obtain j where "j < ?k" "w_pc w = orig + of_nat j" using st unfolding settled_def by blast
      then show False using assms(3) by (auto simp: pc of_nat_inj64)
    qed
    then show ?thesis using True none key pc by (simp add: pending_len_def)
  next
    case False
    let ?p = "p1_pool (w_res w)"
    have ext: "pool_ext ?p (p1_pool p1)" using flush_settled(2) [OF st] assms(4) pool_ext_trans by (auto simp: keeps_def)
    have sub: "set (w_order w) \<subseteq> {..<length ?p}" using st by (simp add: settled_def)
    obtain pool where "flush_pool w = \<lparr>w_res = (w_res w)\<lparr>p1_pool := pool,
          p1_flush_entries := (p1_flush_entries (w_res w))(w_pc w \<mapsto> w_order w),
          p1_flush_at := (p1_flush_at (w_res w))(w_pc w \<mapsto> w_pc w + of_nat (flush_len (w_pc w)
            (length (fours (p1_pool (w_res w)) (w_order w))) (length (eights (p1_pool (w_res w)) (w_order w)))))\<rparr>,
        w_pc = w_pc w + of_nat (flush_len (w_pc w)
            (length (fours (p1_pool (w_res w)) (w_order w))) (length (eights (p1_pool (w_res w)) (w_order w)))),
        w_pending = Map.empty, w_order = []\<rparr>"
      using flush_pool_shape [OF False] by blast
    then have "p1_flush_entries p1 (e_pc s) = Some (w_order w)" using key by (simp add: pc)
    from some [OF this] show ?thesis using False
      by (simp add: pending_len_def pc fours_ext [OF ext sub] eights_ext [OF ext sub])
  qed
  then show ?thesis using bs by (simp add: appends_def)
qed

lemma appends_in_step:
  assumes "in_step orig w s" and "settled orig (length (e_out s) + unat (w_pc w' - w_pc w)) w'"
    and "appends s s' n" and "w_pc w' = w_pc w + of_nat n" and "n < 2 ^ 64"
  shows "in_step orig w' s' \<and> length (e_out s') = length (e_out s) + unat (w_pc w' - w_pc w)"
proof -
  have "unat (w_pc w' - w_pc w) = n" using assms(4,5) by (simp add: unat_of_nat_len)
  then show ?thesis using assms by (auto simp: in_step_def appends_def)
qed

lemma org_agrees:
  assumes "in_step orig w s" and "walk_org rec ns w = Inr w'" and "emit_org rec p1 ns s = Inr s'"
    and "p1_origin (w_res w') = orig" and "unat (w_pc w' - w_pc w) < 2 ^ 48"
    and le: "\<And>n v. p1_symbols (w_res w) n = Some v \<Longrightarrow> p1_symbols p1 n = Some v"
  shows "appends s s' (unat (w_pc w' - w_pc w)) \<and> w_pc w' = w_pc w + of_nat (unat (w_pc w' - w_pc w))"
proof -
  have st: "settled orig (length (e_out s)) w" and pc: "e_pc s = w_pc w" and o: "e_origin s = orig"
    using assms(1) by (auto simp: in_step_def)
  obtain o' target where fo: "first_operand (operands rec) = Inr o'"
    and ev: "eval_usage (o_expr o') (pass1_ctx (w_pc w) (w_res w) ns) = Inr target"
    and w': "w_pc w = p1_origin (w_res w) \<and> p1_pool (w_res w) = [] \<and> w_pc w = 0 \<and> target \<noteq> 0
        \<and> w' = w\<lparr>w_res := (w_res w)\<lparr>p1_origin := target\<rparr>, w_pc := target\<rparr>
      \<or> \<not> (w_pc w = p1_origin (w_res w) \<and> p1_pool (w_res w) = [] \<and> w_pc w = 0 \<and> target \<noteq> 0) \<and> w' = w\<lparr>w_pc := target\<rparr>"
    using assms(2) unfolding walk_org_def by (elim sbindE) (auto split: if_split_asm)
  have out: "\<not> (e_out s = [] \<and> e_pc s = e_origin s \<and> e_origin s = 0 \<and> target \<noteq> 0)"
  proof
    assume h: "e_out s = [] \<and> e_pc s = e_origin s \<and> e_origin s = 0 \<and> target \<noteq> 0"
    then have "orig = 0" "w_pc w = 0" "p1_origin (w_res w) = 0" "p1_pool (w_res w) = []"
      using st pc o by (auto simp: settled_def)
    then show False using w' h assms(4) by auto
  qed
  have w': "w' = w\<lparr>w_pc := target\<rparr>" using w' assms(4) st by (auto simp: settled_def)
  have same: "eval_at (o_expr o') (e_pc s) p1 ns = Inr target"
    unfolding eval_at_def pc by (rule eval_usage_le [OF pass1_ctx_le [OF le] ev])
  have small: "unat (target - w_pc w) < 2 ^ 48" using assms(5) by (simp add: w')
  have sint: "sint (target - w_pc w) = int (unat (target - w_pc w))" by (rule sint_small) (use small in simp)
  from assms(3) show ?thesis
  proof (rule emit_org_cases)
    fix o2 t2
    assume "first_operand (operands rec) = Inr o2" "eval_at (o_expr o2) (e_pc s) p1 ns = Inr t2"
    then have t2: "t2 = target" using fo same by simp
    assume "e_out s = [] \<and> e_pc s = e_origin s \<and> e_origin s = 0 \<and> t2 \<noteq> 0 \<and> s' = s\<lparr>e_pc := t2, e_origin := t2\<rparr>
      \<or> \<not> (e_out s = [] \<and> e_pc s = e_origin s \<and> e_origin s = 0 \<and> t2 \<noteq> 0)
          \<and> \<not> t2 < e_pc s \<and> sint (t2 - e_pc s) > 0 \<and> s' = s\<lparr>e_out := e_out s @ replicate (unat (t2 - e_pc s)) 0, e_pc := t2\<rparr>
      \<or> \<not> (e_out s = [] \<and> e_pc s = e_origin s \<and> e_origin s = 0 \<and> t2 \<noteq> 0)
          \<and> \<not> t2 < e_pc s \<and> \<not> sint (t2 - e_pc s) > 0 \<and> s' = s"
    then consider "s' = s\<lparr>e_out := e_out s @ replicate (unat (target - w_pc w)) 0, e_pc := target\<rparr>"
      | "\<not> sint (target - w_pc w) > 0" "s' = s"
      using out unfolding t2 pc by blast
    then show ?thesis
    proof cases
      case 1
      then show ?thesis by (simp add: appends_def w' pc)
    next
      case 2
      then have "unat (target - w_pc w) = 0" unfolding sint by linarith
      then have "target = w_pc w" by (simp add: unat_eq_0)
      then show ?thesis using 2 by (simp add: appends_def w')
    qed
  qed
qed

lemma step_agrees:
  assumes st: "in_step orig w s" and wr: "walk_record rec ns w = Inr w'" and er: "emit_record ri rec p1 ns s = Inr s'"
    and wf: "wf_record rec" and o: "p1_origin (w_res w') = orig"
    and k: "length (e_out s) + unat (w_pc w' - w_pc w) < 2 ^ 48"
    and kp: "keeps orig (length (e_out s) + unat (w_pc w' - w_pc w)) w' p1"
    and le: "\<And>n v. p1_symbols (w_res w) n = Some v \<Longrightarrow> p1_symbols p1 n = Some v"
  shows "in_step orig w' s' \<and> length (e_out s') = length (e_out s) + unat (w_pc w' - w_pc w)"
proof -
  let ?w = "w\<lparr>w_res := (w_res w)\<lparr>p1_record_pc := p1_record_pc (w_res w) @ [w_pc w]\<rparr>\<rparr>"
  have s: "settled orig (length (e_out s)) w" using st by (simp add: in_step_def)
  then have s': "settled orig (length (e_out s) + unat (w_pc w' - w_pc w)) w'"
    using walk_record_step [OF s wr wf o] k by simp
  have w: "in_step orig ?w s" using settled_res [OF s, of "p1_record_pc_update (\<lambda>_. p1_record_pc (w_res w) @ [w_pc w]) (w_res w)"] st
    by (simp add: in_step_def)
  note app = appends_in_step [OF st s']
  consider (inst) "r_kind rec = KindInst" | (lits) "r_kind rec = KindLitInsts" | (data) "r_kind rec = KindLitData"
    | (run) "r_kind rec = KindInsnRun" | (dir) "r_kind rec = KindDirective"
    | (other) "r_kind rec \<notin> {KindInst, KindLitInsts, KindLitData, KindInsnRun, KindDirective}"
    by blast
  then show ?thesis
  proof cases
    case inst
    then have "walk_inst rec ?w = Inr w'" using wr by (simp add: walk_record_def Let_def)
    then have pc: "w_pc w' = w_pc w + of_nat 4" using walk_inst_step [of rec ?w w' orig "length (e_out s)"] w by (simp add: in_step_def)
    have "appends s s' 4" using er inst by (auto simp: emit_record_def appends_def emit_word_def put_bytes_def elim!: sbindE)
    then show ?thesis by (rule app [OF _ pc]) simp
  next
    case lits
    have n: "length (lit_words rec) = 4 * unat (lit_count rec)" using wf by (simp add: wf_record_def)
    have pc: "w_pc w' = w_pc w + of_nat (4 * unat (lit_count rec))"
      using wr lits by (auto simp: walk_record_def Let_def advance_def)
    have "appends s s' (4 * unat (lit_count rec))"
      using er lits emit_lit_state [OF _ n, of ri s s'] by (simp add: emit_record_def appends_def n)
    moreover have "unat (lit_count rec) < 2 ^ LENGTH(8)" by (rule unsigned_less)
    ultimately show ?thesis by (intro app [OF _ pc]) simp_all
  next
    case data
    have pc: "w_pc w' = w_pc w + of_nat (length (lit_data rec))"
      using wr data by (auto simp: walk_record_def Let_def advance_def)
    have "appends s s' (length (lit_data rec))" using er data appends_put by (auto simp: emit_record_def)
    then show ?thesis using wf by (intro app [OF _ pc]) (simp_all add: wf_record_def)
  next
    case run
    have pc: "w_pc w' = w_pc w + of_nat (4 * length (elements rec))"
      using wr run quiet_elements [of "elements rec" ?w] wf by (auto simp: walk_record_def Let_def wf_record_def)
    have "appends s s' (4 * length (elements rec))" using er run appends_elements by (simp add: emit_record_def)
    then show ?thesis using wf by (intro app [OF _ pc]) (simp_all add: wf_record_def)
  next
    case dir
    have wd: "walk_directive rec ns ?w = Inr w'" using wr dir by (simp add: walk_record_def Let_def)
    have ed: "emit_directive rec p1 ns s = Inr s'" using er dir by (simp add: emit_record_def)
    let ?name = "directive_name (directive_id rec)"
    consider (equ) "?name = ''.equ'' \<or> ?name = ''.set''" | (pool) "?name = ''.ltorg''" | (origin) "?name = ''.org''"
      | (size) "\<not> (?name = ''.equ'' \<or> ?name = ''.set'')" "?name \<noteq> ''.ltorg''" "?name \<noteq> ''.org''" by blast
    then show ?thesis
    proof cases
      case equ
      then have "w_pc w' = w_pc w + of_nat 0" using wd by (auto simp: walk_directive_def Let_def elim!: sbindE)
      moreover have "s' = put_bytes [] s"
        using ed equ by (auto simp: emit_directive_def encode_directive_def Let_def silent_directives_def)
      ultimately show ?thesis using appends_put [of s "[]"] by (intro app [of s' 0]) simp_all
    next
      case pool
      then have w': "w' = flush_pool ?w" using wd by (simp add: walk_directive_def Let_def)
      have ws: "settled orig (length (e_out s)) ?w" using w by (simp add: in_step_def)
      have pc: "w_pc w' = w_pc w + of_nat (pending_len ?w)" using flush_settled(4) [OF ws] by (simp add: w')
      have b: "pending_len ?w < 2 ^ 64" using pending_len_bounds(2) [OF ws] k by simp
      then have n: "unat (w_pc w' - w_pc w) = pending_len ?w" using pc by (simp add: unat_of_nat_len)
      have "emit_flush p1 ns s = Inr s'" using ed pool by (simp add: emit_directive_def)
      from flush_agrees [OF w this k [unfolded n] kp [unfolded n, unfolded w']]
      show ?thesis by (rule app [OF _ pc b])
    next
      case origin
      then have "walk_org rec ns ?w = Inr w'" "emit_org rec p1 ns s = Inr s'"
        using wd ed by (simp_all add: walk_directive_def emit_directive_def Let_def)
      from org_agrees [OF w this o] k le have a: "appends s s' (unat (w_pc w' - w_pc w))"
        "w_pc w' = w_pc w + of_nat (unat (w_pc w' - w_pc w))" by simp_all
      have "unat (w_pc w' - w_pc w) < 2 ^ 64" using k by simp
      then show ?thesis by (rule app [OF a])
    next
      case size
      obtain n where n: "directive_size rec (w_pc w) (w_res ?w) ns = Inr n" and w': "w' = advance n ?w"
        using wd size by (auto simp: walk_directive_def Let_def elim!: sbindE)
      obtain bs where bs: "encode_directive rec (w_pc w) p1 ns = Inr bs" and e: "s' = put_bytes bs s"
        using ed size st by (auto simp: emit_directive_def Let_def in_step_def elim!: sbindE)
      have len: "length bs = unat n" by (rule length_directive [OF bs n wf]) (simp add: le)
      have pc: "w_pc w' = w_pc w + of_nat (length bs)" by (simp add: w' advance_def len)
      have "length bs < 2 ^ 64" unfolding len using unsigned_less [of n] by simp
      then show ?thesis using app [OF _ pc] appends_put by (simp add: e)
    qed
  next
    case other
    then have "w_pc w' = w_pc w + of_nat 0" using wr
      by (auto simp: walk_record_def Let_def elim!: sbindE split: if_split_asm)
    moreover have "s' = put_bytes [] s" using er other by (auto simp: emit_record_def put_bytes_def)
    ultimately show ?thesis using appends_put [of s "[]"] by (intro app [of s' 0]) simp_all
  qed
qed

section \<open>The whole file\<close>

lemma run_agrees:
  assumes "in_step orig w s" and "walk_records recs ns w = Inr wx" and "emit_records ri recs p1 ns s = Inr s'"
    and "\<forall>rec\<in>set recs. wf_record rec" and "p1_origin (w_res wx) = orig"
    and "length (e_out s) + walk_span recs ns w < 2 ^ 48"
    and "keeps orig (length (e_out s) + walk_span recs ns w) wx p1"
    and "\<forall>n\<in>set (defined_names recs ns). p1_symbols (w_res w) n = None" and "distinct (defined_names recs ns)"
  shows "in_step orig wx s' \<and> length (e_out s') = length (e_out s) + walk_span recs ns w"
  using assms
proof (induction recs arbitrary: ri w s)
  case (Cons rec recs)
  let ?k = "length (e_out s)"
  obtain w' where w': "walk_record rec ns w = Inr w'" "walk_records recs ns w' = Inr wx"
    using Cons.prems(2) by (auto elim!: sbindE)
  obtain s1 where s1: "emit_record ri rec p1 ns s = Inr s1" "emit_records (Suc ri) recs p1 ns s1 = Inr s'"
    using Cons.prems(3) by (auto elim!: sbindE)
  have st: "settled orig ?k w" using Cons.prems(1) by (simp add: in_step_def)
  have o: "p1_origin (w_res w) = orig" using st by (simp add: settled_def)
  have o': "p1_origin (w_res w') = orig" using walk_records_origin [OF w'(2) _ w'(1)] Cons.prems(5) o by simp
  let ?d = "unat (w_pc w' - w_pc w)"
  have span: "walk_span (rec # recs) ns w = ?d + walk_span recs ns w'" by (simp add: w' o o')
  have b: "?k + ?d < 2 ^ 48" "?k < 2 ^ 48" "?k + ?d + walk_span recs ns w' < 2 ^ 48" using Cons.prems(6) span by simp_all
  have wf: "wf_record rec" "\<forall>rec\<in>set recs. wf_record rec" using Cons.prems(4) by simp_all
  from walk_record_step [OF st w'(1) wf(1) o' b(2)]
  have st': "settled orig (?k + ?d) w'" and a: "advances rec ns w w'" by simp_all
  have none: "\<forall>n\<in>set (defined_names recs ns). p1_symbols (w_res w') n = None"
  proof
    fix n assume "n \<in> set (defined_names recs ns)"
    then have "n \<notin> set (record_names rec ns)" "p1_symbols (w_res w) n = None" using Cons.prems(8,9) by auto
    then show "p1_symbols (w_res w') n = None" using a by (simp add: advances_def)
  qed
  have d: "distinct (defined_names recs ns)" using Cons.prems(9) by simp
  have kx: "keeps orig (?k + ?d + walk_span recs ns w') wx p1" using Cons.prems(7) unfolding span by (simp add: add.assoc)
  have k': "keeps orig (?k + ?d) w' p1"
    using walk_future [OF st' w'(2) wf(2) Cons.prems(5) b(3) none d] kx by blast
  have k: "keeps orig ?k w p1" using Cons.prems(8) by (intro keeps_step [OF k' a st st' _ b(1)]) auto
  have "in_step orig w' s1 \<and> length (e_out s1) = ?k + ?d"
    by (rule step_agrees [OF Cons.prems(1) w'(1) s1(1) wf(1) o' b(1) k']) (use k in \<open>simp add: keeps_def\<close>)
  then have step: "in_step orig w' s1" and len: "length (e_out s1) = ?k + ?d" by simp_all
  have "in_step orig wx s' \<and> length (e_out s') = length (e_out s1) + walk_span recs ns w'"
    using b(3) kx none by (intro Cons.IH [OF step w'(2) s1(2) wf(2) Cons.prems(5) _ _ _ d]) (simp_all add: len)
  then show ?case by (simp only: len span add.assoc)
qed simp

lemma seed_labels_frame:
  "seed_labels lrs ns res = Inr res' \<Longrightarrow>
     p1_pool res' = p1_pool res \<and> p1_flush_entries res' = p1_flush_entries res \<and> p1_flush_at res' = p1_flush_at res
     \<and> p1_origin res' = p1_origin res \<and> p1_total_size res' = p1_total_size res \<and> p1_record_pc res' = p1_record_pc res
     \<and> (\<forall>n. n \<notin> set (header_names lrs ns) \<longrightarrow> p1_symbols res' n = p1_symbols res n)"
proof (induction lrs arbitrary: res)
  case (Cons lr lrs)
  then obtain name where n: "name_at ns (label_name lr) = Inr name"
    and r: "seed_labels lrs ns (define_label name (p1_origin res + label_offset lr) res) = Inr res'" by (auto elim!: sbindE)
  have "header_names (lr # lrs) ns = name # header_names lrs ns"
    using n by (auto simp: header_names_def name_at_def split: if_split_asm)
  then show ?case using Cons.IH [OF r] by (auto simp: define_label_def)
qed simp

lemma seed_locals_frame:
  "p1_pool (seed_locals lrs res) = p1_pool res \<and> p1_flush_entries (seed_locals lrs res) = p1_flush_entries res
     \<and> p1_flush_at (seed_locals lrs res) = p1_flush_at res \<and> p1_origin (seed_locals lrs res) = p1_origin res
     \<and> p1_total_size (seed_locals lrs res) = p1_total_size res \<and> p1_record_pc (seed_locals lrs res) = p1_record_pc res
     \<and> p1_symbols (seed_locals lrs res) = p1_symbols res"
  by (induction lrs arbitrary: res) (simp_all add: define_local_def)

lemma pass1_result:
  assumes "pass1 f = Inr p1" and "walk_records (f_records f) (f_names f) walk_init = Inr wx"
  shows "p1_pool p1 = p1_pool (w_res (flush_pool wx)) \<and> p1_flush_entries p1 = p1_flush_entries (w_res (flush_pool wx))
     \<and> p1_flush_at p1 = p1_flush_at (w_res (flush_pool wx)) \<and> p1_origin p1 = p1_origin (w_res wx)
     \<and> p1_total_size p1 = w_pc (flush_pool wx) \<and> p1_record_pc p1 = p1_record_pc (w_res (flush_pool wx))
     \<and> (\<forall>n. n \<notin> set (header_names (f_labels f) (f_names f)) \<longrightarrow> p1_symbols p1 n = p1_symbols (w_res (flush_pool wx)) n)"
proof -
  obtain res where r: "seed_labels (f_labels f) (f_names f) ((w_res (flush_pool wx))\<lparr>p1_total_size := w_pc (flush_pool wx)\<rparr>) = Inr res"
    and p: "p1 = seed_locals (f_locals f) res"
    using assms by (auto simp: pass1_def Let_def elim!: sbindE)
  show ?thesis using seed_labels_frame [OF r] by (simp add: p seed_locals_frame)
qed

lemma pass1_keeps:
  assumes "pass1 f = Inr p1" and "walk_records (f_records f) (f_names f) walk_init = Inr wx"
    and st: "settled orig k wx" and k: "k + pending_len wx < 2 ^ 48"
    and none: "\<forall>n\<in>set (header_names (f_labels f) (f_names f)). p1_symbols (w_res wx) n = None"
  shows "keeps orig (k + pending_len wx) (flush_pool wx) p1 \<and> keeps orig k wx p1
    \<and> p1_total_size p1 = orig + of_nat (k + pending_len wx) \<and> p1_record_pc p1 = p1_record_pc (w_res wx)"
proof -
  note f = flush_settled [OF st]
  note p = pass1_result [OF assms(1,2)]
  have o: "p1_origin (w_res wx) = orig" using st by (simp add: settled_def)
  have "p1_symbols p1 n = Some v" if "p1_symbols (w_res (flush_pool wx)) n = Some v" for n v
  proof -
    have "n \<notin> set (header_names (f_labels f) (f_names f))" using that none f(6) by auto
    then show ?thesis using p that by simp
  qed
  then have kf: "keeps orig (k + pending_len wx) (flush_pool wx) p1" using p o by (simp add: keeps_def)
  moreover have "p1_total_size p1 = orig + of_nat (k + pending_len wx)" using p f(4) st by (simp add: settled_def)
  ultimately show ?thesis using keeps_flush [OF kf st k] p f(7) by simp
qed

section \<open>Before the origin\<close>

text \<open>A record that emits nothing and does not move the PC.\<close>

definition zero_size :: "tbn_record \<Rightarrow> bool" where
  "zero_size rec \<longleftrightarrow> r_kind rec \<notin> {KindInst, KindLitInsts, KindLitData, KindInsnRun}
     \<and> (r_kind rec = KindDirective \<longrightarrow> directive_name (directive_id rec) \<in> set silent_directives)"

text \<open>
  A file that sets an origin does so with its first record that has a size, and the operand of that
  \<^verbatim>\<open>.org\<close>, evaluated again by pass 2 at the origin, has the same value.
\<close>

definition origin_ok :: "tbn_file \<Rightarrow> pass1_result \<Rightarrow> bool" where
  "origin_ok f p1 \<longleftrightarrow> p1_origin p1 = 0 \<or>
     (case dropWhile zero_size (f_records f) of
        [] \<Rightarrow> False
      | rec # recs \<Rightarrow>
          r_kind rec = KindDirective \<and> directive_name (directive_id rec) = ''.org''
          \<and> (case walk_records (takeWhile zero_size (f_records f) @ [rec]) (f_names f) walk_init of
                Inl _ \<Rightarrow> False | Inr w \<Rightarrow> p1_origin (w_res w) \<noteq> 0)
          \<and> (case first_operand (operands rec) of
                Inl _ \<Rightarrow> False | Inr o' \<Rightarrow> eval_at (o_expr o') (p1_origin p1) p1 (f_names f) = Inr (p1_origin p1)))"

definition unmoved :: "pass1_state \<Rightarrow> bool" where
  "unmoved w \<longleftrightarrow> w_pc w = 0 \<and> p1_origin (w_res w) = 0 \<and> p1_pool (w_res w) = [] \<and> w_order w = []
     \<and> w_pending w = Map.empty \<and> p1_flush_entries (w_res w) = Map.empty"

lemma zero_walk:
  assumes "walk_record rec ns w = Inr w'" and "zero_size rec" and "unmoved w" and wf: "wf_record rec"
  shows "unmoved w' \<and> (\<forall>n. n \<notin> set (record_names rec ns) \<longrightarrow> p1_symbols (w_res w') n = p1_symbols (w_res w) n)
    \<and> length (p1_record_pc (w_res w')) = Suc (length (p1_record_pc (w_res w)))"
proof -
  have st: "settled 0 0 w" using assms(3) by (simp add: unmoved_def settled_def)
  let ?w = "w\<lparr>w_res := (w_res w)\<lparr>p1_record_pc := p1_record_pc (w_res w) @ [w_pc w]\<rparr>\<rparr>"
  have u: "unmoved ?w" using assms(3) by (simp add: unmoved_def)
  have "unmoved w'"
  proof (cases "r_kind rec = KindDirective")
    case True
    then have wd: "walk_directive rec ns ?w = Inr w'" and n: "directive_name (directive_id rec) \<in> set silent_directives"
      using assms(1,2) by (simp_all add: walk_record_def Let_def zero_size_def)
    have equ: "unmoved (?w\<lparr>w_res := res\<rparr>)" if "resolve_equ rec ns (w_res ?w) = Inr res" for res
      using that u by (auto simp: resolve_equ_def unmoved_def elim!: sbindE split: option.splits if_split_asm)
    show ?thesis
    proof (cases "directive_name (directive_id rec) = ''.equ'' \<or> directive_name (directive_id rec) = ''.set''")
      case True
      then show ?thesis using wd equ by (auto simp: walk_directive_def Let_def elim!: sbindE)
    next
      case False
      then have "w' = ?w\<lparr>w_pc := w_pc ?w + 0\<rparr>"
        using wd n by (auto simp: walk_directive_def directive_size_def Let_def silent_directives_def advance_def elim!: sbindE)
      then show ?thesis using u by (simp add: unmoved_def)
    qed
  next
    case False
    then show ?thesis using assms(1,2) u
      by (auto simp: walk_record_def Let_def zero_size_def unmoved_def define_label_def define_local_def elim!: sbindE split: if_split_asm)
  qed
  moreover from this have "(\<forall>n. n \<notin> set (record_names rec ns) \<longrightarrow> p1_symbols (w_res w') n = p1_symbols (w_res w) n)
    \<and> length (p1_record_pc (w_res w')) = Suc (length (p1_record_pc (w_res w)))"
    using walk_record_step [OF st assms(1) wf] by (simp add: unmoved_def advances_def)
  ultimately show ?thesis by simp
qed

lemma zero_emit: "emit_record ri rec p1 ns s = Inr s' \<Longrightarrow> zero_size rec \<Longrightarrow> s' = s"
  by (auto simp: emit_record_def emit_directive_def encode_directive_def zero_size_def Let_def silent_directives_def put_bytes_def
      elim!: sbindE split: if_split_asm)

lemma zero_walks:
  assumes "walk_records recs ns w = Inr w'" and "list_all zero_size recs" and "unmoved w" and "list_all wf_record recs"
  shows "unmoved w' \<and> (\<forall>n. n \<notin> set (defined_names recs ns) \<longrightarrow> p1_symbols (w_res w') n = p1_symbols (w_res w) n)
    \<and> length (p1_record_pc (w_res w')) = length (p1_record_pc (w_res w)) + length recs"
  using assms
proof (induction recs arbitrary: w)
  case (Cons rec recs)
  then obtain w1 where w1: "walk_record rec ns w = Inr w1" "walk_records recs ns w1 = Inr w'" by (auto elim!: sbindE)
  have "zero_size rec" "wf_record rec" using Cons.prems by simp_all
  note z = zero_walk [OF w1(1) this(1) Cons.prems(3) this(2)]
  show ?case using Cons.IH [OF w1(2)] Cons.prems z by auto
qed simp

lemma zero_emits: "emit_records ri recs p1 ns s = Inr s' \<Longrightarrow> list_all zero_size recs \<Longrightarrow> s' = s"
proof (induction recs arbitrary: ri s)
  case (Cons rec recs)
  then obtain s1 where s1: "emit_record ri rec p1 ns s = Inr s1" "emit_records (Suc ri) recs p1 ns s1 = Inr s'" by (auto elim!: sbindE)
  have "s1 = s" using zero_emit [OF s1(1)] Cons.prems by simp
  then show ?case using Cons.IH [OF s1(2)] Cons.prems by simp
qed simp

lemma walk_records_append:
  "walk_records (xs @ ys) ns w = sbind (walk_records xs ns w) (walk_records ys ns)"
  by (induction xs arbitrary: w) (auto simp: sbind_assoc intro: sbind_cong)

lemma emit_records_append:
  "emit_records ri (xs @ ys) p1 ns s = sbind (emit_records ri xs p1 ns s) (emit_records (ri + length xs) ys p1 ns)"
  by (induction xs arbitrary: ri s) (auto simp: sbind_assoc intro: sbind_cong)

lemma walk_span_append:
  "walk_records xs ns w = Inr w' \<Longrightarrow> walk_span (xs @ ys) ns w = walk_span xs ns w + walk_span ys ns w'"
  by (induction xs arbitrary: w) (auto elim!: sbindE)

lemma zero_span:
  "walk_records recs ns w = Inr w' \<Longrightarrow> list_all zero_size recs \<Longrightarrow> unmoved w \<Longrightarrow> list_all wf_record recs \<Longrightarrow> walk_span recs ns w = 0"
proof (induction recs arbitrary: w)
  case (Cons rec recs)
  then obtain w1 where w1: "walk_record rec ns w = Inr w1" "walk_records recs ns w1 = Inr w'" by (auto elim!: sbindE)
  have "zero_size rec" "wf_record rec" using Cons.prems by simp_all
  from zero_walk [OF w1(1) this(1) Cons.prems(3) this(2)] have u: "unmoved w1" by simp
  then show ?case using Cons.IH [OF w1(2)] Cons.prems(2,3,4) w1(1) by (simp add: unmoved_def)
qed simp

lemma defined_names_append [simp]: "defined_names (xs @ ys) ns = defined_names xs ns @ defined_names ys ns"
  by (simp add: defined_names_def)

text \<open>The state in which the origin is fixed, and the records from there on.\<close>

lemma origin_start:
  assumes "pass1 f = Inr p1" and "walk_records (f_records f) (f_names f) walk_init = Inr wx"
    and "origin_ok f p1" and wf: "\<forall>rec\<in>set (f_records f). wf_record rec"
    and "distinct (defined_names (f_records f) (f_names f))"
  shows "\<exists>xs ys w. f_records f = xs @ ys \<and> walk_records xs (f_names f) walk_init = Inr w \<and> walk_span xs (f_names f) walk_init = 0
    \<and> settled (p1_origin p1) 0 w \<and> w_pc w = p1_origin p1 \<and> length (p1_record_pc (w_res w)) = length xs
    \<and> length xs \<le> (if p1_origin p1 = 0 then 0 else Suc (length (takeWhile zero_size (f_records f))))
    \<and> (\<forall>n. n \<notin> set (defined_names xs (f_names f)) \<longrightarrow> p1_symbols (w_res w) n = None)
    \<and> (\<forall>s'. keeps (p1_origin p1) 0 w p1 \<longrightarrow> emit_records 0 xs p1 (f_names f) (pass2_init p1) = Inr s' \<longrightarrow> s' = pass2_init p1)"
proof -
  let ?ns = "f_names f" let ?orig = "p1_origin p1"
  have o: "?orig = p1_origin (w_res wx)" using pass1_result [OF assms(1,2)] by simp
  have u: "unmoved walk_init" by (simp add: unmoved_def walk_init_def pass1_init_def)
  show ?thesis
  proof (cases "?orig = 0")
    case True
    have "settled 0 0 walk_init" by (simp add: settled_def walk_init_def pass1_init_def)
    then show ?thesis using True
      by (intro exI [of _ "[]"] exI [of _ "f_records f"] exI [of _ walk_init]) (simp add: walk_init_def pass1_init_def)
  next
    case False
    define pre where pre_def: "pre = takeWhile zero_size (f_records f)"
    obtain rec ys where d: "dropWhile zero_size (f_records f) = rec # ys"
      and org: "r_kind rec = KindDirective" "directive_name (directive_id rec) = ''.org''"
      and ow: "case walk_records (pre @ [rec]) ?ns walk_init of Inl _ \<Rightarrow> False | Inr w \<Rightarrow> p1_origin (w_res w) \<noteq> 0"
      and oe: "case first_operand (operands rec) of Inl _ \<Rightarrow> False | Inr o' \<Rightarrow> eval_at (o_expr o') ?orig p1 ?ns = Inr ?orig"
      using assms(3) False by (auto simp: origin_ok_def pre_def split: list.splits)
    obtain w where w: "walk_records (pre @ [rec]) ?ns walk_init = Inr w" and w0: "p1_origin (w_res w) \<noteq> 0"
      using ow by (cases "walk_records (pre @ [rec]) ?ns walk_init") auto
    obtain o' where fo: "first_operand (operands rec) = Inr o'" and ev: "eval_at (o_expr o') ?orig p1 ?ns = Inr ?orig"
      using oe by (cases "first_operand (operands rec)") auto
    have f: "f_records f = (pre @ [rec]) @ ys" using takeWhile_dropWhile_id [of zero_size "f_records f"] d by (simp add: pre_def)
    have pre: "list_all zero_size pre" "list_all wf_record pre"
      using wf by (auto simp: list_all_iff pre_def dest: set_takeWhileD)
    obtain w1 where w1: "walk_records pre ?ns walk_init = Inr w1" "walk_record rec ?ns w1 = Inr w"
      using w by (auto simp: walk_records_append elim!: sbindE)
    note z = zero_walks [OF w1(1) pre(1) u pre(2)]
    have u1: "unmoved w1" using z by simp
    let ?w1 = "w1\<lparr>w_res := (w_res w1)\<lparr>p1_record_pc := p1_record_pc (w_res w1) @ [w_pc w1]\<rparr>\<rparr>"
    have "walk_org rec ?ns ?w1 = Inr w" using w1(2) org by (simp add: walk_record_def walk_directive_def Let_def)
    then obtain target where w: "w = ?w1\<lparr>w_res := (w_res ?w1)\<lparr>p1_origin := target\<rparr>, w_pc := target\<rparr>"
      using walk_org_cases [of rec ?ns ?w1 w] w0 u1 by (auto simp: unmoved_def)
    have "walk_records ys ?ns w = Inr wx"
      using assms(2) f w1 by (simp add: walk_records_append)
    then have "p1_origin (w_res wx) = p1_origin (w_res w)" using walk_records_once w0 by blast
    then have t: "target = ?orig" by (simp add: o w)
    have st: "settled ?orig 0 w" using u1 by (simp add: w t settled_def unmoved_def)
    have span: "walk_span (pre @ [rec]) ?ns walk_init = 0"
      using walk_span_append [OF w1(1)] zero_span [OF w1(1) pre(1) u pre(2)] w1(2) w0 u1 by (simp add: unmoved_def)
    have emit: "s' = pass2_init p1" if em: "emit_records 0 (pre @ [rec]) p1 ?ns (pass2_init p1) = Inr s'" for s'
    proof -
      obtain s1 where s1: "emit_records 0 pre p1 ?ns (pass2_init p1) = Inr s1"
          "emit_record (length pre) rec p1 ?ns s1 = Inr s'"
        using em by (auto simp: emit_records_append elim!: sbindE)
      have "s1 = pass2_init p1" by (rule zero_emits [OF s1(1) pre(1)])
      then have "emit_org rec p1 ?ns (pass2_init p1) = Inr s'"
        using s1(2) org by (simp add: emit_record_def emit_directive_def)
      then show ?thesis using False fo ev by (simp add: emit_org_def pass2_init_def)
    qed
    have len: "length (p1_record_pc (w_res w)) = length (pre @ [rec])" using z by (simp add: w walk_init_def pass1_init_def)
    have le: "length (pre @ [rec]) \<le> (if ?orig = 0 then 0 else Suc (length (takeWhile zero_size (f_records f))))"
      using False by (simp add: pre_def [symmetric])
    have none: "\<forall>n. n \<notin> set (defined_names (pre @ [rec]) ?ns) \<longrightarrow> p1_symbols (w_res w) n = None"
      using z by (simp add: w walk_init_def pass1_init_def)
    have walk: "walk_records (pre @ [rec]) ?ns walk_init = Inr w" using w1 by (simp add: walk_records_append)
    have pc: "w_pc w = ?orig" by (simp add: w t)
    show ?thesis using f walk span st pc len le none emit by blast
  qed
qed

section \<open>The passes together\<close>

definition assembles_ok :: "tbn_file \<Rightarrow> pass1_result \<Rightarrow> bool" where
  "assembles_ok f p1 \<longleftrightarrow> list_all wf_record (f_records f)
     \<and> distinct (defined_names (f_records f) (f_names f) @ header_names (f_labels f) (f_names f))
     \<and> image_span f < 2 ^ 48 \<and> origin_ok f p1"

lemma passes_reach:
  assumes p: "pass1 f = Inr p1" and ok: "assembles_ok f p1" and split: "f_records f = us @ vs"
    and from_org: "p1_origin p1 = 0 \<or> length (takeWhile zero_size (f_records f)) < length us"
    and em: "emit_records 0 us p1 (f_names f) (pass2_init p1) = Inr s"
  shows "\<exists>w wx. in_step (p1_origin p1) w s \<and> walk_records vs (f_names f) w = Inr wx
    \<and> walk_records (f_records f) (f_names f) walk_init = Inr wx
    \<and> length (p1_record_pc (w_res w)) = length us
    \<and> image_span f = length (e_out s) + walk_span vs (f_names f) w + pending_len wx
    \<and> p1_origin (w_res wx) = p1_origin p1
    \<and> (\<forall>n\<in>set (defined_names vs (f_names f)). p1_symbols (w_res w) n = None)
    \<and> keeps (p1_origin p1) (length (e_out s) + walk_span vs (f_names f) w + pending_len wx) (flush_pool wx) p1
    \<and> keeps (p1_origin p1) (length (e_out s) + walk_span vs (f_names f) w) wx p1
    \<and> p1_record_pc p1 = p1_record_pc (w_res wx) \<and> p1_total_size p1 = p1_origin p1 + of_nat (image_span f)"
proof -
  let ?ns = "f_names f" let ?orig = "p1_origin p1"
  have wf: "\<forall>rec\<in>set (f_records f). wf_record rec" and bound: "image_span f < 2 ^ 48" and oo: "origin_ok f p1"
    and dist: "distinct (defined_names (f_records f) ?ns @ header_names (f_labels f) ?ns)"
    using ok by (auto simp: assembles_ok_def list_all_iff)
  have dr: "distinct (defined_names (f_records f) ?ns)" using dist by simp
  obtain wx where wx: "walk_records (f_records f) ?ns walk_init = Inr wx"
    using p by (auto simp: pass1_def elim!: sbindE)
  have o: "p1_origin (w_res wx) = ?orig" using pass1_result [OF p wx] by simp
  obtain xs ys w0 where f: "f_records f = xs @ ys" and x: "walk_records xs ?ns walk_init = Inr w0"
    and span0: "walk_span xs ?ns walk_init = 0" and st0: "settled ?orig 0 w0" and pc0: "w_pc w0 = ?orig"
    and len0: "length (p1_record_pc (w_res w0)) = length xs"
    and le: "length xs \<le> (if ?orig = 0 then 0 else Suc (length (takeWhile zero_size (f_records f))))"
    and none0: "\<And>n. n \<notin> set (defined_names xs ?ns) \<Longrightarrow> p1_symbols (w_res w0) n = None"
    and em0: "\<And>s'. keeps ?orig 0 w0 p1 \<Longrightarrow> emit_records 0 xs p1 ?ns (pass2_init p1) = Inr s' \<Longrightarrow> s' = pass2_init p1"
    using origin_start [OF p wx oo wf dr] by blast
  have y: "walk_records ys ?ns w0 = Inr wx" using wx x by (simp add: f walk_records_append)
  have "length xs \<le> length us" using le from_org by (auto split: if_split_asm)
  then obtain zs where us: "us = xs @ zs" and ys: "ys = zs @ vs"
    using f split by (metis append_eq_append_conv2 append_eq_conv_conj append_self_conv le_zero_eq length_0_conv length_append nat_add_left_cancel_le append_Nil2 le_add_same_cancel1 add_le_same_cancel1)
  obtain w where z: "walk_records zs ?ns w0 = Inr w" and v: "walk_records vs ?ns w = Inr wx"
    using y by (auto simp: ys walk_records_append elim!: sbindE)
  have span: "walk_span (f_records f) ?ns walk_init = walk_span zs ?ns w0 + walk_span vs ?ns w"
    using walk_span_append [OF x] walk_span_append [OF z] span0 by (simp add: f ys)
  have image: "image_span f = walk_span zs ?ns w0 + walk_span vs ?ns w + pending_len wx"
    by (simp add: image_span_def wx span)
  have "p1_origin (w_res w0) = ?orig" using st0 by (simp add: settled_def)
  then have ow: "p1_origin (w_res w) = ?orig"
    using walk_records_once [OF z] walk_records_once [OF v] o by auto
  have wfs: "\<forall>rec\<in>set zs. wf_record rec" "\<forall>rec\<in>set vs. wf_record rec" using wf by (simp_all add: f ys)
  have ds: "distinct (defined_names zs ?ns)" "distinct (defined_names vs ?ns)" using dr by (simp_all add: f ys)
  have n0: "\<forall>n\<in>set (defined_names zs ?ns). p1_symbols (w_res w0) n = None" using dr none0 by (auto simp: f ys)
  have fz: "settled ?orig (walk_span zs ?ns w0) w"
      "\<And>n. n \<notin> set (defined_names zs ?ns) \<Longrightarrow> p1_symbols (w_res w) n = p1_symbols (w_res w0) n"
      "length (p1_record_pc (w_res w)) = length us"
      "\<And>p1. keeps ?orig (walk_span zs ?ns w0) w p1 \<Longrightarrow> keeps ?orig 0 w0 p1"
    using walk_future [OF st0 z wfs(1) ow _ n0 ds(1)] bound image len0 by (auto simp: us)
  have nv: "\<forall>n\<in>set (defined_names vs ?ns). p1_symbols (w_res w) n = None"
  proof
    fix n assume "n \<in> set (defined_names vs ?ns)"
    then have "n \<notin> set (defined_names zs ?ns)" "n \<notin> set (defined_names xs ?ns)" using dr by (auto simp: f ys)
    then show "p1_symbols (w_res w) n = None" using fz(2) none0 by simp
  qed
  have fv: "settled ?orig (walk_span zs ?ns w0 + walk_span vs ?ns w) wx"
      "\<And>n. n \<notin> set (defined_names vs ?ns) \<Longrightarrow> p1_symbols (w_res wx) n = p1_symbols (w_res w) n"
      "\<And>p1. keeps ?orig (walk_span zs ?ns w0 + walk_span vs ?ns w) wx p1 \<Longrightarrow> keeps ?orig (walk_span zs ?ns w0) w p1"
    using walk_future [OF fz(1) v wfs(2) o _ nv ds(2)] bound image by auto
  have nh: "\<forall>n\<in>set (header_names (f_labels f) ?ns). p1_symbols (w_res wx) n = None"
  proof
    fix n assume "n \<in> set (header_names (f_labels f) ?ns)"
    then have "n \<notin> set (defined_names vs ?ns)" "n \<notin> set (defined_names zs ?ns)" "n \<notin> set (defined_names xs ?ns)"
      using dist by (auto simp: f ys)
    then show "p1_symbols (w_res wx) n = None" using fv(2) fz(2) none0 by simp
  qed
  note pk = pass1_keeps [OF p wx fv(1) bound [unfolded image] nh]
  have kw: "keeps ?orig (walk_span zs ?ns w0) w p1" using pk fv(3) by blast
  obtain s0 where s0: "emit_records 0 xs p1 ?ns (pass2_init p1) = Inr s0" "emit_records (length xs) zs p1 ?ns s0 = Inr s"
    using em by (auto simp: us emit_records_append elim!: sbindE)
  have s0': "s0 = pass2_init p1" by (rule em0 [OF fz(4) [OF kw] s0(1)])
  have in0: "in_step ?orig w0 s0" "length (e_out s0) = 0" using st0 pc0 by (simp_all add: s0' in_step_def pass2_init_def)
  have "in_step ?orig w s \<and> length (e_out s) = length (e_out s0) + walk_span zs ?ns w0"
    by (rule run_agrees [OF in0(1) z s0(2) wfs(1) ow _ _ n0 ds(1)]) (use bound image kw in0(2) in simp_all)
  then show ?thesis using v wx fz(3) image o nv pk in0(2) by (intro exI [of _ w] exI [of _ wx]) simp
qed

lemma origin_index:
  assumes "origin_ok f p1"
  shows "p1_origin p1 = 0 \<or> length (takeWhile zero_size (f_records f)) < length (f_records f)"
proof -
  have "length (takeWhile zero_size (f_records f)) + length (dropWhile zero_size (f_records f)) = length (f_records f)"
    by (metis length_append takeWhile_dropWhile_id)
  then show ?thesis using assms by (auto simp: origin_ok_def split: list.split_asm)
qed

definition demo_file :: tbn_file where
  "demo_file = \<lparr>f_version = 3, f_flags = 0, f_names = [[0x61]], f_labels = [], f_locals = [], f_globals = [], f_sidecar = [],
     f_comments = [], f_records =
       [(record0 KindDirective [])\<lparr>directive_id := 12, operand_count := 1, operands := [5, 3, 0, OpPushImm16, 0, 0x40]\<rparr>,
        (record0 KindInsnRun [])\<lparr>mode := 1, elements :=
          [\<lparr>base_word = 0x14000000, patches = [\<lparr>patch_slot = FoldBranch26, patch_expr = [OpPushSym, 0, 0]\<rparr>]\<rparr>,
           \<lparr>base_word = 0x58000000, patches = [\<lparr>patch_slot = FoldLitpool19, patch_expr = [OpPushImm8, 5]\<rparr>]\<rparr>]\<rparr>,
        (record0 KindLitData [])\<lparr>lit_data := [7, 8, 9, 10]\<rparr>,
        (record0 KindLabelDef [])\<lparr>symbol_id := 0\<rparr>]\<rparr>"

definition demo_p1 :: pass1_result where
  "demo_p1 = \<lparr>p1_symbols = [[0x61] \<mapsto> 0x400c], p1_local_defs = \<lambda>d. [], p1_label_defs = [[0x61]], p1_total_size = 0x4018,
     p1_origin = 0x4000, p1_pool = [\<lparr>pe_width = 8, pe_expr = [OpPushImm8, 5], pe_pc = 0x4010, pe_eval_pc = 0x4004\<rparr>],
     p1_ldr_idx = [0x4004 \<mapsto> 0], p1_flush_at = [0x400c \<mapsto> 0x4018], p1_flush_entries = [0x400c \<mapsto> [0]],
     p1_inst_pc = [], p1_record_pc = [0, 0x4000, 0x4008, 0x400c]\<rparr>"

lemma demo_org: "first_operand [5, 3, 0, OpPushImm16, 0, 0x40] = Inr ((operand0 5)\<lparr>o_expr := [OpPushImm16, 0, 0x40]\<rparr>)"
  by (simp add: first_operand_def operand_next_def operand0_def take_counted_def read_len_def take_bytes_def)

lemma demo_eval: "eval_usage [OpPushImm16, 0, 0x40] ctx = Inr 0x4000" "eval_usage [OpPushImm8, 5] ctx = Inr 5"
  "eval_usage [OpPushSym, 0, 0] (make_ctx pc demo_p1 [[0x61]]) = Inr 0x400c"
  by (simp_all add: eval_usage_def eval_def eval_loop.simps expr_next_def operand_width_def eval_step_def push_value_def
     resolve_symbol_def make_ctx_def lookup_symbol_def demo_p1_def)

lemmas demo_walk = walk_record_def record0_def Let_def register_literal_def walk_init_def pass1_init_def
   advance_def name_at_def define_label_def flush_pool_def fours_def eights_def align_to_def walk_directive_def directive_name_def
   DirectiveTable_def walk_org_def demo_org demo_eval operand0_def

lemma demo_pass1: "pass1 demo_file = Inr demo_p1"
  by (simp add: pass1_def demo_file_def demo_p1_def demo_walk)

lemma demo_p1_fields: "p1_origin demo_p1 = 0x4000" "p1_ldr_idx demo_p1 = [0x4004 \<mapsto> 0]"
  "p1_pool demo_p1 = [\<lparr>pe_width = 8, pe_expr = [OpPushImm8, 5], pe_pc = 0x4010, pe_eval_pc = 0x4004\<rparr>]"
  "p1_flush_at demo_p1 = [0x400c \<mapsto> 0x4018]" "p1_flush_entries demo_p1 = [0x400c \<mapsto> [0]]"
  by (simp_all add: demo_p1_def)

lemma demo_fold: "fold_slot FoldBranch26 0x400c 0x4000 b = Inr 3" "fold_slot FoldLitpool19 0x4010 0x4004 b = Inr 0x60"
  by (simp_all add: fold_slot_def encode_branch_imm_def Let_def go_defs signed_divide_int_def signed_modulo_int_def)

lemma le_put4: "le_put 4 w = [ucast w, ucast (drop_bit 8 w), ucast (drop_bit 16 w), ucast (drop_bit 24 w)]"
  by (simp add: numeral_eq_Suc drop_bit_drop_bit)

lemma le_put8: "le_put 8 w = le_put 4 w @ le_put 4 (drop_bit 32 w)"
  by (simp add: numeral_eq_Suc drop_bit_drop_bit)

lemma demo_bytes: "put_u32 0x14000003 = [3, 0, 0, 0x14]" "put_u32 0x58000060 = [0x60, 0, 0, 0x58]"
  "le_put 8 (5 :: i64) = [5, 0, 0, 0, 0, 0, 0, 0]" "replicate 4 (0 :: u8) = [0, 0, 0, 0]"
  by (simp_all add: le_put8 le_put4) (simp add: numeral_eq_Suc)

definition demo_out :: bytes where
  "demo_out = [3, 0, 0, 0x14, 0x60, 0, 0, 0x58, 7, 8, 9, 10, 0, 0, 0, 0, 5, 0, 0, 0, 0, 0, 0, 0]"

definition demo_map :: "code_word list" where
  "demo_map = [\<lparr>cw_off = 0, cw_pc = 0x4000, cw_word = 0x14000003, cw_rec = 1\<rparr>, \<lparr>cw_off = 4, cw_pc = 0x4004, cw_word = 0x58000060, cw_rec = 1\<rparr>]"

lemma demo_pass2: "pass2_with_map demo_file demo_p1 = Inr (demo_out, demo_map)"
  by (simp add: pass2_with_map_def demo_file_def emit_record_def record0_def Let_def element_word_def patch_value_def
    pass2_init_def emit_word_def put_bytes_def emit_directive_def emit_org_def demo_org demo_eval directive_name_def
   DirectiveTable_def operand0_def eval_at_def emit_flush_def demo_p1_fields demo_fold fours_def eights_def pad_to_def
   demo_out_def demo_map_def demo_bytes)

lemma demo_ok: "assembles_ok demo_file demo_p1"
proof -
  have "list_all wf_record (f_records demo_file)"
    by (simp add: demo_file_def record0_def wf_record_def count_ok_def data_width_def directive_name_def DirectiveTable_def)
  moreover have "defined_names (f_records demo_file) (f_names demo_file) = [[0x61]]" "header_names (f_labels demo_file) (f_names demo_file) = []"
    by (simp_all add: demo_file_def record0_def defined_names_def record_names_def header_names_def directive_name_def DirectiveTable_def)
  moreover have "image_span demo_file = 24"
    by (simp add: image_span_def demo_file_def demo_walk pending_len_def flush_len_def pad_len_def)
  moreover have "origin_ok demo_file demo_p1"
    by (simp add: origin_ok_def demo_file_def demo_walk zero_size_def silent_directives_def demo_p1_fields eval_at_def)
  ultimately show ?thesis by (simp add: assembles_ok_def)
qed

text \<open>
  C2.  The two passes agree.  For a file of well-formed records in which no symbol is defined
  twice, that fits a 48-bit address space and whose leading \<^verbatim>\<open>.org\<close>, if any, is one pass 2 sees
  with the same value: the image has exactly the size that pass 1 laid out, pass 1's total size is
  its end, and every instruction word stands at the address its code word says, counted from the
  origin.
\<close>

theorem two_pass_agreement:
  assumes "pass1 f = Inr p1" and "assembles_ok f p1" and "pass2_with_map f p1 = Inr (out, cmap)"
  shows "length out = image_span f \<and> p1_total_size p1 = p1_origin p1 + of_nat (length out)
    \<and> (\<forall>cw\<in>set cmap. code_ok (p1_origin p1) out cw)"
proof -
  let ?ns = "f_names f" let ?orig = "p1_origin p1"
  obtain s0 s where 0: "emit_records 0 (f_records f) p1 ?ns (pass2_init p1) = Inr s0"
    and 1: "emit_flush p1 ?ns s0 = Inr s" and s: "out = e_out s" "cmap = e_cmap s"
    using assms(3) by (auto simp: pass2_with_map_def elim!: sbindE)
  have split: "f_records f = f_records f @ []" by simp
  have "origin_ok f p1" using assms(2) by (simp add: assembles_ok_def)
  from passes_reach [OF assms(1,2) split origin_index [OF this] 0] obtain wx where
    st: "in_step ?orig wx s0" and image: "image_span f = length (e_out s0) + pending_len wx"
    and kf: "keeps ?orig (length (e_out s0) + pending_len wx) (flush_pool wx) p1"
    and total: "p1_total_size p1 = ?orig + of_nat (image_span f)"
    by auto
  have "image_span f < 2 ^ 48" using assms(2) by (simp add: assembles_ok_def)
  from flush_agrees [OF st 1 this [unfolded image] kf] have a: "appends s0 s (pending_len wx)" .
  have lits: "\<forall>rec\<in>set (f_records f). length (lit_words rec) = 4 * unat (lit_count rec)"
    using assms(2) by (simp add: assembles_ok_def list_all_iff wf_record_def)
  have "code_map_ok (pass2_init p1)" by (simp add: code_map_ok_def pass2_init_def)
  then have "code_map_ok s" by (intro code_map_ok_flush [OF 1] code_map_ok_records [OF 0 _ lits])
  then have "\<forall>cw\<in>set cmap. code_ok ?orig out cw"
    using a st by (simp add: s code_map_ok_def appends_def in_step_def)
  moreover have "length out = image_span f" using a by (auto simp: s image appends_def)
  ultimately show ?thesis using total by simp
qed

lemma two_pass_agreement_witness:
  "image_span demo_file = 24 \<and> p1_total_size demo_p1 = p1_origin demo_p1 + 24 \<and> code_ok 0x4000 demo_out (demo_map ! 1)"
  using two_pass_agreement [OF demo_pass1 demo_ok demo_pass2] by (simp add: demo_out_def demo_map_def demo_p1_fields)

lemma pass2_code_words_witness:
  "sorted_wrt (\<lambda>a b. cw_off a + 4 \<le> cw_off b) demo_map \<and> (\<exists>orig. code_ok orig demo_out (demo_map ! 1))"
proof -
  have "\<forall>rec\<in>set (f_records demo_file). length (lit_words rec) = 4 * unat (lit_count rec)"
    using demo_ok by (simp add: assembles_ok_def list_all_iff wf_record_def)
  from pass2_code_words [OF demo_pass2 this] show ?thesis by (auto simp: demo_map_def)
qed

text \<open>Pass 2 before record \<open>i\<close>, and what pass 1 still has to walk from there.\<close>

lemma record_reached:
  assumes "pass1 f = Inr p1" and "assembles_ok f p1" and "i < length (f_records f)"
    and "p1_origin p1 = 0 \<or> length (takeWhile zero_size (f_records f)) < i"
    and "emit_records 0 (take i (f_records f)) p1 (f_names f) (pass2_init p1) = Inr s"
    and "recs = f_records f ! i # drop (Suc i) (f_records f)"
  obtains w wx where "settled (p1_origin p1) (length (e_out s)) w" and "e_pc s = w_pc w"
    and "walk_records recs (f_names f) w = Inr wx" and "p1_origin (w_res wx) = p1_origin p1"
    and "\<forall>n\<in>set (defined_names recs (f_names f)). p1_symbols (w_res w) n = None"
    and "distinct (defined_names recs (f_names f))" and "\<forall>rec\<in>set recs. wf_record rec"
    and "length (e_out s) + walk_span recs (f_names f) w < 2 ^ 48"
    and "keeps (p1_origin p1) (length (e_out s) + walk_span recs (f_names f) w) wx p1"
    and "p1_record_pc p1 ! i = w_pc w"
proof -
  let ?ns = "f_names f" let ?orig = "p1_origin p1"
  have split: "f_records f = take i (f_records f) @ recs" unfolding assms(6) using assms(3) by (rule id_take_nth_drop)
  have from_org: "?orig = 0 \<or> length (takeWhile zero_size (f_records f)) < length (take i (f_records f))"
    using assms(3,4) by simp
  from passes_reach [OF assms(1,2) split from_org assms(5)] assms(3) obtain w wx where
    st: "in_step ?orig w s" and v: "walk_records recs ?ns w = Inr wx" and len: "length (p1_record_pc (w_res w)) = i"
    and image: "image_span f = length (e_out s) + walk_span recs ?ns w + pending_len wx"
    and o: "p1_origin (w_res wx) = ?orig" and none: "\<forall>n\<in>set (defined_names recs ?ns). p1_symbols (w_res w) n = None"
    and kx: "keeps ?orig (length (e_out s) + walk_span recs ?ns w) wx p1"
    and rp: "p1_record_pc p1 = p1_record_pc (w_res wx)"
    by auto
  have sw: "settled ?orig (length (e_out s)) w" and pc: "e_pc s = w_pc w" using st by (auto simp: in_step_def)
  have wf: "\<forall>rec\<in>set recs. wf_record rec"
    using assms(2,3) unfolding assms(6) by (auto simp: assembles_ok_def list_all_iff dest: in_set_dropD)
  have "distinct (defined_names (take i (f_records f) @ recs) ?ns)"
    using assms(2) unfolding split [symmetric] by (simp add: assembles_ok_def)
  then have d: "distinct (defined_names recs ?ns)" by simp
  have b: "length (e_out s) + walk_span recs ?ns w < 2 ^ 48" using assms(2) image by (simp add: assembles_ok_def)
  from walk_future [OF sw v wf o b none d] obtain pcs where
    pcs: "p1_record_pc (w_res wx) = p1_record_pc (w_res w) @ pcs" "length pcs = length recs" "hd pcs = w_pc w"
    by (auto simp: assms(6))
  then have "p1_record_pc p1 ! i = w_pc w" using rp len assms(6) by (cases pcs) (auto simp: nth_append)
  then show thesis by (rule that [OF sw pc v o none d wf b kx])
qed

lemma label_settled:
  assumes sw: "settled orig k w" and v: "walk_records (rec # vs) ns w = Inr wx" and o: "p1_origin (w_res wx) = orig"
    and none: "\<forall>n\<in>set (defined_names (rec # vs) ns). p1_symbols (w_res w) n = None"
    and d: "distinct (defined_names (rec # vs) ns)" and wf: "\<forall>rec\<in>set (rec # vs). wf_record rec"
    and b: "k + walk_span (rec # vs) ns w < 2 ^ 48" and kx: "keeps orig (k + walk_span (rec # vs) ns w) wx p1"
    and label: "r_kind rec = KindLabelDef"
  shows "p1_symbols p1 (ns ! unat (symbol_id rec)) = Some (w_pc w)"
proof -
  obtain w' where w': "walk_record rec ns w = Inr w'" "walk_records vs ns w' = Inr wx"
    using v by (auto elim!: sbindE)
  have o': "p1_origin (w_res w') = orig" using walk_records_origin [OF w'(2) _ w'(1)] o sw by (simp add: settled_def)
  have span: "walk_span (rec # vs) ns w = unat (w_pc w' - w_pc w) + walk_span vs ns w'"
    using sw by (simp add: w' o' settled_def)
  have k: "k < 2 ^ 48" and b': "k + unat (w_pc w' - w_pc w) + walk_span vs ns w' < 2 ^ 48" using b span by simp_all
  have wfr: "wf_record rec" "\<forall>rec\<in>set vs. wf_record rec" using wf by simp_all
  from walk_record_step [OF sw w'(1) wfr(1) o' k]
  have s': "settled orig (k + unat (w_pc w' - w_pc w)) w'" and a: "advances rec ns w w'" by simp_all
  have none': "\<forall>n\<in>set (defined_names vs ns). p1_symbols (w_res w') n = None"
  proof
    fix n assume "n \<in> set (defined_names vs ns)"
    then have "n \<notin> set (record_names rec ns)" "p1_symbols (w_res w) n = None" using none d by auto
    then show "p1_symbols (w_res w') n = None" using a by (simp add: advances_def)
  qed
  have d': "distinct (defined_names vs ns)" using d by simp
  have "keeps orig (k + unat (w_pc w' - w_pc w)) w' p1"
    using walk_future [OF s' w'(2) wfr(2) o b' none' d'] kx unfolding span by (simp add: add.assoc)
  moreover have "p1_symbols (w_res w') (ns ! unat (symbol_id rec)) = Some (w_pc w)"
    using w'(1) label by (auto simp: walk_record_def Let_def name_at_def define_label_def split: if_split_asm)
  ultimately show ?thesis by (simp add: keeps_def)
qed

text \<open>
  C16.  A symbol is an address.  The theorem is about a file that \<open>assembles_ok\<close>: its records are well
  formed, in particular the operand count byte of a data directive is the number of its operands
  (256 values of \<^verbatim>\<open>.byte\<close> have the count 0 and displace what follows); no symbol is defined twice, by
  records or header tables; the image spans less than 2 to the 48; and a leading \<^verbatim>\<open>.org\<close> evaluates again,
  at the origin, to the same value.  In such a file pass 2 comes to every record, of a file without an
  origin, and to every record after the leading \<^verbatim>\<open>.org\<close>, of a file with one, exactly at the PC that pass
  1 recorded for it, which is the origin plus the number of bytes emitted before; a label there has the
  address of the byte that follows it.  A label before the leading \<^verbatim>\<open>.org\<close> has the address 0, not the
  origin, and is not covered.
\<close>

theorem label_addresses:
  assumes "pass1 f = Inr p1" and "assembles_ok f p1" and "i < length (f_records f)"
    and "p1_origin p1 = 0 \<or> length (takeWhile zero_size (f_records f)) < i"
    and "emit_records 0 (take i (f_records f)) p1 (f_names f) (pass2_init p1) = Inr s"
  shows "p1_record_pc p1 ! i = p1_origin p1 + of_nat (length (e_out s)) \<and> e_pc s = p1_record_pc p1 ! i
    \<and> (r_kind (f_records f ! i) = KindLabelDef \<longrightarrow>
         p1_symbols p1 (f_names f ! unat (symbol_id (f_records f ! i))) = Some (p1_origin p1 + of_nat (length (e_out s))))"
proof (rule record_reached [OF assms refl])
  fix w wx
  assume r: "settled (p1_origin p1) (length (e_out s)) w" "e_pc s = w_pc w" "p1_record_pc p1 ! i = w_pc w"
    and rest: "walk_records (f_records f ! i # drop (Suc i) (f_records f)) (f_names f) w = Inr wx"
      "p1_origin (w_res wx) = p1_origin p1"
      "\<forall>n\<in>set (defined_names (f_records f ! i # drop (Suc i) (f_records f)) (f_names f)). p1_symbols (w_res w) n = None"
      "distinct (defined_names (f_records f ! i # drop (Suc i) (f_records f)) (f_names f))"
      "\<forall>rec\<in>set (f_records f ! i # drop (Suc i) (f_records f)). wf_record rec"
      "length (e_out s) + walk_span (f_records f ! i # drop (Suc i) (f_records f)) (f_names f) w < 2 ^ 48"
      "keeps (p1_origin p1) (length (e_out s) + walk_span (f_records f ! i # drop (Suc i) (f_records f)) (f_names f) w) wx p1"
  have "w_pc w = p1_origin p1 + of_nat (length (e_out s))" using r(1) by (simp add: settled_def)
  with r(2,3) label_settled [OF r(1) rest] show ?thesis by simp
qed

lemma demo_before_label:
  "emit_records 0 (take 3 (f_records demo_file)) demo_p1 (f_names demo_file) (pass2_init demo_p1)
     = Inr \<lparr>e_out = [3, 0, 0, 0x14, 0x60, 0, 0, 0x58, 7, 8, 9, 10], e_cmap = demo_map, e_pc = 0x400c, e_origin = 0x4000\<rparr>"
  by (simp add: demo_file_def emit_record_def record0_def Let_def element_word_def patch_value_def
    pass2_init_def emit_word_def put_bytes_def emit_directive_def emit_org_def demo_org demo_eval directive_name_def
   DirectiveTable_def operand0_def eval_at_def demo_p1_fields demo_fold demo_map_def demo_bytes)

lemma label_addresses_witness:
  "p1_symbols demo_p1 [0x61] = Some (0x4000 + 12) \<and> p1_record_pc demo_p1 ! 3 = 0x400c"
proof -
  have "length (takeWhile zero_size (f_records demo_file)) < 3"
    by (simp add: demo_file_def record0_def zero_size_def silent_directives_def directive_name_def DirectiveTable_def)
  then show ?thesis using label_addresses [OF demo_pass1 demo_ok _ _ demo_before_label]
    by (simp add: demo_file_def record0_def demo_p1_fields)
qed

end
