(* ===== verification/Asm_Compact.thy ===== *)
theory Asm_Compact
  imports Asm_Pass2 Record_Props
begin

text \<open>
  Compaction, \<^verbatim>\<open>compact.go\<close> and \<^verbatim>\<open>overlay.go\<close> of \<^verbatim>\<open>tools/sam-aarch64/assemble\<close>: every instruction
  becomes an element of an overlay run (its word with the relocated field cleared, and a patch that
  folds the field in again), constant data collapses, and labels, comments, blank lines and
  \<^verbatim>\<open>.global\<close> names move to the tables of the file.
\<close>

section \<open>Overlay elements\<close>

text \<open>Slot, expression, whether it is a pool literal, its width, and the destination register.\<close>

record overlay_class =
  oc_slot :: u8
  oc_expr :: bytes
  oc_litpool :: bool
  oc_width :: u8
  oc_rt :: u8

definition overlay_of :: "u8 \<Rightarrow> bytes \<Rightarrow> overlay_class" where
  "overlay_of slot e = \<lparr>oc_slot = slot, oc_expr = e, oc_litpool = False, oc_width = 0, oc_rt = 0\<rparr>"

definition fold_slot_pc_dependent :: "u8 \<Rightarrow> bool" where
  "fold_slot_pc_dependent fs = (fs \<in> set [FoldBranch26, FoldBranch19, FoldBranch14, FoldAdr, FoldAdrp, FoldLitpool19])"

definition classify_mem :: "u16 \<Rightarrow> operand list \<Rightarrow> overlay_class res" where
  "classify_mem m ops =
     (if (m = 7 \<or> m = 8) \<and> length ops \<ge> 3 \<and> o_kind (ops ! 2) = OpMem
      then (if o_expr (ops ! 2) = [] then Inl (Error ''overlay: pair with no offset expr'')
            else Inr (overlay_of FoldPairImm7 (o_expr (ops ! 2))))
      else case find (\<lambda>o'. o_kind o' = OpMem) ops of
        None \<Rightarrow> Inl (Error ''overlay: mem operand has no symbolic offset'')
      | Some mem \<Rightarrow>
          if o_expr mem = [] then Inl (Error ''overlay: mem operand has no symbolic offset'')
          else if is_unscaled_mem_mnemonic m then Inr (overlay_of FoldMemImm9 (o_expr mem))
          else if o_mem_shape mem = MemBaseOff then Inr (overlay_of FoldMemImm12 (o_expr mem))
          else if o_mem_shape mem = MemBaseOffPre \<or> o_mem_shape mem = MemBaseOffPost
          then Inr (overlay_of FoldMemImm9 (o_expr mem))
          else Inl (Error ''overlay: mem shape has no symbolic encoding''))"

definition classify_mov_imm :: "operand list \<Rightarrow> i64 \<Rightarrow> pass1_result \<Rightarrow> bytes list \<Rightarrow> overlay_class res" where
  "classify_mov_imm ops pc p1 ns =
     sbind (eval_at (o_expr (ops ! 1)) pc p1 ns) (\<lambda>v.
       let is64 = o_kind (ops ! 0) = OpRegX in
       if find_chunk is64 (mov_imm_value is64 v) \<noteq> None then Inr (overlay_of FoldMovzAuto (o_expr (ops ! 1)))
       else case encode_logical_imm logical_slot v is64 of
              Inr _ \<Rightarrow> Inr (overlay_of FoldLogical (o_expr (ops ! 1)))
            | Inl _ \<Rightarrow> Inl (Error ''overlay: mov has no movz/orr overlay encoding''))"

text \<open>The first immediate in a slot with a fold that is symbolic or PC-relative.\<close>

fun relocated_operand :: "operand list \<Rightarrow> operand_slot list \<Rightarrow> (u8 \<times> bytes) option" where
  "relocated_operand (o' # os) (s # ss) =
     (if o_kind o' \<noteq> OpImmExpr then relocated_operand os ss
      else case fold_slot_for_kind (slot_kind s) of
        None \<Rightarrow> relocated_operand os ss
      | Some fs \<Rightarrow>
          if expr_has_context_dep (o_expr o') \<or> fold_slot_pc_dependent fs then Some (fs, o_expr o')
          else relocated_operand os ss)"
| "relocated_operand _ _ = None"

definition classify_form :: "u16 \<Rightarrow> operand list \<Rightarrow> overlay_class res" where
  "classify_form m ops =
     (case validate_operand_kinds m (map o_kind ops) of
        Inl e \<Rightarrow> Inl e
      | Inr f \<Rightarrow>
          (case relocated_operand ops (slots f) of
             None \<Rightarrow> Inl (Error ''overlay: no relocated operand found'')
           | Some (fs, e) \<Rightarrow> Inr (overlay_of fs e)))"

definition special_mnemonics :: "u16 list" where
  "special_mnemonics = [17, 18, 49, 50, 51, 83, 84, 47, 52, 66, 67, 68, 70, 76, 77, 78, 79]"

definition classify_operands :: "u16 \<Rightarrow> operand list \<Rightarrow> i64 \<Rightarrow> pass1_result \<Rightarrow> bytes list \<Rightarrow> overlay_class res" where
  "classify_operands m ops pc p1 ns =
     (case compound_kind ops of
        Some k \<Rightarrow>
          if k = OpMem then classify_mem m ops
          else if k = OpShiftedReg \<or> k = OpExtendedReg then Inl (Error ''overlay: symbolic operand unsupported'')
          else (case find (\<lambda>o'. o_kind o' = OpLitPool) ops of
                  None \<Rightarrow> Inl Panic
                | Some o' \<Rightarrow> Inr \<lparr>oc_slot = FoldLitpool19, oc_expr = o_expr o', oc_litpool = True,
                    oc_width = o_width o', oc_rt = o_reg (ops ! 0)\<rparr>)
      | None \<Rightarrow>
          if m = mnem ''mov'' \<and> is_reg_imm ops then classify_mov_imm ops pc p1 ns
          else if m = mnem ''ldr'' \<and> is_reg_imm ops then Inr (overlay_of FoldBranch19 (o_expr (ops ! 1)))
          else if m = 22 \<or> m = 23
          then (if length ops < 3 then Inl (Error ''overlay: tbz/tbnz needs 3 operands'')
                else Inr (overlay_of FoldBranch14 (o_expr (ops ! 2))))
          else if m \<in> set special_mnemonics then Inl (Error ''overlay: special form has no overlay slot'')
          else classify_form m ops)"

definition overlay_classify :: "tbn_record \<Rightarrow> i64 \<Rightarrow> pass1_result \<Rightarrow> bytes list \<Rightarrow> overlay_class res" where
  "overlay_classify rec pc p1 ns =
     sbind (read_operands (operands rec)) (\<lambda>ops. classify_operands (r_mnemonic rec) ops pc p1 ns)"

definition assert_overlay :: "tbn_record \<Rightarrow> u32 \<Rightarrow> u8 \<Rightarrow> bytes \<Rightarrow> i64 \<Rightarrow> pass1_result \<Rightarrow> bytes list \<Rightarrow> unit res" where
  "assert_overlay rec base slot e pc p1 ns =
     sbind (encode_inst rec pc p1 ns) (\<lambda>full.
       sbind (eval_at e pc p1 ns) (\<lambda>v.
         sbind (fold_slot slot v pc base) (\<lambda>bits.
           if base OR bits \<noteq> full then Inl (Error ''overlay assert: base|fold differs from the encoder'') else Inr ())))"

definition encode_inst_overlay :: "tbn_record \<Rightarrow> i64 \<Rightarrow> pass1_result \<Rightarrow> bytes list \<Rightarrow> (u32 \<times> insn_patch list) res" where
  "encode_inst_overlay rec pc p1 ns =
     sbind (overlay_classify rec pc p1 ns) (\<lambda>c.
       let patch = \<lparr>patch_slot = oc_slot c, patch_expr = oc_expr c\<rparr> in
       if oc_litpool c
       then Inr ((if oc_width c = 8 then 0x58000000 else 0x18000000) OR ucast (oc_rt c), [patch])
       else sbind (encode_inst rec pc p1 ns) (\<lambda>full.
         let base = zero_slot full (oc_slot c) in
         sbind (assert_overlay rec base (oc_slot c) (oc_expr c) pc p1 ns) (\<lambda>_. Inr (base, [patch]))))"

section \<open>Literal instructions\<close>

definition pc_probe_a :: i64 where "pc_probe_a = 0"
definition pc_probe_b :: i64 where "pc_probe_b = 0x40000"

text \<open>An error of the encoder makes the instruction symbolic, a panic is a panic.\<close>

fun no_error :: "'a res \<Rightarrow> 'a option res" where
  "no_error (Inl Panic) = Inl Panic"
| "no_error (Inl (Error _)) = Inr None"
| "no_error (Inr a) = Inr (Some a)"

definition literal_word :: "tbn_record \<Rightarrow> pass1_result \<Rightarrow> bytes list \<Rightarrow> u32 option res" where
  "literal_word rec p1 ns =
     sbind (is_fully_literal rec) (\<lambda>lit.
       if \<not> lit then Inr None
       else sbind (no_error (encode_inst rec pc_probe_a p1 ns)) (\<lambda>wa. case wa of
              None \<Rightarrow> Inr None
            | Some a \<Rightarrow>
                sbind (no_error (encode_inst rec pc_probe_b p1 ns)) (\<lambda>wb. case wb of
                  None \<Rightarrow> Inr None
                | Some b \<Rightarrow> if a \<noteq> b then Inr None else Inr (Some a))))"

definition compact_inst :: "tbn_record \<Rightarrow> i64 \<Rightarrow> pass1_result \<Rightarrow> bytes list \<Rightarrow> insn_element res" where
  "compact_inst rec pc p1 ns =
     sbind (literal_word rec p1 ns) (\<lambda>lw. case lw of
       Some w \<Rightarrow> Inr \<lparr>base_word = w, patches = []\<rparr>
     | None \<Rightarrow> sbind (encode_inst_overlay rec pc p1 ns) (\<lambda>(base, ps). Inr \<lparr>base_word = base, patches = ps\<rparr>))"

section \<open>Frames\<close>

abbreviation insn_run_max_payload :: nat where "insn_run_max_payload \<equiv> 1016"
abbreviation lit_data_max_bytes :: nat where "lit_data_max_bytes \<equiv> 1016"
abbreviation lit_break :: nat where "lit_break \<equiv> 4"

text \<open>Whole words per frame of mode 0; whole elements in a data record of at most 1016 bytes.\<close>

function chunks :: "nat \<Rightarrow> 'a list \<Rightarrow> 'a list list" where
  "chunks mx xs = (if xs = [] \<or> mx = 0 then [] else take mx xs # chunks mx (drop mx xs))"
  by pat_completeness auto
termination
  by (relation "measure (\<lambda>(mx, xs). length xs)") auto

declare chunks.simps [simp del]

definition patch_size :: "insn_patch \<Rightarrow> nat" where
  "patch_size p = 1 + length (patch_expr p) + (if length (patch_expr p) \<ge> 15 then 1 else 0)"

definition insn_element_size :: "insn_element \<Rightarrow> nat" where
  "insn_element_size el = 4 + 1 + sum_list (map patch_size (patches el))"

fun mode1_frames :: "insn_element list \<Rightarrow> nat \<Rightarrow> insn_element list \<Rightarrow> insn_element list list" where
  "mode1_frames cur payload [] = (if cur \<noteq> [] then [cur] else [])"
| "mode1_frames cur payload (el # els) =
     (let sz = insn_element_size el in
      if cur \<noteq> [] \<and> payload + sz > insn_run_max_payload then cur # mode1_frames [el] (1 + sz) els
      else mode1_frames (cur @ [el]) (payload + sz) els)"

text \<open>How far an overlay frame reaches: a short gap of literals is absorbed, a long or final one is not.\<close>

definition is_lit :: "insn_element \<Rightarrow> bool" where
  "is_lit el \<longleftrightarrow> patches el = []"

function overlay_extent :: "insn_element list \<Rightarrow> nat" where
  "overlay_extent els =
     (case els of
        [] \<Rightarrow> 0
      | el # rest \<Rightarrow>
          if \<not> is_lit el then Suc (overlay_extent rest)
          else let gap = length (takeWhile is_lit els) in
            if gap \<ge> lit_break \<or> gap = length els then 0 else gap + overlay_extent (drop gap els))"
  by pat_completeness auto
termination
  by (relation "measure length") auto

declare overlay_extent.simps [simp del]

function insn_frames :: "insn_element list \<Rightarrow> (u8 \<times> insn_element list) list" where
  "insn_frames els =
     (case els of
        [] \<Rightarrow> []
      | el # rest \<Rightarrow>
          if is_lit el
          then let n = length (takeWhile is_lit els) in
            map (Pair 0) (chunks ((insn_run_max_payload - 1) div 4) (take n els)) @ insn_frames (drop n els)
          else let n = Suc (overlay_extent rest) in
            map (Pair 1) (mode1_frames [] 1 (take n els)) @ insn_frames (drop n els))"
  by pat_completeness auto
termination
  by (relation "measure length") auto

declare insn_frames.simps [simp del]

fun write_frames :: "bytes \<Rightarrow> (u8 \<times> insn_element list) list \<Rightarrow> bytes res" where
  "write_frames buf [] = Inr buf"
| "write_frames buf ((m, els) # fs) = sbind (write_insn_run buf m els) (\<lambda>buf. write_frames buf fs)"

definition emit_insn_run_frames :: "bytes \<Rightarrow> insn_element list \<Rightarrow> bytes res" where
  "emit_insn_run_frames buf els = write_frames buf (insn_frames els)"

section \<open>The record stream\<close>

record compact_state =
  k_buf :: bytes
  k_inst :: "insn_element list"
  k_data :: bytes
  k_dir :: u8
  k_width :: nat
  k_idx :: nat
  k_sidecar :: "sidecar_row list"
  k_globals :: "u16 list"

definition compact_init :: compact_state where
  "compact_init = \<lparr>k_buf = [], k_inst = [], k_data = [], k_dir = 0, k_width = 0, k_idx = 0, k_sidecar = [], k_globals = []\<rparr>"

definition flush_inst :: "compact_state \<Rightarrow> compact_state res" where
  "flush_inst s = sbind (emit_insn_run_frames (k_buf s) (k_inst s)) (\<lambda>buf. Inr (s\<lparr>k_buf := buf, k_inst := []\<rparr>))"

definition flush_data :: "compact_state \<Rightarrow> compact_state" where
  "flush_data s =
     (if k_width s = 0 then s
      else s\<lparr>k_buf := foldl (\<lambda>buf c. write_lit_data buf (k_dir s) c) (k_buf s)
                (chunks (lit_data_max_bytes div k_width s * k_width s) (k_data s)),
             k_data := [], k_width := 0\<rparr>)"

definition flush_all :: "compact_state \<Rightarrow> compact_state res" where
  "flush_all s = sbind (flush_inst s) (\<lambda>s. Inr (flush_data s))"

function global_name_ids_loop :: "bytes \<Rightarrow> u16 list option res" where
  "global_name_ids_loop buf =
     (if buf = [] then Inr (Some [])
      else case operand_next buf of
        Inl Panic \<Rightarrow> Inl Panic
      | Inl (Error _) \<Rightarrow> Inr None
      | Inr (o', rest) \<Rightarrow>
          if o_kind o' \<noteq> OpImmExpr then Inr None
          else case extract_sym_id (o_expr o') of
            None \<Rightarrow> Inr None
          | Some n \<Rightarrow> sbind (global_name_ids_loop rest) (\<lambda>ids. Inr (map_option (\<lambda>ids. n # ids) ids)))"
  by pat_completeness auto
termination
  by (relation "measure length") (auto dest: operand_next_shorter)

declare global_name_ids_loop.simps [simp del]

definition global_name_ids :: "tbn_record \<Rightarrow> u16 list option res" where
  "global_name_ids rec =
     sbind (global_name_ids_loop (operands rec)) (\<lambda>ids. Inr (if ids = Some [] then None else ids))"

text \<open>A comment before the \<^verbatim>\<open>.org\<close> that sets the origin is anchored at 0.\<close>

definition anchor_of :: "nat \<Rightarrow> pass1_result \<Rightarrow> i64 res" where
  "anchor_of i p1 =
     (if i \<ge> length (p1_record_pc p1) then Inl Panic
      else let a = p1_record_pc p1 ! i - p1_origin p1 in Inr (if sint a < 0 then 0 else a))"

definition add_sidecar :: "sidecar_row \<Rightarrow> compact_state \<Rightarrow> compact_state" where
  "add_sidecar row s = s\<lparr>k_sidecar := k_sidecar s @ [row]\<rparr>"

definition blank0 :: blank_run where
  "blank0 = \<lparr>b_anchor = 0, b_run_len = 0\<rparr>"

definition compact_instruction :: "tbn_record \<Rightarrow> pass1_result \<Rightarrow> bytes list \<Rightarrow> compact_state \<Rightarrow> compact_state res" where
  "compact_instruction rec p1 ns s0 =
     (let s = flush_data s0 in
      if k_idx s \<ge> length (p1_inst_pc p1) then Inl (Error ''compact: instruction index past pass1 InstPC'')
      else sbind (compact_inst rec (p1_inst_pc p1 ! k_idx s) p1 ns) (\<lambda>el.
        Inr (s\<lparr>k_idx := Suc (k_idx s), k_inst := k_inst s @ [el]\<rparr>)))"

definition add_data :: "u8 \<Rightarrow> nat \<Rightarrow> bytes \<Rightarrow> compact_state \<Rightarrow> compact_state res" where
  "add_data d width rw s0 =
     sbind (flush_inst s0) (\<lambda>s.
       let s = (if k_width s \<noteq> 0 \<and> k_dir s \<noteq> d then flush_data s else s)
       in Inr (s\<lparr>k_dir := d, k_width := width, k_data := k_data s @ rw\<rparr>))"

definition pass_through :: "tbn_record \<Rightarrow> compact_state \<Rightarrow> compact_state res" where
  "pass_through rec s0 =
     sbind (flush_all s0) (\<lambda>s.
       if r_kind rec = KindDirective
       then Inr (s\<lparr>k_buf := write_directive (k_buf s) (directive_id rec) (operand_count rec) (operands rec)\<rparr>)
       else Inl (Error ''compact: unexpected pass-through record kind''))"

text \<open>Constant data, or \<open>None\<close> for a record that stays symbolic.\<close>

definition const_data :: "tbn_record \<Rightarrow> pass1_result \<Rightarrow> bytes list \<Rightarrow> (nat \<times> bytes) option res" where
  "const_data rec p1 ns =
     sbind (const_data_width rec) (\<lambda>w. case w of
       None \<Rightarrow> Inr None
     | Some width \<Rightarrow>
         sbind (no_error (encode_directive rec 0 p1 ns)) (\<lambda>rw.
           Inr (case rw of None \<Rightarrow> None | Some bs \<Rightarrow> if bs = [] then None else Some (width, bs))))"

definition compact_record :: "nat \<Rightarrow> tbn_record \<Rightarrow> pass1_result \<Rightarrow> bytes list \<Rightarrow> compact_state \<Rightarrow> compact_state res" where
  "compact_record i rec p1 ns s =
     (if r_kind rec = KindLabelDef \<or> r_kind rec = KindLocalDef then Inr (flush_data s)
      else if r_kind rec = KindComment
      then sbind (anchor_of i p1) (\<lambda>a. Inr (add_sidecar \<lparr>s_kind = SidecarComment,
             s_comment = \<lparr>c_anchor = a, c_placement = placement rec, c_body = body rec\<rparr>, s_blank = blank0\<rparr> s))
      else if r_kind rec = KindBlankRun
      then sbind (anchor_of i p1) (\<lambda>a. Inr (add_sidecar \<lparr>s_kind = SidecarBlank,
             s_comment = comment0, s_blank = \<lparr>b_anchor = a, b_run_len = run_len rec\<rparr>\<rparr> s))
      else sbind (if r_kind rec = KindDirective \<and> directive_name (directive_id rec) = ''.global''
                  then global_name_ids rec else Inr None) (\<lambda>ids. case ids of
        Some ids \<Rightarrow> Inr (s\<lparr>k_globals := k_globals s @ ids\<rparr>)
      | None \<Rightarrow>
          if r_kind rec = KindInst then compact_instruction rec p1 ns s
          else sbind (const_data rec p1 ns) (\<lambda>d. case d of
                 Some (width, rw) \<Rightarrow> add_data (directive_id rec) width rw s
               | None \<Rightarrow> pass_through rec s)))"

fun compact_records :: "nat \<Rightarrow> tbn_record list \<Rightarrow> pass1_result \<Rightarrow> bytes list \<Rightarrow> compact_state \<Rightarrow> compact_state res" where
  "compact_records i [] p1 ns s = Inr s"
| "compact_records i (rec # recs) p1 ns s = sbind (compact_record i rec p1 ns s) (compact_records (Suc i) recs p1 ns)"

definition compact :: "tbn_file \<Rightarrow> pass1_result \<Rightarrow> (bytes \<times> sidecar_row list \<times> u16 list) res" where
  "compact f p1 =
     sbind (compact_records 0 (f_records f) p1 (f_names f) compact_init) (\<lambda>s.
       sbind (flush_all s) (\<lambda>s. Inr (k_buf s, k_sidecar s, k_globals s)))"

section \<open>The header tables\<close>

text \<open>
  The maps are iterated in any order; here labels come in the order of \<open>p1_label_defs\<close> and digits in
  ascending order.  The rows are sorted when the file is written.
\<close>

definition name_id_of :: "bytes list \<Rightarrow> bytes \<Rightarrow> u16" where
  "name_id_of ns name = (case map_of (zip ns [0..<length ns]) name of None \<Rightarrow> 0 | Some i \<Rightarrow> of_nat i)"

definition header_rows :: "bytes list \<Rightarrow> pass1_result \<Rightarrow> label_row list \<times> local_row list" where
  "header_rows ns p1 =
     (map (\<lambda>name. \<lparr>label_name = name_id_of ns name,
         label_offset = (case p1_symbols p1 name of None \<Rightarrow> 0 | Some v \<Rightarrow> v) - p1_origin p1\<rparr>) (p1_label_defs p1),
      concat (map (\<lambda>d. map (\<lambda>pc. \<lparr>local_digit = d, local_offset = pc - p1_origin p1\<rparr>) (p1_local_defs p1 d))
        (map of_nat [0..<256])))"

definition compact_tbn_bytes :: "tbn_file \<Rightarrow> pass1_result \<Rightarrow> bytes res" where
  "compact_tbn_bytes f p1 =
     sbind (compact f p1) (\<lambda>(recs, sidecar, globals).
       case header_rows (f_names f) p1 of (labels, locals) \<Rightarrow>
         (case write_file buffer_write [] (snd (intern_all (f_names f) new_symbol_table)) labels locals recs globals sidecar of
            (Some err, _) \<Rightarrow> Inl (Error err)
          | (None, out) \<Rightarrow> Inr out))"

end
