(* ===== verification/Compact_Frames.thy ===== *)
theory Compact_Frames
  imports Asm_Compact
begin

text \<open>
  The frames of compaction: the packing of a run of instructions, and the splitting of constant
  data, keep the elements in order and fit the 1016-byte budget of the reader's staging buffer.
\<close>

section \<open>Chunks\<close>

lemma concat_chunks: "0 < mx \<Longrightarrow> concat (chunks mx xs) = xs"
  by (induction mx xs rule: chunks.induct) (subst chunks.simps, auto)

lemma chunks_length: "c \<in> set (chunks mx xs) \<Longrightarrow> c \<noteq> [] \<and> length c \<le> mx"
  by (induction mx xs rule: chunks.induct) (subst (asm) chunks.simps, auto split: if_split_asm)

lemma chunks_elements: "c \<in> set (chunks mx xs) \<Longrightarrow> set c \<subseteq> set xs"
proof (induction mx xs rule: chunks.induct)
  case (1 mx xs)
  then show ?case
    using set_take_subset [of mx xs] set_drop_subset [of mx xs]
    by (subst (asm) (2) chunks.simps) (auto split: if_split_asm)
qed

section \<open>Mode 1\<close>

definition mode1_payload :: "insn_element list \<Rightarrow> nat" where
  "mode1_payload els = 1 + sum_list (map insn_element_size els)"

lemma mode1_payload_append [simp]: "mode1_payload (els @ [el]) = mode1_payload els + insn_element_size el"
  by (simp add: mode1_payload_def)

lemma concat_mode1_frames: "concat (mode1_frames cur p els) = cur @ els"
  by (induction cur p els rule: mode1_frames.induct) (simp_all add: Let_def)

definition frame_fits :: "insn_element list \<Rightarrow> bool" where
  "frame_fits els \<longleftrightarrow> els \<noteq> [] \<and> (mode1_payload els \<le> insn_run_max_payload \<or> length els = 1)"

lemma mode1_frames_fit:
  "p = mode1_payload cur \<Longrightarrow> cur = [] \<or> frame_fits cur \<Longrightarrow> fr \<in> set (mode1_frames cur p els) \<Longrightarrow> frame_fits fr"
proof (induction cur p els rule: mode1_frames.induct)
  case (2 cur p el els)
  let ?sz = "insn_element_size el"
  show ?case
  proof (cases "cur \<noteq> [] \<and> p + ?sz > insn_run_max_payload")
    case True
    have "mode1_payload [el] = 1 + ?sz" "frame_fits [el]" by (simp_all add: mode1_payload_def frame_fits_def)
    with 2(1) [OF refl True] 2(4,5) True show ?thesis by (auto simp: Let_def)
  next
    case False
    then have "frame_fits (cur @ [el])" using 2(3) by (auto simp: frame_fits_def)
    with 2(2) [OF refl False] 2(3,5) False show ?thesis by (auto simp: Let_def)
  qed
qed (auto split: if_split_asm)

lemma mode1_frames_elements: "fr \<in> set (mode1_frames cur p els) \<Longrightarrow> set fr \<subseteq> set cur \<union> set els"
  using concat_mode1_frames [of cur p els] by (metis UN_upper set_append set_concat)

section \<open>A whole run\<close>

lemma overlay_extent_le: "overlay_extent els \<le> length els"
proof (induction els rule: overlay_extent.induct)
  case (1 els)
  let ?gap = "length (takeWhile is_lit els)"
  show ?case
  proof (cases els)
    case (Cons el rest)
    show ?thesis
    proof (cases "is_lit el \<and> \<not> (?gap \<ge> lit_break \<or> ?gap = length els)")
      case True
      then have "overlay_extent (drop ?gap els) \<le> length (drop ?gap els)"
        using 1(2) [OF Cons _ refl] by blast
      then show ?thesis using Cons True length_takeWhile_le [of is_lit els]
        by (subst overlay_extent.simps) (simp del: takeWhile.simps add: Let_def)
    next
      case False
      then show ?thesis using 1(1) [OF Cons] Cons
        by (subst overlay_extent.simps) (auto simp: Let_def)
    qed
  qed (simp add: overlay_extent.simps)
qed

definition good_frame :: "u8 \<times> insn_element list \<Rightarrow> bool" where
  "good_frame = (\<lambda>(m, els).
     m = 0 \<and> els \<noteq> [] \<and> list_all is_lit els \<and> 1 + 4 * length els \<le> insn_run_max_payload
     \<or> m = 1 \<and> frame_fits els)"

lemma concat_pairs: "concat (map snd (map (Pair m) xss)) = concat xss"
  by (simp add: comp_def)

lemma lit_chunks_good:
  assumes "list_all is_lit els"
  shows "list_all good_frame (map (Pair 0) (chunks ((insn_run_max_payload - 1) div 4) els))"
proof -
  have "good_frame (0, c)" if "c \<in> set (chunks 253 els)" for c
    using assms chunks_elements [OF that] chunks_length [OF that] by (auto simp: good_frame_def list_all_iff)
  then show ?thesis by (auto simp: list_all_iff)
qed

lemma mode1_frames_good: "list_all good_frame (map (Pair 1) (mode1_frames [] 1 els))"
  using mode1_frames_fit [of 1 "[]"] by (auto simp: list_all_iff good_frame_def mode1_payload_def)

lemma insn_frames_parts:
  "concat (map snd (insn_frames els)) = els \<and> list_all good_frame (insn_frames els)"
proof (induction els rule: insn_frames.induct)
  case (1 els)
  show ?case
  proof (cases els)
    case (Cons el rest)
    show ?thesis
    proof (cases "is_lit el")
      case True
      let ?n = "length (takeWhile is_lit els)"
      have t: "take ?n els = takeWhile is_lit els" by (metis takeWhile_eq_take)
      have "list_all is_lit (take ?n els)" unfolding t by (auto simp: list_all_iff dest: set_takeWhileD)
      from lit_chunks_good [OF this] 1(1) [OF Cons True refl] True Cons show ?thesis
        by (subst (1 2) insn_frames.simps)
          (simp del: takeWhile.simps add: Let_def concat_pairs concat_chunks comp_def flip: map_map)
    next
      case False
      let ?n = "Suc (overlay_extent rest)"
      from 1(2) [OF Cons False refl] mode1_frames_good [of "take ?n els"] False Cons show ?thesis
        by (subst (1 2) insn_frames.simps)
          (simp add: Let_def concat_pairs concat_mode1_frames comp_def flip: map_map)
    qed
  qed (simp add: insn_frames.simps)
qed

text \<open>
  The packer neither loses, repeats nor reorders an instruction: the frames of a run, in order,
  are the run.  A mode-0 frame is never empty and holds only instructions without a patch, in at
  most 1016 bytes of payload; a mode-1 frame has a payload of at most 1016 bytes unless it is a
  single element.
\<close>

theorem insn_frames_partition:
  "concat (map snd (insn_frames els)) = els
   \<and> list_all (\<lambda>(m, fr). m = 0 \<and> fr \<noteq> [] \<and> list_all is_lit fr \<and> 1 + 4 * length fr \<le> insn_run_max_payload
       \<or> m = 1 \<and> fr \<noteq> [] \<and> (1 + sum_list (map insn_element_size fr) \<le> insn_run_max_payload \<or> length fr = 1))
     (insn_frames els)"
  using insn_frames_parts [of els] by (simp add: good_frame_def frame_fits_def mode1_payload_def)

end
