(* ===== verification/Compact_Words.thy ===== *)
theory Compact_Words
  imports Compact_Frames Enc_Branches
begin

text \<open>
  The words of compaction: an instruction frozen into a literal element has that word at every PC,
  and an overlay element folds back, at its own PC, to the word of the instruction it replaces.
\<close>

section \<open>Encoders that do not see the PC\<close>

lemma eval_at_literal: "\<not> expr_has_context_dep e \<Longrightarrow> eval_at e pc p1 ns = eval_at e pc' p1 ns'"
  unfolding eval_at_def eval_usage_def eval_def by (rule eval_loop_no_dep)

definition literal_ops :: "operand list \<Rightarrow> bool" where
  "literal_ops ops \<longleftrightarrow> (\<forall>o'\<in>set ops. o_kind o' \<noteq> OpLitPool \<and> \<not> expr_has_context_dep (o_expr o')
     \<and> \<not> expr_has_context_dep (o_amt_expr o'))"

lemma literal_eval:
  assumes "literal_ops ops" and "i < length ops"
  shows "eval_at (o_expr (ops ! i)) pc p1 ns = eval_at (o_expr (ops ! i)) pc' p1 ns"
    and "eval_at (o_amt_expr (ops ! i)) pc p1 ns = eval_at (o_amt_expr (ops ! i)) pc' p1 ns"
  using assms by (auto simp: literal_ops_def intro!: eval_at_literal)

lemma shifted_pc:
  "literal_ops ops \<Longrightarrow> encode_shifted_reg m ops pc p1 ns = encode_shifted_reg m ops pc' p1 ns"
  using literal_eval(2) [of ops 1 pc p1 ns pc'] literal_eval(2) [of ops 2 pc p1 ns pc']
  by (simp add: encode_shifted_reg_def)

lemma extended_pc:
  "literal_ops ops \<Longrightarrow> encode_extended_reg m ops pc p1 ns = encode_extended_reg m ops pc' p1 ns"
  using literal_eval(2) [of ops 2 pc p1 ns pc'] by (simp add: encode_extended_reg_def Let_def)

lemma mem_operand_pc:
  assumes "eval_at (o_expr mem) pc p1 ns = eval_at (o_expr mem) pc' p1 ns"
  shows "encode_unscaled_mem m rt_op rt mem pc p1 ns = encode_unscaled_mem m rt_op rt mem pc' p1 ns"
    and "pair_mode mem pc p1 ns = pair_mode mem pc' p1 ns"
    and "encode_mem_indexed md rt_op mem sz opc pc p1 ns = encode_mem_indexed md rt_op mem sz opc pc' p1 ns"
    and "encode_mem_offset m rt_op mem sz sc opc off pc p1 ns = encode_mem_offset m rt_op mem sz sc opc off pc' p1 ns"
  using assms
  by (simp_all add: encode_unscaled_mem_def pair_mode_def encode_mem_indexed_def encode_mem_offset_def)

lemma mem_pc: "literal_ops ops \<Longrightarrow> encode_mem_inst m ops pc p1 ns = encode_mem_inst m ops pc' p1 ns"
proof -
  assume l: "literal_ops ops"
  note 1 = literal_eval(1) [OF l, of 1 pc p1 ns pc'] and 2 = literal_eval(1) [OF l, of 2 pc p1 ns pc']
  show ?thesis
    using 1 2 mem_operand_pc [OF 1] mem_operand_pc [OF 2]
    by (simp add: encode_mem_inst_def encode_pair_def Let_def split: prod.split cong: if_cong)
qed

lemma mov_pc: "literal_ops ops \<Longrightarrow> is_reg_imm ops \<Longrightarrow> try_encode_mov_imm ops pc p1 ns = try_encode_mov_imm ops pc' p1 ns"
  using literal_eval(1) [of ops 1 pc p1 ns pc'] by (simp add: try_encode_mov_imm_def is_reg_imm_def)

lemma special_pc:
  assumes "literal_ops ops"
  shows "encode_lsl_lsr m ops pc p1 ns = encode_lsl_lsr m ops pc' p1 ns"
    and "encode_bitfield m ops pc p1 ns = encode_bitfield m ops pc' p1 ns"
    and "encode_bic_imm ops pc p1 ns = encode_bic_imm ops pc' p1 ns"
    and "encode_ror_imm ops pc p1 ns = encode_ror_imm ops pc' p1 ns"
    and "encode_barrier m ops pc p1 ns = encode_barrier m ops pc' p1 ns"
    and "encode_msr ops pc p1 ns = encode_msr ops pc' p1 ns"
  using literal_eval(1) [OF assms, of 0 pc p1 ns pc'] literal_eval(1) [OF assms, of 1 pc p1 ns pc']
    literal_eval(1) [OF assms, of 2 pc p1 ns pc'] literal_eval(1) [OF assms, of 3 pc p1 ns pc']
  by (simp_all add: encode_lsl_lsr_def encode_bitfield_def encode_bic_imm_def encode_ror_imm_def encode_barrier_def
      encode_msr_def Let_def split: option.split)

section \<open>PC-relative fields\<close>

text \<open>A PC-relative encoder is injective.\<close>

lemma branch_imm_inj:
  assumes "encode_branch_imm s a = Inr b" and "encode_branch_imm s a' = Inr b"
    and "0 < bit_width s" and "bit_width s \<le> 26" and "bit_position s + bit_width s \<le> 32"
  shows "a = a'"
proof -
  have z: "extract_bits 0 (bit_position s) (bit_width s) = 0" by (rule bit_word_eqI) (simp add: bit_extract_bits)
  have "decode_branch_imm (0 OR b) 0 s = 0 + a" "decode_branch_imm (0 OR b) 0 s = 0 + a'"
    by (rule decode_encoded_branch; use assms z in blast)+
  then show ?thesis by simp
qed

lemma pack_inj: "in_field y 21 \<Longrightarrow> in_field y' 21 \<Longrightarrow> pack_imm21 y = pack_imm21 y' \<Longrightarrow> y = y'"
proof -
  assume f: "in_field y 21" "in_field y' 21" and e: "pack_imm21 y = pack_imm21 y'"
  have z: "extract_bits 0 p w = 0" for p w by (rule bit_word_eqI) (simp add: bit_extract_bits)
  show "y = y'" using decode_packed_imm21 [OF f(1) z z] decode_packed_imm21 [OF f(2) z z] e by simp
qed

lemma adr_imm_inj: "encode_adr_imm s a = Inr b \<Longrightarrow> encode_adr_imm s a' = Inr b \<Longrightarrow> a = a'"
  by (rule pack_inj) (auto simp: encode_adr_imm_def in_field_def split: if_split_asm)

lemma adrp_imm_inj:
  assumes "encode_adrp_imm s a = Inr b" and "encode_adrp_imm s a' = Inr b"
  shows "a = a'"
proof -
  have "gdiv a 4096 = gdiv a' 4096"
    using assms by (intro pack_inj) (auto simp: encode_adrp_imm_def in_field_def Let_def split: if_split_asm)
  moreover have "gdiv c 4096 * 4096 = c" if "encode_adrp_imm s c = Inr b" for c
    using that gdiv_mult [of 4096 c] by (auto simp: encode_adrp_imm_def split: if_split_asm)
  ultimately show ?thesis using assms by metis
qed

text \<open>The two probe addresses lie in different pages, so no target is equally far from both.\<close>

lemma probes_differ:
  "v - pc_probe_a \<noteq> v - pc_probe_b" "adrp_diff v pc_probe_a \<noteq> adrp_diff v pc_probe_b"
proof -
  show "v - pc_probe_a \<noteq> v - pc_probe_b" by (simp add: pc_probe_a_def pc_probe_b_def)
  show "adrp_diff v pc_probe_a \<noteq> adrp_diff v pc_probe_b"
  proof
    assume e: "adrp_diff v pc_probe_a = adrp_diff v pc_probe_b"
    have "bit (page v - page pc_probe_a) i = bit (page v - page pc_probe_b) i" if "i < 33" for i
      using arg_cong [OF e, of "\<lambda>w. bit w i"] that by (simp add: bit_adrp_diff)
    then have "take_bit 33 (page v - page pc_probe_a) = take_bit 33 (page v - page pc_probe_b)"
      by (intro bit_word_eqI) (auto simp: bit_take_bit_iff)
    then have "push_bit 31 1 * page pc_probe_a = push_bit 31 1 * page pc_probe_b"
      unfolding take_bit_33_iff right_diff_distrib' by simp
    then show False by (simp add: pc_probe_a_def pc_probe_b_def page_def)
  qed
qed

definition pc_kinds :: "SlotKind list" where
  "pc_kinds = [BranchImm26, BranchImm19, BranchImm14, AdrImm, AdrpImm]"

definition pc_slot :: "operand_slot \<Rightarrow> bool" where
  "pc_slot s \<longleftrightarrow> slot_kind s \<in> set pc_kinds"

definition pc_forms :: "form list" where
  "pc_forms = filter (\<lambda>f. list_ex pc_slot (slots f)) all_forms"

lemma pc_forms_facts:
  assumes "f \<in> set all_forms" and "k < length (slots f)" and "pc_slot (slots f ! k)"
  shows "(mnemonic_id f, pattern f) \<notin> set loose_forms"
    and "is_branch_slot (slots f ! k) \<Longrightarrow> 0 < bit_width (slots f ! k) \<and> bit_width (slots f ! k) \<le> 26
      \<and> bit_position (slots f ! k) + bit_width (slots f ! k) \<le> 32"
proof -
  have f: "f \<in> set pc_forms" using assms by (auto simp: pc_forms_def list_ex_iff)
  have "list_all (\<lambda>f. (mnemonic_id f, pattern f) \<notin> set loose_forms \<and> list_all (\<lambda>s. is_branch_slot s \<longrightarrow>
      0 < bit_width s \<and> bit_width s \<le> 26 \<and> bit_position s + bit_width s \<le> 32) (slots f)) pc_forms"
    by (simp add: pc_forms_def all_forms_defs form_tables pc_slot_def pc_kinds_def is_branch_slot_def loose_forms_def)
  with f assms(2) show "(mnemonic_id f, pattern f) \<notin> set loose_forms"
    and "is_branch_slot (slots f ! k) \<Longrightarrow> 0 < bit_width (slots f ! k) \<and> bit_width (slots f ! k) \<le> 26
      \<and> bit_position (slots f ! k) + bit_width (slots f ! k) \<le> 32"
    by (auto simp: list_all_iff)
qed


section \<open>The form table\<close>

lemma slot_value_pc: "\<not> (i < length ss \<and> pc_slot (ss ! i)) \<Longrightarrow> slot_value ss i v pc = slot_value ss i v pc'"
  by (auto simp: slot_value_def pc_slot_def pc_kinds_def split: SlotKind.splits)

lemma values_pc:
  assumes "\<forall>o'\<in>set ops. \<not> expr_has_context_dep (o_expr o')"
    and "\<forall>k<length ops. o_kind (ops ! k) = OpImmExpr \<longrightarrow> \<not> (i + k < length (slots f) \<and> pc_slot (slots f ! (i + k)))"
  shows "operands_to_values ops i pc p1 ns f = operands_to_values ops i pc' p1 ns f"
  using assms
proof (induction ops arbitrary: i)
  case (Cons o' os)
  have "eval_at (o_expr o') pc p1 ns = eval_at (o_expr o') pc' p1 ns" using Cons.prems(1) by (intro eval_at_literal) simp
  moreover have "o_kind o' = OpImmExpr \<Longrightarrow> slot_value (slots f) i v pc = slot_value (slots f) i v pc'" for v
    using Cons.prems(2) by (intro slot_value_pc) (auto dest: spec [of _ 0])
  moreover have "operands_to_values os (Suc i) pc p1 ns f = operands_to_values os (Suc i) pc' p1 ns f"
    using Cons.prems by (intro Cons.IH) auto
  ultimately show ?case by simp
qed simp

lemma values_nth:
  assumes "operands_to_values ops i pc p1 ns f = Inr vs" and "k < length ops" and "o_kind (ops ! k) = OpImmExpr"
  shows "k < length vs \<and> (\<exists>v. eval_at (o_expr (ops ! k)) pc p1 ns = Inr v \<and> imm (vs ! k) = slot_value (slots f) (i + k) v pc)"
  using assms
proof (induction ops arbitrary: i k vs)
  case (Cons o' os)
  from Cons.prems(1) obtain v ws where v: "vs = v # ws" "operands_to_values os (Suc i) pc p1 ns f = Inr ws"
    and h: "o_kind o' = OpImmExpr \<Longrightarrow> \<exists>a. eval_at (o_expr o') pc p1 ns = Inr a \<and> imm v = slot_value (slots f) i a pc"
    by (auto simp: is_plain_gpr_def elim!: sbindE split: if_split_asm)
  show ?case
  proof (cases k)
    case 0
    with h Cons.prems(3) v(1) show ?thesis by simp
  next
    case (Suc j)
    with Cons.IH [OF v(2), of j] Cons.prems(2,3) v(1) show ?thesis by simp
  qed
qed simp

lemma pc_slot_inj:
  assumes "pc_slot s" and "encode_slot s a b = Inr c" and "encode_slot s a' b = Inr c"
    and "is_branch_slot s \<Longrightarrow> 0 < bit_width s \<and> bit_width s \<le> 26 \<and> bit_position s + bit_width s \<le> 32"
  shows "imm a = imm a'"
proof -
  consider "is_branch_slot s" | "slot_kind s = AdrImm" | "slot_kind s = AdrpImm"
    using assms(1) by (auto simp: pc_slot_def pc_kinds_def is_branch_slot_def)
  then show ?thesis
  proof cases
    case 1
    then have "encode_branch_imm s (imm a) = Inr c" "encode_branch_imm s (imm a') = Inr c"
      using assms(2,3) by (auto simp: encode_slot_def is_branch_slot_def)
    then show ?thesis using assms(4) [OF 1] branch_imm_inj by blast
  next
    case 2
    then show ?thesis using assms(2,3) adr_imm_inj by (simp add: encode_slot_def)
  next
    case 3
    then show ?thesis using assms(2,3) adrp_imm_inj by (simp add: encode_slot_def)
  qed
qed

lemma slot_value_probes:
  "i < length ss \<Longrightarrow> pc_slot (ss ! i) \<Longrightarrow> slot_value ss i v pc_probe_a \<noteq> slot_value ss i v pc_probe_b"
  using probes_differ [of v] by (auto simp: slot_value_def pc_slot_def pc_kinds_def)

lemma form_pc:
  assumes lit: "literal_ops ops"
    and a: "encode_form m ops pc_probe_a p1 ns = Inr w" and b: "encode_form m ops pc_probe_b p1 ns = Inr w"
  shows "encode_form m ops pc p1 ns = Inr w"
proof -
  from a obtain f vs where f: "validate_operand_kinds m (map o_kind ops) = Inr f"
    and vs: "operands_to_values ops 0 pc_probe_a p1 ns f = Inr vs" and wa: "encode f vs = Inr w"
    by (auto simp: encode_form_def elim!: sbindE)
  from b f obtain vs' where vs': "operands_to_values ops 0 pc_probe_b p1 ns f = Inr vs'" and wb: "encode f vs' = Inr w"
    by (auto simp: encode_form_def elim!: sbindE)
  have tab: "f \<in> set all_forms" and kinds: "map expected_kind (slots f) = map o_kind ops"
    using f unfolding validate_find by (auto simp: find_Some_iff selects_def)
  have len: "length (slots f) = length ops" using arg_cong [OF kinds, of length] by simp
  have "\<not> (k < length (slots f) \<and> pc_slot (slots f ! k))" if k: "k < length ops" "o_kind (ops ! k) = OpImmExpr" for k
  proof
    assume p: "k < length (slots f) \<and> pc_slot (slots f ! k)"
    then have p1: "k < length (slots f)" and p2: "pc_slot (slots f ! k)" by simp_all
    note facts = pc_forms_facts [OF tab p1 p2]
    have "imm (vs ! k) = imm (vs' ! k)"
      by (rule pc_slot_inj [OF p2 encode_table_kept [OF tab facts(1) wa p1] encode_table_kept [OF tab facts(1) wb p1] facts(2)])
    moreover obtain v where "eval_at (o_expr (ops ! k)) pc_probe_a p1 ns = Inr v"
        "imm (vs ! k) = slot_value (slots f) k v pc_probe_a" "imm (vs' ! k) = slot_value (slots f) k v pc_probe_b"
      using values_nth [OF vs k] values_nth [OF vs' k] literal_eval(1) [OF lit k(1), of pc_probe_a p1 ns pc_probe_b] by auto
    ultimately show False using slot_value_probes [OF p1 p2, of v] by simp
  qed
  then have "operands_to_values ops 0 pc p1 ns f = operands_to_values ops 0 pc_probe_a p1 ns f"
    using lit by (intro values_pc) (auto simp: literal_ops_def)
  then show ?thesis using f vs wa by (simp add: encode_form_def)
qed


section \<open>PC-relative loads and bit tests\<close>

lemma probe_offsets:
  assumes "gmod (v - pc_probe_a) 4 = 0" and "gmod (v - pc_probe_b) 4 = 0"
    and "- (2 ^ 20) \<le> sint (gdiv (v - pc_probe_a) 4)" and "sint (gdiv (v - pc_probe_a) 4) < 2 ^ 20"
    and "- (2 ^ 20) \<le> sint (gdiv (v - pc_probe_b) 4)" and "sint (gdiv (v - pc_probe_b) 4) < 2 ^ 20"
  shows "sint (gdiv (v - pc_probe_a) 4) = sint (gdiv (v - pc_probe_b) 4) + 2 ^ 16"
proof -
  let ?a = "gdiv (v - pc_probe_a) 4" and ?b = "gdiv (v - pc_probe_b) 4"
  have m: "?a * 4 = v - pc_probe_a" "?b * 4 = v - pc_probe_b"
    using gdiv_mult [of 4 "v - pc_probe_a"] gdiv_mult [of 4 "v - pc_probe_b"] assms(1,2) by simp_all
  have "word_of_int (sint ?a * 4 - sint ?b * 4) = ?a * 4 - ?b * 4" by simp
  also have "\<dots> = word_of_int (2 ^ 18)" unfolding m by (simp add: pc_probe_a_def pc_probe_b_def)
  finally have "(word_of_int (sint ?a * 4 - sint ?b * 4) :: i64) = word_of_int (2 ^ 18)" .
  then have "sint (word_of_int (sint ?a * 4 - sint ?b * 4) :: i64) = sint (word_of_int (2 ^ 18) :: i64)" by (rule arg_cong)
  moreover have "sint (word_of_int (sint ?a * 4 - sint ?b * 4) :: i64) = sint ?a * 4 - sint ?b * 4"
    by (rule sint_word_of_int64) (use assms(3-6) in simp_all)
  moreover have "sint (word_of_int (2 ^ 18) :: i64) = 2 ^ 18" by (rule sint_word_of_int64) simp_all
  ultimately show ?thesis by simp
qed

lemma bit_flip: "bit (x + 2 ^ n :: int) n \<longleftrightarrow> \<not> bit x n"
  unfolding bit_iff_odd by (subst div_add_self2) simp_all

lemma ldr_direct_probes:
  assumes lit: "literal_ops ops" and "is_reg_imm ops"
    and a: "encode_ldr_lit_direct ops pc_probe_a p1 ns = Inr w" and b: "encode_ldr_lit_direct ops pc_probe_b p1 ns = Inr w"
  shows False
proof -
  let ?hi = "if o_kind (ops ! 0) = OpRegX then 0x58000000 else (0x18000000 :: u32)"
  have len: "1 < length ops" using assms(2) by (simp add: is_reg_imm_def)
  from a obtain v i where v: "eval_at (o_expr (ops ! 1)) pc_probe_a p1 ns = Inr v"
    and i: "literal_offset v pc_probe_a = Inr i" and wa: "w = ?hi OR i OR ucast (o_reg (ops ! 0))"
    by (auto simp: encode_ldr_lit_direct_def elim!: sbindE)
  from b v obtain j where j: "literal_offset v pc_probe_b = Inr j" and wb: "w = ?hi OR j OR ucast (o_reg (ops ! 0))"
    using literal_eval(1) [OF lit len, of pc_probe_a p1 ns pc_probe_b] by (auto simp: encode_ldr_lit_direct_def elim!: sbindE)
  let ?a = "gdiv (v - pc_probe_a) 4" and ?b = "gdiv (v - pc_probe_b) 4"
  have "sint ?a = sint ?b + 2 ^ 16"
    using i j by (intro probe_offsets) (auto simp: literal_offset_def Let_def split: if_split_asm)
  then have "bit (sint ?a) 16 \<longleftrightarrow> \<not> bit (sint ?b) 16" by (simp only: bit_flip)
  then have d: "bit ?a 16 \<longleftrightarrow> \<not> bit ?b 16" by (simp add: bit_sint_iff)
  have f: "bit (push_bit 5 (ucast (y :: i64) AND 0x7ffff) :: u32) 21 = bit y 16" for y
  proof -
    have "(0x7ffff :: u32) = mask 19" by (simp add: mask_numeral)
    then show ?thesis by (simp add: bit_simps)
  qed
  have "bit i 21 = bit ?a 16" "bit j 21 = bit ?b 16"
    using i j f by (auto simp: literal_offset_def Let_def split: if_split_asm)
  moreover have "\<not> bit ?hi 21" "\<not> bit (ucast (o_reg (ops ! 0)) :: u32) 21"
    using bit_imp_le_length [of "o_reg (ops ! 0)" 21] by (auto simp: bit_simps bit_numeral_word_iff)
  ultimately show False
    using d arg_cong [OF wa, of "\<lambda>w. bit w 21"] arg_cong [OF wb, of "\<lambda>w. bit w 21"] by (simp add: bit_or_iff)
qed

lemma tbz_probes:
  assumes lit: "literal_ops ops"
    and a: "encode_tbz m ops pc_probe_a p1 ns = Inr w" and b: "encode_tbz m ops pc_probe_b p1 ns = Inr w'"
  shows False
proof -
  have len: "2 < length ops" using a by (auto simp: encode_tbz_def split: if_split_asm)
  from a obtain v where v: "eval_at (o_expr (ops ! 2)) pc_probe_a p1 ns = Inr v"
    and ra: "gmod (v - pc_probe_a) 4 = 0" "- (2 ^ 13) \<le> sint (gdiv (v - pc_probe_a) 4)" "sint (gdiv (v - pc_probe_a) 4) < 2 ^ 13"
    by (auto simp: encode_tbz_def Let_def not_le not_less elim!: sbindE split: if_split_asm)
  have "eval_at (o_expr (ops ! 2)) pc_probe_b p1 ns = Inr v"
    using v literal_eval(1) [OF lit len, of pc_probe_a p1 ns pc_probe_b] by simp
  with b have rb: "gmod (v - pc_probe_b) 4 = 0" "- (2 ^ 13) \<le> sint (gdiv (v - pc_probe_b) 4)" "sint (gdiv (v - pc_probe_b) 4) < 2 ^ 13"
    by (auto simp: encode_tbz_def Let_def not_le not_less elim!: sbindE split: if_split_asm)
  have "sint (gdiv (v - pc_probe_a) 4) = sint (gdiv (v - pc_probe_b) 4) + 2 ^ 16"
    using ra rb by (intro probe_offsets) simp_all
  with ra rb show False by simp
qed

section \<open>Literal instructions\<close>

lemma dep_zero: "\<not> expr_has_context_dep (write_imm [] 0)"
  by (simp add: write_imm_def expr_has_context_dep.simps expr_next_def operand_width_def op_tables)

lemma literal_ops_coerced:
  assumes "literal_ops ops"
  shows "2 \<le> length ops \<Longrightarrow> literal_ops [ops ! 0, as_shifted k (ops ! 1)]"
    and "3 \<le> length ops \<Longrightarrow> literal_ops [ops ! 0, ops ! 1, as_shifted k (ops ! 2)]"
  using assms by (cases ops; cases "tl ops"; cases "tl (tl ops)"; auto simp: literal_ops_def as_shifted_def dep_zero)+

lemma special_probes:
  assumes lit: "literal_ops ops"
    and a: "encode_special m ops pc_probe_a p1 ns = Inr w" and b: "encode_special m ops pc_probe_b p1 ns = Inr w"
  shows "encode_special m ops pc p1 ns = Inr w"
proof (cases "encode_special m ops pc p1 ns = encode_form m ops pc p1 ns
    \<and> encode_special m ops pc_probe_a p1 ns = encode_form m ops pc_probe_a p1 ns
    \<and> encode_special m ops pc_probe_b p1 ns = encode_form m ops pc_probe_b p1 ns")
  case True
  then have "encode_form m ops pc_probe_a p1 ns = Inr w" "encode_form m ops pc_probe_b p1 ns = Inr w" using a b by metis+
  from form_pc [OF lit this] True show ?thesis by metis
next
  case False
  then have "encode_special m ops pc p1 ns = encode_special m ops pc_probe_a p1 ns"
    using special_pc [OF lit, where pc = pc and pc' = pc_probe_a and ?p1.0 = p1 and ns = ns] by (auto simp: encode_special_def split: if_split_asm)
  then show ?thesis using a by simp
qed

lemma operands_probes:
  assumes lit: "literal_ops ops"
    and a: "encode_operands m ops pc_probe_a p1 ns = Inr w" and b: "encode_operands m ops pc_probe_b p1 ns = Inr w"
  shows "encode_operands m ops pc p1 ns = Inr w"
proof (cases "compound_kind ops")
  case (Some k)
  then have "k \<in> set (map o_kind ops)" by (auto simp: compound_kind_def find_Some_iff)
  then have "k \<noteq> OpLitPool" using lit by (auto simp: literal_ops_def)
  moreover have "k \<in> set [OpMem, OpShiftedReg, OpExtendedReg, OpLitPool]"
    using Some by (auto simp: compound_kind_def find_Some_iff)
  ultimately show ?thesis
    using Some a mem_pc [OF lit, of m pc p1 ns pc_probe_a] shifted_pc [OF lit, of m pc p1 ns pc_probe_a]
      extended_pc [OF lit, of m pc p1 ns pc_probe_a]
    by (auto simp: encode_operands_def)
next
  case None
  let ?three = "length ops = 3 \<and> is_shifted_reg_mnemonic m \<and> is_plain_gpr (o_kind (ops ! 0))
    \<and> is_plain_gpr (o_kind (ops ! 1)) \<and> is_plain_gpr (o_kind (ops ! 2))"
  let ?two = "length ops = 2 \<and> m = 46 \<and> is_plain_gpr (o_kind (ops ! 0)) \<and> is_plain_gpr (o_kind (ops ! 1))"
  let ?mov = "\<lambda>pc. if m = mnem ''mov'' \<and> is_reg_imm ops then try_encode_mov_imm ops pc p1 ns else Inr None"
  let ?rest = "\<lambda>pc. if m = mnem ''ldr'' \<and> is_reg_imm ops then encode_ldr_lit_direct ops pc p1 ns
    else if m = 22 \<or> m = 23 then encode_tbz m ops pc p1 ns else encode_special m ops pc p1 ns"
  note d = encode_operands_def None option.case
  consider "?three" | "\<not> ?three" "?two" | "\<not> ?three" "\<not> ?two" by blast
  then show ?thesis
  proof cases
    case 1
    have l: "literal_ops [ops ! 0, ops ! 1, as_shifted (ops ! 0) (ops ! 2)]" using 1 by (intro literal_ops_coerced [OF lit]) simp
    from 1 a show ?thesis unfolding d using shifted_pc [OF l, of m pc p1 ns pc_probe_a] by simp
  next
    case 2
    have l: "literal_ops [ops ! 0, as_shifted (ops ! 0) (ops ! 1)]" using 2 by (intro literal_ops_coerced [OF lit]) simp
    from 2 a show ?thesis unfolding d using shifted_pc [OF l, of m pc p1 ns pc_probe_a] by simp
  next
    case 3
    have mov: "?mov pc = ?mov pc_probe_a" "?mov pc_probe_b = ?mov pc_probe_a"
      using mov_pc [OF lit, of pc p1 ns pc_probe_a] mov_pc [OF lit, of pc_probe_b p1 ns pc_probe_a] by simp_all
    have e: "encode_operands m ops q p1 ns = sbind (?mov q) (\<lambda>w. case w of Some word \<Rightarrow> Inr word | None \<Rightarrow> ?rest q)" for q
      unfolding d by (simp only: if_not_P [OF 3(1)] if_not_P [OF 3(2)])
    show ?thesis
    proof (cases "?mov pc_probe_a")
      case (Inr r)
      show ?thesis
      proof (cases r)
        case None
        then have ra: "?rest pc_probe_a = Inr w" and rb: "?rest pc_probe_b = Inr w"
          using a b unfolding e mov Inr by simp_all
        have "?rest pc = Inr w"
          using ra rb ldr_direct_probes [OF lit, of p1 ns w] tbz_probes [OF lit, of m p1 ns w w]
            special_probes [OF lit, of m p1 ns w pc]
          by (auto split: if_split_asm)
        then show ?thesis unfolding e mov Inr None by simp
      next
        case (Some word)
        then show ?thesis using a unfolding e mov Inr by simp
      qed
    next
      case (Inl e')
      then show ?thesis using a unfolding e by simp
    qed
  qed
qed


lemma literal_operands:
  assumes "is_fully_literal rec = Inr True" and "read_operands (operands rec) = Inr ops"
  shows "literal_ops ops"
proof -
  have "literal_loop (operands rec) = Inr True" using assms(1) by (auto simp: is_fully_literal_def split: if_split_asm)
  then have "list_all operand_literal ops" using assms(2) by (auto simp: literal_loop_iff)
  then show ?thesis
    using operand_literal_exprs read_operands_kinds [OF assms(2)] by (fastforce simp: literal_ops_def list_all_iff)
qed

lemma no_error_Inr: "no_error r = Inr (Some a) \<longleftrightarrow> r = Inr a" "no_error r \<noteq> Inl (Error e)"
  by (cases r rule: no_error.cases; simp)+

lemma literal_word_shape:
  assumes "literal_word rec p1 ns = Inr (Some w)"
  shows "is_fully_literal rec = Inr True" and "encode_inst rec pc_probe_a p1 ns = Inr w"
    and "encode_inst rec pc_probe_b p1 ns = Inr w"
  using assms
  by (auto simp: literal_word_def no_error_Inr elim!: sbindE split: if_split_asm option.split_asm)

lemma literal_word_at:
  assumes "literal_word rec p1 ns = Inr (Some w)"
  shows "encode_inst rec pc p1 ns = Inr w"
proof -
  note s = literal_word_shape [OF assms]
  obtain ops where ops: "read_operands (operands rec) = Inr ops"
    using s(2) by (auto simp: encode_inst_def elim!: sbindE)
  from operands_probes [OF literal_operands [OF s(1) ops], of "r_mnemonic rec" p1 ns w pc] s(2,3) ops
  show ?thesis by (simp add: encode_inst_def)
qed

text \<open>
  C21.  Freezing an instruction is sound.  The test of two probe addresses suffices: an instruction
  that \<^verbatim>\<open>literalWord\<close> accepts is encoded to that same word at every address, not only at the two
  it was tried at.
\<close>

theorem literal_word_everywhere:
  assumes "literal_word rec p1 ns = Inr (Some w)"
  shows "encode_inst rec pc p1 ns = Inr w"
  by (rule literal_word_at [OF assms])

section \<open>Overlay elements\<close>

lemma compound_litpool:
  "compound_kind ops = Some OpLitPool \<Longrightarrow> find (\<lambda>o'. o_kind o' = OpLitPool) ops \<noteq> None"
  by (auto simp: compound_kind_def find_Some_iff find_None_iff) (metis nth_mem)

lemma pool_offset:
  "literal_offset v pc = Inr i \<longleftrightarrow> fold_slot FoldLitpool19 v pc b = Inr i"
proof -
  have m: "(0x7ffff :: u32) = push_bit 19 1 - 1" by simp
  have h: "push_bit 18 (1 :: i64) = 2 ^ 18" "sint (2 ^ 18 :: i64) = 2 ^ 18" "sint (- (2 ^ 18) :: i64) = - (2 ^ 18)"
    using sint_exp64 [of 18] sint_neg_exp64 [of 18] by (simp_all add: push_bit_of_1)
  show ?thesis
    unfolding literal_offset_def fold_slot_def encode_branch_imm_def field_slot_def Let_def m by (auto simp: h)
qed

definition pool_target_ok :: "tbn_record \<Rightarrow> bool" where
  "pool_target_ok rec \<longleftrightarrow> (case read_operands (operands rec) of Inl _ \<Rightarrow> True
     | Inr ops \<Rightarrow> ops = [] \<or> o_kind (ops ! 0) \<noteq> OpLitPool)"


lemma relocated_slot: "relocated_operand ops ss = Some (fs, e) \<Longrightarrow> fs \<noteq> FoldLitpool19"
  by (induction ops ss rule: relocated_operand.induct)
    (auto simp: fold_slot_for_kind_def split: if_split_asm option.split_asm SlotKind.split_asm)

lemma classify_slot: "classify_operands m ops pc p1 ns = Inr c \<Longrightarrow> \<not> oc_litpool c \<Longrightarrow> oc_slot c \<noteq> FoldLitpool19"
  by (auto simp: classify_operands_def classify_mem_def classify_mov_imm_def classify_form_def overlay_of_def Let_def
      elim!: sbindE dest: relocated_slot split: option.split_asm if_split_asm sum.split_asm)

lemma classify_litpool:
  "classify_operands m ops pc p1 ns = Inr c \<Longrightarrow> oc_litpool c \<Longrightarrow>
     compound_kind ops = Some OpLitPool \<and> oc_slot c = FoldLitpool19 \<and> oc_rt c = o_reg (ops ! 0)
     \<and> (\<exists>o'. find (\<lambda>o'. o_kind o' = OpLitPool) ops = Some o' \<and> oc_width c = o_width o')"
  by (auto simp: classify_operands_def classify_mem_def classify_mov_imm_def classify_form_def overlay_of_def Let_def
      compound_kind_def find_Some_iff elim!: sbindE split: option.split_asm if_split_asm sum.split_asm)

lemma litpool_word:
  assumes "compound_kind ops = Some OpLitPool" and "find (\<lambda>o'. o_kind o' = OpLitPool) ops = Some o'"
    and "ops = [] \<or> o_kind (ops ! 0) \<noteq> OpLitPool" and "encode_operands m ops pc p1 ns = Inr w"
  shows "\<exists>v i. (case p1_ldr_idx p1 pc of None \<Rightarrow> Inl (Error ''INSN_RUN litpool patch with no pool index'')
      | Some idx \<Rightarrow> if idx \<ge> length (p1_pool p1) then Inl Panic else Inr (pe_pc (p1_pool p1 ! idx))) = Inr v
    \<and> literal_offset v pc = Inr i
    \<and> w = (if o_width o' = 8 then 0x58000000 else 0x18000000) OR i OR ucast (o_reg (ops ! 0))"
proof -
  have e: "encode_ldr_lit_pool ops pc p1 = Inr w" using assms(1,4) by (simp add: encode_operands_def)
  then obtain a b cs where ops: "ops = a # b # cs" and b: "o_kind b = OpLitPool"
    by (cases ops; cases "tl ops") (auto simp: encode_ldr_lit_pool_def split: if_split_asm)
  have "o' = b" using assms(2,3) by (simp add: ops b)
  with e show ?thesis
    by (auto simp: encode_ldr_lit_pool_def ops b elim!: sbindE split: option.split_asm if_split_asm)
qed

lemma overlay_word:
  assumes el: "encode_inst_overlay rec pc p1 ns = Inr (base, ps)" and ok: "pool_target_ok rec"
    and w: "encode_inst rec pc p1 ns = Inr w"
  shows "element_word \<lparr>base_word = base, patches = ps\<rparr> pc p1 ns = Inr w"
proof -
  obtain ops c where ops: "read_operands (operands rec) = Inr ops"
    and c: "classify_operands (r_mnemonic rec) ops pc p1 ns = Inr c"
    and e: "(let patch = \<lparr>patch_slot = oc_slot c, patch_expr = oc_expr c\<rparr> in
       if oc_litpool c
       then Inr ((if oc_width c = 8 then 0x58000000 else 0x18000000) OR ucast (oc_rt c), [patch])
       else sbind (encode_inst rec pc p1 ns) (\<lambda>full.
         let base = zero_slot full (oc_slot c) in
         sbind (assert_overlay rec base (oc_slot c) (oc_expr c) pc p1 ns) (\<lambda>_. Inr (base, [patch])))) = Inr (base, ps)"
    using el by (auto simp: encode_inst_overlay_def overlay_classify_def elim!: sbindE)
  show ?thesis
  proof (cases "oc_litpool c")
    case True
    note l = classify_litpool [OF c True]
    have "ops = [] \<or> o_kind (ops ! 0) \<noteq> OpLitPool" using ok ops by (simp add: pool_target_ok_def)
    moreover have "encode_operands (r_mnemonic rec) ops pc p1 ns = Inr w" using w ops by (simp add: encode_inst_def)
    ultimately have a: "ops = [] \<or> o_kind (ops ! 0) \<noteq> OpLitPool" "encode_operands (r_mnemonic rec) ops pc p1 ns = Inr w"
      by simp_all
    from l obtain o' where k: "compound_kind ops = Some OpLitPool" "find (\<lambda>o'. o_kind o' = OpLitPool) ops = Some o'"
      and o': "oc_width c = o_width o'" by blast
    from litpool_word [OF k a] l o' obtain v i where
        v: "patch_value \<lparr>patch_slot = oc_slot c, patch_expr = oc_expr c\<rparr> pc p1 ns = Inr v" and i: "literal_offset v pc = Inr i"
      and ww: "w = (if oc_width c = 8 then 0x58000000 else 0x18000000) OR i OR ucast (o_reg (ops ! 0))"
      by (simp only: patch_value_def insn_patch.select_convs if_True simp_thms) blast
    have f: "fold_slot (oc_slot c) v pc base = Inr i" using l pool_offset i by metis
    have b: "base = (if oc_width c = 8 then 0x58000000 else 0x18000000) OR ucast (oc_rt c)"
      and ps: "ps = [\<lparr>patch_slot = oc_slot c, patch_expr = oc_expr c\<rparr>]"
      using e True by (simp_all add: Let_def)
    have "base OR i = w" unfolding b ww using l by (simp only: or.assoc or.commute [of i])
    then show ?thesis using v f by (simp add: element_word_def ps)
  next
    case False
    then have slot: "oc_slot c \<noteq> FoldLitpool19" by (rule classify_slot [OF c])
    from e False w obtain v bits where "eval_at (oc_expr c) pc p1 ns = Inr v" "fold_slot (oc_slot c) v pc base = Inr bits"
      "base OR bits = w" "ps = [\<lparr>patch_slot = oc_slot c, patch_expr = oc_expr c\<rparr>]"
      by (auto simp: assert_overlay_def Let_def elim!: sbindE split: if_split_asm)
    then show ?thesis using slot by (simp add: element_word_def patch_value_def)
  qed
qed

lemma compact_inst_at:
  assumes "compact_inst rec pc p1 ns = Inr el" and "pool_target_ok rec" and "encode_inst rec pc p1 ns = Inr w"
  shows "element_word el pc p1 ns = Inr w"
  using assms literal_word_at [of rec p1 ns] overlay_word [OF _ assms(2,3)]
  by (auto simp: compact_inst_def element_word_def elim!: sbindE split: option.split_asm)

end
