(* ===== verification/Compact_Props.thy ===== *)
theory Compact_Props
  imports Compact_Words Asm_Agree
begin

text \<open>
  Compaction preserves the program: assembling the compacted record stream, with the symbols and
  literal pool of pass 1, gives byte for byte the image of the symbolic one.
\<close>

section \<open>Pass 2 up to the code map\<close>

text \<open>Compaction renumbers the records, which only the code map shows.\<close>

definition same :: "pass2_state \<Rightarrow> pass2_state \<Rightarrow> bool" where
  "same s t \<longleftrightarrow> e_out s = e_out t \<and> e_pc s = e_pc t \<and> e_origin s = e_origin t"

definition mirrors :: "(pass2_state \<Rightarrow> pass2_state res) \<Rightarrow> (pass2_state \<Rightarrow> pass2_state res) \<Rightarrow> bool" where
  "mirrors f g \<longleftrightarrow> (\<forall>s t s'. same s t \<longrightarrow> f s = Inr s' \<longrightarrow> (\<exists>t'. g t = Inr t' \<and> same s' t'))"

lemma mirrorsD: "mirrors f g \<Longrightarrow> same s t \<Longrightarrow> f s = Inr s' \<Longrightarrow> \<exists>t'. g t = Inr t' \<and> same s' t'"
  by (simp add: mirrors_def)

lemma mirrors_bind: "mirrors f g \<Longrightarrow> mirrors f' g' \<Longrightarrow> mirrors (\<lambda>s. sbind (f s) f') (\<lambda>s. sbind (g s) g')"
  unfolding mirrors_def by (auto simp: sbind_Inr_iff) metis

lemma same_refl [simp]: "same s s"
  by (simp add: same_def)

lemma same_sym: "same s t \<Longrightarrow> same t s"
  by (simp add: same_def)

lemma same_trans: "same s t \<Longrightarrow> same t u \<Longrightarrow> same s u"
  by (simp add: same_def)

lemma same_put: "same s t \<Longrightarrow> same (put_bytes bs s) (put_bytes bs t)"
  by (simp add: same_def put_bytes_def)

lemma same_word: "same s t \<Longrightarrow> same (emit_word ri w s) (emit_word rj w t)"
  by (simp add: same_def emit_word_def put_bytes_def)

lemma mirrors_elements: "mirrors (emit_elements ri els p1 ns) (emit_elements rj els p1 ns)"
proof (induction els)
  case (Cons el els)
  show ?case
    unfolding mirrors_def
  proof (intro allI impI)
    fix s t s' assume st: "same s t" and e: "emit_elements ri (el # els) p1 ns s = Inr s'"
    then obtain w where w: "element_word el (e_pc s) p1 ns = Inr w" "emit_elements ri els p1 ns (emit_word ri w s) = Inr s'"
      by (auto elim!: sbindE)
    with mirrorsD [OF Cons.IH same_word [OF st] w(2), of rj] st
    show "\<exists>t'. emit_elements rj (el # els) p1 ns t = Inr t' \<and> same s' t'" by (simp add: same_def)
  qed
qed (simp add: mirrors_def)

lemma mirrors_entries: "mirrors (emit_entries w is p1 ns) (emit_entries w is p1 ns)"
proof (induction "is")
  case (Cons i "is")
  show ?case
    unfolding mirrors_def
  proof (intro allI impI)
    fix s t s' assume st: "same s t" and e: "emit_entries w (i # is) p1 ns s = Inr s'"
    then obtain v where v: "eval_at (pe_expr (p1_pool p1 ! i)) (pe_eval_pc (p1_pool p1 ! i)) p1 ns = Inr v"
      and r: "emit_entries w is p1 ns (put_bytes (le_put w v) s) = Inr s'"
      by (auto simp: Let_def elim!: sbindE)
    from mirrorsD [OF Cons.IH same_put [OF st] r] v
    show "\<exists>t'. emit_entries w (i # is) p1 ns t = Inr t' \<and> same s' t'" by (simp add: Let_def)
  qed
qed (simp add: mirrors_def)

lemma same_pad: "same s t \<Longrightarrow> same (pad_to n s) (pad_to n t)"
  by (simp add: pad_to_def same_put) (simp add: same_def put_bytes_def)

lemma mirrors_flush: "mirrors (emit_flush p1 ns) (emit_flush p1 ns)"
  unfolding mirrors_def
proof (intro allI impI)
  fix s t s' assume st: "same s t" and e: "emit_flush p1 ns s = Inr s'"
  have pc: "e_pc t = e_pc s" using st by (simp add: same_def)
  show "\<exists>t'. emit_flush p1 ns t = Inr t' \<and> same s' t'"
  proof (cases "p1_flush_entries p1 (e_pc s)")
    case None
    then show ?thesis using e st by (simp add: emit_flush_def pc)
  next
    case (Some "is")
    let ?fs = "fours (p1_pool p1) is" and ?es = "eights (p1_pool p1) is"
    from e Some obtain s1 s2 where
      s1: "emit_entries 4 ?fs p1 ns (if ?fs \<noteq> [] then pad_to 4 s else s) = Inr s1"
      and s2: "emit_entries 8 ?es p1 ns (if ?es \<noteq> [] then pad_to 8 s1 else s1) = Inr s2"
      and i: "\<not> (\<exists>i\<in>set is. i \<ge> length (p1_pool p1))"
      and s': "s' = s2" "e_pc s2 = (case p1_flush_at p1 (e_pc s) of None \<Rightarrow> 0 | Some a \<Rightarrow> a)"
      by (simp add: emit_flush_def Let_def split: if_split_asm) (auto elim!: sbindE split: if_split_asm)
    have a: "same (if ?fs \<noteq> [] then pad_to 4 s else s) (if ?fs \<noteq> [] then pad_to 4 t else t)"
      using st by (simp add: same_pad)
    obtain t1 where t1: "emit_entries 4 ?fs p1 ns (if ?fs \<noteq> [] then pad_to 4 t else t) = Inr t1" "same s1 t1"
      using mirrorsD [OF mirrors_entries a s1] by blast
    have b: "same (if ?es \<noteq> [] then pad_to 8 s1 else s1) (if ?es \<noteq> [] then pad_to 8 t1 else t1)"
      using t1(2) by (simp add: same_pad)
    obtain t2 where t2: "emit_entries 8 ?es p1 ns (if ?es \<noteq> [] then pad_to 8 t1 else t1) = Inr t2" "same s2 t2"
      using mirrorsD [OF mirrors_entries b s2] by blast
    have "e_pc t2 = e_pc s2" using t2(2) by (simp add: same_def)
    then show ?thesis using Some i t1(1) t2 s' by (auto simp: emit_flush_def Let_def pc)
  qed
qed

lemma emit_org_cmap:
  "emit_org rec p1 ns (s\<lparr>e_cmap := c\<rparr>) = sbind (emit_org rec p1 ns s) (\<lambda>s'. Inr (s'\<lparr>e_cmap := c\<rparr>))"
proof (cases "first_operand (operands rec)")
  case (Inr o')
  then show ?thesis
    by (cases "eval_at (o_expr o') (e_pc s) p1 ns") (simp_all add: emit_org_def Let_def)
qed (simp add: emit_org_def)

lemma same_update: "same s t \<longleftrightarrow> t = s\<lparr>e_cmap := e_cmap t\<rparr>"
  by (cases s; cases t) (auto simp: same_def)

lemma mirrors_org: "mirrors (emit_org rec p1 ns) (emit_org rec p1 ns)"
  unfolding mirrors_def
proof (intro allI impI)
  fix s t s' assume st: "same s t" and e: "emit_org rec p1 ns s = Inr s'"
  have "emit_org rec p1 ns t = Inr (s'\<lparr>e_cmap := e_cmap t\<rparr>)"
    using emit_org_cmap [of rec p1 ns "e_cmap t" s] e unfolding st [unfolded same_update, symmetric] by simp
  then show "\<exists>t'. emit_org rec p1 ns t = Inr t' \<and> same s' t'" by (simp add: same_def)
qed

lemma mirrors_directive:
  assumes "directive_id rec' = directive_id rec" and "operands rec' = operands rec"
  shows "mirrors (emit_directive rec p1 ns) (emit_directive rec' p1 ns)"
proof -
  have e: "encode_directive rec' pc p1 ns = encode_directive rec pc p1 ns" for pc
    by (simp only: encode_directive_def assms)
  have "emit_org rec' p1 ns s = emit_org rec p1 ns s" for s using assms by (simp add: emit_org_def)
  then have org: "mirrors (emit_org rec p1 ns) (emit_org rec' p1 ns)" using mirrors_org [of rec p1 ns] by (simp add: mirrors_def)
  consider "directive_name (directive_id rec) = ''.ltorg''" | "directive_name (directive_id rec) = ''.org''"
    | "directive_name (directive_id rec) \<noteq> ''.ltorg''" "directive_name (directive_id rec) \<noteq> ''.org''" by blast
  then show ?thesis
  proof cases
    case 1
    then show ?thesis using mirrors_flush assms by (simp add: emit_directive_def mirrors_def)
  next
    case 2
    then show ?thesis using org assms by (simp add: emit_directive_def mirrors_def)
  next
    case 3
    then show ?thesis using assms by (auto simp: emit_directive_def mirrors_def e sbind_Inr_iff same_def put_bytes_def)
  qed
qed

section \<open>Emitting what was written\<close>

lemma emit_elements_append:
  "emit_elements ri (xs @ ys) p1 ns s = sbind (emit_elements ri xs p1 ns s) (emit_elements ri ys p1 ns)"
  by (induction xs arbitrary: s) (simp_all add: sbind_assoc)

lemma put_bytes_append: "put_bytes (xs @ ys) s = put_bytes ys (put_bytes xs s)"
  by (simp add: put_bytes_def)

lemma put_bytes_nil [simp]: "put_bytes [] s = s"
  by (simp add: put_bytes_def)

lemma emit_frame: "emit_record ri (record_of (WInsnRun m els)) p1 ns s = emit_elements ri els p1 ns s"
  by (simp add: emit_record_def record0_def)

lemma emit_chunk: "emit_record ri (record_of (WLitData d c)) p1 ns s = Inr (put_bytes c s)"
  by (simp add: emit_record_def record0_def)

lemma emit_chunks: "emit_records ri (map (record_of \<circ> WLitData d) cs) p1 ns s = Inr (put_bytes (concat cs) s)"
  by (induction cs arbitrary: ri s) (simp_all add: emit_chunk put_bytes_append del: record_of.simps)

lemma emit_frames:
  assumes "emit_elements rj (concat (map snd fs)) p1 ns s = Inr s'" and "same s t"
  shows "\<exists>t'. emit_records ri (map (\<lambda>(m, els). record_of (WInsnRun m els)) fs) p1 ns t = Inr t' \<and> same s' t'"
  using assms
proof (induction fs arbitrary: ri s t)
  case (Cons fr fs)
  obtain m els where fr: "fr = (m, els)" by (cases fr)
  from Cons.prems(1) obtain s1 where
    s1: "emit_elements rj els p1 ns s = Inr s1" "emit_elements rj (concat (map snd fs)) p1 ns s1 = Inr s'"
    by (auto simp: fr emit_elements_append elim!: sbindE)
  obtain t1 where t1: "emit_elements ri els p1 ns t = Inr t1" "same s1 t1"
    using mirrorsD [OF mirrors_elements Cons.prems(2) s1(1), of ri] by blast
  from Cons.IH [OF s1(2) t1(2), of "Suc ri"] t1(1) show ?case by (auto simp: fr emit_frame simp del: record_of.simps)
qed simp

section \<open>Payload sizes\<close>

lemma patch_bytes_length: "patch_ok p \<Longrightarrow> length (patch_bytes p) = patch_size p"
  by (auto simp: patch_ok_def patch_bytes_def put_patch_def patch_size_def)

lemma element_bytes_length: "element_ok 1 el \<Longrightarrow> length (element_bytes 1 el) = insn_element_size el"
  by (auto simp: element_ok_def element_bytes_def insn_element_size_def length_concat comp_def list_all_iff
      patch_bytes_length intro!: arg_cong [of _ _ sum_list] map_cong)

definition small_element :: "insn_element \<Rightarrow> bool" where
  "small_element el \<longleftrightarrow> length (patches el) \<le> 1"

lemma small_size: "small_element el \<Longrightarrow> element_ok 1 el \<Longrightarrow> insn_element_size el \<le> 262"
  by (cases "patches el") (auto simp: small_element_def insn_element_size_def element_ok_def patch_ok_def patch_size_def)

lemma frame_record_ok:
  assumes "good_frame (m, els)" and "list_all small_element els" and ok: "list_all (element_ok m) els"
  shows "record_ok (WInsnRun m els)"
proof -
  have m: "m = 0 \<or> m = 1" using assms(1) by (auto simp: good_frame_def)
  have "length (run_payload m els) \<le> 1016"
  proof (cases "m = 0")
    case True
    have "length (element_bytes 0 el) = 4" for el by (simp add: element_bytes_def)
    then have "length (run_payload 0 els) = 1 + 4 * length els"
      by (simp add: run_payload_def length_concat comp_def sum_list_triv)
    with True assms(1) show ?thesis by (auto simp: good_frame_def)
  next
    case False
    then have m1: "m = 1" using m by simp
    have "map (length \<circ> element_bytes 1) els = map insn_element_size els"
      using ok by (auto simp: m1 list_all_iff element_bytes_length)
    then have "length (run_payload 1 els) = mode1_payload els"
      by (simp only: run_payload_def length_concat mode1_payload_def map_map list.size)
    moreover have "mode1_payload els \<le> 1016"
    proof (cases "length els = 1")
      case True
      then obtain el where "els = [el]" by (cases els) auto
      with assms(2) ok m1 show ?thesis using small_size [of el] by (simp add: mode1_payload_def)
    next
      case False
      then show ?thesis using assms(1) m1 by (auto simp: good_frame_def frame_fits_def)
    qed
    ultimately show ?thesis by (simp add: m1)
  qed
  then show ?thesis using m ok by (simp add: record_ok_def)
qed


section \<open>Constant data\<close>

lemma imms_const:
  "read_operands buf = Inr os \<Longrightarrow> list_all (\<lambda>o'. eval_const (o_expr o') \<noteq> None) os \<Longrightarrow>
   imms_as_bytes buf ctx k = imms_as_bytes buf ctx' k"
proof (induction buf arbitrary: os rule: read_operands.induct)
  case (1 buf)
  show ?case
  proof (cases "buf = [] \<or> (\<exists>e. operand_next buf = Inl e)")
    case True
    then show ?thesis by (auto simp: imms_as_bytes.simps [of buf])
  next
    case False
    then obtain o1 rest where n: "buf \<noteq> []" "operand_next buf = Inr (o1, rest)"
      by (cases "operand_next buf") auto
    then obtain os1 where os1: "read_operands rest = Inr os1" "os = o1 # os1"
      using 1(2) by (auto simp: read_operands_step sbind_Inr_iff)
    then obtain v where "eval_const (o_expr o1) = Some v" using 1(3) by auto
    then have "\<not> expr_has_context_dep (o_expr o1)" unfolding eval_const_def by (rule eval_const_no_dep)
    then have "eval_usage (o_expr o1) ctx = eval_usage (o_expr o1) ctx'"
      unfolding eval_usage_def eval_def by (rule eval_loop_no_dep)
    with 1(1) [OF n(1) n(2) refl os1(1)] 1(3) os1(2) n show ?thesis by (simp add: imms_as_bytes.simps [of buf])
  qed
qed

lemma const_data_shape:
  assumes "const_data_width rec = Inr (Some w)"
  shows "r_kind rec = KindDirective" and "data_width (directive_id rec) = Some w" and "w \<in> {1, 2, 4, 8}"
    and "\<exists>os. read_operands (operands rec) = Inr os \<and> list_all (\<lambda>o'. eval_const (o_expr o') \<noteq> None) os"
proof -
  show k: "r_kind rec = KindDirective" and d: "data_width (directive_id rec) = Some w"
    using assms by (auto simp: const_data_width_def elim!: sbindE split: if_split_asm option.split_asm)
  then show "w \<in> {1, 2, 4, 8}" by (auto simp: data_width_def Let_def split: if_split_asm)
  obtain n where "const_operands (operands rec) 0 = Inr (Some n)"
    using assms by (auto simp: const_data_width_def elim!: sbindE split: if_split_asm option.split_asm)
  then show "\<exists>os. read_operands (operands rec) = Inr os \<and> list_all (\<lambda>o'. eval_const (o_expr o') \<noteq> None) os"
    unfolding const_operands_iff by (auto simp: list_all_iff)
qed

lemma const_data_emit:
  assumes "const_data rec p1 ns = Inr (Some (w, rw))"
  shows "emit_record ri rec p1 ns s = Inr (put_bytes rw s)" and "w \<in> {1, 2, 4, 8}"
proof -
  from assms have w: "const_data_width rec = Inr (Some w)" and e: "encode_directive rec 0 p1 ns = Inr rw"
    by (auto simp: const_data_def no_error_Inr elim!: sbindE split: option.split_asm if_split_asm)
  note c = const_data_shape [OF w]
  show "w \<in> {1, 2, 4, 8}" by (rule c(3))
  obtain os where os: "read_operands (operands rec) = Inr os" "list_all (\<lambda>o'. eval_const (o_expr o') \<noteq> None) os"
    using c(4) by blast
  have n: "directive_name (directive_id rec) \<in> {''.byte'', ''.short'', ''.hword'', ''.word'', ''.quad''}"
    using c(2) by (auto simp: data_width_def Let_def split: if_split_asm)
  have "encode_directive rec (e_pc s) p1 ns = Inr rw"
    using e n imms_const [OF os, of "make_ctx (e_pc s) p1 ns" _ "make_ctx 0 p1 ns"] by (auto simp: encode_directive_def Let_def)
  then show "emit_record ri rec p1 ns s = Inr (put_bytes rw s)"
    using c(1) n by (auto simp: emit_record_def emit_directive_def)
qed

section \<open>The invariant of the record loop\<close>

text \<open>
  The records written so far, emitted, and then the open run of instructions or data, bring pass 2
  to where it is after the symbolic records.
\<close>

definition compacted :: "pass1_result \<Rightarrow> bytes list \<Rightarrow> compact_state \<Rightarrow> pass2_state \<Rightarrow> bool" where
  "compacted p1 ns k s \<longleftrightarrow> (\<exists>ws t t'. k_buf k = concat (map record_bytes ws) \<and> list_all record_ok ws
     \<and> emit_records 0 (map record_of ws) p1 ns (pass2_init p1) = Inr t
     \<and> emit_elements 0 (k_inst k) p1 ns t = Inr t' \<and> same s (put_bytes (k_data k) t')
     \<and> (k_inst k = [] \<or> k_width k = 0) \<and> (k_width k = 0 \<longrightarrow> k_data k = [])
     \<and> k_width k \<in> {0, 1, 2, 4, 8} \<and> list_all small_element (k_inst k))"

lemma compacted_init: "compacted p1 ns compact_init (pass2_init p1)"
  unfolding compacted_def by (rule exI [of _ "[]"]) (simp add: compact_init_def)

lemma compacted_same: "compacted p1 ns k s \<Longrightarrow> same s s' \<Longrightarrow> compacted p1 ns k s'"
  unfolding compacted_def by (meson same_sym same_trans)

lemma compacted_editor:
  "compacted p1 ns k s \<Longrightarrow> compacted p1 ns (k\<lparr>k_sidecar := a\<rparr>) s"
  "compacted p1 ns k s \<Longrightarrow> compacted p1 ns (k\<lparr>k_globals := b\<rparr>) s"
  by (simp_all add: compacted_def)

text \<open>Flushing.\<close>

lemma write_frames_records: "write_frames buf fs = write_records buf (map (\<lambda>(m, els). WInsnRun m els) fs)"
  by (induction fs arbitrary: buf) (auto intro!: sbind_cong)

lemma write_chunks_records:
  "foldl (\<lambda>buf c. write_lit_data buf d c) buf cs = buf @ concat (map record_bytes (map (WLitData d) cs))"
  by (induction cs arbitrary: buf) (simp_all add: write_lit_data_def write_header_def record_bytes_def)

lemma flush_data_compacted:
  assumes "compacted p1 ns k s"
  shows "compacted p1 ns (flush_data k) s \<and> k_width (flush_data k) = 0 \<and> k_idx (flush_data k) = k_idx k"
proof (cases "k_width k = 0")
  case True
  then show ?thesis using assms by (simp add: flush_data_def)
next
  case False
  let ?mx = "lit_data_max_bytes div k_width k * k_width k"
  let ?cs = "chunks ?mx (k_data k)"
  from assms False obtain ws t where ws: "k_buf k = concat (map record_bytes ws)" "list_all record_ok ws"
    and t: "emit_records 0 (map record_of ws) p1 ns (pass2_init p1) = Inr t" and st: "same s (put_bytes (k_data k) t)"
    and i: "k_inst k = []" and w: "k_width k \<in> {1, 2, 4, 8}"
    unfolding compacted_def by auto
  have mx: "0 < ?mx" "?mx \<le> 1016" using w by auto
  have "length c \<le> 1016" if "c \<in> set ?cs" for c
    using chunks_length [OF that] mx(2) by (meson le_trans)
  then have "record_ok (WLitData (k_dir k) c)" if "c \<in> set ?cs" for c
    using that by (fastforce simp: record_ok_def)
  then have ok: "list_all record_ok (ws @ map (WLitData (k_dir k)) ?cs)" using ws(2) by (auto simp: list_all_iff)
  have "emit_records 0 (map record_of (ws @ map (WLitData (k_dir k)) ?cs)) p1 ns (pass2_init p1)
      = Inr (put_bytes (k_data k) t)"
    using t emit_chunks [of "length ws" "k_dir k" ?cs p1 ns t]
    by (simp only: map_append emit_records_append sbind.simps length_map map_map concat_chunks [OF mx(1)] add_0)
  moreover have "k_buf (flush_data k) = concat (map record_bytes (ws @ map (WLitData (k_dir k)) ?cs))"
    using False ws(1) by (simp add: flush_data_def write_chunks_records)
  ultimately show ?thesis
    using False ok i st unfolding compacted_def flush_data_def by (auto intro!: exI [of _ "ws @ map (WLitData (k_dir k)) ?cs"])
qed

lemma flush_inst_compacted:
  assumes "compacted p1 ns k s" and "flush_inst k = Inr k'"
  shows "compacted p1 ns k' s \<and> k_inst k' = [] \<and> k_idx k' = k_idx k \<and> k_width k' = k_width k"
proof -
  let ?fs = "insn_frames (k_inst k)" and ?rs = "map (\<lambda>(m, els). WInsnRun m els) (insn_frames (k_inst k))"
  from assms(1) obtain ws t t' where ws: "k_buf k = concat (map record_bytes ws)" "list_all record_ok ws"
    and t: "emit_records 0 (map record_of ws) p1 ns (pass2_init p1) = Inr t"
    and t': "emit_elements 0 (k_inst k) p1 ns t = Inr t'" and st: "same s (put_bytes (k_data k) t')"
    and rest: "k_inst k = [] \<or> k_width k = 0" "k_width k = 0 \<longrightarrow> k_data k = []" "k_width k \<in> {0, 1, 2, 4, 8}"
      "list_all small_element (k_inst k)"
    unfolding compacted_def by auto
  obtain buf where buf: "write_frames (k_buf k) ?fs = Inr buf" and k': "k' = k\<lparr>k_buf := buf, k_inst := []\<rparr>"
    using assms(2) by (auto simp: flush_inst_def emit_insn_run_frames_def elim!: sbindE)
  have run: "list_all run_ok ?rs" using buf unfolding write_frames_records by (rule write_records_run_ok)
  note parts = insn_frames_parts [of "k_inst k"]
  have "record_ok (WInsnRun m els)" if "(m, els) \<in> set ?fs" for m els
  proof (rule frame_record_ok)
    show "good_frame (m, els)" using parts that by (auto simp: list_all_iff)
    have "set els \<subseteq> set (k_inst k)" using parts that by (metis UN_upper image_eqI set_concat set_map snd_conv)
    then show "list_all small_element els" using rest(4) by (auto simp: list_all_iff)
    show "list_all (element_ok m) els" using run that by (auto simp: list_all_iff)
  qed
  then have ok: "list_all record_ok (ws @ ?rs)" using ws(2) by (auto simp: list_all_iff)
  have b: "k_buf k' = concat (map record_bytes (ws @ ?rs))"
    using buf write_records_eq [OF run, of "k_buf k"] by (simp add: k' write_frames_records ws(1))
  have "emit_elements 0 (concat (map snd ?fs)) p1 ns t = Inr t'" using t' parts by simp
  from emit_frames [OF this same_refl, of "length ws"] obtain u where
    u: "emit_records (length ws) (map record_of ?rs) p1 ns t = Inr u" "same t' u"
    by (auto simp: comp_def case_prod_unfold)
  have "emit_records 0 (map record_of (ws @ ?rs)) p1 ns (pass2_init p1) = Inr u"
    using t u(1) by (simp add: emit_records_append del: map_map)
  moreover have "same s (put_bytes (k_data k) u)" using st same_put [OF u(2)] by (rule same_trans)
  ultimately have "compacted p1 ns k' s"
    unfolding compacted_def using ok b rest by (intro exI [of _ "ws @ ?rs"] exI [of _ u]) (auto simp: k')
  then show ?thesis by (simp add: k')
qed


text \<open>One record.\<close>

lemma append_inst:
  assumes "compacted p1 ns k s" and "k_width k = 0" and "compact_inst rec (e_pc s) p1 ns = Inr el"
    and "pool_target_ok rec" and "encode_inst rec (e_pc s) p1 ns = Inr w"
  shows "compacted p1 ns (k\<lparr>k_idx := i, k_inst := k_inst k @ [el]\<rparr>) (emit_word ri w s)"
proof -
  from assms(1,2) obtain ws t t' where ws: "k_buf k = concat (map record_bytes ws)" "list_all record_ok ws"
    and t: "emit_records 0 (map record_of ws) p1 ns (pass2_init p1) = Inr t"
    and t': "emit_elements 0 (k_inst k) p1 ns t = Inr t'" and st: "same s t'" and d: "k_data k = []"
    and small: "list_all small_element (k_inst k)"
    unfolding compacted_def by auto
  have pc: "e_pc t' = e_pc s" using st by (simp add: same_def)
  have "emit_elements 0 (k_inst k @ [el]) p1 ns t = Inr (emit_word 0 w t')"
    using t' compact_inst_at [OF assms(3-5)] by (simp add: emit_elements_append pc)
  moreover have "small_element el"
    using assms(3) by (auto simp: compact_inst_def small_element_def encode_inst_overlay_def Let_def
        elim!: sbindE split: option.split_asm if_split_asm)
  ultimately show ?thesis
    unfolding compacted_def using ws t same_word [OF st] assms(2) d small
    by (intro exI [of _ ws] exI [of _ t] exI [of _ "emit_word 0 w t'"]) simp
qed

lemma append_data:
  assumes "compacted p1 ns k s" and "k_inst k = []" and "k_width k = 0 \<or> k_dir k = d" and "w \<in> {1, 2, 4, 8}"
  shows "compacted p1 ns (k\<lparr>k_dir := d, k_width := w, k_data := k_data k @ rw\<rparr>) (put_bytes rw s)"
proof -
  from assms(1,2) obtain ws t where "k_buf k = concat (map record_bytes ws)" "list_all record_ok ws"
    "emit_records 0 (map record_of ws) p1 ns (pass2_init p1) = Inr t" and st: "same s (put_bytes (k_data k) t)"
    unfolding compacted_def by auto
  moreover have "same (put_bytes rw s) (put_bytes (k_data k @ rw) t)"
    using same_put [OF st, of rw] by (simp add: put_bytes_append)
  ultimately show ?thesis
    unfolding compacted_def using assms(2,4) by (intro exI [of _ ws] exI [of _ t]) auto
qed

lemma pass_directive:
  assumes "compacted p1 ns k s" and "k_inst k = []" and "k_width k = 0" and "r_kind rec = KindDirective"
    and "length (operands rec) < 65534" and "emit_record ri rec p1 ns s = Inr s'"
  shows "compacted p1 ns (k\<lparr>k_buf := write_directive (k_buf k) (directive_id rec) (operand_count rec) (operands rec)\<rparr>) s'"
proof -
  let ?w = "WDirective (directive_id rec) (operand_count rec) (operands rec)"
  from assms(1-3) obtain ws t where ws: "k_buf k = concat (map record_bytes ws)" "list_all record_ok ws"
    and t: "emit_records 0 (map record_of ws) p1 ns (pass2_init p1) = Inr t" and st: "same s t" and d: "k_data k = []"
    unfolding compacted_def by auto
  have e: "emit_directive rec p1 ns s = Inr s'" using assms(4,6) by (simp add: emit_record_def)
  have m: "mirrors (emit_directive rec p1 ns) (emit_directive (record_of ?w) p1 ns)"
    by (rule mirrors_directive) (simp_all add: record0_def)
  obtain t' where t': "emit_directive (record_of ?w) p1 ns t = Inr t'" "same s' t'"
    using mirrorsD [OF m st e] by blast
  have "emit_record (length ws) (record_of ?w) p1 ns t = Inr t'" using t'(1) by (simp add: emit_record_def record0_def)
  then have "emit_records 0 (map record_of (ws @ [?w])) p1 ns (pass2_init p1) = Inr t'"
    using t by (simp add: emit_records_append)
  moreover have "record_ok ?w" using assms(5) by (simp add: record_ok_def)
  moreover have "write_directive buf (directive_id rec) (operand_count rec) (operands rec) = buf @ record_bytes ?w" for buf
    by (simp add: write_directive_def record_bytes_def write_header_def)
  ultimately show ?thesis
    unfolding compacted_def using ws t'(2) assms(2,3) d by (intro exI [of _ "ws @ [?w]"] exI [of _ t'] exI [of _ t']) simp
qed

text \<open>What the input has to satisfy: the records a parsed file has, and the PC of its instructions.\<close>

definition compactable :: "tbn_record \<Rightarrow> bool" where
  "compactable rec \<longleftrightarrow> length (operands rec) < 65534 \<and> pool_target_ok rec"

lemma silent_global: "directive_name (directive_id rec) = ''.global'' \<Longrightarrow> r_kind rec = KindDirective \<Longrightarrow>
    emit_record ri rec p1 ns s = Inr (put_bytes [] s)"
  by (simp add: emit_record_def emit_directive_def encode_directive_def silent_directives_def Let_def)

lemma const_record_step:
  assumes "const_data rec p1 ns = Inr (Some (w, rw))" and "add_data (directive_id rec) w rw k = Inr k'"
    and "emit_record ri rec p1 ns s = Inr s'" and "compacted p1 ns k s"
  shows "compacted p1 ns k' s' \<and> k_idx k' = k_idx k"
proof -
  note d = const_data_emit [OF assms(1)]
  obtain k1 where k1: "flush_inst k = Inr k1"
    and k': "k' = (let k2 = (if k_width k1 \<noteq> 0 \<and> k_dir k1 \<noteq> directive_id rec then flush_data k1 else k1)
      in k2\<lparr>k_dir := directive_id rec, k_width := w, k_data := k_data k2 @ rw\<rparr>)"
    using assms(2) by (simp add: add_data_def Let_def) (auto elim!: sbindE)
  let ?k2 = "if k_width k1 \<noteq> 0 \<and> k_dir k1 \<noteq> directive_id rec then flush_data k1 else k1"
  note f = flush_inst_compacted [OF assms(4) k1]
  have "compacted p1 ns ?k2 s" "k_inst ?k2 = []" "k_width ?k2 = 0 \<or> k_dir ?k2 = directive_id rec" "k_idx ?k2 = k_idx k"
    using f flush_data_compacted [of p1 ns k1 s] by (auto simp: flush_data_def)
  moreover have "s' = put_bytes rw s" using d(1) assms(3) by simp
  ultimately show ?thesis using append_data [of p1 ns ?k2 s _ w rw] d(2) by (simp add: k' Let_def)
qed

lemma pass_record_step:
  assumes "pass_through rec k = Inr k'" and "emit_record ri rec p1 ns s = Inr s'" and "compacted p1 ns k s"
    and "length (operands rec) < 65534"
  shows "compacted p1 ns k' s' \<and> k_idx k' = k_idx k"
proof -
  obtain k1 where k1: "flush_inst k = Inr k1" and kd: "r_kind rec = KindDirective"
    and k': "k' = (flush_data k1)\<lparr>k_buf := write_directive (k_buf (flush_data k1)) (directive_id rec) (operand_count rec) (operands rec)\<rparr>"
    using assms(1) by (auto simp: pass_through_def flush_all_def Let_def elim!: sbindE split: if_split_asm)
  note f = flush_inst_compacted [OF assms(3) k1]
  have g: "compacted p1 ns (flush_data k1) s" "k_width (flush_data k1) = 0" "k_idx (flush_data k1) = k_idx k1"
    using flush_data_compacted f by blast+
  have "k_inst (flush_data k1) = []" using f by (simp add: flush_data_def)
  from pass_directive [OF g(1) this g(2) kd assms(4,2)] g(3) f show ?thesis by (simp add: k')
qed

lemma compact_record_step:
  assumes c: "compact_record i rec p1 ns k = Inr k'" and e: "emit_record ri rec p1 ns s = Inr s'"
    and inv: "compacted p1 ns k s" and ok: "compactable rec"
    and pc: "r_kind rec = KindInst \<Longrightarrow> p1_inst_pc p1 ! k_idx k = e_pc s"
  shows "compacted p1 ns k' s' \<and> k_idx k' = k_idx k + (if r_kind rec = KindInst then 1 else 0)"
proof -
  consider "r_kind rec = KindLabelDef \<or> r_kind rec = KindLocalDef" | "r_kind rec = KindComment \<or> r_kind rec = KindBlankRun"
    | "r_kind rec = KindInst"
    | "r_kind rec \<notin> {KindLabelDef, KindLocalDef, KindComment, KindBlankRun, KindInst}" by auto
  then show ?thesis
  proof cases
    case 1
    then show ?thesis
      using c e flush_data_compacted [OF inv] by (auto simp: compact_record_def emit_record_def)
  next
    case 2
    then show ?thesis
      using c e inv by (auto simp: compact_record_def emit_record_def add_sidecar_def compacted_editor elim!: sbindE)
  next
    case 3
    note f = flush_data_compacted [OF inv]
    from c 3 pc f obtain el where el: "compact_inst rec (e_pc s) p1 ns = Inr el"
      and k': "k' = (flush_data k)\<lparr>k_idx := Suc (k_idx k), k_inst := k_inst (flush_data k) @ [el]\<rparr>"
      by (auto simp: compact_record_def compact_instruction_def Let_def elim!: sbindE split: if_split_asm)
    from e 3 obtain w where w: "encode_inst rec (e_pc s) p1 ns = Inr w" "s' = emit_word ri w s"
      by (auto simp: emit_record_def elim!: sbindE)
    show ?thesis
      using append_inst [OF _ _ el _ w(1), of "flush_data k" "Suc (k_idx k)" ri] f ok 3 by (simp add: k' w(2) compactable_def)
  next
    case 4
    then obtain ids where
      ids: "(if r_kind rec = KindDirective \<and> directive_name (directive_id rec) = ''.global'' then global_name_ids rec else Inr None) = Inr ids"
      and r: "(case ids of Some ids \<Rightarrow> Inr (k\<lparr>k_globals := k_globals k @ ids\<rparr>)
        | None \<Rightarrow> sbind (const_data rec p1 ns) (\<lambda>d. case d of Some (width, rw) \<Rightarrow> add_data (directive_id rec) width rw k
               | None \<Rightarrow> pass_through rec k)) = Inr k'"
      using c by (auto simp: compact_record_def elim!: sbindE)
    show ?thesis
    proof (cases ids)
      case (Some js)
      then have "s' = s" using ids e by (auto simp: silent_global split: if_split_asm)
      then show ?thesis using r Some inv 4 by (auto simp: compacted_editor)
    next
      case None
      from r None obtain d where d: "const_data rec p1 ns = Inr d"
        and r': "(case d of Some (width, rw) \<Rightarrow> add_data (directive_id rec) width rw k | None \<Rightarrow> pass_through rec k) = Inr k'"
        by (auto elim!: sbindE)
      show ?thesis
      proof (cases d)
        case (Some wr)
        then obtain w rw where wr: "d = Some (w, rw)" by (cases wr) auto
        from const_record_step [OF d [unfolded wr] _ e inv] r' wr 4 show ?thesis by simp
      next
        case None
        with pass_record_step [OF _ e inv] r' ok 4 show ?thesis by (simp add: compactable_def)
      qed
    qed
  qed
qed


section \<open>Instruction addresses\<close>

lemma inst_pc_frame [simp]:
  "p1_inst_pc (w_res (flush_pool w)) = p1_inst_pc (w_res w)"
  "p1_record_pc (w_res (flush_pool w)) = p1_record_pc (w_res w)"
  "p1_inst_pc (w_res (register_literal wd e w)) = p1_inst_pc (w_res w)"
  "p1_record_pc (w_res (register_literal wd e w)) = p1_record_pc (w_res w)"
  "p1_inst_pc (w_res (advance n w)) = p1_inst_pc (w_res w)"
  "p1_record_pc (w_res (advance n w)) = p1_record_pc (w_res w)"
  by (simp_all add: flush_pool_def register_literal_def advance_def Let_def split: prod.split option.split)

lemma inst_pc_patches [simp]:
  "p1_inst_pc (w_res (register_patches b ps w)) = p1_inst_pc (w_res w)"
  "p1_record_pc (w_res (register_patches b ps w)) = p1_record_pc (w_res w)"
  by (induction ps arbitrary: w) simp_all

lemma inst_pc_elements [simp]:
  "p1_inst_pc (w_res (walk_elements els w)) = p1_inst_pc (w_res w)"
  "p1_record_pc (w_res (walk_elements els w)) = p1_record_pc (w_res w)"
  by (induction els arbitrary: w) simp_all

lemma inst_pc_directive:
  "walk_directive rec ns w = Inr w' \<Longrightarrow> p1_inst_pc (w_res w') = p1_inst_pc (w_res w) \<and> p1_record_pc (w_res w') = p1_record_pc (w_res w)"
  by (auto simp: walk_directive_def walk_org_def resolve_equ_def Let_def elim!: sbindE split: if_split_asm option.split_asm prod.split_asm)

lemma inst_pc_record:
  "walk_record rec ns w = Inr w' \<Longrightarrow> p1_record_pc (w_res w') = p1_record_pc (w_res w) @ [w_pc w]
    \<and> p1_inst_pc (w_res w') = p1_inst_pc (w_res w) @ (if r_kind rec = KindInst then [w_pc w] else [])"
  by (auto simp: walk_record_def Let_def walk_inst_def define_label_def define_local_def
      elim!: sbindE dest: inst_pc_directive split: if_split_asm option.split_asm)

definition is_inst :: "tbn_record \<Rightarrow> bool" where
  "is_inst rec \<longleftrightarrow> r_kind rec = KindInst"

lemma inst_pc_records:
  "walk_records recs ns w = Inr w' \<Longrightarrow> \<exists>pcs is. length pcs = length recs \<and> length is = length (filter is_inst recs)
    \<and> p1_record_pc (w_res w') = p1_record_pc (w_res w) @ pcs \<and> p1_inst_pc (w_res w') = p1_inst_pc (w_res w) @ is"
proof (induction recs arbitrary: w)
  case (Cons rec recs)
  then obtain w1 where "walk_record rec ns w = Inr w1" and w1: "walk_records recs ns w1 = Inr w'" by (auto elim!: sbindE)
  from inst_pc_record [OF this(1)] Cons.IH [OF w1] show ?case
    by (fastforce simp: is_inst_def length_Suc_conv)
qed simp

lemma inst_pc_at:
  assumes "walk_records (us @ rec # vs) ns walk_init = Inr w" and "is_inst rec"
  shows "p1_inst_pc (w_res w) ! length (filter is_inst us) = p1_record_pc (w_res w) ! length us"
proof -
  obtain w1 w2 where w1: "walk_records us ns walk_init = Inr w1" and w2: "walk_record rec ns w1 = Inr w2"
    and w: "walk_records vs ns w2 = Inr w"
    using assms(1) by (auto simp: walk_records_append elim!: sbindE)
  have "length (p1_record_pc (w_res w1)) = length us" "length (p1_inst_pc (w_res w1)) = length (filter is_inst us)"
    using inst_pc_records [OF w1] by (auto simp: walk_init_def pass1_init_def)
  with inst_pc_record [OF w2] inst_pc_records [OF w] assms(2) show ?thesis by (auto simp: is_inst_def nth_append)
qed

lemma seed_pcs:
  "seed_labels lrs ns res = Inr res' \<Longrightarrow> p1_inst_pc res' = p1_inst_pc res \<and> p1_record_pc res' = p1_record_pc res"
  by (induction lrs arbitrary: res) (auto simp: define_label_def elim!: sbindE)

lemma seed_local_pcs: "p1_inst_pc (seed_locals lrs res) = p1_inst_pc res" "p1_record_pc (seed_locals lrs res) = p1_record_pc res"
  by (induction lrs arbitrary: res) (simp_all add: define_local_def)

lemma instruction_pc:
  assumes p: "pass1 f = Inr p1" and ok: "assembles_ok f p1" and split: "f_records f = us @ rec # vs" and i: "is_inst rec"
    and e: "emit_records 0 us p1 (f_names f) (pass2_init p1) = Inr s"
  shows "p1_inst_pc p1 ! length (filter is_inst us) = e_pc s"
proof -
  obtain w res where w: "walk_records (f_records f) (f_names f) walk_init = Inr w"
    and r: "seed_labels (f_labels f) (f_names f) ((w_res (flush_pool w))\<lparr>p1_total_size := w_pc (flush_pool w)\<rparr>) = Inr res"
    and p1: "p1 = seed_locals (f_locals f) res"
    using p by (auto simp: pass1_def Let_def elim!: sbindE)
  have pcs: "p1_inst_pc p1 = p1_inst_pc (w_res w)" "p1_record_pc p1 = p1_record_pc (w_res w)"
    using seed_pcs [OF r] by (simp_all add: p1 seed_local_pcs)
  have nth: "length us < length (f_records f)" "f_records f ! length us = rec" "take (length us) (f_records f) = us"
    by (simp_all add: split)
  have nz: "\<not> zero_size rec" using i by (simp add: is_inst_def zero_size_def)
  have org: "p1_origin p1 = 0 \<or> length (takeWhile zero_size (f_records f)) < length us"
  proof (cases "\<forall>r\<in>set us. zero_size r")
    case True
    then have "dropWhile zero_size (f_records f) = rec # vs" using nz by (simp add: split dropWhile_append2)
    then show ?thesis using ok i by (auto simp: assembles_ok_def origin_ok_def is_inst_def)
  next
    case False
    then obtain r where r: "r \<in> set us" "\<not> zero_size r" by blast
    have "takeWhile zero_size (f_records f) = takeWhile zero_size us" unfolding split using r by (rule takeWhile_append1)
    moreover have "length (takeWhile zero_size us) \<noteq> length us"
      using False by (metis order_refl take_all takeWhile_eq_all_conv takeWhile_eq_take)
    ultimately show ?thesis using length_takeWhile_le [of zero_size us] by simp
  qed
  have "emit_records 0 (take (length us) (f_records f)) p1 (f_names f) (pass2_init p1) = Inr s" using e nth(3) by simp
  then have "e_pc s = p1_record_pc p1 ! length us"
    by (rule record_reached [OF p ok nth(1) org _ refl]) simp
  then show ?thesis using inst_pc_at [OF w [unfolded split] i] by (simp add: pcs)
qed


section \<open>The whole file\<close>

lemma compact_run:
  assumes "compact_records i recs p1 ns k = Inr k'" and "emit_records ri recs p1 ns s = Inr s'" and "compacted p1 ns k s"
    and "list_all compactable recs"
    and "\<And>us rec vs s1. recs = us @ rec # vs \<Longrightarrow> is_inst rec \<Longrightarrow> emit_records ri us p1 ns s = Inr s1 \<Longrightarrow>
      p1_inst_pc p1 ! (k_idx k + length (filter is_inst us)) = e_pc s1"
  shows "compacted p1 ns k' s'"
  using assms
proof (induction recs arbitrary: i ri k s)
  case (Cons rec recs)
  obtain k1 where k1: "compact_record i rec p1 ns k = Inr k1" "compact_records (Suc i) recs p1 ns k1 = Inr k'"
    using Cons.prems(1) by (auto elim!: sbindE)
  obtain s1 where s1: "emit_record ri rec p1 ns s = Inr s1" "emit_records (Suc ri) recs p1 ns s1 = Inr s'"
    using Cons.prems(2) by (auto elim!: sbindE)
  have pc: "p1_inst_pc p1 ! k_idx k = e_pc s" if "r_kind rec = KindInst"
    using Cons.prems(5) [of "[]" rec recs s] that by (simp add: is_inst_def)
  have step: "compacted p1 ns k1 s1" "k_idx k1 = k_idx k + (if is_inst rec then 1 else 0)"
    using compact_record_step [OF k1(1) s1(1) Cons.prems(3) _ pc] Cons.prems(4) by (simp_all add: is_inst_def)
  show ?case
  proof (rule Cons.IH [OF k1(2) s1(2) step(1)])
    show "list_all compactable recs" using Cons.prems(4) by simp
    fix us r vs s2 assume "recs = us @ r # vs" "is_inst r" "emit_records (Suc ri) us p1 ns s1 = Inr s2"
    then show "p1_inst_pc p1 ! (k_idx k1 + length (filter is_inst us)) = e_pc s2"
      using Cons.prems(5) [of "rec # us" r vs s2] s1(1) step(2) by (simp split: if_split_asm)
  qed
qed simp

lemma mirrors_pass2:
  assumes "emit_flush p1 ns s = Inr s'" and "same s t" and "emit_records 0 recs p1 ns (pass2_init p1) = Inr t"
    and "f_names f = ns"
  shows "pass2 (f\<lparr>f_records := recs\<rparr>) p1 = Inr (e_out s')"
  using mirrorsD [OF mirrors_flush assms(2,1)] assms(3,4) by (auto simp: pass2_def pass2_with_map_def same_def)

text \<open>
  C1.  Compaction preserves the program.  For a file whose passes succeed, in which no literal load
  has a pool operand for its destination and no operand stream exceeds a record: the compacted
  record stream is well formed, and with pass 1's symbols and literal pool pass 2 assembles it to
  the very image of the symbolic file.
\<close>

theorem compaction_preserves_image:
  assumes "pass1 f = Inr p1" and "assembles_ok f p1" and "list_all compactable (f_records f)"
    and "compact f p1 = Inr (recs, sidecar, globals)" and "pass2 f p1 = Inr out"
  shows "\<exists>rs. read_records recs = Inr rs \<and> pass2 (f\<lparr>f_records := rs\<rparr>) p1 = Inr out"
proof -
  let ?ns = "f_names f"
  obtain k k1 where k: "compact_records 0 (f_records f) p1 ?ns compact_init = Inr k"
    and k1: "flush_inst k = Inr k1" and recs: "recs = k_buf (flush_data k1)"
    using assms(4) by (auto simp: compact_def flush_all_def elim!: sbindE)
  obtain s s' where s: "emit_records 0 (f_records f) p1 ?ns (pass2_init p1) = Inr s"
    and s': "emit_flush p1 ?ns s = Inr s'" and out: "out = e_out s'"
    using assms(5) by (auto simp: pass2_def pass2_with_map_def elim!: sbindE)
  have "compacted p1 ?ns k s"
    by (rule compact_run [OF k s compacted_init assms(3)])
      (simp add: compact_init_def instruction_pc [OF assms(1,2)])
  note f = flush_inst_compacted [OF this k1]
  have d: "compacted p1 ?ns (flush_data k1) s" "k_width (flush_data k1) = 0" using flush_data_compacted f by blast+
  have "k_inst (flush_data k1) = []" using f by (simp add: flush_data_def)
  with d obtain ws t where ws: "recs = concat (map record_bytes ws)" "list_all record_ok ws" and st: "same s t"
    and t: "emit_records 0 (map record_of ws) p1 ?ns (pass2_init p1) = Inr t"
    unfolding compacted_def recs by auto
  have "read_records recs = Inr (map record_of ws)" unfolding ws(1) by (rule records.get_all_put [OF ws(2)])
  moreover have "pass2 (f\<lparr>f_records := map record_of ws\<rparr>) p1 = Inr out"
    unfolding out by (rule mirrors_pass2 [OF s' st t refl])
  ultimately show ?thesis by blast
qed


section \<open>An example\<close>

text \<open>\<^verbatim>\<open>a: mov x3, #7; b a; .byte 1, 2\<close>\<close>

definition mov_rec :: tbn_record where
  "mov_rec = (record0 KindInst [])\<lparr>r_mnemonic := 3, operands := [OpRegX, 3, OpImmExpr, 2, 0, OpPushImm8, 7]\<rparr>"

definition b_rec :: tbn_record where
  "b_rec = (record0 KindInst [])\<lparr>r_mnemonic := 9, operands := [OpImmExpr, 3, 0, OpPushSym, 0, 0]\<rparr>"

definition byte_rec :: tbn_record where
  "byte_rec = (record0 KindDirective [])\<lparr>directive_id := 2, operand_count := 2,
     operands := [OpImmExpr, 2, 0, OpPushImm8, 1, OpImmExpr, 2, 0, OpPushImm8, 2]\<rparr>"

definition loop_file :: tbn_file where
  "loop_file = demo_file\<lparr>f_records := [(record0 KindLabelDef [])\<lparr>symbol_id := 0\<rparr>, mov_rec, b_rec, byte_rec]\<rparr>"

definition loop_p1 :: pass1_result where
  "loop_p1 = pass1_init\<lparr>p1_symbols := [[0x61] \<mapsto> 0], p1_label_defs := [[0x61]], p1_total_size := 10,
     p1_inst_pc := [0, 4], p1_record_pc := [0, 0, 4, 8]\<rparr>"

lemma loop_pass1: "pass1 loop_file = Inr loop_p1"
  by (simp add: pass1_def loop_file_def loop_p1_def demo_file_def demo_walk mov_rec_def b_rec_def byte_rec_def
      walk_inst_def mnem_ids directive_size_def)

lemmas stream_simps = read_operands.simps operand_next_def operand0_def take_counted_def read_len_def take_bytes_def

lemma loop_operands:
  "read_operands (operands mov_rec) = Inr [(operand0 OpRegX)\<lparr>o_reg := 3\<rparr>, (operand0 OpImmExpr)\<lparr>o_expr := [OpPushImm8, 7]\<rparr>]"
  "read_operands (operands b_rec) = Inr [(operand0 OpImmExpr)\<lparr>o_expr := [OpPushSym, 0, 0]\<rparr>]"
  by (simp_all add: mov_rec_def b_rec_def record0_def stream_simps)

lemma loop_eval: "eval_usage [OpPushImm8, 7] ctx = Inr 7" "eval_at [OpPushSym, 0, 0] pc loop_p1 (f_names loop_file) = Inr 0"
  by (simp_all add: eval_at_def eval_usage_def eval_def eval_loop.simps expr_next_def operand_width_def eval_step_def op_tables
      push_value_def resolve_symbol_def make_ctx_def lookup_symbol_def loop_p1_def loop_file_def demo_file_def le_get_def)

lemma mov_word: "encode_inst mov_rec pc loop_p1 (f_names loop_file) = Inr 0xd28000e3"
  by (simp add: encode_inst_def loop_operands)
    (simp add: mov_rec_def record0_def encode_operands_def compound_kind_def is_reg_imm_def mnem_ids operand0_def
      try_encode_mov_imm_def eval_at_def loop_eval mov_imm_word_def mov_imm_value_def find_chunk_def mov_shifts_def
      mov_chunk_def mov_wide_word_def)

lemma b_form: "validate_operand_kinds 9 [5] = Inr (mk_form 9 0x14000000 0xfc000000 [mk_slot BranchImm26 5 0 26])"
  by (simp add: validate_find all_forms_defs form_tables selects_def)

lemma b_word: "encode_inst b_rec 4 loop_p1 (f_names loop_file) = Inr 0x17ffffff"
  by (simp add: encode_inst_def loop_operands)
    (simp add: b_rec_def record0_def encode_operands_def compound_kind_def is_reg_imm_def mnem_ids operand0_def
      encode_special_def encode_form_def b_form is_plain_gpr_def loop_eval slot_value_def encode_def encode_slot_def
      encode_branch_imm_def go_defs signed_divide_int_def signed_modulo_int_def operand_value0_def; code_simp)


lemma loop_literal: "is_fully_literal mov_rec = Inr True" "is_fully_literal b_rec = Inr False"
  by (simp_all add: is_fully_literal_def mov_rec_def b_rec_def record0_def literal_loop.simps operand_next_def operand0_def
      take_counted_def read_len_def take_bytes_def operand_literal_def expr_has_context_dep.simps expr_next_def
      operand_width_def op_tables)

lemma mov_literal: "literal_word mov_rec loop_p1 (f_names loop_file) = Inr (Some 0xd28000e3)"
  by (simp add: literal_word_def loop_literal mov_word)

lemma literal_word_everywhere_witness: "encode_inst mov_rec 0x80000 loop_p1 (f_names loop_file) = Inr 0xd28000e3"
  by (rule literal_word_everywhere [OF mov_literal])

lemma b_element:
  "compact_inst b_rec 4 loop_p1 (f_names loop_file)
     = Inr \<lparr>base_word = 0x14000000, patches = [\<lparr>patch_slot = FoldBranch26, patch_expr = [OpPushSym, 0, 0]\<rparr>]\<rparr>"
proof -
  have "overlay_classify b_rec 4 loop_p1 (f_names loop_file) = Inr (overlay_of FoldBranch26 [OpPushSym, 0, 0])"
    by (simp add: overlay_classify_def loop_operands)
      (simp add: b_rec_def record0_def classify_operands_def compound_kind_def is_reg_imm_def mnem_ids operand0_def
        special_mnemonics_def classify_form_def b_form fold_slot_for_kind_def fold_slot_pc_dependent_def)
  moreover have "fold_slot FoldBranch26 0 4 0x14000000 = Inr 0x3ffffff"
    by (simp add: fold_slot_def encode_branch_imm_def field_slot_def go_defs signed_divide_int_def signed_modulo_int_def; code_simp)
  ultimately show ?thesis
    by (simp add: compact_inst_def literal_word_def loop_literal encode_inst_overlay_def overlay_of_def b_word
        zero_slot_def zero_mask_def assert_overlay_def loop_eval)
qed


lemma loop_imms: "imms_as_bytes (operands byte_rec) ctx 1 = Inr [1, 2]"
  by (simp add: byte_rec_def record0_def imms_as_bytes.simps operand_next_def operand0_def take_counted_def read_len_def
      take_bytes_def eval_usage_def eval_def eval_loop.simps expr_next_def operand_width_def eval_step_def op_tables
      push_value_def le_get_def)

lemma loop_ok: "assembles_ok loop_file loop_p1" "list_all compactable (f_records loop_file)"
proof -
  have "list_all wf_record (f_records loop_file)"
    by (simp add: loop_file_def mov_rec_def b_rec_def byte_rec_def record0_def wf_record_def count_ok_def data_width_def
        directive_name_def DirectiveTable_def stream_simps)
  moreover have "defined_names (f_records loop_file) (f_names loop_file) = [[0x61]]" "header_names (f_labels loop_file) (f_names loop_file) = []"
    by (simp_all add: loop_file_def demo_file_def mov_rec_def b_rec_def byte_rec_def record0_def defined_names_def
        record_names_def header_names_def directive_name_def DirectiveTable_def)
  moreover have "image_span loop_file = 10"
    by (simp add: image_span_def loop_file_def demo_file_def demo_walk mov_rec_def b_rec_def byte_rec_def walk_inst_def
        mnem_ids directive_size_def pending_len_def flush_len_def pad_len_def)
  ultimately show "assembles_ok loop_file loop_p1"
    by (simp add: assembles_ok_def origin_ok_def loop_p1_def pass1_init_def)
  have "compactable mov_rec" "compactable b_rec"
    unfolding compactable_def pool_target_ok_def loop_operands
    by (simp_all add: operand0_def) (simp_all add: mov_rec_def b_rec_def record0_def)
  moreover have "compactable byte_rec" "compactable ((record0 KindLabelDef [])\<lparr>symbol_id := 0\<rparr>)"
    by (simp_all add: compactable_def pool_target_ok_def byte_rec_def record0_def stream_simps)
  ultimately show "list_all compactable (f_records loop_file)" by (simp add: loop_file_def)
qed

lemma loop_pass2: "pass2 loop_file loop_p1 = Inr [0xe3, 0, 0x80, 0xd2, 0xff, 0xff, 0xff, 0x17, 1, 2]"
proof -
  have r: "f_records loop_file = [(record0 KindLabelDef [])\<lparr>symbol_id := 0\<rparr>, mov_rec, b_rec, byte_rec]"
    by (simp add: loop_file_def)
  have k: "r_kind mov_rec = KindInst" "r_kind b_rec = KindInst" "r_kind byte_rec = KindDirective"
    "directive_name (directive_id byte_rec) = ''.byte''" "p1_origin loop_p1 = 0" "p1_flush_entries loop_p1 pc = None" for pc
    by (simp_all add: mov_rec_def b_rec_def byte_rec_def record0_def directive_name_def DirectiveTable_def loop_p1_def pass1_init_def)
  show ?thesis
    by (simp add: pass2_def pass2_with_map_def r emit_record_def k pass2_init_def mov_word emit_word_def put_bytes_def b_word
        emit_directive_def encode_directive_def loop_imms [unfolded One_nat_def] emit_flush_def le_put4) (simp add: record0_def)
qed

definition loop_compact :: bytes where
  "loop_compact = record_bytes (WInsnRun 0 [\<lparr>base_word = 0xd28000e3, patches = []\<rparr>])
     @ record_bytes (WInsnRun 1 [\<lparr>base_word = 0x14000000, patches = [\<lparr>patch_slot = FoldBranch26, patch_expr = [OpPushSym, 0, 0]\<rparr>]\<rparr>])
     @ record_bytes (WLitData 2 [1, 2])"


lemma loop_const: "const_data byte_rec loop_p1 (f_names loop_file) = Inr (Some (1, [1, 2]))"
proof -
  have "const_data_width byte_rec = Inr (Some 1)"
    by (simp add: const_data_width_def byte_rec_def record0_def data_width_def directive_name_def DirectiveTable_def
        const_operands.simps operand_next_def operand0_def take_counted_def read_len_def take_bytes_def eval_const_def
        eval_const_loop.simps expr_next_def operand_width_def op_tables push_value_def le_get_def)
  moreover have "directive_name (directive_id byte_rec) = ''.byte''"
    by (simp add: byte_rec_def record0_def directive_name_def DirectiveTable_def)
  then have "encode_directive byte_rec 0 loop_p1 (f_names loop_file) = Inr [1, 2]"
    by (simp add: encode_directive_def loop_imms [unfolded One_nat_def])
  ultimately show ?thesis by (simp add: const_data_def)
qed

lemma loop_frames:
  "insn_frames [\<lparr>base_word = 0xd28000e3, patches = []\<rparr>, \<lparr>base_word = 0x14000000, patches = [p]\<rparr>]
     = [(0, [\<lparr>base_word = 0xd28000e3, patches = []\<rparr>]), (1, [\<lparr>base_word = 0x14000000, patches = [p]\<rparr>])]"
  by (simp add: insn_frames.simps is_lit_def chunks.simps overlay_extent.simps)

lemma loop_compacts: "compact loop_file loop_p1 = Inr (loop_compact, [], [])"
proof -
  have k: "r_kind mov_rec = KindInst" "r_kind b_rec = KindInst" "r_kind byte_rec = KindDirective" "directive_id byte_rec = 2"
    "directive_name 2 = ''.byte''" "p1_inst_pc loop_p1 = [0, 4]"
    by (simp_all add: mov_rec_def b_rec_def byte_rec_def record0_def directive_name_def DirectiveTable_def loop_p1_def pass1_init_def)
  have r: "f_records loop_file = [(record0 KindLabelDef [])\<lparr>symbol_id := 0\<rparr>, mov_rec, b_rec, byte_rec]"
    by (simp add: loop_file_def)
  have "compact_inst mov_rec 0 loop_p1 (f_names loop_file) = Inr \<lparr>base_word = 0xd28000e3, patches = []\<rparr>"
    by (simp add: compact_inst_def mov_literal)
  then show ?thesis
    by (simp add: compact_def r compact_record_def k compact_init_def flush_data_def compact_instruction_def b_element
        loop_const add_data_def flush_inst_def emit_insn_run_frames_def loop_frames write_insn_run_eq
        flush_all_def insn_frames.simps [of "[]"] chunks.simps write_lit_data_def loop_compact_def record_bytes_def
        element_ok_def patch_ok_def write_header_def) (simp add: record0_def)
qed

lemma compaction_preserves_image_witness:
  "\<exists>rs. read_records loop_compact = Inr rs
     \<and> pass2 (loop_file\<lparr>f_records := rs\<rparr>) loop_p1 = Inr [0xe3, 0, 0x80, 0xd2, 0xff, 0xff, 0xff, 0x17, 1, 2]"
  by (rule compaction_preserves_image [OF loop_pass1 loop_ok loop_compacts loop_pass2])

end
