(* ===== verification/Asm_Errata.thy ===== *)
theory Asm_Errata
  imports Asm_Emit
begin

text \<open>
  The Cortex-A53 workarounds, \<^verbatim>\<open>tools/sam-aarch64/assemble/errata.go\<close>: the predicates on instruction
  words, the \<^verbatim>\<open>adrp\<close> to \<^verbatim>\<open>adr\<close> rewrite in the image (843419) and the insertion of a \<^verbatim>\<open>nop\<close> record
  followed by a second layout (835769).
\<close>

section \<open>Fields and classes of words\<close>

definition a64_mask :: "nat \<Rightarrow> u32" where
  "a64_mask n = push_bit n 1 - 1"

definition a64_bits :: "u32 \<Rightarrow> nat \<Rightarrow> nat \<Rightarrow> u32" where
  "a64_bits insn pos n = drop_bit pos insn AND a64_mask n"

definition a64_bit :: "u32 \<Rightarrow> nat \<Rightarrow> u32" where "a64_bit insn pos = a64_bits insn pos 1"
definition a64_rt :: "u32 \<Rightarrow> u32" where "a64_rt insn = a64_bits insn 0 5"
definition a64_rt2 :: "u32 \<Rightarrow> u32" where "a64_rt2 insn = a64_bits insn 10 5"
definition a64_ra :: "u32 \<Rightarrow> u32" where "a64_ra insn = a64_bits insn 10 5"
definition a64_rd :: "u32 \<Rightarrow> u32" where "a64_rd insn = a64_bits insn 0 5"
definition a64_rn :: "u32 \<Rightarrow> u32" where "a64_rn insn = a64_bits insn 5 5"
definition a64_rm :: "u32 \<Rightarrow> u32" where "a64_rm insn = a64_bits insn 16 5"
definition a64_op31 :: "u32 \<Rightarrow> u32" where "a64_op31 insn = a64_bits insn 21 3"

definition a64_zr :: u32 where "a64_zr = 0x1f"

definition a64_ld :: "u32 \<Rightarrow> bool" where "a64_ld insn = (a64_bit insn 22 = 1)"
definition a64_ldst :: "u32 \<Rightarrow> bool" where "a64_ldst insn = (insn AND 0x0a000000 = 0x08000000)"
definition a64_ldst_ex :: "u32 \<Rightarrow> bool" where "a64_ldst_ex insn = (insn AND 0x3f000000 = 0x08000000)"
definition a64_ldst_pcrel :: "u32 \<Rightarrow> bool" where "a64_ldst_pcrel insn = (insn AND 0x3b000000 = 0x18000000)"
definition a64_ldst_nap :: "u32 \<Rightarrow> bool" where "a64_ldst_nap insn = (insn AND 0x3b800000 = 0x28000000)"
definition a64_ldstp_pi :: "u32 \<Rightarrow> bool" where "a64_ldstp_pi insn = (insn AND 0x3b800000 = 0x28800000)"
definition a64_ldstp_o :: "u32 \<Rightarrow> bool" where "a64_ldstp_o insn = (insn AND 0x3b800000 = 0x29000000)"
definition a64_ldstp_pre :: "u32 \<Rightarrow> bool" where "a64_ldstp_pre insn = (insn AND 0x3b800000 = 0x29800000)"
definition a64_ldst_ui :: "u32 \<Rightarrow> bool" where "a64_ldst_ui insn = (insn AND 0x3b200c00 = 0x38000000)"
definition a64_ldst_piimm :: "u32 \<Rightarrow> bool" where "a64_ldst_piimm insn = (insn AND 0x3b200c00 = 0x38000400)"
definition a64_ldst_u :: "u32 \<Rightarrow> bool" where "a64_ldst_u insn = (insn AND 0x3b200c00 = 0x38000800)"
definition a64_ldst_preimm :: "u32 \<Rightarrow> bool" where "a64_ldst_preimm insn = (insn AND 0x3b200c00 = 0x38000c00)"
definition a64_ldst_ro :: "u32 \<Rightarrow> bool" where "a64_ldst_ro insn = (insn AND 0x3b200c00 = 0x38200800)"
definition a64_ldst_uimm :: "u32 \<Rightarrow> bool" where "a64_ldst_uimm insn = (insn AND 0x3b000000 = 0x39000000)"
definition a64_ldst_simdm :: "u32 \<Rightarrow> bool" where "a64_ldst_simdm insn = (insn AND 0xbfbf0000 = 0x0c000000)"
definition a64_ldst_simdmpi :: "u32 \<Rightarrow> bool" where "a64_ldst_simdmpi insn = (insn AND 0xbfa00000 = 0x0c800000)"
definition a64_ldst_simds :: "u32 \<Rightarrow> bool" where "a64_ldst_simds insn = (insn AND 0xbf9f0000 = 0x0d000000)"
definition a64_ldst_simdspi :: "u32 \<Rightarrow> bool" where "a64_ldst_simdspi insn = (insn AND 0xbf800000 = 0x0d800000)"

definition a64_mac :: "u32 \<Rightarrow> bool" where "a64_mac insn = (insn AND 0xff000000 = 0x9b000000)"

definition a64_mlxl :: "u32 \<Rightarrow> bool" where
  "a64_mlxl insn = (a64_mac insn \<and> (a64_op31 insn = 0 \<or> a64_op31 insn = 1 \<or> a64_op31 insn = 5) \<and> a64_ra insn \<noteq> a64_zr)"

record mem_access =
  ma_rt :: u32
  ma_rt2 :: u32
  ma_pair :: bool
  ma_load :: bool

definition a64_mem_op :: "u32 \<Rightarrow> mem_access option" where
  "a64_mem_op insn =
     (let rt = a64_rt insn in
      if \<not> a64_ldst insn then None
      else if a64_ldst_ex insn
      then Some (if a64_bit insn 21 = 1
                 then \<lparr>ma_rt = rt, ma_rt2 = a64_rt2 insn, ma_pair = True, ma_load = a64_ld insn\<rparr>
                 else \<lparr>ma_rt = rt, ma_rt2 = rt, ma_pair = False, ma_load = a64_ld insn\<rparr>)
      else if a64_ldst_nap insn \<or> a64_ldstp_pi insn \<or> a64_ldstp_o insn \<or> a64_ldstp_pre insn
      then Some \<lparr>ma_rt = rt, ma_rt2 = a64_rt2 insn, ma_pair = True, ma_load = a64_ld insn\<rparr>
      else if a64_ldst_pcrel insn \<or> a64_ldst_ui insn \<or> a64_ldst_piimm insn \<or> a64_ldst_u insn
        \<or> a64_ldst_preimm insn \<or> a64_ldst_ro insn \<or> a64_ldst_uimm insn
      then let opc_v = a64_bits insn 22 2 OR push_bit 2 (a64_bit insn 26) in
        Some \<lparr>ma_rt = rt, ma_rt2 = rt, ma_pair = False, ma_load = opc_v \<in> set [1, 2, 3, 5, 7]\<rparr>
      else if a64_ldst_simdm insn \<or> a64_ldst_simdmpi insn
      then let op = drop_bit 12 insn AND 0xf;
               access = (\<lambda>r2. Some \<lparr>ma_rt = rt, ma_rt2 = r2, ma_pair = False, ma_load = a64_bit insn 22 = 1\<rparr>) in
        if op = 0 \<or> op = 2 then access (rt + 3)
        else if op = 4 \<or> op = 6 then access (rt + 2)
        else if op = 7 then access rt
        else if op = 8 \<or> op = 10 then access (rt + 1)
        else None
      else if a64_ldst_simds insn \<or> a64_ldst_simdspi insn
      then let r = drop_bit 21 insn AND 1; op = drop_bit 13 insn AND 0x7;
               access = (\<lambda>r2. Some \<lparr>ma_rt = rt, ma_rt2 = r2, ma_pair = False, ma_load = a64_bit insn 22 = 1\<rparr>) in
        if op = 0 \<or> op = 2 \<or> op = 4 \<or> op = 6 then access (rt + r)
        else if op = 1 \<or> op = 3 \<or> op = 5 \<or> op = 7 then access (if r = 0 then rt + 2 else rt + 3)
        else None
      else None)"

section \<open>Erratum 835769\<close>

definition erratum_sequence :: "u32 \<Rightarrow> u32 \<Rightarrow> bool" where
  "erratum_sequence insn1 insn2 =
     (if \<not> a64_mlxl insn2 then False
      else case a64_mem_op insn1 of
        None \<Rightarrow> False
      | Some m \<Rightarrow>
          if a64_bit insn1 26 = 1 then True
          else \<not> (ma_load m \<and> (ma_rt m = a64_rn insn2 \<or> ma_rt m = a64_rm insn2 \<or> ma_rt m = a64_ra insn2
            \<or> (ma_pair m \<and> (ma_rt2 m = a64_rn insn2 \<or> ma_rt2 m = a64_rm insn2 \<or> ma_rt2 m = a64_ra insn2)))))"

text \<open>The records to put a \<^verbatim>\<open>nop\<close> before.\<close>

fun hazard_records :: "tbn_record list \<Rightarrow> code_word list \<Rightarrow> nat list res" where
  "hazard_records recs (p # c # cws) =
     (if cw_pc c \<noteq> cw_pc p + 4 \<or> \<not> erratum_sequence (cw_word p) (cw_word c) then hazard_records recs (c # cws)
      else if cw_rec c \<ge> length recs then Inl Panic
      else if r_kind (recs ! cw_rec c) \<noteq> KindInst
      then Inl (Error ''erratum 835769: hazard is inside a record that is not a plain instruction'')
      else sbind (hazard_records recs (c # cws)) (\<lambda>ris. Inr (cw_rec c # ris)))"
| "hazard_records recs _ = Inr []"

definition nop_record :: tbn_record where
  "nop_record = (record0 KindLitInsts [])\<lparr>lit_count := 1, lit_words := put_u32 0xd503201f\<rparr>"

fun insert_nops :: "nat list \<Rightarrow> nat \<Rightarrow> tbn_record list \<Rightarrow> tbn_record list" where
  "insert_nops ris ri [] = []"
| "insert_nops ris ri (rec # recs) = (if ri \<in> set ris then [nop_record, rec] else [rec]) @ insert_nops ris (Suc ri) recs"

definition fix_835769 :: "tbn_file \<Rightarrow> bytes \<Rightarrow> code_word list \<Rightarrow> (bytes \<times> code_word list) res" where
  "fix_835769 f out cmap =
     sbind (hazard_records (f_records f) cmap) (\<lambda>ris.
       if ris = [] then Inr (out, cmap)
       else let f2 = f\<lparr>f_records := insert_nops ris 0 (f_records f)\<rparr> in
         sbind (pass1 f2) (\<lambda>p2. pass2_with_map f2 p2))"

section \<open>Erratum 843419\<close>

definition a64_adrp :: "u32 \<Rightarrow> bool" where
  "a64_adrp insn = (insn AND 0x9f000000 = 0x90000000)"

definition sequence_843419 :: "u32 \<Rightarrow> u32 \<Rightarrow> u32 \<Rightarrow> bool" where
  "sequence_843419 insn1 insn2 insn3 =
     (case a64_mem_op insn2 of
        None \<Rightarrow> False
      | Some m \<Rightarrow> (\<not> ma_pair m \<or> (ma_pair m \<and> \<not> ma_load m)) \<and> a64_ldst_uimm insn3 \<and> a64_rn insn3 = a64_rd insn1)"

definition a64_sign_extend :: "u64 \<Rightarrow> nat \<Rightarrow> i64" where
  "a64_sign_extend v bits = (if v AND push_bit (bits - 1) 1 \<noteq> 0 then v OR push_bit bits (NOT 0) else v)"

definition a64_decode_adrp :: "u32 \<Rightarrow> u32" where
  "a64_decode_adrp insn = push_bit 2 (drop_bit 5 insn AND a64_mask 19) OR (drop_bit 29 insn AND a64_mask 2)"

definition a64_reencode_adr :: "u32 \<Rightarrow> u32 \<Rightarrow> u32" where
  "a64_reencode_adr insn v =
     (insn AND NOT (push_bit 29 (a64_mask 2) OR push_bit 5 (a64_mask 19)))
     OR push_bit 29 (v AND a64_mask 2) OR push_bit 3 (v AND push_bit 2 (a64_mask 19))"

text \<open>\<^verbatim>\<open>PutUint32(out[off:], w)\<close>\<close>

definition put_word_at :: "bytes \<Rightarrow> nat \<Rightarrow> u32 \<Rightarrow> bytes res" where
  "put_word_at out off w =
     (if off + 4 > length out then Inl Panic else Inr (take off out @ put_u32 w @ drop (off + 4) out))"

definition adr_offset :: "u32 \<Rightarrow> i64 \<Rightarrow> i64" where
  "adr_offset insn pc = a64_sign_extend (push_bit 12 (ucast (a64_decode_adrp insn))) 33 - (pc AND 0xfff)"

definition adr_word :: "u32 \<Rightarrow> i64 \<Rightarrow> u32" where
  "adr_word insn pc = a64_reencode_adr 0x10000000 (ucast (adr_offset insn pc)) OR a64_rt insn"

definition rewrite_adrp_to_adr :: "code_word \<Rightarrow> bytes \<Rightarrow> bytes res" where
  "rewrite_adrp_to_adr cw out =
     (let v = adr_offset (cw_word cw) (cw_pc cw) in
      if sint v < - (2 ^ 20) \<or> sint v > 2 ^ 20 - 1
      then Inl (Error ''erratum 843419: ADR offset out of range'')
      else put_word_at out (cw_off cw) (adr_word (cw_word cw) (cw_pc cw)))"

text \<open>The first code word and the two or three after it.\<close>

definition hazard_843419 :: "code_word \<Rightarrow> code_word list \<Rightarrow> bool" where
  "hazard_843419 c rest \<longleftrightarrow>
     a64_adrp (cw_word c) \<and> (cw_pc c AND 0xfff = 0xff8 \<or> cw_pc c AND 0xfff = 0xffc)
     \<and> (length rest \<ge> 2 \<and> cw_pc (rest ! 0) = cw_pc c + 4 \<and> cw_pc (rest ! 1) = cw_pc c + 8
          \<and> sequence_843419 (cw_word c) (cw_word (rest ! 0)) (cw_word (rest ! 1))
        \<or> length rest \<ge> 3 \<and> cw_pc (rest ! 0) = cw_pc c + 4 \<and> cw_pc (rest ! 1) = cw_pc c + 8
          \<and> cw_pc (rest ! 2) = cw_pc c + 12
          \<and> sequence_843419 (cw_word c) (cw_word (rest ! 0)) (cw_word (rest ! 2)))"

fun fix_843419 :: "code_word list \<Rightarrow> bytes \<Rightarrow> bytes res" where
  "fix_843419 [] out = Inr out"
| "fix_843419 (c # rest) out =
     (if hazard_843419 c rest then sbind (rewrite_adrp_to_adr c out) (fix_843419 rest) else fix_843419 rest out)"

section \<open>Both\<close>

record errata_options =
  opt_835769 :: bool
  opt_843419 :: bool

definition pass2_with_errata :: "tbn_file \<Rightarrow> pass1_result \<Rightarrow> errata_options \<Rightarrow> bytes res" where
  "pass2_with_errata f p1 opts =
     sbind (pass2_with_map f p1) (\<lambda>(out, cmap).
       if \<not> (opt_835769 opts \<or> opt_843419 opts) then Inr out
       else sbind (if opt_835769 opts then fix_835769 f out cmap else Inr (out, cmap)) (\<lambda>(out, cmap).
         if opt_843419 opts then fix_843419 cmap out else Inr out))"

end
