(* ===== verification/Errata_Props.thy ===== *)
theory Errata_Props
  imports Asm_Errata Asm_Agree
begin

text \<open>
  The \<^verbatim>\<open>adrp\<close> rewrite keeps every address and leaves no 843419 sequence in the image; the second
  layout of the 835769 workaround can create a sequence that was not there before.
\<close>

section \<open>The rewritten word\<close>

lemma a64_mask_eq: "a64_mask n = mask n"
  by (simp add: a64_mask_def mask_eq_decr_exp push_bit_of_1)

lemma bit_decode_adrp:
  "bit (a64_decode_adrp w) i \<longleftrightarrow> i < 21 \<and> bit w (if i < 2 then i + 29 else i + 3)"
  by (auto simp: a64_decode_adrp_def a64_mask_eq bit_simps add.commute)

lemma a64_sign_extend_page:
  "a64_sign_extend (push_bit 12 (ucast (a64_decode_adrp w))) 33 = push_bit 12 (decode_imm21 w)"
proof (rule bit_word_eqI)
  fix i assume i: "i < LENGTH(64)"
  let ?v = "push_bit 12 (ucast (a64_decode_adrp w)) :: u64"
  have s: "?v AND push_bit (33 - 1) 1 \<noteq> 0 \<longleftrightarrow> bit w 23"
    unfolding bit_iff_and_push_bit_not_eq_0 [symmetric] by (simp add: bit_simps bit_decode_adrp)
  have "bit (a64_sign_extend ?v 33) i \<longleftrightarrow> (if i < 33 then bit ?v i else bit w 23)"
    using i unfolding a64_sign_extend_def s by (auto simp: bit_simps bit_decode_adrp)
  also have "\<dots> \<longleftrightarrow> bit (push_bit 12 (decode_imm21 w)) i"
    using i by (auto simp: decode_imm21_def Let_def bit_simps bit_sign_extend64 bit_decode_adrp bit_extract_bits add.commute)
  finally show "bit (a64_sign_extend ?v 33) i \<longleftrightarrow> bit (push_bit 12 (decode_imm21 w)) i" .
qed

lemma adr_offset_eq: "adr_offset w pc = push_bit 12 (decode_imm21 w) - (pc AND 0xfff)"
  by (simp add: adr_offset_def a64_sign_extend_page)

lemma bit_adr_op: "bit (0x10000000 :: u32) i \<longleftrightarrow> i = 28"
proof -
  have "(0x10000000 :: u32) = push_bit 28 1" by simp
  then show ?thesis by (simp only: bit_push_bit_iff bit_1_iff) auto
qed

lemma bit_adrp_mask: "bit (0x9f000000 :: u32) i \<longleftrightarrow> i = 31 \<or> 24 \<le> i \<and> i < 29"
proof -
  have "(0x9f000000 :: u32) = push_bit 31 1 OR push_bit 24 (mask 5)" by (simp add: mask_numeral)
  then show ?thesis by (simp only: bit_or_iff bit_push_bit_iff bit_1_iff bit_mask_iff) auto
qed

lemma reencode_eq: "a64_reencode_adr 0x10000000 (ucast v) = 0x10000000 OR pack_imm21 v"
proof (rule bit_word_eqI)
  fix i
  assume "i < LENGTH(32)"
  then show "bit (a64_reencode_adr 0x10000000 (ucast v)) i = bit (0x10000000 OR pack_imm21 v) i"
    unfolding a64_reencode_adr_def a64_mask_eq bit_or_iff bit_and_iff bit_not_iff bit_push_bit_iff bit_mask_iff
      bit_adr_op bit_pack_imm21 by (auto simp: bit_simps)
qed

lemma adr_word_eq: "adr_word w pc = (0x10000000 OR a64_rt w) OR pack_imm21 (adr_offset w pc)"
  unfolding adr_word_def reencode_eq by (simp only: or.assoc or.commute [of "pack_imm21 _"])

lemma bit_rt: "bit (a64_rt w) i \<longleftrightarrow> i < 5 \<and> bit w i"
  by (auto simp: a64_rt_def a64_bits_def a64_mask_eq bit_simps)

lemma adr_word_class: "adr_word w pc AND 0x9f000000 = 0x10000000" "a64_rt (adr_word w pc) = a64_rt w"
proof -
  have b: "bit (adr_word w pc) i \<longleftrightarrow> i = 28 \<or> i < 5 \<and> bit w i \<or> bit (pack_imm21 (adr_offset w pc)) i" for i
    unfolding adr_word_eq bit_or_iff bit_adr_op bit_rt by simp
  show "adr_word w pc AND 0x9f000000 = 0x10000000"
    by (rule bit_word_eqI) (auto simp: bit_and_iff bit_adr_op bit_adrp_mask b bit_pack_imm21 simp del: bit_numeral_word_iff)
  show "a64_rt (adr_word w pc) = a64_rt w"
    by (rule bit_word_eqI) (auto simp: bit_rt b bit_pack_imm21)
qed

lemma low12: "(pc :: u64) AND NOT 0xfff = pc - (pc AND 0xfff)"
proof -
  have "pc = (pc AND NOT 0xfff) OR (pc AND 0xfff)" by (rule bit_word_eqI) (auto simp: bit_simps)
  also have "\<dots> = (pc AND NOT 0xfff) + (pc AND 0xfff)"
    by (rule disjunctive_add_eq_or [symmetric]) (rule bit_word_eqI; auto simp: bit_simps)
  finally have "(pc AND NOT 0xfff) + (pc AND 0xfff) = pc" by (rule sym)
  then show ?thesis by (rule eq_diff_eq [THEN iffD2])
qed

lemma adr_word_target:
  assumes "- (2 ^ 20) \<le> sint (adr_offset w pc)" and "sint (adr_offset w pc) < 2 ^ 20"
  shows "decode_adr_imm (adr_word w pc) pc = decode_adrp_imm w pc"
proof -
  let ?base = "0x10000000 OR a64_rt w"
  have "extract_bits ?base 29 2 = 0" "extract_bits ?base 5 19 = 0"
    by (rule bit_word_eqI; auto simp: bit_extract_bits bit_rt bit_or_iff bit_adr_op simp del: bit_numeral_word_iff)+
  then have "decode_imm21 (adr_word w pc) = adr_offset w pc"
    unfolding adr_word_eq using assms by (intro decode_packed_imm21) (simp_all add: in_field_def)
  then show ?thesis by (simp add: decode_adr_imm_def decode_adrp_imm_def adr_offset_eq) (simp add: low12 [simplified])
qed


section \<open>The scan\<close>

definition word_at :: "bytes \<Rightarrow> nat \<Rightarrow> u32" where
  "word_at out off = le_get (take 4 (drop off out))"

definition hazard_at :: "code_word list \<Rightarrow> nat \<Rightarrow> bool" where
  "hazard_at cmap i \<longleftrightarrow> i < length cmap \<and> hazard_843419 (cmap ! i) (drop (Suc i) cmap)"

lemma hazard_at_0: "hazard_at (c # cs) 0 \<longleftrightarrow> hazard_843419 c cs"
  by (simp add: hazard_at_def)

lemma hazard_at_Suc: "hazard_at (c # cs) (Suc i) \<longleftrightarrow> hazard_at cs i"
  by (simp add: hazard_at_def)

lemma word_at_same:
  "length out' = length out \<Longrightarrow> (\<And>k. off \<le> k \<Longrightarrow> k < off + 4 \<Longrightarrow> out' ! k = out ! k) \<Longrightarrow> word_at out' off = word_at out off"
  unfolding word_at_def by (intro arg_cong [of _ _ le_get] nth_equalityI) (auto simp: nth_drop)

lemma put_word_bytes:
  assumes "put_word_at out off w = Inr out'"
  shows "length out' = length out \<and> word_at out' off = w \<and> (\<forall>k. \<not> (off \<le> k \<and> k < off + 4) \<longrightarrow> out' ! k = out ! k)"
proof -
  have o: "out' = take off out @ put_u32 w @ drop (off + 4) out" and l: "off + 4 \<le> length out"
    using assms by (auto simp: put_word_at_def split: if_split_asm)
  have "out' ! k = out ! k" if "\<not> (off \<le> k \<and> k < off + 4)" for k
    using that l by (auto simp: o nth_append)
  moreover have "word_at out' off = w" using l by (simp add: o word_at_def)
  ultimately show ?thesis using l by (simp add: o)
qed


abbreviation cw_apart :: "code_word \<Rightarrow> code_word \<Rightarrow> bool" where
  "cw_apart a b \<equiv> cw_off a + 4 \<le> cw_off b"

text \<open>Every sequence is rewritten, and nothing else.\<close>

lemma fix_parts:
  assumes "fix_843419 cmap out = Inr out'" and "sorted_wrt cw_apart cmap"
  shows "length out' = length out
    \<and> (\<forall>i. hazard_at cmap i \<longrightarrow> word_at out' (cw_off (cmap ! i)) = adr_word (cw_word (cmap ! i)) (cw_pc (cmap ! i))
        \<and> decode_adr_imm (adr_word (cw_word (cmap ! i)) (cw_pc (cmap ! i))) (cw_pc (cmap ! i))
          = decode_adrp_imm (cw_word (cmap ! i)) (cw_pc (cmap ! i)))
    \<and> (\<forall>k. (\<forall>i. hazard_at cmap i \<longrightarrow> \<not> (cw_off (cmap ! i) \<le> k \<and> k < cw_off (cmap ! i) + 4)) \<longrightarrow> out' ! k = out ! k)"
  using assms
proof (induction cmap arbitrary: out)
  case (Cons c cs)
  have s: "sorted_wrt cw_apart cs" "\<forall>d\<in>set cs. cw_off c + 4 \<le> cw_off d" using Cons.prems(2) by auto
  obtain out1 where out1: "fix_843419 cs out1 = Inr out'"
    and step: "if hazard_843419 c cs then rewrite_adrp_to_adr c out = Inr out1 else out1 = out"
    using Cons.prems(1) by (auto elim!: sbindE split: if_split_asm)
  note ih = Cons.IH [OF out1 s(1)]
  have len: "length out1 = length out"
    and out1_bytes: "\<And>k. (hazard_843419 c cs \<Longrightarrow> \<not> (cw_off c \<le> k \<and> k < cw_off c + 4)) \<Longrightarrow> out1 ! k = out ! k"
    and out1_word: "hazard_843419 c cs \<Longrightarrow> word_at out1 (cw_off c) = adr_word (cw_word c) (cw_pc c)
      \<and> decode_adr_imm (adr_word (cw_word c) (cw_pc c)) (cw_pc c) = decode_adrp_imm (cw_word c) (cw_pc c)"
    using step put_word_bytes [of out "cw_off c" "adr_word (cw_word c) (cw_pc c)" out1] adr_word_target [of "cw_word c" "cw_pc c"]
    by (auto simp: rewrite_adrp_to_adr_def Let_def split: if_split_asm)
  have later: "cw_off c + 4 \<le> cw_off (cs ! j)" if "hazard_at cs j" for j
    using that s(2) by (auto simp: hazard_at_def)
  have "word_at out' (cw_off c) = word_at out1 (cw_off c)"
  proof (rule word_at_same)
    fix k assume "cw_off c \<le> k" "k < cw_off c + 4"
    then have "\<forall>j. hazard_at cs j \<longrightarrow> \<not> (cw_off (cs ! j) \<le> k \<and> k < cw_off (cs ! j) + 4)" using later by fastforce
    then show "out' ! k = out1 ! k" using ih by blast
  qed (use ih in blast)
  then have first: "hazard_at (c # cs) 0 \<Longrightarrow> word_at out' (cw_off c) = adr_word (cw_word c) (cw_pc c)
      \<and> decode_adr_imm (adr_word (cw_word c) (cw_pc c)) (cw_pc c) = decode_adrp_imm (cw_word c) (cw_pc c)"
    using out1_word by (simp add: hazard_at_0)
  have bytes: "out' ! k = out ! k"
    if "\<forall>i. hazard_at (c # cs) i \<longrightarrow> \<not> (cw_off ((c # cs) ! i) \<le> k \<and> k < cw_off ((c # cs) ! i) + 4)" for k
  proof -
    have "hazard_at cs j \<longrightarrow> \<not> (cw_off (cs ! j) \<le> k \<and> k < cw_off (cs ! j) + 4)" for j
      using that [rule_format, of "Suc j"] by (simp add: hazard_at_Suc)
    then have "out' ! k = out1 ! k" using ih by blast
    also have "out1 ! k = out ! k" using that [rule_format, of 0] out1_bytes [of k] by (simp add: hazard_at_0)
    finally show ?thesis .
  qed
  have words: "word_at out' (cw_off ((c # cs) ! i)) = adr_word (cw_word ((c # cs) ! i)) (cw_pc ((c # cs) ! i))
      \<and> decode_adr_imm (adr_word (cw_word ((c # cs) ! i)) (cw_pc ((c # cs) ! i))) (cw_pc ((c # cs) ! i))
        = decode_adrp_imm (cw_word ((c # cs) ! i)) (cw_pc ((c # cs) ! i))" if "hazard_at (c # cs) i" for i
    using that first ih by (cases i) (simp_all add: hazard_at_Suc)
  show ?case using words bytes ih len by metis
qed (simp add: hazard_at_def)

text \<open>The code words as they stand in the image now.\<close>

definition rescan :: "bytes \<Rightarrow> code_word list \<Rightarrow> code_word list" where
  "rescan out cmap = map (\<lambda>c. c\<lparr>cw_word := word_at out (cw_off c)\<rparr>) cmap"

lemma adr_no_access:
  assumes "w AND 0x9f000000 = (0x10000000 :: u32)"
  shows "a64_mem_op w = None" "\<not> a64_ldst_uimm w" "\<not> a64_adrp w"
proof -
  have b: "bit w 28" "\<not> bit w 31" "\<not> bit w 27" "\<not> bit w 26 \<and> \<not> bit w 25 \<and> \<not> bit w 24"
    using arg_cong [OF assms, of "\<lambda>x. bit x 28"] arg_cong [OF assms, of "\<lambda>x. bit x 31"] arg_cong [OF assms, of "\<lambda>x. bit x 27"]
      arg_cong [OF assms, of "\<lambda>x. bit x 26"] arg_cong [OF assms, of "\<lambda>x. bit x 25"] arg_cong [OF assms, of "\<lambda>x. bit x 24"]
    by (simp_all add: bit_and_iff bit_adr_op bit_adrp_mask del: bit_numeral_word_iff)
  have "\<not> a64_ldst w"
  proof
    assume "a64_ldst w"
    then have e: "w AND 0x0a000000 = 0x08000000" by (simp add: a64_ldst_def)
    show False using arg_cong [OF e, of "\<lambda>x. bit x 27"] b(3) by (simp add: bit_and_iff)
  qed
  then show "a64_mem_op w = None" by (simp add: a64_mem_op_def)
  show "\<not> a64_ldst_uimm w"
  proof
    assume "a64_ldst_uimm w"
    then have e: "w AND 0x3b000000 = 0x39000000" by (simp add: a64_ldst_uimm_def)
    show False using arg_cong [OF e, of "\<lambda>x. bit x 27"] b(3) by (simp add: bit_and_iff)
  qed
  show "\<not> a64_adrp w" using assms by (simp add: a64_adrp_def)
qed


lemma rescan_nth: "i < length cmap \<Longrightarrow> rescan out cmap ! i = (cmap ! i)\<lparr>cw_word := word_at out (cw_off (cmap ! i))\<rparr>"
  by (simp add: rescan_def)

definition spaced :: "code_word list \<Rightarrow> nat \<Rightarrow> nat \<Rightarrow> bool" where
  "spaced cmap i k \<longleftrightarrow> i + k < length cmap \<and> (\<forall>j\<le>k. cw_pc (cmap ! (i + j)) = cw_pc (cmap ! i) + of_nat (4 * j))"

definition sequence_at :: "code_word list \<Rightarrow> nat \<Rightarrow> nat \<Rightarrow> bool" where
  "sequence_at cmap i k \<longleftrightarrow> spaced cmap i k
     \<and> sequence_843419 (cw_word (cmap ! i)) (cw_word (cmap ! (i + 1))) (cw_word (cmap ! (i + k)))"

lemma hazard_at_nth:
  "hazard_at cmap i \<longleftrightarrow> i < length cmap \<and> a64_adrp (cw_word (cmap ! i))
     \<and> (cw_pc (cmap ! i) AND 0xfff = 0xff8 \<or> cw_pc (cmap ! i) AND 0xfff = 0xffc)
     \<and> (sequence_at cmap i 2 \<or> sequence_at cmap i 3)"
proof (cases "i < length cmap")
  case True
  have 2: "spaced cmap i 2 \<longleftrightarrow> 2 \<le> length (drop (Suc i) cmap)
      \<and> cw_pc (drop (Suc i) cmap ! 0) = cw_pc (cmap ! i) + 4 \<and> cw_pc (drop (Suc i) cmap ! 1) = cw_pc (cmap ! i) + 8"
    using True by (auto simp: spaced_def numeral_2_eq_2 le_Suc_eq nth_drop)
  have 3: "spaced cmap i 3 \<longleftrightarrow> 3 \<le> length (drop (Suc i) cmap)
      \<and> cw_pc (drop (Suc i) cmap ! 0) = cw_pc (cmap ! i) + 4 \<and> cw_pc (drop (Suc i) cmap ! 1) = cw_pc (cmap ! i) + 8
      \<and> cw_pc (drop (Suc i) cmap ! 2) = cw_pc (cmap ! i) + 12"
    using True by (auto simp: spaced_def numeral_3_eq_3 numeral_2_eq_2 le_Suc_eq nth_drop)
  have d: "drop (Suc i) cmap ! 0 = cmap ! (i + 1)" "drop (Suc i) cmap ! 1 = cmap ! (i + 2)" "drop (Suc i) cmap ! 2 = cmap ! (i + 3)"
    using True by (simp_all add: nth_drop numeral_2_eq_2 numeral_3_eq_3)
  show ?thesis
    unfolding hazard_at_def hazard_843419_def sequence_at_def 2 3 using True d by auto
qed (simp add: hazard_at_def)

lemma rescan_spaced: "spaced (rescan out' cmap) i k \<longleftrightarrow> spaced cmap i k"
  by (auto simp: spaced_def rescan_def)

lemma rescan_sequence:
  assumes s: "sequence_at (rescan out' cmap) i k" and k: "1 \<le> k"
    and adr: "word_at out' (cw_off (cmap ! i)) AND 0x9f000000 \<noteq> 0x10000000"
    and kept: "\<And>j. j < length cmap \<Longrightarrow> word_at out' (cw_off (cmap ! j)) AND 0x9f000000 \<noteq> 0x10000000 \<Longrightarrow>
      word_at out' (cw_off (cmap ! j)) = cw_word (cmap ! j)"
  shows "sequence_at cmap i k"
proof -
  let ?w = "\<lambda>j. word_at out' (cw_off (cmap ! j))"
  have sp: "spaced cmap i k" using s by (simp add: sequence_at_def rescan_spaced)
  then have le: "i < length cmap" "i + 1 < length cmap" "i + k < length cmap" using k by (simp_all add: spaced_def)
  have q: "sequence_843419 (?w i) (?w (i + 1)) (?w (i + k))" using s le by (simp add: sequence_at_def rescan_nth)
  then have "?w (i + 1) AND 0x9f000000 \<noteq> 0x10000000" "?w (i + k) AND 0x9f000000 \<noteq> 0x10000000"
    using adr_no_access(1,2) by (auto simp: sequence_843419_def split: option.split_asm)
  then show ?thesis using q sp kept [OF le(1) adr] kept [OF le(2)] kept [OF le(3)] by (simp add: sequence_at_def)
qed

lemma rescan_no_hazard:
  assumes new: "\<And>i. hazard_at cmap i \<Longrightarrow> word_at out' (cw_off (cmap ! i)) AND 0x9f000000 = 0x10000000"
    and kept: "\<And>i. i < length cmap \<Longrightarrow> \<not> hazard_at cmap i \<Longrightarrow> word_at out' (cw_off (cmap ! i)) = cw_word (cmap ! i)"
  shows "\<not> hazard_at (rescan out' cmap) i"
proof
  assume h: "hazard_at (rescan out' cmap) i"
  then have i: "i < length cmap" by (simp add: hazard_at_def rescan_def)
  have adr: "word_at out' (cw_off (cmap ! i)) AND 0x9f000000 \<noteq> 0x10000000"
    using h adr_no_access(3) by (auto simp: hazard_at_nth rescan_nth i)
  have kept': "word_at out' (cw_off (cmap ! j)) = cw_word (cmap ! j)"
    if "j < length cmap" "word_at out' (cw_off (cmap ! j)) AND 0x9f000000 \<noteq> 0x10000000" for j
    using kept [OF that(1)] new [of j] that(2) by blast
  have "hazard_at cmap i"
    using h i kept' [OF i adr] rescan_sequence [OF _ _ adr kept', of 2] rescan_sequence [OF _ _ adr kept', of 3]
    unfolding hazard_at_nth by (auto simp: rescan_nth)
  with new adr show False by blast
qed

text \<open>
  C15.  The workaround for erratum 843419 is sound and complete.  Of the image of pass 2 it rewrites
  exactly the \<^verbatim>\<open>adrp\<close> of every sequence, into an \<^verbatim>\<open>adr\<close> with the same register that computes the
  same address; all other bytes stay, and the rewritten image has no sequence left.
\<close>

theorem adrp_fix_sound:
  assumes "pass2_with_map f p1 = Inr (out, cmap)" and "fix_843419 cmap out = Inr out'"
    and "\<forall>rec\<in>set (f_records f). length (lit_words rec) = 4 * unat (lit_count rec)"
  shows "length out' = length out
    \<and> (\<forall>i. hazard_at cmap i \<longrightarrow>
        word_at out' (cw_off (cmap ! i)) AND 0x9f000000 = 0x10000000
        \<and> a64_rt (word_at out' (cw_off (cmap ! i))) = a64_rt (cw_word (cmap ! i))
        \<and> decode_adr_imm (word_at out' (cw_off (cmap ! i))) (cw_pc (cmap ! i)) = decode_adrp_imm (cw_word (cmap ! i)) (cw_pc (cmap ! i)))
    \<and> (\<forall>k. (\<forall>i. hazard_at cmap i \<longrightarrow> \<not> (cw_off (cmap ! i) \<le> k \<and> k < cw_off (cmap ! i) + 4)) \<longrightarrow> out' ! k = out ! k)
    \<and> (\<forall>i. \<not> hazard_at (rescan out' cmap) i)"
proof -
  obtain orig where srt: "sorted_wrt cw_apart cmap" and ok: "\<forall>cw\<in>set cmap. code_ok orig out cw"
    using pass2_map_exact [OF assms(1,3)] by blast
  note p = fix_parts [OF assms(2) srt]
  have new: "word_at out' (cw_off (cmap ! i)) = adr_word (cw_word (cmap ! i)) (cw_pc (cmap ! i))" if "hazard_at cmap i" for i
    using p that by blast
  have kept: "word_at out' (cw_off (cmap ! i)) = cw_word (cmap ! i)" if i: "i < length cmap" "\<not> hazard_at cmap i" for i
  proof -
    have "word_at out' (cw_off (cmap ! i)) = word_at out (cw_off (cmap ! i))"
    proof (rule word_at_same)
      fix k assume k: "cw_off (cmap ! i) \<le> k" "k < cw_off (cmap ! i) + 4"
      have "\<not> (cw_off (cmap ! j) \<le> k \<and> k < cw_off (cmap ! j) + 4)" if "hazard_at cmap j" for j
      proof -
        have "j < length cmap" "i \<noteq> j" using that i by (auto simp: hazard_at_def)
        then have "cw_apart (cmap ! i) (cmap ! j) \<or> cw_apart (cmap ! j) (cmap ! i)"
          using srt i(1) sorted_wrt_nth_less [of cw_apart cmap i j] sorted_wrt_nth_less [of cw_apart cmap j i]
          by (cases "i < j") auto
        then show ?thesis using k by auto
      qed
      then show "out' ! k = out ! k" using p by blast
    qed (use p in blast)
    also have "\<dots> = cw_word (cmap ! i)" using ok nth_mem [OF i(1)] by (auto simp: code_ok_def word_at_def)
    finally show ?thesis .
  qed
  have "\<not> hazard_at (rescan out' cmap) i" for i
    using rescan_no_hazard [OF _ kept] new adr_word_class(1) by metis
  with p adr_word_class show ?thesis by metis
qed


text \<open>\<^verbatim>\<open>adrp x0, .; ldr x1, [x1]; ldr x2, [x0, #8]\<close> at \<open>0xff8\<close>.\<close>

definition adrp_file :: tbn_file where
  "adrp_file = demo_file\<lparr>f_records := [(record0 KindInsnRun [])\<lparr>elements :=
     [\<lparr>base_word = 0x90000000, patches = []\<rparr>, \<lparr>base_word = 0xf9400021, patches = []\<rparr>, \<lparr>base_word = 0xf9400402, patches = []\<rparr>]\<rparr>]\<rparr>"

definition adrp_p1 :: pass1_result where
  "adrp_p1 = pass1_init\<lparr>p1_origin := 0xff8\<rparr>"

definition adrp_map :: "code_word list" where
  "adrp_map = [\<lparr>cw_off = 0, cw_pc = 0xff8, cw_word = 0x90000000, cw_rec = 0\<rparr>,
     \<lparr>cw_off = 4, cw_pc = 0xffc, cw_word = 0xf9400021, cw_rec = 0\<rparr>, \<lparr>cw_off = 8, cw_pc = 0x1000, cw_word = 0xf9400402, cw_rec = 0\<rparr>]"

definition adrp_out :: bytes where
  "adrp_out = [0, 0, 0, 0x90, 0x21, 0, 0x40, 0xf9, 2, 4, 0x40, 0xf9]"

definition adr_out :: bytes where
  "adr_out = [0x40, 0x80, 0xff, 0x10, 0x21, 0, 0x40, 0xf9, 2, 4, 0x40, 0xf9]"

lemma adrp_pass2: "pass2_with_map adrp_file adrp_p1 = Inr (adrp_out, adrp_map)"
  by (simp add: pass2_with_map_def adrp_file_def emit_record_def record0_def element_word_def pass2_init_def emit_word_def
      put_bytes_def emit_flush_def adrp_p1_def pass1_init_def adrp_map_def adrp_out_def le_put4)

lemma adrp_hazard: "hazard_at adrp_map 0"
  unfolding adrp_map_def hazard_at_0 by code_simp

lemma adrp_fixed: "fix_843419 adrp_map adrp_out = Inr adr_out"
  unfolding adrp_map_def adrp_out_def adr_out_def by code_simp

lemma adrp_fix_sound_witness:
  "decode_adr_imm (word_at adr_out 0) 0xff8 = decode_adrp_imm 0x90000000 0xff8 \<and> \<not> hazard_at (rescan adr_out adrp_map) 0"
proof -
  have "\<forall>rec\<in>set (f_records adrp_file). length (lit_words rec) = 4 * unat (lit_count rec)"
    by (simp add: adrp_file_def record0_def)
  from adrp_fix_sound [OF adrp_pass2 adrp_fixed this] adrp_hazard show ?thesis by (auto simp: adrp_map_def)
qed


section \<open>The second layout\<close>

text \<open>
  \<^verbatim>\<open>ldr x0, [x1]; madd x2, x3, x4, x5; ldr x6, [x7]; .balign 16; madd x2, x3, x4, x5\<close>: the loads
  as assembled words.
\<close>

definition word_rec :: "u32 \<Rightarrow> tbn_record" where
  "word_rec w = (record0 KindInsnRun [])\<lparr>elements := [\<lparr>base_word = w, patches = []\<rparr>]\<rparr>"

definition madd_rec :: tbn_record where
  "madd_rec = (record0 KindInst [])\<lparr>r_mnemonic := 58, operands := [OpRegX, 2, OpRegX, 3, OpRegX, 4, OpRegX, 5]\<rparr>"

definition balign_rec :: tbn_record where
  "balign_rec = (record0 KindDirective [])\<lparr>directive_id := 11, operand_count := 1, operands := [OpImmExpr, 2, 0, OpPushImm8, 16]\<rparr>"

definition balign_file :: tbn_file where
  "balign_file = demo_file\<lparr>f_records := [word_rec 0xf9400020, madd_rec, word_rec 0xf94000e6, balign_rec, madd_rec]\<rparr>"

definition balign_file2 :: tbn_file where
  "balign_file2 = demo_file\<lparr>f_records := [word_rec 0xf9400020, nop_record, madd_rec, word_rec 0xf94000e6, balign_rec, madd_rec]\<rparr>"

lemma balign_eval: "eval_usage [OpPushImm8, 16] ctx = Inr 16"
  by (simp add: eval_usage_def eval_def eval_loop.simps expr_next_def operand_width_def eval_step_def op_tables
      push_value_def le_get_def)

lemma balign_operand: "first_operand [OpImmExpr, 2, 0, OpPushImm8, 16] = Inr ((operand0 OpImmExpr)\<lparr>o_expr := [OpPushImm8, 16]\<rparr>)"
  by (simp add: first_operand_def operand_next_def operand0_def take_counted_def read_len_def take_bytes_def)

definition balign_p1 :: pass1_result where
  "balign_p1 = pass1_init\<lparr>p1_total_size := 20, p1_inst_pc := [4, 16], p1_record_pc := [0, 4, 8, 12, 16]\<rparr>"

definition balign_p2 :: pass1_result where
  "balign_p2 = pass1_init\<lparr>p1_total_size := 20, p1_inst_pc := [8, 16], p1_record_pc := [0, 4, 8, 12, 16, 16]\<rparr>"

lemmas balign_walk = pass1_def demo_file_def demo_walk word_rec_def madd_rec_def balign_rec_def walk_inst_def mnem_ids
  directive_size_def balign_operand balign_eval silent_directives_def balign_pad_def align_pad_def nop_record_def

lemma balign_pass1: "pass1 balign_file = Inr balign_p1"
  by (simp add: balign_file_def balign_p1_def balign_walk)

lemma balign_pass1_again: "pass1 balign_file2 = Inr balign_p2"
  by (simp add: balign_file2_def balign_p2_def balign_walk)

lemma madd_form: "validate_operand_kinds 58 [1, 1, 1, 1] = Inr (mk_form 58 0x9b000000 0xff008000
    [mk_slot Xreg 1 0 5, mk_slot Xreg 1 5 5, mk_slot Xreg 1 16 5, mk_slot Xreg 1 10 5])"
  by (simp add: validate_find all_forms_defs form_tables selects_def)

lemma madd_word: "encode_inst madd_rec pc p1 ns = Inr 0x9b041462"
proof -
  have "read_operands (operands madd_rec) = Inr (map (\<lambda>r. (operand0 OpRegX)\<lparr>o_reg := r\<rparr>) [2, 3, 4, 5])"
    by (simp add: madd_rec_def record0_def read_operands.simps operand_next_def operand0_def)
  then show ?thesis
    by (simp add: encode_inst_def)
      (simp add: madd_rec_def record0_def encode_operands_def compound_kind_def is_reg_imm_def mnem_ids operand0_def
      encode_special_def encode_form_def madd_form is_plain_gpr_def encode_def encode_slot_def encode_reg_def
      operand_value0_def is_shifted_reg_mnemonic_def)
qed


definition balign_map :: "code_word list" where
  "balign_map = [\<lparr>cw_off = 0, cw_pc = 0, cw_word = 0xf9400020, cw_rec = 0\<rparr>, \<lparr>cw_off = 4, cw_pc = 4, cw_word = 0x9b041462, cw_rec = 1\<rparr>,
     \<lparr>cw_off = 8, cw_pc = 8, cw_word = 0xf94000e6, cw_rec = 2\<rparr>, \<lparr>cw_off = 16, cw_pc = 16, cw_word = 0x9b041462, cw_rec = 4\<rparr>]"

definition balign_out :: bytes where
  "balign_out = [0x20, 0, 0x40, 0xf9, 0x62, 0x14, 4, 0x9b, 0xe6, 0, 0x40, 0xf9, 0x1f, 0x20, 3, 0xd5, 0x62, 0x14, 4, 0x9b]"

definition balign_map2 :: "code_word list" where
  "balign_map2 = [\<lparr>cw_off = 0, cw_pc = 0, cw_word = 0xf9400020, cw_rec = 0\<rparr>, \<lparr>cw_off = 4, cw_pc = 4, cw_word = 0xd503201f, cw_rec = 1\<rparr>,
     \<lparr>cw_off = 8, cw_pc = 8, cw_word = 0x9b041462, cw_rec = 2\<rparr>, \<lparr>cw_off = 12, cw_pc = 12, cw_word = 0xf94000e6, cw_rec = 3\<rparr>,
     \<lparr>cw_off = 16, cw_pc = 16, cw_word = 0x9b041462, cw_rec = 5\<rparr>]"

definition balign_out2 :: bytes where
  "balign_out2 = [0x20, 0, 0x40, 0xf9, 0x1f, 0x20, 3, 0xd5, 0x62, 0x14, 4, 0x9b, 0xe6, 0, 0x40, 0xf9, 0x62, 0x14, 4, 0x9b]"

lemma balign_kinds:
  "r_kind madd_rec = KindInst" "r_kind balign_rec = KindDirective" "directive_name (directive_id balign_rec) = ''.balign''"
  "operands balign_rec = [OpImmExpr, 2, 0, OpPushImm8, 16]" "r_kind (word_rec w) = KindInsnRun"
  "elements (word_rec w) = [\<lparr>base_word = w, patches = []\<rparr>]"
  by (simp_all add: madd_rec_def balign_rec_def word_rec_def record0_def directive_name_def DirectiveTable_def)

lemma balign_nops: "align_pad_bytes 12 4 = [0x1f, 0x20, 3, 0xd5]" "align_pad_bytes 16 0 = []"
  using pad_bytes.simps(2) [of 12 3] by (simp_all add: align_pad_bytes_def pad_nops.simps le_put4)

lemmas balign_emit = pass2_with_map_def emit_record_def element_word_def pass2_init_def emit_word_def put_bytes_def
  emit_flush_def emit_directive_def encode_directive_def balign_kinds balign_operand balign_eval balign_pad_def align_pad_def
  silent_directives_def madd_word operand0_def le_put4 balign_nops pass1_init_def

lemma balign_pass2: "pass2_with_map balign_file balign_p1 = Inr (balign_out, balign_map)"
  by (simp add: balign_emit balign_file_def balign_p1_def balign_out_def balign_map_def)


lemma balign_pass2_again: "pass2_with_map balign_file2 balign_p2 = Inr (balign_out2, balign_map2)"
proof -
  have n: "r_kind nop_record = KindLitInsts" "lit_count nop_record = 1" "lit_words nop_record = [0x1f, 0x20, 3, 0xd5]"
    by (simp_all add: nop_record_def record0_def le_put4)
  have "(le_get [0x1f, 0x20, 3, 0xd5] :: u32) = 0xd503201f" by (simp add: le_get_def)
  then have l: "lit_code_words 1 [0x1f, 0x20, 3, 0xd5] 4 4 1 = Inr [\<lparr>cw_off = 4, cw_pc = 4, cw_word = 0xd503201f, cw_rec = 1\<rparr>]"
    by simp
  show ?thesis
    by (simp add: balign_emit balign_file2_def balign_p2_def balign_out2_def balign_map2_def n emit_lit_insts_def
        l [simplified])
qed


lemma balign_hazards: "hazard_records (f_records balign_file) balign_map = Inr [1]"
proof -
  have e: "erratum_sequence 0xf9400020 0x9b041462" "\<not> erratum_sequence 0x9b041462 0xf94000e6" by code_simp+
  show ?thesis by (simp add: balign_map_def e balign_file_def madd_rec_def record0_def)
qed

lemma balign_fixed: "fix_835769 balign_file balign_out balign_map = Inr (balign_out2, balign_map2)"
proof -
  have "balign_file\<lparr>f_records := insert_nops [1] 0 (f_records balign_file)\<rparr> = balign_file2"
    by (simp add: balign_file_def balign_file2_def)
  then show ?thesis by (simp add: fix_835769_def balign_hazards balign_pass1_again balign_pass2_again)
qed

text \<open>
  C24.  One second layout is not enough for erratum 835769.  There is a file whose passes succeed and
  whose workaround succeeds, and the image it returns has a load directly followed by a 64-bit
  multiply-accumulate that does not depend on it, a sequence the first image did not have: the
  inserted \<^verbatim>\<open>nop\<close> used up the padding of an alignment between the two.
\<close>

theorem second_layout_hazard:
  "\<exists>f p1 out cmap out' cmap'. pass1 f = Inr p1 \<and> pass2_with_map f p1 = Inr (out, cmap)
    \<and> fix_835769 f out cmap = Inr (out', cmap')
    \<and> (\<exists>i. Suc i < length cmap' \<and> cw_pc (cmap' ! Suc i) = cw_pc (cmap' ! i) + 4
        \<and> erratum_sequence (cw_word (cmap' ! i)) (cw_word (cmap' ! Suc i)))"
proof (intro exI conjI)
  show "pass1 balign_file = Inr balign_p1" "pass2_with_map balign_file balign_p1 = Inr (balign_out, balign_map)"
    "fix_835769 balign_file balign_out balign_map = Inr (balign_out2, balign_map2)"
    by (rule balign_pass1 balign_pass2 balign_fixed)+
  show "Suc 3 < length balign_map2" "cw_pc (balign_map2 ! Suc 3) = cw_pc (balign_map2 ! 3) + 4"
    by (simp_all add: balign_map2_def)
  have "erratum_sequence 0xf94000e6 0x9b041462" by code_simp
  then show "erratum_sequence (cw_word (balign_map2 ! 3)) (cw_word (balign_map2 ! Suc 3))" by (simp add: balign_map2_def)
qed

end
