(* ===== verification/Net_Frame.thy ===== *)
theory Net_Frame
  imports Prelude
begin

text \<open>
  The Ethernet, IPv4, UDP and ARP framing of the netboot oracle
  (\<^verbatim>\<open>src/tools/netboot-oracle/frame/frame.go\<close>).  A MAC and an IPv4 address are Go arrays of
  fixed length, so they are datatypes of that many bytes.  A frame is built as the list of its
  fields in the order of their offsets; the parsers read at the offsets of the source.
\<close>

section \<open>Addresses and big-endian fields\<close>

datatype mac = Mac u8 u8 u8 u8 u8 u8
datatype ipv4 = Ip u8 u8 u8 u8

fun mac_bytes :: "mac \<Rightarrow> bytes" where
  "mac_bytes (Mac a b c d e f) = [a, b, c, d, e, f]"

fun ip_bytes :: "ipv4 \<Rightarrow> bytes" where
  "ip_bytes (Ip a b c d) = [a, b, c, d]"

definition mac_at :: "bytes \<Rightarrow> nat \<Rightarrow> mac" where
  "mac_at f i = Mac (f ! i) (f ! (i + 1)) (f ! (i + 2)) (f ! (i + 3)) (f ! (i + 4)) (f ! (i + 5))"

definition ip_at :: "bytes \<Rightarrow> nat \<Rightarrow> ipv4" where
  "ip_at f i = Ip (f ! i) (f ! (i + 1)) (f ! (i + 2)) (f ! (i + 3))"

definition put_be16 :: "u16 \<Rightarrow> bytes" where
  "put_be16 w = [ucast (drop_bit 8 w), ucast w]"

definition put_be32 :: "u32 \<Rightarrow> bytes" where
  "put_be32 w = [ucast (drop_bit 24 w), ucast (drop_bit 16 w), ucast (drop_bit 8 w), ucast w]"

definition be16 :: "u8 \<Rightarrow> u8 \<Rightarrow> u16" where
  "be16 a b = push_bit 8 (ucast a) OR ucast b"

definition be16_at :: "bytes \<Rightarrow> nat \<Rightarrow> u16" where
  "be16_at f i = be16 (f ! i) (f ! (i + 1))"

definition be32 :: "u8 \<Rightarrow> u8 \<Rightarrow> u8 \<Rightarrow> u8 \<Rightarrow> u32" where
  "be32 a b c d = push_bit 24 (ucast a) OR push_bit 16 (ucast b) OR push_bit 8 (ucast c) OR ucast d"

definition be32_at :: "bytes \<Rightarrow> nat \<Rightarrow> u32" where
  "be32_at f i = be32 (f ! i) (f ! (i + 1)) (f ! (i + 2)) (f ! (i + 3))"

lemma be16_put [simp]: "be16 (ucast (drop_bit 8 w)) (ucast w) = w"
  unfolding be16_def by (rule bit_word_eqI) (auto simp: bit_simps)

lemma be32_put [simp]:
  "be32 (ucast (drop_bit 24 w)) (ucast (drop_bit 16 w)) (ucast (drop_bit 8 w)) (ucast w) = w"
proof (rule bit_word_eqI)
  fix n assume "n < LENGTH(32)"
  consider "n < 8" | "8 \<le> n" "n < 16" | "16 \<le> n" "n < 24" | "24 \<le> n" by linarith
  then show "bit (be32 (ucast (drop_bit 24 w)) (ucast (drop_bit 16 w)) (ucast (drop_bit 8 w)) (ucast w)) n = bit w n"
    using \<open>n < LENGTH(32)\<close> unfolding be32_def by cases (auto simp: bit_simps)
qed

lemma length_put_be [simp]: "length (put_be16 w) = 2" "length (put_be32 v) = 4"
  by (simp_all add: put_be16_def put_be32_def)

lemma length_addr [simp]: "length (mac_bytes m) = 6" "length (ip_bytes a) = 4"
  by (cases m, simp) (cases a, simp)

named_theorems frame_fields \<open>the fields of a frame, for reading built frames back\<close>

lemmas field_defs [frame_fields] = mac_at_def ip_at_def be16_at_def be32_at_def put_be16_def put_be32_def

section \<open>The Internet checksum\<close>

text \<open>\<^verbatim>\<open>for sum>>16 != 0\<close>: fold the carries back into the low sixteen bits.\<close>

definition fold_step :: "u32 \<Rightarrow> u32" where
  "fold_step s = (s AND 0xffff) + drop_bit 16 s"

lemma unat_and_eq_mod: "unat (s AND 0xffff :: u32) = unat s mod 65536"
proof -
  have "s AND 0xffff = take_bit 16 s" by (simp add: take_bit_eq_mask mask_eq_exp_minus_1)
  then show ?thesis by (simp add: take_bit_eq_mod unat_mod_distrib)
qed

lemma unat_fold_step: "unat (fold_step s) = unat s mod 65536 + unat s div 65536"
proof -
  have a: "unat (s AND 0xffff) = unat s mod 65536"
    by (simp add: unat_and_eq_mod)
  have d: "unat (drop_bit 16 s) = unat s div 65536"
    by (simp add: drop_bit_eq_div unat_div_distrib)
  have "unat s < 2 ^ LENGTH(32)" by (rule unsigned_less)
  then have "unat s div 65536 < 65536" by (simp add: less_mult_imp_div_less)
  moreover have "unat s mod 65536 < 65536" by simp
  ultimately have "unat s mod 65536 + unat s div 65536 < 2 ^ LENGTH(32)" by simp
  then show ?thesis
    unfolding fold_step_def using a d by (simp add: unat_word_ariths)
qed

lemma drop16_zero_iff: "drop_bit 16 (s :: u32) = 0 \<longleftrightarrow> unat s < 65536"
proof -
  have "drop_bit 16 s = 0 \<longleftrightarrow> unat (drop_bit 16 s) = 0" by (simp add: unat_eq_0)
  also have "\<dots> \<longleftrightarrow> unat s div 65536 = 0"
    by (simp add: drop_bit_eq_div unat_div_distrib)
  finally show ?thesis by (simp add: div_eq_0_iff)
qed

function fold16 :: "u32 \<Rightarrow> u32" where
  "fold16 s = (if drop_bit 16 s \<noteq> 0 then fold16 (fold_step s) else s)"
  by pat_completeness auto

termination fold16
proof (relation "measure unat")
  fix s :: u32
  assume "drop_bit 16 s \<noteq> 0"
  then have "65536 \<le> unat s" by (simp add: drop16_zero_iff)
  moreover have "unat s = 65536 * (unat s div 65536) + unat s mod 65536" by simp
  ultimately have "unat (fold_step s) < unat s"
    unfolding unat_fold_step by linarith
  then show "(fold_step s, s) \<in> measure unat" by simp
qed simp

declare fold16.simps [simp del]

text \<open>The words of a header, two bytes at a time; a final odd byte is not read.\<close>

fun add_words :: "u32 \<Rightarrow> bytes \<Rightarrow> u32" where
  "add_words s (a # b # bs) = add_words (s + ucast (be16 a b)) bs"
| "add_words s _ = s"

definition ip_checksum :: "bytes \<Rightarrow> u16" where
  "ip_checksum hdr = NOT (ucast (fold16 (add_words 0 hdr)))"

section \<open>UDP frames\<close>

record udp =
  u_dst_mac :: mac
  u_src_mac :: mac
  u_src_ip :: ipv4
  u_dst_ip :: ipv4
  u_src_port :: u16
  u_dst_port :: u16
  u_payload :: bytes

definition eth_header :: "mac \<Rightarrow> mac \<Rightarrow> u16 \<Rightarrow> bytes" where
  "eth_header dst src ty = mac_bytes dst @ mac_bytes src @ put_be16 ty"

text \<open>Version and IHL, DSCP, total length, identification, flags, TTL, protocol, checksum, addresses.\<close>

definition ip_header_with :: "u8 \<Rightarrow> u16 \<Rightarrow> ipv4 \<Rightarrow> ipv4 \<Rightarrow> u16 \<Rightarrow> bytes" where
  "ip_header_with proto tot src dst ck =
     [0x45, 0x00] @ put_be16 tot @ [0, 0, 0, 0, 64, proto] @ put_be16 ck @ ip_bytes src @ ip_bytes dst"

definition ip_header :: "u8 \<Rightarrow> u16 \<Rightarrow> ipv4 \<Rightarrow> ipv4 \<Rightarrow> bytes" where
  "ip_header proto tot src dst =
     ip_header_with proto tot src dst (ip_checksum (ip_header_with proto tot src dst 0))"

definition build_udp_frame :: "udp \<Rightarrow> bytes" where
  "build_udp_frame u =
     eth_header (u_dst_mac u) (u_src_mac u) 0x0800
     @ ip_header 0x11 (of_nat (20 + 8 + length (u_payload u))) (u_src_ip u) (u_dst_ip u)
     @ put_be16 (u_src_port u) @ put_be16 (u_dst_port u)
     @ put_be16 (of_nat (8 + length (u_payload u))) @ [0, 0]
     @ u_payload u"

definition is_ipv4_udp :: "bytes \<Rightarrow> bool" where
  "is_ipv4_udp f =
     (if length f < 42 then False
      else if be16_at f 12 \<noteq> 0x0800 then False
      else if f ! 20 AND 0x20 \<noteq> 0 then False
      else f ! 23 = 0x11)"

definition parse_udp :: "bytes \<Rightarrow> udp option" where
  "parse_udp f =
     (if \<not> is_ipv4_udp f then None
      else let udp_len = unat (be16_at f 38) in
        if udp_len < 8 then None
        else let pay_end = min (42 + (udp_len - 8)) (length f) in
          Some \<lparr>u_dst_mac = mac_at f 0, u_src_mac = mac_at f 6, u_src_ip = ip_at f 26, u_dst_ip = ip_at f 30,
                u_src_port = be16_at f 34, u_dst_port = be16_at f 36, u_payload = drop 42 (take pay_end f)\<rparr>)"

section \<open>ARP\<close>

record arp_request =
  sender_mac :: mac
  sender_ip :: ipv4
  target_ip :: ipv4

definition broadcast_mac :: mac where
  "broadcast_mac = Mac 0xff 0xff 0xff 0xff 0xff 0xff"

definition build_arp_request :: "mac \<Rightarrow> ipv4 \<Rightarrow> ipv4 \<Rightarrow> bytes" where
  "build_arp_request src_mac src_ip target =
     eth_header broadcast_mac src_mac 0x0806
     @ put_be16 1 @ put_be16 0x0800 @ [6, 4] @ put_be16 1
     @ mac_bytes src_mac @ ip_bytes src_ip @ [0, 0, 0, 0, 0, 0] @ ip_bytes target"

definition build_arp_reply :: "mac \<Rightarrow> mac \<Rightarrow> ipv4 \<Rightarrow> ipv4 \<Rightarrow> bytes" where
  "build_arp_reply src_mac dst_mac src_ip dst_ip =
     eth_header dst_mac src_mac 0x0806
     @ put_be16 1 @ put_be16 0x0800 @ [6, 4] @ put_be16 2
     @ mac_bytes src_mac @ ip_bytes src_ip @ mac_bytes dst_mac @ ip_bytes dst_ip"

definition parse_arp_reply :: "bytes \<Rightarrow> (mac \<times> ipv4) option" where
  "parse_arp_reply f =
     (if length f < 42 then None
      else if be16_at f 12 \<noteq> 0x0806 then None
      else let p = drop 14 f in
        if be16_at p 0 \<noteq> 1 then None
        else if be16_at p 2 \<noteq> 0x0800 then None
        else if p ! 4 \<noteq> 6 \<or> p ! 5 \<noteq> 4 then None
        else if be16_at p 6 \<noteq> 2 then None
        else Some (mac_at p 8, ip_at p 14))"

definition parse_arp_request :: "bytes \<Rightarrow> arp_request option" where
  "parse_arp_request f =
     (if length f < 42 then None
      else if be16_at f 12 \<noteq> 0x0806 then None
      else let p = drop 14 f in
        if be16_at p 0 \<noteq> 1 then None
        else if be16_at p 2 \<noteq> 0x0800 then None
        else if p ! 4 \<noteq> 6 \<or> p ! 5 \<noteq> 4 then None
        else if be16_at p 6 \<noteq> 1 then None
        else Some \<lparr>sender_mac = mac_at p 8, sender_ip = ip_at p 14, target_ip = ip_at p 24\<rparr>)"

section \<open>Reading built frames back\<close>

lemma be16_const [simp]: "be16 8 2048 = 2048" "be16 8 2054 = 2054" "be16 0 1 = 1" "be16 0 2 = 2"
  by code_simp+

lemma length_headers [simp]:
  "length (eth_header d s t) = 14" "length (ip_header_with p n a b c) = 20" "length (ip_header p n a b) = 20"
  by (simp_all add: eth_header_def ip_header_with_def ip_header_def)

lemma unat_of_nat16: "n < 65536 \<Longrightarrow> unat (of_nat n :: u16) = n"
  by (simp add: unat_of_nat)

lemma parse_build_udp:
  assumes "length (u_payload u) \<le> 65507"
  shows "parse_udp (build_udp_frame u) = Some u"
proof -
  obtain a b c d e f where dm: "u_dst_mac u = Mac a b c d e f" by (cases "u_dst_mac u")
  obtain a' b' c' d' e' f' where sm: "u_src_mac u = Mac a' b' c' d' e' f'" by (cases "u_src_mac u")
  obtain i j k l where si: "u_src_ip u = Ip i j k l" by (cases "u_src_ip u")
  obtain i' j' k' l' where di: "u_dst_ip u = Ip i' j' k' l'" by (cases "u_dst_ip u")
  have len: "unat (8 + of_nat (length (u_payload u)) :: u16) = 8 + length (u_payload u)"
    using unat_of_nat16 [of "8 + length (u_payload u)"] assms by simp
  show ?thesis
    using len
    by (simp add: parse_udp_def is_ipv4_udp_def build_udp_frame_def eth_header_def ip_header_def ip_header_with_def
        frame_fields dm sm si di Let_def nth_append)
qed

lemma parse_build_arp_request:
  "parse_arp_request (build_arp_request m a t) = Some \<lparr>sender_mac = m, sender_ip = a, target_ip = t\<rparr>"
  by (cases m; cases a; cases t)
     (simp add: parse_arp_request_def build_arp_request_def eth_header_def broadcast_mac_def frame_fields Let_def)

lemma parse_build_arp_reply: "parse_arp_reply (build_arp_reply m m' a a') = Some (m, a)"
  by (cases m; cases a; cases m'; cases a')
     (simp add: parse_arp_reply_def build_arp_reply_def eth_header_def frame_fields Let_def)

lemma arp_kinds_apart:
  "parse_arp_reply (build_arp_request m a t) = None" "parse_arp_request (build_arp_reply m m' a a') = None"
  by (cases m; cases a; cases t; simp add: parse_arp_reply_def build_arp_request_def eth_header_def broadcast_mac_def frame_fields Let_def)
     (cases m; cases a; cases m'; cases a'; simp add: parse_arp_request_def build_arp_reply_def eth_header_def frame_fields Let_def)

end
