(* ===== verification/Net_Tcp.thy ===== *)
theory Net_Tcp
  imports Net_Frame
begin

text \<open>
  TCP segments of the netboot oracle (\<^verbatim>\<open>src/tools/netboot-oracle/tcp/tcp.go\<close>): building and
  parsing a segment, and the checksum over the pseudo-header.  The lemmas show that a built
  segment parses back to itself and that its two checksums verify.
\<close>

section \<open>Segments\<close>

record segment =
  s_dst_mac :: mac
  s_src_mac :: mac
  s_src_ip :: ipv4
  s_dst_ip :: ipv4
  s_src_port :: u16
  s_dst_port :: u16
  s_seq :: u32
  s_ack :: u32
  s_flags :: u8
  s_window :: u16
  s_payload :: bytes

definition flag_fin :: u8 where "flag_fin = 0x01"
definition flag_syn :: u8 where "flag_syn = 0x02"
definition flag_psh :: u8 where "flag_psh = 0x08"
definition flag_ack :: u8 where "flag_ack = 0x10"

definition has_flag :: "u8 \<Rightarrow> u8 \<Rightarrow> bool" where
  "has_flag fl b = (fl AND b \<noteq> 0)"

section \<open>The checksum\<close>

text \<open>The words of header and data; a final odd byte is the high byte of a last word.\<close>

fun add_padded :: "u32 \<Rightarrow> bytes \<Rightarrow> u32" where
  "add_padded s (a # b # bs) = add_padded (s + ucast (be16 a b)) bs"
| "add_padded s [a] = s + push_bit 8 (ucast a)"
| "add_padded s [] = s"

fun addr_sum :: "ipv4 \<Rightarrow> u32" where
  "addr_sum (Ip a b c d) = ucast (be16 a b) + ucast (be16 c d)"

definition pseudo_sum :: "ipv4 \<Rightarrow> ipv4 \<Rightarrow> nat \<Rightarrow> u32" where
  "pseudo_sum src dst n = addr_sum src + addr_sum dst + 0x06 + of_nat n"

definition tcp_checksum :: "ipv4 \<Rightarrow> ipv4 \<Rightarrow> bytes \<Rightarrow> u16" where
  "tcp_checksum src dst seg = NOT (ucast (fold16 (add_padded (pseudo_sum src dst (length seg)) seg)))"

definition checksum_valid :: "ipv4 \<Rightarrow> ipv4 \<Rightarrow> bytes \<Rightarrow> bool" where
  "checksum_valid src dst seg \<longleftrightarrow> fold16 (add_padded (pseudo_sum src dst (length seg)) seg) = 0xffff"

text \<open>The package's own copy of the IP header checksum.\<close>

definition tcp_ip_checksum :: "bytes \<Rightarrow> u16" where
  "tcp_ip_checksum hdr = NOT (ucast (fold16 (add_words 0 hdr)))"

section \<open>Building and parsing\<close>

text \<open>Ports, sequence numbers, data offset, flags, window, checksum, urgent pointer.\<close>

definition tcp_header_with :: "segment \<Rightarrow> u16 \<Rightarrow> bytes" where
  "tcp_header_with s ck =
     put_be16 (s_src_port s) @ put_be16 (s_dst_port s) @ put_be32 (s_seq s) @ put_be32 (s_ack s)
     @ [push_bit 4 (20 div 4), s_flags s] @ put_be16 (s_window s) @ put_be16 ck @ [0, 0]"

definition tcp_ip_header :: "u16 \<Rightarrow> ipv4 \<Rightarrow> ipv4 \<Rightarrow> bytes" where
  "tcp_ip_header tot src dst =
     ip_header_with 0x06 tot src dst (tcp_ip_checksum (ip_header_with 0x06 tot src dst 0))"

definition build_segment :: "segment \<Rightarrow> bytes" where
  "build_segment s =
     eth_header (s_dst_mac s) (s_src_mac s) 0x0800
     @ tcp_ip_header (of_nat (20 + 20 + length (s_payload s))) (s_src_ip s) (s_dst_ip s)
     @ tcp_header_with s (tcp_checksum (s_src_ip s) (s_dst_ip s) (tcp_header_with s 0 @ s_payload s))
     @ s_payload s"

definition is_ipv4_tcp :: "bytes \<Rightarrow> bool" where
  "is_ipv4_tcp f =
     (if length f < 54 then False
      else if be16_at f 12 \<noteq> 0x0800 then False
      else if f ! 20 AND 0x20 \<noteq> 0 then False
      else f ! 23 = 0x06)"

definition parse_segment :: "bytes \<Rightarrow> segment option" where
  "parse_segment f =
     (if \<not> is_ipv4_tcp f then None
      else let ip_end = min (14 + unat (be16_at f 16)) (length f);
               t = drop 34 f in
        if length t < 20 then None
        else let data_off = max (unat (drop_bit 4 (t ! 12)) * 4) 20;
                 pay_start = min (34 + data_off) ip_end in
          Some \<lparr>s_dst_mac = mac_at f 0, s_src_mac = mac_at f 6, s_src_ip = ip_at f 26, s_dst_ip = ip_at f 30,
                s_src_port = be16_at t 0, s_dst_port = be16_at t 2, s_seq = be32_at t 4, s_ack = be32_at t 8,
                s_flags = t ! 13, s_window = be16_at t 14, s_payload = drop pay_start (take ip_end f)\<rparr>)"

lemma length_tcp_header [simp]:
  "length (tcp_header_with s ck) = 20" "length (tcp_ip_header n a b) = 20"
  by (simp_all add: tcp_header_with_def tcp_ip_header_def)

lemma length_build_segment [simp]: "length (build_segment s) = 54 + length (s_payload s)"
  by (simp add: build_segment_def)

lemma data_offset_byte: "unat (drop_bit 4 (push_bit 4 (20 div 4)) :: u8) = 5"
  by code_simp

lemma parse_build_segment:
  assumes "length (s_payload s) \<le> 65495"
  shows "parse_segment (build_segment s) = Some s"
proof -
  obtain a b c d e f where dm: "s_dst_mac s = Mac a b c d e f" by (cases "s_dst_mac s")
  obtain a' b' c' d' e' f' where sm: "s_src_mac s = Mac a' b' c' d' e' f'" by (cases "s_src_mac s")
  obtain i j k l where si: "s_src_ip s = Ip i j k l" by (cases "s_src_ip s")
  obtain i' j' k' l' where di: "s_dst_ip s = Ip i' j' k' l'" by (cases "s_dst_ip s")
  have len: "unat (40 + of_nat (length (s_payload s)) :: u16) = 40 + length (s_payload s)"
    using unat_of_nat16 [of "40 + length (s_payload s)"] assms by simp
  show ?thesis
    using len data_offset_byte
    by (simp add: parse_segment_def is_ipv4_tcp_def build_segment_def eth_header_def tcp_ip_header_def
        ip_header_with_def tcp_header_with_def frame_fields dm sm si di Let_def)
qed

section \<open>Sums as numbers\<close>

fun nat_sum :: "bytes \<Rightarrow> nat" where
  "nat_sum (a # b # bs) = unat (be16 a b) + nat_sum bs"
| "nat_sum [a] = 256 * unat a"
| "nat_sum [] = 0"

lemma unat_be16_less: "unat (be16 a b) < 65536"
  using unsigned_less [of "be16 a b", where ?'a = nat] by simp

lemma nat_sum_bound: "nat_sum bs \<le> 65535 * ((length bs + 1) div 2)"
proof (induction bs rule: nat_sum.induct)
  case (1 a b bs)
  then show ?case using unat_be16_less [of a b] by simp
next
  case (2 a)
  show ?case using unsigned_less [of a, where ?'a = nat] by simp
qed simp

lemma nat_sum_append: "even (length xs) \<Longrightarrow> nat_sum (xs @ ys) = nat_sum xs + nat_sum ys"
  by (induction xs rule: nat_sum.induct) simp_all

lemma nat_sum_be16 [simp]: "nat_sum (put_be16 w @ ys) = unat w + nat_sum ys"
  by (simp add: put_be16_def)

lemma unat_ucast32 [simp]: "unat (ucast (w :: u16) :: u32) = unat w" "unat (ucast (b :: u8) :: u32) = unat b"
proof -
  have "unat w < 2 ^ LENGTH(16)" "unat b < 2 ^ LENGTH(8)" by (rule unsigned_less)+
  then show "unat (ucast w :: u32) = unat w" "unat (ucast b :: u32) = unat b"
    by (simp_all add: unsigned_ucast_eq take_bit_nat_eq_self)
qed

lemma unat_add32: "unat (a :: u32) + unat b < 2 ^ 32 \<Longrightarrow> unat (a + b) = unat a + unat b"
  by (simp add: unat_word_ariths)

lemma unat_add_padded:
  "unat s + nat_sum bs < 2 ^ 32 \<Longrightarrow> unat (add_padded s bs) = unat s + nat_sum bs"
proof (induction s bs rule: add_padded.induct)
  case (1 s a b bs)
  have u: "unat (s + ucast (be16 a b)) = unat s + unat (be16 a b)"
    using 1(2) by (subst unat_add32) (simp_all add: unat_ucast32)
  show ?case using 1 by (simp add: u)
next
  case (2 s a)
  have p: "unat (push_bit 8 (ucast a) :: u32) = 256 * unat a"
    using unsigned_less [of a, where ?'a = nat]
    by (simp add: push_bit_eq_mult unat_word_ariths unat_ucast32)
  show ?case using 2 by (subst add_padded.simps, subst unat_add32) (simp_all add: p)
qed simp

lemma add_words_padded: "even (length bs) \<Longrightarrow> add_words s bs = add_padded s bs"
  by (induction s bs rule: add_padded.induct) simp_all

section \<open>The folded sum\<close>

lemma fold16_spec: "unat (fold16 s) < 65536 \<and> unat (fold16 s) mod 65535 = unat s mod 65535 \<and> (s \<noteq> 0 \<longrightarrow> fold16 s \<noteq> 0)"
proof (induction s rule: fold16.induct)
  case (1 s)
  show ?case
  proof (cases "drop_bit 16 s = 0")
    case True
    then show ?thesis by (subst (1 2 3) fold16.simps) (simp add: drop16_zero_iff)
  next
    case False
    have split: "unat s = 65535 * (unat s div 65536) + (unat s div 65536 + unat s mod 65536)" by simp
    have m: "unat (fold_step s) mod 65535 = unat s mod 65535"
      unfolding unat_fold_step by (subst split) (simp only: mod_mult_self4 add.commute)
    from False have "65536 \<le> unat s" by (simp add: drop16_zero_iff)
    then have "0 < unat s div 65536" by (simp add: div_greater_zero_iff)
    then have "unat (fold_step s) \<noteq> 0" unfolding unat_fold_step by linarith
    then have "fold_step s \<noteq> 0" by (auto simp: unat_eq_0)
    with 1 [OF False] False m show ?thesis by (subst (1 2 3) fold16.simps) simp
  qed
qed

lemmas fold16_less = fold16_spec [THEN conjunct1]
lemmas fold16_mod = fold16_spec [THEN conjunct2, THEN conjunct1]
lemmas fold16_nonzero = fold16_spec [THEN conjunct2, THEN conjunct2, rule_format]

lemma unat_not16: "unat (NOT w :: u16) = 65535 - unat w"
proof -
  have "NOT w = - 1 - w" by (simp add: not_eq_complement)
  then have "unat (NOT w) = unat (- 1 :: u16) - unat w" by (simp only: unat_sub [OF word_order.extremum])
  moreover have "unat (- 1 :: u16) = 65535" by (simp add: unsigned_minus_1_eq_mask mask_eq_exp_minus_1)
  ultimately show ?thesis by simp
qed

text \<open>Putting the complement of the folded sum into a zero word makes the folded sum all ones.\<close>

lemma complement_folds:
  assumes "unat s + 65535 < 2 ^ 32" and "s \<noteq> 0" and "unat t = unat s + unat (NOT (ucast (fold16 s)) :: u16)"
  shows "fold16 t = 0xffff"
proof -
  have f: "unat (ucast (fold16 s) :: u16) = unat (fold16 s)"
    using fold16_less [of s] by (simp add: unsigned_ucast_eq take_bit_nat_eq_self)
  then have t: "unat t = unat s + (65535 - unat (fold16 s))" using assms(3) unat_not16 by simp
  have "(unat s + (65535 - unat (fold16 s))) mod 65535 = (unat (fold16 s) + (65535 - unat (fold16 s))) mod 65535"
    using fold16_mod [of s] by (metis mod_add_left_eq)
  then have "unat t mod 65535 = 0" using fold16_less [of s] by (simp add: t)
  then have "unat (fold16 t) mod 65535 = 0" by (simp add: fold16_mod)
  moreover have "t \<noteq> 0" using t assms(2) by (auto simp: unat_eq_0)
  then have "fold16 t \<noteq> 0" by (rule fold16_nonzero)
  then have "unat (fold16 t) \<noteq> 0" by (simp add: unat_eq_0)
  moreover obtain k where "unat (fold16 t) = 65535 * k" using calculation(1) by auto
  ultimately have "unat (fold16 t) = 65535"
    using fold16_less [of t] by (cases k) auto
  then show ?thesis by (simp add: word_unat_eq_iff)
qed

lemma unat_u16_less: "unat (w :: u16) < 65536"
  using unsigned_less [of w, where ?'a = nat] by simp

section \<open>Checksums of built segments\<close>

lemma nat_sum_header:
  "nat_sum (tcp_header_with s ck @ ys) = nat_sum (tcp_header_with s 0 @ ys) + unat ck"
  "nat_sum (ip_header_with p n a b ck) = nat_sum (ip_header_with p n a b 0) + unat ck"
proof -
  let ?xs = "put_be16 (s_src_port s) @ put_be16 (s_dst_port s) @ put_be32 (s_seq s) @ put_be32 (s_ack s)
     @ [push_bit 4 (20 div 4), s_flags s] @ put_be16 (s_window s)"
  have "nat_sum (tcp_header_with s c @ ys) = nat_sum ?xs + (unat c + nat_sum ([0, 0] @ ys))" for c
    using nat_sum_append [of ?xs "put_be16 c @ [0, 0] @ ys"] by (simp add: tcp_header_with_def)
  then show "nat_sum (tcp_header_with s ck @ ys) = nat_sum (tcp_header_with s 0 @ ys) + unat ck" by simp
  let ?hs = "[0x45, 0x00] @ put_be16 n @ [0, 0, 0, 0, 64, p]"
  have "nat_sum (ip_header_with p n a b c) = nat_sum ?hs + (unat c + nat_sum (ip_bytes a @ ip_bytes b))" for c
    using nat_sum_append [of ?hs "put_be16 c @ ip_bytes a @ ip_bytes b"] by (simp add: ip_header_with_def)
  then show "nat_sum (ip_header_with p n a b ck) = nat_sum (ip_header_with p n a b 0) + unat ck" by simp
qed

lemma pseudo_sum_value:
  assumes "n < 2 ^ 16"
  shows "unat (pseudo_sum a b n) < 330000" and "pseudo_sum a b n \<noteq> 0"
proof -
  have addr: "unat (addr_sum c) \<le> 131070" for c
  proof (cases c)
    case (Ip i j k l)
    then show ?thesis using unat_be16_less [of i j] unat_be16_less [of k l] by (simp add: unat_word_ariths)
  qed
  have n: "unat (of_nat n :: u32) = n" using assms by (simp add: unat_of_nat)
  have "unat (pseudo_sum a b n) = unat (addr_sum a) + unat (addr_sum b) + 6 + n"
    unfolding pseudo_sum_def using addr [of a] addr [of b] assms n by (simp add: unat_word_ariths)
  then show "unat (pseudo_sum a b n) < 330000" and "pseudo_sum a b n \<noteq> 0"
    using addr [of a] addr [of b] assms by (auto simp: unat_eq_0)
qed

lemma tcp_checksum_valid:
  assumes "length (s_payload s) \<le> 65495"
  shows "checksum_valid a b (tcp_header_with s (tcp_checksum a b (tcp_header_with s 0 @ s_payload s)) @ s_payload s)"
proof -
  let ?n = "20 + length (s_payload s)" and ?z = "tcp_header_with s 0 @ s_payload s"
  let ?p = "pseudo_sum a b ?n"
  let ?ck = "tcp_checksum a b ?z"
  have p: "unat ?p < 330000" "?p \<noteq> 0" using pseudo_sum_value [of ?n a b] assms by simp_all
  have big: "(2 :: nat) ^ 32 = 4294967296" by simp
  have z: "nat_sum ?z \<le> 65535 * 33000"
    by (rule order_trans [OF nat_sum_bound]) (use assms in simp)
  have ck: "unat ?ck < 65536" by (rule unat_u16_less)
  have s0: "unat (add_padded ?p ?z) = unat ?p + nat_sum ?z"
    by (rule unat_add_padded) (use p z big in linarith)
  have s1: "unat (add_padded ?p (tcp_header_with s ?ck @ s_payload s)) = unat (add_padded ?p ?z) + unat ?ck"
    unfolding s0
    by (subst unat_add_padded; subst nat_sum_header(1)) (use p z ck big in linarith)+
  have c: "?ck = NOT (ucast (fold16 (add_padded ?p ?z)))" by (simp add: tcp_checksum_def)
  have "fold16 (add_padded ?p (tcp_header_with s ?ck @ s_payload s)) = 0xffff"
  proof (rule complement_folds [OF _ _ s1 [unfolded arg_cong [OF c, of unat]]])
    show "unat (add_padded ?p ?z) + 65535 < 2 ^ 32" using s0 p z big by linarith
    show "add_padded ?p ?z \<noteq> 0" using s0 p by (metis add_is_0 unat_eq_0)
  qed
  then show ?thesis by (simp add: checksum_valid_def)
qed

lemma ip_checksum_valid:
  "fold16 (add_words 0 (ip_header_with p n a b (tcp_ip_checksum (ip_header_with p n a b 0)))) = 0xffff"
proof -
  let ?z = "ip_header_with p n a b 0"
  let ?ck = "tcp_ip_checksum ?z"
  have z: "nat_sum ?z \<le> 65535 * 10" by (rule order_trans [OF nat_sum_bound]) simp
  have pos: "0 < nat_sum ?z"
    by (simp add: ip_header_with_def) (simp add: put_be16_def be16_def)
  have ck: "unat ?ck < 65536" by (rule unat_u16_less)
  have s0: "unat (add_words 0 ?z) = nat_sum ?z"
    by (subst add_words_padded, simp, subst unat_add_padded) (use z in simp_all)
  have s1: "unat (add_words 0 (ip_header_with p n a b ?ck)) = unat (add_words 0 ?z) + unat ?ck"
    unfolding s0
    by (subst add_words_padded, simp, subst unat_add_padded; subst nat_sum_header(2)) (use z ck in simp_all)
  have "unat ?ck = unat (NOT (ucast (fold16 (add_words 0 ?z))) :: u16)" by (simp add: tcp_ip_checksum_def)
  from s1 [unfolded this] show ?thesis
    by (rule complement_folds [rotated 2]) (use s0 z in simp, use s0 pos in force)
qed

end
