(* ===== verification/Net_Conn.thy ===== *)
theory Net_Conn
  imports Net_Tcp "HOL-Library.Sublist"
begin

text \<open>
  The client side of a TCP connection (\<^verbatim>\<open>src/tools/netboot-oracle/tcp/conn.go\<close>) and the sinks its
  body streams into (\<^verbatim>\<open>sink.go\<close>).  A connection is a record; every method returns the frame
  it sends, if any, and the updated record.  The sink interface is a type parameter with its
  \<^verbatim>\<open>Write\<close> as an argument; the locale states what a sink promises and is interpreted on the
  sinks of the package.
\<close>

section \<open>The connection\<close>

datatype conn_state = StateClosed | StateSynSent | StateEstablished | StateFinWait

record 's conn =
  client_mac :: mac
  client_ip :: ipv4
  client_port :: u16
  server_mac :: mac
  server_ip :: ipv4
  server_port :: u16
  cstate :: conn_state
  snd_nxt :: u32
  rcv_nxt :: u32
  iss :: u32
  cdata :: bytes
  csink :: "'s option"
  flush_window :: nat
  flush_buf :: bytes

definition new_conn :: "mac \<Rightarrow> ipv4 \<Rightarrow> u16 \<Rightarrow> mac \<Rightarrow> ipv4 \<Rightarrow> u16 \<Rightarrow> u32 \<Rightarrow> 's conn" where
  "new_conn cm ca cp sm sa sp i =
     \<lparr>client_mac = cm, client_ip = ca, client_port = cp, server_mac = sm, server_ip = sa, server_port = sp,
      cstate = StateClosed, snd_nxt = 0, rcv_nxt = 0, iss = i, cdata = [], csink = None,
      flush_window = 0, flush_buf = []\<rparr>"

definition conn_window :: u16 where "conn_window = 5840"

definition set_sink :: "'s option \<Rightarrow> int \<Rightarrow> 's conn \<Rightarrow> 's conn" where
  "set_sink s window c =
     (case s of
        None \<Rightarrow> c\<lparr>csink := None, flush_window := 0, flush_buf := []\<rparr>
      | Some x \<Rightarrow> c\<lparr>csink := Some x, flush_window := (if window \<le> 0 then 1024 else nat window), flush_buf := []\<rparr>)"

definition build :: "u8 \<Rightarrow> bytes \<Rightarrow> 's conn \<Rightarrow> bytes" where
  "build flags payload c = build_segment
     \<lparr>s_dst_mac = server_mac c, s_src_mac = client_mac c, s_src_ip = client_ip c, s_dst_ip = server_ip c,
      s_src_port = client_port c, s_dst_port = server_port c, s_seq = snd_nxt c, s_ack = rcv_nxt c,
      s_flags = flags, s_window = conn_window, s_payload = payload\<rparr>"

definition connect :: "'s conn \<Rightarrow> bytes \<times> 's conn" where
  "connect c =
     (let c1 = c\<lparr>snd_nxt := iss c\<rparr> in
      (build flag_syn [] c1, c1\<lparr>snd_nxt := iss c + 1, cstate := StateSynSent\<rparr>))"

text \<open>
  The flush loop of \<^verbatim>\<open>acceptPayload\<close>: \<open>None\<close> is a loop that never ends, which a window of 0 would
  give.
\<close>

partial_function (option) drain :: "(bytes \<Rightarrow> 's \<Rightarrow> 's) \<Rightarrow> nat \<Rightarrow> bytes \<Rightarrow> 's \<Rightarrow> (bytes \<times> 's) option" where
  "drain wr win buf s =
     (if win \<le> length buf then drain wr win (drop win buf) (wr (take win buf) s) else Some (buf, s))"

definition accept_payload :: "(bytes \<Rightarrow> 's \<Rightarrow> 's) \<Rightarrow> bytes \<Rightarrow> 's conn \<Rightarrow> 's conn option" where
  "accept_payload wr p c =
     (case csink c of
        None \<Rightarrow> Some (c\<lparr>cdata := cdata c @ p\<rparr>)
      | Some s \<Rightarrow>
          (case drain wr (flush_window c) (flush_buf c @ p) s of
             None \<Rightarrow> None
           | Some (buf, s') \<Rightarrow> Some (c\<lparr>csink := Some s', flush_buf := buf\<rparr>)))"

definition flush_final :: "(bytes \<Rightarrow> 's \<Rightarrow> 's) \<Rightarrow> 's conn \<Rightarrow> 's conn" where
  "flush_final wr c =
     (case csink c of
        None \<Rightarrow> c
      | Some s \<Rightarrow> if flush_buf c = [] then c else c\<lparr>csink := Some (wr (flush_buf c) s), flush_buf := []\<rparr>)"

definition on_syn_ack :: "segment \<Rightarrow> 's conn \<Rightarrow> bytes option \<times> 's conn" where
  "on_syn_ack s c =
     (if \<not> has_flag (s_flags s) flag_syn \<or> \<not> has_flag (s_flags s) flag_ack then (None, c)
      else if s_ack s \<noteq> snd_nxt c then (None, c)
      else let c' = c\<lparr>rcv_nxt := s_seq s + 1, cstate := StateEstablished\<rparr> in (Some (build flag_ack [] c'), c'))"

definition on_fin :: "(bytes \<Rightarrow> 's \<Rightarrow> 's) \<Rightarrow> segment \<Rightarrow> 's conn \<Rightarrow> (bytes option \<times> 's conn) option" where
  "on_fin wr s c =
     (if s_seq s \<noteq> rcv_nxt c then Some (None, c)
      else case (if s_payload s \<noteq> []
                 then map_option (\<lambda>c'. c'\<lparr>rcv_nxt := rcv_nxt c' + of_nat (length (s_payload s))\<rparr>)
                        (accept_payload wr (s_payload s) c)
                 else Some c) of
        None \<Rightarrow> None
      | Some c1 \<Rightarrow>
          let c2 = flush_final wr c1;
              c3 = c2\<lparr>rcv_nxt := rcv_nxt c2 + 1\<rparr> in
          Some (Some (build (flag_fin OR flag_ack) [] c3), c3\<lparr>snd_nxt := snd_nxt c3 + 1, cstate := StateFinWait\<rparr>))"

definition on_data :: "(bytes \<Rightarrow> 's \<Rightarrow> 's) \<Rightarrow> segment \<Rightarrow> 's conn \<Rightarrow> (bytes option \<times> 's conn) option" where
  "on_data wr s c =
     (if s_payload s = [] then Some (None, c)
      else if s_seq s \<noteq> rcv_nxt c then Some (None, c)
      else case accept_payload wr (s_payload s) c of
        None \<Rightarrow> None
      | Some c1 \<Rightarrow>
          let c2 = c1\<lparr>rcv_nxt := rcv_nxt c1 + of_nat (length (s_payload s))\<rparr> in
          Some (Some (build flag_ack [] c2), c2))"

definition on_fin_wait :: "segment \<Rightarrow> 's conn \<Rightarrow> bytes option \<times> 's conn" where
  "on_fin_wait s c =
     (None, if has_flag (s_flags s) flag_ack \<and> s_ack s = snd_nxt c then c\<lparr>cstate := StateClosed\<rparr> else c)"

definition on_segment :: "(bytes \<Rightarrow> 's \<Rightarrow> 's) \<Rightarrow> bytes \<Rightarrow> 's conn \<Rightarrow> (bytes option \<times> 's conn) option" where
  "on_segment wr f c =
     (case parse_segment f of
        None \<Rightarrow> Some (None, c)
      | Some s \<Rightarrow>
          if s_dst_port s \<noteq> client_port c \<or> s_src_port s \<noteq> server_port c then Some (None, c)
          else case cstate c of
            StateSynSent \<Rightarrow> Some (on_syn_ack s c)
          | StateEstablished \<Rightarrow> if has_flag (s_flags s) flag_fin then on_fin wr s c else on_data wr s c
          | StateFinWait \<Rightarrow> Some (on_fin_wait s c)
          | StateClosed \<Rightarrow> Some (None, c))"

definition conn_send :: "bytes \<Rightarrow> 's conn \<Rightarrow> bytes option \<times> 's conn" where
  "conn_send payload c =
     (if cstate c \<noteq> StateEstablished then (None, c)
      else (Some (build (flag_psh OR flag_ack) payload c), c\<lparr>snd_nxt := snd_nxt c + of_nat (length payload)\<rparr>))"

definition conn_close :: "'s conn \<Rightarrow> bytes option \<times> 's conn" where
  "conn_close c =
     (if cstate c \<noteq> StateEstablished then (None, c)
      else (Some (build (flag_fin OR flag_ack) [] c), c\<lparr>snd_nxt := snd_nxt c + 1, cstate := StateFinWait\<rparr>))"

section \<open>Sinks\<close>

datatype chunk_sink = ChunkSink (chunks: "bytes list")

fun chunk_write :: "bytes \<Rightarrow> chunk_sink \<Rightarrow> chunk_sink" where
  "chunk_write c (ChunkSink cs) = ChunkSink (cs @ [c])"

fun chunk_bytes :: "chunk_sink \<Rightarrow> bytes" where
  "chunk_bytes (ChunkSink cs) = concat cs"

text \<open>
  The running hash of a \<^verbatim>\<open>HashingSink\<close> is the bytes written to it so far; \<^verbatim>\<open>Sum\<close> is the hash
  function of the standard library applied to them.
\<close>

record 's hashing_sink =
  inner :: "'s option"
  absorbed :: bytes

definition new_hashing_sink :: "'s option \<Rightarrow> 's hashing_sink" where
  "new_hashing_sink i = \<lparr>inner = i, absorbed = []\<rparr>"

definition hashing_write :: "(bytes \<Rightarrow> 's \<Rightarrow> 's) \<Rightarrow> bytes \<Rightarrow> 's hashing_sink \<Rightarrow> 's hashing_sink" where
  "hashing_write wr c h = h\<lparr>absorbed := absorbed h @ c, inner := map_option (wr c) (inner h)\<rparr>"

definition hashing_sum :: "(bytes \<Rightarrow> bytes) \<Rightarrow> 's hashing_sink \<Rightarrow> bytes" where
  "hashing_sum sha h = sha (absorbed h)"

definition hashing_verify :: "(bytes \<Rightarrow> bytes) \<Rightarrow> bytes \<Rightarrow> 's hashing_sink \<Rightarrow> bool" where
  "hashing_verify sha expected h \<longleftrightarrow> hashing_sum sha h = expected"

section \<open>Runs\<close>

text \<open>The caller's loop: frames arrive, the application sends and closes.\<close>

datatype event = Arrive bytes | SendReq bytes | CloseReq

fun conn_event :: "(bytes \<Rightarrow> 's \<Rightarrow> 's) \<Rightarrow> event \<Rightarrow> 's conn \<Rightarrow> (bytes option \<times> 's conn) option" where
  "conn_event wr (Arrive f) c = on_segment wr f c"
| "conn_event wr (SendReq p) c = Some (conn_send p c)"
| "conn_event wr CloseReq c = Some (conn_close c)"

fun conn_run :: "(bytes \<Rightarrow> 's \<Rightarrow> 's) \<Rightarrow> event list \<Rightarrow> 's conn \<Rightarrow> (bytes option list \<times> 's conn) option" where
  "conn_run wr [] c = Some ([], c)"
| "conn_run wr (e # es) c =
     (case conn_event wr e c of
        None \<Rightarrow> None
      | Some (out, c1) \<Rightarrow> map_option (\<lambda>(outs, c2). (out # outs, c2)) (conn_run wr es c1))"

lemma conn_run_append:
  "conn_run wr (es @ es') c =
     (case conn_run wr es c of
        None \<Rightarrow> None
      | Some (outs, c1) \<Rightarrow> map_option (\<lambda>(outs', c2). (outs @ outs', c2)) (conn_run wr es' c1))"
  by (induction es arbitrary: c) (auto split: option.splits simp: option.map_comp comp_def split_def option.map_ident)

section \<open>The flush loop\<close>

lemma drain_small: "length buf < win \<Longrightarrow> drain wr win buf s = Some (buf, s)"
  by (subst drain.simps) simp

lemma drain_big:
  "win \<le> length buf \<Longrightarrow> drain wr win buf s = drain wr win (drop win buf) (wr (take win buf) s)"
  by (subst drain.simps) simp

lemma drain_total:
  assumes "0 < win"
  obtains buf' s' where "drain wr win buf s = Some (buf', s')" and "length buf' < win"
proof -
  have "\<exists>buf' s'. drain wr win buf s = Some (buf', s') \<and> length buf' < win"
  proof (induction buf arbitrary: s rule: length_induct)
    case (1 buf)
    show ?case
    proof (cases "win \<le> length buf")
      case True
      then have "length (drop win buf) < length buf" using assms by simp
      with 1 True show ?thesis by (simp add: drain_big)
    qed (simp add: drain_small)
  qed
  then show thesis using that by blast
qed

text \<open>A connection whose sink was set by \<^verbatim>\<open>SetSink\<close>.\<close>

definition conn_ok :: "'s conn \<Rightarrow> bool" where
  "conn_ok c \<longleftrightarrow> (csink c \<noteq> None \<longrightarrow> length (flush_buf c) < flush_window c)"

lemma conn_ok_new [simp]: "conn_ok (new_conn cm ca cp sm sa sp i)"
  by (simp add: conn_ok_def new_conn_def)

lemma conn_ok_set_sink [simp]: "conn_ok (set_sink s w c)"
  by (simp add: conn_ok_def set_sink_def split: option.split)

lemma accept_payload_ok:
  assumes "conn_ok c"
  obtains c' where "accept_payload wr p c = Some c'" and "conn_ok c'"
proof (cases "csink c")
  case None
  then show thesis using that by (simp add: accept_payload_def conn_ok_def)
next
  case (Some s)
  with assms have "0 < flush_window c" by (auto simp: conn_ok_def)
  then obtain buf s' where "drain wr (flush_window c) (flush_buf c @ p) s = Some (buf, s')"
      and "length buf < flush_window c"
    by (rule drain_total)
  then show thesis using that Some by (simp add: accept_payload_def conn_ok_def)
qed

lemma flush_final_ok: "conn_ok c \<Longrightarrow> conn_ok (flush_final wr c)"
  by (auto simp: flush_final_def conn_ok_def split: option.splits)

lemma conn_ok_updates [simp]:
  "conn_ok (c\<lparr>rcv_nxt := r\<rparr>) = conn_ok c" "conn_ok (c\<lparr>snd_nxt := q\<rparr>) = conn_ok c"
  "conn_ok (c\<lparr>cstate := t\<rparr>) = conn_ok c"
  by (simp_all add: conn_ok_def)

lemma on_segment_ok:
  assumes "conn_ok c"
  shows "\<exists>out c'. on_segment wr f c = Some (out, c') \<and> conn_ok c'"
proof -
  have fin: "\<exists>out c'. on_fin wr s c = Some (out, c') \<and> conn_ok c'" for s
  proof -
    obtain c1 where "accept_payload wr (s_payload s) c = Some c1" and "conn_ok c1"
      using assms by (rule accept_payload_ok)
    then show ?thesis using assms by (auto simp: on_fin_def Let_def flush_final_ok)
  qed
  have data: "\<exists>out c'. on_data wr s c = Some (out, c') \<and> conn_ok c'" for s
  proof -
    obtain c1 where "accept_payload wr (s_payload s) c = Some c1" and "conn_ok c1"
      using assms by (rule accept_payload_ok)
    then show ?thesis using assms by (auto simp: on_data_def Let_def)
  qed
  show ?thesis
    using assms fin data
    by (auto simp: on_segment_def on_syn_ack_def on_fin_wait_def Let_def split: option.splits conn_state.splits)
qed

lemma conn_event_ok:
  assumes "conn_ok c"
  shows "\<exists>out c'. conn_event wr e c = Some (out, c') \<and> conn_ok c'"
  by (cases e) (use assms on_segment_ok in \<open>auto simp: conn_send_def conn_close_def\<close>)

lemma conn_run_ok:
  assumes "conn_ok c"
  shows "\<exists>outs c'. conn_run wr es c = Some (outs, c') \<and> conn_ok c'"
  using assms
proof (induction es arbitrary: c)
  case (Cons e es)
  obtain out c1 where "conn_event wr e c = Some (out, c1)" "conn_ok c1"
    using conn_event_ok [OF Cons.prems] by blast
  with Cons.IH [of c1] show ?case by auto
qed simp

end
