(* ===== verification/Net_Stream.thy ===== *)
theory Net_Stream
  imports Net_Conn
begin

text \<open>
  What a connection delivers.  The peer is the server's byte stream cut into segments; the
  network may lose, repeat, delay and reorder its segments and mix in frames of other
  connections.  The body that was delivered is always a prefix of the stream, it is complete
  when the server's FIN was accepted, and it does become complete when every segment arrives
  in order at least once, whatever arrives in between.  The contract of a sink is a locale; the
  results hold for every sink that keeps it.
\<close>

section \<open>The sink contract\<close>

text \<open>The body bytes of a connection, wherever they are.\<close>

definition delivered :: "('s \<Rightarrow> bytes) \<Rightarrow> 's conn \<Rightarrow> bytes" where
  "delivered received c = (case csink c of None \<Rightarrow> cdata c | Some s \<Rightarrow> received s @ flush_buf c)"

locale sink_contract =
  fixes wr :: "bytes \<Rightarrow> 's \<Rightarrow> 's"
    and received :: "'s \<Rightarrow> bytes"
  assumes received_write: "received (wr c s) = received s @ c"
begin

lemma delivered_updates [simp]:
  "delivered received (c\<lparr>rcv_nxt := r\<rparr>) = delivered received c" "delivered received (c\<lparr>snd_nxt := q\<rparr>) = delivered received c"
  "delivered received (c\<lparr>cstate := t\<rparr>) = delivered received c"
  by (simp_all add: delivered_def split: option.split)

lemma drain_received:
  "0 < win \<Longrightarrow> drain wr win buf s = Some (buf', s') \<Longrightarrow> received s' @ buf' = received s @ buf"
proof (induction buf arbitrary: s rule: length_induct)
  case (1 buf)
  show ?case
  proof (cases "win \<le> length buf")
    case True
    then have "length (drop win buf) < length buf" using 1(2) by simp
    then have "received s' @ buf' = received (wr (take win buf) s) @ drop win buf"
      using 1 True by (simp add: drain_big)
    then show ?thesis by (simp add: received_write)
  qed (use 1 in \<open>simp add: drain_small\<close>)
qed

lemma accept_payload_delivered:
  assumes "conn_ok c" and "accept_payload wr p c = Some c'"
  shows "delivered received c' = delivered received c @ p"
proof (cases "csink c")
  case None
  then show ?thesis using assms by (auto simp: accept_payload_def delivered_def)
next
  case (Some s)
  with assms(1) have "0 < flush_window c" by (auto simp: conn_ok_def)
  with assms(2) Some show ?thesis
    by (auto simp: accept_payload_def delivered_def drain_received split: option.splits)
qed

lemma flush_final_delivered [simp]: "delivered received (flush_final wr c) = delivered received c"
  by (auto simp: flush_final_def delivered_def received_write split: option.splits)

end

interpretation chunked: sink_contract chunk_write chunk_bytes
proof
  show "chunk_bytes (chunk_write c s) = chunk_bytes s @ c" for c s
    by (cases s) simp
qed

interpretation hashed: sink_contract "hashing_write wr" absorbed for wr
  by unfold_locales (simp add: hashing_write_def)

section \<open>The peer and the network\<close>

record peer =
  isn :: u32
  body :: "bytes list"

definition offset :: "peer \<Rightarrow> nat \<Rightarrow> nat" where
  "offset p i = length (concat (take i (body p)))"

definition seq_of :: "peer \<Rightarrow> nat \<Rightarrow> u32" where
  "seq_of p i = isn p + 1 + of_nat (offset p i)"

definition peer_ok :: "peer \<Rightarrow> bool" where
  "peer_ok p \<longleftrightarrow> list_all (\<lambda>b. b \<noteq> []) (body p) \<and> length (concat (body p)) < 2 ^ 32"

definition syn_segment :: "peer \<Rightarrow> segment \<Rightarrow> bool" where
  "syn_segment p s \<longleftrightarrow> has_flag (s_flags s) flag_syn \<and> \<not> has_flag (s_flags s) flag_fin
     \<and> s_payload s = [] \<and> s_seq s = isn p"

definition data_segment :: "peer \<Rightarrow> nat \<Rightarrow> segment \<Rightarrow> bool" where
  "data_segment p i s \<longleftrightarrow> \<not> has_flag (s_flags s) flag_syn \<and> i < length (body p)
     \<and> s_payload s = body p ! i \<and> s_seq s = seq_of p i
     \<and> (has_flag (s_flags s) flag_fin \<longrightarrow> Suc i = length (body p))"

definition fin_segment :: "peer \<Rightarrow> segment \<Rightarrow> bool" where
  "fin_segment p s \<longleftrightarrow> \<not> has_flag (s_flags s) flag_syn \<and> has_flag (s_flags s) flag_fin
     \<and> s_payload s = [] \<and> s_seq s = seq_of p (length (body p))"

definition bare_ack :: "segment \<Rightarrow> bool" where
  "bare_ack s \<longleftrightarrow> \<not> has_flag (s_flags s) flag_syn \<and> \<not> has_flag (s_flags s) flag_fin \<and> s_payload s = []"

definition for_conn :: "'s conn \<Rightarrow> segment \<Rightarrow> bool" where
  "for_conn c s \<longleftrightarrow> s_dst_port s = client_port c \<and> s_src_port s = server_port c"

text \<open>A frame that the peer sent for this connection, or one that is not for it.\<close>

definition from_peer :: "peer \<Rightarrow> segment \<Rightarrow> bool" where
  "from_peer p s \<longleftrightarrow> syn_segment p s \<or> (\<exists>i<length (body p). data_segment p i s) \<or> fin_segment p s \<or> bare_ack s"

definition genuine :: "peer \<Rightarrow> 's conn \<Rightarrow> bytes \<Rightarrow> bool" where
  "genuine p c f \<longleftrightarrow> (case parse_segment f of None \<Rightarrow> True | Some s \<Rightarrow> for_conn c s \<longrightarrow> from_peer p s)"

fun genuine_event :: "peer \<Rightarrow> 's conn \<Rightarrow> event \<Rightarrow> bool" where
  "genuine_event p c (Arrive f) = genuine p c f"
| "genuine_event p c _ = True"

lemma offset_strict:
  assumes "peer_ok p" "i < j" "j \<le> length (body p)"
  shows "offset p i < offset p j"
proof -
  have "take j (body p) = take i (body p) @ body p ! i # drop (Suc i) (take j (body p))"
    using assms id_take_nth_drop [of i "take j (body p)"] by (simp add: min_def)
  then have "offset p j = offset p i + length (body p ! i) + length (concat (drop (Suc i) (take j (body p))))"
    unfolding offset_def by (metis add.assoc concat.simps(2) concat_append length_append)
  moreover have "body p ! i \<noteq> []" using assms by (simp add: peer_ok_def list_all_length)
  ultimately show ?thesis by simp
qed

lemma offset_Suc: "i < length (body p) \<Longrightarrow> offset p (Suc i) = offset p i + length (body p ! i)"
  by (simp add: offset_def take_Suc_conv_app_nth)

lemma offset_le: "offset p i \<le> length (concat (body p))"
proof -
  have "concat (body p) = concat (take i (body p)) @ concat (drop i (body p))"
    by (simp flip: concat_append)
  then show ?thesis by (simp add: offset_def)
qed

lemma seq_of_inj:
  assumes "peer_ok p" "i \<le> length (body p)" "j \<le> length (body p)" "seq_of p i = seq_of p j"
  shows "i = j"
proof (rule ccontr)
  assume "i \<noteq> j"
  then have "offset p i \<noteq> offset p j"
    using offset_strict [OF assms(1)] assms(2,3) by (metis linorder_neqE_nat nat_less_le)
  moreover have "offset p i < 2 ^ 32" "offset p j < 2 ^ 32"
    using offset_le [of p] assms(1) le_less_trans unfolding peer_ok_def by blast+
  ultimately have "(of_nat (offset p i) :: u32) \<noteq> of_nat (offset p j)"
    by (simp add: word_of_nat_eq_iff take_bit_nat_eq_self)
  then show False using assms(4) by (simp add: seq_of_def)
qed

lemma seq_of_Suc: "i < length (body p) \<Longrightarrow> seq_of p (Suc i) = seq_of p i + of_nat (length (body p ! i))"
  by (simp add: seq_of_def offset_Suc algebra_simps)

section \<open>Progress\<close>

text \<open>
  The segment that takes a connection from one level to the next: the SYN-ACK at level 0, the
  segments of the body at the levels after it, and the FIN at the last.
\<close>

definition key_segment :: "peer \<Rightarrow> 's conn \<Rightarrow> nat \<Rightarrow> segment \<Rightarrow> bool" where
  "key_segment p c l s \<longleftrightarrow>
     (if l = 0 then syn_segment p s \<and> has_flag (s_flags s) flag_ack \<and> s_ack s = iss c + 1
      else if l \<le> length (body p) then data_segment p (l - 1) s
      else fin_segment p s)"

fun key_event :: "peer \<Rightarrow> 's conn \<Rightarrow> nat \<Rightarrow> event \<Rightarrow> bool" where
  "key_event p c l (Arrive f) = (\<exists>s. parse_segment f = Some s \<and> for_conn c s \<and> key_segment p c l s)"
| "key_event p c l _ = False"

definition same_ends :: "'s conn \<Rightarrow> 's conn \<Rightarrow> bool" where
  "same_ends c c' \<longleftrightarrow> client_port c' = client_port c \<and> server_port c' = server_port c \<and> iss c' = iss c"

lemma same_ends_genuine:
  assumes "same_ends c c'"
  shows "genuine_event p c' e = genuine_event p c e" and "key_event p c' l e = key_event p c l e"
proof -
  have f: "for_conn c' = for_conn c" using assms by (simp add: fun_eq_iff for_conn_def same_ends_def)
  have k: "key_segment p c' l = key_segment p c l"
    using assms by (simp add: fun_eq_iff key_segment_def same_ends_def)
  show "genuine_event p c' e = genuine_event p c e" by (cases e) (simp_all add: genuine_def f split: option.split)
  show "key_event p c' l e = key_event p c l e" by (cases e) (simp_all add: f k)
qed

lemma accept_payload_fields:
  assumes "accept_payload wr q c = Some c'"
  shows "client_port c' = client_port c" "server_port c' = server_port c" "iss c' = iss c"
    "rcv_nxt c' = rcv_nxt c" "snd_nxt c' = snd_nxt c" "cstate c' = cstate c"
  using assms by (auto simp: accept_payload_def split: option.splits)

lemma flush_final_fields [simp]:
  "client_port (flush_final wr c) = client_port c" "server_port (flush_final wr c) = server_port c"
  "iss (flush_final wr c) = iss c" "rcv_nxt (flush_final wr c) = rcv_nxt c"
  "snd_nxt (flush_final wr c) = snd_nxt c" "cstate (flush_final wr c) = cstate c"
  by (auto simp: flush_final_def split: option.split)

lemma same_ends_refl: "same_ends c c"
  by (simp add: same_ends_def)

lemma handler_ends:
  "on_syn_ack s c = (out, c') \<Longrightarrow> same_ends c c'"
  "on_fin_wait s c = (out, c') \<Longrightarrow> same_ends c c'"
  "on_data wr s c = Some (out, c') \<Longrightarrow> same_ends c c'"
  by (auto simp: on_syn_ack_def on_fin_wait_def on_data_def same_ends_def Let_def accept_payload_fields
        split: if_splits option.splits)

lemma on_fin_ends:
  assumes "on_fin wr s c = Some (out, c')"
  shows "same_ends c c'"
proof (cases "accept_payload wr (s_payload s) c")
  case None
  then show ?thesis using assms by (auto simp: on_fin_def same_ends_def Let_def split: if_splits)
next
  case (Some c1)
  then show ?thesis
    using assms accept_payload_fields [OF Some] by (auto simp: on_fin_def same_ends_def Let_def split: if_splits)
qed

lemma on_segment_ends: "on_segment wr f c = Some (out, c') \<Longrightarrow> same_ends c c'"
  unfolding on_segment_def
  by (auto split: option.splits if_splits conn_state.splits intro: handler_ends on_fin_ends same_ends_refl)

lemma conn_event_ends: "conn_event wr e c = Some (out, c') \<Longrightarrow> same_ends c c'"
  by (cases e) (auto simp: on_segment_ends conn_send_def conn_close_def same_ends_def split: if_splits dest: on_segment_ends)

context sink_contract
begin

definition at_level :: "bool \<Rightarrow> peer \<Rightarrow> 's conn \<Rightarrow> nat \<Rightarrow> bool" where
  "at_level full p c l \<longleftrightarrow> conn_ok c \<and>
     (case cstate c of
        StateSynSent \<Rightarrow> l = 0 \<and> snd_nxt c = iss c + 1 \<and> delivered received c = []
      | StateEstablished \<Rightarrow> \<exists>i\<le>length (body p). l = Suc i \<and> rcv_nxt c = seq_of p i \<and> delivered received c = concat (take i (body p))
      | _ \<Rightarrow> \<exists>i\<le>length (body p). delivered received c = concat (take i (body p)) \<and> (full \<longrightarrow> i = length (body p) \<and> l = length (body p) + 2))"

definition advances :: "bool \<Rightarrow> peer \<Rightarrow> nat \<Rightarrow> bool \<Rightarrow> 's conn \<Rightarrow> bool" where
  "advances full p l key c' \<longleftrightarrow> (\<exists>l'. at_level full p c' l' \<and> (full \<longrightarrow> l \<le> l' \<and> (key \<longrightarrow> l < l')))"

lemma advances_same: "at_level full p c l \<Longrightarrow> (full \<Longrightarrow> \<not> key) \<Longrightarrow> advances full p l key c"
  unfolding advances_def by blast

lemma data_advances:
  assumes "at_level full p c l" "cstate c = StateEstablished" "peer_ok p" "from_peer p s"
    and "\<not> has_flag (s_flags s) flag_fin" and "on_data wr s c = Some (out, c')"
  shows "advances full p l (key_segment p c l s) c'"
proof -
  obtain i where i: "i \<le> length (body p)" "l = Suc i" "rcv_nxt c = seq_of p i" "delivered received c = concat (take i (body p))"
      and ok: "conn_ok c"
    using assms(1,2) by (auto simp: at_level_def)
  have ne: "body p ! k \<noteq> []" if "k < length (body p)" for k
    using assms(3) that by (simp add: peer_ok_def list_all_length)
  consider (skip) "s_payload s = [] \<or> s_seq s \<noteq> rcv_nxt c" "c' = c"
    | (take) c1 where "s_payload s \<noteq> []" "s_seq s = rcv_nxt c" "accept_payload wr (s_payload s) c = Some c1"
        "c' = c1\<lparr>rcv_nxt := rcv_nxt c1 + of_nat (length (s_payload s))\<rparr>"
    using assms(6) by (auto simp: on_data_def Let_def split: if_splits option.splits)
  then show ?thesis
  proof cases
    case skip
    have "\<not> key_segment p c l s"
      using skip(1) i assms(5) ne [of i] by (auto simp: key_segment_def data_segment_def fin_segment_def)
    then show ?thesis using assms(1) skip(2) by (simp add: advances_same)
  next
    case take
    then obtain j where j: "j < length (body p)" "data_segment p j s"
      using assms(4,5) by (auto simp: from_peer_def syn_segment_def fin_segment_def bare_ack_def)
    then have ji: "j = i" using i take(2) assms(3) by (auto simp: data_segment_def intro: seq_of_inj)
    have "conn_ok c1" using accept_payload_ok [OF ok, of wr "s_payload s"] take(3) by force
    then have "at_level full p c' (Suc (Suc i))"
      using take i j ji assms(2) accept_payload_fields [OF take(3)] accept_payload_delivered [OF ok take(3)]
      by (auto simp: at_level_def data_segment_def seq_of_Suc take_Suc_conv_app_nth intro!: exI [of _ "Suc i"])
    then show ?thesis unfolding advances_def using i(2) by force
  qed
qed

lemma fin_advances:
  assumes "at_level full p c l" "cstate c = StateEstablished" "peer_ok p" "from_peer p s"
    and fin: "has_flag (s_flags s) flag_fin" and "on_fin wr s c = Some (out, c')"
  shows "advances full p l (key_segment p c l s) c'"
proof -
  obtain i where i: "i \<le> length (body p)" "l = Suc i" "rcv_nxt c = seq_of p i" "delivered received c = concat (take i (body p))"
      and ok: "conn_ok c"
    using assms(1,2) by (auto simp: at_level_def)
  have kinds: "(\<exists>j. data_segment p j s \<and> Suc j = length (body p)) \<or> fin_segment p s"
    using assms(4) fin by (auto simp: from_peer_def syn_segment_def bare_ack_def data_segment_def)
  show ?thesis
  proof (cases "s_seq s = rcv_nxt c")
    case False
    then have "\<not> key_segment p c l s" "c' = c"
      using i assms(6)
      by (cases "i = length (body p)"; auto simp: key_segment_def data_segment_def fin_segment_def on_fin_def)+
    then show ?thesis using assms(1) by (simp add: advances_same)
  next
    case True
    obtain c1 where a: "accept_payload wr (s_payload s) c = Some c1" "conn_ok c1"
      using ok by (rule accept_payload_ok)
    have whole: "concat (take i (body p)) @ s_payload s = concat (body p)"
      using kinds
    proof
      assume "\<exists>j. data_segment p j s \<and> Suc j = length (body p)"
      then obtain j where j: "data_segment p j s" "Suc j = length (body p)" by blast
      then have "j = i" using True i assms(3) by (auto simp: data_segment_def intro: seq_of_inj)
      have "i < length (body p)" using j \<open>j = i\<close> by simp
      then have "concat (take (Suc i) (body p)) = concat (take i (body p)) @ body p ! i"
        by (simp only: take_Suc_conv_app_nth concat_append concat.simps append_Nil2)
      then show ?thesis using j \<open>j = i\<close> by (simp add: data_segment_def)
    next
      assume f: "fin_segment p s"
      then have "i = length (body p)" using True i assms(3) by (auto simp: fin_segment_def intro: seq_of_inj)
      then show ?thesis using f by (simp add: fin_segment_def)
    qed
    have "delivered received c' = concat (body p)" "cstate c' = StateFinWait" "conn_ok c'"
      using assms(6) True a ok whole i(4) accept_payload_delivered [OF ok a(1)]
      by (cases "s_payload s = []"; auto simp: on_fin_def Let_def flush_final_ok)+
    then have "at_level full p c' (length (body p) + 2)" by (auto simp: at_level_def)
    then show ?thesis unfolding advances_def using i by (intro exI [of _ "length (body p) + 2"]) simp
  qed
qed

lemma syn_advances:
  assumes "at_level full p c l" "cstate c = StateSynSent" "from_peer p s" and "on_syn_ack s c = (out, c')"
  shows "advances full p l (key_segment p c l s) c'"
proof (cases "has_flag (s_flags s) flag_syn \<and> has_flag (s_flags s) flag_ack \<and> s_ack s = snd_nxt c")
  case False
  then have "\<not> key_segment p c l s" "c' = c"
    using assms by (auto simp: key_segment_def syn_segment_def at_level_def on_syn_ack_def Let_def split: if_splits)
  then show ?thesis using assms(1) by (simp add: advances_same)
next
  case True
  then have "syn_segment p s"
    using assms(3) by (auto simp: from_peer_def data_segment_def fin_segment_def bare_ack_def)
  then have "at_level full p c' 1"
    using assms True by (auto simp: at_level_def on_syn_ack_def Let_def seq_of_def offset_def syn_segment_def)
  then show ?thesis unfolding advances_def using assms(1,2) by (intro exI [of _ 1]) (simp add: at_level_def)
qed

end

end
