(* ===== verification/Net_Props.thy ===== *)
theory Net_Props
  imports Net_Stream
begin

text \<open>
  The properties of the TCP client: built segments parse back and their checksums verify, every
  run of a connection returns and keeps its flush buffer below the window, and the safety,
  completeness and progress of the delivered body, with the agreement of the streaming and the
  accumulating mode.
\<close>

section \<open>Runs against a peer\<close>

context sink_contract
begin

lemma closed_advances:
  assumes "at_level full p c l" "cstate c = StateFinWait \<or> cstate c = StateClosed"
    and "c' = c \<or> c' = c\<lparr>cstate := StateClosed\<rparr>"
  shows "at_level full p c' l"
  using assms by (auto simp: at_level_def)

lemma no_key_beyond:
  assumes "at_level True p c l" "cstate c = StateFinWait \<or> cstate c = StateClosed"
  shows "l = length (body p) + 2"
  using assms by (auto simp: at_level_def)

lemma on_segment_advances:
  assumes lev: "at_level full p c l" and p: "peer_ok p"
    and s: "parse_segment f = Some s" "for_conn c s" "from_peer p s"
    and seg: "on_segment wr f c = Some (out, c')"
    and key: "full \<Longrightarrow> k \<Longrightarrow> key_segment p c l s \<and> l < length (body p) + 2"
  shows "advances full p l k c'"
proof (cases "cstate c")
  case StateSynSent
  then have "on_syn_ack s c = (out, c')" using seg s by (simp add: on_segment_def for_conn_def)
  from syn_advances [OF lev StateSynSent s(3) this] key show ?thesis unfolding advances_def by blast
next
  case StateEstablished
  show ?thesis
  proof (cases "has_flag (s_flags s) flag_fin")
    case True
    then have "on_fin wr s c = Some (out, c')"
      using seg s StateEstablished by (simp add: on_segment_def for_conn_def)
    from fin_advances [OF lev StateEstablished p s(3) True this] key show ?thesis unfolding advances_def by blast
  next
    case False
    then have "on_data wr s c = Some (out, c')"
      using seg s StateEstablished by (simp add: on_segment_def for_conn_def)
    from data_advances [OF lev StateEstablished p s(3) False this] key show ?thesis unfolding advances_def by blast
  qed
next
  case StateFinWait
  then have "c' = c \<or> c' = c\<lparr>cstate := StateClosed\<rparr>"
    using seg s by (auto simp: on_segment_def for_conn_def on_fin_wait_def)
  then have "at_level full p c' l" using lev StateFinWait by (auto intro: closed_advances)
  moreover have "full \<Longrightarrow> \<not> k" using key no_key_beyond lev StateFinWait by fastforce
  ultimately show ?thesis unfolding advances_def by blast
next
  case StateClosed
  then have "c' = c" using seg s by (auto simp: on_segment_def for_conn_def)
  moreover have "full \<Longrightarrow> \<not> k" using key no_key_beyond lev StateClosed by fastforce
  ultimately show ?thesis using lev by (simp add: advances_same)
qed

lemma send_keeps_level:
  assumes "at_level full p c l"
  shows "at_level full p (snd (conn_send q c)) l"
  using assms by (cases "cstate c") (auto simp: at_level_def conn_send_def)

lemma close_level:
  assumes "at_level False p c l"
  shows "at_level False p (snd (conn_close c)) l"
  using assms by (cases "cstate c") (auto simp: at_level_def conn_close_def)

lemma conn_event_advances:
  assumes lev: "at_level full p c l" and p: "peer_ok p" and e: "genuine_event p c e" "full \<Longrightarrow> e \<noteq> CloseReq"
    and ev: "conn_event wr e c = Some (out, c')" and "l < length (body p) + 2 \<or> \<not> k"
    and key: "full \<Longrightarrow> k \<Longrightarrow> key_event p c l e"
  shows "advances full p l k c'"
proof (cases e)
  case (Arrive f)
  show ?thesis
  proof (cases "\<exists>s. parse_segment f = Some s \<and> for_conn c s")
    case True
    then obtain s where s: "parse_segment f = Some s" "for_conn c s" by blast
    have "from_peer p s" using e(1) s by (simp add: Arrive genuine_def)
    from on_segment_advances [OF lev p s this, of out c' k] ev key assms(6) s show ?thesis
      by (auto simp: Arrive)
  next
    case False
    then have "c' = c" using ev by (auto simp: Arrive on_segment_def for_conn_def split: option.splits)
    moreover have "full \<Longrightarrow> \<not> k" using key False by (auto simp: Arrive)
    ultimately show ?thesis using lev by (simp add: advances_same)
  qed
next
  case (SendReq q)
  then have "c' = snd (conn_send q c)" using ev by auto
  moreover have "full \<Longrightarrow> \<not> k" using key by (auto simp: SendReq)
  ultimately show ?thesis unfolding advances_def using send_keeps_level [OF lev] by blast
next
  case CloseReq
  then have "c' = snd (conn_close c)" "\<not> full" using ev e(2) by auto
  then show ?thesis unfolding advances_def using close_level lev by auto
qed

text \<open>A run from a level, whatever genuine frames arrive.\<close>

lemma run_level:
  assumes "at_level full p c l" "peer_ok p" "list_all (genuine_event p c) es"
    "full \<Longrightarrow> CloseReq \<notin> set es" "conn_run wr es c = Some (outs, c')"
  shows "\<exists>l'. at_level full p c' l' \<and> (full \<longrightarrow> l \<le> l')"
  using assms
proof (induction es arbitrary: c l outs)
  case (Cons e es)
  obtain out c1 outs' where ev: "conn_event wr e c = Some (out, c1)" "conn_run wr es c1 = Some (outs', c')"
    using Cons.prems(5) by (auto split: option.splits)
  have "advances full p l False c1"
    using conn_event_advances [OF Cons.prems(1,2) _ _ ev(1), of False] Cons.prems by auto
  then obtain l1 where l1: "at_level full p c1 l1" "full \<longrightarrow> l \<le> l1" unfolding advances_def by blast
  have "list_all (genuine_event p c1) es"
    using Cons.prems(3) same_ends_genuine [OF conn_event_ends [OF ev(1)]] by (simp add: list_all_iff)
  with Cons.IH [OF l1(1) Cons.prems(2) this _ ev(2)] Cons.prems(4) l1(2) show ?case by force
qed auto

lemma same_ends_events:
  "same_ends c c1 \<Longrightarrow> genuine_event p c1 = genuine_event p c"
  "same_ends c c1 \<Longrightarrow> key_event p c1 = key_event p c"
  by (auto simp: fun_eq_iff same_ends_genuine)

text \<open>Every key segment that arrives at its level or before it is needed takes the run on.\<close>

lemma run_progress:
  assumes "at_level True p c l" "peer_ok p" "list_all (genuine_event p c) es" "CloseReq \<notin> set es"
    "conn_run wr es c = Some (outs, c')"
    and "subseq ks es" "list_all2 (key_event p c) [k..<length (body p) + 2] ks" "k \<le> l" "k \<le> length (body p) + 2"
  shows "at_level True p c' (length (body p) + 2)"
  using assms
proof (induction es arbitrary: c l k ks outs)
  case Nil
  from Nil have "ks = []" by simp
  then have "[k..<length (body p) + 2] = []" using Nil.prems(7) by (simp only: list_all2_Nil2)
  then have "k = length (body p) + 2" using Nil.prems(9) by (simp del: upt_Suc)
  moreover have "l \<le> length (body p) + 2"
    using Nil.prems(1) by (auto simp: at_level_def split: conn_state.splits)
  ultimately show ?case using Nil.prems by auto
next
  case (Cons e es)
  obtain out c1 outs' where ev: "conn_event wr e c = Some (out, c1)" "conn_run wr es c1 = Some (outs', c')"
    using Cons.prems(5) by (auto split: option.splits)
  note same = same_ends_events [OF conn_event_ends [OF ev(1)]]
  have g: "list_all (genuine_event p c1) es" using Cons.prems(3) by (simp add: list_all_iff same)
  have le: "l \<le> length (body p) + 2"
    using Cons.prems(1) by (auto simp: at_level_def split: conn_state.splits)
  show ?case
  proof (cases "\<exists>ks'. ks = e # ks' \<and> subseq ks' es")
    case False
    then have sub: "subseq ks es" using Cons.prems(6) by (cases ks) (auto split: if_splits)
    have "advances True p l False c1"
      using conn_event_advances [OF Cons.prems(1,2) _ _ ev(1), of False] Cons.prems(3,4) by auto
    then obtain l1 where "at_level True p c1 l1" "l \<le> l1" unfolding advances_def by blast
    then show ?thesis
      using Cons.IH [of c1 l1 outs' ks k] Cons.prems(2,4,7,8,9) g ev(2) sub
      by (auto simp: same simp del: upt_Suc)
  next
    case True
    then obtain ks' where ks: "ks = e # ks'" "subseq ks' es" by blast
    have "k < length (body p) + 2" using Cons.prems(7,9) ks(1) by (cases "k = length (body p) + 2") auto
    then have up: "[k..<length (body p) + 2] = k # [Suc k..<length (body p) + 2]" by (rule upt_conv_Cons)
    have key: "key_event p c k e" and rest: "list_all2 (key_event p c) [Suc k..<length (body p) + 2] ks'"
      using Cons.prems(7) unfolding up ks(1) by (simp_all only: list_all2_Cons)
    have "advances True p l (k = l) c1"
      by (rule conn_event_advances [OF Cons.prems(1,2) _ _ ev(1)])
         (use Cons.prems(3,4) key le \<open>k < length (body p) + 2\<close> in auto)
    then obtain l1 where l1: "at_level True p c1 l1" "Suc k \<le> l1"
      using \<open>k \<le> l\<close> unfolding advances_def by force
    show ?thesis
      using Cons.IH [OF l1(1) Cons.prems(2) g _ ev(2) ks(2) _ l1(2)] Cons.prems(4) rest
        \<open>k < length (body p) + 2\<close> by (auto simp: same simp del: upt_Suc)
  qed
qed

lemma at_level_connect:
  assumes "conn_ok c" "delivered received c = []"
  shows "at_level full p (snd (connect c)) 0"
  using assms by (simp add: at_level_def connect_def Let_def)

lemma run_prefix:
  assumes "conn_ok c" "delivered received c = []" "peer_ok p" "list_all (genuine_event p c) es"
    and "conn_run wr es (snd (connect c)) = Some (outs, c')"
  shows "prefix (delivered received c') (concat (body p))"
proof -
  have "same_ends c (snd (connect c))" by (simp add: same_ends_def connect_def Let_def)
  then have "list_all (genuine_event p (snd (connect c))) es"
    using assms(4) by (simp add: list_all_iff same_ends_genuine)
  from run_level [OF at_level_connect [OF assms(1,2), of False] assms(3) this _ assms(5)]
  obtain l' where "at_level False p c' l'" by auto
  then have "delivered received c' = [] \<or> (\<exists>i. delivered received c' = concat (take i (body p)))"
    by (auto simp: at_level_def split: conn_state.splits)
  moreover have "prefix (concat (take i (body p))) (concat (body p))" for i
    by (metis append_take_drop_id concat_append prefixI)
  ultimately show ?thesis by auto
qed

lemma run_complete:
  assumes "conn_ok c" "delivered received c = []" "peer_ok p" "list_all (genuine_event p c) es" "CloseReq \<notin> set es"
    and "conn_run wr es (snd (connect c)) = Some (outs, c')"
    and "cstate c' = StateFinWait \<or> cstate c' = StateClosed"
  shows "delivered received c' = concat (body p)"
proof -
  have "same_ends c (snd (connect c))" by (simp add: same_ends_def connect_def Let_def)
  then have "list_all (genuine_event p (snd (connect c))) es"
    using assms(4) by (simp add: list_all_iff same_ends_genuine)
  from run_level [OF at_level_connect [OF assms(1,2), of True] assms(3) this _ assms(6)] assms(5)
  obtain l' where "at_level True p c' l'" by auto
  then show ?thesis using assms(7) by (auto simp: at_level_def)
qed

lemma run_delivers:
  assumes "conn_ok c" "delivered received c = []" "peer_ok p" "list_all (genuine_event p c) es" "CloseReq \<notin> set es"
    and "subseq ks es" "list_all2 (key_event p c) [0..<length (body p) + 2] ks"
  shows "\<exists>outs c'. conn_run wr es (snd (connect c)) = Some (outs, c')
    \<and> (cstate c' = StateFinWait \<or> cstate c' = StateClosed) \<and> delivered received c' = concat (body p)"
proof -
  have same: "same_ends c (snd (connect c))" by (simp add: same_ends_def connect_def Let_def)
  have ok: "conn_ok (snd (connect c))" using assms(1) by (simp add: connect_def Let_def)
  obtain outs c' where run: "conn_run wr es (snd (connect c)) = Some (outs, c')"
    using conn_run_ok [OF ok] by blast
  have "at_level True p c' (length (body p) + 2)"
    by (rule run_progress [OF at_level_connect [OF assms(1,2)] assms(3) _ assms(5) run assms(6), of 0])
       (use assms(4,7) in \<open>simp_all add: same_ends_events [OF same] del: upt_Suc\<close>)
  then have "cstate c' = StateFinWait \<or> cstate c' = StateClosed" "delivered received c' = concat (body p)"
    by (auto simp: at_level_def split: conn_state.splits)
  with run show ?thesis by blast
qed

end

section \<open>Streaming and accumulating\<close>

definition same_wire :: "'s conn \<Rightarrow> 's conn \<Rightarrow> bool" where
  "same_wire c d \<longleftrightarrow> client_mac d = client_mac c \<and> client_ip d = client_ip c \<and> client_port d = client_port c
     \<and> server_mac d = server_mac c \<and> server_ip d = server_ip c \<and> server_port d = server_port c
     \<and> cstate d = cstate c \<and> snd_nxt d = snd_nxt c \<and> rcv_nxt d = rcv_nxt c \<and> iss d = iss c"

lemma same_wire_build: "same_wire c d \<Longrightarrow> build fl q d = build fl q c"
  by (simp add: build_def same_wire_def)

lemma same_wire_updates:
  assumes "same_wire c d"
  shows "same_wire (c\<lparr>rcv_nxt := r\<rparr>) (d\<lparr>rcv_nxt := r\<rparr>)"
    and "same_wire (c\<lparr>snd_nxt := q\<rparr>) (d\<lparr>snd_nxt := q\<rparr>)"
    and "same_wire (c\<lparr>cstate := t\<rparr>) (d\<lparr>cstate := t\<rparr>)"
  using assms by (simp_all add: same_wire_def)

lemma same_wire_fields:
  assumes "same_wire c d"
  shows "client_port d = client_port c" "server_port d = server_port c" "cstate d = cstate c"
    "snd_nxt d = snd_nxt c" "rcv_nxt d = rcv_nxt c"
  using assms by (simp_all add: same_wire_def)

lemma accept_payload_wire: "accept_payload wr q c = Some c' \<Longrightarrow> same_wire c c'"
  by (auto simp: accept_payload_def same_wire_def split: option.splits)

lemma flush_final_wire: "same_wire c (flush_final wr c)"
  by (auto simp: flush_final_def same_wire_def split: option.split)

lemma same_wire_trans: "same_wire a b \<Longrightarrow> same_wire b c \<Longrightarrow> same_wire a c"
  and same_wire_sym: "same_wire a b \<Longrightarrow> same_wire b a"
  and same_wire_refl: "same_wire a a"
  by (simp_all add: same_wire_def)

context sink_contract
begin

definition mirrors :: "'s conn \<Rightarrow> 's conn \<Rightarrow> bool" where
  "mirrors c d \<longleftrightarrow> same_wire c d \<and> delivered received c = delivered received d \<and> conn_ok c \<and> conn_ok d"

lemma mirrors_accept:
  assumes "mirrors c d"
  shows "\<exists>c1 d1. accept_payload wr q c = Some c1 \<and> accept_payload wr q d = Some d1 \<and> mirrors c1 d1"
proof -
  have ok: "conn_ok c" "conn_ok d" using assms by (simp_all add: mirrors_def)
  obtain c1 where c1: "accept_payload wr q c = Some c1" "conn_ok c1" using ok(1) by (rule accept_payload_ok)
  obtain d1 where d1: "accept_payload wr q d = Some d1" "conn_ok d1" using ok(2) by (rule accept_payload_ok)
  have "same_wire c1 d1"
    using assms accept_payload_wire [OF c1(1)] accept_payload_wire [OF d1(1)]
    by (auto simp: mirrors_def same_wire_def)
  moreover have "delivered received c1 = delivered received d1"
    using assms accept_payload_delivered ok c1 d1 by (simp add: mirrors_def)
  ultimately show ?thesis using c1 d1 by (auto simp: mirrors_def)
qed

lemma mirrors_updates:
  assumes "mirrors c d"
  shows "mirrors (c\<lparr>rcv_nxt := r\<rparr>) (d\<lparr>rcv_nxt := r\<rparr>)" "mirrors (c\<lparr>snd_nxt := q\<rparr>) (d\<lparr>snd_nxt := q\<rparr>)"
    "mirrors (c\<lparr>cstate := t\<rparr>) (d\<lparr>cstate := t\<rparr>)"
  using assms by (simp_all add: mirrors_def same_wire_updates)

lemma mirrors_final: "mirrors c d \<Longrightarrow> mirrors (flush_final wr c) (flush_final wr d)"
  using flush_final_wire [of c] flush_final_wire [of d]
  by (auto simp: mirrors_def flush_final_ok same_wire_def)

lemmas mirrors_wire = same_wire_fields [OF mirrors_def [THEN iffD1, THEN conjunct1]]

lemma mirrors_build: "mirrors c d \<Longrightarrow> build fl q d = build fl q c"
  by (simp add: mirrors_def same_wire_build)

definition mirrored :: "('o \<times> 's conn) option \<Rightarrow> ('o \<times> 's conn) option \<Rightarrow> bool" where
  "mirrored r r' \<longleftrightarrow> (\<exists>out c d. r = Some (out, c) \<and> r' = Some (out, d) \<and> mirrors c d)"

lemma mirrored_data: "mirrors c d \<Longrightarrow> mirrored (on_data wr s c) (on_data wr s d)"
  using mirrors_accept [of c d "s_payload s"] mirrors_wire [of c d]
  by (auto simp: on_data_def mirrored_def Let_def accept_payload_fields mirrors_wire mirrors_updates mirrors_build)

lemma mirrored_fin: "mirrors c d \<Longrightarrow> mirrored (on_fin wr s c) (on_fin wr s d)"
proof -
  assume m: "mirrors c d"
  show ?thesis
  proof (cases "s_seq s = rcv_nxt c")
    case False
    then show ?thesis using m mirrors_wire [OF m] by (simp add: on_fin_def mirrored_def)
  next
    case True
    obtain c1 d1 where a: "accept_payload wr (s_payload s) c = Some c1" "accept_payload wr (s_payload s) d = Some d1"
        and m1: "mirrors c1 d1"
      using mirrors_accept [OF m] by blast
    define c2 d2 where "c2 = (if s_payload s \<noteq> [] then c1\<lparr>rcv_nxt := rcv_nxt c1 + of_nat (length (s_payload s))\<rparr> else c)"
      and "d2 = (if s_payload s \<noteq> [] then d1\<lparr>rcv_nxt := rcv_nxt d1 + of_nat (length (s_payload s))\<rparr> else d)"
    have m2: "mirrors c2 d2"
      using m m1 mirrors_wire [OF m1] by (simp add: c2_def d2_def mirrors_updates)
    define c3 d3 where "c3 = (flush_final wr c2)\<lparr>rcv_nxt := rcv_nxt c2 + 1\<rparr>"
      and "d3 = (flush_final wr d2)\<lparr>rcv_nxt := rcv_nxt d2 + 1\<rparr>"
    have m3: "mirrors c3 d3"
      using mirrors_final [OF m2] mirrors_wire [OF m2] by (simp add: c3_def d3_def mirrors_updates)
    have "on_fin wr s c = Some (Some (build (flag_fin OR flag_ack) [] c3), c3\<lparr>snd_nxt := snd_nxt c3 + 1, cstate := StateFinWait\<rparr>)"
      "on_fin wr s d = Some (Some (build (flag_fin OR flag_ack) [] d3), d3\<lparr>snd_nxt := snd_nxt d3 + 1, cstate := StateFinWait\<rparr>)"
      using True a mirrors_wire [OF m] by (simp_all add: on_fin_def Let_def c2_def d2_def c3_def d3_def)
    then show ?thesis
      using m3 mirrors_wire [OF m3] by (simp add: mirrored_def mirrors_build mirrors_updates)
  qed
qed

lemma mirrored_event: "mirrors c d \<Longrightarrow> mirrored (conn_event wr e c) (conn_event wr e d)"
proof -
  assume m: "mirrors c d"
  note w = mirrors_wire [OF m]
  have syn: "mirrored (Some (on_syn_ack s c)) (Some (on_syn_ack s d))" for s
    using m w by (simp add: on_syn_ack_def mirrored_def Let_def mirrors_updates mirrors_build)
  have fin: "mirrored (Some (on_fin_wait s c)) (Some (on_fin_wait s d))" for s
    using m w by (simp add: on_fin_wait_def mirrored_def mirrors_updates)
  have none: "mirrored (Some (None :: bytes option, c)) (Some (None, d))" using m by (simp add: mirrored_def)
  show ?thesis
  proof (cases e)
    case (Arrive f)
    show ?thesis
      using mirrored_data [OF m] mirrored_fin [OF m] syn fin none w
      by (simp add: Arrive on_segment_def split: option.split conn_state.split)
  next
    case (SendReq q)
    show ?thesis using m w by (simp add: SendReq conn_send_def mirrored_def mirrors_updates mirrors_build)
  next
    case CloseReq
    show ?thesis using m w by (simp add: CloseReq conn_close_def mirrored_def mirrors_updates mirrors_build)
  qed
qed

lemma mirrored_run: "mirrors c d \<Longrightarrow> mirrored (conn_run wr es c) (conn_run wr es d)"
proof (induction es arbitrary: c d)
  case (Cons e es)
  obtain out c1 d1 where ev: "conn_event wr e c = Some (out, c1)" "conn_event wr e d = Some (out, d1)" "mirrors c1 d1"
    using mirrored_event [OF Cons.prems, of e] by (auto simp: mirrored_def)
  from Cons.IH [OF ev(3)] ev show ?case by (auto simp: mirrored_def)
qed (simp add: mirrored_def)

lemma mirrors_set_sink:
  assumes "conn_ok c" "delivered received c = []" "received s = []"
  shows "mirrors (snd (connect c)) (snd (connect (set_sink (Some s) w c)))"
  using assms by (simp add: mirrors_def same_wire_def connect_def Let_def delivered_def set_sink_def conn_ok_def
      split: option.splits)

end

section \<open>Flush windows\<close>

fun flushed_in :: "nat \<Rightarrow> chunk_sink \<Rightarrow> bool" where
  "flushed_in win (ChunkSink cs) = list_all (\<lambda>c. c \<noteq> [] \<and> length c \<le> win) cs"

definition windowed :: "nat \<Rightarrow> chunk_sink conn \<Rightarrow> bool" where
  "windowed win c \<longleftrightarrow> conn_ok c \<and> flush_window c = win \<and> (\<exists>s. csink c = Some s \<and> flushed_in win s)"

lemma flushed_in_write: "flushed_in win s \<Longrightarrow> c \<noteq> [] \<Longrightarrow> length c \<le> win \<Longrightarrow> flushed_in win (chunk_write c s)"
  by (cases s) simp

lemma drain_flushed_in:
  "0 < win \<Longrightarrow> flushed_in win s \<Longrightarrow> drain chunk_write win buf s = Some (buf', s') \<Longrightarrow> flushed_in win s'"
proof (induction buf arbitrary: s rule: length_induct)
  case (1 buf)
  show ?case
  proof (cases "win \<le> length buf")
    case True
    then have "length (drop win buf) < length buf" using 1(2) by simp
    moreover have "flushed_in win (chunk_write (take win buf) s)"
      using 1(2,3) True by (intro flushed_in_write) auto
    ultimately show ?thesis
      using 1(1) [rule_format, of "drop win buf"] 1(2,4) True by (simp add: drain_big)
  qed (use 1 in \<open>simp add: drain_small\<close>)
qed

lemma windowed_updates [simp]:
  "windowed win (c\<lparr>rcv_nxt := r\<rparr>) = windowed win c" "windowed win (c\<lparr>snd_nxt := q\<rparr>) = windowed win c"
  "windowed win (c\<lparr>cstate := t\<rparr>) = windowed win c"
  by (simp_all add: windowed_def)

lemma windowed_accept:
  assumes "windowed win c" "accept_payload chunk_write q c = Some c'"
  shows "windowed win c'"
proof -
  have pos: "0 < win" using assms(1) by (auto simp: windowed_def conn_ok_def)
  have "conn_ok c'" using assms accept_payload_ok [of c chunk_write q] by (force simp: windowed_def)
  then show ?thesis
    using assms pos by (auto simp: windowed_def accept_payload_def drain_flushed_in split: option.splits)
qed

lemma windowed_flush: "windowed win c \<Longrightarrow> windowed win (flush_final chunk_write c)"
  by (auto simp: windowed_def flush_final_def conn_ok_def intro!: flushed_in_write)

lemma windowed_event:
  assumes "windowed win c" "conn_event chunk_write e c = Some (out, c')"
  shows "windowed win c'"
proof -
  have fin: "windowed win c'" if "on_fin chunk_write s c = Some (out, c')" for s
    using that assms(1) windowed_accept [of win c "s_payload s"]
    by (auto simp: on_fin_def Let_def windowed_flush split: if_splits option.splits)
  have data: "windowed win c'" if "on_data chunk_write s c = Some (out, c')" for s
    using that assms(1) windowed_accept [of win c "s_payload s"]
    by (auto simp: on_data_def Let_def split: if_splits option.splits)
  show ?thesis
    using assms fin data
    by (cases e) (auto simp: on_segment_def on_syn_ack_def on_fin_wait_def conn_send_def conn_close_def Let_def
        split: option.splits if_splits conn_state.splits)
qed

lemma windowed_run: "windowed win c \<Longrightarrow> conn_run chunk_write es c = Some (outs, c') \<Longrightarrow> windowed win c'"
  by (induction es arbitrary: c outs) (auto split: option.splits dest: windowed_event)

section \<open>What has been handed over\<close>

text \<open>The body bytes that the caller or the sink has; bytes in the flush buffer do not count.\<close>

definition handed :: "('s \<Rightarrow> bytes) \<Rightarrow> 's conn \<Rightarrow> bytes" where
  "handed received c = (case csink c of None \<Rightarrow> cdata c | Some s \<Rightarrow> received s)"

text \<open>The peer's FIN empties the flush buffer; only a request to close leaves bytes in it.\<close>

definition flushed :: "'s conn \<Rightarrow> bool" where
  "flushed c \<longleftrightarrow> (cstate c = StateFinWait \<or> cstate c = StateClosed \<longrightarrow> csink c = None \<or> flush_buf c = [])"

lemma flushed_handed:
  "flushed c \<Longrightarrow> cstate c = StateFinWait \<or> cstate c = StateClosed \<Longrightarrow> handed received c = delivered received c"
  by (auto simp: flushed_def handed_def delivered_def split: option.split)

lemma flushed_connect: "flushed (snd (connect c))"
  by (simp add: flushed_def connect_def Let_def)

lemma flush_final_empty: "flush_buf (flush_final wr c) \<noteq> [] \<Longrightarrow> csink (flush_final wr c) = None"
  by (cases "csink c") (simp_all add: flush_final_def split: if_splits)

lemma flushed_event:
  assumes "flushed c" and "conn_event wr e c = Some (out, c')" and "e \<noteq> CloseReq"
  shows "flushed c'"
proof -
  have fin: "flushed c'" if "on_fin wr s c = Some (out, c')" for s
    using that assms(1) by (auto simp: on_fin_def flushed_def Let_def split: if_splits option.splits dest: flush_final_empty)
  have data: "flushed c'" if "on_data wr s c = Some (out, c')" "cstate c = StateEstablished" for s
    using that by (auto simp: on_data_def flushed_def Let_def accept_payload_fields split: if_splits option.splits)
  show ?thesis
    using assms fin data
    by (cases e) (auto simp: on_segment_def on_syn_ack_def on_fin_wait_def conn_send_def flushed_def Let_def
        split: option.splits if_splits conn_state.splits)
qed

lemma flushed_run: "flushed c \<Longrightarrow> conn_run wr es c = Some (outs, c') \<Longrightarrow> CloseReq \<notin> set es \<Longrightarrow> flushed c'"
  by (induction es arbitrary: c outs) (auto split: option.splits dest: flushed_event)

lemma sinkless_accept: "csink c = None \<Longrightarrow> accept_payload wr q c = Some c' \<Longrightarrow> csink c' = None"
  by (auto simp: accept_payload_def)

lemma sinkless_flush: "csink c = None \<Longrightarrow> flush_final wr c = c"
  by (simp add: flush_final_def)

lemma sinkless_event:
  assumes "csink c = None" and "conn_event wr e c = Some (out, c')"
  shows "csink c' = None"
proof -
  have fin: "csink c' = None" if "on_fin wr s c = Some (out, c')" for s
    using that assms(1) sinkless_accept [of c wr "s_payload s"]
    by (auto simp: on_fin_def sinkless_flush Let_def split: if_splits option.splits)
  have data: "csink c' = None" if "on_data wr s c = Some (out, c')" for s
    using that assms(1) sinkless_accept [of c wr "s_payload s"]
    by (auto simp: on_data_def Let_def split: if_splits option.splits)
  show ?thesis
    using assms fin data
    by (cases e) (auto simp: on_segment_def on_syn_ack_def on_fin_wait_def conn_send_def conn_close_def Let_def
        split: option.splits if_splits conn_state.splits)
qed

lemma sinkless_run: "csink c = None \<Longrightarrow> conn_run wr es c = Some (outs, c') \<Longrightarrow> csink c' = None"
  by (induction es arbitrary: c outs) (auto split: option.splits dest: sinkless_event)

lemma windowed_start:
  "windowed (if w \<le> 0 then 1024 else nat w) (snd (connect (set_sink (Some (ChunkSink [])) w c)))"
  by (simp add: connect_def Let_def windowed_def) (simp add: set_sink_def conn_ok_def)

section \<open>A connection to run\<close>

definition demo_conn :: "chunk_sink conn" where
  "demo_conn = new_conn (Mac 2 0 0 0 0 1) (Ip 10 0 0 2) 40000 (Mac 2 0 0 0 0 9) (Ip 10 0 0 1) 80 100"

definition demo_peer :: peer where
  "demo_peer = \<lparr>isn = 500, body = [[1, 2, 3], [4, 5]]\<rparr>"

definition demo_segment :: "u8 \<Rightarrow> u32 \<Rightarrow> bytes \<Rightarrow> segment" where
  "demo_segment fl sq q =
     \<lparr>s_dst_mac = Mac 2 0 0 0 0 1, s_src_mac = Mac 2 0 0 0 0 9, s_src_ip = Ip 10 0 0 1, s_dst_ip = Ip 10 0 0 2,
      s_src_port = 80, s_dst_port = 40000, s_seq = sq, s_ack = 101, s_flags = fl, s_window = 1000, s_payload = q\<rparr>"

definition demo_keys :: "event list" where
  "demo_keys = map (Arrive \<circ> build_segment)
     [demo_segment 0x12 500 [], demo_segment 0x10 501 [1, 2, 3], demo_segment 0x10 504 [4, 5], demo_segment 0x11 506 []]"

text \<open>The second segment arrives early and the first one twice.\<close>

definition demo_events :: "event list" where
  "demo_events = map (Arrive \<circ> build_segment)
     [demo_segment 0x12 500 [], demo_segment 0x10 504 [4, 5], demo_segment 0x10 501 [1, 2, 3],
      demo_segment 0x10 501 [1, 2, 3], demo_segment 0x10 504 [4, 5], demo_segment 0x11 506 []]"

lemma demo_parse: "length q \<le> 65495 \<Longrightarrow> parse_segment (build_segment (demo_segment fl sq q)) = Some (demo_segment fl sq q)"
  by (rule parse_build_segment) (simp add: demo_segment_def)

lemma demo_flags:
  "has_flag 0x12 flag_syn" "has_flag 0x12 flag_ack" "\<not> has_flag 0x12 flag_fin" "\<not> has_flag 0x10 flag_syn"
  "\<not> has_flag 0x10 flag_fin" "\<not> has_flag 0x11 flag_syn" "has_flag 0x11 flag_fin"
  by code_simp+

lemma demo_peer_ok: "peer_ok demo_peer"
  by (simp add: peer_ok_def demo_peer_def)

lemma demo_fields [simp]:
  "s_dst_port (demo_segment fl sq q) = 40000" "s_src_port (demo_segment fl sq q) = 80"
  "s_seq (demo_segment fl sq q) = sq" "s_ack (demo_segment fl sq q) = 101"
  "s_flags (demo_segment fl sq q) = fl" "s_payload (demo_segment fl sq q) = q"
  "client_port (set_sink s w demo_conn) = 40000" "server_port (set_sink s w demo_conn) = 80"
  "iss (set_sink s w demo_conn) = 100"
  by (simp_all add: demo_segment_def set_sink_def demo_conn_def new_conn_def split: option.split)

lemma demo_from_peer:
  "from_peer demo_peer (demo_segment 0x12 500 [])" "from_peer demo_peer (demo_segment 0x10 501 [1, 2, 3])"
  "from_peer demo_peer (demo_segment 0x10 504 [4, 5])" "from_peer demo_peer (demo_segment 0x11 506 [])"
  by (auto simp: from_peer_def syn_segment_def data_segment_def fin_segment_def demo_flags demo_peer_def
      seq_of_def offset_def less_Suc_eq)

lemma demo_genuine: "list_all (genuine_event demo_peer (set_sink s w demo_conn)) demo_events"
  by (simp add: demo_events_def genuine_def demo_parse demo_from_peer)

lemma demo_keyed: "list_all2 (key_event demo_peer (set_sink s w demo_conn)) [0..<length (body demo_peer) + 2] demo_keys"
proof -
  have "[0..<length (body demo_peer) + 2] = [0, 1, 2, 3]" by (simp add: demo_peer_def upt_rec)
  then show ?thesis
    by (auto simp: demo_keys_def demo_parse for_conn_def key_segment_def syn_segment_def data_segment_def
        fin_segment_def demo_flags demo_peer_def seq_of_def offset_def)
qed

lemma demo_subseq: "subseq demo_keys demo_events"
  unfolding demo_keys_def demo_events_def by (intro subseq_map) (simp add: demo_segment_def)

lemma demo_ready: "delivered chunk_bytes (set_sink (Some (ChunkSink [])) w demo_conn) = []"
  by (simp add: delivered_def set_sink_def)

lemma demo_no_close: "CloseReq \<notin> set demo_events"
  by (simp add: demo_events_def)

lemma demo_run_ok: "conn_ok (snd (connect (set_sink s w demo_conn)))"
  by (simp add: connect_def Let_def)

lemma demo_run_ex: "\<exists>outs c'. conn_run wr es (snd (connect (set_sink s w demo_conn))) = Some (outs, c')"
  using conn_run_ok [OF demo_run_ok, of wr es s w] by blast

section \<open>The properties\<close>

text \<open>
  A segment of at most 65495 bytes, the most an IP packet carries, parses back to itself.
\<close>

theorem segment_round_trip:
  assumes "length (s_payload s) \<le> 65495"
  shows "parse_segment (build_segment s) = Some s"
  using assms by (rule parse_build_segment)

lemma segment_round_trip_witness:
  "parse_segment (build_segment (demo_segment 0x10 501 [1, 2, 3])) = Some (demo_segment 0x10 501 [1, 2, 3])"
  by (rule segment_round_trip) simp

text \<open>
  The checksum that \<^verbatim>\<open>BuildSegment\<close> writes verifies: the one's-complement sum over the
  pseudo-header and everything from the TCP header on folds to all ones.
\<close>

theorem built_checksum_verifies:
  assumes "length (s_payload s) \<le> 65495"
  shows "checksum_valid (s_src_ip s) (s_dst_ip s) (drop 34 (build_segment s))"
  using tcp_checksum_valid [OF assms] by (simp add: build_segment_def)

lemma built_checksum_verifies_witness:
  "checksum_valid (Ip 10 0 0 1) (Ip 10 0 0 2) (drop 34 (build_segment (demo_segment 0x10 501 [1, 2, 3])))"
  using built_checksum_verifies [of "demo_segment 0x10 501 [1, 2, 3]"] by (simp add: demo_segment_def)

text \<open>
  C27.  No sequence of frames and requests makes a connection loop: the flush loop ends for every
  connection whose sink was set with \<^verbatim>\<open>SetSink\<close>, so every run returns.
\<close>

theorem conn_run_returns:
  "\<exists>r. conn_run wr es (snd (connect (set_sink s w (new_conn cm ca cp sm sa sp i)))) = Some r"
proof -
  have "conn_ok (snd (connect (set_sink s w (new_conn cm ca cp sm sa sp i))))"
    by (simp add: connect_def Let_def)
  then show ?thesis using conn_run_ok by blast
qed

text \<open>
  C31.  In streaming mode every flush holds between one and \<^verbatim>\<open>window\<close> bytes, and fewer than
  \<^verbatim>\<open>window\<close> bytes are held back.
\<close>

theorem flushes_bounded:
  assumes "0 < w"
    and "conn_run chunk_write es (snd (connect (set_sink (Some (ChunkSink [])) w c))) = Some (outs, c')"
  shows "length (flush_buf c') < nat w \<and> (\<exists>cs. csink c' = Some (ChunkSink cs) \<and> list_all (\<lambda>b. b \<noteq> [] \<and> length b \<le> nat w) cs)"
proof -
  have "windowed (nat w) (snd (connect (set_sink (Some (ChunkSink [])) w c)))"
    using assms(1) by (simp add: connect_def Let_def windowed_def) (simp add: set_sink_def)
  then have "windowed (nat w) c'" using assms(2) by (rule windowed_run)
  then obtain s where "csink c' = Some s" "flushed_in (nat w) s" "length (flush_buf c') < nat w"
    by (auto simp: windowed_def conn_ok_def)
  then show ?thesis by (cases s) auto
qed

lemma flushes_bounded_witness:
  "\<exists>outs c'. conn_run chunk_write demo_events (snd (connect (set_sink (Some (ChunkSink [])) 2 demo_conn))) = Some (outs, c')
    \<and> length (flush_buf c') < 2 \<and> (\<exists>cs. csink c' = Some (ChunkSink cs) \<and> list_all (\<lambda>b. b \<noteq> [] \<and> length b \<le> 2) cs)"
proof -
  let ?c = "set_sink (Some (ChunkSink [])) 2 demo_conn"
  obtain outs c' where r: "conn_run chunk_write demo_events (snd (connect ?c)) = Some (outs, c')"
    using demo_run_ex by blast
  from flushes_bounded [OF _ r] r show ?thesis by auto
qed

text \<open>
  C22.  Streaming changes nothing on the wire and loses nothing of the body: a run with a sink sends
  the frames of the run that accumulates and ends in the same state; at every moment the sink has
  been written all of the accumulated body but fewer than \<^verbatim>\<open>window\<close> bytes, which are those held back,
  and it has been written all of it once the peer has closed the connection.  When the application
  closes first, what is held back stays there.
\<close>

theorem streaming_equivalent:
  assumes "csink c = None" and "cdata c = []"
  shows "\<exists>outs d d' s. conn_run chunk_write es (snd (connect c)) = Some (outs, d)
    \<and> conn_run chunk_write es (snd (connect (set_sink (Some (ChunkSink [])) w c))) = Some (outs, d')
    \<and> (cstate d', snd_nxt d', rcv_nxt d') = (cstate d, snd_nxt d, rcv_nxt d)
    \<and> csink d' = Some s \<and> chunk_bytes s @ flush_buf d' = cdata d
    \<and> length (flush_buf d') < (if w \<le> 0 then 1024 else nat w)
    \<and> (CloseReq \<notin> set es \<longrightarrow> cstate d' = StateFinWait \<or> cstate d' = StateClosed \<longrightarrow> chunk_bytes s = cdata d)"
proof -
  let ?c = "snd (connect (set_sink (Some (ChunkSink [])) w c))"
  have "chunked.mirrors (snd (connect c)) ?c"
    by (rule chunked.mirrors_set_sink) (use assms in \<open>simp_all add: conn_ok_def delivered_def\<close>)
  from chunked.mirrored_run [OF this, of es] obtain outs d d' where
    r: "conn_run chunk_write es (snd (connect c)) = Some (outs, d)" "conn_run chunk_write es ?c = Some (outs, d')"
    and m: "same_wire d d'" "delivered chunk_bytes d = delivered chunk_bytes d'"
    by (auto simp: chunked.mirrored_def chunked.mirrors_def)
  obtain s where s: "csink d' = Some s" "length (flush_buf d') < (if w \<le> 0 then 1024 else nat w)"
    using windowed_run [OF windowed_start r(2)] by (auto simp: windowed_def conn_ok_def)
  have "csink d = None" by (rule sinkless_run [OF _ r(1)]) (use assms(1) in \<open>simp add: connect_def Let_def\<close>)
  with m s have all: "chunk_bytes s @ flush_buf d' = cdata d" by (simp add: delivered_def)
  have "chunk_bytes s = cdata d" if "CloseReq \<notin> set es" "cstate d' = StateFinWait \<or> cstate d' = StateClosed"
    using flushed_run [OF flushed_connect r(2) that(1)] that(2) s(1) all by (auto simp: flushed_def)
  with r s all same_wire_fields [OF m(1)] show ?thesis by blast
qed

lemma streaming_equivalent_witness:
  "\<exists>outs d d' s. conn_run chunk_write demo_events (snd (connect demo_conn)) = Some (outs, d)
    \<and> conn_run chunk_write demo_events (snd (connect (set_sink (Some (ChunkSink [])) 2 demo_conn))) = Some (outs, d')
    \<and> csink d' = Some s \<and> chunk_bytes s @ flush_buf d' = cdata d \<and> length (flush_buf d') < 2"
  using streaming_equivalent [of demo_conn demo_events 2] by (auto simp: demo_conn_def new_conn_def)

text \<open>
  C4.  Whatever the network loses, repeats or reorders, and whatever the application sends, the
  delivered body is a prefix of the peer's stream.
\<close>

theorem delivered_prefix:
  assumes "conn_ok c" and "delivered chunk_bytes c = []" and "peer_ok p" and "list_all (genuine_event p c) es"
    and "conn_run chunk_write es (snd (connect c)) = Some (outs, c')"
  shows "prefix (delivered chunk_bytes c') (concat (body p))"
  using assms by (rule chunked.run_prefix)

lemma delivered_prefix_witness:
  "\<exists>outs c'. conn_run chunk_write demo_events (snd (connect (set_sink (Some (ChunkSink [])) 2 demo_conn))) = Some (outs, c')
    \<and> prefix (delivered chunk_bytes c') [1, 2, 3, 4, 5]"
proof -
  let ?c = "set_sink (Some (ChunkSink [])) 2 demo_conn"
  obtain outs c' where r: "conn_run chunk_write demo_events (snd (connect ?c)) = Some (outs, c')"
    using demo_run_ex by blast
  from delivered_prefix [OF conn_ok_set_sink demo_ready demo_peer_ok demo_genuine r] r
  show ?thesis by (auto simp: demo_peer_def)
qed

text \<open>
  C23.  A download is never cut short: when a connection that did not close by itself has left
  the established state, the whole stream of the peer has been handed over, to the sink when it
  streams and to the accumulated data when it does not; nothing is left in the flush buffer.
\<close>

theorem delivered_complete:
  assumes "conn_ok c" and "delivered chunk_bytes c = []" and "peer_ok p" and "list_all (genuine_event p c) es"
    and "CloseReq \<notin> set es" and "conn_run chunk_write es (snd (connect c)) = Some (outs, c')"
    and "cstate c' = StateFinWait \<or> cstate c' = StateClosed"
  shows "handed chunk_bytes c' = concat (body p)"
  using chunked.run_complete [OF assms] flushed_handed [OF flushed_run [OF flushed_connect assms(6,5)] assms(7), of chunk_bytes]
  by simp



lemma delivered_complete_witness:
  "\<exists>outs c'. conn_run chunk_write demo_events (snd (connect (set_sink (Some (ChunkSink [])) 2 demo_conn))) = Some (outs, c')
    \<and> handed chunk_bytes c' = [1, 2, 3, 4, 5]"
proof -
  let ?c = "set_sink (Some (ChunkSink [])) 2 demo_conn"
  obtain outs c' where r: "conn_run chunk_write demo_events (snd (connect ?c)) = Some (outs, c')"
      and q: "cstate c' = StateFinWait \<or> cstate c' = StateClosed"
    using chunked.run_delivers [OF conn_ok_set_sink demo_ready demo_peer_ok demo_genuine demo_no_close demo_subseq demo_keyed]
    by blast
  from delivered_complete [OF conn_ok_set_sink demo_ready demo_peer_ok demo_genuine demo_no_close r q] r
  show ?thesis by (auto simp: demo_peer_def)
qed

text \<open>
  A UDP frame of at most 65507 bytes of payload parses back to itself.
\<close>

theorem udp_round_trip:
  assumes "length (u_payload u) \<le> 65507"
  shows "parse_udp (build_udp_frame u) = Some u"
  using assms by (rule parse_build_udp)

lemma udp_round_trip_witness:
  "parse_udp (build_udp_frame \<lparr>u_dst_mac = broadcast_mac, u_src_mac = Mac 2 0 0 0 0 1, u_src_ip = Ip 10 0 0 1,
       u_dst_ip = Ip 255 255 255 255, u_src_port = 67, u_dst_port = 68, u_payload = [1, 2]\<rparr>) =
     Some \<lparr>u_dst_mac = broadcast_mac, u_src_mac = Mac 2 0 0 0 0 1, u_src_ip = Ip 10 0 0 1,
       u_dst_ip = Ip 255 255 255 255, u_src_port = 67, u_dst_port = 68, u_payload = [1, 2]\<rparr>"
  by (rule udp_round_trip) simp

end
