(* ===== verification/Tftp_Packets.thy ===== *)
theory Tftp_Packets
  imports Net_Frame Fmt_Sysregs
begin

text \<open>
  The TFTP packets of the netboot oracle (\<^verbatim>\<open>src/tools/netboot-oracle/tftp/tftp.go\<close>): requests,
  option acknowledgements, data, acknowledgements and errors, built and parsed.  A Go string is
  a list of characters, and a character is a byte of the wire; a string without NUL survives
  the NUL-terminated form.
\<close>

section \<open>Strings on the wire\<close>

definition wire :: "string \<Rightarrow> bytes" where
  "wire s = map of_char s"

definition cstr :: "string \<Rightarrow> bytes" where
  "cstr s = wire s @ [0]"

text \<open>\<^verbatim>\<open>readCStr\<close>: the string before the first NUL at or after an offset, and the offset after it.\<close>

definition read_cstr :: "bytes \<Rightarrow> nat \<Rightarrow> (string \<times> nat) option" where
  "read_cstr b start =
     (let s = takeWhile (\<lambda>x. x \<noteq> 0) (drop start b) in
      if start + length s < length b then Some (string_of_bytes s, start + length s + 1) else None)"

definition nul_free :: "string \<Rightarrow> bool" where
  "nul_free s \<longleftrightarrow> list_all (\<lambda>c. (of_char c :: u8) \<noteq> 0) s"

lemma string_of_wire [simp]: "string_of_bytes (wire s) = s"
proof -
  have "char_of (unat (of_char c :: u8)) = c" for c :: char
  proof -
    have "(of_char c :: u8) = of_nat (of_char c)" by (simp only: of_nat_of_char)
    then have "unat (of_char c :: u8) = take_bit 8 (of_char c)" by (simp only: unat_of_nat take_bit_eq_mod) simp
    then show ?thesis by (simp add: char_of_take_bit_eq)
  qed
  then show ?thesis by (simp add: string_of_bytes_def wire_def comp_def)
qed

lemma length_wire [simp]: "length (wire s) = length s"
  by (simp add: wire_def)

lemma read_cstr_cstr:
  assumes "nul_free s"
  shows "read_cstr (p @ cstr s @ q) (length p) = Some (s, length p + length s + 1)"
proof -
  have "takeWhile (\<lambda>x. x \<noteq> 0) (wire s @ 0 # q) = wire s"
    using assms by (subst takeWhile_append2) (auto simp: nul_free_def wire_def list_all_iff)
  then show ?thesis by (simp add: read_cstr_def cstr_def Let_def)
qed

section \<open>Packets\<close>

datatype tftp_option = Opt (opt_name: string) (opt_value: string)

record request =
  rq_opcode :: u16
  rq_filename :: string
  rq_mode :: string
  rq_options :: "tftp_option list"

definition op_rrq :: u16 where "op_rrq = 1"
definition op_wrq :: u16 where "op_wrq = 2"
definition op_data :: u16 where "op_data = 3"
definition op_ack :: u16 where "op_ack = 4"
definition op_error :: u16 where "op_error = 5"
definition op_oack :: u16 where "op_oack = 6"

definition err_file_not_found :: u16 where "err_file_not_found = 1"
definition err_unknown_tid :: u16 where "err_unknown_tid = 5"

definition client_option_set :: "tftp_option list" where
  "client_option_set =
     [Opt ''blksize'' ''1428'', Opt ''tsize'' ''0'', Opt ''timeout'' ''2'', Opt ''windowsize'' ''8'']"

definition opcode :: "bytes \<Rightarrow> u16" where
  "opcode p = (if length p < 2 then 0 else be16_at p 0)"

definition options_wire :: "tftp_option list \<Rightarrow> bytes" where
  "options_wire opts = concat (map (\<lambda>o'. cstr (opt_name o') @ cstr (opt_value o')) opts)"

definition build_rrq :: "string \<Rightarrow> string \<Rightarrow> tftp_option list \<Rightarrow> bytes" where
  "build_rrq filename mode opts = [0, 1] @ cstr filename @ cstr mode @ options_wire opts"

definition build_wrq :: "string \<Rightarrow> string \<Rightarrow> tftp_option list \<Rightarrow> bytes" where
  "build_wrq filename mode opts = [0, 2] @ cstr filename @ cstr mode @ options_wire opts"

definition build_oack :: "tftp_option list \<Rightarrow> bytes" where
  "build_oack opts = [0, 6] @ options_wire opts"

text \<open>
  The loop that reads options up to the end of the packet: an unterminated name ends it, an
  unterminated value is an error.
\<close>

lemma read_cstr_less: "read_cstr b off = Some (s, off') \<Longrightarrow> off < off' \<and> off' \<le> length b"
  by (auto simp: read_cstr_def Let_def split: if_splits)

function read_options :: "bytes \<Rightarrow> nat \<Rightarrow> tftp_option list res" where
  "read_options b off =
     (if off < length b then
        (case read_cstr b off of
           None \<Rightarrow> Inr []
         | Some (name, off1) \<Rightarrow>
             (case read_cstr b off1 of
                None \<Rightarrow> Inl (Error ''option missing value'')
              | Some (val, off2) \<Rightarrow>
                  sbind (read_options b off2) (\<lambda>opts. Inr (Opt name val # opts))))
      else Inr [])"
  by pat_completeness auto

termination read_options
  by (relation "measure (\<lambda>(b, off). length b - off)") (auto dest!: read_cstr_less)

declare read_options.simps [simp del]

definition parse_request :: "bytes \<Rightarrow> request res" where
  "parse_request p =
     (if opcode p \<noteq> op_rrq \<and> opcode p \<noteq> op_wrq then Inl (Error ''tftp: not an RRQ/WRQ'')
      else case read_cstr p 2 of
        None \<Rightarrow> Inl (Error ''tftp: RRQ missing filename'')
      | Some (fn, off) \<Rightarrow>
          (case read_cstr p off of
             None \<Rightarrow> Inl (Error ''tftp: RRQ missing mode'')
           | Some (mode, off2) \<Rightarrow>
               sbind (read_options p off2) (\<lambda>opts.
                 Inr \<lparr>rq_opcode = opcode p, rq_filename = fn, rq_mode = mode, rq_options = opts\<rparr>)))"

definition parse_oack :: "bytes \<Rightarrow> tftp_option list res" where
  "parse_oack p = (if opcode p \<noteq> op_oack then Inl (Error ''tftp: not an OACK'') else read_options p 2)"

text \<open>\<^verbatim>\<open>Request.Option\<close> and \<^verbatim>\<open>OptionUint\<close>: the first option of that name.\<close>

definition option_value :: "tftp_option list \<Rightarrow> string \<Rightarrow> string option" where
  "option_value opts name = map_option opt_value (List.find (\<lambda>o'. opt_name o' = name) opts)"

definition parse_uint64 :: "string \<Rightarrow> nat option" where
  "parse_uint64 s =
     (if s = [] then None
      else case parse_digits 0 s of None \<Rightarrow> None | Some n \<Rightarrow> if 2 ^ 64 \<le> n then None else Some n)"

definition option_uint :: "tftp_option list \<Rightarrow> string \<Rightarrow> nat option" where
  "option_uint opts name = Option.bind (option_value opts name) parse_uint64"

definition build_data :: "u16 \<Rightarrow> bytes \<Rightarrow> bytes" where
  "build_data block d = put_be16 op_data @ put_be16 block @ d"

definition parse_data :: "bytes \<Rightarrow> (u16 \<times> bytes) option" where
  "parse_data p = (if opcode p \<noteq> op_data \<or> length p < 4 then None else Some (be16_at p 2, drop 4 p))"

definition build_ack :: "u16 \<Rightarrow> bytes" where
  "build_ack block = put_be16 op_ack @ put_be16 block"

definition parse_ack :: "bytes \<Rightarrow> u16 option" where
  "parse_ack p = (if opcode p \<noteq> op_ack \<or> length p < 4 then None else Some (be16_at p 2))"

definition build_error :: "u16 \<Rightarrow> string \<Rightarrow> bytes" where
  "build_error code msg = put_be16 op_error @ put_be16 code @ cstr msg"

definition parse_error :: "bytes \<Rightarrow> (u16 \<times> string) option" where
  "parse_error p =
     (if opcode p \<noteq> op_error \<or> length p < 4 then None
      else Some (be16_at p 2, case read_cstr p 4 of None \<Rightarrow> [] | Some (msg, _) \<Rightarrow> msg))"

section \<open>Reading packets back\<close>

lemmas opcodes = op_rrq_def op_wrq_def op_data_def op_ack_def op_error_def op_oack_def

lemma be16_small: "be16 0 b = ucast b"
  by (simp add: be16_def)

lemma opcode_put [simp]: "opcode (put_be16 w @ q) = w"
  by (simp add: opcode_def be16_at_def put_be16_def)

lemma opcode_head [simp]: "opcode (0 # b # q) = ucast b"
  by (simp add: opcode_def be16_at_def be16_small)

lemma parse_build_data [simp]: "parse_data (build_data block d) = Some (block, d)"
  by (simp add: parse_data_def build_data_def) (simp add: put_be16_def be16_at_def)

lemma parse_build_ack [simp]: "parse_ack (build_ack block) = Some block"
  by (simp add: parse_ack_def build_ack_def) (simp add: put_be16_def be16_at_def)

lemma opcode_build [simp]: "opcode (build_data block d) = op_data" "opcode (build_ack block) = op_ack"
  by (simp_all add: build_data_def build_ack_def)

lemma parse_build_error:
  assumes "nul_free msg"
  shows "parse_error (build_error code msg) = Some (code, msg)"
  using read_cstr_cstr [OF assms, of "put_be16 op_error @ put_be16 code" "[]"]
  by (simp add: parse_error_def build_error_def) (simp add: put_be16_def be16_at_def)

definition options_nul_free :: "tftp_option list \<Rightarrow> bool" where
  "options_nul_free opts \<longleftrightarrow> list_all (\<lambda>o'. nul_free (opt_name o') \<and> nul_free (opt_value o')) opts"

lemma length_cstr [simp]: "length (cstr s) = length s + 1"
  by (simp add: cstr_def)

lemma read_options_wire:
  "options_nul_free opts \<Longrightarrow> read_options (p @ options_wire opts) (length p) = Inr opts"
proof (induction opts arbitrary: p)
  case Nil
  then show ?case by (subst read_options.simps) (simp add: options_wire_def)
next
  case (Cons o' opts)
  obtain n v where o': "o' = Opt n v" by (cases o')
  let ?q = "p @ cstr n @ cstr v"
  have nf: "nul_free n" "nul_free v" "options_nul_free opts"
    using Cons.prems by (simp_all add: options_nul_free_def o')
  have w: "p @ options_wire (o' # opts) = p @ cstr n @ cstr v @ options_wire opts"
    by (simp add: options_wire_def o')
  have 1: "read_cstr (p @ cstr n @ cstr v @ options_wire opts) (length p) = Some (n, length p + length n + 1)"
    using read_cstr_cstr [OF nf(1), of p] by simp
  have 2: "read_cstr (p @ cstr n @ cstr v @ options_wire opts) (length p + length n + 1)
      = Some (v, length p + length n + 1 + length v + 1)"
    using read_cstr_cstr [OF nf(2), of "p @ cstr n" "options_wire opts"] by (simp add: add.commute add.left_commute)
  have 3: "read_options (p @ cstr n @ cstr v @ options_wire opts) (length p + length n + 1 + length v + 1) = Inr opts"
    using Cons.IH [OF nf(3), of ?q] by (simp add: add.commute add.left_commute)
  show ?case
    unfolding w by (subst read_options.simps) (use 1 2 3 in \<open>simp add: o'\<close>)
qed

lemma read_options_at:
  "options_nul_free opts \<Longrightarrow> n = length p \<Longrightarrow> read_options (p @ options_wire opts) n = Inr opts"
  by (simp add: read_options_wire)

lemma read_cstr_at:
  "nul_free s \<Longrightarrow> n = length p \<Longrightarrow> read_cstr (p @ cstr s @ q) n = Some (s, n + length s + 1)"
  by (simp add: read_cstr_cstr)

lemma parse_build_oack: "options_nul_free opts \<Longrightarrow> parse_oack (build_oack opts) = Inr opts"
  using read_options_at [of opts 2 "[0, 6]"] by (simp add: parse_oack_def build_oack_def opcodes)

lemma parse_build_request:
  assumes "nul_free fn" "nul_free mode" "options_nul_free opts" and "k = 1 \<or> k = 2"
  shows "parse_request ([0, k] @ cstr fn @ cstr mode @ options_wire opts)
    = Inr \<lparr>rq_opcode = ucast k, rq_filename = fn, rq_mode = mode, rq_options = opts\<rparr>"
proof -
  let ?p = "[0, k] @ cstr fn @ cstr mode @ options_wire opts"
  have 1: "read_cstr ?p 2 = Some (fn, 2 + length fn + 1)"
    using read_cstr_at [OF assms(1), of 2 "[0, k]"] by simp
  have 2: "read_cstr ?p (2 + length fn + 1) = Some (mode, 2 + length fn + 1 + length mode + 1)"
    using read_cstr_at [OF assms(2), of "2 + length fn + 1" "[0, k] @ cstr fn"] by simp
  have 3: "read_options ?p (2 + length fn + 1 + length mode + 1) = Inr opts"
    using read_options_at [OF assms(3), of "2 + length fn + 1 + length mode + 1" "[0, k] @ cstr fn @ cstr mode"] by simp
  have op: "opcode ?p = ucast k" by simp
  show ?thesis
    unfolding parse_request_def op 1 using 2 3 assms(4) by (auto simp: opcodes)
qed

end
