(* ===== verification/Tftp_Xfer.thy ===== *)
theory Tftp_Xfer
  imports Tftp_Packets
begin

text \<open>
  The two ends of a TFTP transfer (\<^verbatim>\<open>src/tools/netboot-oracle/tftp/serverxfer.go\<close> and
  \<^verbatim>\<open>client.go\<close>): the server streams a file block by block, lock-step or windowed, and the
  client accumulates it.  Block numbers are 16-bit words and wrap as in the source; reading a
  source at a negative offset panics there and is \<open>Inl Panic\<close> here.
\<close>

section \<open>The server\<close>

record server_xfer =
  src :: bytes
  blksize :: int
  next_block :: u16
  sent :: "bytes option"
  sdone :: bool
  windowsize :: int
  win_acked :: u16
  win_final :: u16

text \<open>\<^verbatim>\<open>ByteSource.ReadAt\<close> into a buffer of \<open>n\<close> bytes.\<close>

definition read_at :: "bytes \<Rightarrow> nat \<Rightarrow> int \<Rightarrow> bytes res" where
  "read_at b n off =
     (if off \<ge> int (length b) then Inr []
      else if off < 0 then Inl Panic
      else Inr (take n (drop (nat off) b)))"

definition new_server_xfer :: "bytes \<Rightarrow> int \<Rightarrow> server_xfer" where
  "new_server_xfer f b =
     \<lparr>src = f, blksize = (if b \<le> 0 then 512 else b), next_block = 1, sent = None, sdone = False,
      windowsize = 1, win_acked = 0, win_final = 0\<rparr>"

definition set_windowsize :: "int \<Rightarrow> server_xfer \<Rightarrow> server_xfer" where
  "set_windowsize w s = s\<lparr>windowsize := (if w < 1 then 1 else w)\<rparr>"

definition block_offset :: "server_xfer \<Rightarrow> u16 \<Rightarrow> int" where
  "block_offset s block = (uint block - 1) * blksize s"

definition next_data :: "server_xfer \<Rightarrow> (bytes option \<times> server_xfer) res" where
  "next_data s =
     (if sdone s then Inr (None, s)
      else sbind (read_at (src s) (nat (blksize s)) (block_offset s (next_block s))) (\<lambda>d.
        Inr (Some (build_data (next_block s) d), s\<lparr>sent := Some d\<rparr>)))"

definition on_ack :: "u16 \<Rightarrow> server_xfer \<Rightarrow> bool \<times> server_xfer" where
  "on_ack block s =
     (if block \<noteq> next_block s then (sdone s, s)
      else if int (length (case sent s of None \<Rightarrow> [] | Some d \<Rightarrow> d)) < blksize s then (True, s\<lparr>sdone := True\<rparr>)
      else (False, s\<lparr>next_block := next_block s + 1\<rparr>))"

definition server_timeout :: "server_xfer \<Rightarrow> bytes option" where
  "server_timeout s = (if sdone s then None else map_option (build_data (next_block s)) (sent s))"

text \<open>The loop of \<^verbatim>\<open>NextWindow\<close>: iterations \<open>i, \<dots>, w - 1\<close>, where \<open>k\<close> of them are left.\<close>

fun window_blocks :: "nat \<Rightarrow> nat \<Rightarrow> server_xfer \<Rightarrow> (bytes list \<times> server_xfer) res" where
  "window_blocks 0 i s = Inr ([], s)"
| "window_blocks (Suc k) i s =
     (let block = win_acked s + of_nat i + 1 in
      sbind (read_at (src s) (nat (blksize s)) (block_offset s block)) (\<lambda>d.
        if int (length d) < blksize s then Inr ([build_data block d], s\<lparr>win_final := block\<rparr>)
        else sbind (window_blocks k (Suc i) s) (\<lambda>(out, s'). Inr (build_data block d # out, s'))))"

definition next_window :: "server_xfer \<Rightarrow> (bytes list \<times> server_xfer) res" where
  "next_window s =
     (if sdone s then Inr ([], s)
      else window_blocks (nat (if windowsize s < 1 then 1 else windowsize s)) 0 s)"

definition on_window_ack :: "u16 \<Rightarrow> server_xfer \<Rightarrow> bool \<times> server_xfer" where
  "on_window_ack block s =
     (if sdone s then (True, s)
      else if win_final s \<noteq> 0 \<and> block = win_final s then (True, s\<lparr>sdone := True\<rparr>)
      else
        let max1 = win_acked s + of_int (windowsize s);
            max_sent = (if win_final s \<noteq> 0 \<and> win_final s < max1 then win_final s else max1) in
        if block < win_acked s \<or> block > max_sent then (False, s)
        else (False, s\<lparr>win_acked := block\<rparr>))"

section \<open>The client\<close>

record client_xfer =
  cblksize :: int
  server_id :: u16
  acked :: u16
  cdone :: bool
  xdata :: bytes
  cwindow :: int
  win_count :: int

definition new_client_xfer :: "int \<Rightarrow> u16 \<Rightarrow> client_xfer" where
  "new_client_xfer b tid =
     \<lparr>cblksize = (if b \<le> 0 then 512 else b), server_id = tid, acked = 0, cdone = False, xdata = [],
      cwindow = 1, win_count = 0\<rparr>"

definition set_client_window :: "int \<Rightarrow> client_xfer \<Rightarrow> client_xfer" where
  "set_client_window w c = c\<lparr>cwindow := (if w < 1 then 1 else w)\<rparr>"

text \<open>What the client emits: a reply, if any, and whether the transfer has completed.\<close>

type_synonym action = "bytes option \<times> bool"

definition take_block :: "u16 \<Rightarrow> bytes \<Rightarrow> client_xfer \<Rightarrow> client_xfer" where
  "take_block block d c =
     c\<lparr>xdata := xdata c @ d, acked := block, cdone := (cdone c \<or> int (length d) < cblksize c)\<rparr>"

definition on_data_windowed :: "u16 \<Rightarrow> bytes \<Rightarrow> client_xfer \<Rightarrow> action \<times> client_xfer" where
  "on_data_windowed block d c =
     (if block \<noteq> acked c + 1 then ((Some (build_ack (acked c)), False), c\<lparr>win_count := 0\<rparr>)
      else let c1 = (take_block block d c)\<lparr>win_count := win_count c + 1\<rparr> in
        if cdone c1 \<or> win_count c1 \<ge> cwindow c1
        then ((Some (build_ack (acked c1)), cdone c1), c1\<lparr>win_count := 0\<rparr>)
        else ((None, False), c1))"

definition on_block :: "u16 \<Rightarrow> bytes \<Rightarrow> client_xfer \<Rightarrow> action \<times> client_xfer" where
  "on_block block d c =
     (if block = acked c + 1 then
        let c1 = take_block block d c in ((Some (build_ack block), cdone c1), c1)
      else if block \<le> acked c then ((Some (build_ack block), False), c)
      else ((None, False), c))"

definition client_on_data :: "u16 \<Rightarrow> bytes \<Rightarrow> client_xfer \<Rightarrow> action \<times> client_xfer" where
  "client_on_data src_tid payload c =
     (if src_tid \<noteq> server_id c then ((Some (build_error err_unknown_tid ''unknown transfer ID''), False), c)
      else case parse_data payload of
        None \<Rightarrow> ((None, False), c)
      | Some (block, d) \<Rightarrow> if cwindow c > 1 then on_data_windowed block d c else on_block block d c)"

definition client_timeout :: "client_xfer \<Rightarrow> bytes option" where
  "client_timeout c = (if acked c = 0 then None else Some (build_ack (acked c)))"

section \<open>Blocks of a file\<close>

text \<open>
  A file of \<open>n\<close> bytes has \<open>n div b + 1\<close> blocks: the last one is short, and empty when the block
  size divides the length.
\<close>

definition chunk :: "bytes \<Rightarrow> nat \<Rightarrow> nat \<Rightarrow> bytes" where
  "chunk f b i = take b (drop (i * b) f)"

definition nblocks :: "bytes \<Rightarrow> nat \<Rightarrow> nat" where
  "nblocks f b = length f div b + 1"

lemma chunk_full: "0 < b \<Longrightarrow> Suc i < nblocks f b \<Longrightarrow> length (chunk f b i) = b"
proof -
  assume "0 < b" "Suc i < nblocks f b"
  then have "Suc i * b \<le> length f"
    by (metis Suc_leI Suc_less_eq add.commute less_eq_div_iff_mult_less_eq nblocks_def plus_1_eq_Suc)
  then show ?thesis by (simp add: chunk_def)
qed

lemma chunk_last: "0 < b \<Longrightarrow> Suc i = nblocks f b \<Longrightarrow> length (chunk f b i) < b"
  by (simp add: chunk_def nblocks_def) (simp add: min_less_iff_disj less_diff_conv2 flip: modulo_nat_def minus_mod_eq_div_mult)

lemma take_chunk: "take (i * b) f @ chunk f b i = take (Suc i * b) f"
  using take_add [of "i * b" b f] by (simp add: chunk_def add.commute)

lemma take_all_blocks: "0 < b \<Longrightarrow> take (nblocks f b * b) f = f"
  by (simp add: nblocks_def) (metis add.commute dividend_less_div_times less_imp_le mult.commute)

lemma read_chunk:
  assumes "0 < b"
  shows "read_at f b (int (i * b)) = Inr (chunk f b i)"
  by (auto simp: read_at_def chunk_def simp del: of_nat_mult)

lemma chunk_short_iff:
  assumes "0 < b" "i < nblocks f b"
  shows "length (chunk f b i) < b \<longleftrightarrow> Suc i = nblocks f b"
  using assms chunk_full [of b i f] chunk_last [of b i f] by (cases "Suc i = nblocks f b") auto

end
