(* ===== verification/Tftp_Lockstep.thy ===== *)
theory Tftp_Lockstep
  imports Tftp_Xfer
begin

text \<open>
  The lock-step transfer over a network that may lose, repeat, delay and reorder packets: a
  step relation on the server, the client and the packets in flight, its invariant, and the
  proof that the client's data is always a prefix of the file, that neither end finishes early,
  and that retransmission finishes the transfer from every reachable state.
\<close>

section \<open>The system\<close>

text \<open>The core of \<^verbatim>\<open>ServerLoop.OnACK\<close>: the acknowledgement, then the next block unless that was the last.\<close>

definition server_turn :: "u16 \<Rightarrow> server_xfer \<Rightarrow> (bytes option \<times> server_xfer) res" where
  "server_turn block s = (let (fin, s1) = on_ack block s in if fin then Inr (None, s1) else next_data s1)"

record system =
  srv :: server_xfer
  cli :: client_xfer
  data_net :: "bytes list"
  ack_net :: "bytes list"

definition add_packet :: "bytes option \<Rightarrow> bytes list \<Rightarrow> bytes list" where
  "add_packet p net = (case p of None \<Rightarrow> net | Some q \<Rightarrow> q # net)"

text \<open>A reply to a stray packet goes to its sender, not to the server.\<close>

inductive lstep :: "system \<Rightarrow> system \<Rightarrow> bool" where
  first: "next_data (srv y) = Inr (out, s') \<Longrightarrow> lstep y (y\<lparr>srv := s', data_net := add_packet out (data_net y)\<rparr>)"
| resend: "lstep y (y\<lparr>data_net := add_packet (server_timeout (srv y)) (data_net y)\<rparr>)"
| ack: "p \<in> set (ack_net y) \<Longrightarrow> parse_ack p = Some block \<Longrightarrow> server_turn block (srv y) = Inr (out, s') \<Longrightarrow>
    lstep y (y\<lparr>srv := s', data_net := add_packet out (data_net y)\<rparr>)"
| data: "p \<in> set (data_net y) \<Longrightarrow> client_on_data (server_id (cli y)) p (cli y) = ((reply, fin), c') \<Longrightarrow>
    lstep y (y\<lparr>cli := c', ack_net := add_packet reply (ack_net y)\<rparr>)"
| stray: "tid \<noteq> server_id (cli y) \<Longrightarrow> client_on_data tid p (cli y) = (act, c') \<Longrightarrow> lstep y (y\<lparr>cli := c'\<rparr>)"
| reack: "lstep y (y\<lparr>ack_net := add_packet (client_timeout (cli y)) (ack_net y)\<rparr>)"

inductive_cases lstepE: "lstep y z"

text \<open>The acknowledgement of block 0 is the client's answer to the server's OACK.\<close>

definition lock_start :: "bytes \<Rightarrow> nat \<Rightarrow> u16 \<Rightarrow> system" where
  "lock_start f b tid =
     \<lparr>srv = new_server_xfer f (int b), cli = new_client_xfer (int b) tid, data_net = [], ack_net = [build_ack 0]\<rparr>"

inductive lreach :: "bytes \<Rightarrow> nat \<Rightarrow> u16 \<Rightarrow> system \<Rightarrow> bool" for f b tid where
  start: "lreach f b tid (lock_start f b tid)"
| step: "lreach f b tid y \<Longrightarrow> lstep y z \<Longrightarrow> lreach f b tid z"

section \<open>Block numbers\<close>

lemma of_nat16_inj: "i < 65536 \<Longrightarrow> j < 65536 \<Longrightarrow> (of_nat i :: u16) = of_nat j \<longleftrightarrow> i = j"
  by (metis unat_of_nat16)

lemma of_nat16_le: "i < 65536 \<Longrightarrow> j < 65536 \<Longrightarrow> (of_nat i :: u16) \<le> of_nat j \<longleftrightarrow> i \<le> j"
  by (simp add: word_le_nat_alt unat_of_nat16)

lemma block_offset_of_nat:
  assumes "i + 1 < 65536" "blksize s = int b"
  shows "block_offset s (of_nat (i + 1)) = int (i * b)"
proof -
  have "uint (of_nat (i + 1) :: u16) = int (i + 1)" using assms(1) by (simp only: uint_nat unat_of_nat16)
  then show ?thesis by (simp add: block_offset_def assms(2))
qed

section \<open>The invariant\<close>

text \<open>\<open>k\<close> blocks are acknowledged at the server, \<open>m\<close> blocks are at the client.\<close>

definition server_at :: "bytes \<Rightarrow> nat \<Rightarrow> nat \<Rightarrow> nat \<Rightarrow> server_xfer \<Rightarrow> bool" where
  "server_at f b k m s \<longleftrightarrow> src s = f \<and> blksize s = int b \<and> next_block s = of_nat (k + 1) \<and> k < nblocks f b
     \<and> (sent s = None \<and> m = 0 \<or> sent s = Some (chunk f b k)) \<and> (sdone s \<longrightarrow> m = nblocks f b \<and> k + 1 = nblocks f b)"

definition client_at :: "bytes \<Rightarrow> nat \<Rightarrow> nat \<Rightarrow> client_xfer \<Rightarrow> bool" where
  "client_at f b m c \<longleftrightarrow> cblksize c = int b \<and> acked c = of_nat m \<and> m \<le> nblocks f b
     \<and> xdata c = take (m * b) f \<and> (cdone c \<longleftrightarrow> m = nblocks f b)"

definition data_packets :: "bytes \<Rightarrow> nat \<Rightarrow> nat \<Rightarrow> bytes set" where
  "data_packets f b k = (\<lambda>i. build_data (of_nat (i + 1)) (chunk f b i)) ` {..<k}"

definition ack_packets :: "nat \<Rightarrow> bytes set" where
  "ack_packets m = (\<lambda>j. build_ack (of_nat j)) ` {..m}"

definition data_at :: "bytes \<Rightarrow> nat \<Rightarrow> nat \<Rightarrow> bytes list \<Rightarrow> bool" where
  "data_at f b k net \<longleftrightarrow> set net \<subseteq> data_packets f b k"

definition acks_at :: "nat \<Rightarrow> bytes list \<Rightarrow> bool" where
  "acks_at m net \<longleftrightarrow> set net \<subseteq> ack_packets m"

definition sent_blocks :: "nat \<Rightarrow> server_xfer \<Rightarrow> nat" where
  "sent_blocks k s = (case sent s of None \<Rightarrow> k | Some _ \<Rightarrow> k + 1)"

definition lock_at :: "bytes \<Rightarrow> nat \<Rightarrow> nat \<Rightarrow> nat \<Rightarrow> system \<Rightarrow> bool" where
  "lock_at f b k m y \<longleftrightarrow> server_at f b k m (srv y) \<and> client_at f b m (cli y) \<and> cwindow (cli y) = 1
     \<and> k \<le> m \<and> m \<le> k + 1 \<and> data_at f b (sent_blocks k (srv y)) (data_net y) \<and> acks_at m (ack_net y)"

lemma add_packet_set: "set (add_packet p net) = set_option p \<union> set net"
  by (auto simp: add_packet_def split: option.splits)

lemma data_packetsI: "i < k \<Longrightarrow> build_data (of_nat (i + 1)) (chunk f b i) \<in> data_packets f b k"
  unfolding data_packets_def by (rule image_eqI [OF refl]) simp

lemma ack_packetsI: "j \<le> m \<Longrightarrow> build_ack (of_nat j) \<in> ack_packets m"
  unfolding ack_packets_def by (rule image_eqI [OF refl]) simp

lemma data_at_add:
  "data_at f b k net \<Longrightarrow> k \<le> k' \<Longrightarrow> set_option p \<subseteq> data_packets f b k' \<Longrightarrow> data_at f b k' (add_packet p net)"
  unfolding data_at_def add_packet_set
  using image_mono [of "{..<k}" "{..<k'}" "\<lambda>i. build_data (of_nat (i + 1)) (chunk f b i)"]
  by (simp add: data_packets_def)

lemma acks_at_add:
  "acks_at m net \<Longrightarrow> m \<le> m' \<Longrightarrow> set_option p \<subseteq> ack_packets m' \<Longrightarrow> acks_at m' (add_packet p net)"
  unfolding acks_at_def add_packet_set
  using image_mono [of "{..m}" "{..m'}" "\<lambda>j. build_ack (of_nat j)"]
  by (simp add: ack_packets_def)

lemma take_block_at:
  assumes "client_at f b m c" "m < nblocks f b" "0 < b" "d = chunk f b m" "block = of_nat (m + 1)"
  shows "client_at f b (m + 1) (take_block block d c)"
  using assms take_chunk [of m b f] chunk_short_iff [of b m f]
  by (auto simp: client_at_def take_block_def)

lemma server_at_done:
  assumes "server_at f b k m s" "m = nblocks f b" "k + 1 = nblocks f b"
  shows "server_at f b k m (s\<lparr>sdone := True\<rparr>)"
  using assms by (cases s) (simp only: server_at_def server_xfer.simps simp_thms)

text \<open>The files whose blocks can be numbered.\<close>

definition transfer_ok :: "bytes \<Rightarrow> nat \<Rightarrow> bool" where
  "transfer_ok f b \<longleftrightarrow> 0 < b \<and> nblocks f b \<le> 65535"

lemma block_pos: "transfer_ok f b \<Longrightarrow> 0 < b"
  and blocks_bound: "transfer_ok f b \<Longrightarrow> nblocks f b \<le> 65535"
  by (simp_all add: transfer_ok_def)

lemma next_data_at:
  assumes ok: "transfer_ok f b" and "server_at f b k m s" "\<not> sdone s"
  shows "next_data s = Inr (Some (build_data (of_nat (k + 1)) (chunk f b k)), s\<lparr>sent := Some (chunk f b k)\<rparr>)"
proof -
  have k: "k + 1 < 65536" using assms(2) blocks_bound [OF ok] by (simp add: server_at_def)
  have "block_offset s (next_block s) = int (k * b)"
    using block_offset_of_nat [OF k, of s b] assms(2) by (simp add: server_at_def)
  then show ?thesis
    using assms read_chunk [OF block_pos [OF ok]] by (simp add: next_data_def server_at_def)
qed

lemma server_turn_old:
  assumes ok: "transfer_ok f b" and "server_at f b k m s" "j \<noteq> k + 1" "j \<le> nblocks f b"
  shows "server_turn (of_nat j) s = (if sdone s then Inr (None, s) else next_data s)"
proof -
  have "k + 1 < 65536" "j < 65536" using assms blocks_bound [OF ok] by (simp_all add: server_at_def)
  then have "(of_nat j :: u16) \<noteq> next_block s"
    using assms(2,3) of_nat16_inj [of j "k + 1"] by (simp add: server_at_def)
  then show ?thesis by (simp add: server_turn_def on_ack_def)
qed

lemma server_turn_last:
  assumes ok: "transfer_ok f b" and "server_at f b k m s" "sent s = Some (chunk f b k)" "k + 1 = nblocks f b"
  shows "server_turn (of_nat (k + 1)) s = Inr (None, s\<lparr>sdone := True\<rparr>)"
proof -
  have "length (chunk f b k) < b" using chunk_last [OF block_pos [OF ok]] assms(4) by simp
  moreover have "next_block s = of_nat (k + 1)" "blksize s = int b" using assms(2) by (simp_all add: server_at_def)
  ultimately show ?thesis using assms(3) unfolding server_turn_def on_ack_def by simp
qed

lemma server_turn_next:
  assumes ok: "transfer_ok f b" and "server_at f b k m s" "sent s = Some (chunk f b k)" "k + 1 < nblocks f b" "m = k + 1"
  shows "server_turn (of_nat (k + 1)) s =
    Inr (Some (build_data (of_nat (k + 2)) (chunk f b (k + 1))), s\<lparr>next_block := of_nat (k + 2), sent := Some (chunk f b (k + 1))\<rparr>)"
proof -
  have len: "length (chunk f b k) = b" using chunk_full [OF block_pos [OF ok]] assms(4) by simp
  let ?s = "s\<lparr>next_block := of_nat (k + 2)\<rparr>"
  have nd: "\<not> sdone s" using assms(2,4) by (auto simp: server_at_def)
  have "server_turn (of_nat (k + 1)) s = next_data ?s"
    using assms(2,3) nd len by (simp add: server_turn_def on_ack_def server_at_def add.commute)
  also have "block_offset ?s (next_block ?s) = int ((k + 1) * b)"
    using block_offset_of_nat [of "k + 1" ?s b] assms(2,4) blocks_bound [OF ok] by (simp add: server_at_def)
  then have "next_data ?s = Inr (Some (build_data (of_nat (k + 2)) (chunk f b (k + 1))), ?s\<lparr>sent := Some (chunk f b (k + 1))\<rparr>)"
    using assms(2) nd read_chunk [OF block_pos [OF ok], of f "k + 1"] by (simp add: next_data_def server_at_def)
  finally show ?thesis by simp
qed

lemma client_new_block:
  assumes ok: "transfer_ok f b" and c: "client_at f b m c" "cwindow c = 1" and "m < nblocks f b"
  defines "c' \<equiv> take_block (of_nat (m + 1)) (chunk f b m) c"
  shows "client_on_data (server_id c) (build_data (of_nat (m + 1)) (chunk f b m)) c = ((Some (build_ack (of_nat (m + 1))), cdone c'), c')"
    and "client_at f b (m + 1) c'" and "cwindow c' = 1"
proof -
  show at: "client_at f b (m + 1) c'"
    unfolding c'_def by (rule take_block_at [OF c(1) assms(4) block_pos [OF ok] refl refl])
  show "cwindow c' = 1" using c by (simp add: c'_def take_block_def)
  have "of_nat (m + 1) = acked c + 1" using c(1) by (simp add: client_at_def)
  then show "client_on_data (server_id c) (build_data (of_nat (m + 1)) (chunk f b m)) c = ((Some (build_ack (of_nat (m + 1))), cdone c'), c')"
    unfolding client_on_data_def on_block_def c'_def using c(2) by (simp add: Let_def)
qed

lemma client_other_block:
  assumes ok: "transfer_ok f b" and c: "client_at f b m c" "cwindow c = 1" and i: "i < nblocks f b" "i \<noteq> m"
  shows "client_on_data (server_id c) (build_data (of_nat (i + 1)) (chunk f b i)) c =
    ((if i < m then Some (build_ack (of_nat (i + 1))) else None, False), c)"
proof -
  have bd: "m < 65536" "i + 1 < 65536" using c i blocks_bound [OF ok] by (simp_all add: client_at_def)
  then have "(of_nat (i + 1) :: u16) \<noteq> of_nat (m + 1)" using of_nat16_inj [of i m] i by simp
  moreover have "(of_nat (i + 1) :: u16) \<le> of_nat m \<longleftrightarrow> i < m" using of_nat16_le [of "i + 1" m] bd by (simp add: Suc_le_eq)
  ultimately show ?thesis using c by (simp add: client_on_data_def on_block_def client_at_def add.commute)
qed

section \<open>Every step keeps the invariant\<close>

definition lock_inv :: "bytes \<Rightarrow> nat \<Rightarrow> system \<Rightarrow> bool" where
  "lock_inv f b y \<longleftrightarrow> (\<exists>k m. lock_at f b k m y)"

lemma lock_inv_start: "transfer_ok f b \<Longrightarrow> lock_inv f b (lock_start f b tid)"
  unfolding lock_inv_def
  by (rule exI [of _ 0], rule exI [of _ 0])
     (simp add: lock_at_def lock_start_def server_at_def client_at_def new_server_xfer_def new_client_xfer_def
        data_at_def acks_at_def ack_packets_def transfer_ok_def nblocks_def)

lemma next_data_step:
  assumes ok: "transfer_ok f b" and y: "lock_at f b k m y" and nd: "\<not> sdone (srv y)" and "next_data (srv y) = Inr (out, s')"
  shows "lock_at f b k m (y\<lparr>srv := s', data_net := add_packet out (data_net y)\<rparr>)"
proof -
  have s: "server_at f b k m (srv y)" using y by (simp add: lock_at_def)
  have out: "out = Some (build_data (of_nat (k + 1)) (chunk f b k))" "s' = (srv y)\<lparr>sent := Some (chunk f b k)\<rparr>"
    using next_data_at [OF ok s nd] assms(4) by auto
  have "data_at f b (k + 1) (add_packet out (data_net y))"
    by (rule data_at_add [of f b "sent_blocks k (srv y)"])
       (use y data_packetsI [of k "k + 1" f b] in \<open>auto simp: lock_at_def sent_blocks_def out split: option.splits\<close>)
  moreover have "server_at f b k m s'" using s by (simp add: server_at_def out)
  ultimately show ?thesis using y by (simp add: lock_at_def sent_blocks_def out)
qed

lemma ack_step:
  assumes ok: "transfer_ok f b" and y: "lock_at f b k m y" and j: "j \<le> m"
    and turn: "server_turn (of_nat j) (srv y) = Inr (out, s')"
  shows "lock_inv f b (y\<lparr>srv := s', data_net := add_packet out (data_net y)\<rparr>)"
proof -
  have s: "server_at f b k m (srv y)" and m: "m \<le> nblocks f b" "k \<le> m" "m \<le> k + 1"
    using y by (simp_all add: lock_at_def client_at_def)
  have "k + 1 \<le> nblocks f b" using s by (simp add: server_at_def)
  then consider "j \<noteq> k + 1" "sdone (srv y)" | "j \<noteq> k + 1" "\<not> sdone (srv y)" | "j = k + 1" "k + 1 = nblocks f b"
    | "j = k + 1" "k + 1 < nblocks f b" by linarith
  then show ?thesis
  proof cases
    case 1
    then have "out = None" "s' = srv y" using server_turn_old [OF ok s] turn j m by auto
    then show ?thesis using y unfolding lock_inv_def by (auto simp: add_packet_def)
  next
    case 2
    then have "next_data (srv y) = Inr (out, s')" using server_turn_old [OF ok s, of j] turn j m by auto
    then show ?thesis using next_data_step [OF ok y] 2 unfolding lock_inv_def by blast
  next
    case 3
    then have st: "sent (srv y) = Some (chunk f b k)" and mk: "m = k + 1" using s j m by (auto simp: server_at_def)
    then have "out = None" "s' = (srv y)\<lparr>sdone := True\<rparr>" using server_turn_last [OF ok s st 3(2)] turn [unfolded 3(1)] by simp_all
    moreover from this have "server_at f b k m s'" using server_at_done [OF s] mk 3(2) by simp
    ultimately have "lock_at f b k m (y\<lparr>srv := s', data_net := add_packet out (data_net y)\<rparr>)"
      using y by (simp add: lock_at_def add_packet_def sent_blocks_def)
    then show ?thesis unfolding lock_inv_def by blast
  next
    case 4
    then have st: "sent (srv y) = Some (chunk f b k)" and mk: "m = k + 1" using s j m by (auto simp: server_at_def)
    have out: "out = Some (build_data (of_nat (k + 2)) (chunk f b (k + 1)))"
        "s' = (srv y)\<lparr>next_block := of_nat (k + 2), sent := Some (chunk f b (k + 1))\<rparr>"
      using server_turn_next [OF ok s st 4(2) mk] turn 4(1) by auto
    have "data_at f b (k + 2) (add_packet out (data_net y))"
      by (rule data_at_add [of f b "sent_blocks k (srv y)"])
         (use y data_packetsI [of "k + 1" "k + 2" f b] in \<open>auto simp: lock_at_def sent_blocks_def out add.commute split: option.splits\<close>)
    moreover have "server_at f b (k + 1) m s'" using s 4(2) mk by (auto simp: server_at_def out)
    ultimately have "lock_at f b (k + 1) m (y\<lparr>srv := s', data_net := add_packet out (data_net y)\<rparr>)"
      using y mk by (simp add: lock_at_def sent_blocks_def out)
    then show ?thesis unfolding lock_inv_def by blast
  qed
qed

lemma data_step:
  assumes ok: "transfer_ok f b" and y: "lock_at f b k m y" and i: "i < sent_blocks k (srv y)"
    and cl: "client_on_data (server_id (cli y)) (build_data (of_nat (i + 1)) (chunk f b i)) (cli y) = ((reply, fin), c')"
  shows "lock_inv f b (y\<lparr>cli := c', ack_net := add_packet reply (ack_net y)\<rparr>)"
proof -
  have s: "server_at f b k m (srv y)" and c: "client_at f b m (cli y)" "cwindow (cli y) = 1" and m: "k \<le> m" "m \<le> k + 1"
    using y by (simp_all add: lock_at_def)
  have ik: "i \<le> k" "i = k \<Longrightarrow> sent (srv y) = Some (chunk f b k)"
    using i s by (auto simp: sent_blocks_def server_at_def split: option.splits)
  have iN: "i < nblocks f b" using ik s by (simp add: server_at_def)
  show ?thesis
  proof (cases "i = m")
    case True
    then have mk: "m = k" "m < nblocks f b" using ik m iN by auto
    note new = client_new_block [OF ok c mk(2)]
    from new(1) cl True have r: "reply = Some (build_ack (of_nat (m + 1)))" "c' = take_block (of_nat (m + 1)) (chunk f b m) (cli y)"
      by auto
    have st: "sent (srv y) = Some (chunk f b k)" using ik True mk by simp
    have nd: "\<not> sdone (srv y)" using s mk by (auto simp: server_at_def)
    have "acks_at (m + 1) (add_packet reply (ack_net y))"
      by (rule acks_at_add [of m]) (use y ack_packetsI [of "m + 1" "m + 1"] in \<open>auto simp: lock_at_def r\<close>)
    moreover have "server_at f b k (m + 1) (srv y)" using s st nd by (simp add: server_at_def)
    ultimately have "lock_at f b k (m + 1) (y\<lparr>cli := c', ack_net := add_packet reply (ack_net y)\<rparr>)"
      using y new(2,3) mk by (simp add: lock_at_def r)
    then show ?thesis unfolding lock_inv_def by blast
  next
    case False
    from client_other_block [OF ok c iN False] cl
    have r: "reply = (if i < m then Some (build_ack (of_nat (i + 1))) else None)" "c' = cli y" by auto
    have "acks_at m (add_packet reply (ack_net y))"
      by (rule acks_at_add [of m]) (use y ack_packetsI [of "i + 1" m] in \<open>auto simp: lock_at_def r\<close>)
    then have "lock_at f b k m (y\<lparr>cli := c', ack_net := add_packet reply (ack_net y)\<rparr>)"
      using y by (simp add: lock_at_def r)
    then show ?thesis unfolding lock_inv_def by blast
  qed
qed

lemma resend_step:
  assumes y: "lock_at f b k m y"
  shows "lock_at f b k m (y\<lparr>data_net := add_packet (server_timeout (srv y)) (data_net y)\<rparr>)"
proof -
  have s: "server_at f b k m (srv y)" using y by (simp add: lock_at_def)
  have "data_at f b (sent_blocks k (srv y)) (add_packet (server_timeout (srv y)) (data_net y))"
    by (rule data_at_add [of f b "sent_blocks k (srv y)"])
       (use y s data_packetsI [of k "k + 1" f b] in \<open>auto simp: lock_at_def server_timeout_def server_at_def sent_blocks_def\<close>)
  then show ?thesis using y by (simp add: lock_at_def)
qed

lemma reack_step:
  assumes y: "lock_at f b k m y"
  shows "lock_at f b k m (y\<lparr>ack_net := add_packet (client_timeout (cli y)) (ack_net y)\<rparr>)"
proof -
  have "acks_at m (add_packet (client_timeout (cli y)) (ack_net y))"
    by (rule acks_at_add [of m])
       (use y ack_packetsI [of m m] in \<open>auto simp: lock_at_def client_timeout_def client_at_def\<close>)
  then show ?thesis using y by (simp add: lock_at_def)
qed

lemma lock_inv_step:
  assumes ok: "transfer_ok f b" and "lock_inv f b y" and "lstep y z"
  shows "lock_inv f b z"
proof -
  obtain k m where y: "lock_at f b k m y" using assms(2) by (auto simp: lock_inv_def)
  from assms(3) show ?thesis
  proof cases
    case (first out s')
    show ?thesis
    proof (cases "sdone (srv y)")
      case True
      then have "z = y" using first by (simp add: next_data_def add_packet_def)
      then show ?thesis using assms(2) by simp
    next
      case False
      then show ?thesis using next_data_step [OF ok y] first unfolding lock_inv_def by blast
    qed
  next
    case resend
    then show ?thesis using resend_step [OF y] unfolding lock_inv_def by blast
  next
    case (ack p block out s')
    then obtain j where "j \<le> m" "p = build_ack (of_nat j)" using y by (auto simp: lock_at_def acks_at_def ack_packets_def)
    then show ?thesis using ack_step [OF ok y, of j] ack by simp
  next
    case (data p reply fin c')
    then obtain i where "i < sent_blocks k (srv y)" "p = build_data (of_nat (i + 1)) (chunk f b i)"
      using y by (auto simp: lock_at_def data_at_def data_packets_def)
    then show ?thesis using data_step [OF ok y, of i reply fin c'] data by simp
  next
    case (stray tid p act c')
    then have "z = y" by (auto simp: client_on_data_def)
    then show ?thesis using assms(2) by simp
  next
    case reack
    then show ?thesis using reack_step [OF y] unfolding lock_inv_def by blast
  qed
qed

lemma lock_inv_reach: "lreach f b tid y \<Longrightarrow> transfer_ok f b \<Longrightarrow> lock_inv f b y"
  by (induction rule: lreach.induct) (auto intro: lock_inv_start lock_inv_step)

section \<open>Rounds\<close>

text \<open>
  One exchange without loss: the server sends its current block (again), the client answers and
  the server takes the answer.  A round is a few steps of the system.
\<close>

definition current_block :: "server_xfer \<Rightarrow> (bytes option \<times> server_xfer) res" where
  "current_block s = (if sent s = None then next_data s else Inr (server_timeout s, s))"

definition lock_round :: "system \<Rightarrow> system res" where
  "lock_round y =
     sbind (current_block (srv y)) (\<lambda>(out, s1).
       (case out of
          None \<Rightarrow> Inr y
        | Some p \<Rightarrow>
            (case client_on_data (server_id (cli y)) p (cli y) of ((reply, fin), c1) \<Rightarrow>
               (case Option.bind reply parse_ack of
                  None \<Rightarrow> Inr y
                | Some block \<Rightarrow>
                    sbind (server_turn block s1) (\<lambda>(out2, s2).
                      Inr (y\<lparr>srv := s2, cli := c1, data_net := add_packet out2 (add_packet out (data_net y)),
                             ack_net := add_packet reply (ack_net y)\<rparr>))))))"

fun rounds :: "nat \<Rightarrow> system \<Rightarrow> system res" where
  "rounds 0 y = Inr y"
| "rounds (Suc n) y = sbind (lock_round y) (rounds n)"

lemma current_block_at:
  assumes ok: "transfer_ok f b" and s: "server_at f b k m s" and nd: "\<not> sdone s"
  shows "current_block s = Inr (Some (build_data (of_nat (k + 1)) (chunk f b k)), s\<lparr>sent := Some (chunk f b k)\<rparr>)"
proof (cases "sent s")
  case None
  then show ?thesis using next_data_at [OF ok s nd] by (simp add: current_block_def)
next
  case (Some d)
  then have "d = chunk f b k" using s by (auto simp: server_at_def)
  with Some show ?thesis using s nd by (simp add: current_block_def server_timeout_def server_at_def)
qed

lemma current_block_step:
  assumes "current_block (srv y) = Inr (out, s1)"
  shows "lstep y (y\<lparr>srv := s1, data_net := add_packet out (data_net y)\<rparr>)"
proof (cases "sent (srv y) = None")
  case True
  then show ?thesis using assms by (auto simp: current_block_def intro: lstep.first)
next
  case False
  then have "out = server_timeout (srv y)" "y\<lparr>srv := s1, data_net := add_packet out (data_net y)\<rparr> = y\<lparr>data_net := add_packet out (data_net y)\<rparr>"
    using assms by (auto simp: current_block_def)
  then show ?thesis using lstep.resend [of y] by simp
qed

lemma round_steps: "lock_round y = Inr z \<Longrightarrow> lstep\<^sup>*\<^sup>* y z"
proof -
  assume r: "lock_round y = Inr z"
  obtain out s1 where cb: "current_block (srv y) = Inr (out, s1)"
    using r by (auto simp: lock_round_def elim!: sbindE)
  show ?thesis
  proof (cases "z = y")
    case False
    obtain p where p: "out = Some p" using r cb False by (cases out) (auto simp: lock_round_def)
    obtain reply fin c1 where cl: "client_on_data (server_id (cli y)) p (cli y) = ((reply, fin), c1)"
      by (metis prod.collapse)
    obtain a block where a: "reply = Some a" "parse_ack a = Some block"
      using r cb p cl False by (auto simp: lock_round_def split: option.splits bind_splits)
    obtain out2 s2 where t: "server_turn block s1 = Inr (out2, s2)"
        "z = y\<lparr>srv := s2, cli := c1, data_net := add_packet out2 (add_packet out (data_net y)), ack_net := add_packet reply (ack_net y)\<rparr>"
      using r cb p cl a by (auto simp: lock_round_def elim!: sbindE)
    let ?y1 = "y\<lparr>srv := s1, data_net := add_packet out (data_net y)\<rparr>"
    let ?y2 = "?y1\<lparr>cli := c1, ack_net := add_packet reply (ack_net y)\<rparr>"
    have 1: "lstep y ?y1" using cb by (rule current_block_step)
    have "lstep ?y1 (?y1\<lparr>cli := c1, ack_net := add_packet reply (ack_net ?y1)\<rparr>)"
      by (rule lstep.data [of p]) (use p cl in \<open>simp_all add: add_packet_def\<close>)
    then have 2: "lstep ?y1 ?y2" by simp
    have "lstep ?y2 (?y2\<lparr>srv := s2, data_net := add_packet out2 (data_net ?y2)\<rparr>)"
      by (rule lstep.ack [of a _ block]) (use a t in \<open>simp_all add: add_packet_def\<close>)
    moreover have "?y2\<lparr>srv := s2, data_net := add_packet out2 (data_net ?y2)\<rparr> = z" using t(2) by simp
    ultimately show ?thesis using 1 2 by (metis converse_rtranclp_into_rtranclp rtranclp.rtrancl_refl)
  qed simp
qed

lemma round_done: "sdone (srv y) \<Longrightarrow> lock_round y = Inr y"
  by (cases "sent (srv y)") (simp_all add: lock_round_def current_block_def next_data_def server_timeout_def)

text \<open>A round acknowledges one more block, or finishes.\<close>

lemma round_progress:
  assumes ok: "transfer_ok f b" and y: "lock_at f b k m y" and nd: "\<not> sdone (srv y)"
  shows "\<exists>z. lock_round y = Inr z \<and> (sdone (srv z) \<or> (\<exists>m'. lock_at f b (k + 1) m' z))"
proof -
  have s: "server_at f b k m (srv y)" and c: "client_at f b m (cli y)" "cwindow (cli y) = 1" and m: "k \<le> m" "m \<le> k + 1"
    using y by (simp_all add: lock_at_def)
  let ?s1 = "(srv y)\<lparr>sent := Some (chunk f b k)\<rparr>"
  let ?p = "build_data (of_nat (k + 1)) (chunk f b k)"
  have k: "k < nblocks f b" using s by (simp add: server_at_def)
  obtain fin c1 where cl: "client_on_data (server_id (cli y)) ?p (cli y) = ((Some (build_ack (of_nat (k + 1))), fin), c1)"
      and c1: "client_at f b (k + 1) c1" "cwindow c1 = 1"
  proof (cases "m = k")
    case True
    then show thesis using that client_new_block [OF ok c] k by blast
  next
    case False
    then have mk: "m = k + 1" using m by linarith
    then show thesis using that [of False "cli y"] client_other_block [OF ok c k] c by (simp del: of_nat_add)
  qed
  have s1: "server_at f b k (k + 1) ?s1" using s nd by (simp add: server_at_def)
  show ?thesis
  proof (cases "k + 1 = nblocks f b")
    case True
    then have "server_turn (of_nat (k + 1)) ?s1 = Inr (None, ?s1\<lparr>sdone := True\<rparr>)"
      by (intro server_turn_last [OF ok s1]) simp_all
    then show ?thesis
      using current_block_at [OF ok s nd] cl by (simp add: lock_round_def del: of_nat_add)
  next
    case False
    then have k1: "k + 1 < nblocks f b" using k by simp
    let ?s2 = "?s1\<lparr>next_block := of_nat (k + 2), sent := Some (chunk f b (k + 1))\<rparr>"
    let ?q = "build_data (of_nat (k + 2)) (chunk f b (k + 1))"
    let ?z = "y\<lparr>srv := ?s2, cli := c1, data_net := add_packet (Some ?q) (add_packet (Some ?p) (data_net y)),
        ack_net := add_packet (Some (build_ack (of_nat (k + 1)))) (ack_net y)\<rparr>"
    have "server_turn (of_nat (k + 1)) ?s1 = Inr (Some ?q, ?s2)"
      by (intro server_turn_next [OF ok s1]) (use k1 in simp_all)
    then have "lock_round y = Inr ?z"
      using current_block_at [OF ok s nd] cl by (simp add: lock_round_def del: of_nat_add)
    moreover have "server_at f b (k + 1) (k + 1) ?s2" using s nd k1 by (simp add: server_at_def)
    moreover have "data_at f b (k + 2) (add_packet (Some ?q) (add_packet (Some ?p) (data_net y)))"
    proof (rule data_at_add [OF data_at_add])
      show "data_at f b (sent_blocks k (srv y)) (data_net y)" using y by (simp add: lock_at_def)
    qed (use data_packetsI [of "k + 1" "k + 2" f b] data_packetsI [of k "k + 2" f b] in
        \<open>auto simp: sent_blocks_def add.commute split: option.split\<close>)
    moreover have "acks_at (k + 1) (add_packet (Some (build_ack (of_nat (k + 1)))) (ack_net y))"
      by (rule acks_at_add [of m]) (use y m ack_packetsI [of "k + 1" "k + 1"] in \<open>auto simp: lock_at_def\<close>)
    ultimately have "lock_at f b (k + 1) (k + 1) ?z" using c1 by (simp add: lock_at_def sent_blocks_def)
    with \<open>lock_round y = Inr ?z\<close> show ?thesis by blast
  qed
qed

lemma rounds_done: "sdone (srv y) \<Longrightarrow> rounds n y = Inr y"
  by (induction n) (simp_all add: round_done)

lemma rounds_finish:
  "transfer_ok f b \<Longrightarrow> lock_at f b k m y \<Longrightarrow> nblocks f b \<le> k + n \<Longrightarrow> \<exists>z. rounds n y = Inr z \<and> sdone (srv z)"
proof (induction n arbitrary: k m y)
  case 0
  then show ?case by (simp add: lock_at_def server_at_def)
next
  case (Suc n)
  show ?case
  proof (cases "sdone (srv y)")
    case True
    then show ?thesis using rounds_done [of y "Suc n"] by blast
  next
    case False
    then obtain z where z: "lock_round y = Inr z" "sdone (srv z) \<or> (\<exists>m'. lock_at f b (k + 1) m' z)"
      using round_progress [OF Suc.prems(1,2)] by blast
    then show ?thesis
      using Suc.IH [OF Suc.prems(1), of "k + 1" _ z] Suc.prems(3) rounds_done [of z n] by auto
  qed
qed

lemma rounds_steps: "rounds n y = Inr z \<Longrightarrow> lstep\<^sup>*\<^sup>* y z"
  by (induction n arbitrary: y) (auto elim!: sbindE dest: round_steps intro: rtranclp_trans)

lemma lreach_steps: "lstep\<^sup>*\<^sup>* y z \<Longrightarrow> lreach f b tid y \<Longrightarrow> lreach f b tid z"
  by (induction rule: rtranclp_induct) (auto intro: lreach.step)

end
