(* ===== verification/Tftp_Windowed.thy ===== *)
theory Tftp_Windowed
  imports Tftp_Lockstep
begin

text \<open>
  The windowed transfer (RFC 7440), the one the client's own options ask for: the server sends a
  window of blocks, the client acknowledges the last one in sequence, and a lower
  acknowledgement rewinds the server.  The results are those of the lock-step transfer.
\<close>

section \<open>The system\<close>

text \<open>The core of \<^verbatim>\<open>ServerLoop.OnACKWindow\<close>.\<close>

definition window_turn :: "u16 \<Rightarrow> server_xfer \<Rightarrow> (bytes list \<times> server_xfer) res" where
  "window_turn block s = (let (fin, s1) = on_window_ack block s in if fin then Inr ([], s1) else next_window s1)"

inductive wstep :: "system \<Rightarrow> system \<Rightarrow> bool" where
  send: "next_window (srv y) = Inr (ps, s') \<Longrightarrow> wstep y (y\<lparr>srv := s', data_net := ps @ data_net y\<rparr>)"
| ack: "p \<in> set (ack_net y) \<Longrightarrow> parse_ack p = Some block \<Longrightarrow> window_turn block (srv y) = Inr (ps, s') \<Longrightarrow>
    wstep y (y\<lparr>srv := s', data_net := ps @ data_net y\<rparr>)"
| data: "p \<in> set (data_net y) \<Longrightarrow> client_on_data (server_id (cli y)) p (cli y) = ((reply, fin), c') \<Longrightarrow>
    wstep y (y\<lparr>cli := c', ack_net := add_packet reply (ack_net y)\<rparr>)"
| stray: "tid \<noteq> server_id (cli y) \<Longrightarrow> client_on_data tid p (cli y) = (act, c') \<Longrightarrow> wstep y (y\<lparr>cli := c'\<rparr>)"
| reack: "wstep y (y\<lparr>ack_net := add_packet (client_timeout (cli y)) (ack_net y)\<rparr>)"

definition window_start :: "bytes \<Rightarrow> nat \<Rightarrow> nat \<Rightarrow> u16 \<Rightarrow> system" where
  "window_start f b w tid =
     \<lparr>srv = set_windowsize (int w) (new_server_xfer f (int b)),
      cli = set_client_window (int w) (new_client_xfer (int b) tid), data_net = [], ack_net = [build_ack 0]\<rparr>"

inductive wreach :: "bytes \<Rightarrow> nat \<Rightarrow> nat \<Rightarrow> u16 \<Rightarrow> system \<Rightarrow> bool" for f b w tid where
  start: "wreach f b w tid (window_start f b w tid)"
| step: "wreach f b w tid y \<Longrightarrow> wstep y z \<Longrightarrow> wreach f b w tid z"

section \<open>The invariant\<close>

definition window_ok :: "bytes \<Rightarrow> nat \<Rightarrow> nat \<Rightarrow> bool" where
  "window_ok f b w \<longleftrightarrow> 0 < b \<and> 1 < w \<and> nblocks f b + w \<le> 65535"

text \<open>\<open>a\<close> blocks are acknowledged at the server, \<open>h\<close> blocks were sent, \<open>m\<close> are at the client.\<close>

definition wserver_at :: "bytes \<Rightarrow> nat \<Rightarrow> nat \<Rightarrow> nat \<Rightarrow> nat \<Rightarrow> nat \<Rightarrow> server_xfer \<Rightarrow> bool" where
  "wserver_at f b w a h m s \<longleftrightarrow> src s = f \<and> blksize s = int b \<and> windowsize s = int w \<and> win_acked s = of_nat a
     \<and> a < nblocks f b \<and> a \<le> m \<and> m \<le> h \<and> h \<le> nblocks f b \<and> h \<le> a + w
     \<and> (win_final s = 0 \<and> h < nblocks f b \<or> win_final s = of_nat (nblocks f b))
     \<and> (sdone s \<longrightarrow> m = nblocks f b)"

definition wclient_at :: "bytes \<Rightarrow> nat \<Rightarrow> nat \<Rightarrow> nat \<Rightarrow> client_xfer \<Rightarrow> bool" where
  "wclient_at f b w m c \<longleftrightarrow> client_at f b m c \<and> cwindow c = int w \<and> 0 \<le> win_count c \<and> win_count c < int w"

definition window_at :: "bytes \<Rightarrow> nat \<Rightarrow> nat \<Rightarrow> nat \<Rightarrow> nat \<Rightarrow> nat \<Rightarrow> system \<Rightarrow> bool" where
  "window_at f b w a h m y \<longleftrightarrow> wserver_at f b w a h m (srv y) \<and> wclient_at f b w m (cli y)
     \<and> data_at f b h (data_net y) \<and> acks_at m (ack_net y)"

lemma data_at_append: "data_at f b k net \<Longrightarrow> k \<le> k' \<Longrightarrow> set ps \<subseteq> data_packets f b k' \<Longrightarrow> data_at f b k' (ps @ net)"
  unfolding data_at_def
  using image_mono [of "{..<k}" "{..<k'}" "\<lambda>i. build_data (of_nat (i + 1)) (chunk f b i)"]
  by (simp add: data_packets_def)

text \<open>The window of the blocks \<open>i, \<dots>, e - 1\<close>.\<close>

definition blocks_from :: "bytes \<Rightarrow> nat \<Rightarrow> nat \<Rightarrow> nat \<Rightarrow> bytes list" where
  "blocks_from f b i e = map (\<lambda>j. build_data (of_nat (j + 1)) (chunk f b j)) [i..<e]"

lemma blocks_from_packets: "e \<le> h \<Longrightarrow> set (blocks_from f b i e) \<subseteq> data_packets f b h"
  by (auto simp: blocks_from_def data_packets_def)

lemma window_blocks_at:
  assumes ok: "window_ok f b w"
  shows "src s = f \<Longrightarrow> blksize s = int b \<Longrightarrow> win_acked s = of_nat a \<Longrightarrow> a + i < nblocks f b \<Longrightarrow>
    window_blocks k i s =
      Inr (blocks_from f b (a + i) (min (a + i + k) (nblocks f b)),
           if nblocks f b \<le> a + i + k then s\<lparr>win_final := of_nat (nblocks f b)\<rparr> else s)"
proof (induction k arbitrary: i)
  case 0
  then show ?case by (simp add: blocks_from_def)
next
  case (Suc k)
  have b: "0 < b" "a + i + 1 < 65536" using ok Suc.prems by (auto simp: window_ok_def)
  have blk: "win_acked s + of_nat i + 1 = of_nat (a + i + 1)" using Suc.prems by simp
  have "block_offset s (of_nat (a + i + 1)) = int ((a + i) * b)"
    by (rule block_offset_of_nat) (use b Suc.prems in simp_all)
  then have rd: "read_at (src s) (nat (blksize s)) (block_offset s (of_nat (a + i + 1))) = Inr (chunk f b (a + i))"
    using Suc.prems read_chunk [OF b(1), of f "a + i"] by simp
  show ?case
  proof (cases "a + i + 1 = nblocks f b")
    case True
    then have short: "length (chunk f b (a + i)) < b" using chunk_last [OF b(1), of "a + i" f] by simp
    have "blocks_from f b (a + i) (a + i + 1) = [build_data (of_nat (a + i + 1)) (chunk f b (a + i))]"
      by (simp add: blocks_from_def)
    then show ?thesis
      using rd short Suc.prems(2) True blk by (simp only: window_blocks.simps Let_def) simp
  next
    case False
    then have lt: "a + Suc i < nblocks f b" using Suc.prems by simp
    have full: "length (chunk f b (a + i)) = b" using chunk_full [OF b(1), of "a + i" f] lt by simp
    have ih: "window_blocks k (Suc i) s = Inr (blocks_from f b (a + Suc i) (min (a + Suc i + k) (nblocks f b)),
        if nblocks f b \<le> a + Suc i + k then s\<lparr>win_final := of_nat (nblocks f b)\<rparr> else s)"
      by (rule Suc.IH [OF Suc.prems(1-3) lt])
    have "a + i < min (a + Suc i + k) (nblocks f b)" using lt by simp
    then have "blocks_from f b (a + i) (min (a + Suc i + k) (nblocks f b)) =
        build_data (of_nat (a + i + 1)) (chunk f b (a + i)) # blocks_from f b (a + Suc i) (min (a + Suc i + k) (nblocks f b))"
      by (simp add: blocks_from_def upt_conv_Cons)
    then show ?thesis
      unfolding window_blocks.simps Let_def blk rd using full Suc.prems(2) ih by simp
  qed
qed

text \<open>Where the window ends, and the highest block sent after it.\<close>

abbreviation window_end :: "bytes \<Rightarrow> nat \<Rightarrow> nat \<Rightarrow> nat \<Rightarrow> nat" where
  "window_end f b w a \<equiv> min (a + w) (nblocks f b)"

lemma next_window_at:
  assumes ok: "window_ok f b w" and s: "wserver_at f b w a h m s" and nd: "\<not> sdone s"
  shows "\<exists>s'. next_window s = Inr (blocks_from f b a (window_end f b w a), s')
    \<and> wserver_at f b w a (max h (window_end f b w a)) m s' \<and> \<not> sdone s'"
proof -
  have w: "nat (if windowsize s < 1 then 1 else windowsize s) = w" using s ok by (simp add: wserver_at_def window_ok_def)
  have nw: "next_window s = Inr (blocks_from f b a (window_end f b w a),
      if nblocks f b \<le> a + w then s\<lparr>win_final := of_nat (nblocks f b)\<rparr> else s)"
    using window_blocks_at [OF ok, of s a 0 w] s nd unfolding next_window_def w by (simp add: wserver_at_def)
  have nz: "(of_nat (nblocks f b) :: u16) \<noteq> 0"
    using of_nat16_inj [of "nblocks f b" 0] ok by (simp add: window_ok_def nblocks_def)
  show ?thesis
    unfolding nw using s nd nz by (auto simp: wserver_at_def max_def)
qed

lemma window_ack_at:
  assumes ok: "window_ok f b w" and s: "wserver_at f b w a h m s" and j: "j \<le> m"
  obtains s' a' where "on_window_ack (of_nat j) s = (sdone s', s')" and "wserver_at f b w a' h m s'" and "a \<le> a'"
    and "\<not> sdone s \<Longrightarrow> a < j \<Longrightarrow> j \<le> a + w \<Longrightarrow> sdone s' \<or> a < a'" and "j = nblocks f b \<Longrightarrow> sdone s'"
proof -
  have bd: "j < 65536" "nblocks f b < 65536" "a < 65536" "a + w < 65536"
    using s j ok by (auto simp: wserver_at_def window_ok_def)
  have nz: "(of_nat (nblocks f b) :: u16) \<noteq> 0"
    using of_nat16_inj [of "nblocks f b" 0] ok by (simp add: window_ok_def nblocks_def)
  have sum: "(of_nat a :: u16) + of_int (int w) = of_nat (a + w)" by simp
  show thesis
  proof (cases "sdone s")
    case True
    then show thesis using that [of s a] s by (simp add: on_window_ack_def)
  next
    case nd: False
    show thesis
    proof (cases "win_final s \<noteq> 0 \<and> of_nat j = win_final s")
      case True
      then have "j = nblocks f b" using s nz bd of_nat16_inj [of j "nblocks f b"] by (auto simp: wserver_at_def)
      then have "wserver_at f b w a h m (s\<lparr>sdone := True\<rparr>)" using s j by (auto simp: wserver_at_def)
      then show thesis using that [of "s\<lparr>sdone := True\<rparr>" a] True nd by (simp add: on_window_ack_def)
    next
      case False
      have jn: "j \<noteq> nblocks f b" using False s nz j by (auto simp: wserver_at_def)
      then have jl: "j < nblocks f b" using s j by (auto simp: wserver_at_def)
      define mx where "mx = (if win_final s \<noteq> 0 \<and> win_final s < win_acked s + of_int (windowsize s)
        then win_final s else win_acked s + of_int (windowsize s))"
      have r: "on_window_ack (of_nat j) s =
          (if of_nat j < win_acked s \<or> of_nat j > mx then (False, s) else (False, s\<lparr>win_acked := of_nat j\<rparr>))"
        using nd False by (simp only: on_window_ack_def mx_def Let_def if_False)
      have mx: "of_nat j \<le> mx" if "j \<le> a + w"
      proof -
        have "(of_nat j :: u16) \<le> of_nat (a + w)" using that bd of_nat16_le [of j "a + w"] by simp
        moreover have "(of_nat j :: u16) \<le> of_nat (nblocks f b)" using jl bd of_nat16_le [of j "nblocks f b"] by simp
        ultimately show ?thesis using s sum by (auto simp: mx_def wserver_at_def simp del: of_nat_add)
      qed
      show thesis
      proof (cases "of_nat j < win_acked s \<or> of_nat j > mx")
        case True
        have "\<not> (a < j \<and> j \<le> a + w)"
          using True mx s bd of_nat16_le [of a j] by (auto simp: wserver_at_def not_le [symmetric])
        then show thesis using that [of s a] r True s nd jn by simp
      next
        case False
        then have aj: "a \<le> j" using s bd of_nat16_le [of a j] by (simp add: wserver_at_def not_less)
        have "wserver_at f b w j h m (s\<lparr>win_acked := of_nat j\<rparr>)" using s j jl nd aj unfolding wserver_at_def by auto
        then show thesis using that [of "s\<lparr>win_acked := of_nat j\<rparr>" j] r False nd aj jn by simp
      qed
    qed
  qed
qed

section \<open>The client in a window\<close>

lemma client_new_windowed:
  assumes ok: "window_ok f b w" and c: "wclient_at f b w m c" and m: "m < nblocks f b"
  obtains reply fin c' where
    "client_on_data (server_id c) (build_data (of_nat (m + 1)) (chunk f b m)) c = ((reply, fin), c')"
    and "wclient_at f b w (m + 1) c'" and "server_id c' = server_id c"
    and "reply = (if m + 1 = nblocks f b \<or> int w \<le> win_count c + 1 then Some (build_ack (of_nat (m + 1))) else None)"
    and "win_count c' = (if reply = None then win_count c + 1 else 0)"
proof -
  have b: "0 < b" "1 < w" using ok by (simp_all add: window_ok_def)
  let ?c1 = "take_block (of_nat (m + 1)) (chunk f b m) c"
  let ?c2 = "?c1\<lparr>win_count := win_count c + 1\<rparr>"
  have at: "client_at f b (m + 1) ?c1"
    by (rule take_block_at [OF _ m b(1) refl refl]) (use c in \<open>simp add: wclient_at_def\<close>)
  have fin: "cdone ?c1 \<longleftrightarrow> m + 1 = nblocks f b" using at by (simp add: client_at_def)
  have k: "of_nat (m + 1) = acked c + 1" "cwindow c = int w" "acked ?c1 = of_nat (m + 1)" "cwindow ?c1 = int w"
    using c by (simp_all add: wclient_at_def client_at_def take_block_def)
  have r: "client_on_data (server_id c) (build_data (of_nat (m + 1)) (chunk f b m)) c =
      (if m + 1 = nblocks f b \<or> int w \<le> win_count c + 1
       then ((Some (build_ack (of_nat (m + 1))), cdone ?c1), ?c2\<lparr>win_count := 0\<rparr>) else ((None, False), ?c2))"
    unfolding client_on_data_def on_data_windowed_def using b(2) k fin by (simp add: Let_def del: of_nat_add)
  have upd: "client_at f b (m + 1) (?c1\<lparr>win_count := n\<rparr>)" for n using at by (simp add: client_at_def)
  have sid: "server_id ?c1 = server_id c" by (simp add: take_block_def)
  show thesis
  proof (cases "m + 1 = nblocks f b \<or> int w \<le> win_count c + 1")
    case True
    then show thesis
      using that [of "Some (build_ack (of_nat (m + 1)))" "cdone ?c1" "?c2\<lparr>win_count := 0\<rparr>"] r upd sid b k
      by (simp add: wclient_at_def del: of_nat_add)
  next
    case False
    then show thesis
      using that [of None False ?c2] r upd sid k c by (simp add: wclient_at_def del: of_nat_add)
  qed
qed

lemma client_other_windowed:
  assumes ok: "window_ok f b w" and c: "wclient_at f b w m c" and i: "i < nblocks f b" "i \<noteq> m"
  shows "client_on_data (server_id c) (build_data (of_nat (i + 1)) (chunk f b i)) c =
    ((Some (build_ack (of_nat m)), False), c\<lparr>win_count := 0\<rparr>)"
proof -
  have bd: "m < 65536" "i < 65536" "1 < w" using c i ok by (simp_all add: wclient_at_def client_at_def window_ok_def)
  then have "(of_nat (i + 1) :: u16) \<noteq> of_nat (m + 1)" using of_nat16_inj [of i m] i by simp
  then show ?thesis
    using c bd by (simp add: client_on_data_def on_data_windowed_def wclient_at_def client_at_def add.commute)
qed

lemma wclient_reset: "wclient_at f b w m c \<Longrightarrow> 0 < w \<Longrightarrow> wclient_at f b w m (c\<lparr>win_count := 0\<rparr>)"
  by (simp add: wclient_at_def client_at_def)

section \<open>Every step keeps the invariant\<close>

definition window_inv :: "bytes \<Rightarrow> nat \<Rightarrow> nat \<Rightarrow> system \<Rightarrow> bool" where
  "window_inv f b w y \<longleftrightarrow> (\<exists>a h m. window_at f b w a h m y)"

lemma window_inv_start: "window_ok f b w \<Longrightarrow> window_inv f b w (window_start f b w tid)"
  unfolding window_inv_def
  by (rule exI [of _ 0], rule exI [of _ 0], rule exI [of _ 0])
     (simp add: window_at_def window_start_def wserver_at_def wclient_at_def client_at_def new_server_xfer_def
        new_client_xfer_def set_windowsize_def set_client_window_def data_at_def acks_at_def ack_packets_def
        window_ok_def nblocks_def)

lemma wserver_sends:
  assumes ok: "window_ok f b w" and s: "wserver_at f b w a h m s" and "next_window s = Inr (ps, s')"
  obtains h' where "wserver_at f b w a h' m s'" and "h \<le> h'" and "set ps \<subseteq> data_packets f b h'"
proof (cases "sdone s")
  case True
  then show thesis using assms that [of h] by (simp add: next_window_def)
next
  case False
  then show thesis
    using next_window_at [OF ok s False] assms(3) blocks_from_packets [of "window_end f b w a" "max h (window_end f b w a)" f b a]
    by (intro that [of "max h (window_end f b w a)"]) auto
qed

lemma wserver_turns:
  assumes ok: "window_ok f b w" and s: "wserver_at f b w a h m s" and j: "j \<le> m"
    and t: "window_turn (of_nat j) s = Inr (ps, s')"
  obtains a' h' where "wserver_at f b w a' h' m s'" and "h \<le> h'" and "set ps \<subseteq> data_packets f b h'"
proof -
  obtain s1 a1 where ack: "on_window_ack (of_nat j) s = (sdone s1, s1)" and s1: "wserver_at f b w a1 h m s1"
    using window_ack_at [OF ok s j] by blast
  show thesis
  proof (cases "sdone s1")
    case True
    then show thesis using that [of a1 h] t ack s1 by (simp add: window_turn_def)
  next
    case False
    then have "next_window s1 = Inr (ps, s')" using t ack by (simp add: window_turn_def)
    then show thesis using wserver_sends [OF ok s1] that by blast
  qed
qed

lemma wserver_hears: "wserver_at f b w a h m s \<Longrightarrow> m < h \<Longrightarrow> wserver_at f b w a h (m + 1) s"
  by (auto simp: wserver_at_def)

lemma window_inv_step:
  assumes ok: "window_ok f b w" and "window_inv f b w y" and "wstep y z"
  shows "window_inv f b w z"
proof -
  obtain a h m where y: "window_at f b w a h m y" using assms(2) by (auto simp: window_inv_def)
  then have s: "wserver_at f b w a h m (srv y)" and c: "wclient_at f b w m (cli y)"
      and d: "data_at f b h (data_net y)" and ak: "acks_at m (ack_net y)"
    by (simp_all add: window_at_def)
  from assms(3) show ?thesis
  proof cases
    case (send ps s')
    from wserver_sends [OF ok s send(2)] obtain h' where
      "wserver_at f b w a h' m s'" "h \<le> h'" "set ps \<subseteq> data_packets f b h'" .
    then have "window_at f b w a h' m z" using y send(1) data_at_append [OF d] by (simp add: window_at_def)
    then show ?thesis unfolding window_inv_def by blast
  next
    case (ack p block ps s')
    then obtain j where "j \<le> m" "p = build_ack (of_nat j)" using ak by (auto simp: acks_at_def ack_packets_def)
    then obtain a' h' where "wserver_at f b w a' h' m s'" "h \<le> h'" "set ps \<subseteq> data_packets f b h'"
      using wserver_turns [OF ok s, of j ps s'] ack by auto
    then have "window_at f b w a' h' m z" using y ack(1) data_at_append [OF d] by (simp add: window_at_def)
    then show ?thesis unfolding window_inv_def by blast
  next
    case (data p reply fin c')
    then obtain i where i: "i < h" "p = build_data (of_nat (i + 1)) (chunk f b i)"
      using d by (auto simp: data_at_def data_packets_def)
    have iN: "i < nblocks f b" using i s by (simp add: wserver_at_def)
    show ?thesis
    proof (cases "i = m")
      case True
      obtain reply' fin' c'' where
        n: "client_on_data (server_id (cli y)) (build_data (of_nat (m + 1)) (chunk f b m)) (cli y) = ((reply', fin'), c'')"
          "wclient_at f b w (m + 1) c''" "set_option reply' \<subseteq> {build_ack (of_nat (m + 1))}"
        using client_new_windowed [OF ok c] iN True
        by (metis (no_types, lifting) empty_subsetI option.set(1) option.set(2) order_refl)
      then have r: "reply = reply'" "c' = c''" using data i True by auto
      have "acks_at (m + 1) (add_packet reply (ack_net y))"
        by (rule acks_at_add [OF ak]) (use n(3) ack_packetsI [of "m + 1" "m + 1"] r in auto)
      moreover have "wserver_at f b w a h (m + 1) (srv y)" using wserver_hears [OF s] i True by simp
      ultimately have "window_at f b w a h (m + 1) z" using y data(1) n(2) r by (simp add: window_at_def)
      then show ?thesis unfolding window_inv_def by blast
    next
      case False
      then have r: "reply = Some (build_ack (of_nat m))" "c' = (cli y)\<lparr>win_count := 0\<rparr>"
        using client_other_windowed [OF ok c iN] data i by auto
      have "acks_at m (add_packet reply (ack_net y))"
        by (rule acks_at_add [OF ak order_refl]) (use ack_packetsI [of m m] r in auto)
      then have "window_at f b w a h m z"
        using y data(1) wclient_reset [OF c] ok r by (simp add: window_at_def window_ok_def)
      then show ?thesis unfolding window_inv_def by blast
    qed
  next
    case (stray tid p act c')
    then have "z = y" by (auto simp: client_on_data_def)
    then show ?thesis using assms(2) by simp
  next
    case reack
    have "acks_at m (add_packet (client_timeout (cli y)) (ack_net y))"
      by (rule acks_at_add [OF ak order_refl])
         (use c ack_packetsI [of m m] in \<open>auto simp: client_timeout_def wclient_at_def client_at_def\<close>)
    then have "window_at f b w a h m z" using y reack by (simp add: window_at_def)
    then show ?thesis unfolding window_inv_def by blast
  qed
qed

lemma window_inv_reach: "wreach f b w tid y \<Longrightarrow> window_ok f b w \<Longrightarrow> window_inv f b w y"
  by (induction rule: wreach.induct) (auto intro: window_inv_start window_inv_step)

section \<open>Rounds\<close>

text \<open>
  One exchange without loss: the server sends its window, the client takes the blocks in order
  and the server hears the client's last acknowledgement.
\<close>

fun client_batch :: "bytes list \<Rightarrow> client_xfer \<Rightarrow> bytes list \<times> client_xfer" where
  "client_batch [] c = ([], c)"
| "client_batch (p # ps) c =
     (case client_on_data (server_id c) p c of ((reply, fin), c1) \<Rightarrow>
        (case client_batch ps c1 of (rs, c2) \<Rightarrow> (case reply of None \<Rightarrow> rs | Some r \<Rightarrow> r # rs, c2)))"

definition window_round :: "system \<Rightarrow> system res" where
  "window_round y =
     sbind (next_window (srv y)) (\<lambda>(ps, s1).
       (case client_batch ps (cli y) of (rs, c1) \<Rightarrow>
          let y1 = y\<lparr>srv := s1, data_net := ps @ data_net y, cli := c1, ack_net := rev rs @ ack_net y\<rparr> in
          (case (if rs = [] then None else parse_ack (last rs)) of
             None \<Rightarrow> Inr y1
           | Some block \<Rightarrow>
               sbind (window_turn block s1) (\<lambda>(ps2, s2). Inr (y1\<lparr>srv := s2, data_net := ps2 @ data_net y1\<rparr>)))))"

fun window_rounds :: "nat \<Rightarrow> system \<Rightarrow> system res" where
  "window_rounds 0 y = Inr y"
| "window_rounds (Suc n) y = sbind (window_round y) (window_rounds n)"

lemma batch_steps:
  "set ps \<subseteq> set (data_net y) \<Longrightarrow> client_batch ps (cli y) = (rs, c1) \<Longrightarrow>
    wstep\<^sup>*\<^sup>* y (y\<lparr>cli := c1, ack_net := rev rs @ ack_net y\<rparr>)"
proof (induction ps arbitrary: y rs)
  case (Cons p ps)
  obtain reply fin c' where cl: "client_on_data (server_id (cli y)) p (cli y) = ((reply, fin), c')"
    by (metis prod.collapse)
  let ?y = "y\<lparr>cli := c', ack_net := add_packet reply (ack_net y)\<rparr>"
  obtain rs' where b: "client_batch ps (cli ?y) = (rs', c1)" "rs = (case reply of None \<Rightarrow> rs' | Some r \<Rightarrow> r # rs')"
    using Cons.prems(2) cl by (auto split: prod.splits)
  have "wstep y ?y" by (rule wstep.data [of p]) (use Cons.prems(1) cl in auto)
  moreover have "wstep\<^sup>*\<^sup>* ?y (?y\<lparr>cli := c1, ack_net := rev rs' @ ack_net ?y\<rparr>)"
    by (rule Cons.IH) (use Cons.prems(1) b in auto)
  moreover have "?y\<lparr>cli := c1, ack_net := rev rs' @ ack_net ?y\<rparr> = y\<lparr>cli := c1, ack_net := rev rs @ ack_net y\<rparr>"
    using b(2) by (simp add: add_packet_def split: option.split)
  ultimately show ?case by (metis converse_rtranclp_into_rtranclp)
next
  case Nil
  then have "y\<lparr>cli := c1, ack_net := rev rs @ ack_net y\<rparr> = y" by (cases y) auto
  then show ?case by simp
qed

lemma window_round_steps:
  assumes "window_round y = Inr z"
  shows "wstep\<^sup>*\<^sup>* y z"
proof -
  obtain ps s1 where nw: "next_window (srv y) = Inr (ps, s1)"
    using assms by (auto simp: window_round_def elim!: sbindE)
  obtain rs c1 where cb: "client_batch ps (cli y) = (rs, c1)" by fastforce
  let ?y0 = "y\<lparr>srv := s1, data_net := ps @ data_net y\<rparr>"
  let ?y1 = "y\<lparr>srv := s1, data_net := ps @ data_net y, cli := c1, ack_net := rev rs @ ack_net y\<rparr>"
  have "wstep y ?y0" using nw by (rule wstep.send)
  moreover have "wstep\<^sup>*\<^sup>* ?y0 (?y0\<lparr>cli := c1, ack_net := rev rs @ ack_net ?y0\<rparr>)"
    by (rule batch_steps) (use cb in auto)
  ultimately have 1: "wstep\<^sup>*\<^sup>* y ?y1" by (simp add: converse_rtranclp_into_rtranclp)
  show ?thesis
  proof (cases "if rs = [] then None else parse_ack (last rs)")
    case None
    then show ?thesis using assms nw cb 1 by (simp add: window_round_def Let_def)
  next
    case (Some block)
    then obtain ps2 s2 where t: "window_turn block s1 = Inr (ps2, s2)" "z = ?y1\<lparr>srv := s2, data_net := ps2 @ data_net ?y1\<rparr>"
      using assms nw cb by (auto simp: window_round_def Let_def elim!: sbindE)
    have "rs \<noteq> []" "parse_ack (last rs) = Some block" using Some by (auto split: if_splits)
    then have "wstep ?y1 z"
      unfolding t(2) by (intro wstep.ack [of "last rs"]) (use t(1) in simp_all)
    with 1 show ?thesis by simp
  qed
qed

text \<open>
  The client in a window that starts at block \<open>i\<close>: it ends with all of it, what it says is
  above \<open>i\<close>, and it does say something when it must.
\<close>

lemma batch_at:
  assumes ok: "window_ok f b w"
  shows "wclient_at f b w m c \<Longrightarrow> i \<le> m \<Longrightarrow> i \<le> e \<Longrightarrow> e \<le> nblocks f b \<Longrightarrow> client_batch (blocks_from f b i e) c = (rs, c1) \<Longrightarrow>
    wclient_at f b w (max m e) c1
    \<and> set rs \<subseteq> (\<lambda>j. build_ack (of_nat j)) ` {i<..max m e}
    \<and> (i < e \<longrightarrow> i < m \<or> int w \<le> win_count c + int (e - i) \<or> e = nblocks f b \<longrightarrow> rs \<noteq> [])"
proof (induction "e - i" arbitrary: i m c rs)
  case 0
  then show ?case by (simp add: blocks_from_def max_absorb1)
next
  case (Suc n)
  then have ie: "i < e" "i < nblocks f b" by simp_all
  have up: "blocks_from f b i e = build_data (of_nat (i + 1)) (chunk f b i) # blocks_from f b (i + 1) e"
    using ie by (simp add: blocks_from_def upt_conv_Cons)
  show ?case
  proof (cases "i = m")
    case True
    obtain reply fin c' where
      n: "client_on_data (server_id c) (build_data (of_nat (i + 1)) (chunk f b i)) c = ((reply, fin), c')"
        "wclient_at f b w (i + 1) c'"
        "reply = (if i + 1 = nblocks f b \<or> int w \<le> win_count c + 1 then Some (build_ack (of_nat (i + 1))) else None)"
        "win_count c' = (if reply = None then win_count c + 1 else 0)"
      using client_new_windowed [OF ok Suc.prems(1)] ie(2) True by metis
    obtain rs' where b: "client_batch (blocks_from f b (i + 1) e) c' = (rs', c1)" "rs = (case reply of None \<Rightarrow> rs' | Some r \<Rightarrow> r # rs')"
      using Suc.prems(5) n(1) unfolding up by (auto split: prod.splits)
    have ih: "wclient_at f b w (max (i + 1) e) c1" "set rs' \<subseteq> (\<lambda>j. build_ack (of_nat j)) ` {i + 1<..max (i + 1) e}"
        "i + 1 < e \<Longrightarrow> int w \<le> win_count c' + int (e - (i + 1)) \<or> e = nblocks f b \<Longrightarrow> rs' \<noteq> []"
      using Suc.hyps(1) [of "i + 1" "i + 1" c' rs'] Suc.hyps(2) Suc.prems(4) n(2) b(1) ie by auto
    have mx: "max m e = max (i + 1) e" using True ie by simp
    have "set_option reply \<subseteq> {build_ack (of_nat (i + 1))}" by (simp add: n(3))
    then have "set rs \<subseteq> {build_ack (of_nat (i + 1))} \<union> set rs'" by (auto simp: b(2) split: option.splits)
    moreover have "build_ack (of_nat (i + 1)) \<in> (\<lambda>j. build_ack (of_nat j)) ` {i<..max m e}"
      by (rule image_eqI [OF refl]) (use ie in auto)
    moreover have "{i + 1<..max (i + 1) e} \<subseteq> {i<..max m e}" using mx by auto
    ultimately have "set rs \<subseteq> (\<lambda>j. build_ack (of_nat j)) ` {i<..max m e}" using ih(2) by blast
    moreover have "rs \<noteq> []" if "int w \<le> win_count c + int (e - i) \<or> e = nblocks f b"
    proof (cases reply)
      case None
      then have "i + 1 \<noteq> nblocks f b" "win_count c + 1 < int w" "win_count c' = win_count c + 1"
        using n(3,4) by (auto split: if_splits)
      then have "rs' \<noteq> []" using that ie ih(3) by (intro ih(3)) (auto simp: of_nat_diff)
      then show ?thesis using None b(2) by simp
    qed (simp add: b(2))
    ultimately show ?thesis using ih(1) mx True by simp
  next
    case False
    then have im: "i < m" using Suc.prems by simp
    let ?c = "c\<lparr>win_count := 0\<rparr>"
    have o: "client_on_data (server_id c) (build_data (of_nat (i + 1)) (chunk f b i)) c = ((Some (build_ack (of_nat m)), False), ?c)"
      by (rule client_other_windowed [OF ok Suc.prems(1) ie(2) False])
    obtain rs' where b: "client_batch (blocks_from f b (i + 1) e) ?c = (rs', c1)" "rs = build_ack (of_nat m) # rs'"
      using Suc.prems(5) o unfolding up by (auto split: prod.splits)
    have "wclient_at f b w m ?c" using wclient_reset [OF Suc.prems(1)] ok by (simp add: window_ok_def)
    then have ih: "wclient_at f b w (max m e) c1" "set rs' \<subseteq> (\<lambda>j. build_ack (of_nat j)) ` {i + 1<..max m e}"
      using Suc.hyps(1) [of "i + 1" m ?c rs'] Suc.hyps(2) Suc.prems(4) b(1) ie im by auto
    have "build_ack (of_nat m) \<in> (\<lambda>j. build_ack (of_nat j)) ` {i<..max m e}"
      by (rule image_eqI [OF refl]) (use im in auto)
    moreover have "{i + 1<..max m e} \<subseteq> {i<..max m e}" by auto
    ultimately show ?thesis using ih b(2) by auto
  qed
qed

text \<open>A round moves the server's window, or finishes.\<close>

lemma wserver_hears_more: "wserver_at f b w a h m s \<Longrightarrow> \<not> sdone s \<Longrightarrow> m \<le> m' \<Longrightarrow> m' \<le> h \<Longrightarrow> wserver_at f b w a h m' s"
  by (auto simp: wserver_at_def)

lemma window_round_progress:
  assumes ok: "window_ok f b w" and y: "window_at f b w a h m y" and nd: "\<not> sdone (srv y)"
  shows "\<exists>z. window_round y = Inr z \<and> (sdone (srv z) \<or> (\<exists>a' h' m'. a < a' \<and> window_at f b w a' h' m' z))"
proof -
  let ?e = "window_end f b w a"
  have s: "wserver_at f b w a h m (srv y)" and c: "wclient_at f b w m (cli y)" using y by (simp_all add: window_at_def)
  obtain s1 where nw: "next_window (srv y) = Inr (blocks_from f b a ?e, s1)"
      and s1: "wserver_at f b w a (max h ?e) m s1" and nd1: "\<not> sdone s1"
    using next_window_at [OF ok s nd] by blast
  obtain rs c1 where cb: "client_batch (blocks_from f b a ?e) (cli y) = (rs, c1)" by fastforce
  have bd: "a < nblocks f b" "a \<le> m" "m \<le> h" "h \<le> a + w" "0 < w" "0 \<le> win_count (cli y)"
    using s c ok by (simp_all add: wserver_at_def wclient_at_def window_ok_def)
  have "a \<le> ?e" "?e \<le> nblocks f b" using bd by simp_all
  note batch = batch_at [OF ok c bd(2) this cb]
  have "a < ?e" using bd by simp
  moreover have "int w \<le> win_count (cli y) + int (?e - a) \<or> ?e = nblocks f b"
    using bd by (cases "a + w \<le> nblocks f b") simp_all
  ultimately have "rs \<noteq> []" using batch [THEN conjunct2, THEN conjunct2] by fast
  with batch have b: "wclient_at f b w (max m ?e) c1" "set rs \<subseteq> (\<lambda>j. build_ack (of_nat j)) ` {a<..max m ?e}" "rs \<noteq> []"
    by simp_all
  have "last rs \<in> (\<lambda>j. build_ack (of_nat j)) ` {a<..max m ?e}"
    by (rule subsetD [OF b(2)]) (use b(3) in simp)
  then obtain r where r: "last rs = build_ack (of_nat r)" "a < r" "r \<le> max m ?e"
    by (elim imageE) (simp only: greaterThanAtMost_iff)
  have s1': "wserver_at f b w a (max h ?e) (max m ?e) s1"
    by (rule wserver_hears_more [OF s1 nd1]) (use bd in auto)
  have rw: "r \<le> a + w" using r(3) bd by auto
  obtain s2 a2 where k: "on_window_ack (of_nat r) s1 = (sdone s2, s2)" "wserver_at f b w a2 (max h ?e) (max m ?e) s2"
      "sdone s2 \<or> a < a2"
    using window_ack_at [OF ok s1' r(3)] nd1 r(2) rw by blast
  define y1 where "y1 = y\<lparr>srv := s1, data_net := blocks_from f b a ?e @ data_net y, cli := c1, ack_net := rev rs @ ack_net y\<rparr>"
  have rnd: "window_round y = sbind (window_turn (of_nat r) s1) (\<lambda>(ps2, s2). Inr (y1\<lparr>srv := s2, data_net := ps2 @ data_net y1\<rparr>))"
    using nw cb b(3) r(1) by (simp add: window_round_def Let_def y1_def)
  show ?thesis
  proof (cases "sdone s2")
    case True
    then show ?thesis using rnd k(1) by (simp add: window_turn_def)
  next
    case False
    obtain s3 where t: "next_window s2 = Inr (blocks_from f b a2 (window_end f b w a2), s3)"
        and s3: "wserver_at f b w a2 (max (max h ?e) (window_end f b w a2)) (max m ?e) s3"
      using next_window_at [OF ok k(2) False] by blast
    let ?ps = "blocks_from f b a2 (window_end f b w a2)" and ?h = "max (max h ?e) (window_end f b w a2)"
    let ?z = "y1\<lparr>srv := s3, data_net := ?ps @ data_net y1\<rparr>"
    have "window_round y = Inr ?z" using rnd t k(1) False by (simp add: window_turn_def)
    moreover have "data_at f b ?h (?ps @ blocks_from f b a ?e @ data_net y)"
    proof (rule data_at_append [OF data_at_append])
      show "data_at f b h (data_net y)" using y by (simp add: window_at_def)
      show "h \<le> ?h" "?h \<le> ?h" by simp_all
    qed (rule blocks_from_packets, simp)+
    moreover have "acks_at (max m ?e) (rev rs @ ack_net y)"
      using y b(2) by (auto simp: window_at_def acks_at_def ack_packets_def)
    ultimately have "window_at f b w a2 ?h (max m ?e) ?z" using s3 b(1) by (simp add: window_at_def y1_def)
    then show ?thesis using \<open>window_round y = Inr ?z\<close> k(3) False by blast
  qed
qed

lemma window_round_done:
  assumes "sdone (srv y)"
  shows "window_round y = Inr (y\<lparr>srv := srv y, data_net := data_net y, cli := cli y, ack_net := ack_net y\<rparr>)"
  using assms by (simp add: window_round_def next_window_def Let_def)

lemma window_rounds_done: "sdone (srv y) \<Longrightarrow> \<exists>z. window_rounds n y = Inr z \<and> sdone (srv z)"
  by (induction n arbitrary: y) (simp_all add: window_round_done)

lemma window_rounds_finish:
  "window_ok f b w \<Longrightarrow> window_at f b w a h m y \<Longrightarrow> nblocks f b \<le> a + n \<Longrightarrow> \<exists>z. window_rounds n y = Inr z \<and> sdone (srv z)"
proof (induction n arbitrary: a h m y)
  case 0
  then show ?case by (simp add: window_at_def wserver_at_def)
next
  case (Suc n)
  show ?case
  proof (cases "sdone (srv y)")
    case True
    then show ?thesis by (rule window_rounds_done)
  next
    case False
    then obtain z where z: "window_round y = Inr z"
        "sdone (srv z) \<or> (\<exists>a' h' m'. a < a' \<and> window_at f b w a' h' m' z)"
      using window_round_progress [OF Suc.prems(1,2)] by blast
    then show ?thesis
    proof (elim disjE exE conjE)
      assume "sdone (srv z)"
      then show ?thesis using z(1) window_rounds_done [of z n] by simp
    next
      fix a' h' m' assume "a < a'" "window_at f b w a' h' m' z"
      then show ?thesis using Suc.IH [OF Suc.prems(1), of a' h' m' z] Suc.prems(3) z(1) by simp
    qed
  qed
qed

lemma window_rounds_steps: "window_rounds n y = Inr z \<Longrightarrow> wstep\<^sup>*\<^sup>* y z"
  by (induction n arbitrary: y) (auto elim!: sbindE dest: window_round_steps intro: rtranclp_trans)

lemma wreach_steps: "wstep\<^sup>*\<^sup>* y z \<Longrightarrow> wreach f b w tid y \<Longrightarrow> wreach f b w tid z"
  by (induction rule: rtranclp_induct) (auto intro: wreach.step)

end
