(* ===== verification/Tftp_Loops.thy ===== *)
theory Tftp_Loops
  imports Tftp_Windowed
begin

text \<open>
  The framed ends of a transfer: the server's name resolution and option negotiation
  (\<^verbatim>\<open>server.go\<close>, \<^verbatim>\<open>serverloop.go\<close>), the client's receive loop (\<^verbatim>\<open>clientloop.go\<close>) and the
  frames that start a fetch (\<^verbatim>\<open>clientfront.go\<close>), all under
  \<^verbatim>\<open>src/tools/netboot-oracle/tftp/\<close>.  A store is a partial function from names to sizes, as
  \<^verbatim>\<open>MapStore\<close> is.
\<close>

section \<open>Resolving a request\<close>

type_synonym store = "string \<Rightarrow> u64 option"

datatype resolve_action = ActionOACK u64 | ActionError404

definition hex_digit :: "char \<Rightarrow> bool" where
  "hex_digit c = (let n = of_char c :: nat in
     (48 \<le> n \<and> n \<le> 57) \<or> (97 \<le> n \<and> n \<le> 102) \<or> (65 \<le> n \<and> n \<le> 70))"

text \<open>\<^verbatim>\<open>strings.IndexByte\<close> finds the slash; the prefix before it is the directory.\<close>

definition is_serial_subdir :: "string \<Rightarrow> bool" where
  "is_serial_subdir name =
     (let pre = takeWhile (\<lambda>c. c \<noteq> CHR ''/'') name in
      if length pre = length name \<or> pre = [] then False
      else if length pre < 4 then False
      else list_all hex_digit pre)"

definition resolve :: "store \<Rightarrow> string \<Rightarrow> resolve_action" where
  "resolve st name =
     (if is_serial_subdir name then ActionError404
      else case st name of Some sz \<Rightarrow> ActionOACK sz | None \<Rightarrow> ActionError404)"

definition accepted_blksize :: "nat \<Rightarrow> nat" where
  "accepted_blksize r = (if r < 8 \<or> r > 1468 then 512 else r)"

definition accepted_windowsize :: "nat \<Rightarrow> nat" where
  "accepted_windowsize r = (if r < 1 then 1 else if r > 16 then 16 else r)"

section \<open>The server loop\<close>

record server_loop =
  sl_store :: store
  sl_mac :: mac
  sl_ip :: ipv4
  sl_tid :: u16
  sl_client_mac :: mac
  sl_client_ip :: ipv4
  sl_client_tid :: u16
  sl_xfer :: "server_xfer option"
  sl_pending :: bytes

definition zero_mac :: mac where "zero_mac = Mac 0 0 0 0 0 0"
definition zero_ip :: ipv4 where "zero_ip = Ip 0 0 0 0"

definition new_server_loop :: "store \<Rightarrow> mac \<Rightarrow> ipv4 \<Rightarrow> u16 \<Rightarrow> server_loop" where
  "new_server_loop st m a t =
     \<lparr>sl_store = st, sl_mac = m, sl_ip = a, sl_tid = t, sl_client_mac = zero_mac, sl_client_ip = zero_ip,
      sl_client_tid = 0, sl_xfer = None, sl_pending = []\<rparr>"

definition set_source :: "bytes \<Rightarrow> server_loop \<Rightarrow> server_loop" where
  "set_source f s = s\<lparr>sl_xfer := None, sl_pending := f\<rparr>"

definition server_wrap :: "server_loop \<Rightarrow> bytes \<Rightarrow> bytes" where
  "server_wrap s p = build_udp_frame
     \<lparr>u_dst_mac = sl_client_mac s, u_src_mac = sl_mac s, u_src_ip = sl_ip s, u_dst_ip = sl_client_ip s,
      u_src_port = sl_tid s, u_dst_port = sl_client_tid s, u_payload = p\<rparr>"

text \<open>The block size and the window a request is granted.\<close>

definition granted :: "(nat \<Rightarrow> nat) \<Rightarrow> nat \<Rightarrow> string option \<Rightarrow> nat" where
  "granted accept dflt v =
     (case v of None \<Rightarrow> dflt
      | Some t \<Rightarrow> (case parse_uint64 t of None \<Rightarrow> dflt | Some n \<Rightarrow> accept n))"

definition granted_blksize :: "request \<Rightarrow> nat" where
  "granted_blksize r = granted accepted_blksize 512 (option_value (rq_options r) ''blksize'')"

definition granted_windowsize :: "request \<Rightarrow> nat" where
  "granted_windowsize r = granted accepted_windowsize 1 (option_value (rq_options r) ''windowsize'')"

definition oack_options :: "nat \<Rightarrow> u64 \<Rightarrow> nat \<Rightarrow> tftp_option list" where
  "oack_options b sz w =
     [Opt ''blksize'' (dec b), Opt ''tsize'' (dec (unat sz))] @ (if w > 1 then [Opt ''windowsize'' (dec w)] else [])"

text \<open>Sending the next block of the current transfer: \<open>None\<close> is no frame.\<close>

definition send_next :: "server_loop \<Rightarrow> server_xfer \<Rightarrow> (bytes option \<times> server_loop) res" where
  "send_next s x =
     sbind (next_data x) (\<lambda>(d, x'). Inr (map_option (server_wrap s) d, s\<lparr>sl_xfer := Some x'\<rparr>))"

definition start_transfer :: "bool \<Rightarrow> bytes \<Rightarrow> server_loop \<Rightarrow> (bytes option \<times> server_loop) res" where
  "start_transfer send_oack f s =
     (case parse_udp f of
        None \<Rightarrow> Inr (None, s)
      | Some u \<Rightarrow>
          if u_dst_port u \<noteq> 69 then Inr (None, s)
          else case parse_request (u_payload u) of
            Inl e \<Rightarrow> Inr (None, s)
          | Inr req \<Rightarrow>
              if rq_opcode req \<noteq> op_rrq then Inr (None, s)
              else let s1 = s\<lparr>sl_client_mac := mac_at f 6, sl_client_ip := u_src_ip u, sl_client_tid := u_src_port u\<rparr> in
                case resolve (sl_store s1) (rq_filename req) of
                  ActionError404 \<Rightarrow>
                    let s2 = s1\<lparr>sl_xfer := None\<rparr> in
                    Inr (Some (server_wrap s2 (build_error err_file_not_found ''File not found'')), s2)
                | ActionOACK sz \<Rightarrow>
                    if \<not> send_oack then send_next s1 (new_server_xfer (sl_pending s1) 512)
                    else let b = granted_blksize req; w = granted_windowsize req;
                             x = set_windowsize (int w) (new_server_xfer (sl_pending s1) (int b));
                             s2 = s1\<lparr>sl_xfer := Some x\<rparr> in
                      Inr (Some (server_wrap s2 (build_oack (oack_options b sz w))), s2))"

definition on_rrq :: "bytes \<Rightarrow> server_loop \<Rightarrow> (bytes option \<times> server_loop) res" where
  "on_rrq f s = start_transfer True f s"

text \<open>The block number of an acknowledgement of this transfer.\<close>

definition ack_block :: "server_loop \<Rightarrow> bytes \<Rightarrow> u16 option" where
  "ack_block s f =
     (case parse_udp f of
        None \<Rightarrow> None
      | Some u \<Rightarrow> if u_src_port u \<noteq> sl_client_tid s \<or> u_dst_port u \<noteq> sl_tid s then None else parse_ack (u_payload u))"

definition on_ack_frame :: "bytes \<Rightarrow> server_loop \<Rightarrow> (bytes option \<times> server_loop) res" where
  "on_ack_frame f s =
     (case sl_xfer s of
        None \<Rightarrow> Inr (None, s)
      | Some x \<Rightarrow>
          (case ack_block s f of
             None \<Rightarrow> Inr (None, s)
           | Some block \<Rightarrow>
               sbind (server_turn block x) (\<lambda>(d, x'). Inr (map_option (server_wrap s) d, s\<lparr>sl_xfer := Some x'\<rparr>))))"

definition first_data :: "server_loop \<Rightarrow> (bytes option \<times> server_loop) res" where
  "first_data s = (case sl_xfer s of None \<Rightarrow> Inr (None, s) | Some x \<Rightarrow> send_next s x)"

definition first_window :: "server_loop \<Rightarrow> (bytes list \<times> server_loop) res" where
  "first_window s =
     (case sl_xfer s of
        None \<Rightarrow> Inr ([], s)
      | Some x \<Rightarrow> sbind (next_window x) (\<lambda>(ps, x'). Inr (map (server_wrap s) ps, s\<lparr>sl_xfer := Some x'\<rparr>)))"

definition on_ack_window :: "bytes \<Rightarrow> server_loop \<Rightarrow> (bytes list \<times> server_loop) res" where
  "on_ack_window f s =
     (case sl_xfer s of
        None \<Rightarrow> Inr ([], s)
      | Some x \<Rightarrow>
          (case ack_block s f of
             None \<Rightarrow> Inr ([], s)
           | Some block \<Rightarrow>
               sbind (window_turn block x) (\<lambda>(ps, x'). Inr (map (server_wrap s) ps, s\<lparr>sl_xfer := Some x'\<rparr>))))"

definition server_loop_done :: "server_loop \<Rightarrow> bool" where
  "server_loop_done s = (case sl_xfer s of None \<Rightarrow> False | Some x \<Rightarrow> sdone x)"

section \<open>The client loop\<close>

record client_loop =
  cl_mac :: mac
  cl_ip :: ipv4
  cl_tid :: u16
  cl_server_mac :: mac
  cl_server_ip :: ipv4
  cl_server_tid :: u16
  cl_got_server :: bool
  cl_xfer :: client_xfer

definition new_client_loop :: "mac \<Rightarrow> ipv4 \<Rightarrow> u16 \<Rightarrow> int \<Rightarrow> client_loop" where
  "new_client_loop m a t b =
     \<lparr>cl_mac = m, cl_ip = a, cl_tid = t, cl_server_mac = zero_mac, cl_server_ip = zero_ip, cl_server_tid = 0,
      cl_got_server = False, cl_xfer = new_client_xfer b 0\<rparr>"

definition client_wrap :: "client_loop \<Rightarrow> bytes \<Rightarrow> bytes" where
  "client_wrap c p = build_udp_frame
     \<lparr>u_dst_mac = cl_server_mac c, u_src_mac = cl_mac c, u_src_ip = cl_ip c, u_dst_ip = cl_server_ip c,
      u_src_port = cl_tid c, u_dst_port = cl_server_tid c, u_payload = p\<rparr>"

definition learn_server :: "bytes \<Rightarrow> udp \<Rightarrow> client_loop \<Rightarrow> client_loop" where
  "learn_server f u c =
     (if cl_got_server c then c
      else c\<lparr>cl_server_mac := mac_at f 6, cl_server_ip := u_src_ip u, cl_server_tid := u_src_port u,
             cl_got_server := True, cl_xfer := (cl_xfer c)\<lparr>server_id := u_src_port u\<rparr>\<rparr>)"

definition on_data_frame :: "bytes \<Rightarrow> client_loop \<Rightarrow> bytes option \<times> client_loop" where
  "on_data_frame f c =
     (case parse_udp f of
        None \<Rightarrow> (None, c)
      | Some u \<Rightarrow>
          if u_dst_port u \<noteq> cl_tid c then (None, c)
          else if opcode (u_payload u) \<noteq> op_data then (None, c)
          else let c1 = learn_server f u c in
            (case client_on_data (u_src_port u) (u_payload u) (cl_xfer c1) of
               ((reply, fin), x) \<Rightarrow>
                 let c2 = c1\<lparr>cl_xfer := x\<rparr> in
                 (case reply of
                    None \<Rightarrow> (None, c2)
                  | Some r \<Rightarrow>
                      if u_src_port u \<noteq> cl_server_tid c2
                      then (Some (build_udp_frame
                              \<lparr>u_dst_mac = mac_at f 6, u_src_mac = cl_mac c2, u_src_ip = cl_ip c2, u_dst_ip = u_src_ip u,
                               u_src_port = cl_tid c2, u_dst_port = u_src_port u, u_payload = r\<rparr>), c2)
                      else (Some (client_wrap c2 r), c2))))"

text \<open>\<^verbatim>\<open>int(bs)\<close> of a 64-bit value: a value from \<open>2 ^ 63\<close> on becomes negative.\<close>

definition go_int :: "nat \<Rightarrow> int" where
  "go_int n = sint (of_nat n :: i64)"

definition adopt_options :: "tftp_option list \<Rightarrow> client_xfer \<Rightarrow> client_xfer" where
  "adopt_options opts x =
     (let x1 = (case option_uint opts ''blksize'' of
                  Some bs \<Rightarrow> if bs > 0 then x\<lparr>cblksize := go_int bs\<rparr> else x
                | None \<Rightarrow> x) in
      case option_uint opts ''windowsize'' of
        Some ws \<Rightarrow> if ws > 0 then set_client_window (go_int ws) x1 else x1
      | None \<Rightarrow> x1)"

definition on_oack :: "bytes \<Rightarrow> udp \<Rightarrow> client_loop \<Rightarrow> bytes option \<times> client_loop" where
  "on_oack f u c =
     (let c1 = learn_server f u c;
          c2 = (case parse_oack (u_payload u) of
                  Inl e \<Rightarrow> c1
                | Inr opts \<Rightarrow> c1\<lparr>cl_xfer := adopt_options opts (cl_xfer c1)\<rparr>) in
      (Some (client_wrap c2 (build_ack 0)), c2))"

definition on_server_reply :: "bytes \<Rightarrow> client_loop \<Rightarrow> bytes option \<times> client_loop" where
  "on_server_reply f c =
     (case parse_udp f of
        None \<Rightarrow> (None, c)
      | Some u \<Rightarrow>
          if u_dst_port u \<noteq> cl_tid c then (None, c)
          else if opcode (u_payload u) = op_oack then on_oack f u c
          else if opcode (u_payload u) = op_data then on_data_frame f c
          else (None, c))"

definition loop_timeout :: "client_loop \<Rightarrow> bytes option" where
  "loop_timeout c = map_option (client_wrap c) (client_timeout (cl_xfer c))"

section \<open>The front\<close>

record client_front =
  cf_mac :: mac
  cf_ip :: ipv4
  cf_server_ip :: ipv4
  cf_tid :: u16
  cf_server_mac :: mac
  cf_got_mac :: bool

definition new_client_front :: "mac \<Rightarrow> ipv4 \<Rightarrow> ipv4 \<Rightarrow> u16 \<Rightarrow> client_front" where
  "new_client_front m a sa t =
     \<lparr>cf_mac = m, cf_ip = a, cf_server_ip = sa, cf_tid = t, cf_server_mac = zero_mac, cf_got_mac = False\<rparr>"

definition front_arp_request :: "client_front \<Rightarrow> bytes" where
  "front_arp_request c = build_arp_request (cf_mac c) (cf_ip c) (cf_server_ip c)"

definition on_arp_reply :: "bytes \<Rightarrow> client_front \<Rightarrow> bool \<times> client_front" where
  "on_arp_reply f c =
     (case parse_arp_reply f of
        None \<Rightarrow> (False, c)
      | Some (m, a) \<Rightarrow> if a \<noteq> cf_server_ip c then (False, c) else (True, c\<lparr>cf_server_mac := m, cf_got_mac := True\<rparr>))"

definition rrq_frame :: "string \<Rightarrow> client_front \<Rightarrow> bytes" where
  "rrq_frame filename c = build_udp_frame
     \<lparr>u_dst_mac = cf_server_mac c, u_src_mac = cf_mac c, u_src_ip = cf_ip c, u_dst_ip = cf_server_ip c,
      u_src_port = cf_tid c, u_dst_port = 69, u_payload = build_rrq filename ''octet'' client_option_set\<rparr>"

end
