(* ===== verification/Tftp_Props.thy ===== *)
theory Tftp_Props
  imports Tftp_Loops "HOL-Library.Sublist"
begin

text \<open>
  The properties of the TFTP model: requests and option acknowledgements round trip, the two
  ends agree on what the server grants, and the lock-step and the windowed transfer are safe and
  finish; a file of 65535 full blocks or more makes the server panic.
\<close>

section \<open>Numbers as text\<close>

lemma digit_value_digit: "d < 10 \<Longrightarrow> digit_value (char_of (48 + d :: nat)) = Some d"
  by (simp add: digit_value_def Let_def)

lemma parse_digits_append:
  "parse_digits acc (xs @ ys) = Option.bind (parse_digits acc xs) (\<lambda>a. parse_digits a ys)"
  by (induction xs arbitrary: acc) (auto split: option.split)

lemma parse_digits_dec: "parse_digits 0 (dec n) = Some n"
proof (induction n rule: dec.induct)
  case (1 n)
  show ?case
  proof (cases "n < 10")
    case True
    then show ?thesis by (subst dec.simps) (simp add: digit_value_digit)
  next
    case False
    then have "parse_digits 0 (dec (n div 10)) = Some (n div 10)" by (rule 1)
    then show ?thesis
      using False by (subst dec.simps) (simp add: parse_digits_append digit_value_digit)
  qed
qed

lemma dec_nonempty [simp]: "dec n \<noteq> []"
  by (subst dec.simps) simp

lemma parse_uint64_dec: "n < 2 ^ 64 \<Longrightarrow> parse_uint64 (dec n) = Some n"
  by (simp add: parse_uint64_def parse_digits_dec)

lemma nul_free_append [simp]: "nul_free (xs @ ys) \<longleftrightarrow> nul_free xs \<and> nul_free ys"
  by (simp add: nul_free_def)

lemma of_char_digit: "d < 10 \<Longrightarrow> (of_char (char_of (48 + d :: nat)) :: u8) \<noteq> 0"
proof -
  assume d: "d < 10"
  have "of_char (char_of (48 + d :: nat)) = (48 + d :: nat)" using d by simp
  moreover have "(of_char (char_of (48 + d :: nat)) :: u8) = of_nat (of_char (char_of (48 + d :: nat)))"
    by (simp only: of_nat_of_char)
  ultimately have "(of_char (char_of (48 + d :: nat)) :: u8) = of_nat (48 + d)" by (simp only:)
  moreover have "unat (of_nat (48 + d) :: u8) = 48 + d" using d by (simp add: unat_of_nat del: of_nat_add)
  ultimately show ?thesis by (metis add_is_0 numeral_eq_iff unsigned_0 zero_neq_numeral)
qed

lemma nul_free_dec: "nul_free (dec n)"
proof (induction n rule: dec.induct)
  case (1 n)
  show ?case
  proof (cases "n < 10")
    case True
    then show ?thesis by (subst dec.simps) (simp add: nul_free_def of_char_digit del: of_char_of)
  next
    case False
    have "nul_free [char_of (48 + n mod 10)]" by (simp add: nul_free_def of_char_digit del: of_char_of)
    then show ?thesis using 1 [OF False] False by (subst dec.simps) simp
  qed
qed

section \<open>Agreement on the options\<close>

lemma granted_bounds: "granted_blksize r \<in> {8..1468}" "granted_windowsize r \<in> {1..16}"
  by (auto simp: granted_blksize_def granted_windowsize_def granted_def accepted_blksize_def accepted_windowsize_def
      split: option.splits)

lemma oack_options_nul_free: "options_nul_free (oack_options b sz w)"
  by (simp add: options_nul_free_def oack_options_def nul_free_dec) (simp add: nul_free_def)

lemma option_uint_oack:
  assumes "b < 2 ^ 64" "w < 2 ^ 64"
  shows "option_uint (oack_options b sz w) ''blksize'' = Some b"
    and "option_uint (oack_options b sz w) ''windowsize'' = (if w > 1 then Some w else None)"
  using assms by (simp_all add: option_uint_def option_value_def oack_options_def parse_uint64_dec)

lemma go_int_small: "n < 2 ^ 63 \<Longrightarrow> go_int n = int n"
proof -
  assume n: "n < 2 ^ 63"
  have "int n < 2 ^ 63" using n by (metis of_nat_less_iff of_nat_numeral of_nat_power)
  then have "sint (word_of_int (int n) :: i64) = int n" by (intro sint_word_of_int64) simp_all
  then show ?thesis by (simp add: go_int_def)
qed

lemma adopt_oack:
  assumes "0 < b" "b < 2 ^ 63" "0 < w" "w < 2 ^ 63" "cwindow x = 1"
  shows "cblksize (adopt_options (oack_options b sz w) x) = int b"
    and "cwindow (adopt_options (oack_options b sz w) x) = int w"
  using assms by (auto simp: adopt_options_def option_uint_oack go_int_small set_client_window_def Let_def)

lemma length_dec_bound: "n < 10 ^ k \<Longrightarrow> 0 < k \<Longrightarrow> length (dec n) \<le> k"
proof (induction k arbitrary: n)
  case (Suc k)
  show ?case
  proof (cases "n < 10")
    case True
    then show ?thesis by (subst dec.simps) simp
  next
    case False
    then have "k \<noteq> 0" using Suc.prems by (cases k) auto
    then have "length (dec (n div 10)) \<le> k" using Suc.prems by (intro Suc.IH) (auto simp: less_mult_imp_div_less mult.commute)
    then show ?thesis using False by (subst dec.simps) simp
  qed
qed simp

lemma length_dec_uint64: "n < 2 ^ 64 \<Longrightarrow> length (dec n) \<le> 20"
  by (rule length_dec_bound) simp_all

lemma length_options_wire:
  "length (options_wire opts) = sum_list (map (\<lambda>o'. length (opt_name o') + length (opt_value o') + 2) opts)"
  by (induction opts) (simp_all add: options_wire_def)

lemma length_oack:
  assumes "b \<le> 1468" "w \<le> 16"
  shows "length (build_oack (oack_options b sz w)) \<le> 100"
proof -
  have "length (dec b) \<le> 20" "length (dec w) \<le> 20" using assms by (auto intro: length_dec_uint64)
  moreover have "unat sz < 2 ^ LENGTH(64)" by (rule unsigned_less)
  then have "length (dec (unat sz)) \<le> 20" by (intro length_dec_uint64) simp
  ultimately show ?thesis by (simp add: build_oack_def length_options_wire oack_options_def)
qed

text \<open>An answer with a transfer is the OACK frame for the options of that transfer.\<close>

lemma on_rrq_hit:
  assumes "on_rrq f s = Inr (Some g, s')" "sl_xfer s' = Some x"
  obtains b w sz where "b \<in> {8..1468}" "w \<in> {1..16}" "blksize x = int b" "windowsize x = int w"
    "g = server_wrap s' (build_oack (oack_options b sz w))"
proof -
  obtain u where u: "parse_udp f = Some u" "u_dst_port u = 69"
    using assms(1) by (auto simp: on_rrq_def start_transfer_def split: option.splits if_splits)
  obtain req where r: "parse_request (u_payload u) = Inr req" "rq_opcode req = op_rrq"
    using assms(1) u by (auto simp: on_rrq_def start_transfer_def split: sum.splits if_splits)
  obtain sz where h: "resolve (sl_store s) (rq_filename req) = ActionOACK sz"
    using assms u r by (auto simp: on_rrq_def start_transfer_def Let_def split: resolve_action.splits)
  show thesis
  proof (rule that [OF granted_bounds [of req]])
    show "blksize x = int (granted_blksize req)" "windowsize x = int (granted_windowsize req)"
        "g = server_wrap s' (build_oack (oack_options (granted_blksize req) sz (granted_windowsize req)))"
      using assms u r h granted_bounds [of req]
      by (auto simp: on_rrq_def start_transfer_def Let_def set_windowsize_def new_server_xfer_def)
  qed
qed

lemma parse_server_wrap:
  assumes "length p \<le> 65507"
  obtains u where "parse_udp (server_wrap s p) = Some u" "u_payload u = p" "u_dst_port u = sl_client_tid s" "u_src_port u = sl_tid s"
  using parse_build_udp [of "\<lparr>u_dst_mac = sl_client_mac s, u_src_mac = sl_mac s, u_src_ip = sl_ip s, u_dst_ip = sl_client_ip s,
      u_src_port = sl_tid s, u_dst_port = sl_client_tid s, u_payload = p\<rparr>"] assms that
  by (simp add: server_wrap_def)

lemma opcode_oack [simp]: "opcode (build_oack opts) = op_oack"
  by (simp add: build_oack_def opcodes)

lemma learn_server_xfer [simp]:
  "cwindow (cl_xfer (learn_server f u c)) = cwindow (cl_xfer c)" "cblksize (cl_xfer (learn_server f u c)) = cblksize (cl_xfer c)"
  by (simp_all add: learn_server_def)

lemma oack_adopted:
  assumes "on_rrq f s = Inr (Some g, s')" "sl_xfer s' = Some x"
    and "cl_tid c = sl_client_tid s'" "cwindow (cl_xfer c) = 1"
  shows "cblksize (cl_xfer (snd (on_server_reply g c))) = blksize x \<and> cwindow (cl_xfer (snd (on_server_reply g c))) = windowsize x"
proof -
  obtain b w sz where bw: "b \<in> {8..1468}" "w \<in> {1..16}" "blksize x = int b" "windowsize x = int w"
      and g: "g = server_wrap s' (build_oack (oack_options b sz w))"
    using on_rrq_hit [OF assms(1,2)] by blast
  obtain u where u: "parse_udp g = Some u" "u_payload u = build_oack (oack_options b sz w)" "u_dst_port u = sl_client_tid s'"
    using parse_server_wrap [of "build_oack (oack_options b sz w)" s'] length_oack [of b w sz] bw g by force
  have "snd (on_server_reply g c) = (learn_server g u c)\<lparr>cl_xfer := adopt_options (oack_options b sz w) (cl_xfer (learn_server g u c))\<rparr>"
    using u assms(3) by (simp add: on_server_reply_def on_oack_def Let_def parse_build_oack oack_options_nul_free)
  moreover have "0 < b" "b < 2 ^ 63" "0 < w" "w < 2 ^ 63" using bw by auto
  ultimately show ?thesis using adopt_oack [of b w "cl_xfer (learn_server g u c)" sz] assms(4) bw by simp
qed

section \<open>The invariants read off\<close>

lemma client_at_data:
  assumes "client_at f b m c" "0 < b"
  shows "prefix (xdata c) f" and "m = nblocks f b \<Longrightarrow> xdata c = f" and "cdone c \<Longrightarrow> xdata c = f"
  using assms take_all_blocks [of b f] by (auto simp: client_at_def take_is_prefix)

lemma lockstep_data:
  assumes "transfer_ok f b" "lreach f b tid y"
  shows "prefix (xdata (cli y)) f \<and> (cdone (cli y) \<or> sdone (srv y) \<longrightarrow> xdata (cli y) = f)"
proof -
  obtain k m where y: "lock_at f b k m y" using lock_inv_reach [OF assms(2,1)] by (auto simp: lock_inv_def)
  then show ?thesis
    using client_at_data [of f b m "cli y"] assms(1) by (auto simp: lock_at_def server_at_def transfer_ok_def)
qed

lemma windowed_data:
  assumes "window_ok f b w" "wreach f b w tid y"
  shows "prefix (xdata (cli y)) f \<and> (cdone (cli y) \<or> sdone (srv y) \<longrightarrow> xdata (cli y) = f)"
proof -
  obtain a h m where y: "window_at f b w a h m y" using window_inv_reach [OF assms(2,1)] by (auto simp: window_inv_def)
  then show ?thesis
    using client_at_data [of f b m "cli y"] assms(1)
    by (auto simp: window_at_def wclient_at_def wserver_at_def window_ok_def)
qed

section \<open>The properties\<close>

definition demo_server :: server_loop where
  "demo_server = set_source [1, 2, 3, 4, 5]
     (new_server_loop (\<lambda>n. if n = ''start4.elf'' then Some 5 else None) (Mac 2 0 0 0 0 9) (Ip 10 0 0 1) 2000)"

definition demo_front :: client_front where
  "demo_front = new_client_front (Mac 2 0 0 0 0 1) (Ip 10 0 0 2) (Ip 10 0 0 1) 4000"

definition demo_client :: client_loop where
  "demo_client = new_client_loop (Mac 2 0 0 0 0 1) (Ip 10 0 0 2) 4000 512"

lemma demo_rrq:
  obtains s' x where "on_rrq (rrq_frame ''start4.elf'' demo_front) demo_server
      = Inr (Some (server_wrap s' (build_oack (oack_options 1428 5 8))), s')"
    and "sl_xfer s' = Some x" and "sl_client_tid s' = 4000"
proof -
  let ?u = "\<lparr>u_dst_mac = cf_server_mac demo_front, u_src_mac = cf_mac demo_front, u_src_ip = cf_ip demo_front,
      u_dst_ip = cf_server_ip demo_front, u_src_port = cf_tid demo_front, u_dst_port = 69,
      u_payload = build_rrq ''start4.elf'' ''octet'' client_option_set\<rparr>"
  have nf: "nul_free ''start4.elf''" "nul_free ''octet''" "options_nul_free client_option_set"
    by (simp_all add: nul_free_def options_nul_free_def client_option_set_def)
  have p: "parse_udp (rrq_frame ''start4.elf'' demo_front) = Some ?u"
    unfolding rrq_frame_def by (rule parse_build_udp) (simp add: build_rrq_def length_options_wire client_option_set_def)
  have r: "parse_request (build_rrq ''start4.elf'' ''octet'' client_option_set)
      = Inr \<lparr>rq_opcode = op_rrq, rq_filename = ''start4.elf'', rq_mode = ''octet'', rq_options = client_option_set\<rparr>"
    using parse_build_request [OF nf, of 1] by (simp add: build_rrq_def op_rrq_def)
  have sub: "\<not> is_serial_subdir ''start4.elf''" by (simp add: is_serial_subdir_def)
  have g: "granted_blksize \<lparr>rq_opcode = op_rrq, rq_filename = ''start4.elf'', rq_mode = ''octet'', rq_options = client_option_set\<rparr> = 1428"
    "granted_windowsize \<lparr>rq_opcode = op_rrq, rq_filename = ''start4.elf'', rq_mode = ''octet'', rq_options = client_option_set\<rparr> = 8"
    by (simp_all add: granted_blksize_def granted_windowsize_def granted_def option_value_def client_option_set_def
        parse_uint64_def digit_value_def accepted_blksize_def accepted_windowsize_def)
  have t: "cf_tid demo_front = 4000" by (simp add: demo_front_def new_client_front_def)
  have "\<exists>s' x. on_rrq (rrq_frame ''start4.elf'' demo_front) demo_server
      = Inr (Some (server_wrap s' (build_oack (oack_options 1428 5 8))), s') \<and> sl_xfer s' = Some x \<and> sl_client_tid s' = 4000"
    by (simp add: on_rrq_def start_transfer_def p r t Let_def resolve_def sub g demo_server_def set_source_def
        new_server_loop_def)
  then show thesis using that by blast
qed

definition demo_file :: bytes where "demo_file = [1, 2, 3, 4, 5]"

lemma demo_transfer: "transfer_ok demo_file 2" "window_ok demo_file 2 2"
  by (simp_all add: transfer_ok_def window_ok_def nblocks_def demo_file_def)

text \<open>
  A read request with NUL-free strings parses back to the file name, the mode and the
  options it was built from.
\<close>

theorem rrq_round_trip:
  assumes "nul_free fn" and "nul_free mode" and "options_nul_free opts"
  shows "parse_request (build_rrq fn mode opts) = Inr \<lparr>rq_opcode = op_rrq, rq_filename = fn, rq_mode = mode, rq_options = opts\<rparr>"
  using parse_build_request [OF assms, of 1] by (simp add: build_rrq_def op_rrq_def)

lemma rrq_round_trip_witness:
  "parse_request (build_rrq ''start4.elf'' ''octet'' client_option_set)
    = Inr \<lparr>rq_opcode = op_rrq, rq_filename = ''start4.elf'', rq_mode = ''octet'', rq_options = client_option_set\<rparr>"
  by (rule rrq_round_trip) (simp_all add: nul_free_def options_nul_free_def client_option_set_def)

text \<open>
  C33.  The two ends agree: a client that takes the server's OACK receives with the block size and
  the window the server sends with, whatever the request asked for.
\<close>

theorem options_agreed:
  assumes "on_rrq f s = Inr (Some g, s')" and "sl_xfer s' = Some x"
    and "cl_tid c = sl_client_tid s'" and "cwindow (cl_xfer c) = 1"
  shows "cblksize (cl_xfer (snd (on_server_reply g c))) = blksize x \<and> cwindow (cl_xfer (snd (on_server_reply g c))) = windowsize x"
  using assms by (rule oack_adopted)

lemma options_agreed_witness:
  "\<exists>g s' x. on_rrq (rrq_frame ''start4.elf'' demo_front) demo_server = Inr (Some g, s') \<and> sl_xfer s' = Some x
    \<and> cblksize (cl_xfer (snd (on_server_reply g demo_client))) = blksize x
    \<and> cwindow (cl_xfer (snd (on_server_reply g demo_client))) = windowsize x"
proof -
  obtain s' x where r: "on_rrq (rrq_frame ''start4.elf'' demo_front) demo_server
      = Inr (Some (server_wrap s' (build_oack (oack_options 1428 5 8))), s')" "sl_xfer s' = Some x" "sl_client_tid s' = 4000"
    by (rule demo_rrq)
  have "cl_tid demo_client = sl_client_tid s'" "cwindow (cl_xfer demo_client) = 1"
    by (simp_all add: r demo_client_def new_client_loop_def new_client_xfer_def)
  from options_agreed [OF r(1,2) this] r show ?thesis by blast
qed

text \<open>
  In a lock-step transfer over a network that loses, repeats, delays and reorders packets,
  the client always has a prefix of the file, and the whole file once either end is done.
\<close>

theorem lockstep_safe:
  assumes "transfer_ok f b" and "lreach f b tid y"
  shows "prefix (xdata (cli y)) f \<and> (cdone (cli y) \<or> sdone (srv y) \<longrightarrow> xdata (cli y) = f)"
  using assms by (rule lockstep_data)

lemma lockstep_safe_witness: "prefix (xdata (cli (lock_start demo_file 2 77))) demo_file"
  using lockstep_safe [OF demo_transfer(1) lreach.start] by blast

text \<open>
  From every reachable state of a lock-step transfer, as many loss-free exchanges as the
  file has blocks finish it, at both ends and with the whole file.
\<close>

theorem lockstep_finishes:
  assumes "transfer_ok f b" and "lreach f b tid y"
  shows "\<exists>z. rounds (nblocks f b) y = Inr z \<and> lstep\<^sup>*\<^sup>* y z \<and> sdone (srv z) \<and> xdata (cli z) = f"
proof -
  obtain k m where y: "lock_at f b k m y" using lock_inv_reach [OF assms(2,1)] by (auto simp: lock_inv_def)
  obtain z where z: "rounds (nblocks f b) y = Inr z" "sdone (srv z)"
    using rounds_finish [OF assms(1) y, of "nblocks f b"] by auto
  have s: "lstep\<^sup>*\<^sup>* y z" using z(1) by (rule rounds_steps)
  then have "xdata (cli z) = f" using lockstep_data [OF assms(1) lreach_steps [OF s assms(2)]] z(2) by blast
  with z s show ?thesis by blast
qed

lemma lockstep_finishes_witness:
  "\<exists>z. rounds (nblocks demo_file 2) (lock_start demo_file 2 77) = Inr z \<and> lstep\<^sup>*\<^sup>* (lock_start demo_file 2 77) z
    \<and> sdone (srv z) \<and> xdata (cli z) = demo_file"
  by (rule lockstep_finishes [OF demo_transfer(1) lreach.start])

text \<open>
  C5.  In a windowed transfer over such a network, of a file whose blocks and one window number at
  most 65535, the client always has a prefix of the file, and the whole file once either end is done.
\<close>

theorem windowed_safe:
  assumes "window_ok f b w" and "wreach f b w tid y"
  shows "prefix (xdata (cli y)) f \<and> (cdone (cli y) \<or> sdone (srv y) \<longrightarrow> xdata (cli y) = f)"
  using assms by (rule windowed_data)

lemma windowed_safe_witness: "prefix (xdata (cli (window_start demo_file 2 2 77))) demo_file"
  using windowed_safe [OF demo_transfer(2) wreach.start] by blast

text \<open>
  C12.  Let the blocks of a file and one window of two or more blocks together number at most 65535
  (\<open>window_ok\<close>), so that no block number wraps in the 16 bits it has.  Then from every reachable state
  of the windowed transfer, with windows half lost or acknowledgements missing, at most as many
  loss-free exchanges as the file has blocks finish it.  Beyond the bound this is false of the code:
  \<^verbatim>\<open>OnWindowAck\<close> takes the end of the window modulo 65536 and discards genuine acknowledgements, and a
  longer file makes the server panic (\<open>block_number_overflow\<close>).
\<close>

theorem windowed_finishes:
  assumes "window_ok f b w" and "wreach f b w tid y"
  shows "\<exists>z. window_rounds (nblocks f b) y = Inr z \<and> wstep\<^sup>*\<^sup>* y z \<and> sdone (srv z) \<and> xdata (cli z) = f"
proof -
  obtain a h m where y: "window_at f b w a h m y" using window_inv_reach [OF assms(2,1)] by (auto simp: window_inv_def)
  obtain z where z: "window_rounds (nblocks f b) y = Inr z" "sdone (srv z)"
    using window_rounds_finish [OF assms(1) y, of "nblocks f b"] by auto
  have s: "wstep\<^sup>*\<^sup>* y z" using z(1) by (rule window_rounds_steps)
  then have "xdata (cli z) = f" using windowed_data [OF assms(1) wreach_steps [OF s assms(2)]] z(2) by blast
  with z s show ?thesis by blast
qed

lemma windowed_finishes_witness:
  "\<exists>z. window_rounds (nblocks demo_file 2) (window_start demo_file 2 2 77) = Inr z \<and> wstep\<^sup>*\<^sup>* (window_start demo_file 2 2 77) z
    \<and> sdone (srv z) \<and> xdata (cli z) = demo_file"
  by (rule windowed_finishes [OF demo_transfer(2) wreach.start])

text \<open>
  C32.  The acknowledgement of block 65535, when that block was full, makes the server panic: the
  next block number is 0 and its offset is negative.
\<close>

theorem block_number_overflow:
  assumes "next_block s = 65535" and "sent s = Some d" and "0 < blksize s" and "blksize s \<le> int (length d)" and "\<not> sdone s"
    and "src s \<noteq> []"
  shows "server_turn 65535 s = Inl Panic"
proof -
  let ?s = "s\<lparr>next_block := 0\<rparr>"
  have "on_ack 65535 s = (False, ?s)" using assms(1,2,4) by (simp add: on_ack_def)
  moreover have "block_offset ?s 0 < 0" using assms(3) by (simp add: block_offset_def)
  then have "next_data ?s = Inl Panic" using assms(5,6) by (simp add: next_data_def read_at_def)
  ultimately show ?thesis by (simp add: server_turn_def)
qed

lemma block_number_overflow_witness:
  "server_turn 65535 ((new_server_xfer [1, 2] 1)\<lparr>next_block := 65535, sent := Some [7]\<rparr>) = Inl Panic"
  by (rule block_number_overflow [of _ "[7]"]) (simp_all add: new_server_xfer_def)

end
