(* ===== verification/Net_Dhcp.thy ===== *)
theory Net_Dhcp
  imports Net_Frame Fmt_Sysregs
begin

text \<open>
  The DHCP responder of the netboot oracle (\<^verbatim>\<open>src/tools/netboot-oracle/dhcp/dhcp.go\<close> and
  \<^verbatim>\<open>responder.go\<close>): decoding a request, building the reply, and the lease table.  A Go array of
  four bytes is an \<open>ipv4\<close> here, the transaction id too.  The lemmas show that a reply parses back
  to what it was built from, that a client keeps its address, and that two clients share one only
  when more clients have been served than the pool has addresses, or than 256.
\<close>

section \<open>Messages\<close>

datatype dhcp_option = DOpt (dcode: u8) (dvalue: bytes)

record message =
  m_op :: u8
  m_xid :: ipv4
  m_flags :: u16
  m_yiaddr :: ipv4
  m_siaddr :: ipv4
  m_chaddr :: mac
  m_options :: "dhcp_option list"

definition magic_cookie :: bytes where "magic_cookie = [0x63, 0x82, 0x53, 0x63]"

definition opt_subnet_mask :: u8 where "opt_subnet_mask = 1"
definition opt_router :: u8 where "opt_router = 3"
definition opt_broadcast :: u8 where "opt_broadcast = 28"
definition opt_vendor_encap :: u8 where "opt_vendor_encap = 43"
definition opt_lease_time :: u8 where "opt_lease_time = 51"
definition opt_msg_type :: u8 where "opt_msg_type = 53"
definition opt_server_id :: u8 where "opt_server_id = 54"
definition opt_renewal_t1 :: u8 where "opt_renewal_t1 = 58"
definition opt_rebind_t2 :: u8 where "opt_rebind_t2 = 59"
definition opt_vendor_class :: u8 where "opt_vendor_class = 60"
definition opt_client_uuid :: u8 where "opt_client_uuid = 97"
definition opt_end :: u8 where "opt_end = 255"

lemmas opt_codes = opt_subnet_mask_def opt_router_def opt_broadcast_def opt_vendor_encap_def opt_lease_time_def
  opt_msg_type_def opt_server_id_def opt_renewal_t1_def opt_rebind_t2_def opt_vendor_class_def opt_client_uuid_def

definition pxe_client :: bytes where
  "pxe_client = [0x50, 0x58, 0x45, 0x43, 0x6c, 0x69, 0x65, 0x6e, 0x74]"

definition option43_raspberry_pi_boot :: bytes where
  "option43_raspberry_pi_boot =
     [0x06, 0x01, 0x03, 0x0a, 0x04, 0x00, 0x50, 0x58, 0x45, 0x09, 0x14, 0x00, 0x00, 0x11,
      0x52, 0x61, 0x73, 0x70, 0x62, 0x65, 0x72, 0x72, 0x79, 0x20, 0x50, 0x69, 0x20, 0x42, 0x6f, 0x6f, 0x74, 0xff]"

definition dhcp_option :: "message \<Rightarrow> u8 \<Rightarrow> bytes option" where
  "dhcp_option m code = map_option dvalue (List.find (\<lambda>d. dcode d = code) (m_options m))"

definition msg_type :: "message \<Rightarrow> u8" where
  "msg_type m = (case dhcp_option m opt_msg_type of Some [t] \<Rightarrow> t | _ \<Rightarrow> 0)"

section \<open>Parsing\<close>

text \<open>
  The option loop: padding is skipped, the end option and the end of the body stop it, and so
  does a code without a length.
\<close>

function parse_dhcp_options :: "bytes \<Rightarrow> nat \<Rightarrow> dhcp_option list res" where
  "parse_dhcp_options p off =
     (if off < length p then
        (let code = p ! off in
         if code = 0 then parse_dhcp_options p (off + 1)
         else if code = opt_end then Inr []
         else if off + 1 \<ge> length p then Inr []
         else let l = unat (p ! (off + 1)) in
           if off + 2 + l > length p then Inl (Error ''dhcp: option overruns body'')
           else sbind (parse_dhcp_options p (off + 2 + l)) (\<lambda>opts.
             Inr (DOpt code (take l (drop (off + 2) p)) # opts)))
      else Inr [])"
  by pat_completeness auto

termination parse_dhcp_options
  by (relation "measure (\<lambda>(p, off). length p - off)") auto

declare parse_dhcp_options.simps [simp del]

definition parse_dhcp :: "bytes \<Rightarrow> message res" where
  "parse_dhcp p =
     (if length p < 240 then Inl (Error ''dhcp: body too short'')
      else if take 4 (drop 236 p) \<noteq> magic_cookie then Inl (Error ''dhcp: bad magic cookie'')
      else sbind (parse_dhcp_options p 240) (\<lambda>opts.
        Inr \<lparr>m_op = p ! 0, m_xid = ip_at p 4, m_flags = be16_at p 10, m_yiaddr = ip_at p 16, m_siaddr = ip_at p 20,
             m_chaddr = mac_at p 28, m_options = opts\<rparr>))"

section \<open>Replies\<close>

record reply_params =
  r_msg_type :: u8
  r_xid :: ipv4
  r_yiaddr :: ipv4
  r_server_ip :: ipv4
  r_subnet :: ipv4
  r_broadcast :: ipv4
  r_lease :: u32
  r_t1 :: u32
  r_t2 :: u32
  r_chaddr :: mac
  r_uuid :: bytes
  r_flags :: u16

definition write_opt :: "dhcp_option \<Rightarrow> bytes" where
  "write_opt d = [dcode d, of_nat (length (dvalue d))] @ dvalue d"

definition reply_options :: "reply_params \<Rightarrow> dhcp_option list" where
  "reply_options p =
     [DOpt opt_msg_type [r_msg_type p], DOpt opt_server_id (ip_bytes (r_server_ip p)),
      DOpt opt_lease_time (put_be32 (r_lease p)), DOpt opt_renewal_t1 (put_be32 (r_t1 p)),
      DOpt opt_rebind_t2 (put_be32 (r_t2 p)), DOpt opt_subnet_mask (ip_bytes (r_subnet p)),
      DOpt opt_broadcast (ip_bytes (r_broadcast p)), DOpt opt_router (ip_bytes (r_server_ip p)),
      DOpt opt_vendor_class pxe_client]
     @ (if r_uuid p \<noteq> [] then [DOpt opt_client_uuid (r_uuid p)] else [])
     @ [DOpt opt_vendor_encap option43_raspberry_pi_boot]"

text \<open>
  The fixed part: operation, hardware type and length, hops, transaction id, seconds, flags, the
  four addresses, the hardware address padded to 16 bytes, the two unused names and the cookie.
\<close>

definition bootp_header :: "u8 \<Rightarrow> reply_params \<Rightarrow> bytes" where
  "bootp_header k p =
     [k, 1, 6, 0] @ ip_bytes (r_xid p) @ [0, 0] @ put_be16 (r_flags p) @ [0, 0, 0, 0]
     @ ip_bytes (r_yiaddr p) @ ip_bytes (r_server_ip p) @ [0, 0, 0, 0]
     @ mac_bytes (r_chaddr p) @ replicate 202 0 @ magic_cookie"

definition build_reply :: "reply_params \<Rightarrow> bytes" where
  "build_reply p = bootp_header 2 p @ concat (map write_opt (reply_options p)) @ [opt_end]"

section \<open>The responder\<close>

record responder =
  d_server_mac :: mac
  d_server_ip :: ipv4
  d_subnet :: ipv4
  d_broadcast :: ipv4
  d_lease :: u32
  d_t1 :: u32
  d_t2 :: u32
  pool_base :: ipv4
  pool_size :: nat
  leases :: "mac \<Rightarrow> ipv4 option"
  next_idx :: nat

definition new_responder :: "mac \<Rightarrow> ipv4 \<Rightarrow> ipv4 \<Rightarrow> ipv4 \<Rightarrow> ipv4 \<Rightarrow> int \<Rightarrow> u32 \<Rightarrow> u32 \<Rightarrow> u32 \<Rightarrow> responder" where
  "new_responder m sip sub bc base sz l t1 t2 =
     \<lparr>d_server_mac = m, d_server_ip = sip, d_subnet = sub, d_broadcast = bc, d_lease = l, d_t1 = t1, d_t2 = t2,
      pool_base = base, pool_size = (if sz < 1 then 1 else nat sz), leases = (\<lambda>_. None), next_idx = 0\<rparr>"

fun add_low_byte :: "ipv4 \<Rightarrow> u8 \<Rightarrow> ipv4" where
  "add_low_byte (Ip a b c d) n = Ip a b c (d + n)"

definition pool_address :: "responder \<Rightarrow> nat \<Rightarrow> ipv4" where
  "pool_address r i = add_low_byte (pool_base r) (of_nat (i mod pool_size r))"

definition lease :: "mac \<Rightarrow> responder \<Rightarrow> ipv4 \<times> responder" where
  "lease m r =
     (case leases r m of
        Some a \<Rightarrow> (a, r)
      | None \<Rightarrow> let a = pool_address r (next_idx r) in
          (a, r\<lparr>leases := (leases r)(m \<mapsto> a), next_idx := next_idx r + 1\<rparr>))"

definition reply_type :: "u8 \<Rightarrow> u8 option" where
  "reply_type t = (if t = 1 then Some 2 else if t = 3 then Some 5 else None)"

definition is_pxe :: "message \<Rightarrow> bool" where
  "is_pxe m = (case dhcp_option m opt_vendor_class of None \<Rightarrow> False | Some v \<Rightarrow> take 9 v = pxe_client)"

definition reply_for :: "u8 \<Rightarrow> message \<Rightarrow> responder \<Rightarrow> reply_params \<times> responder" where
  "reply_for t m r =
     (let (a, r') = lease (m_chaddr m) r in
      (\<lparr>r_msg_type = t, r_xid = m_xid m, r_yiaddr = a, r_server_ip = d_server_ip r, r_subnet = d_subnet r,
        r_broadcast = d_broadcast r, r_lease = d_lease r, r_t1 = d_t1 r, r_t2 = d_t2 r, r_chaddr = m_chaddr m,
        r_uuid = (case dhcp_option m opt_client_uuid of None \<Rightarrow> [] | Some u \<Rightarrow> u), r_flags = m_flags m\<rparr>, r'))"

text \<open>The request a frame carries, when the responder answers it.\<close>

definition request_of :: "bytes \<Rightarrow> (u8 \<times> message) option" where
  "request_of f =
     (case parse_udp f of
        None \<Rightarrow> None
      | Some u \<Rightarrow>
          if u_dst_port u \<noteq> 67 then None
          else case parse_dhcp (u_payload u) of
            Inl e \<Rightarrow> None
          | Inr m \<Rightarrow>
              if m_op m \<noteq> 1 then None
              else case reply_type (msg_type m) of
                None \<Rightarrow> None
              | Some t \<Rightarrow> if is_pxe m then Some (t, m) else None)"

definition on_request :: "bytes \<Rightarrow> responder \<Rightarrow> bytes option \<times> responder" where
  "on_request f r =
     (case request_of f of
        None \<Rightarrow> (None, r)
      | Some (t, m) \<Rightarrow>
          let (p, r') = reply_for t m r in
          (Some (build_udp_frame
             \<lparr>u_dst_mac = broadcast_mac, u_src_mac = d_server_mac r, u_src_ip = d_server_ip r,
              u_dst_ip = Ip 0xff 0xff 0xff 0xff, u_src_port = 67, u_dst_port = 68, u_payload = build_reply p\<rparr>), r'))"

section \<open>Replies parse back\<close>

definition opt_ok :: "dhcp_option \<Rightarrow> bool" where
  "opt_ok d \<longleftrightarrow> dcode d \<noteq> 0 \<and> dcode d \<noteq> opt_end \<and> length (dvalue d) \<le> 255"

lemma parse_written_options:
  "list_all opt_ok opts \<Longrightarrow> parse_dhcp_options (p @ concat (map write_opt opts) @ opt_end # q) (length p) = Inr opts"
proof (induction opts arbitrary: p)
  case Nil
  show ?case by (subst parse_dhcp_options.simps) (simp add: Let_def opt_end_def)
next
  case (Cons d opts)
  obtain c v where d: "d = DOpt c v" by (cases d)
  have ok: "c \<noteq> 0" "c \<noteq> opt_end" "length v \<le> 255" "list_all opt_ok opts"
    using Cons.prems by (auto simp: d opt_ok_def list_all_iff)
  have l: "unat (of_nat (length v) :: u8) = length v" using ok(3) by (simp add: unat_of_nat)
  let ?rest = "concat (map write_opt opts) @ opt_end # q"
  let ?p = "p @ c # of_nat (length v) # v @ ?rest"
  have "parse_dhcp_options ((p @ c # of_nat (length v) # v) @ ?rest) (length (p @ c # of_nat (length v) # v)) = Inr opts"
    by (rule Cons.IH [OF ok(4)])
  then have ih: "parse_dhcp_options ?p (length p + 2 + length v) = Inr opts" by simp
  have "?p ! length p = c" "?p ! (length p + 1) = of_nat (length v)" by (simp_all add: nth_append)
  moreover have "take (length v) (drop (length p + 2) ?p) = v" by simp
  ultimately have "parse_dhcp_options ?p (length p) = Inr (d # opts)"
    by (subst parse_dhcp_options.simps) (use ok ih l d in \<open>simp add: Let_def\<close>)
  moreover have "write_opt (DOpt c v) = c # of_nat (length v) # v" by (simp add: write_opt_def)
  ultimately show ?case by (simp add: d)
qed

lemma reply_options_ok: "length (r_uuid p) \<le> 255 \<Longrightarrow> list_all opt_ok (reply_options p)"
  by (simp add: reply_options_def opt_ok_def opt_codes opt_end_def pxe_client_def option43_raspberry_pi_boot_def)

lemma length_bootp_header [simp]: "length (bootp_header k p) = 240"
  by (simp add: bootp_header_def magic_cookie_def)

definition body_with :: "u8 \<Rightarrow> reply_params \<Rightarrow> bytes" where
  "body_with k p = bootp_header k p @ concat (map write_opt (reply_options p)) @ [opt_end]"

lemma parse_body_with:
  assumes "length (r_uuid p) \<le> 255"
  shows "parse_dhcp (body_with k p) =
    Inr \<lparr>m_op = k, m_xid = r_xid p, m_flags = r_flags p, m_yiaddr = r_yiaddr p, m_siaddr = r_server_ip p,
         m_chaddr = r_chaddr p, m_options = reply_options p\<rparr>"
proof -
  have o1: "parse_dhcp_options (body_with k p) 240 = Inr (reply_options p)"
    using parse_written_options [OF reply_options_ok [OF assms], of "bootp_header k p" "[]"] by (simp add: body_with_def)
  have head: "body_with k p ! i = bootp_header k p ! i" if "i < 240" for i
    using that by (simp add: body_with_def nth_append)
  have cookie: "take 4 (drop 236 (body_with k p)) = magic_cookie"
    by (simp add: body_with_def bootp_header_def magic_cookie_def)
  have "240 \<le> length (body_with k p)" by (simp add: body_with_def)
  moreover have "bootp_header k p ! 0 = k" "ip_at (body_with k p) 4 = r_xid p" "be16_at (body_with k p) 10 = r_flags p"
      "ip_at (body_with k p) 16 = r_yiaddr p" "ip_at (body_with k p) 20 = r_server_ip p" "mac_at (body_with k p) 28 = r_chaddr p"
    by (cases "r_xid p"; cases "r_yiaddr p"; cases "r_server_ip p"; cases "r_chaddr p";
        simp add: head ip_at_def mac_at_def be16_at_def bootp_header_def put_be16_def)+
  ultimately show ?thesis using o1 cookie head [of 0] by (simp add: parse_dhcp_def)
qed

lemma length_body_with: "length (r_uuid p) \<le> 255 \<Longrightarrow> length (body_with k p) \<le> 1000"
  by (simp add: body_with_def reply_options_def write_opt_def pxe_client_def option43_raspberry_pi_boot_def)

lemma build_reply_body: "build_reply p = body_with 2 p"
  by (simp add: build_reply_def body_with_def)

section \<open>Leases\<close>

text \<open>
  Every lease is the pool address of some index below \<open>next_idx\<close>, and no two leases have the
  same index.
\<close>

definition leases_ok :: "responder \<Rightarrow> bool" where
  "leases_ok r \<longleftrightarrow> 0 < pool_size r \<and>
     (\<exists>idx. inj_on idx (dom (leases r)) \<and> (\<forall>m\<in>dom (leases r). idx m < next_idx r \<and> leases r m = Some (pool_address r (idx m))))"

lemma leases_ok_new: "leases_ok (new_responder m sip sub bc base sz l t1 t2)"
  by (simp add: leases_ok_def new_responder_def)

lemma leases_ok_lease:
  assumes "leases_ok r"
  shows "leases_ok (snd (lease m r))"
proof (cases "leases r m")
  case None
  obtain idx where i: "inj_on idx (dom (leases r))"
      "\<forall>m\<in>dom (leases r). idx m < next_idx r \<and> leases r m = Some (pool_address r (idx m))"
    using assms by (auto simp: leases_ok_def)
  let ?r = "snd (lease m r)" and ?idx = "idx(m := next_idx r)"
  have l: "leases ?r = (leases r)(m \<mapsto> pool_address r (next_idx r))" "next_idx ?r = next_idx r + 1"
      "pool_address ?r = pool_address r" "pool_size ?r = pool_size r"
    using None by (simp_all add: lease_def Let_def pool_address_def fun_eq_iff)
  have "inj_on ?idx (dom (leases ?r))"
    using i None by (force simp: l inj_on_def)
  moreover have "\<forall>m'\<in>dom (leases ?r). ?idx m' < next_idx ?r \<and> leases ?r m' = Some (pool_address ?r (?idx m'))"
    using i(2) by (auto simp: l less_Suc_eq)
  ultimately show ?thesis using assms unfolding leases_ok_def l by blast
qed (use assms in \<open>simp add: lease_def\<close>)

lemma lease_kept: "leases r m = Some a \<Longrightarrow> leases (snd (lease m' r)) m = Some a"
  by (auto simp: lease_def Let_def split: option.split)

lemma lease_given: "leases (snd (lease m r)) m = Some (fst (lease m r))"
  by (auto simp: lease_def Let_def split: option.split)

lemma add_low_byte_inj: "add_low_byte a x = add_low_byte a y \<longleftrightarrow> x = y"
  by (cases a) simp

lemma pool_address_inj:
  assumes "i < pool_size r" "j < pool_size r" "i < 256" "j < 256" "pool_address r i = pool_address r j"
  shows "i = j"
proof -
  have "(of_nat i :: u8) = of_nat j" using assms by (simp add: pool_address_def add_low_byte_inj)
  then have "unat (of_nat i :: u8) = unat (of_nat j :: u8)" by simp
  then show ?thesis using assms by (simp add: unat_of_nat)
qed

text \<open>The responder over a run of frames.\<close>

fun serve :: "bytes list \<Rightarrow> responder \<Rightarrow> responder" where
  "serve [] r = r"
| "serve (f # fs) r = serve fs (snd (on_request f r))"

lemma on_request_state: "snd (on_request f r) = r \<or> (\<exists>m. snd (on_request f r) = snd (lease m r))"
proof (cases "request_of f")
  case (Some tm)
  then have "snd (on_request f r) = snd (lease (m_chaddr (snd tm)) r)"
    by (simp add: on_request_def reply_for_def split: prod.split)
  then show ?thesis by blast
qed (simp add: on_request_def)

lemma served_ok: "leases_ok r \<Longrightarrow> leases_ok (serve fs r)"
  by (induction fs arbitrary: r) (use on_request_state leases_ok_lease in \<open>simp_all, metis\<close>)

lemma serve_keeps: "leases r m = Some a \<Longrightarrow> leases (serve fs r) m = Some a"
  by (induction fs arbitrary: r) (use on_request_state lease_kept in \<open>simp_all, metis\<close>)

lemma lease_pool_size: "pool_size (snd (lease m r)) = pool_size r"
  by (auto simp: lease_def Let_def split: option.split)

lemma serve_pool_size: "pool_size (serve fs r) = pool_size r"
  by (induction fs arbitrary: r) (use on_request_state lease_pool_size in \<open>simp_all, metis\<close>)

lemma leases_distinct:
  assumes "leases_ok r" "next_idx r \<le> 256" "next_idx r \<le> pool_size r" "leases r m = Some a" "leases r m' = Some a"
  shows "m = m'"
proof -
  obtain idx where i: "inj_on idx (dom (leases r))"
      "\<forall>m\<in>dom (leases r). idx m < next_idx r \<and> leases r m = Some (pool_address r (idx m))"
    using assms(1) by (auto simp: leases_ok_def)
  have d: "m \<in> dom (leases r)" "m' \<in> dom (leases r)" using assms(4,5) by auto
  then have "pool_address r (idx m) = pool_address r (idx m')" "idx m < pool_size r" "idx m' < pool_size r"
      "idx m < 256" "idx m' < 256"
    using bspec [OF i(2) d(1)] bspec [OF i(2) d(2)] assms(2-5) by simp_all
  then have "idx m = idx m'" using pool_address_inj by blast
  then show ?thesis using i(1) d by (simp add: inj_on_def)
qed

section \<open>The properties\<close>

lemma parsed_options_short: "parse_dhcp_options p off = Inr opts \<Longrightarrow> d \<in> set opts \<Longrightarrow> length (dvalue d) \<le> 255"
proof (induction p off arbitrary: opts rule: parse_dhcp_options.induct)
  case (1 p off)
  have u: "unat (p ! (off + 1)) \<le> 255" using unsigned_less [of "p ! (off + 1)", where ?'a = nat] by simp
  show ?case
  proof (cases "off < length p \<and> p ! off \<noteq> 0 \<and> p ! off \<noteq> opt_end \<and> off + 1 < length p \<and> off + 2 + unat (p ! (off + 1)) \<le> length p")
    case False
    then show ?thesis
      using 1 by (subst (asm) (3) parse_dhcp_options.simps) (auto simp: Let_def split: if_splits)
  next
    case True
    let ?l = "unat (p ! (off + 1))"
    obtain rest where r: "parse_dhcp_options p (off + 2 + ?l) = Inr rest" "opts = DOpt (p ! off) (take ?l (drop (off + 2) p)) # rest"
      using 1(3) True by (subst (asm) parse_dhcp_options.simps) (auto simp: Let_def elim!: sbindE)
    show ?thesis
      using 1(2) [OF _ refl _ _ _ refl, of rest] True r 1(4) u by auto
  qed
qed

lemma dhcp_option_short: "parse_dhcp p = Inr m \<Longrightarrow> dhcp_option m code = Some v \<Longrightarrow> length v \<le> 255"
  by (auto simp: parse_dhcp_def dhcp_option_def parsed_options_short dest: find_SomeD split: if_splits elim!: sbindE)

lemma request_of_type: "request_of f = Some (t, m) \<Longrightarrow> t = (if msg_type m = 1 then 2 else 5)"
  by (auto simp: request_of_def reply_type_def split: option.splits if_splits sum.splits)

text \<open>The options of an answer, with the bytes of the strings spelled out.\<close>

lemma reply_for_options:
  assumes "reply_for t m r = (p, r')"
  shows "reply_options p =
      [DOpt 53 [t], DOpt 54 (ip_bytes (d_server_ip r)), DOpt 51 (put_be32 (d_lease r)), DOpt 58 (put_be32 (d_t1 r)),
       DOpt 59 (put_be32 (d_t2 r)), DOpt 1 (ip_bytes (d_subnet r)), DOpt 28 (ip_bytes (d_broadcast r)),
       DOpt 3 (ip_bytes (d_server_ip r)), DOpt 60 (map of_char ''PXEClient'')]
      @ (case dhcp_option m 97 of None \<Rightarrow> [] | Some u \<Rightarrow> if u = [] then [] else [DOpt 97 u])
      @ [DOpt 43 ([6, 1, 3, 10, 4, 0] @ map of_char ''PXE'' @ [9, 20, 0, 0, 17] @ map of_char ''Raspberry Pi Boot'' @ [255])]"
    and "r_xid p = m_xid m" and "r_flags p = m_flags m" and "r_server_ip p = d_server_ip r" and "r_chaddr p = m_chaddr m"
proof -
  have "map of_char ''PXEClient'' = pxe_client"
    and "[6, 1, 3, 10, 4, 0] @ map of_char ''PXE'' @ [9, 20, 0, 0, 17] @ map of_char ''Raspberry Pi Boot'' @ [255]
      = option43_raspberry_pi_boot"
    by (simp_all add: pxe_client_def option43_raspberry_pi_boot_def of_char_def)
  with assms show "reply_options p =
      [DOpt 53 [t], DOpt 54 (ip_bytes (d_server_ip r)), DOpt 51 (put_be32 (d_lease r)), DOpt 58 (put_be32 (d_t1 r)),
       DOpt 59 (put_be32 (d_t2 r)), DOpt 1 (ip_bytes (d_subnet r)), DOpt 28 (ip_bytes (d_broadcast r)),
       DOpt 3 (ip_bytes (d_server_ip r)), DOpt 60 (map of_char ''PXEClient'')]
      @ (case dhcp_option m 97 of None \<Rightarrow> [] | Some u \<Rightarrow> if u = [] then [] else [DOpt 97 u])
      @ [DOpt 43 ([6, 1, 3, 10, 4, 0] @ map of_char ''PXE'' @ [9, 20, 0, 0, 17] @ map of_char ''Raspberry Pi Boot'' @ [255])]"
    by (auto simp: reply_for_def reply_options_def opt_codes split: prod.splits option.splits)
  show "r_xid p = m_xid m" "r_flags p = m_flags m" "r_server_ip p = d_server_ip r" "r_chaddr p = m_chaddr m"
    using assms by (auto simp: reply_for_def split: prod.splits)
qed

lemma request_ofD: "request_of f = Some (t, m) \<Longrightarrow> \<exists>u. parse_udp f = Some u \<and> parse_dhcp (u_payload u) = Inr m"
  by (auto simp: request_of_def split: option.splits if_splits sum.splits)

text \<open>
  C35.  The answer to a request is a frame to the broadcast address, from the server's port 67 to port
  68, whose body parses back to a reply with the request's transaction id, flags and hardware address,
  the server as next server, and as the client's address the one the lease table now holds for it.
  Its options are, in order: the message type, OFFER (2) for a DISCOVER and ACK (5) for a REQUEST;
  the server; the lease, renewal and rebinding times; the mask, the broadcast address and the router;
  the PXE vendor class; the client's UUID if it sent one; and the Raspberry Pi boot vendor option.
\<close>

theorem dhcp_reply_parses:
  assumes "request_of f = Some (t, m)" and "on_request f r = (Some g, r')"
  shows "\<exists>u a. parse_udp g = Some u \<and> u_dst_mac u = broadcast_mac \<and> u_src_port u = 67 \<and> u_dst_port u = 68
    \<and> leases r' (m_chaddr m) = Some a \<and> parse_dhcp (u_payload u) =
    Inr \<lparr>m_op = 2, m_xid = m_xid m, m_flags = m_flags m, m_yiaddr = a, m_siaddr = d_server_ip r,
         m_chaddr = m_chaddr m,
         m_options =
           [DOpt 53 [if msg_type m = 1 then 2 else 5], DOpt 54 (ip_bytes (d_server_ip r)),
            DOpt 51 (put_be32 (d_lease r)), DOpt 58 (put_be32 (d_t1 r)), DOpt 59 (put_be32 (d_t2 r)),
            DOpt 1 (ip_bytes (d_subnet r)), DOpt 28 (ip_bytes (d_broadcast r)), DOpt 3 (ip_bytes (d_server_ip r)),
            DOpt 60 (map of_char ''PXEClient'')]
           @ (case dhcp_option m 97 of None \<Rightarrow> [] | Some u \<Rightarrow> if u = [] then [] else [DOpt 97 u])
           @ [DOpt 43 ([6, 1, 3, 10, 4, 0] @ map of_char ''PXE'' @ [9, 20, 0, 0, 17] @ map of_char ''Raspberry Pi Boot'' @ [255])]\<rparr>"
proof -
  obtain p where p: "reply_for t m r = (p, r')"
    using assms by (auto simp: on_request_def split: prod.splits)
  have uuid: "length (r_uuid p) \<le> 255"
    using p request_ofD [OF assms(1)] dhcp_option_short
    by (auto simp: reply_for_def split: prod.splits option.splits)
  let ?u = "\<lparr>u_dst_mac = broadcast_mac, u_src_mac = d_server_mac r, u_src_ip = d_server_ip r,
      u_dst_ip = Ip 0xff 0xff 0xff 0xff, u_src_port = 67, u_dst_port = 68, u_payload = build_reply p\<rparr>"
  have "g = build_udp_frame ?u" using assms p by (simp add: on_request_def)
  then have "parse_udp g = Some ?u"
    using length_body_with [OF uuid, of 2] by (simp add: parse_build_udp build_reply_body)
  moreover have "leases r' (m_chaddr m) = Some (r_yiaddr p)"
    using p lease_given [of "m_chaddr m" r] by (auto simp: reply_for_def split: prod.splits)
  moreover have "t = (if msg_type m = 1 then 2 else 5)" by (rule request_of_type [OF assms(1)])
  ultimately show ?thesis
    using parse_body_with [OF uuid, of 2] reply_for_options [OF p] by (auto simp: build_reply_body)
qed

text \<open>A request to run: a DISCOVER with the vendor class of a PXE client.\<close>

definition demo_params :: "mac \<Rightarrow> reply_params" where
  "demo_params m =
     \<lparr>r_msg_type = 1, r_xid = Ip 1 2 3 4, r_yiaddr = Ip 0 0 0 0, r_server_ip = Ip 0 0 0 0, r_subnet = Ip 0 0 0 0,
      r_broadcast = Ip 0 0 0 0, r_lease = 0, r_t1 = 0, r_t2 = 0, r_chaddr = m, r_uuid = [], r_flags = 0x8000\<rparr>"

definition demo_request :: "mac \<Rightarrow> bytes" where
  "demo_request m = build_udp_frame
     \<lparr>u_dst_mac = broadcast_mac, u_src_mac = m, u_src_ip = Ip 0 0 0 0, u_dst_ip = Ip 0xff 0xff 0xff 0xff,
      u_src_port = 68, u_dst_port = 67, u_payload = body_with 1 (demo_params m)\<rparr>"

definition demo_responder :: responder where
  "demo_responder = new_responder (Mac 2 0 0 0 0 9) (Ip 10 0 0 1) (Ip 255 255 255 0) (Ip 10 0 0 255) (Ip 10 0 0 10) 2 7200 3600 6300"

definition demo_message :: "mac \<Rightarrow> message" where
  "demo_message m = \<lparr>m_op = 1, m_xid = Ip 1 2 3 4, m_flags = 0x8000, m_yiaddr = Ip 0 0 0 0, m_siaddr = Ip 0 0 0 0,
     m_chaddr = m, m_options = reply_options (demo_params m)\<rparr>"

lemma demo_request_of: "request_of (demo_request m) = Some (2, demo_message m)"
proof -
  have u: "parse_udp (demo_request m) = Some
     \<lparr>u_dst_mac = broadcast_mac, u_src_mac = m, u_src_ip = Ip 0 0 0 0, u_dst_ip = Ip 0xff 0xff 0xff 0xff,
      u_src_port = 68, u_dst_port = 67, u_payload = body_with 1 (demo_params m)\<rparr>"
    unfolding demo_request_def
    by (rule parse_build_udp) (use length_body_with [of "demo_params m" 1] in \<open>simp add: demo_params_def\<close>)
  have d: "parse_dhcp (body_with 1 (demo_params m)) = Inr (demo_message m)"
    using parse_body_with [of "demo_params m" 1] by (simp add: demo_params_def demo_message_def)
  have "msg_type (demo_message m) = 1" "is_pxe (demo_message m)" "m_op (demo_message m) = 1"
    by (simp_all add: msg_type_def is_pxe_def dhcp_option_def demo_message_def reply_options_def demo_params_def opt_codes pxe_client_def)
  then show ?thesis using u d by (simp add: request_of_def reply_type_def)
qed

lemma dhcp_reply_parses_witness:
  "\<exists>g r'. on_request (demo_request (Mac 0 0 0 0 0 1)) demo_responder = (Some g, r')
    \<and> (\<exists>u a opts. parse_udp g = Some u \<and> leases r' (Mac 0 0 0 0 0 1) = Some a \<and> parse_dhcp (u_payload u) =
      Inr \<lparr>m_op = 2, m_xid = Ip 1 2 3 4, m_flags = 0x8000, m_yiaddr = a, m_siaddr = Ip 10 0 0 1,
           m_chaddr = Mac 0 0 0 0 0 1, m_options = DOpt 53 [2] # DOpt 54 [10, 0, 0, 1] # opts\<rparr>)"
proof -
  obtain g r' where g: "on_request (demo_request (Mac 0 0 0 0 0 1)) demo_responder = (Some g, r')"
    by (cases "reply_for 2 (demo_message (Mac 0 0 0 0 0 1)) demo_responder") (auto simp: on_request_def demo_request_of)
  have t: "msg_type (demo_message (Mac 0 0 0 0 0 1)) = 1"
    by (simp add: msg_type_def dhcp_option_def demo_message_def reply_options_def demo_params_def opt_codes)
  from dhcp_reply_parses [OF demo_request_of g] g t show ?thesis
    by (auto simp: demo_message_def demo_responder_def new_responder_def)
qed

text \<open>
  C34.  While no more clients have been served than the pool has addresses, and no more than 256, two
  clients that were ever served have different addresses, however the requests were ordered and
  repeated.  Beyond 256 the last byte of the address wraps, whatever the size of the pool: see
  \<open>large_pool_wraps\<close>.
\<close>

theorem dhcp_addresses_distinct:
  assumes "leases (serve fs (new_responder cm sip sub bc base sz l t1 t2)) m = Some a"
    and "leases (serve fs (new_responder cm sip sub bc base sz l t1 t2)) m' = Some a"
    and "next_idx (serve fs (new_responder cm sip sub bc base sz l t1 t2)) \<le> min 256 (max 1 (nat sz))"
  shows "m = m'"
proof (rule leases_distinct [OF served_ok [OF leases_ok_new] _ _ assms(1,2)])
  have "pool_size (serve fs (new_responder cm sip sub bc base sz l t1 t2)) = max 1 (nat sz)"
    by (simp add: serve_pool_size) (simp add: new_responder_def)
  with assms(3) show "next_idx (serve fs (new_responder cm sip sub bc base sz l t1 t2)) \<le> 256"
      "next_idx (serve fs (new_responder cm sip sub bc base sz l t1 t2)) \<le> pool_size (serve fs (new_responder cm sip sub bc base sz l t1 t2))"
    by simp_all
qed

text \<open>A pool of more than 256 addresses hands out the same address again after 256 clients.\<close>

lemma large_pool_wraps:
  assumes "i + 256 < pool_size r"
  shows "pool_address r (i + 256) = pool_address r i"
proof -
  have "(of_nat (i + 256) :: u8) = of_nat i"
    by (simp only: word_of_nat_eq_iff take_bit_eq_mod) simp
  with assms show ?thesis by (simp only: pool_address_def mod_less add_lessD1 [OF assms])
qed

lemma demo_serve:
  "leases (serve [demo_request (Mac 0 0 0 0 0 1), demo_request (Mac 0 0 0 0 0 2)] demo_responder) (Mac 0 0 0 0 0 1) = Some (Ip 10 0 0 10)"
  "next_idx (serve [demo_request (Mac 0 0 0 0 0 1), demo_request (Mac 0 0 0 0 0 2)] demo_responder) = 2"
  by (simp_all add: on_request_def demo_request_of reply_for_def lease_def Let_def pool_address_def demo_message_def
      demo_responder_def new_responder_def)

lemma dhcp_addresses_distinct_witness:
  "leases (serve [demo_request (Mac 0 0 0 0 0 1), demo_request (Mac 0 0 0 0 0 2)] demo_responder) (Mac 0 0 0 0 0 2) \<noteq> Some (Ip 10 0 0 10)"
proof
  let ?fs = "[demo_request (Mac 0 0 0 0 0 1), demo_request (Mac 0 0 0 0 0 2)]"
  assume "leases (serve ?fs demo_responder) (Mac 0 0 0 0 0 2) = Some (Ip 10 0 0 10)"
  then have "Mac 0 0 0 0 0 1 = Mac 0 0 0 0 0 2"
    unfolding demo_responder_def
    by (rule dhcp_addresses_distinct [OF demo_serve(1) [unfolded demo_responder_def]])
       (use demo_serve(2) in \<open>simp_all add: demo_responder_def\<close>)
  then show False by simp
qed

text \<open>
  A client keeps its address: once leased, every later frame from anyone leaves it as it is.
\<close>

theorem dhcp_address_kept:
  assumes "leases r m = Some a"
  shows "leases (serve fs r) m = Some a"
  using assms by (rule serve_keeps)

lemma dhcp_address_kept_witness:
  "leases (serve [demo_request (Mac 0 0 0 0 0 2)] (snd (lease (Mac 0 0 0 0 0 1) demo_responder))) (Mac 0 0 0 0 0 1)
    = Some (fst (lease (Mac 0 0 0 0 0 1) demo_responder))"
  by (rule dhcp_address_kept [OF lease_given])

end
