(* ===== verification/Net_Store.thy ===== *)
theory Net_Store
  imports Net_Stream Tftp_Packets "HOL-Library.Multiset"
begin

text \<open>
  The storage of the netboot oracle: the file blocks of B-DOS (\<^verbatim>\<open>bdos/bdos.go\<close>), the records a
  large object is spread over (\<^verbatim>\<open>bdos/span.go\<close>), the storage class of a
  name (\<^verbatim>\<open>bdos/storage.go\<close>), the sink that cuts a stream into sectors
  (\<^verbatim>\<open>bdos/raw_sink.go\<close>) and the allocation of records (\<^verbatim>\<open>tftp/allocator.go\<close>), under
  \<^verbatim>\<open>src/tools/netboot-oracle/\<close>.  The lemmas show that lengths survive their encoding, that the
  records and the sectors of an object give it back, and that an allocation is exact and takes
  only what its policy allows.
\<close>

section \<open>File blocks\<close>

definition name_to_uifa :: "string \<Rightarrow> bytes" where
  "name_to_uifa name =
     (let n = take 10 (wire (takeWhile (\<lambda>c. c \<noteq> CHR ''.'') name)) in
      [19] @ n @ replicate (10 - length n) 0x20 @ replicate 4 0x20 @ replicate 33 0xff)"

definition difa_to_size :: "bytes \<Rightarrow> u32" where
  "difa_to_size d =
     ucast (d ! 34) * 16384 + (ucast (d ! 35) OR push_bit 8 (ucast (d ! 36 AND NOT 0x80)))"

definition save_uifa :: "string \<Rightarrow> u8 \<Rightarrow> u16 \<Rightarrow> u32 \<Rightarrow> bytes res" where
  "save_uifa name page load sz =
     (if sz > 0xffff then Inl (Error ''bdos: file size exceeds the 16-bit UIFA length ceiling (64 KB; registry i24)'')
      else let rem = ucast (sz AND 0x3fff) :: u16 in
        Inr ((name_to_uifa name)
          [31 := page AND 0x1f, 32 := ucast load, 33 := ucast (drop_bit 8 load), 34 := ucast (drop_bit 14 sz),
           35 := ucast rem, 36 := ucast (drop_bit 8 rem)]))"

lemma length_uifa [simp]: "length (name_to_uifa name) = 48"
  by (simp add: name_to_uifa_def Let_def min_def)

text \<open>The flat directory of a record.\<close>

type_synonym flat_store = "(string \<times> u32) list"

definition flat_lookup :: "flat_store \<Rightarrow> string \<Rightarrow> u32 option" where
  "flat_lookup s name = map_of s name"

fun flat_add :: "string \<Rightarrow> u32 \<Rightarrow> flat_store \<Rightarrow> flat_store" where
  "flat_add name sz [] = [(name, sz)]"
| "flat_add name sz ((n, z) # s) = (if n = name then (n, sz) # s else (n, z) # flat_add name sz s)"

definition flat_wire :: "flat_store \<Rightarrow> bytes" where
  "flat_wire s = concat (map (\<lambda>(n, z). cstr n @ rev (put_be32 z)) s) @ [0]"

lemma flat_lookup_add: "flat_lookup (flat_add name sz s) n = (if n = name then Some sz else flat_lookup s n)"
  by (induction s) (auto simp: flat_lookup_def)

text \<open>Where a name goes (\<^verbatim>\<open>bdos/storage.go\<close>); a valid disk record has exactly the size of one.\<close>

datatype storage_class = FlatFile | DiskRecord

definition disk_record_prefix :: string where "disk_record_prefix = ''trinity-sam-disks/''"

definition classify :: "string \<Rightarrow> storage_class \<times> string" where
  "classify name =
     (let k = length disk_record_prefix in
      if length name > k \<and> take k name = disk_record_prefix then (DiskRecord, drop k name) else (FlatFile, name))"

definition validate_disk_record :: "int \<Rightarrow> bytes \<Rightarrow> unit res" where
  "validate_disk_record sz first = (if sz \<noteq> 819200 then Inl (Error ''disk record: wrong size'') else Inr ())"

lemma classify_name: "classify name = (c, n) \<Longrightarrow> name = (case c of DiskRecord \<Rightarrow> disk_record_prefix @ n | FlatFile \<Rightarrow> n)"
  by (auto simp: classify_def Let_def split: if_splits) (metis append_take_drop_id)

section \<open>Spanned objects\<close>

record span_record =
  sp_name :: string
  sp_offset :: int
  sp_length :: int

definition hex_digit_char :: "nat \<Rightarrow> char" where
  "hex_digit_char n = char_of (if n < 10 then 48 + n else 87 + n)"

definition hex2 :: "u8 \<Rightarrow> string" where
  "hex2 b = [hex_digit_char (unat b div 16), hex_digit_char (unat b mod 16)]"

text \<open>\<^verbatim>\<open>%0*d\<close> with the width of the index.\<close>

definition pad_dec :: "nat \<Rightarrow> nat \<Rightarrow> string" where
  "pad_dec w n = replicate (w - length (dec n)) CHR ''0'' @ dec n"

definition span_record_name :: "bytes \<Rightarrow> nat \<Rightarrow> string" where
  "span_record_name h i = hex2 (h ! 0) @ hex2 (h ! 1) @ hex2 (h ! 2) @ pad_dec 3 i"

text \<open>Sizes and caps are Go ints; their sum is assumed not to overflow.\<close>

definition span_count :: "int \<Rightarrow> int \<Rightarrow> int" where
  "span_count sz cap = (if cap \<le> 0 then 0 else if sz \<le> 0 then 1 else (sz + cap - 1) div cap)"

definition span_plan :: "bytes \<Rightarrow> int \<Rightarrow> int \<Rightarrow> span_record list" where
  "span_plan h sz cap =
     (if cap \<le> 0 then []
      else map (\<lambda>i. let off = int i * cap; rem = sz - off in
             \<lparr>sp_name = span_record_name h i, sp_offset = off, sp_length = (if rem < cap then rem else cap)\<rparr>)
           [0..<nat (span_count sz cap)])"

definition stored_record_names :: "bytes \<Rightarrow> nat \<Rightarrow> string list" where
  "stored_record_names h n = map (span_record_name h) [0..<n]"

section \<open>Sectors\<close>

record raw_sink =
  rs_buf :: bytes
  rs_linear :: nat
  rs_total :: nat
  rs_writes :: "(nat \<times> bytes) list"

definition new_raw_sink :: raw_sink where
  "new_raw_sink = \<lparr>rs_buf = [], rs_linear = 0, rs_total = 0, rs_writes = []\<rparr>"

text \<open>\<^verbatim>\<open>flush\<close> copies the buffer into a sector of zeros.\<close>

definition raw_flush :: "raw_sink \<Rightarrow> raw_sink" where
  "raw_flush s =
     s\<lparr>rs_writes := rs_writes s @ [(rs_linear s, take 512 (rs_buf s) @ replicate (512 - length (rs_buf s)) 0)],
       rs_linear := rs_linear s + 1, rs_buf := []\<rparr>"

text \<open>
  The loop of \<^verbatim>\<open>Write\<close>.  It takes \<open>min (512 - length buf) (length p)\<close> bytes in each round, which
  is at least one because a full buffer is always flushed; the invariant is \<open>raw_ok\<close>.
\<close>

function raw_fill :: "bytes \<Rightarrow> raw_sink \<Rightarrow> raw_sink option" where
  "raw_fill p s =
     (if p = [] then Some s
      else let avail = 512 - int (length (rs_buf s)); n = min (int (length p)) avail in
        if n \<le> 0 then None
        else let s1 = s\<lparr>rs_buf := rs_buf s @ take (nat n) p\<rparr> in
          raw_fill (drop (nat n) p) (if length (rs_buf s1) = 512 then raw_flush s1 else s1))"
  by pat_completeness auto

termination raw_fill
  by (relation "measure (\<lambda>(p, s). length p)") (auto simp: min_def split: if_splits)

declare raw_fill.simps [simp del]

definition raw_write :: "bytes \<Rightarrow> raw_sink \<Rightarrow> raw_sink option" where
  "raw_write p s = raw_fill p (s\<lparr>rs_total := rs_total s + length p\<rparr>)"

definition raw_finish :: "raw_sink \<Rightarrow> raw_sink" where
  "raw_finish s =
     (if rs_buf s = [] then s
      else raw_flush (s\<lparr>rs_buf := rs_buf s @ replicate (512 - length (rs_buf s)) 0\<rparr>))"

definition raw_pending :: "raw_sink \<Rightarrow> nat" where "raw_pending s = length (rs_buf s)"

section \<open>Allocation\<close>

datatype strategy = StrategyHighestFree | StrategyFirstFree | StrategyFixedList

fun strategy_name :: "strategy \<Rightarrow> string" where
  "strategy_name StrategyHighestFree = ''highest-free''"
| "strategy_name StrategyFirstFree = ''first-free''"
| "strategy_name StrategyFixedList = ''fixed-list''"

record alloc_config =
  ac_strategy :: strategy
  ac_self :: bool
  ac_fixed :: "int list"

record record_state =
  rc_record :: int
  rc_cap :: int
  rc_used :: int

definition free_bytes :: "record_state \<Rightarrow> int" where
  "free_bytes r = (if rc_used r \<ge> rc_cap r then 0 else rc_cap r - rc_used r)"

definition claimed :: "record_state \<Rightarrow> bool" where
  "claimed r = (rc_used r > 0)"

record alloc_part =
  ap_record :: int
  ap_offset :: int
  ap_length :: int
  ap_start :: int

text \<open>A plan is the parts, or the number of bytes that were missing.\<close>

datatype alloc_plan = Parts "alloc_part list" | Warning int

definition contains_int :: "int list \<Rightarrow> int \<Rightarrow> bool" where
  "contains_int xs x = (x \<in> set xs)"

definition eligible :: "alloc_config \<Rightarrow> int \<Rightarrow> record_state \<Rightarrow> bool" where
  "eligible cfg self r =
     (if rc_record r = self \<and> \<not> ac_self cfg then False
      else if ac_strategy cfg = StrategyFixedList then contains_int (ac_fixed cfg) (rc_record r)
      else True)"

text \<open>Records have distinct numbers, so the order of \<^verbatim>\<open>sort.Slice\<close> is the only sorted one.\<close>

definition ordered_candidates :: "alloc_config \<Rightarrow> int \<Rightarrow> record_state list \<Rightarrow> record_state list" where
  "ordered_candidates cfg self rs =
     (let el = filter (eligible cfg self) rs;
          cl = filter (\<lambda>r. claimed r \<and> free_bytes r > 0) el;
          fr = filter (\<lambda>r. \<not> claimed r) el in
      sort_key rc_record cl
      @ (if ac_strategy cfg = StrategyHighestFree then sort_key (\<lambda>r. - rc_record r) fr else sort_key rc_record fr))"

fun take_parts :: "record_state list \<Rightarrow> int \<Rightarrow> int \<Rightarrow> alloc_part list \<times> int" where
  "take_parts [] rem off = ([], rem)"
| "take_parts (r # rs) rem off =
     (if rem = 0 then ([], rem)
      else if free_bytes r \<le> 0 then take_parts rs rem off
      else let t = (if free_bytes r > rem then rem else free_bytes r) in
        (case take_parts rs (rem - t) (off + t) of (ps, rem') \<Rightarrow>
           (\<lparr>ap_record = rc_record r, ap_offset = off, ap_length = t, ap_start = rc_used r\<rparr> # ps, rem')))"

definition allocate :: "alloc_config \<Rightarrow> int \<Rightarrow> int \<Rightarrow> record_state list \<Rightarrow> alloc_plan" where
  "allocate cfg sz self rs =
     (let cand = ordered_candidates cfg self rs in
      if sz = 0 then
        (case List.find (\<lambda>r. free_bytes r > 0) cand of
           Some r \<Rightarrow> Parts [\<lparr>ap_record = rc_record r, ap_offset = 0, ap_length = 0, ap_start = rc_used r\<rparr>]
         | None \<Rightarrow> Warning 0)
      else (case take_parts cand sz 0 of (ps, rem) \<Rightarrow> if rem > 0 then Warning rem else Parts ps))"

section \<open>Lengths of file blocks\<close>

lemma save_uifa_fields:
  assumes "save_uifa name page load sz = Inr u"
  shows "u ! 34 = ucast (drop_bit 14 sz)" and "u ! 35 = ucast (ucast (sz AND 0x3fff) :: u16)"
    and "u ! 36 = ucast (drop_bit 8 (ucast (sz AND 0x3fff) :: u16))" and "sz \<le> 0xffff"
  using assms by (auto simp: save_uifa_def Let_def split: if_splits)

lemma small_bits: "sz \<le> 0xffff \<Longrightarrow> bit (sz :: u32) n \<Longrightarrow> n < 16"
  using bit_less_exp [of sz 16 n] by (simp add: word_le_nat_alt word_less_nat_alt)

lemma size_split:
  assumes "sz \<le> (0xffff :: u32)"
  shows "ucast (ucast (drop_bit 14 sz) :: u8) * 16384 = push_bit 14 (drop_bit 14 sz)"
    and "ucast (ucast (ucast (sz AND 0x3fff) :: u16) :: u8)
      OR push_bit 8 (ucast ((ucast (drop_bit 8 (ucast (sz AND 0x3fff) :: u16)) :: u8) AND NOT 0x80)) = take_bit 14 sz"
proof -
  have "ucast (ucast (drop_bit 14 sz) :: u8) = drop_bit 14 sz"
    by (rule bit_word_eqI) (auto simp: bit_simps dest: small_bits [OF assms])
  then show "ucast (ucast (drop_bit 14 sz) :: u8) * 16384 = push_bit 14 (drop_bit 14 sz)"
    by (simp add: push_bit_eq_mult)
  have m: "sz AND 0x3fff = take_bit 14 sz" by (simp add: take_bit_eq_mask mask_eq_exp_minus_1)
  have "bit (0x80 :: u8) n \<longleftrightarrow> n = 7" for n
  proof -
    have "(0x80 :: u8) = push_bit 7 1" by (simp add: push_bit_of_1)
    then show ?thesis by (simp only: bit_push_bit_iff bit_1_iff) auto
  qed
  note b = this
  show "ucast (ucast (ucast (sz AND 0x3fff) :: u16) :: u8)
      OR push_bit 8 (ucast ((ucast (drop_bit 8 (ucast (sz AND 0x3fff) :: u16)) :: u8) AND NOT 0x80)) = take_bit 14 sz"
  proof (rule bit_word_eqI)
    fix n assume "n < LENGTH(32)"
    consider "n < 8" | "8 \<le> n" "n < 14" | "n = 15" | "14 \<le> n" "n \<noteq> 15" by linarith
    then show "bit (ucast (ucast (ucast (sz AND 0x3fff) :: u16) :: u8)
        OR push_bit 8 (ucast ((ucast (drop_bit 8 (ucast (sz AND 0x3fff) :: u16)) :: u8) AND NOT 0x80)) :: u32) n = bit (take_bit 14 sz) n"
      unfolding m by cases (auto simp: bit_simps b simp del: bit_numeral_word_iff)
  qed
qed

lemma saved_size: "save_uifa name page load sz = Inr u \<Longrightarrow> difa_to_size u = sz"
proof -
  assume a: "save_uifa name page load sz = Inr u"
  note f = save_uifa_fields [OF a]
  have "difa_to_size u = push_bit 14 (drop_bit 14 sz) + take_bit 14 sz"
    unfolding difa_to_size_def f(1-3) size_split [OF f(4)] ..
  also have "\<dots> = push_bit 14 (drop_bit 14 sz) OR take_bit 14 sz"
    by (rule disjunctive_add) (auto simp: bit_simps)
  also have "\<dots> = sz" by (rule bit_word_eqI) (auto simp: bit_simps)
  finally show ?thesis .
qed

section \<open>The records of an object\<close>

text \<open>The bytes of an object that a record holds.\<close>

definition span_bytes :: "bytes \<Rightarrow> span_record \<Rightarrow> bytes" where
  "span_bytes blob r = take (nat (sp_length r)) (drop (nat (sp_offset r)) blob)"

lemma span_count_pos: "0 < cap \<Longrightarrow> 0 < span_count sz cap"
  by (simp add: span_count_def pos_imp_zdiv_pos_iff)

lemma chunks_concat:
  "0 < c \<Longrightarrow> length (blob :: bytes) \<le> n * c \<Longrightarrow> concat (map (\<lambda>i. take c (drop (i * c) blob)) [0..<n]) = blob"
proof (induction n arbitrary: blob)
  case (Suc n)
  have "[0..<Suc n] = 0 # map Suc [0..<n]" by (simp add: map_Suc_upt upt_conv_Cons)
  moreover have "concat (map (\<lambda>i. take c (drop (i * c) (drop c blob))) [0..<n]) = drop c blob"
    by (rule Suc.IH) (use Suc.prems in auto)
  ultimately show ?case by (simp add: comp_def add.commute)
qed simp

lemma span_bytes_at:
  assumes "0 < cap" "i < nat (span_count (int (length blob)) cap)"
  shows "span_bytes blob (span_plan h (int (length blob)) cap ! i) = take (nat cap) (drop (i * nat cap) blob)"
proof -
  have off: "nat (int i * cap) = i * nat cap" using assms(1) by (simp add: nat_mult_distrib)
  have "take (nat (int (length blob) - int i * cap)) (drop (i * nat cap) blob) = drop (i * nat cap) blob"
    by (rule take_all) (use assms(1) off in \<open>simp add: nat_diff_distrib'\<close>)
  moreover have "take (nat cap) (drop (i * nat cap) blob) = drop (i * nat cap) blob" if "int (length blob) - int i * cap < cap"
    by (rule take_all) (use assms(1) that off in \<open>simp add: nat_le_iff le_diff_conv\<close>)
  ultimately show ?thesis
    using assms off by (simp add: span_plan_def span_bytes_def Let_def)
qed

lemma span_count_covers:
  assumes "0 < cap"
  shows "length blob \<le> nat (span_count (int (length blob)) cap) * nat cap"
proof (cases "blob = []")
  case False
  let ?z = "int (length blob)"
  have "?z \<le> (?z + cap - 1) div cap * cap"
  proof -
    have "?z + cap - 1 = (?z + cap - 1) div cap * cap + (?z + cap - 1) mod cap" by simp
    moreover have "(?z + cap - 1) mod cap < cap" using assms by simp
    ultimately show ?thesis by linarith
  qed
  then have "?z \<le> span_count ?z cap * cap" using assms False by (simp add: span_count_def)
  also have "\<dots> = int (nat (span_count ?z cap) * nat cap)"
    using assms span_count_pos [OF assms, of ?z] by simp
  finally show ?thesis by (simp only: of_nat_le_iff)
qed simp

lemma spanned_object:
  assumes "0 < cap"
  shows "concat (map (span_bytes blob) (span_plan h (int (length blob)) cap)) = blob"
proof -
  let ?n = "nat (span_count (int (length blob)) cap)"
  have l: "length (span_plan h (int (length blob)) cap) = ?n" using assms by (simp add: span_plan_def)
  have "map (span_bytes blob) (span_plan h (int (length blob)) cap) = map (\<lambda>i. take (nat cap) (drop (i * nat cap) blob)) [0..<?n]"
    by (rule nth_equalityI) (use l span_bytes_at [OF assms] in simp_all)
  then show ?thesis
    using chunks_concat [of "nat cap" blob ?n] span_count_covers [OF assms, of blob] assms by simp
qed

section \<open>The sectors of a stream\<close>

definition raw_ok :: "raw_sink \<Rightarrow> bool" where
  "raw_ok s \<longleftrightarrow> length (rs_buf s) < 512 \<and> rs_linear s = length (rs_writes s) \<and> map fst (rs_writes s) = [0..<length (rs_writes s)]
     \<and> list_all (\<lambda>w. length (snd w) = 512) (rs_writes s)"

definition raw_received :: "raw_sink \<Rightarrow> bytes" where
  "raw_received s = concat (map snd (rs_writes s)) @ rs_buf s"

lemma raw_flush_ok:
  assumes "length (rs_buf s) = 512" "rs_linear s = length (rs_writes s)" "map fst (rs_writes s) = [0..<length (rs_writes s)]"
    "list_all (\<lambda>w. length (snd w) = 512) (rs_writes s)"
  shows "raw_ok (raw_flush s)" and "raw_received (raw_flush s) = raw_received s" and "rs_buf (raw_flush s) = []"
  using assms by (simp_all add: raw_ok_def raw_flush_def raw_received_def)

lemma raw_fill_ok: "raw_ok s \<Longrightarrow> \<exists>s'. raw_fill p s = Some s' \<and> raw_ok s' \<and> raw_received s' = raw_received s @ p"
proof (induction p s rule: raw_fill.induct)
  case (1 p s)
  show ?case
  proof (cases "p = []")
    case True
    then show ?thesis using 1(2) by (subst raw_fill.simps) simp
  next
    case False
    define n where "n = min (int (length p)) (512 - int (length (rs_buf s)))"
    define s1 where "s1 = s\<lparr>rs_buf := rs_buf s @ take (nat n) p\<rparr>"
    define s2 where "s2 = (if length (rs_buf s1) = 512 then raw_flush s1 else s1)"
    have n: "0 < n" "nat n \<le> length p" "nat n + length (rs_buf s) \<le> 512"
      using False 1(2) by (auto simp: n_def raw_ok_def)
    have fill: "raw_fill p s = raw_fill (drop (nat n) p) s2"
      using False n(1) unfolding raw_fill.simps [of p s] Let_def n_def [symmetric] by (simp add: s1_def s2_def)
    have "length (rs_buf s1) = length (rs_buf s) + nat n" using n by (simp add: s1_def)
    then have s2: "raw_ok s2" "raw_received s2 = raw_received s @ take (nat n) p"
      using 1(2) n raw_flush_ok [of s1] by (auto simp: s2_def raw_ok_def s1_def raw_received_def)
    have "\<exists>s'. raw_fill (drop (nat n) p) s2 = Some s' \<and> raw_ok s' \<and> raw_received s' = raw_received s2 @ drop (nat n) p"
      using 1(1) [OF False refl refl _ refl] n(1) s2(1) unfolding n_def s1_def s2_def by simp
    then show ?thesis using fill s2(2) by simp
  qed
qed

lemma raw_write_ok:
  assumes "raw_ok s"
  shows "\<exists>s'. raw_write p s = Some s' \<and> raw_ok s' \<and> raw_received s' = raw_received s @ p"
  using raw_fill_ok [of "s\<lparr>rs_total := rs_total s + length p\<rparr>" p] assms
  by (simp add: raw_write_def raw_ok_def raw_received_def)

fun raw_writes :: "bytes list \<Rightarrow> raw_sink \<Rightarrow> raw_sink option" where
  "raw_writes [] s = Some s"
| "raw_writes (p # ps) s = Option.bind (raw_write p s) (raw_writes ps)"

lemma raw_writes_ok:
  "raw_ok s \<Longrightarrow> \<exists>s'. raw_writes ps s = Some s' \<and> raw_ok s' \<and> raw_received s' = raw_received s @ concat ps"
proof (induction ps arbitrary: s)
  case (Cons p ps)
  obtain s1 where s1: "raw_write p s = Some s1" "raw_ok s1" "raw_received s1 = raw_received s @ p"
    using raw_write_ok [OF Cons.prems] by blast
  from Cons.IH [OF s1(2)] s1 show ?case by auto
qed simp

lemma raw_finish_ok:
  assumes "raw_ok s"
  shows "raw_ok (raw_finish s) \<and> rs_buf (raw_finish s) = []
    \<and> (\<exists>k<512. concat (map snd (rs_writes (raw_finish s))) = raw_received s @ replicate k 0)"
proof (cases "rs_buf s = []")
  case True
  then show ?thesis using assms by (auto simp: raw_finish_def raw_received_def intro!: exI [of _ 0])
next
  case False
  let ?k = "512 - length (rs_buf s)"
  let ?s = "s\<lparr>rs_buf := rs_buf s @ replicate ?k 0\<rparr>"
  have fl: "raw_finish s = raw_flush ?s" using False by (simp add: raw_finish_def)
  have l: "length (rs_buf ?s) = 512" using assms by (simp add: raw_ok_def)
  have r: "raw_ok (raw_flush ?s)" "raw_received (raw_flush ?s) = raw_received ?s" "rs_buf (raw_flush ?s) = []"
    by (rule raw_flush_ok [of ?s]; use assms l in \<open>simp add: raw_ok_def\<close>)+
  have "raw_received ?s = raw_received s @ replicate ?k 0" by (simp add: raw_received_def)
  moreover have "?k < 512" using False by simp
  ultimately show ?thesis using r fl unfolding raw_received_def by (metis append_Nil2)
qed

section \<open>What an allocation takes\<close>

fun tiles :: "int \<Rightarrow> alloc_part list \<Rightarrow> int \<Rightarrow> bool" where
  "tiles off [] e \<longleftrightarrow> off = e"
| "tiles off (p # ps) e \<longleftrightarrow> ap_offset p = off \<and> 0 \<le> ap_length p \<and> tiles (off + ap_length p) ps e"

definition part_of :: "record_state list \<Rightarrow> alloc_part \<Rightarrow> bool" where
  "part_of rs p \<longleftrightarrow> (\<exists>r\<in>set rs. ap_record p = rc_record r \<and> ap_start p = rc_used r \<and> ap_start p + ap_length p \<le> rc_cap r)"

lemma take_parts_ok:
  "take_parts rs rem off = (ps, rem') \<Longrightarrow> 0 \<le> rem \<Longrightarrow>
    tiles off ps (off + rem - rem') \<and> list_all (part_of rs) ps \<and> 0 \<le> rem'
    \<and> rem' = max 0 (rem - sum_list (map free_bytes rs)) \<and> subseq (map ap_record ps) (map rc_record rs)"
proof (induction rs rem off arbitrary: ps rem' rule: take_parts.induct)
  case (1 rem off)
  then show ?case by simp
next
  case (2 r rs rem off)
  have nn: "0 \<le> free_bytes q" for q by (simp add: free_bytes_def)
  then have sums: "0 \<le> sum_list (map free_bytes rs)" by (intro sum_list_nonneg) auto
  have wk: "part_of rs p \<Longrightarrow> part_of (r # rs) p" for p by (auto simp: part_of_def)
  show ?case
  proof (cases "rem = 0")
    case True
    then show ?thesis using 2(3) sums nn [of r] by (auto simp: max_def)
  next
    case rem: False
    show ?thesis
    proof (cases "free_bytes r \<le> 0")
      case True
      then have "take_parts rs rem off = (ps, rem')" using 2(3) rem by simp
      from 2(1) [OF rem True this 2(4)] show ?thesis
        using wk True nn [of r] by (auto simp: list_all_iff)
    next
      case free: False
      define t where "t = (if free_bytes r > rem then rem else free_bytes r)"
      obtain qs where q: "take_parts rs (rem - t) (off + t) = (qs, rem')"
          "ps = \<lparr>ap_record = rc_record r, ap_offset = off, ap_length = t, ap_start = rc_used r\<rparr> # qs"
        using 2(3) rem free by (auto simp: t_def Let_def split: prod.splits)
      have t: "0 \<le> t" "t \<le> rem" "t \<le> free_bytes r" using 2(4) free by (auto simp: t_def)
      have ih: "tiles (off + t) qs (off + t + (rem - t) - rem') \<and> list_all (part_of rs) qs \<and> 0 \<le> rem'
          \<and> rem' = max 0 (rem - t - sum_list (map free_bytes rs)) \<and> subseq (map ap_record qs) (map rc_record rs)"
        by (rule 2(2) [OF rem free t_def q(1)]) (use t in simp)
      have "part_of (r # rs) (hd ps)"
        using t free by (auto simp: part_of_def q(2) free_bytes_def split: if_splits)
      moreover have "rem' = max 0 (rem - sum_list (map free_bytes (r # rs)))"
        using ih sums by (auto simp: t_def)
      moreover have "off + t + (rem - t) - rem' = off + rem - rem'" by simp
      from ih [THEN conjunct1, unfolded this] have "tiles off ps (off + rem - rem')" using t(1) by (simp add: q(2))
      moreover have "list_all (part_of (r # rs)) (tl ps)" using ih wk by (simp add: q(2) list_all_iff)
      ultimately show ?thesis using ih unfolding q(2) by simp
    qed
  qed
qed

lemma set_candidates: "set (ordered_candidates cfg self rs) \<subseteq> {r \<in> set rs. eligible cfg self r}"
  by (auto simp: ordered_candidates_def Let_def)

lemma mset_candidates:
  "mset (ordered_candidates cfg self rs) = mset (filter (\<lambda>r. claimed r \<longrightarrow> free_bytes r > 0) (filter (eligible cfg self) rs))"
proof -
  have "mset (filter (\<lambda>r. claimed r \<and> free_bytes r > 0) xs) + mset (filter (\<lambda>r. \<not> claimed r) xs)
      = mset (filter (\<lambda>r. claimed r \<longrightarrow> free_bytes r > 0) xs)" for xs
    by (induction xs) auto
  note split = this [of "filter (eligible cfg self) rs"]
  have "mset (ordered_candidates cfg self rs) = mset (filter (\<lambda>r. claimed r \<and> free_bytes r > 0) (filter (eligible cfg self) rs))
      + mset (filter (\<lambda>r. \<not> claimed r) (filter (eligible cfg self) rs))"
    by (simp add: ordered_candidates_def Let_def)
  then show ?thesis unfolding split .
qed

lemma free_candidates:
  "sum_list (map free_bytes (ordered_candidates cfg self rs)) = sum_list (map free_bytes (filter (eligible cfg self) rs))"
proof -
  have "sum_list (map free_bytes (filter (\<lambda>r. claimed r \<longrightarrow> free_bytes r > 0) xs)) = sum_list (map free_bytes xs)" for xs
    by (induction xs) (auto simp: free_bytes_def)
  note drop = this [of "filter (eligible cfg self) rs"]
  have "sum_mset (image_mset free_bytes (mset (ordered_candidates cfg self rs)))
      = sum_mset (image_mset free_bytes (mset (filter (\<lambda>r. claimed r \<longrightarrow> free_bytes r > 0) (filter (eligible cfg self) rs))))"
    by (simp only: mset_candidates)
  then show ?thesis by (simp only: drop sum_mset_sum_list flip: mset_map)
qed

lemma distinct_candidates:
  assumes "distinct (map rc_record rs)"
  shows "distinct (map rc_record (ordered_candidates cfg self rs))"
proof -
  have "mset (map rc_record (ordered_candidates cfg self rs))
      = mset (map rc_record (filter (\<lambda>r. claimed r \<longrightarrow> free_bytes r > 0) (filter (eligible cfg self) rs)))"
    by (simp only: mset_map mset_candidates)
  then show ?thesis using assms by (metis distinct_map_filter mset_eq_imp_distinct_iff)
qed

section \<open>The properties\<close>

text \<open>
  The length that a saved file's block encodes is read back from it.
\<close>

theorem saved_size_round_trip:
  assumes "save_uifa name page load sz = Inr u"
  shows "difa_to_size u = sz"
  using assms by (rule saved_size)

lemma saved_size_round_trip_witness: "\<exists>u. save_uifa ''kernel8.img'' 3 0x8000 50000 = Inr u \<and> difa_to_size u = 50000"
proof -
  obtain u where u: "save_uifa ''kernel8.img'' 3 0x8000 50000 = Inr u" by (simp add: save_uifa_def Let_def)
  from saved_size_round_trip [OF u] u show ?thesis by blast
qed

text \<open>
  The records of an object, read in order and concatenated, give the object back.
\<close>

theorem span_reassembles:
  assumes "0 < cap"
  shows "concat (map (span_bytes blob) (span_plan h (int (length blob)) cap)) = blob"
  using assms by (rule spanned_object)

lemma span_reassembles_witness:
  "concat (map (span_bytes [1, 2, 3, 4, 5]) (span_plan [0xab, 0xcd, 0xef] (int (length [1, 2, 3, 4, 5 :: u8])) 2)) = [1, 2, 3, 4, 5]"
  by (rule span_reassembles) simp

text \<open>
  A stream written in chunks of any size comes out as full sectors, numbered from 0, that
  hold the stream and at most one sector's padding; no chunk makes the sink loop.
\<close>

theorem raw_sink_image:
  "\<exists>s k. raw_writes ps new_raw_sink = Some s \<and> k < 512
    \<and> concat (map snd (rs_writes (raw_finish s))) = concat ps @ replicate k 0
    \<and> map fst (rs_writes (raw_finish s)) = [0..<length (rs_writes (raw_finish s))]
    \<and> list_all (\<lambda>w. length (snd w) = 512) (rs_writes (raw_finish s))"
proof -
  have "raw_ok new_raw_sink" "raw_received new_raw_sink = []" by (simp_all add: raw_ok_def raw_received_def new_raw_sink_def)
  then obtain s where s: "raw_writes ps new_raw_sink = Some s" "raw_ok s" "raw_received s = concat ps"
    using raw_writes_ok [of new_raw_sink ps] by auto
  from raw_finish_ok [OF s(2)] s(1,3) show ?thesis by (auto simp: raw_ok_def)
qed

text \<open>
  C36.  An allocation covers the object exactly and in order, uses no record twice, stays within
  the capacity of each record behind what it already holds, and touches the boot record or a
  record outside a fixed list only when the policy says so.
\<close>

theorem allocation_exact:
  assumes "allocate cfg sz self rs = Parts ps" and "0 < sz" and "distinct (map rc_record rs)"
  shows "tiles 0 ps sz \<and> distinct (map ap_record ps) \<and> list_all (part_of (filter (eligible cfg self) rs)) ps"
proof -
  let ?c = "ordered_candidates cfg self rs"
  obtain rem where t: "take_parts ?c sz 0 = (ps, rem)" "\<not> rem > 0"
    using assms(1,2) by (auto simp: allocate_def Let_def split: prod.splits if_splits)
  have p: "tiles 0 ps (0 + sz - rem) \<and> list_all (part_of ?c) ps \<and> 0 \<le> rem
      \<and> rem = max 0 (sz - sum_list (map free_bytes ?c)) \<and> subseq (map ap_record ps) (map rc_record ?c)"
    by (rule take_parts_ok [OF t(1)]) (use assms(2) in simp)
  then have "rem = 0" using t(2) by linarith
  then have "tiles 0 ps sz" using p [THEN conjunct1] by simp
  moreover have "distinct (map ap_record ps)"
    using p distinct_candidates [OF assms(3), of cfg self] by (metis distinct_nthsI subseq_conv_nths)
  moreover have "list_all (part_of (filter (eligible cfg self) rs)) ps"
    using p set_candidates [of cfg self rs] by (fastforce simp: list_all_iff part_of_def)
  ultimately show ?thesis by simp
qed

definition demo_card :: "record_state list" where
  "demo_card = [\<lparr>rc_record = 1, rc_cap = 100, rc_used = 0\<rparr>, \<lparr>rc_record = 2, rc_cap = 100, rc_used = 60\<rparr>,
     \<lparr>rc_record = 3, rc_cap = 100, rc_used = 0\<rparr>]"

definition demo_policy :: alloc_config where
  "demo_policy = \<lparr>ac_strategy = StrategyHighestFree, ac_self = False, ac_fixed = []\<rparr>"

lemma demo_allocate:
  "allocate demo_policy 120 1 demo_card =
     Parts [\<lparr>ap_record = 2, ap_offset = 0, ap_length = 40, ap_start = 60\<rparr>, \<lparr>ap_record = 3, ap_offset = 40, ap_length = 80, ap_start = 0\<rparr>]"
  by (simp add: allocate_def ordered_candidates_def eligible_def demo_policy_def demo_card_def claimed_def free_bytes_def)

lemma allocation_exact_witness:
  "tiles 0 [\<lparr>ap_record = 2, ap_offset = 0, ap_length = 40, ap_start = 60\<rparr>, \<lparr>ap_record = 3, ap_offset = 40, ap_length = 80, ap_start = 0\<rparr>] 120"
  using allocation_exact [OF demo_allocate] by (simp add: demo_card_def)

text \<open>
  An allocation declines exactly when the records the policy allows do not have the room;
  nothing is taken then.
\<close>

theorem allocation_declines_iff:
  assumes "0 < sz"
  shows "(\<exists>k. allocate cfg sz self rs = Warning k) \<longleftrightarrow> sum_list (map free_bytes (filter (eligible cfg self) rs)) < sz"
proof -
  let ?c = "ordered_candidates cfg self rs"
  obtain ps rem where t: "take_parts ?c sz 0 = (ps, rem)" by fastforce
  have "tiles 0 ps (0 + sz - rem) \<and> list_all (part_of ?c) ps \<and> 0 \<le> rem
      \<and> rem = max 0 (sz - sum_list (map free_bytes ?c)) \<and> subseq (map ap_record ps) (map rc_record ?c)"
    by (rule take_parts_ok [OF t]) (use assms in simp)
  then have "rem > 0 \<longleftrightarrow> sum_list (map free_bytes ?c) < sz" by linarith
  then show ?thesis using assms t by (simp add: allocate_def Let_def free_candidates)
qed

lemma allocation_declines_iff_witness:
  "\<exists>k. allocate demo_policy 200 1 demo_card = Warning k"
  by (subst allocation_declines_iff) (simp_all add: eligible_def demo_policy_def demo_card_def free_bytes_def)

end
