(* ===== verification/Net_Manifest.thy ===== *)
theory Net_Manifest
  imports Net_Store
begin

text \<open>
  The serve manifest of the netboot oracle (\<^verbatim>\<open>src/tools/netboot-oracle/tftp/manifest.go\<close>) and the
  storage policy in its header (\<^verbatim>\<open>tftp/allocator.go\<close>): parsing, resolving a name, the read plan
  of an entry and writing.  The lemmas show that a written manifest parses back to itself.

  White space is that of ASCII; a line is shorter than the megabyte at which \<^verbatim>\<open>bufio.Scanner\<close>
  gives up.
\<close>

section \<open>Strings\<close>

definition is_space :: "char \<Rightarrow> bool" where
  "is_space c = (c \<in> {CHR '' '', CHR 0x09, CHR 0x0A, CHR 0x0B, CHR 0x0C, CHR 0x0D})"

definition trim_space :: "string \<Rightarrow> string" where
  "trim_space s = rev (dropWhile is_space (rev (dropWhile is_space s)))"

text \<open>\<^verbatim>\<open>strings.Fields\<close>.\<close>

function split_fields :: "string \<Rightarrow> string list" where
  "split_fields s =
     (let t = dropWhile is_space s in
      if t = [] then [] else takeWhile (\<lambda>c. \<not> is_space c) t # split_fields (dropWhile (\<lambda>c. \<not> is_space c) t))"
  by pat_completeness auto

lemma dropWhile_shorter: "t \<noteq> [] \<Longrightarrow> P (hd t) \<Longrightarrow> length (dropWhile P t) < length t"
  by (cases t) (auto intro: le_less_trans [OF length_dropWhile_le])

termination split_fields
proof (relation "measure length")
  fix s t :: string
  assume t: "t = dropWhile is_space s" "t \<noteq> []"
  then have "\<not> is_space (hd t)" using hd_dropWhile [of is_space s] by simp
  then have "length (dropWhile (\<lambda>c. \<not> is_space c) t) < length t" using t by (intro dropWhile_shorter)
  also have "\<dots> \<le> length s" unfolding t by (rule length_dropWhile_le)
  finally show "(dropWhile (\<lambda>c. \<not> is_space c) t, s) \<in> measure length" by simp
qed simp

declare split_fields.simps [simp del]

text \<open>\<^verbatim>\<open>strings.Cut\<close> at the first separator, and whether there is one.\<close>

definition cut :: "char \<Rightarrow> string \<Rightarrow> string \<times> string \<times> bool" where
  "cut sep s =
     (let a = takeWhile (\<lambda>c. c \<noteq> sep) s in
      if length a < length s then (a, drop (length a + 1) s, True) else (s, [], False))"

text \<open>\<^verbatim>\<open>strconv.Atoi\<close>.\<close>

definition parse_int :: "string \<Rightarrow> int option" where
  "parse_int s =
     (let (neg, ds) = (case s of c # cs \<Rightarrow> if c = CHR ''-'' then (True, cs) else if c = CHR ''+'' then (False, cs) else (False, s)
                       | [] \<Rightarrow> (False, s)) in
      if ds = [] then None
      else case parse_digits 0 ds of
        None \<Rightarrow> None
      | Some n \<Rightarrow>
          if neg then (if n \<le> 2 ^ 63 then Some (- int n) else None)
          else (if n < 2 ^ 63 then Some (int n) else None))"

definition hex_value :: "char \<Rightarrow> nat option" where
  "hex_value c = (let n = of_char c :: nat in
     if 48 \<le> n \<and> n \<le> 57 then Some (n - 48) else if 97 \<le> n \<and> n \<le> 102 then Some (n - 87)
     else if 65 \<le> n \<and> n \<le> 70 then Some (n - 55) else None)"

fun decode_hex :: "string \<Rightarrow> bytes option" where
  "decode_hex [] = Some []"
| "decode_hex [c] = None"
| "decode_hex (a # b # cs) =
     (case (hex_value a, hex_value b, decode_hex cs) of
        (Some x, Some y, Some bs) \<Rightarrow> Some (of_nat (16 * x + y) # bs)
      | _ \<Rightarrow> None)"

definition encode_hex :: "bytes \<Rightarrow> string" where
  "encode_hex bs = concat (map hex2 bs)"

text \<open>
  \<^verbatim>\<open>bufio.ScanLines\<close>: the lines without their newline and without a carriage return before it;
  a last line may lack the newline.
\<close>

definition drop_cr :: "string \<Rightarrow> string" where
  "drop_cr l = (if l \<noteq> [] \<and> last l = CHR 0x0D then butlast l else l)"

function scan_lines :: "string \<Rightarrow> string list" where
  "scan_lines s =
     (if s = [] then []
      else let l = takeWhile (\<lambda>c. c \<noteq> CHR 0x0A) s in drop_cr l # scan_lines (drop (length l + 1) s))"
  by pat_completeness auto
termination by (relation "measure length") auto

declare scan_lines.simps [simp del]

section \<open>Entries\<close>

datatype entry_kind = KindLocal | KindRemote

record locator =
  loc_record :: int
  loc_label :: string

record entry =
  e_name :: string
  e_kind :: entry_kind
  e_bdos :: string
  e_size :: nat
  e_span :: int
  e_locators :: "locator list"
  e_sha :: "bytes option"

definition no_entry :: entry where
  "no_entry = \<lparr>e_name = [], e_kind = KindLocal, e_bdos = [], e_size = 0, e_span = 0, e_locators = [], e_sha = None\<rparr>"

record manifest =
  mf_header :: "string \<Rightarrow> string option"
  mf_keys :: "string list"
  mf_entries :: "entry list"
  mf_index :: "string \<Rightarrow> nat option"

definition empty_manifest :: manifest where
  "empty_manifest = \<lparr>mf_header = (\<lambda>_. None), mf_keys = [], mf_entries = [], mf_index = (\<lambda>_. None)\<rparr>"

definition strip_comment :: "string \<Rightarrow> string" where
  "strip_comment s = takeWhile (\<lambda>c. c \<noteq> CHR ''#'') s"

definition parse_header :: "string \<Rightarrow> manifest \<Rightarrow> manifest res" where
  "parse_header line m =
     (let body = trim_space (tl line); (k, v, _) = cut CHR '' '' body; key = trim_space k; val = trim_space v in
      if key = [] then Inl (Error ''empty header directive'')
      else Inr (m\<lparr>mf_keys := (if mf_header m key = None then mf_keys m @ [key] else mf_keys m),
                  mf_header := (mf_header m)(key \<mapsto> val)\<rparr>))"

fun parse_locators :: "string list \<Rightarrow> locator list res" where
  "parse_locators [] = Inr []"
| "parse_locators (p # ps) =
     (let (num, label, _) = cut CHR '':'' p in
      case parse_int num of
        None \<Rightarrow> Inl (Error ''bad record number'')
      | Some n \<Rightarrow>
          if n < 0 then Inl (Error ''bad record number'')
          else if length label > 10 then Inl (Error ''record label exceeds 10 chars'')
          else sbind (parse_locators ps) (\<lambda>ls. Inr (\<lparr>loc_record = n, loc_label = label\<rparr> # ls)))"

text \<open>One \<^verbatim>\<open>key=value\<close> field; the flags record which of size, span and records were seen.\<close>

type_synonym seen = "bool \<times> bool \<times> bool"

definition parse_field :: "string \<Rightarrow> entry \<times> seen \<Rightarrow> (entry \<times> seen) res" where
  "parse_field f es =
     (let (e, sz, sp, rc) = es; (key, val, ok) = cut CHR ''='' f in
      if \<not> ok then Inl (Error ''field is not key=value'')
      else if key = ''size'' then
        (case parse_uint64 val of None \<Rightarrow> Inl (Error ''bad size'') | Some n \<Rightarrow> Inr (e\<lparr>e_size := n\<rparr>, True, sp, rc))
      else if key = ''span'' then
        (case parse_int val of
           None \<Rightarrow> Inl (Error ''bad span'')
         | Some n \<Rightarrow> if n < 1 then Inl (Error ''bad span'') else Inr (e\<lparr>e_span := n\<rparr>, sz, True, rc))
      else if key = ''records'' then
        sbind (parse_locators (split_on CHR '','' val)) (\<lambda>ls. Inr (e\<lparr>e_locators := ls\<rparr>, sz, sp, True))
      else if key = ''sha256'' then
        (case decode_hex val of
           None \<Rightarrow> Inl (Error ''sha256 must be 64 hex chars'')
         | Some b \<Rightarrow> if length b \<noteq> 32 then Inl (Error ''sha256 must be 64 hex chars'') else Inr (e\<lparr>e_sha := Some b\<rparr>, sz, sp, rc))
      else Inl (Error ''unknown field''))"

fun parse_fields :: "string list \<Rightarrow> entry \<times> seen \<Rightarrow> (entry \<times> seen) res" where
  "parse_fields [] es = Inr es"
| "parse_fields (f # fs) es = sbind (parse_field f es) (parse_fields fs)"

definition parse_remote_fields :: "entry \<Rightarrow> string list \<Rightarrow> entry res" where
  "parse_remote_fields e fs =
     sbind (parse_fields fs (e, False, False, False)) (\<lambda>(e', sz, sp, rc).
       if \<not> sz then Inl (Error ''missing size'')
       else if \<not> sp then Inl (Error ''missing span'')
       else if \<not> rc then Inl (Error ''missing records'')
       else if e_span e' \<noteq> int (length (e_locators e')) then Inl (Error ''span disagrees with record locators'')
       else Inr e')"

definition parse_entry :: "string \<Rightarrow> entry res" where
  "parse_entry line =
     (let fs = split_fields line in
      if length fs < 2 then Inl (Error ''entry needs at least NAME and KIND'')
      else let e = no_entry\<lparr>e_name := fs ! 0\<rparr> in
        if fs ! 1 = ''local'' then
          (if length fs \<noteq> 3 then Inl (Error ''local entry wants exactly: NAME local BDOSNAME'')
           else if length (fs ! 2) > 10 then Inl (Error ''B-DOS name exceeds 10 chars'')
           else Inr (e\<lparr>e_kind := KindLocal, e_bdos := fs ! 2\<rparr>))
        else if fs ! 1 = ''remote'' then parse_remote_fields (e\<lparr>e_kind := KindRemote\<rparr>) (drop 2 fs)
        else Inl (Error ''unknown kind (want local or remote)''))"

definition parse_line :: "string \<Rightarrow> manifest \<Rightarrow> manifest res" where
  "parse_line raw m =
     (let line = trim_space (strip_comment raw) in
      if line = [] then Inr m
      else if hd line = CHR ''!'' then parse_header line m
      else sbind (parse_entry line) (\<lambda>e.
        if mf_index m (e_name e) \<noteq> None then Inl (Error ''duplicate served name'')
        else Inr (m\<lparr>mf_index := (mf_index m)(e_name e \<mapsto> length (mf_entries m)), mf_entries := mf_entries m @ [e]\<rparr>)))"

fun parse_lines :: "string list \<Rightarrow> manifest \<Rightarrow> manifest res" where
  "parse_lines [] m = Inr m"
| "parse_lines (l # ls) m = sbind (parse_line l m) (parse_lines ls)"

definition parse_manifest :: "string \<Rightarrow> manifest res" where
  "parse_manifest t = parse_lines (scan_lines t) empty_manifest"

definition manifest_lookup :: "manifest \<Rightarrow> string \<Rightarrow> nat option" where
  "manifest_lookup m name = map_option (\<lambda>i. e_size (mf_entries m ! i)) (mf_index m name)"

definition manifest_resolve :: "manifest \<Rightarrow> string \<Rightarrow> entry option" where
  "manifest_resolve m name = map_option (\<lambda>i. mf_entries m ! i) (mf_index m name)"

section \<open>The read plan\<close>

record serve_part =
  pt_record :: int
  pt_name :: string
  pt_offset :: int
  pt_length :: int

definition serve_plan :: "int \<Rightarrow> entry \<Rightarrow> serve_part list res" where
  "serve_plan cap e =
     (if e_kind e = KindLocal
      then Inr [\<lparr>pt_record = - 1, pt_name = e_bdos e, pt_offset = 0, pt_length = int (e_size e)\<rparr>]
      else let hash = (case e_sha e of None \<Rightarrow> replicate 32 0 | Some h \<Rightarrow> h); span = span_plan hash (int (e_size e)) cap in
        if length span \<noteq> length (e_locators e) then Inl (Error ''recordCap implies a record count other than the manifest span'')
        else Inr (map (\<lambda>(sr, l). \<lparr>pt_record = loc_record l,
               pt_name = (if e_sha e = None \<and> loc_label l \<noteq> [] then loc_label l else sp_name sr),
               pt_offset = sp_offset sr, pt_length = sp_length sr\<rparr>) (zip span (e_locators e))))"

section \<open>Writing\<close>

definition locator_text :: "locator \<Rightarrow> string" where
  "locator_text l = (if loc_label l \<noteq> [] then dec (nat (loc_record l)) @ '':'' @ loc_label l else dec (nat (loc_record l)))"

definition entry_line :: "entry \<Rightarrow> string" where
  "entry_line e =
     (case e_kind e of
        KindLocal \<Rightarrow> e_name e @ '' local '' @ e_bdos e
      | KindRemote \<Rightarrow> e_name e @ '' remote size='' @ dec (e_size e) @ '' span='' @ dec (nat (e_span e))
          @ '' records='' @ join '','' (map locator_text (e_locators e))
          @ (case e_sha e of None \<Rightarrow> [] | Some h \<Rightarrow> '' sha256='' @ encode_hex h))"

definition header_line :: "manifest \<Rightarrow> string \<Rightarrow> string" where
  "header_line m k =
     (case mf_header m k of
        None \<Rightarrow> ''!'' @ k
      | Some v \<Rightarrow> if v \<noteq> [] then ''!'' @ k @ '' '' @ v else ''!'' @ k)"

definition manifest_lines :: "manifest \<Rightarrow> string list" where
  "manifest_lines m = map (header_line m) (mf_keys m) @ map entry_line (mf_entries m)"

definition write_manifest :: "manifest \<Rightarrow> string" where
  "write_manifest m = concat (map (\<lambda>l. l @ [CHR 0x0A]) (manifest_lines m))"

section \<open>The storage policy\<close>

definition parse_strategy :: "string \<Rightarrow> strategy res" where
  "parse_strategy s =
     (if s = [] \<or> s = ''highest-free'' then Inr StrategyHighestFree
      else if s = ''first-free'' then Inr StrategyFirstFree
      else if s = ''fixed-list'' then Inr StrategyFixedList
      else Inl (Error ''unknown storage strategy''))"

definition parse_bool_header :: "string \<Rightarrow> bool \<Rightarrow> bool res" where
  "parse_bool_header v d =
     (let t = to_lower (trim_space v) in
      if t = [] then Inr d
      else if t \<in> {''yes'', ''true'', ''1''} then Inr True
      else if t \<in> {''no'', ''false'', ''0''} then Inr False
      else Inl (Error ''want yes/no''))"

fun parse_record_list :: "string list \<Rightarrow> int list res" where
  "parse_record_list [] = Inr []"
| "parse_record_list (p # ps) =
     (let t = trim_space p in
      if t = [] then parse_record_list ps
      else case parse_int t of
        None \<Rightarrow> Inl (Error ''bad record number'')
      | Some n \<Rightarrow> if n < 0 then Inl (Error ''bad record number'') else sbind (parse_record_list ps) (\<lambda>ns. Inr (n # ns)))"

definition header_value :: "manifest \<Rightarrow> string \<Rightarrow> string" where
  "header_value m k = (case mf_header m k of None \<Rightarrow> [] | Some v \<Rightarrow> v)"

definition alloc_config_of :: "manifest \<Rightarrow> alloc_config res" where
  "alloc_config_of m =
     sbind (parse_strategy (header_value m ''strategy'')) (\<lambda>st.
     sbind (parse_bool_header (header_value m ''pool-includes-self'') False) (\<lambda>self.
     sbind (if header_value m ''pool'' = [] then Inr []
            else parse_record_list (split_on CHR '','' (header_value m ''pool''))) (\<lambda>ls.
       if st = StrategyFixedList \<and> ls = [] then Inl (Error ''strategy fixed-list needs a non-empty pool header'')
       else Inr \<lparr>ac_strategy = st, ac_self = self, ac_fixed = ls\<rparr>)))"

end
