(* ===== verification/Zx0_Model.thy ===== *)
theory Zx0_Model
  imports Prelude
begin

text \<open>
  The greedy ZX0 compressor (\<^verbatim>\<open>src/tools/zx0-greedy/compress.go\<close>): the bit writer, the hash-chain
  match finder and the greedy parse, and the decoder its round-trip test is written against
  (\<^verbatim>\<open>compress_test.go\<close>, a transcription of \<^verbatim>\<open>reference/zx0/src/dzx0.c\<close>).  An index out of range is
  a panic; positions and lengths are natural numbers.
\<close>

section \<open>The bit writer\<close>

record bit_writer =
  bw_out :: bytes
  bw_idx :: nat
  bw_mask :: u8
  bw_back :: bool

definition new_bit_writer :: bit_writer where
  "new_bit_writer = \<lparr>bw_out = [], bw_idx = 0, bw_mask = 0, bw_back = True\<rparr>"

definition or_byte :: "nat \<Rightarrow> u8 \<Rightarrow> bytes \<Rightarrow> bytes" where
  "or_byte i m b = b[i := b ! i OR m]"

definition write_bit :: "bool \<Rightarrow> bit_writer \<Rightarrow> bit_writer" where
  "write_bit v w =
     (if bw_back w then
        w\<lparr>bw_out := (if v \<and> bw_out w \<noteq> [] then or_byte (length (bw_out w) - 1) 1 (bw_out w) else bw_out w),
          bw_back := False\<rparr>
      else
        let w1 = (if bw_mask w = 0 then w\<lparr>bw_mask := 128, bw_idx := length (bw_out w), bw_out := bw_out w @ [0]\<rparr> else w) in
        w1\<lparr>bw_out := (if v then or_byte (bw_idx w1) (bw_mask w1) (bw_out w1) else bw_out w1),
           bw_mask := drop_bit 1 (bw_mask w1)\<rparr>)"

definition write_byte :: "u8 \<Rightarrow> bit_writer \<Rightarrow> bit_writer" where
  "write_byte b w = w\<lparr>bw_out := bw_out w @ [b]\<rparr>"

definition write_byte_with_backtrack :: "u8 \<Rightarrow> bit_writer \<Rightarrow> bit_writer" where
  "write_byte_with_backtrack b w = w\<lparr>bw_out := bw_out w @ [b], bw_back := True\<rparr>"

text \<open>The highest power of two from \<open>p\<close> on that is at most \<open>v\<close>; the source starts with \<open>p = 1\<close>.\<close>

function top_power :: "nat \<Rightarrow> nat \<Rightarrow> nat" where
  "top_power p v = (if 0 < p \<and> p * 2 \<le> v then top_power (p * 2) v else p)"
  by pat_completeness auto

termination top_power
  by (relation "measure (\<lambda>(p, v). v - p)") auto

declare top_power.simps [simp del]

text \<open>The pairs of a direction bit and a value bit for the powers \<open>p, p / 2, \<dots>, 1\<close>.\<close>

function gamma_pairs :: "bool \<Rightarrow> nat \<Rightarrow> nat \<Rightarrow> bit_writer \<Rightarrow> bit_writer" where
  "gamma_pairs neg p v w =
     (if p = 0 then w
      else gamma_pairs neg (p div 2) v (write_bit ((v AND p \<noteq> 0) \<noteq> neg) (write_bit False w)))"
  by pat_completeness auto

termination gamma_pairs
  by (relation "measure (\<lambda>(neg, p, v, w). p)") auto

declare gamma_pairs.simps [simp del]

definition write_elias_gamma :: "nat \<Rightarrow> bit_writer \<Rightarrow> bit_writer" where
  "write_elias_gamma v w = write_bit True (gamma_pairs False (top_power 1 v div 2) v w)"

definition write_elias_gamma_inv :: "nat \<Rightarrow> bit_writer \<Rightarrow> bit_writer" where
  "write_elias_gamma_inv v w = write_bit True (gamma_pairs True (top_power 1 v div 2) v w)"

section \<open>The match finder\<close>

record zx0_params =
  hash_size :: nat
  chain_depth :: nat

definition default_params :: zx0_params where
  "default_params = \<lparr>hash_size = 512, chain_depth = 16\<rparr>"

definition scratch_bytes :: "zx0_params \<Rightarrow> nat \<Rightarrow> nat" where
  "scratch_bytes p n = hash_size p * 2 + n * 2 + 30"

record match_finder =
  mf_src :: bytes
  hash_head :: "u16 list"
  chain_prev :: "u16 list"
  mf_params :: zx0_params

definition no_entry_pos :: u16 where "no_entry_pos = 0xffff"

definition zx0_max_offset :: nat where "zx0_max_offset = 32640"

definition new_match_finder :: "bytes \<Rightarrow> zx0_params \<Rightarrow> match_finder" where
  "new_match_finder s p =
     \<lparr>mf_src = s, hash_head = replicate (hash_size p) no_entry_pos, chain_prev = replicate (length s) no_entry_pos,
      mf_params = p\<rparr>"

definition at_index :: "'a list \<Rightarrow> nat \<Rightarrow> 'a res" where
  "at_index xs i = (if i < length xs then Inr (xs ! i) else Inl Panic)"

definition set_index :: "'a list \<Rightarrow> nat \<Rightarrow> 'a \<Rightarrow> 'a list res" where
  "set_index xs i x = (if i < length xs then Inr (xs[i := x]) else Inl Panic)"

definition hash2 :: "match_finder \<Rightarrow> nat \<Rightarrow> nat res" where
  "hash2 m i =
     sbind (at_index (mf_src m) i) (\<lambda>a.
       if i + 1 \<ge> length (mf_src m) then Inr (unat a AND (hash_size (mf_params m) - 1))
       else sbind (at_index (mf_src m) (i + 1)) (\<lambda>b.
         Inr ((unat a * 31 XOR unat b) AND (hash_size (mf_params m) - 1))))"

definition mf_insert :: "nat \<Rightarrow> match_finder \<Rightarrow> match_finder res" where
  "mf_insert i m =
     sbind (hash2 m i) (\<lambda>h.
     sbind (at_index (hash_head m) h) (\<lambda>c.
     sbind (set_index (chain_prev m) i c) (\<lambda>chain.
     sbind (set_index (hash_head m) h (of_nat i)) (\<lambda>heads.
       Inr (m\<lparr>chain_prev := chain, hash_head := heads\<rparr>)))))"

function match_length :: "bytes \<Rightarrow> nat \<Rightarrow> nat \<Rightarrow> nat \<Rightarrow> nat \<Rightarrow> nat" where
  "match_length s c p mx ml =
     (if ml < mx \<and> s ! (c + ml) = s ! (p + ml) then match_length s c p mx (ml + 1) else ml)"
  by pat_completeness auto

termination match_length
  by (relation "measure (\<lambda>(s, c, p, mx, ml). mx - ml)") auto

declare match_length.simps [simp del]

definition max_match :: "nat \<Rightarrow> nat" where
  "max_match left = (if left > 255 then 255 else left)"

definition better :: "nat \<times> nat \<Rightarrow> nat \<Rightarrow> nat \<Rightarrow> nat \<times> nat" where
  "better best ml off = (if ml > fst best \<or> (ml = fst best \<and> off = snd best) then (ml, off) else best)"

text \<open>
  The probe loop; the first argument counts the steps that are left.  A candidate at or after the
  position, or too far back, is skipped.
\<close>

fun probe :: "nat \<Rightarrow> match_finder \<Rightarrow> nat \<Rightarrow> u16 \<Rightarrow> nat \<times> nat \<Rightarrow> (nat \<times> nat) res" where
  "probe 0 m pos c best = Inr best"
| "probe (Suc k) m pos c best =
     (if c = no_entry_pos then Inr best
      else let cand = unat c;
               best' = (if pos \<le> cand \<or> pos - cand > zx0_max_offset then best
                        else better best (match_length (mf_src m) cand pos (max_match (length (mf_src m) - pos)) 0) (pos - cand)) in
        sbind (at_index (chain_prev m) cand) (\<lambda>c'. probe k m pos c' best'))"

definition find_best :: "nat \<Rightarrow> match_finder \<Rightarrow> ((nat \<times> nat) \<times> match_finder) res" where
  "find_best pos m =
     sbind (hash2 m pos) (\<lambda>h.
     sbind (at_index (hash_head m) h) (\<lambda>c.
     sbind (probe (chain_depth (mf_params m)) m pos c (0, 0)) (\<lambda>best.
     sbind (mf_insert pos m) (\<lambda>m'. Inr (best, m')))))"

text \<open>Positions \<open>i, \<dots>, i + k - 1\<close> enter the chain.\<close>

fun insert_tail :: "nat \<Rightarrow> nat \<Rightarrow> match_finder \<Rightarrow> match_finder res" where
  "insert_tail 0 i m = Inr m"
| "insert_tail (Suc k) i m = sbind (mf_insert i m) (insert_tail k (i + 1))"

section \<open>The greedy parse\<close>

fun write_bytes :: "bytes \<Rightarrow> bit_writer \<Rightarrow> bit_writer" where
  "write_bytes [] w = w"
| "write_bytes (b # bs) w = write_bytes bs (write_byte b w)"

text \<open>A run of literals: separator, count, bytes; nothing for an empty run.\<close>

definition flush_literals :: "bytes \<Rightarrow> nat \<Rightarrow> nat \<Rightarrow> bit_writer \<Rightarrow> bit_writer" where
  "flush_literals s from till w =
     (if till - from > 0
      then write_bytes (take (till - from) (drop from s)) (write_elias_gamma (till - from) (write_bit False w))
      else w)"

definition offset_msb :: "nat \<Rightarrow> nat" where "offset_msb off = (off - 1) div 128 + 1"

definition offset_lsb :: "nat \<Rightarrow> u8" where "offset_lsb off = of_nat ((127 - (off - 1) mod 128) * 2)"

definition emit_match :: "bool \<Rightarrow> nat \<Rightarrow> nat \<Rightarrow> bit_writer \<Rightarrow> bit_writer" where
  "emit_match rep len off w =
     (if rep then write_elias_gamma len (write_bit False w)
      else write_elias_gamma (len - 1)
             (write_byte_with_backtrack (offset_lsb off) (write_elias_gamma_inv (offset_msb off) (write_bit True w))))"

definition can_rep :: "bool \<Rightarrow> nat \<Rightarrow> nat \<Rightarrow> nat \<Rightarrow> nat \<Rightarrow> bool" where
  "can_rep prev_lit lits len off last_off \<longleftrightarrow> (prev_lit \<or> lits > 0) \<and> off = last_off \<and> len \<ge> 2"

definition is_new :: "nat \<Rightarrow> nat \<Rightarrow> nat \<Rightarrow> bool" where
  "is_new len off last_off \<longleftrightarrow> off \<noteq> last_off \<and> len \<ge> 3"

text \<open>The main loop gives the start of the trailing literals and the writer.\<close>

function compress_loop :: "bytes \<Rightarrow> nat \<Rightarrow> nat \<Rightarrow> nat \<Rightarrow> bool \<Rightarrow> match_finder \<Rightarrow> bit_writer \<Rightarrow> (nat \<times> bit_writer) res" where
  "compress_loop s pos lit last_off prev_lit m w =
     (if pos < length s then
        sbind (find_best pos m) (\<lambda>((len, off), m1).
          if \<not> can_rep prev_lit (pos - lit) len off last_off \<and> \<not> is_new len off last_off
          then compress_loop s (pos + 1) lit last_off prev_lit m1 w
          else
            let rep = can_rep prev_lit (pos - lit) len off last_off;
                w2 = emit_match rep len off (flush_literals s lit pos w) in
            sbind (insert_tail (len - 1) (pos + 1) m1) (\<lambda>m2.
              compress_loop s (pos + len) (pos + len) (if rep then last_off else off) False m2 w2))
      else Inr (lit, w))"
  by pat_completeness auto

termination compress_loop
  by (relation "measure (\<lambda>(s, pos, rest). length s - pos)") (auto simp: can_rep_def is_new_def)

declare compress_loop.simps [simp del]

definition write_end :: "bit_writer \<Rightarrow> bit_writer" where
  "write_end w = write_elias_gamma_inv 256 (write_bit True w)"

definition compress :: "bytes \<Rightarrow> zx0_params \<Rightarrow> bytes res" where
  "compress s p =
     (if s = [] then Inr (bw_out (write_end new_bit_writer))
      else sbind (compress_loop s 0 0 1 False (new_match_finder s p) new_bit_writer) (\<lambda>(lit, w).
        Inr (bw_out (write_end (flush_literals s lit (length s) w)))))"

section \<open>The decoder\<close>

record bit_reader =
  br_pos :: nat
  br_mask :: nat
  br_value :: int
  br_back :: bool
  br_last :: int

definition new_bit_reader :: bit_reader where
  "new_bit_reader = \<lparr>br_pos = 0, br_mask = 0, br_value = 0, br_back = False, br_last = 0\<rparr>"

definition read_byte :: "bytes \<Rightarrow> bit_reader \<Rightarrow> int \<times> bit_reader" where
  "read_byte inp r =
     (if br_pos r \<ge> length inp then (- 1, r)
      else let b = uint (inp ! br_pos r) in (b, r\<lparr>br_last := b, br_pos := br_pos r + 1\<rparr>))"

definition read_bit :: "bytes \<Rightarrow> bit_reader \<Rightarrow> bool \<times> bit_reader" where
  "read_bit inp r =
     (if br_back r then (br_last r AND 1 \<noteq> 0, r\<lparr>br_back := False\<rparr>)
      else let m = br_mask r div 2 in
        if m = 0 then
          (case read_byte inp r of (v, r1) \<Rightarrow>
             let r2 = r1\<lparr>br_mask := 128, br_value := v\<rparr> in
             if v < 0 then (False, r2) else (v AND 128 \<noteq> 0, r2))
        else (br_value r AND int m \<noteq> 0, r\<lparr>br_mask := m\<rparr>))"

text \<open>The two loops may run forever on a malformed stream: \<open>None\<close>.\<close>

partial_function (option) read_gamma :: "bytes \<Rightarrow> bool \<Rightarrow> nat \<Rightarrow> bit_reader \<Rightarrow> (nat \<times> bit_reader) option" where
  "read_gamma inp neg value r =
     (case read_bit inp r of (stop, r1) \<Rightarrow>
        if stop then Some (value, r1)
        else (case read_bit inp r1 of (b, r2) \<Rightarrow> read_gamma inp neg (value * 2 + (if b \<noteq> neg then 1 else 0)) r2))"

text \<open>Literals: the output and whether the input was long enough.\<close>

fun read_literals :: "bytes \<Rightarrow> nat \<Rightarrow> bytes \<Rightarrow> bit_reader \<Rightarrow> bytes \<times> bit_reader \<times> bool" where
  "read_literals inp 0 out r = (out, r, True)"
| "read_literals inp (Suc k) out r =
     (case read_byte inp r of (b, r1) \<Rightarrow>
        if b < 0 then (out, r1, False) else read_literals inp k (out @ [word_of_int b]) r1)"

fun copy_match :: "nat \<Rightarrow> nat \<Rightarrow> bytes \<Rightarrow> bytes" where
  "copy_match off 0 out = out"
| "copy_match off (Suc k) out =
     copy_match off k (out @ [if length out < off then 0 else out ! (length out - off)])"

partial_function (option) decode :: "bytes \<Rightarrow> bool \<Rightarrow> bytes \<Rightarrow> nat \<Rightarrow> bit_reader \<Rightarrow> bytes option" where
  "decode inp new out off r =
     (if \<not> new then
        Option.bind (read_gamma inp False 1 r) (\<lambda>(len, r1).
          case read_literals inp len out r1 of (out1, r2, enough) \<Rightarrow>
            if \<not> enough then Some out1
            else case read_bit inp r2 of (b, r3) \<Rightarrow>
              if b then decode inp True out1 off r3
              else Option.bind (read_gamma inp False 1 r3) (\<lambda>(len2, r4).
                case read_bit inp r4 of (c, r5) \<Rightarrow> decode inp c (copy_match off len2 out1) off r5))
      else
        Option.bind (read_gamma inp True 1 r) (\<lambda>(msb, r1).
          if msb = 256 then Some out
          else case read_byte inp r1 of (l, r2) \<Rightarrow>
            if l < 0 then Some out
            else let off' = msb * 128 - nat l div 2 in
              Option.bind (read_gamma inp False 1 (r2\<lparr>br_back := True\<rparr>)) (\<lambda>(len, r3).
                case read_bit inp r3 of (c, r4) \<Rightarrow> decode inp c (copy_match off' (len + 1) out) off' r4)))"

definition decompress :: "bytes \<Rightarrow> bytes option" where
  "decompress inp = decode inp False [] 1 new_bit_reader"

declare read_gamma.simps [code] decode.simps [code]

end
