(* ===== verification/Zx0_Bits.thy ===== *)
theory Zx0_Bits
  imports Zx0_Model
begin

text \<open>
  The bit reader is the inverse of the bit writer.  Bits are stored into a byte that was written
  earlier, so what is read back is the final output, and a state of the writer only fixes the bits
  of it that are not pending; \<open>codes\<close> says that a writing operation is read back by a reading one
  from every output that extends what has been written.
\<close>

section \<open>States\<close>

definition pow_mask :: "nat \<Rightarrow> u8" where
  "pow_mask k = (if k = 0 then 0 else 2 ^ (k - 1))"

lemma pow_mask_drop: "0 < k \<Longrightarrow> k \<le> 8 \<Longrightarrow> drop_bit 1 (pow_mask k) = pow_mask (k - 1)"
proof -
  assume "0 < k" "k \<le> 8"
  then have "k \<in> {1, 2, 3, 4, 5, 6, 7, 8}" by auto
  then show ?thesis by (elim insertE emptyE) (simp_all add: pow_mask_def)
qed

lemma pow_mask_zero: "k \<le> 8 \<Longrightarrow> pow_mask k = 0 \<longleftrightarrow> k = 0"
  by (auto simp: pow_mask_def)

lemma bit_pow_mask: "0 < k \<Longrightarrow> k \<le> 8 \<Longrightarrow> bit (pow_mask k) j \<longleftrightarrow> j = k - 1"
  by (auto simp: pow_mask_def bit_simps)

text \<open>\<open>k\<close> bits of the current byte are free.\<close>

definition wf_writer :: "nat \<Rightarrow> bit_writer \<Rightarrow> bool" where
  "wf_writer k w \<longleftrightarrow> k \<le> 7 \<and> bw_mask w = pow_mask k
     \<and> (0 < k \<longrightarrow> bw_idx w < length (bw_out w) \<and> (\<forall>j<k. \<not> bit (bw_out w ! bw_idx w) j))
     \<and> (bw_back w \<and> bw_out w \<noteq> [] \<longrightarrow> \<not> bit (last (bw_out w)) 0 \<and> (0 < k \<longrightarrow> bw_idx w < length (bw_out w) - 1))
     \<and> (bw_back w \<and> bw_out w = [] \<longrightarrow> k = 0)"

definition pending :: "nat \<Rightarrow> bit_writer \<Rightarrow> nat \<Rightarrow> nat \<Rightarrow> bool" where
  "pending k w i j \<longleftrightarrow> (i = bw_idx w \<and> j < k) \<or> (bw_back w \<and> i = length (bw_out w) - 1 \<and> j = 0)"

definition extends :: "nat \<Rightarrow> bit_writer \<Rightarrow> bytes \<Rightarrow> bool" where
  "extends k w ob \<longleftrightarrow> length (bw_out w) \<le> length ob
     \<and> (\<forall>i<length (bw_out w). \<forall>j. \<not> pending k w i j \<longrightarrow> bit (ob ! i) j = bit (bw_out w ! i) j)"

definition synced :: "nat \<Rightarrow> bit_writer \<Rightarrow> bytes \<Rightarrow> bit_reader \<Rightarrow> bool" where
  "synced k w ob r \<longleftrightarrow> br_pos r = length (bw_out w) \<and> br_back r = bw_back w
     \<and> (if 0 < k then br_mask r = 2 ^ k \<and> br_value r = uint (ob ! bw_idx w) else br_mask r < 2)
     \<and> (bw_back w \<longrightarrow> br_last r = (if bw_out w = [] then 0 else uint (ob ! (length (bw_out w) - 1))))"

definition at_start :: "bit_writer \<Rightarrow> bool" where
  "at_start w \<longleftrightarrow> bw_back w \<and> bw_out w = []"

definition unlocked :: "bit_writer \<Rightarrow> bool" where
  "unlocked w \<longleftrightarrow> \<not> bw_back w"

definition running :: "bit_writer \<Rightarrow> bool" where
  "running w \<longleftrightarrow> \<not> at_start w"

definition codes ::
  "(bit_writer \<Rightarrow> bool) \<Rightarrow> (bit_writer \<Rightarrow> bit_writer) \<Rightarrow> (bit_writer \<Rightarrow> bool)
    \<Rightarrow> (bytes \<Rightarrow> bit_reader \<Rightarrow> ('a \<times> bit_reader) option) \<Rightarrow> 'a \<Rightarrow> bool" where
  "codes P f Q rd x \<longleftrightarrow> (\<forall>k w. wf_writer k w \<and> P w \<longrightarrow> (\<exists>k'. wf_writer k' (f w) \<and> Q (f w)
     \<and> (\<forall>ob. extends k' (f w) ob \<longrightarrow> extends k w ob
          \<and> (\<forall>r. synced k w ob r \<longrightarrow> (\<exists>r'. rd ob r = Some (x, r') \<and> synced k' (f w) ob r')))))"

lemma codesI:
  assumes "\<And>k w. wf_writer k w \<Longrightarrow> P w \<Longrightarrow> \<exists>k'. wf_writer k' (f w) \<and> Q (f w)
     \<and> (\<forall>ob. extends k' (f w) ob \<longrightarrow> extends k w ob
          \<and> (\<forall>r. synced k w ob r \<longrightarrow> (\<exists>r'. rd ob r = Some (x, r') \<and> synced k' (f w) ob r')))"
  shows "codes P f Q rd x"
  using assms unfolding codes_def by blast

lemma codes_seq:
  assumes "codes P f Q rd x" and "codes Q g R rd' y"
    and "\<And>ob r r1. rd ob r = Some (x, r1) \<Longrightarrow> rd2 ob r = rd' ob r1"
  shows "codes P (\<lambda>w. g (f w)) R rd2 y"
proof (rule codesI)
  fix k w assume "wf_writer k w" "P w"
  then obtain k1 where 1: "wf_writer k1 (f w)" "Q (f w)"
      "\<And>ob. extends k1 (f w) ob \<Longrightarrow> extends k w ob
        \<and> (\<forall>r. synced k w ob r \<longrightarrow> (\<exists>r'. rd ob r = Some (x, r') \<and> synced k1 (f w) ob r'))"
    using assms(1) unfolding codes_def by meson
  then obtain k2 where 2: "wf_writer k2 (g (f w))" "R (g (f w))"
      "\<And>ob. extends k2 (g (f w)) ob \<Longrightarrow> extends k1 (f w) ob
        \<and> (\<forall>r. synced k1 (f w) ob r \<longrightarrow> (\<exists>r'. rd' ob r = Some (y, r') \<and> synced k2 (g (f w)) ob r'))"
    using assms(2) unfolding codes_def by meson
  have "extends k w ob \<and> (\<forall>r. synced k w ob r \<longrightarrow> (\<exists>r'. rd2 ob r = Some (y, r') \<and> synced k2 (g (f w)) ob r'))"
    if e: "extends k2 (g (f w)) ob" for ob
  proof (intro conjI allI impI)
    show "extends k w ob" using 1(3) 2(3) e by blast
    fix r assume "synced k w ob r"
    then obtain r1 where r1: "rd ob r = Some (x, r1)" "synced k1 (f w) ob r1" using 1(3) 2(3) e by blast
    then obtain r2 where "rd' ob r1 = Some (y, r2)" "synced k2 (g (f w)) ob r2" using 2(3) e by blast
    then show "\<exists>r'. rd2 ob r = Some (y, r') \<and> synced k2 (g (f w)) ob r'" using assms(3) [OF r1(1)] by simp
  qed
  then show "\<exists>k'. wf_writer k' (g (f w)) \<and> R (g (f w)) \<and> (\<forall>ob. extends k' (g (f w)) ob \<longrightarrow> extends k w ob
      \<and> (\<forall>r. synced k w ob r \<longrightarrow> (\<exists>r'. rd2 ob r = Some (y, r') \<and> synced k' (g (f w)) ob r')))"
    using 2(1,2) by blast
qed

lemma codes_pre: "codes P f Q rd x \<Longrightarrow> (\<And>w. P' w \<Longrightarrow> P w) \<Longrightarrow> codes P' f Q rd x"
  unfolding codes_def by blast

lemma codes_post: "codes P f Q rd x \<Longrightarrow> (\<And>w. Q w \<Longrightarrow> Q' w) \<Longrightarrow> codes P f Q' rd x"
  unfolding codes_def by meson

lemma codes_read:
  "codes P f Q rd x \<Longrightarrow> (\<And>ob r r'. rd ob r = Some (x, r') \<Longrightarrow> rd' ob r = Some (y, r')) \<Longrightarrow> codes P f Q rd' y"
  unfolding codes_def by meson

section \<open>Bits\<close>

lemma bit_uint_and: "uint (b :: u8) AND 2 ^ j \<noteq> 0 \<longleftrightarrow> bit b j"
  using bit_imp_le_length [of b j] by (auto simp: and_exp_eq_0_iff_not_bit bit_uint_iff)

lemma bit_128: "bit (128 :: u8) j \<longleftrightarrow> j = 7"
proof -
  have "(128 :: u8) = 2 ^ 7" by simp
  then show ?thesis by (simp only: bit_exp_iff) auto
qed

lemma length_or_byte [simp]: "length (or_byte i m b) = length b"
  by (simp add: or_byte_def)

lemma bit_or_byte:
  "i < length b \<Longrightarrow> bit (or_byte n m b ! i) j \<longleftrightarrow> bit (b ! i) j \<or> (i = n \<and> bit m j)"
  by (cases "i = n") (simp_all add: or_byte_def bit_or_iff)

lemma bit_back:
  fixes v :: bool
  assumes "wf_writer k w" and "bw_back w" and "v \<longrightarrow> bw_out w \<noteq> []"
  defines "w' \<equiv> write_bit v w"
  shows "wf_writer k w' \<and> unlocked w' \<and> (\<forall>ob. extends k w' ob \<longrightarrow> extends k w ob
    \<and> (\<forall>r. synced k w ob r \<longrightarrow> (\<exists>r'. Some (read_bit ob r) = Some (v, r') \<and> synced k w' ob r')))"
proof (cases "bw_out w = []")
  case True
  with assms have "w' = w\<lparr>bw_back := False\<rparr>" by (simp add: write_bit_def)
  then show ?thesis
    using assms True by (auto simp: wf_writer_def unlocked_def extends_def synced_def read_bit_def)
next
  case False
  let ?n = "length (bw_out w) - 1"
  have n: "?n < length (bw_out w)" using False by simp
  have w': "w' = w\<lparr>bw_out := (if v then or_byte ?n 1 (bw_out w) else bw_out w), bw_back := False\<rparr>"
    using assms False by (simp add: write_bit_def)
  have last: "\<not> bit (bw_out w ! ?n) 0" and idx: "0 < k \<Longrightarrow> bw_idx w < ?n"
    using assms(1,2) False by (auto simp: wf_writer_def last_conv_nth)
  have b: "bit (bw_out w' ! i) j = (if i = ?n \<and> j = 0 then v else bit (bw_out w ! i) j)" if "i < length (bw_out w)" for i j
    using that last by (auto simp: w' bit_or_byte bit_1_iff)
  have sel: "length (bw_out w') = length (bw_out w)" "bw_idx w' = bw_idx w" "bw_mask w' = bw_mask w" "\<not> bw_back w'"
    by (simp_all add: w')
  have wf: "wf_writer k w'"
    unfolding wf_writer_def
  proof (intro conjI impI allI)
    show "\<not> bit (bw_out w' ! bw_idx w') j" if "0 < k" "j < k" for j
      using assms(1) that b [of "bw_idx w" j] idx by (auto simp: wf_writer_def sel)
  qed (use assms(1) sel in \<open>auto simp: wf_writer_def\<close>)
  have "extends k w ob" and "bit (ob ! ?n) 0 = v" if "extends k w' ob" for ob
  proof -
    have l: "length (bw_out w) \<le> length ob" using that by (simp add: extends_def sel)
    have q: "bit (ob ! i) j = bit (bw_out w' ! i) j" if "i < length (bw_out w)" "\<not> (i = bw_idx w \<and> j < k)" for i j
      using \<open>extends k w' ob\<close> that by (simp add: extends_def sel pending_def)
    show "extends k w ob"
      unfolding extends_def
    proof (intro conjI allI impI)
      fix i j assume "i < length (bw_out w)" "\<not> pending k w i j"
      then show "bit (ob ! i) j = bit (bw_out w ! i) j"
        using q [of i j] b [of i j] assms(2) by (auto simp: pending_def)
    qed (rule l)
    have "\<not> (?n = bw_idx w \<and> 0 < k)" using idx by fastforce
    then show "bit (ob ! ?n) 0 = v" using q [OF n] b [OF n] by simp
  qed
  then show ?thesis
    using wf assms(2) False sel bit_uint_and [of _ 0]
    by (auto simp: unlocked_def synced_def read_bit_def)
qed

lemma bit_in_byte:
  fixes v :: bool
  assumes "wf_writer k w" and "\<not> bw_back w" and "0 < k"
  defines "w' \<equiv> write_bit v w"
  shows "wf_writer (k - 1) w' \<and> unlocked w' \<and> (\<forall>ob. extends (k - 1) w' ob \<longrightarrow> extends k w ob
    \<and> (\<forall>r. synced k w ob r \<longrightarrow> (\<exists>r'. Some (read_bit ob r) = Some (v, r') \<and> synced (k - 1) w' ob r')))"
proof -
  let ?n = "bw_idx w"
  have k: "k \<le> 7" and n: "?n < length (bw_out w)" and zero: "\<And>j. j < k \<Longrightarrow> \<not> bit (bw_out w ! ?n) j"
      and m: "bw_mask w = pow_mask k"
    using assms(1,3) by (auto simp: wf_writer_def)
  have w': "w' = w\<lparr>bw_out := (if v then or_byte ?n (pow_mask k) (bw_out w) else bw_out w), bw_mask := pow_mask (k - 1)\<rparr>"
    using assms(2,3) m k pow_mask_drop [of k] pow_mask_zero [of k] by (simp add: w'_def write_bit_def Let_def)
  have b: "bit (bw_out w' ! i) j = (if i = ?n \<and> j = k - 1 then v else bit (bw_out w ! i) j)" if "i < length (bw_out w)" for i j
    using that zero [of "k - 1"] assms(3) bit_pow_mask [of k j] k by (auto simp: w' bit_or_byte)
  have sel: "length (bw_out w') = length (bw_out w)" "bw_idx w' = ?n" "bw_mask w' = pow_mask (k - 1)" "\<not> bw_back w'"
    using assms(2) by (simp_all add: w')
  have wf: "wf_writer (k - 1) w'"
    unfolding wf_writer_def
  proof (intro conjI impI allI)
    show "\<not> bit (bw_out w' ! bw_idx w') j" if "j < k - 1" for j
      using b [OF n, of j] zero [of j] that by (simp add: sel)
  qed (use k n in \<open>simp_all add: sel\<close>)
  have "extends k w ob" and "bit (ob ! ?n) (k - 1) = v" if "extends (k - 1) w' ob" for ob
  proof -
    have l: "length (bw_out w) \<le> length ob" using that by (simp add: extends_def sel)
    have q: "bit (ob ! i) j = bit (bw_out w' ! i) j" if "i < length (bw_out w)" "\<not> (i = ?n \<and> j < k - 1)" for i j
      using \<open>extends (k - 1) w' ob\<close> that by (simp add: extends_def sel pending_def)
    show "extends k w ob"
      unfolding extends_def
    proof (intro conjI allI impI)
      fix i j assume i: "i < length (bw_out w)" "\<not> pending k w i j"
      then have j: "\<not> (i = ?n \<and> j < k)" by (auto simp: pending_def)
      then have "\<not> (i = ?n \<and> j < k - 1)" "\<not> (i = ?n \<and> j = k - 1)" using assms(3) by auto
      then show "bit (ob ! i) j = bit (bw_out w ! i) j" using q [OF i(1)] b [OF i(1), of j] by auto
    qed (rule l)
    show "bit (ob ! ?n) (k - 1) = v" using q [OF n, of "k - 1"] b [OF n] by simp
  qed
  moreover have "(2 :: nat) ^ k div 2 = 2 ^ (k - 1)" using assms(3) by (cases k) auto
  ultimately show ?thesis
    using wf assms(2,3) sel bit_uint_and [of _ "k - 1"]
    by (auto simp: unlocked_def synced_def read_bit_def Let_def)
qed

lemma bit_new_byte:
  fixes v :: bool
  assumes "wf_writer 0 w" and "\<not> bw_back w"
  defines "w' \<equiv> write_bit v w"
  shows "wf_writer 7 w' \<and> unlocked w' \<and> (\<forall>ob. extends 7 w' ob \<longrightarrow> extends 0 w ob
    \<and> (\<forall>r. synced 0 w ob r \<longrightarrow> (\<exists>r'. Some (read_bit ob r) = Some (v, r') \<and> synced 7 w' ob r')))"
proof -
  let ?n = "length (bw_out w)"
  have m: "bw_mask w = 0" using assms(1) by (simp add: wf_writer_def pow_mask_def)
  have w': "w' = w\<lparr>bw_out := bw_out w @ [if v then 128 else 0], bw_idx := ?n, bw_mask := 64\<rparr>"
    using assms(2) m by (simp add: w'_def write_bit_def Let_def or_byte_def list_update_append)
  have sel: "bw_out w' = bw_out w @ [if v then 128 else 0]" "bw_idx w' = ?n" "bw_mask w' = 64" "\<not> bw_back w'"
    using assms(2) by (simp_all add: w')
  have "extends 0 w ob" and "length ob > ?n" and "bit (ob ! ?n) 7 = v" if "extends 7 w' ob" for ob
  proof -
    show l: "length ob > ?n" using that by (simp add: extends_def sel)
    have q: "bit (ob ! i) j = bit (bw_out w' ! i) j" if "i < Suc ?n" "\<not> (i = ?n \<and> j < 7)" for i j
      using \<open>extends 7 w' ob\<close> that by (simp add: extends_def sel pending_def)
    have "bit (ob ! i) j = bit (bw_out w ! i) j" if "i < ?n" for i j
      using q [of i j] that by (simp add: sel nth_append)
    then show "extends 0 w ob" using l by (simp add: extends_def)
    show "bit (ob ! ?n) 7 = v" using q [of ?n 7] bit_128 by (simp add: sel nth_append)
  qed
  moreover have "wf_writer 7 w'"
    unfolding wf_writer_def
  proof (intro conjI impI allI)
    show "\<not> bit (bw_out w' ! bw_idx w') j" if "j < 7" for j
      using that bit_128 [of j] by (simp add: sel)
  qed (simp_all add: sel pow_mask_def)
  moreover have "\<exists>r'. read_bit ob r = (bit (ob ! ?n) 7, r') \<and> synced 7 w' ob r'" if "synced 0 w ob r" "length ob > ?n" for ob r
    using that assms(2) sel bit_uint_and [of "ob ! ?n" 7]
    by (simp add: synced_def read_bit_def read_byte_def Let_def not_le)
  ultimately show ?thesis using sel(4) unfolding unlocked_def by (intro conjI allI impI) fastforce+
qed

lemma codes_bit: "codes (\<lambda>w. v \<longrightarrow> running w) (write_bit v) unlocked (\<lambda>ob r. Some (read_bit ob r)) v"
proof (rule codesI)
  fix k w assume wf: "wf_writer k w" and v: "v \<longrightarrow> running w"
  consider "bw_back w" | "\<not> bw_back w" "0 < k" | "\<not> bw_back w" "k = 0" by blast
  then show "\<exists>k'. wf_writer k' (write_bit v w) \<and> unlocked (write_bit v w) \<and> (\<forall>ob. extends k' (write_bit v w) ob \<longrightarrow>
      extends k w ob \<and> (\<forall>r. synced k w ob r \<longrightarrow> (\<exists>r'. Some (read_bit ob r) = Some (v, r') \<and> synced k' (write_bit v w) ob r')))"
  proof cases
    case 1
    with v have "v \<longrightarrow> bw_out w \<noteq> []" by (auto simp: running_def at_start_def)
    from bit_back [OF wf 1 this] show ?thesis by blast
  next
    case 2
    from bit_in_byte [OF wf 2] show ?thesis by blast
  next
    case 3
    with wf bit_new_byte [of w v] show ?thesis by blast
  qed
qed

section \<open>Bytes\<close>

lemma extends_append:
  assumes "wf_writer k w" and "\<not> bw_back w" and "length (bw_out w) < length ob"
    and "\<And>i j. i < length (bw_out w) \<Longrightarrow> \<not> (i = bw_idx w \<and> j < k) \<Longrightarrow> bit (ob ! i) j = bit (bw_out w ! i) j"
  shows "extends k w ob"
  using assms by (auto simp: extends_def pending_def)

lemma extends_snoc:
  assumes "wf_writer k w" and "\<not> bw_back w" and "extends k (w\<lparr>bw_out := bw_out w @ [b], bw_back := t\<rparr>) ob"
  shows "extends k w ob" and "length (bw_out w) < length ob"
    and "0 < j \<or> \<not> t \<Longrightarrow> bit (ob ! length (bw_out w)) j = bit b j"
proof -
  let ?n = "length (bw_out w)"
  show l: "?n < length ob" using assms(3) by (simp add: extends_def)
  have q: "bit (ob ! i) j = bit ((bw_out w @ [b]) ! i) j"
    if "i < Suc ?n" "\<not> (i = bw_idx w \<and> j < k)" "\<not> (t \<and> i = ?n \<and> j = 0)" for i j
    using assms(3) that by (simp add: extends_def pending_def)
  show "extends k w ob"
  proof (rule extends_append [OF assms(1,2) l])
    fix i j assume "i < ?n" "\<not> (i = bw_idx w \<and> j < k)"
    then show "bit (ob ! i) j = bit (bw_out w ! i) j" using q [of i j] by (simp add: nth_append)
  qed
  assume "0 < j \<or> \<not> t"
  moreover have "\<not> (?n = bw_idx w \<and> j < k)" using assms(1) by (auto simp: wf_writer_def)
  ultimately show "bit (ob ! ?n) j = bit b j" using q [of ?n j] by auto
qed

lemma wf_snoc:
  assumes "wf_writer k w" and "\<not> bw_back w" and "t \<longrightarrow> \<not> bit b 0"
  shows "wf_writer k (w\<lparr>bw_out := bw_out w @ [b], bw_back := t\<rparr>)"
  using assms by (auto simp: wf_writer_def nth_append)

definition next_byte :: "bytes \<Rightarrow> bit_reader \<Rightarrow> (int \<times> bit_reader) option" where
  "next_byte ob r = (case read_byte ob r of (b, r') \<Rightarrow> if b < 0 then None else Some (b, r'))"

lemma next_byte_at:
  "br_pos r < length ob \<Longrightarrow>
    next_byte ob r = Some (uint (ob ! br_pos r), r\<lparr>br_last := uint (ob ! br_pos r), br_pos := br_pos r + 1\<rparr>)"
  by (simp add: next_byte_def read_byte_def Let_def)

lemma codes_byte: "codes unlocked (write_byte b) unlocked next_byte (uint b)"
proof (rule codesI)
  fix k w assume wf: "wf_writer k w" and u: "unlocked w"
  then have nb: "\<not> bw_back w" by (simp add: unlocked_def)
  then have w': "write_byte b w = w\<lparr>bw_out := bw_out w @ [b], bw_back := False\<rparr>" by (simp add: write_byte_def)
  have "extends k w ob \<and> (\<forall>r. synced k w ob r \<longrightarrow>
      (\<exists>r'. next_byte ob r = Some (uint b, r') \<and> synced k (write_byte b w) ob r'))"
    if e: "extends k (write_byte b w) ob" for ob
  proof -
    note s = extends_snoc [OF wf nb e [unfolded w']]
    have "ob ! length (bw_out w) = b" by (rule bit_eqI) (rule s(3), simp)
    moreover have "length (bw_out w) < length ob" by (rule s(2))
    ultimately show ?thesis using s(1) nb by (auto simp: synced_def next_byte_at w')
  qed
  then show "\<exists>k'. wf_writer k' (write_byte b w) \<and> unlocked (write_byte b w) \<and> (\<forall>ob. extends k' (write_byte b w) ob \<longrightarrow>
      extends k w ob \<and> (\<forall>r. synced k w ob r \<longrightarrow>
        (\<exists>r'. next_byte ob r = Some (uint b, r') \<and> synced k' (write_byte b w) ob r')))"
    using wf_snoc [OF wf nb, of False b] nb by (intro exI [of _ k]) (simp add: w' unlocked_def)
qed

text \<open>A byte whose lowest bit is lent to the next bit: only its upper half is read.\<close>

definition next_lsb :: "bytes \<Rightarrow> bit_reader \<Rightarrow> (nat \<times> bit_reader) option" where
  "next_lsb ob r = (case next_byte ob r of None \<Rightarrow> None | Some (b, r') \<Rightarrow> Some (nat b div 2, r'\<lparr>br_back := True\<rparr>))"

lemma half_byte_eq:
  assumes "\<And>j. 0 < j \<Longrightarrow> bit (a :: u8) j = bit b j"
  shows "nat (uint a) div 2 = unat b div 2"
proof -
  have "drop_bit 1 (unat a) = drop_bit 1 (unat b)"
    by (rule bit_eqI) (simp add: bit_drop_bit_eq bit_unsigned_iff assms)
  then show ?thesis by (simp add: drop_bit_eq_div)
qed

lemma codes_lsb:
  assumes "\<not> bit b 0"
  shows "codes unlocked (write_byte_with_backtrack b) running next_lsb (unat b div 2)"
proof (rule codesI)
  fix k w assume wf: "wf_writer k w" and u: "unlocked w"
  then have nb: "\<not> bw_back w" by (simp add: unlocked_def)
  have w': "write_byte_with_backtrack b w = w\<lparr>bw_out := bw_out w @ [b], bw_back := True\<rparr>"
    by (simp add: write_byte_with_backtrack_def)
  let ?w = "w\<lparr>bw_out := bw_out w @ [b], bw_back := True\<rparr>"
  have "extends k w ob \<and> (\<forall>r. synced k w ob r \<longrightarrow> (\<exists>r'. next_lsb ob r = Some (unat b div 2, r') \<and> synced k ?w ob r'))"
    if e: "extends k ?w ob" for ob
  proof -
    note s = extends_snoc [OF wf nb e]
    have "nat (uint (ob ! length (bw_out w))) div 2 = unat b div 2"
      by (rule half_byte_eq) (rule s(3), simp)
    moreover have "length (bw_out w) < length ob" by (rule s(2))
    ultimately show ?thesis using s(1) nb by (auto simp: synced_def next_byte_at next_lsb_def)
  qed
  then show "\<exists>k'. wf_writer k' (write_byte_with_backtrack b w) \<and> running (write_byte_with_backtrack b w)
      \<and> (\<forall>ob. extends k' (write_byte_with_backtrack b w) ob \<longrightarrow> extends k w ob \<and> (\<forall>r. synced k w ob r \<longrightarrow>
          (\<exists>r'. next_lsb ob r = Some (unat b div 2, r') \<and> synced k' (write_byte_with_backtrack b w) ob r')))"
    using wf_snoc [OF wf nb, of True b] assms by (intro exI [of _ k]) (simp add: w' running_def at_start_def)
qed

section \<open>Gamma codes\<close>

lemma running_unlocked: "unlocked w \<Longrightarrow> running w"
  by (simp add: running_def at_start_def unlocked_def)

lemma top_power_bounds:
  "0 < p \<Longrightarrow> p \<le> v \<Longrightarrow> p = 2 ^ a \<Longrightarrow> \<exists>e. top_power p v = 2 ^ e \<and> 2 ^ e \<le> v \<and> v < 2 ^ Suc e"
proof (induction p v arbitrary: a rule: top_power.induct)
  case (1 p v)
  show ?case
  proof (cases "p * 2 \<le> v")
    case True
    moreover have "p * 2 = 2 ^ Suc a" using 1(4) by simp
    ultimately show ?thesis using 1(1) [of "Suc a"] 1(2) by (subst top_power.simps) simp
  next
    case False
    then show ?thesis using 1(3,4) by (subst top_power.simps) auto
  qed
qed

lemma top_power_one:
  assumes "0 < v"
  obtains e where "top_power 1 v = 2 ^ e" and "v div 2 ^ e = 1"
proof -
  obtain e where e: "top_power 1 v = 2 ^ e" "2 ^ e \<le> v" "v < 2 ^ Suc e"
    using top_power_bounds [of 1 v 0] assms by auto
  have "v div 2 ^ e = 1" using e(2,3) by (intro div_nat_eqI) auto
  with e(1) show thesis by (rule that)
qed

lemma div_pow_step: "(v :: nat) div 2 ^ j = v div 2 ^ Suc j * 2 + (if v AND 2 ^ j \<noteq> 0 then 1 else 0)"
proof -
  have d: "v div 2 ^ Suc j = v div 2 ^ j div 2" by (metis div_mult2_eq power_Suc2)
  have o: "v AND 2 ^ j \<noteq> 0 \<longleftrightarrow> odd (v div 2 ^ j)" by (simp add: and_exp_eq_0_iff_not_bit bit_iff_odd)
  have "m = m div 2 * 2 + (if odd m then 1 else 0)" for m :: nat by (cases "even m") (auto elim!: oddE)
  then show ?thesis unfolding d o .
qed

lemma codes_gamma_pairs:
  "codes running (\<lambda>w. write_bit True (gamma_pairs neg (2 ^ j div 2) v w)) unlocked
     (\<lambda>ob. read_gamma ob neg (v div 2 ^ j)) v"
proof (induction j)
  case 0
  have "codes running (write_bit True) unlocked (\<lambda>ob. read_gamma ob neg v) v"
    by (rule codes_read [OF codes_pre [OF codes_bit]]) (auto simp: read_gamma.simps)
  then show ?case by (simp add: gamma_pairs.simps)
next
  case (Suc j)
  let ?b = "(v AND 2 ^ j \<noteq> 0) \<noteq> neg"
  have f: "codes running (write_bit False) unlocked (\<lambda>ob r. Some (read_bit ob r)) False"
    by (rule codes_pre [OF codes_bit]) simp
  have b: "codes unlocked (write_bit ?b) running (\<lambda>ob r. Some (read_bit ob r)) ?b"
    by (rule codes_post [OF codes_pre [OF codes_bit]]) (auto intro: running_unlocked)
  define q where "q = v div 2 ^ Suc j"
  have v: "q * 2 + (if ?b \<noteq> neg then 1 else 0) = v div 2 ^ j"
    using div_pow_step [of v j] by (auto simp: q_def)
  have "codes unlocked (\<lambda>w. write_bit True (gamma_pairs neg (2 ^ j div 2) v (write_bit ?b w))) unlocked
      (\<lambda>ob r. case read_bit ob r of (b, r2) \<Rightarrow> read_gamma ob neg (q * 2 + (if b \<noteq> neg then 1 else 0)) r2) v"
    by (rule codes_seq [OF b Suc.IH]) (simp only: option.inject prod.case v)
  from codes_seq [OF f this, of "\<lambda>ob. read_gamma ob neg q"]
  have "codes running (\<lambda>w. write_bit True (gamma_pairs neg (2 ^ j div 2) v (write_bit ?b (write_bit False w)))) unlocked
      (\<lambda>ob. read_gamma ob neg q) v"
    by (simp add: read_gamma.simps [of _ _ q])
  then show ?case by (subst gamma_pairs.simps) (simp add: q_def)
qed

lemma codes_gamma_of:
  assumes "0 < v"
  shows "codes running (\<lambda>w. write_bit True (gamma_pairs neg (top_power 1 v div 2) v w)) unlocked
    (\<lambda>ob. read_gamma ob neg 1) v"
  using top_power_one [OF assms] codes_gamma_pairs [of neg _ v] by metis

lemma codes_gamma: "0 < v \<Longrightarrow> codes running (write_elias_gamma v) unlocked (\<lambda>ob. read_gamma ob False 1) v"
  using codes_gamma_of [of v False] unfolding write_elias_gamma_def [abs_def] .

lemma codes_gamma_inv: "0 < v \<Longrightarrow> codes running (write_elias_gamma_inv v) unlocked (\<lambda>ob. read_gamma ob True 1) v"
  using codes_gamma_of [of v True] unfolding write_elias_gamma_inv_def [abs_def] .

section \<open>Literals\<close>

definition all_literals :: "nat \<Rightarrow> bytes \<Rightarrow> bytes \<Rightarrow> bit_reader \<Rightarrow> (bytes \<times> bit_reader) option" where
  "all_literals n acc ob r = (case read_literals ob n acc r of (acc', r', enough) \<Rightarrow> if enough then Some (acc', r') else None)"

lemma codes_literals: "codes unlocked (write_bytes bs) unlocked (all_literals (length bs) acc) (acc @ bs)"
proof (induction bs arbitrary: acc)
  case Nil
  show ?case by (rule codesI) (auto simp: all_literals_def)
next
  case (Cons b bs)
  have "codes unlocked (\<lambda>w. write_bytes bs (write_byte b w)) unlocked (all_literals (length (b # bs)) acc) (acc @ b # bs)"
  proof (rule codes_seq [OF codes_byte])
    show "codes unlocked (write_bytes bs) unlocked (all_literals (length bs) (acc @ [b])) (acc @ b # bs)"
      using Cons.IH [of "acc @ [b]"] by simp
    show "all_literals (length (b # bs)) acc ob r = all_literals (length bs) (acc @ [b]) ob r1"
      if "next_byte ob r = Some (uint b, r1)" for ob r r1
      using that by (auto simp: all_literals_def next_byte_def split: if_splits prod.splits)
  qed
  then show ?case by (simp add: write_bytes.simps [abs_def])
qed

end
