(* ===== verification/Zx0_Props.thy ===== *)
theory Zx0_Props
  imports Zx0_Bits
begin

text \<open>
  What the compressor guarantees: it never indexes out of range, every match it emits is a match
  of the input, and the decoder turns its output back into the input.
\<close>

section \<open>The match finder\<close>

definition entry_ok :: "nat \<Rightarrow> u16 \<Rightarrow> bool" where
  "entry_ok n c \<longleftrightarrow> c = no_entry_pos \<or> unat c < n"

definition finder_ok :: "bytes \<Rightarrow> match_finder \<Rightarrow> bool" where
  "finder_ok s m \<longleftrightarrow> mf_src m = s \<and> 0 < hash_size (mf_params m) \<and> length (hash_head m) = hash_size (mf_params m)
     \<and> length (chain_prev m) = length s \<and> list_all (entry_ok (length s)) (hash_head m)
     \<and> list_all (entry_ok (length s)) (chain_prev m)"

lemma finder_ok_new: "0 < hash_size p \<Longrightarrow> finder_ok s (new_match_finder s p)"
  by (simp add: finder_ok_def new_match_finder_def list_all_iff entry_ok_def)

lemma and_nat_le: "(a :: nat) AND b \<le> b"
  by (metis AND_upper2 of_nat_0_le_iff of_nat_and_eq of_nat_le_iff)

lemma hash2_ok:
  assumes "finder_ok s m" and "i < length s"
  obtains h where "hash2 m i = Inr h" and "h < length (hash_head m)"
proof -
  have l: "a AND (hash_size (mf_params m) - 1) < length (hash_head m)" for a
    using and_nat_le [of a "hash_size (mf_params m) - 1"] assms(1) by (auto simp: finder_ok_def)
  show thesis
    using that l assms by (cases "i + 1 < length s") (auto simp: hash2_def at_index_def finder_ok_def)
qed

lemma list_all_update: "list_all P xs \<Longrightarrow> P x \<Longrightarrow> list_all P (xs[i := x])"
  by (metis list_all_iff set_update_subset_insert insertE subsetD)

lemma insert_ok:
  assumes "finder_ok s m" and "i < length s"
  obtains m' where "mf_insert i m = Inr m'" and "finder_ok s m'"
proof -
  obtain h where h: "hash2 m i = Inr h" "h < length (hash_head m)" using assms by (rule hash2_ok)
  have "unat (of_nat i :: u16) \<le> i" by (simp add: unat_of_nat)
  then have "entry_ok (length s) (of_nat i)" using assms(2) by (simp add: entry_ok_def)
  moreover have "entry_ok (length s) (hash_head m ! h)"
    using assms(1) h(2) by (simp add: finder_ok_def list_all_length)
  ultimately show thesis
    using that assms h by (simp add: mf_insert_def at_index_def set_index_def finder_ok_def list_all_update)
qed

lemma insert_tail_ok:
  "finder_ok s m \<Longrightarrow> i + k \<le> length s \<Longrightarrow> \<exists>m'. insert_tail k i m = Inr m' \<and> finder_ok s m'"
proof (induction k arbitrary: i m)
  case (Suc k)
  obtain m1 where "mf_insert i m = Inr m1" "finder_ok s m1" using insert_ok [OF Suc.prems(1), of i] Suc.prems(2) by auto
  then show ?case using Suc.IH [of m1 "i + 1"] Suc.prems(2) by simp
qed simp

lemma match_length_sound:
  "ml \<le> mx \<Longrightarrow> (\<And>k. k < ml \<Longrightarrow> s ! (c + k) = s ! (p + k)) \<Longrightarrow>
    match_length s c p mx ml \<le> mx \<and> (\<forall>k<match_length s c p mx ml. s ! (c + k) = s ! (p + k))"
proof (induction s c p mx ml rule: match_length.induct)
  case (1 s c p mx ml)
  show ?case
  proof (cases "ml < mx \<and> s ! (c + ml) = s ! (p + ml)")
    case True
    then have "k < ml + 1 \<Longrightarrow> s ! (c + k) = s ! (p + k)" for k using 1(3) by (cases "k = ml") auto
    then show ?thesis using 1(1) True by (subst (1 2) match_length.simps) simp
  next
    case False
    then have "match_length s c p mx ml = ml" by (subst match_length.simps) auto
    then show ?thesis using 1(2,3) by simp
  qed
qed

text \<open>A usable match: far enough back, inside the input, and equal there.\<close>

definition match_at :: "bytes \<Rightarrow> nat \<Rightarrow> nat \<times> nat \<Rightarrow> bool" where
  "match_at s pos b \<longleftrightarrow> fst b = 0 \<or> (0 < snd b \<and> snd b \<le> pos \<and> snd b \<le> zx0_max_offset \<and> pos + fst b \<le> length s
     \<and> (\<forall>k<fst b. s ! (pos - snd b + k) = s ! (pos + k)))"

lemma probe_ok:
  "finder_ok s m \<Longrightarrow> pos < length s \<Longrightarrow> entry_ok (length s) c \<Longrightarrow> match_at s pos b \<Longrightarrow>
    \<exists>b'. probe k m pos c b = Inr b' \<and> match_at s pos b'"
proof (induction k arbitrary: c b)
  case (Suc k)
  show ?case
  proof (cases "c = no_entry_pos")
    case False
    let ?c = "unat c"
    let ?ml = "match_length s ?c pos (max_match (length s - pos)) 0"
    have c: "?c < length s" using Suc.prems(3) False by (simp add: entry_ok_def)
    have ml: "?ml \<le> length s - pos" "\<forall>k<?ml. s ! (?c + k) = s ! (pos + k)"
      using match_length_sound [of 0 "max_match (length s - pos)" s ?c pos] by (auto simp: max_match_def split: if_splits)
    let ?b = "if pos \<le> ?c \<or> pos - ?c > zx0_max_offset then b else better b ?ml (pos - ?c)"
    have "match_at s pos ?b"
      using Suc.prems(2,4) ml by (auto simp: match_at_def better_def)
    moreover have "entry_ok (length s) (chain_prev m ! ?c)"
      using Suc.prems(1) c by (simp add: finder_ok_def list_all_length)
    ultimately have "\<exists>b'. probe k m pos (chain_prev m ! ?c) ?b = Inr b' \<and> match_at s pos b'"
      using Suc.IH Suc.prems(1,2) by blast
    moreover have "at_index (chain_prev m) ?c = Inr (chain_prev m ! ?c)" and "mf_src m = s"
      using Suc.prems(1) c by (simp_all add: at_index_def finder_ok_def)
    ultimately show ?thesis by (simp only: probe.simps Let_def False if_False sbind.simps)
  qed (use Suc.prems in simp)
qed simp

lemma find_best_ok:
  assumes "finder_ok s m" and "pos < length s"
  obtains len off m' where "find_best pos m = Inr ((len, off), m')" and "finder_ok s m'" and "match_at s pos (len, off)"
proof -
  obtain h where h: "hash2 m pos = Inr h" "h < length (hash_head m)" using assms by (rule hash2_ok)
  have "entry_ok (length s) (hash_head m ! h)" using assms(1) h(2) by (simp add: finder_ok_def list_all_length)
  then obtain b where b: "probe (chain_depth (mf_params m)) m pos (hash_head m ! h) (0, 0) = Inr b" "match_at s pos b"
    using probe_ok [OF assms, of _ "(0, 0)"] unfolding match_at_def by (metis fst_conv)
  obtain m' where "mf_insert pos m = Inr m'" "finder_ok s m'" using assms by (rule insert_ok)
  then show thesis
    using that [of "fst b" "snd b" m'] h b by (simp add: find_best_def at_index_def)
qed

section \<open>Matches\<close>

lemma copy_match_ok:
  "match_at s pos (len, off) \<Longrightarrow> k \<le> len \<Longrightarrow> copy_match off k (take (pos + (len - k)) s) = take (pos + len) s"
proof (induction k)
  case (Suc k)
  let ?i = "pos + (len - Suc k)"
  from Suc.prems have m: "0 < off" "off \<le> pos" "pos + len \<le> length s" "\<forall>j<len. s ! (pos - off + j) = s ! (pos + j)"
    by (auto simp: match_at_def)
  have i: "?i < length s" using Suc.prems(2) m(3) by linarith
  have "pos - off + (len - Suc k) = ?i - off" using m(2) by simp
  then have "s ! (?i - off) = s ! ?i" using m(4) [rule_format, of "len - Suc k"] Suc.prems(2) by simp
  then have "take ?i s @ [if length (take ?i s) < off then 0 else take ?i s ! (length (take ?i s) - off)] = take (Suc ?i) s"
    using i m(1,2) by (simp add: take_Suc_conv_app_nth min_def)
  moreover have "Suc ?i = pos + (len - k)" using Suc.prems(2) by simp
  moreover have "copy_match off k (take (pos + (len - k)) s) = take (pos + len) s" using Suc by simp
  ultimately show ?case by (simp only: copy_match.simps)
qed simp

lemma offset_round_trip:
  assumes "0 < off" and "off \<le> zx0_max_offset"
  shows "offset_msb off * 128 - unat (offset_lsb off) div 2 = off" and "offset_msb off < 256"
    and "\<not> bit (offset_lsb off) 0" and "0 < offset_msb off"
proof -
  let ?r = "(off - 1) mod 128"
  have r: "?r < 128" by simp
  have u: "unat (offset_lsb off) = (127 - ?r) * 2"
    unfolding offset_lsb_def unat_of_nat by simp
  have "off - 1 = (off - 1) div 128 * 128 + ?r" by simp
  then show "offset_msb off * 128 - unat (offset_lsb off) div 2 = off"
    using u r assms(1) by (simp add: offset_msb_def)
  have "(off - 1) div 128 \<le> 32639 div 128" using assms(2) by (intro div_le_mono) (simp add: zx0_max_offset_def)
  then show "offset_msb off < 256" by (simp add: offset_msb_def)
  have "even (unat (offset_lsb off))" using u by simp
  then have "\<not> bit (unat (offset_lsb off)) 0" by (simp add: bit_0)
  then show "\<not> bit (offset_lsb off) 0" by (simp only: bit_unsigned_iff possible_bit_nat) simp
  show "0 < offset_msb off" by (simp add: offset_msb_def)
qed

section \<open>Tokens\<close>

text \<open>
  Where the decoder is between two tokens: after a match the next bit chooses between literals and
  a match with a new offset, after literals between the last offset and a new one.
\<close>

definition after_match :: "bytes \<Rightarrow> bytes \<Rightarrow> nat \<Rightarrow> bit_reader \<Rightarrow> bytes option" where
  "after_match ob acc off r = (case read_bit ob r of (c, r1) \<Rightarrow> decode ob c acc off r1)"

definition after_literals :: "bytes \<Rightarrow> bytes \<Rightarrow> nat \<Rightarrow> bit_reader \<Rightarrow> bytes option" where
  "after_literals ob acc off r =
     (case read_bit ob r of (c, r1) \<Rightarrow>
        if c then decode ob True acc off r1
        else Option.bind (read_gamma ob False 1 r1) (\<lambda>(n, r2). after_match ob (copy_match off n acc) off r2))"

lemma decode_literals:
  "read_gamma ob False 1 r = Some (n, r1) \<Longrightarrow> all_literals n acc ob r1 = Some (acc', r2) \<Longrightarrow>
    decode ob False acc off r = after_literals ob acc' off r2"
  by (subst decode.simps)
    (auto simp: after_literals_def after_match_def all_literals_def split: prod.splits if_splits)

lemma decode_new:
  "read_gamma ob True 1 r = Some (msb, r1) \<Longrightarrow> msb \<noteq> 256 \<Longrightarrow> next_lsb ob r1 = Some (l, r2) \<Longrightarrow>
    read_gamma ob False 1 r2 = Some (n, r3) \<Longrightarrow>
    decode ob True acc off r = after_match ob (copy_match (msb * 128 - l) (n + 1) acc) (msb * 128 - l) r3"
  by (subst decode.simps)
    (auto simp: after_match_def next_lsb_def next_byte_def Let_def split: prod.splits if_splits option.splits)

lemma decode_end: "read_gamma ob True 1 r = Some (256, r1) \<Longrightarrow> decode ob True acc off r = Some acc"
  by (subst decode.simps) simp

text \<open>A writing operation that is read back: from the reader before it to the reader after it.\<close>

definition moves ::
  "(bit_writer \<Rightarrow> bool) \<Rightarrow> (bit_writer \<Rightarrow> bit_writer) \<Rightarrow> (bit_writer \<Rightarrow> bool)
    \<Rightarrow> (bytes \<Rightarrow> bit_reader \<Rightarrow> bit_reader \<Rightarrow> bool) \<Rightarrow> bool" where
  "moves P f Q R \<longleftrightarrow> (\<forall>k w. wf_writer k w \<and> P w \<longrightarrow> (\<exists>k'. wf_writer k' (f w) \<and> Q (f w)
     \<and> (\<forall>ob. extends k' (f w) ob \<longrightarrow> extends k w ob
          \<and> (\<forall>r. synced k w ob r \<longrightarrow> (\<exists>r'. synced k' (f w) ob r' \<and> R ob r r')))))"

lemma codes_moves: "codes P f Q rd x \<Longrightarrow> moves P f Q (\<lambda>ob r r'. rd ob r = Some (x, r'))"
  unfolding codes_def moves_def by meson

lemma moves_weaken:
  "moves P f Q R \<Longrightarrow> (\<And>w. P' w \<Longrightarrow> P w) \<Longrightarrow> (\<And>w. Q w \<Longrightarrow> Q' w) \<Longrightarrow> (\<And>ob r r'. R ob r r' \<Longrightarrow> R' ob r r') \<Longrightarrow> moves P' f Q' R'"
  unfolding moves_def by meson

lemma movesD:
  assumes "moves P f Q R" and "wf_writer k w" and "P w"
  obtains k' where "wf_writer k' (f w)" and "Q (f w)"
    and "\<And>ob. extends k' (f w) ob \<Longrightarrow> extends k w ob"
    and "\<And>ob r. extends k' (f w) ob \<Longrightarrow> synced k w ob r \<Longrightarrow> \<exists>r'. synced k' (f w) ob r' \<and> R ob r r'"
  using assms unfolding moves_def by meson

lemma moves_seq:
  assumes "moves P f Q R" and "moves Q g S R'"
  shows "moves P (\<lambda>w. g (f w)) S (\<lambda>ob r r'. \<exists>r1. R ob r r1 \<and> R' ob r1 r')"
  unfolding moves_def
proof (intro allI impI, elim conjE)
  fix k w assume "wf_writer k w" "P w"
  with assms(1) obtain k1 where 1: "wf_writer k1 (f w)" "Q (f w)" "\<And>ob. extends k1 (f w) ob \<Longrightarrow> extends k w ob"
      "\<And>ob r. extends k1 (f w) ob \<Longrightarrow> synced k w ob r \<Longrightarrow> \<exists>r'. synced k1 (f w) ob r' \<and> R ob r r'"
    by (rule movesD) blast
  from assms(2) 1(1,2) obtain k2 where 2: "wf_writer k2 (g (f w))" "S (g (f w))"
      "\<And>ob. extends k2 (g (f w)) ob \<Longrightarrow> extends k1 (f w) ob"
      "\<And>ob r. extends k2 (g (f w)) ob \<Longrightarrow> synced k1 (f w) ob r \<Longrightarrow> \<exists>r'. synced k2 (g (f w)) ob r' \<and> R' ob r r'"
    by (rule movesD) blast
  show "\<exists>k'. wf_writer k' (g (f w)) \<and> S (g (f w)) \<and> (\<forall>ob. extends k' (g (f w)) ob \<longrightarrow> extends k w ob
      \<and> (\<forall>r. synced k w ob r \<longrightarrow> (\<exists>r'. synced k' (g (f w)) ob r' \<and> (\<exists>r1. R ob r r1 \<and> R' ob r1 r'))))"
    using 2(1,2) 1(3,4) 2(3,4) by (intro exI [of _ k2]) meson
qed

lemma moves_bit: "moves (\<lambda>w. v \<longrightarrow> running w) (write_bit v) running (\<lambda>ob r r'. read_bit ob r = (v, r'))"
  by (rule moves_weaken [OF codes_moves [OF codes_bit]]) (auto intro: running_unlocked)

lemmas moves_gamma = codes_moves [OF codes_gamma]
lemmas moves_gamma_inv = codes_moves [OF codes_gamma_inv]
lemmas moves_literals = codes_moves [OF codes_literals]
lemmas moves_lsb = codes_moves [OF codes_lsb]

lemma moves_run:
  assumes "lit < pos" and "pos \<le> length s"
  shows "moves (\<lambda>_. True) (flush_literals s lit pos) unlocked
    (\<lambda>ob r r'. \<forall>off. after_match ob (take lit s) off r = after_literals ob (take pos s) off r')"
proof -
  let ?bs = "take (pos - lit) (drop lit s)"
  have l: "length ?bs = pos - lit" using assms(2) by simp
  have t: "take lit s @ ?bs = take pos s" using assms by (metis le_add_diff_inverse less_imp_le_nat take_add)
  have "moves (\<lambda>_. True) (\<lambda>w. write_bytes ?bs (write_elias_gamma (pos - lit) (write_bit False w))) unlocked
      (\<lambda>ob r r'. \<forall>off. after_match ob (take lit s) off r = after_literals ob (take pos s) off r')"
  proof (rule moves_weaken [OF moves_seq [OF moves_seq [OF moves_bit [of False] moves_gamma] moves_literals [of ?bs "take lit s", unfolded l t]]])
    show "0 < pos - lit" using assms(1) by simp
  qed (auto simp: after_match_def decode_literals)
  then show ?thesis using assms(1) by (simp add: flush_literals_def [abs_def])
qed

lemma moves_rep:
  assumes "0 < len"
  shows "moves running (emit_match True len off) unlocked
    (\<lambda>ob r r'. \<forall>acc off. after_literals ob acc off r = after_match ob (copy_match off len acc) off r')"
proof -
  have "moves running (\<lambda>w. write_elias_gamma len (write_bit False w)) unlocked
      (\<lambda>ob r r'. \<forall>acc off. after_literals ob acc off r = after_match ob (copy_match off len acc) off r')"
    by (rule moves_weaken [OF moves_seq [OF moves_bit [of False] moves_gamma [OF assms]]]) (auto simp: after_literals_def)
  then show ?thesis by (simp add: emit_match_def [abs_def])
qed

lemma moves_new:
  assumes "1 < len" and "0 < off" and "off \<le> zx0_max_offset"
  shows "moves running (emit_match False len off) unlocked
    (\<lambda>ob r r'. \<forall>acc lo. after_literals ob acc lo r = after_match ob (copy_match off len acc) off r'
       \<and> after_match ob acc lo r = after_match ob (copy_match off len acc) off r')"
proof -
  note o = offset_round_trip [OF assms(2,3)]
  have sep: "moves running (write_bit True) running (\<lambda>ob r r'. read_bit ob r = (True, r'))"
    by (rule moves_weaken [OF moves_bit]) auto
  have gamma: "moves running (write_elias_gamma_inv (offset_msb off)) unlocked
      (\<lambda>ob r r'. read_gamma ob True 1 r = Some (offset_msb off, r'))"
    by (rule moves_gamma_inv [OF o(4)])
  have len: "moves running (write_elias_gamma (len - 1)) unlocked (\<lambda>ob r r'. read_gamma ob False 1 r = Some (len - 1, r'))"
    using assms(1) by (intro moves_gamma) simp
  have "moves running (\<lambda>w. write_elias_gamma (len - 1)
        (write_byte_with_backtrack (offset_lsb off) (write_elias_gamma_inv (offset_msb off) (write_bit True w)))) unlocked
      (\<lambda>ob r r'. \<forall>acc lo. after_literals ob acc lo r = after_match ob (copy_match off len acc) off r'
       \<and> after_match ob acc lo r = after_match ob (copy_match off len acc) off r')"
    by (rule moves_weaken [OF moves_seq [OF moves_seq [OF moves_seq [OF sep gamma] moves_lsb [OF o(3)]] len]])
      (use assms(1) o in \<open>auto simp: after_literals_def after_match_def decode_new\<close>)
  then show ?thesis by (simp add: emit_match_def [abs_def])
qed

lemma moves_end:
  "moves running write_end unlocked
    (\<lambda>ob r r'. \<forall>acc lo. after_literals ob acc lo r = Some acc \<and> after_match ob acc lo r = Some acc)"
proof -
  have sep: "moves running (write_bit True) running (\<lambda>ob r r'. read_bit ob r = (True, r'))"
    by (rule moves_weaken [OF moves_bit]) auto
  have "moves running (\<lambda>w. write_elias_gamma_inv 256 (write_bit True w)) unlocked
    (\<lambda>ob r r'. \<forall>acc lo. after_literals ob acc lo r = Some acc \<and> after_match ob acc lo r = Some acc)"
    by (rule moves_weaken [OF moves_seq [OF sep moves_gamma_inv]]) (auto simp: after_literals_def after_match_def decode_end)
  then show ?thesis by (simp add: write_end_def [abs_def])
qed

section \<open>The greedy parse\<close>

lemma moves_token:
  assumes "lit \<le> pos" and "match_at s pos (len, off)" and "rep = can_rep False (pos - lit) len off lo"
    and "\<not> rep \<Longrightarrow> is_new len off lo"
  shows "moves (\<lambda>w. at_start w \<longrightarrow> lit = 0) (\<lambda>w. emit_match rep len off (flush_literals s lit pos w)) unlocked
    (\<lambda>ob r r'. after_match ob (take lit s) lo r = after_match ob (take (pos + len) s) (if rep then lo else off) r')"
proof -
  have len: "1 < len" "\<not> rep \<Longrightarrow> 2 < len" and rep_off: "rep \<Longrightarrow> off = lo"
    using assms(3,4) by (auto simp: can_rep_def is_new_def)
  then have m: "0 < off" "off \<le> pos" "off \<le> zx0_max_offset" "pos + len \<le> length s"
    using assms(2) by (auto simp: match_at_def)
  have copy: "copy_match off len (take pos s) = take (pos + len) s"
    using copy_match_ok [OF assms(2), of len] by simp
  have l: "0 < len" using len(1) by simp
  show ?thesis
  proof (cases "lit < pos")
    case True
    have run: "moves (\<lambda>w. at_start w \<longrightarrow> lit = 0) (flush_literals s lit pos) running
        (\<lambda>ob r r'. \<forall>off. after_match ob (take lit s) off r = after_literals ob (take pos s) off r')"
      using True m(4) by (intro moves_weaken [OF moves_run]) (auto intro: running_unlocked)
    show ?thesis
    proof (cases rep)
      case True
      then have "rep = True" by simp
      then show ?thesis
        unfolding \<open>rep = True\<close> by (intro moves_weaken [OF moves_seq [OF run moves_rep [OF l]]]) (use copy rep_off True in auto)
    next
      case False
      then have "rep = False" by simp
      then show ?thesis
        unfolding \<open>rep = False\<close> by (intro moves_weaken [OF moves_seq [OF run moves_new [OF len(1) m(1,3)]]]) (use copy in auto)
    qed
  next
    case False
    then have p: "pos = lit" and r: "rep = False" using assms(1,3) by (auto simp: can_rep_def)
    then have "flush_literals s lit pos w = w" for w by (simp add: flush_literals_def)
    moreover have "moves (\<lambda>w. at_start w \<longrightarrow> lit = 0) (emit_match False len off) unlocked
        (\<lambda>ob r r'. after_match ob (take lit s) lo r = after_match ob (take (pos + len) s) off r')"
      by (rule moves_weaken [OF moves_new [OF len(1) m(1,3)]]) (use m p copy in \<open>auto simp: running_def\<close>)
    ultimately show ?thesis unfolding r by simp
  qed
qed

lemma compress_loop_moves:
  assumes "finder_ok s m" and "lit \<le> pos" and "pos \<le> length s" and "at_start w \<longrightarrow> lit = 0" and "wf_writer k w"
  shows "\<exists>lit' w' k'. compress_loop s pos lit lo False m w = Inr (lit', w') \<and> lit' \<le> length s
    \<and> (at_start w' \<longrightarrow> lit' = 0) \<and> wf_writer k' w' \<and> (\<forall>ob. extends k' w' ob \<longrightarrow> extends k w ob
        \<and> (\<forall>r. synced k w ob r \<longrightarrow> (\<exists>lo' r'. synced k' w' ob r'
              \<and> after_match ob (take lit s) lo r = after_match ob (take lit' s) lo' r')))"
  using assms
proof (induction "length s - pos" arbitrary: pos lit lo m w k rule: less_induct)
  case less
  show ?case
  proof (cases "pos < length s")
    case False
    then show ?thesis using less.prems by (subst compress_loop.simps) (auto intro: exI [of _ k])
  next
    case True
    obtain len off m1 where f: "find_best pos m = Inr ((len, off), m1)" "finder_ok s m1" "match_at s pos (len, off)"
      using less.prems(1) True by (rule find_best_ok)
    let ?rep = "can_rep False (pos - lit) len off lo"
    show ?thesis
    proof (cases "\<not> ?rep \<and> \<not> is_new len off lo")
      case True
      then have "compress_loop s pos lit lo False m w = compress_loop s (pos + 1) lit lo False m1 w"
        using f(1) \<open>pos < length s\<close> by (subst compress_loop.simps) simp
      then show ?thesis
        using less.hyps [of "pos + 1" m1 lit w k lo] less.prems f(2) \<open>pos < length s\<close> by simp
    next
      case tok: False
      let ?w = "emit_match ?rep len off (flush_literals s lit pos w)"
      have len: "1 < len" using tok by (auto simp: can_rep_def is_new_def)
      then have e: "pos + len \<le> length s" using f(3) by (auto simp: match_at_def)
      then obtain m2 where m2: "insert_tail (len - 1) (pos + 1) m1 = Inr m2" "finder_ok s m2"
        using insert_tail_ok [OF f(2), of "pos + 1" "len - 1"] len by auto
      have step: "compress_loop s pos lit lo False m w
          = compress_loop s (pos + len) (pos + len) (if ?rep then lo else off) False m2 ?w"
        using f(1) m2(1) tok \<open>pos < length s\<close> by (subst compress_loop.simps) (auto simp: Let_def)
      obtain k1 where k1: "wf_writer k1 ?w" "unlocked ?w" "\<And>ob. extends k1 ?w ob \<Longrightarrow> extends k w ob"
          "\<And>ob r. extends k1 ?w ob \<Longrightarrow> synced k w ob r \<Longrightarrow> \<exists>r'. synced k1 ?w ob r'
            \<and> after_match ob (take lit s) lo r = after_match ob (take (pos + len) s) (if ?rep then lo else off) r'"
        using movesD [OF moves_token [OF less.prems(2) f(3) refl] less.prems(5)] tok less.prems(4) by blast
      have "at_start ?w \<longrightarrow> pos + len = 0" using k1(2) by (simp add: at_start_def unlocked_def)
      with less.hyps [of "pos + len" m2 "pos + len" ?w k1 "if ?rep then lo else off"] m2(2) e k1(1) len True
      obtain lit' w' k' where i: "compress_loop s pos lit lo False m w = Inr (lit', w')" "lit' \<le> length s"
          "at_start w' \<longrightarrow> lit' = 0" "wf_writer k' w'" "\<And>ob. extends k' w' ob \<Longrightarrow> extends k1 ?w ob"
          "\<And>ob r. extends k' w' ob \<Longrightarrow> synced k1 ?w ob r \<Longrightarrow> \<exists>lo' r'. synced k' w' ob r'
            \<and> after_match ob (take (pos + len) s) (if ?rep then lo else off) r = after_match ob (take lit' s) lo' r'"
        unfolding step by fastforce
      have "extends k' w' ob \<longrightarrow> extends k w ob \<and> (\<forall>r. synced k w ob r \<longrightarrow> (\<exists>lo' r'. synced k' w' ob r'
          \<and> after_match ob (take lit s) lo r = after_match ob (take lit' s) lo' r'))" for ob
        using i(5,6) k1(3,4) by metis
      with i(1-4) show ?thesis by blast
    qed
  qed
qed

section \<open>The round trip\<close>

lemma compressed_image:
  assumes "0 < hash_size p" and "s \<noteq> []"
  shows "\<exists>out. compress s p = Inr out \<and> decompress out = Some s"
proof -
  let ?r = "new_bit_reader\<lparr>br_back := True\<rparr>"
  have w0: "wf_writer 0 new_bit_writer" "at_start new_bit_writer"
    by (simp_all add: wf_writer_def new_bit_writer_def pow_mask_def at_start_def)
  have r0: "synced 0 new_bit_writer ob ?r" for ob
    by (simp add: synced_def new_bit_writer_def new_bit_reader_def)
  have d0: "decompress ob = after_match ob [] 1 ?r" for ob
    by (simp add: decompress_def after_match_def read_bit_def new_bit_reader_def)
  obtain lit w k where i: "compress_loop s 0 0 1 False (new_match_finder s p) new_bit_writer = Inr (lit, w)"
      "lit \<le> length s" "at_start w \<longrightarrow> lit = 0" "wf_writer k w"
      "\<And>ob. extends k w ob \<Longrightarrow> \<exists>lo r. synced k w ob r \<and> after_match ob [] 1 ?r = after_match ob (take lit s) lo r"
    using compress_loop_moves [OF finder_ok_new [OF assms(1)], of 0 0 s new_bit_writer 0 1] w0(1) r0 by fastforce
  have "moves (\<lambda>w. at_start w \<longrightarrow> lit = 0) (\<lambda>w. write_end (flush_literals s lit (length s) w)) unlocked
      (\<lambda>ob r r'. \<forall>lo. after_match ob (take lit s) lo r = Some s)"
  proof (cases "lit < length s")
    case True
    have run: "moves (\<lambda>w. at_start w \<longrightarrow> lit = 0) (flush_literals s lit (length s)) running
        (\<lambda>ob r r'. \<forall>off. after_match ob (take lit s) off r = after_literals ob s off r')"
      by (rule moves_weaken [OF moves_run [OF True order_refl]]) (auto intro: running_unlocked)
    show ?thesis by (rule moves_weaken [OF moves_seq [OF run moves_end]]) auto
  next
    case False
    then have l: "lit = length s" using i(2) by simp
    have "moves (\<lambda>w. at_start w \<longrightarrow> lit = 0) write_end unlocked (\<lambda>ob r r'. \<forall>lo. after_match ob (take lit s) lo r = Some s)"
      by (rule moves_weaken [OF moves_end]) (use assms(2) l in \<open>auto simp: running_def\<close>)
    then show ?thesis by (simp add: flush_literals_def l)
  qed
  from movesD [OF this i(4) i(3)] obtain k' where e: "\<And>ob. extends k' (write_end (flush_literals s lit (length s) w)) ob \<Longrightarrow> extends k w ob"
      "\<And>ob r lo. extends k' (write_end (flush_literals s lit (length s) w)) ob \<Longrightarrow> synced k w ob r \<Longrightarrow>
        after_match ob (take lit s) lo r = Some s"
    by metis
  let ?out = "bw_out (write_end (flush_literals s lit (length s) w))"
  have "extends k' (write_end (flush_literals s lit (length s) w)) ?out" by (simp add: extends_def)
  with e i(5) have "after_match ?out [] 1 ?r = Some s" by metis
  moreover have "compress s p = Inr ?out" using assms(2) i(1) by (simp add: compress_def)
  ultimately show ?thesis by (simp add: d0)
qed

text \<open>
  C6.  Compression is faithful: for every parameter choice with a non-empty hash table and every
  non-empty input, of any length, the compressor does not panic and the decoder reconstructs the
  input from its output.
\<close>

theorem zx0_round_trip:
  assumes "0 < hash_size p" and "s \<noteq> []"
  shows "\<exists>out. compress s p = Inr out \<and> decompress out = Some s"
  using assms by (rule compressed_image)

lemma zx0_round_trip_witness:
  "\<exists>out. compress [65, 66, 65, 66, 65, 66, 65, 67] default_params = Inr out \<and> decompress out = Some [65, 66, 65, 66, 65, 66, 65, 67]"
  by (rule zx0_round_trip) (simp_all add: default_params_def)

end
