(* ===== verification/Zx0_Trace.thy ===== *)
theory Zx0_Trace
  imports Zx0_Props
begin

text \<open>
  The instrumented variants of the compressor (\<^verbatim>\<open>CompressWithTrace\<close>, \<^verbatim>\<open>CollectFindBestResults\<close>,
  \<^verbatim>\<open>CollectProbeStats\<close>, \<^verbatim>\<open>GetChainAt\<close>): the trace does not change the bytes, the collected
  decisions are those of the compressor, and the probe counts are bounded by the chain depth.
\<close>

section \<open>Tracing\<close>

record bit_event =
  ev_out_pos :: int
  ev_bit :: nat
  ev_input_pos :: nat
  ev_field :: string

type_synonym traced = "bit_writer \<times> bit_event list"

text \<open>\<^verbatim>\<open>for m > bw.bitMask { consumed++; m >>= 1 }\<close>, from 128 down; the mask is not zero there.\<close>

function bits_consumed :: "u8 \<Rightarrow> u8 \<Rightarrow> nat" where
  "bits_consumed m bm = (if m > bm then Suc (bits_consumed (drop_bit 1 m) bm) else 0)"
  by pat_completeness auto

termination bits_consumed
proof (relation "measure (\<lambda>(m, bm). unat m)")
  fix m bm :: u8
  assume "m > bm"
  then have "0 < unat m" by (metis gr_zeroI not_less_zero unat_0 unat_mono word_less_nat_alt)
  moreover have "unat (drop_bit 1 m) = unat m div 2" by (simp add: drop_bit_eq_div unat_div_distrib)
  ultimately show "((drop_bit 1 m, bm), (m, bm)) \<in> measure (\<lambda>(m, bm). unat m)" by simp
qed simp

declare bits_consumed.simps [simp del]

definition trace_pos :: "bit_writer \<Rightarrow> int" where
  "trace_pos w =
     (if bw_mask w \<noteq> 0 then (int (length (bw_out w)) - 1) * 8 + int (bits_consumed 128 (bw_mask w))
      else int (length (bw_out w)) * 8)"

definition emit_bit :: "nat \<Rightarrow> bool \<Rightarrow> string \<Rightarrow> traced \<Rightarrow> traced" where
  "emit_bit pos v field t =
     (case t of (w, es) \<Rightarrow>
        (write_bit v w, es @ [\<lparr>ev_out_pos = trace_pos w, ev_bit = of_bool v, ev_input_pos = pos, ev_field = field\<rparr>]))"

definition byte_event :: "nat \<Rightarrow> u8 \<Rightarrow> string \<Rightarrow> bit_writer \<Rightarrow> bit_event" where
  "byte_event pos b field w =
     \<lparr>ev_out_pos = int (length (bw_out w)) * 8, ev_bit = unat b, ev_input_pos = pos, ev_field = field\<rparr>"

definition emit_byte_traced :: "nat \<Rightarrow> u8 \<Rightarrow> string \<Rightarrow> traced \<Rightarrow> traced" where
  "emit_byte_traced pos b field t = (case t of (w, es) \<Rightarrow> (write_byte b w, es @ [byte_event pos b (field @ ''(byte)'') w]))"

definition emit_byte_bt :: "nat \<Rightarrow> u8 \<Rightarrow> string \<Rightarrow> traced \<Rightarrow> traced" where
  "emit_byte_bt pos b field t =
     (case t of (w, es) \<Rightarrow> (write_byte_with_backtrack b w, es @ [byte_event pos b (field @ ''(bbt)'') w]))"

function traced_pairs :: "nat \<Rightarrow> bool \<Rightarrow> nat \<Rightarrow> nat \<Rightarrow> string \<Rightarrow> traced \<Rightarrow> traced" where
  "traced_pairs pos neg p v field t =
     (if p = 0 then t
      else traced_pairs pos neg (p div 2) v field
             (emit_bit pos ((v AND p \<noteq> 0) \<noteq> neg) (field @ ''_val'') (emit_bit pos False (field @ ''_dir'') t)))"
  by pat_completeness auto

termination traced_pairs
  by (relation "measure (\<lambda>(pos, neg, p, rest). p)") auto

declare traced_pairs.simps [simp del]

definition emit_gamma :: "nat \<Rightarrow> bool \<Rightarrow> nat \<Rightarrow> string \<Rightarrow> traced \<Rightarrow> traced" where
  "emit_gamma pos neg v field t = emit_bit pos True (field @ ''_term'') (traced_pairs pos neg (top_power 1 v div 2) v field t)"

fun emit_bytes :: "nat \<Rightarrow> bytes \<Rightarrow> string \<Rightarrow> traced \<Rightarrow> traced" where
  "emit_bytes pos [] field t = t"
| "emit_bytes pos (b # bs) field t = emit_bytes pos bs field (emit_byte_traced pos b field t)"

definition traced_literals :: "string \<Rightarrow> bytes \<Rightarrow> nat \<Rightarrow> nat \<Rightarrow> traced \<Rightarrow> traced" where
  "traced_literals field s lit pos t =
     (if pos - lit > 0
      then emit_bytes pos (take (pos - lit) (drop lit s)) (field @ ''Byte'')
             (emit_gamma pos False (pos - lit) (field @ ''Count'') (emit_bit pos False (field @ ''Sep'') t))
      else t)"

definition traced_match :: "nat \<Rightarrow> bool \<Rightarrow> nat \<Rightarrow> nat \<Rightarrow> traced \<Rightarrow> traced" where
  "traced_match pos rep len off t =
     (if rep then emit_gamma pos False len ''repLen'' (emit_bit pos False ''repSep'' t)
      else emit_gamma pos False (len - 1) ''newLen''
             (emit_byte_bt pos (offset_lsb off) ''newLsb''
                (emit_gamma pos True (offset_msb off) ''newMsb'' (emit_bit pos True ''newSep'' t))))"

function trace_loop :: "bytes \<Rightarrow> nat \<Rightarrow> nat \<Rightarrow> nat \<Rightarrow> bool \<Rightarrow> match_finder \<Rightarrow> traced \<Rightarrow> (nat \<times> traced) res" where
  "trace_loop s pos lit last_off prev_lit m t =
     (if pos < length s then
        sbind (find_best pos m) (\<lambda>((len, off), m1).
          if \<not> can_rep prev_lit (pos - lit) len off last_off \<and> \<not> is_new len off last_off
          then trace_loop s (pos + 1) lit last_off prev_lit m1 t
          else
            let rep = can_rep prev_lit (pos - lit) len off last_off;
                t2 = traced_match pos rep len off (traced_literals ''lit'' s lit pos t) in
            sbind (insert_tail (len - 1) (pos + 1) m1) (\<lambda>m2.
              trace_loop s (pos + len) (pos + len) (if rep then last_off else off) False m2 t2))
      else Inr (lit, t))"
  by pat_completeness auto

termination trace_loop
  by (relation "measure (\<lambda>(s, pos, rest). length s - pos)") (auto simp: can_rep_def is_new_def)

declare trace_loop.simps [simp del]

definition compress_with_trace :: "bytes \<Rightarrow> zx0_params \<Rightarrow> (bytes \<times> bit_event list) res" where
  "compress_with_trace s p =
     (if s = [] then Inr (bw_out (write_end new_bit_writer), [])
      else sbind (trace_loop s 0 0 1 False (new_match_finder s p) (new_bit_writer, [])) (\<lambda>(lit, t).
        case emit_gamma (length s) True 256 ''endMsb''
               (emit_bit (length s) True ''endSep'' (traced_literals ''trail'' s lit (length s) t)) of
          (w, es) \<Rightarrow> Inr (bw_out w, es)))"

lemma fst_emit [simp]:
  "fst (emit_bit pos v field t) = write_bit v (fst t)"
  "fst (emit_byte_traced pos b field t) = write_byte b (fst t)"
  "fst (emit_byte_bt pos b field t) = write_byte_with_backtrack b (fst t)"
  by (simp_all add: emit_bit_def emit_byte_traced_def emit_byte_bt_def split: prod.split)

lemma fst_pairs [simp]: "fst (traced_pairs pos neg p v field t) = gamma_pairs neg p v (fst t)"
proof (induction p arbitrary: t rule: less_induct)
  case (less p)
  show ?case
  proof (cases "p = 0")
    case False
    then have "p div 2 < p" by simp
    from less.IH [OF this] show ?thesis by (subst traced_pairs.simps, subst gamma_pairs.simps) simp
  qed (simp add: traced_pairs.simps gamma_pairs.simps)
qed

lemma fst_gamma [simp]:
  "fst (emit_gamma pos neg v field t) = (if neg then write_elias_gamma_inv v (fst t) else write_elias_gamma v (fst t))"
  by (simp add: emit_gamma_def write_elias_gamma_def write_elias_gamma_inv_def)

lemma fst_bytes [simp]: "fst (emit_bytes pos bs field t) = write_bytes bs (fst t)"
  by (induction bs arbitrary: t) simp_all

lemma fst_literals [simp]: "fst (traced_literals field s lit pos t) = flush_literals s lit pos (fst t)"
  by (simp add: traced_literals_def flush_literals_def)

lemma fst_match [simp]: "fst (traced_match pos rep len off t) = emit_match rep len off (fst t)"
  by (simp add: traced_match_def emit_match_def)

lemma trace_loop_writer:
  "sbind (trace_loop s pos lit lo prev m t) (\<lambda>(l, t'). Inr (l, fst t')) = compress_loop s pos lit lo prev m (fst t)"
proof (induction "length s - pos" arbitrary: pos lit lo prev m t rule: less_induct)
  case less
  show ?case
  proof (cases "pos < length s")
    case True
    have ih: "sbind (trace_loop s q l lo' prev' m' t') (\<lambda>(l, t'). Inr (l, fst t')) = compress_loop s q l lo' prev' m' (fst t')"
      if "pos < q" for q l lo' prev' m' t'
      using less that True by simp
    show ?thesis
    proof (cases "find_best pos m")
      case (Inr r)
      then obtain len off m1 where f: "find_best pos m = Inr ((len, off), m1)" by (metis surj_pair)
      show ?thesis
      proof (cases "\<not> can_rep prev (pos - lit) len off lo \<and> \<not> is_new len off lo")
        case lit: True
        then show ?thesis
          using True f ih [of "pos + 1"] by (subst trace_loop.simps, subst compress_loop.simps) simp
      next
        case tok: False
        then have "pos < pos + len" by (auto simp: can_rep_def is_new_def)
        note ih' = ih [OF this]
        show ?thesis
          using True f tok ih' by (subst trace_loop.simps, subst compress_loop.simps)
            (cases "insert_tail (len - 1) (pos + 1) m1"; auto simp: Let_def)
      qed
    qed (use True in \<open>simp add: trace_loop.simps compress_loop.simps\<close>)
  qed (simp add: trace_loop.simps compress_loop.simps)
qed

text \<open>
  C37.  Tracing is transparent: the traced compressor fails exactly when the compressor does, and
  otherwise returns its bytes.
\<close>

theorem trace_transparent: "sbind (compress_with_trace s p) (\<lambda>(out, es). Inr out) = compress s p"
proof (cases "s = []")
  case False
  have "compress s p = sbind (compress_loop s 0 0 1 False (new_match_finder s p) (fst (new_bit_writer, [] :: bit_event list)))
      (\<lambda>(lit, w). Inr (bw_out (write_end (flush_literals s lit (length s) w))))"
    using False by (simp add: compress_def)
  also have "\<dots> = sbind (compress_with_trace s p) (\<lambda>(out, es). Inr out)"
    unfolding trace_loop_writer [symmetric] using False
    by (cases "trace_loop s 0 0 1 False (new_match_finder s p) (new_bit_writer, [])")
      (auto simp: compress_with_trace_def write_end_def split_beta)
  finally show ?thesis by simp
qed (simp add: compress_with_trace_def compress_def)

section \<open>Probe statistics\<close>

record probe_stats =
  ps_positions :: nat
  ps_chain_steps :: nat
  ps_byte_comps :: nat

text \<open>The probe loop without an insertion: chain steps and byte comparisons.\<close>

fun probe_count :: "nat \<Rightarrow> match_finder \<Rightarrow> nat \<Rightarrow> u16 \<Rightarrow> nat \<times> nat \<Rightarrow> (nat \<times> nat) res" where
  "probe_count 0 m pos c n = Inr n"
| "probe_count (Suc k) m pos c n =
     (if c = no_entry_pos then Inr n
      else let cand = unat c;
               comps = (if pos \<le> cand \<or> pos - cand > zx0_max_offset then 0
                        else match_length (mf_src m) cand pos (max_match (length (mf_src m) - pos)) 0 + 1) in
        sbind (at_index (chain_prev m) cand) (\<lambda>c'. probe_count k m pos c' (fst n + 1, snd n + comps)))"

definition probe_stats_at :: "match_finder \<Rightarrow> nat \<Rightarrow> (nat \<times> nat) res" where
  "probe_stats_at m pos =
     sbind (hash2 m pos) (\<lambda>h. sbind (at_index (hash_head m) h) (\<lambda>c.
       probe_count (chain_depth (mf_params m)) m pos c (0, 0)))"

text \<open>The positions \<open>pos, \<dots>\<close>, of which \<open>k\<close> are left.\<close>

fun probe_all :: "nat \<Rightarrow> nat \<Rightarrow> match_finder \<Rightarrow> probe_stats \<Rightarrow> probe_stats res" where
  "probe_all 0 pos m st = Inr st"
| "probe_all (Suc k) pos m st =
     sbind (probe_stats_at m pos) (\<lambda>(steps, comps).
     sbind (mf_insert pos m) (\<lambda>m1.
       probe_all k (pos + 1) m1
         (st\<lparr>ps_positions := ps_positions st + 1, ps_chain_steps := ps_chain_steps st + steps,
             ps_byte_comps := ps_byte_comps st + comps\<rparr>)))"

definition collect_probe_stats :: "bytes \<Rightarrow> zx0_params \<Rightarrow> probe_stats res" where
  "collect_probe_stats s p =
     probe_all (length s) 0 (new_match_finder s p) \<lparr>ps_positions = 0, ps_chain_steps = 0, ps_byte_comps = 0\<rparr>"

lemma probe_count_ok:
  "finder_ok s m \<Longrightarrow> entry_ok (length s) c \<Longrightarrow> \<exists>i j. probe_count k m pos c (a, b) = Inr (a + i, b + j) \<and> i \<le> k \<and> j \<le> 256 * i"
proof (induction k arbitrary: c a b)
  case (Suc k)
  show ?case
  proof (cases "c = no_entry_pos")
    case False
    let ?c = "unat c"
    let ?n = "if pos \<le> ?c \<or> pos - ?c > zx0_max_offset then 0
      else match_length s ?c pos (max_match (length s - pos)) 0 + 1"
    have c: "?c < length s" using Suc.prems(2) False by (simp add: entry_ok_def)
    have "max_match (length s - pos) \<le> 255" by (simp add: max_match_def)
    then have n: "?n \<le> 256"
      using match_length_sound [of 0 "max_match (length s - pos)" s ?c pos] by auto
    have "entry_ok (length s) (chain_prev m ! ?c)"
      using Suc.prems(1) c by (simp add: finder_ok_def list_all_length)
    from Suc.IH [OF Suc.prems(1) this, of "a + 1" "b + ?n"] obtain i j
      where "probe_count k m pos (chain_prev m ! ?c) (a + 1, b + ?n) = Inr (a + 1 + i, b + ?n + j)" "i \<le> k" "j \<le> 256 * i"
      by blast
    moreover have "at_index (chain_prev m) ?c = Inr (chain_prev m ! ?c)" and "mf_src m = s"
      using Suc.prems(1) c by (simp_all add: at_index_def finder_ok_def)
    ultimately have "probe_count (Suc k) m pos c (a, b) = Inr (a + (1 + i), b + (?n + j)) \<and> 1 + i \<le> Suc k \<and> ?n + j \<le> 256 * (1 + i)"
      using n by (simp only: probe_count.simps Let_def False if_False sbind.simps fst_conv snd_conv) simp
    then show ?thesis by blast
  qed (auto intro: exI [of _ 0])
qed (auto intro: exI [of _ 0])

lemma probe_stats_at_ok:
  assumes "finder_ok s m" and "pos < length s"
  obtains i j where "probe_stats_at m pos = Inr (i, j)" and "i \<le> chain_depth (mf_params m)" and "j \<le> 256 * i"
proof -
  obtain h where h: "hash2 m pos = Inr h" "h < length (hash_head m)" using assms by (rule hash2_ok)
  have "entry_ok (length s) (hash_head m ! h)" using assms(1) h(2) by (simp add: finder_ok_def list_all_length)
  from probe_count_ok [OF assms(1) this, of "chain_depth (mf_params m)" pos 0 0]
  show thesis using that h by (auto simp: probe_stats_at_def at_index_def)
qed

lemma mf_insert_params: "mf_insert i m = Inr m' \<Longrightarrow> mf_params m' = mf_params m"
  by (auto simp: mf_insert_def sbind_Inr_iff)

lemma probe_all_ok:
  "finder_ok s m \<Longrightarrow> pos + k = length s \<Longrightarrow> \<exists>i j. probe_all k pos m st = Inr \<lparr>ps_positions = ps_positions st + k,
      ps_chain_steps = ps_chain_steps st + i, ps_byte_comps = ps_byte_comps st + j\<rparr>
    \<and> i \<le> chain_depth (mf_params m) * k \<and> j \<le> 256 * i"
proof (induction k arbitrary: pos m st)
  case (Suc k)
  then have p: "pos < length s" "pos + 1 + k = length s" by auto
  obtain i j where i: "probe_stats_at m pos = Inr (i, j)" "i \<le> chain_depth (mf_params m)" "j \<le> 256 * i"
    using Suc.prems(1) p(1) by (rule probe_stats_at_ok)
  obtain m1 where m1: "mf_insert pos m = Inr m1" "finder_ok s m1" using Suc.prems(1) p(1) by (rule insert_ok)
  let ?st = "st\<lparr>ps_positions := ps_positions st + 1, ps_chain_steps := ps_chain_steps st + i, ps_byte_comps := ps_byte_comps st + j\<rparr>"
  obtain i' j' where r: "probe_all k (pos + 1) m1 ?st = Inr \<lparr>ps_positions = ps_positions ?st + k,
      ps_chain_steps = ps_chain_steps ?st + i', ps_byte_comps = ps_byte_comps ?st + j'\<rparr>"
      "i' \<le> chain_depth (mf_params m) * k" "j' \<le> 256 * i'"
    using Suc.IH [OF m1(2) p(2), of ?st] mf_insert_params [OF m1(1)] by auto
  show ?case
    using i m1(1) r by (intro exI [of _ "i + i'"] exI [of _ "j + j'"]) simp
qed (auto intro: exI [of _ 0])

text \<open>
  C38.  The probe counts behind the cost estimate are bounded: one entry per input byte, at most
  \<^verbatim>\<open>ChainDepth\<close> chain steps for each, at most 256 byte comparisons for each step.
\<close>

theorem probe_stats_bounded:
  assumes "0 < hash_size p"
  shows "\<exists>st. collect_probe_stats s p = Inr st \<and> ps_positions st = length s
    \<and> ps_chain_steps st \<le> chain_depth p * length s \<and> ps_byte_comps st \<le> 256 * ps_chain_steps st"
proof -
  have "mf_params (new_match_finder s p) = p" by (simp add: new_match_finder_def)
  with probe_all_ok [OF finder_ok_new [OF assms, of s], of 0 "length s"] show ?thesis
    unfolding collect_probe_stats_def by fastforce
qed

lemma probe_stats_bounded_witness:
  "\<exists>st. collect_probe_stats [1, 2, 1, 2] default_params = Inr st \<and> ps_positions st = length [1, 2, 1, 2 :: u8]
    \<and> ps_chain_steps st \<le> chain_depth default_params * length [1, 2, 1, 2 :: u8] \<and> ps_byte_comps st \<le> 256 * ps_chain_steps st"
  by (rule probe_stats_bounded) (simp add: default_params_def)

section \<open>Recorded decisions\<close>

record find_best_result =
  fb_pos :: nat
  fb_len :: nat
  fb_off :: nat

function results_loop :: "bytes \<Rightarrow> nat \<Rightarrow> nat \<Rightarrow> nat \<Rightarrow> bool \<Rightarrow> match_finder \<Rightarrow> find_best_result list res" where
  "results_loop s pos lit last_off prev_lit m =
     (if pos < length s then
        sbind (find_best pos m) (\<lambda>((len, off), m1).
        sbind
          (if \<not> can_rep prev_lit (pos - lit) len off last_off \<and> \<not> is_new len off last_off
           then results_loop s (pos + 1) lit last_off prev_lit m1
           else
             let rep = can_rep prev_lit (pos - lit) len off last_off in
             sbind (insert_tail (len - 1) (pos + 1) m1) (\<lambda>m2.
               results_loop s (pos + len) (pos + len) (if rep then last_off else off) False m2))
          (\<lambda>rs. Inr (\<lparr>fb_pos = pos, fb_len = len, fb_off = off\<rparr> # rs)))
      else Inr [])"
  by pat_completeness auto

termination results_loop
  by (relation "measure (\<lambda>(s, pos, rest). length s - pos)") (auto simp: can_rep_def is_new_def)

declare results_loop.simps [simp del]

definition collect_find_best_results :: "bytes \<Rightarrow> zx0_params \<Rightarrow> find_best_result list res" where
  "collect_find_best_results s p = (if s = [] then Inr [] else results_loop s 0 0 1 False (new_match_finder s p))"

text \<open>The matcher after the greedy parse up to a position, and the candidates it would probe there.\<close>

function finder_at :: "bytes \<Rightarrow> nat \<Rightarrow> nat \<Rightarrow> nat \<Rightarrow> nat \<Rightarrow> bool \<Rightarrow> match_finder \<Rightarrow> match_finder res" where
  "finder_at s target pos lit last_off prev_lit m =
     (if pos < length s \<and> pos < target then
        sbind (find_best pos m) (\<lambda>((len, off), m1).
          if \<not> can_rep prev_lit (pos - lit) len off last_off \<and> \<not> is_new len off last_off
          then finder_at s target (pos + 1) lit last_off prev_lit m1
          else
            let rep = can_rep prev_lit (pos - lit) len off last_off in
            sbind (insert_tail (len - 1) (pos + 1) m1) (\<lambda>m2.
              finder_at s target (pos + len) (pos + len) (if rep then last_off else off) False m2))
      else Inr m)"
  by pat_completeness auto

termination finder_at
  by (relation "measure (\<lambda>(s, target, pos, rest). length s - pos)") (auto simp: can_rep_def is_new_def)

declare finder_at.simps [simp del]

fun follow_chain :: "nat \<Rightarrow> match_finder \<Rightarrow> u16 \<Rightarrow> nat list res" where
  "follow_chain 0 m c = Inr []"
| "follow_chain (Suc k) m c =
     (if c = no_entry_pos then Inr []
      else sbind (at_index (chain_prev m) (unat c)) (\<lambda>c'. sbind (follow_chain k m c') (\<lambda>cs. Inr (unat c # cs))))"

definition get_chain_at :: "bytes \<Rightarrow> zx0_params \<Rightarrow> nat \<Rightarrow> nat list res" where
  "get_chain_at s p target =
     sbind (finder_at s target 0 0 1 False (new_match_finder s p)) (\<lambda>m.
       if target \<ge> length s then Inr []
       else sbind (hash2 m target) (\<lambda>h. sbind (at_index (hash_head m) h) (\<lambda>c. follow_chain (chain_depth p + 5) m c)))"

text \<open>What the compressor writes for a list of decisions.\<close>

fun replay :: "bytes \<Rightarrow> nat \<Rightarrow> nat \<Rightarrow> bool \<Rightarrow> find_best_result list \<Rightarrow> bit_writer \<Rightarrow> nat \<times> bit_writer" where
  "replay s lit lo prev [] w = (lit, w)"
| "replay s lit lo prev (r # rs) w =
     (let rep = can_rep prev (fb_pos r - lit) (fb_len r) (fb_off r) lo in
      if \<not> rep \<and> \<not> is_new (fb_len r) (fb_off r) lo then replay s lit lo prev rs w
      else replay s (fb_pos r + fb_len r) (if rep then lo else fb_off r) False rs
             (emit_match rep (fb_len r) (fb_off r) (flush_literals s lit (fb_pos r) w)))"

lemma results_replay:
  "sbind (results_loop s pos lit lo prev m) (\<lambda>rs. Inr (replay s lit lo prev rs w)) = compress_loop s pos lit lo prev m w"
proof (induction "length s - pos" arbitrary: pos lit lo prev m w rule: less_induct)
  case less
  show ?case
  proof (cases "pos < length s")
    case True
    have ih: "sbind (results_loop s q l lo' prev' m') (\<lambda>rs. Inr (replay s l lo' prev' rs w')) = compress_loop s q l lo' prev' m' w'"
      if "pos < q" for q l lo' prev' m' w'
      using less that True by simp
    show ?thesis
    proof (cases "find_best pos m")
      case (Inr r)
      then obtain len off m1 where f: "find_best pos m = Inr ((len, off), m1)" by (metis surj_pair)
      show ?thesis
      proof (cases "\<not> can_rep prev (pos - lit) len off lo \<and> \<not> is_new len off lo")
        case lit: True
        then show ?thesis
          using True f ih [of "pos + 1", symmetric]
          by (subst results_loop.simps, subst compress_loop.simps) (simp add: sbind_assoc)
      next
        case tok: False
        then have "pos < pos + len" by (auto simp: can_rep_def is_new_def)
        note ih' = ih [OF this, symmetric]
        show ?thesis
          using True f tok ih' by (subst results_loop.simps, subst compress_loop.simps)
            (cases "insert_tail (len - 1) (pos + 1) m1"; auto simp: Let_def sbind_assoc)
      qed
    qed (use True in \<open>simp add: results_loop.simps compress_loop.simps\<close>)
  qed (simp add: results_loop.simps compress_loop.simps)
qed

text \<open>
  The collected decisions are the compressor's own: writing them out gives its output.
\<close>

theorem decisions_replay:
  assumes "s \<noteq> []"
  shows "sbind (collect_find_best_results s p) (\<lambda>rs. case replay s 0 1 False rs new_bit_writer of
      (lit, w) \<Rightarrow> Inr (bw_out (write_end (flush_literals s lit (length s) w)))) = compress s p"
  using assms results_replay [of s 0 0 1 False "new_match_finder s p" new_bit_writer, symmetric]
  by (simp add: compress_def collect_find_best_results_def sbind_assoc)

end
