(* ===== verification/Fe_Lexer.thy ===== *)
theory Fe_Lexer
  imports Prelude "HOL-Library.Char_ord"
begin

text \<open>
  The lexer of the host assembler, \<^verbatim>\<open>tools/sam-aarch64/frontend/lexer.go\<close>, with the source
  positions of \<^verbatim>\<open>errors.go\<close>.  The lexer's \<^verbatim>\<open>src\<close> and \<^verbatim>\<open>pos\<close> are represented by the unread
  characters \<^verbatim>\<open>src[pos:]\<close>; a source byte is a \<^verbatim>\<open>char\<close>.  An error keeps the fixed part of its
  message, not its position.
\<close>

section \<open>Tokens\<close>

datatype tok_kind =
    TokEOF | TokEOL | TokIdent | TokInt | TokString | TokComma | TokHash | TokColon | TokBang
  | TokDot | TokLBracket | TokRBracket | TokLParen | TokRParen | TokPlus | TokMinus | TokStar
  | TokSlash | TokAmp | TokPipe | TokCaret | TokTilde | TokShl | TokShr | TokLineComment
  | TokBlockComment | TokLocalRef | TokEquals | TokPercent

record position =
  pos_file :: string
  pos_line :: i64
  pos_col :: i64

record tok =
  t_kind :: tok_kind
  t_pos :: position
  t_text :: string
  t_int :: i64
  t_bytes :: bytes
  t_digit :: u8
  t_dir :: char

definition tok0 :: "tok_kind \<Rightarrow> position \<Rightarrow> tok" where
  "tok0 k p = \<lparr>t_kind = k, t_pos = p, t_text = [], t_int = 0, t_bytes = [], t_digit = 0, t_dir = CHR 0x00\<rparr>"

definition char_bytes :: "string \<Rightarrow> bytes" where
  "char_bytes s = map of_char s"

abbreviation newline :: char where "newline \<equiv> CHR 0x0A"
abbreviation carriage_return :: char where "carriage_return \<equiv> CHR 0x0D"
abbreviation tab :: char where "tab \<equiv> CHR 0x09"
abbreviation dquote :: char where "dquote \<equiv> CHR 0x22"
abbreviation squote :: char where "squote \<equiv> CHR 0x27"
abbreviation backslash :: char where "backslash \<equiv> CHR 0x5C"

section \<open>Lexer state\<close>

record lexer =
  lx_rest :: string
  lx_path :: string
  lx_line :: i64
  lx_col :: i64
  lx_at_line_start :: bool

definition pos2 :: "lexer \<Rightarrow> position" where
  "pos2 l = \<lparr>pos_file = lx_path l, pos_line = lx_line l, pos_col = lx_col l\<rparr>"

definition peek :: "lexer \<Rightarrow> char" where
  "peek l = (case lx_rest l of [] \<Rightarrow> CHR 0x00 | c # _ \<Rightarrow> c)"

text \<open>\<^verbatim>\<open>advance\<close> indexes the source, so it panics at its end.\<close>

definition past :: "char \<Rightarrow> string \<Rightarrow> lexer \<Rightarrow> lexer" where
  "past c cs l =
     (if c = newline then l\<lparr>lx_rest := cs, lx_line := lx_line l + 1, lx_col := 1\<rparr>
      else l\<lparr>lx_rest := cs, lx_col := lx_col l + 1\<rparr>)"

definition lex_advance :: "lexer \<Rightarrow> (char \<times> lexer) res" where
  "lex_advance l = (case lx_rest l of [] \<Rightarrow> Inl Panic | c # cs \<Rightarrow> Inr (c, past c cs l))"

lemma lx_rest_past [simp]: "lx_rest (past c cs l) = cs"
  by (simp add: past_def)

lemma advance_rest: "lex_advance l = Inr (c, l') \<Longrightarrow> lx_rest l = c # lx_rest l'"
  by (auto simp: lex_advance_def split: list.splits)

lemma advance_shorter: "lex_advance l = Inr (c, l') \<Longrightarrow> length (lx_rest l') < length (lx_rest l)"
  by (simp add: advance_rest)

text \<open>The loops \<^verbatim>\<open>for l.pos < len(l.src) && p(l.src[l.pos]) { l.advance() }\<close>, with the characters passed.\<close>

function read_while :: "(char \<Rightarrow> bool) \<Rightarrow> lexer \<Rightarrow> string \<times> lexer" where
  "read_while p l =
     (case lx_rest l of
        [] \<Rightarrow> ([], l)
      | c # cs \<Rightarrow> if p c then (case read_while p (past c cs l) of (s, l') \<Rightarrow> (c # s, l')) else ([], l))"
  by pat_completeness auto
termination
  by (relation "measure (\<lambda>(p, l). length (lx_rest l))") auto

declare read_while.simps [simp del]

lemma read_while_rest: "lx_rest l = fst (read_while p l) @ lx_rest (snd (read_while p l))"
proof (induction p l rule: read_while.induct)
  case (1 p l)
  then show ?case
    by (subst (1 2) read_while.simps) (auto split: list.splits prod.splits)
qed

lemma read_while_shorter: "read_while p l = (s, l') \<Longrightarrow> length (lx_rest l') \<le> length (lx_rest l)"
  using read_while_rest [of l p] by simp

section \<open>Character classes and integers\<close>

definition is_ident_start :: "char \<Rightarrow> bool" where
  "is_ident_start c \<longleftrightarrow> (CHR ''a'' \<le> c \<and> c \<le> CHR ''z'') \<or> (CHR ''A'' \<le> c \<and> c \<le> CHR ''Z'')
     \<or> c = CHR ''_'' \<or> c = CHR ''.''"

definition is_digit :: "char \<Rightarrow> bool" where
  "is_digit c \<longleftrightarrow> CHR ''0'' \<le> c \<and> c \<le> CHR ''9''"

definition is_ident_cont :: "char \<Rightarrow> bool" where
  "is_ident_cont c \<longleftrightarrow> is_ident_start c \<or> (CHR ''0'' \<le> c \<and> c \<le> CHR ''9'')"

text \<open>\<open>None\<close> stands for \<open>-1\<close>.\<close>

definition hex_nibble :: "char \<Rightarrow> nat option" where
  "hex_nibble c =
     (if CHR ''0'' \<le> c \<and> c \<le> CHR ''9'' then Some (of_char c - 48)
      else if CHR ''a'' \<le> c \<and> c \<le> CHR ''f'' then Some (of_char c - 97 + 10)
      else if CHR ''A'' \<le> c \<and> c \<le> CHR ''F'' then Some (of_char c - 65 + 10)
      else None)"

fun int_in_base :: "nat \<Rightarrow> i64 \<Rightarrow> string \<Rightarrow> i64 res" where
  "int_in_base base v [] = Inr v"
| "int_in_base base v (c # cs) =
     (case hex_nibble c of
        None \<Rightarrow> Inl (Error ''invalid digit'')
      | Some d \<Rightarrow>
          if d \<ge> base then Inl (Error ''invalid digit'')
          else int_in_base base (v * of_nat base + of_nat d) cs)"

definition parse_int_in_base :: "string \<Rightarrow> nat \<Rightarrow> i64 res" where
  "parse_int_in_base s base = int_in_base base 0 s"

section \<open>Identifiers and numbers\<close>

definition read_ident :: "lexer \<Rightarrow> (tok \<times> lexer) res" where
  "read_ident l =
     (case read_while is_ident_cont l of
        (s, l') \<Rightarrow> Inr ((tok0 TokIdent (pos2 l))\<lparr>t_text := s\<rparr>, l'))"

definition digit_ok :: "nat \<Rightarrow> char \<Rightarrow> bool" where
  "digit_ok base c \<longleftrightarrow>
     (if base = 10 then CHR ''0'' \<le> c \<and> c \<le> CHR ''9''
      else if base = 16 then (CHR ''0'' \<le> c \<and> c \<le> CHR ''9'') \<or> (CHR ''a'' \<le> c \<and> c \<le> CHR ''f'')
        \<or> (CHR ''A'' \<le> c \<and> c \<le> CHR ''F'')
      else c = CHR ''0'' \<or> c = CHR ''1'')"

text \<open>A prefix \<^verbatim>\<open>0x\<close> or \<^verbatim>\<open>0b\<close> selects the base and is passed.\<close>

definition number_base :: "lexer \<Rightarrow> nat \<times> lexer" where
  "number_base l =
     (case lx_rest l of
        c # d # cs \<Rightarrow>
          if c = CHR ''0'' \<and> (d = CHR ''x'' \<or> d = CHR ''X'') then (16, past d cs (past c (d # cs) l))
          else if c = CHR ''0'' \<and> (d = CHR ''b'' \<or> d = CHR ''B'') then (2, past d cs (past c (d # cs) l))
          else (10, l)
      | _ \<Rightarrow> (10, l))"

definition read_number :: "position \<Rightarrow> lexer \<Rightarrow> (tok \<times> lexer) res" where
  "read_number start l =
     (case number_base l of (base, l1) \<Rightarrow>
      (case read_while (digit_ok base) l1 of (s, l2) \<Rightarrow>
       (case parse_int_in_base s base of
          Inl _ \<Rightarrow> Inl (Error ''bad integer literal'')
        | Inr v \<Rightarrow> Inr ((tok0 TokInt start)\<lparr>t_int := v, t_text := s\<rparr>, l2))))"

definition try_local :: "nat \<Rightarrow> string \<Rightarrow> bool" where
  "try_local n s \<longleftrightarrow> n < length s \<and> list_all is_digit (take n s) \<and> s ! n \<in> {CHR ''f'', CHR ''b''}
     \<and> \<not> (n + 1 < length s \<and> is_ident_cont (s ! (n + 1)))"

definition digit_byte :: "char \<Rightarrow> u8" where
  "digit_byte c = of_char c - 48"

definition read_number_or_local :: "position \<Rightarrow> lexer \<Rightarrow> (tok \<times> lexer) res" where
  "read_number_or_local start l =
     (if try_local 2 (lx_rest l)
      then sbind (lex_advance l) (\<lambda>(hi, l). sbind (lex_advance l) (\<lambda>(lo, l). sbind (lex_advance l) (\<lambda>(dir, l).
             Inr ((tok0 TokLocalRef start)\<lparr>t_digit := digit_byte hi * 10 + digit_byte lo, t_dir := dir\<rparr>, l))))
      else if try_local 1 (lx_rest l)
      then sbind (lex_advance l) (\<lambda>(d, l). sbind (lex_advance l) (\<lambda>(dir, l).
             Inr ((tok0 TokLocalRef start)\<lparr>t_digit := digit_byte d, t_dir := dir\<rparr>, l)))
      else read_number start l)"

section \<open>Character and string literals\<close>

definition char_escape :: "char \<Rightarrow> char option" where
  "char_escape esc =
     (if esc = CHR ''n'' then Some newline
      else if esc = CHR ''r'' then Some carriage_return
      else if esc = CHR ''t'' then Some tab
      else if esc = backslash then Some backslash
      else if esc = squote then Some squote
      else if esc = dquote then Some dquote
      else if esc = CHR ''0'' then Some (CHR 0x00)
      else None)"

definition read_char_lit :: "position \<Rightarrow> lexer \<Rightarrow> (tok \<times> lexer) res" where
  "read_char_lit start l =
     sbind (lex_advance l) (\<lambda>(_, l).
     if lx_rest l = [] then Inl (Error ''unterminated char literal'')
     else sbind (lex_advance l) (\<lambda>(c, l).
     sbind (if c = backslash
            then if lx_rest l = [] then Inl (Error ''unterminated char escape'')
                 else sbind (lex_advance l) (\<lambda>(esc, l).
                        case char_escape esc of
                          Some c \<Rightarrow> Inr (c, l)
                        | None \<Rightarrow> Inl (Error ''unknown char escape''))
            else Inr (c, l)) (\<lambda>(c, l).
     if lx_rest l = [] then Inl (Error ''unterminated char literal'')
     else sbind (lex_advance l) (\<lambda>(q, l).
     if q \<noteq> squote then Inl (Error ''unterminated char literal'')
     else Inr ((tok0 TokInt start)\<lparr>t_int := of_char c\<rparr>, l)))))"

text \<open>The escapes of a string are those of a character and \<^verbatim>\<open>\xNN\<close>.\<close>

definition string_escape :: "char \<Rightarrow> lexer \<Rightarrow> (u8 \<times> lexer) res" where
  "string_escape esc l =
     (case char_escape esc of
        Some c \<Rightarrow> Inr (of_char c, l)
      | None \<Rightarrow>
          if esc = CHR ''x'' then
            if length (lx_rest l) < 2 then Inl (Error ''truncated xNN escape'')
            else sbind (lex_advance l) (\<lambda>(hi, l). sbind (lex_advance l) (\<lambda>(lo, l).
                   case (hex_nibble hi, hex_nibble lo) of
                     (Some h, Some n) \<Rightarrow> Inr (of_nat (h * 16 + n), l)
                   | _ \<Rightarrow> Inl (Error ''bad xNN escape'')))
          else Inl (Error ''unknown string escape''))"

lemma string_escape_rest: "string_escape esc l = Inr (b, l') \<Longrightarrow> length (lx_rest l') \<le> length (lx_rest l)"
  by (auto simp: string_escape_def split: option.splits if_splits elim!: sbindE dest!: advance_shorter)

function read_string_body :: "bytes \<Rightarrow> lexer \<Rightarrow> (bytes \<times> lexer) res" where
  "read_string_body body l =
     (if lx_rest l = [] then Inl (Error ''unterminated string literal'')
      else sbind (lex_advance l) (\<lambda>(c, l).
        if c = dquote then Inr (body, l)
        else if c = backslash then
          if lx_rest l = [] then Inl (Error ''unterminated string escape'')
          else sbind (lex_advance l) (\<lambda>(esc, l). sbind (string_escape esc l) (\<lambda>(b, l).
                 read_string_body (body @ [b]) l))
        else read_string_body (body @ [of_char c]) l))"
  by pat_completeness auto
termination
  by (relation "measure (\<lambda>(b, l). length (lx_rest l))") (auto dest!: advance_shorter string_escape_rest)

declare read_string_body.simps [simp del]

definition read_string :: "position \<Rightarrow> lexer \<Rightarrow> (tok \<times> lexer) res" where
  "read_string start l =
     sbind (lex_advance l) (\<lambda>(_, l). sbind (read_string_body [] l) (\<lambda>(body, l).
       Inr ((tok0 TokString start)\<lparr>t_bytes := body\<rparr>, l)))"

section \<open>Comments and line directives\<close>

definition read_line_comment :: "position \<Rightarrow> lexer \<Rightarrow> (tok \<times> lexer) res" where
  "read_line_comment start l =
     sbind (lex_advance l) (\<lambda>(_, l). sbind (lex_advance l) (\<lambda>(_, l).
       case read_while (\<lambda>c. c \<noteq> newline) l of
         (s, l) \<Rightarrow> Inr ((tok0 TokLineComment start)\<lparr>t_bytes := char_bytes s\<rparr>, l)))"

definition read_line_comment_char :: "position \<Rightarrow> lexer \<Rightarrow> (tok \<times> lexer) res" where
  "read_line_comment_char start l =
     sbind (lex_advance l) (\<lambda>(_, l).
       case read_while (\<lambda>c. c \<noteq> newline) l of
         (s, l) \<Rightarrow> Inr ((tok0 TokLineComment start)\<lparr>t_bytes := char_bytes s\<rparr>, l))"

function read_block_body :: "string \<Rightarrow> lexer \<Rightarrow> (string \<times> lexer) res" where
  "read_block_body body l =
     (case lx_rest l of
        c # d # cs \<Rightarrow>
          if c = CHR ''*'' \<and> d = CHR ''/'' then Inr (body, past d cs (past c (d # cs) l))
          else read_block_body (body @ [c]) (past c (d # cs) l)
      | _ \<Rightarrow> Inl (Error ''unterminated block comment''))"
  by pat_completeness auto
termination
  by (relation "measure (\<lambda>(b, l). length (lx_rest l))") auto

declare read_block_body.simps [simp del]

definition read_block_comment :: "position \<Rightarrow> lexer \<Rightarrow> (tok \<times> lexer) res" where
  "read_block_comment start l =
     sbind (lex_advance l) (\<lambda>(_, l). sbind (lex_advance l) (\<lambda>(_, l). sbind (read_block_body [] l) (\<lambda>(s, l).
       Inr ((tok0 TokBlockComment start)\<lparr>t_bytes := char_bytes s\<rparr>, l))))"

text \<open>
  A line directive \<^verbatim>\<open># <line> "<file>"\<close>.  The scan works on the characters after the \<^verbatim>\<open>#\<close>
  without advancing; only a complete directive changes the lexer.
\<close>

definition is_blank :: "char \<Rightarrow> bool" where
  "is_blank c \<longleftrightarrow> c = CHR '' '' \<or> c = tab"

definition line_number :: "string \<Rightarrow> i64" where
  "line_number s = foldl (\<lambda>v c. v * 10 + (of_char c - 48)) 0 s"

definition try_consume_line_directive :: "lexer \<Rightarrow> lexer option" where
  "try_consume_line_directive l =
     (case tl (lx_rest l) of [] \<Rightarrow> None | c # _ \<Rightarrow>
      if c \<noteq> CHR '' '' then None else
      let p1 = dropWhile is_blank (tl (lx_rest l)) in
      case p1 of [] \<Rightarrow> None | d # _ \<Rightarrow>
      if \<not> is_digit d then None else
      let line = line_number (takeWhile is_digit p1); p2 = dropWhile is_digit p1 in
      case p2 of [] \<Rightarrow> None | e # _ \<Rightarrow>
      if e \<noteq> CHR '' '' then None else
      case dropWhile is_blank p2 of [] \<Rightarrow> None | q # p3 \<Rightarrow>
      if q \<noteq> dquote then None else
      let path = takeWhile (\<lambda>c. c \<noteq> dquote \<and> c \<noteq> newline) p3 in
      case dropWhile (\<lambda>c. c \<noteq> dquote \<and> c \<noteq> newline) p3 of [] \<Rightarrow> None | q' # p4 \<Rightarrow>
      if q' \<noteq> dquote then None else
      let p5 = dropWhile (\<lambda>c. is_blank c \<or> c = carriage_return) p4;
          committed = (\<lambda>r. Some (l\<lparr>lx_rest := r, lx_line := line, lx_col := 1, lx_path := path,
                                   lx_at_line_start := True\<rparr>)) in
      case p5 of [] \<Rightarrow> committed [] | n # p6 \<Rightarrow> if n \<noteq> newline then None else committed p6)"

section \<open>The next token\<close>

definition punctuation :: "char \<Rightarrow> tok_kind option" where
  "punctuation = map_of [
     (newline, TokEOL), (CHR '','', TokComma), (CHR '':'', TokColon), (CHR ''!'', TokBang),
     (CHR ''['', TokLBracket), (CHR '']'', TokRBracket), (CHR ''('', TokLParen), (CHR '')'', TokRParen),
     (CHR ''+'', TokPlus), (CHR ''-'', TokMinus), (CHR ''*'', TokStar), (CHR ''&'', TokAmp),
     (CHR ''|'', TokPipe), (CHR ''^'', TokCaret), (CHR ''~'', TokTilde), (CHR ''='', TokEquals),
     (CHR ''%'', TokPercent)]"

text \<open>One character is passed and becomes a token without a value.\<close>

definition single :: "tok_kind \<Rightarrow> position \<Rightarrow> lexer \<Rightarrow> (tok \<times> lexer) res" where
  "single k start l = sbind (lex_advance l) (\<lambda>(_, l). Inr (tok0 k start, l))"

definition double :: "tok_kind \<Rightarrow> position \<Rightarrow> lexer \<Rightarrow> (tok \<times> lexer) res" where
  "double k start l = sbind (lex_advance l) (\<lambda>(_, l). sbind (lex_advance l) (\<lambda>(_, l). Inr (tok0 k start, l)))"

text \<open>\<^verbatim>\<open>l.pos+1 < len(l.src) && p(l.src[l.pos+1])\<close>\<close>

definition second :: "(char \<Rightarrow> bool) \<Rightarrow> lexer \<Rightarrow> bool" where
  "second p l \<longleftrightarrow> (case lx_rest l of _ # d # _ \<Rightarrow> p d | _ \<Rightarrow> False)"

text \<open>
  The switch of \<^verbatim>\<open>next\<close> on the first character, at the \<^verbatim>\<open>#\<close> of a line start when it is not a
  line directive.
\<close>

definition scan :: "char \<Rightarrow> lexer \<Rightarrow> (tok \<times> lexer) res" where
  "scan c l =
     (let start = pos2 l in
      case punctuation c of
        Some k \<Rightarrow> single k start l
      | None \<Rightarrow>
          if c = CHR ''#'' then if lx_at_line_start l then read_line_comment_char start l else single TokHash start l
          else if c = CHR ''.'' then if second is_ident_start l then read_ident l else single TokDot start l
          else if c = CHR ''/''
          then if second (\<lambda>d. d = CHR ''/'') l then read_line_comment start l
               else if second (\<lambda>d. d = CHR ''*'') l then read_block_comment start l
               else single TokSlash start l
          else if c = CHR ''<''
          then if second (\<lambda>d. d = CHR ''<'') l then double TokShl start l
               else Inl (Error ''unexpected <'')
          else if c = CHR ''>''
          then if second (\<lambda>d. d = CHR ''>'') l then double TokShr start l
               else Inl (Error ''unexpected >'')
          else if c = dquote then read_string start l
          else if c = squote then read_char_lit start l
          else if is_digit c then read_number_or_local start l
          else if is_ident_start c then read_ident l
          else Inl (Error ''unexpected character''))"

definition skip_blanks :: "lexer \<Rightarrow> lexer" where
  "skip_blanks l = snd (read_while (\<lambda>c. c = CHR '' '' \<or> c = tab \<or> c = carriage_return) l)"

lemma read_while_nonempty: "lx_rest l = c # cs \<Longrightarrow> p c \<Longrightarrow> read_while p l = (s, l') \<Longrightarrow> length (lx_rest l') < length (lx_rest l)"
  by (subst (asm) read_while.simps) (auto split: prod.splits dest: read_while_shorter)

lemma skip_blanks_shorter: "length (lx_rest (skip_blanks l)) \<le> length (lx_rest l)"
  unfolding skip_blanks_def by (rule read_while_shorter) (rule surjective_pairing)

lemma length_dropWhile_tl: "length (dropWhile p (tl xs)) \<le> length xs - 1"
  using length_dropWhile_le [of p "tl xs"] by simp

lemma line_directive_shorter:
  assumes "try_consume_line_directive l = Some l'"
  shows "length (lx_rest l') < length (lx_rest l)"
proof -
  have *: "length ys < length xs" if "dropWhile p xs = y # ys" for p y and xs ys :: string
    using length_dropWhile_le [of p xs] that by simp
  have **: "length (dropWhile p xs) \<le> length xs" for p and xs :: string by (rule length_dropWhile_le)
  have "lx_rest l \<noteq> []" using assms by (auto simp: try_consume_line_directive_def)
  then obtain x xs where l: "lx_rest l = x # xs" by (cases "lx_rest l") auto
  show ?thesis
    using assms unfolding try_consume_line_directive_def l
    by (auto simp: Let_def split: list.splits if_splits dest!: * 
        intro: order.strict_trans1 [OF **] le_less_trans)
qed

function next_tok :: "lexer \<Rightarrow> (tok \<times> lexer) res" where
  "next_tok l0 =
     (let l = skip_blanks l0 in
      case lx_rest l of
        [] \<Rightarrow> Inr (tok0 TokEOF (pos2 l), l)
      | c # _ \<Rightarrow>
          if c = CHR ''#'' \<and> lx_at_line_start l then
            (case try_consume_line_directive l of
               Some l' \<Rightarrow> next_tok l'
             | None \<Rightarrow> scan c l)
          else scan c l)"
  by pat_completeness auto
termination
  by (relation "measure (\<lambda>l. length (lx_rest l))")
    (auto dest!: line_directive_shorter intro: less_le_trans [OF _ skip_blanks_shorter])

declare next_tok.simps [simp del]

text \<open>Every token but the last is made of at least one character.\<close>

lemma single_shorter: "single k p l = Inr (t, l') \<Longrightarrow> length (lx_rest l') < length (lx_rest l)"
  by (auto simp: single_def elim!: sbindE dest!: advance_shorter)

lemma double_shorter: "double k p l = Inr (t, l') \<Longrightarrow> length (lx_rest l') < length (lx_rest l)"
  by (auto simp: double_def elim!: sbindE dest!: advance_shorter)

lemma read_ident_shorter:
  assumes "read_ident l = Inr (t, l')" and "lx_rest l = c # cs" and "is_ident_cont c"
  shows "length (lx_rest l') < length (lx_rest l)"
proof -
  obtain s where "read_while is_ident_cont l = (s, l')"
    using assms(1) by (auto simp: read_ident_def split: prod.splits)
  with assms(2,3) show ?thesis by (rule read_while_nonempty)
qed

lemma line_comment_shorter: "read_line_comment p l = Inr (t, l') \<Longrightarrow> length (lx_rest l') < length (lx_rest l)"
  by (auto simp: read_line_comment_def split: prod.splits elim!: sbindE dest!: advance_shorter read_while_shorter)

lemma line_comment_char_shorter: "read_line_comment_char p l = Inr (t, l') \<Longrightarrow> length (lx_rest l') < length (lx_rest l)"
  by (auto simp: read_line_comment_char_def split: prod.splits elim!: sbindE dest!: advance_shorter read_while_shorter)

lemma read_block_body_shorter: "read_block_body b l = Inr (s, l') \<Longrightarrow> length (lx_rest l') < length (lx_rest l)"
proof (induction b l rule: read_block_body.induct)
  case (1 b l)
  from 1(2) show ?case
    by (subst (asm) read_block_body.simps) (auto split: list.splits if_splits dest!: 1(1))
qed

lemma block_comment_shorter: "read_block_comment p l = Inr (t, l') \<Longrightarrow> length (lx_rest l') < length (lx_rest l)"
  by (auto simp: read_block_comment_def elim!: sbindE dest!: advance_shorter read_block_body_shorter)

lemma read_string_body_shorter: "read_string_body b l = Inr (s, l') \<Longrightarrow> length (lx_rest l') < length (lx_rest l)"
proof (induction b l rule: read_string_body.induct)
  case (1 b l)
  have ne: "lx_rest l \<noteq> []" using 1(3) by (subst (asm) read_string_body.simps) auto
  obtain c l1 where a: "lex_advance l = Inr (c, l1)" and l1: "length (lx_rest l1) < length (lx_rest l)"
    using ne by (cases "lx_rest l") (auto simp: lex_advance_def)
  consider "c = dquote" | "c \<noteq> dquote" "c = backslash" | "c \<noteq> dquote" "c \<noteq> backslash" by blast
  then show ?case
  proof cases
    case 1
    then show ?thesis using "1.prems" ne a l1 by (subst (asm) read_string_body.simps) simp
  next
    case 2
    then obtain e l2 x l3 where "lx_rest l1 \<noteq> []" "lex_advance l1 = Inr (e, l2)" "string_escape e l2 = Inr (x, l3)"
      and r: "read_string_body (b @ [x]) l3 = Inr (s, l')"
      using "1.prems" ne a by (subst (asm) read_string_body.simps) (auto split: if_splits elim!: sbindE)
    then show ?thesis
      using "1.IH"(1) [OF ne a refl 2 \<open>lx_rest l1 \<noteq> []\<close> _ refl _ refl r] l1
      by (auto dest!: advance_shorter string_escape_rest)
  next
    case 3
    then show ?thesis using "1.prems" ne a l1 "1.IH"(2) [OF ne a refl 3]
      by (subst (asm) read_string_body.simps [of b l]) simp
  qed
qed

lemma read_string_shorter: "read_string p l = Inr (t, l') \<Longrightarrow> length (lx_rest l') < length (lx_rest l)"
  by (auto simp: read_string_def elim!: sbindE dest!: advance_shorter read_string_body_shorter)

lemma char_lit_shorter: "read_char_lit p l = Inr (t, l') \<Longrightarrow> length (lx_rest l') < length (lx_rest l)"
  by (auto simp: read_char_lit_def split: if_splits option.splits elim!: sbindE dest!: advance_shorter)

lemma digit_ok_10: "is_digit c \<Longrightarrow> digit_ok 10 c"
  by (simp add: is_digit_def digit_ok_def)

lemma number_base_shorter:
  assumes "number_base l = (base, l1)"
  shows "base = 10 \<and> l1 = l \<or> length (lx_rest l1) < length (lx_rest l)"
  using assms by (auto simp: number_base_def split: list.splits if_splits)

lemma read_number_shorter:
  assumes "read_number p l = Inr (t, l')" and "lx_rest l = c # cs" and "is_digit c"
  shows "length (lx_rest l') < length (lx_rest l)"
proof -
  obtain base l1 s where b: "number_base l = (base, l1)" and r: "read_while (digit_ok base) l1 = (s, l')"
    using assms(1) by (auto simp: read_number_def split: prod.splits sum.splits)
  from number_base_shorter [OF b] show ?thesis
  proof
    assume "base = 10 \<and> l1 = l"
    then show ?thesis using read_while_nonempty [OF assms(2)] digit_ok_10 [OF assms(3)] r by blast
  next
    assume "length (lx_rest l1) < length (lx_rest l)"
    then show ?thesis using read_while_shorter [OF r] by simp
  qed
qed

lemma number_or_local_shorter:
  assumes "read_number_or_local p l = Inr (t, l')" and "lx_rest l = c # cs" and "is_digit c"
  shows "length (lx_rest l') < length (lx_rest l)"
  using assms
  by (auto simp: read_number_or_local_def split: if_splits elim!: sbindE dest!: advance_shorter read_number_shorter)

lemma ident_start_cont: "is_ident_start c \<Longrightarrow> is_ident_cont c"
  by (simp add: is_ident_cont_def)

lemma scan_shorter:
  assumes "scan c l = Inr (t, l')" and "lx_rest l = c # cs"
  shows "length (lx_rest l') < length (lx_rest l)"
proof -
  have dot: "is_ident_cont (CHR ''.'')" by (simp add: is_ident_cont_def is_ident_start_def)
  show ?thesis
    using assms unfolding scan_def Let_def
    by (auto split: option.splits if_splits dest: single_shorter double_shorter line_comment_shorter
        line_comment_char_shorter block_comment_shorter read_string_shorter char_lit_shorter
        number_or_local_shorter read_ident_shorter [OF _ _ dot] read_ident_shorter ident_start_cont)
qed

lemma single_kind: "single k p l = Inr (t, l') \<Longrightarrow> t_kind t = k"
  by (auto simp: single_def tok0_def elim!: sbindE)

lemma next_tok_shorter:
  "next_tok l = Inr (t, l') \<Longrightarrow> t_kind t \<noteq> TokEOF \<Longrightarrow> length (lx_rest l') < length (lx_rest l)"
proof (induction l rule: next_tok.induct)
  case (1 l)
  let ?l = "skip_blanks l"
  show ?case
  proof (cases "lx_rest ?l")
    case Nil
    then show ?thesis using 1(2,3) by (subst (asm) next_tok.simps) (auto simp: tok0_def Let_def)
  next
    case (Cons c cs)
    show ?thesis
    proof (cases "c = CHR ''#'' \<and> lx_at_line_start ?l \<and> try_consume_line_directive ?l \<noteq> None")
      case True
      then obtain l2 where d: "try_consume_line_directive ?l = Some l2" by auto
      then have "next_tok l2 = Inr (t, l')"
        using 1(2) Cons True by (subst (asm) next_tok.simps) (simp add: Let_def)
      then have "length (lx_rest l') < length (lx_rest l2)"
        using 1(1) [OF refl Cons _ d] True 1(3) by simp
      then show ?thesis using line_directive_shorter [OF d] skip_blanks_shorter [of l] by simp
    next
      case False
      then have "scan c ?l = Inr (t, l')"
        using 1(2) Cons by (subst (asm) next_tok.simps) (auto simp: Let_def split: option.splits if_splits)
      then show ?thesis using scan_shorter [OF _ Cons] skip_blanks_shorter [of l] by fastforce
    qed
  qed
qed

function lex_loop :: "lexer \<Rightarrow> tok list res" where
  "lex_loop l =
     sbind (next_tok l) (\<lambda>(t, l').
       if t_kind t = TokEOF then Inr [t]
       else sbind (lex_loop (l'\<lparr>lx_at_line_start := (t_kind t = TokEOL)\<rparr>)) (\<lambda>ts. Inr (t # ts)))"
  by pat_completeness auto
termination
  by (relation "measure (\<lambda>l. length (lx_rest l))") (auto dest: next_tok_shorter)

declare lex_loop.simps [simp del]

definition new_lexer :: "string \<Rightarrow> string \<Rightarrow> lexer" where
  "new_lexer src path = \<lparr>lx_rest = src, lx_path = path, lx_line = 1, lx_col = 1, lx_at_line_start = True\<rparr>"

definition lex :: "string \<Rightarrow> string \<Rightarrow> tok list res" where
  "lex src path = lex_loop (new_lexer src path)"

section \<open>The shape of a token stream\<close>

definition eof_terminated :: "tok list \<Rightarrow> bool" where
  "eof_terminated ts \<longleftrightarrow> ts \<noteq> [] \<and> t_kind (last ts) = TokEOF \<and> (\<forall>t\<in>set (butlast ts). t_kind t \<noteq> TokEOF)"

lemma eof_terminated_Cons:
  "eof_terminated (t # ts) \<longleftrightarrow> (if t_kind t = TokEOF then ts = [] else eof_terminated ts)"
  by (auto simp: eof_terminated_def)

lemma lex_loop_eof: "lex_loop l = Inr ts \<Longrightarrow> eof_terminated ts"
proof (induction l arbitrary: ts rule: lex_loop.induct)
  case (1 l)
  then obtain t l' where n: "next_tok l = Inr (t, l')"
    by (subst (asm) (2) lex_loop.simps) (auto elim!: sbindE)
  show ?case
  proof (cases "t_kind t = TokEOF")
    case True
    then show ?thesis using 1(2) n by (subst (asm) lex_loop.simps) (auto simp: eof_terminated_Cons)
  next
    case False
    then obtain us where "lex_loop (l'\<lparr>lx_at_line_start := (t_kind t = TokEOL)\<rparr>) = Inr us" and "ts = t # us"
      using 1(2) n by (subst (asm) lex_loop.simps) (auto elim!: sbindE)
    then show ?thesis using 1(1) [OF n refl False] False by (simp add: eof_terminated_Cons)
  qed
qed

text \<open>No reader advances past the end: the lexer returns tokens or an error, it does not panic.\<close>

lemma advance_ok: "lx_rest l = c # cs \<Longrightarrow> lex_advance l = Inr (c, past c cs l)"
  by (simp add: lex_advance_def)

lemma advance_panic: "lex_advance l = Inl e \<Longrightarrow> lx_rest l = []"
  by (auto simp: lex_advance_def split: list.splits)

lemma int_in_base_no_panic: "int_in_base base v s \<noteq> Inl Panic"
  by (induction base v s rule: int_in_base.induct) (auto split: option.splits)

lemma read_number_no_panic: "read_number p l \<noteq> Inl Panic"
  by (auto simp: read_number_def split: prod.splits sum.splits)

lemma try_local_two: "try_local 2 s \<Longrightarrow> \<exists>c d e cs. s = c # d # e # cs"
  by (cases s; cases "tl s"; cases "tl (tl s)") (auto simp: try_local_def)

lemma try_local_one: "try_local 1 s \<Longrightarrow> \<exists>c d cs. s = c # d # cs"
  by (cases s; cases "tl s") (auto simp: try_local_def)

lemma number_or_local_no_panic: "read_number_or_local p l \<noteq> Inl Panic"
  using try_local_two [of "lx_rest l"] try_local_one [of "lx_rest l"] read_number_no_panic [of p l]
  by (auto simp: read_number_or_local_def advance_ok simp del: One_nat_def)

lemma char_lit_no_panic: "lx_rest l \<noteq> [] \<Longrightarrow> read_char_lit p l \<noteq> Inl Panic"
  by (auto simp: read_char_lit_def split: if_splits option.splits elim!: sbind_Inl_cases dest!: advance_panic)

lemma string_escape_no_panic: "string_escape e l \<noteq> Inl Panic"
  by (auto simp: string_escape_def lex_advance_def split: list.splits option.splits if_splits elim!: sbind_Inl_cases)

lemma read_string_body_no_panic: "read_string_body b l \<noteq> Inl Panic"
proof (induction b l rule: read_string_body.induct)
  case (1 b l)
  then show ?case
    by (subst read_string_body.simps)
      (auto simp: string_escape_no_panic split: if_splits elim!: sbind_Inl_cases dest!: advance_panic)
qed

lemma read_block_body_no_panic: "read_block_body b l \<noteq> Inl Panic"
proof (induction b l rule: read_block_body.induct)
  case (1 b l)
  then show ?case by (subst read_block_body.simps) (auto split: list.splits)
qed

lemma single_no_panic: "lx_rest l = c # cs \<Longrightarrow> single k p l \<noteq> Inl Panic"
  by (simp add: single_def lex_advance_def)

lemma double_no_panic: "second P l \<Longrightarrow> double k p l \<noteq> Inl Panic"
  by (auto simp: double_def lex_advance_def second_def split: list.splits)

lemma line_comment_no_panic: "second P l \<Longrightarrow> read_line_comment p l \<noteq> Inl Panic"
  by (auto simp: read_line_comment_def lex_advance_def second_def split: list.splits prod.splits)

lemma line_comment_char_no_panic: "lx_rest l = c # cs \<Longrightarrow> read_line_comment_char p l \<noteq> Inl Panic"
  by (auto simp: read_line_comment_char_def lex_advance_def split: prod.splits)

lemma block_comment_no_panic: "second P l \<Longrightarrow> read_block_comment p l \<noteq> Inl Panic"
  by (auto simp: read_block_comment_def lex_advance_def second_def read_block_body_no_panic
      split: list.splits elim!: sbind_Inl_cases)

lemma read_string_no_panic: "lx_rest l = c # cs \<Longrightarrow> read_string p l \<noteq> Inl Panic"
  by (auto simp: read_string_def lex_advance_def read_string_body_no_panic elim!: sbind_Inl_cases)

lemma read_ident_no_panic: "read_ident l \<noteq> Inl Panic"
  by (auto simp: read_ident_def split: prod.splits)

lemmas readers_no_panic = single_no_panic double_no_panic line_comment_no_panic line_comment_char_no_panic
  block_comment_no_panic read_string_no_panic read_ident_no_panic char_lit_no_panic number_or_local_no_panic

lemma if_no_panic: "(b \<Longrightarrow> x \<noteq> Inl Panic) \<Longrightarrow> (\<not> b \<Longrightarrow> y \<noteq> Inl Panic) \<Longrightarrow> (if b then x else y) \<noteq> Inl Panic"
  by simp

lemma scan_no_panic: "lx_rest l = c # cs \<Longrightarrow> scan c l \<noteq> Inl Panic"
  unfolding scan_def Let_def
  by (cases "punctuation c") (simp only: option.case, (rule if_no_panic readers_no_panic | assumption | simp)+)

lemma next_tok_no_panic: "next_tok l \<noteq> Inl Panic"
proof (induction l rule: next_tok.induct)
  case (1 l)
  then show ?case
    by (subst next_tok.simps) (auto simp: Let_def scan_no_panic split: list.splits option.splits)
qed

lemma lex_loop_no_panic: "lex_loop l \<noteq> Inl Panic"
proof (induction l rule: lex_loop.induct)
  case (1 l)
  show ?case
  proof (cases "next_tok l")
    case (Inl e)
    then show ?thesis using next_tok_no_panic [of l] by (subst lex_loop.simps) simp
  next
    case (Inr x)
    then obtain t l' where n: "next_tok l = Inr (t, l')" by (cases x) auto
    show ?thesis
      using 1 [OF n refl]
      by (subst lex_loop.simps) (auto simp: n elim!: sbind_Inl_cases)
  qed
qed

lemma lex_no_panic: "lex src path \<noteq> Inl Panic"
  by (simp add: lex_def lex_loop_no_panic)

lemma lex_eof: "lex src path = Inr ts \<Longrightarrow> eof_terminated ts"
  unfolding lex_def by (rule lex_loop_eof)

end
