(* ===== verification/Fe_Text.thy ===== *)
theory Fe_Text
  imports Fe_Lexer Fmt_Sysregs
begin

text \<open>
  The text functions of \<^verbatim>\<open>tools/sam-aarch64/frontend/preprocess.go\<close>: trimming, comment stripping,
  line splitting, literal and argument parsing, macro substitution, and the library functions on
  strings and paths they use.  Trimming knows the ASCII blanks.
\<close>

section \<open>Library functions\<close>

definition has_prefix :: "string \<Rightarrow> string \<Rightarrow> bool" where
  "has_prefix s p \<longleftrightarrow> take (length p) s = p"

definition trim_prefix :: "string \<Rightarrow> string \<Rightarrow> string" where
  "trim_prefix s p = (if has_prefix s p then drop (length p) s else s)"

definition trim_left :: "string \<Rightarrow> string" where
  "trim_left = dropWhile is_blank"

definition trim_right :: "string \<Rightarrow> string" where
  "trim_right s = rev (dropWhile is_blank (rev s))"

definition is_space :: "char \<Rightarrow> bool" where
  "is_space c \<longleftrightarrow> c \<in> set [tab, newline, CHR 0x0B, CHR 0x0C, carriage_return, CHR '' '']"

definition trim_space :: "string \<Rightarrow> string" where
  "trim_space s = rev (dropWhile is_space (rev (dropWhile is_space s)))"

text \<open>The lexical cleaning of slash-separated paths of \<^verbatim>\<open>path/filepath\<close>.\<close>

fun clean_parts :: "bool \<Rightarrow> string list \<Rightarrow> string list \<Rightarrow> string list" where
  "clean_parts rooted stack [] = rev stack"
| "clean_parts rooted stack (p # ps) =
     (if p = '''' \<or> p = ''.'' then clean_parts rooted stack ps
      else if p = ''..'' then
        (case stack of
           d # ds \<Rightarrow> if d = ''..'' then clean_parts rooted (p # stack) ps else clean_parts rooted ds ps
         | [] \<Rightarrow> if rooted then clean_parts rooted [] ps else clean_parts rooted [p] ps)
      else clean_parts rooted (p # stack) ps)"

definition clean_path :: "string \<Rightarrow> string" where
  "clean_path path =
     (let rooted = (path \<noteq> [] \<and> hd path = CHR ''/'');
          s = join ''/'' (clean_parts rooted [] (split_on (CHR ''/'') path))
      in if rooted then CHR ''/'' # s else if s = [] then ''.'' else s)"

definition dir_path :: "string \<Rightarrow> string" where
  "dir_path path = clean_path (rev (dropWhile (\<lambda>c. c \<noteq> CHR ''/'') (rev path)))"

definition join_path :: "string \<Rightarrow> string \<Rightarrow> string" where
  "join_path a b =
     (if a = [] then if b = [] then [] else clean_path b else clean_path (a @ ''/'' @ b))"

section \<open>Lines\<close>

fun normalise_crlf :: "string \<Rightarrow> string" where
  "normalise_crlf (c # d # cs) =
     (if c = carriage_return \<and> d = newline then newline # normalise_crlf cs else c # normalise_crlf (d # cs))"
| "normalise_crlf cs = cs"

definition split_lines :: "string \<Rightarrow> string list" where
  "split_lines src =
     (if src = [] then []
      else let out = split_on newline (normalise_crlf src) in
           if out \<noteq> [] \<and> last out = [] then butlast out else out)"

section \<open>Comments\<close>

text \<open>What follows the first \<^verbatim>\<open>*/\<close>.\<close>

fun after_close :: "string \<Rightarrow> string option" where
  "after_close (c # d # cs) = (if c = CHR ''*'' \<and> d = CHR ''/'' then Some cs else after_close (d # cs))"
| "after_close _ = None"

lemma after_close_shorter [termination_simp]: "after_close s = Some t \<Longrightarrow> length t < length s"
  by (induction s rule: after_close.induct) (auto split: if_splits)

text \<open>
  The loop of \<^verbatim>\<open>stripTrailingComment\<close>: the string is \<open>pre @ rest\<close> and the index is the length of
  \<open>pre\<close>.
\<close>

function strip_comment_loop :: "bool \<Rightarrow> string \<Rightarrow> string \<Rightarrow> string" where
  "strip_comment_loop in_str pre [] = trim_right pre"
| "strip_comment_loop in_str pre (c # cs) =
     (if c = dquote \<and> (pre = [] \<or> last pre \<noteq> backslash) then strip_comment_loop (\<not> in_str) (pre @ [c]) cs
      else if in_str then strip_comment_loop in_str (pre @ [c]) cs
      else if c = CHR ''/'' \<and> cs \<noteq> [] \<and> hd cs = CHR ''/'' then trim_right pre
      else if c = CHR ''/'' \<and> cs \<noteq> [] \<and> hd cs = CHR ''*'' then
        (case after_close (tl cs) of
           None \<Rightarrow> pre @ c # cs
         | Some rest \<Rightarrow> strip_comment_loop in_str pre rest)
      else strip_comment_loop in_str (pre @ [c]) cs)"
  by pat_completeness auto
termination
proof (relation "measure (\<lambda>(in_str, pre, rest). length rest)")
  fix in_str pre c cs rest
  assume "after_close (tl cs) = Some rest"
  then have "length rest < length (tl cs)" by (rule after_close_shorter)
  then show "((in_str, pre, rest), in_str, pre, c # cs) \<in> measure (\<lambda>(in_str, pre, rest). length rest)" by simp
qed auto

definition strip_trailing_comment :: "string \<Rightarrow> string" where
  "strip_trailing_comment s = strip_comment_loop False [] s"

section \<open>Literals and arguments\<close>

definition is_bare_ident :: "string \<Rightarrow> bool" where
  "is_bare_ident s \<longleftrightarrow> (case s of [] \<Rightarrow> False | c # cs \<Rightarrow> is_ident_start c \<and> list_all is_ident_cont cs)"

definition literal_digits :: "string \<Rightarrow> nat \<times> string" where
  "literal_digits s =
     (if has_prefix s ''0x'' \<or> has_prefix s ''0X'' then (16, drop 2 s)
      else if has_prefix s ''0b'' \<or> has_prefix s ''0B'' then (2, drop 2 s)
      else (10, s))"

definition parse_int_literal :: "string \<Rightarrow> i64 option" where
  "parse_int_literal s0 =
     (let s = trim_space s0 in
      if s = [] then None
      else let neg = (hd s = CHR ''-'');
               s1 = (if neg \<or> hd s = CHR ''+'' then tl s else s) in
        if s1 = [] then None
        else case literal_digits s1 of (base, ds) \<Rightarrow>
          if ds = [] then None
          else case parse_int_in_base ds base of
            Inl _ \<Rightarrow> None
          | Inr v \<Rightarrow> Some (if neg then - v else v))"

text \<open>The loop of \<^verbatim>\<open>splitMacroArgs\<close>: the previous character, the depth, and the argument begun.\<close>

fun split_args_loop :: "char option \<Rightarrow> nat \<Rightarrow> bool \<Rightarrow> string \<Rightarrow> string \<Rightarrow> string list" where
  "split_args_loop prev depth in_str arg [] = [trim_space arg]"
| "split_args_loop prev depth in_str arg (c # cs) =
     (if c = dquote \<and> prev \<noteq> Some backslash then split_args_loop (Some c) depth (\<not> in_str) (arg @ [c]) cs
      else if in_str then split_args_loop (Some c) depth in_str (arg @ [c]) cs
      else if c = CHR ''('' then split_args_loop (Some c) (depth + 1) in_str (arg @ [c]) cs
      else if c = CHR '')'' then split_args_loop (Some c) (depth - 1) in_str (arg @ [c]) cs
      else if c = CHR '','' \<and> depth = 0 then trim_space arg # split_args_loop (Some c) depth in_str [] cs
      else split_args_loop (Some c) depth in_str (arg @ [c]) cs)"

definition split_macro_args :: "string \<Rightarrow> string list" where
  "split_macro_args s = (if s = [] then [] else split_args_loop None 0 False [] s)"

section \<open>Substitution\<close>

text \<open>The first parameter that spells the text after a backslash, not followed by an identifier character.\<close>

definition param_match :: "string \<Rightarrow> string \<times> string \<Rightarrow> bool" where
  "param_match s pa \<longleftrightarrow> has_prefix s (fst pa)
     \<and> (drop (length (fst pa)) s = [] \<or> \<not> is_ident_cont (s ! length (fst pa)))"

function substitute :: "(string \<times> string) list \<Rightarrow> string \<Rightarrow> string" where
  "substitute pairs s =
     (case s of
        [] \<Rightarrow> []
      | c # cs \<Rightarrow>
          if c = backslash \<and> cs \<noteq> [] then
            (if hd cs = backslash then backslash # backslash # substitute pairs (tl cs)
             else case find (param_match cs) pairs of
               Some pa \<Rightarrow> snd pa @ substitute pairs (drop (length (fst pa)) cs)
             | None \<Rightarrow> backslash # substitute pairs cs)
          else c # substitute pairs cs)"
  by pat_completeness auto
termination
  by (relation "measure (\<lambda>(pairs, s). length s)") auto

declare substitute.simps [simp del]

definition build_substituter :: "string list \<Rightarrow> string list \<Rightarrow> string \<Rightarrow> string" where
  "build_substituter ps args = substitute (sort_key (\<lambda>pa. - int (length (fst pa))) (zip ps args))"

end
