(* ===== verification/Fe_Preproc.thy ===== *)
theory Fe_Preproc
  imports Fe_Text
begin

text \<open>
  The preprocessor of \<^verbatim>\<open>tools/sam-aarch64/frontend/preprocess.go\<close>: conditional assembly, macros
  and includes, with the line directives that keep the lexer's positions.  The file system is a
  parameter.  An include cycle recurses without end, so the model takes a bound on the nesting of
  files and expansions and answers \<open>None\<close> when it is reached.
\<close>

section \<open>State\<close>

record macro_def =
  m_name :: string
  m_params :: "string list"
  m_body :: "string list"
  m_file :: string
  m_line :: nat

record preproc =
  pp_macros :: "string \<rightharpoonup> macro_def"
  pp_setvars :: "string \<rightharpoonup> i64"
  pp_expanding :: "string set"
  pp_out :: string

text \<open>\<^verbatim>\<open>os.ReadFile\<close> and the directories given with \<^verbatim>\<open>-I\<close>.\<close>

record pp_env =
  env_read :: "string \<Rightarrow> string option"
  env_incdirs :: "string list"

record if_frame =
  fr_active :: bool
  fr_taken :: bool
  fr_had_else :: bool

definition write_out :: "string \<Rightarrow> preproc \<Rightarrow> preproc" where
  "write_out s pp = pp\<lparr>pp_out := pp_out pp @ s\<rparr>"

definition line_directive :: "string \<Rightarrow> nat \<Rightarrow> string" where
  "line_directive path n = ''# '' @ dec n @ '' '' @ [dquote] @ path @ [dquote, newline]"

definition emit_line_directive :: "string \<Rightarrow> nat \<Rightarrow> preproc \<Rightarrow> preproc" where
  "emit_line_directive path n = write_out (line_directive path n)"

section \<open>Recognising directives\<close>

definition is_if_line :: "string \<Rightarrow> bool" where
  "is_if_line t \<longleftrightarrow> has_prefix t ''.if '' \<or> t = ''.if'' \<or> has_prefix t (''.if'' @ [tab])"

definition is_else_line :: "string \<Rightarrow> bool" where
  "is_else_line t \<longleftrightarrow> t = ''.else'' \<or> has_prefix t ''.else ''"

definition is_endif_line :: "string \<Rightarrow> bool" where
  "is_endif_line t \<longleftrightarrow> t = ''.endif'' \<or> has_prefix t ''.endif ''"

definition is_macro_line :: "string \<Rightarrow> bool" where
  "is_macro_line t \<longleftrightarrow> has_prefix t ''.macro '' \<or> has_prefix t (''.macro'' @ [tab])"

definition is_endm_line :: "string \<Rightarrow> bool" where
  "is_endm_line t \<longleftrightarrow> t = ''.endm'' \<or> has_prefix t ''.endm ''"

definition parse_macro_header :: "string \<Rightarrow> string \<Rightarrow> nat \<Rightarrow> macro_def res" where
  "parse_macro_header line file n =
     (let rest = trim_space (trim_prefix line ''.macro'') in
      if rest = [] then Inl (Error ''.macro: missing name'')
      else let name = takeWhile is_ident_cont rest in
        if name = [] then Inl (Error ''.macro: expected name'')
        else let args = strip_trailing_comment (trim_space (trim_prefix (trim_space (dropWhile is_ident_cont rest)) '',''));
                 ps = (if args = [] then [] else filter (\<lambda>p. p \<noteq> []) (map trim_space (split_on (CHR '','') args)))
             in Inr \<lparr>m_name = name, m_params = ps, m_body = [], m_file = file, m_line = n\<rparr>)"

text \<open>The body up to \<^verbatim>\<open>.endm\<close>, with the lines after it.\<close>

fun collect_macro_body :: "string list \<Rightarrow> (string list \<times> string list) res" where
  "collect_macro_body [] = Inl (Error ''unterminated .macro'')"
| "collect_macro_body (ln # lns) =
     (let t = trim_left ln in
      if is_macro_line t then Inl (Error ''nested .macro is unsupported'')
      else if is_endm_line t then Inr ([], lns)
      else sbind (collect_macro_body lns) (\<lambda>(body, rest). Inr (ln # body, rest)))"

lemma collect_macro_body_shorter: "collect_macro_body lns = Inr (body, rest) \<Longrightarrow> length rest < length lns"
  by (induction lns arbitrary: body) (auto simp: Let_def split: if_splits elim!: sbindE)

definition eval_if_condition :: "string \<Rightarrow> preproc \<Rightarrow> bool res" where
  "eval_if_condition line pp =
     (let rest = strip_trailing_comment (trim_space (trim_prefix line ''.if'')) in
      if rest = [] then Inl (Error ''.if: missing symbol'')
      else if \<not> is_bare_ident rest then Inl (Error ''.if: only bare-symbol conditions supported'')
      else Inr (case pp_setvars pp rest of None \<Rightarrow> False | Some v \<Rightarrow> v \<noteq> 0))"

definition try_parse_set :: "string \<Rightarrow> (string \<times> i64) option" where
  "try_parse_set line =
     (if \<not> has_prefix line ''.set '' \<and> \<not> has_prefix line (''.set'' @ [tab]) then None
      else let rest = strip_trailing_comment (trim_space (drop 4 line)) in
        if CHR '','' \<notin> set rest then None
        else let name = trim_space (takeWhile (\<lambda>c. c \<noteq> CHR '','') rest);
                 v = trim_space (tl (dropWhile (\<lambda>c. c \<noteq> CHR '','') rest)) in
          if \<not> is_bare_ident name then None
          else map_option (Pair name) (parse_int_literal v))"

definition try_parse_include :: "string \<Rightarrow> string option" where
  "try_parse_include line =
     (if \<not> has_prefix line ''.include '' \<and> \<not> has_prefix line (''.include'' @ [tab]) then None
      else let rest = strip_trailing_comment (trim_space (drop 8 line)) in
        if length rest < 2 \<or> hd rest \<noteq> dquote \<or> last rest \<noteq> dquote then None
        else Some (butlast (tl rest)))"

section \<open>Conditional assembly\<close>

text \<open>The stack of frames, innermost first.\<close>

definition all_active :: "if_frame list \<Rightarrow> bool" where
  "all_active stack \<longleftrightarrow> list_all fr_active stack"

definition push_if :: "string \<Rightarrow> preproc \<Rightarrow> if_frame list \<Rightarrow> if_frame list res" where
  "push_if t pp stack =
     (if \<not> all_active stack then Inr (\<lparr>fr_active = False, fr_taken = True, fr_had_else = False\<rparr> # stack)
      else sbind (eval_if_condition t pp) (\<lambda>b.
        Inr (\<lparr>fr_active = b, fr_taken = b, fr_had_else = False\<rparr> # stack)))"

definition flip_else :: "if_frame list \<Rightarrow> if_frame list res" where
  "flip_else stack =
     (case stack of
        fr # parent # fs \<Rightarrow>
          if fr_had_else fr then Inl (Error ''duplicate .else'')
          else let on = (all_active (parent # fs) \<and> \<not> fr_taken fr) in
               Inr (\<lparr>fr_active = on, fr_taken = (fr_taken fr \<or> on), fr_had_else = True\<rparr> # parent # fs)
      | _ \<Rightarrow> Inl (Error ''.else outside .if''))"

definition pop_endif :: "if_frame list \<Rightarrow> if_frame list res" where
  "pop_endif stack =
     (case stack of
        fr # parent # fs \<Rightarrow> Inr (parent # fs)
      | _ \<Rightarrow> Inl (Error ''.endif outside .if''))"

text \<open>A macro invocation, found by the first word of the line.\<close>

definition find_macro :: "string \<Rightarrow> preproc \<Rightarrow> (string \<times> macro_def) option" where
  "find_macro line pp =
     (let name = takeWhile is_ident_cont (trim_left line) in
      if name = [] then None else map_option (Pair name) (pp_macros pp name))"

definition macro_args :: "string \<Rightarrow> string list" where
  "macro_args line =
     split_macro_args (strip_trailing_comment (trim_space (dropWhile is_ident_cont (trim_left line))))"

definition check_macro :: "string \<Rightarrow> macro_def \<Rightarrow> string list \<Rightarrow> preproc \<Rightarrow> unit res" where
  "check_macro name m args pp =
     (if length args \<noteq> length (m_params m) then Inl (Error ''macro: wrong number of args'')
      else if name \<in> pp_expanding pp then Inl (Error ''macro: recursive expansion (cycle)'')
      else Inr ())"

text \<open>The candidates of an include, in order: the including file's directory, then the \<^verbatim>\<open>-I\<close> directories.\<close>

definition include_candidates :: "pp_env \<Rightarrow> string \<Rightarrow> string \<Rightarrow> string list" where
  "include_candidates env inc from_path =
     join_path (dir_path from_path) inc # map (\<lambda>d. join_path d inc) (env_incdirs env)"

definition find_include :: "pp_env \<Rightarrow> string \<Rightarrow> string \<Rightarrow> (string \<times> string) option" where
  "find_include env inc from_path =
     (case find (\<lambda>c. env_read env c \<noteq> None) (include_candidates env inc from_path) of
        None \<Rightarrow> None
      | Some c \<Rightarrow> map_option (Pair c) (env_read env c))"

section \<open>Processing lines\<close>

text \<open>\<open>None\<close>: the bound on the nesting was reached.\<close>

type_synonym 'a run = "'a res option"

definition rbind :: "'a run \<Rightarrow> ('a \<Rightarrow> 'b run) \<Rightarrow> 'b run" where
  "rbind r f = (case r of None \<Rightarrow> None | Some (Inl e) \<Rightarrow> Some (Inl e) | Some (Inr a) \<Rightarrow> f a)"

definition frame0 :: if_frame where
  "frame0 = \<lparr>fr_active = True, fr_taken = False, fr_had_else = False\<rparr>"

definition define_macro :: "macro_def \<Rightarrow> string list \<Rightarrow> preproc \<Rightarrow> preproc" where
  "define_macro m body pp = pp\<lparr>pp_macros := (pp_macros pp)(m_name m \<mapsto> m\<lparr>m_body := body\<rparr>)\<rparr>"

text \<open>A literal \<^verbatim>\<open>.set\<close> is recorded; the line is processed further.\<close>

definition record_set :: "string \<Rightarrow> preproc \<Rightarrow> preproc" where
  "record_set t pp =
     (case try_parse_set t of
        None \<Rightarrow> pp
      | Some (name, v) \<Rightarrow> pp\<lparr>pp_setvars := (pp_setvars pp)(name \<mapsto> v)\<rparr>)"

definition start_macro :: "string \<Rightarrow> macro_def \<Rightarrow> preproc \<Rightarrow> preproc" where
  "start_macro name m pp =
     emit_line_directive (m_file m) (m_line m + 1) (pp\<lparr>pp_expanding := insert name (pp_expanding pp)\<rparr>)"

definition end_macro :: "string \<Rightarrow> string \<Rightarrow> nat \<Rightarrow> preproc \<Rightarrow> preproc" where
  "end_macro name path n pp =
     (let pp1 = emit_line_directive path (n + 1) pp in pp1\<lparr>pp_expanding := pp_expanding pp1 - {name}\<rparr>)"

text \<open>
  \<^verbatim>\<open>processLines\<close> from a line on, with \<^verbatim>\<open>processFile\<close> and the expansion of a macro as the nested
  calls.
\<close>

function process_lines ::
  "nat \<Rightarrow> pp_env \<Rightarrow> string list \<Rightarrow> string \<Rightarrow> nat \<Rightarrow> if_frame list \<Rightarrow> preproc \<Rightarrow> preproc run" where
  "process_lines 0 env lns path n stack pp = None"
| "process_lines (Suc k) env [] path n stack pp =
     Some (if length stack > 1 then Inl (Error ''unterminated .if'') else Inr pp)"
| "process_lines (Suc k) env (ln # lns) path n stack pp =
     (let t = trim_left ln in
      if is_if_line t then
        rbind (Some (push_if t pp stack)) (\<lambda>stack. process_lines (Suc k) env lns path (n + 1) stack pp)
      else if is_else_line t then
        rbind (Some (flip_else stack)) (\<lambda>stack. process_lines (Suc k) env lns path (n + 1) stack pp)
      else if is_endif_line t then
        rbind (Some (pop_endif stack)) (\<lambda>stack. process_lines (Suc k) env lns path (n + 1) stack pp)
      else if is_macro_line t then
        (case collect_macro_body lns of
           Inl e \<Rightarrow> Some (Inl e)
         | Inr (body, rest) \<Rightarrow>
             rbind (Some (if all_active stack
                          then sbind (parse_macro_header t path n) (\<lambda>m. Inr (define_macro m body pp))
                          else Inr pp)) (\<lambda>pp.
               process_lines (Suc k) env rest path (n + 1 + length body + 1) stack pp))
      else if is_endm_line t then Some (Inl (Error ''.endm outside .macro''))
      else if \<not> all_active stack then process_lines (Suc k) env lns path (n + 1) stack pp
      else let pp1 = record_set t pp in
        case try_parse_include t of
          Some inc \<Rightarrow>
            (case find_include env inc path of
               None \<Rightarrow> Some (Inl (Error ''.include: not found in search path''))
             | Some (resolved, data) \<Rightarrow>
                 rbind (process_lines k env (split_lines data) resolved 1 [frame0] (emit_line_directive resolved 1 pp1)) (\<lambda>pp2.
                   process_lines (Suc k) env lns path (n + 1) stack (emit_line_directive path (n + 1) pp2)))
        | None \<Rightarrow>
            (case find_macro ln pp1 of
               None \<Rightarrow> process_lines (Suc k) env lns path (n + 1) stack (write_out (ln @ [newline]) pp1)
             | Some (name, m) \<Rightarrow>
                 let args = macro_args ln in
                 rbind (Some (check_macro name m args pp1)) (\<lambda>_.
                 rbind (process_lines k env (map (build_substituter (m_params m) args) (m_body m)) (m_file m)
                          (m_line m + 1) [frame0] (start_macro name m pp1)) (\<lambda>pp2.
                   process_lines (Suc k) env lns path (n + 1) stack (end_macro name path n pp2)))))"
  by pat_completeness auto
termination
  by (relation "measures [\<lambda>(k, env, lns, path, n, stack, pp). k, \<lambda>(k, env, lns, path, n, stack, pp). length lns]")
    (auto dest: collect_macro_body_shorter)

definition process_file :: "nat \<Rightarrow> pp_env \<Rightarrow> string \<Rightarrow> string \<Rightarrow> preproc \<Rightarrow> preproc run" where
  "process_file k env src path pp =
     process_lines k env (split_lines src) path 1 [frame0] (emit_line_directive path 1 pp)"

definition new_preproc :: preproc where
  "new_preproc = \<lparr>pp_macros = Map.empty, pp_setvars = Map.empty, pp_expanding = {}, pp_out = []\<rparr>"

definition preprocess :: "nat \<Rightarrow> pp_env \<Rightarrow> string \<Rightarrow> string \<Rightarrow> string run" where
  "preprocess k env src path =
     rbind (process_file k env src path new_preproc) (\<lambda>pp. Some (Inr (pp_out pp)))"

section \<open>The bound\<close>

text \<open>A result does not depend on the bound: a larger one gives the same.\<close>

definition upto_bound :: "'a run \<Rightarrow> 'a run \<Rightarrow> bool" where
  "upto_bound a b \<longleftrightarrow> a = None \<or> a = b"

lemma upto_refl: "upto_bound a a"
  by (simp add: upto_bound_def)

lemma upto_rbind:
  assumes "upto_bound a b" and "\<And>x. upto_bound (f x) (g x)"
  shows "upto_bound (rbind a f) (rbind b g)"
  using assms by (auto simp: upto_bound_def rbind_def split: option.split sum.split)

lemma upto_if: "(b \<Longrightarrow> upto_bound x x') \<Longrightarrow> (\<not> b \<Longrightarrow> upto_bound y y') \<Longrightarrow> upto_bound (if b then x else y) (if b then x' else y')"
  by simp

lemma upto_option:
  "(x = None \<Longrightarrow> upto_bound a a') \<Longrightarrow> (\<And>y. x = Some y \<Longrightarrow> upto_bound (f y) (f' y)) \<Longrightarrow>
   upto_bound (case x of None \<Rightarrow> a | Some y \<Rightarrow> f y) (case x of None \<Rightarrow> a' | Some y \<Rightarrow> f' y)"
  by (cases x) auto

lemma upto_sum:
  "(\<And>e. x = Inl e \<Longrightarrow> upto_bound (g e) (g' e)) \<Longrightarrow> (\<And>y. x = Inr y \<Longrightarrow> upto_bound (f y) (f' y)) \<Longrightarrow>
   upto_bound (case x of Inl e \<Rightarrow> g e | Inr y \<Rightarrow> f y) (case x of Inl e \<Rightarrow> g' e | Inr y \<Rightarrow> f' y)"
  by (cases x) auto

lemma upto_pair:
  "(\<And>y z. x = (y, z) \<Longrightarrow> upto_bound (f y z) (f' y z)) \<Longrightarrow>
   upto_bound (case x of (y, z) \<Rightarrow> f y z) (case x of (y, z) \<Rightarrow> f' y z)"
  by (cases x) auto

lemmas upto_intros = upto_if upto_option upto_sum upto_pair upto_rbind upto_refl

lemma process_lines_upto: "upto_bound (process_lines k env lns path n stack pp) (process_lines (Suc k) env lns path n stack pp)"
proof (induction k arbitrary: lns path n stack pp)
  case (Suc k)
  note nested = Suc.IH
  show ?case
  proof (induction "length lns" arbitrary: lns path n stack pp rule: less_induct)
    case less
    show ?case
    proof (cases lns)
      case (Cons ln rest)
      have rest: "upto_bound (process_lines (Suc k) env rest path n stack pp) (process_lines (Suc (Suc k)) env rest path n stack pp)"
        for path n stack pp by (rule less.hyps) (simp add: Cons)
      have after: "upto_bound (process_lines (Suc k) env r path n stack pp) (process_lines (Suc (Suc k)) env r path n stack pp)"
        if "collect_macro_body rest = Inr (body, r)" for body r path n stack pp
        by (rule less.hyps) (use collect_macro_body_shorter [OF that] Cons in simp)
      show ?thesis
        unfolding Cons process_lines.simps(3) Let_def
        by (intro upto_intros rest nested; (rule after, simp)?)
    qed (simp add: upto_refl)
  qed
qed (simp add: upto_bound_def)

lemma process_lines_mono:
  assumes "process_lines k env lns path n stack pp = Some r" and "k \<le> k'"
  shows "process_lines k' env lns path n stack pp = Some r"
  using assms(2)
proof (induction k' rule: dec_induct)
  case (step j)
  then show ?case using process_lines_upto [of j env lns path n stack pp] by (simp add: upto_bound_def)
qed (rule assms(1))

end
