(* ===== verification/Fe_Expr.thy ===== *)
theory Fe_Expr
  imports Fe_Lexer Tbn_File Expr_Props
begin

text \<open>
  The expression parser of \<^verbatim>\<open>tools/sam-aarch64/frontend/parser.go\<close>: precedence climbing over the
  token stream, writing postfix bytecode.  The parser's \<^verbatim>\<open>toks\<close> and \<^verbatim>\<open>pos\<close> are represented by
  the tokens from \<^verbatim>\<open>pos\<close> on; reading the current token past the last one panics.
\<close>

section \<open>Parser state\<close>

record parser =
  p_toks :: "tok list"
  p_st :: symbol_table
  p_recs :: "tbn_record list"

definition cur :: "parser \<Rightarrow> tok res" where
  "cur p = (case p_toks p of [] \<Rightarrow> Inl Panic | t # _ \<Rightarrow> Inr t)"

text \<open>\<^verbatim>\<open>p.pos++\<close>\<close>

definition bump :: "parser \<Rightarrow> parser" where
  "bump p = p\<lparr>p_toks := tl (p_toks p)\<rparr>"

text \<open>\<^verbatim>\<open>p.st.Intern(text)\<close>\<close>

definition intern_text :: "string \<Rightarrow> parser \<Rightarrow> u16 \<times> parser" where
  "intern_text s p = (case intern (char_bytes s) (p_st p) of (n, st) \<Rightarrow> (n, p\<lparr>p_st := st\<rparr>))"

definition expect :: "tok_kind \<Rightarrow> parser \<Rightarrow> parser res" where
  "expect k p = sbind (cur p) (\<lambda>t. if t_kind t \<noteq> k then Inl (Error ''expected token'') else Inr (bump p))"

lemma bump_simps [simp]: "p_toks (bump p) = tl (p_toks p)" "p_st (bump p) = p_st p" "p_recs (bump p) = p_recs p"
  by (simp_all add: bump_def)

lemma cur_iff: "cur p = Inr t \<longleftrightarrow> (\<exists>ts. p_toks p = t # ts)"
  by (auto simp: cur_def split: list.splits)

lemma cur_toks: "cur p = Inr t \<Longrightarrow> p_toks p = t # p_toks (bump p)"
  by (auto simp: cur_iff)

lemma intern_text_toks [simp]: "intern_text s p = (n, p') \<Longrightarrow> p_toks p' = p_toks p"
  by (auto simp: intern_text_def split: prod.splits)

lemma cur_bump_shorter: "cur p = Inr t \<Longrightarrow> length (p_toks (bump p)) < length (p_toks p)"
  by (auto simp: cur_iff)

section \<open>Operators\<close>

definition tok_prec :: "tok_kind \<Rightarrow> int" where
  "tok_prec k =
     (if k = TokPipe \<or> k = TokCaret then 0
      else if k = TokAmp then 1
      else if k = TokShl \<or> k = TokShr then 2
      else if k = TokPlus \<or> k = TokMinus then 3
      else if k = TokStar \<or> k = TokSlash then 4
      else - 1)"

definition tok_op :: "tok_kind \<Rightarrow> u8 option" where
  "tok_op = map_of [(TokPlus, OpAdd), (TokMinus, OpSub), (TokStar, OpMul), (TokSlash, OpDiv),
     (TokAmp, OpAnd), (TokPipe, OpOr), (TokCaret, OpXor), (TokShl, OpShl), (TokShr, OpShr)]"

text \<open>The switch that writes the operator has no default case.\<close>

definition write_tok_op :: "bytes \<Rightarrow> tok_kind \<Rightarrow> bytes" where
  "write_tok_op w k = (case tok_op k of Some op \<Rightarrow> write_op w op | None \<Rightarrow> w)"

definition reloc_op :: "string \<Rightarrow> u8 option" where
  "reloc_op = map_of [(''lo12'', OpRelLo12), (''hi12'', OpRelHi12), (''abs_g0'', OpRelAbsG0),
     (''abs_g0_nc'', OpRelAbsG0NC), (''abs_g1'', OpRelAbsG1), (''abs_g1_nc'', OpRelAbsG1NC),
     (''abs_g2'', OpRelAbsG2), (''abs_g2_nc'', OpRelAbsG2NC), (''abs_g3'', OpRelAbsG3)]"

section \<open>Expressions\<close>

text \<open>
  \<^verbatim>\<open>parseExprPrec\<close>, its loop over operators, and \<^verbatim>\<open>parseExprPrimary\<close>.  The first argument is the
  writer's buffer.
\<close>

function (domintros) expr_prec :: "bytes \<Rightarrow> int \<Rightarrow> parser \<Rightarrow> (bytes \<times> parser) res"
  and expr_ops :: "bytes \<Rightarrow> int \<Rightarrow> parser \<Rightarrow> (bytes \<times> parser) res"
  and expr_primary :: "bytes \<Rightarrow> parser \<Rightarrow> (bytes \<times> parser) res"
where
  "expr_prec w m p = sbind (expr_primary w p) (\<lambda>(w, p). expr_ops w m p)"
| "expr_ops w m p =
     sbind (cur p) (\<lambda>t.
     if tok_prec (t_kind t) < m then Inr (w, p)
     else sbind (expr_prec w (tok_prec (t_kind t) + 1) (bump p)) (\<lambda>(w, p).
            expr_ops (write_tok_op w (t_kind t)) m p))"
| "expr_primary w p =
     sbind (cur p) (\<lambda>t. case t_kind t of
       TokHash \<Rightarrow> expr_primary w (bump p)
     | TokInt \<Rightarrow> Inr (write_imm w (t_int t), bump p)
     | TokIdent \<Rightarrow> (case intern_text (t_text t) p of (n, p) \<Rightarrow> Inr (write_sym w n, bump p))
     | TokDot \<Rightarrow> Inr (write_pc w, bump p)
     | TokLocalRef \<Rightarrow> Inr (write_local w (t_digit t) (if t_dir t = CHR ''b'' then 1 else 0), bump p)
     | TokMinus \<Rightarrow> sbind (expr_primary w (bump p)) (\<lambda>(w, p). Inr (write_op w OpNeg, p))
     | TokTilde \<Rightarrow> sbind (expr_primary w (bump p)) (\<lambda>(w, p). Inr (write_op w OpNot, p))
     | TokLParen \<Rightarrow> sbind (expr_prec w 0 (bump p)) (\<lambda>(w, p). sbind (cur p) (\<lambda>u.
         if t_kind u \<noteq> TokRParen then Inl (Error ''missing )'') else Inr (w, bump p)))
     | TokColon \<Rightarrow> sbind (cur (bump p)) (\<lambda>u.
         if t_kind u \<noteq> TokIdent then Inl (Error ''expected relocation name after :'')
         else sbind (cur (bump (bump p))) (\<lambda>v.
         if t_kind v \<noteq> TokColon then Inl (Error ''expected : after relocation name'')
         else sbind (expr_primary w (bump (bump (bump p)))) (\<lambda>(w, p).
           case reloc_op (t_text u) of
             None \<Rightarrow> Inl (Error ''unknown relocation'')
           | Some op \<Rightarrow> Inr (write_op w op, p))))
     | _ \<Rightarrow> Inl (Error ''unexpected token in expression''))"
  by pat_completeness auto

abbreviation toks_left :: "parser \<Rightarrow> nat" where
  "toks_left p \<equiv> length (p_toks p)"

text \<open>
  An operand consumes at least one token; this is what makes the recursion end.
\<close>

lemma expr_consumes:
  "expr_prec_expr_ops_expr_primary_dom (Inl (w, m, p)) \<Longrightarrow> expr_prec w m p = Inr (w', p') \<Longrightarrow> toks_left p' < toks_left p"
  "expr_prec_expr_ops_expr_primary_dom (Inr (Inl (w, m, p))) \<Longrightarrow> expr_ops w m p = Inr (w', p') \<Longrightarrow> toks_left p' \<le> toks_left p"
  "expr_prec_expr_ops_expr_primary_dom (Inr (Inr (w, p))) \<Longrightarrow> expr_primary w p = Inr (w', p') \<Longrightarrow> toks_left p' < toks_left p"
proof (induction w m p and w m p and w p arbitrary: w' p' and w' p' and w' p'
    rule: expr_prec_expr_ops_expr_primary.pinduct)
  case (1 w m p)
  from 1(4) obtain w1 p1 where "expr_primary w p = Inr (w1, p1)" "expr_ops w1 m p1 = Inr (w', p')"
    by (auto simp: expr_prec.psimps [OF 1(1)] elim!: sbindE)
  with 1(2,3) show ?case by fastforce
next
  case (2 w m p)
  from 2(4) obtain t where c: "cur p = Inr t" by (auto simp: expr_ops.psimps [OF 2(1)] elim!: sbindE)
  show ?case
  proof (cases "tok_prec (t_kind t) < m")
    case True
    with 2(4) c show ?thesis by (simp add: expr_ops.psimps [OF 2(1)])
  next
    case False
    with 2(4) c obtain w1 p1 where "expr_prec w (tok_prec (t_kind t) + 1) (bump p) = Inr (w1, p1)"
      "expr_ops (write_tok_op w1 (t_kind t)) m p1 = Inr (w', p')"
      by (auto simp: expr_ops.psimps [OF 2(1)] elim!: sbindE)
    with 2(2) [OF c False] 2(3) [OF c False] cur_bump_shorter [OF c] show ?thesis by fastforce
  qed
next
  case (3 w p)
  from 3(7) obtain t where c: "cur p = Inr t" by (auto simp: expr_primary.psimps [OF 3(1)] elim!: sbindE)
  note s = cur_bump_shorter [OF c]
  show ?case
  proof (cases "t_kind t = TokColon")
    case True
    with 3(7) c obtain u v w1 p1 where u: "cur (bump p) = Inr u" "\<not> t_kind u \<noteq> TokIdent"
      and v: "cur (bump (bump p)) = Inr v" "\<not> t_kind v \<noteq> TokColon"
      and r: "expr_primary w (bump (bump (bump p))) = Inr (w1, p1)" and "p' = p1"
      by (auto simp: expr_primary.psimps [OF 3(1)] split: if_splits option.splits elim!: sbindE)
    with 3(3) [OF c True u v r] cur_bump_shorter [OF u(1)] cur_bump_shorter [OF v(1)] s
    show ?thesis by simp
  next
    case False
    then show ?thesis
      using 3(7) s c
      by (cases "t_kind t")
        (auto simp: expr_primary.psimps [OF 3(1)] split: prod.splits if_splits option.splits elim!: sbindE
          dest!: 3(2,4-6) [OF c] cur_bump_shorter)
  qed
qed

lemma expr_total: "All expr_prec_expr_ops_expr_primary_dom"
  by (relation "measures [\<lambda>x. case x of Inl (w, m, p) \<Rightarrow> toks_left p | Inr (Inl (w, m, p)) \<Rightarrow> toks_left p | Inr (Inr (w, p)) \<Rightarrow> toks_left p,
       \<lambda>x. case x of Inl _ \<Rightarrow> 1 | _ \<Rightarrow> 0]")
    (auto dest!: cur_bump_shorter expr_consumes)

termination expr_prec
  by (rule expr_total)

declare expr_prec.simps [simp del] expr_ops.simps [simp del] expr_primary.simps [simp del]

lemmas expr_shorter = expr_consumes [OF expr_total [rule_format]]

text \<open>\<^verbatim>\<open>parseExpression\<close> folds a constant expression.\<close>

definition parse_expression :: "parser \<Rightarrow> (bytes \<times> parser) res" where
  "parse_expression p =
     sbind (expr_prec [] 0 p) (\<lambda>(w, p).
       case eval_const w of
         Some v \<Rightarrow> Inr (write_imm [] v, p)
       | None \<Rightarrow> Inr (w, p))"

end
