(* ===== verification/Fe_Operand.thy ===== *)
theory Fe_Operand
  imports Fe_Expr
begin

text \<open>
  The operand parser of \<^verbatim>\<open>tools/sam-aarch64/frontend/parser.go\<close>: register, condition, shift and
  extend names, memory operands, and the operand writer calls they make.
\<close>

section \<open>Names\<close>

fun reg_number :: "nat \<Rightarrow> string \<Rightarrow> nat option" where
  "reg_number n [] = Some n"
| "reg_number n (c # cs) =
     (if c < CHR ''0'' \<or> CHR ''9'' < c then None
      else let m = n * 10 + (of_char c - 48) in if m > 30 then None else reg_number m cs)"

definition match_reg :: "string \<Rightarrow> (u8 \<times> u8) option" where
  "match_reg name =
     (if name = ''sp'' then Some (OpRegXSP, 31)
      else if name = ''wsp'' then Some (OpRegWSP, 31)
      else if name = ''xzr'' then Some (OpRegX, 31)
      else if name = ''wzr'' then Some (OpRegW, 31)
      else if name = ''fp'' then Some (OpRegX, 29)
      else if name = ''lr'' then Some (OpRegX, 30)
      else case name of
        prefix # c # cs \<Rightarrow>
          if prefix \<noteq> CHR ''x'' \<and> prefix \<noteq> CHR ''w'' then None
          else map_option (\<lambda>n. (if prefix = CHR ''x'' then OpRegX else OpRegW, of_nat n)) (reg_number 0 (c # cs))
      | _ \<Rightarrow> None)"

text \<open>The first code of a table whose name is the given one.\<close>

definition first_code :: "(u8 \<Rightarrow> string res) \<Rightarrow> nat \<Rightarrow> string \<Rightarrow> u8 option" where
  "first_code nm n name = find (\<lambda>c. nm c = Inr name) (map of_nat [0..<n])"

definition match_extend :: "string \<Rightarrow> u8 option" where
  "match_extend = first_code extend_kind_name 8"

definition match_shift_kind :: "string \<Rightarrow> u8 option" where
  "match_shift_kind = first_code shift_kind_name 4"

definition match_cond :: "string \<Rightarrow> u8 option" where
  "match_cond name =
     (case first_code cond_code_name 16 name of
        Some c \<Rightarrow> Some c
      | None \<Rightarrow> if name = ''hs'' then Some 2 else if name = ''lo'' then Some 3 else None)"

definition is_x_or_w :: "u8 \<Rightarrow> bool" where
  "is_x_or_w kind \<longleftrightarrow> kind = OpRegX \<or> kind = OpRegW"

definition reg_width :: "u8 \<Rightarrow> u8" where
  "reg_width kind = (if kind = OpRegX then 1 else 0)"

section \<open>Memory operands\<close>

text \<open>\<^verbatim>\<open>p.toks[p.pos+n]\<close>, when it exists.\<close>

definition ahead :: "nat \<Rightarrow> parser \<Rightarrow> tok option" where
  "ahead n p = (if n < length (p_toks p) then Some (p_toks p ! n) else None)"

definition ahead_kind :: "nat \<Rightarrow> parser \<Rightarrow> tok_kind option" where
  "ahead_kind n p = map_option t_kind (ahead n p)"

text \<open>A literal amount is converted to a byte.\<close>

definition literal_amount :: "string \<Rightarrow> parser \<Rightarrow> (u8 \<times> parser) res" where
  "literal_amount msg p =
     sbind (cur p) (\<lambda>t. if t_kind t \<noteq> TokInt then Inl (Error msg) else Inr (ucast (t_int t), bump p))"

definition mem_post_index :: "bytes \<Rightarrow> u8 \<Rightarrow> parser \<Rightarrow> (bytes \<times> parser) res" where
  "mem_post_index ow base p =
     sbind (cur p) (\<lambda>t.
     if t_kind t = TokComma \<and> ahead_kind 1 p \<in> Some ` set [TokHash, TokInt, TokMinus, TokIdent, TokLParen]
     then sbind (parse_expression (bump p)) (\<lambda>(e, p). Inr (write_mem_base_off ow MemBaseOffPost base e, p))
     else Inr (write_mem_base ow base, p))"

definition mem_index_shifted :: "bytes \<Rightarrow> u8 \<Rightarrow> u8 \<Rightarrow> u8 \<Rightarrow> parser \<Rightarrow> (bytes \<times> parser) res" where
  "mem_index_shifted ow base idx width p =
     sbind (cur p) (\<lambda>h. if t_kind h \<noteq> TokHash then Inl (Error ''expected #'')
     else sbind (literal_amount ''shift amount must be literal'' (bump p)) (\<lambda>(amt, p).
     sbind (expect TokRBracket p) (\<lambda>p.
       Inr (write_mem_base_idx_shifted ow base idx width amt, p))))"

definition mem_index_extended :: "bytes \<Rightarrow> u8 \<Rightarrow> u8 \<Rightarrow> u8 \<Rightarrow> u8 \<Rightarrow> parser \<Rightarrow> (bytes \<times> parser) res" where
  "mem_index_extended ow base idx width ext p =
     sbind (cur p) (\<lambda>h.
     sbind (if t_kind h = TokHash then literal_amount ''extend amount must be literal'' (bump p)
            else Inr (0, p)) (\<lambda>(amt, p).
     sbind (expect TokRBracket p) (\<lambda>p.
       Inr (write_mem_base_idx_extended ow base idx width ext amt, p))))"

definition mem_index :: "bytes \<Rightarrow> u8 \<Rightarrow> u8 \<Rightarrow> u8 \<Rightarrow> parser \<Rightarrow> (bytes \<times> parser) res" where
  "mem_index ow base idx width p =
     sbind (cur p) (\<lambda>t.
     if t_kind t = TokComma then
       (let p = bump p in sbind (cur p) (\<lambda>m.
        if t_kind m \<noteq> TokIdent then Inl (Error ''expected shift/extend keyword'')
        else if t_text m = ''lsl'' then mem_index_shifted ow base idx width (bump p)
        else case match_extend (t_text m) of
          None \<Rightarrow> Inl (Error ''unknown extend'')
        | Some ext \<Rightarrow> mem_index_extended ow base idx width ext (bump p)))
     else sbind (expect TokRBracket p) (\<lambda>p. Inr (write_mem_base_idx ow base idx width, p)))"

definition mem_offset :: "bytes \<Rightarrow> u8 \<Rightarrow> parser \<Rightarrow> (bytes \<times> parser) res" where
  "mem_offset ow base p =
     sbind (parse_expression p) (\<lambda>(e, p).
     sbind (expect TokRBracket p) (\<lambda>p.
     sbind (cur p) (\<lambda>t.
       if t_kind t = TokBang then Inr (write_mem_base_off ow MemBaseOffPre base e, bump p)
       else Inr (write_mem_base_off ow MemBaseOff base e, p))))"

definition index_reg :: "tok \<Rightarrow> (u8 \<times> u8) option" where
  "index_reg t =
     (if t_kind t = TokIdent then
        case match_reg (t_text t) of
          Some (kind, idx) \<Rightarrow> if is_x_or_w kind then Some (kind, idx) else None
        | None \<Rightarrow> None
      else None)"

definition parse_mem :: "bytes \<Rightarrow> parser \<Rightarrow> (bytes \<times> parser) res" where
  "parse_mem ow p0 =
     (let p = bump p0 in sbind (cur p) (\<lambda>b.
      if t_kind b \<noteq> TokIdent then Inl (Error ''expected register after ['')
      else case match_reg (t_text b) of
        None \<Rightarrow> Inl (Error ''expected X register after ['')
      | Some (kind, base) \<Rightarrow>
          if kind \<noteq> OpRegX \<and> kind \<noteq> OpRegXSP then Inl (Error ''expected X register after ['')
          else let p = bump p in sbind (cur p) (\<lambda>t.
            if t_kind t = TokRBracket then mem_post_index ow base (bump p)
            else if t_kind t \<noteq> TokComma then Inl (Error ''expected comma or ]'')
            else let p = bump p in sbind (cur p) (\<lambda>i.
              case index_reg i of
                Some (ikind, idx) \<Rightarrow> mem_index ow base idx (reg_width ikind) (bump p)
              | None \<Rightarrow> mem_offset ow base p))))"

section \<open>Operands\<close>

definition shifted_operand :: "bytes \<Rightarrow> u8 \<Rightarrow> u8 \<Rightarrow> u8 \<Rightarrow> parser \<Rightarrow> (bytes \<times> parser) res" where
  "shifted_operand ow kind r sk p =
     sbind (cur p) (\<lambda>h. if t_kind h \<noteq> TokHash then Inl (Error ''expected # after shift'')
     else sbind (parse_expression (bump p)) (\<lambda>(amt, p).
       Inr (write_shifted_reg ow (reg_width kind) r sk amt, p)))"

definition extended_operand :: "bytes \<Rightarrow> u8 \<Rightarrow> u8 \<Rightarrow> u8 \<Rightarrow> parser \<Rightarrow> (bytes \<times> parser) res" where
  "extended_operand ow kind r ek p =
     sbind (cur p) (\<lambda>h.
     sbind (if t_kind h = TokHash then parse_expression (bump p) else Inr ([], p)) (\<lambda>(amt, p).
       Inr (write_extended_reg ow (reg_width kind) r ek amt, p)))"

text \<open>After a register: \<^verbatim>\<open>, <shift> #amount\<close>, \<^verbatim>\<open>, <extend> [#amount]\<close>, or nothing more.\<close>

definition register_operand :: "bytes \<Rightarrow> u8 \<Rightarrow> u8 \<Rightarrow> parser \<Rightarrow> (bytes \<times> parser) res" where
  "register_operand ow kind r p =
     sbind (cur p) (\<lambda>c.
     if t_kind c = TokComma \<and> ahead_kind 1 p = Some TokIdent \<and> is_x_or_w kind then
       (let name = t_text (p_toks p ! 1) in
        case match_shift_kind name of
          Some sk \<Rightarrow> shifted_operand ow kind r sk (bump (bump p))
        | None \<Rightarrow>
            (case match_extend name of
               Some ek \<Rightarrow> extended_operand ow kind r ek (bump (bump p))
             | None \<Rightarrow> Inr (write_reg ow kind r, p)))
     else Inr (write_reg ow kind r, p))"

definition expression_operand :: "bytes \<Rightarrow> parser \<Rightarrow> (bytes \<times> parser) res" where
  "expression_operand ow p = sbind (parse_expression p) (\<lambda>(e, p). Inr (write_imm_expr ow e, p))"

definition parse_operand :: "bytes \<Rightarrow> parser \<Rightarrow> (bytes \<times> parser) res" where
  "parse_operand ow p =
     sbind (cur p) (\<lambda>t.
     if t_kind t = TokIdent then
       (case match_cond (t_text t) of
          Some c \<Rightarrow> Inr (write_cond ow c, bump p)
        | None \<Rightarrow>
            (case match_reg (t_text t) of
               Some (kind, r) \<Rightarrow> register_operand ow kind r (bump p)
             | None \<Rightarrow> expression_operand ow p))
     else if t_kind t \<in> set [TokHash, TokInt, TokMinus, TokTilde, TokLParen, TokDot, TokLocalRef, TokColon]
     then expression_operand ow p
     else if t_kind t = TokLBracket then parse_mem ow p
     else Inl (Error ''unexpected token in operand''))"

section \<open>Progress\<close>

lemma parse_expression_shorter: "parse_expression p = Inr (e, p') \<Longrightarrow> toks_left p' < toks_left p"
  by (auto simp: parse_expression_def split: option.splits elim!: sbindE dest!: expr_shorter)

lemma expect_shorter: "expect k p = Inr p' \<Longrightarrow> toks_left p' < toks_left p"
  by (auto simp: expect_def split: if_splits elim!: sbindE dest: cur_bump_shorter)

lemma literal_amount_shorter: "literal_amount msg p = Inr (a, p') \<Longrightarrow> toks_left p' < toks_left p"
  by (auto simp: literal_amount_def split: if_splits elim!: sbindE dest: cur_bump_shorter)

lemmas step_shorter = parse_expression_shorter expect_shorter literal_amount_shorter cur_bump_shorter

lemma expression_operand_shorter: "expression_operand ow p = Inr (w, p') \<Longrightarrow> toks_left p' < toks_left p"
  by (auto simp: expression_operand_def elim!: sbindE dest: step_shorter)

lemma shifted_operand_shorter: "shifted_operand ow k r s p = Inr (w, p') \<Longrightarrow> toks_left p' \<le> toks_left p"
  by (auto simp: shifted_operand_def split: if_splits elim!: sbindE dest!: step_shorter)

lemma extended_operand_shorter: "extended_operand ow k r e p = Inr (w, p') \<Longrightarrow> toks_left p' \<le> toks_left p"
  by (auto simp: extended_operand_def split: if_splits elim!: sbindE dest!: step_shorter)

lemma register_operand_shorter: "register_operand ow k r p = Inr (w, p') \<Longrightarrow> toks_left p' \<le> toks_left p"
  by (auto simp: register_operand_def Let_def split: if_splits option.splits elim!: sbindE
      dest!: shifted_operand_shorter extended_operand_shorter)

lemma mem_post_index_shorter: "mem_post_index ow b p = Inr (w, p') \<Longrightarrow> toks_left p' \<le> toks_left p"
  by (auto simp: mem_post_index_def split: if_splits elim!: sbindE dest!: step_shorter)

lemma mem_index_shifted_shorter: "mem_index_shifted ow b i w p = Inr (x, p') \<Longrightarrow> toks_left p' \<le> toks_left p"
  by (auto simp: mem_index_shifted_def split: if_splits elim!: sbindE dest!: step_shorter)

lemma mem_index_extended_shorter: "mem_index_extended ow b i w e p = Inr (x, p') \<Longrightarrow> toks_left p' \<le> toks_left p"
  by (auto simp: mem_index_extended_def split: if_splits elim!: sbindE dest!: step_shorter)

lemma mem_index_shorter: "mem_index ow b i w p = Inr (x, p') \<Longrightarrow> toks_left p' \<le> toks_left p"
  by (auto simp: mem_index_def Let_def split: if_splits option.splits elim!: sbindE
      dest!: mem_index_shifted_shorter mem_index_extended_shorter step_shorter)

lemma mem_offset_shorter: "mem_offset ow b p = Inr (x, p') \<Longrightarrow> toks_left p' \<le> toks_left p"
  by (auto simp: mem_offset_def split: if_splits elim!: sbindE dest!: step_shorter)

lemma parse_mem_shorter:
  assumes "parse_mem ow p = Inr (x, p')" and "cur p = Inr t"
  shows "toks_left p' < toks_left p"
  using assms(1) cur_bump_shorter [OF assms(2)]
  by (auto simp: parse_mem_def Let_def split: if_splits option.splits prod.splits elim!: sbindE
      dest!: mem_post_index_shorter mem_index_shorter mem_offset_shorter) linarith+

lemma parse_operand_shorter:
  assumes "parse_operand ow p = Inr (x, p')"
  shows "toks_left p' < toks_left p"
proof -
  obtain t where c: "cur p = Inr t" using assms by (auto simp: parse_operand_def elim!: sbindE)
  show ?thesis
    using assms cur_bump_shorter [OF c] c
    by (auto simp: parse_operand_def split: if_splits option.splits elim!: sbindE
        dest!: expression_operand_shorter register_operand_shorter dest: parse_mem_shorter [OF _ c])
qed

end
