(* ===== verification/Fe_Parser.thy ===== *)
theory Fe_Parser
  imports Fe_Operand Fmt_Sysregs Asm_State
begin

text \<open>
  The statement parser of \<^verbatim>\<open>tools/sam-aarch64/frontend/parser.go\<close>: lines, labels, comments,
  directives and instructions become the records of the symbolic intermediate representation.
\<close>

section \<open>Emitting records\<close>

definition emit :: "tbn_record \<Rightarrow> parser \<Rightarrow> parser" where
  "emit r p = p\<lparr>p_recs := p_recs p @ [r]\<rparr>"

definition emit_inst :: "u16 \<Rightarrow> u8 \<Rightarrow> bytes \<Rightarrow> parser \<Rightarrow> parser" where
  "emit_inst i cnt ops = emit ((record0 KindInst [])\<lparr>r_mnemonic := i, operand_count := cnt, operands := ops\<rparr>)"

definition emit_label_def :: "u16 \<Rightarrow> parser \<Rightarrow> parser" where
  "emit_label_def i = emit ((record0 KindLabelDef [])\<lparr>symbol_id := i\<rparr>)"

definition emit_local_def :: "u8 \<Rightarrow> parser \<Rightarrow> parser" where
  "emit_local_def d = emit ((record0 KindLocalDef [])\<lparr>digit := d\<rparr>)"

definition emit_comment :: "u8 \<Rightarrow> bytes \<Rightarrow> parser \<Rightarrow> parser" where
  "emit_comment pl b = emit ((record0 KindComment [])\<lparr>placement := pl, body := b\<rparr>)"

definition emit_blank_run :: "nat \<Rightarrow> parser \<Rightarrow> parser" where
  "emit_blank_run n = emit ((record0 KindBlankRun [])\<lparr>run_len := of_nat n\<rparr>)"

definition emit_directive_record :: "u8 \<Rightarrow> u8 \<Rightarrow> bytes \<Rightarrow> parser \<Rightarrow> parser" where
  "emit_directive_record i cnt ops =
     emit ((record0 KindDirective [])\<lparr>directive_id := i, operand_count := cnt, operands := ops\<rparr>)"

lemma emit_toks [simp]:
  "p_toks (emit r p) = p_toks p" "p_toks (emit_inst i c ops p) = p_toks p"
  "p_toks (emit_label_def s p) = p_toks p" "p_toks (emit_local_def d p) = p_toks p"
  "p_toks (emit_comment pl b p) = p_toks p" "p_toks (emit_blank_run n p) = p_toks p"
  "p_toks (emit_directive_record d c ops p) = p_toks p"
  by (simp_all add: emit_def emit_inst_def emit_label_def_def emit_local_def_def emit_comment_def
      emit_blank_run_def emit_directive_record_def)

definition ends_statement :: "tok_kind \<Rightarrow> bool" where
  "ends_statement k \<longleftrightarrow> k \<in> set [TokEOL, TokEOF, TokLineComment, TokBlockComment]"

section \<open>Directives\<close>

function directive_operands :: "u8 \<Rightarrow> bytes \<Rightarrow> u8 \<Rightarrow> parser \<Rightarrow> parser res" where
  "directive_operands i ow cnt p =
     sbind (cur p) (\<lambda>t.
     if ends_statement (t_kind t) then Inr (emit_directive_record i cnt ow p)
     else if t_kind t = TokComma then
       (if cnt = 0 then Inl (Error ''unexpected comma'') else directive_operands i ow cnt (bump p))
     else if t_kind t = TokString then directive_operands i (write_string ow (t_bytes t)) (cnt + 1) (bump p)
     else sbind (parse_operand ow p) (\<lambda>(ow, p). directive_operands i ow (cnt + 1) p))"
  by pat_completeness auto
termination
  by (relation "measure (\<lambda>(i, ow, cnt, p). toks_left p)") (auto dest: cur_bump_shorter parse_operand_shorter)

declare directive_operands.simps [simp del]

definition parse_org_rhs :: "parser \<Rightarrow> parser res" where
  "parse_org_rhs p =
     (case directive_id_of ''.org'' of
        None \<Rightarrow> sbind (cur p) (\<lambda>_. Inl (Error ''internal: .org directive ID not registered''))
      | Some i \<Rightarrow>
          sbind (parse_expression p) (\<lambda>(e, p). sbind (cur p) (\<lambda>t.
            if ends_statement (t_kind t) then Inr (emit_directive_record i 1 (write_imm_expr [] e) p)
            else Inl (Error ''unexpected token after org''))))"

text \<open>The optional operands of \<^verbatim>\<open>.section\<close>: flags, then a type.\<close>

definition section_type :: "bytes \<Rightarrow> u8 \<Rightarrow> parser \<Rightarrow> ((bytes \<times> u8) \<times> parser) res" where
  "section_type ow cnt p =
     sbind (cur p) (\<lambda>c.
     if t_kind c \<noteq> TokComma then Inr ((ow, cnt), p)
     else let p = bump p in sbind (cur p) (\<lambda>pc.
       if t_kind pc \<noteq> TokPercent then Inl (Error ''.section: expected percent-prefixed type'')
       else let p = bump p in sbind (cur p) (\<lambda>t.
         if t_kind t \<noteq> TokIdent then Inl (Error ''.section: expected type keyword after percent'')
         else Inr ((write_sys_name ow (char_bytes (CHR ''%'' # t_text t)), cnt + 1), bump p))))"

definition section_flags :: "bytes \<Rightarrow> u8 \<Rightarrow> parser \<Rightarrow> ((bytes \<times> u8) \<times> parser) res" where
  "section_flags ow cnt p =
     sbind (cur p) (\<lambda>c.
     if t_kind c \<noteq> TokComma then Inr ((ow, cnt), p)
     else let p = bump p in sbind (cur p) (\<lambda>s.
       if t_kind s \<noteq> TokString then Inl (Error ''.section: expected quoted flags string'')
       else section_type (write_string ow (t_bytes s)) (cnt + 1) (bump p)))"

definition parse_directive_section :: "u8 \<Rightarrow> parser \<Rightarrow> parser res" where
  "parse_directive_section i p =
     sbind (cur p) (\<lambda>n.
     if t_kind n \<noteq> TokIdent then Inl (Error ''.section: expected section name'')
     else sbind (section_flags (write_sys_name [] (char_bytes (t_text n))) 1 (bump p)) (\<lambda>((ow, cnt), p).
       sbind (cur p) (\<lambda>t.
         if ends_statement (t_kind t) then Inr (emit_directive_record i cnt ow p)
         else Inl (Error ''.section: unexpected token after operands''))))"

definition tok_spelling :: "tok \<Rightarrow> string" where
  "tok_spelling t =
     (case t_kind t of
        TokIdent \<Rightarrow> t_text t | TokInt \<Rightarrow> t_text t | TokComma \<Rightarrow> '','' | TokHash \<Rightarrow> ''#'' | TokColon \<Rightarrow> '':''
      | TokBang \<Rightarrow> ''!'' | TokDot \<Rightarrow> ''.'' | TokLBracket \<Rightarrow> ''['' | TokRBracket \<Rightarrow> '']''
      | TokLParen \<Rightarrow> ''('' | TokRParen \<Rightarrow> '')'' | TokPlus \<Rightarrow> ''+'' | TokMinus \<Rightarrow> ''-'' | TokStar \<Rightarrow> ''*''
      | TokSlash \<Rightarrow> ''/'' | TokAmp \<Rightarrow> ''&'' | TokPipe \<Rightarrow> ''|'' | TokCaret \<Rightarrow> ''^'' | TokTilde \<Rightarrow> ''~''
      | TokShl \<Rightarrow> ''<<'' | TokShr \<Rightarrow> ''>>'' | TokEquals \<Rightarrow> ''='' | TokPercent \<Rightarrow> ''%'' | _ \<Rightarrow> '''')"

function directive_rest_of_line :: "u8 \<Rightarrow> string \<Rightarrow> parser \<Rightarrow> parser res" where
  "directive_rest_of_line i s p =
     sbind (cur p) (\<lambda>t.
     if ends_statement (t_kind t) then
       Inr (if s \<noteq> [] then emit_directive_record i 1 (write_sys_name [] (char_bytes s)) p
            else emit_directive_record i 0 [] p)
     else directive_rest_of_line i (s @ tok_spelling t) (bump p))"
  by pat_completeness auto
termination
  by (relation "measure (\<lambda>(i, s, p). toks_left p)") (auto dest: cur_bump_shorter)

declare directive_rest_of_line.simps [simp del]

definition parse_directive :: "tok \<Rightarrow> parser \<Rightarrow> parser res" where
  "parse_directive t p =
     (case directive_id_of (t_text t) of
        None \<Rightarrow> Inl (Error ''unknown directive'')
      | Some i \<Rightarrow>
          let p = bump p in
          if t_text t = ''.section'' then parse_directive_section i p
          else if t_text t = ''.arch'' \<or> t_text t = ''.cpu'' then directive_rest_of_line i [] p
          else directive_operands i [] 0 p)"

section \<open>Shifted arithmetic immediates\<close>

definition is_shifted_imm_mnemonic :: "u16 \<Rightarrow> bool" where
  "is_shifted_imm_mnemonic i \<longleftrightarrow> i \<in> set [1, 2, 19, 45, 98]"

text \<open>An operand of an unknown kind or memory shape is dropped.\<close>

definition reemit_operand :: "bytes \<Rightarrow> operand \<Rightarrow> bytes" where
  "reemit_operand nw o' =
     (let k = o_kind o' in
      if k \<in> set [OpRegX, OpRegW, OpRegXSP, OpRegWSP] then write_reg nw k (o_reg o')
      else if k = OpImmExpr then write_imm_expr nw (o_expr o')
      else if k = OpShiftedReg then write_shifted_reg nw (o_width o') (o_reg o') (o_shift_kind o') (o_amt_expr o')
      else if k = OpExtendedReg then write_extended_reg nw (o_width o') (o_reg o') (o_extend o') (o_amt_expr o')
      else if k = OpMem then
        (let s = o_mem_shape o' in
         if s = MemBase then write_mem_base nw (o_base o')
         else if s \<in> set [MemBaseOff, MemBaseOffPre, MemBaseOffPost]
         then write_mem_base_off nw s (o_base o') (o_expr o')
         else if s = MemBaseIdx then write_mem_base_idx nw (o_base o') (o_idx o') (o_idx_width o')
         else if s = MemBaseIdxShifted
         then write_mem_base_idx_shifted nw (o_base o') (o_idx o') (o_idx_width o') (o_shift_amt o')
         else if s = MemBaseIdxExtended
         then write_mem_base_idx_extended nw (o_base o') (o_idx o') (o_idx_width o') (o_extend o') (o_shift_amt o')
         else nw)
      else if k = OpString then write_string nw (o_str o')
      else if k = OpCond then write_cond nw (o_cond o')
      else if k = OpSysName then write_sys_name nw (o_str o')
      else if k = OpLitPool then write_lit_pool nw (o_width o') (o_expr o')
      else nw)"

definition rewrite_last_imm_shift_left_12 :: "bytes \<Rightarrow> bytes res" where
  "rewrite_last_imm_shift_left_12 ow =
     (case read_operands ow of
        Inl Panic \<Rightarrow> Inl Panic
      | Inl (Error _) \<Rightarrow> Inr ow
      | Inr ops \<Rightarrow>
          if ops = [] \<or> o_kind (last ops) \<noteq> OpImmExpr then Inr ow
          else let e = write_op (write_imm (append_raw [] (o_expr (last ops))) 12) OpShl in
               Inr (write_imm_expr (foldl reemit_operand [] (butlast ops)) e))"

text \<open>The suffix \<^verbatim>\<open>, lsl #N\<close> after an operand of add, sub, subs, adds or cmp.\<close>

definition at_shift_suffix :: "u16 \<Rightarrow> parser \<Rightarrow> bool" where
  "at_shift_suffix i p \<longleftrightarrow> is_shifted_imm_mnemonic i
     \<and> (case ahead 1 p of Some t \<Rightarrow> t_kind t = TokIdent \<and> t_text t = ''lsl'' | None \<Rightarrow> False)
     \<and> ahead_kind 2 p = Some TokHash"

definition shift_suffix :: "bytes \<Rightarrow> parser \<Rightarrow> (bytes \<times> parser) res" where
  "shift_suffix ow p =
     sbind (parse_expression (bump (bump (bump p)))) (\<lambda>(e, p).
     case eval_const e of
       None \<Rightarrow> sbind (cur p) (\<lambda>_. Inl (Error ''lsl shift amount must be a constant''))
     | Some shift \<Rightarrow>
         if shift \<noteq> 0 \<and> shift \<noteq> 12 then sbind (cur p) (\<lambda>_. Inl (Error ''lsl shift invalid for arithmetic imm12''))
         else if shift = 12 then sbind (rewrite_last_imm_shift_left_12 ow) (\<lambda>ow. Inr (ow, p))
         else Inr (ow, p))"

lemma shift_suffix_shorter: "shift_suffix ow p = Inr (x, p') \<Longrightarrow> cur p = Inr t \<Longrightarrow> toks_left p' < toks_left p"
  by (auto simp: shift_suffix_def split: if_splits option.splits elim!: sbindE
      dest!: parse_expression_shorter cur_bump_shorter)

function inst_operands :: "u16 \<Rightarrow> bytes \<Rightarrow> u8 \<Rightarrow> parser \<Rightarrow> parser res" where
  "inst_operands i ow cnt p =
     sbind (cur p) (\<lambda>t.
     if ends_statement (t_kind t) then Inr (emit_inst i cnt ow p)
     else if t_kind t = TokComma then
       (if cnt = 0 then Inl (Error ''unexpected comma'')
        else if at_shift_suffix i p then sbind (shift_suffix ow p) (\<lambda>(ow, p). inst_operands i ow cnt p)
        else inst_operands i ow cnt (bump p))
     else sbind (parse_operand ow p) (\<lambda>(ow, p). inst_operands i ow (cnt + 1) p))"
  by pat_completeness auto
termination
  by (relation "measure (\<lambda>(i, ow, cnt, p). toks_left p)")
    (auto dest: cur_bump_shorter parse_operand_shorter shift_suffix_shorter)

declare inst_operands.simps [simp del]

section \<open>Move-wide and barrier instructions\<close>

text \<open>The optional \<^verbatim>\<open>, lsl #N\<close> of movk: the halfword number \<open>N / 16\<close>.\<close>

definition movk_shift :: "parser \<Rightarrow> (i64 \<times> parser) res" where
  "movk_shift p =
     sbind (cur p) (\<lambda>c.
     if t_kind c \<noteq> TokComma then Inr (0, p)
     else let p = bump p in sbind (cur p) (\<lambda>l.
       if t_kind l = TokIdent \<and> t_text l = ''lsl'' then
         (let p = bump p in sbind (cur p) (\<lambda>h.
          if t_kind h \<noteq> TokHash then Inl (Error ''movk: expected # after lsl'')
          else sbind (parse_expression (bump p)) (\<lambda>(e, p).
            case eval_const e of
              None \<Rightarrow> sbind (cur p) (\<lambda>_. Inl (Error ''movk: shift amount must be a constant''))
            | Some n \<Rightarrow>
                if sint n < 0 \<or> sint n > 48 \<or> gmod n 16 \<noteq> 0
                then sbind (cur p) (\<lambda>_. Inl (Error ''movk: lsl shift not in {0, 16, 32, 48}''))
                else Inr (gdiv n 16, p))))
       else Inl (Error ''movk: expected lsl after comma'')))"

text \<open>The halfword number is folded into bits 17:16 of the immediate.\<close>

definition movk_imm :: "bytes \<Rightarrow> i64 \<Rightarrow> bytes" where
  "movk_imm e hw =
     (case eval_const e of
        Some v \<Rightarrow> write_imm [] (push_bit 16 hw OR v)
      | None \<Rightarrow> write_op (write_op (write_imm (append_raw (write_imm [] (push_bit 16 hw)) e) 0xffff) OpAnd) OpOr)"

definition parse_movk :: "u16 \<Rightarrow> parser \<Rightarrow> parser res" where
  "parse_movk i p =
     sbind (parse_operand [] p) (\<lambda>(ow, p). sbind (cur p) (\<lambda>c.
     if t_kind c \<noteq> TokComma then Inl (Error ''movk: expected comma after register'')
     else sbind (parse_expression (bump p)) (\<lambda>(e, p).
     if (case eval_const e of Some v \<Rightarrow> sint v < 0 \<or> sint v > 0xffff | None \<Rightarrow> False)
     then sbind (cur p) (\<lambda>_. Inl (Error ''movk: immediate out of range [0, 65535]''))
     else sbind (movk_shift p) (\<lambda>(hw, p).
       Inr (emit_inst i 2 (write_imm_expr ow (movk_imm e hw)) p)))))"

definition barrier_crm :: "string \<Rightarrow> i64 option" where
  "barrier_crm = map_of [(''sy'', 0xf), (''st'', 0xe), (''ld'', 0xd), (''ish'', 0xb), (''ishst'', 0xa),
     (''ishld'', 0x9), (''nsh'', 0x7), (''nshst'', 0x6), (''nshld'', 0x5), (''osh'', 0x3),
     (''oshst'', 0x2), (''oshld'', 0x1)]"

definition parse_barrier :: "u16 \<Rightarrow> bool \<Rightarrow> parser \<Rightarrow> parser res" where
  "parse_barrier i optional p =
     sbind (cur p) (\<lambda>t.
     if t_kind t \<noteq> TokIdent then
       (if \<not> optional then Inl (Error ''expected barrier-arg keyword'')
        else Inr (emit_inst i 1 (write_imm_expr [] (write_imm [] 0xf)) p))
     else case barrier_crm (t_text t) of
       None \<Rightarrow> Inl (Error ''unknown barrier-arg'')
     | Some crm \<Rightarrow> Inr (emit_inst i 1 (write_imm_expr [] (write_imm [] crm)) (bump p)))"

definition movl_const :: "u8 \<Rightarrow> u8 \<Rightarrow> i64 \<Rightarrow> parser \<Rightarrow> parser" where
  "movl_const kind r v p =
     (let lo = v AND 0xffff; hi = signed_drop_bit 16 v AND 0xffff;
          high = write_imm_expr (write_reg [] kind r) (write_imm [] (push_bit 16 1 OR hi)) in
      if lo = 0 \<and> hi \<noteq> 0 then emit_inst (mnem ''mov'') 2 high p
      else let p = emit_inst (mnem ''mov'') 2 (write_imm_expr (write_reg [] kind r) (write_imm [] lo)) p in
           if hi \<noteq> 0 then emit_inst (mnem ''movk'') 2 high p else p)"

definition movl_symbolic :: "u8 \<Rightarrow> u8 \<Rightarrow> bytes \<Rightarrow> parser \<Rightarrow> parser" where
  "movl_symbolic kind r e p =
     emit_inst (mnem ''movk'') 2
       (write_imm_expr (write_reg [] kind r)
          (write_op (write_op (append_raw (write_imm [] (push_bit 16 1)) e) OpRelAbsG1) OpOr))
       (emit_inst (mnem ''mov'') 2
          (write_imm_expr (write_reg [] kind r) (write_op (append_raw [] e) OpRelAbsG0NC)) p)"

definition parse_movl :: "parser \<Rightarrow> parser res" where
  "parse_movl p =
     sbind (parse_operand [] p) (\<lambda>(rd, p).
     case rd of
       kind # r # _ \<Rightarrow>
         sbind (cur p) (\<lambda>c.
         if t_kind c \<noteq> TokComma then Inl (Error ''movl: expected comma after register'')
         else sbind (parse_expression (bump p)) (\<lambda>(e, p).
           Inr (case eval_const e of
             Some v \<Rightarrow> movl_const kind r v p
           | None \<Rightarrow> movl_symbolic kind r e p)))
     | _ \<Rightarrow> sbind (cur p) (\<lambda>_. Inl (Error ''movl: expected register'')))"

section \<open>System instructions\<close>

definition x_register :: "tok \<Rightarrow> u8 option" where
  "x_register t = (case match_reg (t_text t) of Some (kind, r) \<Rightarrow> if kind = OpRegX then Some r else None | None \<Rightarrow> None)"

definition parse_mrs :: "u16 \<Rightarrow> parser \<Rightarrow> parser res" where
  "parse_mrs i p =
     sbind (cur p) (\<lambda>t.
     if t_kind t \<noteq> TokIdent then Inl (Error ''mrs: expected register'')
     else case x_register t of
       None \<Rightarrow> Inl (Error ''mrs: expected X register'')
     | Some r \<Rightarrow> let p = bump p in sbind (cur p) (\<lambda>c.
         if t_kind c \<noteq> TokComma then Inl (Error ''mrs: expected comma after register'')
         else let p = bump p in sbind (cur p) (\<lambda>n.
           if t_kind n \<noteq> TokIdent then Inl (Error ''mrs: expected system register name'')
           else if parse_sys_reg (t_text n) = None then Inl (Error ''mrs: unknown system register'')
           else Inr (emit_inst i 2 (write_sys_name (write_reg [] OpRegX r) (char_bytes (t_text n))) (bump p)))))"

definition msr_source :: "u16 \<Rightarrow> bytes \<Rightarrow> parser \<Rightarrow> parser res" where
  "msr_source i ow p =
     sbind (cur p) (\<lambda>t.
     case (if t_kind t = TokIdent then match_reg (t_text t) else None) of
       Some (kind, r) \<Rightarrow>
         if kind \<noteq> OpRegX then Inl (Error ''msr: source register must be Xt'')
         else Inr (emit_inst i 2 (write_reg ow kind r) (bump p))
     | None \<Rightarrow> sbind (parse_operand ow p) (\<lambda>(ow, p). Inr (emit_inst i 2 ow p)))"

definition parse_msr :: "u16 \<Rightarrow> parser \<Rightarrow> parser res" where
  "parse_msr i p =
     sbind (cur p) (\<lambda>n.
     if t_kind n \<noteq> TokIdent then Inl (Error ''msr: expected system register or PSTATE field name'')
     else if parse_sys_reg (t_text n) = None \<and> parse_pstate (t_text n) = None
     then Inl (Error ''msr: unknown system register / PSTATE field'')
     else let p = bump p in sbind (cur p) (\<lambda>c.
       if t_kind c \<noteq> TokComma then Inl (Error ''msr: expected comma after destination'')
       else msr_source i (write_sys_name [] (char_bytes (t_text n))) (bump p)))"

definition parse_dc_tlbi :: "u16 \<Rightarrow> bool \<Rightarrow> parser \<Rightarrow> parser res" where
  "parse_dc_tlbi i xt_optional p =
     sbind (cur p) (\<lambda>n.
     if t_kind n \<noteq> TokIdent then Inl (Error ''expected operation name'')
     else let ow = write_sys_name [] (char_bytes (t_text n)); p = bump p in sbind (cur p) (\<lambda>c.
       if t_kind c = TokComma then
         (let p = bump p in sbind (cur p) (\<lambda>t.
          if t_kind t \<noteq> TokIdent then Inl (Error ''expected register after comma'')
          else case x_register t of
            None \<Rightarrow> Inl (Error ''expected X register after comma'')
          | Some r \<Rightarrow> Inr (emit_inst i 2 (write_reg ow OpRegX r) (bump p))))
       else if \<not> xt_optional then Inl (Error ''expected comma and register operand'')
       else Inr (emit_inst i 1 ow p)))"

text \<open>\<^verbatim>\<open>tryParseLdrLitPool\<close>: \<open>None\<close> when the statement is not \<^verbatim>\<open>ldr <reg>, =<expr>\<close>.\<close>

definition try_parse_ldr_lit_pool :: "u16 \<Rightarrow> parser \<Rightarrow> parser option res" where
  "try_parse_ldr_lit_pool i p =
     sbind (cur p) (\<lambda>t.
     case index_reg t of
       None \<Rightarrow> Inr None
     | Some (kind, r) \<Rightarrow>
         if ahead_kind 1 p \<noteq> Some TokComma \<or> ahead_kind 2 p \<noteq> Some TokEquals then Inr None
         else sbind (parse_expression (bump (bump (bump p)))) (\<lambda>(e, p).
           Inr (Some (emit_inst i 2
             (write_lit_pool (write_reg [] kind r) (if kind = OpRegW then 4 else 8) e) p))))"

definition parse_inst :: "tok \<Rightarrow> parser \<Rightarrow> parser res" where
  "parse_inst t p0 =
     (case mnemonic_id_of (t_text t) of
        None \<Rightarrow> Inl (Error ''unknown mnemonic'')
      | Some i \<Rightarrow>
          let p = bump p0 in
          if i = mnem ''movk'' \<or> i = mnem ''movz'' \<or> i = mnem ''movn'' then parse_movk i p
          else if i = mnem ''movl'' then parse_movl p
          else sbind (if i = mnem ''ldr'' then try_parse_ldr_lit_pool i p else Inr None) (\<lambda>handled.
          case handled of
            Some p' \<Rightarrow> Inr p'
          | None \<Rightarrow>
              if i = mnem ''dsb'' \<or> i = mnem ''dmb'' then parse_barrier i False p
              else if i = mnem ''isb'' then parse_barrier i True p
              else if i = mnem ''mrs'' then parse_mrs i p
              else if i = mnem ''msr'' then parse_msr i p
              else if i = mnem ''dc'' then parse_dc_tlbi i False p
              else if i = mnem ''tlbi'' then parse_dc_tlbi i True p
              else inst_operands i [] 0 p))"

section \<open>Lines\<close>

definition parse_inst_or_directive :: "tok \<Rightarrow> parser \<Rightarrow> parser res" where
  "parse_inst_or_directive t p =
     (case t_text t of
        c # _ \<Rightarrow> if c = CHR ''.'' then parse_directive t p else parse_inst t p
      | [] \<Rightarrow> parse_inst t p)"

text \<open>The leading newlines of a line, counted.\<close>

function skip_newlines :: "nat \<Rightarrow> parser \<Rightarrow> (nat \<times> parser) res" where
  "skip_newlines n p = sbind (cur p) (\<lambda>t. if t_kind t = TokEOL then skip_newlines (n + 1) (bump p) else Inr (n, p))"
  by pat_completeness auto
termination
  by (relation "measure (\<lambda>(n, p). toks_left p)") (auto dest: cur_bump_shorter)

declare skip_newlines.simps [simp del]

text \<open>A statement never gives tokens back.\<close>

lemma directive_operands_shorter: "directive_operands i ow cnt p = Inr p' \<Longrightarrow> toks_left p' \<le> toks_left p"
proof (induction i ow cnt p rule: directive_operands.induct)
  case (1 i ow cnt p)
  obtain t where c: "cur p = Inr t" using 1(4) by (subst (asm) directive_operands.simps) (auto elim!: sbindE)
  consider "ends_statement (t_kind t)" | "\<not> ends_statement (t_kind t)" "t_kind t = TokComma"
    | "\<not> ends_statement (t_kind t)" "t_kind t \<noteq> TokComma" "t_kind t = TokString"
    | "\<not> ends_statement (t_kind t)" "t_kind t \<noteq> TokComma" "t_kind t \<noteq> TokString" by blast
  then show ?case
  proof cases
    case 1
    then show ?thesis using "1.prems" c by (subst (asm) directive_operands.simps) auto
  next
    case 2
    then show ?thesis using "1.prems" c "1.IH"(1) [OF c 2] cur_bump_shorter [OF c]
      by (subst (asm) directive_operands.simps [of i ow cnt p]) (auto split: if_splits)
  next
    case 3
    then show ?thesis using "1.prems" c "1.IH"(2) [OF c 3] cur_bump_shorter [OF c]
      by (subst (asm) directive_operands.simps [of i ow cnt p]) (auto split: if_splits)
  next
    case 4
    then obtain ow1 p1 where o: "parse_operand ow p = Inr (ow1, p1)" and r: "directive_operands i ow1 (cnt + 1) p1 = Inr p'"
      using "1.prems" c by (subst (asm) directive_operands.simps) (auto elim!: sbindE)
    show ?thesis using "1.IH"(3) [OF c 4 o refl r] parse_operand_shorter [OF o] by simp
  qed
qed

lemma rest_of_line_shorter: "directive_rest_of_line i s p = Inr p' \<Longrightarrow> toks_left p' \<le> toks_left p"
proof (induction i s p rule: directive_rest_of_line.induct)
  case (1 i s p)
  obtain t where c: "cur p = Inr t" using 1(2) by (subst (asm) directive_rest_of_line.simps) (auto elim!: sbindE)
  then show ?case using 1(2) 1(1) [OF c] cur_bump_shorter [OF c]
    by (subst (asm) directive_rest_of_line.simps [of i s p]) (auto split: if_splits)
qed

lemma parse_org_rhs_shorter: "parse_org_rhs p = Inr p' \<Longrightarrow> toks_left p' \<le> toks_left p"
  by (auto simp: parse_org_rhs_def split: option.splits if_splits elim!: sbindE dest!: parse_expression_shorter)

lemma section_shorter: "parse_directive_section i p = Inr p' \<Longrightarrow> toks_left p' \<le> toks_left p"
  by (auto simp: parse_directive_section_def section_flags_def section_type_def Let_def
      split: if_splits elim!: sbindE)

lemma parse_directive_shorter: "parse_directive t p = Inr p' \<Longrightarrow> toks_left p' \<le> toks_left (bump p)"
  by (auto simp: parse_directive_def Let_def split: option.splits if_splits
      dest!: directive_operands_shorter rest_of_line_shorter section_shorter)

lemma inst_operands_shorter: "inst_operands i ow cnt p = Inr p' \<Longrightarrow> toks_left p' \<le> toks_left p"
proof (induction i ow cnt p rule: inst_operands.induct)
  case (1 i ow cnt p)
  obtain t where c: "cur p = Inr t" using 1(4) by (subst (asm) inst_operands.simps) (auto elim!: sbindE)
  consider "ends_statement (t_kind t)" | "\<not> ends_statement (t_kind t)" "t_kind t = TokComma"
    | "\<not> ends_statement (t_kind t)" "t_kind t \<noteq> TokComma" by blast
  then show ?case
  proof cases
    case 1
    then show ?thesis using "1.prems" c by (subst (asm) inst_operands.simps) auto
  next
    case 2
    have n: "cnt \<noteq> 0" using "1.prems" c 2 by (subst (asm) inst_operands.simps) auto
    show ?thesis
    proof (cases "at_shift_suffix i p")
      case True
      then obtain ow1 p1 where o: "shift_suffix ow p = Inr (ow1, p1)" and r: "inst_operands i ow1 cnt p1 = Inr p'"
        using "1.prems" c 2 n by (subst (asm) inst_operands.simps) (auto elim!: sbindE)
      show ?thesis using "1.IH"(1) [OF c 2 n True o refl r] shift_suffix_shorter [OF o c] by simp
    next
      case False
      then show ?thesis using "1.prems" c 2 n "1.IH"(2) [OF c 2 n False] cur_bump_shorter [OF c]
        by (subst (asm) inst_operands.simps [of i ow cnt p]) auto
    qed
  next
    case 3
    then obtain ow1 p1 where o: "parse_operand ow p = Inr (ow1, p1)" and r: "inst_operands i ow1 (cnt + 1) p1 = Inr p'"
      using "1.prems" c by (subst (asm) inst_operands.simps) (auto elim!: sbindE)
    show ?thesis using "1.IH"(3) [OF c 3 o refl r] parse_operand_shorter [OF o] by simp
  qed
qed

lemma movk_shorter: "parse_movk i p = Inr p' \<Longrightarrow> toks_left p' \<le> toks_left p"
  by (auto simp: parse_movk_def movk_shift_def Let_def split: if_splits option.splits elim!: sbindE
      dest!: parse_operand_shorter parse_expression_shorter) linarith+

lemma movl_shorter: "parse_movl p = Inr p' \<Longrightarrow> toks_left p' \<le> toks_left p"
  by (auto simp: parse_movl_def movl_const_def movl_symbolic_def Let_def split: if_splits option.splits list.splits
      elim!: sbindE dest!: parse_operand_shorter parse_expression_shorter) linarith+

lemma barrier_shorter: "parse_barrier i b p = Inr p' \<Longrightarrow> toks_left p' \<le> toks_left p"
  by (auto simp: parse_barrier_def split: if_splits option.splits elim!: sbindE)

lemma mrs_shorter: "parse_mrs i p = Inr p' \<Longrightarrow> toks_left p' \<le> toks_left p"
  by (auto simp: parse_mrs_def Let_def split: if_splits option.splits elim!: sbindE)

lemma msr_shorter: "parse_msr i p = Inr p' \<Longrightarrow> toks_left p' \<le> toks_left p"
  by (auto simp: parse_msr_def msr_source_def Let_def split: if_splits option.splits elim!: sbindE
      dest!: parse_operand_shorter) linarith+

lemma dc_tlbi_shorter: "parse_dc_tlbi i b p = Inr p' \<Longrightarrow> toks_left p' \<le> toks_left p"
  by (auto simp: parse_dc_tlbi_def Let_def split: if_splits option.splits elim!: sbindE)

lemma lit_pool_shorter: "try_parse_ldr_lit_pool i p = Inr (Some p') \<Longrightarrow> toks_left p' \<le> toks_left p"
  by (auto simp: try_parse_ldr_lit_pool_def split: if_splits option.splits prod.splits elim!: sbindE
      dest!: parse_expression_shorter)

lemmas inst_shorter = movk_shorter movl_shorter barrier_shorter mrs_shorter msr_shorter dc_tlbi_shorter
  lit_pool_shorter inst_operands_shorter

lemma parse_inst_shorter:
  assumes "parse_inst t p = Inr p'"
  shows "toks_left p' \<le> toks_left (bump p)"
proof -
  obtain i where "mnemonic_id_of (t_text t) = Some i" using assms by (auto simp: parse_inst_def split: option.splits)
  with assms show ?thesis
    unfolding parse_inst_def by (auto simp: Let_def split: if_split_asm option.splits elim!: sbindE dest!: inst_shorter)
qed

lemma statement_shorter:
  assumes "parse_inst_or_directive t p = Inr p'" and "cur p = Inr t"
  shows "toks_left p' < toks_left p"
proof -
  have "toks_left p' \<le> toks_left (bump p)"
    using assms(1) by (auto simp: parse_inst_or_directive_def split: list.splits if_splits
        dest: parse_inst_shorter parse_directive_shorter)
  then show ?thesis using cur_bump_shorter [OF assms(2)] by simp
qed

lemma skip_newlines_shorter: "skip_newlines n p = Inr (m, p') \<Longrightarrow> n \<le> m \<and> toks_left p' + m \<le> toks_left p + n"
proof (induction n p rule: skip_newlines.induct)
  case (1 n p)
  obtain t where c: "cur p = Inr t" using 1(2) by (subst (asm) skip_newlines.simps) (auto elim!: sbindE)
  then show ?case using 1(2) 1(1) [OF c] cur_bump_shorter [OF c]
    by (subst (asm) skip_newlines.simps [of n p]) (auto split: if_splits)
qed

text \<open>The loop of \<^verbatim>\<open>parseLine\<close> over the parts of a line; the flag is \<^verbatim>\<open>emittedStatement\<close>.\<close>

function line_loop :: "bool \<Rightarrow> parser \<Rightarrow> parser res" where
  "line_loop emitted p =
     sbind (cur p) (\<lambda>t.
     let k = t_kind t in
     if k = TokEOL then Inr (bump p)
     else if k = TokEOF then Inr p
     else if k = TokLineComment \<or> k = TokBlockComment then
       line_loop emitted (bump (emit_comment (if emitted then 1 else 0) (t_bytes t) p))
     else if k = TokInt then
       (if ahead_kind 1 p = Some TokColon \<and> 1 \<le> sint (t_int t) \<and> sint (t_int t) \<le> 99
        then line_loop True (bump (bump (emit_local_def (ucast (t_int t)) p)))
        else Inl (Error ''unexpected number at start of statement''))
     else if k = TokIdent then
       (if ahead_kind 1 p = Some TokColon
        then case intern_text (t_text t) p of (n, p') \<Rightarrow> line_loop True (bump (bump (emit_label_def n p')))
        else sbind (parse_inst_or_directive t p) (\<lambda>p'. line_loop True p'))
     else if k = TokDot then
       (if ahead_kind 1 p = Some TokEquals
        then sbind (parse_org_rhs (bump (bump p))) (\<lambda>p'. line_loop True p')
        else Inl (Error ''unexpected . at start of statement''))
     else Inl (Error ''unexpected token kind''))"
  by pat_completeness auto
termination
  by (relation "measure (\<lambda>(e, p). toks_left p)")
    (auto dest: cur_bump_shorter statement_shorter intern_text_toks [OF sym] dest!: parse_org_rhs_shorter simp: cur_iff)

declare line_loop.simps [simp del]

definition parse_source_line :: "parser \<Rightarrow> parser res" where
  "parse_source_line p =
     sbind (skip_newlines 0 p) (\<lambda>(blanks, p).
     let p = (if blanks > 0 then emit_blank_run blanks p else p) in
     sbind (cur p) (\<lambda>t. if t_kind t = TokEOF then Inr p else line_loop False p))"

text \<open>One turn of the loop: what it leaves is a shorter stream to loop on, or the result.\<close>

lemma line_loop_step:
  assumes "line_loop e p = Inr p'" and c: "cur p = Inr t"
  obtains "t_kind t = TokEOF" "p' = p" | "t_kind t = TokEOL" "p' = bump p"
  | e1 p1 where "line_loop e1 p1 = Inr p'" "toks_left p1 < toks_left p" "t_kind t \<noteq> TokEOF"
proof -
  note step = assms(1)[unfolded line_loop.simps [of e p] Let_def c sbind.simps]
  have b: "toks_left (bump p) < toks_left p" by (rule cur_bump_shorter [OF c])
  then have ne: "toks_left p \<noteq> 0" by auto
  consider "t_kind t = TokEOF" | "t_kind t = TokEOL" | "t_kind t \<in> {TokLineComment, TokBlockComment}" | "t_kind t = TokInt"
    | "t_kind t = TokIdent" "ahead_kind 1 p = Some TokColon" | "t_kind t = TokIdent" "ahead_kind 1 p \<noteq> Some TokColon"
    | "t_kind t = TokDot" | "t_kind t \<notin> {TokEOF, TokEOL, TokLineComment, TokBlockComment, TokInt, TokIdent, TokDot}"
    by blast
  then show thesis
  proof cases
    case 1
    then show ?thesis using step that(1) by simp
  next
    case 2
    then show ?thesis using step that(2) by simp
  next
    case 3
    then have "line_loop e (bump (emit_comment (if e then 1 else 0) (t_bytes t) p)) = Inr p'" using step by auto
    then show ?thesis using that(3) 3 ne by auto
  next
    case 4
    then have "line_loop True (bump (bump (emit_local_def (ucast (t_int t)) p))) = Inr p'"
      using step by (simp split: if_split_asm)
    then show ?thesis using that(3) 4 ne by simp
  next
    case 5
    obtain n p1 where i: "intern_text (t_text t) p = (n, p1)" by (cases "intern_text (t_text t) p")
    then have "line_loop True (bump (bump (emit_label_def n p1))) = Inr p'" using step 5 by simp
    then show ?thesis using that(3) intern_text_toks [OF i] ne 5 by simp
  next
    case 6
    then obtain p1 where "parse_inst_or_directive t p = Inr p1" "line_loop True p1 = Inr p'"
      using step by (auto elim!: sbindE)
    then show ?thesis using that(3) statement_shorter [OF _ c] 6 by simp
  next
    case 7
    then obtain p1 where "parse_org_rhs (bump (bump p)) = Inr p1" "line_loop True p1 = Inr p'"
      using step by (auto split: if_splits elim!: sbindE)
    then show ?thesis using that(3) parse_org_rhs_shorter [of "bump (bump p)" p1] b 7 by simp
  next
    case 8
    then show ?thesis using step by simp
  qed
qed

lemma line_loop_shorter: "line_loop e p = Inr p' \<Longrightarrow> toks_left p' \<le> toks_left p"
proof (induction "toks_left p" arbitrary: e p rule: less_induct)
  case less
  obtain t where c: "cur p = Inr t" using less.prems by (subst (asm) line_loop.simps) (auto elim!: sbindE)
  from less.prems c show ?case
    by (rule line_loop_step) (use less.hyps cur_bump_shorter [OF c] in \<open>fastforce+\<close>)
qed

lemma line_loop_progress:
  assumes "line_loop e p = Inr p'" and "cur p = Inr t" and "t_kind t \<noteq> TokEOF"
  shows "toks_left p' < toks_left p"
  using assms(1,2)
  by (rule line_loop_step) (use assms(3) line_loop_shorter cur_bump_shorter [OF assms(2)] in \<open>fastforce+\<close>)

lemma parse_source_line_progress:
  assumes "parse_source_line p = Inr p'" and c: "cur p = Inr t" and "t_kind t \<noteq> TokEOF"
  shows "toks_left p' < toks_left p"
proof -
  obtain n p1 where s: "skip_newlines 0 p = Inr (n, p1)" using assms(1) by (auto simp: parse_source_line_def elim!: sbindE)
  let ?p = "if n > 0 then emit_blank_run n p1 else p1"
  have le: "toks_left p1 + n \<le> toks_left p" using skip_newlines_shorter [OF s] by simp
  have t: "toks_left ?p = toks_left p1" by simp
  obtain u where u: "cur ?p = Inr u" and r: "(if t_kind u = TokEOF then Inr ?p else line_loop False ?p) = Inr p'"
    using assms(1) s by (auto simp: parse_source_line_def Let_def elim!: sbindE)
  show ?thesis
  proof (cases "n = 0")
    case True
    have "p1 = p" using s c True skip_newlines_shorter [of "Suc 0" "bump p"]
      by (subst (asm) skip_newlines.simps) (auto split: if_splits)
    then show ?thesis using r u True c assms(3) line_loop_progress [of False p p' t] by (auto split: if_splits)
  next
    case False
    then show ?thesis using r le t line_loop_shorter [of False ?p p'] by (auto split: if_splits)
  qed
qed

function parse_loop :: "parser \<Rightarrow> parser res" where
  "parse_loop p = sbind (cur p) (\<lambda>t. if t_kind t = TokEOF then Inr p else sbind (parse_source_line p) (\<lambda>p'. parse_loop p'))"
  by pat_completeness auto
termination
  by (relation "measure toks_left") (auto dest: parse_source_line_progress)

declare parse_loop.simps [simp del]

definition parse_tokens :: "tok list \<Rightarrow> (tbn_record list \<times> symbol_table) res" where
  "parse_tokens toks =
     sbind (parse_loop \<lparr>p_toks = toks, p_st = new_symbol_table, p_recs = []\<rparr>) (\<lambda>p. Inr (p_recs p, p_st p))"

end
