(* ===== verification/Fe_Flatten.thy ===== *)
theory Fe_Flatten
  imports Asm_Pass1 "HOL-Library.AList"
begin

text \<open>
  The flatten pass of \<^verbatim>\<open>tools/sam-aarch64/frontend/flatten.go\<close>, which lays the sections of the record
  stream out like the linker script and rewrites it into one stream, and the validation of a layout
  table of \<^verbatim>\<open>layout.go\<close>.  A Go \<^verbatim>\<open>string\<close> of the symbol table is its bytes.
\<close>

section \<open>Layout tables\<close>

record section_layout =
  sl_name :: bytes
  sl_start_align :: i64
  sl_trailing_align :: i64

definition name_bytes :: "string \<Rightarrow> bytes" where
  "name_bytes s = map of_char s"

definition mk_layout :: "string \<Rightarrow> i64 \<Rightarrow> i64 \<Rightarrow> section_layout" where
  "mk_layout n a t = \<lparr>sl_name = name_bytes n, sl_start_align = a, sl_trailing_align = t\<rparr>"

definition SpectrumFourLayout :: "section_layout list" where
  "SpectrumFourLayout = [
     mk_layout ''.text'' 0x10 0, mk_layout ''.data'' 0x10 0, mk_layout ''bss_roms'' 0x1000 0x10,
     mk_layout ''bss_kernel'' 0x10 0, mk_layout ''bss_userheap'' 0x10 0, mk_layout ''bss_coherent'' 0x200000 0,
     mk_layout ''text_tests'' 0x1000 0x10, mk_layout ''bss_tests'' 0x10 0]"

text \<open>The checks of \<^verbatim>\<open>ParseLayout\<close> on the decoded table.\<close>

definition check_layout :: "section_layout list \<Rightarrow> section_layout list res" where
  "check_layout layout =
     (if layout = [] then Inl (Error ''no sections'')
      else if \<exists>s\<in>set layout. sl_name s = [] then Inl (Error ''section has an empty name'')
      else Inr layout)"

definition layout_index :: "section_layout list \<Rightarrow> bytes \<Rightarrow> nat option" where
  "layout_index layout name = find (\<lambda>i. sl_name (layout ! i) = name) [0..<length layout]"

section \<open>Buckets\<close>

text \<open>
  The records of each section, in source order, by name.  The three
  section directives switch the current bucket and are consumed.
\<close>

type_synonym buckets = "(bytes \<times> tbn_record list) list"

definition bucket :: "buckets \<Rightarrow> bytes \<Rightarrow> tbn_record list" where
  "bucket b name = (case map_of b name of None \<Rightarrow> [] | Some rs \<Rightarrow> rs)"

definition section_name :: "tbn_record \<Rightarrow> bytes res" where
  "section_name rec =
     sbind (operand_next (operands rec)) (\<lambda>(o', _).
       if o_kind o' \<noteq> OpSysName then Inl (Error ''flatten: .section first operand is not OpSysName'')
       else Inr (o_str o'))"

definition directive_id0 :: "string \<Rightarrow> u8" where
  "directive_id0 name = (case directive_id_of name of None \<Rightarrow> 0 | Some n \<Rightarrow> n)"

fun fill_buckets :: "tbn_record list \<Rightarrow> bytes \<Rightarrow> buckets \<Rightarrow> buckets res" where
  "fill_buckets [] current b = Inr b"
| "fill_buckets (rec # recs) current b =
     (if r_kind rec = KindDirective \<and> directive_id rec = directive_id0 ''.text''
      then fill_buckets recs (name_bytes ''.text'') b
      else if r_kind rec = KindDirective \<and> directive_id rec = directive_id0 ''.data''
      then fill_buckets recs (name_bytes ''.data'') b
      else if r_kind rec = KindDirective \<and> directive_id rec = directive_id0 ''.section''
      then sbind (section_name rec) (\<lambda>name. fill_buckets recs name b)
      else fill_buckets recs current (AList.update current (bucket b current @ [rec]) b))"

section \<open>Sizing\<close>

definition align_up :: "i64 \<Rightarrow> i64 \<Rightarrow> i64" where
  "align_up v align =
     (if sint align \<le> 1 then v
      else let r = v mod align in if r = 0 then v else v + (align - r))"

definition local_ctx :: "i64 \<Rightarrow> (bytes \<rightharpoonup> i64) \<Rightarrow> bytes list \<Rightarrow> eval_context" where
  "local_ctx pc syms ns =
     \<lparr>ctx_pc = pc,
      ctx_symbol = Some (\<lambda>n. Inr (if unat n \<ge> length ns then None else syms (ns ! unat n))),
      ctx_local = None\<rparr>"

definition eval_local_expr :: "bytes \<Rightarrow> i64 \<Rightarrow> (bytes \<rightharpoonup> i64) \<Rightarrow> bytes list \<Rightarrow> i64 res" where
  "eval_local_expr e pc syms ns = eval e (local_ctx pc syms ns)"

definition extract_sym_id_from_expr :: "bytes \<Rightarrow> u16 option" where
  "extract_sym_id_from_expr e =
     (case e of
        [op, lo, hi] \<Rightarrow> if op = OpPushSym then Some (ucast lo OR push_bit 8 (ucast hi)) else None
      | _ \<Rightarrow> None)"

definition capture_equ :: "tbn_record \<Rightarrow> (bytes \<rightharpoonup> i64) \<Rightarrow> bytes list \<Rightarrow> (bytes \<rightharpoonup> i64) res" where
  "capture_equ rec syms ns =
     sbind (operand_next (operands rec)) (\<lambda>(name_op, rest).
     case extract_sym_id_from_expr (o_expr name_op) of
       None \<Rightarrow> Inl (Error ''first operand of .equ must be a symbol reference'')
     | Some n \<Rightarrow>
         if unat n \<ge> length ns then Inl (Error ''symbol id out of range'')
         else sbind (operand_next rest) (\<lambda>(val_op, _).
         sbind (eval_local_expr (o_expr val_op) 0 syms ns) (\<lambda>v.
           Inr (syms(ns ! unat n \<mapsto> v)))))"

definition is_equ :: "tbn_record \<Rightarrow> bool" where
  "is_equ rec \<longleftrightarrow> directive_name (directive_id rec) \<in> set [''.equ'', ''.set'']"

text \<open>Go's remainder is signed and panics on zero.\<close>

definition flatten_pad :: "i64 \<Rightarrow> i64 \<Rightarrow> i64 res" where
  "flatten_pad align pc = (if align = 0 then Inl Panic else Inr (gmod (align - gmod pc align) align))"

definition directive_size_for_flatten :: "tbn_record \<Rightarrow> i64 \<Rightarrow> (bytes \<rightharpoonup> i64) \<Rightarrow> bytes list \<Rightarrow> i64 res" where
  "directive_size_for_flatten rec pc syms ns =
     (let name = directive_name (directive_id rec); n = ucast (operand_count rec) :: i64;
          arg = sbind (first_operand (operands rec)) (\<lambda>o'. eval_local_expr (o_expr o') pc syms ns) in
      if name = ''.byte'' then Inr n
      else if name = ''.short'' \<or> name = ''.hword'' then Inr (n * 2)
      else if name = ''.word'' then Inr (n * 4)
      else if name = ''.quad'' then Inr (n * 8)
      else if name = ''.ascii'' \<or> name = ''.asciz''
      then sbind (operand_next (operands rec)) (\<lambda>(o', _).
             Inr (of_nat (length (o_str o')) + (if name = ''.asciz'' then 1 else 0)))
      else if name = ''.skip'' \<or> name = ''.space'' then arg
      else if name = ''.inst'' then Inr 4
      else if name \<in> set [''.text'', ''.data'', ''.global'', ''.equ'', ''.set'', ''.section'', ''.arch'', ''.cpu'', ''.ltorg'']
      then Inr 0
      else if name = ''.balign'' then sbind arg (\<lambda>a. if sint a \<le> 1 then Inr 0 else flatten_pad a pc)
      else if name = ''.align'' then sbind arg (\<lambda>a. if sint a \<le> 0 then Inr 0 else flatten_pad (push_bit (unat a) 1) pc)
      else if name = ''.org'' then sbind arg (\<lambda>v.
        if sint v < sint pc then Inl (Error ''.org: target below current'') else Inr (v - pc))
      else Inl (Error ''unknown directive in flatten sizer''))"

text \<open>The padding and bytes of a pool flush: fours first, then eights.\<close>

definition pad_signed :: "i64 \<Rightarrow> i64 \<Rightarrow> i64" where
  "pad_signed n pc = (if gmod pc n \<noteq> 0 then pc + (n - gmod pc n) else pc)"

definition flush_pool_size :: "i64 \<Rightarrow> u8 list \<Rightarrow> i64" where
  "flush_pool_size pc widths =
     (let fs = length (filter (\<lambda>w. w = 4) widths); es = length (filter (\<lambda>w. w \<noteq> 4) widths);
          p1 = (if fs > 0 then pad_signed 4 pc else pc) + of_nat fs * 4;
          p2 = (if es > 0 then pad_signed 8 p1 else p1)
      in p2 + of_nat es * 8)"

text \<open>Reading stops without a result at an operand that is an error.\<close>

function find_lit_pool_operand :: "bytes \<Rightarrow> operand option res" where
  "find_lit_pool_operand buf =
     (if buf = [] then Inr None
      else case operand_next buf of
        Inl Panic \<Rightarrow> Inl Panic
      | Inl (Error _) \<Rightarrow> Inr None
      | Inr (o', rest) \<Rightarrow> if o_kind o' = OpLitPool then Inr (Some o') else find_lit_pool_operand rest)"
  by pat_completeness auto
termination
  by (relation "measure length") (auto dest: operand_next_shorter)

declare find_lit_pool_operand.simps [simp del]

definition lit_pool_operand_from_rec :: "tbn_record \<Rightarrow> operand option res" where
  "lit_pool_operand_from_rec rec = find_lit_pool_operand (operands rec)"

text \<open>The state of \<^verbatim>\<open>sectionSize\<close>: the symbols, the PC and the literals pending, in order.\<close>

record sizer =
  sz_symbols :: "bytes \<rightharpoonup> i64"
  sz_pc :: i64
  sz_pending :: "(u8 \<times> bytes) list"

definition size_inst :: "tbn_record \<Rightarrow> sizer \<Rightarrow> sizer res" where
  "size_inst rec s =
     sbind (if r_mnemonic rec = mnem ''ldr'' then lit_pool_operand_from_rec rec else Inr None) (\<lambda>lit.
       let s1 = (case lit of
                   None \<Rightarrow> s
                 | Some o' \<Rightarrow>
                     let key = (o_width o', o_expr o') in
                     if key \<in> set (sz_pending s) then s else s\<lparr>sz_pending := sz_pending s @ [key]\<rparr>)
       in Inr (s1\<lparr>sz_pc := sz_pc s1 + 4\<rparr>))"

definition size_directive :: "tbn_record \<Rightarrow> bytes list \<Rightarrow> sizer \<Rightarrow> sizer res" where
  "size_directive rec ns s =
     sbind (directive_size_for_flatten rec (sz_pc s) (sz_symbols s) ns) (\<lambda>n.
     sbind (if is_equ rec then capture_equ rec (sz_symbols s) ns else Inr (sz_symbols s)) (\<lambda>syms.
       let s1 = s\<lparr>sz_symbols := syms\<rparr> in
       Inr (if directive_name (directive_id rec) = ''.ltorg''
            then s1\<lparr>sz_pc := flush_pool_size (sz_pc s1) (map fst (sz_pending s1)), sz_pending := []\<rparr>
            else s1\<lparr>sz_pc := sz_pc s1 + n\<rparr>)))"

definition size_record :: "tbn_record \<Rightarrow> bytes list \<Rightarrow> sizer \<Rightarrow> sizer res" where
  "size_record rec ns s =
     (if r_kind rec = KindInst then size_inst rec s
      else if r_kind rec = KindDirective then size_directive rec ns s
      else Inr s)"

fun size_records :: "tbn_record list \<Rightarrow> bytes list \<Rightarrow> sizer \<Rightarrow> sizer res" where
  "size_records [] ns s = Inr s"
| "size_records (rec # recs) ns s = sbind (size_record rec ns s) (size_records recs ns)"

definition section_size :: "tbn_record list \<Rightarrow> bool \<Rightarrow> bytes list \<Rightarrow> (bytes \<rightharpoonup> i64) \<Rightarrow> i64 res" where
  "section_size recs is_code ns globals =
     sbind (size_records recs ns \<lparr>sz_symbols = globals, sz_pc = 0, sz_pending = []\<rparr>) (\<lambda>s.
       Inr (if is_code then flush_pool_size (sz_pc s) (map fst (sz_pending s)) else sz_pc s))"

text \<open>The labels of a section with their offsets; literal pools are not counted.\<close>

fun section_labels :: "tbn_record list \<Rightarrow> bytes list \<Rightarrow> (bytes \<rightharpoonup> i64) \<Rightarrow> i64 \<Rightarrow> (u16 \<times> i64) list res" where
  "section_labels [] ns syms pc = Inr []"
| "section_labels (rec # recs) ns syms pc =
     (if r_kind rec = KindLabelDef
      then sbind (section_labels recs ns syms pc) (\<lambda>ls. Inr ((symbol_id rec, pc) # ls))
      else if r_kind rec = KindInst then section_labels recs ns syms (pc + 4)
      else if r_kind rec = KindDirective
      then sbind (directive_size_for_flatten rec pc syms ns) (\<lambda>n.
           sbind (if is_equ rec then capture_equ rec syms ns else Inr syms) (\<lambda>syms.
             section_labels recs ns syms (pc + n)))
      else section_labels recs ns syms pc)"

text \<open>The alignment a record asks for; an operand or expression that fails is passed over.\<close>

definition record_align :: "tbn_record \<Rightarrow> i64 option res" where
  "record_align rec =
     (let name = directive_name (directive_id rec) in
      if r_kind rec \<noteq> KindDirective \<or> name \<noteq> ''.align'' \<and> name \<noteq> ''.balign'' then Inr None
      else case sbind (operand_next (operands rec)) (\<lambda>(o', _).
                  eval (o_expr o') \<lparr>ctx_pc = 0, ctx_symbol = None, ctx_local = None\<rparr>) of
        Inl Panic \<Rightarrow> Inl Panic
      | Inl (Error _) \<Rightarrow> Inr None
      | Inr v \<Rightarrow>
          if name = ''.align''
          then Inr (if sint v \<le> 0 \<or> sint v > 30 then None else Some (push_bit (unat v) 1))
          else Inr (Some v))"

fun section_required_align :: "tbn_record list \<Rightarrow> i64 \<Rightarrow> i64 res" where
  "section_required_align [] m = Inr m"
| "section_required_align (rec # recs) m =
     sbind (record_align rec) (\<lambda>a.
       section_required_align recs (case a of None \<Rightarrow> m | Some a \<Rightarrow> if sint a > sint m then a else m))"

section \<open>The pass\<close>

record sec =
  sec_layout :: section_layout
  sec_records :: "tbn_record list"
  sec_start :: i64
  sec_size :: i64

definition new_sections :: "section_layout list \<Rightarrow> buckets \<Rightarrow> sec list" where
  "new_sections layout b =
     map (\<lambda>l. \<lparr>sec_layout = l, sec_records = bucket b (sl_name l), sec_start = 0, sec_size = 0\<rparr>) layout"

text \<open>The constants of all sections, in layout order.\<close>

fun collect_equs :: "tbn_record list \<Rightarrow> bytes list \<Rightarrow> (bytes \<rightharpoonup> i64) \<Rightarrow> (bytes \<rightharpoonup> i64) res" where
  "collect_equs [] ns syms = Inr syms"
| "collect_equs (rec # recs) ns syms =
     (if r_kind rec = KindDirective \<and> is_equ rec
      then sbind (capture_equ rec syms ns) (collect_equs recs ns)
      else collect_equs recs ns syms)"

definition global_symbols :: "sec list \<Rightarrow> bytes list \<Rightarrow> (bytes \<rightharpoonup> i64) res" where
  "global_symbols ss ns = collect_equs (concat (map sec_records ss)) ns Map.empty"

fun size_sections :: "bool \<Rightarrow> sec list \<Rightarrow> bytes list \<Rightarrow> (bytes \<rightharpoonup> i64) \<Rightarrow> sec list res" where
  "size_sections is_code [] ns globals = Inr []"
| "size_sections is_code (s # ss) ns globals =
     sbind (section_size (sec_records s) is_code ns globals) (\<lambda>n.
     sbind (size_sections False ss ns globals) (\<lambda>ss'.
       let t = sl_trailing_align (sec_layout s) in
       Inr (s\<lparr>sec_size := (if sint t > 0 then align_up n t else n)\<rparr> # ss')))"

definition start_align :: "sec \<Rightarrow> i64 res" where
  "start_align s =
     sbind (section_required_align (sec_records s) 1) (\<lambda>a.
       let sa = sl_start_align (sec_layout s) in Inr (if sint a > sint sa then a else sa))"

fun place_sections :: "i64 \<Rightarrow> sec list \<Rightarrow> sec list res" where
  "place_sections pc [] = Inr []"
| "place_sections pc (s # ss) =
     sbind (start_align s) (\<lambda>a.
       let start = align_up pc a in
       sbind (place_sections (start + sec_size s) ss) (\<lambda>ss'. Inr (s\<lparr>sec_start := start\<rparr> # ss')))"

definition directive_record :: "u8 \<Rightarrow> u8 \<Rightarrow> bytes \<Rightarrow> tbn_record" where
  "directive_record d n ops = (record0 KindDirective [])\<lparr>directive_id := d, operand_count := n, operands := ops\<rparr>"

definition equ_record :: "u8 \<Rightarrow> u16 \<Rightarrow> i64 \<Rightarrow> tbn_record" where
  "equ_record d n vma =
     directive_record d 2 (write_imm_expr (write_imm_expr [] (write_sym [] n)) (write_imm [] vma))"

text \<open>The constants for the labels of the address-only sections.\<close>

fun label_equs :: "sec list \<Rightarrow> bytes list \<Rightarrow> (bytes \<rightharpoonup> i64) \<Rightarrow> tbn_record list res" where
  "label_equs [] ns globals = Inr []"
| "label_equs (s # ss) ns globals =
     sbind (section_labels (sec_records s) ns globals 0) (\<lambda>ls.
     sbind (label_equs ss ns globals) (\<lambda>rs.
       Inr (map (\<lambda>(n, off). equ_record (directive_id0 ''.equ'') n (sec_start s + off)) ls @ rs)))"

text \<open>The code section first, then the data section when it has records; a table of one section panics.\<close>

definition flat_stream :: "i64 \<Rightarrow> sec list \<Rightarrow> tbn_record list \<Rightarrow> tbn_record list res" where
  "flat_stream origin ss equs =
     (case ss of
        code # data # _ \<Rightarrow>
          Inr (directive_record (directive_id0 ''.org'') 1 (write_imm_expr [] (write_imm [] origin)) # sec_records code
            @ [directive_record (directive_id0 ''.ltorg'') 0 []]
            @ (if sec_records data = [] then []
               else directive_record (directive_id0 ''.balign'') 1 (write_imm_expr [] (write_imm [] 0x10)) # sec_records data)
            @ equs)
      | _ \<Rightarrow> Inl Panic)"

definition place_layout :: "tbn_record list \<Rightarrow> bytes list \<Rightarrow> i64 \<Rightarrow> section_layout list \<Rightarrow> ((bytes \<rightharpoonup> i64) \<times> sec list) res" where
  "place_layout recs ns origin layout =
     (if layout = [] then Inl (Error ''flatten: layout has no sections'')
      else sbind (fill_buckets recs (name_bytes ''.text'') []) (\<lambda>b.
      if \<exists>p\<in>set b. layout_index layout (fst p) = None then Inl (Error ''flatten: section not in the layout'')
      else let ss = new_sections layout b in
        sbind (global_symbols ss ns) (\<lambda>globals.
        sbind (size_sections True ss ns globals) (\<lambda>sized.
        sbind (place_sections origin sized) (\<lambda>placed. Inr (globals, placed))))))"

definition flatten :: "tbn_record list \<Rightarrow> bytes list \<Rightarrow> i64 \<Rightarrow> section_layout list option \<Rightarrow> tbn_record list res" where
  "flatten recs ns origin layout =
     sbind (place_layout recs ns origin (case layout of None \<Rightarrow> SpectrumFourLayout | Some l \<Rightarrow> l)) (\<lambda>(globals, ss).
       case ss of
         _ # _ # rest \<Rightarrow> sbind (label_equs rest ns globals) (\<lambda>equs. flat_stream origin ss equs)
       | _ \<Rightarrow> Inl Panic)"

end
