(* ===== verification/Fe_Translate.thy ===== *)
theory Fe_Translate
  imports Fe_Preproc Fe_Parser Fe_Flatten
begin

text \<open>
  The entry points of the front end, \<^verbatim>\<open>tools/sam-aarch64/frontend/translate.go\<close>: preprocess, lex,
  parse, and optionally flatten, into the file the assembler reads.
\<close>

definition parse_source :: "nat \<Rightarrow> pp_env \<Rightarrow> string \<Rightarrow> string \<Rightarrow> (tbn_record list \<times> symbol_table) run" where
  "parse_source k env src path =
     rbind (preprocess k env src path) (\<lambda>pre. Some (sbind (lex pre path) parse_tokens))"

definition symbolic_file :: "bytes list \<Rightarrow> tbn_record list \<Rightarrow> tbn_file" where
  "symbolic_file ns recs =
     \<lparr>f_version = file_version, f_flags = FlagTaggedSidecar, f_names = ns, f_labels = [], f_locals = [],
      f_globals = [], f_sidecar = [], f_comments = [], f_records = recs\<rparr>"

definition translate_with_options :: "nat \<Rightarrow> pp_env \<Rightarrow> string \<Rightarrow> string \<Rightarrow> tbn_file run" where
  "translate_with_options k env src path =
     rbind (parse_source k env src path) (\<lambda>(recs, st). Some (Inr (symbolic_file (st_names st) recs)))"

text \<open>\<^verbatim>\<open>Translate\<close> passes no include directories.\<close>

definition translate :: "nat \<Rightarrow> pp_env \<Rightarrow> string \<Rightarrow> string \<Rightarrow> tbn_file run" where
  "translate k env src path = translate_with_options k (env\<lparr>env_incdirs := []\<rparr>) src path"

definition translate_and_flatten ::
  "nat \<Rightarrow> pp_env \<Rightarrow> string \<Rightarrow> string \<Rightarrow> i64 \<Rightarrow> section_layout list option \<Rightarrow> tbn_file run" where
  "translate_and_flatten k env src path origin layout =
     rbind (parse_source k env src path) (\<lambda>(recs, st).
       Some (sbind (flatten recs (st_names st) origin layout) (\<lambda>flat. Inr (symbolic_file (st_names st) flat))))"

end
