(* ===== verification/Fe_Strip.thy ===== *)
theory Fe_Strip
  imports Asm_Pass2
begin

text \<open>
  The record filters of \<^verbatim>\<open>tools/sam-aarch64/frontend/strip.go\<close>, and the proof that comments do not
  take part in assembly: however many of them a filter keeps, the passes give the same bytes.
\<close>

section \<open>The filters\<close>

definition strip_comment_records :: "tbn_record list \<Rightarrow> tbn_record list" where
  "strip_comment_records recs = filter (\<lambda>r. r_kind r \<noteq> KindComment) recs"

text \<open>The loop of \<^verbatim>\<open>ThinComments\<close>; \<open>ci\<close> counts the comments seen.\<close>

fun thin_loop :: "int \<Rightarrow> int \<Rightarrow> tbn_record list \<Rightarrow> tbn_record list" where
  "thin_loop n ci [] = []"
| "thin_loop n ci (r # rs) =
     (if r_kind r = KindComment
      then (if ci mod n = 0 then r # thin_loop n (ci + 1) rs else thin_loop n (ci + 1) rs)
      else r # thin_loop n ci rs)"

definition thin_comments :: "tbn_record list \<Rightarrow> int \<Rightarrow> tbn_record list" where
  "thin_comments recs n = (if n \<le> 1 then recs else thin_loop n 0 recs)"

definition data_directive_set :: "string list" where
  "data_directive_set = [''.byte'', ''.short'', ''.hword'', ''.word'', ''.quad'', ''.ascii'', ''.asciz'',
     ''.skip'', ''.space'', ''.ltorg'']"

text \<open>Reading stops at an operand that is an error; an operand cut short panics.\<close>

function has_lit_pool_operand :: "bytes \<Rightarrow> bool res" where
  "has_lit_pool_operand buf =
     (if buf = [] then Inr False
      else case operand_next buf of
        Inl Panic \<Rightarrow> Inl Panic
      | Inl (Error _) \<Rightarrow> Inr False
      | Inr (o', rest) \<Rightarrow> if o_kind o' = OpLitPool then Inr True else has_lit_pool_operand rest)"
  by pat_completeness auto
termination
  by (relation "measure length") (auto dest: operand_next_shorter)

declare has_lit_pool_operand.simps [simp del]

definition inst_has_lit_pool_operand :: "tbn_record \<Rightarrow> bool res" where
  "inst_has_lit_pool_operand r = has_lit_pool_operand (operands r)"

definition is_data_record :: "tbn_record \<Rightarrow> bool res" where
  "is_data_record r =
     (if r_kind r = KindDirective then Inr (directive_name (directive_id r) \<in> set data_directive_set)
      else if r_kind r = KindInst then inst_has_lit_pool_operand r
      else Inr False)"

fun strip_data_records :: "tbn_record list \<Rightarrow> tbn_record list res" where
  "strip_data_records [] = Inr []"
| "strip_data_records (r # rs) =
     sbind (is_data_record r) (\<lambda>d. sbind (strip_data_records rs) (\<lambda>out. Inr (if d then out else r # out)))"

section \<open>Filters that drop comments only\<close>

lemma thin_loop_non_comments: "strip_comment_records (thin_loop n ci recs) = strip_comment_records recs"
  by (induction n ci recs rule: thin_loop.induct) (simp_all add: strip_comment_records_def)

lemma strip_idem: "strip_comment_records (strip_comment_records recs) = strip_comment_records recs"
  by (simp add: strip_comment_records_def)

lemma thin_non_comments: "strip_comment_records (thin_comments recs n) = strip_comment_records recs"
  by (simp add: thin_comments_def thin_loop_non_comments)

section \<open>What assembly reads of pass 1\<close>

text \<open>
  Pass 2 reads every field of the result of pass 1 but the PCs of the records, which the sidecar
  uses; \<open>rpc\<close> replaces them.
\<close>

definition rpc :: "i64 list \<Rightarrow> pass1_result \<Rightarrow> pass1_result" where
  "rpc pcs p1 = p1\<lparr>p1_record_pc := pcs\<rparr>"

lemma rpc_fields [simp]:
  "p1_symbols (rpc l p1) = p1_symbols p1" "p1_local_defs (rpc l p1) = p1_local_defs p1"
  "p1_label_defs (rpc l p1) = p1_label_defs p1" "p1_total_size (rpc l p1) = p1_total_size p1"
  "p1_origin (rpc l p1) = p1_origin p1" "p1_pool (rpc l p1) = p1_pool p1" "p1_ldr_idx (rpc l p1) = p1_ldr_idx p1"
  "p1_flush_at (rpc l p1) = p1_flush_at p1" "p1_flush_entries (rpc l p1) = p1_flush_entries p1"
  "p1_inst_pc (rpc l p1) = p1_inst_pc p1" "p1_record_pc (rpc l p1) = l"
  by (simp_all add: rpc_def)

lemma make_ctx_rpc [simp]: "make_ctx pc (rpc l p1) ns = make_ctx pc p1 ns"
  by (simp add: make_ctx_def)

lemma eval_at_rpc [simp]: "eval_at e pc (rpc l p1) ns = eval_at e pc p1 ns"
  by (simp add: eval_at_def)

named_theorems rpc_same \<open>the assembler's functions do not read the PCs of the records\<close>

declare make_ctx_rpc [rpc_same] eval_at_rpc [rpc_same] rpc_fields [rpc_same]

lemma try_encode_mov_imm_rpc [rpc_same]: "try_encode_mov_imm ops pc (rpc l p1) ns = try_encode_mov_imm ops pc p1 ns"
  by (simp only: try_encode_mov_imm_def rpc_same)

lemma encode_ldr_lit_direct_rpc [rpc_same]: "encode_ldr_lit_direct ops pc (rpc l p1) ns = encode_ldr_lit_direct ops pc p1 ns"
  by (simp only: encode_ldr_lit_direct_def rpc_same)

lemma encode_ldr_lit_pool_rpc [rpc_same]: "encode_ldr_lit_pool ops pc (rpc l p1) = encode_ldr_lit_pool ops pc p1"
  by (simp only: encode_ldr_lit_pool_def rpc_same)

lemma encode_tbz_rpc [rpc_same]: "encode_tbz m ops pc (rpc l p1) ns = encode_tbz m ops pc p1 ns"
  by (simp only: encode_tbz_def rpc_same)

lemma pair_mode_rpc [rpc_same]: "pair_mode o' pc (rpc l p1) ns = pair_mode o' pc p1 ns"
  by (simp only: pair_mode_def rpc_same)

lemma encode_pair_rpc [rpc_same]: "encode_pair m ops pc (rpc l p1) ns = encode_pair m ops pc p1 ns"
  by (simp only: encode_pair_def rpc_same)

lemma encode_unscaled_mem_rpc [rpc_same]: "encode_unscaled_mem m rt r mem pc (rpc l p1) ns = encode_unscaled_mem m rt r mem pc p1 ns"
  by (simp only: encode_unscaled_mem_def rpc_same)

lemma encode_mem_offset_rpc [rpc_same]: "encode_mem_offset m rt mem sz sc opc off pc (rpc l p1) ns = encode_mem_offset m rt mem sz sc opc off pc p1 ns"
  by (simp only: encode_mem_offset_def rpc_same)

lemma encode_mem_indexed_rpc [rpc_same]:
  "encode_mem_indexed md rt mem sz opc pc (rpc l p1) ns = encode_mem_indexed md rt mem sz opc pc p1 ns"
  by (simp only: encode_mem_indexed_def rpc_same)

lemma encode_mem_inst_rpc [rpc_same]: "encode_mem_inst m ops pc (rpc l p1) ns = encode_mem_inst m ops pc p1 ns"
  by (simp only: encode_mem_inst_def rpc_same)

lemma encode_shifted_reg_rpc [rpc_same]: "encode_shifted_reg m ops pc (rpc l p1) ns = encode_shifted_reg m ops pc p1 ns"
  by (simp only: encode_shifted_reg_def rpc_same)

lemma encode_extended_reg_rpc [rpc_same]: "encode_extended_reg m ops pc (rpc l p1) ns = encode_extended_reg m ops pc p1 ns"
  by (simp only: encode_extended_reg_def rpc_same)

lemma encode_lsl_lsr_rpc [rpc_same]: "encode_lsl_lsr m ops pc (rpc l p1) ns = encode_lsl_lsr m ops pc p1 ns"
  by (simp only: encode_lsl_lsr_def rpc_same)

lemma encode_bitfield_rpc [rpc_same]: "encode_bitfield m ops pc (rpc l p1) ns = encode_bitfield m ops pc p1 ns"
  by (simp only: encode_bitfield_def rpc_same)

lemma encode_bic_imm_rpc [rpc_same]: "encode_bic_imm ops pc (rpc l p1) ns = encode_bic_imm ops pc p1 ns"
  by (simp only: encode_bic_imm_def rpc_same)

lemma encode_ror_imm_rpc [rpc_same]: "encode_ror_imm ops pc (rpc l p1) ns = encode_ror_imm ops pc p1 ns"
  by (simp only: encode_ror_imm_def rpc_same)

lemma encode_barrier_rpc [rpc_same]: "encode_barrier m ops pc (rpc l p1) ns = encode_barrier m ops pc p1 ns"
  by (simp only: encode_barrier_def rpc_same)

lemma encode_msr_rpc [rpc_same]: "encode_msr ops pc (rpc l p1) ns = encode_msr ops pc p1 ns"
  by (simp only: encode_msr_def rpc_same)

lemma operands_to_values_rpc [rpc_same]:
  "operands_to_values ops i pc (rpc l p1) ns f = operands_to_values ops i pc p1 ns f"
  by (induction ops arbitrary: i) (simp_all add: rpc_same cong: sbind_cong if_cong)

lemma encode_form_rpc [rpc_same]: "encode_form m ops pc (rpc l p1) ns = encode_form m ops pc p1 ns"
  by (simp only: encode_form_def rpc_same)

lemma encode_special_rpc [rpc_same]: "encode_special m ops pc (rpc l p1) ns = encode_special m ops pc p1 ns"
  by (simp only: encode_special_def rpc_same)

lemma encode_operands_rpc [rpc_same]: "encode_operands m ops pc (rpc l p1) ns = encode_operands m ops pc p1 ns"
  by (simp only: encode_operands_def rpc_same)

lemma encode_inst_rpc [rpc_same]: "encode_inst r pc (rpc l p1) ns = encode_inst r pc p1 ns"
  by (simp only: encode_inst_def rpc_same)

lemma encode_directive_rpc [rpc_same]: "encode_directive r pc (rpc l p1) ns = encode_directive r pc p1 ns"
  by (simp only: encode_directive_def rpc_same)

lemma emit_entries_rpc [rpc_same]: "emit_entries w is (rpc l p1) ns s = emit_entries w is p1 ns s"
  by (induction w "is" p1 ns s rule: emit_entries.induct) (simp_all add: Let_def rpc_same cong: sbind_cong)

lemma emit_flush_rpc [rpc_same]: "emit_flush (rpc l p1) ns s = emit_flush p1 ns s"
  by (simp only: emit_flush_def rpc_same)

lemma patch_value_rpc [rpc_same]: "patch_value p pc (rpc l p1) ns = patch_value p pc p1 ns"
  by (simp only: patch_value_def rpc_same)

lemma fold_patches_rpc [rpc_same]: "fold_patches ps b w pc (rpc l p1) ns = fold_patches ps b w pc p1 ns"
  by (induction ps b w pc p1 ns rule: fold_patches.induct) (simp_all add: rpc_same cong: sbind_cong)

lemma element_word_rpc [rpc_same]: "element_word el pc (rpc l p1) ns = element_word el pc p1 ns"
  by (simp only: element_word_def rpc_same)

lemma emit_org_rpc [rpc_same]: "emit_org r (rpc l p1) ns s = emit_org r p1 ns s"
  by (simp only: emit_org_def rpc_same)

lemma emit_directive_rpc [rpc_same]: "emit_directive r (rpc l p1) ns s = emit_directive r p1 ns s"
  by (simp only: emit_directive_def rpc_same)

section \<open>Pass 2 without comments\<close>

text \<open>
  Dropping comments renumbers the records, so the code map differs in its record numbers; the
  image does not.
\<close>

definition without_map :: "pass2_state \<Rightarrow> bytes \<times> i64 \<times> i64" where
  "without_map s = (e_out s, e_pc s, e_origin s)"

definition same_image :: "pass2_state res \<Rightarrow> pass2_state res \<Rightarrow> bool" where
  "same_image r r' \<longleftrightarrow> map_sum id without_map r = map_sum id without_map r'"

lemma same_image_cases:
  "same_image r r' \<longleftrightarrow> (case r of Inl e \<Rightarrow> r' = Inl e | Inr s \<Rightarrow> \<exists>s'. r' = Inr s' \<and> without_map s' = without_map s)"
  by (cases r; cases r') (auto simp: same_image_def)

lemma same_image_bind:
  assumes "same_image r r'" and "\<And>s s'. without_map s = without_map s' \<Longrightarrow> same_image (f s) (g s')"
  shows "same_image (sbind r f) (sbind r' g)"
  using assms by (cases r; cases r') (auto simp: same_image_cases [of r] same_image_def)

lemma same_image_refl: "same_image r r"
  by (simp add: same_image_def)

lemma without_map_put: "without_map s = without_map s' \<Longrightarrow> without_map (put_bytes bs s) = without_map (put_bytes bs s')"
  by (simp add: without_map_def put_bytes_def)

lemma without_map_word: "without_map s = without_map s' \<Longrightarrow> without_map (emit_word i w s) = without_map (emit_word j w s')"
  by (simp add: without_map_def put_bytes_def emit_word_def)

lemma same_entries: "without_map s = without_map s' \<Longrightarrow> same_image (emit_entries w is p1 ns s) (emit_entries w is p1 ns s')"
proof (induction w "is" p1 ns s arbitrary: s' rule: emit_entries.induct)
  case (2 w i "is" p1 ns s)
  show ?case
  proof (cases "eval_at (pe_expr (p1_pool p1 ! i)) (pe_eval_pc (p1_pool p1 ! i)) p1 ns")
    case (Inr v)
    then show ?thesis using 2(1) [OF refl Inr without_map_put [OF 2(2)]] by simp
  qed (simp add: same_image_def)
qed (simp add: same_image_def)

lemma pad_without_map: "without_map s = without_map s' \<Longrightarrow> without_map (pad_to n s) = without_map (pad_to n s')"
  by (simp add: without_map_def put_bytes_def pad_to_def)

lemma same_flush:
  assumes m: "without_map s = without_map s'"
  shows "same_image (emit_flush p1 ns s) (emit_flush p1 ns s')"
proof -
  have pc: "e_pc s' = e_pc s" using m by (simp add: without_map_def)
  show ?thesis
  proof (cases "p1_flush_entries p1 (e_pc s)")
    case None
    then show ?thesis using m pc by (simp add: emit_flush_def same_image_def)
  next
    case (Some es)
    let ?f = "fours (p1_pool p1) es" and ?e = "eights (p1_pool p1) es"
    have four: "without_map (if ?f \<noteq> [] then pad_to 4 s else s) = without_map (if ?f \<noteq> [] then pad_to 4 s' else s')"
      using pad_without_map [OF m] m by simp
    have eight: "without_map (if ?e \<noteq> [] then pad_to 8 t else t) = without_map (if ?e \<noteq> [] then pad_to 8 t' else t')"
      if "without_map t = without_map t'" for t t' using pad_without_map [OF that] that by simp
    have final: "same_image (if e_pc t \<noteq> a then Inl er else Inr t) (if e_pc t' \<noteq> a then Inl er else Inr t')"
      if "without_map t = without_map t'" for t t' a and er :: go_fail
      using that by (auto simp: same_image_def without_map_def)
    show ?thesis
      unfolding emit_flush_def Some pc Let_def option.case
      by (cases "\<exists>i\<in>set es. i \<ge> length (p1_pool p1)")
        (simp_all only: if_True if_False same_image_refl,
          intro same_image_bind same_entries four eight final)
  qed
qed

lemma same_elements:
  "without_map s = without_map s' \<Longrightarrow> same_image (emit_elements ri els p1 ns s) (emit_elements rj els p1 ns s')"
proof (induction els arbitrary: s s')
  case (Cons el els)
  have "e_pc s' = e_pc s" using Cons.prems by (simp add: without_map_def)
  then show ?case
    using Cons.IH [OF without_map_word [OF Cons.prems]] by (cases "element_word el (e_pc s) p1 ns") (auto simp: same_image_def)
qed (simp add: same_image_def)

lemma lit_code_words_short: "length ws < 4 * n \<Longrightarrow> lit_code_words n ws off pc ri = Inl Panic"
proof (induction n arbitrary: ws off pc)
  case (Suc n)
  then show ?case by (cases "length ws < 4") simp_all
qed simp

lemma lit_code_words_long: "4 * n \<le> length ws \<Longrightarrow> \<exists>cws. lit_code_words n ws off pc ri = Inr cws"
proof (induction n arbitrary: ws off pc)
  case (Suc n)
  then obtain cws where "lit_code_words n (drop 4 ws) (off + 4) (pc + 4) ri = Inr cws" by fastforce
  with Suc.prems show ?case by simp
qed simp

lemma same_lit_insts:
  assumes "without_map s = without_map s'"
  shows "same_image (emit_lit_insts ri r s) (emit_lit_insts rj r s')"
proof (cases "length (lit_words r) < 4 * unat (lit_count r)")
  case True
  then show ?thesis by (simp add: emit_lit_insts_def lit_code_words_short same_image_def)
next
  case False
  then show ?thesis
    using assms lit_code_words_long [of "unat (lit_count r)" "lit_words r" "length (e_out s)" "e_pc s" ri]
      lit_code_words_long [of "unat (lit_count r)" "lit_words r" "length (e_out s')" "e_pc s'" rj]
    by (auto simp: emit_lit_insts_def same_image_def without_map_def)
qed

lemma same_org:
  assumes "without_map s = without_map s'"
  shows "same_image (emit_org r p1 ns s) (emit_org r p1 ns s')"
proof -
  have "e_pc s' = e_pc s" "e_out s' = e_out s" "e_origin s' = e_origin s" using assms by (simp_all add: without_map_def)
  then show ?thesis
    by (cases "first_operand (operands r)"; cases "eval_at (o_expr (projr (first_operand (operands r)))) (e_pc s) p1 ns")
      (auto simp: emit_org_def same_image_def without_map_def Let_def)
qed

lemma same_record:
  assumes m: "without_map s = without_map s'"
  shows "same_image (emit_record ri r p1 ns s) (emit_record rj r p1 ns s')"
proof -
  have pc: "e_pc s' = e_pc s" using m by (simp add: without_map_def)
  have put: "same_image (sbind x (\<lambda>bs. Inr (put_bytes bs s))) (sbind x (\<lambda>bs. Inr (put_bytes bs s')))" for x
    using without_map_put [OF m] by (cases x) (auto simp: same_image_def)
  have word: "same_image (sbind x (\<lambda>w. Inr (emit_word ri w s))) (sbind x (\<lambda>w. Inr (emit_word rj w s')))" for x
    using without_map_word [OF m] by (cases x) (auto simp: same_image_def)
  have data: "same_image (Inr (put_bytes (lit_data r) s)) (Inr (put_bytes (lit_data r) s'))"
    using without_map_put [OF m] by (simp add: same_image_def)
  have dir: "same_image (emit_directive r p1 ns s) (emit_directive r p1 ns s')"
    unfolding emit_directive_def Let_def pc using same_flush [OF m] same_org [OF m] put by simp
  have none: "same_image (Inr s) (Inr s')" using m by (simp add: same_image_def)
  show ?thesis
    unfolding emit_record_def pc using word same_lit_insts [OF m] data same_elements [OF m] dir none by simp
qed

lemma comment_record: "r_kind r = KindComment \<Longrightarrow> emit_record ri r p1 ns s = Inr s"
  by (simp add: emit_record_def)

lemma same_records:
  "without_map s = without_map s' \<Longrightarrow>
     same_image (emit_records ri recs p1 ns s) (emit_records rj (strip_comment_records recs) p1 ns s')"
proof (induction recs arbitrary: ri rj s s')
  case (Cons r recs)
  show ?case
  proof (cases "r_kind r = KindComment")
    case True
    then show ?thesis using Cons by (simp add: comment_record strip_comment_records_def)
  next
    case False
    then show ?thesis
      using same_image_bind [OF same_record [OF Cons.prems] Cons.IH] by (simp add: strip_comment_records_def)
  qed
qed (simp add: same_image_def strip_comment_records_def)

lemma emit_record_rpc: "emit_record ri r (rpc l p1) ns s = emit_record ri r p1 ns s"
proof -
  have "emit_elements ri els (rpc l p1) ns s = emit_elements ri els p1 ns s" for els
    by (induction els arbitrary: s) (simp_all add: rpc_same cong: sbind_cong)
  then show ?thesis by (simp add: emit_record_def rpc_same)
qed

lemma emit_records_rpc: "emit_records ri recs (rpc l p1) ns s = emit_records ri recs p1 ns s"
  by (induction recs arbitrary: ri s) (simp_all add: emit_record_rpc cong: sbind_cong)

lemma pass2_image:
  "pass2 f p1 = sbind (sbind (emit_records 0 (f_records f) p1 (f_names f) (pass2_init p1)) (emit_flush p1 (f_names f))) (\<lambda>s. Inr (e_out s))"
  by (simp add: pass2_def pass2_with_map_def sbind_assoc)

lemma same_image_out: "same_image r r' \<Longrightarrow> sbind r (\<lambda>s. Inr (e_out s)) = sbind r' (\<lambda>s. Inr (e_out s))"
  by (cases r; cases r') (auto simp: same_image_def without_map_def)

lemma pass2_strip: "pass2 f p1 = pass2 (f\<lparr>f_records := strip_comment_records (f_records f)\<rparr>) (rpc l p1)"
proof -
  have init: "pass2_init (rpc l p1) = pass2_init p1" by (simp add: pass2_init_def)
  have "same_image (emit_records 0 (f_records f) p1 (f_names f) (pass2_init p1))
          (emit_records 0 (strip_comment_records (f_records f)) p1 (f_names f) (pass2_init p1))"
    by (rule same_records) (rule refl)
  from same_image_bind [OF this same_flush]
  have "same_image (sbind (emit_records 0 (f_records f) p1 (f_names f) (pass2_init p1)) (emit_flush p1 (f_names f)))
      (sbind (emit_records 0 (strip_comment_records (f_records f)) p1 (f_names f) (pass2_init p1)) (emit_flush p1 (f_names f)))" .
  moreover have "emit_flush (rpc l p1) = emit_flush p1" by (intro ext) (simp add: rpc_same)
  ultimately show ?thesis
    unfolding pass2_image by (simp add: init emit_records_rpc same_image_out)
qed

section \<open>Pass 1 without comments\<close>

definition wrpc :: "i64 list \<Rightarrow> pass1_state \<Rightarrow> pass1_state" where
  "wrpc l w = w\<lparr>w_res := rpc l (w_res w)\<rparr>"

lemma wrpc_fields [simp]:
  "w_res (wrpc l w) = rpc l (w_res w)" "w_pc (wrpc l w) = w_pc w" "w_pending (wrpc l w) = w_pending w"
  "w_order (wrpc l w) = w_order w"
  by (simp_all add: wrpc_def)

lemma rpc_updates:
  "(rpc l p1)\<lparr>p1_symbols := a\<rparr> = rpc l (p1\<lparr>p1_symbols := a\<rparr>)"
  "(rpc l p1)\<lparr>p1_local_defs := b\<rparr> = rpc l (p1\<lparr>p1_local_defs := b\<rparr>)"
  "(rpc l p1)\<lparr>p1_label_defs := c\<rparr> = rpc l (p1\<lparr>p1_label_defs := c\<rparr>)"
  "(rpc l p1)\<lparr>p1_total_size := d\<rparr> = rpc l (p1\<lparr>p1_total_size := d\<rparr>)"
  "(rpc l p1)\<lparr>p1_origin := d\<rparr> = rpc l (p1\<lparr>p1_origin := d\<rparr>)"
  "(rpc l p1)\<lparr>p1_pool := e\<rparr> = rpc l (p1\<lparr>p1_pool := e\<rparr>)"
  "(rpc l p1)\<lparr>p1_ldr_idx := g\<rparr> = rpc l (p1\<lparr>p1_ldr_idx := g\<rparr>)"
  "(rpc l p1)\<lparr>p1_flush_at := h\<rparr> = rpc l (p1\<lparr>p1_flush_at := h\<rparr>)"
  "(rpc l p1)\<lparr>p1_flush_entries := i\<rparr> = rpc l (p1\<lparr>p1_flush_entries := i\<rparr>)"
  "(rpc l p1)\<lparr>p1_inst_pc := j\<rparr> = rpc l (p1\<lparr>p1_inst_pc := j\<rparr>)"
  "(rpc l p1)\<lparr>p1_record_pc := k\<rparr> = rpc k p1" "rpc k (rpc l p1) = rpc k p1"
  by (simp_all add: rpc_def)

lemma wrpc_updates:
  "(wrpc l w)\<lparr>w_res := rpc l r\<rparr> = wrpc l (w\<lparr>w_res := r\<rparr>)" "(wrpc l w)\<lparr>w_pc := a\<rparr> = wrpc l (w\<lparr>w_pc := a\<rparr>)"
  "(wrpc l w)\<lparr>w_pending := b\<rparr> = wrpc l (w\<lparr>w_pending := b\<rparr>)" "(wrpc l w)\<lparr>w_order := c\<rparr> = wrpc l (w\<lparr>w_order := c\<rparr>)"
  by (simp_all add: wrpc_def)

lemma advance_wrpc: "advance n (wrpc l w) = wrpc l (advance n w)"
  by (simp add: advance_def wrpc_updates)

lemma register_wrpc: "register_literal wd e (wrpc l w) = wrpc l (register_literal wd e w)"
  by (cases "w_pending w (wd, e)") (simp_all add: register_literal_def Let_def rpc_updates wrpc_def)

lemma flush_wrpc: "flush_pool (wrpc l w) = wrpc l (flush_pool w)"
  by (simp add: flush_pool_def Let_def rpc_updates wrpc_def split: prod.split)

lemma patches_wrpc: "register_patches b ps (wrpc l w) = wrpc l (register_patches b ps w)"
proof (induction ps arbitrary: w)
  case (Cons p ps)
  then show ?case by (cases "patch_slot p = FoldLitpool19") (simp_all add: register_wrpc)
qed simp

lemma elements_wrpc: "walk_elements els (wrpc l w) = wrpc l (walk_elements els w)"
  by (induction els arbitrary: w) (simp_all add: patches_wrpc advance_wrpc)

lemma pass1_ctx_rpc: "pass1_ctx pc (rpc l p1) ns = pass1_ctx pc p1 ns"
  by (simp add: pass1_ctx_def)

lemma directive_size_rpc: "directive_size r pc (rpc l p1) ns = directive_size r pc p1 ns"
  by (simp only: directive_size_def pass1_ctx_rpc)

lemma map_sum_bind: "map_sum id g (sbind r f) = sbind r (\<lambda>x. map_sum id g (f x))"
  by (cases r) simp_all

lemma bind_map_sum: "sbind (map_sum id g r) f = sbind r (\<lambda>x. f (g x))"
  by (cases r) simp_all

lemma resolve_equ_rpc: "resolve_equ r ns (rpc l p1) = map_sum id (rpc l) (resolve_equ r ns p1)"
  unfolding resolve_equ_def
  by (auto simp: pass1_ctx_rpc rpc_updates map_sum_bind case_prod_beta split: option.split
      intro!: arg_cong2 [where f = sbind] ext)

lemma walk_org_wrpc: "walk_org r ns (wrpc l w) = map_sum id (wrpc l) (walk_org r ns w)"
  unfolding walk_org_def
  by (auto simp: pass1_ctx_rpc rpc_updates wrpc_def map_sum_bind Let_def intro!: arg_cong2 [where f = sbind] ext)

lemma walk_directive_wrpc: "walk_directive r ns (wrpc l w) = map_sum id (wrpc l) (walk_directive r ns w)"
  by (simp add: walk_directive_def Let_def resolve_equ_rpc directive_size_rpc walk_org_wrpc flush_wrpc advance_wrpc
      bind_map_sum map_sum_bind wrpc_updates)

lemma walk_inst_wrpc: "walk_inst r (wrpc l w) = map_sum id (wrpc l) (walk_inst r w)"
proof -
  have w: "(wrpc l w)\<lparr>w_res := (w_res (wrpc l w))\<lparr>p1_inst_pc := p1_inst_pc (w_res (wrpc l w)) @ [w_pc (wrpc l w)]\<rparr>\<rparr>
      = wrpc l (w\<lparr>w_res := (w_res w)\<lparr>p1_inst_pc := p1_inst_pc (w_res w) @ [w_pc w]\<rparr>\<rparr>)"
    by (simp add: rpc_updates wrpc_def)
  show ?thesis
    unfolding walk_inst_def Let_def w map_sum_bind
    by (auto simp: advance_wrpc register_wrpc split: option.split intro!: arg_cong2 [where f = sbind] ext)
qed

lemma define_rpc:
  "define_label n v (rpc l p1) = rpc l (define_label n v p1)" "define_local d v (rpc l p1) = rpc l (define_local d v p1)"
  by (simp_all add: define_label_def define_local_def rpc_updates)

text \<open>The PC lists differ before and after a record, nothing else does.\<close>

lemma walk_record_wrpc:
  "\<exists>m. walk_record r ns (wrpc l w) = map_sum id (wrpc m) (walk_record r ns w)"
proof -
  let ?k = "p1_record_pc (w_res w) @ [w_pc w]" and ?m = "l @ [w_pc w]"
  have w: "w\<lparr>w_res := (w_res w)\<lparr>p1_record_pc := ?k\<rparr>\<rparr> = wrpc ?k w"
    by (simp add: wrpc_def rpc_def)
  have wl: "(wrpc l w)\<lparr>w_res := (w_res (wrpc l w))\<lparr>p1_record_pc := p1_record_pc (w_res (wrpc l w)) @ [w_pc (wrpc l w)]\<rparr>\<rparr> = wrpc ?m (wrpc ?k w)"
    by (simp add: wrpc_def rpc_updates)
  have label: "sbind x (\<lambda>n. Inr ((wrpc m v)\<lparr>w_res := define_label n (w_pc (wrpc m v)) (w_res (wrpc m v))\<rparr>))
      = map_sum id (wrpc m) (sbind x (\<lambda>n. Inr (v\<lparr>w_res := define_label n (w_pc v) (w_res v)\<rparr>)))"
    and loc: "(Inr ((wrpc m v)\<lparr>w_res := define_local d (w_pc (wrpc m v)) (w_res (wrpc m v))\<rparr>) :: pass1_state res)
      = map_sum id (wrpc m) (Inr (v\<lparr>w_res := define_local d (w_pc v) (w_res v)\<rparr>))" for x d m v
    by (cases x) (simp_all add: define_rpc wrpc_updates)
  have inr: "map_sum id (wrpc m) (Inr v) = (Inr (wrpc m v) :: pass1_state res)" for m v by simp
  have "walk_record r ns (wrpc l w) = map_sum id (wrpc ?m) (walk_record r ns w)"
    unfolding walk_record_def Let_def w wl
    by (simp only: walk_inst_wrpc walk_directive_wrpc elements_wrpc advance_wrpc label loc inr
        if_distrib [of "map_sum id (wrpc ?m)"])
  then show ?thesis by blast
qed

lemma comment_walk: "r_kind r = KindComment \<Longrightarrow> \<exists>m. walk_record r ns w = Inr (wrpc m w)"
  by (auto simp: walk_record_def Let_def wrpc_def rpc_def)

lemma wrpc_wrpc [simp]: "wrpc m (wrpc l w) = wrpc m w"
  by (simp add: wrpc_def rpc_updates)

lemma walk_records_strip:
  "\<exists>m. walk_records (strip_comment_records recs) ns (wrpc l w) = map_sum id (wrpc m) (walk_records recs ns w)"
proof (induction recs arbitrary: l w)
  case Nil
  then show ?case by (auto simp: strip_comment_records_def)
next
  case (Cons r recs)
  show ?case
  proof (cases "r_kind r = KindComment")
    case True
    from comment_walk [OF True, of ns w] obtain m where "walk_record r ns w = Inr (wrpc m w)" by blast
    with True Cons.IH [of l "wrpc m w"] show ?thesis by (simp add: strip_comment_records_def)
  next
    case False
    obtain m where m: "walk_record r ns (wrpc l w) = map_sum id (wrpc m) (walk_record r ns w)"
      using walk_record_wrpc by blast
    have "strip_comment_records (r # recs) = r # strip_comment_records recs"
      using False by (simp add: strip_comment_records_def)
    with m Cons.IH [of m] show ?thesis by (cases "walk_record r ns w") auto
  qed
qed

lemma seed_labels_rpc: "seed_labels lrs ns (rpc l p1) = map_sum id (rpc l) (seed_labels lrs ns p1)"
proof (induction lrs arbitrary: p1)
  case (Cons lr lrs)
  then show ?case by (cases "name_at ns (label_name lr)") (simp_all add: define_rpc)
qed simp

lemma seed_locals_rpc: "seed_locals lrs (rpc l p1) = rpc l (seed_locals lrs p1)"
  by (induction lrs arbitrary: p1) (simp_all add: define_rpc)

lemma pass1_strip:
  "\<exists>m. pass1 (f\<lparr>f_records := strip_comment_records (f_records f)\<rparr>) = map_sum id (rpc m) (pass1 f)"
proof -
  have i: "wrpc [] walk_init = walk_init" by (simp add: wrpc_def rpc_def walk_init_def pass1_init_def)
  obtain m where m: "walk_records (strip_comment_records (f_records f)) (f_names f) walk_init
      = map_sum id (wrpc m) (walk_records (f_records f) (f_names f) walk_init)"
    using walk_records_strip [of "f_records f" "f_names f" "[]" walk_init] unfolding i by blast
  have "pass1 (f\<lparr>f_records := strip_comment_records (f_records f)\<rparr>) = map_sum id (rpc m) (pass1 f)"
    unfolding pass1_def
    by (auto simp: m bind_map_sum map_sum_bind Let_def flush_wrpc rpc_updates seed_labels_rpc seed_locals_rpc
        intro!: arg_cong2 [where f = sbind] ext)
  then show ?thesis by blast
qed

section \<open>Comments do not assemble\<close>

lemma strip_same_image:
  "sbind (pass1 (f\<lparr>f_records := strip_comment_records (f_records f)\<rparr>)) (pass2 (f\<lparr>f_records := strip_comment_records (f_records f)\<rparr>))
     = sbind (pass1 f) (pass2 f)"
proof -
  obtain m where "pass1 (f\<lparr>f_records := strip_comment_records (f_records f)\<rparr>) = map_sum id (rpc m) (pass1 f)"
    using pass1_strip by blast
  then show ?thesis by (simp add: bind_map_sum pass2_strip [of f _ m, symmetric])
qed

text \<open>
  C9.  Thinning the comments does not change the assembled image: for every ratio the two passes
  over the remaining records give the same bytes, or the same error, as over all of them.
  Stripping every comment does not either (\<open>strip_same_image\<close>).
\<close>

theorem comments_do_not_assemble:
  "sbind (pass1 (f\<lparr>f_records := thin_comments (f_records f) n\<rparr>)) (pass2 (f\<lparr>f_records := thin_comments (f_records f) n\<rparr>))
     = sbind (pass1 f) (pass2 f)"
proof -
  let ?g = "f\<lparr>f_records := thin_comments (f_records f) n\<rparr>"
  have "?g\<lparr>f_records := strip_comment_records (f_records ?g)\<rparr> = f\<lparr>f_records := strip_comment_records (f_records f)\<rparr>"
    by (simp add: thin_non_comments)
  then show ?thesis using strip_same_image [of f] strip_same_image [of ?g] by simp
qed

end
