(* ===== verification/Fe_Tokens.thy ===== *)
theory Fe_Tokens
  imports Fe_Parser
begin

text \<open>
  The lexer inverts printing: a stream of tokens, each spelled in the source's own syntax and
  separated by blanks, is lexed into the same tokens.
\<close>

section \<open>Spelling\<close>

text \<open>A token without its position.\<close>

definition erase :: "tok \<Rightarrow> tok" where
  "erase t = t\<lparr>t_pos := \<lparr>pos_file = [], pos_line = 0, pos_col = 0\<rparr>\<rparr>"

definition hex_char :: "nat \<Rightarrow> char" where
  "hex_char d = (if d < 10 then char_of (48 + d) else char_of (87 + d))"

text \<open>A printable byte of a string stands for itself, the others are written \<^verbatim>\<open>\x\<close> and two digits.\<close>

definition show_byte :: "u8 \<Rightarrow> string" where
  "show_byte b =
     (if 32 \<le> unat b \<and> unat b < 127 \<and> b \<noteq> 34 \<and> b \<noteq> 92 then [char_of (unat b)]
      else [backslash, CHR ''x'', hex_char (unat b div 16), hex_char (unat b mod 16)])"

definition show_tok :: "tok \<Rightarrow> string" where
  "show_tok t =
     (case t_kind t of
        TokLocalRef \<Rightarrow> dec (unat (t_digit t)) @ [t_dir t]
      | TokString \<Rightarrow> dquote # concat (map show_byte (t_bytes t)) @ [dquote]
      | TokLineComment \<Rightarrow> ''//'' @ string_of_bytes (t_bytes t)
      | TokBlockComment \<Rightarrow> ''/*'' @ string_of_bytes (t_bytes t) @ ''*/''
      | TokEOL \<Rightarrow> [newline]
      | _ \<Rightarrow> tok_spelling t)"

text \<open>A blank follows every token but a line comment, which runs to the end of its line.\<close>

definition spell :: "tok \<Rightarrow> string" where
  "spell t = show_tok t @ (if t_kind t = TokLineComment then [] else '' '')"

fun no_close :: "string \<Rightarrow> bool" where
  "no_close (c # d # cs) \<longleftrightarrow> \<not> (c = CHR ''*'' \<and> d = CHR ''/'') \<and> no_close (d # cs)"
| "no_close _ \<longleftrightarrow> True"

definition ident_ok :: "string \<Rightarrow> bool" where
  "ident_ok s \<longleftrightarrow> (case s of
     [] \<Rightarrow> False
   | c # cs \<Rightarrow> is_ident_start c \<and> list_all is_ident_cont cs \<and> (c = CHR ''.'' \<longrightarrow> cs \<noteq> [] \<and> is_ident_start (hd cs)))"

text \<open>The tokens the source can spell, with the fields that do not belong to their kind at zero.\<close>

definition tok_ok :: "tok \<Rightarrow> bool" where
  "tok_ok t \<longleftrightarrow>
     (let z = tok0 (t_kind t) (t_pos t) in
      case t_kind t of
        TokEOF \<Rightarrow> False
      | TokIdent \<Rightarrow> ident_ok (t_text t) \<and> t = z\<lparr>t_text := t_text t\<rparr>
      | TokInt \<Rightarrow> t_text t \<noteq> [] \<and> list_all is_digit (t_text t) \<and> parse_int_in_base (t_text t) 10 = Inr (t_int t)
          \<and> t = z\<lparr>t_text := t_text t, t_int := t_int t\<rparr>
      | TokLocalRef \<Rightarrow> unat (t_digit t) < 100 \<and> t_dir t \<in> {CHR ''f'', CHR ''b''}
          \<and> t = z\<lparr>t_digit := t_digit t, t_dir := t_dir t\<rparr>
      | TokString \<Rightarrow> t = z\<lparr>t_bytes := t_bytes t\<rparr>
      | TokLineComment \<Rightarrow> newline \<notin> set (string_of_bytes (t_bytes t)) \<and> t = z\<lparr>t_bytes := t_bytes t\<rparr>
      | TokBlockComment \<Rightarrow> no_close (string_of_bytes (t_bytes t)) \<and> t = z\<lparr>t_bytes := t_bytes t\<rparr>
      | _ \<Rightarrow> t = z)"

text \<open>
  A \<^verbatim>\<open>#\<close> does not start a line, where it would be a comment, and a line comment ends its line.
\<close>

fun stream_ok :: "bool \<Rightarrow> tok list \<Rightarrow> bool" where
  "stream_ok start [] \<longleftrightarrow> True"
| "stream_ok start (t # ts) \<longleftrightarrow> tok_ok t \<and> (start \<longrightarrow> t_kind t \<noteq> TokHash)
     \<and> (t_kind t = TokLineComment \<longrightarrow> ts = [] \<or> t_kind (hd ts) = TokEOL)
     \<and> stream_ok (t_kind t = TokEOL) ts"

section \<open>The character loops\<close>

lemma read_while_takes: "read_while p l = (takeWhile p (lx_rest l), snd (read_while p l)) \<and> lx_rest (snd (read_while p l)) = dropWhile p (lx_rest l)"
proof (induction p l rule: read_while.induct)
  case (1 p l)
  show ?case
  proof (cases "lx_rest l")
    case (Cons c cs)
    then show ?thesis
    proof (cases "p c")
      case True
      from 1 [OF Cons True] have IH: "read_while p (past c cs l) = (takeWhile p cs, snd (read_while p (past c cs l)))"
        "lx_rest (snd (read_while p (past c cs l))) = dropWhile p cs" by simp_all
      have "read_while p l = (c # takeWhile p cs, snd (read_while p (past c cs l)))"
        using Cons True IH(1) by (subst read_while.simps) (metis (mono_tags, lifting) case_prod_conv list.simps(5))
      with IH(2) Cons True show ?thesis by simp
    qed (subst (1 2 3) read_while.simps, simp)
  qed (subst (1 2 3) read_while.simps, simp)
qed

lemma past_start [simp]: "lx_at_line_start (past c cs l) = lx_at_line_start l"
  by (simp add: past_def)

lemma read_while_start: "lx_at_line_start (snd (read_while p l)) = lx_at_line_start l"
proof (induction p l rule: read_while.induct)
  case (1 p l)
  then show ?case by (subst read_while.simps) (auto split: list.split prod.split)
qed

lemma skip_blanks_rest: "lx_rest (skip_blanks l) = dropWhile (\<lambda>c. c = CHR '' '' \<or> c = tab \<or> c = carriage_return) (lx_rest l)"
  using read_while_takes [of _ l] by (simp add: skip_blanks_def)

lemma skip_blanks_start [simp]: "lx_at_line_start (skip_blanks l) = lx_at_line_start l"
  by (simp add: skip_blanks_def read_while_start)

lemma read_while_prefix:
  assumes "lx_rest l = s @ rest" and "list_all p s" and "rest = [] \<or> \<not> p (hd rest)"
  obtains l' where "read_while p l = (s, l')" and "lx_rest l' = rest"
proof -
  have "takeWhile p (s @ rest) = s \<and> dropWhile p (s @ rest) = rest"
    using assms(2,3) by (induction s) (cases rest; auto)+
  then show thesis using read_while_takes [of p l] assms(1) that by metis
qed

section \<open>One token\<close>

definition scans :: "lexer \<Rightarrow> tok \<Rightarrow> string \<Rightarrow> bool" where
  "scans l t rest \<longleftrightarrow> (\<exists>t' l'. scan (hd (lx_rest l)) l = Inr (t', l') \<and> erase t' = erase t \<and> lx_rest l' = rest)"

lemma erase_kind [simp]: "t_kind (erase t) = t_kind t"
  by (simp add: erase_def)

lemma erase_eq_kind: "erase t = erase u \<Longrightarrow> t_kind t = t_kind u"
  by (metis erase_kind)

lemma erase_tok0: "t = tok0 (t_kind t) (t_pos t) \<Longrightarrow> erase (tok0 (t_kind t) p) = erase t"
  by (metis (no_types, lifting) erase_def tok0_def tok.update_convs(2))

text \<open>The first character decides; these are the characters of the other branches.\<close>

lemma punctuation_None: "punctuation c = None \<longleftrightarrow> c \<notin> set (newline # '',:![]()+-*&|^~=%'')"
  unfolding punctuation_def map_of_eq_None_iff by simp

lemma special_chars:
  "list_all (\<lambda>x. \<not> is_ident_start x \<and> \<not> is_digit x) (newline # dquote # squote # '',:![]()+-*&|^~=%#/<>'')"
  by (simp add: is_ident_start_def is_digit_def)

lemma not_special: "P c \<Longrightarrow> list_all (\<lambda>x. \<not> P x) cs \<Longrightarrow> c \<notin> set cs"
  by (auto simp: list_all_iff)

lemma ident_start_facts:
  assumes "is_ident_start c"
  shows "punctuation c = None \<and> c \<noteq> CHR ''#'' \<and> c \<noteq> CHR ''/'' \<and> c \<noteq> CHR ''<'' \<and> c \<noteq> CHR ''>''
     \<and> c \<noteq> dquote \<and> c \<noteq> squote"
proof -
  have "c \<notin> set (newline # dquote # squote # '',:![]()+-*&|^~=%#/<>'')"
    by (rule not_special [of is_ident_start, OF assms]) (use special_chars in \<open>simp only: list_all_iff; blast\<close>)
  then show ?thesis unfolding punctuation_None by simp
qed

lemma digit_facts:
  assumes "is_digit c"
  shows "punctuation c = None \<and> c \<noteq> CHR ''#'' \<and> c \<noteq> CHR ''.'' \<and> c \<noteq> CHR ''/'' \<and> c \<noteq> CHR ''<'' \<and> c \<noteq> CHR ''>''
     \<and> c \<noteq> dquote \<and> c \<noteq> squote"
proof -
  have "c \<notin> set (newline # dquote # squote # '',:![]()+-*&|^~=%#/<>'')"
    by (rule not_special [of is_digit, OF assms]) (use special_chars in \<open>simp only: list_all_iff; blast\<close>)
  moreover have "c \<noteq> CHR ''.''" using assms by (auto simp: is_digit_def)
  ultimately show ?thesis unfolding punctuation_None by simp
qed

lemma ident_start_not_digit: "is_ident_start c \<Longrightarrow> \<not> is_digit c"
  using order.trans [of "CHR ''a''" c "CHR ''9''"] order.trans [of "CHR ''A''" c "CHR ''9''"]
  by (auto simp: is_ident_start_def is_digit_def)

lemma punctuation_simps [simp]:
  "punctuation (CHR ''#'') = None" "punctuation (CHR ''.'') = None" "punctuation (CHR ''/'') = None"
  "punctuation (CHR ''<'') = None" "punctuation (CHR ''>'') = None" "punctuation dquote = None"
  by (simp_all add: punctuation_def)

definition sep_ok :: "tok \<Rightarrow> string \<Rightarrow> bool" where
  "sep_ok t rest \<longleftrightarrow> rest = [] \<or> hd rest = (if t_kind t = TokLineComment then newline else CHR '' '')"

lemma sep_blank: "t_kind t \<noteq> TokLineComment \<Longrightarrow> sep_ok t rest \<Longrightarrow> rest = [] \<or> hd rest = CHR '' ''"
  by (simp add: sep_ok_def)

lemma not_ident_blank: "\<not> is_ident_cont (CHR '' '')" "\<not> digit_ok 10 (CHR '' '')" "\<not> is_digit (CHR '' '')"
  by (simp_all add: is_ident_cont_def is_ident_start_def digit_ok_def is_digit_def)

lemma scans_single:
  assumes "tok_ok t" and "punctuation c = Some (t_kind t)" and "lx_rest l = c # rest"
    and "t_kind t \<notin> {TokIdent, TokInt, TokLocalRef, TokString, TokLineComment, TokBlockComment, TokEOF}"
  shows "scans l t rest"
proof -
  have "t = tok0 (t_kind t) (t_pos t)" using assms(1,4) by (auto simp: tok_ok_def Let_def split: tok_kind.splits)
  then show ?thesis using assms(2,3) erase_tok0 [of t "pos2 l"]
    by (simp add: scans_def scan_def single_def lex_advance_def Let_def)
qed

lemma scans_ident:
  assumes "ident_ok (t_text t)" and "t = (tok0 TokIdent (t_pos t))\<lparr>t_text := t_text t\<rparr>" and "lx_rest l = t_text t @ rest"
    and "rest = [] \<or> hd rest = CHR '' ''"
  shows "scans l t rest"
proof -
  obtain c cs where t: "t_text t = c # cs" and c: "is_ident_start c" and cs: "list_all is_ident_cont cs"
    and dot: "c = CHR ''.'' \<Longrightarrow> cs \<noteq> [] \<and> is_ident_start (hd cs)"
    using assms(1) by (auto simp: ident_ok_def split: list.splits)
  have "list_all is_ident_cont (t_text t)" using c cs t by (simp add: ident_start_cont)
  then obtain l' where r: "read_while is_ident_cont l = (t_text t, l')" "lx_rest l' = rest"
    using assms(4) not_ident_blank by (metis read_while_prefix [OF assms(3)])
  have "scan c l = read_ident l"
  proof (cases "c = CHR ''.''")
    case True
    then obtain d ds where "cs = d # ds" "is_ident_start d" using dot by (cases cs) auto
    then show ?thesis using True t assms(3) by (simp add: scan_def Let_def second_def)
  next
    case False
    then show ?thesis using ident_start_facts [OF c] ident_start_not_digit [OF c] c by (simp add: scan_def Let_def)
  qed
  moreover have "erase ((tok0 TokIdent (pos2 l))\<lparr>t_text := t_text t\<rparr>) = erase t"
    by (subst (2) assms(2)) (simp add: erase_def tok0_def)
  ultimately show ?thesis using r t assms(3) by (simp add: scans_def read_ident_def)
qed

lemma not_try_local:
  assumes "list_all is_digit s" and "s \<noteq> []" and "rest = [] \<or> hd rest = CHR '' ''"
  shows "\<not> try_local n (s @ rest)"
proof
  assume t: "try_local n (s @ rest)"
  have d: "\<not> is_digit (CHR ''f'')" "\<not> is_digit (CHR ''b'')" by (simp_all add: is_digit_def)
  consider "n < length s" | "n = length s" | "n > length s" by linarith
  then show False
  proof cases
    case 1
    then have "is_digit ((s @ rest) ! n)" using assms(1) by (simp add: nth_append list_all_length)
    then show False using t d by (auto simp: try_local_def)
  next
    case 2
    then show False using t assms(3) by (cases rest) (auto simp: try_local_def nth_append)
  next
    case 3
    then obtain r rs where r: "rest = r # rs" using t by (cases rest) (auto simp: try_local_def)
    have "take n (s @ rest) = s @ r # take (n - length s - 1) rs" using 3 r by (cases "n - length s") auto
    then show False using t assms(3) not_ident_blank(3) r by (simp add: try_local_def)
  qed
qed

lemma scans_int:
  assumes "t_text t \<noteq> []" and d: "list_all is_digit (t_text t)" and "parse_int_in_base (t_text t) 10 = Inr (t_int t)"
    and z: "t = (tok0 TokInt (t_pos t))\<lparr>t_text := t_text t, t_int := t_int t\<rparr>" and l: "lx_rest l = t_text t @ rest"
    and sep: "rest = [] \<or> hd rest = CHR '' ''"
  shows "scans l t rest"
proof -
  obtain c cs where t: "t_text t = c # cs" using assms(1) by (cases "t_text t") auto
  have c: "is_digit c" using d t by simp
  have "scan c l = read_number (pos2 l) l"
    using digit_facts [OF c] c not_try_local [OF d assms(1) sep, folded l]
    by (simp add: scan_def Let_def read_number_or_local_def)
  moreover have "number_base l = (10, l)"
  proof -
    have "\<not> is_digit x" if "x \<in> {CHR ''x'', CHR ''X'', CHR ''b'', CHR ''B'', CHR '' ''}" for x
      using that by (auto simp: is_digit_def)
    then have "x \<notin> {CHR ''x'', CHR ''X'', CHR ''b'', CHR ''B''}" if "c # x # ys = t_text t @ rest" for x ys
      using that t d sep by (cases cs; cases rest) auto
    then show ?thesis unfolding number_base_def l using t by (auto split: list.split)
  qed
  moreover have "list_all (digit_ok 10) (t_text t)" using d by (simp add: list_all_iff digit_ok_10)
  then obtain l' where "read_while (digit_ok 10) l = (t_text t, l')" "lx_rest l' = rest"
    using sep not_ident_blank by (metis read_while_prefix [OF l])
  moreover have "erase ((tok0 TokInt (pos2 l))\<lparr>t_int := t_int t, t_text := t_text t\<rparr>) = erase t"
    by (subst (3) z) (simp add: erase_def tok0_def)
  ultimately show ?thesis using t assms(3) l by (simp add: scans_def read_number_def)
qed

lemma is_digit_char: "d < 10 \<Longrightarrow> is_digit (char_of (48 + d :: nat))"
proof -
  assume "d < 10"
  moreover have "list_all (\<lambda>d. is_digit (char_of (48 + d :: nat))) [0..<10]" by code_simp
  ultimately show ?thesis by (simp add: list_all_iff)
qed

lemma of_char_char_of: "n < 256 \<Longrightarrow> (of_char (char_of (n :: nat) :: char) :: u8) = of_nat n"
proof -
  assume "n < 256"
  then have "(of_char (char_of n :: char) :: nat) = n" by (simp add: of_char_of)
  then show ?thesis by (metis of_nat_of_char)
qed

lemma char_of_digit: "d < 10 \<Longrightarrow> (of_char (char_of (48 + d :: nat) :: char) :: u8) - 48 = of_nat d"
  using of_char_char_of [of "48 + d"] by simp

lemma dec_digits: "n < 100 \<Longrightarrow> dec n = (if n < 10 then [char_of (48 + n)] else [char_of (48 + n div 10), char_of (48 + n mod 10)])"
  by (cases "n < 10") (simp_all only: dec.simps [of n] dec.simps [of "n div 10"] if_True if_False, auto)

lemma scans_local:
  assumes n: "unat (t_digit t) < 100" and dir: "t_dir t \<in> {CHR ''f'', CHR ''b''}"
    and z: "t = (tok0 TokLocalRef (t_pos t))\<lparr>t_digit := t_digit t, t_dir := t_dir t\<rparr>"
    and l: "lx_rest l = dec (unat (t_digit t)) @ [t_dir t] @ rest" and sep: "rest = [] \<or> hd rest = CHR '' ''"
  shows "scans l t rest"
proof -
  let ?n = "unat (t_digit t)"
  have after: "\<not> (0 < length rest \<and> is_ident_cont (rest ! 0))"
    using sep not_ident_blank(1) by (cases rest) auto
  have e: "erase ((tok0 TokLocalRef (pos2 l))\<lparr>t_digit := t_digit t, t_dir := t_dir t\<rparr>) = erase t"
    by (subst (3) z) (simp add: erase_def tok0_def)
  have dig: "t_digit t = of_nat ?n" by simp
  have "\<exists>l'. read_number_or_local (pos2 l) l = Inr ((tok0 TokLocalRef (pos2 l))\<lparr>t_digit := t_digit t, t_dir := t_dir t\<rparr>, l') \<and> lx_rest l' = rest"
  proof (cases "?n < 10")
    case True
    let ?c = "char_of (48 + ?n) :: char"
    have r: "lx_rest l = [?c, t_dir t] @ rest" using l dec_digits [OF n] True by simp
    have "\<not> is_digit (t_dir t)" using dir by (auto simp: is_digit_def)
    then have "\<not> try_local 2 (lx_rest l)" unfolding r by (simp add: try_local_def numeral_2_eq_2)
    moreover have "try_local 1 (lx_rest l)" unfolding r using is_digit_char [OF True] dir after by (simp add: try_local_def)
    moreover have "digit_byte ?c = t_digit t" using char_of_digit [OF True] dig by (simp add: digit_byte_def)
    ultimately show ?thesis using r by (simp add: read_number_or_local_def lex_advance_def)
  next
    case False
    let ?c = "char_of (48 + ?n div 10) :: char" and ?d = "char_of (48 + ?n mod 10) :: char"
    have lt: "?n div 10 < 10" "?n mod 10 < 10" using n by auto
    have r: "lx_rest l = [?c, ?d, t_dir t] @ rest" using l dec_digits [OF n] False by simp
    have "try_local 2 (lx_rest l)"
      unfolding r using is_digit_char [OF lt(1)] is_digit_char [OF lt(2)] dir after by (simp add: try_local_def numeral_2_eq_2)
    moreover have "digit_byte ?c * 10 + digit_byte ?d = t_digit t"
    proof -
      have "digit_byte ?c * 10 + digit_byte ?d = of_nat (?n div 10 * 10 + ?n mod 10)"
        using char_of_digit [OF lt(1)] char_of_digit [OF lt(2)] by (simp only: digit_byte_def of_nat_add of_nat_mult) simp
      then show ?thesis using dig by (simp only: div_mult_mod_eq)
    qed
    ultimately show ?thesis using r by (simp add: read_number_or_local_def lex_advance_def)
  qed
  moreover have "is_digit (hd (lx_rest l))"
    using l dec_digits [OF n] is_digit_char [of ?n] is_digit_char [of "?n div 10"] n by (auto split: if_splits)
  ultimately show ?thesis using digit_facts [of "hd (lx_rest l)"] e by (auto simp: scans_def scan_def Let_def)
qed

lemma hex_nibble_char: "d < 16 \<Longrightarrow> hex_nibble (hex_char d) = Some d"
proof -
  assume "d < 16"
  moreover have "list_all (\<lambda>d. hex_nibble (hex_char d) = Some d) [0..<16]"
    by code_simp
  ultimately show ?thesis by (simp add: list_all_iff)
qed

lemma unat_byte: "unat (b :: u8) < 256"
  using unsigned_less [of b] by simp

lemma of_char_byte: "(of_char (char_of (unat (b :: u8)) :: char) :: u8) = b"
  using of_char_char_of [OF unat_byte [of b]] by simp

lemma read_show_bytes:
  "lx_rest l = concat (map show_byte bs) @ dquote # rest \<Longrightarrow> \<exists>l'. read_string_body acc l = Inr (acc @ bs, l') \<and> lx_rest l' = rest"
proof (induction bs arbitrary: acc l)
  case Nil
  then show ?case by (subst read_string_body.simps) (simp add: lex_advance_def)
next
  case (Cons b bs)
  let ?rest = "concat (map show_byte bs) @ dquote # rest"
  show ?case
  proof (cases "32 \<le> unat b \<and> unat b < 127 \<and> b \<noteq> 34 \<and> b \<noteq> 92")
    case True
    let ?c = "char_of (unat b) :: char"
    have "show_byte b = [?c]" using True by (simp add: show_byte_def)
    then have l: "lx_rest l = ?c # ?rest" using Cons.prems by simp
    have b: "(of_char ?c :: u8) = b" by (rule of_char_byte)
    have ne: "?c \<noteq> dquote \<and> ?c \<noteq> backslash"
    proof (intro conjI notI)
      show False if "?c = dquote" using b True unfolding that by simp
      show False if "?c = backslash" using b True unfolding that by simp
    qed
    have "lx_rest (past ?c ?rest l) = concat (map show_byte bs) @ dquote # rest" by simp
    from Cons.IH [OF this, of "acc @ [b]"] show ?thesis
      using l ne b by (subst read_string_body.simps) (simp add: lex_advance_def)
  next
    case False
    let ?h = "hex_char (unat b div 16)" and ?n = "hex_char (unat b mod 16)"
    have "show_byte b = [backslash, CHR ''x'', ?h, ?n]" unfolding show_byte_def by (simp only: False if_False)
    then have l: "lx_rest l = backslash # CHR ''x'' # ?h # ?n # ?rest" using Cons.prems by simp
    have "unat b < 256" by (rule unat_byte)
    then have hx: "hex_nibble ?h = Some (unat b div 16)" "hex_nibble ?n = Some (unat b mod 16)"
      by (simp_all add: hex_nibble_char)
    have v: "(of_nat (unat b div 16 * 16 + unat b mod 16) :: u8) = b" by (simp only: div_mult_mod_eq) simp
    let ?l1 = "past (CHR ''x'') (?h # ?n # ?rest) (past backslash (CHR ''x'' # ?h # ?n # ?rest) l)"
    let ?l2 = "past ?n ?rest (past ?h (?n # ?rest) ?l1)"
    have "string_escape (CHR ''x'') ?l1 = Inr (b, ?l2)"
      using hx v by (simp add: string_escape_def char_escape_def lex_advance_def)
    moreover have "lx_rest ?l2 = concat (map show_byte bs) @ dquote # rest" by simp
    from Cons.IH [OF this, of "acc @ [b]"]
    obtain l' where "read_string_body (acc @ [b]) ?l2 = Inr (acc @ b # bs, l')" "lx_rest l' = rest" by auto
    ultimately show ?thesis using l by (subst read_string_body.simps) (simp add: lex_advance_def)
  qed
qed

lemma scans_string:
  assumes z: "t = (tok0 TokString (t_pos t))\<lparr>t_bytes := t_bytes t\<rparr>"
    and l: "lx_rest l = dquote # concat (map show_byte (t_bytes t)) @ dquote # rest"
  shows "scans l t rest"
proof -
  let ?l1 = "past dquote (concat (map show_byte (t_bytes t)) @ dquote # rest) l"
  obtain l' where "read_string_body [] ?l1 = Inr (t_bytes t, l')" "lx_rest l' = rest"
    using read_show_bytes [of ?l1 "t_bytes t" rest "[]"] by auto
  moreover have "scan dquote l = read_string (pos2 l) l"
    by (simp add: scan_def Let_def)
  moreover have "erase ((tok0 TokString (pos2 l))\<lparr>t_bytes := t_bytes t\<rparr>) = erase t"
    by (subst (2) z) (simp add: erase_def tok0_def)
  ultimately show ?thesis using l by (simp add: scans_def read_string_def lex_advance_def)
qed

lemma char_bytes_of_bytes: "char_bytes (string_of_bytes bs) = bs"
  by (induction bs) (simp_all add: char_bytes_def string_of_bytes_def of_char_byte)

lemma scans_line_comment:
  assumes z: "t = (tok0 TokLineComment (t_pos t))\<lparr>t_bytes := t_bytes t\<rparr>" and n: "newline \<notin> set (string_of_bytes (t_bytes t))"
    and l: "lx_rest l = ''//'' @ string_of_bytes (t_bytes t) @ rest" and sep: "rest = [] \<or> hd rest = newline"
  shows "scans l t rest"
proof -
  let ?b = "string_of_bytes (t_bytes t) @ rest"
  let ?l2 = "past (CHR ''/'') ?b (past (CHR ''/'') (CHR ''/'' # ?b) l)"
  have "list_all (\<lambda>c. c \<noteq> newline) (string_of_bytes (t_bytes t))" using n by (auto simp: list_all_iff)
  then obtain l' where "read_while (\<lambda>c. c \<noteq> newline) ?l2 = (string_of_bytes (t_bytes t), l')" "lx_rest l' = rest"
    by - (rule read_while_prefix [of ?l2 "string_of_bytes (t_bytes t)" rest "\<lambda>c. c \<noteq> newline"], use sep in auto)
  moreover have "scan (CHR ''/'') l = read_line_comment (pos2 l) l"
    using l by (simp add: scan_def Let_def second_def)
  moreover have "erase ((tok0 TokLineComment (pos2 l))\<lparr>t_bytes := t_bytes t\<rparr>) = erase t"
    by (subst (2) z) (simp add: erase_def tok0_def)
  ultimately show ?thesis using l by (simp add: scans_def read_line_comment_def lex_advance_def char_bytes_of_bytes)
qed

lemma read_block_takes:
  "lx_rest l = s @ ''*/'' @ rest \<Longrightarrow> no_close s \<Longrightarrow> \<exists>l'. read_block_body acc l = Inr (acc @ s, l') \<and> lx_rest l' = rest"
proof (induction s arbitrary: acc l)
  case Nil
  then show ?case by (subst read_block_body.simps) simp
next
  case (Cons c s)
  obtain d ds where d: "s @ ''*/'' @ rest = d # ds" by (cases s) auto
  have "\<not> (c = CHR ''*'' \<and> d = CHR ''/'')" and "no_close s" using Cons.prems(2) d by (cases s; auto)+
  moreover have "lx_rest (past c (d # ds) l) = s @ ''*/'' @ rest" using d by simp
  from Cons.IH [OF this \<open>no_close s\<close>, of "acc @ [c]"] show ?case
    using Cons.prems(1) d calculation by (subst read_block_body.simps) simp
qed

lemma scans_block_comment:
  assumes z: "t = (tok0 TokBlockComment (t_pos t))\<lparr>t_bytes := t_bytes t\<rparr>" and n: "no_close (string_of_bytes (t_bytes t))"
    and l: "lx_rest l = ''/*'' @ string_of_bytes (t_bytes t) @ ''*/'' @ rest"
  shows "scans l t rest"
proof -
  let ?b = "string_of_bytes (t_bytes t) @ ''*/'' @ rest"
  let ?l2 = "past (CHR ''*'') ?b (past (CHR ''/'') (CHR ''*'' # ?b) l)"
  obtain l' where "read_block_body [] ?l2 = Inr (string_of_bytes (t_bytes t), l')" "lx_rest l' = rest"
    using read_block_takes [of ?l2 _ rest "[]"] n by auto
  moreover have "scan (CHR ''/'') l = read_block_comment (pos2 l) l"
    using l by (simp add: scan_def Let_def second_def)
  moreover have "erase ((tok0 TokBlockComment (pos2 l))\<lparr>t_bytes := t_bytes t\<rparr>) = erase t"
    by (subst (2) z) (simp add: erase_def tok0_def)
  ultimately show ?thesis using l by (simp add: scans_def read_block_comment_def lex_advance_def char_bytes_of_bytes)
qed

lemma scans_operator:
  assumes "tok_ok t" and "t_kind t \<in> {TokDot, TokSlash, TokShl, TokShr} \<or> t_kind t = TokHash \<and> \<not> lx_at_line_start l"
    and "lx_rest l = show_tok t @ rest" and "rest = [] \<or> hd rest = CHR '' ''"
  shows "scans l t rest"
proof -
  have t: "t = tok0 (t_kind t) (t_pos t)" using assms(1,2) by (auto simp: tok_ok_def Let_def)
  have s: "second P l = False" if "lx_rest l = c # rest" "\<not> P (CHR '' '')" for P c
    using assms(4) that by (cases rest) (auto simp: second_def)
  have e: "erase (tok0 (t_kind t) (pos2 l)) = erase t" using t by (rule erase_tok0)
  have nb: "\<not> is_ident_start (CHR '' '')" by (simp add: is_ident_start_def)
  note defs = scans_def scan_def single_def double_def lex_advance_def
  consider "t_kind t = TokDot" "lx_rest l = CHR ''.'' # rest" | "t_kind t = TokSlash" "lx_rest l = CHR ''/'' # rest"
    | "t_kind t = TokShl" "lx_rest l = CHR ''<'' # CHR ''<'' # rest" | "t_kind t = TokShr" "lx_rest l = CHR ''>'' # CHR ''>'' # rest"
    | "t_kind t = TokHash" "lx_rest l = CHR ''#'' # rest" "\<not> lx_at_line_start l"
    using assms(2,3) by (auto simp: show_tok_def tok_spelling_def)
  then show ?thesis
  proof cases
    case 1
    then show ?thesis using e s [OF 1(2), of is_ident_start] nb by (simp add: defs Let_def)
  next
    case 2
    then show ?thesis
      using e s [OF 2(2), of "\<lambda>d. d = CHR ''/''"] s [OF 2(2), of "\<lambda>d. d = CHR ''*''"] by (simp add: defs Let_def)
  next
    case 3
    then show ?thesis using e by (simp add: defs second_def Let_def)
  next
    case 4
    then show ?thesis using e by (simp add: defs second_def Let_def)
  next
    case 5
    then show ?thesis using e by (simp add: defs Let_def)
  qed
qed

lemma scans_tok:
  assumes "tok_ok t" and "lx_at_line_start l \<Longrightarrow> t_kind t \<noteq> TokHash"
    and "lx_rest l = show_tok t @ rest" and "sep_ok t rest"
  shows "scans l t rest"
proof (cases "t_kind t \<in> {TokIdent, TokInt, TokLocalRef, TokString, TokLineComment, TokBlockComment, TokEOF}")
  case True
  then consider "t_kind t = TokIdent" | "t_kind t = TokInt" | "t_kind t = TokLocalRef" | "t_kind t = TokString"
    | "t_kind t = TokLineComment" | "t_kind t = TokBlockComment" | "t_kind t = TokEOF" by blast
  then show ?thesis
  proof cases
    case 1
    then show ?thesis using assms sep_blank [of t rest] by (intro scans_ident) (simp_all add: tok_ok_def Let_def show_tok_def tok_spelling_def)
  next
    case 2
    then show ?thesis using assms sep_blank [of t rest] by (intro scans_int) (simp_all add: tok_ok_def Let_def show_tok_def tok_spelling_def)
  next
    case 3
    then show ?thesis using assms sep_blank [of t rest] by (intro scans_local) (simp_all add: tok_ok_def Let_def show_tok_def)
  next
    case 4
    then show ?thesis using assms by (intro scans_string) (simp_all add: tok_ok_def Let_def show_tok_def)
  next
    case 5
    then show ?thesis using assms by (intro scans_line_comment) (simp_all add: tok_ok_def Let_def show_tok_def sep_ok_def)
  next
    case 6
    then show ?thesis using assms by (intro scans_block_comment) (simp_all add: tok_ok_def Let_def show_tok_def)
  next
    case 7
    then show ?thesis using assms(1) by (simp add: tok_ok_def Let_def)
  qed
next
  case other: False
  show ?thesis
  proof (cases "t_kind t \<in> {TokDot, TokSlash, TokShl, TokShr, TokHash}")
    case True
    then show ?thesis using assms sep_blank [of t rest] by (intro scans_operator) auto
  next
    case False
    then have "\<exists>c. show_tok t = [c] \<and> punctuation c = Some (t_kind t)"
      using other by (cases "t_kind t") (simp_all add: show_tok_def tok_spelling_def punctuation_def)
    then show ?thesis using scans_single [OF assms(1) _ _ other] assms(3) by auto
  qed
qed

section \<open>A stream of tokens\<close>

lemma show_tok_start:
  assumes "tok_ok t"
  obtains c cs where "show_tok t = c # cs" and "c \<noteq> CHR '' ''" and "c \<noteq> tab" and "c \<noteq> carriage_return"
    and "c = CHR ''#'' \<Longrightarrow> t_kind t = TokHash"
proof -
  have blank: "\<not> P c \<longrightarrow> c \<notin> A" if "\<forall>a\<in>A. P a" for P c and A :: "char set" using that by blast
  have i: "c \<notin> {CHR '' '', tab, carriage_return, CHR ''#''}" if "is_ident_start c \<or> is_digit c" for c
    using that by (auto simp: is_ident_start_def is_digit_def)
  have d: "\<exists>c cs. dec n = c # cs \<and> is_digit c" if "n < 100" for n
    using dec_digits [OF that] that is_digit_char [of n] is_digit_char [of "n div 10"] by auto
  show thesis
  proof (cases "t_kind t \<in> {TokIdent, TokInt, TokLocalRef}")
    case True
    then have "\<exists>c cs. show_tok t = c # cs \<and> (is_ident_start c \<or> is_digit c)"
      using assms d [of "unat (t_digit t)"]
      by (auto simp: tok_ok_def show_tok_def tok_spelling_def ident_ok_def Let_def split: list.splits)
        (metis list.exhaust list.pred_inject(2))+
    then show thesis using that i by (metis insertCI)
  next
    case False
    then show thesis using that assms
      by (cases "t_kind t") (auto simp: tok_ok_def show_tok_def tok_spelling_def Let_def)
  qed
qed

lemma blanks_skipped:
  assumes "list_all (\<lambda>c. c = CHR '' '') pre" and "lx_rest l = pre @ s"
    and "s = [] \<or> hd s \<notin> {CHR '' '', tab, carriage_return}"
  shows "lx_rest (skip_blanks l) = s"
proof -
  have "dropWhile (\<lambda>c. c = CHR '' '' \<or> c = tab \<or> c = carriage_return) (pre @ s) = s"
    using assms(1,3) by (induction pre) (cases s; auto)+
  then show ?thesis using assms(2) by (simp add: skip_blanks_rest)
qed

lemma next_spelled:
  assumes "list_all (\<lambda>c. c = CHR '' '') pre" and l: "lx_rest l = pre @ show_tok t @ rest"
    and ok: "tok_ok t" "lx_at_line_start l \<Longrightarrow> t_kind t \<noteq> TokHash" and sep: "sep_ok t rest"
  obtains t' l' where "next_tok l = Inr (t', l')" and "erase t' = erase t" and "lx_rest l' = rest"
proof -
  obtain c cs where t: "show_tok t = c # cs" and c: "c \<noteq> CHR '' ''" "c \<noteq> tab" "c \<noteq> carriage_return"
    and h: "c = CHR ''#'' \<Longrightarrow> t_kind t = TokHash"
    using show_tok_start [OF ok(1)] by metis
  have r: "lx_rest (skip_blanks l) = show_tok t @ rest"
    using blanks_skipped [OF assms(1) l] t c by simp
  have "scans (skip_blanks l) t rest"
    using scans_tok [OF ok(1) _ r sep] ok(2) by simp
  then obtain t' l' where n: "scan c (skip_blanks l) = Inr (t', l')" "erase t' = erase t" "lx_rest l' = rest"
    using r t by (auto simp: scans_def)
  moreover have "\<not> (c = CHR ''#'' \<and> lx_at_line_start l)" using h ok(2) by blast
  then have "next_tok l = scan c (skip_blanks l)"
    using r t by (subst next_tok.simps) (simp add: Let_def del: de_Morgan_conj)
  ultimately show thesis using that by simp
qed

lemma sep_spelled: "stream_ok b (t # ts) \<Longrightarrow>
    sep_ok t ((if t_kind t = TokLineComment then [] else '' '') @ concat (map spell ts))"
  by (cases ts) (auto simp: sep_ok_def spell_def show_tok_def)

lemma lex_spelled:
  "list_all (\<lambda>c. c = CHR '' '') pre \<Longrightarrow> lx_rest l = pre @ concat (map spell ts) \<Longrightarrow> stream_ok (lx_at_line_start l) ts
   \<Longrightarrow> \<exists>us. lex_loop l = Inr us \<and> map erase us = map erase (ts @ [tok0 TokEOF p])"
proof (induction ts arbitrary: pre l)
  case Nil
  have "lx_rest (skip_blanks l) = []" using blanks_skipped [OF Nil(1), of l "[]"] Nil(2) by simp
  then have "next_tok l = Inr (tok0 TokEOF (pos2 (skip_blanks l)), skip_blanks l)"
    by (subst next_tok.simps) (simp add: Let_def)
  then show ?case by (subst lex_loop.simps) (simp add: tok0_def erase_def)
next
  case (Cons t ts)
  let ?sep = "if t_kind t = TokLineComment then [] else '' ''"
  have l: "lx_rest l = pre @ show_tok t @ ?sep @ concat (map spell ts)" using Cons.prems(2) by (simp add: spell_def [of t])
  from Cons.prems(3) have t: "tok_ok t" "lx_at_line_start l \<Longrightarrow> t_kind t \<noteq> TokHash"
    and ts: "stream_ok (t_kind t = TokEOL) ts" by simp_all
  obtain t' l' where n: "next_tok l = Inr (t', l')" and e: "erase t' = erase t"
    and r: "lx_rest l' = ?sep @ concat (map spell ts)"
    using next_spelled [OF Cons.prems(1) l t sep_spelled [OF Cons.prems(3)]] by metis
  have k: "t_kind t' = t_kind t" using e by (rule erase_eq_kind)
  let ?l = "l'\<lparr>lx_at_line_start := (t_kind t' = TokEOL)\<rparr>"
  have "\<exists>us. lex_loop ?l = Inr us \<and> map erase us = map erase (ts @ [tok0 TokEOF p])"
    by (rule Cons.IH [of ?sep]) (use r ts k in simp_all)
  then obtain us where "lex_loop ?l = Inr us" "map erase us = map erase (ts @ [tok0 TokEOF p])" by blast
  moreover have "t_kind t' \<noteq> TokEOF" using k t(1) by (auto simp: tok_ok_def Let_def)
  ultimately show ?case using n e by (subst lex_loop.simps) simp
qed

text \<open>
  C8.  Tokens spelled in the source's own syntax and separated by blanks are lexed back: whatever
  identifiers, decimal numbers, local references, strings of any bytes, comments, operators and line
  ends the stream holds, the lexer returns these tokens with their values and an end of input, and
  nothing else; only the positions are new.
\<close>

theorem lex_show:
  assumes "stream_ok True ts"
  shows "\<exists>us. lex (concat (map spell ts)) path = Inr us \<and> map erase us = map erase (ts @ [tok0 TokEOF p])"
  unfolding lex_def by (rule lex_spelled [of "[]"]) (use assms in \<open>simp_all add: new_lexer_def\<close>)

definition sample_tokens :: "tok list" where
  "sample_tokens =
     (let z = \<lambda>k. tok0 k \<lparr>pos_file = [], pos_line = 0, pos_col = 0\<rparr> in
      [(z TokIdent)\<lparr>t_text := ''.ascii''\<rparr>, (z TokString)\<lparr>t_bytes := [104, 34, 10, 255]\<rparr>, z TokEOL,
       (z TokLocalRef)\<lparr>t_digit := 12, t_dir := CHR ''b''\<rparr>, z TokComma, z TokHash,
       (z TokInt)\<lparr>t_text := ''042'', t_int := 42\<rparr>, z TokShl, (z TokBlockComment)\<lparr>t_bytes := [42]\<rparr>,
       (z TokLineComment)\<lparr>t_bytes := [32, 42, 47]\<rparr>, z TokEOL])"

lemma sample_tokens_ok: "stream_ok True sample_tokens"
  by code_simp

lemma lex_show_witness:
  "\<exists>us. lex (concat (map spell sample_tokens)) ''a.s'' = Inr us
     \<and> map erase us = map erase (sample_tokens @ [tok0 TokEOF \<lparr>pos_file = [], pos_line = 1, pos_col = 1\<rparr>])"
  by (rule lex_show [OF sample_tokens_ok])

end
