(* ===== verification/Fe_Exprs.thy ===== *)
theory Fe_Exprs
  imports Fe_Tokens
begin

text \<open>
  Expressions from their text: an expression tree printed with the parentheses that precedence and
  left association require, lexed, parsed and evaluated, has the value of the tree.
\<close>

section \<open>Source expressions and their text\<close>

datatype sexpr =
    Num i64 | Name string | Local u8 bool | Dot
  | Bin tok_kind sexpr sexpr | Minus sexpr | Tilde sexpr | Reloc string sexpr

fun sexpr_ok :: "sexpr \<Rightarrow> bool" where
  "sexpr_ok (Name s) \<longleftrightarrow> ident_ok s"
| "sexpr_ok (Local d b) \<longleftrightarrow> unat d < 100"
| "sexpr_ok (Bin k a b) \<longleftrightarrow> 0 \<le> tok_prec k \<and> sexpr_ok a \<and> sexpr_ok b"
| "sexpr_ok (Minus a) \<longleftrightarrow> sexpr_ok a"
| "sexpr_ok (Tilde a) \<longleftrightarrow> sexpr_ok a"
| "sexpr_ok (Reloc r a) \<longleftrightarrow> ident_ok r \<and> reloc_op r \<noteq> None \<and> sexpr_ok a"
| "sexpr_ok _ \<longleftrightarrow> True"

definition plain :: "tok_kind \<Rightarrow> tok" where
  "plain k = tok0 k \<lparr>pos_file = [], pos_line = 0, pos_col = 0\<rparr>"

text \<open>
  A binary operator prints its left operand at its own level and its right one at the next; unary
  operators and relocations take a primary.
\<close>

definition parens :: "bool \<Rightarrow> tok list \<Rightarrow> tok list" where
  "parens b ts = (if b then plain TokLParen # ts @ [plain TokRParen] else ts)"

fun expr_toks :: "int \<Rightarrow> sexpr \<Rightarrow> tok list" where
  "expr_toks m (Num v) = [(plain TokInt)\<lparr>t_int := v, t_text := dec (unat v)\<rparr>]"
| "expr_toks m (Name s) = [(plain TokIdent)\<lparr>t_text := s\<rparr>]"
| "expr_toks m (Local d back) = [(plain TokLocalRef)\<lparr>t_digit := d, t_dir := (if back then CHR ''b'' else CHR ''f'')\<rparr>]"
| "expr_toks m Dot = [plain TokDot]"
| "expr_toks m (Bin k a b) =
     parens (tok_prec k < m) (expr_toks (tok_prec k) a @ plain k # expr_toks (tok_prec k + 1) b)"
| "expr_toks m (Minus a) = plain TokMinus # expr_toks 5 a"
| "expr_toks m (Tilde a) = plain TokTilde # expr_toks 5 a"
| "expr_toks m (Reloc r a) =
     [plain TokColon, (plain TokIdent)\<lparr>t_text := r\<rparr>, plain TokColon] @ expr_toks 5 a"

text \<open>The tree over the symbol ids of a table; the value of a tree is \<^const>\<open>expr_value\<close> of it.\<close>

fun lower :: "symbol_table \<Rightarrow> sexpr \<Rightarrow> expr" where
  "lower st (Num v) = Lit v"
| "lower st (Name s) = Sym (the (st_index st (char_bytes s)))"
| "lower st (Local d back) = LocalRef d (if back then 1 else 0)"
| "lower st Dot = Here"
| "lower st (Bin k a b) = Binop (the (tok_op k)) (lower st a) (lower st b)"
| "lower st (Minus a) = Unop OpNeg (lower st a)"
| "lower st (Tilde a) = Unop OpNot (lower st a)"
| "lower st (Reloc r a) = Unop (the (reloc_op r)) (lower st a)"

lemma reloc_op_rel: "reloc_op r = Some op \<Longrightarrow> op \<in> set rel_ops"
  by (auto simp: reloc_op_def op_tables split: if_splits)

lemma tok_op_binary: "0 \<le> tok_prec k \<Longrightarrow> \<exists>op. tok_op k = Some op \<and> op \<in> set binary_ops"
  by (auto simp: tok_prec_def tok_op_def op_tables split: if_splits)

lemma lower_ok: "sexpr_ok e \<Longrightarrow> expr_ok (lower st e)"
proof (induction e)
  case (Bin k a b)
  then show ?case using tok_op_binary [of k] by auto
next
  case (Reloc r a)
  then show ?case using reloc_op_rel [of r] by auto
qed simp_all

section \<open>The tokens can be spelled\<close>

lemma int_in_base_append:
  "int_in_base base v (s @ s') = sbind (int_in_base base v s) (\<lambda>v. int_in_base base v s')"
  by (induction base v s rule: int_in_base.induct) (auto split: option.splits)

lemma hex_nibble_digit: "d < 10 \<Longrightarrow> hex_nibble (char_of (48 + d :: nat)) = Some d"
  using hex_nibble_char [of d] by (simp add: hex_char_def)

lemma dec_step: "\<not> n < 10 \<Longrightarrow> dec n = dec (n div 10) @ [char_of (48 + n mod 10)]"
  by (subst dec.simps) simp

lemma dec_base: "n < 10 \<Longrightarrow> dec n = [char_of (48 + n)]"
  by (subst dec.simps) simp

lemma dec_digits_only: "dec n \<noteq> [] \<and> list_all is_digit (dec n)"
proof (induction n rule: dec.induct)
  case (1 n)
  then show ?case by (cases "n < 10") (simp_all add: dec_base dec_step is_digit_char)
qed

lemma int_in_base_dec: "int_in_base 10 0 (dec n) = Inr (of_nat n)"
proof (induction n rule: dec.induct)
  case (1 n)
  show ?case
  proof (cases "n < 10")
    case True
    then show ?thesis by (simp add: dec_base hex_nibble_digit)
  next
    case False
    have "(of_nat (n div 10) * of_nat 10 + of_nat (n mod 10) :: i64) = of_nat n"
      unfolding of_nat_mult [symmetric] of_nat_add [symmetric] by (simp only: div_mult_mod_eq)
    then show ?thesis using 1 [OF False] False
      by (simp add: dec_step int_in_base_append hex_nibble_digit)
  qed
qed

lemma plain_simps [simp]: "t_kind (plain k) = k" "tok0 k (t_pos (plain k)) = plain k" "erase (plain k) = plain k"
  by (simp_all add: plain_def tok0_def erase_def)

definition inner_tok :: "tok \<Rightarrow> bool" where
  "inner_tok t \<longleftrightarrow> tok_ok t \<and> t_kind t \<notin> {TokHash, TokEOL, TokLineComment} \<and> erase t = t"

lemma inner_stream: "list_all inner_tok ts \<Longrightarrow> stream_ok b ts"
  by (induction ts arbitrary: b) (auto simp: inner_tok_def)

lemma inner_erase: "list_all inner_tok ts \<Longrightarrow> map erase ts = ts"
  by (induction ts) (auto simp: inner_tok_def)

lemma inner_plain:
  "k \<notin> {TokEOF, TokIdent, TokInt, TokLocalRef, TokString, TokLineComment, TokBlockComment, TokHash, TokEOL} \<Longrightarrow> inner_tok (plain k)"
  by (cases k) (simp_all add: inner_tok_def tok_ok_def Let_def)

lemma inner_op: "0 \<le> tok_prec k \<Longrightarrow> inner_tok (plain k)"
  by (rule inner_plain) (auto simp: tok_prec_def)

lemma tok_ok_fields:
  "tok_ok ((plain TokIdent)\<lparr>t_text := s\<rparr>) = ident_ok s"
  "tok_ok ((plain TokInt)\<lparr>t_int := v, t_text := s\<rparr>) = (s \<noteq> [] \<and> list_all is_digit s \<and> parse_int_in_base s 10 = Inr v)"
  "tok_ok ((plain TokLocalRef)\<lparr>t_digit := d, t_dir := c\<rparr>) = (unat d < 100 \<and> c \<in> {CHR ''f'', CHR ''b''})"
  by (simp_all add: tok_ok_def Let_def plain_def tok0_def)

lemma inner_fields:
  "ident_ok s \<Longrightarrow> inner_tok ((plain TokIdent)\<lparr>t_text := s\<rparr>)"
  "inner_tok ((plain TokInt)\<lparr>t_int := v, t_text := dec (unat v)\<rparr>)"
  "unat d < 100 \<Longrightarrow> c \<in> {CHR ''f'', CHR ''b''} \<Longrightarrow> inner_tok ((plain TokLocalRef)\<lparr>t_digit := d, t_dir := c\<rparr>)"
  by (simp_all add: inner_tok_def tok_ok_fields parse_int_in_base_def int_in_base_dec dec_digits_only)
    (simp_all add: plain_def tok0_def erase_def)

lemma expr_toks_inner: "sexpr_ok e \<Longrightarrow> list_all inner_tok (expr_toks m e)"
  by (induction e arbitrary: m) (auto simp: parens_def inner_fields inner_op inner_plain)

section \<open>Parsing\<close>

definition at :: "parser \<Rightarrow> tok list \<Rightarrow> bool" where
  "at p ts \<longleftrightarrow> map erase (p_toks p) = ts"

lemma at_Cons:
  assumes "at p (u # ts)"
  obtains t where "cur p = Inr t" and "erase t = u" and "at (bump p) ts"
  using assms by (auto simp: at_def cur_def)

lemma erase_fields: "erase t = u \<Longrightarrow> t_kind t = t_kind u \<and> t_text t = t_text u \<and> t_int t = t_int u
    \<and> t_digit t = t_digit u \<and> t_dir t = t_dir u"
  by (auto simp: erase_def)

lemma plain_fields [simp]: "t_text (plain k) = []" "t_int (plain k) = 0" "t_digit (plain k) = 0"
  by (simp_all add: plain_def tok0_def)

text \<open>From one parser to another past an expression: the table grows, the buffer gains the tree's code.\<close>

definition parsed :: "bytes \<Rightarrow> sexpr \<Rightarrow> parser \<Rightarrow> bytes \<Rightarrow> parser \<Rightarrow> bool" where
  "parsed w e p w' p' \<longleftrightarrow>
     p_recs p' = p_recs p \<and> st_index (p_st p) \<subseteq>\<^sub>m st_index (p_st p')
     \<and> (\<forall>st. st_index (p_st p') \<subseteq>\<^sub>m st_index st \<longrightarrow> w' = write_expr w (lower st e))"

lemma at_bump_intern: "at p (t # ts) \<Longrightarrow> intern_text s p = (n, p') \<Longrightarrow> at (bump p') ts"
  by (auto simp: at_def)

lemma intern_text_index:
  assumes "intern_text s p = (n, p')"
  shows "p_recs p' = p_recs p \<and> st_index (p_st p) \<subseteq>\<^sub>m st_index (p_st p') \<and> st_index (p_st p') (char_bytes s) = Some n"
proof -
  obtain n' st where i': "intern (char_bytes s) (p_st p) = (n', st)" by (cases "intern (char_bytes s) (p_st p)")
  then have "n' = n" and p': "p' = p\<lparr>p_st := st\<rparr>" using assms unfolding intern_text_def by simp_all
  with i' have i: "intern (char_bytes s) (p_st p) = (n, st)" by simp
  have "st_index (p_st p) \<subseteq>\<^sub>m st_index st \<and> st_index st (char_bytes s) = Some n"
    using i unfolding intern_def Let_def
    by (cases "st_index (p_st p) (char_bytes s)") (simp_all add: map_le_def domIff, auto)
  then show ?thesis unfolding p' by simp
qed

definition climbs :: "sexpr \<Rightarrow> int \<Rightarrow> bool" where
  "climbs e n \<longleftrightarrow> (\<forall>w m p rest. at p (expr_toks n e @ rest) \<longrightarrow> rest \<noteq> [] \<longrightarrow> 0 \<le> m \<longrightarrow> m \<le> n \<longrightarrow>
     tok_prec (t_kind (hd rest)) \<le> n \<longrightarrow>
     (\<exists>w' p'. expr_prec w m p = expr_ops w' m p' \<and> at p' rest \<and> parsed w e p w' p'))"

definition primary :: "sexpr \<Rightarrow> bool" where
  "primary e \<longleftrightarrow> (\<forall>w p rest. at p (expr_toks 5 e @ rest) \<longrightarrow>
     (\<exists>w' p'. expr_primary w p = Inr (w', p') \<and> at p' rest \<and> parsed w e p w' p'))"

lemma primaryD:
  assumes "primary e" and "at p (expr_toks 5 e @ rest)"
  obtains w' p' where "expr_primary w p = Inr (w', p')" and "at p' rest" and "parsed w e p w' p'"
  using assms unfolding primary_def by blast

lemma climbsD:
  assumes "climbs e n" and "at p (expr_toks n e @ rest)" and "rest \<noteq> []" and "0 \<le> m" and "m \<le> n"
    and "tok_prec (t_kind (hd rest)) \<le> n"
  obtains w' p' where "expr_prec w m p = expr_ops w' m p'" and "at p' rest" and "parsed w e p w' p'"
  using assms unfolding climbs_def by blast

lemma primary_climbs:
  assumes "primary e" and "expr_toks n e = expr_toks 5 e"
  shows "climbs e n"
  unfolding climbs_def assms(2)
proof (intro allI impI)
  fix w m p rest
  assume "at p (expr_toks 5 e @ rest)"
  then obtain w' p' where "expr_primary w p = Inr (w', p')" "at p' rest" "parsed w e p w' p'"
    using primaryD [OF assms(1)] by metis
  then show "\<exists>w' p'. expr_prec w m p = expr_ops w' m p' \<and> at p' rest \<and> parsed w e p w' p'"
    by (auto simp: expr_prec.simps)
qed

lemma parsed_Bin:
  assumes "parsed w a p w1 p1" and "parsed w1 b (bump p1) w2 p2" and "tok_op k = Some op"
  shows "parsed w (Bin k a b) p (write_op w2 op) p2"
  using assms unfolding parsed_def by (auto intro: map_le_trans)

lemma parsed_Unop:
  assumes "parsed w a (bump p) w1 p1" and "\<And>st. lower st e = Unop op (lower st a)"
  shows "parsed w e p (write_op w1 op) p1"
  using assms unfolding parsed_def by auto

lemma climbs_Bin:
  assumes a: "climbs a (tok_prec k)" and b: "climbs b (tok_prec k + 1)" and k: "0 \<le> tok_prec k" and n: "n \<le> tok_prec k"
  shows "climbs (Bin k a b) n"
  unfolding climbs_def
proof (intro allI impI)
  fix w m p rest
  let ?k = "tok_prec k"
  assume t: "at p (expr_toks n (Bin k a b) @ rest)" and rest: "rest \<noteq> []" and m: "0 \<le> m" "m \<le> n"
    and r: "tok_prec (t_kind (hd rest)) \<le> n"
  have t: "at p (expr_toks ?k a @ plain k # expr_toks (?k + 1) b @ rest)" using t n by (simp add: parens_def)
  obtain w1 p1 where 1: "expr_prec w m p = expr_ops w1 m p1" "parsed w a p w1 p1"
    and p1: "at p1 (plain k # expr_toks (?k + 1) b @ rest)"
    using climbsD [OF a t, of m] m n by (metis list.distinct(1) list.sel(1) order.refl order.trans plain_simps(1))
  obtain u where u: "cur p1 = Inr u" "t_kind u = k" "at (bump p1) (expr_toks (?k + 1) b @ rest)"
    using at_Cons [OF p1] erase_fields plain_simps(1) by metis
  obtain w2 p2 where 2: "expr_prec w1 (?k + 1) (bump p1) = expr_ops w2 (?k + 1) p2" "parsed w1 b (bump p1) w2 p2"
    and p2: "at p2 rest"
    by (rule climbsD [OF b u(3) rest, of "?k + 1" w1]) (use k n r in auto)
  obtain v where v: "cur p2 = Inr v" "t_kind v = t_kind (hd rest)"
    using at_Cons [of p2 "hd rest" "tl rest"] p2 rest erase_fields by (metis list.collapse)
  have "expr_ops w2 (?k + 1) p2 = Inr (w2, p2)"
    using v r n by (subst expr_ops.simps) simp
  then have "expr_prec w m p = expr_ops (write_tok_op w2 k) m p2"
    unfolding 1(1) using u 2 m n by (subst expr_ops.simps) simp
  moreover obtain op where op: "tok_op k = Some op" using tok_op_binary [OF k] by blast
  ultimately show "\<exists>w' p'. expr_prec w m p = expr_ops w' m p' \<and> at p' rest \<and> parsed w (Bin k a b) p w' p'"
    using parsed_Bin [OF 1(2) 2(2) op] p2 by (auto simp: write_tok_op_def)
qed

lemma primary_Bin:
  assumes "climbs (Bin k a b) 0"  and k: "0 \<le> tok_prec k"
  shows "primary (Bin k a b)"
  unfolding primary_def
proof (intro allI impI)
  fix w p rest
  let ?e = "Bin k a b"
  have "tok_prec k < 5" by (simp add: tok_prec_def)
  then have e5: "expr_toks 5 ?e = plain TokLParen # expr_toks 0 ?e @ [plain TokRParen]" using k by (simp add: parens_def)
  assume "at p (expr_toks 5 ?e @ rest)"
  then have "at p (plain TokLParen # expr_toks 0 ?e @ plain TokRParen # rest)" by (simp only: e5 append_Cons append_assoc append_Nil)
  then obtain t where t: "cur p = Inr t" "t_kind t = TokLParen" "at (bump p) (expr_toks 0 ?e @ plain TokRParen # rest)"
    using at_Cons erase_fields plain_simps(1) by metis
  obtain w1 p1 where 1: "expr_prec w 0 (bump p) = expr_ops w1 0 p1" "parsed w ?e (bump p) w1 p1" and p1: "at p1 (plain TokRParen # rest)"
    by (rule climbsD [OF assms(1) t(3), of 0 w]) (auto simp: tok_prec_def)
  obtain u where u: "cur p1 = Inr u" "t_kind u = TokRParen" "at (bump p1) rest"
    using at_Cons [OF p1] erase_fields plain_simps(1) by metis
  have "expr_ops w1 0 p1 = Inr (w1, p1)" using u by (subst expr_ops.simps) (simp add: tok_prec_def)
  then have "expr_primary w p = Inr (w1, bump p1)" using t u 1(1) by (subst expr_primary.simps) simp
  moreover have "parsed w ?e p w1 (bump p1)" using 1(2) by (simp add: parsed_def)
  ultimately show "\<exists>w' p'. expr_primary w p = Inr (w', p') \<and> at p' rest \<and> parsed w ?e p w' p'" using u(3) by blast
qed

lemma primary_leaf:
  assumes "\<And>w p t. cur p = Inr t \<Longrightarrow> erase t = u \<Longrightarrow>
      \<exists>w' p'. expr_primary w p = Inr (w', bump p') \<and> p_toks p' = p_toks p \<and> parsed w e p w' p'"
    and "expr_toks 5 e = [u]"
  shows "primary e"
  unfolding primary_def assms(2)
proof (intro allI impI)
  fix w p rest
  assume "at p ([u] @ rest)"
  then obtain t where t: "cur p = Inr t" "erase t = u" "at (bump p) rest" using at_Cons by (metis append_Cons append_Nil)
  from assms(1) [OF t(1,2), of w] obtain w' p' where "expr_primary w p = Inr (w', bump p')" "p_toks p' = p_toks p" "parsed w e p w' p'"
    by blast
  then show "\<exists>w' p'. expr_primary w p = Inr (w', p') \<and> at p' rest \<and> parsed w e p w' p'"
    using t(3) by (intro exI [of _ w'] exI [of _ "bump p'"]) (simp add: at_def parsed_def)
qed

lemma map_le_Some: "f \<subseteq>\<^sub>m g \<Longrightarrow> f x = Some y \<Longrightarrow> g x = Some y"
  by (force simp: map_le_def)

lemma primary_Name: "primary (Name s)"
proof (rule primary_leaf)
  fix w p t
  assume t: "cur p = Inr t" "erase t = (plain TokIdent)\<lparr>t_text := s\<rparr>"
  obtain n p' where n: "intern_text s p = (n, p')" by (cases "intern_text s p")
  have "expr_primary w p = Inr (write_sym w n, bump p')"
    using t(1) erase_fields [OF t(2)] n by (subst expr_primary.simps) simp
  moreover have "parsed w (Name s) p (write_sym w n) p'"
    using intern_text_index [OF n] unfolding parsed_def by (auto dest: map_le_Some)
  ultimately show "\<exists>w' p'. expr_primary w p = Inr (w', bump p') \<and> p_toks p' = p_toks p \<and> parsed w (Name s) p w' p'"
    using intern_text_toks [OF n] by blast
qed simp

lemma primary_Num: "primary (Num v)"
proof (rule primary_leaf)
  show "\<exists>w' p'. expr_primary w p = Inr (w', bump p') \<and> p_toks p' = p_toks p \<and> parsed w (Num v) p w' p'"
    if "cur p = Inr t" "erase t = (plain TokInt)\<lparr>t_int := v, t_text := dec (unat v)\<rparr>" for w p t
    using that(1) erase_fields [OF that(2)] by (subst expr_primary.simps) (auto simp: parsed_def)
qed simp

lemma primary_Local: "primary (Local d b)"
proof (rule primary_leaf)
  show "\<exists>w' p'. expr_primary w p = Inr (w', bump p') \<and> p_toks p' = p_toks p \<and> parsed w (Local d b) p w' p'"
    if "cur p = Inr t" "erase t = (plain TokLocalRef)\<lparr>t_digit := d, t_dir := (if b then CHR ''b'' else CHR ''f'')\<rparr>" for w p t
    using that(1) erase_fields [OF that(2)] by (subst expr_primary.simps) (auto simp: parsed_def)
qed simp

lemma primary_Dot: "primary Dot"
proof (rule primary_leaf)
  show "\<exists>w' p'. expr_primary w p = Inr (w', bump p') \<and> p_toks p' = p_toks p \<and> parsed w Dot p w' p'"
    if "cur p = Inr t" "erase t = plain TokDot" for w p t
    using that(1) erase_fields [OF that(2)] by (subst expr_primary.simps) (auto simp: parsed_def)
qed simp

text \<open>A unary operator: the tokens before its operand, which the parser passes.\<close>

lemma primary_unary:
  assumes "primary a" and "expr_toks 5 e = us @ expr_toks 5 a" and "\<And>st. lower st e = Unop op (lower st a)"
    and "\<And>w p ts. at p (us @ ts) \<Longrightarrow> \<exists>q. at q ts \<and> p_st q = p_st p \<and> p_recs q = p_recs p
      \<and> expr_primary w p = sbind (expr_primary w q) (\<lambda>(w, p). Inr (write_op w op, p))"
  shows "primary e"
  unfolding primary_def
proof (intro allI impI)
  fix w p rest
  assume "at p (expr_toks 5 e @ rest)"
  then have "at p (us @ expr_toks 5 a @ rest)" by (simp add: assms(2))
  from assms(4) [OF this, of w] obtain q where q: "at q (expr_toks 5 a @ rest)" "p_st q = p_st p" "p_recs q = p_recs p"
    and e: "expr_primary w p = sbind (expr_primary w q) (\<lambda>(w, p). Inr (write_op w op, p))" by blast
  obtain w1 p1 where "expr_primary w q = Inr (w1, p1)" "at p1 rest" and a: "parsed w a q w1 p1"
    using primaryD [OF assms(1) q(1)] by metis
  moreover have "parsed w e p (write_op w1 op) p1" using a q(2,3) by (simp add: parsed_def assms(3))
  ultimately show "\<exists>w' p'. expr_primary w p = Inr (w', p') \<and> at p' rest \<and> parsed w e p w' p'" using e by auto
qed

lemma at_kind:
  assumes "at p (u # ts)"
  obtains t where "cur p = Inr t" and "t_kind t = t_kind u" and "t_text t = t_text u" and "at (bump p) ts"
  using at_Cons [OF assms] erase_fields by metis

lemma primary_Minus: "primary a \<Longrightarrow> primary (Minus a)"
proof (rule primary_unary [of a _ "[plain TokMinus]" OpNeg])
  fix w p ts
  assume "at p ([plain TokMinus] @ ts)"
  then obtain t where "cur p = Inr t" "t_kind t = TokMinus" "at (bump p) ts" using at_kind by (metis append_Cons append_Nil plain_simps(1))
  then show "\<exists>q. at q ts \<and> p_st q = p_st p \<and> p_recs q = p_recs p
      \<and> expr_primary w p = sbind (expr_primary w q) (\<lambda>(w, p). Inr (write_op w OpNeg, p))"
    by (intro exI [of _ "bump p"]) (simp add: expr_primary.simps [of w p])
qed simp_all

lemma primary_Tilde: "primary a \<Longrightarrow> primary (Tilde a)"
proof (rule primary_unary [of a _ "[plain TokTilde]" OpNot])
  fix w p ts
  assume "at p ([plain TokTilde] @ ts)"
  then obtain t where "cur p = Inr t" "t_kind t = TokTilde" "at (bump p) ts" using at_kind by (metis append_Cons append_Nil plain_simps(1))
  then show "\<exists>q. at q ts \<and> p_st q = p_st p \<and> p_recs q = p_recs p
      \<and> expr_primary w p = sbind (expr_primary w q) (\<lambda>(w, p). Inr (write_op w OpNot, p))"
    by (intro exI [of _ "bump p"]) (simp add: expr_primary.simps [of w p])
qed simp_all

lemma primary_Reloc:
  assumes "primary a" and r: "reloc_op r = Some op"
  shows "primary (Reloc r a)"
proof (rule primary_unary [of a _ "[plain TokColon, (plain TokIdent)\<lparr>t_text := r\<rparr>, plain TokColon]" op])
  fix w p ts
  assume "at p ([plain TokColon, (plain TokIdent)\<lparr>t_text := r\<rparr>, plain TokColon] @ ts)"
  then have p: "at p (plain TokColon # (plain TokIdent)\<lparr>t_text := r\<rparr> # plain TokColon # ts)" by simp
  obtain t where t: "cur p = Inr t" "t_kind t = TokColon" "at (bump p) ((plain TokIdent)\<lparr>t_text := r\<rparr> # plain TokColon # ts)"
    using at_kind [OF p] by auto
  obtain u where u: "cur (bump p) = Inr u" "t_kind u = TokIdent" "t_text u = r" "at (bump (bump p)) (plain TokColon # ts)"
    using at_kind [OF t(3)] by auto
  obtain v where v: "cur (bump (bump p)) = Inr v" "t_kind v = TokColon" "at (bump (bump (bump p))) ts"
    using at_kind [OF u(4)] by auto
  show "\<exists>q. at q ts \<and> p_st q = p_st p \<and> p_recs q = p_recs p
      \<and> expr_primary w p = sbind (expr_primary w q) (\<lambda>(w, p). Inr (write_op w op, p))"
    by (intro exI [of _ "bump (bump (bump p))"] conjI)
      (use t u v r in \<open>simp_all add: expr_primary.simps [of w p]\<close>)
qed (use assms in simp_all)

lemma sexpr_parses: "sexpr_ok e \<Longrightarrow> primary e \<and> (n \<le> 5 \<longrightarrow> climbs e n)"
proof (induction e arbitrary: n)
  case (Bin k a b)
  have k: "0 \<le> tok_prec k" "tok_prec k \<le> 4" using Bin.prems by (simp_all add: tok_prec_def)
  have u: "climbs (Bin k a b) m" if "m \<le> tok_prec k" for m
    using climbs_Bin [OF _ _ k(1) that] Bin.IH(1) [of "tok_prec k"] Bin.IH(2) [of "tok_prec k + 1"] Bin.prems k by simp
  have p: "primary (Bin k a b)" using primary_Bin [OF u k(1)] k by simp
  have "climbs (Bin k a b) n" if "tok_prec k < n"
    by (rule primary_climbs [OF p]) (use that k in \<open>simp add: parens_def\<close>)
  with u p show ?case by (cases "n \<le> tok_prec k") auto
next
  case (Reloc r a)
  then show ?case using primary_Reloc [of a r] primary_climbs [of "Reloc r a" n] by auto
qed (use primary_Num primary_Name primary_Local primary_Dot primary_Minus primary_Tilde primary_climbs in auto)

section \<open>From the text to the value\<close>

lemma eval_lowered: "sexpr_ok e \<Longrightarrow> eval (write_expr [] (lower st e)) ctx = expr_value ctx (lower st e)"
  using eval_loop_expr [OF lower_ok, of e ctx st "[]" "[]"]
  by (cases "expr_value ctx (lower st e)") (simp_all add: eval_def eval_loop.simps [of _ "[]"])

lemma eval_folded:
  assumes "eval_const w = Some v"
  shows "eval (write_imm [] v) ctx = eval w ctx"
  using assms eval_const_no_dep [of w "[]" v] eval_loop_const [of w ctx "[]" v] eval_loop_imm [of ctx v "[]" "[]"]
  by (simp add: eval_def eval_const_def eval_loop.simps [of _ "[]"])

definition new_parser :: "tok list \<Rightarrow> symbol_table \<Rightarrow> parser" where
  "new_parser ts st = \<lparr>p_toks = ts, p_st = st, p_recs = []\<rparr>"

text \<open>
  C3.  Precedence, associativity and folding of the expression parser, from the text on: an
  expression printed with only the parentheses that the operator levels and left association need
  is lexed and parsed up to the end of the input, and the bytecode written, folded where it is
  constant, evaluates in every context to the value of the expression, errors included; a name means
  the id that the parser's symbol table gives it.
\<close>

theorem expression_text_value:
  assumes "sexpr_ok e"
  shows "\<exists>us w p. lex (concat (map spell (expr_toks 0 e))) path = Inr us
     \<and> parse_expression (new_parser us st) = Inr (w, p) \<and> map t_kind (p_toks p) = [TokEOF]
     \<and> (\<forall>ctx. eval w ctx = expr_value ctx (lower (p_st p) e))"
proof -
  let ?eof = "plain TokEOF"
  have "stream_ok True (expr_toks 0 e)" by (rule inner_stream [OF expr_toks_inner [OF assms]])
  then have "\<exists>us. lex_loop (new_lexer (concat (map spell (expr_toks 0 e))) path) = Inr us
      \<and> map erase us = map erase (expr_toks 0 e @ [?eof])"
    by (intro lex_spelled [of "[]", where p = "t_pos ?eof", unfolded plain_simps]) (simp_all add: new_lexer_def)
  then obtain us where l: "lex (concat (map spell (expr_toks 0 e))) path = Inr us" and us: "map erase us = expr_toks 0 e @ [?eof]"
    using inner_erase [OF expr_toks_inner [OF assms]] by (auto simp: lex_def)
  have "at (new_parser us st) (expr_toks 0 e @ [?eof])" using us by (simp add: at_def new_parser_def)
  moreover have "climbs e 0" using sexpr_parses [OF assms, of 0] by simp
  ultimately obtain w p where w: "expr_prec [] 0 (new_parser us st) = expr_ops w 0 p" and p: "at p [?eof]"
    and c: "parsed [] e (new_parser us st) w p"
    using climbsD [of e 0 "new_parser us st" "[?eof]" 0 "[]"] by (auto simp: tok_prec_def)
  obtain t where "cur p = Inr t" "t_kind t = TokEOF" using at_kind [OF p] by auto
  then have "expr_prec [] 0 (new_parser us st) = Inr (w, p)" unfolding w by (subst expr_ops.simps) (simp add: tok_prec_def)
  moreover have k: "map t_kind (p_toks p) = [TokEOF]"
    using p by (auto simp: at_def map_eq_Cons_conv dest: erase_fields)
  moreover have "w = write_expr [] (lower (p_st p) e)" using c map_le_refl unfolding parsed_def by blast
  then have v: "eval w ctx = expr_value ctx (lower (p_st p) e)" for ctx using eval_lowered [OF assms] by simp
  ultimately show ?thesis
    using l eval_folded [of w] by (cases "eval_const w") (auto simp: parse_expression_def)
qed

definition sample_expr :: sexpr where
  "sample_expr = Bin TokMinus (Bin TokStar (Bin TokPlus (Name ''a'') (Num 3)) (Minus (Reloc ''lo12'' (Name ''b'')))) (Bin TokMinus Dot (Num 2))"

lemma sample_expr_text: "concat (map spell (expr_toks 0 sample_expr)) = ''( a + 3 ) * - : lo12 : b - ( . - 2 ) ''"
  by code_simp

lemma expression_text_value_witness:
  "\<exists>us w p. lex ''( a + 3 ) * - : lo12 : b - ( . - 2 ) '' ''a.s'' = Inr us
     \<and> parse_expression (new_parser us new_symbol_table) = Inr (w, p) \<and> map t_kind (p_toks p) = [TokEOF]
     \<and> (\<forall>ctx. eval w ctx = expr_value ctx (lower (p_st p) sample_expr))"
proof -
  have "sexpr_ok sample_expr" by code_simp
  from expression_text_value [OF this, of "''a.s''" new_symbol_table] show ?thesis by (simp only: sample_expr_text)
qed

end
