(* ===== verification/Fe_Preproc_Props.thy ===== *)
theory Fe_Preproc_Props
  imports Fe_Preproc Fe_Exprs
begin

text \<open>
  The preprocessor: source without directives reaches the lexer unchanged, positions included; a
  false conditional block contributes nothing; an include cycle is never left.
\<close>

section \<open>Line directives in the lexer\<close>

lemma line_number_append: "line_number (s @ [c]) = line_number s * 10 + (of_char c - 48)"
  by (simp add: line_number_def)

lemma line_number_dec: "line_number (dec n) = of_nat n"
proof (induction n rule: dec.induct)
  case (1 n)
  have d: "(of_char (char_of (48 + d :: nat) :: char) :: i64) - 48 = of_nat d" if "d < 10" for d
  proof -
    have "(of_char (char_of (48 + d :: nat) :: char) :: nat) = 48 + d" using that by (simp add: of_char_of)
    then have "(of_char (char_of (48 + d :: nat) :: char) :: i64) = of_nat (48 + d)" by (metis of_nat_of_char)
    then show ?thesis by simp
  qed
  show ?case
  proof (cases "n < 10")
    case True
    then show ?thesis using d [OF True] by (simp add: dec_base line_number_def)
  next
    case False
    have "(of_nat (n div 10) * of_nat 10 + of_nat (n mod 10) :: i64) = of_nat n"
      unfolding of_nat_mult [symmetric] of_nat_add [symmetric] by (simp only: div_mult_mod_eq)
    then show ?thesis using 1 [OF False] False d [of "n mod 10"]
      by (simp add: dec_step line_number_append)
  qed
qed

text \<open>A line directive sets the position of the next line and leaves no token.\<close>

definition lexer_at :: "string \<Rightarrow> nat \<Rightarrow> string \<Rightarrow> lexer" where
  "lexer_at path n s = \<lparr>lx_rest = s, lx_path = path, lx_line = of_nat n, lx_col = 1, lx_at_line_start = True\<rparr>"

lemma line_directive_consumed:
  assumes "dquote \<notin> set path" and "newline \<notin> set path" and "lx_rest l = line_directive path n @ s"
  shows "try_consume_line_directive l = Some (lexer_at path n s)"
proof -
  have d: "takeWhile is_digit (dec n @ CHR '' '' # x) = dec n" "dropWhile is_digit (dec n @ CHR '' '' # x) = CHR '' '' # x" for x
    using dec_digits_only [of n] not_ident_blank(3)
    by (simp_all add: takeWhile_append dropWhile_append list_all_iff)
  obtain c cs where c: "dec n = c # cs" "is_digit c" using dec_digits_only [of n] by (cases "dec n") auto
  have "\<not> is_blank c" using c(2) by (auto simp: is_blank_def is_digit_def)
  then have b: "dropWhile is_blank (CHR '' '' # dec n @ x) = dec n @ x" for x using c(1) by (simp add: is_blank_def)
  have p: "takeWhile (\<lambda>c. c \<noteq> dquote \<and> c \<noteq> newline) (path @ dquote # x) = path"
    "dropWhile (\<lambda>c. c \<noteq> dquote \<and> c \<noteq> newline) (path @ dquote # x) = dquote # x" for x
    using assms(1,2) by (induction path) auto
  have q: "dropWhile is_blank (CHR '' '' # dquote # x) = dquote # x" for x by (simp add: is_blank_def)
  have n: "dropWhile (\<lambda>c. is_blank c \<or> c = carriage_return) (newline # x) = newline # x" for x by (simp add: is_blank_def)
  have l: "tl (lx_rest l) = CHR '' '' # dec n @ CHR '' '' # dquote # path @ dquote # newline # s"
    using assms(3) by (simp add: line_directive_def)
  show ?thesis
    unfolding try_consume_line_directive_def l Let_def
    using c(2) by (simp del: dropWhile.simps takeWhile.simps add: b [unfolded c(1) append_Cons] d [unfolded c(1) append_Cons]
        p q n c(1) line_number_dec [of n, unfolded c(1)] lexer_at_def)
qed

lemma lex_line_directive:
  assumes "dquote \<notin> set path" and "newline \<notin> set path" and "lx_rest l = line_directive path n @ s" and "lx_at_line_start l"
  shows "lex_loop l = lex_loop (lexer_at path n s)"
proof -
  have s: "lx_rest (skip_blanks l) = line_directive path n @ s"
    by (rule blanks_skipped [of "[]"]) (use assms(3) in \<open>simp_all add: line_directive_def\<close>)
  obtain cs where "line_directive path n @ s = CHR ''#'' # cs" by (simp add: line_directive_def)
  then have "next_tok l = next_tok (lexer_at path n s)"
    using line_directive_consumed [OF assms(1,2) s] s assms(4) by (subst next_tok.simps) (simp add: Let_def)
  then show ?thesis by (subst (1 2) lex_loop.simps) simp
qed

section \<open>Source without directives\<close>

definition plain_line :: "string \<Rightarrow> bool" where
  "plain_line l \<longleftrightarrow>
     (let t = trim_left l in \<not> is_if_line t \<and> \<not> is_else_line t \<and> \<not> is_endif_line t \<and> \<not> is_macro_line t
        \<and> \<not> is_endm_line t \<and> try_parse_include t = None)"

definition unlines :: "string list \<Rightarrow> string" where
  "unlines ls = concat (map (\<lambda>l. l @ [newline]) ls)"

lemma unlines_simps [simp]: "unlines [] = []" "unlines (l # ls) = l @ newline # unlines ls"
  by (simp_all add: unlines_def)

lemma normalise_none: "carriage_return \<notin> set s \<Longrightarrow> normalise_crlf s = s"
  by (induction s rule: normalise_crlf.induct) auto

lemma split_on_ne [simp]: "split_on sep s \<noteq> []"
  by (induction s) (auto split: list.split)

lemma unlines_split_on: "unlines (butlast (split_on newline s)) @ last (split_on newline s) = s"
proof (induction s)
  case (Cons c s)
  obtain p ps where "split_on newline s = p # ps" by (cases "split_on newline s") auto
  with Cons show ?case by (cases ps) auto
qed simp

lemma last_split_on: "s \<noteq> [] \<Longrightarrow> last s = newline \<Longrightarrow> last (split_on newline s) = []"
proof (induction s)
  case (Cons c s)
  show ?case
  proof (cases "s = []")
    case False
    obtain p ps where sp: "split_on newline s = p # ps" by (cases "split_on newline s") auto
    have "last (p # ps) = []" using Cons False sp by simp
    moreover have "ps \<noteq> []" using unlines_split_on [of s] sp False calculation by auto
    ultimately show ?thesis using sp by simp
  qed (use Cons.prems in simp)
qed simp

text \<open>
  The lines of a text, each ended by a line feed, are the text itself when it has no carriage return
  and ends in a line feed.
\<close>

lemma unlines_split_lines:
  assumes "carriage_return \<notin> set src" and "src = [] \<or> last src = newline"
  shows "unlines (split_lines src) = src"
proof (cases "src = []")
  case False
  then have "last (split_on newline src) = []" using assms(2) last_split_on by blast
  then show ?thesis
    using False unlines_split_on [of src] by (simp add: split_lines_def normalise_none [OF assms(1)])
qed (simp add: split_lines_def)

lemma active_frame0 [simp]: "all_active [frame0]"
  by (simp add: all_active_def frame0_def)

lemma record_set_fields [simp]: "pp_macros (record_set t pp) = pp_macros pp" "pp_out (record_set t pp) = pp_out pp"
  by (auto simp: record_set_def split: option.splits)

lemma process_plain_line:
  assumes "plain_line l" and "pp_macros pp = Map.empty" and "all_active stack"
  shows "process_lines (Suc k) env (l # ls) path n stack pp
    = process_lines (Suc k) env ls path (n + 1) stack (write_out (l @ [newline]) (record_set (trim_left l) pp))"
  using assms by (simp add: plain_line_def find_macro_def Let_def)

lemma process_plain:
  "list_all plain_line ls \<Longrightarrow> pp_macros pp = Map.empty \<Longrightarrow>
   \<exists>pp'. process_lines (Suc k) env ls path n [frame0] pp = Some (Inr pp') \<and> pp_out pp' = pp_out pp @ unlines ls"
proof (induction ls arbitrary: n pp)
  case (Cons l ls)
  let ?pp = "write_out (l @ [newline]) (record_set (trim_left l) pp)"
  have "pp_macros ?pp = Map.empty" using Cons.prems(2) by (simp add: write_out_def)
  then obtain pp' where "process_lines (Suc k) env ls path (n + 1) [frame0] ?pp = Some (Inr pp')"
    "pp_out pp' = pp_out ?pp @ unlines ls"
    using Cons.IH [of ?pp "n + 1"] Cons.prems(1) by auto
  then show ?case using process_plain_line [of l pp "[frame0]"] Cons.prems by (simp add: write_out_def)
qed simp

lemma preprocess_plain:
  assumes "list_all plain_line (split_lines src)"
  shows "preprocess (Suc k) env src path = Some (Inr (line_directive path 1 @ unlines (split_lines src)))"
proof -
  have "\<exists>pp'. process_lines (Suc k) env (split_lines src) path 1 [frame0] (emit_line_directive path 1 new_preproc) = Some (Inr pp')
      \<and> pp_out pp' = pp_out (emit_line_directive path 1 new_preproc) @ unlines (split_lines src)"
    by (rule process_plain [OF assms]) (simp add: emit_line_directive_def write_out_def new_preproc_def)
  then show ?thesis
    by (auto simp: preprocess_def process_file_def rbind_def emit_line_directive_def write_out_def new_preproc_def)
qed

text \<open>
  C39. Source without conditionals, macros and includes, from a path without quote or line feed, is
  transparent to the preprocessor: whatever the file system, the output is lexed into the very tokens,
  and the very positions, errors included, that the lexer gives for the source with every line ended by
  one line feed; that is, with carriage return and line feed as line feed, and a line feed added to a
  last line that has none. For source without carriage returns that ends in a line feed this is
  the source itself. A quote in the path would end the file name of the line directive early.
\<close>

theorem preprocess_transparent:
  assumes "list_all plain_line (split_lines src)" and "dquote \<notin> set path" and "newline \<notin> set path"
  shows "\<exists>out. preprocess (Suc k) env src path = Some (Inr out) \<and> lex out path' = lex (unlines (split_lines src)) path
    \<and> (carriage_return \<notin> set src \<and> (src = [] \<or> last src = newline) \<longrightarrow> lex out path' = lex src path)"
proof -
  have "lex (line_directive path 1 @ unlines (split_lines src)) path' = lex_loop (lexer_at path 1 (unlines (split_lines src)))"
    unfolding lex_def by (rule lex_line_directive) (use assms(2,3) in \<open>simp_all add: new_lexer_def\<close>)
  then have "lex (line_directive path 1 @ unlines (split_lines src)) path' = lex (unlines (split_lines src)) path"
    by (simp add: lex_def new_lexer_def lexer_at_def)
  then show ?thesis using preprocess_plain [OF assms(1)] unlines_split_lines [of src] by auto
qed

definition no_files :: pp_env where
  "no_files = \<lparr>env_read = Map.empty, env_incdirs = []\<rparr>"

definition plain_source :: string where
  "plain_source = ''start: nop'' @ [newline] @ ''.set k, 3'' @ [carriage_return, newline] @ ''  add x0, x0, #k // two''"

lemma preprocess_transparent_witness:
  "\<exists>out. preprocess 1 no_files plain_source ''a.s'' = Some (Inr out)
     \<and> lex out ''other'' = lex (''start: nop'' @ [newline] @ ''.set k, 3'' @ [newline] @ ''  add x0, x0, #k // two'' @ [newline]) ''a.s''"
proof -
  have "list_all plain_line (split_lines plain_source)" by code_simp
  moreover have "unlines (split_lines plain_source)
      = ''start: nop'' @ [newline] @ ''.set k, 3'' @ [newline] @ ''  add x0, x0, #k // two'' @ [newline]"
    by code_simp
  ultimately show ?thesis
    using preprocess_transparent [of plain_source "''a.s''" 0 no_files "''other''"] by fastforce
qed

section \<open>Blocks that are not assembled\<close>

lemma collect_macro_body_append:
  "collect_macro_body ls = Inr (b, r) \<Longrightarrow> collect_macro_body (ls @ rest) = Inr (b, r @ rest)"
  by (induction ls arbitrary: b) (auto simp: Let_def split: if_splits elim!: sbindE)

lemma collect_macro_body_length:
  "collect_macro_body ls = Inr (b, r) \<Longrightarrow> length ls = length b + 1 + length r"
  by (induction ls arbitrary: b) (auto simp: Let_def split: if_splits elim!: sbindE)

text \<open>
  Lines that close the blocks and macros they open; the list holds, for every open block, whether its
  \<^verbatim>\<open>.else\<close> has been seen.
\<close>

function closed_lines :: "bool list \<Rightarrow> string list \<Rightarrow> bool" where
  "closed_lines hs [] \<longleftrightarrow> hs = []"
| "closed_lines hs (l # ls) \<longleftrightarrow>
     (let t = trim_left l in
      if is_if_line t then closed_lines (False # hs) ls
      else if is_else_line t then hs \<noteq> [] \<and> \<not> hd hs \<and> closed_lines (True # tl hs) ls
      else if is_endif_line t then hs \<noteq> [] \<and> closed_lines (tl hs) ls
      else if is_macro_line t then (case collect_macro_body ls of Inl e \<Rightarrow> False | Inr (b, r) \<Rightarrow> closed_lines hs r)
      else \<not> is_endm_line t \<and> closed_lines hs ls)"
  by pat_completeness auto
termination
  by (relation "measure (\<lambda>(hs, ls). length ls)") (auto dest: collect_macro_body_shorter)

definition off_frame :: "bool \<Rightarrow> if_frame" where
  "off_frame h = \<lparr>fr_active = False, fr_taken = True, fr_had_else = h\<rparr>"

lemma rbind_simps [simp]: "rbind None f = None" "rbind (Some (Inl e)) f = Some (Inl e)" "rbind (Some (Inr a)) f = f a"
  by (simp_all add: rbind_def)

lemma off_inactive: "\<not> all_active stack \<Longrightarrow> \<not> all_active (map off_frame hs @ stack)"
  by (simp add: all_active_def)

lemma push_off: "\<not> all_active stack \<Longrightarrow> push_if t pp (map off_frame hs @ stack) = Inr (map off_frame (False # hs) @ stack)"
  using off_inactive [of stack hs] by (simp add: push_if_def off_frame_def)

lemma flip_off:
  assumes "\<not> all_active stack" and "hs \<noteq> []" and "\<not> hd hs"
  shows "flip_else (map off_frame hs @ stack) = Inr (map off_frame (True # tl hs) @ stack)"
proof -
  obtain h hs' where hs: "hs = h # hs'" using assms(2) by (cases hs) auto
  obtain x xs where "map off_frame hs' @ stack = x # xs"
    using assms(1) by (cases "map off_frame hs' @ stack") (auto simp: all_active_def)
  then show ?thesis using assms(3) hs by (simp add: flip_else_def off_frame_def)
qed

lemma pop_off:
  assumes "stack \<noteq> []" and "hs \<noteq> []"
  shows "pop_endif (map off_frame hs @ stack) = Inr (map off_frame (tl hs) @ stack)"
proof -
  obtain h hs' where hs: "hs = h # hs'" using assms(2) by (cases hs) auto
  obtain x xs where "map off_frame hs' @ stack = x # xs" using assms(1) by (cases "map off_frame hs' @ stack") auto
  then show ?thesis using hs by (simp add: pop_endif_def)
qed

lemma closed_lines_skipped:
  assumes "\<not> all_active stack"
  shows "closed_lines hs ls \<Longrightarrow> process_lines (Suc k) env (ls @ rest) path n (map off_frame hs @ stack) pp
    = process_lines (Suc k) env rest path (n + length ls) stack pp"
proof (induction hs ls arbitrary: n rule: closed_lines.induct)
  case (2 hs l ls)
  let ?t = "trim_left l"
  have ne: "stack \<noteq> []" using assms by (auto simp: all_active_def)
  note off = off_inactive [OF assms, of hs]
  consider "is_if_line ?t" | "\<not> is_if_line ?t" "is_else_line ?t" | "\<not> is_if_line ?t" "\<not> is_else_line ?t" "is_endif_line ?t"
    | b r where "\<not> is_if_line ?t" "\<not> is_else_line ?t" "\<not> is_endif_line ?t" "is_macro_line ?t" "collect_macro_body ls = Inr (b, r)"
    | "\<not> is_if_line ?t" "\<not> is_else_line ?t" "\<not> is_endif_line ?t" "\<not> is_macro_line ?t" "\<not> is_endm_line ?t"
    using 2(6) by (auto simp: Let_def split: if_splits sum.splits)
  then show ?case
  proof cases
    case 1
    then show ?thesis using 2(1) [OF refl 1] 2(6) push_off [OF assms] by (simp add: Let_def del: list.map)
  next
    case other: 2
    then show ?thesis using 2(2) [OF refl other] 2(6) flip_off [OF assms, of hs] by (simp add: Let_def del: list.map)
  next
    case 3
    then show ?thesis using 2(3) [OF refl 3] 2(6) pop_off [OF ne, of hs] by (simp add: Let_def)
  next
    case 4
    then show ?thesis using 2(4) [OF refl 4 refl] 2(6) off collect_macro_body_append [OF 4(5)] collect_macro_body_length [OF 4(5)]
      by (simp add: Let_def add.assoc)
  next
    case 5
    then show ?thesis using 2(5) [OF refl 5(1-4)] 2(6) off by (simp add: Let_def)
  qed
qed simp

text \<open>
  C10. A conditional block whose symbol is not set, or set to zero, contributes nothing: for every
  body that closes the blocks and macros it opens, whatever else it holds, the lines after
  \<^verbatim>\<open>.endif\<close> are processed in the state and with the output they would have had the block not been
  there, and the preprocessor counts the lines of the block. (Nothing is written for the block, not
  even blank lines or a line directive, so the lexer's positions after it are too low by its lines.)
\<close>

theorem false_block_skipped:
  assumes "is_if_line (trim_left first)" and "eval_if_condition (trim_left first) pp = Inr False" and "all_active stack" and "stack \<noteq> []"
    and "closed_lines [] blk" and "is_endif_line (trim_left last_line)"
  shows "process_lines (Suc k) env (first # blk @ last_line # rest) path n stack pp
    = process_lines (Suc k) env rest path (n + length blk + 2) stack pp"
proof -
  have e: "\<not> is_if_line (trim_left last_line) \<and> \<not> is_else_line (trim_left last_line)"
  proof (cases "trim_left last_line = ''.endif''")
    case False
    then obtain u where "trim_left last_line = ''.endif '' @ u"
      using assms(6) by (metis append_take_drop_id has_prefix_def is_endif_line_def)
    then show ?thesis by (simp add: is_if_line_def is_else_line_def has_prefix_def)
  qed (simp add: is_if_line_def is_else_line_def has_prefix_def)
  let ?off = "\<lparr>fr_active = False, fr_taken = False, fr_had_else = False\<rparr>"
  have "\<not> all_active (?off # stack)" by (simp add: all_active_def)
  from closed_lines_skipped [OF this assms(5), of k env "last_line # rest" path "n + 1" pp]
  have "process_lines (Suc k) env (first # blk @ last_line # rest) path n stack pp
      = process_lines (Suc k) env (last_line # rest) path (n + 1 + length blk) (?off # stack) pp"
    using assms(1-3) by (simp add: push_if_def Let_def)
  also have "pop_endif (?off # stack) = Inr stack" using assms(4) by (cases stack) (simp_all add: pop_endif_def)
  then have "process_lines (Suc k) env (last_line # rest) path (n + 1 + length blk) (?off # stack) pp
      = process_lines (Suc k) env rest path (n + length blk + 2) stack pp"
    using e assms(6) by (simp add: Let_def)
  finally show ?thesis .
qed

lemma false_block_skipped_witness:
  "process_lines 1 no_files [''.if DEBUG // off'', '' .macro m a'', '' .endif'', '' .endm'', ''.if X'', ''b .'', ''.else'', ''.include gone'',
       ''.endif'', ''bl trace'', ''.endif'', ''nop''] ''a.s'' 1 [frame0] new_preproc
   = process_lines 1 no_files [''nop''] ''a.s'' 12 [frame0] new_preproc"
proof -
  let ?b = "['' .macro m a'', '' .endif'', '' .endm'', ''.if X'', ''b .'', ''.else'', ''.include gone'', ''.endif'', ''bl trace'']"
  have "is_if_line (trim_left ''.if DEBUG // off'')" and "is_endif_line (trim_left ''.endif'')" and "closed_lines [] ?b" by code_simp+
  moreover have "strip_trailing_comment (trim_space (trim_prefix (trim_left ''.if DEBUG // off'') ''.if'')) = ''DEBUG''"
    and "is_bare_ident ''DEBUG''" by code_simp+
  then have "eval_if_condition (trim_left ''.if DEBUG // off'') new_preproc = Inr False"
    by (simp add: eval_if_condition_def new_preproc_def)
  moreover have "[frame0] \<noteq> []" by simp
  ultimately have "process_lines (Suc 0) no_files (''.if DEBUG // off'' # ?b @ ''.endif'' # [''nop'']) ''a.s'' 1 [frame0] new_preproc
      = process_lines (Suc 0) no_files [''nop''] ''a.s'' (1 + length ?b + 2) [frame0] new_preproc"
    by (intro false_block_skipped active_frame0)
  then show ?thesis by (simp del: process_lines.simps add: eval_nat_numeral)
qed

section \<open>Include cycles\<close>

text \<open>
  C40.  A file that includes itself before anything else is never left: whatever bound is put on the
  nesting, the preprocessor reaches it; the program recurses until its memory is used up, where a
  recursive macro is reported as a cycle.
\<close>

theorem include_cycle_diverges:
  assumes "find_include env inc path = Some (path, src)" and "split_lines src = ln # lns"
    and "\<not> is_if_line (trim_left ln)" and "\<not> is_else_line (trim_left ln)" and "\<not> is_endif_line (trim_left ln)"
    and "\<not> is_macro_line (trim_left ln)" and "\<not> is_endm_line (trim_left ln)" and "try_parse_include (trim_left ln) = Some inc"
  shows "preprocess k env src path = None"
proof -
  have "process_lines k env (ln # lns) path n [frame0] pp = None" for n pp
    by (induction k arbitrary: n pp) (use assms in \<open>simp_all add: Let_def\<close>)
  then show ?thesis by (simp add: preprocess_def process_file_def assms(2))
qed

definition include_self :: string where
  "include_self = ''.include '' @ [dquote] @ ''a.s'' @ [dquote] @ '' // again''"

definition self_include :: pp_env where
  "self_include = \<lparr>env_read = (\<lambda>p. if p = ''a.s'' then Some include_self else None), env_incdirs = []\<rparr>"

lemma include_cycle_diverges_witness: "\<forall>k. preprocess k self_include include_self ''a.s'' = None"
proof
  fix k
  have "find_include self_include ''a.s'' ''a.s'' = Some (''a.s'', include_self)"
    and "split_lines include_self = [include_self]" by code_simp+
  then show "preprocess k self_include include_self ''a.s'' = None"
    by (rule include_cycle_diverges) code_simp+
qed

end
