(* ===== verification/Spec2Isabelle.thy ===== *)
theory Spec2Isabelle
  imports Enc_Branches Enc_Overlay Enc_Table File_Props Edit_File Spill_Props Asm_Agree Compact_Props Errata_Props
    Net_Props Tftp_Props Net_Dhcp Net_Manifest Zx0_Trace Fe_Translate Fe_Strip Fe_Exprs Fe_Preproc_Props
begin

text \<open>
  Verification of the Go tools of the repository: the AArch64 assembler that runs on the host
  (\<^verbatim>\<open>tools/sam-aarch64\<close>, \<^verbatim>\<open>tools/sam-aarch64-format\<close>, \<^verbatim>\<open>tools/aarch64enc\<close>, \<^verbatim>\<open>tools/aarch64dec\<close>),
  the network boot oracle (\<^verbatim>\<open>tools/netboot-oracle\<close>) and the ZX0 compressor (\<^verbatim>\<open>tools/zx0-greedy\<close>).

  \<^bold>\<open>The program and its parts.\<close>  A source file passes through the front end (preprocessor, lexer,
  parser, optional section flattening) into a stream of symbolic records and a symbol table.  Pass 1 walks
  the records and fixes every address; pass 2 walks them again and emits the image, encoding each
  instruction with the form tables; an erratum pass may rewrite the image or ask for a second layout.
  Compaction replaces the symbolic records by frozen instruction words with patches, which is the
  form a \<^verbatim>\<open>.tbn\<close> file holds and the on-target editor loads.  The editor keeps a document of lines in
  blocks over a paged memory whose blocks can be spilled.  The network oracle states what the
  on-target code does on the wire: frames, DHCP, TFTP, a TCP client, and the store on disk.

  \<^bold>\<open>Conventions.\<close>  A Go integer is a word of its width, signed where the source reads it so (\<open>sint\<close>);
  lengths and positions that the source cannot drive to overflow are \<open>nat\<close> or \<open>int\<close>.  A byte slice is
  a list of bytes, a string a list of characters.  A function that returns an error or may panic
  has the result type \<open>error + 'a\<close> of \<^verbatim>\<open>Prelude\<close>, where \<open>Panic\<close> is a run-time panic.  Mutable structures
  are records returned updated; pointers that are compared (\<^verbatim>\<open>Edit_Model\<close>) are addresses.

  \<^bold>\<open>Theories and code.\<close>
  \<^item> \<^verbatim>\<open>Prelude\<close>, \<^verbatim>\<open>Bytes\<close>, \<^verbatim>\<open>Codec\<close>: machine types, errors, little-endian bytes, and the locale of a
    writer and the reader that inverts it.
  \<^item> \<^verbatim>\<open>Enc_Slots\<close>, \<^verbatim>\<open>Enc_Forms\<close>, \<^verbatim>\<open>Enc_Logical\<close>, \<^verbatim>\<open>Enc_Encode\<close>, \<^verbatim>\<open>Enc_Overlay\<close>: \<^verbatim>\<open>aarch64enc\<close>, with both form
    tables entry for entry.  \<^verbatim>\<open>Enc_Frame\<close> and \<^verbatim>\<open>Enc_Table\<close>: an encoder stays inside its field, the tables
    are well typed.  \<^verbatim>\<open>Dec_Logical\<close>, \<^verbatim>\<open>Dec_Branch\<close>, \<^verbatim>\<open>Enc_Branches\<close>: the decoders of \<^verbatim>\<open>aarch64dec\<close> that invert them.
  \<^item> \<^verbatim>\<open>Fmt_Tables\<close>, \<^verbatim>\<open>Fmt_Sysregs\<close>, \<^verbatim>\<open>Tbn_*\<close>: \<^verbatim>\<open>sam-aarch64-format\<close>: name tables, expression bytecode, operands, records,
    the tables of a file and the file.  \<^verbatim>\<open>Expr_Props\<close>, \<^verbatim>\<open>Record_Props\<close>, \<^verbatim>\<open>File_Props\<close>: what is written is read back;
    an expression evaluates to the value of its tree.
  \<^item> \<^verbatim>\<open>Fe_Lexer\<close>, \<^verbatim>\<open>Fe_Expr\<close>, \<^verbatim>\<open>Fe_Operand\<close>, \<^verbatim>\<open>Fe_Parser\<close>, \<^verbatim>\<open>Fe_Text\<close>, \<^verbatim>\<open>Fe_Preproc\<close>, \<^verbatim>\<open>Fe_Flatten\<close>, \<^verbatim>\<open>Fe_Strip\<close>,
    \<^verbatim>\<open>Fe_Translate\<close>: \<^verbatim>\<open>sam-aarch64/frontend\<close>.  \<^verbatim>\<open>Fe_Tokens\<close>: spelled tokens are lexed back.  \<^verbatim>\<open>Fe_Exprs\<close>: an
    expression printed with the parentheses it needs is parsed to code of its value.  \<^verbatim>\<open>Fe_Preproc_Props\<close>:
    source without directives is transparent, false blocks vanish, include cycles are never left.
    \<^verbatim>\<open>Fe_Strip\<close> also shows that comments do not take part in assembly.
  \<^item> \<^verbatim>\<open>Asm_State\<close>, \<^verbatim>\<open>Asm_Pass1\<close>, \<^verbatim>\<open>Asm_Insn\<close>, \<^verbatim>\<open>Asm_Special\<close>, \<^verbatim>\<open>Asm_Pass2\<close>, \<^verbatim>\<open>Asm_Compact\<close>, \<^verbatim>\<open>Asm_Errata\<close>:
    \<^verbatim>\<open>sam-aarch64/assemble\<close>.  \<^verbatim>\<open>Asm_Layout\<close>, \<^verbatim>\<open>Asm_Emit\<close>, \<^verbatim>\<open>Asm_Agree\<close>: the passes agree on every address.
    \<^verbatim>\<open>Compact_Words\<close>, \<^verbatim>\<open>Compact_Frames\<close>, \<^verbatim>\<open>Compact_Props\<close>: the compacted stream assembles to the same image.
    \<^verbatim>\<open>Errata_Props\<close>: the rewrite of one erratum is sound, the second layout of the other is not.
  \<^item> \<^verbatim>\<open>Edit_Model\<close>, \<^verbatim>\<open>Edit_File\<close>: \<^verbatim>\<open>sam-aarch64/editmodel\<close>.  \<^verbatim>\<open>Edit_Inv\<close>, \<^verbatim>\<open>Edit_History\<close>, \<^verbatim>\<open>Edit_Props\<close>, \<^verbatim>\<open>Edit_Spec\<close>: its
    invariant, and the refinement of a plain sequence of lines with undo and redo.
  \<^item> \<^verbatim>\<open>Page_Pool\<close>, \<^verbatim>\<open>Page_Spill\<close>, \<^verbatim>\<open>Spill_Props\<close>: \<^verbatim>\<open>sam-aarch64/pagepool\<close>; spilling is invisible to the owner of a block.
  \<^item> \<^verbatim>\<open>Net_Frame\<close>, \<^verbatim>\<open>Net_Tcp\<close>, \<^verbatim>\<open>Net_Conn\<close>, \<^verbatim>\<open>Net_Dhcp\<close>, \<^verbatim>\<open>Net_Store\<close>, \<^verbatim>\<open>Net_Manifest\<close>, \<^verbatim>\<open>Tftp_Packets\<close>, \<^verbatim>\<open>Tftp_Xfer\<close>,
    \<^verbatim>\<open>Tftp_Loops\<close>: \<^verbatim>\<open>netboot-oracle\<close> (\<^verbatim>\<open>frame\<close>, \<^verbatim>\<open>tcp\<close>, \<^verbatim>\<open>dhcp\<close>, \<^verbatim>\<open>bdos\<close>, \<^verbatim>\<open>tftp\<close>).  \<^verbatim>\<open>Net_Stream\<close>, \<^verbatim>\<open>Net_Props\<close>,
    \<^verbatim>\<open>Tftp_Lockstep\<close>, \<^verbatim>\<open>Tftp_Windowed\<close>, \<^verbatim>\<open>Tftp_Props\<close>: what is delivered over a network that loses, repeats, delays
    and reorders packets, as step relations with their invariants, and that retransmission finishes.
  \<^item> \<^verbatim>\<open>Zx0_Model\<close>, \<^verbatim>\<open>Zx0_Bits\<close>, \<^verbatim>\<open>Zx0_Props\<close>, \<^verbatim>\<open>Zx0_Trace\<close>: \<^verbatim>\<open>zx0-greedy\<close>; the decoder inverts the compressor, the
    instrumented variants do not change its bytes.

  \<^bold>\<open>Interfaces.\<close>  The locales state what one part relies on of another and are interpreted on the
  model's own definitions where those are declared: a codec and a stream of them (\<^verbatim>\<open>Codec\<close>), the rows of a table
  (\<^verbatim>\<open>Tbn_Tables\<close>), the line store under the journals (\<^verbatim>\<open>Edit_History\<close>), the backend of the spill manager
  (\<^verbatim>\<open>Spill_Props\<close>), and the sink of a connection (\<^verbatim>\<open>Net_Stream\<close>).

  \<^bold>\<open>Bounds.\<close>  All functions are total.  Loops that end are given a measure.  The preprocessor alone takes
  a bound, on the nesting of files and expansions, because an include cycle has no end: \<open>None\<close> is
  the bound reached, and \<open>process_lines_mono\<close> shows that a result under some bound is the result under
  every larger one, so the bound is not part of a result.

  \<^bold>\<open>Parameters.\<close>  The file system of the preprocessor, the hash of a connection, the backend of the spill
  manager and the writer a file goes to are arguments; what is assumed of them is stated where
  they are used.

  \<^bold>\<open>Not modelled.\<close>  The texts and positions inside error messages (the fixed part is kept); memory
  exhaustion; the line-length limit of Go's scanner; case mapping, trimming and word splitting outside
  ASCII; the use counters of the assembler's diagnostics when they are not attached; JSON decoding of a
  section layout.  Of the tools: the disassembler's formatting beyond the fields named above, the
  text renderer (\<^verbatim>\<open>sam-aarch64/render\<close>), TLS, HTTP and the packet capture of the network oracle with its
  command-line drivers, the Z80 harnesses and device emulations, which drive a third-party CPU core, the
  task registry, the table generators, the editor's screen prototype, and the small disk, font and
  benchmark utilities, which are input and output around the parts above.
\<close>

end
